(* ===== verification/Ext2_Prelude.thy ===== *)
theory Ext2_Prelude
  imports Main "HOL-Library.Word" "HOL-Library.Monad_Syntax"
begin

text \<open>
  The prelude of the development: the machine types of the driver, the bit facts and the list
  facts that several components share, and the collections the components add to.

  The driver is 32-bit x86 code built with one compiler, so \<open>unsigned long\<close>, \<open>unsigned int\<close> and
  \<open>__u32\<close> are 32 bits wide and \<open>__u16\<close> is 16 bits wide.
\<close>

unbundle bit_operations_syntax

type_synonym u8 = "8 word"
type_synonym u16 = "16 word"
type_synonym u32 = "32 word"

named_theorems buf_simps \<open>reading a buffer after a write to it\<close>
named_theorems frame_simps \<open>what an operation leaves unchanged\<close>

subsection \<open>Variable shifts of a 32-bit register\<close>

text \<open>
  The shift count of a variable shift is taken modulo 32, as the x86 \<open>SHL\<close> and \<open>SHR\<close>
  instructions do (C leaves a count of 32 undefined, and the allocator uses one).
\<close>

definition shl32 :: "u32 \<Rightarrow> nat \<Rightarrow> u32" where
  "shl32 w n = push_bit (n mod 32) w"

definition shr32 :: "u32 \<Rightarrow> nat \<Rightarrow> u32" where
  "shr32 w n = drop_bit (n mod 32) w"

lemma bit_shl32: "n < 32 \<Longrightarrow> bit (shl32 w n) b \<longleftrightarrow> b < 32 \<and> n \<le> b \<and> bit w (b - n)"
  by (auto simp: shl32_def bit_push_bit_iff dest: bit_imp_le_length)

lemma bit_shr32: "n < 32 \<Longrightarrow> bit (shr32 w n) b \<longleftrightarrow> bit w (n + b)"
  by (auto simp: shr32_def bit_drop_bit_eq)

lemma word_all_ones_iff: "(w :: 'a::len word) = -1 \<longleftrightarrow> (\<forall>n < LENGTH('a). bit w n)"
  by (auto simp: bit_eq_iff bit_minus_1_iff dest: bit_imp_le_length)

lemma not_all_ones_bit: "(w :: 'a::len word) \<noteq> -1 \<Longrightarrow> \<exists>n < LENGTH('a). \<not> bit w n"
  by (simp add: word_all_ones_iff)

lemma unat_of_nat_u32: "n < 2 ^ 32 \<Longrightarrow> unat (of_nat n :: u32) = n"
  by (simp add: unat_of_nat)

subsection \<open>Lists updated by index\<close>

lemma nth_list_update_if:
  "i < length xs \<Longrightarrow> xs[j := x] ! i = (if i = j then x else xs ! i)"
  by (auto simp: nth_list_update)

lemma sum_list_update_nat:
  fixes xs :: "nat list"
  shows "i < length xs \<Longrightarrow> sum_list (xs[i := x]) + xs ! i = sum_list xs + x"
  by (induction xs arbitrary: i) (auto split: nat.splits)

lemma filter_range_insert:
  fixes P :: "nat \<Rightarrow> bool"
  assumes "j < n" and "\<not> P j"
  shows "card {i. i < n \<and> (i = j \<or> P i)} = Suc (card {i. i < n \<and> P i})"
proof -
  have "{i. i < n \<and> (i = j \<or> P i)} = insert j {i. i < n \<and> P i}"
    using assms by auto
  then show ?thesis using assms by simp
qed

end
