(* ===== verification/Ext2_Bitops.thy ===== *)
theory Ext2_Bitops
  imports Ext2_Prelude
begin

text \<open>
  Bits in a buffer: \<open>include/asm/bitops.h\<close>, \<open>src/vfs/bitops.asm\<close> and \<open>src/ext2/bitmap.c\<close>.
  The memory of a buffer is its list of bytes. \<open>rd8\<close> and \<open>rd32\<close> are the driver's two views of it
  (\<open>unsigned char\<close> and little-endian \<open>unsigned long\<close>); \<open>test_bit\<close>, \<open>set_bit\<close> and \<open>clear_bit\<close>
  number the bits as the x86 instructions \<open>BT\<close>, \<open>BTS\<close> and \<open>BTR\<close> do. A write outside the buffer
  is not a behaviour of the model: it is \<open>None\<close>.
\<close>

subsection \<open>The memory of a buffer\<close>

definition rd8 :: "u8 list \<Rightarrow> nat \<Rightarrow> u8" where
  "rd8 bs i = (if i < length bs then bs ! i else 0)"

definition rd32 :: "u8 list \<Rightarrow> nat \<Rightarrow> u32" where
  "rd32 bs i = ucast (rd8 bs (4 * i)) OR push_bit 8 (ucast (rd8 bs (4 * i + 1)))
     OR push_bit 16 (ucast (rd8 bs (4 * i + 2))) OR push_bit 24 (ucast (rd8 bs (4 * i + 3)))"

subsection \<open>bitops.asm: test_bit, set_bit, clear_bit, ffz\<close>

definition test_bit :: "nat \<Rightarrow> u8 list \<Rightarrow> bool" where
  "test_bit nr bs = bit (rd8 bs (nr div 8)) (nr mod 8)"

definition poke_bit :: "bool \<Rightarrow> nat \<Rightarrow> u8 list \<Rightarrow> u8 list" where
  "poke_bit v nr bs =
     bs[nr div 8 := (if v then Bit_Operations.set_bit (nr mod 8) (bs ! (nr div 8))
                     else Bit_Operations.unset_bit (nr mod 8) (bs ! (nr div 8)))]"

definition set_bit :: "nat \<Rightarrow> u8 list \<Rightarrow> (bool \<times> u8 list) option" where
  "set_bit nr bs = (if nr div 8 < length bs then Some (test_bit nr bs, poke_bit True nr bs) else None)"

definition clear_bit :: "nat \<Rightarrow> u8 list \<Rightarrow> (bool \<times> u8 list) option" where
  "clear_bit nr bs = (if nr div 8 < length bs then Some (test_bit nr bs, poke_bit False nr bs) else None)"

function ffz_from :: "u32 \<Rightarrow> nat \<Rightarrow> nat" where
  "ffz_from w n = (if n < 32 \<and> bit w n then ffz_from w (Suc n) else n)"
  by pat_completeness auto
termination by (relation "measure (\<lambda>(w, n). 32 - n)") auto

definition ffz :: "u32 \<Rightarrow> nat" where
  "ffz w = ffz_from w 0"

declare ffz_from.simps [simp del]

subsection \<open>bitops.h: memscan, find_first_zero_bit, find_next_zero_bit\<close>

text \<open>\<open>memscan\<close> is given the offset of the area in the buffer; it returns an offset in the area.\<close>

function memscan_from :: "(nat \<Rightarrow> u8) \<Rightarrow> u8 \<Rightarrow> nat \<Rightarrow> nat \<Rightarrow> nat" where
  "memscan_from x cc n i = (if x i \<noteq> cc \<and> i < n then memscan_from x cc n (Suc i) else i)"
  by pat_completeness auto
termination by (relation "measure (\<lambda>(x, cc, n, i). n - i)") auto

definition memscan :: "(nat \<Rightarrow> u8) \<Rightarrow> u8 \<Rightarrow> nat \<Rightarrow> nat" where
  "memscan x cc n = (let i = memscan_from x cc n 0 in if x i = cc then i else n)"

declare memscan_from.simps [simp del]

text \<open>The two loops of \<open>find_first_zero_bit\<close>, over the \<open>unsigned long\<close> array \<open>x\<close>.\<close>

function ffzb_word :: "(nat \<Rightarrow> u32) \<Rightarrow> nat \<Rightarrow> nat \<Rightarrow> nat" where
  "ffzb_word x sz i = (if i < sz \<and> x i = -1 then ffzb_word x sz (Suc i) else i)"
  by pat_completeness auto
termination by (relation "measure (\<lambda>(x, sz, i). sz - i)") auto

function ffzb_bit :: "u32 \<Rightarrow> nat \<Rightarrow> nat" where
  "ffzb_bit w j = (if j < 32 \<and> (w AND push_bit j 1) \<noteq> 0 then ffzb_bit w (Suc j) else j)"
  by pat_completeness auto
termination by (relation "measure (\<lambda>(w, j). 32 - j)") auto

declare ffzb_word.simps [simp del] ffzb_bit.simps [simp del]

definition find_first_zero_bit :: "(nat \<Rightarrow> u32) \<Rightarrow> nat \<Rightarrow> nat" where
  "find_first_zero_bit x sz =
     (let n = sz div 32; i = ffzb_word x n 0
      in if i = n then 32 * i else 32 * i + ffzb_bit (x i) 0)"

text \<open>
  \<open>size - 32 * (p - addr)\<close> is a signed difference that \<open>find_first_zero_bit\<close> takes as unsigned.
\<close>

definition find_next_zero_bit :: "(nat \<Rightarrow> u32) \<Rightarrow> nat \<Rightarrow> nat \<Rightarrow> nat" where
  "find_next_zero_bit x sz offset =
     (let p = offset div 32; b = offset mod 32; q = shr32 (x p) b
      in if b \<noteq> 0 then
           let set = find_first_zero_bit (\<lambda>_. q) 32
           in if set < 32 - b then set + offset
              else let p = Suc p
                   in offset + (32 - b) +
                      find_first_zero_bit (\<lambda>i. x (p + i)) (unat (of_nat sz - 32 * of_nat p :: u32))
         else offset + find_first_zero_bit (\<lambda>i. x (p + i)) (unat (of_nat sz - 32 * of_nat p :: u32)))"

subsection \<open>bitmap.c: ext2_count_free\<close>

definition nibblemap :: "nat list" where
  "nibblemap = [4, 3, 3, 2, 3, 2, 2, 1, 3, 2, 2, 1, 2, 1, 1, 0]"

definition count_free_byte :: "u8 \<Rightarrow> nat" where
  "count_free_byte b = nibblemap ! unat (b AND 15) + nibblemap ! unat (drop_bit 4 b AND 15)"

definition ext2_count_free :: "u8 list option \<Rightarrow> nat \<Rightarrow> nat" where
  "ext2_count_free mp numchars =
     (case mp of None \<Rightarrow> 0
      | Some bs \<Rightarrow> sum_list (List.map (\<lambda>i. count_free_byte (rd8 bs i)) [0..<numchars]))"


section \<open>What the bit routines compute\<close>

subsection \<open>Bits of the two views of a buffer\<close>

lemma rd8_update [buf_simps]:
  "j < length bs \<Longrightarrow> rd8 (bs[j := b]) i = (if i = j then b else rd8 bs i)"
  by (auto simp: rd8_def nth_list_update)

lemma not_bit_u8: "8 \<le> n \<Longrightarrow> bit (w :: u8) n \<longleftrightarrow> False"
  using bit_imp_le_length [of w n] by auto

lemma byte_of_word_bit:
  assumes "n = 8 * q + r" and "r < 8"
  shows "(32 * i + n) div 8 = 4 * i + q" and "(32 * i + n) mod 8 = (r :: nat)"
proof -
  have eq: "32 * i + n = r + 8 * (4 * i + q)" using assms by simp
  show "(32 * i + n) div 8 = 4 * i + q" using assms(2) by (simp only: eq div_mult_self2)
  show "(32 * i + n) mod 8 = r" using assms(2) by (simp only: eq mod_mult_self2 mod_less)
qed

lemma bit_rd32: "n < 32 \<Longrightarrow> bit (rd32 bs i) n = test_bit (32 * i + n) bs"
proof -
  assume n: "n < 32"
  then consider "n < 8" | "8 \<le> n" "n < 16" | "16 \<le> n" "n < 24" | "24 \<le> n" "n < 32" by linarith
  then show ?thesis
  proof cases
    case 1
    have pos: "(32 * i + n) div 8 = 4 * i" "(32 * i + n) mod 8 = n"
      using 1 byte_of_word_bit [of n 0 n i] by auto
    show ?thesis using 1
      by (simp add: pos rd32_def test_bit_def bit_or_iff bit_push_bit_iff bit_ucast_iff)
  next
    case 2
    have pos: "(32 * i + n) div 8 = 4 * i + 1" "(32 * i + n) mod 8 = n - 8"
      using 2 byte_of_word_bit [of n 1 "n - 8" i] by auto
    show ?thesis using 2
      by (auto simp: pos rd32_def test_bit_def bit_or_iff bit_push_bit_iff bit_ucast_iff not_bit_u8)
  next
    case 3
    have pos: "(32 * i + n) div 8 = 4 * i + 2" "(32 * i + n) mod 8 = n - 16"
      using 3 byte_of_word_bit [of n 2 "n - 16" i] by auto
    show ?thesis using 3
      by (auto simp: pos rd32_def test_bit_def bit_or_iff bit_push_bit_iff bit_ucast_iff not_bit_u8)
  next
    case 4
    have pos: "(32 * i + n) div 8 = 4 * i + 3" "(32 * i + n) mod 8 = n - 24"
      using 4 byte_of_word_bit [of n 3 "n - 24" i] by auto
    show ?thesis using 4
      by (auto simp: pos rd32_def test_bit_def bit_or_iff bit_push_bit_iff bit_ucast_iff not_bit_u8)
  qed
qed

lemma bit_rd32_pos: "bit (rd32 bs (k div 32)) (k mod 32) = test_bit k bs"
  by (simp add: bit_rd32)

lemma length_poke_bit [simp]: "length (poke_bit v nr bs) = length bs"
  by (simp add: poke_bit_def)

lemma test_bit_poke_bit [buf_simps]:
  "nr div 8 < length bs \<Longrightarrow> test_bit m (poke_bit v nr bs) = (if m = nr then v else test_bit m bs)"
proof -
  assume nr: "nr div 8 < length bs"
  have eq: "m = nr \<longleftrightarrow> m div 8 = nr div 8 \<and> m mod 8 = nr mod 8"
    by (metis div_mult_mod_eq)
  have rd: "rd8 bs (nr div 8) = bs ! (nr div 8)"
    using nr by (simp add: rd8_def)
  show ?thesis
  proof (cases "m div 8 = nr div 8")
    case True
    with nr eq rd show ?thesis
      by (auto simp: test_bit_def poke_bit_def rd8_update bit_set_bit_iff bit_unset_bit_iff)
  next
    case False
    with nr eq show ?thesis
      by (auto simp: test_bit_def poke_bit_def rd8_update)
  qed
qed

lemma set_bit_SomeD:
  "set_bit nr bs = Some (was, bs') \<Longrightarrow>
     nr div 8 < length bs \<and> was = test_bit nr bs \<and> bs' = poke_bit True nr bs"
  by (auto simp: set_bit_def split: if_splits)

lemma clear_bit_SomeD:
  "clear_bit nr bs = Some (was, bs') \<Longrightarrow>
     nr div 8 < length bs \<and> was = test_bit nr bs \<and> bs' = poke_bit False nr bs"
  by (auto simp: clear_bit_def split: if_splits)

lemma test_bit_zero_byte: "rd8 bs i = 0 \<Longrightarrow> k div 8 = i \<Longrightarrow> \<not> test_bit k bs"
  by (simp add: test_bit_def)

subsection \<open>The linear searches\<close>

lemma ffz_from_spec:
  "n \<le> ffz_from w n \<and> (n \<le> 32 \<longrightarrow> ffz_from w n \<le> 32) \<and> (\<forall>k. n \<le> k \<and> k < ffz_from w n \<longrightarrow> bit w k)
   \<and> (ffz_from w n < 32 \<longrightarrow> \<not> bit w (ffz_from w n))"
proof (induction w n rule: ffz_from.induct)
  case (1 w n)
  show ?case
  proof (cases "n < 32 \<and> bit w n")
    case True
    with 1 have ih: "Suc n \<le> ffz_from w (Suc n) \<and> (Suc n \<le> 32 \<longrightarrow> ffz_from w (Suc n) \<le> 32) \<and>
        (\<forall>k. Suc n \<le> k \<and> k < ffz_from w (Suc n) \<longrightarrow> bit w k) \<and>
        (ffz_from w (Suc n) < 32 \<longrightarrow> \<not> bit w (ffz_from w (Suc n)))" by blast
    have eq: "ffz_from w n = ffz_from w (Suc n)"
      using True by (subst ffz_from.simps) simp
    have "bit w k" if "n \<le> k" "k < ffz_from w (Suc n)" for k
      using that ih True by (cases "k = n") auto
    with ih True show ?thesis by (auto simp: eq)
  next
    case False
    then have "ffz_from w n = n" by (auto simp: ffz_from.simps [of w n])
    with False show ?thesis by auto
  qed
qed

lemma ffz_free:
  assumes "w \<noteq> -1"
  shows "ffz w < 32 \<and> \<not> bit w (ffz w)"
proof -
  obtain n where n: "n < 32" "\<not> bit w n" using not_all_ones_bit [OF assms] by auto
  have "\<not> n < ffz_from w 0" using ffz_from_spec [of 0 w] n by auto
  then have "ffz w < 32" using n by (simp add: ffz_def)
  then show ?thesis using ffz_from_spec [of 0 w] by (simp add: ffz_def)
qed

lemma memscan_from_spec:
  "i \<le> n \<Longrightarrow> i \<le> memscan_from x cc n i \<and> memscan_from x cc n i \<le> n
     \<and> (\<forall>k. i \<le> k \<and> k < memscan_from x cc n i \<longrightarrow> x k \<noteq> cc)
     \<and> (memscan_from x cc n i < n \<longrightarrow> x (memscan_from x cc n i) = cc)"
proof (induction x cc n i rule: memscan_from.induct)
  case (1 x cc n i)
  show ?case
  proof (cases "x i \<noteq> cc \<and> i < n")
    case True
    then have ih: "Suc i \<le> memscan_from x cc n (Suc i) \<and> memscan_from x cc n (Suc i) \<le> n \<and>
        (\<forall>k. Suc i \<le> k \<and> k < memscan_from x cc n (Suc i) \<longrightarrow> x k \<noteq> cc) \<and>
        (memscan_from x cc n (Suc i) < n \<longrightarrow> x (memscan_from x cc n (Suc i)) = cc)"
      using 1 by simp
    have eq: "memscan_from x cc n i = memscan_from x cc n (Suc i)"
      using True by (subst memscan_from.simps) simp
    have "x k \<noteq> cc" if "i \<le> k" "k < memscan_from x cc n (Suc i)" for k
      using that ih True by (cases "k = i") auto
    with ih True show ?thesis by (auto simp: eq)
  next
    case False
    then have "memscan_from x cc n i = i" by (auto simp: memscan_from.simps [of x cc n i])
    with False 1 show ?thesis by auto
  qed
qed

lemma memscan_spec:
  "memscan x cc n \<le> n \<and> (\<forall>k < memscan x cc n. x k \<noteq> cc)
     \<and> (memscan x cc n < n \<longrightarrow> x (memscan x cc n) = cc)"
  using memscan_from_spec [of 0 n x cc] by (auto simp: memscan_def Let_def)

lemma memscan_upto: "memscan x cc n < n \<longleftrightarrow> (\<exists>k < n. x k = cc)"
  using memscan_spec [of x cc n] by (metis linorder_neqE_nat nat_less_le)


subsection \<open>find_first_zero_bit and find_next_zero_bit\<close>

definition words_bit :: "(nat \<Rightarrow> u32) \<Rightarrow> nat \<Rightarrow> bool" where
  "words_bit x k = bit (x (k div 32)) (k mod 32)"

lemma words_bit_rd32: "words_bit (rd32 bs) k = test_bit k bs"
  by (simp add: words_bit_def bit_rd32_pos)

lemma words_bit_shift: "words_bit (\<lambda>i. x (p + i)) k = words_bit x (32 * p + k)"
  by (simp add: words_bit_def)

lemma ffzb_word_spec:
  "i \<le> sz \<Longrightarrow> i \<le> ffzb_word x sz i \<and> ffzb_word x sz i \<le> sz
     \<and> (\<forall>k. i \<le> k \<and> k < ffzb_word x sz i \<longrightarrow> x k = -1)
     \<and> (ffzb_word x sz i < sz \<longrightarrow> x (ffzb_word x sz i) \<noteq> -1)"
proof (induction x sz i rule: ffzb_word.induct)
  case (1 x sz i)
  show ?case
  proof (cases "i < sz \<and> x i = -1")
    case True
    then have ih: "Suc i \<le> ffzb_word x sz (Suc i) \<and> ffzb_word x sz (Suc i) \<le> sz \<and>
        (\<forall>k. Suc i \<le> k \<and> k < ffzb_word x sz (Suc i) \<longrightarrow> x k = -1) \<and>
        (ffzb_word x sz (Suc i) < sz \<longrightarrow> x (ffzb_word x sz (Suc i)) \<noteq> -1)"
      using 1 by simp
    have eq: "ffzb_word x sz i = ffzb_word x sz (Suc i)"
      using True by (subst ffzb_word.simps) simp
    have "x k = -1" if "i \<le> k" "k < ffzb_word x sz (Suc i)" for k
      using that ih True by (cases "k = i") auto
    with ih True show ?thesis by (auto simp: eq)
  next
    case False
    then have "ffzb_word x sz i = i" by (auto simp: ffzb_word.simps [of x sz i])
    with False 1 show ?thesis by auto
  qed
qed

lemma ffzb_bit_spec:
  "j \<le> ffzb_bit w j \<and> (j \<le> 32 \<longrightarrow> ffzb_bit w j \<le> 32) \<and> (\<forall>k. j \<le> k \<and> k < ffzb_bit w j \<longrightarrow> bit w k)
     \<and> (ffzb_bit w j < 32 \<longrightarrow> \<not> bit w (ffzb_bit w j))"
proof (induction w j rule: ffzb_bit.induct)
  case (1 w j)
  show ?case
  proof (cases "j < 32 \<and> w AND push_bit j 1 \<noteq> 0")
    case True
    then have ih: "Suc j \<le> ffzb_bit w (Suc j) \<and> (Suc j \<le> 32 \<longrightarrow> ffzb_bit w (Suc j) \<le> 32) \<and>
        (\<forall>k. Suc j \<le> k \<and> k < ffzb_bit w (Suc j) \<longrightarrow> bit w k) \<and>
        (ffzb_bit w (Suc j) < 32 \<longrightarrow> \<not> bit w (ffzb_bit w (Suc j)))"
      using 1 by blast
    have eq: "ffzb_bit w j = ffzb_bit w (Suc j)"
      using True by (subst ffzb_bit.simps) simp
    have "bit w k" if "j \<le> k" "k < ffzb_bit w (Suc j)" for k
      using that ih True by (cases "k = j") (auto simp: and_exp_eq_0_iff_not_bit)
    with ih True show ?thesis by (auto simp: eq)
  next
    case False
    then have "ffzb_bit w j = j" by (auto simp: ffzb_bit.simps [of w j])
    with False show ?thesis by (auto simp: and_exp_eq_0_iff_not_bit)
  qed
qed

text \<open>
  \<open>first_zero P hi r\<close>: the search up to \<open>hi\<close> answers \<open>r\<close>. Everything below \<open>r\<close> is set, and \<open>r\<close>
  itself is clear unless the search ran to the end.
\<close>

definition first_zero :: "(nat \<Rightarrow> bool) \<Rightarrow> nat \<Rightarrow> nat \<Rightarrow> nat \<Rightarrow> bool" where
  "first_zero P lo hi r \<longleftrightarrow>
     lo \<le> r \<and> r \<le> hi \<and> (\<forall>k. lo \<le> k \<and> k < r \<longrightarrow> P k) \<and> (r < hi \<longrightarrow> \<not> P r)"

lemma first_zero_exists:
  "first_zero P lo hi r \<Longrightarrow> lo \<le> k \<Longrightarrow> k < hi \<Longrightarrow> \<not> P k \<Longrightarrow> r \<le> k \<and> r < hi \<and> \<not> P r"
  unfolding first_zero_def by (metis le_less_trans not_le)

lemma find_first_zero_bit_words:
  "first_zero (words_bit x) 0 (32 * (sz div 32)) (find_first_zero_bit x sz)"
proof -
  define n i where "n = sz div 32" and "i = ffzb_word x n 0"
  have sp: "i \<le> n" "\<forall>k < i. x k = -1" "i < n \<Longrightarrow> x i \<noteq> -1"
    using ffzb_word_spec [of 0 n x] by (auto simp: i_def)
  have below: "words_bit x k" if "k < 32 * i" for k
    using sp(2) that by (simp add: words_bit_def less_mult_imp_div_less mult.commute)
  show ?thesis
  proof (cases "i = n")
    case True
    then show ?thesis using below
      by (simp add: find_first_zero_bit_def first_zero_def n_def [symmetric] i_def [symmetric])
  next
    case False
    define b where "b = ffzb_bit (x i) 0"
    from False sp have "x i \<noteq> -1" by auto
    from not_all_ones_bit [OF this] obtain z where z: "z < 32" "\<not> bit (x i) z" by auto
    have bs: "\<forall>k < b. bit (x i) k" "b < 32 \<Longrightarrow> \<not> bit (x i) b"
      using ffzb_bit_spec [of 0 "x i"] by (auto simp: b_def)
    have b32: "b < 32" using bs(1) z by (metis le_less_trans not_le)
    have "words_bit x k" if "k < 32 * i + b" for k
    proof (cases "k < 32 * i")
      case False
      then have "k div 32 = i" "k mod 32 = k - 32 * i" "k - 32 * i < b"
        using that b32 by (auto simp: div_nat_eqI mod_nat_eqI)
      then show ?thesis using bs(1) by (simp add: words_bit_def)
    qed (rule below)
    moreover have "\<not> words_bit x (32 * i + b)"
      using b32 bs(2) by (simp add: words_bit_def)
    moreover have "32 * i + b \<le> 32 * n" using False sp b32 by simp
    ultimately show ?thesis using False
      by (simp add: find_first_zero_bit_def first_zero_def n_def [symmetric] i_def [symmetric]
          b_def [symmetric] Let_def)
  qed
qed

lemma find_first_zero_bit_spec:
  "32 dvd sz \<Longrightarrow> first_zero (\<lambda>k. test_bit k bs) 0 sz (find_first_zero_bit (rd32 bs) sz)"
  using find_first_zero_bit_words [of "rd32 bs" sz] by (simp add: words_bit_rd32 first_zero_def)

text \<open>
  With a size that is a multiple of 32 the two phases of \<open>find_next_zero_bit\<close> together are one
  search from \<open>offset\<close>.
\<close>

lemma unat_size_diff:
  "sz < 2 ^ 32 \<Longrightarrow> 32 * p \<le> sz \<Longrightarrow> unat (of_nat sz - 32 * of_nat p :: u32) = sz - 32 * p"
proof -
  assume sz: "sz < 2 ^ 32" and p: "32 * p \<le> sz"
  have "of_nat sz - 32 * of_nat p = (of_nat (sz - 32 * p) :: u32)"
    using p by (simp add: of_nat_diff)
  then show ?thesis using sz by (simp add: unat_of_nat)
qed

lemma rest_search:
  assumes sz: "sz < 2 ^ 32" "32 dvd sz" and p: "32 * p \<le> sz"
  shows "first_zero (words_bit x) (32 * p) sz
    (32 * p + find_first_zero_bit (\<lambda>i. x (p + i)) (unat (of_nat sz - 32 * of_nat p :: u32)))"
proof -
  define r where "r = find_first_zero_bit (\<lambda>i. x (p + i)) (sz - 32 * p)"
  have "32 dvd (sz - 32 * p)" using sz(2) by (simp add: dvd_diff_nat)
  then have "first_zero (words_bit (\<lambda>i. x (p + i))) 0 (sz - 32 * p) r"
    using find_first_zero_bit_words [of "\<lambda>i. x (p + i)" "sz - 32 * p"] by (simp add: r_def)
  then have r: "r \<le> sz - 32 * p" "\<forall>k < r. words_bit x (32 * p + k)"
    "r < sz - 32 * p \<longrightarrow> \<not> words_bit x (32 * p + r)"
    by (auto simp: first_zero_def words_bit_shift)
  have "words_bit x k" if "32 * p \<le> k" "k < 32 * p + r" for k
    using r(2) that by (metis add_diff_inverse_nat less_diff_conv2 not_le add.commute)
  then show ?thesis
    using r p by (auto simp: first_zero_def unat_size_diff [OF sz(1) p] r_def [symmetric])
qed

lemma find_next_zero_bit_words:
  assumes sz: "sz < 2 ^ 32" "32 dvd sz" and off: "offset < sz"
  shows "first_zero (words_bit x) offset sz (find_next_zero_bit x sz offset)"
proof -
  define p b where "p = offset div 32" and "b = offset mod 32"
  have o: "offset = 32 * p + b" "b < 32" by (simp_all add: p_def b_def)
  have pS: "32 * Suc p \<le> sz"
  proof -
    obtain k where k: "sz = 32 * k" using sz(2) by (auto simp: dvd_def)
    then have "p < k" using off o by simp
    then show ?thesis by (simp add: k)
  qed
  show ?thesis
  proof (cases "b = 0")
    case True
    then show ?thesis
      using rest_search [OF sz, of p x] o pS
      by (simp add: find_next_zero_bit_def Let_def p_def [symmetric] b_def [symmetric])
  next
    case False
    define q s where "q = shr32 (x p) b" and "s = find_first_zero_bit (\<lambda>_. q) 32"
    have s: "s \<le> 32" "\<forall>k < s. words_bit (\<lambda>_. q) k" "s < 32 \<longrightarrow> \<not> words_bit (\<lambda>_. q) s"
      using find_first_zero_bit_words [of "\<lambda>_. q" 32] by (auto simp: s_def first_zero_def)
    have q: "words_bit (\<lambda>_. q) k = words_bit x (offset + k)" if k: "k < 32 - b" for k
    proof -
      have e: "offset + k = b + k + 32 * p" using o by simp
      have "(offset + k) div 32 = p" "(offset + k) mod 32 = b + k"
        using k o(2) unfolding e by simp_all
      then show ?thesis using k o(2) by (simp add: words_bit_def q_def bit_shr32)
    qed
    show ?thesis
    proof (cases "s < 32 - b")
      case True
      have "words_bit x k" if "offset \<le> k" "k < offset + s" for k
        using s(2) q [of "k - offset"] that True by auto
      moreover have "\<not> words_bit x (offset + s)" using s(3) q [of s] True by simp
      ultimately show ?thesis using True False o pS
        by (simp add: find_next_zero_bit_def first_zero_def Let_def p_def [symmetric]
            b_def [symmetric] q_def [symmetric] s_def [symmetric] add.commute)
    next
      case nlt: False
      define r where "r = find_first_zero_bit (\<lambda>i. x (Suc p + i))
        (unat (of_nat sz - 32 * of_nat (Suc p) :: u32))"
      have rest: "first_zero (words_bit x) (32 * Suc p) sz (32 * Suc p + r)"
        unfolding r_def by (rule rest_search [OF sz pS])
      have low: "words_bit x k" if "offset \<le> k" "k < 32 * Suc p" for k
        using s(2) q [of "k - offset"] that nlt o by auto
      have "find_next_zero_bit x sz offset = 32 * Suc p + r"
        using False nlt o
        by (simp add: find_next_zero_bit_def Let_def p_def [symmetric] b_def [symmetric]
            q_def [symmetric] s_def [symmetric] r_def)
      moreover have "words_bit x k" if "offset \<le> k" "k < 32 * Suc p + r" for k
        using low [of k] rest that unfolding first_zero_def by (cases "k < 32 * Suc p") auto
      ultimately show ?thesis using rest o by (auto simp: first_zero_def)
    qed
  qed
qed

lemma find_next_zero_bit_spec:
  "sz < 2 ^ 32 \<Longrightarrow> 32 dvd sz \<Longrightarrow> offset < sz \<Longrightarrow>
     first_zero (\<lambda>k. test_bit k bs) offset sz (find_next_zero_bit (rd32 bs) sz offset)"
  using find_next_zero_bit_words [of sz offset "rd32 bs"] by (simp add: words_bit_rd32 [abs_def])

subsection \<open>ext2_count_free counts the clear bits\<close>

definition zeros :: "(nat \<Rightarrow> bool) \<Rightarrow> nat \<Rightarrow> nat" where
  "zeros P n = length (filter (\<lambda>k. \<not> P k) [0..<n])"

lemma zeros_Suc: "zeros P (Suc n) = zeros P n + (if P n then 0 else 1)"
  by (simp add: zeros_def)

lemma zeros_0 [simp]: "zeros P 0 = 0"
  by (simp add: zeros_def)

lemma zeros_cong: "(\<And>k. k < n \<Longrightarrow> P k = Q k) \<Longrightarrow> zeros P n = zeros Q n"
  by (auto simp: zeros_def intro!: arg_cong [where f = length] filter_cong)

lemma zeros_upd_True:
  "j < n \<Longrightarrow> \<not> P j \<Longrightarrow> Suc (zeros (P(j := True)) n) = zeros P n"
proof (induction n)
  case (Suc n)
  then show ?case
    by (cases "j = n") (auto simp: zeros_Suc intro!: zeros_cong)
qed simp

lemma zeros_upd_False:
  "j < n \<Longrightarrow> P j \<Longrightarrow> zeros (P(j := False)) n = Suc (zeros P n)"
proof (induction n)
  case (Suc n)
  then show ?case
    by (cases "j = n") (auto simp: zeros_Suc intro!: zeros_cong)
qed simp

lemma zeros_le: "zeros P n \<le> n"
  unfolding zeros_def using length_filter_le [of "\<lambda>k. \<not> P k" "[0..<n]"] by simp

lemma zeros_pos_iff: "0 < zeros P n \<longleftrightarrow> (\<exists>k < n. \<not> P k)"
  by (auto simp: zeros_def filter_empty_conv)

lemma zeros_add: "zeros P (m + n) = zeros P m + zeros (\<lambda>k. P (m + k)) n"
  by (induction n) (simp_all add: zeros_Suc)

lemma nibblemap_zeros: "(w :: u8) < 16 \<Longrightarrow> nibblemap ! unat w = zeros (bit w) 4"
proof -
  assume "w < 16"
  then have "unat w < 16" by (simp add: word_less_nat_alt)
  then have "unat w \<in> set [0..<16]" by simp
  moreover have "\<forall>n \<in> set [0..<16]. nibblemap ! n = zeros (bit (of_nat n :: u8)) 4"
    by code_simp
  ultimately show ?thesis by (metis of_nat_unat ucast_id)
qed

lemma low_nibble: "(b :: u8) AND 15 < 16" and bit_low_nibble: "k < 4 \<Longrightarrow> bit ((b :: u8) AND 15) k = bit b k"
proof -
  have m: "(b :: u8) AND 15 = take_bit 4 b"
    by (simp add: take_bit_eq_mask mask_eq_exp_minus_1)
  show "b AND 15 < 16"
    by (rule le_less_trans [OF word_and_le1]) simp
  show "k < 4 \<Longrightarrow> bit (b AND 15) k = bit b k"
    unfolding m by (simp add: bit_take_bit_iff)
qed

lemma count_free_byte_zeros: "count_free_byte b = zeros (bit b) 8"
proof -
  have lo: "nibblemap ! unat (b AND 15) = zeros (bit b) 4" for b :: u8
  proof -
    have "zeros (bit (b AND 15)) 4 = zeros (bit b) 4" by (rule zeros_cong) (rule bit_low_nibble)
    then show ?thesis using nibblemap_zeros [OF low_nibble [of b]] by simp
  qed
  have hi: "zeros (bit (drop_bit 4 b)) 4 = zeros (\<lambda>k. bit b (4 + k)) 4"
    by (rule zeros_cong) (simp add: bit_drop_bit_eq)
  show ?thesis
    using zeros_add [of "bit b" 4 4] hi by (simp add: count_free_byte_def lo)
qed

lemma ext2_count_free_zeros: "ext2_count_free (Some bs) n = zeros (\<lambda>k. test_bit k bs) (8 * n)"
proof (induction n)
  case (Suc n)
  have "zeros (\<lambda>k. test_bit (8 * n + k) bs) 8 = count_free_byte (rd8 bs n)"
    unfolding count_free_byte_zeros by (rule zeros_cong) (simp add: test_bit_def)
  then show ?case
    using Suc zeros_add [of "\<lambda>k. test_bit k bs" "8 * n" 8] by (simp add: ext2_count_free_def add.commute)
qed (simp add: ext2_count_free_def)

end
