(* ===== verification/Ext2_Super.thy ===== *)
theory Ext2_Super
  imports Ext2_Bitops
begin

text \<open>
  The mounted file system: the in-memory super block (\<open>include/linux/ext2_fs_sb.h\<close>), the group
  descriptors and the buffers behind them, and the error reporting of \<open>src/ext2/super.c\<close>.

  A buffer head is named by its block number: the driver keeps one buffer per block, so two
  pointers to the same block alias, and so do they here. \<open>b_data\<close> gives the contents of a block,
  \<open>None\<close> where the device cannot read it. The super block itself, the group descriptors and the
  bitmaps live in such buffers; the super block and descriptors are kept decoded.

  An operation is a function from a file system to an \<open>option\<close>: \<open>None\<close> is \<open>ext2_panic\<close>, which
  halts the system (\<open>ext2_os2_panic\<close>), or an access outside a buffer or table. Error returns are
  ordinary values.
\<close>

subsection \<open>Data\<close>

record group_desc =
  bg_block_bitmap :: u32
  bg_inode_bitmap :: u32
  bg_inode_table :: u32
  bg_free_blocks_count :: u16
  bg_free_inodes_count :: u16
  bg_used_dirs_count :: u16

text \<open>The LRU cache of loaded bitmaps; there is one for block and one for inode bitmaps.\<close>

record bitmap_cache =
  bm_number :: "nat list"
  bm_bitmap :: "u32 option list"
  bm_loaded :: nat

record ext2_fs =
  s_blocksize :: nat
  s_flags :: u32
  s_dirt :: bool
  s_lock :: bool
  s_inodes_count :: u32
  s_blocks_count :: u32
  s_r_blocks_count :: u32
  s_free_blocks_count :: u32
  s_free_inodes_count :: u32
  s_first_data_block :: u32
  s_state :: u16
  s_errors :: u16
  s_groups_count :: nat
  s_blocks_per_group :: nat
  s_inodes_per_group :: nat
  s_inodes_per_block :: nat
  s_itb_per_group :: nat
  s_desc_per_block :: nat
  s_mount_opt :: u32
  s_mount_state :: u16
  s_sbh :: u32
  s_group_desc :: "(u32 \<times> group_desc list) option list"
  block_cache :: bitmap_cache
  inode_cache :: bitmap_cache
  b_data :: "u32 \<Rightarrow> u8 list option"
  b_dirt :: "u32 \<Rightarrow> bool"
  b_count :: "u32 \<Rightarrow> nat"
  b_written :: "u32 list"

type_synonym 'a fsop = "ext2_fs \<Rightarrow> ('a \<times> ext2_fs) option"

definition EXT2_MAX_GROUP_LOADED :: nat where "EXT2_MAX_GROUP_LOADED = 8"

definition MS_RDONLY :: u32 where "MS_RDONLY = 1"
definition MS_SYNCHRONOUS :: u32 where "MS_SYNCHRONOUS = 16"

definition EXT2_MOUNT_CHECK_NORMAL :: u32 where "EXT2_MOUNT_CHECK_NORMAL = 0x0001"
definition EXT2_MOUNT_CHECK_STRICT :: u32 where "EXT2_MOUNT_CHECK_STRICT = 0x0002"
definition EXT2_MOUNT_GRPID :: u32 where "EXT2_MOUNT_GRPID = 0x0004"
definition EXT2_MOUNT_DEBUG :: u32 where "EXT2_MOUNT_DEBUG = 0x0008"
definition EXT2_MOUNT_ERRORS_CONT :: u32 where "EXT2_MOUNT_ERRORS_CONT = 0x0010"
definition EXT2_MOUNT_ERRORS_RO :: u32 where "EXT2_MOUNT_ERRORS_RO = 0x0020"
definition EXT2_MOUNT_ERRORS_PANIC :: u32 where "EXT2_MOUNT_ERRORS_PANIC = 0x0040"
definition EXT2_MOUNT_MINIX_DF :: u32 where "EXT2_MOUNT_MINIX_DF = 0x0080"

definition test_opt :: "ext2_fs \<Rightarrow> u32 \<Rightarrow> bool" where
  "test_opt fs opt = (s_mount_opt fs AND opt \<noteq> 0)"

subsection \<open>Locks and buffers\<close>

text \<open>
  \<open>lock_super\<close> waits while the super block is locked; the operations here run one at a time, so
  it always finds it unlocked between operations.
\<close>

definition lock_super :: "ext2_fs \<Rightarrow> ext2_fs" where
  "lock_super fs = fs\<lparr>s_lock := True\<rparr>"

definition unlock_super :: "ext2_fs \<Rightarrow> ext2_fs" where
  "unlock_super fs = fs\<lparr>s_lock := False\<rparr>"

definition mark_buffer_dirty :: "u32 \<Rightarrow> ext2_fs \<Rightarrow> ext2_fs" where
  "mark_buffer_dirty b fs = fs\<lparr>b_dirt := (b_dirt fs)(b := True)\<rparr>"

definition getblk :: "u32 \<Rightarrow> ext2_fs \<Rightarrow> u32 option \<times> ext2_fs" where
  "getblk b fs = (Some b, fs\<lparr>b_count := (b_count fs)(b := Suc (b_count fs b))\<rparr>)"

definition brelse :: "u32 option \<Rightarrow> ext2_fs \<Rightarrow> ext2_fs" where
  "brelse bo fs = (case bo of None \<Rightarrow> fs
     | Some b \<Rightarrow> if b_count fs b \<noteq> 0 then fs\<lparr>b_count := (b_count fs)(b := b_count fs b - 1)\<rparr> else fs)"

text \<open>\<open>bread\<close> releases the buffer again when the block cannot be read.\<close>

definition bread :: "u32 \<Rightarrow> ext2_fs \<Rightarrow> u32 option \<times> ext2_fs" where
  "bread b fs = (case getblk b fs of
     (None, fs) \<Rightarrow> (None, fs)
   | (Some bh, fs) \<Rightarrow> if b_data fs bh \<noteq> None then (Some bh, fs) else (None, brelse (Some bh) fs))"

text \<open>\<open>ll_rw_block (WRITE, 1, \<dots>)\<close> is synchronous on OS/2: the block is clean afterwards.\<close>

definition ll_rw_block_write :: "u32 \<Rightarrow> ext2_fs \<Rightarrow> ext2_fs" where
  "ll_rw_block_write b fs = fs\<lparr>b_dirt := (b_dirt fs)(b := False), b_written := b_written fs @ [b]\<rparr>"

subsection \<open>super.c: ext2_error\<close>

text \<open>
  A panic option (or a super block that asks for panics with no overriding option) halts the
  system; a read-only option makes the mount read-only.
\<close>

definition EXT2_ERROR_FS :: u16 where "EXT2_ERROR_FS = 2"
definition EXT2_ERRORS_RO :: u16 where "EXT2_ERRORS_RO = 2"
definition EXT2_ERRORS_PANIC :: u16 where "EXT2_ERRORS_PANIC = 3"

definition ext2_error :: "ext2_fs \<Rightarrow> ext2_fs option" where
  "ext2_error fs =
     (let fs = (if s_flags fs AND MS_RDONLY = 0 then
                  (mark_buffer_dirty (s_sbh fs)
                     (fs\<lparr>s_mount_state := s_mount_state fs OR EXT2_ERROR_FS,
                         s_state := s_state fs OR EXT2_ERROR_FS\<rparr>))\<lparr>s_dirt := True\<rparr>
                else fs)
      in if test_opt fs EXT2_MOUNT_ERRORS_PANIC \<or>
            (s_errors fs = EXT2_ERRORS_PANIC \<and> \<not> test_opt fs EXT2_MOUNT_ERRORS_CONT \<and>
             \<not> test_opt fs EXT2_MOUNT_ERRORS_RO) then None
         else if test_opt fs EXT2_MOUNT_ERRORS_RO \<or>
            (s_errors fs = EXT2_ERRORS_RO \<and> \<not> test_opt fs EXT2_MOUNT_ERRORS_CONT \<and>
             \<not> test_opt fs EXT2_MOUNT_ERRORS_PANIC) then
           Some (fs\<lparr>s_flags := s_flags fs OR MS_RDONLY\<rparr>)
         else Some fs)"

subsection \<open>get_group_desc\<close>

text \<open>
  A pointer to a group descriptor is the index of its descriptor block and its index in the
  block. \<open>gd_bh\<close> is the buffer the pointer points into (the result parameter \<open>bh\<close>).
\<close>

type_synonym gd_ptr = "nat \<times> nat"

definition gd_bh :: "ext2_fs \<Rightarrow> gd_ptr \<Rightarrow> u32" where
  "gd_bh fs p = fst (the (s_group_desc fs ! fst p))"

definition gd_at :: "ext2_fs \<Rightarrow> gd_ptr \<Rightarrow> group_desc" where
  "gd_at fs p = snd (the (s_group_desc fs ! fst p)) ! snd p"

definition gd_upd :: "gd_ptr \<Rightarrow> (group_desc \<Rightarrow> group_desc) \<Rightarrow> ext2_fs \<Rightarrow> ext2_fs" where
  "gd_upd p f fs = fs\<lparr>s_group_desc := (s_group_desc fs)
     [fst p := map_option (\<lambda>(b, ds). (b, ds[snd p := f (ds ! snd p)])) (s_group_desc fs ! fst p)]\<rparr>"

definition get_group_desc :: "ext2_fs \<Rightarrow> nat \<Rightarrow> gd_ptr option" where
  "get_group_desc fs block_group =
     (if block_group \<ge> s_groups_count fs then None
      else let group_desc = block_group div s_desc_per_block fs;
               desc = block_group mod s_desc_per_block fs
           in if group_desc < length (s_group_desc fs) then
                (case s_group_desc fs ! group_desc of
                   None \<Rightarrow> None
                 | Some (b, ds) \<Rightarrow> if desc < length ds then Some (group_desc, desc) else None)
              else None)"

subsection \<open>ext2_check_descriptors\<close>

text \<open>\<open>check_desc_from n i block\<close>: the loop with \<open>n\<close> groups left, at group \<open>i\<close> that starts at \<open>block\<close>.\<close>

definition desc_in_group :: "ext2_fs \<Rightarrow> u32 \<Rightarrow> group_desc \<Rightarrow> bool" where
  "desc_in_group fs block gd \<longleftrightarrow>
     \<not> (bg_block_bitmap gd < block \<or> bg_block_bitmap gd \<ge> block + of_nat (s_blocks_per_group fs)) \<and>
     \<not> (bg_inode_bitmap gd < block \<or> bg_inode_bitmap gd \<ge> block + of_nat (s_blocks_per_group fs)) \<and>
     \<not> (bg_inode_table gd < block \<or>
        bg_inode_table gd + of_nat (s_itb_per_group fs) \<ge> block + of_nat (s_blocks_per_group fs))"

fun check_desc_from :: "ext2_fs \<Rightarrow> nat \<Rightarrow> nat \<Rightarrow> u32 \<Rightarrow> (bool \<times> ext2_fs) option" where
  "check_desc_from fs 0 i block = Some (True, fs)"
| "check_desc_from fs (Suc n) i block = do {
     p \<leftarrow> get_group_desc fs i;
     if desc_in_group fs block (gd_at fs p)
     then check_desc_from fs n (Suc i) (block + of_nat (s_blocks_per_group fs))
     else do { fs' \<leftarrow> ext2_error fs; Some (False, fs') }
   }"

definition ext2_check_descriptors :: "ext2_fs \<Rightarrow> (bool \<times> ext2_fs) option" where
  "ext2_check_descriptors fs = check_desc_from fs (s_groups_count fs) 0 (s_first_data_block fs)"

section \<open>Facts about the state\<close>

lemmas buffer_ops = lock_super_def unlock_super_def mark_buffer_dirty_def getblk_def brelse_def
  bread_def ll_rw_block_write_def

text \<open>The descriptor tables are complete: every group has its descriptor, in a block of its own size.\<close>

definition gd_wf :: "ext2_fs \<Rightarrow> bool" where
  "gd_wf fs \<longleftrightarrow> 0 < s_desc_per_block fs \<and>
     s_groups_count fs \<le> length (s_group_desc fs) * s_desc_per_block fs \<and>
     (\<forall>i < length (s_group_desc fs). \<exists>b ds. s_group_desc fs ! i = Some (b, ds) \<and>
        length ds = s_desc_per_block fs)"

definition gdp :: "ext2_fs \<Rightarrow> nat \<Rightarrow> gd_ptr" where
  "gdp fs g = (g div s_desc_per_block fs, g mod s_desc_per_block fs)"

abbreviation desc_of :: "ext2_fs \<Rightarrow> nat \<Rightarrow> group_desc" where
  "desc_of fs g \<equiv> gd_at fs (gdp fs g)"

lemma gd_wf_index:
  assumes "gd_wf fs" and "g < s_groups_count fs"
  shows "g div s_desc_per_block fs < length (s_group_desc fs)" and "g mod s_desc_per_block fs < s_desc_per_block fs"
proof -
  from assms have "g < length (s_group_desc fs) * s_desc_per_block fs" and pos: "0 < s_desc_per_block fs"
    by (auto simp: gd_wf_def)
  then show "g div s_desc_per_block fs < length (s_group_desc fs)"
    by (simp add: less_mult_imp_div_less)
  show "g mod s_desc_per_block fs < s_desc_per_block fs" using pos by simp
qed

lemma gd_wf_block:
  assumes "gd_wf fs" and "g < s_groups_count fs"
  obtains b ds where "s_group_desc fs ! (g div s_desc_per_block fs) = Some (b, ds)"
    and "length ds = s_desc_per_block fs"
  using assms gd_wf_index(1) [OF assms] unfolding gd_wf_def by blast

lemma get_group_desc_wf:
  assumes "gd_wf fs" and "g < s_groups_count fs"
  shows "get_group_desc fs g = Some (gdp fs g)"
proof -
  obtain b ds where "s_group_desc fs ! (g div s_desc_per_block fs) = Some (b, ds)"
    "length ds = s_desc_per_block fs"
    using gd_wf_block [OF assms] .
  then show ?thesis
    using assms(2) gd_wf_index [OF assms] by (simp add: get_group_desc_def gdp_def Let_def)
qed

lemma get_group_desc_SomeD:
  assumes "get_group_desc fs g = Some p"
  shows "p = gdp fs g" and "g < s_groups_count fs"
proof -
  show g: "g < s_groups_count fs" using assms by (simp add: get_group_desc_def split: if_splits)
  have a: "g div s_desc_per_block fs < length (s_group_desc fs)"
    using assms g by (simp add: get_group_desc_def Let_def split: if_splits)
  have "s_group_desc fs ! (g div s_desc_per_block fs) \<noteq> None"
    using assms g a by (intro notI) (simp add: get_group_desc_def Let_def)
  then obtain bd where bd: "s_group_desc fs ! (g div s_desc_per_block fs) = Some bd"
    by blast
  obtain b ds where "bd = (b, ds)" by (cases bd)
  with bd have "s_group_desc fs ! (g div s_desc_per_block fs) = Some (b, ds)"
    by simp
  then show "p = gdp fs g"
    using assms g a by (simp add: get_group_desc_def Let_def gdp_def split: if_splits)
qed

lemma get_group_desc_None_out: "s_groups_count fs \<le> g \<Longrightarrow> get_group_desc fs g = None"
  by (simp add: get_group_desc_def)

lemma gdp_inj: "gdp fs g = gdp fs h \<longleftrightarrow> g = h"
  unfolding gdp_def by (metis Pair_inject div_mult_mod_eq)

lemma gd_at_upd:
  assumes wf: "gd_wf fs" and g: "g < s_groups_count fs" and h: "h < s_groups_count fs"
  shows "gd_at (gd_upd (gdp fs g) f fs) (gdp fs h) = (if h = g then f (desc_of fs g) else desc_of fs h)"
proof -
  let ?a = "g div s_desc_per_block fs" and ?d = "g mod s_desc_per_block fs"
  let ?a' = "h div s_desc_per_block fs" and ?d' = "h mod s_desc_per_block fs"
  have ia: "?a < length (s_group_desc fs)" "?a' < length (s_group_desc fs)"
    using gd_wf_index [OF wf] g h by blast+
  obtain b ds where e: "s_group_desc fs ! ?a = Some (b, ds)" "length ds = s_desc_per_block fs"
    using wf ia by (auto simp: gd_wf_def)
  have d: "?d < length ds" "?d' < length ds" using gd_wf_index(2) [OF wf] g h e by auto
  have eq: "h = g \<longleftrightarrow> ?a' = ?a \<and> ?d' = ?d" by (metis div_mult_mod_eq)
  show ?thesis
    using ia e d eq by (auto simp: gd_at_def gd_upd_def gdp_def nth_list_update_if)
qed

lemma gd_upd_wf:
  assumes "gd_wf fs"
  shows "gd_wf (gd_upd p f fs)"
proof -
  have "\<exists>b ds. s_group_desc (gd_upd p f fs) ! i = Some (b, ds) \<and> length ds = s_desc_per_block fs"
    if i: "i < length (s_group_desc fs)" for i
  proof -
    obtain b ds where "s_group_desc fs ! i = Some (b, ds)" "length ds = s_desc_per_block fs"
      using assms i by (auto simp: gd_wf_def)
    then show ?thesis using i by (cases "i = fst p") (simp_all add: gd_upd_def)
  qed
  then show ?thesis using assms by (simp add: gd_wf_def gd_upd_def)
qed

end
