(* ===== verification/Ext2_Bitmap_Cache.thy ===== *)
theory Ext2_Bitmap_Cache
  imports Ext2_Super
begin

text \<open>
  The LRU caches of loaded bitmaps: \<open>read_block_bitmap\<close>, \<open>load__block_bitmap\<close> and
  \<open>load_block_bitmap\<close> of \<open>src/ext2/balloc.c\<close>, \<open>read_inode_bitmap\<close> and \<open>load_inode_bitmap\<close> of
  \<open>src/ext2/ialloc.c\<close>. The locale \<open>bitmap_loader\<close> is what the allocators rely on; both caches
  interpret it.
\<close>

subsection \<open>The loops on the two arrays of a cache\<close>

text \<open>\<open>for (j = i; j > 0; j--) a[j] = a[j - 1]\<close>\<close>

fun shift_down :: "nat \<Rightarrow> 'a list \<Rightarrow> 'a list" where
  "shift_down 0 xs = xs"
| "shift_down (Suc j) xs = shift_down j (xs[Suc j := xs ! j])"

definition shift_cache :: "nat \<Rightarrow> bitmap_cache \<Rightarrow> bitmap_cache" where
  "shift_cache j c = c\<lparr>bm_number := shift_down j (bm_number c), bm_bitmap := shift_down j (bm_bitmap c)\<rparr>"

text \<open>\<open>for (i = 0; i < loaded && number[i] != block_group; i++) ;\<close>\<close>

function find_slot :: "bitmap_cache \<Rightarrow> nat \<Rightarrow> nat \<Rightarrow> nat" where
  "find_slot c g i =
     (if i < bm_loaded c \<and> bm_number c ! i \<noteq> g then find_slot c g (Suc i) else i)"
  by pat_completeness auto
termination by (relation "measure (\<lambda>(c, g, i). bm_loaded c - i)") auto

declare find_slot.simps [simp del]

text \<open>A hit at slot \<open>i\<close> moves the slot to the front.\<close>

definition promote_slot :: "nat \<Rightarrow> bitmap_cache \<Rightarrow> bitmap_cache" where
  "promote_slot i c =
     (let num = bm_number c ! i; bmp = bm_bitmap c ! i; c = shift_cache i c
      in c\<lparr>bm_number := (bm_number c)[0 := num], bm_bitmap := (bm_bitmap c)[0 := bmp]\<rparr>)"

text \<open>A miss makes room in slot 0; a full cache releases the buffer of its last slot.\<close>

definition make_room :: "bitmap_cache \<Rightarrow> ext2_fs \<Rightarrow> bitmap_cache \<times> ext2_fs" where
  "make_room c fs =
     (let (c, fs) = (if bm_loaded c < EXT2_MAX_GROUP_LOADED
                     then (c\<lparr>bm_loaded := Suc (bm_loaded c)\<rparr>, fs)
                     else (c, brelse (bm_bitmap c ! (EXT2_MAX_GROUP_LOADED - 1)) fs))
      in (shift_cache (bm_loaded c - 1) c, fs))"

subsection \<open>balloc.c: loading a block bitmap\<close>

definition read_block_bitmap :: "nat \<Rightarrow> nat \<Rightarrow> ext2_fs \<Rightarrow> ext2_fs option" where
  "read_block_bitmap g nr fs = do {
     p \<leftarrow> get_group_desc fs g;
     case bread (bg_block_bitmap (gd_at fs p)) fs of
       (None, fs) \<Rightarrow> None
     | (Some bh, fs) \<Rightarrow>
         let c = block_cache fs
         in Some (fs\<lparr>block_cache := c\<lparr>bm_number := (bm_number c)[nr := g],
                                     bm_bitmap := (bm_bitmap c)[nr := Some bh]\<rparr>\<rparr>)
   }"

definition load__block_bitmap :: "nat \<Rightarrow> nat fsop" where
  "load__block_bitmap g fs =
     (let c = block_cache fs in
      if g \<ge> s_groups_count fs then None
      else if s_groups_count fs \<le> EXT2_MAX_GROUP_LOADED then
        (if bm_bitmap c ! g \<noteq> None
         then (if bm_number c ! g \<noteq> g then None else Some (g, fs))
         else do { fs \<leftarrow> read_block_bitmap g g fs; Some (g, fs) })
      else
        let i = find_slot c g 0 in
        if i < bm_loaded c \<and> bm_number c ! i = g
        then Some (0, fs\<lparr>block_cache := promote_slot i c\<rparr>)
        else
          let (c, fs) = make_room c fs
          in do { fs \<leftarrow> read_block_bitmap g 0 (fs\<lparr>block_cache := c\<rparr>); Some (0, fs) })"

definition load_block_bitmap :: "nat \<Rightarrow> nat fsop" where
  "load_block_bitmap g fs =
     (let c = block_cache fs in
      if bm_loaded c > 0 \<and> bm_number c ! 0 = g then Some (0, fs)
      else if s_groups_count fs \<le> EXT2_MAX_GROUP_LOADED \<and> g < length (bm_number c) \<and>
              bm_number c ! g = g \<and> bm_bitmap c ! g \<noteq> None
      then Some (g, fs)
      else load__block_bitmap g fs)"

subsection \<open>ialloc.c: loading an inode bitmap\<close>

definition read_inode_bitmap :: "nat \<Rightarrow> nat \<Rightarrow> ext2_fs \<Rightarrow> ext2_fs option" where
  "read_inode_bitmap g nr fs = do {
     p \<leftarrow> get_group_desc fs g;
     case bread (bg_inode_bitmap (gd_at fs p)) fs of
       (None, fs) \<Rightarrow> None
     | (Some bh, fs) \<Rightarrow>
         let c = inode_cache fs
         in Some (fs\<lparr>inode_cache := c\<lparr>bm_number := (bm_number c)[nr := g],
                                     bm_bitmap := (bm_bitmap c)[nr := Some bh]\<rparr>\<rparr>)
   }"

definition load_inode_bitmap :: "nat \<Rightarrow> nat fsop" where
  "load_inode_bitmap g fs =
     (let c = inode_cache fs in
      if g \<ge> s_groups_count fs then None
      else if bm_loaded c > 0 \<and> bm_number c ! 0 = g then Some (0, fs)
      else if s_groups_count fs \<le> EXT2_MAX_GROUP_LOADED then
        (if bm_bitmap c ! g \<noteq> None
         then (if bm_number c ! g \<noteq> g then None else Some (g, fs))
         else do { fs \<leftarrow> read_inode_bitmap g g fs; Some (g, fs) })
      else
        let i = find_slot c g 0 in
        if i < bm_loaded c \<and> bm_number c ! i = g
        then Some (0, fs\<lparr>inode_cache := promote_slot i c\<rparr>)
        else
          let (c, fs) = make_room c fs
          in do { fs \<leftarrow> read_inode_bitmap g 0 (fs\<lparr>inode_cache := c\<rparr>); Some (0, fs) })"

section \<open>The caches as most-recently-used lists\<close>

lemma length_shift_down [simp]: "length (shift_down j xs) = length xs"
  by (induction j xs rule: shift_down.induct) simp_all

text \<open>The shift loop keeps slot 0 and everything above \<open>j\<close>, and moves the rest up by one.\<close>

lemma shift_down_nth:
  "j < length xs \<Longrightarrow> i < length xs \<Longrightarrow>
     shift_down j xs ! i = (if i = 0 \<or> j < i then xs ! i else xs ! (i - 1))"
proof (induction j xs rule: shift_down.induct)
  case (2 j xs)
  then show ?case by (cases "i = Suc j") (auto simp: nth_list_update)
qed simp

lemma find_slot_spec:
  "i \<le> bm_loaded c \<Longrightarrow> i \<le> find_slot c g i \<and> find_slot c g i \<le> bm_loaded c \<and>
     (\<forall>k. i \<le> k \<and> k < find_slot c g i \<longrightarrow> bm_number c ! k \<noteq> g) \<and>
     (find_slot c g i < bm_loaded c \<longrightarrow> bm_number c ! find_slot c g i = g)"
proof (induction c g i rule: find_slot.induct)
  case (1 c g i)
  show ?case
  proof (cases "i < bm_loaded c \<and> bm_number c ! i \<noteq> g")
    case True
    then have eq: "find_slot c g i = find_slot c g (Suc i)"
      by (subst find_slot.simps) simp
    have "bm_number c ! k \<noteq> g" if "i \<le> k" "k < find_slot c g (Suc i)" for k
      using that 1 True by (cases "k = i") auto
    with 1 True show ?thesis by (auto simp: eq)
  next
    case False
    then have "find_slot c g i = i" by (auto simp: find_slot.simps [of c g i])
    with False 1 show ?thesis by auto
  qed
qed

lemma shift_down_list:
  assumes "j < length xs"
  shows "(shift_down j xs)[0 := y] = y # take j xs @ drop (Suc j) xs"
proof (rule nth_equalityI)
  show "length ((shift_down j xs)[0 := y]) = length (y # take j xs @ drop (Suc j) xs)"
    using assms by simp
  fix i assume "i < length ((shift_down j xs)[0 := y])"
  then have i: "i < length xs" by simp
  show "(shift_down j xs)[0 := y] ! i = (y # take j xs @ drop (Suc j) xs) ! i"
  proof (cases i)
    case 0
    then show ?thesis using i by simp
  next
    case (Suc k)
    have "(take j xs @ drop (Suc j) xs) ! k = (if k < j then xs ! k else xs ! Suc k)"
      using assms i Suc by (auto simp: nth_append min_def)
    then show ?thesis
      using shift_down_nth [OF assms i] Suc i by auto
  qed
qed

text \<open>
  What a cache may hold, for \<open>n\<close> groups whose bitmaps are the blocks \<open>own\<close>: with at most eight
  groups slot \<open>g\<close> belongs to group \<open>g\<close>; with more, the first \<open>bm_loaded\<close> slots hold the bitmaps of
  different groups, most recently used first.
\<close>

definition mru :: "bitmap_cache \<Rightarrow> nat list" where
  "mru c = take (bm_loaded c) (bm_number c)"

definition cache_wf :: "nat \<Rightarrow> (nat \<Rightarrow> u32) \<Rightarrow> bitmap_cache \<Rightarrow> bool" where
  "cache_wf n own c \<longleftrightarrow> length (bm_number c) = 8 \<and> length (bm_bitmap c) = 8 \<and>
     (if n \<le> 8
      then bm_loaded c = 0 \<and> (\<forall>g < 8. bm_bitmap c ! g \<noteq> None \<longrightarrow>
             g < n \<and> bm_number c ! g = g \<and> bm_bitmap c ! g = Some (own g))
      else bm_loaded c \<le> 8 \<and> distinct (mru c) \<and>
           list_all2 (\<lambda>g b. g < n \<and> b = Some (own g)) (mru c) (take (bm_loaded c) (bm_bitmap c)))"

text \<open>The abstract cache is the list \<open>mru\<close>; touching a group moves or inserts it at the front.\<close>

definition lru_touch :: "nat \<Rightarrow> nat list \<Rightarrow> nat list" where
  "lru_touch g xs = g # take (EXT2_MAX_GROUP_LOADED - 1) (remove1 g xs)"

definition fill_slot :: "nat \<Rightarrow> nat \<Rightarrow> u32 \<Rightarrow> bitmap_cache \<Rightarrow> bitmap_cache" where
  "fill_slot nr g b c = c\<lparr>bm_number := (bm_number c)[nr := g], bm_bitmap := (bm_bitmap c)[nr := Some b]\<rparr>"

definition room_cache :: "bitmap_cache \<Rightarrow> bitmap_cache" where
  "room_cache c = (let c = (if bm_loaded c < 8 then c\<lparr>bm_loaded := Suc (bm_loaded c)\<rparr> else c)
                   in shift_cache (bm_loaded c - 1) c)"

lemma make_room_eq:
  "make_room c fs = (room_cache c, if bm_loaded c < 8 then fs else brelse (bm_bitmap c ! 7) fs)"
  by (simp add: make_room_def room_cache_def EXT2_MAX_GROUP_LOADED_def Let_def)

lemma shift_cache_simps [simp]:
  "bm_loaded (shift_cache j c) = bm_loaded c"
  "bm_number (shift_cache j c) = shift_down j (bm_number c)"
  "bm_bitmap (shift_cache j c) = shift_down j (bm_bitmap c)"
  by (simp_all add: shift_cache_def)

lemma remove1_nth:
  "i < length xs \<Longrightarrow> \<forall>k < i. xs ! k \<noteq> x \<Longrightarrow> xs ! i = x \<Longrightarrow> remove1 x xs = take i xs @ drop (Suc i) xs"
proof (induction xs arbitrary: i)
  case (Cons a xs)
  show ?case
  proof (cases i)
    case (Suc j)
    have "a \<noteq> x" using Cons.prems(2) Suc by (metis nth_Cons_0 zero_less_Suc)
    moreover have "\<forall>k < j. xs ! k \<noteq> x" using Cons.prems(2) Suc by (metis Suc_less_eq nth_Cons_Suc)
    ultimately show ?thesis using Cons.IH [of j] Cons.prems Suc by simp
  qed (use Cons.prems in simp)
qed simp

lemma take_move_front:
  assumes "i < l" and "l \<le> length xs"
  shows "take l (y # take i xs @ drop (Suc i) xs) = y # take i (take l xs) @ drop (Suc i) (take l xs)"
proof -
  obtain m where m: "l = Suc m" "i \<le> m" using assms(1) by (cases l) auto
  then show ?thesis using assms by (cases "m = i") (auto simp: drop_take min_def)
qed

lemma promote_slot_wf:
  assumes wf: "cache_wf n own c" and n: "8 < n" and i: "i = find_slot c g 0"
    and hit: "i < bm_loaded c"
  shows "mru (promote_slot i c) = lru_touch g (mru c)" and "cache_wf n own (promote_slot i c)"
    and "bm_bitmap (promote_slot i c) ! 0 = Some (own g)" and "g < n"
proof -
  let ?ns = "mru c" and ?bs = "take (bm_loaded c) (bm_bitmap c)"
  have len: "length (bm_number c) = 8" "length (bm_bitmap c) = 8" "bm_loaded c \<le> 8"
    and d: "distinct ?ns" and all: "list_all2 (\<lambda>g b. g < n \<and> b = Some (own g)) ?ns ?bs"
    using wf n by (auto simp: cache_wf_def)
  have g: "bm_number c ! i = g" "\<forall>k < i. bm_number c ! k \<noteq> g"
    using find_slot_spec [of 0 c g] hit i by auto
  have ln: "length ?ns = bm_loaded c" "length ?bs = bm_loaded c" using len by (simp_all add: mru_def)
  have "?ns ! i < n \<and> ?bs ! i = Some (own (?ns ! i))"
    using list_all2_nthD [OF all] hit ln by simp
  then have gb: "g < n" "bm_bitmap c ! i = Some (own g)" using g hit by (auto simp: mru_def)
  have r: "remove1 g ?ns = take i ?ns @ drop (Suc i) ?ns"
    using g hit ln by (intro remove1_nth) (auto simp: mru_def)
  have ns: "take (bm_loaded c) (bm_number (promote_slot i c)) = g # take i ?ns @ drop (Suc i) ?ns"
    using take_move_front [of i "bm_loaded c" "bm_number c"] shift_down_list [of i "bm_number c"] hit len g(1)
    by (simp add: promote_slot_def Let_def mru_def)
  have bs: "take (bm_loaded c) (bm_bitmap (promote_slot i c)) =
      Some (own g) # take i ?bs @ drop (Suc i) ?bs"
    using take_move_front [of i "bm_loaded c" "bm_bitmap c"] shift_down_list [of i "bm_bitmap c"] hit len gb(2)
    by (simp add: promote_slot_def Let_def mru_def)
  have ld: "bm_loaded (promote_slot i c) = bm_loaded c" by (simp add: promote_slot_def Let_def)
  have m: "mru (promote_slot i c) = g # remove1 g ?ns" using ns r ld by (simp add: mru_def)
  have "length (remove1 g ?ns) \<le> 7" using r ln hit len(3) by simp
  then show "mru (promote_slot i c) = lru_touch g (mru c)"
    using m by (simp add: lru_touch_def EXT2_MAX_GROUP_LOADED_def)
  have "list_all2 (\<lambda>g b. g < n \<and> b = Some (own g)) (g # take i ?ns @ drop (Suc i) ?ns)
      (Some (own g) # take i ?bs @ drop (Suc i) ?bs)"
    using gb list_all2_appendI [OF list_all2_takeI [OF all, of i] list_all2_dropI [OF all, of "Suc i"]]
    by simp
  moreover have "distinct (g # remove1 g ?ns)" using d by simp
  moreover have "length (bm_number (promote_slot i c)) = 8" "length (bm_bitmap (promote_slot i c)) = 8"
    using len by (simp_all add: promote_slot_def Let_def)
  ultimately show "cache_wf n own (promote_slot i c)"
    using n len ld m ns bs by (simp add: cache_wf_def mru_def)
  show "bm_bitmap (promote_slot i c) ! 0 = Some (own g)"
    using gb len by (simp add: promote_slot_def Let_def)
  show "g < n" by (rule gb)
qed

lemma fill_slot_wf:
  assumes wf: "cache_wf n own c" and n: "8 < n" and g: "g < n" and miss: "g \<notin> set (mru c)"
  shows "mru (fill_slot 0 g (own g) (room_cache c)) = lru_touch g (mru c)"
    and "cache_wf n own (fill_slot 0 g (own g) (room_cache c))"
proof -
  let ?c = "fill_slot 0 g (own g) (room_cache c)"
  let ?ns = "mru c" and ?bs = "take (bm_loaded c) (bm_bitmap c)"
  define l where "l = (if bm_loaded c < 8 then bm_loaded c else 7)"
  have len: "length (bm_number c) = 8" "length (bm_bitmap c) = 8" "bm_loaded c \<le> 8"
    and d: "distinct ?ns" and all: "list_all2 (\<lambda>g b. g < n \<and> b = Some (own g)) ?ns ?bs"
    using wf n by (auto simp: cache_wf_def)
  have l: "l < 8" "l \<le> bm_loaded c" using len by (auto simp: l_def)
  have ld: "bm_loaded ?c = Suc l" using len by (auto simp: fill_slot_def room_cache_def l_def Let_def)
  have lists: "bm_number ?c = g # take l (bm_number c) @ drop (Suc l) (bm_number c)"
    "bm_bitmap ?c = Some (own g) # take l (bm_bitmap c) @ drop (Suc l) (bm_bitmap c)"
    using shift_down_list [of l "bm_number c"] shift_down_list [of l "bm_bitmap c"] len l
    by (auto simp: fill_slot_def room_cache_def l_def Let_def)
  have ns: "mru ?c = g # take l ?ns"
    using lists(1) ld l len by (simp add: mru_def min_def)
  have bs: "take (bm_loaded ?c) (bm_bitmap ?c) = Some (own g) # take l ?bs"
    using lists(2) ld l len by (simp add: min_def)
  have tl: "take l ?ns = take 7 ?ns" using len by (auto simp: l_def mru_def)
  show m: "mru ?c = lru_touch g (mru c)"
    using ns tl miss by (simp add: lru_touch_def EXT2_MAX_GROUP_LOADED_def remove1_idem)
  have "distinct (g # take l ?ns)" using d miss by (auto dest: in_set_takeD)
  moreover have "list_all2 (\<lambda>g b. g < n \<and> b = Some (own g)) (g # take l ?ns) (Some (own g) # take l ?bs)"
    using g list_all2_takeI [OF all, of l] by simp
  moreover have "length (bm_number ?c) = 8" "length (bm_bitmap ?c) = 8"
    using len by (simp_all add: fill_slot_def room_cache_def Let_def)
  ultimately show "cache_wf n own ?c"
    using n l ld ns bs by (simp add: cache_wf_def)
qed

lemma find_slot_miss:
  assumes "\<not> (find_slot c g 0 < bm_loaded c \<and> bm_number c ! find_slot c g 0 = g)"
    and "bm_loaded c \<le> length (bm_number c)"
  shows "g \<notin> set (mru c)"
proof
  assume "g \<in> set (mru c)"
  then obtain k where k: "k < bm_loaded c" "bm_number c ! k = g"
    using assms(2) by (auto simp: mru_def in_set_conv_nth)
  have "\<not> k < find_slot c g 0" using find_slot_spec [of 0 c g] k by auto
  then have "find_slot c g 0 < bm_loaded c" using k by simp
  then show False using find_slot_spec [of 0 c g] assms(1) by simp
qed

lemma fill_slot_small_wf:
  "cache_wf n own c \<Longrightarrow> n \<le> 8 \<Longrightarrow> g < n \<Longrightarrow> cache_wf n own (fill_slot g g (own g) c)"
  by (auto simp: cache_wf_def fill_slot_def nth_list_update)


section \<open>The interface of the loaders\<close>

text \<open>
  \<open>bitmap_loader\<close>: \<open>load g\<close> returns a slot that holds the bitmap of group \<open>g\<close>, keeps the cache
  well formed, and changes nothing but the cache and the reference counts of the buffers. With
  more than eight groups it is the least-recently-used list \<open>lru_touch\<close>.
\<close>

locale bitmap_loader =
  fixes load :: "nat \<Rightarrow> nat fsop"
    and cache :: "ext2_fs \<Rightarrow> bitmap_cache"
    and set_cache :: "bitmap_cache \<Rightarrow> ext2_fs \<Rightarrow> ext2_fs"
    and own :: "group_desc \<Rightarrow> u32"
  assumes cache_set [simp]: "cache (set_cache c fs) = c"
    and set_frame [simp]: "b_data (set_cache c fs) = b_data fs"
      "s_group_desc (set_cache c fs) = s_group_desc fs"
      "s_desc_per_block (set_cache c fs) = s_desc_per_block fs"
      "s_groups_count (set_cache c fs) = s_groups_count fs"
    and load_ok: "gd_wf fs \<Longrightarrow> cache_wf (s_groups_count fs) (\<lambda>g. own (desc_of fs g)) (cache fs) \<Longrightarrow>
      g < s_groups_count fs \<Longrightarrow> b_data fs (own (desc_of fs g)) \<noteq> None \<Longrightarrow>
      \<exists>nr c n. load g fs = Some (nr, set_cache c (fs\<lparr>b_count := n\<rparr>)) \<and>
        cache_wf (s_groups_count fs) (\<lambda>g. own (desc_of fs g)) c \<and>
        bm_bitmap c ! nr = Some (own (desc_of fs g)) \<and>
        (8 < s_groups_count fs \<longrightarrow> mru c = lru_touch g (mru (cache fs)))"
    and load_out: "cache_wf (s_groups_count fs) (\<lambda>g. own (desc_of fs g)) (cache fs) \<Longrightarrow>
      s_groups_count fs \<le> g \<Longrightarrow> load g fs = None"
begin

definition ready :: "ext2_fs \<Rightarrow> bool" where
  "ready fs \<longleftrightarrow> gd_wf fs \<and> cache_wf (s_groups_count fs) (\<lambda>g. own (desc_of fs g)) (cache fs) \<and>
     (\<forall>g < s_groups_count fs. b_data fs (own (desc_of fs g)) \<noteq> None)"

text \<open>Any sequence of loads in a ready file system succeeds, and the cache follows the LRU list.\<close>

fun loads :: "nat list \<Rightarrow> ext2_fs \<Rightarrow> ext2_fs option" where
  "loads [] fs = Some fs"
| "loads (g # gs) fs = (case load g fs of None \<Rightarrow> None | Some (nr, fs') \<Rightarrow> loads gs fs')"

lemma load_ready_eq:
  assumes "ready fs" and "g < s_groups_count fs"
  obtains nr c n where "load g fs = Some (nr, set_cache c (fs\<lparr>b_count := n\<rparr>))"
    and "ready (set_cache c (fs\<lparr>b_count := n\<rparr>))" and "bm_bitmap c ! nr = Some (own (desc_of fs g))"
    and "8 < s_groups_count fs \<Longrightarrow> mru c = lru_touch g (mru (cache fs))"
proof -
  obtain nr c n where l: "load g fs = Some (nr, set_cache c (fs\<lparr>b_count := n\<rparr>))"
    "cache_wf (s_groups_count fs) (\<lambda>g. own (desc_of fs g)) c"
    "bm_bitmap c ! nr = Some (own (desc_of fs g))"
    "8 < s_groups_count fs \<longrightarrow> mru c = lru_touch g (mru (cache fs))"
    using load_ok assms unfolding ready_def by blast
  have d: "desc_of (set_cache c (fs\<lparr>b_count := n\<rparr>)) h = desc_of fs h" for h
    by (simp add: gd_at_def gdp_def)
  have "ready (set_cache c (fs\<lparr>b_count := n\<rparr>))"
    using assms(1) l(2) by (simp add: ready_def d) (simp add: gd_wf_def)
  with l that show thesis by blast
qed

lemma load_ready:
  assumes "ready fs" and "g < s_groups_count fs"
  obtains nr fs' where "load g fs = Some (nr, fs')" and "ready fs'"
    and "s_groups_count fs' = s_groups_count fs" and "b_data fs' = b_data fs"
    and "bm_bitmap (cache fs') ! nr = Some (own (desc_of fs g))"
    and "8 < s_groups_count fs \<Longrightarrow> mru (cache fs') = lru_touch g (mru (cache fs))"
proof -
  obtain nr c n where "load g fs = Some (nr, set_cache c (fs\<lparr>b_count := n\<rparr>))"
    "ready (set_cache c (fs\<lparr>b_count := n\<rparr>))" "bm_bitmap c ! nr = Some (own (desc_of fs g))"
    "8 < s_groups_count fs \<Longrightarrow> mru c = lru_touch g (mru (cache fs))"
    using load_ready_eq [OF assms] by blast
  then show thesis using that [of nr "set_cache c (fs\<lparr>b_count := n\<rparr>)"] by simp
qed

lemma loads_lru:
  assumes "ready fs" and "8 < s_groups_count fs" and "\<forall>g \<in> set gs. g < s_groups_count fs"
  shows "\<exists>fs'. loads gs fs = Some fs' \<and> ready fs' \<and> s_groups_count fs' = s_groups_count fs \<and>
    b_data fs' = b_data fs \<and> mru (cache fs') = fold lru_touch gs (mru (cache fs))"
  using assms
proof (induction gs arbitrary: fs)
  case (Cons g gs)
  then have "g < s_groups_count fs" by simp
  then obtain nr fs1 where "load g fs = Some (nr, fs1)" "ready fs1"
    "s_groups_count fs1 = s_groups_count fs" "b_data fs1 = b_data fs"
    "8 < s_groups_count fs \<Longrightarrow> mru (cache fs1) = lru_touch g (mru (cache fs))"
    using load_ready [OF Cons.prems(1)] Cons.prems(2) by blast
  note step = this
  have "\<forall>g \<in> set gs. g < s_groups_count fs1" using Cons.prems(3) step by simp
  then obtain fs2 where "loads gs fs1 = Some fs2" "ready fs2" "s_groups_count fs2 = s_groups_count fs1"
    "b_data fs2 = b_data fs1" "mru (cache fs2) = fold lru_touch gs (mru (cache fs1))"
    using Cons.IH [of fs1] step Cons.prems(2) by auto
  with step Cons.prems(2) show ?case by simp
qed simp

end

subsection \<open>Both loaders implement the interface\<close>

lemma desc_of_cong:
  "s_group_desc fs' = s_group_desc fs \<Longrightarrow> s_desc_per_block fs' = s_desc_per_block fs \<Longrightarrow>
     desc_of fs' g = desc_of fs g"
  by (simp add: gd_at_def gdp_def)

lemma gd_wf_cong:
  "s_group_desc fs' = s_group_desc fs \<Longrightarrow> s_desc_per_block fs' = s_desc_per_block fs \<Longrightarrow>
     s_groups_count fs' = s_groups_count fs \<Longrightarrow> gd_wf fs' = gd_wf fs"
  by (simp add: gd_wf_def)

lemma bread_ok:
  "b_data fs b \<noteq> None \<Longrightarrow> bread b fs = (Some b, fs\<lparr>b_count := (b_count fs)(b := Suc (b_count fs b))\<rparr>)"
  by (simp add: bread_def getblk_def)

lemma brelse_count: "\<exists>n. brelse bo fs = fs\<lparr>b_count := n\<rparr>"
proof (cases bo)
  case None
  then have "brelse bo fs = fs\<lparr>b_count := b_count fs\<rparr>" by (simp add: brelse_def)
  then show ?thesis by blast
next
  case (Some b)
  then have "brelse bo fs = fs\<lparr>b_count := (if b_count fs b \<noteq> 0
      then (b_count fs)(b := b_count fs b - 1) else b_count fs)\<rparr>"
    by (simp add: brelse_def)
  then show ?thesis by blast
qed

lemma make_room_count: "\<exists>m. (if P then fs else brelse bo fs) = fs\<lparr>b_count := m\<rparr>"
proof (cases P)
  case True
  then have "(if P then fs else brelse bo fs) = fs\<lparr>b_count := b_count fs\<rparr>" by simp
  then show ?thesis by blast
next
  case False
  then show ?thesis using brelse_count [of bo fs] by simp
qed

lemma read_block_bitmap_ok:
  assumes "gd_wf fs" and "g < s_groups_count fs" and "b_data fs (bg_block_bitmap (desc_of fs g)) \<noteq> None"
  shows "\<exists>n. read_block_bitmap g nr fs = Some (fs\<lparr>b_count := n,
           block_cache := fill_slot nr g (bg_block_bitmap (desc_of fs g)) (block_cache fs)\<rparr>)"
  using assms
  by (simp add: read_block_bitmap_def get_group_desc_wf bread_ok fill_slot_def Let_def) blast

lemma read_inode_bitmap_ok:
  assumes "gd_wf fs" and "g < s_groups_count fs" and "b_data fs (bg_inode_bitmap (desc_of fs g)) \<noteq> None"
  shows "\<exists>n. read_inode_bitmap g nr fs = Some (fs\<lparr>b_count := n,
           inode_cache := fill_slot nr g (bg_inode_bitmap (desc_of fs g)) (inode_cache fs)\<rparr>)"
  using assms
  by (simp add: read_inode_bitmap_def get_group_desc_wf bread_ok fill_slot_def Let_def) blast


lemma load_block_bitmap_ok:
  assumes gd: "gd_wf fs" and wf: "cache_wf (s_groups_count fs) (\<lambda>g. bg_block_bitmap (desc_of fs g)) (block_cache fs)"
    and g: "g < s_groups_count fs" and rd: "b_data fs (bg_block_bitmap (desc_of fs g)) \<noteq> None"
  shows "\<exists>nr c n. load_block_bitmap g fs = Some (nr, fs\<lparr>b_count := n, block_cache := c\<rparr>) \<and>
    cache_wf (s_groups_count fs) (\<lambda>g. bg_block_bitmap (desc_of fs g)) c \<and>
    bm_bitmap c ! nr = Some (bg_block_bitmap (desc_of fs g)) \<and>
    (8 < s_groups_count fs \<longrightarrow> mru c = lru_touch g (mru (block_cache fs)))"
proof (cases "s_groups_count fs \<le> 8")
  case small: True
  let ?c = "block_cache fs"
  have c: "bm_loaded ?c = 0" "length (bm_number ?c) = 8" "length (bm_bitmap ?c) = 8"
    and e: "\<forall>h < 8. bm_bitmap ?c ! h \<noteq> None \<longrightarrow>
      bm_number ?c ! h = h \<and> bm_bitmap ?c ! h = Some (bg_block_bitmap (desc_of fs h))"
    using wf small by (auto simp: cache_wf_def)
  have g8: "g < 8" using g small by simp
  show ?thesis
  proof (cases "bm_bitmap ?c ! g = None")
    case True
    obtain n where "read_block_bitmap g g fs = Some (fs\<lparr>b_count := n,
        block_cache := fill_slot g g (bg_block_bitmap (desc_of fs g)) ?c\<rparr>)"
      using read_block_bitmap_ok [OF gd g rd] by blast
    then have "load_block_bitmap g fs = Some (g, fs\<lparr>b_count := n,
        block_cache := fill_slot g g (bg_block_bitmap (desc_of fs g)) ?c\<rparr>)"
      using True c g small
      by (simp add: load_block_bitmap_def load__block_bitmap_def Let_def EXT2_MAX_GROUP_LOADED_def)
    moreover have "bm_bitmap (fill_slot g g (bg_block_bitmap (desc_of fs g)) ?c) ! g =
        Some (bg_block_bitmap (desc_of fs g))"
      using c g8 by (simp add: fill_slot_def)
    moreover note fill_slot_small_wf [OF wf small g]
    moreover have "\<not> 8 < s_groups_count fs" using small by simp
    ultimately show ?thesis by blast
  next
    case False
    have "load_block_bitmap g fs = Some (g, fs\<lparr>b_count := b_count fs, block_cache := ?c\<rparr>)"
      using False e g8 g c small by (simp add: load_block_bitmap_def EXT2_MAX_GROUP_LOADED_def Let_def)
    moreover have "bm_bitmap ?c ! g = Some (bg_block_bitmap (desc_of fs g))" using False e g8 by blast
    moreover have "\<not> 8 < s_groups_count fs" using small by simp
    ultimately show ?thesis using wf by blast
  qed
next
  case large: False
  let ?c = "block_cache fs" and ?i = "find_slot (block_cache fs) g 0"
  have len: "length (bm_number ?c) = 8" "bm_loaded ?c \<le> 8" "length (bm_bitmap ?c) = 8"
    using wf large by (auto simp: cache_wf_def)
  show ?thesis
  proof (cases "bm_loaded ?c > 0 \<and> bm_number ?c ! 0 = g")
    case True
    then have i0: "?i = 0" "?i < bm_loaded ?c" by (simp_all add: find_slot.simps [of ?c g 0])
    have "promote_slot 0 ?c = ?c" by (simp add: promote_slot_def shift_cache_def Let_def)
    then have "mru ?c = lru_touch g (mru ?c)" "bm_bitmap ?c ! 0 = Some (bg_block_bitmap (desc_of fs g))"
      using promote_slot_wf [OF wf _ _ i0(2), of g] large i0 by auto
    moreover have "load_block_bitmap g fs = Some (0, fs\<lparr>b_count := b_count fs, block_cache := ?c\<rparr>)"
      using True g by (simp add: load_block_bitmap_def Let_def)
    ultimately show ?thesis using wf by blast
  next
    case False
    then have ld: "load_block_bitmap g fs = load__block_bitmap g fs"
      using large by (auto simp: load_block_bitmap_def EXT2_MAX_GROUP_LOADED_def Let_def)
    show ?thesis
    proof (cases "?i < bm_loaded ?c \<and> bm_number ?c ! ?i = g")
      case True
      then have "load_block_bitmap g fs = Some (0, fs\<lparr>b_count := b_count fs, block_cache := promote_slot ?i ?c\<rparr>)"
        using ld g large by (simp add: load__block_bitmap_def EXT2_MAX_GROUP_LOADED_def Let_def)
      then show ?thesis
        using promote_slot_wf [OF wf _ _ conjunct1 [OF True], of g] True large
        by (intro exI [where x = 0] exI [where x = "promote_slot ?i ?c"] exI [where x = "b_count fs"]) simp
    next
      case miss: False
      have nin: "g \<notin> set (mru ?c)" using find_slot_miss [OF miss] len by simp
      obtain m where m: "(if bm_loaded ?c < 8 then fs else brelse (bm_bitmap ?c ! 7) fs) = fs\<lparr>b_count := m\<rparr>"
        using make_room_count by blast
      let ?fs = "fs\<lparr>b_count := m, block_cache := room_cache ?c\<rparr>"
      have d: "desc_of ?fs h = desc_of fs h" for h by (rule desc_of_cong) simp_all
      have "gd_wf ?fs" using gd by (simp add: gd_wf_def)
      then obtain n where "read_block_bitmap g 0 ?fs = Some (?fs\<lparr>b_count := n,
          block_cache := fill_slot 0 g (bg_block_bitmap (desc_of fs g)) (room_cache ?c)\<rparr>)"
        using read_block_bitmap_ok [of ?fs g 0] g rd d by auto
      then have "load_block_bitmap g fs = Some (0, fs\<lparr>b_count := n,
          block_cache := fill_slot 0 g (bg_block_bitmap (desc_of fs g)) (room_cache ?c)\<rparr>)"
        using ld g large miss
        by (simp add: load__block_bitmap_def EXT2_MAX_GROUP_LOADED_def make_room_eq m Let_def)
      moreover have "bm_bitmap (fill_slot 0 g (bg_block_bitmap (desc_of fs g)) (room_cache ?c)) ! 0 =
          Some (bg_block_bitmap (desc_of fs g))"
        using len by (simp add: fill_slot_def room_cache_def Let_def)
      moreover have "8 < s_groups_count fs" using large by simp
      moreover note fill_slot_wf [OF wf this g nin]
      ultimately show ?thesis by blast
    qed
  qed
qed

lemma load_inode_bitmap_ok:
  assumes gd: "gd_wf fs" and wf: "cache_wf (s_groups_count fs) (\<lambda>g. bg_inode_bitmap (desc_of fs g)) (inode_cache fs)"
    and g: "g < s_groups_count fs" and rd: "b_data fs (bg_inode_bitmap (desc_of fs g)) \<noteq> None"
  shows "\<exists>nr c n. load_inode_bitmap g fs = Some (nr, fs\<lparr>b_count := n, inode_cache := c\<rparr>) \<and>
    cache_wf (s_groups_count fs) (\<lambda>g. bg_inode_bitmap (desc_of fs g)) c \<and>
    bm_bitmap c ! nr = Some (bg_inode_bitmap (desc_of fs g)) \<and>
    (8 < s_groups_count fs \<longrightarrow> mru c = lru_touch g (mru (inode_cache fs)))"
proof (cases "s_groups_count fs \<le> 8")
  case small: True
  let ?c = "inode_cache fs"
  have c: "bm_loaded ?c = 0" "length (bm_number ?c) = 8" "length (bm_bitmap ?c) = 8"
    and e: "\<forall>h < 8. bm_bitmap ?c ! h \<noteq> None \<longrightarrow>
      bm_number ?c ! h = h \<and> bm_bitmap ?c ! h = Some (bg_inode_bitmap (desc_of fs h))"
    using wf small by (auto simp: cache_wf_def)
  have g8: "g < 8" using g small by simp
  show ?thesis
  proof (cases "bm_bitmap ?c ! g = None")
    case True
    obtain n where "read_inode_bitmap g g fs = Some (fs\<lparr>b_count := n,
        inode_cache := fill_slot g g (bg_inode_bitmap (desc_of fs g)) ?c\<rparr>)"
      using read_inode_bitmap_ok [OF gd g rd] by blast
    then have "load_inode_bitmap g fs = Some (g, fs\<lparr>b_count := n,
        inode_cache := fill_slot g g (bg_inode_bitmap (desc_of fs g)) ?c\<rparr>)"
      using True c g small
      by (simp add: load_inode_bitmap_def Let_def EXT2_MAX_GROUP_LOADED_def)
    moreover have "bm_bitmap (fill_slot g g (bg_inode_bitmap (desc_of fs g)) ?c) ! g =
        Some (bg_inode_bitmap (desc_of fs g))"
      using c g8 by (simp add: fill_slot_def)
    moreover note fill_slot_small_wf [OF wf small g]
    moreover have "\<not> 8 < s_groups_count fs" using small by simp
    ultimately show ?thesis by blast
  next
    case False
    have "load_inode_bitmap g fs = Some (g, fs\<lparr>b_count := b_count fs, inode_cache := ?c\<rparr>)"
      using False e g8 g c small by (simp add: load_inode_bitmap_def EXT2_MAX_GROUP_LOADED_def Let_def)
    moreover have "bm_bitmap ?c ! g = Some (bg_inode_bitmap (desc_of fs g))" using False e g8 by blast
    moreover have "\<not> 8 < s_groups_count fs" using small by simp
    ultimately show ?thesis using wf by blast
  qed
next
  case large: False
  let ?c = "inode_cache fs" and ?i = "find_slot (inode_cache fs) g 0"
  have len: "length (bm_number ?c) = 8" "bm_loaded ?c \<le> 8" "length (bm_bitmap ?c) = 8"
    using wf large by (auto simp: cache_wf_def)
  show ?thesis
  proof (cases "bm_loaded ?c > 0 \<and> bm_number ?c ! 0 = g")
    case True
    then have i0: "?i = 0" "?i < bm_loaded ?c" by (simp_all add: find_slot.simps [of ?c g 0])
    have "promote_slot 0 ?c = ?c" by (simp add: promote_slot_def shift_cache_def Let_def)
    then have "mru ?c = lru_touch g (mru ?c)" "bm_bitmap ?c ! 0 = Some (bg_inode_bitmap (desc_of fs g))"
      using promote_slot_wf [OF wf _ _ i0(2), of g] large i0 by auto
    moreover have "load_inode_bitmap g fs = Some (0, fs\<lparr>b_count := b_count fs, inode_cache := ?c\<rparr>)"
      using True g by (simp add: load_inode_bitmap_def Let_def)
    ultimately show ?thesis using wf by blast
  next
    case False
    then have ld: "load_inode_bitmap g fs =
        (if ?i < bm_loaded ?c \<and> bm_number ?c ! ?i = g
         then Some (0, fs\<lparr>inode_cache := promote_slot ?i ?c\<rparr>)
         else let (c, fs) = make_room ?c fs
              in do { fs \<leftarrow> read_inode_bitmap g 0 (fs\<lparr>inode_cache := c\<rparr>); Some (0, fs) })"
      unfolding load_inode_bitmap_def EXT2_MAX_GROUP_LOADED_def Let_def
      using g large by (simp only: not_le if_False) simp
    show ?thesis
    proof (cases "?i < bm_loaded ?c \<and> bm_number ?c ! ?i = g")
      case True
      then have "load_inode_bitmap g fs = Some (0, fs\<lparr>b_count := b_count fs, inode_cache := promote_slot ?i ?c\<rparr>)"
        using ld by simp
      then show ?thesis
        using promote_slot_wf [OF wf _ _ conjunct1 [OF True], of g] True large
        by (intro exI [where x = 0] exI [where x = "promote_slot ?i ?c"] exI [where x = "b_count fs"]) simp
    next
      case miss: False
      have nin: "g \<notin> set (mru ?c)" using find_slot_miss [OF miss] len by simp
      obtain m where m: "(if bm_loaded ?c < 8 then fs else brelse (bm_bitmap ?c ! 7) fs) = fs\<lparr>b_count := m\<rparr>"
        using make_room_count by blast
      let ?fs = "fs\<lparr>b_count := m, inode_cache := room_cache ?c\<rparr>"
      have d: "desc_of ?fs h = desc_of fs h" for h by (rule desc_of_cong) simp_all
      have "gd_wf ?fs" using gd by (simp add: gd_wf_def)
      then obtain n where "read_inode_bitmap g 0 ?fs = Some (?fs\<lparr>b_count := n,
          inode_cache := fill_slot 0 g (bg_inode_bitmap (desc_of fs g)) (room_cache ?c)\<rparr>)"
        using read_inode_bitmap_ok [of ?fs g 0] g rd d by auto
      then have "load_inode_bitmap g fs = Some (0, fs\<lparr>b_count := n,
          inode_cache := fill_slot 0 g (bg_inode_bitmap (desc_of fs g)) (room_cache ?c)\<rparr>)"
        using large unfolding ld if_not_P [OF miss] by (simp add: make_room_eq m Let_def)
      moreover have "bm_bitmap (fill_slot 0 g (bg_inode_bitmap (desc_of fs g)) (room_cache ?c)) ! 0 =
          Some (bg_inode_bitmap (desc_of fs g))"
        using len by (simp add: fill_slot_def room_cache_def Let_def)
      moreover have "8 < s_groups_count fs" using large by simp
      moreover note fill_slot_wf [OF wf this g nin]
      ultimately show ?thesis by blast
    qed
  qed
qed

text \<open>A group outside the file system is refused.\<close>

lemma cache_wf_front:
  assumes "cache_wf n own c" and "n \<le> g"
  shows "\<not> (bm_loaded c > 0 \<and> bm_number c ! 0 = g)"
    and "n \<le> 8 \<Longrightarrow> g < 8 \<Longrightarrow> bm_bitmap c ! g = None"
proof
  assume a: "bm_loaded c > 0 \<and> bm_number c ! 0 = g"
  then have n: "8 < n" "length (bm_number c) = 8" using assms(1) by (auto simp: cache_wf_def split: if_splits)
  then have all: "list_all2 (\<lambda>g b. g < n \<and> b = Some (own g)) (mru c) (take (bm_loaded c) (bm_bitmap c))"
    using assms(1) by (simp add: cache_wf_def)
  have "0 < length (mru c)" "mru c ! 0 = g" using a n by (auto simp: mru_def)
  then have "g < n" using list_all2_nthD [OF all, of 0] by simp
  then show False using assms(2) by simp
next
  show "n \<le> 8 \<Longrightarrow> g < 8 \<Longrightarrow> bm_bitmap c ! g = None"
    using assms by (auto simp: cache_wf_def)
qed

lemma load_block_bitmap_out:
  assumes wf: "cache_wf (s_groups_count fs) own (block_cache fs)" and g: "s_groups_count fs \<le> g"
  shows "load_block_bitmap g fs = None"
proof -
  have "length (bm_number (block_cache fs)) = 8" using wf by (simp add: cache_wf_def)
  then show ?thesis using g cache_wf_front [OF wf g]
    by (auto simp: load_block_bitmap_def load__block_bitmap_def Let_def)
qed

lemma load_inode_bitmap_out: "s_groups_count fs \<le> g \<Longrightarrow> load_inode_bitmap g fs = None"
  by (simp add: load_inode_bitmap_def Let_def)

interpretation blk: bitmap_loader load_block_bitmap block_cache
  "\<lambda>c fs. fs\<lparr>block_cache := c\<rparr>" bg_block_bitmap
  by unfold_locales (assumption | rule load_block_bitmap_ok load_block_bitmap_out | simp)+

interpretation ino: bitmap_loader load_inode_bitmap inode_cache
  "\<lambda>c fs. fs\<lparr>inode_cache := c\<rparr>" bg_inode_bitmap
  by unfold_locales (assumption | rule load_inode_bitmap_ok load_inode_bitmap_out | simp)+

end
