(* ===== verification/Ext2_Balloc.thy ===== *)
theory Ext2_Balloc
  imports Ext2_Bitmap_Cache
begin

text \<open>
  The block allocator, \<open>src/ext2/balloc.c\<close>: \<open>ext2_free_blocks\<close>, \<open>ext2_new_block\<close>,
  \<open>ext2_count_free_blocks\<close>, \<open>block_in_use\<close> and \<open>ext2_check_blocks_bitmap\<close>.

  \<open>ext2_new_block\<close> is one function with labels and \<open>goto\<close>s. Its phases are definitions here:
  \<open>near_goal\<close> (the goal bit, the 32 bits after it, the rest of its group), \<open>scan_groups\<close> and
  \<open>search_group\<close> (the other groups), \<open>search_back\<close>, and \<open>got_block\<close> (marking the bit, the
  preallocation, the counters). A block group has fewer than \<open>2^16\<close> blocks, so bit numbers are
  natural numbers; block numbers are 32-bit words.
\<close>

subsection \<open>Bits of a group\<close>

definition in_range :: "u32 \<Rightarrow> u32 \<Rightarrow> u32 \<Rightarrow> bool" where
  "in_range b first len \<longleftrightarrow> b \<ge> first \<and> b \<le> first + len - 1"

definition group_of :: "ext2_fs \<Rightarrow> u32 \<Rightarrow> nat" where
  "group_of fs block = unat (block - s_first_data_block fs) div s_blocks_per_group fs"

definition bit_of :: "ext2_fs \<Rightarrow> u32 \<Rightarrow> nat" where
  "bit_of fs block = unat (block - s_first_data_block fs) mod s_blocks_per_group fs"

text \<open>The buffer of a group's block bitmap, through the cache.\<close>

definition group_bitmap :: "nat \<Rightarrow> u32 fsop" where
  "group_bitmap g fs = do {
     (nr, fs) \<leftarrow> load_block_bitmap g fs;
     bh \<leftarrow> bm_bitmap (block_cache fs) ! nr;
     Some (bh, fs)
   }"

subsection \<open>ext2_free_blocks\<close>

text \<open>The loop over the bits: a bit that is clear already is only reported.\<close>

fun clear_bits :: "nat \<Rightarrow> nat \<Rightarrow> u32 \<Rightarrow> gd_ptr \<Rightarrow> ext2_fs \<Rightarrow> ext2_fs option" where
  "clear_bits 0 nr bh p fs = Some fs"
| "clear_bits (Suc n) nr bh p fs = do {
     bs \<leftarrow> b_data fs bh;
     (was, bs) \<leftarrow> clear_bit nr bs;
     let fs = fs\<lparr>b_data := (b_data fs)(bh \<mapsto> bs)\<rparr>;
     let fs = (if \<not> was then fs
       else (gd_upd p (\<lambda>gd. gd\<lparr>bg_free_blocks_count := bg_free_blocks_count gd + 1\<rparr>) fs)
              \<lparr>s_free_blocks_count := s_free_blocks_count fs + 1\<rparr>);
     clear_bits n (Suc nr) bh p fs
   }"

definition ext2_free_blocks :: "u32 \<Rightarrow> u32 \<Rightarrow> ext2_fs \<Rightarrow> ext2_fs option" where
  "ext2_free_blocks block count fs =
     (let fs = lock_super fs in
      if block < s_first_data_block fs \<or> block + count > s_blocks_count fs
      then do { fs \<leftarrow> ext2_error fs; Some (unlock_super fs) }
      else
        let block_group = group_of fs block; nr = bit_of fs block in
        if unat (of_nat nr + count) > s_blocks_per_group fs then None
        else do {
          (bh, fs) \<leftarrow> group_bitmap block_group fs;
          p \<leftarrow> get_group_desc fs block_group;
          let gd = gd_at fs p;
          if test_opt fs EXT2_MOUNT_CHECK_STRICT \<and>
             (in_range (bg_block_bitmap gd) block count \<or>
              in_range (bg_inode_bitmap gd) block count \<or>
              in_range block (bg_inode_table gd) (of_nat (s_itb_per_group fs)) \<or>
              in_range (block + count - 1) (bg_inode_table gd) (of_nat (s_itb_per_group fs)))
          then None
          else do {
            fs \<leftarrow> clear_bits (unat count) nr bh p fs;
            let fs = mark_buffer_dirty (gd_bh fs p) fs;
            let fs = mark_buffer_dirty (s_sbh fs) fs;
            let fs = mark_buffer_dirty bh fs;
            let fs = (if s_flags fs AND MS_SYNCHRONOUS \<noteq> 0 then ll_rw_block_write bh fs else fs);
            Some (unlock_super (fs\<lparr>s_dirt := True\<rparr>))
          }
        })"

subsection \<open>ext2_new_block: the searches\<close>

text \<open>
  \<open>lmap\<close>: the 32 bits after the goal. For \<open>j AND 31 = 31\<close> the first shift count is 32, which the
  processor takes as 0.
\<close>

definition near_word :: "u8 list \<Rightarrow> nat \<Rightarrow> nat \<Rightarrow> u32" where
  "near_word bs bpg j =
     (let lmap = shr32 (rd32 bs (j div 32)) (j mod 32 + 1)
      in if bpg < 32 \<or> j < bpg - 32
         then lmap OR shl32 (rd32 bs (j div 32 + 1)) (31 - j mod 32)
         else lmap OR shl32 (-1) (31 - j mod 32))"

text \<open>Where a search stopped: at \<open>got_block\<close>, at \<open>search_back\<close>, or without a bit.\<close>

datatype search = Got nat | Back nat | Missed

definition near_goal :: "u8 list \<Rightarrow> nat \<Rightarrow> nat \<Rightarrow> search" where
  "near_goal bs bpg j =
     (if \<not> test_bit j bs then Got j
      else let lmap = near_word bs bpg j; k = ffz lmap + 1 in
        if j \<noteq> 0 \<and> lmap \<noteq> -1 \<and> j + k < bpg then Got (j + k)
        else
          let r = j div 8 + memscan (\<lambda>i. rd8 bs (j div 8 + i)) 0 ((bpg - j + 7) div 8); k = 8 * r in
          if k < bpg then Back k
          else
            let k = find_next_zero_bit (rd32 bs) bpg j in
            if k < bpg then Got k else Missed)"

definition search_group :: "u8 list \<Rightarrow> nat \<Rightarrow> search" where
  "search_group bs bpg =
     (let j = 8 * memscan (rd8 bs) 0 (bpg div 8) in
      if j < bpg then Back j
      else let j = find_first_zero_bit (rd32 bs) bpg in if j \<ge> bpg then Missed else Back j)"

text \<open>\<open>for (k = 0; k < 7 && j > 0 && !test_bit (j - 1, \<dots>); k++, j--)\<close>, with \<open>n = 7 - k\<close>\<close>

fun search_back :: "u8 list \<Rightarrow> nat \<Rightarrow> nat \<Rightarrow> nat" where
  "search_back bs 0 j = j"
| "search_back bs (Suc n) j = (if j > 0 \<and> \<not> test_bit (j - 1) bs then search_back bs n (j - 1) else j)"

definition landed :: "u8 list \<Rightarrow> search \<Rightarrow> nat option" where
  "landed bs s = (case s of Got j \<Rightarrow> Some j | Back j \<Rightarrow> Some (search_back bs 7 j) | Missed \<Rightarrow> None)"

text \<open>The cyclic search for a group with free blocks, \<open>n\<close> groups left, after group \<open>i\<close>.\<close>

fun scan_groups :: "ext2_fs \<Rightarrow> nat \<Rightarrow> nat \<Rightarrow> nat option option" where
  "scan_groups fs 0 i = Some None"
| "scan_groups fs (Suc n) i =
     (let i = (if Suc i \<ge> s_groups_count fs then 0 else Suc i) in do {
        p \<leftarrow> get_group_desc fs i;
        if bg_free_blocks_count (gd_at fs p) > 0 then Some (Some i) else scan_groups fs n i
      })"

text \<open>A found bit is a group, the buffer of its bitmap and a bit number.\<close>

type_synonym found = "(nat \<times> u32 \<times> nat) option"

definition goal_group :: "nat \<Rightarrow> nat \<Rightarrow> found fsop" where
  "goal_group i j fs = do {
     p \<leftarrow> get_group_desc fs i;
     if bg_free_blocks_count (gd_at fs p) > 0 then do {
       (bh, fs) \<leftarrow> group_bitmap i fs;
       bs \<leftarrow> b_data fs bh;
       Some (map_option (\<lambda>j. (i, bh, j)) (landed bs (near_goal bs (s_blocks_per_group fs) j)), fs)
     } else Some (None, fs)
   }"

definition other_groups :: "nat \<Rightarrow> found fsop" where
  "other_groups i fs = do {
     r \<leftarrow> scan_groups fs (s_groups_count fs) i;
     case r of
       None \<Rightarrow> Some (None, fs)
     | Some i \<Rightarrow> do {
         (bh, fs) \<leftarrow> group_bitmap i fs;
         bs \<leftarrow> b_data fs bh;
         case landed bs (search_group bs (s_blocks_per_group fs)) of
           None \<Rightarrow> do { fs \<leftarrow> ext2_error fs; Some (None, fs) }
         | Some j \<Rightarrow> Some (Some (i, bh, j), fs)
       }
   }"

subsection \<open>ext2_new_block: got_block\<close>

text \<open>The preallocation loop from bit \<open>b\<close> on, with \<open>n\<close> steps left.\<close>

fun prealloc :: "nat \<Rightarrow> nat \<Rightarrow> nat \<Rightarrow> u8 list \<Rightarrow> (nat \<times> u8 list) option" where
  "prealloc 0 b bpg bs = Some (0, bs)"
| "prealloc (Suc n) b bpg bs =
     (if b < bpg then do {
        (was, bs) \<leftarrow> set_bit b bs;
        if was then Some (0, bs)
        else do { (m, bs) \<leftarrow> prealloc n (Suc b) bpg bs; Some (Suc m, bs) }
      } else Some (0, bs))"

text \<open>
  \<open>pre\<close> holds the values behind the pointers \<open>prealloc_count\<close> and \<open>prealloc_block\<close>, or \<open>None\<close>
  when the caller passes null pointers.
\<close>

type_synonym prealloc_ptr = "(u32 \<times> u32) option"

definition preallocate :: "nat \<Rightarrow> u32 \<Rightarrow> gd_ptr \<Rightarrow> u32 \<Rightarrow> u8 list \<Rightarrow> prealloc_ptr \<Rightarrow> prealloc_ptr fsop" where
  "preallocate j bh p tmp bs pre fs =
     (case pre of
        None \<Rightarrow> Some (None, fs\<lparr>b_data := (b_data fs)(bh \<mapsto> bs)\<rparr>)
      | Some _ \<Rightarrow> do {
          (n, bs) \<leftarrow> prealloc 7 (Suc j) (s_blocks_per_group fs) bs;
          let fs = fs\<lparr>b_data := (b_data fs)(bh \<mapsto> bs)\<rparr>;
          let fs = (gd_upd p (\<lambda>gd. gd\<lparr>bg_free_blocks_count := bg_free_blocks_count gd - of_nat n\<rparr>) fs)
                     \<lparr>s_free_blocks_count := s_free_blocks_count fs - of_nat n\<rparr>;
          Some (Some (of_nat n, tmp + 1), fs)
        })"

text \<open>The strict check: the block is a bitmap of the group or lies in its inode table.\<close>

definition in_system_zone :: "ext2_fs \<Rightarrow> group_desc \<Rightarrow> u32 \<Rightarrow> bool" where
  "in_system_zone fs gd tmp \<longleftrightarrow> tmp = bg_block_bitmap gd \<or> tmp = bg_inode_bitmap gd \<or>
     in_range tmp (bg_inode_table gd) (of_nat (s_itb_per_group fs))"

text \<open>What follows the preallocation: the bitmap is written, the new block is zeroed, the counters move.\<close>

definition new_block_zeroed :: "gd_ptr \<Rightarrow> u32 \<Rightarrow> ext2_fs \<Rightarrow> ext2_fs" where
  "new_block_zeroed p nb fs =
     (let fs = fs\<lparr>b_data := (b_data fs)(nb \<mapsto> replicate (s_blocksize fs) 0)\<rparr>;
          fs = brelse (Some nb) (mark_buffer_dirty nb fs);
          fs = gd_upd p (\<lambda>gd. gd\<lparr>bg_free_blocks_count := bg_free_blocks_count gd - 1\<rparr>) fs;
          fs = mark_buffer_dirty (gd_bh fs p) fs;
          fs = fs\<lparr>s_free_blocks_count := s_free_blocks_count fs - 1\<rparr>;
          fs = mark_buffer_dirty (s_sbh fs) fs
      in fs\<lparr>s_dirt := True\<rparr>)"

definition finish_block :: "gd_ptr \<Rightarrow> u32 \<Rightarrow> u32 \<Rightarrow> prealloc_ptr \<Rightarrow> (u32 \<times> prealloc_ptr) fsop" where
  "finish_block p bh tmp pre fs =
     (let fs = mark_buffer_dirty bh fs;
          fs = (if s_flags fs AND MS_SYNCHRONOUS \<noteq> 0 then ll_rw_block_write bh fs else fs)
      in if tmp \<ge> s_blocks_count fs
         then do { fs \<leftarrow> ext2_error fs; Some ((0, pre), unlock_super fs) }
         else case getblk tmp fs of
           (None, fs) \<Rightarrow> do { fs \<leftarrow> ext2_error fs; Some ((0, pre), unlock_super fs) }
         | (Some nb, fs) \<Rightarrow> Some ((tmp, pre), unlock_super (new_block_zeroed p nb fs)))"

definition got_block :: "nat \<Rightarrow> u32 \<Rightarrow> nat \<Rightarrow> prealloc_ptr \<Rightarrow> (u32 \<times> prealloc_ptr) fsop" where
  "got_block i bh j pre fs = do {
     p \<leftarrow> get_group_desc fs i;
     let tmp = of_nat j + of_nat i * of_nat (s_blocks_per_group fs) + s_first_data_block fs;
     if test_opt fs EXT2_MOUNT_CHECK_STRICT \<and> in_system_zone fs (gd_at fs p) tmp then None
     else do {
       bs \<leftarrow> b_data fs bh;
       (was, bs) \<leftarrow> set_bit j bs;
       if was then None
       else do {
         (pre, fs) \<leftarrow> preallocate j bh p tmp bs pre fs;
         finish_block p bh tmp pre fs
       }
     }
   }"

definition ext2_new_block :: "u32 \<Rightarrow> prealloc_ptr \<Rightarrow> (u32 \<times> prealloc_ptr) fsop" where
  "ext2_new_block goal pre fs =
     (let fs = lock_super fs in
      if s_free_blocks_count fs \<le> s_r_blocks_count fs then Some ((0, pre), unlock_super fs)
      else
        let goal = (if goal < s_first_data_block fs \<or> goal \<ge> s_blocks_count fs
                    then s_first_data_block fs else goal);
            i = group_of fs goal; j = bit_of fs goal
        in do {
          (f, fs) \<leftarrow> goal_group i j fs;
          (f, fs) \<leftarrow> (case f of None \<Rightarrow> other_groups i fs | Some _ \<Rightarrow> Some (f, fs));
          case f of
            None \<Rightarrow> Some ((0, pre), unlock_super fs)
          | Some (i, bh, j) \<Rightarrow> got_block i bh j pre fs
        })"

subsection \<open>Counting and checking\<close>

definition ext2_count_free_blocks :: "ext2_fs \<Rightarrow> u32" where
  "ext2_count_free_blocks fs = s_free_blocks_count fs"

definition block_in_use :: "ext2_fs \<Rightarrow> u32 \<Rightarrow> u8 list \<Rightarrow> bool" where
  "block_in_use fs block mp = test_bit (bit_of fs block) mp"

text \<open>The tests of one group, in order: each one that fails is reported by \<open>ext2_error\<close>.\<close>

fun report :: "bool list \<Rightarrow> ext2_fs \<Rightarrow> ext2_fs option" where
  "report [] fs = Some fs"
| "report (ok # oks) fs = (if ok then report oks fs else do { fs \<leftarrow> ext2_error fs; report oks fs })"

definition blocks_bitmap_tests :: "ext2_fs \<Rightarrow> group_desc \<Rightarrow> u8 list \<Rightarrow> nat \<Rightarrow> bool list" where
  "blocks_bitmap_tests fs gd bs x =
     (let desc_blocks = (s_groups_count fs + s_desc_per_block fs - 1) div s_desc_per_block fs
      in [test_bit 0 bs] @ List.map (\<lambda>j. test_bit (j + 1) bs) [0..<desc_blocks] @
         [block_in_use fs (bg_block_bitmap gd) bs, block_in_use fs (bg_inode_bitmap gd) bs] @
         List.map (\<lambda>j. block_in_use fs (bg_inode_table gd + of_nat j) bs) [0..<s_itb_per_group fs] @
         [unat (bg_free_blocks_count gd) = x])"

text \<open>The loop with \<open>n\<close> groups left; it returns \<open>bitmap_count\<close>.\<close>

fun check_groups :: "nat \<Rightarrow> nat \<Rightarrow> nat \<Rightarrow> nat fsop" where
  "check_groups 0 i bitmap_count fs = Some (bitmap_count, fs)"
| "check_groups (Suc n) i bitmap_count fs = do {
     p \<leftarrow> get_group_desc fs i;
     (bh, fs) \<leftarrow> group_bitmap i fs;
     bs \<leftarrow> b_data fs bh;
     let x = ext2_count_free (Some bs) (s_blocksize fs);
     fs \<leftarrow> report (blocks_bitmap_tests fs (gd_at fs p) bs x) fs;
     check_groups n (Suc i) (bitmap_count + x) fs
   }"

definition ext2_check_blocks_bitmap :: "ext2_fs \<Rightarrow> ext2_fs option" where
  "ext2_check_blocks_bitmap fs = do {
     let fs = lock_super fs;
     (bitmap_count, fs) \<leftarrow> check_groups (s_groups_count fs) 0 0 fs;
     fs \<leftarrow> report [unat (s_free_blocks_count fs) = bitmap_count] fs;
     Some (unlock_super fs)
   }"

end
