(* ===== verification/Ext2_Balloc_Correct.thy ===== *)
theory Ext2_Balloc_Correct
  imports Ext2_Balloc
begin

text \<open>
  Correctness of the block allocator. The searches return free bits; the state after an operation
  is described by the views \<open>used\<close> (the bits of a group's bitmap) and the two kinds of counters.
\<close>

section \<open>The searches\<close>

lemma near_word_free:
  assumes b: "b < 32" and free: "\<not> bit (near_word bs bpg j) b"
  shows "\<not> test_bit (j + 1 + b) bs"
proof -
  define q r where "q = j div 32" and "r = j mod 32"
  have j: "j = 32 * q + r" "r < 32" by (simp_all add: q_def r_def)
  define hi where "hi = (if bpg < 32 \<or> j < bpg - 32 then rd32 bs (q + 1) else -1)"
  have w: "near_word bs bpg j = shr32 (rd32 bs q) (r + 1) OR shl32 hi (31 - r)"
    by (simp add: near_word_def hi_def q_def r_def Let_def)
  have nlo: "\<not> bit (shr32 (rd32 bs q) (r + 1)) b" and nhi: "\<not> bit (shl32 hi (31 - r)) b"
    using free by (auto simp: w bit_or_iff)
  show ?thesis
  proof (cases "b < 31 - r")
    case True
    then have "\<not> bit (rd32 bs q) (r + 1 + b)" using nlo by (simp add: bit_shr32)
    moreover have "bit (rd32 bs q) (r + 1 + b) = test_bit (32 * q + (r + 1 + b)) bs"
      using True by (intro bit_rd32) simp
    ultimately show ?thesis by (simp add: j(1) add.assoc)
  next
    case False
    then have nb: "\<not> bit hi (b - (31 - r))" using nhi b j(2) by (simp add: bit_shl32)
    have lt: "b - (31 - r) < 32" using b by simp
    have "hi = rd32 bs (q + 1)"
    proof (rule ccontr)
      assume "hi \<noteq> rd32 bs (q + 1)"
      then have "hi = -1" by (auto simp: hi_def split: if_splits)
      then show False using nb lt by simp
    qed
    then have "\<not> test_bit (32 * (q + 1) + (b - (31 - r))) bs"
      using nb lt by (metis bit_rd32)
    moreover have "32 * (q + 1) + (b - (31 - r)) = j + 1 + b" using False j by simp
    ultimately show ?thesis by (simp only:) simp
  qed
qed

lemma search_back_spec:
  "search_back bs n j \<le> j \<and> (\<not> test_bit j bs \<longrightarrow> \<not> test_bit (search_back bs n j) bs)"
  by (induction bs n j rule: search_back.induct) (auto simp: Let_def intro: le_trans)

lemma landed_back_free:
  "\<not> test_bit j bs \<Longrightarrow> j < n \<Longrightarrow> landed bs (Back j) = Some k \<Longrightarrow> k < n \<and> \<not> test_bit k bs"
  using search_back_spec [of bs 7 j] by (auto simp: landed_def)

lemma landed_got: "landed bs (Got j) = Some k \<longleftrightarrow> k = j"
  by (auto simp: landed_def)

lemma byte_rest:
  assumes "bpg = 8 * m" and "j < bpg"
  shows "8 * (j div 8 + (bpg - j + 7) div 8) = (bpg :: nat)"
proof -
  define q r where "q = j div 8" and "r = j mod 8"
  have j: "j = 8 * q + r" "r < 8" by (simp_all add: q_def r_def)
  have "q < m" using assms j by simp
  then obtain d where d: "m = q + Suc d" using less_imp_Suc_add by auto
  have e: "bpg - j + 7 = (7 - r) + 8 * Suc d" using assms(1) j d by simp
  have "(bpg - j + 7) div 8 = Suc d" unfolding e by simp
  then have "8 * (j div 8 + (bpg - j + 7) div 8) = 8 * (q + Suc d)" by (simp only: q_def)
  then show ?thesis using assms(1) d by simp
qed

lemma landed_missed [simp]: "landed bs Missed = None"
  by (simp add: landed_def)

text \<open>Whatever the search near the goal lands on is a free bit of the group.\<close>

lemma near_goal_free:
  assumes l: "landed bs (near_goal bs bpg j) = Some k" and j: "j < bpg"
    and sz: "bpg < 2 ^ 32" "32 dvd bpg"
  shows "k < bpg \<and> \<not> test_bit k bs"
proof (cases "test_bit j bs")
  case False
  then show ?thesis using l j by (simp add: near_goal_def landed_got)
next
  case used: True
  define lmap where "lmap = near_word bs bpg j"
  define r where "r = j div 8 + memscan (\<lambda>i. rd8 bs (j div 8 + i)) 0 ((bpg - j + 7) div 8)"
  define z where "z = find_next_zero_bit (rd32 bs) bpg j"
  consider (near) "j \<noteq> 0 \<and> lmap \<noteq> -1 \<and> j + (ffz lmap + 1) < bpg"
    | (byte) "\<not> (j \<noteq> 0 \<and> lmap \<noteq> -1 \<and> j + (ffz lmap + 1) < bpg)" "8 * r < bpg"
    | (rest) "\<not> (j \<noteq> 0 \<and> lmap \<noteq> -1 \<and> j + (ffz lmap + 1) < bpg)" "\<not> 8 * r < bpg" by blast
  then show ?thesis
  proof cases
    case near
    then have "near_goal bs bpg j = Got (j + (ffz lmap + 1))"
      using used by (simp add: near_goal_def lmap_def Let_def)
    moreover have "\<not> test_bit (j + 1 + ffz lmap) bs"
      using near ffz_free [of lmap] by (intro near_word_free) (auto simp: lmap_def)
    ultimately show ?thesis using l near by (simp add: landed_got add.commute add.left_commute)
  next
    case byte
    then have ng: "near_goal bs bpg j = Back (8 * r)"
      using used by (simp add: near_goal_def lmap_def r_def Let_def)
    have "rd8 bs r = 0"
    proof -
      let ?x = "\<lambda>i. rd8 bs (j div 8 + i)" and ?n = "(bpg - j + 7) div 8"
      have "memscan ?x 0 ?n < ?n"
      proof (rule ccontr)
        assume "\<not> memscan ?x 0 ?n < ?n"
        then have "r \<ge> j div 8 + ?n" by (simp add: r_def)
        moreover have "8 * (j div 8 + ?n) = bpg" using byte_rest [of bpg "bpg div 8" j] j sz(2) by (auto elim!: dvdE)
        ultimately show False using byte(2) by simp
      qed
      then show ?thesis using memscan_spec [of ?x 0 ?n] unfolding r_def by blast
    qed
    then have "\<not> test_bit (8 * r) bs" by (rule test_bit_zero_byte) simp
    then show ?thesis using l byte(2) unfolding ng by (intro landed_back_free) auto
  next
    case rest
    have z: "first_zero (\<lambda>k. test_bit k bs) j bpg z"
      unfolding z_def by (rule find_next_zero_bit_spec) (use sz j in auto)
    have "near_goal bs bpg j = (if z < bpg then Got z else Missed)"
      using rest used unfolding near_goal_def lmap_def r_def z_def Let_def by auto
    then show ?thesis using l z
      by (auto simp: landed_got first_zero_def split: if_splits)
  qed
qed

lemma search_group_free:
  assumes l: "landed bs (search_group bs bpg) = Some k" and sz: "32 dvd bpg"
  shows "k < bpg \<and> \<not> test_bit k bs"
proof -
  define m where "m = memscan (rd8 bs) 0 (bpg div 8)"
  define z where "z = find_first_zero_bit (rd32 bs) bpg"
  show ?thesis
  proof (cases "8 * m < bpg")
    case True
    then have "m < bpg div 8" using sz by (auto elim!: dvdE)
    then have "rd8 bs m = 0" using memscan_spec [of "rd8 bs" 0 "bpg div 8"] by (simp add: m_def)
    then have "\<not> test_bit (8 * m) bs" by (rule test_bit_zero_byte) simp
    moreover have "search_group bs bpg = Back (8 * m)" using True by (simp add: search_group_def m_def)
    ultimately show ?thesis using l True by (intro landed_back_free) auto
  next
    case False
    have z: "first_zero (\<lambda>k. test_bit k bs) 0 bpg z"
      unfolding z_def by (rule find_first_zero_bit_spec [OF sz])
    have "search_group bs bpg = (if z \<ge> bpg then Missed else Back z)"
      using False by (simp add: search_group_def m_def z_def Let_def)
    then show ?thesis using l z landed_back_free [of z bs bpg k]
      by (auto simp: first_zero_def split: if_splits)
  qed
qed

text \<open>A group with a free bit is not missed.\<close>

lemma search_group_finds:
  assumes free: "k < bpg" "\<not> test_bit k bs" and sz: "32 dvd bpg"
  shows "landed bs (search_group bs bpg) \<noteq> None"
proof -
  have "first_zero (\<lambda>k. test_bit k bs) 0 bpg (find_first_zero_bit (rd32 bs) bpg)"
    by (rule find_first_zero_bit_spec [OF sz])
  then have "find_first_zero_bit (rd32 bs) bpg < bpg"
    using first_zero_exists free by blast
  then show ?thesis by (auto simp: search_group_def landed_def Let_def)
qed


section \<open>The views of a file system\<close>

text \<open>The number of bit \<open>j\<close> of group \<open>g\<close>, the bitmap of a group, and whether a bit of it is set.\<close>

definition block_no :: "ext2_fs \<Rightarrow> nat \<Rightarrow> nat \<Rightarrow> u32" where
  "block_no fs g j = of_nat j + of_nat g * of_nat (s_blocks_per_group fs) + s_first_data_block fs"

abbreviation bmap_no :: "ext2_fs \<Rightarrow> nat \<Rightarrow> u32" where
  "bmap_no fs g \<equiv> bg_block_bitmap (desc_of fs g)"

definition used :: "ext2_fs \<Rightarrow> nat \<Rightarrow> nat \<Rightarrow> bool" where
  "used fs g j = test_bit j (the (b_data fs (bmap_no fs g)))"

text \<open>
  The geometry of a mounted file system: groups of a multiple of 32 blocks, fewer than \<open>2^16\<close> of
  them, that cover the data zone without wrapping a 32-bit block number.
\<close>

definition geom :: "ext2_fs \<Rightarrow> bool" where
  "geom fs \<longleftrightarrow> 0 < s_blocks_per_group fs \<and> s_blocks_per_group fs < 2 ^ 16 \<and> 32 dvd s_blocks_per_group fs \<and>
     unat (s_first_data_block fs) + s_groups_count fs * s_blocks_per_group fs < 2 ^ 32 \<and>
     s_first_data_block fs < s_blocks_count fs \<and>
     unat (s_blocks_count fs) \<le> unat (s_first_data_block fs) + s_groups_count fs * s_blocks_per_group fs"

text \<open>
  What the allocator needs of the bitmaps: they can be read, they are different blocks, they cover
  their group, they are themselves marked in use, and so is everything past the last block.
\<close>

definition balloc_ok :: "ext2_fs \<Rightarrow> bool" where
  "balloc_ok fs \<longleftrightarrow> geom fs \<and> blk.ready fs \<and>
     (\<forall>g < s_groups_count fs. s_blocks_per_group fs \<le> 8 * length (the (b_data fs (bmap_no fs g)))) \<and>
     (\<forall>g < s_groups_count fs. \<forall>h < s_groups_count fs. bmap_no fs g = bmap_no fs h \<longrightarrow> g = h) \<and>
     (\<forall>g < s_groups_count fs. \<exists>h < s_groups_count fs. \<exists>k < s_blocks_per_group fs.
        bmap_no fs g = block_no fs h k \<and> used fs h k) \<and>
     (\<forall>g < s_groups_count fs. \<forall>k < s_blocks_per_group fs.
        s_blocks_count fs \<le> block_no fs g k \<longrightarrow> used fs g k)"

text \<open>The counters agree with the bitmaps.\<close>

abbreviation free_in :: "ext2_fs \<Rightarrow> nat \<Rightarrow> nat" where
  "free_in fs g \<equiv> zeros (used fs g) (s_blocks_per_group fs)"

definition counts_ok :: "ext2_fs \<Rightarrow> bool" where
  "counts_ok fs \<longleftrightarrow>
     (\<forall>g < s_groups_count fs. unat (bg_free_blocks_count (desc_of fs g)) = free_in fs g) \<and>
     unat (s_free_blocks_count fs) = (\<Sum>g < s_groups_count fs. free_in fs g)"

lemma unat_block_no:
  assumes "geom fs" and "g < s_groups_count fs" and "j < s_blocks_per_group fs"
  shows "unat (block_no fs g j) = j + g * s_blocks_per_group fs + unat (s_first_data_block fs)"
    and "block_no fs g j - s_first_data_block fs = of_nat (j + g * s_blocks_per_group fs)"
    and "j + g * s_blocks_per_group fs < 2 ^ 32"
proof -
  let ?b = "s_blocks_per_group fs"
  have "Suc g * ?b \<le> s_groups_count fs * ?b" using assms(2) by (intro mult_le_mono1) simp
  then have lt: "j + g * ?b + unat (s_first_data_block fs) < 2 ^ 32"
    using assms by (simp add: geom_def)
  then show "j + g * ?b < 2 ^ 32" by simp
  have e: "block_no fs g j = of_nat (j + g * ?b + unat (s_first_data_block fs))"
    by (simp add: block_no_def)
  show "unat (block_no fs g j) = j + g * ?b + unat (s_first_data_block fs)"
    unfolding e using lt by (intro unat_of_nat_u32) simp
  show "block_no fs g j - s_first_data_block fs = of_nat (j + g * ?b)"
    by (simp add: block_no_def)
qed

lemma group_bit_of_block_no:
  assumes "geom fs" and "g < s_groups_count fs" and "j < s_blocks_per_group fs"
  shows "group_of fs (block_no fs g j) = g" and "bit_of fs (block_no fs g j) = j"
proof -
  have u: "unat (of_nat (j + g * s_blocks_per_group fs) :: u32) = j + g * s_blocks_per_group fs"
    using unat_block_no(3) [OF assms] by (intro unat_of_nat_u32) simp
  show "group_of fs (block_no fs g j) = g"
    unfolding group_of_def unat_block_no(2) [OF assms] u using assms(3) by simp
  show "bit_of fs (block_no fs g j) = j"
    unfolding bit_of_def unat_block_no(2) [OF assms] u using assms(3) by simp
qed

lemma block_no_inj:
  assumes "geom fs" and "g < s_groups_count fs" and "j < s_blocks_per_group fs"
    and "h < s_groups_count fs" and "k < s_blocks_per_group fs" and "block_no fs g j = block_no fs h k"
  shows "g = h \<and> j = k"
  using assms group_bit_of_block_no by metis

text \<open>Every block of the data zone is a bit of a group.\<close>

lemma zone_block:
  assumes geom: "geom fs" and b: "s_first_data_block fs \<le> b" "b < s_blocks_count fs"
  shows "group_of fs b < s_groups_count fs" and "bit_of fs b < s_blocks_per_group fs"
    and "block_no fs (group_of fs b) (bit_of fs b) = b"
proof -
  let ?p = "s_blocks_per_group fs"
  define d where "d = unat (b - s_first_data_block fs)"
  have d: "d = unat b - unat (s_first_data_block fs)" using b(1) by (simp add: d_def unat_sub)
  have "unat b < unat (s_blocks_count fs)" using b(2) by (simp add: word_less_nat_alt)
  moreover have "unat (s_blocks_count fs) \<le> unat (s_first_data_block fs) + s_groups_count fs * ?p"
    using geom by (simp add: geom_def)
  moreover have "unat (s_first_data_block fs) \<le> unat b" using b(1) by (simp add: word_le_nat_alt)
  ultimately have "d < s_groups_count fs * ?p" unfolding d by linarith
  then show "group_of fs b < s_groups_count fs"
    by (simp add: group_of_def d_def [symmetric] less_mult_imp_div_less)
  show "bit_of fs b < ?p" using geom by (simp add: bit_of_def geom_def)
  have "(of_nat (bit_of fs b + group_of fs b * ?p) :: u32) = of_nat d"
    by (simp only: bit_of_def group_of_def d_def [symmetric] mod_div_mult_eq)
  then have "of_nat (bit_of fs b) + of_nat (group_of fs b) * of_nat ?p = b - s_first_data_block fs"
    by (simp add: d_def)
  then show "block_no fs (group_of fs b) (bit_of fs b) = b" by (simp add: block_no_def)
qed

section \<open>The effect of an allocation on the state\<close>

definition table_upd :: "gd_ptr \<Rightarrow> (group_desc \<Rightarrow> group_desc) \<Rightarrow>
    (u32 \<times> group_desc list) option list \<Rightarrow> (u32 \<times> group_desc list) option list" where
  "table_upd p f t = t[fst p := map_option (\<lambda>(b, ds). (b, ds[snd p := f (ds ! snd p)])) (t ! fst p)]"

lemma gd_upd_table: "gd_upd p f fs = fs\<lparr>s_group_desc := table_upd p f (s_group_desc fs)\<rparr>"
  by (simp add: gd_upd_def table_upd_def)

lemma table_upd_id: "table_upd p (\<lambda>gd. gd) t = t"
proof -
  have "map_option (\<lambda>(b, ds). (b, ds[snd p := ds ! snd p])) x = x" for x :: "(u32 \<times> group_desc list) option"
    by (cases x) auto
  then show ?thesis by (simp add: table_upd_def)
qed

lemma table_upd_comp: 
  assumes "\<And>b ds. fst p < length t \<Longrightarrow> t ! fst p = Some (b, ds) \<Longrightarrow> snd p < length ds"
  shows "table_upd p f (table_upd p g t) = table_upd p (\<lambda>gd. f (g gd)) t"
proof (cases "fst p < length t")
  case True
  show ?thesis
  proof (cases "t ! fst p")
    case None
    with True show ?thesis by (simp add: table_upd_def)
  next
    case (Some bd)
    obtain b ds where "bd = (b, ds)" by (cases bd)
    with Some have e: "t ! fst p = Some (b, ds)" by simp
    with assms True have "snd p < length ds" by blast
    with True e show ?thesis by (simp add: table_upd_def)
  qed
qed (simp add: table_upd_def list_update_beyond)

text \<open>Taking \<open>n\<close> blocks off the count of a descriptor.\<close>

definition take_free :: "nat \<Rightarrow> group_desc \<Rightarrow> group_desc" where
  "take_free n gd = gd\<lparr>bg_free_blocks_count := bg_free_blocks_count gd - of_nat n\<rparr>"

lemma take_free_0: "take_free 0 = (\<lambda>gd. gd)"
  by (simp add: take_free_def fun_eq_iff)

lemma take_free_Suc: "take_free (Suc 0) (take_free n gd) = take_free (Suc n) gd"
  by (simp add: take_free_def)

lemma bmap_take_free [simp]: "bg_block_bitmap (take_free n gd) = bg_block_bitmap gd"
  "bg_inode_bitmap (take_free n gd) = bg_inode_bitmap gd"
  "bg_free_blocks_count (take_free n gd) = bg_free_blocks_count gd - of_nat n"
  by (simp_all add: take_free_def)

lemma poke_bit_same: "test_bit b bs = v \<Longrightarrow> b div 8 < length bs \<Longrightarrow> poke_bit v b bs = bs"
proof -
  assume a: "test_bit b bs = v" "b div 8 < length bs"
  have w: "Bit_Operations.set_bit (b mod 8) w = w" if "bit w (b mod 8)" for w :: u8
    using that by (intro bit_eqI) (auto simp: bit_set_bit_iff)
  have w': "Bit_Operations.unset_bit (b mod 8) w = w" if "\<not> bit w (b mod 8)" for w :: u8
    using that by (intro bit_eqI) (auto simp: bit_unset_bit_iff)
  show ?thesis using a w [of "bs ! (b div 8)"] w' [of "bs ! (b div 8)"]
    by (cases v) (simp_all add: poke_bit_def test_bit_def rd8_def)
qed

text \<open>The preallocation takes the free run that starts at \<open>b\<close>, at most \<open>n\<close> bits of it.\<close>

lemma prealloc_spec:
  "prealloc n b bpg bs = Some (m, bs') \<Longrightarrow> b \<le> bpg \<Longrightarrow> m \<le> n \<and> b + m \<le> bpg \<and> length bs' = length bs \<and>
     (\<forall>k. b \<le> k \<and> k < b + m \<longrightarrow> \<not> test_bit k bs) \<and>
     (\<forall>k. test_bit k bs' = (test_bit k bs \<or> b \<le> k \<and> k < b + m))"
proof (induction n b bpg bs arbitrary: m bs' rule: prealloc.induct)
  case (2 n b bpg bs)
  show ?case
  proof (cases "b < bpg")
    case False
    with 2 show ?thesis by auto
  next
    case True
    with 2 obtain was bs1 where s: "set_bit b bs = Some (was, bs1)"
      by (cases "set_bit b bs") auto
    note sb = set_bit_SomeD [OF s]
    show ?thesis
    proof (cases was)
      case True
      then have "bs1 = bs" using sb poke_bit_same [of b bs True] by simp
      with 2 s True \<open>b < bpg\<close> show ?thesis by auto
    next
      case False
      obtain m1 bs2 where r: "prealloc n (Suc b) bpg bs1 = Some (m1, bs2)"
        using 2 s False True by (cases "prealloc n (Suc b) bpg bs1") auto
      have e: "m = Suc m1" "bs' = bs2" using 2 s False True r by auto
      have ih: "m1 \<le> n \<and> Suc b + m1 \<le> bpg \<and> length bs2 = length bs1 \<and>
          (\<forall>k. Suc b \<le> k \<and> k < Suc b + m1 \<longrightarrow> \<not> test_bit k bs1) \<and>
          (\<forall>k. test_bit k bs2 = (test_bit k bs1 \<or> Suc b \<le> k \<and> k < Suc b + m1))"
        using "2.IH" [OF True s refl False r] True by simp
      have t: "test_bit k bs1 = (k = b \<or> test_bit k bs)" for k
        using sb by (simp add: test_bit_poke_bit)
      have "\<not> test_bit k bs" if "b \<le> k" "k < b + Suc m1" for k
        using ih t that sb False by (cases "k = b") auto
      moreover have "test_bit k bs2 = (test_bit k bs \<or> b \<le> k \<and> k < b + Suc m1)" for k
        using ih t by (cases "k = b") auto
      ultimately show ?thesis using ih e sb by simp
    qed
  qed
qed auto

lemma prealloc_total: "bpg \<le> 8 * length bs \<Longrightarrow> prealloc n b bpg bs \<noteq> None"
proof (induction n b bpg bs rule: prealloc.induct)
  case (2 n b bpg bs)
  have s: "set_bit b bs = Some (test_bit b bs, poke_bit True b bs)" if "b < bpg"
    using 2 that by (simp add: set_bit_def)
  show ?case
  proof (cases "b < bpg \<and> \<not> test_bit b bs")
    case True
    then obtain r where "prealloc n (Suc b) bpg (poke_bit True b bs) = Some r"
      using 2 s by fastforce
    with True s show ?thesis by (cases r) simp
  next
    case False
    with s show ?thesis by auto
  qed
qed simp

definition extended :: "prealloc_ptr \<Rightarrow> nat \<Rightarrow> nat \<Rightarrow> u8 list \<Rightarrow> (nat \<times> u8 list) option" where
  "extended pre j bpg bs = (case pre of None \<Rightarrow> Some (0, bs) | Some _ \<Rightarrow> prealloc 7 (Suc j) bpg bs)"

lemma preallocate_effect:
  assumes "preallocate j bh p tmp bs pre fs = Some (pre', fs')"
  obtains n bs' where "extended pre j (s_blocks_per_group fs) bs = Some (n, bs')"
    and "pre' = map_option (\<lambda>_. (of_nat n, tmp + 1)) pre"
    and "fs' = fs\<lparr>b_data := (b_data fs)(bh \<mapsto> bs'), s_group_desc := table_upd p (take_free n) (s_group_desc fs),
      s_free_blocks_count := s_free_blocks_count fs - of_nat n\<rparr>"
proof (cases pre)
  case None
  then show thesis
    using assms that [of 0 bs] by (auto simp: preallocate_def extended_def take_free_0 table_upd_id)
next
  case (Some q)
  obtain n bs' where e: "prealloc 7 (Suc j) (s_blocks_per_group fs) bs = Some (n, bs')"
    using assms Some by (cases "prealloc 7 (Suc j) (s_blocks_per_group fs) bs") (auto simp: preallocate_def)
  show thesis
    using assms Some e that [of n bs']
    by (simp add: preallocate_def extended_def gd_upd_table take_free_def [abs_def])
qed

lemma sync_write: "\<exists>D W. (if c then ll_rw_block_write bh fs else fs) = fs\<lparr>b_dirt := D, b_written := W\<rparr>"
proof (cases c)
  case True
  then have "(if c then ll_rw_block_write bh fs else fs) =
      fs\<lparr>b_dirt := (b_dirt fs)(bh := False), b_written := b_written fs @ [bh]\<rparr>"
    by (simp add: ll_rw_block_write_def)
  then show ?thesis by blast
next
  case False
  then have "(if c then ll_rw_block_write bh fs else fs) = fs\<lparr>b_dirt := b_dirt fs, b_written := b_written fs\<rparr>"
    by simp
  then show ?thesis by blast
qed

lemma finish_block_effect:
  assumes r: "finish_block p bh tmp pre fs = Some ((b, pre'), fs')" and b: "b \<noteq> 0"
  shows "tmp < s_blocks_count fs" and "b = tmp" and "pre' = pre"
    and "\<exists>D W C. fs' = fs\<lparr>s_lock := False, s_dirt := True, s_free_blocks_count := s_free_blocks_count fs - 1,
      s_group_desc := table_upd p (take_free 1) (s_group_desc fs),
      b_data := (b_data fs)(b \<mapsto> replicate (s_blocksize fs) 0),
      b_dirt := D, b_written := W, b_count := C\<rparr>"
proof -
  obtain D W where sync: "(if s_flags (mark_buffer_dirty bh fs) AND MS_SYNCHRONOUS \<noteq> 0
      then ll_rw_block_write bh (mark_buffer_dirty bh fs) else mark_buffer_dirty bh fs) =
      (mark_buffer_dirty bh fs)\<lparr>b_dirt := D, b_written := W\<rparr>"
    using sync_write by blast
  note r = r [unfolded finish_block_def Let_def sync]
  show lt: "tmp < s_blocks_count fs"
  proof (rule ccontr)
    assume "\<not> tmp < s_blocks_count fs"
    then show False using r b by (auto simp: mark_buffer_dirty_def bind_eq_Some_conv not_less)
  qed
  then have e: "b = tmp \<and> pre' = pre \<and> fs' = unlock_super (new_block_zeroed p tmp
      (snd (getblk tmp ((mark_buffer_dirty bh fs)\<lparr>b_dirt := D, b_written := W\<rparr>))))"
    using r lt [folded not_le] by (auto simp: mark_buffer_dirty_def getblk_def)
  then show "b = tmp" "pre' = pre" by simp_all
  have "fs' = unlock_super (new_block_zeroed p tmp
      (snd (getblk tmp ((mark_buffer_dirty bh fs)\<lparr>b_dirt := D, b_written := W\<rparr>))))" using e by blast
  then show "\<exists>D W C. fs' = fs\<lparr>s_lock := False, s_dirt := True, s_free_blocks_count := s_free_blocks_count fs - 1,
      s_group_desc := table_upd p (take_free 1) (s_group_desc fs),
      b_data := (b_data fs)(b \<mapsto> replicate (s_blocksize fs) 0),
      b_dirt := D, b_written := W, b_count := C\<rparr>"
    unfolding conjunct1 [OF e]
    by (intro exI [where x = W] exI [where x = "b_count fs"] exI [where x = "(D(tmp := True,
        gd_bh (new_block_zeroed p tmp fs) p := True, s_sbh fs := True))"])
      (simp add: new_block_zeroed_def buffer_ops gd_upd_table take_free_def [abs_def] gd_bh_def Let_def)
qed

text \<open>
  A successful \<open>got_block\<close>: bit \<open>j\<close> of group \<open>g\<close> was clear; it and the \<open>n\<close> bits of the
  preallocation are set, the block is cleared, and both counters go down by \<open>n + 1\<close>.
\<close>

lemma got_block_effect:
  assumes wf: "gd_wf fs" "g < s_groups_count fs"
    and r: "got_block g bh j pre fs = Some ((b, pre'), fs')" and b: "b \<noteq> 0"
  obtains bs n bs' D W C where "b_data fs bh = Some bs" and "j div 8 < length bs" and "\<not> test_bit j bs"
    and "extended pre j (s_blocks_per_group fs) (poke_bit True j bs) = Some (n, bs')"
    and "b = block_no fs g j" and "b < s_blocks_count fs"
    and "pre' = map_option (\<lambda>_. (of_nat n, b + 1)) pre"
    and "fs' = fs\<lparr>s_lock := False, s_dirt := True, s_free_blocks_count := s_free_blocks_count fs - of_nat (Suc n),
      s_group_desc := table_upd (gdp fs g) (take_free (Suc n)) (s_group_desc fs),
      b_data := (b_data fs)(bh \<mapsto> bs', b \<mapsto> replicate (s_blocksize fs) 0),
      b_dirt := D, b_written := W, b_count := C\<rparr>"
proof -
  define tmp where "tmp = block_no fs g j"
  note tmp = tmp_def [unfolded block_no_def, symmetric]
  have p: "get_group_desc fs g = Some (gdp fs g)" by (rule get_group_desc_wf [OF wf])
  have ns: "\<not> (test_opt fs EXT2_MOUNT_CHECK_STRICT \<and> in_system_zone fs (desc_of fs g) tmp)"
    using r p by (auto simp: got_block_def tmp Let_def)
  note gb = r [unfolded got_block_def p bind.bind_lunit Let_def tmp if_not_P [OF ns]]
  obtain bs where bs: "b_data fs bh = Some bs" using gb by (cases "b_data fs bh") simp_all
  note gb = gb [unfolded bs bind.bind_lunit]
  obtain bs1 where sb: "set_bit j bs = Some (False, bs1)"
    using gb by (cases "set_bit j bs") (auto split: if_splits)
  note sbD = set_bit_SomeD [OF sb]
  obtain pre1 fs1 where pr: "preallocate j bh (gdp fs g) tmp bs1 pre fs = Some (pre1, fs1)"
    using gb sb by (cases "preallocate j bh (gdp fs g) tmp bs1 pre fs") auto
  have fin: "finish_block (gdp fs g) bh tmp pre1 fs1 = Some ((b, pre'), fs')" using gb sb pr by simp
  obtain n bs' where n: "extended pre j (s_blocks_per_group fs) bs1 = Some (n, bs')"
    and pre1: "pre1 = map_option (\<lambda>_. (of_nat n, tmp + 1)) pre"
    and fs1: "fs1 = fs\<lparr>b_data := (b_data fs)(bh \<mapsto> bs'), s_group_desc := table_upd (gdp fs g) (take_free n) (s_group_desc fs),
      s_free_blocks_count := s_free_blocks_count fs - of_nat n\<rparr>"
    using preallocate_effect [OF pr] by blast
  have blk: "\<And>x ds. fst (gdp fs g) < length (s_group_desc fs) \<Longrightarrow>
      s_group_desc fs ! fst (gdp fs g) = Some (x, ds) \<Longrightarrow> snd (gdp fs g) < length ds"
    using wf gd_wf_index(2) [OF wf] by (force simp: gd_wf_def gdp_def)
  have "tmp < s_blocks_count fs1" and e: "b = tmp" "pre' = pre1"
    and z: "\<exists>D W C. fs' = fs1\<lparr>s_lock := False, s_dirt := True, s_free_blocks_count := s_free_blocks_count fs1 - 1,
      s_group_desc := table_upd (gdp fs g) (take_free 1) (s_group_desc fs1),
      b_data := (b_data fs1)(b \<mapsto> replicate (s_blocksize fs1) 0),
      b_dirt := D, b_written := W, b_count := C\<rparr>"
    using finish_block_effect [OF fin b] by blast+
  then obtain D W C where z: "fs' = fs1\<lparr>s_lock := False, s_dirt := True, s_free_blocks_count := s_free_blocks_count fs1 - 1,
      s_group_desc := table_upd (gdp fs g) (take_free 1) (s_group_desc fs1),
      b_data := (b_data fs1)(b \<mapsto> replicate (s_blocksize fs1) 0),
      b_dirt := D, b_written := W, b_count := C\<rparr>" by blast
  have t: "table_upd (gdp fs g) (take_free 1) (table_upd (gdp fs g) (take_free n) (s_group_desc fs)) =
      table_upd (gdp fs g) (take_free (Suc n)) (s_group_desc fs)"
    by (subst table_upd_comp) (use blk in \<open>auto simp: take_free_Suc fun_eq_iff\<close>)
  have "b < s_blocks_count fs" using \<open>tmp < s_blocks_count fs1\<close> e(1) fs1 by simp
  moreover have "pre' = map_option (\<lambda>_. (of_nat n, b + 1)) pre" using pre1 e by simp
  moreover have "fs' = fs\<lparr>s_lock := False, s_dirt := True, s_free_blocks_count := s_free_blocks_count fs - of_nat (Suc n),
      s_group_desc := table_upd (gdp fs g) (take_free (Suc n)) (s_group_desc fs),
      b_data := (b_data fs)(bh \<mapsto> bs', b \<mapsto> replicate (s_blocksize fs) 0),
      b_dirt := D, b_written := W, b_count := C\<rparr>"
    unfolding z fs1 using t by (simp add: diff_diff_eq add.commute)
  moreover have "b = block_no fs g j" using e(1) by (simp add: tmp_def)
  ultimately show thesis
    using that [OF bs, of n bs' C W D] sbD n by blast
qed

section \<open>What an allocation does to the views\<close>

text \<open>The fields no operation of the allocators changes.\<close>

definition layout :: "ext2_fs \<Rightarrow> _" where
  "layout fs = (s_blocksize fs, s_inodes_count fs, s_blocks_count fs, s_r_blocks_count fs,
     s_first_data_block fs, s_groups_count fs, s_blocks_per_group fs, s_inodes_per_group fs,
     s_inodes_per_block fs, s_itb_per_group fs, s_desc_per_block fs, s_mount_opt fs)"

lemma layoutD:
  assumes "layout fs' = layout fs"
  shows "s_blocksize fs' = s_blocksize fs" "s_inodes_count fs' = s_inodes_count fs"
    "s_blocks_count fs' = s_blocks_count fs" "s_r_blocks_count fs' = s_r_blocks_count fs"
    "s_first_data_block fs' = s_first_data_block fs" "s_groups_count fs' = s_groups_count fs"
    "s_blocks_per_group fs' = s_blocks_per_group fs" "s_inodes_per_group fs' = s_inodes_per_group fs"
    "s_inodes_per_block fs' = s_inodes_per_block fs" "s_itb_per_group fs' = s_itb_per_group fs"
    "s_desc_per_block fs' = s_desc_per_block fs" "s_mount_opt fs' = s_mount_opt fs"
  using assms by (simp_all add: layout_def)

lemma layout_block_no:
  assumes "layout fs' = layout fs"
  shows "block_no fs' g j = block_no fs g j"
  by (simp add: block_no_def layoutD [OF assms])

lemma layout_geom:
  assumes "layout fs' = layout fs"
  shows "geom fs' = geom fs"
  by (simp add: geom_def layoutD [OF assms])

lemma table_upd_at:
  assumes wf: "gd_wf fs" "g < s_groups_count fs"
  shows "snd (the (table_upd (gdp fs g) f (s_group_desc fs) ! fst (gdp fs h))) ! snd (gdp fs h) =
    (if h = g then f (desc_of fs g) else desc_of fs h)"
proof -
  let ?p = "gdp fs g" and ?q = "gdp fs h"
  obtain b ds where e: "s_group_desc fs ! fst ?p = Some (b, ds)" "length ds = s_desc_per_block fs"
    using gd_wf_block [OF wf] by (auto simp: gdp_def)
  have i: "fst ?p < length (s_group_desc fs)" "snd ?p < length ds"
    using gd_wf_index [OF wf] e by (simp_all add: gdp_def)
  have eq: "h = g \<longleftrightarrow> fst ?q = fst ?p \<and> snd ?q = snd ?p"
    using gdp_inj [of fs h g] by (auto simp: prod_eq_iff)
  show ?thesis
  proof (cases "fst ?q = fst ?p")
    case True
    then show ?thesis using i e eq by (auto simp: table_upd_def gd_at_def)
  next
    case False
    then show ?thesis using eq by (auto simp: table_upd_def gd_at_def)
  qed
qed

lemma gd_wf_table:
  assumes "gd_wf fs" and "s_group_desc fs' = table_upd p f (s_group_desc fs)" and "layout fs' = layout fs"
  shows "gd_wf fs'"
  using gd_upd_wf [OF assms(1), of p f] assms(2) layoutD [OF assms(3)]
  by (simp add: gd_wf_def gd_upd_table)

text \<open>
  \<open>alloc_rel fs g j n b fs'\<close>: in \<open>fs'\<close> the block \<open>b\<close> is zeroed, the bits \<open>j\<close> to \<open>j + n\<close> of group
  \<open>g\<close> are set in addition, the counters are lower by \<open>n + 1\<close>, and the rest is as in \<open>fs\<close>.
\<close>

definition alloc_rel :: "ext2_fs \<Rightarrow> nat \<Rightarrow> nat \<Rightarrow> nat \<Rightarrow> u32 \<Rightarrow> ext2_fs \<Rightarrow> bool" where
  "alloc_rel fs g j n b fs' \<longleftrightarrow> layout fs' = layout fs \<and> blk.ready fs' \<and> \<not> s_lock fs' \<and>
     (\<forall>h. desc_of fs' h = (if h = g then take_free (Suc n) (desc_of fs g) else desc_of fs h)) \<and>
     s_free_blocks_count fs' = s_free_blocks_count fs - of_nat (Suc n) \<and>
     (\<forall>h < s_groups_count fs. \<forall>k. used fs' h k = (used fs h k \<or> h = g \<and> j \<le> k \<and> k \<le> j + n)) \<and>
     (\<forall>h < s_groups_count fs. length (the (b_data fs' (bmap_no fs h))) = length (the (b_data fs (bmap_no fs h)))) \<and>
     b_data fs' b = Some (replicate (s_blocksize fs) 0) \<and>
     (\<forall>c. c \<noteq> b \<longrightarrow> c \<noteq> bmap_no fs g \<longrightarrow> b_data fs' c = b_data fs c)"

lemma extended_spec:
  assumes "extended pre j bpg bs = Some (n, bs')" and "j < bpg"
  shows "n \<le> 7" and "j + n < bpg" and "pre = None \<Longrightarrow> n = 0" and "length bs' = length bs"
    and "\<And>k. j < k \<Longrightarrow> k \<le> j + n \<Longrightarrow> \<not> test_bit k bs"
    and "\<And>k. test_bit k bs' = (test_bit k bs \<or> j < k \<and> k \<le> j + n)"
  using assms prealloc_spec [of 7 "Suc j" bpg bs n bs']
  by (auto simp: extended_def Suc_le_eq less_Suc_eq_le split: option.splits)

lemma balloc_okD:
  assumes "balloc_ok fs"
  shows "geom fs" and "blk.ready fs" and "gd_wf fs"
    and "\<And>g. g < s_groups_count fs \<Longrightarrow> b_data fs (bmap_no fs g) \<noteq> None"
    and "\<And>g. g < s_groups_count fs \<Longrightarrow> s_blocks_per_group fs \<le> 8 * length (the (b_data fs (bmap_no fs g)))"
    and "\<And>g h. g < s_groups_count fs \<Longrightarrow> h < s_groups_count fs \<Longrightarrow> bmap_no fs g = bmap_no fs h \<Longrightarrow> g = h"
    and "\<And>g k. g < s_groups_count fs \<Longrightarrow> k < s_blocks_per_group fs \<Longrightarrow>
      s_blocks_count fs \<le> block_no fs g k \<Longrightarrow> used fs g k"
  using assms unfolding balloc_ok_def blk.ready_def by blast+

text \<open>A free block is not a bitmap.\<close>

lemma free_not_bitmap:
  assumes ok: "balloc_ok fs" and g: "g < s_groups_count fs" "j < s_blocks_per_group fs" "\<not> used fs g j"
    and h: "h < s_groups_count fs"
  shows "bmap_no fs h \<noteq> block_no fs g j"
proof
  assume e: "bmap_no fs h = block_no fs g j"
  obtain h' k where k: "h' < s_groups_count fs" "k < s_blocks_per_group fs"
    "bmap_no fs h = block_no fs h' k" "used fs h' k"
    using ok h unfolding balloc_ok_def by blast
  then have "block_no fs g j = block_no fs h' k" using e by simp
  then have "g = h' \<and> j = k" by (rule block_no_inj [OF balloc_okD(1) [OF ok] g(1,2) k(1,2)])
  then show False using g(3) k(4) by simp
qed

lemma got_block_views:
  assumes ok: "balloc_ok fs" and g: "g < s_groups_count fs" "j < s_blocks_per_group fs"
    and r: "got_block g (bmap_no fs g) j pre fs = Some ((b, pre'), fs')" and b: "b \<noteq> 0"
  obtains n where "b = block_no fs g j" and "b < s_blocks_count fs" and "n \<le> 7" and "j + n < s_blocks_per_group fs"
    and "pre = None \<Longrightarrow> n = 0" and "pre' = map_option (\<lambda>_. (of_nat n, b + 1)) pre"
    and "\<And>k. j \<le> k \<Longrightarrow> k \<le> j + n \<Longrightarrow> \<not> used fs g k"
    and "alloc_rel fs g j n b fs'"
proof -
  note wf = balloc_okD(3) [OF ok]
  obtain bs n bs' D W C where bs: "b_data fs (bmap_no fs g) = Some bs" "j div 8 < length bs" "\<not> test_bit j bs"
    and n: "extended pre j (s_blocks_per_group fs) (poke_bit True j bs) = Some (n, bs')"
    and e: "b = block_no fs g j" "b < s_blocks_count fs" "pre' = map_option (\<lambda>_. (of_nat n, b + 1)) pre"
    and fs': "fs' = fs\<lparr>s_lock := False, s_dirt := True, s_free_blocks_count := s_free_blocks_count fs - of_nat (Suc n),
      s_group_desc := table_upd (gdp fs g) (take_free (Suc n)) (s_group_desc fs),
      b_data := (b_data fs)(bmap_no fs g \<mapsto> bs', b \<mapsto> replicate (s_blocksize fs) 0),
      b_dirt := D, b_written := W, b_count := C\<rparr>"
    using got_block_effect [OF wf g(1) r b] .
  note x = extended_spec [OF n g(2)]
  have free: "\<not> used fs g j" using bs by (simp add: used_def)
  have poked: "test_bit k (poke_bit True j bs) = (k = j \<or> test_bit k bs)" for k
    using bs(2) by (simp add: test_bit_poke_bit)
  have nfree: "\<not> used fs g k" if "j \<le> k" "k \<le> j + n" for k
    using x(5) [of k] poked [of k] that free bs(1) by (cases "k = j") (auto simp: used_def)
  have lay: "layout fs' = layout fs" by (simp add: fs' layout_def)
  have gdp: "gdp fs' h = gdp fs h" for h by (simp add: gdp_def fs')
  have desc: "desc_of fs' h = (if h = g then take_free (Suc n) (desc_of fs g) else desc_of fs h)" for h
    unfolding gd_at_def [of fs'] gdp table_upd_at [OF wf g(1), symmetric] by (simp add: fs')
  have bm: "bmap_no fs' h = bmap_no fs h" for h by (simp add: desc)
  have bn: "bmap_no fs h \<noteq> b" if "h < s_groups_count fs" for h
    using free_not_bitmap [OF ok g free that] e by simp
  have data: "b_data fs' (bmap_no fs h) = (if h = g then Some bs' else b_data fs (bmap_no fs h))"
    if "h < s_groups_count fs" for h
    using bn [OF that] balloc_okD(6) [OF ok that g(1)] by (auto simp: fs')
  have us: "used fs' h k = (used fs h k \<or> h = g \<and> j \<le> k \<and> k \<le> j + n)" if "h < s_groups_count fs" for h k
    using data [OF that] x(6) [of k] poked [of k] bs(1) unfolding used_def bm by auto
  have "gd_wf fs'" by (rule gd_wf_table [OF wf _ lay]) (simp add: fs')
  moreover have "cache_wf (s_groups_count fs') (bmap_no fs') (block_cache fs')"
    using balloc_okD(2) [OF ok] unfolding blk.ready_def bm by (simp add: fs')
  moreover have "b_data fs' (bmap_no fs' h) \<noteq> None" if "h < s_groups_count fs'" for h
    using data [of h] balloc_okD(4) [OF ok, of h] that by (simp add: bm layoutD(6) [OF lay])
  ultimately have "blk.ready fs'" by (simp add: blk.ready_def)
  moreover have "length (the (b_data fs' (bmap_no fs h))) = length (the (b_data fs (bmap_no fs h)))"
    if "h < s_groups_count fs" for h
    using data [OF that] x(4) bs(1) by simp
  ultimately have "alloc_rel fs g j n b fs'"
    using lay desc us by (simp add: alloc_rel_def) (simp add: fs')
  then show thesis using that e x(1-3) nfree by blast
qed

subsection \<open>The invariants survive an allocation\<close>

lemma alloc_relD:
  assumes "alloc_rel fs g j n b fs'"
  shows "layout fs' = layout fs" and "blk.ready fs'" and "\<not> s_lock fs'"
    and "\<And>h. desc_of fs' h = (if h = g then take_free (Suc n) (desc_of fs g) else desc_of fs h)"
    and "s_free_blocks_count fs' = s_free_blocks_count fs - of_nat (Suc n)"
    and "\<And>h k. h < s_groups_count fs \<Longrightarrow> used fs' h k = (used fs h k \<or> h = g \<and> j \<le> k \<and> k \<le> j + n)"
    and "\<And>h. h < s_groups_count fs \<Longrightarrow> length (the (b_data fs' (bmap_no fs h))) = length (the (b_data fs (bmap_no fs h)))"
    and "b_data fs' b = Some (replicate (s_blocksize fs) 0)"
    and "\<And>c. c \<noteq> b \<Longrightarrow> c \<noteq> bmap_no fs g \<Longrightarrow> b_data fs' c = b_data fs c"
  using assms unfolding alloc_rel_def by blast+

lemma alloc_rel_bmap: "alloc_rel fs g j n b fs' \<Longrightarrow> bmap_no fs' h = bmap_no fs h"
  using alloc_relD(4) [of fs g j n b fs' h] by simp

lemma alloc_rel_ok:
  assumes ok: "balloc_ok fs" and r: "alloc_rel fs g j n b fs'"
  shows "balloc_ok fs'"
proof -
  note lay = layoutD [OF alloc_relD(1) [OF r]]
  note bn = layout_block_no [OF alloc_relD(1) [OF r]]
  have mono: "used fs' h k" if "h < s_groups_count fs" "used fs h k" for h k
    using alloc_relD(6) [OF r] that by simp
  have "\<exists>h' < s_groups_count fs. \<exists>k < s_blocks_per_group fs. bmap_no fs h = block_no fs h' k \<and> used fs' h' k"
    if "h < s_groups_count fs" for h
    using ok that mono unfolding balloc_ok_def by meson
  moreover have "used fs' h k"
    if "h < s_groups_count fs" "k < s_blocks_per_group fs" "s_blocks_count fs \<le> block_no fs h k" for h k
    using balloc_okD(7) [OF ok that] mono that by simp
  ultimately show ?thesis
    using balloc_okD(1,5,6) [OF ok] alloc_relD(2,7) [OF r] layout_geom [OF alloc_relD(1) [OF r]]
    unfolding balloc_ok_def alloc_rel_bmap [OF r] lay bn by simp
qed

lemma zeros_interval:
  assumes "\<And>k. j \<le> k \<Longrightarrow> k < j + m \<Longrightarrow> \<not> P k" and "j + m \<le> N"
  shows "zeros (\<lambda>k. P k \<or> j \<le> k \<and> k < j + m) N + m = zeros P N"
  using assms
proof (induction m)
  case (Suc m)
  let ?Q = "\<lambda>k. P k \<or> j \<le> k \<and> k < j + m"
  have "zeros ?Q N + m = zeros P N" using Suc by simp
  moreover have "(\<lambda>k. P k \<or> j \<le> k \<and> k < j + Suc m) = ?Q(j + m := True)" by (auto simp: fun_eq_iff)
  moreover have "Suc (zeros (?Q(j + m := True)) N) = zeros ?Q N"
    using Suc.prems by (intro zeros_upd_True) auto
  ultimately show ?case by simp
next
  case 0
  have "zeros (\<lambda>k. P k \<or> j \<le> k \<and> k < j + 0) N = zeros P N" by (rule zeros_cong) auto
  then show ?case by simp
qed

lemma alloc_rel_free_in:
  assumes r: "alloc_rel fs g j n b fs'" and h: "h < s_groups_count fs"
    and free: "\<And>k. j \<le> k \<Longrightarrow> k \<le> j + n \<Longrightarrow> \<not> used fs g k" and n: "j + n < s_blocks_per_group fs"
  shows "free_in fs' h + (if h = g then Suc n else 0) = free_in fs h"
proof (cases "h = g")
  case True
  have "used fs' g = (\<lambda>k. used fs g k \<or> j \<le> k \<and> k < j + Suc n)"
    using alloc_relD(6) [OF r h] True by (auto simp: fun_eq_iff less_Suc_eq_le)
  then show ?thesis
    using zeros_interval [of j "Suc n" "used fs g" "s_blocks_per_group fs"] free n True
      layoutD(7) [OF alloc_relD(1) [OF r]] by (simp add: less_Suc_eq_le)
next
  case False
  then have "used fs' h = used fs h" using alloc_relD(6) [OF r h] by (auto simp: fun_eq_iff)
  then show ?thesis using False layoutD(7) [OF alloc_relD(1) [OF r]] by simp
qed

lemma sum_single:
  fixes f f' :: "nat \<Rightarrow> nat"
  assumes "g < n" and "\<And>h. h < n \<Longrightarrow> f' h + (if h = g then d else 0) = f h"
  shows "(\<Sum>h < n. f' h) + d = (\<Sum>h < n. f h)"
proof -
  have "(\<Sum>h < n. f h) = (\<Sum>h < n. f' h + (if h = g then d else 0))"
    using assms(2) by (intro sum.cong) auto
  also have "\<dots> = (\<Sum>h < n. f' h) + (\<Sum>h < n. if h = g then d else 0)" by (simp add: sum.distrib)
  also have "(\<Sum>h < n. if h = g then d else 0) = d" using assms(1) by (simp add: sum.delta)
  finally show ?thesis by simp
qed

lemma unat_sub_of_nat:
  fixes w :: "'a::len word"
  assumes "m \<le> unat w"
  shows "unat (w - of_nat m) = unat w - m"
proof -
  have "m < 2 ^ LENGTH('a)" using assms unsigned_less [of w] by (rule le_less_trans)
  then have m: "unat (of_nat m :: 'a word) = m" by (simp add: unat_of_nat)
  then have "(of_nat m :: 'a word) \<le> w" using assms by (simp add: word_le_nat_alt)
  then show ?thesis by (simp add: unat_sub m)
qed

lemma alloc_rel_counts:
  assumes c: "counts_ok fs" and r: "alloc_rel fs g j n b fs'" and g: "g < s_groups_count fs"
    and free: "\<And>k. j \<le> k \<Longrightarrow> k \<le> j + n \<Longrightarrow> \<not> used fs g k" and n: "j + n < s_blocks_per_group fs"
  shows "counts_ok fs'"
proof -
  note lay = layoutD [OF alloc_relD(1) [OF r]]
  note f = alloc_rel_free_in [OF r _ free n]
  have sum: "(\<Sum>h < s_groups_count fs. free_in fs' h) + Suc n = (\<Sum>h < s_groups_count fs. free_in fs h)"
    by (rule sum_single [OF g]) (use f in simp)
  have "unat (bg_free_blocks_count (desc_of fs' h)) = free_in fs' h" if h: "h < s_groups_count fs" for h
  proof (cases "h = g")
    case True
    have "unat (bg_free_blocks_count (desc_of fs g)) = free_in fs g" using c g by (simp add: counts_ok_def)
    moreover have "free_in fs' g + Suc n = free_in fs g" using f [OF g] by simp
    ultimately show ?thesis
      using True unat_sub_of_nat [of "Suc n" "bg_free_blocks_count (desc_of fs g)"] alloc_relD(4) [OF r, of g]
      by simp
  next
    case False
    then show ?thesis using c h f [OF h] alloc_relD(4) [OF r, of h] by (simp add: counts_ok_def)
  qed
  moreover have "unat (s_free_blocks_count fs') = (\<Sum>h < s_groups_count fs. free_in fs' h)"
    using c sum unat_sub_of_nat [of "Suc n" "s_free_blocks_count fs"] alloc_relD(5) [OF r]
    by (simp add: counts_ok_def)
  ultimately show ?thesis unfolding counts_ok_def lay by simp
qed

subsection \<open>The searches over the groups\<close>

definition same_views :: "ext2_fs \<Rightarrow> ext2_fs \<Rightarrow> bool" where
  "same_views fs fs' \<longleftrightarrow> layout fs' = layout fs \<and> s_group_desc fs' = s_group_desc fs \<and> b_data fs' = b_data fs \<and>
     s_free_blocks_count fs' = s_free_blocks_count fs"

lemma same_views_desc: "same_views fs fs' \<Longrightarrow> desc_of fs' h = desc_of fs h"
  by (rule desc_of_cong) (simp_all add: same_views_def layout_def)

lemma same_views_used: "same_views fs fs' \<Longrightarrow> used fs' h k = used fs h k"
  unfolding used_def by (simp add: same_views_desc) (simp add: same_views_def)

lemma same_views_refl [simp]: "same_views fs fs"
  by (simp add: same_views_def)

lemma same_views_trans: "same_views fs fs1 \<Longrightarrow> same_views fs1 fs2 \<Longrightarrow> same_views fs fs2"
  by (simp add: same_views_def)

lemma same_views_ok:
  assumes ok: "balloc_ok fs" and v: "same_views fs fs'" and r: "blk.ready fs'"
  shows "balloc_ok fs'"
proof -
  have l: "layout fs' = layout fs" and d: "b_data fs' = b_data fs" using v by (auto simp: same_views_def)
  show ?thesis
    using ok r layout_geom [OF l]
    unfolding balloc_ok_def same_views_desc [OF v] same_views_used [OF v] layoutD [OF l] layout_block_no [OF l] d
    by blast
qed

lemma same_views_counts:
  assumes v: "same_views fs fs'"
  shows "counts_ok fs' = counts_ok fs"
proof -
  have l: "layout fs' = layout fs" and s: "s_free_blocks_count fs' = s_free_blocks_count fs"
    using v by (auto simp: same_views_def)
  have "used fs' h = used fs h" for h using same_views_used [OF v] by blast
  then show ?thesis unfolding counts_ok_def same_views_desc [OF v] layoutD [OF l] s by simp
qed

lemma same_views_alloc:
  assumes v: "same_views fs fs1" and r: "alloc_rel fs1 g j n b fs'"
  shows "alloc_rel fs g j n b fs'"
proof -
  have l: "layout fs1 = layout fs" and s: "s_free_blocks_count fs1 = s_free_blocks_count fs"
    and d: "b_data fs1 = b_data fs" using v by (auto simp: same_views_def)
  show ?thesis
    using r unfolding alloc_rel_def same_views_desc [OF v] same_views_used [OF v] layoutD [OF l] l s d .
qed

text \<open>The loader, seen by the allocator.\<close>

lemma group_bitmap_ok:
  assumes ok: "balloc_ok fs" and g: "g < s_groups_count fs"
  obtains fs1 where "group_bitmap g fs = Some (bmap_no fs g, fs1)" and "same_views fs fs1" and "balloc_ok fs1"
    and "s_lock fs1 = s_lock fs"
proof -
  obtain nr c n where l: "load_block_bitmap g fs = Some (nr, fs\<lparr>b_count := n, block_cache := c\<rparr>)"
    and r: "blk.ready (fs\<lparr>b_count := n, block_cache := c\<rparr>)" and b: "bm_bitmap c ! nr = Some (bmap_no fs g)"
    using blk.load_ready_eq [OF balloc_okD(2) [OF ok] g] by blast
  let ?fs = "fs\<lparr>b_count := n, block_cache := c\<rparr>"
  have v: "same_views fs ?fs" by (simp add: same_views_def layout_def)
  show thesis
    by (rule that [of ?fs]) (use l b v same_views_ok [OF ok v r] in \<open>simp_all add: group_bitmap_def\<close>)
qed

lemma goal_group_ok:
  assumes ok: "balloc_ok fs" and i: "i < s_groups_count fs" and j: "j < s_blocks_per_group fs"
  obtains f fs1 where "goal_group i j fs = Some (f, fs1)" and "same_views fs fs1" and "balloc_ok fs1"
    and "s_lock fs1 = s_lock fs"
    and "f = None \<or> (\<exists>k < s_blocks_per_group fs. f = Some (i, bmap_no fs i, k) \<and> \<not> used fs i k)"
proof (cases "bg_free_blocks_count (desc_of fs i) > 0")
  case False
  then have "goal_group i j fs = Some (None, fs)"
    using get_group_desc_wf [OF balloc_okD(3) [OF ok] i] by (simp add: goal_group_def)
  then show thesis using that ok by simp
next
  case True
  obtain fs1 where g: "group_bitmap i fs = Some (bmap_no fs i, fs1)" "same_views fs fs1" "balloc_ok fs1" "s_lock fs1 = s_lock fs"
    using group_bitmap_ok [OF ok i] by blast
  have d: "b_data fs1 = b_data fs" "s_blocks_per_group fs1 = s_blocks_per_group fs"
    using g(2) by (auto simp: same_views_def layout_def)
  obtain bs where bs: "b_data fs (bmap_no fs i) = Some bs" using balloc_okD(4) [OF ok i] by blast
  let ?l = "landed bs (near_goal bs (s_blocks_per_group fs) j)"
  have r: "goal_group i j fs = Some (map_option (\<lambda>j. (i, bmap_no fs i, j)) ?l, fs1)"
    using True get_group_desc_wf [OF balloc_okD(3) [OF ok] i] g d bs by (simp add: goal_group_def)
  have "k < s_blocks_per_group fs \<and> \<not> used fs i k" if "?l = Some k" for k
    using near_goal_free [OF that j] balloc_okD(1) [OF ok] bs by (simp add: geom_def used_def)
  then have "?l = None \<or> (\<exists>k < s_blocks_per_group fs. ?l = Some k \<and> \<not> used fs i k)"
    by (cases ?l) auto
  then show thesis using that [OF r g(2-4)] by auto
qed

lemma scan_groups_found:
  assumes "scan_groups fs n i = Some (Some g)"
  shows "g < s_groups_count fs" and "bg_free_blocks_count (desc_of fs g) > 0"
proof -
  have "g < s_groups_count fs \<and> bg_free_blocks_count (desc_of fs g) > 0"
    using assms
  proof (induction fs n i rule: scan_groups.induct)
    case (2 fs n i)
    define i' where "i' = (if Suc i \<ge> s_groups_count fs then 0 else Suc i)"
    have step: "scan_groups fs (Suc n) i = do { p \<leftarrow> get_group_desc fs i';
        if bg_free_blocks_count (gd_at fs p) > 0 then Some (Some i') else scan_groups fs n i' }"
      by (simp only: scan_groups.simps Let_def i'_def)
    obtain p where p: "get_group_desc fs i' = Some p"
      using "2.prems" unfolding step by (cases "get_group_desc fs i'") simp_all
    note pD = get_group_desc_SomeD [OF p]
    show ?case
    proof (cases "bg_free_blocks_count (gd_at fs p) > 0")
      case True
      then have "i' = g" using "2.prems" p unfolding step by simp
      then show ?thesis using True pD by simp
    next
      case False
      then have "scan_groups fs n i' = Some (Some g)" using "2.prems" p unfolding step by simp
      then show ?thesis using "2.IH" [OF i'_def p False] by blast
    qed
  qed simp
  then show "g < s_groups_count fs" and "bg_free_blocks_count (desc_of fs g) > 0" by simp_all
qed

text \<open>The group \<open>m\<close> steps after \<open>i\<close> is \<open>(i + m) mod s_groups_count\<close>; \<open>s_groups_count\<close> steps visit all.\<close>

lemma scan_groups_finds:
  assumes wf: "gd_wf fs" and i: "i < s_groups_count fs"
    and m: "0 < m" "m \<le> n" "bg_free_blocks_count (desc_of fs ((i + m) mod s_groups_count fs)) > 0"
  shows "\<exists>g. scan_groups fs n i = Some (Some g)"
  using i m
proof (induction n arbitrary: i m)
  case (Suc n)
  define i' where "i' = (if Suc i \<ge> s_groups_count fs then 0 else Suc i)"
  have i': "i' < s_groups_count fs" using Suc.prems(1) by (auto simp: i'_def)
  have im: "i' = Suc i mod s_groups_count fs" using Suc.prems(1) by (auto simp: i'_def le_Suc_eq)
  have p: "get_group_desc fs i' = Some (gdp fs i')" by (rule get_group_desc_wf [OF wf i'])
  show ?case
  proof (cases "bg_free_blocks_count (desc_of fs i') > 0")
    case True
    then show ?thesis using p by (simp add: i'_def [symmetric] Let_def)
  next
    case False
    then have "m \<noteq> 1" using Suc.prems(4) im by auto
    then have m1: "0 < m - 1" "m - 1 \<le> n" using Suc.prems by auto
    have "(i' + (m - 1)) mod s_groups_count fs = (Suc i + (m - 1)) mod s_groups_count fs"
      unfolding im by (simp only: mod_add_left_eq)
    then have "(i' + (m - 1)) mod s_groups_count fs = (i + m) mod s_groups_count fs"
      using Suc.prems(2) by simp
    then obtain g where "scan_groups fs n i' = Some (Some g)"
      using Suc.IH [OF i' m1] Suc.prems(4) by auto
    then show ?thesis using p False by (simp add: i'_def [symmetric] Let_def)
  qed
qed simp

lemma scan_groups_finds_all:
  assumes "gd_wf fs" and i: "i < s_groups_count fs" and h: "h < s_groups_count fs"
    and "bg_free_blocks_count (desc_of fs h) > 0"
  shows "\<exists>g. scan_groups fs (s_groups_count fs) i = Some (Some g)"
proof -
  let ?n = "s_groups_count fs"
  define m where "m = (if i < h then h - i else h + ?n - i)"
  have "0 < m" "m \<le> ?n" "i + m = h \<or> i + m = h + ?n" using i h unfolding m_def by (simp_all, linarith+)
  then have "0 < m" "m \<le> ?n" "(i + m) mod ?n = h" using h by auto
  then show ?thesis using scan_groups_finds [OF assms(1) i, of m ?n] assms(4) by simp
qed

lemma other_groups_found:
  assumes ok: "balloc_ok fs" and r: "other_groups i fs = Some (Some (g, bh, k), fs1)"
  shows "g < s_groups_count fs" and "bh = bmap_no fs g" and "k < s_blocks_per_group fs" and "\<not> used fs g k"
    and "same_views fs fs1" and "balloc_ok fs1" and "s_lock fs1 = s_lock fs"
proof -
  obtain g' where sc: "scan_groups fs (s_groups_count fs) i = Some (Some g')"
    using r by (auto simp: other_groups_def bind_eq_Some_conv split: option.splits)
  note g' = scan_groups_found [OF sc]
  obtain fs2 where gb: "group_bitmap g' fs = Some (bmap_no fs g', fs2)" "same_views fs fs2" "balloc_ok fs2"
    "s_lock fs2 = s_lock fs"
    using group_bitmap_ok [OF ok g'(1)] by blast
  have d: "b_data fs2 = b_data fs" "s_blocks_per_group fs2 = s_blocks_per_group fs"
    using gb(2) by (auto simp: same_views_def layout_def)
  obtain bs where bs: "b_data fs (bmap_no fs g') = Some bs" using balloc_okD(4) [OF ok g'(1)] by blast
  let ?l = "landed bs (search_group bs (s_blocks_per_group fs))"
  have l: "?l = Some k" and e: "g = g'" "bh = bmap_no fs g'" "fs1 = fs2"
    using r sc gb(1) d bs by (auto simp: other_groups_def bind_eq_Some_conv split: option.splits)
  show "k < s_blocks_per_group fs" and "\<not> used fs g k"
    using search_group_free [OF l] balloc_okD(1) [OF ok] bs e by (auto simp: geom_def used_def)
  show "g < s_groups_count fs" "bh = bmap_no fs g" "same_views fs fs1" "balloc_ok fs1" "s_lock fs1 = s_lock fs"
    using e g' gb by simp_all
qed

lemma other_groups_finds:
  assumes ok: "balloc_ok fs" and c: "counts_ok fs" and i: "i < s_groups_count fs"
    and h: "h < s_groups_count fs" "0 < free_in fs h"
  shows "\<exists>f fs1. other_groups i fs = Some (Some f, fs1)"
proof -
  have pos: "bg_free_blocks_count (desc_of fs g) > 0 \<longleftrightarrow> 0 < free_in fs g" if "g < s_groups_count fs" for g
    using c that by (auto simp: counts_ok_def word_less_nat_alt)
  obtain g where sc: "scan_groups fs (s_groups_count fs) i = Some (Some g)"
    using scan_groups_finds_all [OF balloc_okD(3) [OF ok] i h(1)] pos [OF h(1)] h(2) by blast
  note g = scan_groups_found [OF sc]
  obtain fs2 where gb: "group_bitmap g fs = Some (bmap_no fs g, fs2)" "same_views fs fs2" "balloc_ok fs2"
    using group_bitmap_ok [OF ok g(1)] by blast
  have d: "b_data fs2 = b_data fs" "s_blocks_per_group fs2 = s_blocks_per_group fs"
    using gb(2) by (auto simp: same_views_def layout_def)
  obtain bs where bs: "b_data fs (bmap_no fs g) = Some bs" using balloc_okD(4) [OF ok g(1)] by blast
  obtain k where "k < s_blocks_per_group fs" "\<not> used fs g k"
    using pos [OF g(1)] g(2) by (auto simp: zeros_pos_iff)
  then have "landed bs (search_group bs (s_blocks_per_group fs)) \<noteq> None"
    using balloc_okD(1) [OF ok] bs by (intro search_group_finds) (auto simp: geom_def used_def)
  then show ?thesis using sc gb(1) d bs by (auto simp: other_groups_def)
qed

subsection \<open>A found bit is allocated\<close>

text \<open>Nothing in a system zone is free.\<close>

definition zones_used :: "ext2_fs \<Rightarrow> bool" where
  "zones_used fs \<longleftrightarrow> (\<forall>g < s_groups_count fs. \<forall>k < s_blocks_per_group fs.
     in_system_zone fs (desc_of fs g) (block_no fs g k) \<longrightarrow> used fs g k)"

lemma got_block_succeeds:
  assumes ok: "balloc_ok fs" and z: "zones_used fs" and g: "g < s_groups_count fs" "j < s_blocks_per_group fs"
    and free: "\<not> used fs g j"
  shows "\<exists>pre' fs'. got_block g (bmap_no fs g) j pre fs = Some ((block_no fs g j, pre'), fs')"
proof -
  let ?b = "block_no fs g j"
  note wf = balloc_okD(3) [OF ok]
  have p: "get_group_desc fs g = Some (gdp fs g)" by (rule get_group_desc_wf [OF wf g(1)])
  have ns: "\<not> in_system_zone fs (desc_of fs g) ?b" using z g free by (auto simp: zones_used_def)
  have lt: "\<not> s_blocks_count fs \<le> ?b" using balloc_okD(7) [OF ok g] free by blast
  obtain bs where bs: "b_data fs (bmap_no fs g) = Some bs" using balloc_okD(4) [OF ok g(1)] by blast
  have len: "s_blocks_per_group fs \<le> 8 * length bs" using balloc_okD(5) [OF ok g(1)] bs by simp
  have j: "j div 8 < length bs" using len g(2) by (simp add: less_mult_imp_div_less mult.commute)
  have sb: "set_bit j bs = Some (False, poke_bit True j bs)"
    using j free bs by (simp add: set_bit_def used_def)
  have "preallocate j (bmap_no fs g) (gdp fs g) ?b (poke_bit True j bs) pre fs \<noteq> None"
    using prealloc_total [of "s_blocks_per_group fs" "poke_bit True j bs" 7 "Suc j"] len
    by (auto simp: preallocate_def split: option.split)
  then obtain pre1 fs1 where pr: "preallocate j (bmap_no fs g) (gdp fs g) ?b (poke_bit True j bs) pre fs = Some (pre1, fs1)"
    by auto
  have fs1: "s_blocks_count fs1 = s_blocks_count fs"
    by (rule preallocate_effect [OF pr]) simp
  obtain D W where sync: "(if s_flags (mark_buffer_dirty (bmap_no fs g) fs1) AND MS_SYNCHRONOUS \<noteq> 0
      then ll_rw_block_write (bmap_no fs g) (mark_buffer_dirty (bmap_no fs g) fs1)
      else mark_buffer_dirty (bmap_no fs g) fs1) = (mark_buffer_dirty (bmap_no fs g) fs1)\<lparr>b_dirt := D, b_written := W\<rparr>"
    using sync_write by blast
  have "\<exists>fs'. finish_block (gdp fs g) (bmap_no fs g) ?b pre1 fs1 = Some ((?b, pre1), fs')"
    unfolding finish_block_def Let_def sync using lt fs1 by (simp add: mark_buffer_dirty_def getblk_def)
  then show ?thesis
    using p ns bs sb pr by (auto simp: got_block_def block_no_def)
qed

end
