(* ===== verification/Ext2_Example.thy ===== *)
theory Ext2_Example
  imports Ext2_Super
begin

text \<open>
  An example file system, on which the witnesses apply the theorems: two groups of 64 blocks of 128
  bytes, from block 1 on. Each group starts with a copy of the super block and of the descriptors,
  its block bitmap, its inode bitmap and the 32 blocks of its inode table, one inode in each, so 36
  blocks of each group are in use; of the 32 inodes of group 0 the first ten are.
\<close>

definition example_desc :: "u32 \<Rightarrow> u16 \<Rightarrow> group_desc" where
  "example_desc base inodes = \<lparr>bg_block_bitmap = base + 2, bg_inode_bitmap = base + 3,
     bg_inode_table = base + 4, bg_free_blocks_count = 28, bg_free_inodes_count = inodes,
     bg_used_dirs_count = 1\<rparr>"

definition empty_cache :: bitmap_cache where
  "empty_cache = \<lparr>bm_number = replicate 8 0, bm_bitmap = replicate 8 None, bm_loaded = 0\<rparr>"

definition example_data :: "u32 \<Rightarrow> u8 list option" where
  "example_data b =
     (if b = 3 \<or> b = 67 then Some ([0xFF, 0xFF, 0xFF, 0xFF, 0x0F, 0, 0, 0] @ replicate 120 0xFF)
      else if b = 4 then Some ([0xFF, 0x03, 0, 0] @ replicate 124 0xFF)
      else if b = 68 then Some ([0, 0, 0, 0] @ replicate 124 0xFF)
      else Some (replicate 128 0))"

definition example_fs :: ext2_fs where
  "example_fs = \<lparr>s_blocksize = 128, s_flags = 0, s_dirt = False, s_lock = False, s_inodes_count = 64,
     s_blocks_count = 129, s_r_blocks_count = 2, s_free_blocks_count = 56, s_free_inodes_count = 54,
     s_first_data_block = 1, s_state = 1, s_errors = 1, s_groups_count = 2, s_blocks_per_group = 64,
     s_inodes_per_group = 32, s_inodes_per_block = 1, s_itb_per_group = 32, s_desc_per_block = 2,
     s_mount_opt = EXT2_MOUNT_CHECK_STRICT, s_mount_state = 1, s_sbh = 1,
     s_group_desc = [Some (2, [example_desc 1 22, example_desc 65 32])],
     block_cache = empty_cache, inode_cache = empty_cache, b_data = example_data,
     b_dirt = (\<lambda>_. False), b_count = (\<lambda>_. 0), b_written = []\<rparr>"

end
