(* ===== verification/Ext2_Balloc_Props.thy ===== *)
theory Ext2_Balloc_Props
  imports Ext2_Balloc_Correct Ext2_Example
begin

text \<open>
  The theorems about \<open>ext2_new_block\<close> and \<open>ext2_free_blocks\<close>: soundness of an allocation, the
  invariants on every outcome, success whenever a block is free, and the way back.
\<close>

section \<open>The outcomes of ext2_new_block\<close>

lemma ext2_error_frame:
  assumes "ext2_error fs = Some fs'"
  shows "same_views fs fs'" and "block_cache fs' = block_cache fs" and "s_lock fs' = s_lock fs"
    and "inode_cache fs' = inode_cache fs"
  using assms
  by (auto simp: ext2_error_def Let_def same_views_def layout_def mark_buffer_dirty_def split: if_splits)

lemma same_views_ready:
  assumes v: "same_views fs fs'" and c: "block_cache fs' = block_cache fs" and r: "blk.ready fs"
  shows "blk.ready fs'"
proof -
  have l: "layout fs' = layout fs" and t: "s_group_desc fs' = s_group_desc fs" and d: "b_data fs' = b_data fs"
    using v by (auto simp: same_views_def)
  have "gd_wf fs' = gd_wf fs" by (rule gd_wf_cong) (simp_all add: t layoutD [OF l])
  then show ?thesis using r unfolding blk.ready_def same_views_desc [OF v] layoutD [OF l] d c by simp
qed

lemma ext2_error_ok:
  assumes "balloc_ok fs" and "ext2_error fs = Some fs'"
  shows "balloc_ok fs'"
  using assms ext2_error_frame [OF assms(2)] same_views_ok same_views_ready balloc_okD(2) by metis

lemma lock_views:
  "same_views fs (lock_super fs)" "same_views fs (unlock_super fs)"
  "block_cache (lock_super fs) = block_cache fs" "block_cache (unlock_super fs) = block_cache fs"
  "s_lock (lock_super fs)" "\<not> s_lock (unlock_super fs)"
  by (simp_all add: same_views_def layout_def lock_super_def unlock_super_def)

lemma lock_ok:
  assumes "balloc_ok fs"
  shows "balloc_ok (lock_super fs)" and "balloc_ok (unlock_super fs)"
  using same_views_ok [OF assms] same_views_ready [OF _ _ balloc_okD(2) [OF assms]] lock_views [of fs] by blast+

lemma other_groups_none:
  assumes ok: "balloc_ok fs" and r: "other_groups i fs = Some (None, fs1)"
  shows "same_views fs fs1" and "balloc_ok fs1"
proof -
  obtain sc where sc: "scan_groups fs (s_groups_count fs) i = Some sc"
    using r by (cases "scan_groups fs (s_groups_count fs) i") (simp_all add: other_groups_def)
  have "same_views fs fs1 \<and> balloc_ok fs1"
  proof (cases sc)
    case None
    then have "fs1 = fs" using r sc by (simp add: other_groups_def)
    then show ?thesis using ok by simp
  next
    case (Some g)
    note g = scan_groups_found [OF sc [unfolded Some]]
    obtain fs2 where gb: "group_bitmap g fs = Some (bmap_no fs g, fs2)" "same_views fs fs2" "balloc_ok fs2"
      using group_bitmap_ok [OF ok g(1)] by blast
    have "ext2_error fs2 = Some fs1"
      using r sc Some gb(1) by (auto simp: other_groups_def bind_eq_Some_conv split: option.splits)
    then show ?thesis
      using gb ext2_error_frame(1) ext2_error_ok same_views_trans by blast
  qed
  then show "same_views fs fs1" and "balloc_ok fs1" by simp_all
qed

lemma goal_in_zone:
  assumes "geom fs"
  defines "goal' \<equiv> (\<lambda>goal. if goal < s_first_data_block fs \<or> goal \<ge> s_blocks_count fs
      then s_first_data_block fs else goal)"
  shows "group_of fs (goal' goal) < s_groups_count fs" and "bit_of fs (goal' goal) < s_blocks_per_group fs"
proof -
  have "s_first_data_block fs < s_blocks_count fs" using assms(1) by (simp add: geom_def)
  then have "s_first_data_block fs \<le> goal' goal \<and> goal' goal < s_blocks_count fs"
    unfolding goal'_def by auto
  then show "group_of fs (goal' goal) < s_groups_count fs" and "bit_of fs (goal' goal) < s_blocks_per_group fs"
    using zone_block [OF assms(1)] by blast+
qed

lemma new_block_cases:
  assumes ok: "balloc_ok fs" and r: "ext2_new_block goal pre fs = Some ((b, pre'), fs')"
  obtains (failed) "b = 0" and "pre' = pre" and "same_views fs fs'" and "balloc_ok fs'" and "\<not> s_lock fs'"
  | (found) g j fs1 where "g < s_groups_count fs" and "j < s_blocks_per_group fs" and "\<not> used fs g j"
      and "same_views fs fs1" and "balloc_ok fs1"
      and "got_block g (bmap_no fs1 g) j pre fs1 = Some ((b, pre'), fs')"
proof -
  let ?fs = "lock_super fs"
  note ok0 = lock_ok(1) [OF ok] and v0 = lock_views(1) [of fs]
  have lay0: "layout ?fs = layout fs" using v0 by (simp add: same_views_def)
  show thesis
  proof (cases "s_free_blocks_count ?fs \<le> s_r_blocks_count ?fs")
    case True
    then have "b = 0 \<and> pre' = pre \<and> fs' = unlock_super ?fs" using r by (auto simp: ext2_new_block_def)
    then show thesis
      using failed same_views_trans [OF v0 lock_views(2)] lock_ok(2) [OF ok0] lock_views(6) by blast
  next
    case False
    define goal' where "goal' = (if goal < s_first_data_block ?fs \<or> goal \<ge> s_blocks_count ?fs
        then s_first_data_block ?fs else goal)"
    define i j where "i = group_of ?fs goal'" and "j = bit_of ?fs goal'"
    have ij: "i < s_groups_count ?fs" "j < s_blocks_per_group ?fs"
      using goal_in_zone [OF balloc_okD(1) [OF ok0], of goal] by (simp_all add: i_def j_def goal'_def)
    obtain f fs1 where gg: "goal_group i j ?fs = Some (f, fs1)" "same_views ?fs fs1" "balloc_ok fs1"
      "f = None \<or> (\<exists>k < s_blocks_per_group ?fs. f = Some (i, bmap_no ?fs i, k) \<and> \<not> used ?fs i k)"
      using goal_group_ok [OF ok0 ij] by blast
    have lay1: "layout fs1 = layout fs" using gg(2) lay0 by (simp add: same_views_def)
    have v1: "same_views fs fs1" by (rule same_views_trans [OF v0 gg(2)])
    have step: "(do { (f, fs) \<leftarrow> (case f of None \<Rightarrow> other_groups i fs1 | Some _ \<Rightarrow> Some (f, fs1));
          case f of None \<Rightarrow> Some ((0, pre), unlock_super fs)
          | Some (i, bh, j) \<Rightarrow> got_block i bh j pre fs }) = Some ((b, pre'), fs')"
      using r [unfolded ext2_new_block_def Let_def, folded goal'_def, folded i_def j_def] False gg(1) by simp
    show thesis
    proof (cases f)
      case (Some x)
      then obtain k where k: "k < s_blocks_per_group fs" "f = Some (i, bmap_no ?fs i, k)" "\<not> used fs i k"
        using gg(4) layoutD [OF lay0] same_views_used [OF v0] by auto
      have "got_block i (bmap_no fs1 i) k pre fs1 = Some ((b, pre'), fs')"
        using step k(2) same_views_desc [OF v0, of i] same_views_desc [OF v1, of i] by simp
      then show thesis using found [OF _ k(1,3) v1 gg(3)] ij(1) layoutD [OF lay0] by simp
    next
      case None
      then obtain f2 fs2 where og: "other_groups i fs1 = Some (f2, fs2)"
        using step by (cases "other_groups i fs1") auto
      show thesis
      proof (cases f2)
        case None
        note n = other_groups_none [OF gg(3) og [unfolded None]]
        have "b = 0 \<and> pre' = pre \<and> fs' = unlock_super fs2" using step og None \<open>f = None\<close> by auto
        then show thesis
          using failed same_views_trans [OF same_views_trans [OF v1 n(1)] lock_views(2)]
            lock_ok(2) [OF n(2)] lock_views(6) by blast
      next
        case (Some x)
        obtain g bh k where x: "x = (g, bh, k)" by (cases x)
        note n = other_groups_found [OF gg(3) og [unfolded Some x]]
        have v2: "same_views fs fs2" by (rule same_views_trans [OF v1 n(5)])
        have "got_block g (bmap_no fs2 g) k pre fs2 = Some ((b, pre'), fs')"
          using step og Some x \<open>f = None\<close> n(2) same_views_desc [OF n(5), of g] by simp
        moreover have "g < s_groups_count fs" "k < s_blocks_per_group fs" "\<not> used fs g k"
          using n(1,3,4) layoutD [OF lay1] same_views_used [OF v1] by simp_all
        ultimately show thesis using found [OF _ _ _ v2 n(6)] by blast
      qed
    qed
  qed
qed

lemma new_block_views:
  assumes ok: "balloc_ok fs" and r: "ext2_new_block goal pre fs = Some ((b, pre'), fs')" and b: "b \<noteq> 0"
  obtains g j n where "g < s_groups_count fs" and "j + n < s_blocks_per_group fs" and "n \<le> 7"
    and "b = block_no fs g j" and "b < s_blocks_count fs" and "pre = None \<Longrightarrow> n = 0"
    and "pre' = map_option (\<lambda>_. (of_nat n, b + 1)) pre"
    and "\<And>k. j \<le> k \<Longrightarrow> k \<le> j + n \<Longrightarrow> \<not> used fs g k" and "alloc_rel fs g j n b fs'"
proof (cases rule: new_block_cases [OF ok r])
  case 1
  then show thesis using b by simp
next
  case (2 g j fs1)
  have lay: "layout fs1 = layout fs" using 2(4) by (simp add: same_views_def)
  have gj: "g < s_groups_count fs1" "j < s_blocks_per_group fs1" using 2(1,2) layoutD [OF lay] by simp_all
  show thesis
  proof (rule got_block_views [OF 2(5) gj 2(6) b])
    fix n
    assume n: "b = block_no fs1 g j" "b < s_blocks_count fs1" "n \<le> 7" "j + n < s_blocks_per_group fs1"
      "pre = None \<Longrightarrow> n = 0" "pre' = map_option (\<lambda>_. (of_nat n, b + 1)) pre"
      "\<And>k. j \<le> k \<Longrightarrow> k \<le> j + n \<Longrightarrow> \<not> used fs1 g k" "alloc_rel fs1 g j n b fs'"
    show thesis
      by (rule that [of g j n])
        (use n 2(1) layoutD [OF lay] layout_block_no [OF lay] same_views_used [OF 2(4)]
          same_views_alloc [OF 2(4) n(8)] in \<open>simp_all add: \<close>)
  qed
qed

section \<open>The effect of ext2_free_blocks\<close>

definition give_free :: "nat \<Rightarrow> group_desc \<Rightarrow> group_desc" where
  "give_free n gd = gd\<lparr>bg_free_blocks_count := bg_free_blocks_count gd + of_nat n\<rparr>"

lemma give_free_simps [simp]:
  "bg_block_bitmap (give_free n gd) = bg_block_bitmap gd"
  "bg_inode_bitmap (give_free n gd) = bg_inode_bitmap gd"
  "bg_free_blocks_count (give_free n gd) = bg_free_blocks_count gd + of_nat n"
  by (simp_all add: give_free_def)

lemma give_free_0: "give_free 0 = (\<lambda>gd. gd)"
  by (simp add: give_free_def fun_eq_iff)

lemma give_free_add: "give_free m (give_free n gd) = give_free (n + m) gd"
  by (simp add: give_free_def add.assoc)

lemma give_take_free: "give_free n (take_free n gd) = gd"
  by (simp add: give_free_def take_free_def)

definition used_run :: "(nat \<Rightarrow> bool) \<Rightarrow> nat \<Rightarrow> nat \<Rightarrow> nat" where
  "used_run P nr n = length (filter P [nr..<nr + n])"

lemma used_run_0 [simp]: "used_run P nr 0 = 0"
  by (simp add: used_run_def)

lemma used_run_Suc: "used_run P nr (Suc n) = (if P nr then 1 else 0) + used_run P (Suc nr) n"
proof -
  have "[nr..<nr + Suc n] = nr # [Suc nr..<Suc nr + n]" by (simp add: upt_conv_Cons del: upt_Suc)
  then show ?thesis by (simp add: used_run_def del: upt_Suc)
qed

lemma used_run_end: "used_run P nr (Suc n) = used_run P nr n + (if P (nr + n) then 1 else 0)"
  by (simp add: used_run_def)

lemma used_run_cong: "(\<And>k. nr \<le> k \<Longrightarrow> k < nr + n \<Longrightarrow> P k = Q k) \<Longrightarrow> used_run P nr n = used_run Q nr n"
  unfolding used_run_def by (intro arg_cong [where f = length] filter_cong) auto

text \<open>The loop clears the run and counts the bits of it that were set.\<close>

lemma clear_bits_effect:
  assumes "clear_bits n nr bh p fs = Some fs'" and "b_data fs bh = Some bs"
    and "\<And>b ds. fst p < length (s_group_desc fs) \<Longrightarrow> s_group_desc fs ! fst p = Some (b, ds) \<Longrightarrow> snd p < length ds"
  shows "\<exists>bs'. length bs' = length bs \<and> (\<forall>k. test_bit k bs' = (test_bit k bs \<and> \<not> (nr \<le> k \<and> k < nr + n))) \<and>
    fs' = fs\<lparr>s_free_blocks_count := s_free_blocks_count fs + of_nat (used_run (\<lambda>k. test_bit k bs) nr n),
      s_group_desc := table_upd p (give_free (used_run (\<lambda>k. test_bit k bs) nr n)) (s_group_desc fs),
      b_data := (b_data fs)(bh \<mapsto> bs')\<rparr>"
  using assms
proof (induction n arbitrary: nr fs bs)
  case 0
  then have "(b_data fs)(bh \<mapsto> bs) = b_data fs" by (simp add: fun_upd_idem)
  with 0 show ?case by (intro exI [where x = bs]) (simp add: give_free_0 table_upd_id del: fun_upd_apply)
next
  case (Suc n)
  obtain was bs1 where c: "clear_bit nr bs = Some (was, bs1)"
    using Suc.prems by (cases "clear_bit nr bs") auto
  note cD = clear_bit_SomeD [OF c]
  define d where "d = (if was then 1 else 0 :: nat)"
  define fs1 where "fs1 = fs\<lparr>s_free_blocks_count := s_free_blocks_count fs + of_nat d,
      s_group_desc := table_upd p (give_free d) (s_group_desc fs), b_data := (b_data fs)(bh \<mapsto> bs1)\<rparr>"
  have blk: "snd p < length ds" if "fst p < length (s_group_desc fs1)" "s_group_desc fs1 ! fst p = Some (b, ds)" for b ds
  proof -
    from that(1) have i: "fst p < length (s_group_desc fs)" by (simp add: fs1_def table_upd_def)
    with that(2) obtain b0 ds0 where e: "s_group_desc fs ! fst p = Some (b0, ds0)" "length ds0 = length ds"
      by (auto simp: fs1_def table_upd_def)
    then show ?thesis using Suc.prems(3) [OF i e(1)] by simp
  qed
  have step: "clear_bits n (Suc nr) bh p fs1 = Some fs'"
  proof (cases was)
    case True
    let ?fs = "fs\<lparr>b_data := (b_data fs)(bh \<mapsto> bs1)\<rparr>"
    have "(gd_upd p (\<lambda>gd. gd\<lparr>bg_free_blocks_count := bg_free_blocks_count gd + 1\<rparr>) ?fs)
        \<lparr>s_free_blocks_count := s_free_blocks_count ?fs + 1\<rparr> = fs1"
      using True by (simp add: fs1_def d_def gd_upd_table give_free_def [abs_def])
    then show ?thesis using Suc.prems(1,2) c True by simp
  next
    case False
    then have "fs1 = fs\<lparr>b_data := (b_data fs)(bh \<mapsto> bs1)\<rparr>"
      by (simp add: fs1_def d_def give_free_0 table_upd_id)
    then show ?thesis using Suc.prems(1,2) c False by simp
  qed
  have t: "test_bit k bs1 = (test_bit k bs \<and> k \<noteq> nr)" for k
    using cD by (simp add: test_bit_poke_bit)
  let ?m = "used_run (\<lambda>k. test_bit k bs1) (Suc nr) n"
  have m: "used_run (\<lambda>k. test_bit k bs) nr (Suc n) = d + ?m"
  proof -
    have "?m = used_run (\<lambda>k. test_bit k bs) (Suc nr) n" by (rule used_run_cong) (simp add: t)
    then show ?thesis using cD by (simp add: used_run_Suc d_def)
  qed
  have "b_data fs1 bh = Some bs1" by (simp add: fs1_def)
  have "\<exists>bs'. length bs' = length bs1 \<and>
      (\<forall>k. test_bit k bs' = (test_bit k bs1 \<and> \<not> (Suc nr \<le> k \<and> k < Suc nr + n))) \<and>
      fs' = fs1\<lparr>s_free_blocks_count := s_free_blocks_count fs1 + of_nat ?m,
        s_group_desc := table_upd p (give_free ?m) (s_group_desc fs1), b_data := (b_data fs1)(bh \<mapsto> bs')\<rparr>"
    by (rule Suc.IH [OF step \<open>b_data fs1 bh = Some bs1\<close>]) (rule blk, assumption+)
  then obtain bs' where bs': "length bs' = length bs1"
    "\<forall>k. test_bit k bs' = (test_bit k bs1 \<and> \<not> (Suc nr \<le> k \<and> k < Suc nr + n))"
    and fs': "fs' = fs1\<lparr>s_free_blocks_count := s_free_blocks_count fs1 + of_nat ?m,
      s_group_desc := table_upd p (give_free ?m) (s_group_desc fs1), b_data := (b_data fs1)(bh \<mapsto> bs')\<rparr>"
    by blast
  have tb: "table_upd p (give_free ?m) (table_upd p (give_free d) (s_group_desc fs)) =
      table_upd p (give_free (d + ?m)) (s_group_desc fs)"
    by (subst table_upd_comp) (use Suc.prems(3) in \<open>auto simp: give_free_add fun_eq_iff\<close>)
  have "fs' = fs\<lparr>s_free_blocks_count := s_free_blocks_count fs + of_nat (d + ?m),
      s_group_desc := table_upd p (give_free (d + ?m)) (s_group_desc fs), b_data := (b_data fs)(bh \<mapsto> bs')\<rparr>"
    unfolding fs' fs1_def using tb by (simp add: add.assoc)
  moreover have "test_bit k bs' = (test_bit k bs \<and> \<not> (nr \<le> k \<and> k < nr + Suc n))" for k
  proof -
    have "(Suc nr \<le> k \<and> k < Suc nr + n) = (nr \<le> k \<and> k < nr + Suc n \<and> k \<noteq> nr)" by auto
    moreover have "nr \<le> nr \<and> nr < nr + Suc n" by simp
    ultimately show ?thesis using bs'(2) t [of k] by blast
  qed
  moreover have "length bs' = length bs" using bs'(1) cD by simp
  ultimately show ?case unfolding m by blast
qed

lemma zeros_cleared:
  assumes "nr + n \<le> N"
  shows "zeros (\<lambda>k. P k \<and> \<not> (nr \<le> k \<and> k < nr + n)) N = zeros P N + used_run P nr n"
  using assms
proof (induction n)
  case 0
  have "zeros (\<lambda>k. P k \<and> \<not> (nr \<le> k \<and> k < nr + 0)) N = zeros P N" by (rule zeros_cong) auto
  then show ?case by simp
next
  case (Suc n)
  let ?Q = "\<lambda>k. P k \<and> \<not> (nr \<le> k \<and> k < nr + n)"
  have ih: "zeros ?Q N = zeros P N + used_run P nr n" using Suc by simp
  have q: "(\<lambda>k. P k \<and> \<not> (nr \<le> k \<and> k < nr + Suc n)) = ?Q(nr + n := False)" by (auto simp: fun_eq_iff)
  show ?case
  proof (cases "P (nr + n)")
    case True
    then have "zeros (?Q(nr + n := False)) N = Suc (zeros ?Q N)"
      using Suc.prems by (intro zeros_upd_False) auto
    then show ?thesis using ih q True by (simp add: used_run_end)
  next
    case False
    then have "?Q(nr + n := False) = ?Q" by (auto simp: fun_eq_iff)
    then show ?thesis using ih q False by (simp add: used_run_end)
  qed
qed

subsection \<open>Its views\<close>

definition free_rel :: "ext2_fs \<Rightarrow> nat \<Rightarrow> nat \<Rightarrow> nat \<Rightarrow> ext2_fs \<Rightarrow> bool" where
  "free_rel fs g nr n fs' \<longleftrightarrow> layout fs' = layout fs \<and> blk.ready fs' \<and> \<not> s_lock fs' \<and>
     (\<forall>h. desc_of fs' h = (if h = g then give_free (used_run (used fs g) nr n) (desc_of fs g) else desc_of fs h)) \<and>
     s_free_blocks_count fs' = s_free_blocks_count fs + of_nat (used_run (used fs g) nr n) \<and>
     (\<forall>h < s_groups_count fs. \<forall>k. used fs' h k = (used fs h k \<and> \<not> (h = g \<and> nr \<le> k \<and> k < nr + n))) \<and>
     (\<forall>h < s_groups_count fs. length (the (b_data fs' (bmap_no fs h))) = length (the (b_data fs (bmap_no fs h)))) \<and>
     (\<forall>c. c \<noteq> bmap_no fs g \<longrightarrow> b_data fs' c = b_data fs c)"

lemma free_relD:
  assumes "free_rel fs g nr n fs'"
  shows "layout fs' = layout fs" and "blk.ready fs'" and "\<not> s_lock fs'"
    and "\<And>h. desc_of fs' h = (if h = g then give_free (used_run (used fs g) nr n) (desc_of fs g) else desc_of fs h)"
    and "s_free_blocks_count fs' = s_free_blocks_count fs + of_nat (used_run (used fs g) nr n)"
    and "\<And>h k. h < s_groups_count fs \<Longrightarrow> used fs' h k = (used fs h k \<and> \<not> (h = g \<and> nr \<le> k \<and> k < nr + n))"
    and "\<And>h. h < s_groups_count fs \<Longrightarrow> length (the (b_data fs' (bmap_no fs h))) = length (the (b_data fs (bmap_no fs h)))"
    and "\<And>c. c \<noteq> bmap_no fs g \<Longrightarrow> b_data fs' c = b_data fs c"
  using assms unfolding free_rel_def by blast+

lemma same_views_free:
  assumes v: "same_views fs fs1" and r: "free_rel fs1 g nr n fs'"
  shows "free_rel fs g nr n fs'"
proof -
  have l: "layout fs1 = layout fs" and s: "s_free_blocks_count fs1 = s_free_blocks_count fs"
    and d: "b_data fs1 = b_data fs" using v by (auto simp: same_views_def)
  have u: "used fs1 g = used fs g" using same_views_used [OF v] by blast
  show ?thesis
    using r unfolding free_rel_def same_views_desc [OF v] same_views_used [OF v] u layoutD [OF l] l s d .
qed

lemma clear_bits_views:
  assumes ok: "balloc_ok fs" and g: "g < s_groups_count fs"
    and r: "clear_bits n nr (bmap_no fs g) (gdp fs g) fs = Some fs1"
    and fs': "fs' = fs1\<lparr>s_lock := False, s_dirt := True, b_dirt := D, b_written := W\<rparr>"
  shows "free_rel fs g nr n fs'"
proof -
  note wf = balloc_okD(3) [OF ok]
  obtain bs where bs: "b_data fs (bmap_no fs g) = Some bs" using balloc_okD(4) [OF ok g] by blast
  let ?c = "used_run (used fs g) nr n"
  have run: "used_run (\<lambda>k. test_bit k bs) nr n = ?c"
    by (rule used_run_cong) (simp add: used_def bs)
  have blk: "\<And>x ds. fst (gdp fs g) < length (s_group_desc fs) \<Longrightarrow>
      s_group_desc fs ! fst (gdp fs g) = Some (x, ds) \<Longrightarrow> snd (gdp fs g) < length ds"
    using wf gd_wf_index(2) [OF wf g] by (force simp: gd_wf_def gdp_def)
  have "\<exists>bs'. length bs' = length bs \<and> (\<forall>k. test_bit k bs' = (test_bit k bs \<and> \<not> (nr \<le> k \<and> k < nr + n))) \<and>
    fs1 = fs\<lparr>s_free_blocks_count := s_free_blocks_count fs + of_nat (used_run (\<lambda>k. test_bit k bs) nr n),
      s_group_desc := table_upd (gdp fs g) (give_free (used_run (\<lambda>k. test_bit k bs) nr n)) (s_group_desc fs),
      b_data := (b_data fs)(bmap_no fs g \<mapsto> bs')\<rparr>"
    by (rule clear_bits_effect [OF r bs]) (rule blk, assumption+)
  then obtain bs' where bs': "length bs' = length bs" "\<forall>k. test_bit k bs' = (test_bit k bs \<and> \<not> (nr \<le> k \<and> k < nr + n))"
    and fs1: "fs1 = fs\<lparr>s_free_blocks_count := s_free_blocks_count fs + of_nat ?c,
      s_group_desc := table_upd (gdp fs g) (give_free ?c) (s_group_desc fs),
      b_data := (b_data fs)(bmap_no fs g \<mapsto> bs')\<rparr>"
    unfolding run by blast
  have lay: "layout fs' = layout fs" by (simp add: fs' fs1 layout_def)
  have gdp: "gdp fs' h = gdp fs h" for h by (simp add: gdp_def fs' fs1)
  have desc: "desc_of fs' h = (if h = g then give_free ?c (desc_of fs g) else desc_of fs h)" for h
    unfolding gd_at_def [of fs'] gdp table_upd_at [OF wf g, symmetric] by (simp add: fs' fs1)
  have bm: "bmap_no fs' h = bmap_no fs h" for h by (simp add: desc)
  have data: "b_data fs' (bmap_no fs h) = (if h = g then Some bs' else b_data fs (bmap_no fs h))"
    if "h < s_groups_count fs" for h
    using balloc_okD(6) [OF ok that g] by (auto simp: fs' fs1)
  have us: "used fs' h k = (used fs h k \<and> \<not> (h = g \<and> nr \<le> k \<and> k < nr + n))" if "h < s_groups_count fs" for h k
    using data [OF that] bs' bs unfolding used_def bm by auto
  have "gd_wf fs'" by (rule gd_wf_table [OF wf _ lay]) (simp add: fs' fs1)
  moreover have "cache_wf (s_groups_count fs') (bmap_no fs') (block_cache fs')"
    using balloc_okD(2) [OF ok] unfolding blk.ready_def bm by (simp add: fs' fs1)
  moreover have "b_data fs' (bmap_no fs' h) \<noteq> None" if "h < s_groups_count fs'" for h
    using data [of h] balloc_okD(4) [OF ok, of h] that by (simp add: bm layoutD(6) [OF lay])
  ultimately have "blk.ready fs'" by (simp add: blk.ready_def)
  moreover have "length (the (b_data fs' (bmap_no fs h))) = length (the (b_data fs (bmap_no fs h)))"
    if "h < s_groups_count fs" for h
    using data [OF that] bs'(1) bs by simp
  ultimately show ?thesis
    using lay desc us by (simp add: free_rel_def) (simp add: fs' fs1)
qed

text \<open>The run that \<open>ext2_free_blocks\<close> clears, and the checks it has passed.\<close>

lemma free_blocks_cases:
  assumes ok: "balloc_ok fs" and r: "ext2_free_blocks block count fs = Some fs'"
    and nw: "unat block + unat count < 2 ^ 32"
  obtains (rejected) "block < s_first_data_block fs \<or> block + count > s_blocks_count fs"
      and "same_views fs fs'" and "balloc_ok fs'" and "\<not> s_lock fs'"
  | (freed) "s_first_data_block fs \<le> block" and "block + count \<le> s_blocks_count fs"
      and "bit_of fs block + unat count \<le> s_blocks_per_group fs"
      and "count \<noteq> 0 \<Longrightarrow> group_of fs block < s_groups_count fs"
      and "test_opt fs EXT2_MOUNT_CHECK_STRICT \<Longrightarrow> \<not> in_range (bmap_no fs (group_of fs block)) block count"
      and "free_rel fs (group_of fs block) (bit_of fs block) (unat count) fs'"
proof -
  let ?fs = "lock_super fs"
  note ok0 = lock_ok(1) [OF ok] and v0 = lock_views(1) [of fs]
  have lay0: "layout ?fs = layout fs" using v0 by (simp add: same_views_def)
  define g nr where "g = group_of fs block" and "nr = bit_of fs block"
  have e0: "group_of ?fs block = g" "bit_of ?fs block = nr"
    by (simp_all add: g_def nr_def group_of_def bit_of_def layoutD [OF lay0])
  note r = r [unfolded ext2_free_blocks_def Let_def e0 layoutD [OF lay0]]
  show thesis
  proof (cases "block < s_first_data_block fs \<or> block + count > s_blocks_count fs")
    case True
    then obtain fs1 where e: "ext2_error ?fs = Some fs1" "fs' = unlock_super fs1"
      using r by (auto simp: bind_eq_Some_conv)
    then show thesis
      using rejected [OF True] same_views_trans [OF v0 same_views_trans [OF ext2_error_frame(1) [OF e(1)] lock_views(2)]]
        lock_ok(2) [OF ext2_error_ok [OF ok0 e(1)]] lock_views(6) by simp
  next
    case False
    note r = r [unfolded if_not_P [OF False]]
    have nrc: "unat (of_nat nr + count) = nr + unat count"
    proof -
      have "nr \<le> unat (block - s_first_data_block fs)" by (simp add: nr_def bit_of_def)
      also have "\<dots> \<le> unat block" using False by (simp add: unat_sub not_less)
      finally have "nr + unat count < 2 ^ 32" using nw by simp
      then have "unat (of_nat (nr + unat count) :: u32) = nr + unat count" by (rule unat_of_nat_u32)
      then show ?thesis by simp
    qed
    have le: "nr + unat count \<le> s_blocks_per_group fs" using r by (simp add: nrc split: if_splits)
    obtain bh fs1 where gb: "group_bitmap g ?fs = Some (bh, fs1)"
      using r le by (cases "group_bitmap g ?fs") (auto simp: nrc)
    have g: "g < s_groups_count ?fs"
    proof (rule ccontr)
      assume "\<not> g < s_groups_count ?fs"
      then have "load_block_bitmap g ?fs = None"
        using blk.load_out [of ?fs g] balloc_okD(2) [OF ok0] by (simp add: blk.ready_def)
      then show False using gb by (simp add: group_bitmap_def)
    qed
    obtain v1: "same_views ?fs fs1" and ok1: "balloc_ok fs1" and bh: "bh = bmap_no ?fs g"
      using group_bitmap_ok [OF ok0 g] gb by auto
    have v: "same_views fs fs1" by (rule same_views_trans [OF v0 v1])
    have lay: "layout fs1 = layout fs" using v by (simp add: same_views_def)
    have g1: "g < s_groups_count fs1" using g layoutD [OF lay] layoutD [OF lay0] by simp
    have p: "get_group_desc fs1 g = Some (gdp fs1 g)" by (rule get_group_desc_wf [OF balloc_okD(3) [OF ok1] g1])
    have bh1: "bh = bmap_no fs1 g" using bh same_views_desc [OF v1, of g] by simp
    note r = r [unfolded nrc if_not_P [OF le [folded not_less]] gb p bind.bind_lunit Pair_inject prod.case Let_def bh1]
    have strict: "\<not> in_range (bmap_no fs1 g) block count" if "test_opt fs1 EXT2_MOUNT_CHECK_STRICT"
      using r that by (auto split: if_splits)
    obtain fs2 where c: "clear_bits (unat count) nr (bmap_no fs1 g) (gdp fs1 g) fs1 = Some fs2"
      using r by (cases "clear_bits (unat count) nr (bmap_no fs1 g) (gdp fs1 g) fs1") (auto split: if_splits)
    define fs3 where "fs3 = mark_buffer_dirty (bmap_no fs1 g) (mark_buffer_dirty (s_sbh (mark_buffer_dirty (gd_bh fs2 (gdp fs1 g)) fs2))
      (mark_buffer_dirty (gd_bh fs2 (gdp fs1 g)) fs2))"
    obtain D W where sync: "(if s_flags fs3 AND MS_SYNCHRONOUS \<noteq> 0 then ll_rw_block_write (bmap_no fs1 g) fs3 else fs3) =
        fs3\<lparr>b_dirt := D, b_written := W\<rparr>"
      using sync_write by blast
    have "fs' = unlock_super ((if s_flags fs3 AND MS_SYNCHRONOUS \<noteq> 0 then ll_rw_block_write (bmap_no fs1 g) fs3
        else fs3)\<lparr>s_dirt := True\<rparr>)"
      using r c unfolding fs3_def by (auto split: if_splits)
    then have "fs' = unlock_super (fs3\<lparr>b_dirt := D, b_written := W\<rparr>\<lparr>s_dirt := True\<rparr>)"
      unfolding sync .
    then have "fs' = fs2\<lparr>s_lock := False, s_dirt := True, b_dirt := D, b_written := W\<rparr>"
      by (simp add: fs3_def unlock_super_def mark_buffer_dirty_def)
    then have "free_rel fs1 g nr (unat count) fs'" by (rule clear_bits_views [OF ok1 g1 c])
    then have "free_rel fs g nr (unat count) fs'" by (rule same_views_free [OF v])
    moreover have "test_opt fs1 EXT2_MOUNT_CHECK_STRICT = test_opt fs EXT2_MOUNT_CHECK_STRICT"
      by (simp add: test_opt_def layoutD [OF lay])
    ultimately show thesis
      using freed False le g strict same_views_desc [OF v, of g] layoutD [OF lay0]
      unfolding g_def nr_def by (simp add: not_less)
  qed
qed

subsection \<open>The invariants survive a release\<close>

lemma free_rel_bmap: "free_rel fs g nr n fs' \<Longrightarrow> bmap_no fs' h = bmap_no fs h"
  using free_relD(4) [of fs g nr n fs' h] by simp

lemma free_rel_ok:
  assumes ok: "balloc_ok fs" and r: "free_rel fs g nr n fs'" and run: "nr + n \<le> s_blocks_per_group fs"
    and g: "n \<noteq> 0 \<Longrightarrow> g < s_groups_count fs"
    and nb: "\<And>h k. h < s_groups_count fs \<Longrightarrow> nr \<le> k \<Longrightarrow> k < nr + n \<Longrightarrow> bmap_no fs h \<noteq> block_no fs g k"
    and np: "\<And>k. nr \<le> k \<Longrightarrow> k < nr + n \<Longrightarrow> block_no fs g k < s_blocks_count fs"
  shows "balloc_ok fs'"
proof -
  note lay = layoutD [OF free_relD(1) [OF r]]
  note bn = layout_block_no [OF free_relD(1) [OF r]]
  have "\<exists>h' < s_groups_count fs. \<exists>k < s_blocks_per_group fs. bmap_no fs h = block_no fs h' k \<and> used fs' h' k"
    if h: "h < s_groups_count fs" for h
  proof -
    obtain h' k where k: "h' < s_groups_count fs" "k < s_blocks_per_group fs"
      "bmap_no fs h = block_no fs h' k" "used fs h' k"
      using ok h unfolding balloc_ok_def by blast
    have "\<not> (h' = g \<and> nr \<le> k \<and> k < nr + n)" using nb [OF h, of k] k(3) by blast
    then show ?thesis using k free_relD(6) [OF r k(1)] by blast
  qed
  moreover have "used fs' h k"
    if h: "h < s_groups_count fs" and k: "k < s_blocks_per_group fs" and p: "s_blocks_count fs \<le> block_no fs h k" for h k
  proof -
    have "\<not> (h = g \<and> nr \<le> k \<and> k < nr + n)" using np [of k] p by (auto simp: not_less [symmetric])
    then show ?thesis using balloc_okD(7) [OF ok h k p] free_relD(6) [OF r h] by blast
  qed
  ultimately show ?thesis
    using balloc_okD(1,5,6) [OF ok] free_relD(2,7) [OF r] layout_geom [OF free_relD(1) [OF r]]
    unfolding balloc_ok_def free_rel_bmap [OF r] lay bn by simp
qed

lemma free_rel_free_in:
  assumes r: "free_rel fs g nr n fs'" and h: "h < s_groups_count fs" and run: "nr + n \<le> s_blocks_per_group fs"
  shows "free_in fs' h = free_in fs h + (if h = g then used_run (used fs g) nr n else 0)"
proof (cases "h = g")
  case True
  have "used fs' g = (\<lambda>k. used fs g k \<and> \<not> (nr \<le> k \<and> k < nr + n))"
    using free_relD(6) [OF r h] True by (auto simp: fun_eq_iff)
  then show ?thesis
    using zeros_cleared [OF run, of "used fs g"] True layoutD(7) [OF free_relD(1) [OF r]] by simp
next
  case False
  then have "used fs' h = used fs h" using free_relD(6) [OF r h] by (auto simp: fun_eq_iff)
  then show ?thesis using False layoutD(7) [OF free_relD(1) [OF r]] by simp
qed

lemma unat_add_of_nat:
  fixes w :: "'a::len word"
  assumes "unat w + m < 2 ^ LENGTH('a)"
  shows "unat (w + of_nat m) = unat w + m"
proof -
  have "w + of_nat m = of_nat (unat w + m)" by simp
  then show ?thesis using assms by (simp only: unat_of_nat mod_less)
qed

lemma free_rel_counts:
  assumes geom: "geom fs" and c: "counts_ok fs" and r: "free_rel fs g nr n fs'"
    and run: "nr + n \<le> s_blocks_per_group fs" and g: "n \<noteq> 0 \<Longrightarrow> g < s_groups_count fs"
  shows "counts_ok fs'"
proof -
  note lay = layoutD [OF free_relD(1) [OF r]]
  note f = free_rel_free_in [OF r _ run]
  let ?c = "used_run (used fs g) nr n"
  have small: "free_in fs' h \<le> s_blocks_per_group fs" for h using zeros_le lay(7) by metis
  have "unat (bg_free_blocks_count (desc_of fs' h)) = free_in fs' h" if h: "h < s_groups_count fs" for h
  proof (cases "h = g")
    case True
    have "unat (bg_free_blocks_count (desc_of fs g)) + ?c = free_in fs' g"
      using f [of g] c h True by (simp add: counts_ok_def)
    moreover have "free_in fs' g < 2 ^ 16" using small [of g] geom by (simp add: geom_def)
    ultimately show ?thesis
      using True unat_add_of_nat [of "bg_free_blocks_count (desc_of fs g)" ?c] free_relD(4) [OF r, of g] by simp
  next
    case False
    then show ?thesis using c h f [OF h] free_relD(4) [OF r, of h] by (simp add: counts_ok_def)
  qed
  moreover have "unat (s_free_blocks_count fs') = (\<Sum>h < s_groups_count fs. free_in fs' h)"
  proof (cases "n = 0")
    case True
    then have "free_in fs' h = free_in fs h" if "h < s_groups_count fs" for h using f [OF that] by simp
    then show ?thesis using free_relD(5) [OF r] c True by (simp add: counts_ok_def)
  next
    case False
    have sum: "(\<Sum>h < s_groups_count fs. free_in fs h) + ?c = (\<Sum>h < s_groups_count fs. free_in fs' h)"
      by (rule sum_single [OF g [OF False]]) (use f in simp)
    have "(\<Sum>h < s_groups_count fs. free_in fs' h) \<le> (\<Sum>h < s_groups_count fs. s_blocks_per_group fs)"
      by (rule sum_mono) (rule small)
    then have "(\<Sum>h < s_groups_count fs. free_in fs' h) < 2 ^ 32" using geom by (simp add: geom_def)
    then show ?thesis
      using sum c unat_add_of_nat [of "s_free_blocks_count fs" ?c] free_relD(5) [OF r] by (simp add: counts_ok_def)
  qed
  ultimately show ?thesis unfolding counts_ok_def lay by simp
qed

text \<open>The block at bit \<open>nr + d\<close> of a group is \<open>d\<close> after the one at bit \<open>nr\<close>.\<close>

lemma run_block:
  assumes geom: "geom fs" and b: "s_first_data_block fs \<le> block" "block + count \<le> s_blocks_count fs"
    and nw: "unat block + unat count < 2 ^ 32" and run: "bit_of fs block + unat count \<le> s_blocks_per_group fs"
    and k: "bit_of fs block \<le> k" "k < bit_of fs block + unat count"
  shows "in_range (block_no fs (group_of fs block) k) block count"
    and "block_no fs (group_of fs block) k < s_blocks_count fs"
proof -
  define d where "d = k - bit_of fs block"
  have d: "k = bit_of fs block + d" "d < unat count" using k by (simp_all add: d_def)
  have bc: "unat (block + count) = unat block + unat count"
    using nw unat_add_of_nat [of block "unat count"] by simp
  have pos: "0 < unat count" using d by simp
  then have "block < s_blocks_count fs" using b(2) bc by (simp add: word_less_nat_alt word_le_nat_alt)
  then have blk: "block_no fs (group_of fs block) (bit_of fs block) = block" using zone_block(3) [OF geom b(1)] by simp
  have "block_no fs (group_of fs block) k = block_no fs (group_of fs block) (bit_of fs block) + of_nat d"
    by (simp add: block_no_def d(1))
  then have e: "block_no fs (group_of fs block) k = block + of_nat d" using blk by simp
  have ud: "unat (block + of_nat d) = unat block + d" using nw d(2) by (intro unat_add_of_nat) simp
  have "(1 :: u32) \<le> block + count" using bc pos by (simp add: word_le_nat_alt)
  then have "unat (block + count - 1) = unat block + unat count - 1" using bc by (simp add: unat_sub)
  then show "in_range (block_no fs (group_of fs block) k) block count"
    unfolding in_range_def e word_le_nat_alt ud using d(2) by simp
  show "block_no fs (group_of fs block) k < s_blocks_count fs"
    using b(2) d(2) unfolding e word_less_nat_alt word_le_nat_alt ud bc by simp
qed

text \<open>The block bitmap of a group is a block of the group.\<close>

definition bitmaps_local :: "ext2_fs \<Rightarrow> bool" where
  "bitmaps_local fs \<longleftrightarrow> (\<forall>h < s_groups_count fs. \<exists>k < s_blocks_per_group fs. bmap_no fs h = block_no fs h k)"

lemma strict_free_keeps_bitmaps:
  assumes ok: "balloc_ok fs" and loc: "bitmaps_local fs"
    and z: "s_first_data_block fs \<le> block" "block + count \<le> s_blocks_count fs"
    and nw: "unat block + unat count < 2 ^ 32" and run: "bit_of fs block + unat count \<le> s_blocks_per_group fs"
    and g: "count \<noteq> 0 \<Longrightarrow> group_of fs block < s_groups_count fs"
    and nr: "\<not> in_range (bmap_no fs (group_of fs block)) block count"
    and h: "h < s_groups_count fs" and k: "bit_of fs block \<le> k" "k < bit_of fs block + unat count"
  shows "bmap_no fs h \<noteq> block_no fs (group_of fs block) k"
proof
  assume e: "bmap_no fs h = block_no fs (group_of fs block) k"
  obtain k' where k': "k' < s_blocks_per_group fs" "bmap_no fs h = block_no fs h k'"
    using loc h unfolding bitmaps_local_def by blast
  have "count \<noteq> 0" using k by auto
  then have g': "group_of fs block < s_groups_count fs" by (rule g)
  have kb: "k < s_blocks_per_group fs" using k run by simp
  have "block_no fs h k' = block_no fs (group_of fs block) k" using e k' by simp
  then have "h = group_of fs block"
    using block_no_inj [OF balloc_okD(1) [OF ok] h k'(1) g' kb] by blast
  then show False using nr e run_block(1) [OF balloc_okD(1) [OF ok] z nw run k] by simp
qed


section \<open>Theorems\<close>

lemma got_block_result:
  assumes "got_block g bh j pre fs = Some ((b, pre'), fs')" and "gd_wf fs" and "g < s_groups_count fs"
  shows "b = block_no fs g j \<or> b = 0 \<and> s_blocks_count fs \<le> block_no fs g j"
proof (cases "b = 0")
  case False
  show ?thesis by (rule got_block_effect [OF assms(2,3,1) False]) blast
next
  case True
  let ?t = "block_no fs g j"
  obtain bs bs1 pre1 fs1 where pr: "preallocate j bh (gdp fs g) ?t bs1 pre fs = Some (pre1, fs1)"
    and fin: "finish_block (gdp fs g) bh ?t pre1 fs1 = Some ((b, pre'), fs')"
    using assms(1) get_group_desc_wf [OF assms(2,3)]
    by (auto simp: got_block_def block_no_def bind_eq_Some_conv Let_def split: if_splits)
  have c: "s_blocks_count fs1 = s_blocks_count fs" by (rule preallocate_effect [OF pr]) simp
  obtain D W where sync: "(if s_flags (mark_buffer_dirty bh fs1) AND MS_SYNCHRONOUS \<noteq> 0
      then ll_rw_block_write bh (mark_buffer_dirty bh fs1) else mark_buffer_dirty bh fs1) =
      (mark_buffer_dirty bh fs1)\<lparr>b_dirt := D, b_written := W\<rparr>"
    using sync_write by blast
  show ?thesis
    using fin True unfolding finish_block_def Let_def sync
    by (auto simp: mark_buffer_dirty_def getblk_def c split: if_splits)
qed

text \<open>Block 0, if it is a bit of a group at all, is in use.\<close>

definition boot_used :: "ext2_fs \<Rightarrow> bool" where
  "boot_used fs \<longleftrightarrow> (\<forall>g < s_groups_count fs. \<forall>k < s_blocks_per_group fs. block_no fs g k = 0 \<longrightarrow> used fs g k)"

lemma example_geom: "geom example_fs"
  by (simp add: geom_def example_fs_def)

lemma example_sizes: "s_groups_count example_fs = 2" "s_blocks_per_group example_fs = 64"
  "s_first_data_block example_fs = 1" "s_itb_per_group example_fs = 32"
  by (simp_all add: example_fs_def)

lemma example_boot: "boot_used example_fs"
proof -
  have "block_no example_fs g k \<noteq> 0" if "g < s_groups_count example_fs" "k < s_blocks_per_group example_fs" for g k
  proof -
    have "unat (block_no example_fs g k) \<noteq> 0"
      using unat_block_no(1) [OF example_geom that] by (simp add: example_sizes)
    then show ?thesis by auto
  qed
  then show ?thesis by (simp add: boot_used_def)
qed

lemma example_desc_of:
  "g < 2 \<Longrightarrow> desc_of example_fs g = example_desc (of_nat (64 * g + 1)) (if g = 0 then 22 else 32)"
  by (auto simp: gd_at_def gdp_def example_fs_def less_2_cases_iff)

lemma example_bitmap:
  assumes "g < 2"
  shows "b_data example_fs (bmap_no example_fs g) = Some ([0xFF, 0xFF, 0xFF, 0xFF, 0x0F, 0, 0, 0] @ replicate 120 0xFF)"
proof -
  have "bmap_no example_fs g = (if g = 0 then 3 else 67)"
    using assms by (auto simp: example_desc_of example_desc_def less_2_cases_iff)
  moreover have "b_data example_fs = example_data" by (simp add: example_fs_def)
  ultimately show ?thesis by (simp add: example_data_def)
qed

lemma example_used: "g < 2 \<Longrightarrow> k < 36 \<Longrightarrow> used example_fs g k"
proof -
  assume g: "g < 2" and k: "k < 36"
  let ?bs = "[0xFF, 0xFF, 0xFF, 0xFF, 0x0F, 0, 0, 0] @ replicate 120 0xFF :: u8 list"
  have "the (b_data example_fs (bmap_no example_fs g)) = ?bs" by (simp add: example_bitmap [OF g])
  moreover have "\<forall>k \<in> set [0..<36]. test_bit k ?bs" by code_simp
  ultimately show ?thesis using k by (simp add: used_def)
qed

lemma example_gd_wf: "gd_wf example_fs"
  by (simp add: gd_wf_def example_fs_def)

lemma example_ok: "balloc_ok example_fs"
  unfolding balloc_ok_def blk.ready_def example_sizes
proof (intro conjI allI impI)
  show "geom example_fs" by (rule example_geom)
  show "gd_wf example_fs" by (rule example_gd_wf)
  show "cache_wf 2 (bmap_no example_fs) (block_cache example_fs)"
    by (simp add: cache_wf_def example_fs_def empty_cache_def)
next
  fix g :: nat
  assume g: "g < 2"
  show "b_data example_fs (bmap_no example_fs g) \<noteq> None"
    and "64 \<le> 8 * length (the (b_data example_fs (bmap_no example_fs g)))"
    by (simp_all add: example_bitmap [OF g])
  show "\<exists>h < 2. \<exists>k < 64. bmap_no example_fs g = block_no example_fs h k \<and> used example_fs h k"
    by (rule exI [where x = g], rule conjI [OF g], rule exI [where x = 2])
      (simp add: g example_used example_desc_of example_desc_def block_no_def example_sizes)
  show "g = h" if "h < 2" "bmap_no example_fs g = bmap_no example_fs h" for h
    using g that by (auto simp: example_desc_of example_desc_def less_2_cases_iff)
  show "used example_fs g k" if k: "k < 64" and p: "s_blocks_count example_fs \<le> block_no example_fs g k" for k
  proof -
    have "unat (block_no example_fs g k) = k + g * 64 + 1"
      using unat_block_no(1) [OF example_geom, of g k] g k by (simp add: example_sizes)
    moreover have "unat (s_blocks_count example_fs) = 129" by (simp add: example_fs_def)
    ultimately show ?thesis using p g k by (simp add: word_le_nat_alt)
  qed
qed

lemma example_counts: "counts_ok example_fs"
  by code_simp

lemma example_zones: "zones_used example_fs"
  unfolding zones_used_def
proof (intro allI impI)
  fix g k
  assume g: "g < s_groups_count example_fs" and k: "k < s_blocks_per_group example_fs"
    and z: "in_system_zone example_fs (desc_of example_fs g) (block_no example_fs g k)"
  have g2: "g < 2" using g by (simp add: example_sizes)
  have b: "block_no example_fs g k = of_nat (64 * g + 1 + k)"
    by (simp add: block_no_def example_sizes)
  have "k < 36"
  proof (rule ccontr)
    assume n: "\<not> k < 36"
    have u: "unat (of_nat (64 * g + 1 + k) :: u32) = 64 * g + 1 + k"
      using g2 k by (intro unat_of_nat_u32) (auto simp: example_sizes)
    have v: "unat (of_nat (64 * g + 1 + m) :: u32) = 64 * g + 1 + m" if "m < 64" for m
      using g2 that by (intro unat_of_nat_u32) auto
    have z': "of_nat (64 * g + 1 + k) = (of_nat (64 * g + 1 + 2) :: u32) \<or>
        of_nat (64 * g + 1 + k) = (of_nat (64 * g + 1 + 3) :: u32) \<or>
        of_nat (64 * g + 1 + k) \<le> (of_nat (64 * g + 1 + 35) :: u32)"
      using z unfolding b example_desc_of [OF g2] in_system_zone_def in_range_def example_sizes
      by (auto simp: example_desc_def)
    then show False
      using n u v [of 2] v [of 3] v [of 35] unfolding word_le_nat_alt word_unat_eq_iff by linarith
  qed
  then show "used example_fs g k" by (rule example_used [OF g2])
qed

lemma example_local: "bitmaps_local example_fs"
  unfolding bitmaps_local_def by code_simp

text \<open>What a block returned by \<open>ext2_new_block\<close> is.\<close>

lemma new_block_facts:
  assumes "balloc_ok fs" and "ext2_new_block goal pre fs = Some ((b, pre'), fs')" and "b \<noteq> 0"
  shows "\<exists>n. s_first_data_block fs \<le> b \<and> b < s_blocks_count fs \<and> (\<forall>h < s_groups_count fs. bmap_no fs h \<noteq> b) \<and>
    n \<le> 7 \<and> (pre = None \<longrightarrow> n = 0) \<and> pre' = map_option (\<lambda>_. (of_nat n, b + 1)) pre \<and>
    bit_of fs b + n < s_blocks_per_group fs \<and>
    (\<forall>k \<le> n. \<not> used fs (group_of fs b) (bit_of fs b + k)) \<and>
    (\<forall>h < s_groups_count fs. \<forall>k. used fs' h k =
       (used fs h k \<or> h = group_of fs b \<and> bit_of fs b \<le> k \<and> k \<le> bit_of fs b + n)) \<and>
    b_data fs' b = Some (replicate (s_blocksize fs) 0) \<and>
    (\<forall>c. c \<noteq> b \<longrightarrow> c \<noteq> bmap_no fs (group_of fs b) \<longrightarrow> b_data fs' c = b_data fs c)"
proof (rule new_block_views [OF assms])
  fix g j n
  assume gj: "g < s_groups_count fs" "j + n < s_blocks_per_group fs" "n \<le> 7" "b = block_no fs g j"
    "b < s_blocks_count fs" "pre = None \<Longrightarrow> n = 0" "pre' = map_option (\<lambda>_. (of_nat n, b + 1)) pre"
    and free: "\<And>k. j \<le> k \<Longrightarrow> k \<le> j + n \<Longrightarrow> \<not> used fs g k" and r: "alloc_rel fs g j n b fs'"
  have j: "j < s_blocks_per_group fs" using gj by simp
  have e: "group_of fs b = g" "bit_of fs b = j"
    using group_bit_of_block_no [OF balloc_okD(1) [OF assms(1)] gj(1) j] gj(4) by simp_all
  have "s_first_data_block fs \<le> b"
    using unat_block_no(1) [OF balloc_okD(1) [OF assms(1)] gj(1) j] gj(4) by (simp add: word_le_nat_alt)
  moreover have "\<forall>h < s_groups_count fs. bmap_no fs h \<noteq> b"
    using free_not_bitmap [OF assms(1) gj(1) j free [of j]] gj(4) by simp
  ultimately show ?thesis
    unfolding e using gj free alloc_relD(6,8,9) [OF r] by (intro exI [where x = n]) simp
qed

text \<open>C1. A block that \<open>ext2_new_block\<close> returns lies in the data zone, was free, and is no bitmap; it
  is zeroed on return. With it at most seven following free blocks of the same group are set in the
  bitmap, exactly the ones reported as preallocated (none for null pointers); no other bit of a
  bitmap and no other block changes.\<close>

theorem new_block_sound:
  assumes "balloc_ok fs" and "ext2_new_block goal pre fs = Some ((b, pre'), fs')" and "b \<noteq> 0"
  shows "\<exists>n. s_first_data_block fs \<le> b \<and> b < s_blocks_count fs \<and> (\<forall>h < s_groups_count fs. bmap_no fs h \<noteq> b) \<and>
    n \<le> 7 \<and> (pre = None \<longrightarrow> n = 0) \<and> pre' = map_option (\<lambda>_. (of_nat n, b + 1)) pre \<and>
    bit_of fs b + n < s_blocks_per_group fs \<and>
    (\<forall>k \<le> n. \<not> used fs (group_of fs b) (bit_of fs b + k)) \<and>
    (\<forall>h < s_groups_count fs. \<forall>k. used fs' h k =
       (used fs h k \<or> h = group_of fs b \<and> bit_of fs b \<le> k \<and> k \<le> bit_of fs b + n)) \<and>
    b_data fs' b = Some (replicate (s_blocksize fs) 0) \<and>
    (\<forall>c. c \<noteq> b \<longrightarrow> c \<noteq> bmap_no fs (group_of fs b) \<longrightarrow> b_data fs' c = b_data fs c)"
  by (rule new_block_facts [OF assms])

theorem new_block_sound_witness:
  "\<exists>b pre' fs'. ext2_new_block 40 (Some (0, 0)) example_fs = Some ((b, pre'), fs') \<and> b = 40 \<and>
     b_data fs' b = Some (replicate (s_blocksize example_fs) 0)"
proof -
  have "map_option (\<lambda>((b, p), _). (b, p)) (ext2_new_block 40 (Some (0, 0)) example_fs) = Some (40, Some (7, 41))"
    by code_simp
  then obtain fs' where r: "ext2_new_block 40 (Some (0, 0)) example_fs = Some ((40, Some (7, 41)), fs')"
    by auto
  show ?thesis using new_block_sound [OF example_ok r] r by auto
qed

text \<open>C2. Whatever \<open>ext2_new_block\<close> returns, the super block is unlocked, the bitmaps and caches stay
  well formed and both free counters still agree with the bitmaps; a failure changes no bitmap, no
  counter and no block, and leaves the preallocation pointers alone.\<close>

theorem new_block_invariant:
  assumes "balloc_ok fs" and "counts_ok fs" and "boot_used fs"
    and "ext2_new_block goal pre fs = Some ((b, pre'), fs')"
  shows "balloc_ok fs' \<and> counts_ok fs' \<and> \<not> s_lock fs' \<and> (b = 0 \<longrightarrow> same_views fs fs' \<and> pre' = pre)"
proof (cases "b = 0")
  case False
  show ?thesis
  proof (rule new_block_views [OF assms(1,4) False])
    fix g j n
    assume g: "g < s_groups_count fs" "j + n < s_blocks_per_group fs" and r: "alloc_rel fs g j n b fs'"
      and free: "\<And>k. j \<le> k \<Longrightarrow> k \<le> j + n \<Longrightarrow> \<not> used fs g k"
    show ?thesis
      using alloc_rel_ok [OF assms(1) r] alloc_rel_counts [OF assms(2) r g(1) free g(2)] alloc_relD(3) [OF r] False
      by simp
  qed
next
  case True
  show ?thesis
  proof (cases rule: new_block_cases [OF assms(1,4)])
    case 1
    then show ?thesis using same_views_counts [OF 1(3)] assms(2) by simp
  next
    case (2 g j fs1)
    have lay: "layout fs1 = layout fs" using 2(4) by (simp add: same_views_def)
    have "block_no fs g j = 0 \<or> s_blocks_count fs \<le> block_no fs g j"
      using got_block_result [OF 2(6) balloc_okD(3) [OF 2(5)]] 2(1) True layoutD [OF lay] layout_block_no [OF lay]
      by auto
    then have "used fs g j"
      using balloc_okD(7) [OF assms(1) 2(1,2)] assms(3) 2(1,2) unfolding boot_used_def by blast
    then show ?thesis using 2(3) by simp
  qed
qed

theorem new_block_invariant_witness:
  "\<exists>b fs'. ext2_new_block 110 None example_fs = Some ((b, None), fs') \<and> b = 110 \<and> balloc_ok fs' \<and> counts_ok fs' \<and> \<not> s_lock fs'"
proof -
  have "map_option (\<lambda>((b, p), _). (b, p)) (ext2_new_block 110 None example_fs) = Some (110, None)"
    by code_simp
  then obtain fs' where r: "ext2_new_block 110 None example_fs = Some ((110, None), fs')"
    by auto
  show ?thesis using new_block_invariant [OF example_ok example_counts example_boot r] r by blast
qed

text \<open>C3. As long as more blocks are free than reserved, \<open>ext2_new_block\<close> finds one, whatever the
  goal: it neither fails nor panics, although it searches bytes, words and groups in turn and gives
  the system zones a strict check.\<close>

theorem new_block_complete:
  assumes "balloc_ok fs" and "counts_ok fs" and "zones_used fs" and "boot_used fs"
    and "s_r_blocks_count fs < s_free_blocks_count fs"
  shows "\<exists>b pre' fs'. ext2_new_block goal pre fs = Some ((b, pre'), fs') \<and> b \<noteq> 0"
proof -
  let ?fs = "lock_super fs"
  note ok0 = lock_ok(1) [OF assms(1)] and v0 = lock_views(1) [of fs]
  have lay0: "layout ?fs = layout fs" using v0 by (simp add: same_views_def)
  have nle: "\<not> s_free_blocks_count ?fs \<le> s_r_blocks_count ?fs"
    using assms(5) by (simp add: lock_super_def not_le)
  define goal' where "goal' = (if goal < s_first_data_block ?fs \<or> goal \<ge> s_blocks_count ?fs
      then s_first_data_block ?fs else goal)"
  define i j where "i = group_of ?fs goal'" and "j = bit_of ?fs goal'"
  have ij: "i < s_groups_count ?fs" "j < s_blocks_per_group ?fs"
    using goal_in_zone [OF balloc_okD(1) [OF ok0], of goal] by (simp_all add: i_def j_def goal'_def)
  obtain f fs1 where gg: "goal_group i j ?fs = Some (f, fs1)" "same_views ?fs fs1" "balloc_ok fs1"
    "f = None \<or> (\<exists>k < s_blocks_per_group ?fs. f = Some (i, bmap_no ?fs i, k) \<and> \<not> used ?fs i k)"
    using goal_group_ok [OF ok0 ij] by blast
  have v1: "same_views fs fs1" by (rule same_views_trans [OF v0 gg(2)])
  have lay1: "layout fs1 = layout fs" using v1 by (simp add: same_views_def)
  have "0 < unat (s_free_blocks_count fs)" using assms(5) by (simp add: word_less_nat_alt)
  moreover have "unat (s_free_blocks_count fs) = (\<Sum>g < s_groups_count fs. free_in fs g)"
    using assms(2) unfolding counts_ok_def by blast
  ultimately have "(\<Sum>g < s_groups_count fs. free_in fs g) \<noteq> 0" by linarith
  then obtain h where "h \<in> {..<s_groups_count fs}" "free_in fs h \<noteq> 0"
    by (rule sum.not_neutral_contains_not_neutral)
  then have h: "h < s_groups_count fs" "0 < free_in fs h" by simp_all
  have h1: "h < s_groups_count fs1" "0 < free_in fs1 h" "i < s_groups_count fs1"
    using h ij layoutD [OF lay1] layoutD [OF lay0] same_views_used [OF v1] by (simp_all add: zeros_pos_iff)
  have "\<exists>g k fs2. (case f of None \<Rightarrow> other_groups i fs1 | Some _ \<Rightarrow> Some (f, fs1)) = Some (Some (g, bmap_no fs2 g, k), fs2) \<and>
      same_views fs fs2 \<and> balloc_ok fs2 \<and> g < s_groups_count fs \<and> k < s_blocks_per_group fs \<and> \<not> used fs g k"
  proof (cases f)
    case None
    obtain x fs2 where og: "other_groups i fs1 = Some (Some x, fs2)"
      using other_groups_finds [OF gg(3) _ h1(3,1,2)] same_views_counts [OF v1] assms(2) by auto
    obtain g bh k where x: "x = (g, bh, k)" by (cases x)
    note n = other_groups_found [OF gg(3) og [unfolded x]]
    have "bh = bmap_no fs2 g" using n(2) same_views_desc [OF n(5), of g] by simp
    then show ?thesis
      using None og x n same_views_trans [OF v1 n(5)] layoutD [OF lay1] same_views_used [OF v1] by auto
  next
    case (Some x)
    then obtain k where k: "k < s_blocks_per_group ?fs" "f = Some (i, bmap_no ?fs i, k)" "\<not> used ?fs i k"
      using gg(4) by auto
    then show ?thesis
      using gg(3) v1 ij same_views_desc [OF gg(2), of i] same_views_used [OF v0] layoutD [OF lay0] by auto
  qed
  then obtain g k fs2 where f2: "(case f of None \<Rightarrow> other_groups i fs1 | Some _ \<Rightarrow> Some (f, fs1)) =
      Some (Some (g, bmap_no fs2 g, k), fs2)" and v2: "same_views fs fs2" and ok2: "balloc_ok fs2"
    and gk: "g < s_groups_count fs" "k < s_blocks_per_group fs" "\<not> used fs g k"
    by blast
  have lay2: "layout fs2 = layout fs" using v2 by (simp add: same_views_def)
  have z2: "zones_used fs2"
    using assms(3) unfolding zones_used_def in_system_zone_def same_views_desc [OF v2] same_views_used [OF v2]
      layoutD [OF lay2] layout_block_no [OF lay2] .
  have "g < s_groups_count fs2" "k < s_blocks_per_group fs2" "\<not> used fs2 g k"
    using gk layoutD [OF lay2] same_views_used [OF v2] by simp_all
  from got_block_succeeds [OF ok2 z2 this] obtain pre' fs'
    where gb: "got_block g (bmap_no fs2 g) k pre fs2 = Some ((block_no fs2 g k, pre'), fs')" by blast
  have "block_no fs2 g k \<noteq> 0"
    using assms(4) gk layout_block_no [OF lay2] unfolding boot_used_def by auto
  moreover have "ext2_new_block goal pre fs = Some ((block_no fs2 g k, pre'), fs')"
    unfolding ext2_new_block_def Let_def goal'_def [symmetric] i_def [symmetric] j_def [symmetric]
    using nle gg(1) f2 gb by simp
  ultimately show ?thesis by blast
qed

theorem new_block_complete_witness:
  "\<exists>b pre' fs'. ext2_new_block 0 None example_fs = Some ((b, pre'), fs') \<and> b \<noteq> 0"
  by (rule new_block_complete [OF example_ok example_counts example_zones example_boot])
    (simp add: example_fs_def)

text \<open>C4. \<open>ext2_free_blocks\<close> under the strict check: a range outside the data zone is refused and
  changes nothing; otherwise exactly the bits of the range are cleared, in one group, no block is
  written but the bitmap, and in both cases the invariants survive. Bits that were clear already are
  not counted twice.\<close>

theorem free_blocks_sound:
  assumes "balloc_ok fs" and "counts_ok fs" and "bitmaps_local fs" and "test_opt fs EXT2_MOUNT_CHECK_STRICT"
    and "unat block + unat count < 2 ^ 32" and "ext2_free_blocks block count fs = Some fs'"
  shows "balloc_ok fs' \<and> counts_ok fs' \<and> \<not> s_lock fs' \<and>
    (if block < s_first_data_block fs \<or> block + count > s_blocks_count fs then same_views fs fs'
     else bit_of fs block + unat count \<le> s_blocks_per_group fs \<and>
       (\<forall>h < s_groups_count fs. \<forall>k. used fs' h k = (used fs h k \<and>
          \<not> (h = group_of fs block \<and> bit_of fs block \<le> k \<and> k < bit_of fs block + unat count))) \<and>
       (\<forall>c. c \<noteq> bmap_no fs (group_of fs block) \<longrightarrow> b_data fs' c = b_data fs c))"
proof (cases rule: free_blocks_cases [OF assms(1,6,5)])
  case 1
  then show ?thesis using same_views_counts [OF 1(2)] assms(2) by auto
next
  case 2
  have nc: "count \<noteq> 0" if "unat count \<noteq> 0" using that by auto
  have z: "\<not> (block < s_first_data_block fs \<or> block + count > s_blocks_count fs)" using 2(1,2) by auto
  have g: "unat count \<noteq> 0 \<Longrightarrow> group_of fs block < s_groups_count fs" using 2(4) nc by blast
  note geom = balloc_okD(1) [OF assms(1)]
  have "balloc_ok fs'"
    by (rule free_rel_ok [OF assms(1) 2(6,3) g])
      (use strict_free_keeps_bitmaps [OF assms(1,3) 2(1,2) assms(5) 2(3,4) 2(5) [OF assms(4)]]
         run_block(2) [OF geom 2(1,2) assms(5) 2(3)] in blast)+
  moreover have "counts_ok fs'" by (rule free_rel_counts [OF geom assms(2) 2(6,3) g])
  ultimately show ?thesis unfolding if_not_P [OF z] using 2(3) free_relD(3,6,8) [OF 2(6)] by blast
qed

theorem free_blocks_sound_witness:
  "\<exists>fs'. ext2_free_blocks 110 3 example_fs = Some fs' \<and> balloc_ok fs' \<and> counts_ok fs' \<and> \<not> s_lock fs'"
proof -
  have "map_option s_lock (ext2_free_blocks 110 3 example_fs) = Some False" by code_simp
  then obtain fs' where r: "ext2_free_blocks 110 3 example_fs = Some fs'" by auto
  have "test_opt example_fs EXT2_MOUNT_CHECK_STRICT" by code_simp
  from free_blocks_sound [OF example_ok example_counts example_local this _ r] show ?thesis
    using r by simp
qed

subsection \<open>Releasing what was allocated\<close>

lemma unat_succ_less: "(b :: u32) < c \<Longrightarrow> unat b + 1 < 2 ^ 32"
proof -
  assume "b < c"
  then have "unat b < unat c" by (simp add: word_less_nat_alt)
  moreover have "unat c < 2 ^ 32" by (rule less_le_trans [OF unsigned_less]) simp
  ultimately show ?thesis by linarith
qed

lemma unat_succ: "(b :: u32) < c \<Longrightarrow> unat (b + 1) = unat b + 1"
  using unat_add_of_nat [of b 1] unat_succ_less [of b c] by simp

lemma free_one_total:
  assumes ok: "balloc_ok fs" and z: "s_first_data_block fs \<le> b" "b < s_blocks_count fs"
    and nz: "\<not> in_system_zone fs (desc_of fs (group_of fs b)) b"
  shows "ext2_free_blocks b 1 fs \<noteq> None"
proof -
  let ?fs = "lock_super fs"
  note ok0 = lock_ok(1) [OF ok] and v0 = lock_views(1) [of fs]
  have lay0: "layout ?fs = layout fs" using v0 by (simp add: same_views_def)
  define g nr where "g = group_of fs b" and "nr = bit_of fs b"
  have e0: "group_of ?fs b = g" "bit_of ?fs b = nr"
    by (simp_all add: g_def nr_def group_of_def bit_of_def layoutD [OF lay0])
  note zb = zone_block [OF balloc_okD(1) [OF ok] z]
  have g: "g < s_groups_count ?fs" using zb(1) by (simp add: g_def layoutD [OF lay0])
  have nr: "nr < s_blocks_per_group fs" using zb(2) by (simp add: nr_def)
  have ub: "unat (b + 1) = unat b + 1" by (rule unat_succ [OF z(2)])
  have nrej: "\<not> (b < s_first_data_block fs \<or> b + 1 > s_blocks_count fs)"
    using z by (simp add: word_less_nat_alt word_le_nat_alt ub not_less)
  have one: "unat (of_nat nr + 1 :: u32) = nr + 1"
  proof -
    have "nr + 1 < 2 ^ 32" using nr balloc_okD(1) [OF ok] by (simp add: geom_def)
    then have "unat (of_nat (nr + 1) :: u32) = nr + 1" by (rule unat_of_nat_u32)
    then show ?thesis by (simp add: add.commute)
  qed
  have le: "\<not> s_blocks_per_group fs < nr + 1" using nr by simp
  obtain fs1 where gb: "group_bitmap g ?fs = Some (bmap_no ?fs g, fs1)" "same_views ?fs fs1" "balloc_ok fs1"
    using group_bitmap_ok [OF ok0 g] by blast
  have v: "same_views fs fs1" by (rule same_views_trans [OF v0 gb(2)])
  have lay: "layout fs1 = layout fs" using v by (simp add: same_views_def)
  have g1: "g < s_groups_count fs1" using g layoutD [OF lay] layoutD [OF lay0] by simp
  have p: "get_group_desc fs1 g = Some (gdp fs1 g)" by (rule get_group_desc_wf [OF balloc_okD(3) [OF gb(3)] g1])
  have ir: "in_range x b 1 \<longleftrightarrow> x = b" for x by (auto simp: in_range_def)
  let ?gd = "desc_of fs1 g"
  have ns: "\<not> (test_opt fs1 EXT2_MOUNT_CHECK_STRICT \<and> (in_range (bg_block_bitmap ?gd) b 1 \<or>
      in_range (bg_inode_bitmap ?gd) b 1 \<or> in_range b (bg_inode_table ?gd) (of_nat (s_itb_per_group fs1)) \<or>
      in_range (b + 1 - 1) (bg_inode_table ?gd) (of_nat (s_itb_per_group fs1))))"
    using nz unfolding in_system_zone_def g_def [symmetric] same_views_desc [OF v] layoutD [OF lay] ir by auto
  obtain bs where bs: "b_data fs1 (bmap_no ?fs g) = Some bs"
    using balloc_okD(4) [OF gb(3) g1] same_views_desc [OF gb(2), of g] by auto
  have "nr div 8 < length bs"
    using balloc_okD(5) [OF gb(3) g1] bs same_views_desc [OF gb(2), of g] nr layoutD [OF lay]
    by (simp add: less_mult_imp_div_less mult.commute)
  then have "\<exists>fs2. clear_bits 1 nr (bmap_no ?fs g) (gdp fs1 g) fs1 = Some fs2"
    using bs by (simp add: clear_bit_def Let_def)
  then obtain fs2 where c: "clear_bits (unat (1 :: u32)) nr (bmap_no ?fs g) (gdp fs1 g) fs1 = Some fs2"
    by auto
  show ?thesis
    unfolding ext2_free_blocks_def Let_def e0 layoutD [OF lay0] if_not_P [OF nrej] one if_not_P [OF le]
      gb(1) p bind.bind_lunit prod.case if_not_P [OF ns] c
    by simp
qed

text \<open>C5. Releasing the block that \<open>ext2_new_block\<close> returned undoes the allocation: every bit of every
  bitmap, every group descriptor and the free count of the super block are what they were.\<close>

theorem free_new_block:
  assumes "balloc_ok fs" and "zones_used fs" and "ext2_new_block goal None fs = Some ((b, pre'), fs')" and "b \<noteq> 0"
  shows "\<exists>fs''. ext2_free_blocks b 1 fs' = Some fs'' \<and> (\<forall>h < s_groups_count fs. \<forall>k. used fs'' h k = used fs h k) \<and>
    (\<forall>h. desc_of fs'' h = desc_of fs h) \<and> s_free_blocks_count fs'' = s_free_blocks_count fs"
proof (rule new_block_views [OF assms(1,3,4)])
  fix g j n
  assume g: "g < s_groups_count fs" "j + n < s_blocks_per_group fs" and b: "b = block_no fs g j" "b < s_blocks_count fs"
    and n: "None = None \<Longrightarrow> n = 0" and free: "\<And>k. j \<le> k \<Longrightarrow> k \<le> j + n \<Longrightarrow> \<not> used fs g k"
    and r: "alloc_rel fs g j n b fs'"
  have n0: "n = 0" using n by simp
  have j: "j < s_blocks_per_group fs" using g by simp
  note geom = balloc_okD(1) [OF assms(1)]
  have ok': "balloc_ok fs'" by (rule alloc_rel_ok [OF assms(1) r])
  have lay: "layout fs' = layout fs" by (rule alloc_relD(1) [OF r])
  have e: "group_of fs' b = g" "bit_of fs' b = j"
    using group_bit_of_block_no [OF geom g(1) j] b(1)
    by (simp_all add: group_of_def bit_of_def layoutD [OF lay])
  have z: "s_first_data_block fs' \<le> b" "b < s_blocks_count fs'"
    using unat_block_no(1) [OF geom g(1) j] b by (simp_all add: word_le_nat_alt layoutD [OF lay])
  have "\<not> in_system_zone fs (desc_of fs g) b"
    using assms(2) g(1) j free [of j] b(1) unfolding zones_used_def by auto
  then have nz: "\<not> in_system_zone fs' (desc_of fs' (group_of fs' b)) b"
    unfolding e alloc_relD(4) [OF r] in_system_zone_def layoutD [OF lay] by (simp add: take_free_def)
  obtain fs'' where f: "ext2_free_blocks b 1 fs' = Some fs''"
    using free_one_total [OF ok' z nz] by auto
  have nw: "unat b + unat (1 :: u32) < 2 ^ 32" using unat_succ_less [OF z(2)] by simp
  have nrej: "\<not> (b < s_first_data_block fs' \<or> b + 1 > s_blocks_count fs')"
    using z unat_add_of_nat [of b 1] nw by (simp add: word_less_nat_alt word_le_nat_alt not_less)
  show ?thesis
  proof (cases rule: free_blocks_cases [OF ok' f nw])
    case 1
    then show ?thesis using nrej by blast
  next
    case 2
    have fr: "free_rel fs' g j 1 fs''" using 2(6) by (simp add: e)
    have run: "used_run (used fs' g) j 1 = 1"
      using alloc_relD(6) [OF r g(1), of j] by (simp add: used_run_def)
    have u: "used fs'' h k = used fs h k" if "h < s_groups_count fs" for h k
      using free_relD(6) [OF fr, of h k] alloc_relD(6) [OF r that, of k] that layoutD(6) [OF lay] n0 free [of j]
      by (cases "k = j") auto
    have d: "desc_of fs'' h = desc_of fs h" for h
      using free_relD(4) [OF fr, of h] alloc_relD(4) [OF r, of h] give_take_free [of 1] n0 run
      by (cases "h = g") simp_all
    show ?thesis
      using f u d free_relD(5) [OF fr] alloc_relD(5) [OF r] n0 run by auto
  qed
qed

theorem free_new_block_witness:
  "\<exists>b fs' fs''. ext2_new_block 110 None example_fs = Some ((b, None), fs') \<and> ext2_free_blocks b 1 fs' = Some fs'' \<and>
     s_free_blocks_count fs'' = 56"
proof -
  have "map_option (\<lambda>((b, p), _). (b, p)) (ext2_new_block 110 None example_fs) = Some (110, None)"
    by code_simp
  then obtain fs' where r: "ext2_new_block 110 None example_fs = Some ((110, None), fs')"
    by auto
  have "(110 :: u32) \<noteq> 0" by simp
  from free_new_block [OF example_ok example_zones r this] r show ?thesis
    by (auto simp: example_fs_def)
qed

end
