(* ===== verification/Ext2_Core_Props.thy ===== *)
theory Ext2_Core_Props
  imports Ext2_Balloc_Correct Ext2_Example
begin

text \<open>
  Theorems about what the allocators stand on: the bit searches, the bit count, the caches of
  loaded bitmaps as least-recently-used lists, and the check of the group descriptors at mount
  time.
\<close>

text \<open>\<open>find_next_zero_bit\<close> on a bitmap whose size is a multiple of 32 is the first clear bit at
  or after the offset, and the size when there is none.\<close>

theorem find_next_zero_bit_correct:
  assumes "sz < 2 ^ 32" and "32 dvd sz" and "offset < sz"
  shows "find_next_zero_bit (rd32 bs) sz offset =
    (if \<exists>k < sz. offset \<le> k \<and> \<not> test_bit k bs then LEAST k. offset \<le> k \<and> \<not> test_bit k bs else sz)"
proof -
  let ?r = "find_next_zero_bit (rd32 bs) sz offset"
  have fz: "first_zero (\<lambda>k. test_bit k bs) offset sz ?r" by (rule find_next_zero_bit_spec [OF assms])
  show ?thesis
  proof (cases "\<exists>k < sz. offset \<le> k \<and> \<not> test_bit k bs")
    case True
    then have r: "?r < sz" "\<not> test_bit ?r bs" using first_zero_exists [OF fz] by blast+
    have "(LEAST k. offset \<le> k \<and> \<not> test_bit k bs) = ?r"
      using fz r by (intro Least_equality) (auto simp: first_zero_def not_less [symmetric])
    then show ?thesis using True by simp
  next
    case False
    then have "\<not> ?r < sz" using fz by (auto simp: first_zero_def)
    then show ?thesis using False fz by (auto simp: first_zero_def)
  qed
qed

theorem find_next_zero_bit_correct_witness:
  "find_next_zero_bit (rd32 (replicate 5 0xFF @ [0x3F, 0, 0])) 64 3 = 46"
proof -
  let ?bs = "replicate 5 0xFF @ [0x3F, 0, 0] :: u8 list"
  have free: "\<not> test_bit 46 ?bs" by code_simp
  have used: "test_bit k ?bs" if "k < 46" for k
  proof -
    have "\<forall>k \<in> set [0..<46]. test_bit k ?bs" by code_simp
    then show ?thesis using that by simp
  qed
  have "(LEAST k. 3 \<le> k \<and> \<not> test_bit k ?bs) = 46"
    using free used by (intro Least_equality) (auto simp: not_less [symmetric])
  moreover have "\<exists>k < 64. 3 \<le> k \<and> \<not> test_bit k ?bs" using free by (intro exI [where x = 46]) simp
  ultimately show ?thesis using find_next_zero_bit_correct [of 64 3 ?bs] by simp
qed

text \<open>On a size that is no multiple of 32, \<open>find_first_zero_bit\<close> answers the start of the last,
  partial word as soon as the full words before it are set, whether that bit is clear or not: the
  answer is below the size although the bit may be in use, and a clear bit behind it is missed.\<close>

theorem find_first_zero_bit_partial_word:
  assumes "\<And>k. k < 32 * (sz div 32) \<Longrightarrow> test_bit k bs"
  shows "find_first_zero_bit (rd32 bs) sz = 32 * (sz div 32)"
  using find_first_zero_bit_words [of "rd32 bs" sz] assms
  by (auto simp: first_zero_def words_bit_rd32 nat_less_le)

theorem find_first_zero_bit_partial_word_witness:
  "find_first_zero_bit (rd32 [0xFF, 0xFF, 0xFF, 0xFF, 0x01]) 40 = 32 \<and> test_bit 32 [0xFF, 0xFF, 0xFF, 0xFF, 0x01] \<and>
   \<not> test_bit 33 [0xFF, 0xFF, 0xFF, 0xFF, 0x01]"
proof -
  let ?bs = "[0xFF, 0xFF, 0xFF, 0xFF, 0x01] :: u8 list"
  have all: "\<forall>k \<in> set [0..<32]. test_bit k ?bs" by code_simp
  have "find_first_zero_bit (rd32 ?bs) 40 = 32 * (40 div 32)"
    by (rule find_first_zero_bit_partial_word) (use all in simp)
  moreover have "test_bit 32 ?bs \<and> \<not> test_bit 33 ?bs" by code_simp
  ultimately show ?thesis by simp
qed

text \<open>\<open>ext2_count_free\<close>, which adds up a table entry per nibble, is the number of clear bits.\<close>

theorem ext2_count_free_correct:
  "ext2_count_free (Some bs) n = card {k. k < 8 * n \<and> \<not> test_bit k bs}"
proof -
  have "zeros P m = card {k. k < m \<and> \<not> P k}" for P :: "nat \<Rightarrow> bool" and m
    using distinct_card [of "filter (\<lambda>k. \<not> P k) [0..<m]"] by (simp add: zeros_def set_filter conj_commute)
  then show ?thesis by (simp add: ext2_count_free_zeros)
qed

section \<open>The cache of loaded bitmaps\<close>

fun load_block_bitmaps :: "nat list \<Rightarrow> ext2_fs \<Rightarrow> ext2_fs option" where
  "load_block_bitmaps [] fs = Some fs"
| "load_block_bitmaps (g # gs) fs = do { (nr, fs) \<leftarrow> load_block_bitmap g fs; load_block_bitmaps gs fs }"

lemma load_block_bitmaps_eq: "load_block_bitmaps gs fs = blk.loads gs fs"
proof (induction gs arbitrary: fs)
  case (Cons g gs)
  then show ?case by (cases "load_block_bitmap g fs") auto
qed simp

definition wide_fs :: ext2_fs where
  "wide_fs = example_fs\<lparr>s_groups_count := 10, s_desc_per_block := 10,
     s_group_desc := [Some (2, List.map (\<lambda>i. example_desc (of_nat (64 * i + 1)) 32) [0..<10])]\<rparr>"

text \<open>Any sequence of bitmap loads in a file system with more than eight groups succeeds, and the
  arrays \<open>s_block_bitmap_number\<close> and \<open>s_block_bitmap\<close>, with their shifts and their early exits, hold
  what a least-recently-used list of eight entries holds: each load moves its group to the front,
  and a ninth group drops the last one. Each slot holds the bitmap buffer of its group.\<close>

theorem load_block_bitmap_lru:
  assumes "blk.ready fs" and "8 < s_groups_count fs" and "\<forall>g \<in> set gs. g < s_groups_count fs"
  shows "\<exists>fs'. load_block_bitmaps gs fs = Some fs' \<and> b_data fs' = b_data fs \<and>
    mru (block_cache fs') = fold lru_touch gs (mru (block_cache fs)) \<and>
    (\<forall>i < bm_loaded (block_cache fs'). bm_bitmap (block_cache fs') ! i =
       Some (bmap_no fs' (bm_number (block_cache fs') ! i)))"
proof -
  obtain fs' where l: "blk.loads gs fs = Some fs'" "blk.ready fs'" "s_groups_count fs' = s_groups_count fs"
    "b_data fs' = b_data fs" "mru (block_cache fs') = fold lru_touch gs (mru (block_cache fs))"
    using blk.loads_lru [OF assms] by blast
  let ?c = "block_cache fs'"
  have "cache_wf (s_groups_count fs') (bmap_no fs') ?c" using l(2) by (simp add: blk.ready_def)
  then have c: "length (bm_number ?c) = 8" "length (bm_bitmap ?c) = 8" "bm_loaded ?c \<le> 8"
    "list_all2 (\<lambda>g b. g < s_groups_count fs' \<and> b = Some (bmap_no fs' g)) (mru ?c) (take (bm_loaded ?c) (bm_bitmap ?c))"
    using l(3) assms(2) by (auto simp: cache_wf_def)
  have "bm_bitmap ?c ! i = Some (bmap_no fs' (bm_number ?c ! i))" if "i < bm_loaded ?c" for i
    using list_all2_nthD [OF c(4), of i] that c(1,3) by (simp add: mru_def)
  then show ?thesis using l load_block_bitmaps_eq by auto
qed

theorem load_block_bitmap_lru_witness:
  "\<exists>fs'. load_block_bitmaps [0, 1, 2, 3, 4, 5, 6, 7, 2, 8, 1] wide_fs = Some fs' \<and>
     mru (block_cache fs') = [1, 8, 2, 7, 6, 5, 4, 3]"
proof -
  have e: "s_groups_count wide_fs = 10" "mru (block_cache wide_fs) = []" "bm_loaded (block_cache wide_fs) = 0"
    by (simp_all add: wide_fs_def example_fs_def empty_cache_def mru_def)
  have r: "blk.ready wide_fs"
    unfolding blk.ready_def
    by (simp add: wide_fs_def example_fs_def gd_wf_def cache_wf_def empty_cache_def mru_def example_data_def)
  have "fold lru_touch [0, 1, 2, 3, 4, 5, 6, 7, 2, 8, 1] [] = [1, 8, 2, 7, 6, 5, 4, 3]"
    by (simp add: lru_touch_def EXT2_MAX_GROUP_LOADED_def)
  then show ?thesis
    using load_block_bitmap_lru [OF r, of "[0, 1, 2, 3, 4, 5, 6, 7, 2, 8, 1]"] by (auto simp: e)
qed

section \<open>ext2_check_descriptors\<close>

lemma check_desc_from_true:
  assumes "check_desc_from fs n i block = Some (True, fs')"
  shows "fs' = fs \<and> (\<forall>k < n. i + k < s_groups_count fs \<and>
    desc_in_group fs (block + of_nat (k * s_blocks_per_group fs)) (desc_of fs (i + k)))"
  using assms
proof (induction n arbitrary: i block)
  case (Suc n)
  obtain p where p: "get_group_desc fs i = Some p" using Suc.prems by (cases "get_group_desc fs i") auto
  have d: "desc_in_group fs block (gd_at fs p)"
    using Suc.prems p by (auto simp: bind_eq_Some_conv split: if_splits)
  then have rest: "check_desc_from fs n (Suc i) (block + of_nat (s_blocks_per_group fs)) = Some (True, fs')"
    using Suc.prems p by simp
  note ih = Suc.IH [OF rest]
  have "i + k < s_groups_count fs \<and>
      desc_in_group fs (block + of_nat (k * s_blocks_per_group fs)) (desc_of fs (i + k))" if "k < Suc n" for k
  proof (cases k)
    case 0
    then show ?thesis using d get_group_desc_SomeD [OF p] by simp
  next
    case (Suc k')
    then show ?thesis using ih that by (auto simp: add.assoc)
  qed
  then show ?case using ih by blast
qed simp

text \<open>When \<open>ext2_check_descriptors\<close> accepts a file system, the block and the inode bitmap of each
  group are blocks of that group, so no two groups share one; the check itself changes nothing.\<close>

theorem check_descriptors_sound:
  assumes "geom fs" and "ext2_check_descriptors fs = Some (True, fs')"
  shows "fs' = fs \<and> (\<forall>g < s_groups_count fs.
      (\<exists>k < s_blocks_per_group fs. bmap_no fs g = block_no fs g k) \<and>
      (\<exists>k < s_blocks_per_group fs. bg_inode_bitmap (desc_of fs g) = block_no fs g k)) \<and>
    (\<forall>g < s_groups_count fs. \<forall>h < s_groups_count fs. bmap_no fs g = bmap_no fs h \<longrightarrow> g = h)"
proof -
  have all: "fs' = fs \<and> (\<forall>g < s_groups_count fs.
      desc_in_group fs (block_no fs g 0) (desc_of fs g))"
    using check_desc_from_true [OF assms(2) [unfolded ext2_check_descriptors_def]]
    by (simp add: block_no_def add.commute)
  have inside: "\<exists>k < s_blocks_per_group fs. b = block_no fs g k"
    if g: "g < s_groups_count fs" and b: "\<not> b < block_no fs g 0" "\<not> block_no fs g 0 + of_nat (s_blocks_per_group fs) \<le> b" for g b
  proof -
    let ?bpg = "s_blocks_per_group fs" and ?f = "unat (s_first_data_block fs)"
    have pos: "0 < ?bpg" using assms(1) by (simp add: geom_def)
    have "Suc g * ?bpg \<le> s_groups_count fs * ?bpg" using g by (intro mult_le_mono1) simp
    then have top: "?f + Suc g * ?bpg < 2 ^ 32" using assms(1) by (simp add: geom_def)
    have start: "unat (block_no fs g 0) = g * ?bpg + ?f" using unat_block_no(1) [OF assms(1) g pos] by simp
    have "block_no fs g 0 + of_nat ?bpg = of_nat (?f + Suc g * ?bpg)"
      by (simp add: block_no_def algebra_simps)
    then have stop: "unat (block_no fs g 0 + of_nat ?bpg) = ?f + Suc g * ?bpg"
      using top by (simp only: unat_of_nat_u32)
    define k where "k = unat b - unat (block_no fs g 0)"
    have lo: "unat (block_no fs g 0) \<le> unat b" and hi: "unat b < ?f + Suc g * ?bpg"
      using b stop by (simp_all add: word_le_nat_alt word_less_nat_alt not_less not_le)
    have k: "k < ?bpg" using hi lo start unfolding k_def by simp
    have "unat (block_no fs g k) = unat b"
      using unat_block_no(1) [OF assms(1) g k] lo start unfolding k_def by simp
    then show ?thesis using k by (metis word_unat_eq_iff)
  qed
  have loc: "\<exists>k < s_blocks_per_group fs. bmap_no fs g = block_no fs g k" if "g < s_groups_count fs" for g
    using all that inside [OF that] unfolding desc_in_group_def by blast
  moreover have "\<exists>k < s_blocks_per_group fs. bg_inode_bitmap (desc_of fs g) = block_no fs g k" if "g < s_groups_count fs" for g
    using all that inside [OF that] unfolding desc_in_group_def by blast
  moreover have "g = h" if g: "g < s_groups_count fs" and h: "h < s_groups_count fs" and e: "bmap_no fs g = bmap_no fs h" for g h
  proof -
    obtain k l where "k < s_blocks_per_group fs" "bmap_no fs g = block_no fs g k"
      "l < s_blocks_per_group fs" "bmap_no fs h = block_no fs h l"
      using loc g h by blast
    then show ?thesis using block_no_inj [OF assms(1) g _ h] e by metis
  qed
  ultimately show ?thesis using all by blast
qed

theorem check_descriptors_sound_witness:
  "\<exists>k < 64. bmap_no example_fs 1 = block_no example_fs 1 k"
proof -
  have "map_option fst (ext2_check_descriptors example_fs) = Some True" by code_simp
  then obtain fs' where "ext2_check_descriptors example_fs = Some (True, fs')" by auto
  moreover have "geom example_fs" by (simp add: geom_def example_fs_def)
  moreover have "s_groups_count example_fs = 2" "s_blocks_per_group example_fs = 64"
    by (simp_all add: example_fs_def)
  ultimately show ?thesis using check_descriptors_sound [of example_fs fs'] by auto
qed

end
