(* ===== verification/Ext2_Inode.thy ===== *)
theory Ext2_Inode
  imports Ext2_Balloc
begin

text \<open>
  The in-memory inode (\<open>struct inode\<close> of \<open>include/linux/fs.h\<close> with its \<open>ext2_inode_info\<close>), the
  inode on disk (\<open>struct ext2_inode\<close>: 128 bytes, little-endian fields), and the functions of
  \<open>src/ext2/inode.c\<close> that go from one to the other: \<open>ext2_read_inode\<close>, \<open>ext2_update_inode\<close>,
  \<open>ext2_write_inode\<close> and \<open>ext2_sync_inode\<close>. The global counter \<open>event\<close> is an argument and a result.
  All inodes here belong to the one mounted file system, so \<open>i_sb\<close> and \<open>i_dev\<close> are not fields.
\<close>

subsection \<open>Fields of a raw structure\<close>

definition get16 :: "nat \<Rightarrow> u8 list \<Rightarrow> u16" where
  "get16 off bs = ucast (rd8 bs off) OR push_bit 8 (ucast (rd8 bs (off + 1)))"

definition get32 :: "nat \<Rightarrow> u8 list \<Rightarrow> u32" where
  "get32 off bs = ucast (rd8 bs off) OR push_bit 8 (ucast (rd8 bs (off + 1)))
     OR push_bit 16 (ucast (rd8 bs (off + 2))) OR push_bit 24 (ucast (rd8 bs (off + 3)))"

definition put8 :: "nat \<Rightarrow> u8 \<Rightarrow> u8 list \<Rightarrow> u8 list" where
  "put8 off v bs = bs[off := v]"

definition put16 :: "nat \<Rightarrow> u16 \<Rightarrow> u8 list \<Rightarrow> u8 list" where
  "put16 off v bs = bs[off := ucast v, off + 1 := ucast (drop_bit 8 v)]"

definition put32 :: "nat \<Rightarrow> u32 \<Rightarrow> u8 list \<Rightarrow> u8 list" where
  "put32 off v bs = bs[off := ucast v, off + 1 := ucast (drop_bit 8 v),
     off + 2 := ucast (drop_bit 16 v), off + 3 := ucast (drop_bit 24 v)]"

lemma length_put [simp]:
  "length (put8 off b bs) = length bs" "length (put16 off v bs) = length bs" "length (put32 off w bs) = length bs"
  by (simp_all add: put8_def put16_def put32_def)

lemma rd8_put8:
  "off < length bs \<Longrightarrow> rd8 (put8 off v bs) j = (if j = off then v else rd8 bs j)"
  by (auto simp: put8_def rd8_def nth_list_update)

lemma rd8_put16:
  "off + 2 \<le> length bs \<Longrightarrow> rd8 (put16 off v bs) j =
     (if j = off then ucast v else if j = off + 1 then ucast (drop_bit 8 v) else rd8 bs j)"
  by (auto simp: put16_def rd8_def nth_list_update)

lemma rd8_put32:
  "off + 4 \<le> length bs \<Longrightarrow> rd8 (put32 off v bs) j =
     (if j = off then ucast v else if j = off + 1 then ucast (drop_bit 8 v)
      else if j = off + 2 then ucast (drop_bit 16 v) else if j = off + 3 then ucast (drop_bit 24 v)
      else rd8 bs j)"
  by (auto simp: put32_def rd8_def nth_list_update)

lemma join16: "(ucast (ucast v :: u8) OR push_bit 8 (ucast (ucast (drop_bit 8 v) :: u8)) :: u16) = v"
proof (rule bit_eqI)
  fix n
  show "bit (ucast (ucast v :: u8) OR push_bit 8 (ucast (ucast (drop_bit 8 v) :: u8)) :: u16) n = bit v n"
    by (auto simp: bit_or_iff bit_push_bit_iff bit_ucast_iff bit_drop_bit_eq dest: bit_imp_le_length)
qed

lemma join32: "(ucast (ucast v :: u8) OR push_bit 8 (ucast (ucast (drop_bit 8 v) :: u8))
    OR push_bit 16 (ucast (ucast (drop_bit 16 v) :: u8)) OR push_bit 24 (ucast (ucast (drop_bit 24 v) :: u8)) :: u32) = v"
proof (rule bit_eqI)
  fix n
  show "bit (ucast (ucast v :: u8) OR push_bit 8 (ucast (ucast (drop_bit 8 v) :: u8))
    OR push_bit 16 (ucast (ucast (drop_bit 16 v) :: u8)) OR push_bit 24 (ucast (ucast (drop_bit 24 v) :: u8)) :: u32) n = bit v n"
    by (cases "n < 8"; cases "n < 16"; cases "n < 24") (auto simp: bit_or_iff bit_push_bit_iff bit_ucast_iff bit_drop_bit_eq dest: bit_imp_le_length)
qed

text \<open>A field reads back what was stored in it, and a store outside a field does not touch it.\<close>

lemma get_put [buf_simps]:
  "off < length bs \<Longrightarrow> rd8 (put8 off b bs) off = b"
  "off + 2 \<le> length bs \<Longrightarrow> get16 off (put16 off v bs) = v"
  "off + 4 \<le> length bs \<Longrightarrow> get32 off (put32 off w bs) = w"
  by (simp_all add: get16_def get32_def rd8_put8 rd8_put16 rd8_put32 join16 join32)

lemma rd8_put_other [buf_simps]:
  "off < length bs \<Longrightarrow> j \<noteq> off \<Longrightarrow> rd8 (put8 off b bs) j = rd8 bs j"
  "off + 2 \<le> length bs \<Longrightarrow> j < off \<or> off + 2 \<le> j \<Longrightarrow> rd8 (put16 off v bs) j = rd8 bs j"
  "off + 4 \<le> length bs \<Longrightarrow> j < off \<or> off + 4 \<le> j \<Longrightarrow> rd8 (put32 off w bs) j = rd8 bs j"
  by (auto simp: rd8_put8 rd8_put16 rd8_put32)

lemma get16_put_other [buf_simps]:
  "off < length bs \<Longrightarrow> j + 2 \<le> off \<or> off + 1 \<le> j \<Longrightarrow> get16 j (put8 off b bs) = get16 j bs"
  "off + 2 \<le> length bs \<Longrightarrow> j + 2 \<le> off \<or> off + 2 \<le> j \<Longrightarrow> get16 j (put16 off v bs) = get16 j bs"
  "off + 4 \<le> length bs \<Longrightarrow> j + 2 \<le> off \<or> off + 4 \<le> j \<Longrightarrow> get16 j (put32 off w bs) = get16 j bs"
  by (auto simp: get16_def rd8_put_other)

lemma get32_put_other [buf_simps]:
  "off < length bs \<Longrightarrow> j + 4 \<le> off \<or> off + 1 \<le> j \<Longrightarrow> get32 j (put8 off b bs) = get32 j bs"
  "off + 2 \<le> length bs \<Longrightarrow> j + 4 \<le> off \<or> off + 2 \<le> j \<Longrightarrow> get32 j (put16 off v bs) = get32 j bs"
  "off + 4 \<le> length bs \<Longrightarrow> j + 4 \<le> off \<or> off + 4 \<le> j \<Longrightarrow> get32 j (put32 off w bs) = get32 j bs"
  by (auto simp: get32_def rd8_put_other)

subsection \<open>The inode in memory\<close>

datatype inode_ops = No_ops | File_ops | Dir_ops

record inode =
  i_ino :: u32
  i_mode :: u16
  i_nlink :: u16
  i_uid :: u16
  i_gid :: u16
  i_rdev :: u16
  i_size :: u32
  i_atime :: u32
  i_mtime :: u32
  i_ctime :: u32
  i_blksize :: nat
  i_blocks :: u32
  i_version :: u32
  i_count :: u16
  i_dirt :: bool
  i_op :: inode_ops
  i_flags :: u16
  i_data :: "u32 list"
  e_flags :: u32
  e_faddr :: u32
  e_frag_no :: u8
  e_frag_size :: u8
  e_osync :: u16
  e_file_acl :: u32
  e_dir_acl :: u32
  e_dtime :: u32
  e_version :: u32
  e_block_group :: u32
  e_next_alloc_block :: u32
  e_next_alloc_goal :: u32
  e_prealloc_block :: u32
  e_prealloc_count :: u32

definition EXT2_ROOT_INO :: u32 where "EXT2_ROOT_INO = 2"
definition EXT2_ACL_IDX_INO :: u32 where "EXT2_ACL_IDX_INO = 3"
definition EXT2_ACL_DATA_INO :: u32 where "EXT2_ACL_DATA_INO = 4"
definition EXT2_FIRST_INO :: u32 where "EXT2_FIRST_INO = 11"
definition EXT2_N_BLOCKS :: nat where "EXT2_N_BLOCKS = 15"

definition S_ISGID :: u16 where "S_ISGID = 0x0400"
definition S_ISLNK :: "u16 \<Rightarrow> bool" where "S_ISLNK m = (m AND 0xF000 = 0xA000)"
definition S_ISREG :: "u16 \<Rightarrow> bool" where "S_ISREG m = (m AND 0xF000 = 0x8000)"
definition S_ISDIR :: "u16 \<Rightarrow> bool" where "S_ISDIR m = (m AND 0xF000 = 0x4000)"
definition S_ISCHR :: "u16 \<Rightarrow> bool" where "S_ISCHR m = (m AND 0xF000 = 0x2000)"
definition S_ISBLK :: "u16 \<Rightarrow> bool" where "S_ISBLK m = (m AND 0xF000 = 0x6000)"

definition EXT2_SYNC_FL :: u32 where "EXT2_SYNC_FL = 8"
definition EXT2_IMMUTABLE_FL :: u32 where "EXT2_IMMUTABLE_FL = 16"
definition EXT2_APPEND_FL :: u32 where "EXT2_APPEND_FL = 32"
definition S_APPEND :: u16 where "S_APPEND = 256"
definition S_IMMUTABLE :: u16 where "S_IMMUTABLE = 512"

definition IS_SYNC :: "inode \<Rightarrow> bool" where
  "IS_SYNC inode = (i_flags inode AND ucast MS_SYNCHRONOUS \<noteq> 0)"


text \<open>\<open>EXT2_ADDR_PER_BLOCK\<close> and the size of a raw inode.\<close>

definition EXT2_ADDR_PER_BLOCK :: "ext2_fs \<Rightarrow> nat" where
  "EXT2_ADDR_PER_BLOCK fs = s_blocksize fs div 4"

definition RAW_INODE_SIZE :: nat where "RAW_INODE_SIZE = 128"

subsection \<open>Finding the inode on disk\<close>

text \<open>
  The table block of an inode and the index of the inode in it. \<open>get_group_desc\<close> makes the two checks
  that the functions here write out: the group exists, and its descriptor block is loaded.
\<close>

definition inode_group :: "ext2_fs \<Rightarrow> u32 \<Rightarrow> nat" where
  "inode_group fs ino = unat (ino - 1) div s_inodes_per_group fs"

definition inode_block :: "ext2_fs \<Rightarrow> u32 \<Rightarrow> group_desc \<Rightarrow> u32" where
  "inode_block fs ino gd =
     bg_inode_table gd + of_nat ((unat (ino - 1) mod s_inodes_per_group fs) div s_inodes_per_block fs)"

definition raw_in_buffer :: "nat \<Rightarrow> u8 list \<Rightarrow> bool" where
  "raw_in_buffer off bs \<longleftrightarrow> off + RAW_INODE_SIZE \<le> length bs"

subsection \<open>ext2_read_inode\<close>

definition decode_inode :: "nat \<Rightarrow> u8 list \<Rightarrow> inode \<Rightarrow> inode" where
  "decode_inode off bs inode =
     inode\<lparr>i_mode := get16 off bs, i_uid := get16 (off + 2) bs, i_gid := get16 (off + 24) bs,
       i_nlink := get16 (off + 26) bs, i_size := get32 (off + 4) bs, i_atime := get32 (off + 8) bs,
       i_ctime := get32 (off + 12) bs, i_mtime := get32 (off + 16) bs, e_dtime := get32 (off + 20) bs,
       i_blocks := get32 (off + 28) bs, e_flags := get32 (off + 32) bs, e_faddr := get32 (off + 112) bs,
       e_frag_no := rd8 bs (off + 116), e_frag_size := rd8 bs (off + 117), e_osync := 0,
       e_file_acl := get32 (off + 104) bs, e_dir_acl := get32 (off + 108) bs,
       e_version := get32 (off + 100) bs\<rparr>"

definition decode_blocks :: "nat \<Rightarrow> u8 list \<Rightarrow> inode \<Rightarrow> inode" where
  "decode_blocks off bs inode =
     (if S_ISCHR (i_mode inode) \<or> S_ISBLK (i_mode inode)
      then inode\<lparr>i_rdev := ucast (get32 (off + 40) bs)\<rparr>
      else inode\<lparr>i_data := List.map (\<lambda>b. get32 (off + 40 + 4 * b) bs) [0..<EXT2_N_BLOCKS]\<rparr>)"

text \<open>The operations and the generic flags that mode and file flags select.\<close>

definition select_ops :: "inode \<Rightarrow> inode" where
  "select_ops inode =
     (let inode = inode\<lparr>i_op :=
        (if i_ino inode = EXT2_ACL_IDX_INO \<or> i_ino inode = EXT2_ACL_DATA_INO then No_ops
         else if S_ISREG (i_mode inode) then File_ops
         else if S_ISDIR (i_mode inode) then Dir_ops else No_ops)\<rparr>;
          inode = (if e_flags inode AND EXT2_SYNC_FL \<noteq> 0
                   then inode\<lparr>i_flags := i_flags inode OR ucast MS_SYNCHRONOUS\<rparr> else inode);
          inode = (if e_flags inode AND EXT2_APPEND_FL \<noteq> 0
                   then inode\<lparr>i_flags := i_flags inode OR S_APPEND\<rparr> else inode)
      in if e_flags inode AND EXT2_IMMUTABLE_FL \<noteq> 0
         then inode\<lparr>i_flags := i_flags inode OR S_IMMUTABLE\<rparr> else inode)"

definition ext2_read_inode :: "u32 \<Rightarrow> inode \<Rightarrow> (inode \<times> u32) fsop" where
  "ext2_read_inode event inode fs =
     (let ino = i_ino inode in
      if (ino \<noteq> EXT2_ROOT_INO \<and> ino \<noteq> EXT2_ACL_IDX_INO \<and> ino \<noteq> EXT2_ACL_DATA_INO \<and> ino < EXT2_FIRST_INO) \<or>
         ino > s_inodes_count fs
      then do { fs \<leftarrow> ext2_error fs; Some ((inode, event), fs) }
      else do {
        p \<leftarrow> get_group_desc fs (inode_group fs ino);
        case bread (inode_block fs ino (gd_at fs p)) fs of
          (None, fs) \<Rightarrow> None
        | (Some bh, fs) \<Rightarrow> do {
            bs \<leftarrow> b_data fs bh;
            let off = RAW_INODE_SIZE * (unat (ino - 1) mod s_inodes_per_block fs);
            if \<not> raw_in_buffer off bs then None
            else do {
              let inode = (decode_inode off bs inode)\<lparr>i_blksize := s_blocksize fs, i_version := event + 1,
                    e_block_group := of_nat (inode_group fs ino), e_next_alloc_block := 0, e_next_alloc_goal := 0\<rparr>;
              fs \<leftarrow> (if e_prealloc_count inode \<noteq> 0 then ext2_error fs else Some fs);
              Some ((select_ops (decode_blocks off bs inode), event + 1), brelse (Some bh) fs)
            }
          }
      })"

subsection \<open>ext2_update_inode\<close>

definition encode_inode :: "nat \<Rightarrow> inode \<Rightarrow> u8 list \<Rightarrow> u8 list" where
  "encode_inode off inode bs =
     put32 (off + 100) (e_version inode) (put32 (off + 108) (e_dir_acl inode) (put32 (off + 104) (e_file_acl inode)
     (put8 (off + 117) (e_frag_size inode) (put8 (off + 116) (e_frag_no inode) (put32 (off + 112) (e_faddr inode)
     (put32 (off + 32) (e_flags inode) (put32 (off + 20) (e_dtime inode) (put32 (off + 28) (i_blocks inode)
     (put32 (off + 16) (i_mtime inode) (put32 (off + 12) (i_ctime inode) (put32 (off + 8) (i_atime inode)
     (put32 (off + 4) (i_size inode) (put16 (off + 26) (i_nlink inode) (put16 (off + 24) (i_gid inode)
     (put16 (off + 2) (i_uid inode) (put16 off (i_mode inode) bs))))))))))))))))"

text \<open>\<open>for (block = 0; block < EXT2_N_BLOCKS; block++) raw_inode->i_block[block] = \<dots>\<close>, from \<open>b\<close> on\<close>

fun put_blocks :: "nat \<Rightarrow> nat \<Rightarrow> u32 list \<Rightarrow> u8 list \<Rightarrow> u8 list" where
  "put_blocks off b [] bs = bs"
| "put_blocks off b (v # vs) bs = put_blocks off (Suc b) vs (put32 (off + 40 + 4 * b) v bs)"

definition encode_blocks :: "nat \<Rightarrow> inode \<Rightarrow> u8 list \<Rightarrow> u8 list" where
  "encode_blocks off inode bs =
     (if S_ISCHR (i_mode inode) \<or> S_ISBLK (i_mode inode) then put32 (off + 40) (ucast (i_rdev inode)) bs
      else put_blocks off 0 (take EXT2_N_BLOCKS (i_data inode)) bs)"

definition ext2_update_inode :: "inode \<Rightarrow> (u32 option \<times> inode) fsop" where
  "ext2_update_inode inode fs =
     (let ino = i_ino inode in
      if (ino \<noteq> EXT2_ROOT_INO \<and> ino < EXT2_FIRST_INO) \<or> ino > s_inodes_count fs
      then do { fs \<leftarrow> ext2_error fs; Some ((None, inode), fs) }
      else do {
        p \<leftarrow> get_group_desc fs (inode_group fs ino);
        case bread (inode_block fs ino (gd_at fs p)) fs of
          (None, fs) \<Rightarrow> None
        | (Some bh, fs) \<Rightarrow> do {
            bs \<leftarrow> b_data fs bh;
            let off = RAW_INODE_SIZE * (unat (ino - 1) mod s_inodes_per_block fs);
            if \<not> raw_in_buffer off bs then None
            else
              let bs = encode_blocks off inode (encode_inode off inode bs)
              in Some ((Some bh, inode\<lparr>i_dirt := False\<rparr>),
                       mark_buffer_dirty bh (fs\<lparr>b_data := (b_data fs)(bh \<mapsto> bs)\<rparr>))
          }
      })"

definition ext2_write_inode :: "inode \<Rightarrow> inode fsop" where
  "ext2_write_inode inode fs = do {
     ((bh, inode), fs) \<leftarrow> ext2_update_inode inode fs;
     Some (inode, brelse bh fs)
   }"

definition ext2_sync_inode :: "inode \<Rightarrow> (int \<times> inode) fsop" where
  "ext2_sync_inode inode fs = do {
     ((bh, inode), fs) \<leftarrow> ext2_update_inode inode fs;
     case bh of
       Some b \<Rightarrow> Some ((0, inode), brelse bh (if b_dirt fs b then ll_rw_block_write b fs else fs))
     | None \<Rightarrow> Some ((-1, inode), brelse bh fs)
   }"

section \<open>Writing an inode and reading it back\<close>

text \<open>The part of an inode that lives on disk.\<close>

definition persistent :: "inode \<Rightarrow> _" where
  "persistent i = (i_mode i, i_uid i, i_gid i, i_nlink i, i_size i, i_atime i, i_ctime i, i_mtime i, e_dtime i,
     i_blocks i, e_flags i, e_faddr i, e_frag_no i, e_frag_size i, e_file_acl i, e_dir_acl i, e_version i,
     if S_ISCHR (i_mode i) \<or> S_ISBLK (i_mode i) then [ucast (i_rdev i)] else i_data i)"

lemma length_put_blocks [simp]: "length (put_blocks off b vs bs) = length bs"
  by (induction off b vs bs rule: put_blocks.induct) simp_all

lemma length_encode [simp]: "length (encode_inode off inode bs) = length bs"
  "length (encode_blocks off inode bs) = length bs"
  by (simp_all add: encode_inode_def encode_blocks_def)

lemma put_blocks_other:
  "off + 40 + 4 * (b + length vs) \<le> length bs \<Longrightarrow> j + 4 \<le> off + 40 + 4 * b \<or> off + 40 + 4 * (b + length vs) \<le> j \<Longrightarrow>
     get32 j (put_blocks off b vs bs) = get32 j bs"
  "off + 40 + 4 * (b + length vs) \<le> length bs \<Longrightarrow> j + 2 \<le> off + 40 + 4 * b \<or> off + 40 + 4 * (b + length vs) \<le> j \<Longrightarrow>
     get16 j (put_blocks off b vs bs) = get16 j bs"
  "off + 40 + 4 * (b + length vs) \<le> length bs \<Longrightarrow> j < off + 40 + 4 * b \<or> off + 40 + 4 * (b + length vs) \<le> j \<Longrightarrow>
     rd8 (put_blocks off b vs bs) j = rd8 bs j"
  by (induction off b vs bs rule: put_blocks.induct) (auto simp: buf_simps)

lemma put_blocks_get:
  "off + 40 + 4 * (b + length vs) \<le> length bs \<Longrightarrow> k < length vs \<Longrightarrow>
     get32 (off + 40 + 4 * (b + k)) (put_blocks off b vs bs) = vs ! k"
proof (induction off b vs bs arbitrary: k rule: put_blocks.induct)
  case (2 off b v vs bs)
  show ?case
  proof (cases k)
    case 0
    then show ?thesis using 2(2) by (simp add: put_blocks_other buf_simps)
  next
    case (Suc k')
    then show ?thesis using 2 by simp
  qed
qed simp


text \<open>Decoding what was encoded.\<close>

lemma decode_encode:
  assumes "raw_in_buffer off bs"
  shows "decode_inode off (encode_blocks off i (encode_inode off i bs)) i0 =
    i0\<lparr>i_mode := i_mode i, i_uid := i_uid i, i_gid := i_gid i, i_nlink := i_nlink i, i_size := i_size i,
      i_atime := i_atime i, i_ctime := i_ctime i, i_mtime := i_mtime i, e_dtime := e_dtime i,
      i_blocks := i_blocks i, e_flags := e_flags i, e_faddr := e_faddr i, e_frag_no := e_frag_no i,
      e_frag_size := e_frag_size i, e_osync := 0, e_file_acl := e_file_acl i, e_dir_acl := e_dir_acl i,
      e_version := e_version i\<rparr>"
proof -
  have l: "off + 128 \<le> length bs" using assms by (simp add: raw_in_buffer_def RAW_INODE_SIZE_def)
  define bs1 where "bs1 = encode_inode off i bs"
  have l1: "off + 128 \<le> length bs1" using l by (simp add: bs1_def)
  have n: "length (take EXT2_N_BLOCKS (i_data i)) \<le> 15" by (simp add: EXT2_N_BLOCKS_def)
  have keep: "get16 j (encode_blocks off i bs1) = get16 j bs1" if "j + 2 \<le> off + 40" for j
    using l1 n that by (auto simp: encode_blocks_def put_blocks_other buf_simps)
  have keep32: "get32 j (encode_blocks off i bs1) = get32 j bs1" if "j + 4 \<le> off + 40 \<or> off + 100 \<le> j" for j
    using l1 n that by (auto simp: encode_blocks_def put_blocks_other buf_simps)
  have keep8: "rd8 (encode_blocks off i bs1) j = rd8 bs1 j" if "off + 100 \<le> j" for j
    using l1 n that by (auto simp: encode_blocks_def put_blocks_other buf_simps)
  have fields: "get16 off bs1 = i_mode i" "get16 (off + 2) bs1 = i_uid i" "get16 (off + 24) bs1 = i_gid i"
    "get16 (off + 26) bs1 = i_nlink i" "get32 (off + 4) bs1 = i_size i" "get32 (off + 8) bs1 = i_atime i"
    "get32 (off + 12) bs1 = i_ctime i" "get32 (off + 16) bs1 = i_mtime i" "get32 (off + 20) bs1 = e_dtime i"
    "get32 (off + 28) bs1 = i_blocks i" "get32 (off + 32) bs1 = e_flags i" "get32 (off + 112) bs1 = e_faddr i"
    "rd8 bs1 (off + 116) = e_frag_no i" "rd8 bs1 (off + 117) = e_frag_size i"
    "get32 (off + 104) bs1 = e_file_acl i" "get32 (off + 108) bs1 = e_dir_acl i" "get32 (off + 100) bs1 = e_version i"
    using l by (simp_all add: bs1_def encode_inode_def buf_simps)
  show ?thesis
    unfolding bs1_def [symmetric] by (simp add: decode_inode_def keep keep32 keep8 fields del: add_2_eq_Suc')
qed

lemma decode_encode_blocks:
  assumes "raw_in_buffer off bs" and "length (i_data i) = EXT2_N_BLOCKS" and "i_mode i0 = i_mode i"
  shows "decode_blocks off (encode_blocks off i bs) i0 =
    (if S_ISCHR (i_mode i) \<or> S_ISBLK (i_mode i) then i0\<lparr>i_rdev := i_rdev i\<rparr> else i0\<lparr>i_data := i_data i\<rparr>)"
proof (cases "S_ISCHR (i_mode i) \<or> S_ISBLK (i_mode i)")
  case True
  have "ucast (ucast (i_rdev i) :: u32) = i_rdev i" by (rule bit_eqI) (auto simp: bit_ucast_iff dest: bit_imp_le_length)
  then show ?thesis
    using True assms by (simp add: decode_blocks_def encode_blocks_def raw_in_buffer_def RAW_INODE_SIZE_def buf_simps)
next
  case False
  have "List.map (\<lambda>b. get32 (off + 40 + 4 * b) (put_blocks off 0 (i_data i) bs)) [0..<EXT2_N_BLOCKS] = i_data i"
    using assms(1,2) put_blocks_get [of off 0 "i_data i" bs]
    by (intro nth_equalityI) (simp_all add: raw_in_buffer_def RAW_INODE_SIZE_def EXT2_N_BLOCKS_def)
  then show ?thesis using False assms by (simp add: decode_blocks_def encode_blocks_def)
qed

end
