(* ===== verification/Ext2_Ialloc.thy ===== *)
theory Ext2_Ialloc
  imports Ext2_Inode
begin

text \<open>
  The inode allocator, \<open>src/ext2/ialloc.c\<close>: \<open>set_inode_dtime\<close>, \<open>ext2_free_inode\<close>,
  \<open>inc_inode_version\<close>, \<open>ext2_new_inode\<close> with its two placement policies, \<open>ext2_count_free_inodes\<close>
  and \<open>ext2_check_inodes_bitmap\<close>.

  \<open>now\<close> is \<open>CURRENT_TIME\<close>; \<open>blank\<close> is what \<open>get_empty_inode ()\<close> returned. What happens to the
  in-memory inode table (\<open>clear_inode\<close>, \<open>insert_inode_hash\<close>, \<open>iput\<close> of an unused inode) is outside
  this state. \<open>goto repeat\<close> may run forever: the search is a partial function, and \<open>None\<close> then also
  means that it does not return.
\<close>

definition group_inode_bitmap :: "nat \<Rightarrow> u32 fsop" where
  "group_inode_bitmap g fs = do {
     (nr, fs) \<leftarrow> load_inode_bitmap g fs;
     bh \<leftarrow> bm_bitmap (inode_cache fs) ! nr;
     Some (bh, fs)
   }"

text \<open>The offset of the raw inode in its table block, as this file computes it.\<close>

definition table_offset :: "ext2_fs \<Rightarrow> u32 \<Rightarrow> nat" where
  "table_offset fs ino =
     RAW_INODE_SIZE * ((unat (ino - 1) mod s_inodes_per_group fs) mod s_inodes_per_block fs)"

subsection \<open>set_inode_dtime and ext2_free_inode\<close>

definition set_inode_dtime :: "u32 \<Rightarrow> inode \<Rightarrow> group_desc \<Rightarrow> ext2_fs \<Rightarrow> ext2_fs option" where
  "set_inode_dtime now inode gd fs =
     (case bread (inode_block fs (i_ino inode) gd) fs of
        (None, fs) \<Rightarrow> None
      | (Some bh, fs) \<Rightarrow> do {
          bs \<leftarrow> b_data fs bh;
          let off = table_offset fs (i_ino inode);
          if \<not> raw_in_buffer off bs then None
          else
            let bs = put32 (off + 20) now (put16 (off + 26) 0 bs);
                fs = mark_buffer_dirty bh (fs\<lparr>b_data := (b_data fs)(bh \<mapsto> bs)\<rparr>);
                fs = (if IS_SYNC inode then ll_rw_block_write bh fs else fs)
            in Some (brelse (Some bh) fs)
        })"

definition release_inode_desc :: "inode \<Rightarrow> group_desc \<Rightarrow> group_desc" where
  "release_inode_desc inode gd =
     (let gd = gd\<lparr>bg_free_inodes_count := bg_free_inodes_count gd + 1\<rparr>
      in if S_ISDIR (i_mode inode) then gd\<lparr>bg_used_dirs_count := bg_used_dirs_count gd - 1\<rparr> else gd)"

definition ext2_free_inode :: "u32 \<Rightarrow> inode \<Rightarrow> ext2_fs \<Rightarrow> ext2_fs option" where
  "ext2_free_inode now inode fs =
     (if i_count inode > 1 \<or> i_nlink inode \<noteq> 0 then Some fs
      else
        let fs = lock_super fs; ino = i_ino inode in
        if ino < EXT2_FIRST_INO \<or> ino > s_inodes_count fs
        then do { fs \<leftarrow> ext2_error fs; Some (unlock_super fs) }
        else
          let block_group = inode_group fs ino; nr = unat (ino - 1) mod s_inodes_per_group fs in do {
            (bh, fs) \<leftarrow> group_inode_bitmap block_group fs;
            bs \<leftarrow> b_data fs bh;
            (was, bs) \<leftarrow> clear_bit nr bs;
            let fs = fs\<lparr>b_data := (b_data fs)(bh \<mapsto> bs)\<rparr>;
            fs \<leftarrow> (if \<not> was then Some fs
                  else do {
                    p \<leftarrow> get_group_desc fs block_group;
                    let fs = gd_upd p (release_inode_desc inode) fs;
                    let fs = mark_buffer_dirty (gd_bh fs p) fs;
                    let fs = fs\<lparr>s_free_inodes_count := s_free_inodes_count fs + 1\<rparr>;
                    let fs = mark_buffer_dirty (s_sbh fs) fs;
                    set_inode_dtime now inode (gd_at fs p) fs
                  });
            let fs = mark_buffer_dirty bh fs;
            let fs = (if s_flags fs AND MS_SYNCHRONOUS \<noteq> 0 then ll_rw_block_write bh fs else fs);
            Some (unlock_super (fs\<lparr>s_dirt := True\<rparr>))
          })"

subsection \<open>inc_inode_version\<close>

definition inc_inode_version :: "inode \<Rightarrow> group_desc \<Rightarrow> inode fsop" where
  "inc_inode_version inode gd fs =
     (case bread (inode_block fs (i_ino inode) gd) fs of
        (None, fs) \<Rightarrow> do { fs \<leftarrow> ext2_error fs; Some (inode\<lparr>e_version := 1\<rparr>, fs) }
      | (Some bh, fs) \<Rightarrow> do {
          bs \<leftarrow> b_data fs bh;
          let off = table_offset fs (i_ino inode);
          if \<not> raw_in_buffer off bs then None
          else
            let version = get32 (off + 100) bs + 1;
                fs = mark_buffer_dirty bh (fs\<lparr>b_data := (b_data fs)(bh \<mapsto> put32 (off + 100) version bs)\<rparr>)
            in Some (inode\<lparr>e_version := version\<rparr>, brelse (Some bh) fs)
        })"

subsection \<open>ext2_new_inode: the choice of a group\<close>

text \<open>A directory: of the groups with at least the average number of free inodes, the one with most free blocks.\<close>

fun dir_scan :: "ext2_fs \<Rightarrow> nat \<Rightarrow> nat \<Rightarrow> nat \<Rightarrow> (nat \<times> gd_ptr) option \<Rightarrow> (nat \<times> gd_ptr) option option" where
  "dir_scan fs avefreei 0 j best = Some best"
| "dir_scan fs avefreei (Suc n) j best = do {
     p \<leftarrow> get_group_desc fs j;
     let tmp = gd_at fs p;
     let best = (if bg_free_inodes_count tmp \<noteq> 0 \<and> unat (bg_free_inodes_count tmp) \<ge> avefreei
                 then (case best of
                         None \<Rightarrow> Some (j, p)
                       | Some (i, q) \<Rightarrow> if bg_free_blocks_count tmp > bg_free_blocks_count (gd_at fs q)
                                       then Some (j, p) else best)
                 else best);
     dir_scan fs avefreei n (Suc j) best
   }"

definition choose_dir_group :: "ext2_fs \<Rightarrow> nat option option" where
  "choose_dir_group fs =
     map_option (map_option fst)
       (dir_scan fs (unat (s_free_inodes_count fs) div s_groups_count fs) (s_groups_count fs) 0 None)"

text \<open>Another file: the group of the directory, then the quadratic hash, then a linear search.\<close>

function hash_scan :: "ext2_fs \<Rightarrow> nat \<Rightarrow> nat \<Rightarrow> nat option option" where
  "hash_scan fs j i =
     (if 0 < j \<and> j < s_groups_count fs then
        let i' = (if i + j \<ge> s_groups_count fs then i + j - s_groups_count fs else i + j) in
        case get_group_desc fs i' of
          None \<Rightarrow> None
        | Some p \<Rightarrow> if bg_free_inodes_count (gd_at fs p) \<noteq> 0 then Some (Some i') else hash_scan fs (2 * j) i'
      else Some None)"
  by pat_completeness auto
termination by (relation "measure (\<lambda>(fs, j, i). s_groups_count fs - j)") auto

declare hash_scan.simps [simp del]

fun linear_scan :: "ext2_fs \<Rightarrow> nat \<Rightarrow> nat \<Rightarrow> nat option option" where
  "linear_scan fs 0 i = Some None"
| "linear_scan fs (Suc n) i =
     (let i' = (if Suc i \<ge> s_groups_count fs then 0 else Suc i) in do {
        p \<leftarrow> get_group_desc fs i';
        if bg_free_inodes_count (gd_at fs p) \<noteq> 0 then Some (Some i') else linear_scan fs n i'
      })"

definition choose_file_group :: "ext2_fs \<Rightarrow> nat \<Rightarrow> nat option option" where
  "choose_file_group fs parent = do {
     p \<leftarrow> get_group_desc fs parent;
     if bg_free_inodes_count (gd_at fs p) \<noteq> 0 then Some (Some parent)
     else do {
       r \<leftarrow> hash_scan fs 1 parent;
       case r of
         Some i \<Rightarrow> Some (Some i)
       | None \<Rightarrow> linear_scan fs (s_groups_count fs - 2) (parent + 1)
     }
   }"

definition choose_group :: "u16 \<Rightarrow> nat \<Rightarrow> ext2_fs \<Rightarrow> nat option option" where
  "choose_group mode parent fs = (if S_ISDIR mode then choose_dir_group fs else choose_file_group fs parent)"

subsection \<open>ext2_new_inode: the bit\<close>

text \<open>From \<open>repeat\<close> to the point where the bit is set; \<open>None\<close> in the result is a failure that was reported.\<close>

partial_function (option) find_inode_bit ::
    "u16 \<Rightarrow> nat \<Rightarrow> ext2_fs \<Rightarrow> ((nat \<times> nat) option \<times> ext2_fs) option" where
  "find_inode_bit mode parent fs =
     Option.bind (choose_group mode parent fs) (\<lambda>c. case c of
       None \<Rightarrow> Some (None, fs)
     | Some i \<Rightarrow> Option.bind (group_inode_bitmap i fs) (\<lambda>(bh, fs).
         Option.bind (b_data fs bh) (\<lambda>bs.
           let j = find_first_zero_bit (rd32 bs) (s_inodes_per_group fs) in
           if j < s_inodes_per_group fs then
             Option.bind (set_bit j bs) (\<lambda>(was, bs).
               if was then find_inode_bit mode parent fs
               else
                 let fs = mark_buffer_dirty bh (fs\<lparr>b_data := (b_data fs)(bh \<mapsto> bs)\<rparr>);
                     fs = (if s_flags fs AND MS_SYNCHRONOUS \<noteq> 0 then ll_rw_block_write bh fs else fs)
                 in Some (Some (i, j), fs))
           else
             Option.bind (get_group_desc fs i) (\<lambda>p.
               if bg_free_inodes_count (gd_at fs p) \<noteq> 0
               then Option.bind (ext2_error fs) (\<lambda>fs. Some (None, fs))
               else find_inode_bit mode parent fs))))"

declare find_inode_bit.simps [code]

subsection \<open>ext2_new_inode: the new inode\<close>

definition take_inode_desc :: "u16 \<Rightarrow> group_desc \<Rightarrow> group_desc" where
  "take_inode_desc mode gd =
     (let gd = gd\<lparr>bg_free_inodes_count := bg_free_inodes_count gd - 1\<rparr>
      in if S_ISDIR mode then gd\<lparr>bg_used_dirs_count := bg_used_dirs_count gd + 1\<rparr> else gd)"

text \<open>
  The fields of the new inode. With a set-group-id directory the source also sets \<open>S_ISGID\<close> in its
  local \<open>mode\<close>, which has been stored in \<open>i_mode\<close> before and is not stored again.
\<close>

definition init_inode :: "ext2_fs \<Rightarrow> u32 \<Rightarrow> inode \<Rightarrow> u16 \<Rightarrow> u32 \<Rightarrow> nat \<Rightarrow> inode \<Rightarrow> inode" where
  "init_inode fs now dir mode ino grp inode =
     (let flags = (if S_ISLNK mode then e_flags dir AND NOT (EXT2_IMMUTABLE_FL OR EXT2_APPEND_FL)
                   else e_flags dir);
          inode = inode\<lparr>i_flags := ucast (s_flags fs), i_mode := mode, i_count := 1, i_nlink := 1, i_uid := 0,
            i_gid := (if test_opt fs EXT2_MOUNT_GRPID then i_gid dir
                      else if i_mode dir AND S_ISGID \<noteq> 0 then i_gid dir else 0),
            i_dirt := True, i_ino := ino, i_blksize := s_blocksize fs, i_blocks := 0,
            i_mtime := now, i_atime := now, i_ctime := now, e_flags := flags,
            e_faddr := 0, e_frag_no := 0, e_frag_size := 0, e_file_acl := 0, e_dir_acl := 0, e_dtime := 0,
            e_block_group := of_nat grp, i_op := No_ops\<rparr>
      in if flags AND EXT2_SYNC_FL \<noteq> 0 then inode\<lparr>i_flags := i_flags inode OR ucast MS_SYNCHRONOUS\<rparr> else inode)"

text \<open>
  \<open>prev\<close> is the group whose descriptor was fetched last: \<open>bh2\<close> is its buffer, and that buffer is
  marked dirty. For a directory it is the last group, whichever group was chosen.
\<close>

definition finish_inode :: "inode \<Rightarrow> u32 \<Rightarrow> inode \<Rightarrow> u16 \<Rightarrow> nat \<Rightarrow> nat \<Rightarrow> nat \<Rightarrow> inode option fsop" where
  "finish_inode blank now dir mode prev i j fs =
     (let ino = of_nat j + of_nat i * of_nat (s_inodes_per_group fs) + 1 in
      if ino < EXT2_FIRST_INO \<or> ino > s_inodes_count fs
      then do { fs \<leftarrow> ext2_error fs; Some (None, unlock_super fs) }
      else do {
        p \<leftarrow> get_group_desc fs i;
        p2 \<leftarrow> get_group_desc fs prev;
        let fs = gd_upd p (take_inode_desc mode) fs;
        let fs = mark_buffer_dirty (gd_bh fs p2) fs;
        let fs = fs\<lparr>s_free_inodes_count := s_free_inodes_count fs - 1\<rparr>;
        let fs = mark_buffer_dirty (s_sbh fs) fs;
        let fs = fs\<lparr>s_dirt := True\<rparr>;
        (inode, fs) \<leftarrow> inc_inode_version (init_inode fs now dir mode ino i blank) (gd_at fs p) fs;
        Some (Some inode, unlock_super fs)
      })"

definition ext2_new_inode :: "inode option \<Rightarrow> u32 \<Rightarrow> inode \<Rightarrow> u16 \<Rightarrow> inode option fsop" where
  "ext2_new_inode blank now dir mode fs =
     (case blank of
        None \<Rightarrow> Some (None, fs)
      | Some blank \<Rightarrow> do {
          (r, fs) \<leftarrow> find_inode_bit mode (unat (e_block_group dir)) (lock_super fs);
          case r of
            None \<Rightarrow> Some (None, unlock_super fs)
          | Some (i, j) \<Rightarrow>
              finish_inode blank now dir mode (if S_ISDIR mode then s_groups_count fs - 1 else i) i j fs
        })"

subsection \<open>Counting and checking\<close>

definition ext2_count_free_inodes :: "ext2_fs \<Rightarrow> u32" where
  "ext2_count_free_inodes fs = s_free_inodes_count fs"

fun check_inode_groups :: "nat \<Rightarrow> nat \<Rightarrow> nat \<Rightarrow> nat fsop" where
  "check_inode_groups 0 i bitmap_count fs = Some (bitmap_count, fs)"
| "check_inode_groups (Suc n) i bitmap_count fs = do {
     p \<leftarrow> get_group_desc fs i;
     (bh, fs) \<leftarrow> group_inode_bitmap i fs;
     bs \<leftarrow> b_data fs bh;
     let x = ext2_count_free (Some bs) (s_inodes_per_group fs div 8);
     fs \<leftarrow> report [unat (bg_free_inodes_count (gd_at fs p)) = x] fs;
     check_inode_groups n (Suc i) (bitmap_count + x) fs
   }"

definition ext2_check_inodes_bitmap :: "ext2_fs \<Rightarrow> ext2_fs option" where
  "ext2_check_inodes_bitmap fs = do {
     let fs = lock_super fs;
     (bitmap_count, fs) \<leftarrow> check_inode_groups (s_groups_count fs) 0 0 fs;
     fs \<leftarrow> report [unat (s_free_inodes_count fs) = bitmap_count] fs;
     Some (unlock_super fs)
   }"

end
