(* ===== verification/Ext2_Inode_Props.thy ===== *)
theory Ext2_Inode_Props
  imports Ext2_Inode Ext2_Balloc_Props
begin

text \<open>Theorems about \<open>ext2_read_inode\<close> and \<open>ext2_write_inode\<close>.\<close>

text \<open>An inode number that both functions accept, with its table block readable and of full size.\<close>

definition inode_ok :: "ext2_fs \<Rightarrow> u32 \<Rightarrow> bool" where
  "inode_ok fs ino \<longleftrightarrow> (ino = EXT2_ROOT_INO \<or> EXT2_FIRST_INO \<le> ino) \<and> ino \<le> s_inodes_count fs \<and>
     inode_group fs ino < s_groups_count fs \<and> 0 < s_inodes_per_block fs \<and>
     RAW_INODE_SIZE * s_inodes_per_block fs \<le>
       length (the (b_data fs (inode_block fs ino (desc_of fs (inode_group fs ino))))) \<and>
     b_data fs (inode_block fs ino (desc_of fs (inode_group fs ino))) \<noteq> None"

lemma inode_ok_buffer:
  assumes "inode_ok fs ino" and "b_data fs (inode_block fs ino (desc_of fs (inode_group fs ino))) = Some bs"
  shows "raw_in_buffer (RAW_INODE_SIZE * (unat (ino - 1) mod s_inodes_per_block fs)) bs"
proof -
  let ?k = "unat (ino - 1) mod s_inodes_per_block fs"
  have "Suc ?k \<le> s_inodes_per_block fs" using assms(1) by (simp add: inode_ok_def Suc_le_eq)
  then have "RAW_INODE_SIZE * Suc ?k \<le> RAW_INODE_SIZE * s_inodes_per_block fs" by (rule mult_le_mono2)
  then show ?thesis using assms by (simp add: raw_in_buffer_def inode_ok_def)
qed

lemma inode_ok_numbers:
  assumes "inode_ok fs ino"
  shows "\<not> (ino \<noteq> EXT2_ROOT_INO \<and> ino < EXT2_FIRST_INO)" and "\<not> ino > s_inodes_count fs"
    and "\<not> (ino \<noteq> EXT2_ROOT_INO \<and> ino \<noteq> EXT2_ACL_IDX_INO \<and> ino \<noteq> EXT2_ACL_DATA_INO \<and> ino < EXT2_FIRST_INO)"
  using assms by (auto simp: inode_ok_def not_less [symmetric])

lemma ext2_write_inode_eq:
  assumes ok: "inode_ok fs (i_ino i)" and wf: "gd_wf fs"
  defines "b \<equiv> inode_block fs (i_ino i) (desc_of fs (inode_group fs (i_ino i)))"
    and "off \<equiv> RAW_INODE_SIZE * (unat (i_ino i - 1) mod s_inodes_per_block fs)"
  shows "\<exists>D C. ext2_write_inode i fs = Some (i\<lparr>i_dirt := False\<rparr>,
    fs\<lparr>b_data := (b_data fs)(b \<mapsto> encode_blocks off i (encode_inode off i (the (b_data fs b)))), b_dirt := D, b_count := C\<rparr>)"
proof -
  let ?ino = "i_ino i"
  have p: "get_group_desc fs (inode_group fs ?ino) = Some (gdp fs (inode_group fs ?ino))"
    by (rule get_group_desc_wf [OF wf]) (use ok in \<open>simp add: inode_ok_def\<close>)
  obtain bs where bs: "b_data fs b = Some bs" using ok unfolding inode_ok_def b_def by blast
  have rb: "raw_in_buffer off bs" unfolding off_def by (rule inode_ok_buffer [OF ok]) (use bs in \<open>simp add: b_def\<close>)
  have n: "\<not> (?ino \<noteq> EXT2_ROOT_INO \<and> ?ino < EXT2_FIRST_INO \<or> ?ino > s_inodes_count fs)"
    using inode_ok_numbers [OF ok] by blast
  let ?fs = "fs\<lparr>b_count := (b_count fs)(b := Suc (b_count fs b))\<rparr>"
  have br: "bread b fs = (Some b, ?fs)" by (rule bread_ok) (simp add: bs)
  have "ext2_update_inode i fs = Some ((Some b, i\<lparr>i_dirt := False\<rparr>),
      mark_buffer_dirty b (?fs\<lparr>b_data := (b_data fs)(b \<mapsto> encode_blocks off i (encode_inode off i bs))\<rparr>))"
    unfolding ext2_update_inode_def Let_def if_not_P [OF n] p bind.bind_lunit b_def [symmetric] br
    using rb bs by (simp add: off_def)
  then have "ext2_write_inode i fs = Some (i\<lparr>i_dirt := False\<rparr>, brelse (Some b)
      (mark_buffer_dirty b (?fs\<lparr>b_data := (b_data fs)(b \<mapsto> encode_blocks off i (encode_inode off i bs))\<rparr>)))"
    by (simp add: ext2_write_inode_def)
  then show ?thesis
    by (intro exI [where x = "(b_dirt fs)(b := True)"] exI [where x = "b_count fs"])
      (simp add: brelse_def mark_buffer_dirty_def bs)
qed

text \<open>C6. An inode that \<open>ext2_write_inode\<close> stores is read back by \<open>ext2_read_inode\<close>: mode, owner, link
  count, size, times, flags and block pointers (or the device number) come back unchanged, whatever
  the in-memory inode held before and whatever the table block held; no other block changes.\<close>

theorem write_read_inode:
  assumes "inode_ok fs (i_ino i)" and "gd_wf fs" and "length (i_data i) = EXT2_N_BLOCKS"
    and "i_ino i0 = i_ino i" and "e_prealloc_count i0 = 0"
  shows "\<exists>i1 fs1 i2 fs2. ext2_write_inode i fs = Some (i1, fs1) \<and> i1 = i\<lparr>i_dirt := False\<rparr> \<and>
    ext2_read_inode ev i0 fs1 = Some ((i2, ev + 1), fs2) \<and> persistent i2 = persistent i \<and> i_ino i2 = i_ino i \<and>
    i_version i2 = ev + 1 \<and> b_data fs2 = b_data fs1 \<and>
    (\<forall>c. c \<noteq> inode_block fs (i_ino i) (desc_of fs (inode_group fs (i_ino i))) \<longrightarrow> b_data fs1 c = b_data fs c)"
proof -
  let ?ino = "i_ino i"
  define b where "b = inode_block fs ?ino (desc_of fs (inode_group fs ?ino))"
  define off where "off = RAW_INODE_SIZE * (unat (?ino - 1) mod s_inodes_per_block fs)"
  obtain bs where bs: "b_data fs b = Some bs" using assms(1) unfolding inode_ok_def b_def by blast
  have rb: "raw_in_buffer off bs" unfolding off_def
    by (rule inode_ok_buffer [OF assms(1)]) (use bs in \<open>simp add: b_def\<close>)
  define bs' where "bs' = encode_blocks off i (encode_inode off i bs)"
  have rb': "raw_in_buffer off bs'" using rb by (simp add: bs'_def raw_in_buffer_def)
  have rbe: "raw_in_buffer off (encode_inode off i bs)" using rb by (simp add: raw_in_buffer_def)
  obtain D C where w: "ext2_write_inode i fs = Some (i\<lparr>i_dirt := False\<rparr>, fs\<lparr>b_data := (b_data fs)(b \<mapsto> bs'), b_dirt := D, b_count := C\<rparr>)"
    using ext2_write_inode_eq [OF assms(1,2)] bs unfolding b_def off_def bs'_def by auto
  let ?fs1 = "fs\<lparr>b_data := (b_data fs)(b \<mapsto> bs'), b_dirt := D, b_count := C\<rparr>"
  have gp: "inode_group ?fs1 x = inode_group fs x" "inode_block ?fs1 x gd = inode_block fs x gd" for x gd
    by (simp_all add: inode_group_def inode_block_def)
  have dsc: "desc_of ?fs1 h = desc_of fs h" for h by (rule desc_of_cong) simp_all
  have wf1: "gd_wf ?fs1" using assms(2) by (simp add: gd_wf_def)
  have p: "get_group_desc ?fs1 (inode_group fs ?ino) = Some (gdp ?fs1 (inode_group fs ?ino))"
    by (rule get_group_desc_wf [OF wf1]) (use assms(1) in \<open>simp add: inode_ok_def\<close>)
  have n: "\<not> (?ino \<noteq> EXT2_ROOT_INO \<and> ?ino \<noteq> EXT2_ACL_IDX_INO \<and> ?ino \<noteq> EXT2_ACL_DATA_INO \<and> ?ino < EXT2_FIRST_INO \<or>
      ?ino > s_inodes_count ?fs1)"
    using inode_ok_numbers(2,3) [OF assms(1)] by simp
  let ?fs2 = "?fs1\<lparr>b_count := C(b := Suc (C b))\<rparr>"
  have br: "bread b ?fs1 = (Some b, ?fs2)" by (simp add: bread_def getblk_def)
  let ?i2 = "(decode_inode off bs' i0)\<lparr>i_blksize := s_blocksize fs, i_version := ev + 1,
      e_block_group := of_nat (inode_group fs ?ino), e_next_alloc_block := 0, e_next_alloc_goal := 0\<rparr>"
  have pc: "e_prealloc_count ?i2 = 0" using assms(5) by (simp add: decode_inode_def)
  have rd: "ext2_read_inode ev i0 ?fs1 = Some ((select_ops (decode_blocks off bs' ?i2), ev + 1), brelse (Some b) ?fs2)"
    unfolding ext2_read_inode_def Let_def assms(4) if_not_P [OF n] gp p bind.bind_lunit dsc b_def [symmetric] br
    using rb' pc by (simp add: off_def [symmetric] inode_group_def)
  have so: "persistent (select_ops x) = persistent x" "i_ino (select_ops x) = i_ino x" "i_version (select_ops x) = i_version x" for x
    by (simp_all add: persistent_def select_ops_def Let_def)
  have i2: "?i2 = i0\<lparr>i_mode := i_mode i, i_uid := i_uid i, i_gid := i_gid i, i_nlink := i_nlink i, i_size := i_size i,
      i_atime := i_atime i, i_ctime := i_ctime i, i_mtime := i_mtime i, e_dtime := e_dtime i,
      i_blocks := i_blocks i, e_flags := e_flags i, e_faddr := e_faddr i, e_frag_no := e_frag_no i,
      e_frag_size := e_frag_size i, e_osync := 0, e_file_acl := e_file_acl i, e_dir_acl := e_dir_acl i,
      e_version := e_version i, i_blksize := s_blocksize fs, i_version := ev + 1,
      e_block_group := of_nat (inode_group fs ?ino), e_next_alloc_block := 0, e_next_alloc_goal := 0\<rparr>"
    unfolding bs'_def decode_encode [OF rb] by simp
  have db: "decode_blocks off bs' ?i2 = (if S_ISCHR (i_mode i) \<or> S_ISBLK (i_mode i) then ?i2\<lparr>i_rdev := i_rdev i\<rparr>
      else ?i2\<lparr>i_data := i_data i\<rparr>)"
    unfolding bs'_def by (rule decode_encode_blocks [OF rbe assms(3)]) (simp add: decode_encode [OF rb])
  have per: "persistent (decode_blocks off bs' ?i2) = persistent i" unfolding db unfolding i2 by (simp add: persistent_def)
  have fin: "i_ino (decode_blocks off bs' ?i2) = ?ino" "i_version (decode_blocks off bs' ?i2) = ev + 1"
    unfolding db unfolding i2 using assms(4) by simp_all
  have "b_data (brelse (Some b) ?fs2) = b_data ?fs1" by (simp add: brelse_def)
  with w rd per fin show ?thesis
    unfolding b_def [symmetric]
    by (intro exI [where x = "i\<lparr>i_dirt := False\<rparr>"] exI [where x = ?fs1] exI [where x = "select_ops (decode_blocks off bs' ?i2)"]
        exI [where x = "brelse (Some b) ?fs2"]) (simp add: so)
qed

definition example_inode :: inode where
  "example_inode = \<lparr>i_ino = 12, i_mode = 0x81A4, i_nlink = 1, i_uid = 0, i_gid = 0, i_rdev = 0, i_size = 5000,
     i_atime = 1, i_mtime = 2, i_ctime = 3, i_blksize = 128, i_blocks = 2, i_version = 7, i_count = 1, i_dirt = True,
     i_op = File_ops, i_flags = 0, i_data = [40, 41, 42, 0, 0, 0, 0, 0, 0, 0, 0, 0, 0, 0, 0], e_flags = 0, e_faddr = 0,
     e_frag_no = 0, e_frag_size = 0, e_osync = 0, e_file_acl = 0, e_dir_acl = 0, e_dtime = 0, e_version = 1,
     e_block_group = 0, e_next_alloc_block = 0, e_next_alloc_goal = 0, e_prealloc_block = 0, e_prealloc_count = 0\<rparr>"

theorem write_read_inode_witness:
  "\<exists>fs1 i2 fs2. ext2_write_inode example_inode example_fs = Some (example_inode\<lparr>i_dirt := False\<rparr>, fs1) \<and>
     ext2_read_inode 41 (example_inode\<lparr>i_data := [], i_size := 0, i_mode := 0\<rparr>) fs1 = Some ((i2, 42), fs2) \<and>
     i_data i2 = i_data example_inode \<and> i_size i2 = 5000"
proof -
  have "inode_group example_fs 12 = 0" "inode_block example_fs 12 (desc_of example_fs 0) = 16"
    by (simp_all add: inode_group_def inode_block_def example_fs_def example_desc_def gd_at_def gdp_def)
  then have ok: "inode_ok example_fs (i_ino example_inode)"
    by (simp add: inode_ok_def example_inode_def EXT2_FIRST_INO_def RAW_INODE_SIZE_def example_fs_def example_data_def)
  have l: "length (i_data example_inode) = EXT2_N_BLOCKS" by (simp add: example_inode_def EXT2_N_BLOCKS_def)
  have e: "i_ino (example_inode\<lparr>i_data := [], i_size := 0, i_mode := 0\<rparr>) = i_ino example_inode"
    "e_prealloc_count (example_inode\<lparr>i_data := [], i_size := 0, i_mode := 0\<rparr>) = 0"
    by (simp_all add: example_inode_def)
  obtain fs1 i2 fs2 where r: "ext2_write_inode example_inode example_fs = Some (example_inode\<lparr>i_dirt := False\<rparr>, fs1)"
    "ext2_read_inode 41 (example_inode\<lparr>i_data := [], i_size := 0, i_mode := 0\<rparr>) fs1 = Some ((i2, 41 + 1), fs2)"
    "persistent i2 = persistent example_inode"
    using write_read_inode [OF ok example_gd_wf l e, of 41] by blast
  have m: "i_mode i2 = 0x81A4" "i_size i2 = 5000" using r(3) by (simp_all add: persistent_def example_inode_def)
  have "\<not> (S_ISCHR 0x81A4 \<or> S_ISBLK 0x81A4)" by (simp add: S_ISCHR_def S_ISBLK_def)
  then have "i_data i2 = i_data example_inode"
    using r(3) m(1) by (simp add: persistent_def example_inode_def)
  with r m(2) show ?thesis by auto
qed

end
