(* ===== verification/Ext2_Ialloc_Props.thy ===== *)
theory Ext2_Ialloc_Props
  imports Ext2_Ialloc Ext2_Inode_Props
begin

text \<open>
  The theorems about the inode allocator. The views mirror those of the block allocator: \<open>iused\<close> is
  a bit of a group's inode bitmap, \<open>ialloc_ok\<close> what the allocator needs, \<open>icounts_ok\<close> that the
  counters agree with the bitmaps.
\<close>

section \<open>The views\<close>

abbreviation imap_no :: "ext2_fs \<Rightarrow> nat \<Rightarrow> u32" where
  "imap_no fs g \<equiv> bg_inode_bitmap (desc_of fs g)"

definition iused :: "ext2_fs \<Rightarrow> nat \<Rightarrow> nat \<Rightarrow> bool" where
  "iused fs g k = test_bit k (the (b_data fs (imap_no fs g)))"

abbreviation ifree_in :: "ext2_fs \<Rightarrow> nat \<Rightarrow> nat" where
  "ifree_in fs g \<equiv> zeros (iused fs g) (s_inodes_per_group fs)"

text \<open>Block \<open>m\<close> of the inode table of group \<open>g\<close>.\<close>

definition table_block :: "ext2_fs \<Rightarrow> nat \<Rightarrow> nat \<Rightarrow> u32" where
  "table_block fs g m = bg_inode_table (desc_of fs g) + of_nat m"

definition igeom :: "ext2_fs \<Rightarrow> bool" where
  "igeom fs \<longleftrightarrow> 0 < s_inodes_per_group fs \<and> s_inodes_per_group fs < 2 ^ 16 \<and> 32 dvd s_inodes_per_group fs \<and>
     0 < s_inodes_per_block fs \<and> 0 < s_groups_count fs \<and> s_groups_count fs * s_inodes_per_group fs < 2 ^ 32 \<and>
     unat (s_inodes_count fs) = s_groups_count fs * s_inodes_per_group fs"

text \<open>
  The inode bitmaps can be read, differ, cover their group and are no blocks of an inode table; the
  tables can be read; the ten reserved inodes are in use.
\<close>

definition ialloc_ok :: "ext2_fs \<Rightarrow> bool" where
  "ialloc_ok fs \<longleftrightarrow> igeom fs \<and> ino.ready fs \<and>
     (\<forall>g < s_groups_count fs. s_inodes_per_group fs \<le> 8 * length (the (b_data fs (imap_no fs g)))) \<and>
     (\<forall>g < s_groups_count fs. \<forall>h < s_groups_count fs. imap_no fs g = imap_no fs h \<longrightarrow> g = h) \<and>
     (\<forall>g < s_groups_count fs. \<forall>k < s_inodes_per_group fs.
        (\<exists>bs. b_data fs (table_block fs g (k div s_inodes_per_block fs)) = Some bs \<and>
              RAW_INODE_SIZE * s_inodes_per_block fs \<le> length bs) \<and>
        (\<forall>h < s_groups_count fs. table_block fs g (k div s_inodes_per_block fs) \<noteq> imap_no fs h)) \<and>
     (\<forall>k < 10. iused fs 0 k)"

definition icounts_ok :: "ext2_fs \<Rightarrow> bool" where
  "icounts_ok fs \<longleftrightarrow>
     (\<forall>g < s_groups_count fs. unat (bg_free_inodes_count (desc_of fs g)) = ifree_in fs g) \<and>
     unat (s_free_inodes_count fs) = (\<Sum>g < s_groups_count fs. ifree_in fs g)"

lemma ialloc_okD:
  assumes "ialloc_ok fs"
  shows "igeom fs" and "ino.ready fs" and "gd_wf fs"
    and "\<And>g. g < s_groups_count fs \<Longrightarrow> b_data fs (imap_no fs g) \<noteq> None"
    and "\<And>g. g < s_groups_count fs \<Longrightarrow> s_inodes_per_group fs \<le> 8 * length (the (b_data fs (imap_no fs g)))"
    and "\<And>g h. g < s_groups_count fs \<Longrightarrow> h < s_groups_count fs \<Longrightarrow> imap_no fs g = imap_no fs h \<Longrightarrow> g = h"
    and "\<And>g k. g < s_groups_count fs \<Longrightarrow> k < s_inodes_per_group fs \<Longrightarrow>
      \<exists>bs. b_data fs (table_block fs g (k div s_inodes_per_block fs)) = Some bs \<and>
        RAW_INODE_SIZE * s_inodes_per_block fs \<le> length bs"
    and "\<And>g k h. g < s_groups_count fs \<Longrightarrow> k < s_inodes_per_group fs \<Longrightarrow> h < s_groups_count fs \<Longrightarrow>
      table_block fs g (k div s_inodes_per_block fs) \<noteq> imap_no fs h"
    and "\<And>k. k < 10 \<Longrightarrow> iused fs 0 k"
  using assms unfolding ialloc_ok_def ino.ready_def by blast+

text \<open>The number of inode \<open>k\<close> of group \<open>g\<close>, and back.\<close>

definition ino_no :: "ext2_fs \<Rightarrow> nat \<Rightarrow> nat \<Rightarrow> u32" where
  "ino_no fs g k = of_nat k + of_nat g * of_nat (s_inodes_per_group fs) + 1"

lemma ino_no_facts:
  assumes "igeom fs" and "g < s_groups_count fs" and "k < s_inodes_per_group fs"
  shows "unat (ino_no fs g k - 1) = k + g * s_inodes_per_group fs"
    and "unat (ino_no fs g k) = k + g * s_inodes_per_group fs + 1"
    and "inode_group fs (ino_no fs g k) = g"
    and "unat (ino_no fs g k - 1) mod s_inodes_per_group fs = k"
    and "ino_no fs g k \<le> s_inodes_count fs"
proof -
  let ?n = "s_inodes_per_group fs"
  have "Suc g * ?n \<le> s_groups_count fs * ?n" using assms(2) by (intro mult_le_mono1) simp
  then have le: "k + g * ?n + 1 \<le> s_groups_count fs * ?n" using assms(3) by simp
  then have lt: "k + g * ?n + 1 < 2 ^ 32" using assms(1) by (simp add: igeom_def)
  have e: "ino_no fs g k - 1 = of_nat (k + g * ?n)" "ino_no fs g k = of_nat (k + g * ?n + 1)"
    by (simp_all add: ino_no_def)
  show u: "unat (ino_no fs g k - 1) = k + g * ?n" unfolding e(1) using lt by (intro unat_of_nat_u32) simp
  show v: "unat (ino_no fs g k) = k + g * ?n + 1" unfolding e(2) using lt by (intro unat_of_nat_u32) simp
  show "inode_group fs (ino_no fs g k) = g" unfolding inode_group_def u using assms(3) by simp
  show "unat (ino_no fs g k - 1) mod ?n = k" unfolding u using assms(3) by simp
  show "ino_no fs g k \<le> s_inodes_count fs"
    using le assms(1) v by (simp add: word_le_nat_alt igeom_def)
qed

section \<open>The loader\<close>

lemma group_inode_bitmap_ok:
  assumes ok: "ialloc_ok fs" and g: "g < s_groups_count fs"
  obtains c n where "group_inode_bitmap g fs = Some (imap_no fs g, fs\<lparr>b_count := n, inode_cache := c\<rparr>)"
    and "ino.ready (fs\<lparr>b_count := n, inode_cache := c\<rparr>)"
proof -
  obtain nr c n where l: "load_inode_bitmap g fs = Some (nr, fs\<lparr>b_count := n, inode_cache := c\<rparr>)"
    and r: "ino.ready (fs\<lparr>b_count := n, inode_cache := c\<rparr>)" and b: "bm_bitmap c ! nr = Some (imap_no fs g)"
    using ino.load_ready_eq [OF ialloc_okD(2) [OF ok] g] by blast
  show thesis by (rule that [OF _ r]) (use l b in \<open>simp add: group_inode_bitmap_def\<close>)
qed

lemma ready_cache:
  assumes "ino.ready (fs\<lparr>b_count := n, inode_cache := c\<rparr>)"
  shows "cache_wf (s_groups_count fs) (imap_no fs) c"
proof -
  have d: "desc_of (fs\<lparr>b_count := n, inode_cache := c\<rparr>) h = desc_of fs h" for h by (rule desc_of_cong) simp_all
  show ?thesis using assms unfolding ino.ready_def d by simp
qed

section \<open>The search for a group\<close>

lemma choose_file_group_free:
  assumes "choose_file_group fs parent = Some (Some g)"
  shows "g < s_groups_count fs \<and> bg_free_inodes_count (desc_of fs g) \<noteq> 0"
proof -
  have hs: "hash_scan fs j i = Some (Some g) \<Longrightarrow> g < s_groups_count fs \<and> bg_free_inodes_count (desc_of fs g) \<noteq> 0" for j i
  proof (induction fs j i rule: hash_scan.induct)
    case (1 fs j i)
    define i' where "i' = (if i + j \<ge> s_groups_count fs then i + j - s_groups_count fs else i + j)"
    have st: "hash_scan fs j i = (if 0 < j \<and> j < s_groups_count fs then case get_group_desc fs i' of None \<Rightarrow> None
        | Some p \<Rightarrow> if bg_free_inodes_count (gd_at fs p) \<noteq> 0 then Some (Some i') else hash_scan fs (2 * j) i' else Some None)"
      unfolding i'_def by (subst hash_scan.simps) (simp only: Let_def)
    have c: "0 < j \<and> j < s_groups_count fs" using "1.prems" unfolding st by (auto split: if_splits)
    obtain p where p: "get_group_desc fs i' = Some p"
      using "1.prems" c unfolding st by (cases "get_group_desc fs i'") auto
    show ?case
    proof (cases "bg_free_inodes_count (gd_at fs p) \<noteq> 0")
      case True
      then have "i' = g" using "1.prems" c p unfolding st by simp
      then show ?thesis using True get_group_desc_SomeD [OF p] by simp
    next
      case False
      then have "hash_scan fs (2 * j) i' = Some (Some g)" using "1.prems" c p unfolding st by simp
      then show ?thesis using "1.IH" [OF c i'_def p False] by blast
    qed
  qed
  have ls: "linear_scan fs n i = Some (Some g) \<Longrightarrow> g < s_groups_count fs \<and> bg_free_inodes_count (desc_of fs g) \<noteq> 0" for n i
  proof (induction n arbitrary: i)
    case (Suc n)
    define i' where "i' = (if Suc i \<ge> s_groups_count fs then 0 else Suc i)"
    have st: "linear_scan fs (Suc n) i = do { p \<leftarrow> get_group_desc fs i';
        if bg_free_inodes_count (gd_at fs p) \<noteq> 0 then Some (Some i') else linear_scan fs n i' }"
      by (simp only: linear_scan.simps Let_def i'_def)
    obtain p where p: "get_group_desc fs i' = Some p"
      using Suc.prems unfolding st by (cases "get_group_desc fs i'") auto
    show ?case
    proof (cases "bg_free_inodes_count (gd_at fs p) \<noteq> 0")
      case True
      then have "i' = g" using Suc.prems p unfolding st by simp
      then show ?thesis using True get_group_desc_SomeD [OF p] by simp
    next
      case False
      then have "linear_scan fs n i' = Some (Some g)" using Suc.prems p unfolding st by simp
      then show ?thesis by (rule Suc.IH)
    qed
  qed simp
  obtain p where p: "get_group_desc fs parent = Some p"
    using assms by (cases "get_group_desc fs parent") (auto simp: choose_file_group_def)
  show ?thesis
  proof (cases "bg_free_inodes_count (gd_at fs p) \<noteq> 0")
    case True
    then have "parent = g" using assms p by (simp add: choose_file_group_def)
    then show ?thesis using True get_group_desc_SomeD [OF p] by simp
  next
    case False
    then obtain r where r: "hash_scan fs 1 parent = Some r"
      using assms p by (cases "hash_scan fs 1 parent") (auto simp: choose_file_group_def)
    show ?thesis
    proof (cases r)
      case None
      then have "linear_scan fs (s_groups_count fs - 2) (parent + 1) = Some (Some g)"
        using assms p False r by (simp add: choose_file_group_def)
      then show ?thesis by (rule ls)
    next
      case (Some i)
      then have "i = g" using assms p False r by (simp add: choose_file_group_def)
      then show ?thesis using hs r Some by blast
    qed
  qed
qed

text \<open>The directory policy picks, of the groups with enough free inodes, one with most free blocks.\<close>

abbreviation roomy :: "ext2_fs \<Rightarrow> nat \<Rightarrow> nat \<Rightarrow> bool" where
  "roomy fs a h \<equiv> bg_free_inodes_count (desc_of fs h) \<noteq> 0 \<and> a \<le> unat (bg_free_inodes_count (desc_of fs h))"

definition best_upto :: "ext2_fs \<Rightarrow> nat \<Rightarrow> nat \<Rightarrow> (nat \<times> gd_ptr) option \<Rightarrow> bool" where
  "best_upto fs a j best \<longleftrightarrow> (case best of
     None \<Rightarrow> \<forall>h < j. \<not> roomy fs a h
   | Some (i, q) \<Rightarrow> i < j \<and> q = gdp fs i \<and> roomy fs a i \<and>
       (\<forall>h < j. roomy fs a h \<longrightarrow> bg_free_blocks_count (desc_of fs h) \<le> bg_free_blocks_count (desc_of fs i)))"

lemma dir_scan_best:
  assumes "gd_wf fs" and "j + n \<le> s_groups_count fs" and "best_upto fs a j best"
  shows "\<exists>r. dir_scan fs a n j best = Some r \<and> best_upto fs a (j + n) r"
  using assms(2,3)
proof (induction n arbitrary: j best)
  case (Suc n)
  have p: "get_group_desc fs j = Some (gdp fs j)" by (rule get_group_desc_wf [OF assms(1)]) (use Suc.prems in simp)
  define best' where "best' = (if roomy fs a j then (case best of None \<Rightarrow> Some (j, gdp fs j)
      | Some (i, q) \<Rightarrow> if bg_free_blocks_count (desc_of fs j) > bg_free_blocks_count (gd_at fs q) then Some (j, gdp fs j) else best)
      else best)"
  have step: "dir_scan fs a (Suc n) j best = dir_scan fs a n (Suc j) best'"
    by (simp add: p best'_def)
  have "best_upto fs a (Suc j) best'"
  proof (cases best)
    case None
    then show ?thesis using Suc.prems(2) by (auto simp: best'_def best_upto_def less_Suc_eq)
  next
    case (Some iq)
    obtain i q where iq: "iq = (i, q)" by (cases iq)
    have b: "i < j" "q = gdp fs i" "roomy fs a i"
      "\<And>h. h < j \<Longrightarrow> roomy fs a h \<Longrightarrow> bg_free_blocks_count (desc_of fs h) \<le> bg_free_blocks_count (desc_of fs i)"
      using Suc.prems(2) Some iq by (auto simp: best_upto_def)
    show ?thesis
    proof (cases "roomy fs a j \<and> bg_free_blocks_count (desc_of fs j) > bg_free_blocks_count (desc_of fs i)")
      case True
      then have "best' = Some (j, gdp fs j)" using Some iq b(2) by (simp add: best'_def)
      moreover have "bg_free_blocks_count (desc_of fs h) \<le> bg_free_blocks_count (desc_of fs j)"
        if "h < Suc j" "roomy fs a h" for h
      proof (cases "h = j")
        case False
        then have "bg_free_blocks_count (desc_of fs h) \<le> bg_free_blocks_count (desc_of fs i)" using b(4) that by simp
        then show ?thesis using True by (meson less_imp_le order_trans)
      qed simp
      ultimately show ?thesis using True by (simp add: best_upto_def)
    next
      case False
      then have e: "best' = Some (i, q)" using Some iq b(2) by (auto simp: best'_def)
      have "bg_free_blocks_count (desc_of fs h) \<le> bg_free_blocks_count (desc_of fs i)"
        if "h < Suc j" "roomy fs a h" for h
        using that False b(4) by (cases "h = j") (auto simp: not_less)
      then show ?thesis using b(1-3) by (simp add: best_upto_def e)
    qed
  qed
  then obtain r where "dir_scan fs a n (Suc j) best' = Some r" "best_upto fs a (Suc j + n) r"
    using Suc.IH [of "Suc j" best'] Suc.prems(1) by auto
  then show ?case unfolding step by auto
qed simp

lemma choose_dir_group_best:
  assumes "gd_wf fs"
  defines "a \<equiv> unat (s_free_inodes_count fs) div s_groups_count fs"
  shows "\<exists>r. choose_dir_group fs = Some r \<and> (case r of
     None \<Rightarrow> \<forall>h < s_groups_count fs. \<not> roomy fs a h
   | Some i \<Rightarrow> i < s_groups_count fs \<and> roomy fs a i \<and>
       (\<forall>h < s_groups_count fs. roomy fs a h \<longrightarrow> bg_free_blocks_count (desc_of fs h) \<le> bg_free_blocks_count (desc_of fs i)))"
proof -
  obtain r where r: "dir_scan fs a (s_groups_count fs) 0 None = Some r" "best_upto fs a (s_groups_count fs) r"
    using dir_scan_best [OF assms(1), of 0 "s_groups_count fs" a None] by (auto simp: best_upto_def)
  then show ?thesis
    by (cases r) (auto simp: choose_dir_group_def a_def [symmetric] best_upto_def)
qed

lemma choose_group_free:
  assumes "gd_wf fs" and "choose_group mode parent fs = Some (Some g)"
  shows "g < s_groups_count fs" and "bg_free_inodes_count (desc_of fs g) \<noteq> 0"
proof -
  have "g < s_groups_count fs \<and> bg_free_inodes_count (desc_of fs g) \<noteq> 0"
  proof (cases "S_ISDIR mode")
    case True
    then have "choose_dir_group fs = Some (Some g)" using assms(2) by (simp add: choose_group_def)
    then show ?thesis using choose_dir_group_best [OF assms(1)] by simp
  next
    case False
    then show ?thesis using assms(2) choose_file_group_free by (simp add: choose_group_def)
  qed
  then show "g < s_groups_count fs" and "bg_free_inodes_count (desc_of fs g) \<noteq> 0" by simp_all
qed

section \<open>The search for a bit\<close>

text \<open>
  With 32 dividing the number of inodes per group the bit found is clear, so the search never
  repeats: either nothing was found and only caches changed, or one clear bit was set.
\<close>

lemma find_inode_bit_spec:
  assumes ok: "ialloc_ok fs" and r: "find_inode_bit mode parent fs = Some (r, fs')"
  shows "case r of
     None \<Rightarrow> s_group_desc fs' = s_group_desc fs \<and> b_data fs' = b_data fs \<and> layout fs' = layout fs \<and>
       s_free_inodes_count fs' = s_free_inodes_count fs \<and> s_free_blocks_count fs' = s_free_blocks_count fs \<and>
       cache_wf (s_groups_count fs) (imap_no fs) (inode_cache fs') \<and>
       (choose_group mode parent fs = Some None \<or> (\<exists>g. choose_group mode parent fs = Some (Some g) \<and>
          (\<forall>k < s_inodes_per_group fs. iused fs g k)))
   | Some (g, k) \<Rightarrow> choose_group mode parent fs = Some (Some g) \<and> k < s_inodes_per_group fs \<and> \<not> iused fs g k \<and>
       (\<exists>bs c D W C. b_data fs (imap_no fs g) = Some bs \<and> k div 8 < length bs \<and>
          cache_wf (s_groups_count fs) (imap_no fs) c \<and>
          fs' = fs\<lparr>b_data := (b_data fs)(imap_no fs g \<mapsto> poke_bit True k bs), inode_cache := c,
                    b_dirt := D, b_written := W, b_count := C\<rparr>)"
proof (cases "choose_group mode parent fs")
  case None
  then show ?thesis using r by (simp add: find_inode_bit.simps [of mode parent fs])
next
  case (Some cg)
  note wf = ialloc_okD(3) [OF ok]
  show ?thesis
  proof (cases cg)
    case None
    then have "r = None \<and> fs' = fs" using r Some by (auto simp: find_inode_bit.simps [of mode parent fs])
    moreover have "cache_wf (s_groups_count fs) (imap_no fs) (inode_cache fs)"
      using ialloc_okD(2) [OF ok] by (simp add: ino.ready_def)
    ultimately show ?thesis using Some None by simp
  next
    case (Some g)
    have cg: "choose_group mode parent fs = Some (Some g)" using \<open>choose_group mode parent fs = Some cg\<close> Some by simp
    note g = choose_group_free [OF wf cg]
    obtain c n where gb: "group_inode_bitmap g fs = Some (imap_no fs g, fs\<lparr>b_count := n, inode_cache := c\<rparr>)"
      and rdy: "ino.ready (fs\<lparr>b_count := n, inode_cache := c\<rparr>)"
      using group_inode_bitmap_ok [OF ok g(1)] .
    note cw = ready_cache [OF rdy]
    let ?fs1 = "fs\<lparr>b_count := n, inode_cache := c\<rparr>"
    obtain bs where bs: "b_data fs (imap_no fs g) = Some bs" using ialloc_okD(4) [OF ok g(1)] by blast
    define j where "j = find_first_zero_bit (rd32 bs) (s_inodes_per_group fs)"
    have fz: "first_zero (\<lambda>k. test_bit k bs) 0 (s_inodes_per_group fs) j"
      unfolding j_def by (rule find_first_zero_bit_spec) (use ialloc_okD(1) [OF ok] in \<open>simp add: igeom_def\<close>)
    have iu: "iused fs g k = test_bit k bs" for k by (simp add: iused_def bs)
    note unfolded = r [unfolded find_inode_bit.simps [of mode parent fs] cg bind.bind_lunit option.case gb prod.case]
    show ?thesis
    proof (cases "j < s_inodes_per_group fs")
      case True
      have free: "\<not> test_bit j bs" using fz True by (simp add: first_zero_def)
      have jl: "j div 8 < length bs"
        using ialloc_okD(5) [OF ok g(1)] bs True by (simp add: less_mult_imp_div_less mult.commute)
      have sb: "set_bit j bs = Some (False, poke_bit True j bs)" using free jl by (simp add: set_bit_def)
      let ?fs2 = "mark_buffer_dirty (imap_no fs g) (?fs1\<lparr>b_data := (b_data fs)(imap_no fs g \<mapsto> poke_bit True j bs)\<rparr>)"
      obtain D W where sync: "(if s_flags ?fs2 AND MS_SYNCHRONOUS \<noteq> 0
          then ll_rw_block_write (imap_no fs g) ?fs2 else ?fs2) = ?fs2\<lparr>b_dirt := D, b_written := W\<rparr>"
        using sync_write by blast
      have "r = Some (g, j) \<and> fs' = ?fs2\<lparr>b_dirt := D, b_written := W\<rparr>"
        using unfolded True by (simp add: bs j_def [symmetric] sb Let_def sync [simplified])
      then have res: "r = Some (g, j)" and fs': "fs' = fs\<lparr>b_data := (b_data fs)(imap_no fs g \<mapsto> poke_bit True j bs),
          inode_cache := c, b_dirt := D, b_written := W, b_count := n\<rparr>"
        by (simp_all add: mark_buffer_dirty_def)
      have "\<exists>bs c D W C. b_data fs (imap_no fs g) = Some bs \<and> j div 8 < length bs \<and>
          cache_wf (s_groups_count fs) (imap_no fs) c \<and>
          fs' = fs\<lparr>b_data := (b_data fs)(imap_no fs g \<mapsto> poke_bit True j bs), inode_cache := c,
                    b_dirt := D, b_written := W, b_count := C\<rparr>"
        using bs jl cw fs' by blast
      then show ?thesis unfolding res using cg True free iu by simp
    next
      case False
      have dsc: "desc_of ?fs1 h = desc_of fs h" for h by (rule desc_of_cong) simp_all
      have wf1: "gd_wf ?fs1" using wf by (simp add: gd_wf_def)
      have p: "get_group_desc ?fs1 g = Some (gdp ?fs1 g)" by (rule get_group_desc_wf [OF wf1]) (use g in simp)
      have "Option.bind (ext2_error ?fs1) (\<lambda>fs. Some (None, fs)) = Some (r, fs')"
        using unfolded False g(2) by (simp add: bs j_def [symmetric] p dsc)
      then have e: "ext2_error ?fs1 = Some fs'" and res: "r = None"
        by (auto simp: bind_eq_Some_conv)
      have all: "\<forall>k < s_inodes_per_group fs. iused fs g k"
        using fz False by (auto simp: first_zero_def iu)
      have "s_group_desc fs' = s_group_desc fs \<and> b_data fs' = b_data fs \<and> layout fs' = layout fs \<and>
          s_free_inodes_count fs' = s_free_inodes_count fs \<and> s_free_blocks_count fs' = s_free_blocks_count fs \<and> inode_cache fs' = c"
        using e by (auto simp: ext2_error_def Let_def layout_def mark_buffer_dirty_def split: if_splits)
      then show ?thesis unfolding res using cg all cw by simp
    qed
  qed
qed

section \<open>The new inode\<close>

lemma inc_inode_version_ok:
  assumes "b_data fs (inode_block fs (i_ino inode) gd) = Some bs" and "raw_in_buffer (table_offset fs (i_ino inode)) bs"
  defines "v \<equiv> get32 (table_offset fs (i_ino inode) + 100) bs + 1"
  shows "\<exists>D C. inc_inode_version inode gd fs = Some (inode\<lparr>e_version := v\<rparr>,
    fs\<lparr>b_data := (b_data fs)(inode_block fs (i_ino inode) gd \<mapsto> put32 (table_offset fs (i_ino inode) + 100) v bs),
       b_dirt := D, b_count := C\<rparr>)"
proof -
  let ?b = "inode_block fs (i_ino inode) gd" and ?off = "table_offset fs (i_ino inode)"
  let ?fs = "fs\<lparr>b_count := (b_count fs)(?b := Suc (b_count fs ?b))\<rparr>"
  have br: "bread ?b fs = (Some ?b, ?fs)" by (rule bread_ok) (simp add: assms(1))
  have off: "table_offset ?fs (i_ino inode) = ?off" by (simp add: table_offset_def)
  have "inc_inode_version inode gd fs = Some (inode\<lparr>e_version := v\<rparr>,
      brelse (Some ?b) (mark_buffer_dirty ?b (?fs\<lparr>b_data := (b_data fs)(?b \<mapsto> put32 (?off + 100) v bs)\<rparr>)))"
    unfolding inc_inode_version_def br using assms(1,2) by (simp add: off v_def Let_def)
  then show ?thesis
    by (intro exI [where x = "(b_dirt fs)(?b := True)"] exI [where x = "b_count fs"])
      (simp add: brelse_def mark_buffer_dirty_def)
qed

lemma take_inode_desc_simps [simp]:
  "bg_block_bitmap (take_inode_desc mode gd) = bg_block_bitmap gd"
  "bg_inode_bitmap (take_inode_desc mode gd) = bg_inode_bitmap gd"
  "bg_inode_table (take_inode_desc mode gd) = bg_inode_table gd"
  "bg_free_blocks_count (take_inode_desc mode gd) = bg_free_blocks_count gd"
  "bg_free_inodes_count (take_inode_desc mode gd) = bg_free_inodes_count gd - 1"
  "bg_used_dirs_count (take_inode_desc mode gd) = bg_used_dirs_count gd + (if S_ISDIR mode then 1 else 0)"
  by (simp_all add: take_inode_desc_def Let_def)

lemma init_inode_simps [simp]:
  "i_ino (init_inode fs now dir mode ino g blank) = ino"
  "i_mode (init_inode fs now dir mode ino g blank) = mode"
  "i_nlink (init_inode fs now dir mode ino g blank) = 1"
  "i_blocks (init_inode fs now dir mode ino g blank) = 0"
  "i_dirt (init_inode fs now dir mode ino g blank)"
  by (simp_all add: init_inode_def Let_def)

lemma finish_inode_effect:
  assumes wf: "gd_wf fs" and g: "g < s_groups_count fs" and r: "finish_inode blank now dir mode prev g k fs = Some (Some i, fs')"
    and b: "b_data fs (inode_block fs (ino_no fs g k) (desc_of fs g)) = Some tbs"
    and raw: "raw_in_buffer (table_offset fs (ino_no fs g k)) tbs"
  shows "EXT2_FIRST_INO \<le> ino_no fs g k \<and> ino_no fs g k \<le> s_inodes_count fs \<and>
    (\<exists>v D C. i = (init_inode fs now dir mode (ino_no fs g k) g blank)\<lparr>e_version := v\<rparr> \<and>
      fs' = fs\<lparr>s_lock := False, s_dirt := True, s_free_inodes_count := s_free_inodes_count fs - 1,
        s_group_desc := table_upd (gdp fs g) (take_inode_desc mode) (s_group_desc fs),
        b_data := (b_data fs)(inode_block fs (ino_no fs g k) (desc_of fs g) \<mapsto>
          put32 (table_offset fs (ino_no fs g k) + 100) v tbs), b_dirt := D, b_count := C\<rparr>)"
proof -
  define ino where "ino = ino_no fs g k"
  note inoe = ino_def [unfolded ino_no_def, symmetric]
  have c: "\<not> (ino < EXT2_FIRST_INO \<or> ino > s_inodes_count fs)"
  proof
    assume "ino < EXT2_FIRST_INO \<or> ino > s_inodes_count fs"
    then show False using r by (auto simp: finish_inode_def inoe Let_def bind_eq_Some_conv)
  qed
  have p: "get_group_desc fs g = Some (gdp fs g)" by (rule get_group_desc_wf [OF wf g])
  obtain p2 where p2: "get_group_desc fs prev = Some p2"
    using r c p by (cases "get_group_desc fs prev") (auto simp: finish_inode_def inoe Let_def)
  define fs1 where "fs1 = (mark_buffer_dirty (s_sbh fs) ((mark_buffer_dirty (gd_bh (gd_upd (gdp fs g) (take_inode_desc mode) fs) p2)
      (gd_upd (gdp fs g) (take_inode_desc mode) fs))\<lparr>s_free_inodes_count := s_free_inodes_count fs - 1\<rparr>))\<lparr>s_dirt := True\<rparr>"
  define D where "D = b_dirt fs1"
  have fs1: "fs1 = fs\<lparr>s_dirt := True, s_free_inodes_count := s_free_inodes_count fs - 1,
      s_group_desc := table_upd (gdp fs g) (take_inode_desc mode) (s_group_desc fs), b_dirt := D\<rparr>"
    unfolding D_def by (simp add: fs1_def gd_upd_table mark_buffer_dirty_def)
  let ?i = "init_inode fs1 now dir mode ino g blank"
  have ii: "?i = init_inode fs now dir mode ino g blank" by (simp add: fs1 init_inode_def test_opt_def Let_def)
  have gda: "gd_at fs1 (gdp fs g) = take_inode_desc mode (desc_of fs g)"
    unfolding gd_at_def [of fs1] using table_upd_at [OF wf g, of "take_inode_desc mode" g] by (simp add: fs1)
  have ib: "inode_block fs1 ino (take_inode_desc mode (desc_of fs g)) = inode_block fs ino (desc_of fs g)"
    and off: "table_offset fs1 ino = table_offset fs ino"
    by (simp_all add: inode_block_def table_offset_def fs1)
  have bd: "b_data fs1 = b_data fs" by (simp add: fs1)
  define v where "v = get32 (table_offset fs ino + 100) tbs + 1"
  obtain D' C where v: "inc_inode_version ?i (take_inode_desc mode (desc_of fs g)) fs1 = Some (?i\<lparr>e_version := v\<rparr>,
      fs1\<lparr>b_data := (b_data fs)(inode_block fs ino (desc_of fs g) \<mapsto> put32 (table_offset fs ino + 100) v tbs), b_dirt := D', b_count := C\<rparr>)"
    using inc_inode_version_ok [of fs1 ?i "take_inode_desc mode (desc_of fs g)" tbs,
        unfolded init_inode_simps ib off bd, OF b [folded ino_def] raw [folded ino_def], folded v_def] by blast
  have "finish_inode blank now dir mode prev g k fs = do {
      (inode, fs) \<leftarrow> inc_inode_version ?i (gd_at fs1 (gdp fs g)) fs1; Some (Some inode, unlock_super fs) }"
    unfolding finish_inode_def Let_def inoe if_not_P [OF c] p p2 bind.bind_lunit fs1_def
    by (simp add: mark_buffer_dirty_def gd_upd_table)
  then have res: "i = ?i\<lparr>e_version := v\<rparr> \<and> fs' = unlock_super (fs1\<lparr>b_data := (b_data fs)(inode_block fs ino (desc_of fs g) \<mapsto>
      put32 (table_offset fs ino + 100) v tbs), b_dirt := D', b_count := C\<rparr>)"
    using r v by (simp add: gda)
  have "i = (init_inode fs now dir mode ino g blank)\<lparr>e_version := v\<rparr>"
    using conjunct1 [OF res] unfolding ii .
  moreover have "fs' = fs\<lparr>s_lock := False, s_dirt := True, s_free_inodes_count := s_free_inodes_count fs - 1,
        s_group_desc := table_upd (gdp fs g) (take_inode_desc mode) (s_group_desc fs),
        b_data := (b_data fs)(inode_block fs ino (desc_of fs g) \<mapsto>
          put32 (table_offset fs ino + 100) v tbs), b_dirt := D', b_count := C\<rparr>"
    unfolding conjunct2 [OF res] by (simp add: fs1 unlock_super_def)
  ultimately show ?thesis using c unfolding ino_def by (metis not_less)
qed

section \<open>The whole operation\<close>

definition inode_rel :: "ext2_fs \<Rightarrow> u16 \<Rightarrow> nat \<Rightarrow> nat \<Rightarrow> ext2_fs \<Rightarrow> bool" where
  "inode_rel fs mode g k fs' \<longleftrightarrow> layout fs' = layout fs \<and> ino.ready fs' \<and> \<not> s_lock fs' \<and>
     (\<forall>h. desc_of fs' h = (if h = g then take_inode_desc mode (desc_of fs g) else desc_of fs h)) \<and>
     s_free_inodes_count fs' = s_free_inodes_count fs - 1 \<and>
     (\<forall>h < s_groups_count fs. \<forall>m. iused fs' h m = (iused fs h m \<or> h = g \<and> m = k)) \<and>
     (\<forall>c. map_option length (b_data fs' c) = map_option length (b_data fs c)) \<and>
     (\<forall>c. c \<noteq> imap_no fs g \<longrightarrow> c \<noteq> table_block fs g (k div s_inodes_per_block fs) \<longrightarrow> b_data fs' c = b_data fs c)"

lemma inode_relD:
  assumes "inode_rel fs mode g k fs'"
  shows "layout fs' = layout fs" and "ino.ready fs'" and "\<not> s_lock fs'"
    and "\<And>h. desc_of fs' h = (if h = g then take_inode_desc mode (desc_of fs g) else desc_of fs h)"
    and "s_free_inodes_count fs' = s_free_inodes_count fs - 1"
    and "\<And>h m. h < s_groups_count fs \<Longrightarrow> iused fs' h m = (iused fs h m \<or> h = g \<and> m = k)"
    and "\<And>c. map_option length (b_data fs' c) = map_option length (b_data fs c)"
    and "\<And>c. c \<noteq> imap_no fs g \<Longrightarrow> c \<noteq> table_block fs g (k div s_inodes_per_block fs) \<Longrightarrow> b_data fs' c = b_data fs c"
  using assms unfolding inode_rel_def by blast+

lemma inode_rel_ok:
  assumes ok: "ialloc_ok fs" and r: "inode_rel fs mode g k fs'"
  shows "ialloc_ok fs'"
proof -
  note lay = layoutD [OF inode_relD(1) [OF r]]
  have im: "imap_no fs' h = imap_no fs h" "table_block fs' h m = table_block fs h m" for h m
    unfolding table_block_def using inode_relD(4) [OF r, of h] by simp_all
  have geo: "igeom fs' = igeom fs" by (simp add: igeom_def lay)
  have len: "length (the (b_data fs' c)) = length (the (b_data fs c))" if "b_data fs c \<noteq> None" for c
    using inode_relD(7) [OF r, of c] that by auto
  have tab: "\<exists>bs. b_data fs' (table_block fs h (m div s_inodes_per_block fs)) = Some bs \<and>
      RAW_INODE_SIZE * s_inodes_per_block fs \<le> length bs"
    if "h < s_groups_count fs" "m < s_inodes_per_group fs" for h m
    using ialloc_okD(7) [OF ok that] inode_relD(7) [OF r, of "table_block fs h (m div s_inodes_per_block fs)"] by auto
  have cov: "s_inodes_per_group fs \<le> 8 * length (the (b_data fs' (imap_no fs h)))" if "h < s_groups_count fs" for h
    using ialloc_okD(5) [OF ok that] len [OF ialloc_okD(4) [OF ok that]] by simp
  have res: "iused fs' 0 m" if m: "m < 10" for m
    using inode_relD(6) [OF r, of 0 m] ialloc_okD(1) [OF ok] ialloc_okD(9) [OF ok m] by (simp add: igeom_def)
  show ?thesis
    unfolding ialloc_ok_def geo lay im
    using ialloc_okD(1,6,8) [OF ok] inode_relD(2) [OF r] cov tab res by blast
qed


lemma inode_rel_counts:
  assumes c: "icounts_ok fs" and r: "inode_rel fs mode g k fs'" and g: "g < s_groups_count fs"
    and k: "k < s_inodes_per_group fs" "\<not> iused fs g k"
  shows "icounts_ok fs'"
proof -
  note lay = layoutD [OF inode_relD(1) [OF r]]
  have f: "ifree_in fs' h + (if h = g then 1 else 0) = ifree_in fs h" if h: "h < s_groups_count fs" for h
  proof (cases "h = g")
    case True
    have "iused fs' g = (iused fs g)(k := True)" using inode_relD(6) [OF r h] True by (auto simp: fun_eq_iff)
    then show ?thesis using zeros_upd_True [of k "s_inodes_per_group fs" "iused fs g"] k True lay(8) by simp
  next
    case False
    then have "iused fs' h = iused fs h" using inode_relD(6) [OF r h] by (auto simp: fun_eq_iff)
    then show ?thesis using False lay(8) by simp
  qed
  have sum: "(\<Sum>h < s_groups_count fs. ifree_in fs' h) + 1 = (\<Sum>h < s_groups_count fs. ifree_in fs h)"
    by (rule sum_single [OF g]) (use f in simp)
  have one: "unat (w - 1) = unat w - 1" if "1 \<le> unat w" for w :: "'b::len word"
    using unat_sub_of_nat [of 1 w] that by simp
  have "unat (bg_free_inodes_count (desc_of fs' h)) = ifree_in fs' h" if h: "h < s_groups_count fs" for h
  proof (cases "h = g")
    case True
    have "unat (bg_free_inodes_count (desc_of fs g)) = ifree_in fs g" using c g by (simp add: icounts_ok_def)
    moreover have "ifree_in fs' g + 1 = ifree_in fs g" using f [OF g] by simp
    ultimately show ?thesis
      using True one [of "bg_free_inodes_count (desc_of fs g)"] inode_relD(4) [OF r, of g] by simp
  next
    case False
    then show ?thesis using c h f [OF h] inode_relD(4) [OF r, of h] by (simp add: icounts_ok_def)
  qed
  moreover have "unat (s_free_inodes_count fs') = (\<Sum>h < s_groups_count fs. ifree_in fs' h)"
  proof -
    have "unat (s_free_inodes_count fs) = (\<Sum>h < s_groups_count fs. ifree_in fs h)" using c by (simp add: icounts_ok_def)
    then show ?thesis using sum one [of "s_free_inodes_count fs"] inode_relD(5) [OF r] by simp
  qed
  ultimately show ?thesis unfolding icounts_ok_def lay by simp
qed

text \<open>Views that a change of locks, caches and buffer flags leaves alone.\<close>

definition same_iviews :: "ext2_fs \<Rightarrow> ext2_fs \<Rightarrow> bool" where
  "same_iviews fs fs' \<longleftrightarrow> layout fs' = layout fs \<and> s_group_desc fs' = s_group_desc fs \<and> b_data fs' = b_data fs \<and>
     s_free_inodes_count fs' = s_free_inodes_count fs"

lemma same_iviewsD:
  assumes "same_iviews fs fs'"
  shows "layout fs' = layout fs" and "s_group_desc fs' = s_group_desc fs" and "b_data fs' = b_data fs"
    and "s_free_inodes_count fs' = s_free_inodes_count fs" and "desc_of fs' h = desc_of fs h"
    and "iused fs' h k = iused fs h k" and "table_block fs' h m = table_block fs h m" and "igeom fs' = igeom fs"
    and "gd_wf fs' = gd_wf fs"
proof -
  show l: "layout fs' = layout fs" and g: "s_group_desc fs' = s_group_desc fs" and d: "b_data fs' = b_data fs"
    and "s_free_inodes_count fs' = s_free_inodes_count fs"
    using assms by (simp_all add: same_iviews_def)
  show dsc: "desc_of fs' h = desc_of fs h" for h by (rule desc_of_cong) (simp_all add: g layoutD [OF l])
  show "iused fs' h k = iused fs h k" and "table_block fs' h m = table_block fs h m" and "igeom fs' = igeom fs"
    by (simp_all add: iused_def table_block_def igeom_def dsc d layoutD [OF l])
  show "gd_wf fs' = gd_wf fs" by (rule gd_wf_cong) (simp_all add: g layoutD [OF l])
qed

lemma same_iviews_ok:
  assumes ok: "ialloc_ok fs" and v: "same_iviews fs fs'"
    and c: "cache_wf (s_groups_count fs) (imap_no fs) (inode_cache fs')"
  shows "ialloc_ok fs'"
proof -
  note lay = layoutD [OF same_iviewsD(1) [OF v]]
  have "ino.ready fs'"
    using ialloc_okD(2) [OF ok] c unfolding ino.ready_def same_iviewsD(3,5,9) [OF v] lay by simp
  then show ?thesis
    using ok unfolding ialloc_ok_def same_iviewsD(3,5-8) [OF v] lay by blast
qed

lemma same_iviews_counts:
  assumes v: "same_iviews fs fs'"
  shows "icounts_ok fs' = icounts_ok fs"
proof -
  note lay = layoutD [OF same_iviewsD(1) [OF v]]
  have "iused fs' h = iused fs h" for h using same_iviewsD(6) [OF v] by blast
  then show ?thesis unfolding icounts_ok_def same_iviewsD(4,5) [OF v] lay by simp
qed

lemma same_iviews_rel:
  assumes v: "same_iviews fs fs1" and r: "inode_rel fs1 mode g k fs'"
  shows "inode_rel fs mode g k fs'"
proof -
  note lay = layoutD [OF same_iviewsD(1) [OF v]]
  show ?thesis
    using r unfolding inode_rel_def same_iviewsD(3-7) [OF v] lay same_iviewsD(1) [OF v] .
qed

lemma new_inode_cases:
  assumes ok: "ialloc_ok fs" and r: "ext2_new_inode (Some blank) now dir mode fs = Some (res, fs')"
  shows "case res of
     None \<Rightarrow> same_iviews fs fs' \<and> cache_wf (s_groups_count fs) (imap_no fs) (inode_cache fs') \<and> \<not> s_lock fs'
   | Some i \<Rightarrow> \<exists>g k v. g < s_groups_count fs \<and> k < s_inodes_per_group fs \<and> \<not> iused fs g k \<and>
       EXT2_FIRST_INO \<le> ino_no fs g k \<and>
       i = (init_inode fs now dir mode (ino_no fs g k) g blank)\<lparr>e_version := v\<rparr> \<and> inode_rel fs mode g k fs'"
proof -
  let ?fs0 = "lock_super fs"
  have v0: "same_iviews fs ?fs0" by (simp add: same_iviews_def lock_super_def layout_def)
  have c0: "cache_wf (s_groups_count fs) (imap_no fs) (inode_cache ?fs0)"
    using ialloc_okD(2) [OF ok] by (simp add: ino.ready_def lock_super_def)
  have ok0: "ialloc_ok ?fs0" by (rule same_iviews_ok [OF ok v0 c0])
  note lay0 = layoutD [OF same_iviewsD(1) [OF v0]]
  obtain q fs1 where q: "find_inode_bit mode (unat (e_block_group dir)) ?fs0 = Some (q, fs1)"
    using r by (cases "find_inode_bit mode (unat (e_block_group dir)) ?fs0") (auto simp: ext2_new_inode_def)
  note sp = find_inode_bit_spec [OF ok0 q]
  show ?thesis
  proof (cases q)
    case None
    then have e: "res = None" "fs' = unlock_super fs1" using r q by (auto simp: ext2_new_inode_def)
    have "same_iviews ?fs0 fs1" "cache_wf (s_groups_count ?fs0) (imap_no ?fs0) (inode_cache fs1)"
      using sp None by (auto simp: same_iviews_def)
    then have "same_iviews fs fs1" "cache_wf (s_groups_count fs) (imap_no fs) (inode_cache fs1)"
      using v0 same_iviewsD(5) [OF v0] lay0 by (simp_all add: same_iviews_def)
    then show ?thesis unfolding e by (simp add: same_iviews_def layout_def unlock_super_def)
  next
    case (Some gk)
    obtain g k where gk: "gk = (g, k)" by (cases gk)
    have cg: "choose_group mode (unat (e_block_group dir)) ?fs0 = Some (Some g)" and k0: "k < s_inodes_per_group ?fs0"
      and free0: "\<not> iused ?fs0 g k"
      using sp Some gk by auto
    obtain bs c D W C where bs: "b_data ?fs0 (imap_no ?fs0 g) = Some bs" "k div 8 < length bs"
      and cw: "cache_wf (s_groups_count ?fs0) (imap_no ?fs0) c"
      and fs1: "fs1 = ?fs0\<lparr>b_data := (b_data ?fs0)(imap_no ?fs0 g \<mapsto> poke_bit True k bs), inode_cache := c,
          b_dirt := D, b_written := W, b_count := C\<rparr>"
      using sp Some gk by auto
    note g0 = choose_group_free [OF ialloc_okD(3) [OF ok0] cg]
    have g: "g < s_groups_count fs" and k: "k < s_inodes_per_group fs" and free: "\<not> iused fs g k"
      using g0(1) k0 free0 lay0 same_iviewsD(6) [OF v0] by simp_all
    have dsc1: "desc_of fs1 h = desc_of fs h" for h
      by (rule desc_of_cong) (simp_all add: fs1 lock_super_def)
    have wf1: "gd_wf fs1" using ialloc_okD(3) [OF ok] by (simp add: gd_wf_def fs1 lock_super_def)
    define prev where "prev = (if S_ISDIR mode then s_groups_count fs1 - 1 else g)"
    have fin: "finish_inode blank now dir mode prev g k fs1 = Some (res, fs')"
      using r q Some gk by (simp add: ext2_new_inode_def prev_def)
    have ino: "ino_no fs1 g k = ino_no fs g k" by (simp add: ino_no_def fs1 lock_super_def)
    have igeo: "igeom fs" by (rule ialloc_okD(1) [OF ok])
    note num = ino_no_facts [OF igeo g k]
    let ?tb = "table_block fs g (k div s_inodes_per_block fs)"
    have ib: "inode_block fs1 (ino_no fs1 g k) (desc_of fs1 g) = ?tb"
      unfolding ino dsc1 using num(4) by (simp add: inode_block_def table_block_def fs1 lock_super_def)
    have off: "table_offset fs1 (ino_no fs1 g k) = RAW_INODE_SIZE * (k mod s_inodes_per_block fs)"
      unfolding ino using num(4) by (simp add: table_offset_def fs1 lock_super_def)
    obtain tbs where tbs: "b_data fs ?tb = Some tbs" "RAW_INODE_SIZE * s_inodes_per_block fs \<le> length tbs"
      using ialloc_okD(7) [OF ok g k] by blast
    have ntb: "?tb \<noteq> imap_no fs h" if "h < s_groups_count fs" for h using ialloc_okD(8) [OF ok g k that] .
    have imd: "imap_no ?fs0 g = imap_no fs g" by (simp add: same_iviewsD(5) [OF v0])
    have d1: "b_data fs1 = (b_data fs)(imap_no fs g \<mapsto> poke_bit True k bs)"
      unfolding fs1 imd by (simp add: lock_super_def)
    have tbs1: "b_data fs1 (inode_block fs1 (ino_no fs1 g k) (desc_of fs1 g)) = Some tbs"
      unfolding ib d1 using tbs(1) ntb [OF g] by simp
    have raw: "raw_in_buffer (table_offset fs1 (ino_no fs1 g k)) tbs"
    proof -
      have "Suc (k mod s_inodes_per_block fs) \<le> s_inodes_per_block fs" using igeo by (simp add: igeom_def Suc_le_eq)
      then have "RAW_INODE_SIZE * Suc (k mod s_inodes_per_block fs) \<le> RAW_INODE_SIZE * s_inodes_per_block fs"
        by (rule mult_le_mono2)
      then show ?thesis unfolding off using tbs(2) by (simp add: raw_in_buffer_def)
    qed
    have first: "EXT2_FIRST_INO \<le> ino_no fs g k"
    proof (rule ccontr)
      assume "\<not> EXT2_FIRST_INO \<le> ino_no fs g k"
      then have "unat (ino_no fs g k) < 11" by (simp add: word_le_nat_alt EXT2_FIRST_INO_def)
      then have lt: "k + g * s_inodes_per_group fs < 10" using num(2) by simp
      have "32 \<le> s_inodes_per_group fs" using igeo by (auto simp: igeom_def elim!: dvdE)
      then have "g = 0" using lt by (cases g) auto
      then show False using lt free ialloc_okD(9) [OF ok, of k] by simp
    qed
    have ninv: "\<not> (ino_no fs1 g k < EXT2_FIRST_INO \<or> ino_no fs1 g k > s_inodes_count fs1)"
      unfolding ino using first num(5) by (simp add: fs1 lock_super_def not_less)
    obtain i where i: "res = Some i"
      using fin ninv unfolding finish_inode_def Let_def ino_no_def [symmetric]
      by (auto simp: bind_eq_Some_conv)
    have g1: "g < s_groups_count fs1" using g by (simp add: fs1 lock_super_def)
    obtain v D' C' where iv: "i = (init_inode fs1 now dir mode (ino_no fs1 g k) g blank)\<lparr>e_version := v\<rparr>"
      and fs': "fs' = fs1\<lparr>s_lock := False, s_dirt := True, s_free_inodes_count := s_free_inodes_count fs1 - 1,
        s_group_desc := table_upd (gdp fs1 g) (take_inode_desc mode) (s_group_desc fs1),
        b_data := (b_data fs1)(?tb \<mapsto> put32 (table_offset fs1 (ino_no fs1 g k) + 100) v tbs), b_dirt := D', b_count := C'\<rparr>"
      using finish_inode_effect [OF wf1 g1 fin [unfolded i] tbs1 raw] unfolding ib by blast
    have ii: "init_inode fs1 now dir mode (ino_no fs1 g k) g blank = init_inode fs now dir mode (ino_no fs g k) g blank"
      unfolding ino by (simp add: fs1 lock_super_def init_inode_def test_opt_def Let_def)
    have gd1: "gdp fs1 h = gdp fs h" and t1: "s_group_desc fs1 = s_group_desc fs" for h
      by (simp_all add: gdp_def fs1 lock_super_def)
    have gd': "gdp fs' h = gdp fs h" for h by (simp add: gdp_def fs' fs1 lock_super_def)
    have t': "s_group_desc fs' = table_upd (gdp fs g) (take_inode_desc mode) (s_group_desc fs)"
      unfolding fs' gd1 t1 by simp
    have desc: "desc_of fs' h = (if h = g then take_inode_desc mode (desc_of fs g) else desc_of fs h)" for h
      unfolding gd_at_def [of fs'] gd' t' using table_upd_at [OF ialloc_okD(3) [OF ok] g] .
    have lay: "layout fs' = layout fs" by (simp add: fs' fs1 lock_super_def layout_def)
    have im: "imap_no fs' h = imap_no fs h" for h by (simp add: desc)
    define off where "off = table_offset fs1 (ino_no fs1 g k)"
    have data: "b_data fs' = (b_data fs)(imap_no fs g \<mapsto> poke_bit True k bs, ?tb \<mapsto> put32 (off + 100) v tbs)"
      unfolding fs' off_def by (simp add: d1)
    have bsf: "b_data fs (imap_no fs g) = Some bs" using bs(1) imd by (simp add: lock_super_def)
    have us: "iused fs' h m = (iused fs h m \<or> h = g \<and> m = k)" if h: "h < s_groups_count fs" for h m
    proof (cases "h = g")
      case True
      then show ?thesis using ntb [OF g] bs(2) bsf by (auto simp: iused_def im data test_bit_poke_bit)
    next
      case False
      then have "imap_no fs h \<noteq> imap_no fs g" using ialloc_okD(6) [OF ok h g] by blast
      then show ?thesis using False ntb [OF h] by (auto simp: iused_def im data)
    qed
    have len: "map_option length (b_data fs' x) = map_option length (b_data fs x)" for x
      unfolding data using bsf tbs(1) by auto
    have other: "b_data fs' x = b_data fs x" if "x \<noteq> imap_no fs g" "x \<noteq> ?tb" for x
      unfolding data using that by simp
    have "ino.ready fs'"
      unfolding ino.ready_def im layoutD [OF lay]
    proof (intro conjI allI impI)
      show "gd_wf fs'" by (rule gd_wf_table [OF ialloc_okD(3) [OF ok] t' lay])
      have "inode_cache fs' = c" by (simp add: fs' fs1)
      moreover have "imap_no ?fs0 = imap_no fs" by (simp add: same_iviewsD(5) [OF v0])
      ultimately show "cache_wf (s_groups_count fs) (imap_no fs) (inode_cache fs')" using cw lay0(6) by simp
      show "b_data fs' (imap_no fs h) \<noteq> None" if "h < s_groups_count fs" for h
        using len [of "imap_no fs h"] ialloc_okD(4) [OF ok that] by auto
    qed
    moreover have "s_free_inodes_count fs' = s_free_inodes_count fs - 1" "\<not> s_lock fs'"
      by (simp_all add: fs' fs1 lock_super_def)
    ultimately have rel: "inode_rel fs mode g k fs'"
      using lay desc us len other unfolding inode_rel_def by blast
    show ?thesis unfolding i option.case using g k free first iv [unfolded ii] rel by blast
  qed
qed

subsection \<open>When it succeeds\<close>

lemma linear_scan_finds:
  assumes wf: "gd_wf fs" and i: "i < s_groups_count fs"
    and m: "0 < m" "m \<le> n" "bg_free_inodes_count (desc_of fs ((i + m) mod s_groups_count fs)) \<noteq> 0"
  shows "\<exists>g. linear_scan fs n i = Some (Some g)"
  using i m
proof (induction n arbitrary: i m)
  case (Suc n)
  define i' where "i' = (if Suc i \<ge> s_groups_count fs then 0 else Suc i)"
  have i': "i' < s_groups_count fs" using Suc.prems(1) by (auto simp: i'_def)
  have im: "i' = Suc i mod s_groups_count fs" using Suc.prems(1) by (auto simp: i'_def le_Suc_eq)
  have p: "get_group_desc fs i' = Some (gdp fs i')" by (rule get_group_desc_wf [OF wf i'])
  show ?case
  proof (cases "bg_free_inodes_count (desc_of fs i') \<noteq> 0")
    case True
    then show ?thesis using p by (simp add: i'_def [symmetric] Let_def)
  next
    case False
    then have "m \<noteq> 1" using Suc.prems(4) im by auto
    then have m1: "0 < m - 1" "m - 1 \<le> n" using Suc.prems by auto
    have "(i' + (m - 1)) mod s_groups_count fs = (Suc i + (m - 1)) mod s_groups_count fs"
      unfolding im by (simp only: mod_add_left_eq)
    then have "(i' + (m - 1)) mod s_groups_count fs = (i + m) mod s_groups_count fs"
      using Suc.prems(2) by simp
    then obtain g where "linear_scan fs n i' = Some (Some g)"
      using Suc.IH [OF i' m1] Suc.prems(4) by auto
    then show ?thesis using p False by (simp add: i'_def [symmetric] Let_def)
  qed
qed simp

lemma hash_scan_total:
  assumes "gd_wf fs" and "i < s_groups_count fs"
  shows "hash_scan fs j i \<noteq> None"
  using assms
proof (induction fs j i rule: hash_scan.induct)
  case (1 fs j i)
  define i' where "i' = (if i + j \<ge> s_groups_count fs then i + j - s_groups_count fs else i + j)"
  show ?case
  proof (cases "0 < j \<and> j < s_groups_count fs")
    case False
    then show ?thesis unfolding hash_scan.simps [of fs j i] if_not_P [OF False] by simp
  next
    case True
    then have i': "i' < s_groups_count fs" using "1.prems"(2) by (auto simp: i'_def)
    have p: "get_group_desc fs i' = Some (gdp fs i')" by (rule get_group_desc_wf [OF "1.prems"(1) i'])
    have st: "hash_scan fs j i = (if bg_free_inodes_count (desc_of fs i') \<noteq> 0 then Some (Some i') else hash_scan fs (2 * j) i')"
      using True p unfolding hash_scan.simps [of fs j i] i'_def [symmetric] Let_def by simp
    show ?thesis
    proof (cases "bg_free_inodes_count (desc_of fs i') \<noteq> 0")
      case False
      then have "hash_scan fs (2 * j) i' \<noteq> None"
        using "1.IH" [OF True i'_def p _ "1.prems"(1) i'] by simp
      then show ?thesis unfolding st using False by simp
    qed (simp add: st)
  qed
qed

lemma hash_scan_first:
  assumes wf: "gd_wf fs" and i: "i < s_groups_count fs" and n: "1 < s_groups_count fs"
    and f: "bg_free_inodes_count (desc_of fs ((i + 1) mod s_groups_count fs)) \<noteq> 0"
  shows "hash_scan fs 1 i = Some (Some ((i + 1) mod s_groups_count fs))"
proof -
  have e: "(if i + 1 \<ge> s_groups_count fs then i + 1 - s_groups_count fs else i + 1) = (i + 1) mod s_groups_count fs"
    using i by (auto simp: le_Suc_eq)
  have p: "get_group_desc fs ((i + 1) mod s_groups_count fs) = Some (gdp fs ((i + 1) mod s_groups_count fs))"
    by (rule get_group_desc_wf [OF wf]) (use n in simp)
  show ?thesis using n p f unfolding hash_scan.simps [of fs 1 i] e Let_def by simp
qed

text \<open>The file policy visits every group, unless the directory lies in the last of three or more.\<close>

lemma choose_file_group_finds:
  assumes wf: "gd_wf fs" and i: "i < s_groups_count fs" and h: "h < s_groups_count fs"
    and f: "bg_free_inodes_count (desc_of fs h) \<noteq> 0"
    and parent: "i + 1 < s_groups_count fs \<or> s_groups_count fs \<le> 2"
  shows "\<exists>g. choose_file_group fs i = Some (Some g)"
proof -
  let ?n = "s_groups_count fs"
  have p: "get_group_desc fs i = Some (gdp fs i)" by (rule get_group_desc_wf [OF wf i])
  obtain r where r: "hash_scan fs 1 i = Some r" using hash_scan_total [OF wf i] by blast
  have st: "choose_file_group fs i = (if bg_free_inodes_count (desc_of fs i) \<noteq> 0 then Some (Some i)
      else case r of Some i \<Rightarrow> Some (Some i) | None \<Rightarrow> linear_scan fs (?n - 2) (i + 1))"
    unfolding choose_file_group_def p r bind.bind_lunit by (cases r) simp_all
  show ?thesis
  proof (cases "bg_free_inodes_count (desc_of fs i) \<noteq> 0 \<or> r \<noteq> None")
    case True
    then show ?thesis unfolding st by auto
  next
    case False
    then have hi: "h \<noteq> i" using f by auto
    have n1: "1 < ?n" using hi h i by simp
    have "bg_free_inodes_count (desc_of fs ((i + 1) mod ?n)) = 0"
      using hash_scan_first [OF wf i n1] r False by auto
    then have h1: "h \<noteq> (i + 1) mod ?n" using f by metis
    have lt: "i + 1 < ?n"
    proof (rule ccontr)
      assume "\<not> i + 1 < ?n"
      then have "?n = 2" "i = 1" using parent n1 i by auto
      then show False using hi h1 h by auto
    qed
    define m where "m = (if i + 1 < h then h - (i + 1) else h + ?n - (i + 1))"
    have "h \<noteq> i + 1" using h1 lt by simp
    then have m: "0 < m" "m \<le> ?n - 2" "i + 1 + m = h \<or> i + 1 + m = h + ?n"
      using hi lt h unfolding m_def by (simp_all, linarith+)
    then have "(i + 1 + m) mod ?n = h" using h by auto
    then obtain g where "linear_scan fs (?n - 2) (i + 1) = Some (Some g)"
      using linear_scan_finds [OF wf lt m(1,2)] f by auto
    then show ?thesis unfolding st using False by auto
  qed
qed

lemma find_inode_bit_finds:
  assumes ok: "ialloc_ok fs" and cg: "choose_group mode parent fs = Some (Some g)" and c: "icounts_ok fs"
  shows "\<exists>k fs'. find_inode_bit mode parent fs = Some (Some (g, k), fs')"
proof -
  note g = choose_group_free [OF ialloc_okD(3) [OF ok] cg]
  obtain c' n where gb: "group_inode_bitmap g fs = Some (imap_no fs g, fs\<lparr>b_count := n, inode_cache := c'\<rparr>)"
    using group_inode_bitmap_ok [OF ok g(1)] by metis
  obtain bs where bs: "b_data fs (imap_no fs g) = Some bs" using ialloc_okD(4) [OF ok g(1)] by blast
  define j where "j = find_first_zero_bit (rd32 bs) (s_inodes_per_group fs)"
  have fz: "first_zero (\<lambda>k. test_bit k bs) 0 (s_inodes_per_group fs) j"
    unfolding j_def by (rule find_first_zero_bit_spec) (use ialloc_okD(1) [OF ok] in \<open>simp add: igeom_def\<close>)
  have "unat (bg_free_inodes_count (desc_of fs g)) \<noteq> 0" using g(2) by (simp add: unsigned_eq_0_iff)
  then have "0 < ifree_in fs g" using c g(1) by (simp add: icounts_ok_def)
  then obtain k where "k < s_inodes_per_group fs" "\<not> test_bit k bs"
    by (auto simp: zeros_pos_iff iused_def bs)
  then have j: "j < s_inodes_per_group fs" "\<not> test_bit j bs" using first_zero_exists [OF fz] by blast+
  have jl: "j div 8 < length bs"
    using ialloc_okD(5) [OF ok g(1)] bs j(1) by (simp add: less_mult_imp_div_less mult.commute)
  have sb: "set_bit j bs = Some (False, poke_bit True j bs)" using j(2) jl by (simp add: set_bit_def)
  show ?thesis
    unfolding find_inode_bit.simps [of mode parent fs] cg bind.bind_lunit option.case gb prod.case
    using j(1) by (simp add: bs j_def [symmetric] sb Let_def)
qed

lemma finish_inode_total:
  assumes wf: "gd_wf fs" and g: "g < s_groups_count fs" and pv: "prev < s_groups_count fs"
    and n: "EXT2_FIRST_INO \<le> ino_no fs g k" "ino_no fs g k \<le> s_inodes_count fs"
    and b: "b_data fs (inode_block fs (ino_no fs g k) (desc_of fs g)) = Some tbs"
    and raw: "raw_in_buffer (table_offset fs (ino_no fs g k)) tbs"
  shows "\<exists>i fs'. finish_inode blank now dir mode prev g k fs = Some (Some i, fs')"
proof -
  define ino where "ino = ino_no fs g k"
  note inoe = ino_def [unfolded ino_no_def, symmetric]
  have c: "\<not> (ino < EXT2_FIRST_INO \<or> ino > s_inodes_count fs)" using n by (auto simp: ino_def)
  have p: "get_group_desc fs g = Some (gdp fs g)" "get_group_desc fs prev = Some (gdp fs prev)"
    using get_group_desc_wf [OF wf] g pv by blast+
  define fs1 where "fs1 = (mark_buffer_dirty (s_sbh fs) ((mark_buffer_dirty (gd_bh (gd_upd (gdp fs g) (take_inode_desc mode) fs) (gdp fs prev))
      (gd_upd (gdp fs g) (take_inode_desc mode) fs))\<lparr>s_free_inodes_count := s_free_inodes_count fs - 1\<rparr>))\<lparr>s_dirt := True\<rparr>"
  have t1: "s_group_desc fs1 = table_upd (gdp fs g) (take_inode_desc mode) (s_group_desc fs)"
    by (simp add: fs1_def gd_upd_table mark_buffer_dirty_def)
  have gda: "gd_at fs1 (gdp fs g) = take_inode_desc mode (desc_of fs g)"
    unfolding gd_at_def [of fs1] t1 using table_upd_at [OF wf g, of "take_inode_desc mode" g] by simp
  let ?i = "init_inode fs1 now dir mode ino g blank"
  have ib: "inode_block fs1 ino (take_inode_desc mode (desc_of fs g)) = inode_block fs ino (desc_of fs g)"
    and off: "table_offset fs1 ino = table_offset fs ino" and bd: "b_data fs1 = b_data fs"
    by (simp_all add: inode_block_def table_offset_def fs1_def gd_upd_table mark_buffer_dirty_def)
  obtain i2 fs2 where "inc_inode_version ?i (take_inode_desc mode (desc_of fs g)) fs1 = Some (i2, fs2)"
    using inc_inode_version_ok [of fs1 ?i "take_inode_desc mode (desc_of fs g)" tbs,
        unfolded init_inode_simps ib off bd, OF b [folded ino_def] raw [folded ino_def]] by blast
  moreover have "finish_inode blank now dir mode prev g k fs = do {
      (inode, fs) \<leftarrow> inc_inode_version ?i (gd_at fs1 (gdp fs g)) fs1; Some (Some inode, unlock_super fs) }"
    unfolding finish_inode_def Let_def inoe if_not_P [OF c] p bind.bind_lunit fs1_def
    by (simp add: mark_buffer_dirty_def gd_upd_table)
  ultimately show ?thesis by (simp add: gda)
qed

end
