(* ===== verification/Ext2_Ialloc_Thms.thy ===== *)
theory Ext2_Ialloc_Thms
  imports Ext2_Ialloc_Props
begin

text \<open>
  The properties of the inode allocator, over the lemmas of \<open>Ext2_Ialloc_Props\<close>: what a new inode is,
  that the consistency of the bitmaps and counters is kept, when the search succeeds, which group the
  directory policy takes, and where the search for a group fails although there are free inodes.
\<close>

lemma init_inode_group [simp]:
  "e_block_group (init_inode fs now dir mode ino g blank) = of_nat g"
  by (simp add: init_inode_def Let_def)

text \<open>C7. An inode that \<open>ext2_new_inode\<close> returns has a number that is not reserved, whose bit was clear
  and is set now; the inode is dirty, has one link, no blocks and the requested mode, and records its
  group. No other bit of an inode bitmap changes, and of the blocks only the bitmap and the block of
  the inode table that holds the inode.\<close>

theorem new_inode_sound:
  assumes "ialloc_ok fs" and "ext2_new_inode (Some blank) now dir mode fs = Some (Some i, fs')"
  shows "\<exists>g k. g < s_groups_count fs \<and> k < s_inodes_per_group fs \<and> i_ino i = ino_no fs g k \<and>
    EXT2_FIRST_INO \<le> i_ino i \<and> i_ino i \<le> s_inodes_count fs \<and> \<not> iused fs g k \<and>
    i_mode i = mode \<and> i_nlink i = 1 \<and> i_blocks i = 0 \<and> i_dirt i \<and> e_block_group i = of_nat g \<and>
    (\<forall>h < s_groups_count fs. \<forall>m. iused fs' h m = (iused fs h m \<or> h = g \<and> m = k)) \<and>
    (\<forall>c. c \<noteq> imap_no fs g \<longrightarrow> c \<noteq> table_block fs g (k div s_inodes_per_block fs) \<longrightarrow> b_data fs' c = b_data fs c)"
proof -
  obtain g k v where g: "g < s_groups_count fs" "k < s_inodes_per_group fs" "\<not> iused fs g k" "EXT2_FIRST_INO \<le> ino_no fs g k"
    and i: "i = (init_inode fs now dir mode (ino_no fs g k) g blank)\<lparr>e_version := v\<rparr>" and r: "inode_rel fs mode g k fs'"
    using new_inode_cases [OF assms] by auto
  have "i_ino i = ino_no fs g k" "i_mode i = mode" "i_nlink i = 1" "i_blocks i = 0" "i_dirt i" "e_block_group i = of_nat g"
    unfolding i by simp_all
  then show ?thesis
    using g ino_no_facts(5) [OF ialloc_okD(1) [OF assms(1)] g(1,2)] inode_relD(6,8) [OF r]
    by (intro exI [where x = g] exI [where x = k]) simp
qed

text \<open>C8. Whatever \<open>ext2_new_inode\<close> answers, bitmaps, tables and counters stay consistent: the free
  count of every group and of the file system is the number of clear bits again.\<close>

theorem new_inode_invariant:
  assumes ok: "ialloc_ok fs" and c: "icounts_ok fs" and r: "ext2_new_inode blank now dir mode fs = Some (res, fs')"
  shows "ialloc_ok fs' \<and> icounts_ok fs'"
proof (cases blank)
  case None
  then show ?thesis using assms by (simp add: ext2_new_inode_def)
next
  case (Some b)
  note cs = new_inode_cases [OF ok r [unfolded Some]]
  show ?thesis
  proof (cases res)
    case None
    then have v: "same_iviews fs fs'" and w: "cache_wf (s_groups_count fs) (imap_no fs) (inode_cache fs')"
      using cs by simp_all
    show ?thesis using same_iviews_ok [OF ok v w] same_iviews_counts [OF v] c by simp
  next
    case (Some i)
    then obtain g k where g: "g < s_groups_count fs" "k < s_inodes_per_group fs" "\<not> iused fs g k"
      and rel: "inode_rel fs mode g k fs'"
      using cs by auto
    show ?thesis using inode_rel_ok [OF ok rel] inode_rel_counts [OF c rel g] by simp
  qed
qed

lemma gdp_cong: "s_desc_per_block fs' = s_desc_per_block fs \<Longrightarrow> gdp fs' h = gdp fs h"
  by (simp add: gdp_def)

subsection \<open>When there is an inode\<close>

text \<open>Some group has at least the average number of free inodes.\<close>

lemma average_reached:
  fixes f :: "nat \<Rightarrow> nat"
  assumes "0 < (\<Sum>h < n. f h)"
  shows "\<exists>h < n. f h \<noteq> 0 \<and> (\<Sum>h < n. f h) div n \<le> f h"
proof (rule ccontr)
  let ?a = "(\<Sum>h < n. f h) div n"
  assume "\<not> ?thesis"
  then have no: "f h = 0 \<or> f h < ?a" if "h < n" for h using that by (meson not_le)
  obtain h where h: "h < n" "0 < f h" using assms by (metis gr0I lessThan_iff less_irrefl sum.neutral)
  then have a: "0 < ?a" using no by fastforce
  then have "f h < ?a" if "h < n" for h using no [OF that] by auto
  then have "(\<Sum>h < n. f h) < (\<Sum>h < n. ?a)" using h by (intro sum_strict_mono) auto
  then show False using times_div_less_eq_dividend [of n "\<Sum>h < n. f h"] by simp
qed

lemma choose_group_finds:
  assumes wf: "gd_wf fs" and c: "icounts_ok fs" and f: "s_free_inodes_count fs \<noteq> 0" and parent: "parent < s_groups_count fs"
    and last: "S_ISDIR mode \<or> parent + 1 < s_groups_count fs \<or> s_groups_count fs \<le> 2"
  shows "\<exists>g. choose_group mode parent fs = Some (Some g)"
proof -
  let ?f = "\<lambda>h. unat (bg_free_inodes_count (desc_of fs h))"
  have sum: "unat (s_free_inodes_count fs) = (\<Sum>h < s_groups_count fs. ?f h)"
    using c by (simp add: icounts_ok_def)
  have "0 < unat (s_free_inodes_count fs)" using f by (simp add: unat_gt_0)
  then obtain h where h: "h < s_groups_count fs" "?f h \<noteq> 0"
      "unat (s_free_inodes_count fs) div s_groups_count fs \<le> ?f h"
    using average_reached [of ?f "s_groups_count fs"] unfolding sum by blast
  then have h0: "bg_free_inodes_count (desc_of fs h) \<noteq> 0" by auto
  show ?thesis
  proof (cases "S_ISDIR mode")
    case True
    obtain r where r: "choose_dir_group fs = Some r" "r = None \<Longrightarrow> \<not> roomy fs (unat (s_free_inodes_count fs) div s_groups_count fs) h"
      using choose_dir_group_best [OF wf] h(1) by (fastforce split: option.splits)
    then show ?thesis using True h(3) h0 by (cases r) (auto simp: choose_group_def)
  next
    case False
    then show ?thesis using choose_file_group_finds [OF wf parent h(1) h0] last by (simp add: choose_group_def)
  qed
qed

lemma new_inode_number:
  assumes ok: "ialloc_ok fs" and g: "g < s_groups_count fs" and k: "k < s_inodes_per_group fs" "\<not> iused fs g k"
  shows "EXT2_FIRST_INO \<le> ino_no fs g k" and "ino_no fs g k \<le> s_inodes_count fs"
proof -
  note igeo = ialloc_okD(1) [OF ok]
  note num = ino_no_facts [OF igeo g k(1)]
  show "EXT2_FIRST_INO \<le> ino_no fs g k"
  proof (rule ccontr)
    assume "\<not> EXT2_FIRST_INO \<le> ino_no fs g k"
    then have "unat (ino_no fs g k) < 11" by (simp add: word_le_nat_alt EXT2_FIRST_INO_def)
    then have lt: "k + g * s_inodes_per_group fs < 10" using num(2) by simp
    have "32 \<le> s_inodes_per_group fs" using igeo by (auto simp: igeom_def elim!: dvdE)
    then have "g = 0" using lt by (cases g) auto
    then show False using lt k(2) ialloc_okD(9) [OF ok, of k] by simp
  qed
  show "ino_no fs g k \<le> s_inodes_count fs" by (rule num(5))
qed

text \<open>The raw inode of a number found, in the state after its bit is set.\<close>

lemma new_inode_table:
  assumes ok: "ialloc_ok fs" and g: "g < s_groups_count fs" and k: "k < s_inodes_per_group fs"
    and fs1: "fs1 = (lock_super fs)\<lparr>b_data := (b_data (lock_super fs))(imap_no (lock_super fs) g \<mapsto> bs), inode_cache := c,
          b_dirt := D, b_written := W, b_count := C\<rparr>"
  shows "gd_wf fs1" and "ino_no fs1 g k = ino_no fs g k"
    and "b_data fs1 (inode_block fs1 (ino_no fs1 g k) (desc_of fs1 g)) =
      Some (the (b_data fs (table_block fs g (k div s_inodes_per_block fs))))"
    and "raw_in_buffer (table_offset fs1 (ino_no fs1 g k)) (the (b_data fs (table_block fs g (k div s_inodes_per_block fs))))"
proof -
  note igeo = ialloc_okD(1) [OF ok]
  note num = ino_no_facts [OF igeo g k]
  let ?tb = "table_block fs g (k div s_inodes_per_block fs)"
  obtain tbs where tbs: "b_data fs ?tb = Some tbs" "RAW_INODE_SIZE * s_inodes_per_block fs \<le> length tbs"
    using ialloc_okD(7) [OF ok g k] by blast
  have d0: "desc_of (lock_super fs) h = desc_of fs h" for h by (rule desc_of_cong) (simp_all add: lock_super_def)
  have d1: "desc_of fs1 h = desc_of fs h" for h by (rule desc_of_cong) (simp_all add: fs1 lock_super_def)
  show "gd_wf fs1" using ialloc_okD(3) [OF ok] by (simp add: gd_wf_def fs1 lock_super_def)
  show ino: "ino_no fs1 g k = ino_no fs g k" by (simp add: ino_no_def fs1 lock_super_def)
  have ib: "inode_block fs1 (ino_no fs g k) (desc_of fs1 g) = ?tb"
    unfolding d1 using num(4) by (simp add: inode_block_def table_block_def fs1 lock_super_def)
  have bd: "b_data fs1 = (b_data fs)(imap_no fs g \<mapsto> bs)" unfolding fs1 d0 by (simp add: lock_super_def)
  show "b_data fs1 (inode_block fs1 (ino_no fs1 g k) (desc_of fs1 g)) = Some (the (b_data fs ?tb))"
    unfolding ino ib bd using tbs(1) ialloc_okD(8) [OF ok g k g] by simp
  have off: "table_offset fs1 (ino_no fs1 g k) = RAW_INODE_SIZE * (k mod s_inodes_per_block fs)"
    unfolding ino using num(4) by (simp add: table_offset_def fs1 lock_super_def)
  have "Suc (k mod s_inodes_per_block fs) \<le> s_inodes_per_block fs" using igeo by (simp add: igeom_def Suc_le_eq)
  then have "RAW_INODE_SIZE * Suc (k mod s_inodes_per_block fs) \<le> RAW_INODE_SIZE * s_inodes_per_block fs"
    by (rule mult_le_mono2)
  then show "raw_in_buffer (table_offset fs1 (ino_no fs1 g k)) (the (b_data fs ?tb))"
    unfolding off using tbs by (simp add: raw_in_buffer_def)
qed

lemma new_inode_total:
  assumes ok: "ialloc_ok fs" and c: "icounts_ok fs" and f: "s_free_inodes_count fs \<noteq> 0"
    and parent: "unat (e_block_group dir) < s_groups_count fs"
    and last: "S_ISDIR mode \<or> unat (e_block_group dir) + 1 < s_groups_count fs \<or> s_groups_count fs \<le> 2"
  shows "\<exists>i fs'. ext2_new_inode (Some blank) now dir mode fs = Some (Some i, fs')"
proof -
  let ?fs0 = "lock_super fs"
  have v0: "same_iviews fs ?fs0" by (simp add: same_iviews_def lock_super_def layout_def)
  have c0: "cache_wf (s_groups_count fs) (imap_no fs) (inode_cache ?fs0)"
    using ialloc_okD(2) [OF ok] by (simp add: ino.ready_def lock_super_def)
  have ok0: "ialloc_ok ?fs0" by (rule same_iviews_ok [OF ok v0 c0])
  have cnt0: "icounts_ok ?fs0" using c same_iviews_counts [OF v0] by simp
  have lk: "s_groups_count ?fs0 = s_groups_count fs" "s_free_inodes_count ?fs0 = s_free_inodes_count fs"
    by (simp_all add: lock_super_def)
  obtain g where cg: "choose_group mode (unat (e_block_group dir)) ?fs0 = Some (Some g)"
    using choose_group_finds [OF ialloc_okD(3) [OF ok0] cnt0, unfolded lk, OF f parent last] by blast
  obtain k fs1 where q: "find_inode_bit mode (unat (e_block_group dir)) ?fs0 = Some (Some (g, k), fs1)"
    using find_inode_bit_finds [OF ok0 cg cnt0] by blast
  obtain bs cc D W C where k: "k < s_inodes_per_group ?fs0" "\<not> iused ?fs0 g k"
      and fs1: "fs1 = ?fs0\<lparr>b_data := (b_data ?fs0)(imap_no ?fs0 g \<mapsto> poke_bit True k bs), inode_cache := cc,
          b_dirt := D, b_written := W, b_count := C\<rparr>"
    using find_inode_bit_spec [OF ok0 q] by auto
  have g: "g < s_groups_count fs" using choose_group_free [OF ialloc_okD(3) [OF ok0] cg] lk by simp
  have k': "k < s_inodes_per_group fs" "\<not> iused fs g k"
    using k same_iviewsD(6) [OF v0] by (simp_all add: lock_super_def)
  note tb = new_inode_table [OF ok g k'(1) fs1]
  have "\<exists>i fs'. finish_inode blank now dir mode (if S_ISDIR mode then s_groups_count fs1 - 1 else g) g k fs1 = Some (Some i, fs')"
    by (rule finish_inode_total [OF tb(1) _ _ _ _ tb(3,4)])
      (use g new_inode_number [OF ok g k'] tb(2) in \<open>simp_all add: fs1 lock_super_def\<close>)
  then show ?thesis
    unfolding ext2_new_inode_def option.case q bind.bind_lunit prod.case .
qed

text \<open>C9. With consistent counters, \<open>ext2_new_inode\<close> returns an inode whenever the file system has a
  free one and a directory is created, or the parent's group is not the last one, or there are at most
  two groups. In particular the search for a group and a bit ends.\<close>

theorem new_inode_complete:
  assumes ok: "ialloc_ok fs" and c: "icounts_ok fs" and f: "s_free_inodes_count fs \<noteq> 0"
    and parent: "unat (e_block_group dir) < s_groups_count fs"
    and last: "S_ISDIR mode \<or> unat (e_block_group dir) + 1 < s_groups_count fs \<or> s_groups_count fs \<le> 2"
  shows "\<exists>i fs'. ext2_new_inode (Some blank) now dir mode fs = Some (Some i, fs')"
  by (rule new_inode_total [OF assms])

subsection \<open>Freeing an inode\<close>

lemma set_inode_dtime_ok:
  assumes "b_data fs (inode_block fs (i_ino inode) gd) = Some bs" and "raw_in_buffer (table_offset fs (i_ino inode)) bs"
  shows "\<exists>bs' D W C. length bs' = length bs \<and> set_inode_dtime now inode gd fs = Some
    (fs\<lparr>b_data := (b_data fs)(inode_block fs (i_ino inode) gd \<mapsto> bs'), b_dirt := D, b_written := W, b_count := C\<rparr>)"
proof -
  let ?b = "inode_block fs (i_ino inode) gd" and ?off = "table_offset fs (i_ino inode)"
  let ?fs = "fs\<lparr>b_count := (b_count fs)(?b := Suc (b_count fs ?b))\<rparr>"
  let ?bs = "put32 (?off + 20) now (put16 (?off + 26) 0 bs)"
  have br: "bread ?b fs = (Some ?b, ?fs)" by (rule bread_ok) (simp add: assms(1))
  have off: "table_offset ?fs (i_ino inode) = ?off" by (simp add: table_offset_def)
  let ?fs2 = "mark_buffer_dirty ?b (?fs\<lparr>b_data := (b_data fs)(?b \<mapsto> ?bs)\<rparr>)"
  obtain D W where sync: "(if IS_SYNC inode then ll_rw_block_write ?b ?fs2 else ?fs2) = ?fs2\<lparr>b_dirt := D, b_written := W\<rparr>"
    using sync_write by blast
  have "set_inode_dtime now inode gd fs = Some (brelse (Some ?b) (?fs2\<lparr>b_dirt := D, b_written := W\<rparr>))"
    unfolding set_inode_dtime_def br using assms(1,2) by (simp add: off Let_def sync [simplified])
  moreover have "length ?bs = length bs" by simp
  ultimately show ?thesis
    by (intro exI [where x = ?bs] exI [where x = D] exI [where x = W] exI [where x = "b_count fs"])
      (simp add: brelse_def mark_buffer_dirty_def)
qed

lemma release_inode_desc_simps [simp]:
  "bg_block_bitmap (release_inode_desc i gd) = bg_block_bitmap gd"
  "bg_inode_bitmap (release_inode_desc i gd) = bg_inode_bitmap gd"
  "bg_inode_table (release_inode_desc i gd) = bg_inode_table gd"
  by (simp_all add: release_inode_desc_def Let_def)

lemma free_inode_effect:
  assumes ok: "ialloc_ok fs" and g: "g < s_groups_count fs" and k: "k < s_inodes_per_group fs"
    and num: "i_ino i = ino_no fs g k" "EXT2_FIRST_INO \<le> i_ino i" and use: "iused fs g k"
    and cnt: "i_count i \<le> 1" "i_nlink i = 0"
  shows "\<exists>fs'. ext2_free_inode now i fs = Some fs' \<and> \<not> s_lock fs' \<and> layout fs' = layout fs \<and>
    (\<forall>h. desc_of fs' h = (if h = g then release_inode_desc i (desc_of fs g) else desc_of fs h)) \<and>
    s_free_inodes_count fs' = s_free_inodes_count fs + 1 \<and>
    (\<forall>h < s_groups_count fs. \<forall>m. iused fs' h m = (iused fs h m \<and> \<not> (h = g \<and> m = k)))"
proof -
  let ?fs0 = "lock_super fs"
  have v0: "same_iviews fs ?fs0" by (simp add: same_iviews_def lock_super_def layout_def)
  have c0: "cache_wf (s_groups_count fs) (imap_no fs) (inode_cache ?fs0)"
    using ialloc_okD(2) [OF ok] by (simp add: ino.ready_def lock_super_def)
  have ok0: "ialloc_ok ?fs0" by (rule same_iviews_ok [OF ok v0 c0])
  note nf = ino_no_facts [OF ialloc_okD(1) [OF ok] g k]
  have imd: "imap_no ?fs0 g = imap_no fs g" by (simp add: same_iviewsD(5) [OF v0])
  have g0: "g < s_groups_count ?fs0" using g by (simp add: lock_super_def)
  obtain c n where gb: "group_inode_bitmap g ?fs0 = Some (imap_no fs g, ?fs0\<lparr>b_count := n, inode_cache := c\<rparr>)"
    using group_inode_bitmap_ok [OF ok0 g0] unfolding imd by metis
  let ?fs1 = "?fs0\<lparr>b_count := n, inode_cache := c\<rparr>"
  obtain bs where bs: "b_data fs (imap_no fs g) = Some bs" using ialloc_okD(4) [OF ok g] by blast
  have kl: "k div 8 < length bs"
    using ialloc_okD(5) [OF ok g] bs k by (simp add: less_mult_imp_div_less mult.commute)
  have cb: "clear_bit k bs = Some (True, poke_bit False k bs)"
    using use kl by (simp add: clear_bit_def iused_def bs)
  let ?fs2 = "?fs1\<lparr>b_data := (b_data fs)(imap_no fs g \<mapsto> poke_bit False k bs)\<rparr>"
  have wf2: "gd_wf ?fs2" using ialloc_okD(3) [OF ok] by (simp add: gd_wf_def lock_super_def)
  have gd2: "gdp ?fs2 h = gdp fs h" for h by (simp add: gdp_def lock_super_def)
  have p: "get_group_desc ?fs2 g = Some (gdp fs g)"
    using get_group_desc_wf [OF wf2, of g] g unfolding gd2 by (simp add: lock_super_def)
  define Y where "Y = gd_upd (gdp fs g) (release_inode_desc i) ?fs2"
  define Z where "Z = (mark_buffer_dirty (gd_bh Y (gdp fs g)) Y)\<lparr>s_free_inodes_count := s_free_inodes_count fs + 1\<rparr>"
  have Y: "s_free_inodes_count (mark_buffer_dirty b Y) = s_free_inodes_count fs" for b
    by (simp add: Y_def gd_upd_table mark_buffer_dirty_def lock_super_def)
  have Z: "s_sbh Z = s_sbh fs"
    by (simp add: Z_def Y_def gd_upd_table mark_buffer_dirty_def lock_super_def)
  define F3 where "F3 = mark_buffer_dirty (s_sbh fs) Z"
  let ?fs3 = F3
  define D3 where "D3 = b_dirt ?fs3"
  let ?T = "table_upd (gdp fs g) (release_inode_desc i) (s_group_desc fs)"
  have fs3: "?fs3 = fs\<lparr>s_lock := True, s_free_inodes_count := s_free_inodes_count fs + 1, s_group_desc := ?T,
      inode_cache := c, b_data := (b_data fs)(imap_no fs g \<mapsto> poke_bit False k bs), b_dirt := D3, b_count := n\<rparr>"
    unfolding D3_def by (simp add: F3_def Z_def Y_def gd_upd_table mark_buffer_dirty_def lock_super_def)
  let ?tb = "table_block fs g (k div s_inodes_per_block fs)"
  obtain tbs where tbs: "b_data fs ?tb = Some tbs" "RAW_INODE_SIZE * s_inodes_per_block fs \<le> length tbs"
    using ialloc_okD(7) [OF ok g k] by blast
  have ntb: "?tb \<noteq> imap_no fs h" if "h < s_groups_count fs" for h using ialloc_okD(8) [OF ok g k that] .
  have gda: "gd_at ?fs3 (gdp fs g) = release_inode_desc i (desc_of fs g)"
    unfolding gd_at_def [of ?fs3] using table_upd_at [OF ialloc_okD(3) [OF ok] g, of "release_inode_desc i" g]
    unfolding fs3 by simp
  have ib: "inode_block ?fs3 (i_ino i) (release_inode_desc i (desc_of fs g)) = ?tb"
    unfolding fs3 using nf(4) by (simp add: inode_block_def table_block_def num(1))
  have off: "table_offset ?fs3 (i_ino i) = RAW_INODE_SIZE * (k mod s_inodes_per_block fs)"
    unfolding fs3 using nf(4) by (simp add: table_offset_def num(1))
  have d3: "b_data ?fs3 = (b_data fs)(imap_no fs g \<mapsto> poke_bit False k bs)" unfolding fs3 by simp
  have "Suc (k mod s_inodes_per_block fs) \<le> s_inodes_per_block fs"
    using ialloc_okD(1) [OF ok] by (simp add: igeom_def Suc_le_eq)
  then have "RAW_INODE_SIZE * Suc (k mod s_inodes_per_block fs) \<le> RAW_INODE_SIZE * s_inodes_per_block fs"
    by (rule mult_le_mono2)
  then have raw: "raw_in_buffer (table_offset ?fs3 (i_ino i)) tbs"
    unfolding off using tbs(2) by (simp add: raw_in_buffer_def)
  have b3: "b_data ?fs3 (inode_block ?fs3 (i_ino i) (release_inode_desc i (desc_of fs g))) = Some tbs"
    unfolding ib d3 using tbs(1) ntb [OF g] by simp
  obtain tbs' D W C where sd: "set_inode_dtime now i (release_inode_desc i (desc_of fs g)) ?fs3 = Some
      (?fs3\<lparr>b_data := (b_data ?fs3)(?tb \<mapsto> tbs'), b_dirt := D, b_written := W, b_count := C\<rparr>)"
    using set_inode_dtime_ok [OF b3 raw, of now] unfolding ib by blast
  let ?fs4 = "?fs3\<lparr>b_data := (b_data ?fs3)(?tb \<mapsto> tbs'), b_dirt := D, b_written := W, b_count := C\<rparr>"
  let ?fs5 = "mark_buffer_dirty (imap_no fs g) ?fs4"
  obtain D' W' where sync: "(if s_flags ?fs5 AND MS_SYNCHRONOUS \<noteq> 0
      then ll_rw_block_write (imap_no fs g) ?fs5 else ?fs5) = ?fs5\<lparr>b_dirt := D', b_written := W'\<rparr>"
    using sync_write by blast
  have n1: "\<not> (i_count i > 1 \<or> i_nlink i \<noteq> 0)" using cnt by (simp add: not_less)
  have n2: "\<not> (i_ino i < EXT2_FIRST_INO \<or> i_ino i > s_inodes_count ?fs0)"
    using num nf(5) by (simp add: lock_super_def not_less)
  have grp: "inode_group ?fs0 (i_ino i) = g" "unat (i_ino i - 1) mod s_inodes_per_group ?fs0 = k"
    using nf(3,4) by (simp_all add: num(1) inode_group_def lock_super_def)
  have bs1: "b_data ?fs1 (imap_no fs g) = Some bs" using bs by (simp add: lock_super_def)
  have e2: "?fs1\<lparr>b_data := (b_data ?fs1)(imap_no fs g \<mapsto> poke_bit False k bs)\<rparr> = ?fs2" by (simp add: lock_super_def)
  have free: "ext2_free_inode now i fs = Some (unlock_super (?fs5\<lparr>b_dirt := D', b_written := W', s_dirt := True\<rparr>))"
    unfolding ext2_free_inode_def Let_def if_not_P [OF n1] if_not_P [OF n2] grp gb bind.bind_lunit prod.case bs1 cb
      if_not_P [OF not_not [THEN iffD2, OF TrueI]] e2 p Y_def [symmetric] Y Z_def [symmetric] Z F3_def [symmetric] gda sd sync
    by (rule refl)
  let ?f = "unlock_super (?fs5\<lparr>b_dirt := D', b_written := W', s_dirt := True\<rparr>)"
  have f: "layout ?f = layout fs" "s_group_desc ?f = ?T" "s_free_inodes_count ?f = s_free_inodes_count fs + 1" "\<not> s_lock ?f"
     "b_data ?f = (b_data fs)(imap_no fs g \<mapsto> poke_bit False k bs, ?tb \<mapsto> tbs')"
    unfolding fs3 by (simp_all add: unlock_super_def mark_buffer_dirty_def layout_def)
  have gdf: "gdp ?f h = gdp fs h" for h
    by (rule gdp_cong) (simp only: layoutD [OF f(1)])
  have desc: "desc_of ?f h = (if h = g then release_inode_desc i (desc_of fs g) else desc_of fs h)" for h
    unfolding gd_at_def [of ?f] gdf f(2) using table_upd_at [OF ialloc_okD(3) [OF ok] g] .
  have im: "imap_no ?f h = imap_no fs h" for h by (simp add: desc)
  have us: "iused ?f h m = (iused fs h m \<and> \<not> (h = g \<and> m = k))" if h: "h < s_groups_count fs" for h m
  proof (cases "h = g")
    case True
    then show ?thesis using ntb [OF g] kl bs unfolding iused_def im f(5) by (auto simp: test_bit_poke_bit)
  next
    case False
    then have "imap_no fs h \<noteq> imap_no fs g" using ialloc_okD(6) [OF ok h g] by blast
    then show ?thesis using False ntb [OF h] unfolding iused_def im f(5) by auto
  qed
  show ?thesis using free f(1,3,4) desc us by blast
qed

text \<open>C10. Freeing the inode that \<open>ext2_new_inode\<close> has just returned (its last link gone, no other user)
  restores every inode bitmap, every group descriptor and the free inode count.\<close>

theorem free_new_inode:
  assumes ok: "ialloc_ok fs" and r: "ext2_new_inode (Some blank) now dir mode fs = Some (Some i, fs1)"
  shows "\<exists>fs2. ext2_free_inode now2 (i\<lparr>i_nlink := 0\<rparr>) fs1 = Some fs2 \<and>
    (\<forall>h < s_groups_count fs. \<forall>m. iused fs2 h m = iused fs h m) \<and> (\<forall>h. desc_of fs2 h = desc_of fs h) \<and>
    s_free_inodes_count fs2 = s_free_inodes_count fs \<and> \<not> s_lock fs2"
proof -
  obtain g k v where g: "g < s_groups_count fs" "k < s_inodes_per_group fs" "\<not> iused fs g k" "EXT2_FIRST_INO \<le> ino_no fs g k"
    and i: "i = (init_inode fs now dir mode (ino_no fs g k) g blank)\<lparr>e_version := v\<rparr>" and rel: "inode_rel fs mode g k fs1"
    using new_inode_cases [OF ok r] by auto
  note lay = layoutD [OF inode_relD(1) [OF rel]]
  have ok1: "ialloc_ok fs1" by (rule inode_rel_ok [OF ok rel])
  let ?j = "i\<lparr>i_nlink := 0\<rparr>"
  have num: "ino_no fs1 g k = ino_no fs g k" by (simp add: ino_no_def lay)
  have j: "i_ino ?j = ino_no fs1 g k" "i_count ?j \<le> 1" "i_nlink ?j = 0" "i_mode ?j = mode"
    unfolding num i by (simp_all add: init_inode_def Let_def)
  have g1: "g < s_groups_count fs1" "k < s_inodes_per_group fs1" using g(1,2) by (simp_all add: lay)
  have f1: "EXT2_FIRST_INO \<le> i_ino ?j" using g(4) unfolding j(1) num .
  have u1: "iused fs1 g k" using inode_relD(6) [OF rel g(1)] by simp
  obtain fs2 where fs2: "ext2_free_inode now2 ?j fs1 = Some fs2" "\<not> s_lock fs2"
    and d: "\<And>h. desc_of fs2 h = (if h = g then release_inode_desc ?j (desc_of fs1 g) else desc_of fs1 h)"
    and c: "s_free_inodes_count fs2 = s_free_inodes_count fs1 + 1"
    and u: "\<And>h m. h < s_groups_count fs1 \<Longrightarrow> iused fs2 h m = (iused fs1 h m \<and> \<not> (h = g \<and> m = k))"
    using free_inode_effect [OF ok1 g1 j(1) f1 u1 j(2,3), of now2] by blast
  have "release_inode_desc ?j (take_inode_desc mode gd) = gd" for gd
    unfolding release_inode_desc_def j(4) by (simp add: take_inode_desc_def Let_def)
  then have "desc_of fs2 h = desc_of fs h" for h
    using d [of h] inode_relD(4) [OF rel, of h] inode_relD(4) [OF rel, of g] by (cases "h = g") simp_all
  moreover have "iused fs2 h m = iused fs h m" if "h < s_groups_count fs" for h m
    using u [of h m] inode_relD(6) [OF rel that, of m] that g(3) by (auto simp: lay)
  moreover have "s_free_inodes_count fs2 = s_free_inodes_count fs" using c inode_relD(5) [OF rel] by simp
  ultimately show ?thesis using fs2 by blast
qed

subsection \<open>The policies\<close>

text \<open>The group chosen for a new directory has a free inode, at least the average number of them,
  and no group with that many has more free blocks; \<open>0\<close> is answered only when no group qualifies.\<close>

theorem directory_group_best:
  assumes "gd_wf fs"
  shows "\<exists>r. choose_dir_group fs = Some r \<and> (case r of
     None \<Rightarrow> \<forall>h < s_groups_count fs. \<not> roomy fs (unat (s_free_inodes_count fs) div s_groups_count fs) h
   | Some i \<Rightarrow> i < s_groups_count fs \<and> roomy fs (unat (s_free_inodes_count fs) div s_groups_count fs) i \<and>
       (\<forall>h < s_groups_count fs. roomy fs (unat (s_free_inodes_count fs) div s_groups_count fs) h \<longrightarrow>
          bg_free_blocks_count (desc_of fs h) \<le> bg_free_blocks_count (desc_of fs i)))"
  by (rule choose_dir_group_best [OF assms])

text \<open>With three groups, a file in a directory of the last group gets no inode when that group and
  group 0 are full: the linear search starts two groups on and its single step lands on group 0, so
  group 1 is never looked at, however many free inodes it has. (Hence the hypothesis on the parent's
  group in the previous theorem.)\<close>

theorem last_group_misses_inode:
  assumes wf: "gd_wf fs" and n: "s_groups_count fs = 3" and dir: "e_block_group dir = 2" and m: "\<not> S_ISDIR mode"
    and full: "bg_free_inodes_count (desc_of fs 0) = 0" "bg_free_inodes_count (desc_of fs 2) = 0"
  shows "\<exists>fs'. ext2_new_inode (Some blank) now dir mode fs = Some (None, fs')"
proof -
  let ?fs0 = "lock_super fs"
  have d0: "desc_of ?fs0 h = desc_of fs h" for h by (rule desc_of_cong) (simp_all add: lock_super_def)
  have n0: "s_groups_count ?fs0 = 3" using n by (simp add: lock_super_def)
  have wf0: "gd_wf ?fs0" using wf by (simp add: gd_wf_def lock_super_def)
  have p: "get_group_desc ?fs0 0 = Some (gdp ?fs0 0)" "get_group_desc ?fs0 2 = Some (gdp ?fs0 2)"
    by (rule get_group_desc_wf [OF wf0], simp add: n0)+
  have f0: "bg_free_inodes_count (desc_of ?fs0 0) = 0" "bg_free_inodes_count (desc_of ?fs0 2) = 0"
    using full d0 by simp_all
  have h4: "hash_scan ?fs0 4 2 = Some None" unfolding hash_scan.simps [of ?fs0 4 2] by (simp add: n0)
  have h2: "hash_scan ?fs0 2 0 = Some None"
    unfolding hash_scan.simps [of ?fs0 2 0] using p f0 h4 by (simp add: n0 numeral_eq_Suc)
  have h1: "hash_scan ?fs0 1 2 = Some None"
    unfolding hash_scan.simps [of ?fs0 1 2] using p f0 h2 by (simp add: n0)
  have "linear_scan ?fs0 (3 - 2) 3 = Some None"
    using p f0 by (simp add: n0 numeral_eq_Suc)
  then have "choose_file_group ?fs0 2 = Some None"
    unfolding choose_file_group_def p bind.bind_lunit h1 using f0 by (simp add: n0)
  then have cg: "choose_group mode (unat (e_block_group dir)) ?fs0 = Some None"
    using m dir by (simp add: choose_group_def)
  have "find_inode_bit mode (unat (e_block_group dir)) ?fs0 = Some (None, ?fs0)"
    unfolding find_inode_bit.simps [of mode "unat (e_block_group dir)" ?fs0] cg by simp
  then show ?thesis by (simp add: ext2_new_inode_def)
qed

section \<open>Witnesses\<close>

lemma example_inode_bitmap:
  "g < 2 \<Longrightarrow> b_data example_fs (imap_no example_fs g) =
     Some ((if g = 0 then [0xFF, 0x03, 0, 0] else [0, 0, 0, 0]) @ replicate 124 0xFF)"
  by (simp only: example_desc_of) (auto simp: example_desc_def example_fs_def example_data_def less_2_cases_iff)

lemma example_table_block:
  "g < 2 \<Longrightarrow> table_block example_fs g m = of_nat (64 * g + 5 + m)"
  by (simp add: table_block_def example_desc_of example_desc_def)

lemma example_ialloc_ok: "ialloc_ok example_fs"
proof -
  have n: "s_groups_count example_fs = 2" "s_inodes_per_group example_fs = 32" "s_inodes_per_block example_fs = 1"
    by (simp_all add: example_fs_def)
  have geo: "igeom example_fs" by (simp add: igeom_def n) (simp add: example_fs_def)
  have im: "imap_no example_fs g = of_nat (64 * g + 4)" if "g < 2" for g
    using that by (simp add: example_desc_of example_desc_def)
  have inj: "g = h" if "g < 2" "h < 2" "imap_no example_fs g = imap_no example_fs h" for g h
    using that im [OF that(1)] im [OF that(2)] by (auto simp: less_2_cases_iff)
  have dif: "table_block example_fs g m \<noteq> imap_no example_fs h" if "g < 2" "h < 2" "m < 32" for g h m
  proof -
    have "unat (table_block example_fs g m) = 64 * g + 5 + m" "unat (imap_no example_fs h) = 64 * h + 4"
      unfolding example_table_block [OF that(1)] im [OF that(2)] using that by (subst unat_of_nat_u32; simp)+
    then show ?thesis using that by (auto simp: less_2_cases_iff)
  qed
  have tab: "\<exists>bs. b_data example_fs (table_block example_fs g m) = Some bs \<and> 128 \<le> length bs" if "g < 2" "m < 32" for g m
    by (simp add: example_fs_def example_data_def)
  have "ino.ready example_fs"
    unfolding ino.ready_def n
    using example_gd_wf example_inode_bitmap by (auto simp: cache_wf_def example_fs_def empty_cache_def)
  moreover have "\<forall>k \<in> set [0..<10]. test_bit k ([0xFF, 0x03, 0, 0] @ replicate 124 0xFF :: u8 list)" by code_simp
  then have "iused example_fs 0 k" if "k < 10" for k
    using that by (simp add: iused_def example_inode_bitmap)
  ultimately show ?thesis
    unfolding ialloc_ok_def n
    using geo inj dif tab by (auto simp: example_inode_bitmap RAW_INODE_SIZE_def)
qed

lemma example_icounts: "icounts_ok example_fs"
proof -
  have z: "zeros (\<lambda>k. test_bit k ([0xFF, 0x03, 0, 0] @ replicate 124 0xFF :: u8 list)) 32 = 22"
    "zeros (\<lambda>k. test_bit k ([0, 0, 0, 0] @ replicate 124 0xFF :: u8 list)) 32 = 32" by code_simp+
  have n: "s_groups_count example_fs = 2" "s_inodes_per_group example_fs = 32" "s_free_inodes_count example_fs = 54"
    by (simp_all add: example_fs_def)
  have f: "zeros (iused example_fs g) 32 = (if g = 0 then 22 else 32)" if "g < 2" for g
    unfolding n iused_def using that z by (auto simp: example_inode_bitmap less_2_cases_iff)
  have "(\<Sum>h < 2. zeros (iused example_fs h) 32) = (\<Sum>h < 2 :: nat. if h = 0 then 22 else 32)"
    by (rule sum.cong) (simp_all add: f)
  also have "\<dots> = 54" by code_simp
  finally have sum: "(\<Sum>h < 2. zeros (iused example_fs h) 32) = 54" .
  have d: "unat (bg_free_inodes_count (desc_of example_fs h)) = (if h = 0 then 22 else 32)" if "h < 2" for h
    using that by (simp add: example_desc_of example_desc_def)
  show ?thesis
    unfolding icounts_ok_def n using f d sum by simp
qed

lemma example_new_inode:
  "\<exists>i fs'. ext2_new_inode (Some example_inode) 99 example_inode 0x81A4 example_fs = Some (Some i, fs')"
  by (rule new_inode_total [OF example_ialloc_ok example_icounts])
    (simp_all add: example_fs_def example_inode_def)

theorem new_inode_sound_witness:
  "\<exists>i fs' g k. ext2_new_inode (Some example_inode) 99 example_inode 0x81A4 example_fs = Some (Some i, fs') \<and>
     g < 2 \<and> k < 32 \<and> i_ino i = ino_no example_fs g k \<and> \<not> iused example_fs g k \<and> iused fs' g k"
proof -
  have n: "s_groups_count example_fs = 2" "s_inodes_per_group example_fs = 32" by (simp_all add: example_fs_def)
  obtain i fs' where r: "ext2_new_inode (Some example_inode) 99 example_inode 0x81A4 example_fs = Some (Some i, fs')"
    using example_new_inode by blast
  show ?thesis using new_inode_sound [OF example_ialloc_ok r] r unfolding n by metis
qed

theorem new_inode_invariant_witness:
  "\<exists>r fs'. ext2_new_inode (Some example_inode) 99 example_inode 0x81A4 example_fs = Some (r, fs') \<and>
     ialloc_ok fs' \<and> icounts_ok fs'"
proof -
  obtain i fs' where r: "ext2_new_inode (Some example_inode) 99 example_inode 0x81A4 example_fs = Some (Some i, fs')"
    using example_new_inode by blast
  show ?thesis using new_inode_invariant [OF example_ialloc_ok example_icounts r] r by blast
qed

theorem new_inode_complete_witness:
  "\<exists>i fs'. ext2_new_inode (Some example_inode) 99 example_inode 0x41ED example_fs = Some (Some i, fs')"
  by (rule new_inode_complete [OF example_ialloc_ok example_icounts])
    (simp_all add: example_fs_def example_inode_def)

theorem free_new_inode_witness:
  "\<exists>i fs1 fs2. ext2_new_inode (Some example_inode) 99 example_inode 0x81A4 example_fs = Some (Some i, fs1) \<and>
     ext2_free_inode 100 (i\<lparr>i_nlink := 0\<rparr>) fs1 = Some fs2 \<and> s_free_inodes_count fs2 = 54"
proof -
  obtain i fs' where r: "ext2_new_inode (Some example_inode) 99 example_inode 0x81A4 example_fs = Some (Some i, fs')"
    using example_new_inode by blast
  have "s_free_inodes_count example_fs = 54" by (simp add: example_fs_def)
  then show ?thesis using free_new_inode [OF example_ialloc_ok r, of 100] r by auto
qed

theorem directory_group_best_witness: "choose_dir_group example_fs = Some (Some 1)"
proof -
  have n: "s_groups_count example_fs = 2" "s_free_inodes_count example_fs = 54" by (simp_all add: example_fs_def)
  have a27: "unat (54 :: u32) div 2 = 27" by simp
  obtain r where r: "choose_dir_group example_fs = Some r" and c: "case r of
     None \<Rightarrow> \<forall>h < 2. \<not> roomy example_fs 27 h
   | Some i \<Rightarrow> i < 2 \<and> roomy example_fs 27 i \<and> (\<forall>h < 2. roomy example_fs 27 h \<longrightarrow>
       bg_free_blocks_count (desc_of example_fs h) \<le> bg_free_blocks_count (desc_of example_fs i))"
    using directory_group_best [OF example_gd_wf] unfolding n a27 by blast
  have ro: "roomy example_fs 27 1" "\<not> roomy example_fs 27 0"
    using example_desc_of [of 0] example_desc_of [of 1] by (simp_all add: example_desc_def)
  have "r = Some 1"
  proof (cases r)
    case None
    then show ?thesis using c [unfolded None option.case, rule_format, of 1] ro(1) by simp
  next
    case (Some i)
    then show ?thesis using c ro(2) by (cases "i = 0") auto
  qed
  then show ?thesis using r by simp
qed

definition example_fs3 :: ext2_fs where
  "example_fs3 = example_fs\<lparr>s_groups_count := 3,
     s_group_desc := [Some (2, [example_desc 1 0, example_desc 65 32]), Some (3, [example_desc 129 0, example_desc 193 0])]\<rparr>"

theorem last_group_misses_inode_witness:
  "(\<exists>fs'. ext2_new_inode (Some example_inode) 99 (example_inode\<lparr>e_block_group := 2\<rparr>) 0x81A4 example_fs3 = Some (None, fs')) \<and>
     bg_free_inodes_count (desc_of example_fs3 1) = 32"
proof
  have d: "desc_of example_fs3 0 = example_desc 1 0" "desc_of example_fs3 1 = example_desc 65 32"
      "desc_of example_fs3 2 = example_desc 129 0"
    by (simp_all add: gd_at_def gdp_def example_fs3_def example_fs_def)
  have n: "s_groups_count example_fs3 = 3" "gd_wf example_fs3"
    by (simp_all add: example_fs3_def gd_wf_def example_fs_def) (auto simp: less_Suc_eq)
  show "bg_free_inodes_count (desc_of example_fs3 1) = 32" unfolding d by (simp add: example_desc_def)
  show "\<exists>fs'. ext2_new_inode (Some example_inode) 99 (example_inode\<lparr>e_block_group := 2\<rparr>) 0x81A4 example_fs3 = Some (None, fs')"
    by (rule last_group_misses_inode [OF n(2,1)]) (simp_all add: S_ISDIR_def d example_desc_def)
qed

end
