(* ===== verification/Ext2_Bmap.thy ===== *)
theory Ext2_Bmap
  imports Ext2_Ialloc
begin

text \<open>
  The block map of a file, the rest of \<open>src/ext2/inode.c\<close>: \<open>block_bmap\<close>, \<open>ext2_bmap\<close>,
  \<open>ext2_discard_prealloc\<close>, \<open>ext2_alloc_block\<close>, \<open>inode_getblk\<close>, \<open>block_getblk\<close>, \<open>ext2_getblk\<close> and
  \<open>ext2_bread\<close>.

  A function that gets the inode by pointer takes it as an argument and returns it. \<open>int *err\<close> is an
  argument and a result too. Block numbers within a file are signed: they are \<open>int\<close> here, since for
  blocks of at most 4096 bytes no sum of the source overflows. An access behind the end of a buffer is
  \<open>None\<close>. \<open>now\<close> is \<open>CURRENT_TIME\<close>.
\<close>

definition EIO :: int where "EIO = 5"
definition EFBIG :: int where "EFBIG = 27"
definition ENOSPC :: int where "ENOSPC = 28"

definition EXT2_NDIR_BLOCKS :: nat where "EXT2_NDIR_BLOCKS = 12"
definition EXT2_IND_BLOCK :: nat where "EXT2_IND_BLOCK = EXT2_NDIR_BLOCKS"
definition EXT2_DIND_BLOCK :: nat where "EXT2_DIND_BLOCK = EXT2_IND_BLOCK + 1"
definition EXT2_TIND_BLOCK :: nat where "EXT2_TIND_BLOCK = EXT2_DIND_BLOCK + 1"

definition INODE_DASD :: u32 where "INODE_DASD = 0xFFFFFFFF"

text \<open>An entry of a block of block numbers.\<close>

definition entry :: "u8 list \<Rightarrow> nat \<Rightarrow> u32 option" where
  "entry bs nr = (if 4 * nr + 4 \<le> length bs then Some (get32 (4 * nr) bs) else None)"

subsection \<open>ext2_bmap\<close>

definition inode_bmap :: "inode \<Rightarrow> nat \<Rightarrow> u32" where
  "inode_bmap inode nr = i_data inode ! nr"

definition block_bmap :: "u32 option \<Rightarrow> nat \<Rightarrow> u32 fsop" where
  "block_bmap bh nr fs = (case bh of
     None \<Rightarrow> Some (0, fs)
   | Some b \<Rightarrow> do {
       bs \<leftarrow> b_data fs b;
       tmp \<leftarrow> entry bs nr;
       Some (tmp, brelse bh fs)
     })"

text \<open>\<open>block_bmap (bread (\<dots>, i, \<dots>), nr)\<close>, and \<open>0\<close> for \<open>i = 0\<close>\<close>

definition bmap_step :: "u32 \<Rightarrow> nat \<Rightarrow> u32 fsop" where
  "bmap_step i nr fs =
     (if i = 0 then Some (0, fs)
      else case bread i fs of (bh, fs) \<Rightarrow> block_bmap bh nr fs)"

definition ext2_bmap :: "inode \<Rightarrow> int \<Rightarrow> u32 fsop" where
  "ext2_bmap inode block fs =
     (let apb = int (EXT2_ADDR_PER_BLOCK fs); ndir = int EXT2_NDIR_BLOCKS in
      if block < 0 then Some (0, fs)
      else if block \<ge> ndir + apb + apb * apb + apb * apb * apb then Some (0, fs)
      else if block < ndir then Some (inode_bmap inode (nat block), fs)
      else
        let block = block - ndir in
        if block < apb then bmap_step (inode_bmap inode EXT2_IND_BLOCK) (nat block) fs
        else
          let block = block - apb in
          if block < apb * apb then do {
            (i, fs) \<leftarrow> bmap_step (inode_bmap inode EXT2_DIND_BLOCK) (nat (block div apb)) fs;
            bmap_step i (nat (block AND (apb - 1))) fs
          }
          else
            let block = block - apb * apb in do {
              (i, fs) \<leftarrow> bmap_step (inode_bmap inode EXT2_TIND_BLOCK) (nat (block div (apb * apb))) fs;
              (i, fs) \<leftarrow> bmap_step i (nat ((block div apb) AND (apb - 1))) fs;
              bmap_step i (nat (block AND (apb - 1))) fs
            })"

subsection \<open>Preallocation\<close>

definition ext2_discard_prealloc :: "inode \<Rightarrow> inode fsop" where
  "ext2_discard_prealloc inode fs =
     (if e_prealloc_count inode \<noteq> 0 then do {
        fs \<leftarrow> ext2_free_blocks (e_prealloc_block inode) (e_prealloc_count inode) fs;
        Some (inode\<lparr>e_prealloc_count := 0\<rparr>, fs)
      } else Some (inode, fs))"

definition ext2_alloc_block :: "inode \<Rightarrow> u32 \<Rightarrow> (u32 \<times> inode) fsop" where
  "ext2_alloc_block inode goal fs =
     (if e_prealloc_count inode \<noteq> 0 \<and> (goal = e_prealloc_block inode \<or> goal + 1 = e_prealloc_block inode)
      then
        let result = e_prealloc_block inode;
            inode = inode\<lparr>e_prealloc_block := e_prealloc_block inode + 1,
                           e_prealloc_count := e_prealloc_count inode - 1\<rparr>
        in case getblk result fs of
          (None, fs) \<Rightarrow> do { fs \<leftarrow> ext2_error fs; Some ((0, inode), fs) }
        | (Some bh, fs) \<Rightarrow>
            let fs = fs\<lparr>b_data := (b_data fs)(bh \<mapsto> replicate (s_blocksize fs) 0)\<rparr>
            in Some ((result, inode), brelse (Some bh) (mark_buffer_dirty bh fs))
      else do {
        (inode, fs) \<leftarrow> ext2_discard_prealloc inode fs;
        if S_ISREG (i_mode inode) then do {
          ((result, pre), fs) \<leftarrow> ext2_new_block goal (Some (e_prealloc_count inode, e_prealloc_block inode)) fs;
          (c, b) \<leftarrow> pre;
          Some ((result, inode\<lparr>e_prealloc_count := c, e_prealloc_block := b\<rparr>), fs)
        }
        else do {
          ((result, pre), fs) \<leftarrow> ext2_new_block goal None fs;
          Some ((result, inode), fs)
        }
      })"

subsection \<open>inode_getblk\<close>

text \<open>
  \<open>current->rlim[RLIMIT_FSIZE].rlim_cur >> EXT2_BLOCK_SIZE_BITS\<close>: the limit is the constant of
  \<open>src/vfs/misc.c\<close>, the largest signed \<open>long\<close>, and a block has \<open>2 ^ EXT2_BLOCK_SIZE_BITS\<close> bytes.
\<close>

definition fsize_limit :: "ext2_fs \<Rightarrow> int" where
  "fsize_limit fs = 0x7FFFFFFF div int (s_blocksize fs)"

text \<open>The last entry before \<open>nr\<close> that is not zero.\<close>

fun nearest_before :: "nat \<Rightarrow> (nat \<Rightarrow> u32) \<Rightarrow> u32" where
  "nearest_before 0 f = 0"
| "nearest_before (Suc n) f = (if f n \<noteq> 0 then f n else nearest_before n f)"

definition alloc_goal :: "inode \<Rightarrow> int \<Rightarrow> u32 \<Rightarrow> u32 \<Rightarrow> u32" where
  "alloc_goal inode new_block before otherwise =
     (let goal = (if e_next_alloc_block inode = of_int new_block then e_next_alloc_goal inode else 0)
      in if goal \<noteq> 0 then goal else if before \<noteq> 0 then before else otherwise)"

text \<open>What is recorded in the inode when a block was added to the file.\<close>

definition block_added :: "ext2_fs \<Rightarrow> u32 \<Rightarrow> int \<Rightarrow> u32 \<Rightarrow> inode \<Rightarrow> inode" where
  "block_added fs now new_block tmp inode =
     inode\<lparr>e_next_alloc_block := of_int new_block, e_next_alloc_goal := tmp, i_ctime := now,
            i_blocks := i_blocks inode + of_nat (s_blocksize fs div 512)\<rparr>"

type_synonym getblk_result = "((u32 option \<times> int) \<times> inode) \<times> ext2_fs"

partial_function (option) inode_getblk ::
    "u32 \<Rightarrow> inode \<Rightarrow> nat \<Rightarrow> bool \<Rightarrow> int \<Rightarrow> int \<Rightarrow> ext2_fs \<Rightarrow> getblk_result option" where
  "inode_getblk now inode nr create new_block err fs =
     (let tmp = i_data inode ! nr in
      if tmp \<noteq> 0 then (case getblk tmp fs of (result, fs) \<Rightarrow> Some (((result, err), inode), fs))
      else if \<not> create \<or> new_block \<ge> fsize_limit fs then Some (((None, - EFBIG), inode), fs)
      else
        let goal = alloc_goal inode new_block (nearest_before nr (\<lambda>k. i_data inode ! k))
                     (e_block_group inode * of_nat (s_blocks_per_group fs) + s_first_data_block fs)
        in Option.bind (ext2_alloc_block inode goal fs) (\<lambda>((tmp, inode), fs).
          if tmp = 0 then Some (((None, err), inode), fs)
          else case getblk tmp fs of (result, fs) \<Rightarrow>
            if i_data inode ! nr \<noteq> 0
            then Option.bind (ext2_free_blocks tmp 1 fs) (\<lambda>fs.
                   inode_getblk now inode nr create new_block err (brelse result fs))
            else
              let inode = block_added fs now new_block tmp (inode\<lparr>i_data := (i_data inode)[nr := tmp]\<rparr>)
              in if IS_SYNC inode \<or> e_osync inode \<noteq> 0
                 then Option.bind (ext2_sync_inode inode fs) (\<lambda>((_, inode), fs). Some (((result, err), inode), fs))
                 else Some (((result, err), inode\<lparr>i_dirt := True\<rparr>), fs)))"

declare inode_getblk.simps [code]

subsection \<open>block_getblk\<close>

text \<open>The entry \<open>nr\<close> of a buffer, from \<open>repeat\<close> on; the buffer is released on every way out.\<close>

partial_function (option) block_entry_getblk ::
    "u32 \<Rightarrow> inode \<Rightarrow> u32 \<Rightarrow> nat \<Rightarrow> bool \<Rightarrow> int \<Rightarrow> int \<Rightarrow> ext2_fs \<Rightarrow> getblk_result option" where
  "block_entry_getblk now inode bh nr create new_block err fs =
     Option.bind (b_data fs bh) (\<lambda>bs. Option.bind (entry bs nr) (\<lambda>tmp.
       if tmp \<noteq> 0 then (case getblk tmp fs of (result, fs) \<Rightarrow> Some (((result, err), inode), brelse (Some bh) fs))
       else if \<not> create \<or> new_block \<ge> fsize_limit fs then Some (((None, - EFBIG), inode), brelse (Some bh) fs)
       else
         let goal = alloc_goal inode new_block (nearest_before nr (\<lambda>k. get32 (4 * k) bs)) bh
         in Option.bind (ext2_alloc_block inode goal fs) (\<lambda>((tmp, inode), fs).
           if tmp = 0 then Some (((None, err), inode), brelse (Some bh) fs)
           else case getblk tmp fs of (result, fs) \<Rightarrow>
             Option.bind (b_data fs bh) (\<lambda>bs. Option.bind (entry bs nr) (\<lambda>now_there.
               if now_there \<noteq> 0
               then Option.bind (ext2_free_blocks tmp 1 fs) (\<lambda>fs.
                      block_entry_getblk now inode bh nr create new_block err (brelse result fs))
               else
                 let fs = mark_buffer_dirty bh (fs\<lparr>b_data := (b_data fs)(bh \<mapsto> put32 (4 * nr) tmp bs)\<rparr>);
                     fs = (if IS_SYNC inode \<or> e_osync inode \<noteq> 0 then ll_rw_block_write bh fs else fs);
                     inode = (block_added fs now new_block tmp inode)\<lparr>i_dirt := True\<rparr>
                 in Some (((result, err), inode), brelse (Some bh) fs))))))"

declare block_entry_getblk.simps [code]

definition block_getblk :: "u32 \<Rightarrow> inode \<Rightarrow> u32 option \<Rightarrow> nat \<Rightarrow> bool \<Rightarrow> int \<Rightarrow> int \<Rightarrow> ext2_fs \<Rightarrow> getblk_result option" where
  "block_getblk now inode bh nr create new_block err fs = (case bh of
     None \<Rightarrow> Some (((None, err), inode), fs)
   | Some b \<Rightarrow>
       if b_data fs b = None then Some (((None, err), inode), brelse bh fs)
       else block_entry_getblk now inode b nr create new_block err fs)"

subsection \<open>ext2_getblk and ext2_bread\<close>

definition ext2_getblk :: "u32 \<Rightarrow> inode \<Rightarrow> int \<Rightarrow> bool \<Rightarrow> int \<Rightarrow> ext2_fs \<Rightarrow> getblk_result option" where
  "ext2_getblk now inode block create err fs =
     (if i_ino inode = INODE_DASD
      then (case getblk (of_int block) fs of (bh, fs) \<Rightarrow> Some (((bh, err), inode), fs))
      else
        let apb = int (EXT2_ADDR_PER_BLOCK fs); ndir = int EXT2_NDIR_BLOCKS in
        if block < 0 then Some (((None, - EIO), inode), fs)
        else if block > ndir + apb + apb * apb + apb * apb * apb then Some (((None, - EIO), inode), fs)
        else
          let inode = (if of_int block = e_next_alloc_block inode + 1
                       then inode\<lparr>e_next_alloc_block := e_next_alloc_block inode + 1,
                                   e_next_alloc_goal := e_next_alloc_goal inode + 1\<rparr> else inode);
              err = - ENOSPC; b = block
          in if block < ndir then inode_getblk now inode (nat block) create b err fs
          else
            let block = block - ndir in
            if block < apb then do {
              (((bh, err), inode), fs) \<leftarrow> inode_getblk now inode EXT2_IND_BLOCK create b err fs;
              block_getblk now inode bh (nat block) create b err fs
            }
            else
              let block = block - apb in
              if block < apb * apb then do {
                (((bh, err), inode), fs) \<leftarrow> inode_getblk now inode EXT2_DIND_BLOCK create b err fs;
                (((bh, err), inode), fs) \<leftarrow> block_getblk now inode bh (nat (block div apb)) create b err fs;
                block_getblk now inode bh (nat (block AND (apb - 1))) create b err fs
              }
              else
                let block = block - apb * apb in do {
                  (((bh, err), inode), fs) \<leftarrow> inode_getblk now inode EXT2_TIND_BLOCK create b err fs;
                  (((bh, err), inode), fs) \<leftarrow> block_getblk now inode bh (nat (block div (apb * apb))) create b err fs;
                  (((bh, err), inode), fs) \<leftarrow> block_getblk now inode bh (nat ((block div apb) AND (apb - 1))) create b err fs;
                  block_getblk now inode bh (nat (block AND (apb - 1))) create b err fs
                })"

definition ext2_bread :: "u32 \<Rightarrow> inode \<Rightarrow> int \<Rightarrow> bool \<Rightarrow> int \<Rightarrow> ext2_fs \<Rightarrow> getblk_result option" where
  "ext2_bread now inode block create err fs = do {
     (((bh, err), inode), fs) \<leftarrow> ext2_getblk now inode block create err fs;
     case bh of
       None \<Rightarrow> Some (((None, err), inode), fs)
     | Some b \<Rightarrow>
         if b_data fs b \<noteq> None then Some (((bh, err), inode), fs)
         else Some (((None, - EIO), inode), brelse bh fs)
   }"

end
