(* ===== verification/Ext2_Truncate.thy ===== *)
theory Ext2_Truncate
  imports Ext2_Bmap "HOL-Library.Signed_Division"
begin

text \<open>
  \<open>src/ext2/truncate.c\<close>: \<open>trunc_direct\<close>, \<open>trunc_indirect\<close>, \<open>trunc_dindirect\<close>, \<open>trunc_tindirect\<close> and
  \<open>ext2_truncate\<close>; and \<open>ext2_put_inode\<close> of \<open>src/ext2/inode.c\<close>.

  The state that the functions thread is the inode and the random seed of secure deletion, beside the
  file system. A pointer to a block number points into the inode or into a buffer: a \<open>slot\<close>. Nothing
  runs between two statements here, so the tests for a pointer that changed meanwhile (\<open>tmp != *p\<close>)
  and for an \<open>i\<close> below the first block (\<open>goto repeat\<close>) never fire and are left out; what other threads
  do while \<open>ext2_truncate\<close> yields is the argument \<open>yield\<close>. A loop \<open>for (i = a; i < b; i++)\<close> is a
  recursion on the steps left.
\<close>

definition EXT2_SECRM_FL :: u32 where "EXT2_SECRM_FL = 1"

text \<open>
  \<open>get_hash_table\<close> returns the buffer of a block with one more reference if the block is in the cache.
  A buffer without references may or may not be there; the caller tests a found buffer for other
  references and releases it, so both cases are the same to it, and are \<open>None\<close> here.
\<close>

definition get_hash_table :: "u32 \<Rightarrow> ext2_fs \<Rightarrow> u32 option \<times> ext2_fs" where
  "get_hash_table b fs = (if b_count fs b = 0 then (None, fs) else getblk b fs)"

type_synonym trunc_state = "inode \<times> u32"

subsection \<open>Slots\<close>

datatype slot = In_inode nat | In_buffer u32 nat

fun read_slot :: "slot \<Rightarrow> inode \<Rightarrow> ext2_fs \<Rightarrow> u32 option" where
  "read_slot (In_inode nr) inode fs = (if nr < length (i_data inode) then Some (i_data inode ! nr) else None)"
| "read_slot (In_buffer bh nr) inode fs = do { bs \<leftarrow> b_data fs bh; entry bs nr }"

fun write_slot :: "slot \<Rightarrow> u32 \<Rightarrow> inode \<Rightarrow> ext2_fs \<Rightarrow> (inode \<times> ext2_fs) option" where
  "write_slot (In_inode nr) v inode fs =
     (if nr < length (i_data inode) then Some (inode\<lparr>i_data := (i_data inode)[nr := v]\<rparr>, fs) else None)"
| "write_slot (In_buffer bh nr) v inode fs = do {
     bs \<leftarrow> b_data fs bh;
     if 4 * nr + 4 \<le> length bs then Some (inode, fs\<lparr>b_data := (b_data fs)(bh \<mapsto> put32 (4 * nr) v bs)\<rparr>) else None
   }"

subsection \<open>What the loops share\<close>

definition DIRECT_BLOCK :: "ext2_fs \<Rightarrow> inode \<Rightarrow> nat" where
  "DIRECT_BLOCK fs inode = unat ((i_size inode + of_nat (s_blocksize fs) - 1) div of_nat (s_blocksize fs))"

definition sectors :: "ext2_fs \<Rightarrow> u32" where
  "sectors fs = of_nat (s_blocksize fs div 512)"

definition trunc_getblk :: "inode \<Rightarrow> u32 \<Rightarrow> ext2_fs \<Rightarrow> u32 option \<times> ext2_fs" where
  "trunc_getblk inode tmp fs =
     (if e_flags inode AND EXT2_SECRM_FL \<noteq> 0 then getblk tmp fs else get_hash_table tmp fs)"

definition in_use :: "u32 option \<Rightarrow> ext2_fs \<Rightarrow> bool" where
  "in_use bh fs = (case bh of None \<Rightarrow> False | Some b \<Rightarrow> b_count fs b \<noteq> 1)"

text \<open>\<open>RANDOM_INT\<close> steps the seed; \<open>memset\<close> uses its low byte.\<close>

definition secure_delete :: "inode \<Rightarrow> u32 option \<Rightarrow> u32 \<Rightarrow> ext2_fs \<Rightarrow> u32 \<times> ext2_fs" where
  "secure_delete inode bh seed fs =
     (case bh of
        Some b \<Rightarrow>
          if e_flags inode AND EXT2_SECRM_FL \<noteq> 0 then
            let seed = seed * 69069 + 1
            in (seed, mark_buffer_dirty b (fs\<lparr>b_data := (b_data fs)(b \<mapsto> replicate (s_blocksize fs) (ucast seed))\<rparr>))
          else (seed, fs)
      | None \<Rightarrow> (seed, fs))"

text \<open>\<open>block_to_free\<close> and \<open>free_count\<close>: a run of consecutive blocks that is freed with one call.\<close>

type_synonym run = "u32 \<times> u32"

definition add_run :: "u32 \<Rightarrow> run \<Rightarrow> run fsop" where
  "add_run tmp run fs =
     (let (block_to_free, free_count) = run in
      if free_count = 0 then Some ((tmp, 1), fs)
      else if block_to_free = tmp - free_count then Some ((block_to_free, free_count + 1), fs)
      else do {
        fs \<leftarrow> ext2_free_blocks block_to_free free_count fs;
        Some ((tmp, 1), fs)
      })"

definition flush_run :: "run \<Rightarrow> ext2_fs \<Rightarrow> ext2_fs option" where
  "flush_run run fs =
     (let (block_to_free, free_count) = run in
      if free_count > 0 then ext2_free_blocks block_to_free free_count fs else Some fs)"

subsection \<open>trunc_direct\<close>

fun trunc_direct_loop :: "u32 \<Rightarrow> nat \<Rightarrow> nat \<Rightarrow> bool \<Rightarrow> run \<Rightarrow> inode \<Rightarrow> u32 \<Rightarrow> ((bool \<times> run) \<times> trunc_state) fsop" where
  "trunc_direct_loop blocks 0 i retry run inode seed fs = Some (((retry, run), (inode, seed)), fs)"
| "trunc_direct_loop blocks (Suc n) i retry run inode seed fs =
     (let tmp = i_data inode ! i in
      if tmp = 0 then trunc_direct_loop blocks n (Suc i) retry run inode seed fs
      else case trunc_getblk inode tmp fs of (bh, fs) \<Rightarrow>
        if in_use bh fs then trunc_direct_loop blocks n (Suc i) True run inode seed (brelse bh fs)
        else
          let inode = inode\<lparr>i_data := (i_data inode)[i := 0], i_blocks := i_blocks inode - blocks, i_dirt := True\<rparr>
          in case secure_delete inode bh seed fs of (seed, fs) \<Rightarrow> do {
               (run, fs) \<leftarrow> add_run tmp run (brelse bh fs);
               trunc_direct_loop blocks n (Suc i) retry run inode seed fs
             })"

definition trunc_direct :: "inode \<Rightarrow> u32 \<Rightarrow> (bool \<times> trunc_state) fsop" where
  "trunc_direct inode seed fs =
     (let d = DIRECT_BLOCK fs inode in do {
        (((retry, run), (inode, seed)), fs) \<leftarrow>
          trunc_direct_loop (sectors fs) (EXT2_NDIR_BLOCKS - d) d False (0, 0) inode seed fs;
        fs \<leftarrow> flush_run run fs;
        Some ((retry, (inode, seed)), fs)
      })"

subsection \<open>trunc_indirect\<close>

fun trunc_indirect_loop :: "u32 \<Rightarrow> nat \<Rightarrow> nat \<Rightarrow> u32 \<Rightarrow> bool \<Rightarrow> run \<Rightarrow> inode \<Rightarrow> u32 \<Rightarrow> ((bool \<times> run) \<times> trunc_state) fsop" where
  "trunc_indirect_loop blocks 0 i ind_bh retry run inode seed fs = Some (((retry, run), (inode, seed)), fs)"
| "trunc_indirect_loop blocks (Suc n) i ind_bh retry run inode seed fs = do {
     tmp \<leftarrow> read_slot (In_buffer ind_bh i) inode fs;
     if tmp = 0 then trunc_indirect_loop blocks n (Suc i) ind_bh retry run inode seed fs
     else case trunc_getblk inode tmp fs of (bh, fs) \<Rightarrow>
       if in_use bh fs then trunc_indirect_loop blocks n (Suc i) ind_bh True run inode seed (brelse bh fs)
       else do {
         (inode, fs) \<leftarrow> write_slot (In_buffer ind_bh i) 0 inode fs;
         let fs = mark_buffer_dirty ind_bh fs;
         case secure_delete inode bh seed fs of (seed, fs) \<Rightarrow> do {
           (run, fs) \<leftarrow> add_run tmp run (brelse bh fs);
           let inode = inode\<lparr>i_blocks := i_blocks inode - blocks, i_dirt := True\<rparr>;
           trunc_indirect_loop blocks n (Suc i) ind_bh retry run inode seed fs
         }
       }
   }"

text \<open>The scan \<open>for (i = 0; i < addr_per_block; i++) if (*(ind++)) break;\<close>\<close>

definition all_zero :: "ext2_fs \<Rightarrow> u8 list \<Rightarrow> bool" where
  "all_zero fs bs \<longleftrightarrow> list_all (\<lambda>i. get32 (4 * i) bs = 0) [0..<EXT2_ADDR_PER_BLOCK fs]"

text \<open>
  What follows the loop in the three functions: an indirect block without entries is freed, unless
  another reference to its buffer exists; the buffer is written and released.
\<close>

definition release_indirect :: "u32 \<Rightarrow> slot \<Rightarrow> u32 \<Rightarrow> bool \<Rightarrow> inode \<Rightarrow> u32 \<Rightarrow> (bool \<times> trunc_state) fsop" where
  "release_indirect blocks p ind_bh retry inode seed fs = do {
     bs \<leftarrow> b_data fs ind_bh;
     ((retry, inode), fs) \<leftarrow>
       (if all_zero fs bs then
          if b_count fs ind_bh \<noteq> 1 then Some ((True, inode), fs)
          else do {
            tmp \<leftarrow> read_slot p inode fs;
            (inode, fs) \<leftarrow> write_slot p 0 inode fs;
            let inode = inode\<lparr>i_blocks := i_blocks inode - blocks, i_dirt := True\<rparr>;
            fs \<leftarrow> ext2_free_blocks tmp 1 fs;
            Some ((retry, inode), fs)
          }
        else Some ((retry, inode), fs));
     let fs = (if IS_SYNC inode \<and> b_dirt fs ind_bh then ll_rw_block_write ind_bh fs else fs);
     Some ((retry, (inode, seed)), brelse (Some ind_bh) fs)
   }"

definition trunc_indirect :: "inode \<Rightarrow> u32 \<Rightarrow> int \<Rightarrow> slot \<Rightarrow> (bool \<times> trunc_state) fsop" where
  "trunc_indirect inode seed offset p fs =
     (let apb = EXT2_ADDR_PER_BLOCK fs; blocks = sectors fs;
          indirect_block = int (DIRECT_BLOCK fs inode) - offset
      in do {
        tmp \<leftarrow> read_slot p inode fs;
        if tmp = 0 then Some ((False, (inode, seed)), fs)
        else case bread tmp fs of
          (None, fs) \<Rightarrow> do { (inode, fs) \<leftarrow> write_slot p 0 inode fs; Some ((False, (inode, seed)), fs) }
        | (Some ind_bh, fs) \<Rightarrow> do {
            (((retry, run), (inode, seed)), fs) \<leftarrow>
              trunc_indirect_loop blocks (apb - nat indirect_block) (nat indirect_block) ind_bh False (0, 0) inode seed fs;
            fs \<leftarrow> flush_run run fs;
            release_indirect blocks p ind_bh retry inode seed fs
          }
      })"

subsection \<open>trunc_dindirect and trunc_tindirect\<close>

fun trunc_dindirect_loop :: "nat \<Rightarrow> nat \<Rightarrow> u32 \<Rightarrow> int \<Rightarrow> bool \<Rightarrow> inode \<Rightarrow> u32 \<Rightarrow> (bool \<times> trunc_state) fsop" where
  "trunc_dindirect_loop 0 i dind_bh offset retry inode seed fs = Some ((retry, (inode, seed)), fs)"
| "trunc_dindirect_loop (Suc n) i dind_bh offset retry inode seed fs = do {
     tmp \<leftarrow> read_slot (In_buffer dind_bh i) inode fs;
     if tmp = 0 then trunc_dindirect_loop n (Suc i) dind_bh offset retry inode seed fs
     else do {
       ((r, (inode, seed)), fs) \<leftarrow>
         trunc_indirect inode seed (offset + int i * int (EXT2_ADDR_PER_BLOCK fs)) (In_buffer dind_bh i) fs;
       trunc_dindirect_loop n (Suc i) dind_bh offset (retry \<or> r) inode seed (mark_buffer_dirty dind_bh fs)
     }
   }"

definition trunc_dindirect :: "inode \<Rightarrow> u32 \<Rightarrow> int \<Rightarrow> slot \<Rightarrow> (bool \<times> trunc_state) fsop" where
  "trunc_dindirect inode seed offset p fs =
     (let apb = EXT2_ADDR_PER_BLOCK fs; blocks = sectors fs;
          dindirect_block = (int (DIRECT_BLOCK fs inode) - offset) sdiv int apb
      in do {
        tmp \<leftarrow> read_slot p inode fs;
        if tmp = 0 then Some ((False, (inode, seed)), fs)
        else case bread tmp fs of
          (None, fs) \<Rightarrow> do { (inode, fs) \<leftarrow> write_slot p 0 inode fs; Some ((False, (inode, seed)), fs) }
        | (Some dind_bh, fs) \<Rightarrow> do {
            ((retry, (inode, seed)), fs) \<leftarrow>
              trunc_dindirect_loop (apb - nat dindirect_block) (nat dindirect_block) dind_bh offset False inode seed fs;
            release_indirect blocks p dind_bh retry inode seed fs
          }
      })"

fun trunc_tindirect_loop :: "nat \<Rightarrow> nat \<Rightarrow> u32 \<Rightarrow> bool \<Rightarrow> inode \<Rightarrow> u32 \<Rightarrow> (bool \<times> trunc_state) fsop" where
  "trunc_tindirect_loop 0 i tind_bh retry inode seed fs = Some ((retry, (inode, seed)), fs)"
| "trunc_tindirect_loop (Suc n) i tind_bh retry inode seed fs =
     (let apb = int (EXT2_ADDR_PER_BLOCK fs) in do {
        ((r, (inode, seed)), fs) \<leftarrow>
          trunc_dindirect inode seed (int EXT2_NDIR_BLOCKS + apb + (int i + 1) * apb * apb) (In_buffer tind_bh i) fs;
        trunc_tindirect_loop n (Suc i) tind_bh (retry \<or> r) inode seed (mark_buffer_dirty tind_bh fs)
      })"

definition trunc_tindirect :: "inode \<Rightarrow> u32 \<Rightarrow> (bool \<times> trunc_state) fsop" where
  "trunc_tindirect inode seed fs =
     (let apb = EXT2_ADDR_PER_BLOCK fs; blocks = sectors fs;
          tindirect_block = (int (DIRECT_BLOCK fs inode) - (int apb * int apb + int apb + int EXT2_NDIR_BLOCKS))
                              sdiv (int apb * int apb);
          p = In_inode EXT2_TIND_BLOCK
      in do {
        tmp \<leftarrow> read_slot p inode fs;
        if tmp = 0 then Some ((False, (inode, seed)), fs)
        else case bread tmp fs of
          (None, fs) \<Rightarrow> do { (inode, fs) \<leftarrow> write_slot p 0 inode fs; Some ((False, (inode, seed)), fs) }
        | (Some tind_bh, fs) \<Rightarrow> do {
            ((retry, (inode, seed)), fs) \<leftarrow>
              trunc_tindirect_loop (apb - nat tindirect_block) (nat tindirect_block) tind_bh False inode seed fs;
            release_indirect blocks p tind_bh retry inode seed fs
          }
      })"

subsection \<open>ext2_truncate\<close>

definition IS_APPEND :: "inode \<Rightarrow> bool" where "IS_APPEND inode = (i_flags inode AND S_APPEND \<noteq> 0)"
definition IS_IMMUTABLE :: "inode \<Rightarrow> bool" where "IS_IMMUTABLE inode = (i_flags inode AND S_IMMUTABLE \<noteq> 0)"

definition trunc_round :: "inode \<Rightarrow> u32 \<Rightarrow> (bool \<times> trunc_state) fsop" where
  "trunc_round inode seed fs = do {
     ((r1, (inode, seed)), fs) \<leftarrow> trunc_direct inode seed fs;
     ((r2, (inode, seed)), fs) \<leftarrow> trunc_indirect inode seed (int EXT2_IND_BLOCK) (In_inode EXT2_IND_BLOCK) fs;
     ((r3, (inode, seed)), fs) \<leftarrow>
       trunc_dindirect inode seed (int EXT2_IND_BLOCK + int (EXT2_ADDR_PER_BLOCK fs)) (In_inode EXT2_DIND_BLOCK) fs;
     ((r4, (inode, seed)), fs) \<leftarrow> trunc_tindirect inode seed fs;
     Some ((r1 \<or> r2 \<or> r3 \<or> r4, (inode, seed)), fs)
   }"

partial_function (option) trunc_rounds ::
    "(ext2_fs \<Rightarrow> ext2_fs) \<Rightarrow> inode \<Rightarrow> u32 \<Rightarrow> ext2_fs \<Rightarrow> (trunc_state \<times> ext2_fs) option" where
  "trunc_rounds yield inode seed fs =
     Option.bind (trunc_round inode seed fs) (\<lambda>((retry, (inode, seed)), fs).
       if \<not> retry then Some ((inode, seed), fs)
       else Option.bind (if IS_SYNC inode \<and> i_dirt inode
                         then map_option (\<lambda>((_, inode), fs). (inode, fs)) (ext2_sync_inode inode fs)
                         else Some (inode, fs))
              (\<lambda>(inode, fs). trunc_rounds yield inode seed (yield fs)))"

declare trunc_rounds.simps [code]

definition ext2_truncate :: "(ext2_fs \<Rightarrow> ext2_fs) \<Rightarrow> u32 \<Rightarrow> inode \<Rightarrow> u32 \<Rightarrow> trunc_state fsop" where
  "ext2_truncate yield now inode seed fs =
     (if \<not> (S_ISREG (i_mode inode) \<or> S_ISDIR (i_mode inode) \<or> S_ISLNK (i_mode inode)) then Some ((inode, seed), fs)
      else if IS_APPEND inode \<or> IS_IMMUTABLE inode then Some ((inode, seed), fs)
      else do {
        (inode, fs) \<leftarrow> ext2_discard_prealloc inode fs;
        ((inode, seed), fs) \<leftarrow> trunc_rounds yield inode seed fs;
        Some ((inode\<lparr>i_mtime := now, i_ctime := now, i_dirt := True\<rparr>, seed), fs)
      })"

subsection \<open>ext2_put_inode\<close>

definition ext2_put_inode :: "(ext2_fs \<Rightarrow> ext2_fs) \<Rightarrow> u32 \<Rightarrow> inode \<Rightarrow> u32 \<Rightarrow> trunc_state fsop" where
  "ext2_put_inode yield now inode seed fs = do {
     (inode, fs) \<leftarrow> ext2_discard_prealloc inode fs;
     if i_nlink inode \<noteq> 0 \<or> i_ino inode = EXT2_ACL_IDX_INO \<or> i_ino inode = EXT2_ACL_DATA_INO
     then Some ((inode, seed), fs)
     else do {
       let inode = inode\<lparr>i_size := 0\<rparr>;
       ((inode, seed), fs) \<leftarrow>
         (if i_blocks inode \<noteq> 0 then ext2_truncate yield now inode seed fs else Some ((inode, seed), fs));
       fs \<leftarrow> ext2_free_inode now inode fs;
       Some ((inode, seed), fs)
     }
   }"

end
