(* ===== verification/Ext2_Bmap_Props.thy ===== *)
theory Ext2_Bmap_Props
  imports Ext2_Bmap Ext2_Balloc_Props Ext2_Inode_Props
begin

text \<open>
  The theorems about the block map. \<open>file_block\<close> is the map as a function of the inode and of the
  contents of the blocks; \<open>ext2_bmap\<close> and \<open>ext2_getblk\<close> without \<open>create\<close> are proved to compute it.
\<close>

section \<open>The block map as a function\<close>

text \<open>Entry \<open>nr\<close> of the indirect block \<open>i\<close>; \<open>0\<close> for no block and for a block that cannot be read.\<close>

definition ind :: "ext2_fs \<Rightarrow> u32 \<Rightarrow> nat \<Rightarrow> u32" where
  "ind fs i nr = (if i = 0 then 0 else case b_data fs i of None \<Rightarrow> 0 | Some bs \<Rightarrow> get32 (4 * nr) bs)"

definition max_blocks :: "ext2_fs \<Rightarrow> nat" where
  "max_blocks fs = (let a = EXT2_ADDR_PER_BLOCK fs in 12 + a + a * a + a * a * a)"

definition file_block :: "ext2_fs \<Rightarrow> inode \<Rightarrow> nat \<Rightarrow> u32" where
  "file_block fs inode n =
     (let a = EXT2_ADDR_PER_BLOCK fs in
      if n < 12 then i_data inode ! n
      else if n < 12 + a then ind fs (i_data inode ! 12) (n - 12)
      else if n < 12 + a + a * a then
        let m = n - 12 - a in ind fs (ind fs (i_data inode ! 13) (m div a)) (m mod a)
      else
        let m = n - 12 - a - a * a in
        ind fs (ind fs (ind fs (i_data inode ! 14) (m div (a * a))) (m div a mod a)) (m mod a))"

text \<open>Blocks have a size of four times a power of two, and a buffer has the size of a block.\<close>

definition blocks_wf :: "ext2_fs \<Rightarrow> bool" where
  "blocks_wf fs \<longleftrightarrow> (\<exists>k. s_blocksize fs = 4 * 2 ^ k) \<and> (\<forall>b bs. b_data fs b = Some bs \<longrightarrow> length bs = s_blocksize fs)"

lemma blocks_wf_apb:
  assumes "blocks_wf fs"
  obtains k where "EXT2_ADDR_PER_BLOCK fs = 2 ^ k" and "s_blocksize fs = 4 * EXT2_ADDR_PER_BLOCK fs"
proof -
  obtain k where "s_blocksize fs = 4 * 2 ^ k" using assms unfolding blocks_wf_def by blast
  then show thesis using that [of k] by (simp add: EXT2_ADDR_PER_BLOCK_def)
qed

lemma blocks_wf_length:
  "blocks_wf fs \<Longrightarrow> b_data fs b = Some bs \<Longrightarrow> length bs = 4 * EXT2_ADDR_PER_BLOCK fs"
  using blocks_wf_apb [of fs] unfolding blocks_wf_def by metis

lemma blocks_wf_entry:
  assumes "blocks_wf fs" and "b_data fs b = Some bs" and "nr < EXT2_ADDR_PER_BLOCK fs"
  shows "entry bs nr = Some (get32 (4 * nr) bs)"
proof -
  show ?thesis using blocks_wf_length [OF assms(1,2)] assms(3) by (simp add: entry_def)
qed

lemma int_and_mask: "0 \<le> x \<Longrightarrow> nat (x AND (int (2 ^ k) - 1)) = nat x mod 2 ^ k"
proof -
  assume x: "0 \<le> x"
  have "x AND (2 ^ k - 1) = x mod 2 ^ k"
    by (metis mask_eq_exp_minus_1 take_bit_eq_mask take_bit_eq_mod)
  then show ?thesis using x by (simp add: nat_mod_distrib nat_power_eq)
qed

section \<open>ext2_bmap\<close>

lemma bread_eq:
  "bread i fs = (if b_data fs i = None then (None, fs) else (Some i, fs\<lparr>b_count := (b_count fs)(i := Suc (b_count fs i))\<rparr>))"
  by (auto simp: bread_def getblk_def brelse_def)

lemma bmap_step_ind:
  assumes "blocks_wf fs" and "nr < EXT2_ADDR_PER_BLOCK fs"
  shows "bmap_step i nr fs = Some (ind fs i nr, fs)"
proof (cases "i = 0 \<or> b_data fs i = None")
  case True
  then show ?thesis by (auto simp: bmap_step_def ind_def bread_eq block_bmap_def)
next
  case False
  then obtain bs where bs: "b_data fs i = Some bs" by auto
  show ?thesis
    using False bs blocks_wf_entry [OF assms(1) bs assms(2)]
    by (simp add: bmap_step_def ind_def bread_eq block_bmap_def brelse_def)
qed

text \<open>The indices that the source computes from a block number in the double and triple range.\<close>

lemma level_index:
  assumes "a = 2 ^ k" and "m < a * a * a"
  shows "m div (a * a) < a" and "nat (int m div (int a * int a)) = m div (a * a)"
    and "nat ((int m div int a) AND (int a - 1)) = m div a mod a" and "nat (int m AND (int a - 1)) = m mod a"
    and "m div a mod a < a" and "m mod a < a" and "m < a * a \<Longrightarrow> m div a < a" and "nat (int m div int a) = m div a"
proof -
  show "m div (a * a) < a" using assms(2) by (simp add: less_mult_imp_div_less mult.commute mult.left_commute)
  show "nat (int m div (int a * int a)) = m div (a * a)" "nat (int m div int a) = m div a"
    by (metis nat_int of_nat_mult zdiv_int) (metis nat_int zdiv_int)
  have "int m div int a = int (m div a)" by (simp add: zdiv_int)
  then show "nat ((int m div int a) AND (int a - 1)) = m div a mod a"
    using int_and_mask [of "int (m div a)" k] assms(1) by simp
  show "nat (int m AND (int a - 1)) = m mod a" using int_and_mask [of "int m" k] assms(1) by simp
  show "m div a mod a < a" "m mod a < a" using assms(1) by simp_all
  show "m < a * a \<Longrightarrow> m div a < a" by (simp add: less_mult_imp_div_less)
qed

lemma ext2_bmap_eq:
  assumes wf: "blocks_wf fs" and n: "n < max_blocks fs"
  shows "ext2_bmap inode (int n) fs = Some (file_block fs inode n, fs)"
proof -
  define a where "a = EXT2_ADDR_PER_BLOCK fs"
  obtain k where k: "a = 2 ^ k" using blocks_wf_apb [OF wf] unfolding a_def by blast
  have lim: "n < 12 + a + a * a + a * a * a" using n by (simp add: max_blocks_def a_def Let_def)
  have lim': "\<not> int n \<ge> int EXT2_NDIR_BLOCKS + int a + int a * int a + int a * int a * int a"
    using lim unfolding EXT2_NDIR_BLOCKS_def not_le of_nat_mult [symmetric] of_nat_add [symmetric] of_nat_less_iff by simp
  note st = bmap_step_ind [OF wf, folded a_def]
  have idx: "EXT2_IND_BLOCK = 12" "EXT2_DIND_BLOCK = 13" "EXT2_TIND_BLOCK = 14"
    by (simp_all add: EXT2_IND_BLOCK_def EXT2_DIND_BLOCK_def EXT2_TIND_BLOCK_def EXT2_NDIR_BLOCKS_def)
  consider (direct) "n < 12" | (single) "\<not> n < 12" "n < 12 + a"
    | (double) m where "n = 12 + a + m" "m < a * a" | (triple) m where "n = 12 + a + a * a + m" "m < a * a * a"
  proof -
    show thesis if t: "n < 12 \<Longrightarrow> thesis" "\<lbrakk>\<not> n < 12; n < 12 + a\<rbrakk> \<Longrightarrow> thesis"
        "\<And>m. n = 12 + a + m \<Longrightarrow> m < a * a \<Longrightarrow> thesis" "\<And>m. n = 12 + a + a * a + m \<Longrightarrow> m < a * a * a \<Longrightarrow> thesis"
      using t(3) [of "n - 12 - a"] t(4) [of "n - 12 - a - a * a"] t(1,2) lim by linarith
  qed
  then show ?thesis
  proof cases
    case direct
    then show ?thesis using lim' by (simp add: ext2_bmap_def Let_def file_block_def inode_bmap_def a_def EXT2_NDIR_BLOCKS_def)
  next
    case single
    have nat_n: "nat (int n - 12) = n - 12" by simp
    from single show ?thesis
      using lim' st [of "n - 12"] nat_n by (simp add: ext2_bmap_def Let_def file_block_def inode_bmap_def a_def EXT2_NDIR_BLOCKS_def idx)
  next
    case (double m)
    have m3: "m < a * a * a" using double(2) by (metis le_square less_le_trans mult.commute mult_le_mono1 nat_le_linear)
    note li = level_index [OF k m3]
    show ?thesis
      unfolding ext2_bmap_def Let_def a_def [symmetric] if_not_P [OF lim']
      using double li(7) [OF double(2)] li(4,6,8) st
      by (simp add: file_block_def inode_bmap_def a_def [symmetric] EXT2_NDIR_BLOCKS_def idx Let_def of_nat_mult [symmetric] del: of_nat_mult)
  next
    case (triple m)
    note li = level_index [OF k triple(2)]
    have nn: "\<not> int a * int a + int m < 0" by (simp add: not_less)
    show ?thesis
      unfolding ext2_bmap_def Let_def a_def [symmetric] if_not_P [OF lim']
      using triple li st nn
      by (simp add: file_block_def inode_bmap_def a_def [symmetric] EXT2_NDIR_BLOCKS_def idx Let_def)
  qed
qed

section \<open>ext2_getblk without create\<close>

text \<open>The buffer handed back for the block \<open>v\<close>, and the state with its reference.\<close>

definition got :: "u32 \<Rightarrow> u32 option" where
  "got v = (if v = 0 then None else Some v)"

definition held :: "u32 \<Rightarrow> ext2_fs \<Rightarrow> ext2_fs" where
  "held v fs = (if v = 0 then fs else fs\<lparr>b_count := (b_count fs)(v := Suc (b_count fs v))\<rparr>)"

lemma inode_getblk_lookup:
  "\<exists>e. inode_getblk now inode nr False b err fs = Some (((got (i_data inode ! nr), e), inode), held (i_data inode ! nr) fs)"
  by (simp add: inode_getblk.simps [of now inode nr False b err fs] got_def held_def getblk_def Let_def)

lemma block_getblk_lookup:
  assumes wf: "blocks_wf fs" and nr: "nr < EXT2_ADDR_PER_BLOCK fs"
  shows "\<exists>e. block_getblk now inode (got v) nr False b err (held v fs) =
    Some (((got (ind fs v nr), e), inode), held (ind fs v nr) fs)"
proof (cases "v = 0 \<or> b_data fs v = None")
  case True
  then show ?thesis by (auto simp: block_getblk_def got_def held_def ind_def brelse_def)
next
  case False
  then obtain bs where bs: "b_data fs v = Some bs" by auto
  let ?fs = "held v fs"
  have d: "b_data ?fs v = Some bs" using bs False by (simp add: held_def)
  have e: "entry bs nr = Some (ind fs v nr)" using blocks_wf_entry [OF wf bs nr] False bs by (simp add: ind_def)
  have rel: "brelse (Some v) ?fs = fs" using False by (simp add: held_def brelse_def)
  have rel2: "brelse (Some v) (snd (getblk w ?fs)) = held w fs" if "w \<noteq> 0" for w
    using False that by (cases "w = v") (auto simp: held_def brelse_def getblk_def fun_eq_iff fun_upd_twist)
  define X where "X = snd (getblk (ind fs v nr) ?fs)"
  have g: "getblk (ind fs v nr) ?fs = (Some (ind fs v nr), X)" by (simp add: X_def getblk_def)
  have "\<exists>e. block_entry_getblk now inode v nr False b err ?fs =
      Some (((got (ind fs v nr), e), inode), held (ind fs v nr) fs)"
  proof (cases "ind fs v nr = 0")
    case True
    then show ?thesis
      unfolding block_entry_getblk.simps [of now inode v nr False b err ?fs] d e bind.bind_lunit
      by (simp add: got_def rel) (simp add: held_def)
  next
    case nz: False
    show ?thesis
      unfolding block_entry_getblk.simps [of now inode v nr False b err ?fs] d e bind.bind_lunit if_P [OF nz]
        g prod.case rel2 [OF nz, folded X_def]
      using nz by (simp add: got_def)
  qed
  then show ?thesis using False d by (simp add: block_getblk_def got_def)
qed

lemma max_blocks_int:
  "int n < int (max_blocks fs) \<longleftrightarrow> \<not> int n \<ge> int EXT2_NDIR_BLOCKS + int (EXT2_ADDR_PER_BLOCK fs) +
     int (EXT2_ADDR_PER_BLOCK fs) * int (EXT2_ADDR_PER_BLOCK fs) +
     int (EXT2_ADDR_PER_BLOCK fs) * int (EXT2_ADDR_PER_BLOCK fs) * int (EXT2_ADDR_PER_BLOCK fs)"
  by (simp add: max_blocks_def Let_def EXT2_NDIR_BLOCKS_def not_le)

text \<open>Looking for a block may move the hints where the next block goes.\<close>

definition hinted :: "inode \<Rightarrow> inode \<Rightarrow> bool" where
  "hinted i i' \<longleftrightarrow> (\<exists>x y. i' = i\<lparr>e_next_alloc_block := x, e_next_alloc_goal := y\<rparr>)"

lemma hinted_refl: "hinted i i"
  unfolding hinted_def by (rule exI [where x = "e_next_alloc_block i"], rule exI [where x = "e_next_alloc_goal i"]) simp

lemma hintedI: "hinted i (i\<lparr>e_next_alloc_block := x, e_next_alloc_goal := y\<rparr>)"
  unfolding hinted_def by (intro exI) (rule refl)

lemma hinted_trans: "hinted i i1 \<Longrightarrow> hinted i1 i2 \<Longrightarrow> hinted i i2"
  unfolding hinted_def by (elim exE) (intro exI, simp)

lemma hinted_simps:
  "hinted i i' \<Longrightarrow> i_ino i' = i_ino i" "hinted i i' \<Longrightarrow> i_size i' = i_size i" "hinted i i' \<Longrightarrow> i_data i' = i_data i"
  "hinted i i' \<Longrightarrow> i_count i' = i_count i" "hinted i i' \<Longrightarrow> i_version i' = i_version i" "hinted i i' \<Longrightarrow> i_mode i' = i_mode i"
  "hinted i i' \<Longrightarrow> i_dirt i' = i_dirt i" "hinted i i' \<Longrightarrow> i_flags i' = i_flags i" "hinted i i' \<Longrightarrow> i_nlink i' = i_nlink i"
  by (auto simp: hinted_def)

lemma ext2_getblk_eq:
  assumes wf: "blocks_wf fs" and n: "n < max_blocks fs" and dasd: "i_ino inode \<noteq> INODE_DASD"
  shows "\<exists>e inode'. (i_data inode' = i_data inode \<and> hinted inode inode') \<and> ext2_getblk now inode (int n) False err fs =
    Some (((got (file_block fs inode n), e), inode'), held (file_block fs inode n) fs)"
proof -
  define a where "a = EXT2_ADDR_PER_BLOCK fs"
  obtain k where k: "a = 2 ^ k" using blocks_wf_apb [OF wf] unfolding a_def by blast
  have lim: "n < 12 + a + a * a + a * a * a" using n by (simp add: max_blocks_def a_def Let_def)
  have lim': "\<not> int n > 12 + int a + int a * int a + int a * int a * int a"
    using n max_blocks_int [of n fs] unfolding a_def EXT2_NDIR_BLOCKS_def by linarith
  have pos: "\<not> int n < 0" by simp
  define i where "i = (if of_int (int n) = e_next_alloc_block inode + 1
      then inode\<lparr>e_next_alloc_block := e_next_alloc_block inode + 1,
                  e_next_alloc_goal := e_next_alloc_goal inode + 1\<rparr> else inode)"
  have i: "i_data i = i_data inode" by (simp add: i_def)
  have h: "hinted inode i" unfolding i_def using hintedI hinted_refl by (simp split: if_split)
  have fb: "file_block fs i n = file_block fs inode n" unfolding file_block_def i by (rule refl)
  note ig = inode_getblk_lookup [of now i _ "int n" _ fs]
  note bg = block_getblk_lookup [OF wf, folded a_def, of _ now i _ "int n"]
  have idx: "EXT2_IND_BLOCK = 12" "EXT2_DIND_BLOCK = 13" "EXT2_TIND_BLOCK = 14" "EXT2_NDIR_BLOCKS = 12"
    by (simp_all add: EXT2_IND_BLOCK_def EXT2_DIND_BLOCK_def EXT2_TIND_BLOCK_def EXT2_NDIR_BLOCKS_def)
  note unf = ext2_getblk_def [of now inode "int n" False err fs] if_not_P [OF dasd] Let_def a_def [symmetric] idx of_nat_numeral
    if_not_P [OF lim'] if_not_P [OF pos] i_def [symmetric]
  have "\<exists>e. ext2_getblk now inode (int n) False err fs =
    Some (((got (file_block fs i n), e), i), held (file_block fs i n) fs)"
  proof -
    consider (direct) "n < 12" | (single) "\<not> n < 12" "n < 12 + a"
      | (double) m where "n = 12 + a + m" "m < a * a" | (triple) m where "n = 12 + a + a * a + m" "m < a * a * a"
    proof -
      show thesis if t: "n < 12 \<Longrightarrow> thesis" "\<lbrakk>\<not> n < 12; n < 12 + a\<rbrakk> \<Longrightarrow> thesis"
          "\<And>m. n = 12 + a + m \<Longrightarrow> m < a * a \<Longrightarrow> thesis" "\<And>m. n = 12 + a + a * a + m \<Longrightarrow> m < a * a * a \<Longrightarrow> thesis"
        using t(3) [of "n - 12 - a"] t(4) [of "n - 12 - a - a * a"] t(1,2) lim by linarith
    qed
    then show ?thesis
    proof cases
      case direct
      then show ?thesis
        unfolding unf using ig [of n "- ENOSPC"] by (simp add: file_block_def Let_def idx)
    next
      case single
      have nat_n: "nat (int n - 12) = n - 12" by simp
      obtain e1 where e1: "inode_getblk now i 12 False (int n) (- ENOSPC) fs =
          Some (((got (i_data i ! 12), e1), i), held (i_data i ! 12) fs)" using ig by blast
      have "n - 12 < a" using single by simp
      from bg [OF this, of "i_data i ! 12" e1] show ?thesis
        unfolding unf using single e1 nat_n by (simp add: file_block_def Let_def idx a_def [symmetric])
    next
      case (double m)
      have m3: "m < a * a * a" using double(2) by (metis le_square less_le_trans mult.commute mult_le_mono1 nat_le_linear)
      note li = level_index [OF k m3]
      obtain e1 where e1: "inode_getblk now i 13 False (int n) (- ENOSPC) fs =
          Some (((got (i_data i ! 13), e1), i), held (i_data i ! 13) fs)" using ig by blast
      let ?v = "ind fs (i_data i ! 13) (m div a)"
      obtain e2 where e2: "block_getblk now i (got (i_data i ! 13)) (m div a) False (int n) e1 (held (i_data i ! 13) fs) =
          Some (((got ?v, e2), i), held ?v fs)" using bg [OF li(7) [OF double(2)]] by blast
      obtain e3 where e3: "block_getblk now i (got ?v) (m mod a) False (int n) e2 (held ?v fs) =
          Some (((got (ind fs ?v (m mod a)), e3), i), held (ind fs ?v (m mod a)) fs)" using bg [OF li(6)] by blast
      have f: "file_block fs i n = ind fs ?v (m mod a)" using double by (simp add: file_block_def Let_def a_def [symmetric])
      have c: "\<not> int n < 12" "\<not> int n - 12 < int a" "int m < int a * int a"
        using double by (simp_all flip: of_nat_mult)
      have s: "int n - 12 - int a = int m" using double by simp
      show ?thesis
        unfolding unf f if_not_P [OF c(1)] if_not_P [OF c(2)] if_P [OF c(3)] s e1 bind.bind_lunit prod.case
          li(8) e2 li(4) e3
        by blast
    next
      case (triple m)
      note li = level_index [OF k triple(2)]
      obtain e1 where e1: "inode_getblk now i 14 False (int n) (- ENOSPC) fs =
          Some (((got (i_data i ! 14), e1), i), held (i_data i ! 14) fs)" using ig by blast
      let ?u = "ind fs (i_data i ! 14) (m div (a * a))"
      let ?v = "ind fs ?u (m div a mod a)"
      obtain e2 where e2: "block_getblk now i (got (i_data i ! 14)) (m div (a * a)) False (int n) e1 (held (i_data i ! 14) fs) =
          Some (((got ?u, e2), i), held ?u fs)" using bg [OF li(1)] by blast
      obtain e3 where e3: "block_getblk now i (got ?u) (m div a mod a) False (int n) e2 (held ?u fs) =
          Some (((got ?v, e3), i), held ?v fs)" using bg [OF li(5)] by blast
      obtain e4 where e4: "block_getblk now i (got ?v) (m mod a) False (int n) e3 (held ?v fs) =
          Some (((got (ind fs ?v (m mod a)), e4), i), held (ind fs ?v (m mod a)) fs)" using bg [OF li(6)] by blast
      have f: "file_block fs i n = ind fs ?v (m mod a)" using triple by (simp add: file_block_def Let_def a_def [symmetric])
      have c: "\<not> int n < 12" "\<not> int n - 12 < int a" "\<not> int n - 12 - int a < int a * int a"
        using triple by (simp_all flip: of_nat_mult)
      have s: "int n - 12 - int a - int a * int a = int m" using triple by simp
      show ?thesis
        unfolding unf f if_not_P [OF c(1)] if_not_P [OF c(2)] if_not_P [OF c(3)] s e1 bind.bind_lunit prod.case
          li(2) e2 li(3) e3 li(4) e4
        by blast
    qed
  qed
  then show ?thesis unfolding fb using i h by blast
qed

text \<open>C11. For every block number of a file, \<open>ext2_getblk\<close> without \<open>create\<close> finds the block that
  \<open>ext2_bmap\<close> computes: it returns its buffer with one more reference, or no buffer when there is no
  block; neither changes the contents of a block, the block pointers or any other buffer's reference
  count. Indirect blocks that cannot be read count as absent.\<close>

theorem getblk_finds_bmap:
  assumes "blocks_wf fs" and "n < max_blocks fs" and "i_ino inode \<noteq> INODE_DASD"
  shows "\<exists>v e inode'. ext2_bmap inode (int n) fs = Some (v, fs) \<and> v = file_block fs inode n \<and>
    i_data inode' = i_data inode \<and>
    ext2_getblk now inode (int n) False err fs =
      Some (((if v = 0 then None else Some v, e), inode'),
            if v = 0 then fs else fs\<lparr>b_count := (b_count fs)(v := Suc (b_count fs v))\<rparr>)"
  using ext2_bmap_eq [OF assms(1,2), of inode] ext2_getblk_eq [OF assms, of now err]
  unfolding got_def held_def by blast

lemma past_the_end:
  assumes wf: "blocks_wf fs" and ino: "i_ino inode \<noteq> INODE_DASD"
    and t: "i_data inode ! 14 \<noteq> 0" "b_data fs (i_data inode ! 14) = Some bs"
  shows "ext2_bmap inode (int (max_blocks fs)) fs = Some (0, fs)"
    and "ext2_getblk now inode (int (max_blocks fs)) create err fs = None"
proof -
  define a where "a = EXT2_ADDR_PER_BLOCK fs"
  obtain k where k: "a = 2 ^ k" using blocks_wf_apb [OF wf] unfolding a_def by blast
  then have a0: "0 < a" by simp
  define n where "n = max_blocks fs"
  have n: "int n = 12 + int a + int a * int a + int a * int a * int a"
    by (simp add: n_def max_blocks_def a_def Let_def)
  have idx: "EXT2_TIND_BLOCK = 14" "EXT2_NDIR_BLOCKS = 12"
    by (simp_all add: EXT2_TIND_BLOCK_def EXT2_DIND_BLOCK_def EXT2_IND_BLOCK_def EXT2_NDIR_BLOCKS_def)
  show "ext2_bmap inode (int (max_blocks fs)) fs = Some (0, fs)"
    unfolding ext2_bmap_def Let_def idx of_nat_numeral n_def [symmetric] a_def [symmetric] n by simp
  have pos: "\<not> int n < 0" by simp
  have lim: "\<not> int n > 12 + int a + int a * int a + int a * int a * int a" using n by simp
  define i where "i = (if of_int (int n) = e_next_alloc_block inode + 1
      then inode\<lparr>e_next_alloc_block := e_next_alloc_block inode + 1,
                  e_next_alloc_goal := e_next_alloc_goal inode + 1\<rparr> else inode)"
  have i: "i_data i ! 14 = i_data inode ! 14" by (simp add: i_def)
  have c: "\<not> int n < 12" "\<not> int n - 12 < int a" "\<not> int n - 12 - int a < int a * int a"
    using n a0 by (simp_all add: not_less)
  have s: "int n - 12 - int a - int a * int a = int a * int a * int a" using n by simp
  have nr: "nat (int a * int a * int a div (int a * int a)) = a" using a0 by simp
  have g: "inode_getblk now i 14 create (int n) (- ENOSPC) fs = Some (((Some (i_data inode ! 14), - ENOSPC), i), held (i_data inode ! 14) fs)"
    using t(1) by (simp add: inode_getblk.simps [of now i 14] i getblk_def held_def Let_def)
  have "entry bs a = None" using blocks_wf_length [OF wf t(2)] by (simp add: entry_def a_def)
  moreover have "b_data (held (i_data inode ! 14) fs) (i_data inode ! 14) = Some bs" using t by (simp add: held_def)
  ultimately have b: "block_getblk now i (Some (i_data inode ! 14)) a create (int n) (- ENOSPC) (held (i_data inode ! 14) fs) = None"
    by (simp add: block_getblk_def block_entry_getblk.simps [of now i "i_data inode ! 14" a])
  show "ext2_getblk now inode (int (max_blocks fs)) create err fs = None"
    unfolding n_def [symmetric] ext2_getblk_def if_not_P [OF ino] Let_def a_def [symmetric] idx of_nat_numeral
      if_not_P [OF pos] if_not_P [OF lim] i_def [symmetric] if_not_P [OF c(1)] if_not_P [OF c(2)] if_not_P [OF c(3)]
      s nr g bind.bind_lunit prod.case b bind.bind_lzero by (rule refl)
qed

text \<open>At the first block number past the largest file, \<open>ext2_bmap\<close> answers \<open>0\<close>, but the test of
  \<open>ext2_getblk\<close> lets the number pass: with a readable triple indirect block it reads an entry behind
  the end of that block.\<close>

theorem getblk_past_the_end:
  assumes "blocks_wf fs" and "i_ino inode \<noteq> INODE_DASD"
    and "i_data inode ! 14 \<noteq> 0" and "b_data fs (i_data inode ! 14) = Some bs"
  shows "ext2_bmap inode (int (max_blocks fs)) fs = Some (0, fs) \<and>
    ext2_getblk now inode (int (max_blocks fs)) create err fs = None"
  using past_the_end [OF assms] by blast

section \<open>Filling a hole\<close>

text \<open>Without a preallocated run, \<open>ext2_alloc_block\<close> is \<open>ext2_new_block\<close>.\<close>

lemma alloc_block_miss:
  assumes "e_prealloc_count inode = 0" and "ext2_alloc_block inode goal fs = Some ((b, inode'), fs')"
  obtains pre pre' where "ext2_new_block goal pre fs = Some ((b, pre'), fs')"
    and "S_ISREG (i_mode inode) \<Longrightarrow> \<exists>c p. pre \<noteq> None \<and> pre' = Some (c, p) \<and>
      inode' = inode\<lparr>e_prealloc_count := c, e_prealloc_block := p\<rparr>"
    and "\<not> S_ISREG (i_mode inode) \<Longrightarrow> pre = None \<and> inode' = inode"
proof (cases "S_ISREG (i_mode inode)")
  case True
  then obtain c p where "ext2_new_block goal (Some (e_prealloc_count inode, e_prealloc_block inode)) fs = Some ((b, Some (c, p)), fs')"
      "inode' = inode\<lparr>e_prealloc_count := c, e_prealloc_block := p\<rparr>"
    using assms by (auto simp: ext2_alloc_block_def ext2_discard_prealloc_def bind_eq_Some_conv)
  then show thesis using that True by blast
next
  case False
  then obtain pre' where "ext2_new_block goal None fs = Some ((b, pre'), fs')" "inode' = inode"
    using assms by (auto simp: ext2_alloc_block_def ext2_discard_prealloc_def bind_eq_Some_conv)
  then show thesis using that False by blast
qed

lemma direct_bound: "n < 12 \<Longrightarrow> 0 \<le> A \<Longrightarrow> int n < 12 + A + A * A + A * A * A"
  using mult_nonneg_nonneg [of A A] mult_nonneg_nonneg [of "A * A" A] by linarith

lemma new_block_layout:
  assumes "balloc_ok fs" and "ext2_new_block goal pre fs = Some ((b, pre'), fs')" and "b \<noteq> 0"
  shows "layout fs' = layout fs"
  by (rule new_block_views [OF assms]) (rule alloc_relD(1))

text \<open>C12. When \<open>ext2_getblk\<close> with \<open>create\<close> fills a hole among the direct blocks and returns a buffer,
  it is the buffer of a block that was free; the block is in use and zeroed afterwards, is stored in
  the inode and nowhere else, is counted in \<open>i_blocks\<close>, and \<open>ext2_bmap\<close> finds it. A regular file gets
  a run of at most seven blocks right behind it as its preallocation.\<close>

theorem getblk_fills_hole:
  assumes ok: "balloc_ok fs" and ino: "i_ino inode \<noteq> INODE_DASD" and n: "n < 12" "int n < fsize_limit fs"
    and len: "length (i_data inode) = EXT2_N_BLOCKS" and hole: "i_data inode ! n = 0" and pc: "e_prealloc_count inode = 0"
    and async: "\<not> IS_SYNC inode" "e_osync inode = 0"
    and r: "ext2_getblk now inode (int n) True err fs = Some (((Some b, e), inode'), fs')"
  shows "b \<noteq> 0 \<and> \<not> used fs (group_of fs b) (bit_of fs b) \<and> used fs' (group_of fs b) (bit_of fs b) \<and>
    b_data fs' b = Some (replicate (s_blocksize fs) 0) \<and> i_data inode' = (i_data inode)[n := b] \<and>
    i_blocks inode' = i_blocks inode + of_nat (s_blocksize fs div 512) \<and> i_dirt inode' \<and>
    ext2_bmap inode' (int n) fs' = Some (b, fs') \<and>
    (S_ISREG (i_mode inode) \<longrightarrow> e_prealloc_block inode' = b + 1 \<and> e_prealloc_count inode' \<le> 7)"
proof -
  define a where "a = EXT2_ADDR_PER_BLOCK fs"
  define i where "i = (if of_int (int n) = e_next_alloc_block inode + 1
      then inode\<lparr>e_next_alloc_block := e_next_alloc_block inode + 1,
                  e_next_alloc_goal := e_next_alloc_goal inode + 1\<rparr> else inode)"
  have i: "i_data i = i_data inode" "e_prealloc_count i = 0" "i_mode i = i_mode inode" "IS_SYNC i = IS_SYNC inode"
    "e_osync i = e_osync inode" "i_blocks i = i_blocks inode"
    using pc by (simp_all add: i_def IS_SYNC_def)
  have pos: "\<not> int n < 0" and big: "\<not> int n > 12 + int a + int a * int a + int a * int a * int a" and c12: "int n < 12"
    using n(1) direct_bound [OF n(1), of "int a"] by simp_all
  have "inode_getblk now i n True (int n) (- ENOSPC) fs = Some (((Some b, e), inode'), fs')"
    using r unfolding ext2_getblk_def if_not_P [OF ino] Let_def a_def [symmetric] EXT2_NDIR_BLOCKS_def of_nat_numeral
      if_not_P [OF pos] if_not_P [OF big] i_def [symmetric] if_P [OF c12] nat_int .
  note g = this [unfolded inode_getblk.simps [of now i n True "int n" "- ENOSPC" fs] i(1) hole Let_def]
  define goal where "goal = alloc_goal i (int n) (nearest_before n (\<lambda>k. i_data inode ! k))
      (e_block_group i * of_nat (s_blocks_per_group fs) + s_first_data_block fs)"
  have nl: "\<not> (\<not> True \<or> int n \<ge> fsize_limit fs)" using n(2) by simp
  obtain t i1 fs1 where al: "ext2_alloc_block i goal fs = Some ((t, i1), fs1)"
    using g nl unfolding goal_def [symmetric] by (cases "ext2_alloc_block i goal fs") auto
  obtain pre pre' where nb: "ext2_new_block goal pre fs = Some ((t, pre'), fs1)"
    and reg: "S_ISREG (i_mode i) \<Longrightarrow> \<exists>c p. pre \<noteq> None \<and> pre' = Some (c, p) \<and> i1 = i\<lparr>e_prealloc_count := c, e_prealloc_block := p\<rparr>"
    and nreg: "\<not> S_ISREG (i_mode i) \<Longrightarrow> pre = None \<and> i1 = i"
    by (rule alloc_block_miss [OF i(2) al]) blast
  have i1: "i_data i1 = i_data inode" "IS_SYNC i1 = IS_SYNC inode" "e_osync i1 = e_osync inode" "i_blocks i1 = i_blocks inode"
  proof -
    obtain c p where e: "i1 = i\<lparr>e_prealloc_count := c, e_prealloc_block := p\<rparr>"
    proof (cases "S_ISREG (i_mode i)")
      case True
      then show thesis using reg that by blast
    next
      case False
      then have "i1 = i\<lparr>e_prealloc_count := e_prealloc_count i, e_prealloc_block := e_prealloc_block i\<rparr>" using nreg by simp
      then show thesis by (rule that)
    qed
    have "IS_SYNC i1 = IS_SYNC i" unfolding e by (simp add: IS_SYNC_def)
    then show "IS_SYNC i1 = IS_SYNC inode" using i(4) by simp
    show "i_data i1 = i_data inode" "e_osync i1 = e_osync inode" "i_blocks i1 = i_blocks inode"
      unfolding e by (simp_all add: i(1,5,6))
  qed
  have t0: "t \<noteq> 0"
  proof
    assume "t = 0"
    then show False using g nl al unfolding goal_def [symmetric] by simp
  qed
  define i2 where "i2 = (block_added fs1 now (int n) t (i1\<lparr>i_data := (i_data inode)[n := t]\<rparr>))\<lparr>i_dirt := True\<rparr>"
  have fin: "b = t \<and> inode' = i2 \<and> fs' = snd (getblk t fs1)"
    using g nl al t0 hole async i1 unfolding goal_def [symmetric]
    by (simp add: getblk_def block_added_def IS_SYNC_def i2_def) (elim conjE, hypsubst, intro conjI, rule refl, rule refl)
  obtain m where m: "m \<le> 7" "pre' = map_option (\<lambda>_. (of_nat m, t + 1)) pre" "\<not> used fs (group_of fs t) (bit_of fs t + 0)"
      "\<And>h k. h < s_groups_count fs \<Longrightarrow> used fs1 h k =
         (used fs h k \<or> h = group_of fs t \<and> bit_of fs t \<le> k \<and> k \<le> bit_of fs t + m)"
      "b_data fs1 t = Some (replicate (s_blocksize fs) 0)" "s_first_data_block fs \<le> t" "t < s_blocks_count fs"
    using new_block_facts [OF ok nb t0] by blast
  have gr: "group_of fs t < s_groups_count fs"
    by (rule zone_block(1) [OF balloc_okD(1) [OF ok] m(6,7)])
  have us: "used (snd (getblk t fs1)) h k = used fs1 h k" for h k
  proof -
    have "desc_of (snd (getblk t fs1)) h = desc_of fs1 h" by (rule desc_of_cong) (simp_all add: getblk_def)
    then show ?thesis by (simp add: used_def getblk_def)
  qed
  have d2: "i_data i2 = (i_data inode)[n := t]" by (simp add: i2_def block_added_def)
  have sz: "s_blocksize fs1 = s_blocksize fs" by (rule layoutD(1) [OF new_block_layout [OF ok nb t0]])
  have bm: "ext2_bmap i2 (int n) F = Some (t, F)" for F
  proof -
    define A where "A = int (EXT2_ADDR_PER_BLOCK F)"
    have "\<not> int n \<ge> 12 + A + A * A + A * A * A" using direct_bound [OF n(1), of A] by (simp add: A_def)
    then show ?thesis
      using n(1) len unfolding ext2_bmap_def Let_def EXT2_NDIR_BLOCKS_def A_def [symmetric]
      by (simp add: inode_bmap_def d2 EXT2_N_BLOCKS_def)
  qed
  have pp: "S_ISREG (i_mode inode) \<Longrightarrow> e_prealloc_block i2 = t + 1 \<and> e_prealloc_count i2 \<le> 7"
  proof -
    assume "S_ISREG (i_mode inode)"
    then obtain c p where "pre \<noteq> None" "pre' = Some (c, p)" "i1 = i\<lparr>e_prealloc_count := c, e_prealloc_block := p\<rparr>"
      using reg i(3) by auto
    moreover have "of_nat m \<le> (7 :: u32)" using m(1) by (simp add: word_le_nat_alt unat_of_nat)
    ultimately show ?thesis using m(2) by (auto simp: i2_def block_added_def)
  qed
  have "i_blocks i2 = i_blocks inode + of_nat (s_blocksize fs div 512)" "i_dirt i2"
    using i1(4) by (simp_all add: i2_def block_added_def sz)
  then show ?thesis
    using fin t0 m(3,5) m(4) [OF gr] us d2 bm pp by (simp add: getblk_def)
qed

section \<open>Witnesses\<close>

text \<open>An inode with an indirect block in a file system where that block, block 50, maps to block 51.\<close>

definition example_map_fs :: ext2_fs where
  "example_map_fs = example_fs\<lparr>b_data := (b_data example_fs)(50 \<mapsto> put32 0 51 (replicate 128 0))\<rparr>"

definition example_map_inode :: inode where
  "example_map_inode = example_inode\<lparr>i_data := [40, 41, 42, 0, 0, 0, 0, 0, 0, 0, 0, 0, 50, 0, 50]\<rparr>"

lemma example_map_wf: "blocks_wf example_map_fs"
proof -
  have "length bs = 128" if "b_data example_map_fs b = Some bs" for b bs
    using that by (auto simp: example_map_fs_def example_fs_def example_data_def split: if_splits)
  moreover have "s_blocksize example_map_fs = 4 * 2 ^ 5" by (simp add: example_map_fs_def example_fs_def)
  ultimately show ?thesis unfolding blocks_wf_def by fastforce
qed

lemma example_map_size: "max_blocks example_map_fs = 33836"
  by (simp add: max_blocks_def EXT2_ADDR_PER_BLOCK_def example_map_fs_def example_fs_def Let_def)

theorem getblk_finds_bmap_witness:
  "\<exists>e inode'. ext2_bmap example_map_inode 12 example_map_fs = Some (51, example_map_fs) \<and>
     ext2_getblk 0 example_map_inode 12 False 0 example_map_fs =
       Some (((Some 51, e), inode'), example_map_fs\<lparr>b_count := (b_count example_map_fs)(51 := Suc (b_count example_map_fs 51))\<rparr>)"
proof -
  have v: "file_block example_map_fs example_map_inode 12 = 51"
    by (simp add: file_block_def ind_def example_map_inode_def example_map_fs_def example_fs_def
        EXT2_ADDR_PER_BLOCK_def Let_def buf_simps)
  have ino: "i_ino example_map_inode \<noteq> INODE_DASD"
    by (simp add: example_map_inode_def example_inode_def INODE_DASD_def)
  have n: "12 < max_blocks example_map_fs" by (simp add: example_map_size)
  show ?thesis using getblk_finds_bmap [OF example_map_wf n ino, of 0 0] unfolding v by auto
qed

theorem getblk_past_the_end_witness:
  "ext2_bmap example_map_inode 33836 example_map_fs = Some (0, example_map_fs) \<and>
     ext2_getblk 0 example_map_inode 33836 False 0 example_map_fs = None"
proof -
  have ino: "i_ino example_map_inode \<noteq> INODE_DASD"
    by (simp add: example_map_inode_def example_inode_def INODE_DASD_def)
  have t: "i_data example_map_inode ! 14 = 50" by (simp add: example_map_inode_def)
  have "b_data example_map_fs (i_data example_map_inode ! 14) = Some (put32 0 51 (replicate 128 0))"
    unfolding t by (simp add: example_map_fs_def)
  from getblk_past_the_end [OF example_map_wf ino _ this, of 0 False 0, unfolded t example_map_size]
  show ?thesis by simp
qed

theorem getblk_fills_hole_witness:
  "\<exists>e inode' fs'. ext2_getblk 7 example_inode 3 True 0 example_fs = Some (((Some 42, e), inode'), fs') \<and>
     i_data inode' = [40, 41, 42, 42, 0, 0, 0, 0, 0, 0, 0, 0, 0, 0, 0] \<and>
     ext2_bmap inode' 3 fs' = Some (42, fs')"
proof -
  have ino: "i_ino example_inode \<noteq> INODE_DASD" "e_prealloc_count example_inode = 0" "\<not> IS_SYNC example_inode"
      "e_osync example_inode = 0" "length (i_data example_inode) = EXT2_N_BLOCKS" "i_data example_inode ! 3 = 0"
    by (simp_all add: example_inode_def INODE_DASD_def IS_SYNC_def EXT2_N_BLOCKS_def)
  have lim: "int 3 < fsize_limit example_fs" by (simp add: fsize_limit_def example_fs_def)
  have "map_option (\<lambda>(((b, _), _), _). b) (ext2_getblk 7 example_inode (int 3) True 0 example_fs) = Some (Some 42)"
    by code_simp
  then obtain e inode' fs' where r: "ext2_getblk 7 example_inode (int 3) True 0 example_fs = Some (((Some 42, e), inode'), fs')"
    by auto
  show ?thesis
    using getblk_fills_hole [OF example_ok ino(1) _ lim ino(5,6,2,3,4) r] r by (simp add: example_inode_def)
qed

end
