(* ===== verification/Ext2_Ring.thy ===== *)
theory Ext2_Ring
  imports Ext2_Prelude
begin

text \<open>
  Doubly linked lists, as the driver builds them in the directory cache (\<open>src/vfs/dcache.c\<close>) and in
  the inode cache (\<open>src/vfs/inode.c\<close>): two functions \<open>n\<close> and \<open>p\<close> are the fields with the next and the
  previous element, and a list is what they describe. All facts on pointers that the two caches need
  are proved here once.
\<close>

section \<open>Segments\<close>

text \<open>From the node \<open>a\<close>, through the nodes \<open>xs\<close>, to the node \<open>b\<close>, in both directions.\<close>

fun dseg :: "('a \<Rightarrow> 'a) \<Rightarrow> ('a \<Rightarrow> 'a) \<Rightarrow> 'a \<Rightarrow> 'a list \<Rightarrow> 'a \<Rightarrow> bool" where
  "dseg n p a [] b \<longleftrightarrow> n a = b \<and> p b = a"
| "dseg n p a (x # xs) b \<longleftrightarrow> n a = x \<and> p x = a \<and> dseg n p x xs b"

lemma dseg_append: "dseg n p a (xs @ x # ys) b \<longleftrightarrow> dseg n p a xs x \<and> dseg n p x ys b"
  by (induction xs arbitrary: a) auto

lemma dseg_first: "dseg n p a xs b \<Longrightarrow> n a = hd (xs @ [b])"
  by (cases xs) auto

lemma dseg_last: "dseg n p a xs b \<Longrightarrow> p b = last (a # xs)"
  by (induction xs arbitrary: a) auto

lemma dseg_frame:
  "(\<And>x. x \<in> set (a # xs) \<Longrightarrow> n' x = n x) \<Longrightarrow> (\<And>x. x \<in> set (b # xs) \<Longrightarrow> p' x = p x) \<Longrightarrow>
     dseg n' p' a xs b \<longleftrightarrow> dseg n p a xs b"
  by (induction xs arbitrary: a) auto

text \<open>Taking a node out.\<close>

lemma dseg_unlink:
  assumes s: "dseg n p a (xs @ x # ys) b" and d: "distinct (a # xs @ x # ys)" and b: "b \<notin> set (xs @ x # ys)"
  shows "dseg (n(p x := n x)) (p(n x := p x)) a (xs @ ys) b"
proof -
  have l: "dseg n p a xs x" and r: "dseg n p x ys b" using s by (simp_all add: dseg_append)
  let ?n = "n(p x := n x)" and ?p = "p(n x := p x)"
  have px: "p x = last (a # xs)" using dseg_last [OF l] .
  have nx: "n x = hd (ys @ [b])" using dseg_first [OF r] .
  show ?thesis
  proof (cases xs rule: rev_cases)
    case Nil
    then have pa: "p x = a" using px by simp
    show ?thesis
    proof (cases ys)
      case Nil
      then show ?thesis using \<open>xs = []\<close> pa nx by simp
    next
      case (Cons y zs)
      have ny: "n x = y" using nx Cons by simp
      have "dseg ?n ?p y zs b \<longleftrightarrow> dseg n p y zs b"
        by (rule dseg_frame) (use d b pa ny \<open>xs = []\<close> Cons in auto)
      then show ?thesis using r \<open>xs = []\<close> Cons pa ny by simp
    qed
  next
    case (snoc zs l')
    have pl: "p x = l'" using px snoc by simp
    have nb: "n x \<notin> set (zs @ [l'])" using nx d b snoc by (cases ys) auto
    have "dseg n p a zs l'" using l snoc by (simp add: dseg_append)
    moreover have "dseg ?n ?p a zs l' \<longleftrightarrow> dseg n p a zs l'"
      by (rule dseg_frame) (use d pl nb snoc in auto)
    moreover have "dseg ?n ?p l' ys b"
    proof (cases ys)
      case Nil
      then show ?thesis using nx pl by simp
    next
      case (Cons y us)
      have ny: "n x = y" using nx Cons by simp
      have "dseg ?n ?p y us b \<longleftrightarrow> dseg n p y us b"
        by (rule dseg_frame) (use d b pl ny snoc Cons in auto)
      then show ?thesis using r Cons pl ny by simp
    qed
    ultimately show ?thesis unfolding snoc by (simp add: dseg_append)
  qed
qed

text \<open>Putting a node in behind the first and before the last.\<close>

lemma dseg_link_first:
  assumes s: "dseg n p a xs b" and d: "distinct (a # xs)" "b \<notin> set xs" and x: "x \<notin> set (a # b # xs)"
  shows "dseg (n(x := n a, a := x)) (p(x := a, n a := x)) a (x # xs) b"
proof (cases xs)
  case Nil
  then show ?thesis using s x by auto
next
  case (Cons y ys)
  have na: "n a = y" using s Cons by simp
  have "dseg (n(x := n a, a := x)) (p(x := a, n a := x)) y ys b \<longleftrightarrow> dseg n p y ys b"
    by (rule dseg_frame) (use d x na Cons in auto)
  then show ?thesis using s d x na Cons by auto
qed

lemma dseg_link_last:
  assumes s: "dseg n p a xs b" and d: "distinct (a # xs)" "b \<notin> set xs" and x: "x \<notin> set (a # b # xs)"
  shows "dseg (n(x := b, p b := x)) (p(x := p b, b := x)) a (xs @ [x]) b"
proof (cases xs rule: rev_cases)
  case Nil
  then show ?thesis using s x by auto
next
  case (snoc ys y)
  have pb: "p b = y" using dseg_last [OF s] snoc by simp
  have "dseg n p a ys y" using s snoc by (simp add: dseg_append)
  moreover have "dseg (n(x := b, p b := x)) (p(x := p b, b := x)) a ys y \<longleftrightarrow> dseg n p a ys y"
    by (rule dseg_frame) (use d x pb snoc in auto)
  ultimately show ?thesis using d x pb snoc by (auto simp: dseg_append)
qed

section \<open>Rings\<close>

definition ring :: "('a \<Rightarrow> 'a) \<Rightarrow> ('a \<Rightarrow> 'a) \<Rightarrow> 'a list \<Rightarrow> bool" where
  "ring n p xs \<longleftrightarrow> xs \<noteq> [] \<and> distinct xs \<and> dseg n p (hd xs) (tl xs) (hd xs)"

lemma ring_Cons: "ring n p (x # xs) \<longleftrightarrow> distinct (x # xs) \<and> dseg n p x xs x"
  by (simp add: ring_def)

lemma ring_next: "ring n p (x # y # ys) \<Longrightarrow> n x = y"
  by (simp add: ring_def)

lemma ring_prev: "ring n p (x # xs) \<Longrightarrow> p x = last (x # xs)"
  unfolding ring_Cons using dseg_last by metis

lemma ring_turn: "ring n p (xs @ x # ys) \<longleftrightarrow> ring n p (x # ys @ xs)"
  by (cases xs) (auto simp: ring_def dseg_append)

lemma ring_rotate: "ring n p (x # xs) \<Longrightarrow> ring n p (xs @ [x])"
  using ring_turn [of n p xs x "[]"] by simp

lemma ring_frame:
  "(\<And>x. x \<in> set xs \<Longrightarrow> n' x = n x) \<Longrightarrow> (\<And>x. x \<in> set xs \<Longrightarrow> p' x = p x) \<Longrightarrow> ring n' p' xs \<longleftrightarrow> ring n p xs"
proof (cases xs)
  case (Cons a as)
  assume "\<And>x. x \<in> set xs \<Longrightarrow> n' x = n x" "\<And>x. x \<in> set xs \<Longrightarrow> p' x = p x"
  then have "dseg n' p' a as a \<longleftrightarrow> dseg n p a as a" by (intro dseg_frame) (simp_all add: Cons)
  then show ?thesis by (simp add: Cons ring_Cons)
qed (simp add: ring_def)

lemma ring_closed:
  "ring n p xs \<Longrightarrow> x \<in> set xs \<Longrightarrow> n x \<in> set xs \<and> p x \<in> set xs"
proof -
  assume r: "ring n p xs" and "x \<in> set xs"
  then obtain us vs where "xs = us @ x # vs" by (meson split_list)
  then have t: "ring n p (x # vs @ us)" using r by (simp add: ring_turn)
  have "n x = hd (vs @ us @ [x])" using t dseg_first unfolding ring_Cons by force
  moreover have "p x = last (x # vs @ us)" using ring_prev [OF t] .
  ultimately show ?thesis
    using \<open>xs = us @ x # vs\<close> by (cases vs; cases us) auto
qed

lemma ring_next_other:
  assumes "ring n p (h # xs @ x # ys)"
  shows "n x \<noteq> x" and "p x \<noteq> x"
proof -
  have s: "dseg n p h xs x" "dseg n p x ys h" and d: "distinct (h # xs @ x # ys)"
    using assms by (auto simp: ring_Cons dseg_append)
  show "n x \<noteq> x" using dseg_first [OF s(2)] d by (cases ys) auto
  show "p x \<noteq> x" using dseg_last [OF s(1)] d by (cases xs rule: rev_cases) auto
qed

text \<open>Taking out a node that is not the head, and putting one in before the head, so at the end.\<close>

lemma ring_unlink:
  assumes "ring n p (h # xs @ x # ys)"
  shows "ring (n(p x := n x)) (p(n x := p x)) (h # xs @ ys)"
  using assms dseg_unlink [of n p h xs x ys h] by (auto simp: ring_Cons)

lemma ring_link_last:
  assumes "ring n p (h # xs)" and "x \<notin> set (h # xs)"
  shows "ring (n(x := h, p h := x)) (p(x := p h, h := x)) (h # xs @ [x])"
  using assms dseg_link_last [of n p h xs h x] by (auto simp: ring_Cons)

lemma ring_link_first:
  assumes "ring n p (h # xs)" and "x \<notin> set (h # xs)"
  shows "ring (n(x := n h, h := x)) (p(x := h, n h := x)) (h # x # xs)"
  using assms dseg_link_first [of n p h xs h x] by (auto simp: ring_Cons)

section \<open>Chains that end in a null pointer\<close>

text \<open>From the pointer \<open>first\<close> to the null pointer; the first element points back to \<open>before\<close>.\<close>

fun dchain :: "'a \<Rightarrow> ('a \<Rightarrow> 'a) \<Rightarrow> ('a \<Rightarrow> 'a) \<Rightarrow> 'a \<Rightarrow> 'a \<Rightarrow> 'a list \<Rightarrow> bool" where
  "dchain null n p before first [] \<longleftrightarrow> first = null"
| "dchain null n p before first (x # xs) \<longleftrightarrow> first = x \<and> x \<noteq> null \<and> p x = before \<and> dchain null n p x (n x) xs"

lemma dchain_frame:
  "(\<And>x. x \<in> set xs \<Longrightarrow> n' x = n x) \<Longrightarrow> (\<And>x. x \<in> set xs \<Longrightarrow> p' x = p x) \<Longrightarrow>
     dchain null n' p' b f xs \<longleftrightarrow> dchain null n p b f xs"
  by (induction xs arbitrary: b f) auto

text \<open>The chain up to and with the element \<open>l\<close>.\<close>

fun dpre :: "'a \<Rightarrow> ('a \<Rightarrow> 'a) \<Rightarrow> ('a \<Rightarrow> 'a) \<Rightarrow> 'a \<Rightarrow> 'a \<Rightarrow> 'a list \<Rightarrow> 'a \<Rightarrow> bool" where
  "dpre null n p before first [] l \<longleftrightarrow> first = l \<and> l \<noteq> null \<and> p l = before"
| "dpre null n p before first (x # xs) l \<longleftrightarrow> first = x \<and> x \<noteq> null \<and> p x = before \<and> dpre null n p x (n x) xs l"

lemma dchain_append: "dchain null n p b f (xs @ l # ys) \<longleftrightarrow> dpre null n p b f xs l \<and> dchain null n p l (n l) ys"
  by (induction xs arbitrary: b f) auto

lemma dpre_frame:
  "(\<And>x. x \<in> set xs \<Longrightarrow> n' x = n x) \<Longrightarrow> (\<And>x. x \<in> set (l # xs) \<Longrightarrow> p' x = p x) \<Longrightarrow>
     dpre null n' p' b f xs l \<longleftrightarrow> dpre null n p b f xs l"
  by (induction xs arbitrary: b f) auto

lemma dchain_not_null: "dchain null n p b f xs \<Longrightarrow> null \<notin> set xs"
  by (induction xs arbitrary: b f) auto

lemma dchain_first: "dchain null n p b f xs \<Longrightarrow> f = (if xs = [] then null else hd xs)"
  by (cases xs) auto

text \<open>Giving a chain another element before its first.\<close>

lemma dchain_before:
  assumes "dchain null n p b f ys" and "distinct ys" and "\<And>x. x \<in> set ys \<Longrightarrow> n' x = n x"
    and "\<And>x. x \<in> set ys \<Longrightarrow> p' x = (if x = f then b' else p x)"
  shows "dchain null n' p' b' f ys"
proof (cases ys)
  case (Cons y us)
  have "dchain null n' p' y (n y) us \<longleftrightarrow> dchain null n p y (n y) us"
    by (rule dchain_frame) (use assms Cons in auto)
  then show ?thesis using assms Cons by simp
qed (use assms(1) in simp)

lemma dchain_unlink:
  assumes c: "dchain null n p null f (xs @ x # ys)" and d: "distinct (xs @ x # ys)"
  defines "n' \<equiv> (if p x \<noteq> null then n(p x := n x) else n)" and "p' \<equiv> (if n x \<noteq> null then p(n x := p x) else p)"
  shows "dchain null n' p' null (if f = x then n x else f) (xs @ ys)"
proof -
  have pre: "dpre null n p null f xs x" and post: "dchain null n p x (n x) ys" using c by (simp_all add: dchain_append)
  have nn: "null \<notin> set (xs @ x # ys)" using dchain_not_null [OF c] .
  have nx: "n x = (if ys = [] then null else hd ys)" using dchain_first [OF post] .
  then have nin: "n x \<in> insert null (set ys)" by auto
  have tail: "p' y = (if y = n x then p x else p y)" if "y \<in> set ys" for y using that nn nx by (auto simp: p'_def)
  show ?thesis
  proof (cases xs rule: rev_cases)
    case Nil
    then have px: "f = x" "p x = null" using pre by simp_all
    have "dchain null n' p' null (n x) ys"
      by (rule dchain_before [OF post]) (use d tail px in \<open>auto simp: n'_def\<close>)
    then show ?thesis using Nil px by simp
  next
    case (snoc zs l)
    have "dchain null n p null f (zs @ l # x # ys)" using c snoc by simp
    then have z: "dpre null n p null f zs l" and px: "p x = l" by (simp_all add: dchain_append)
    have ln: "l \<noteq> null" using nn snoc by auto
    have "dpre null n' p' null f zs l \<longleftrightarrow> dpre null n p null f zs l"
      by (rule dpre_frame) (use d nn nin px snoc in \<open>auto simp: n'_def p'_def split: if_splits\<close>)
    moreover have "dchain null n' p' l (n x) ys"
      by (rule dchain_before [OF post]) (use d tail px ln snoc in \<open>auto simp: n'_def\<close>)
    moreover have "n' l = n x" using px ln by (simp add: n'_def)
    moreover have "f \<noteq> x" using z d snoc by (cases zs) auto
    ultimately show ?thesis using z snoc by (simp add: dchain_append)
  qed
qed

lemma dchain_link:
  assumes "dchain null n p null f xs" and "distinct xs" and "x \<notin> set xs" and "x \<noteq> null"
  shows "dchain null (n(x := f)) (if f \<noteq> null then (p(x := null))(f := x) else p(x := null)) null x (x # xs)"
proof -
  have "f = x \<Longrightarrow> False" using dchain_first [OF assms(1)] assms(3,4) by (cases xs) auto
  moreover have "dchain null (n(x := f)) (if f \<noteq> null then (p(x := null))(f := x) else p(x := null)) x f xs"
    by (rule dchain_before [OF assms(1)]) (use assms dchain_not_null [OF assms(1)] in auto)
  ultimately show ?thesis using assms(4) by auto
qed

end
