(* ===== verification/Ext2_Dcache.thy ===== *)
theory Ext2_Dcache
  imports Ext2_Inode Ext2_Ring
begin

text \<open>
  The directory cache: all of \<open>src/vfs/dcache.c\<close>. It maps a directory (device, inode and version) and a
  short name to an inode number, in two arrays of \<open>DCACHE_SIZE\<close> entries, the two levels. Each level has
  its entries on a ring in the order of their last use (\<open>next_lru\<close>, \<open>prev_lru\<close>); an entry that holds
  something is on the ring of the queue its hash gives (\<open>h.next\<close>, \<open>h.prev\<close>), whose head is not an
  entry but is addressed as one by a cast.

  A pointer \<open>struct dir_cache_entry *\<close> is null, the head of a queue or an entry; entries are numbered
  through both levels, those of level 1 first. The fields are functions from entries, the hash links
  functions from pointers. Writing through a null pointer is \<open>None\<close>. A directory is given by its device,
  and by the inode number and version of its inode.
\<close>

definition DCACHE_NAME_LEN :: nat where "DCACHE_NAME_LEN = 15"
definition DCACHE_SIZE :: nat where "DCACHE_SIZE = 128"
definition DCACHE_HASH_QUEUES :: nat where "DCACHE_HASH_QUEUES = 19"

datatype dnode = Null | Queue nat | Entry nat

datatype level = Level1 | Level2

record dcache =
  h_next :: "dnode \<Rightarrow> dnode"
  h_prev :: "dnode \<Rightarrow> dnode"
  d_dev :: "nat \<Rightarrow> u32"
  d_dir :: "nat \<Rightarrow> u32"
  d_version :: "nat \<Rightarrow> u32"
  d_ino :: "nat \<Rightarrow> u32"
  d_name_len :: "nat \<Rightarrow> u8"
  d_name :: "nat \<Rightarrow> u8 list"
  lru_head :: "nat \<Rightarrow> level"
  next_lru :: "nat \<Rightarrow> nat"
  prev_lru :: "nat \<Rightarrow> nat"
  level_head :: "level \<Rightarrow> nat"

text \<open>The arrays at program start: zero, so every link is null, and the heads are not set.\<close>

definition zero_dcache :: dcache where
  "zero_dcache = \<lparr>h_next = \<lambda>_. Null, h_prev = \<lambda>_. Null, d_dev = \<lambda>_. 0, d_dir = \<lambda>_. 0, d_version = \<lambda>_. 0,
     d_ino = \<lambda>_. 0, d_name_len = \<lambda>_. 0, d_name = \<lambda>_. replicate DCACHE_NAME_LEN 0, lru_head = \<lambda>_. Level1,
     next_lru = \<lambda>_. 0, prev_lru = \<lambda>_. 0, level_head = \<lambda>_. 0\<rparr>"

subsection \<open>The rings\<close>

definition remove_lru :: "nat \<Rightarrow> dcache \<Rightarrow> dcache" where
  "remove_lru de dc =
     (let dc = dc\<lparr>prev_lru := (prev_lru dc)(next_lru dc de := prev_lru dc de)\<rparr>
      in dc\<lparr>next_lru := (next_lru dc)(prev_lru dc de := next_lru dc de)\<rparr>)"

definition add_lru :: "nat \<Rightarrow> nat \<Rightarrow> dcache \<Rightarrow> dcache" where
  "add_lru de head dc =
     (let dc = dc\<lparr>next_lru := (next_lru dc)(de := head)\<rparr>;
          dc = dc\<lparr>prev_lru := (prev_lru dc)(de := prev_lru dc head)\<rparr>;
          dc = dc\<lparr>next_lru := (next_lru dc)(prev_lru dc de := de)\<rparr>
      in dc\<lparr>prev_lru := (prev_lru dc)(head := de)\<rparr>)"

definition update_lru :: "nat \<Rightarrow> dcache \<Rightarrow> dcache" where
  "update_lru de dc =
     (if de = level_head dc (lru_head dc de)
      then dc\<lparr>level_head := (level_head dc)(lru_head dc de := next_lru dc de)\<rparr>
      else add_lru de (level_head dc (lru_head dc de)) (remove_lru de dc))"

definition namehash :: "u8 list \<Rightarrow> u32" where
  "namehash name = of_nat (length name) * ucast (rd8 name 0)"

definition hash_fn :: "u32 \<Rightarrow> u32 \<Rightarrow> u32 \<Rightarrow> nat" where
  "hash_fn dev dir nh = unat ((dev XOR dir) XOR nh) mod DCACHE_HASH_QUEUES"

definition remove_hash :: "nat \<Rightarrow> dcache \<Rightarrow> dcache option" where
  "remove_hash de dc =
     (if h_next dc (Entry de) = Null then Some dc
      else
        let dc = dc\<lparr>h_prev := (h_prev dc)(h_next dc (Entry de) := h_prev dc (Entry de))\<rparr> in
        if h_prev dc (Entry de) = Null then None
        else
          let dc = dc\<lparr>h_next := (h_next dc)(h_prev dc (Entry de) := h_next dc (Entry de))\<rparr>
          in Some (dc\<lparr>h_next := (h_next dc)(Entry de := Null)\<rparr>))"

definition add_hash :: "nat \<Rightarrow> nat \<Rightarrow> dcache \<Rightarrow> dcache option" where
  "add_hash de hash dc =
     (let dc = dc\<lparr>h_next := (h_next dc)(Entry de := h_next dc (Queue hash))\<rparr>;
          dc = dc\<lparr>h_prev := (h_prev dc)(Entry de := Queue hash)\<rparr> in
      if h_next dc (Queue hash) = Null then None
      else
        let dc = dc\<lparr>h_prev := (h_prev dc)(h_next dc (Queue hash) := Entry de)\<rparr>
        in Some (dc\<lparr>h_next := (h_next dc)(Queue hash := Entry de)\<rparr>))"

subsection \<open>find_entry\<close>

definition entry_is :: "u32 \<Rightarrow> u32 \<Rightarrow> u32 \<Rightarrow> u8 list \<Rightarrow> nat \<Rightarrow> dcache \<Rightarrow> bool" where
  "entry_is dev dir version name de dc =
     (if d_dev dc de \<noteq> dev then False
      else if d_dir dc de \<noteq> dir then False
      else if d_version dc de \<noteq> version then False
      else if unat (d_name_len dc de) \<noteq> length name then False
      else take (length name) (d_name dc de) = name)"

partial_function (option) find_from ::
    "u32 \<Rightarrow> u32 \<Rightarrow> u32 \<Rightarrow> u8 list \<Rightarrow> nat \<Rightarrow> dnode \<Rightarrow> dcache \<Rightarrow> nat option option" where
  "find_from dev dir version name hash de dc =
     (if de = Queue hash then Some None
      else case de of
        Entry e \<Rightarrow> if entry_is dev dir version name e dc then Some (Some e)
                   else find_from dev dir version name hash (h_next dc de) dc
      | _ \<Rightarrow> None)"

declare find_from.simps [code]

definition dc_find_entry :: "u32 \<Rightarrow> u32 \<Rightarrow> u32 \<Rightarrow> u8 list \<Rightarrow> nat \<Rightarrow> dcache \<Rightarrow> nat option option" where
  "dc_find_entry dev dir version name hash dc =
     find_from dev dir version name hash (h_next dc (Queue hash)) dc"

subsection \<open>Lookup and insertion\<close>

definition COPYDATA :: "nat \<Rightarrow> nat \<Rightarrow> dcache \<Rightarrow> dcache" where
  "COPYDATA de newde dc =
     dc\<lparr>d_dev := (d_dev dc)(newde := d_dev dc de), d_dir := (d_dir dc)(newde := d_dir dc de),
       d_version := (d_version dc)(newde := d_version dc de), d_ino := (d_ino dc)(newde := d_ino dc de),
       d_name_len := (d_name_len dc)(newde := d_name_len dc de), d_name := (d_name dc)(newde := d_name dc de)\<rparr>"

definition move_to_level2 :: "nat \<Rightarrow> nat \<Rightarrow> dcache \<Rightarrow> dcache option" where
  "move_to_level2 old_de hash dc =
     (if lru_head dc old_de = Level2 then Some (update_lru old_de dc)
      else
        let de = level_head dc Level2;
            dc = dc\<lparr>level_head := (level_head dc)(Level2 := next_lru dc de)\<rparr>
        in do {
          dc \<leftarrow> remove_hash de dc;
          add_hash de hash (COPYDATA old_de de dc)
        })"

definition dcache_lookup ::
    "u32 \<Rightarrow> u32 \<Rightarrow> u32 \<Rightarrow> u8 list \<Rightarrow> dcache \<Rightarrow> (u32 option \<times> dcache) option" where
  "dcache_lookup dev dir version name dc =
     (if length name > DCACHE_NAME_LEN then Some (None, dc)
      else
        let hash = hash_fn dev dir (namehash name) in do {
          r \<leftarrow> dc_find_entry dev dir version name hash dc;
          case r of
            None \<Rightarrow> Some (None, dc)
          | Some de \<Rightarrow> do {
              dc' \<leftarrow> move_to_level2 de hash dc;
              Some (Some (d_ino dc de), dc')
            }
        })"

definition fill_dentry :: "u32 \<Rightarrow> u32 \<Rightarrow> u32 \<Rightarrow> u8 list \<Rightarrow> u32 \<Rightarrow> nat \<Rightarrow> dcache \<Rightarrow> dcache" where
  "fill_dentry dev dir version name ino de dc =
     dc\<lparr>d_dev := (d_dev dc)(de := dev), d_dir := (d_dir dc)(de := dir), d_version := (d_version dc)(de := version),
       d_ino := (d_ino dc)(de := ino), d_name_len := (d_name_len dc)(de := of_nat (length name)),
       d_name := (d_name dc)(de := name @ drop (length name) (d_name dc de))\<rparr>"

definition dcache_add ::
    "u32 \<Rightarrow> u32 \<Rightarrow> u32 \<Rightarrow> u8 list \<Rightarrow> u32 \<Rightarrow> dcache \<Rightarrow> dcache option" where
  "dcache_add dev dir version name ino dc =
     (if length name > DCACHE_NAME_LEN then Some dc
      else
        let hash = hash_fn dev dir (namehash name) in do {
          r \<leftarrow> dc_find_entry dev dir version name hash dc;
          case r of
            Some de \<Rightarrow> Some (update_lru de (dc\<lparr>d_ino := (d_ino dc)(de := ino)\<rparr>))
          | None \<Rightarrow>
              let de = level_head dc Level1;
                  dc = dc\<lparr>level_head := (level_head dc)(Level1 := next_lru dc de)\<rparr>
              in do {
                dc \<leftarrow> remove_hash de dc;
                add_hash de hash (fill_dentry dev dir version name ino de dc)
              }
        })"

subsection \<open>name_cache_init\<close>

text \<open>
  The loop over the entries of one level, of which \<open>n\<close> are to be linked to the next one; \<open>p\<close> is the
  first one left.
\<close>

fun link_level :: "level \<Rightarrow> nat \<Rightarrow> nat \<Rightarrow> dcache \<Rightarrow> dcache" where
  "link_level l 0 p dc = dc"
| "link_level l (Suc n) p dc =
     link_level l n (Suc p)
       (dc\<lparr>prev_lru := (prev_lru dc)(p + 1 := p), next_lru := (next_lru dc)(p := p + 1),
          lru_head := (lru_head dc)(p := l)\<rparr>)"

definition init_level :: "level \<Rightarrow> nat \<Rightarrow> dcache \<Rightarrow> dcache" where
  "init_level l base dc =
     (let dc = link_level l (DCACHE_SIZE - 1) base dc; p = base + (DCACHE_SIZE - 1)
      in dc\<lparr>prev_lru := (prev_lru dc)(base := p), next_lru := (next_lru dc)(p := base),
           lru_head := (lru_head dc)(p := l), level_head := (level_head dc)(l := base)\<rparr>)"

text \<open>The last loop sets \<open>next\<close> twice and \<open>prev\<close> never.\<close>

fun init_queues :: "nat \<Rightarrow> nat \<Rightarrow> dcache \<Rightarrow> dcache" where
  "init_queues 0 i dc = dc"
| "init_queues (Suc n) i dc = init_queues n (Suc i) (dc\<lparr>h_next := (h_next dc)(Queue i := Queue i)\<rparr>)"

definition name_cache_init :: "dcache \<Rightarrow> dcache" where
  "name_cache_init dc =
     init_queues DCACHE_HASH_QUEUES 0 (init_level Level2 DCACHE_SIZE (init_level Level1 0 dc))"

end
