(* ===== verification/Ext2_Icache.thy ===== *)
theory Ext2_Icache
  imports Ext2_Truncate Ext2_Ialloc Ext2_Dcache
begin

text \<open>
  The table of inodes in memory, \<open>src/vfs/inode.c\<close> (its OS/2 code), and the parts of
  \<open>ext2_free_inode\<close>, \<open>ext2_new_inode\<close> and \<open>ext2_put_inode\<close> that act on it.

  The state is that of the whole driver: the file system, the directory cache, the global counter
  \<open>event\<close>, the random seed of secure deletion and the inode table. A pointer to an inode is null or a
  number, and the fields are functions from pointers. All inodes are on a ring in which the free ones
  come first (\<open>i_next\<close>, \<open>i_prev\<close>), those of a device also on a chain of the hash table
  (\<open>i_hash_next\<close>, \<open>i_hash_prev\<close>). Reading or writing through a null pointer, a panic and a sleep that
  nobody ends are \<open>None\<close>.

  \<open>free_pages\<close> are the pages that \<open>DevHlp32_VMAlloc\<close> will still return, each given by the number of its
  first inode, and \<open>inodes_per_page\<close> is \<open>4096 / sizeof (struct inode)\<close>. There is one mounted file
  system, so \<open>i_sb\<close> is null or points to its super block, which has \<open>ext2_sops\<close>. The operations run one
  at a time: \<open>wait_on_inode\<close> returns with the inode unlocked, and nobody else changes the table while
  one of them waits.
\<close>

datatype iptr = INull | Ino nat

record vfs =
  v_fs :: ext2_fs
  v_dc :: dcache
  event :: u32
  seed :: u32
  v_inode :: "iptr \<Rightarrow> inode"
  i_dev :: "iptr \<Rightarrow> u16"
  i_sb :: "iptr \<Rightarrow> bool"
  i_lock :: "iptr \<Rightarrow> bool"
  i_next :: "iptr \<Rightarrow> iptr"
  i_prev :: "iptr \<Rightarrow> iptr"
  i_hash_next :: "iptr \<Rightarrow> iptr"
  i_hash_prev :: "iptr \<Rightarrow> iptr"
  first_inode :: iptr
  hash_table :: "nat \<Rightarrow> iptr"
  nr_inodes :: int
  nr_free_inodes :: int
  free_pages :: "nat list"
  inodes_per_page :: nat
  s_dev :: u16
  sector_size :: u32
  nb_sectors :: u32
  s_rename_lock :: bool

type_synonym 'a vop = "vfs \<Rightarrow> ('a \<times> vfs) option"

text \<open>What the rest of the system answers: the time, other threads during a yield, the two settings.\<close>

record env =
  cur_time :: u32
  yields :: "ext2_fs \<Rightarrow> ext2_fs"
  retensive :: bool
  umask :: u16

definition NR_INODE :: int where "NR_INODE = 2048"
definition NR_IHASH :: nat where "NR_IHASH = 131"

definition zero_inode :: inode where
  "zero_inode = \<lparr>i_ino = 0, i_mode = 0, i_nlink = 0, i_uid = 0, i_gid = 0, i_rdev = 0, i_size = 0, i_atime = 0,
     i_mtime = 0, i_ctime = 0, i_blksize = 0, i_blocks = 0, i_version = 0, i_count = 0, i_dirt = False,
     i_op = No_ops, i_flags = 0, i_data = replicate EXT2_N_BLOCKS 0, e_flags = 0, e_faddr = 0, e_frag_no = 0,
     e_frag_size = 0, e_osync = 0, e_file_acl = 0, e_dir_acl = 0, e_dtime = 0, e_version = 0, e_block_group = 0,
     e_next_alloc_block = 0, e_next_alloc_goal = 0, e_prealloc_block = 0, e_prealloc_count = 0\<rparr>"

definition set_inode :: "iptr \<Rightarrow> inode \<Rightarrow> vfs \<Rightarrow> vfs" where
  "set_inode p i st = st\<lparr>v_inode := (v_inode st)(p := i)\<rparr>"

subsection \<open>The lists\<close>

definition hashfn :: "u16 \<Rightarrow> u32 \<Rightarrow> nat" where
  "hashfn dev i = unat (ucast dev XOR i) mod NR_IHASH"

definition insert_inode_free :: "iptr \<Rightarrow> vfs \<Rightarrow> vfs option" where
  "insert_inode_free p st =
     (let st = st\<lparr>i_next := (i_next st)(p := first_inode st)\<rparr> in
      if first_inode st = INull then None
      else
        let st = st\<lparr>i_prev := (i_prev st)(p := i_prev st (first_inode st))\<rparr>;
            st = st\<lparr>i_prev := (i_prev st)(i_next st p := p)\<rparr> in
        if i_prev st p = INull then None
        else
          let st = st\<lparr>i_next := (i_next st)(i_prev st p := p)\<rparr>
          in Some (st\<lparr>first_inode := p\<rparr>))"

definition remove_inode_free :: "iptr \<Rightarrow> vfs \<Rightarrow> vfs" where
  "remove_inode_free p st =
     (let st = (if first_inode st = p then st\<lparr>first_inode := i_next st (first_inode st)\<rparr> else st);
          st = (if i_next st p \<noteq> INull then st\<lparr>i_prev := (i_prev st)(i_next st p := i_prev st p)\<rparr> else st);
          st = (if i_prev st p \<noteq> INull then st\<lparr>i_next := (i_next st)(i_prev st p := i_next st p)\<rparr> else st)
      in st\<lparr>i_next := (i_next st)(p := INull), i_prev := (i_prev st)(p := INull)\<rparr>)"

definition insert_inode_hash :: "iptr \<Rightarrow> vfs \<Rightarrow> vfs" where
  "insert_inode_hash p st =
     (let h = hashfn (i_dev st p) (i_ino (v_inode st p));
          st = st\<lparr>i_hash_next := (i_hash_next st)(p := hash_table st h)\<rparr>;
          st = st\<lparr>i_hash_prev := (i_hash_prev st)(p := INull)\<rparr>;
          st = (if i_hash_next st p \<noteq> INull then st\<lparr>i_hash_prev := (i_hash_prev st)(i_hash_next st p := p)\<rparr> else st)
      in st\<lparr>hash_table := (hash_table st)(h := p)\<rparr>)"

definition remove_inode_hash :: "iptr \<Rightarrow> vfs \<Rightarrow> vfs" where
  "remove_inode_hash p st =
     (let h = hashfn (i_dev st p) (i_ino (v_inode st p));
          st = (if hash_table st h = p then st\<lparr>hash_table := (hash_table st)(h := i_hash_next st p)\<rparr> else st);
          st = (if i_hash_next st p \<noteq> INull
                then st\<lparr>i_hash_prev := (i_hash_prev st)(i_hash_next st p := i_hash_prev st p)\<rparr> else st);
          st = (if i_hash_prev st p \<noteq> INull
                then st\<lparr>i_hash_next := (i_hash_next st)(i_hash_prev st p := i_hash_next st p)\<rparr> else st)
      in st\<lparr>i_hash_prev := (i_hash_prev st)(p := INull), i_hash_next := (i_hash_next st)(p := INull)\<rparr>)"

definition put_last_free :: "iptr \<Rightarrow> vfs \<Rightarrow> vfs option" where
  "put_last_free p st =
     (let st = remove_inode_free p st in
      if first_inode st = INull then None
      else
        let st = st\<lparr>i_prev := (i_prev st)(p := i_prev st (first_inode st))\<rparr> in
        if i_prev st p = INull then None
        else
          let st = st\<lparr>i_next := (i_next st)(i_prev st p := p)\<rparr>;
              st = st\<lparr>i_next := (i_next st)(p := first_inode st)\<rparr>
          in Some (st\<lparr>i_prev := (i_prev st)(i_next st p := p)\<rparr>))"

subsection \<open>grow_inodes\<close>

definition zero_at :: "iptr \<Rightarrow> vfs \<Rightarrow> vfs" where
  "zero_at p st = st\<lparr>v_inode := (v_inode st)(p := zero_inode), i_dev := (i_dev st)(p := 0),
     i_sb := (i_sb st)(p := False), i_lock := (i_lock st)(p := False), i_next := (i_next st)(p := INull),
     i_prev := (i_prev st)(p := INull), i_hash_next := (i_hash_next st)(p := INull),
     i_hash_prev := (i_hash_prev st)(p := INull)\<rparr>"

text \<open>The last loop, over the inodes left on the new page, with its panic.\<close>

fun insert_new :: "iptr list \<Rightarrow> vfs \<Rightarrow> vfs option" where
  "insert_new [] st = Some st"
| "insert_new (p # ps) st = do {
     st \<leftarrow> insert_inode_free p st;
     if first_inode st = INull \<or> i_prev st (first_inode st) = INull \<or> i_next st (first_inode st) = INull
     then None else insert_new ps st
   }"

definition page_inodes :: "nat \<Rightarrow> vfs \<Rightarrow> iptr list" where
  "page_inodes base st = List.map Ino [base..<base + inodes_per_page st]"

definition first_of_page :: "iptr list \<Rightarrow> vfs \<Rightarrow> iptr list \<times> vfs" where
  "first_of_page ps st =
     (if first_inode st = INull then
        (tl ps, st\<lparr>first_inode := hd ps, i_next := (i_next st)(hd ps := hd ps), i_prev := (i_prev st)(hd ps := hd ps)\<rparr>)
      else (ps, st))"

definition grow_inodes :: "vfs \<Rightarrow> vfs option" where
  "grow_inodes st =
     (case free_pages st of
        [] \<Rightarrow> Some st
      | base # pages \<Rightarrow>
          let st = st\<lparr>free_pages := pages\<rparr>;
              ps = page_inodes base st;
              st = fold zero_at ps st;
              n = int (inodes_per_page st);
              st = st\<lparr>nr_inodes := nr_inodes st + n, nr_free_inodes := nr_free_inodes st + n\<rparr> in
          case first_of_page ps st of (ps, st) \<Rightarrow>
            if first_inode st = INull \<or> i_prev st (first_inode st) = INull \<or> i_next st (first_inode st) = INull
            then None else insert_new ps st)"

subsection \<open>Locks, and clear_inode\<close>

definition wait_on_inode :: "iptr \<Rightarrow> vfs \<Rightarrow> vfs" where
  "wait_on_inode p st = st\<lparr>i_lock := (i_lock st)(p := False)\<rparr>"

definition lock_inode :: "iptr \<Rightarrow> vfs \<Rightarrow> vfs" where
  "lock_inode p st = (wait_on_inode p st)\<lparr>i_lock := (i_lock (wait_on_inode p st))(p := True)\<rparr>"

definition unlock_inode :: "iptr \<Rightarrow> vfs \<Rightarrow> vfs" where
  "unlock_inode p st = st\<lparr>i_lock := (i_lock st)(p := False)\<rparr>"

definition clear_inode :: "iptr \<Rightarrow> vfs \<Rightarrow> vfs option" where
  "clear_inode p st =
     (let st = wait_on_inode p st;
          st = remove_inode_hash p st;
          st = remove_inode_free p st;
          st = (if i_count (v_inode st p) \<noteq> 0 then st\<lparr>nr_free_inodes := nr_free_inodes st + 1\<rparr> else st)
      in insert_inode_free p (zero_at p st))"

subsection \<open>Reading and writing an inode\<close>

text \<open>\<open>do_fs f p\<close> runs an operation on the inode at \<open>p\<close> and on the file system.\<close>

definition do_fs :: "(inode \<Rightarrow> inode fsop) \<Rightarrow> iptr \<Rightarrow> vfs \<Rightarrow> vfs option" where
  "do_fs f p st = do {
     (inode, fs) \<leftarrow> f (v_inode st p) (v_fs st);
     Some (set_inode p inode (st\<lparr>v_fs := fs\<rparr>))
   }"

definition write_inode :: "iptr \<Rightarrow> vfs \<Rightarrow> vfs option" where
  "write_inode p st =
     (if i_ino (v_inode st p) = INODE_DASD then Some st
      else if \<not> i_dirt (v_inode st p) then Some st
      else
        let st = wait_on_inode p st in
        if \<not> i_dirt (v_inode st p) then Some st
        else if \<not> i_sb st p then Some (set_inode p ((v_inode st p)\<lparr>i_dirt := False\<rparr>) st)
        else do {
          st \<leftarrow> do_fs ext2_write_inode p (st\<lparr>i_lock := (i_lock st)(p := True)\<rparr>);
          Some (unlock_inode p st)
        })"

definition read_inode :: "iptr \<Rightarrow> vfs \<Rightarrow> vfs option" where
  "read_inode p st =
     (if i_ino (v_inode st p) = INODE_DASD then
        let size = sector_size st * nb_sectors st; bs = s_blocksize (v_fs st) in
        Some (set_inode p ((v_inode st p)\<lparr>i_mode := 0x8180, i_size := size, i_blksize := bs,
          i_blocks := size div of_nat bs, i_op := File_ops\<rparr>) st)
      else
        let st = lock_inode p st in do {
          st \<leftarrow> (if i_sb st p then do {
                  ((inode, ev), fs) \<leftarrow> ext2_read_inode (event st) (v_inode st p) (v_fs st);
                  Some (set_inode p inode (st\<lparr>v_fs := fs, event := ev\<rparr>))
                } else Some st);
          Some (unlock_inode p st)
        })"

subsection \<open>Walks over all inodes\<close>

text \<open>\<open>n\<close> steps are left, and \<open>p\<close> is the inode to look at.\<close>

fun may_umount :: "u16 \<Rightarrow> iptr \<Rightarrow> nat \<Rightarrow> iptr \<Rightarrow> vfs \<Rightarrow> bool option" where
  "may_umount dev root 0 p st = Some True"
| "may_umount dev root (Suc n) p st =
     (if p = INull then None
      else if i_dev st p \<noteq> dev \<or> i_count (v_inode st p) = 0 then may_umount dev root n (i_next st p) st
      else if p = root \<and> i_count (v_inode st p) = 1 then may_umount dev root n (i_next st p) st
      else Some False)"

definition fs_may_umount :: "u16 \<Rightarrow> iptr \<Rightarrow> vfs \<Rightarrow> bool option" where
  "fs_may_umount dev root st = may_umount dev root (nat (nr_inodes st)) (first_inode st) st"

definition is_busy :: "iptr \<Rightarrow> vfs \<Rightarrow> bool" where
  "is_busy p st \<longleftrightarrow> i_count (v_inode st p) \<noteq> 0 \<or> i_dirt (v_inode st p) \<or> i_lock st p"

text \<open>\<open>hard\<close>: \<open>hard_invalidate_inodes\<close>, which clears busy inodes too.\<close>

fun invalidate :: "bool \<Rightarrow> u16 \<Rightarrow> nat \<Rightarrow> iptr \<Rightarrow> vfs \<Rightarrow> vfs option" where
  "invalidate hard dev 0 next st = Some st"
| "invalidate hard dev (Suc n) next st =
     (if next = INull then None
      else
        let inode = next; next = i_next st inode in
        if i_dev st inode \<noteq> dev then invalidate hard dev n next st
        else if is_busy inode st \<and> \<not> hard then invalidate hard dev n next st
        else do {
          st \<leftarrow> clear_inode inode st;
          invalidate hard dev n next st
        })"

definition invalidate_inodes :: "u16 \<Rightarrow> vfs \<Rightarrow> vfs option" where
  "invalidate_inodes dev st = invalidate False dev (nat (nr_inodes st)) (first_inode st) st"

definition hard_invalidate_inodes :: "u16 \<Rightarrow> vfs \<Rightarrow> vfs option" where
  "hard_invalidate_inodes dev st = invalidate True dev (nat (nr_inodes st)) (first_inode st) st"

fun sync_loop :: "u16 \<Rightarrow> nat \<Rightarrow> iptr \<Rightarrow> vfs \<Rightarrow> vfs option" where
  "sync_loop dev 0 p st = Some st"
| "sync_loop dev (Suc n) p st =
     (if p = INull then None
      else if dev \<noteq> 0 \<and> i_dev st p \<noteq> dev then sync_loop dev n (i_next st p) st
      else
        let st = wait_on_inode p st in do {
          st \<leftarrow> (if i_dirt (v_inode st p) then write_inode p st else Some st);
          sync_loop dev n (i_next st p) st
        })"

definition sync_inodes :: "u16 \<Rightarrow> vfs \<Rightarrow> vfs option" where
  "sync_inodes dev st = sync_loop dev (nat (nr_inodes st * 2)) (first_inode st) st"

subsection \<open>iput\<close>

text \<open>\<open>ext2_free_inode\<close> gets as far as \<open>clear_inode\<close>:\<close>

definition frees_inode :: "iptr \<Rightarrow> vfs \<Rightarrow> bool" where
  "frees_inode p st \<longleftrightarrow> i_dev st p \<noteq> 0 \<and> \<not> i_count (v_inode st p) > 1 \<and> i_nlink (v_inode st p) = 0 \<and> i_sb st p \<and>
     \<not> (i_ino (v_inode st p) < EXT2_FIRST_INO \<or> i_ino (v_inode st p) > s_inodes_count (v_fs st))"

text \<open>\<open>ext2_put_inode\<close> with the table: the inode that \<open>ext2_free_inode\<close> freed is cleared.\<close>

definition put_inode :: "env \<Rightarrow> iptr \<Rightarrow> vfs \<Rightarrow> vfs option" where
  "put_inode env p st = do {
     ((inode, seed), fs) \<leftarrow> ext2_put_inode (yields env) (cur_time env) (v_inode st p) (seed st) (v_fs st);
     let freed = (i_nlink inode = 0 \<and> i_ino inode \<noteq> EXT2_ACL_IDX_INO \<and> i_ino inode \<noteq> EXT2_ACL_DATA_INO);
     let st = set_inode p inode (st\<lparr>v_fs := fs, seed := seed\<rparr>);
     if freed \<and> frees_inode p st then clear_inode p st else Some st
   }"

text \<open>From \<open>repeat\<close> on. An inode that stays dirty when it is written is written again for ever.\<close>

partial_function (option) iput_repeat :: "env \<Rightarrow> iptr \<Rightarrow> vfs \<Rightarrow> vfs option" where
  "iput_repeat env p st =
     (let inode = v_inode st p in
      if i_count inode > 1 then Some (set_inode p (inode\<lparr>i_count := i_count inode - 1\<rparr>) st)
      else if i_ino inode = INODE_DASD then clear_inode p st
      else Option.bind (if i_sb st p then put_inode env p st else Some st) (\<lambda>st'.
        if i_sb st p \<and> i_nlink (v_inode st' p) = 0 then Some st'
        else if i_dirt (v_inode st' p)
        then Option.bind (write_inode p st') (\<lambda>st. iput_repeat env p (wait_on_inode p st))
        else
          let inode = v_inode st' p
          in Some ((set_inode p (inode\<lparr>i_count := i_count inode - 1\<rparr>) st')\<lparr>nr_free_inodes := nr_free_inodes st' + 1\<rparr>)))"

declare iput_repeat.simps [code]

definition iput :: "env \<Rightarrow> iptr \<Rightarrow> vfs \<Rightarrow> vfs option" where
  "iput env p st =
     (if p = INull then Some st
      else
        let st = wait_on_inode p st in
        if i_count (v_inode st p) = 0 then Some st else iput_repeat env p st)"

subsection \<open>get_empty_inode\<close>

text \<open>The best unused inode: the first one that is clean and unlocked, or else the first one.\<close>

fun scan_free :: "nat \<Rightarrow> iptr \<Rightarrow> iptr \<Rightarrow> vfs \<Rightarrow> iptr option" where
  "scan_free 0 p best st = Some best"
| "scan_free (Suc n) p best st =
     (if p = INull then None
      else if i_count (v_inode st p) = 0 then
        let best = (if best = INull then p else best) in
        if \<not> i_dirt (v_inode st p) \<and> \<not> i_lock st p then Some p
        else scan_free n (i_next st p) best st
      else scan_free n (i_next st p) best st)"

text \<open>From \<open>repeat\<close> on; without a free inode it sleeps until another thread frees one.\<close>

partial_function (option) empty_repeat :: "vfs \<Rightarrow> (iptr \<times> vfs) option" where
  "empty_repeat st =
     Option.bind (scan_free (nat (nr_inodes st)) (first_inode st) INull st) (\<lambda>best.
       if (best = INull \<or> i_dirt (v_inode st best) \<or> i_lock st best) \<and> nr_inodes st < NR_INODE
       then Option.bind (grow_inodes st) (\<lambda>st. empty_repeat st)
       else if best = INull then None
       else if i_lock st best then empty_repeat (wait_on_inode best st)
       else if i_dirt (v_inode st best) then Option.bind (write_inode best st) (\<lambda>st. empty_repeat st)
       else if i_count (v_inode st best) \<noteq> 0 then empty_repeat st
       else Some (best, st))"

declare empty_repeat.simps [code]

definition get_empty_inode :: "iptr vop" where
  "get_empty_inode st = do {
     st \<leftarrow> (if nr_inodes st < NR_INODE \<and> nr_free_inodes st < nr_inodes st div 4 then grow_inodes st else Some st);
     (p, st) \<leftarrow> empty_repeat st;
     st \<leftarrow> clear_inode p st;
     let st = set_inode p ((v_inode st p)\<lparr>i_count := 1, i_nlink := 1, i_version := event st + 1\<rparr>) st;
     let st = st\<lparr>event := event st + 1, nr_free_inodes := nr_free_inodes st - 1\<rparr>;
     Some (p, if nr_free_inodes st < 0 then st\<lparr>nr_free_inodes := 0\<rparr> else st)
   }"

subsection \<open>iget\<close>

partial_function (option) hash_find :: "u16 \<Rightarrow> u32 \<Rightarrow> iptr \<Rightarrow> vfs \<Rightarrow> iptr option" where
  "hash_find dev nr p st =
     (if p = INull then Some INull
      else if i_dev st p = dev \<and> i_ino (v_inode st p) = nr then Some p
      else hash_find dev nr (i_hash_next st p) st)"

declare hash_find.simps [code]

definition found_it :: "iptr \<Rightarrow> vfs \<Rightarrow> vfs" where
  "found_it p st =
     (let st = (if i_count (v_inode st p) = 0 then st\<lparr>nr_free_inodes := nr_free_inodes st - 1\<rparr> else st);
          st = set_inode p ((v_inode st p)\<lparr>i_count := i_count (v_inode st p) + 1\<rparr>) st
      in wait_on_inode p st)"

text \<open>An inode that is not in the table: \<open>p\<close>, which was empty, becomes it.\<close>

definition fill_empty :: "u32 \<Rightarrow> iptr \<Rightarrow> vfs \<Rightarrow> vfs option" where
  "fill_empty nr p st =
     (let st = st\<lparr>i_sb := (i_sb st)(p := True), i_dev := (i_dev st)(p := s_dev st)\<rparr>;
          st = set_inode p ((v_inode st p)\<lparr>i_ino := nr, i_flags := ucast (s_flags (v_fs st))\<rparr>) st
      in do {
        st \<leftarrow> put_last_free p st;
        read_inode p (insert_inode_hash p st)
      })"

text \<open>\<open>__iget\<close>: getting an empty inode may change the table, so the chain is searched again after it.\<close>

definition iget :: "env \<Rightarrow> u32 \<Rightarrow> iptr vop" where
  "iget env nr st =
     (let h = hashfn (s_dev st) nr in do {
        p \<leftarrow> hash_find (s_dev st) nr (hash_table st h) st;
        if p \<noteq> INull then Some (p, found_it p st)
        else do {
          (empty, st) \<leftarrow> get_empty_inode st;
          if empty = INull then Some (INull, st)
          else do {
            p \<leftarrow> hash_find (s_dev st) nr (hash_table st h) st;
            if p \<noteq> INull then do {
              st \<leftarrow> iput env empty (found_it p st);
              Some (p, st)
            }
            else do {
              st \<leftarrow> fill_empty nr empty st;
              Some (empty, st)
            }
          }
        }
      })"

subsection \<open>ext2_new_inode with the table\<close>

text \<open>Every failure gives the empty inode back; the new inode gets its device and goes into the hash table.\<close>

definition new_inode :: "env \<Rightarrow> iptr \<Rightarrow> u16 \<Rightarrow> iptr vop" where
  "new_inode env dir mode st = do {
     (p, st) \<leftarrow> get_empty_inode st;
     if p = INull then Some (INull, st)
     else do {
       let st = st\<lparr>i_sb := (i_sb st)(p := True)\<rparr>;
       let st = set_inode p ((v_inode st p)\<lparr>i_flags := ucast (s_flags (v_fs st))\<rparr>) st;
       (r, fs) \<leftarrow> ext2_new_inode (Some (v_inode st p)) (cur_time env) (v_inode st dir) mode (v_fs st);
       let st = st\<lparr>v_fs := fs\<rparr>;
       case r of
         None \<Rightarrow> do { st \<leftarrow> iput env p st; Some (INull, st) }
       | Some inode \<Rightarrow>
           let st = set_inode p inode (st\<lparr>i_dev := (i_dev st)(p := s_dev st)\<rparr>)
           in Some (p, insert_inode_hash p st)
     }
   }"

end
