(* ===== verification/Ext2_Dir.thy ===== *)
theory Ext2_Dir
  imports Ext2_Bmap
begin

text \<open>
  Directories: \<open>ext2_check_dir_entry\<close> of \<open>src/ext2/dir.c\<close>; \<open>ext2_match\<close>, \<open>ext2_find_entry\<close>,
  \<open>ext2_add_entry\<close>, \<open>ext2_delete_entry\<close> and \<open>empty_dir\<close> of \<open>src/ext2/namei.c\<close>; \<open>tolower\<close> and
  \<open>strnicmp\<close> of \<open>src/util/strnicmp.c\<close>.

  A directory is a file whose blocks hold entries (\<open>struct ext2_dir_entry\<close>: inode, length of the entry,
  length of the name, name). A pointer to an entry is the block and the offset in it; reading the fixed
  fields of an entry behind the end of its buffer is \<open>None\<close>. Names are lists of bytes, so \<open>len\<close> is their
  length; \<open>retensive\<close> is the answer of \<open>is_case_retensive ()\<close>.
\<close>

definition EINVAL :: int where "EINVAL = 22"
definition EEXIST :: int where "EEXIST = 17"
definition ENOENT :: int where "ENOENT = 2"

definition EXT2_NAME_LEN :: nat where "EXT2_NAME_LEN = 255"
definition EXT2_DIR_ROUND :: nat where "EXT2_DIR_ROUND = 3"

text \<open>\<open>((name_len) + 8 + EXT2_DIR_ROUND) & ~EXT2_DIR_ROUND\<close>\<close>

definition EXT2_DIR_REC_LEN :: "nat \<Rightarrow> nat" where
  "EXT2_DIR_REC_LEN name_len = (name_len + 8 + EXT2_DIR_ROUND) div 4 * 4"

subsection \<open>The fields of an entry\<close>

definition de_inode :: "u8 list \<Rightarrow> nat \<Rightarrow> u32" where "de_inode bs off = get32 off bs"
definition de_rec_len :: "u8 list \<Rightarrow> nat \<Rightarrow> nat" where "de_rec_len bs off = unat (get16 (off + 4) bs)"
definition de_name_len :: "u8 list \<Rightarrow> nat \<Rightarrow> nat" where "de_name_len bs off = unat (get16 (off + 6) bs)"

definition de_name :: "u8 list \<Rightarrow> nat \<Rightarrow> u8 list" where
  "de_name bs off = List.map (\<lambda>k. rd8 bs (off + 8 + k)) [0..<de_name_len bs off]"

subsection \<open>ext2_check_dir_entry\<close>

text \<open>The tests, in the order of the source; \<open>dir\<close> says whether the directory pointer is not null.\<close>

definition dir_entry_ok :: "ext2_fs \<Rightarrow> bool \<Rightarrow> u8 list \<Rightarrow> nat \<Rightarrow> bool" where
  "dir_entry_ok fs dir bs off =
     (if de_rec_len bs off < EXT2_DIR_REC_LEN 1 then False
      else if de_rec_len bs off mod 4 \<noteq> 0 then False
      else if de_rec_len bs off < EXT2_DIR_REC_LEN (de_name_len bs off) then False
      else if dir \<and> off + de_rec_len bs off > s_blocksize fs then False
      else if dir \<and> de_inode bs off > s_inodes_count fs then False
      else True)"

definition header_in :: "u8 list \<Rightarrow> nat \<Rightarrow> bool" where
  "header_in bs off \<longleftrightarrow> off + 8 \<le> length bs"

text \<open>Reporting a bad entry goes through \<open>dir->i_sb\<close>, also when \<open>dir\<close> is null.\<close>

definition ext2_check_dir_entry :: "bool \<Rightarrow> u8 list \<Rightarrow> nat \<Rightarrow> bool fsop" where
  "ext2_check_dir_entry dir bs off fs =
     (if \<not> header_in bs off then None
      else if dir_entry_ok fs dir bs off then Some (True, fs)
      else if dir then do { fs \<leftarrow> ext2_error fs; Some (False, fs) }
      else None)"

subsection \<open>ext2_match\<close>

definition tolower :: "u8 \<Rightarrow> u8" where
  "tolower c = (if c \<ge> 65 \<and> c \<le> 90 then c + 32 else c)"

text \<open>\<open>strnicmp (string1, string2, count) == 0\<close> on strings that have at least \<open>count\<close> bytes\<close>

fun strnicmp_eq :: "u8 list \<Rightarrow> u8 list \<Rightarrow> nat \<Rightarrow> bool" where
  "strnicmp_eq (a # as) (b # bs) (Suc count) =
     (if tolower a \<noteq> tolower b then False
      else if a = 0 \<or> b = 0 then True
      else strnicmp_eq as bs count)"
| "strnicmp_eq _ _ _ = True"

definition name_eq :: "bool \<Rightarrow> u8 list \<Rightarrow> u8 list \<Rightarrow> bool" where
  "name_eq retensive name name2 =
     (if retensive then strnicmp_eq name name2 (length name) else name = name2)"

definition ext2_match :: "bool \<Rightarrow> u8 list \<Rightarrow> u8 list \<Rightarrow> nat \<Rightarrow> bool" where
  "ext2_match retensive name bs off =
     (if de_inode bs off = 0 \<or> length name > EXT2_NAME_LEN then False
      else if name = [] \<and> de_name_len bs off = 1 \<and> rd8 bs (off + 8) = 46 \<and> rd8 bs (off + 9) = 0 then True
      else if length name \<noteq> de_name_len bs off then False
      else name_eq retensive name (de_name bs off))"

subsection \<open>ext2_find_entry\<close>

datatype scan = Found nat | Bad | Done nat

text \<open>The entries of one block, from the offset \<open>off\<close> on.\<close>

function scan_block :: "bool \<Rightarrow> u8 list \<Rightarrow> u8 list \<Rightarrow> nat \<Rightarrow> scan fsop" where
  "scan_block retensive name bs off fs =
     (if off < s_blocksize fs then
        if \<not> header_in bs off then None
        else if \<not> dir_entry_ok fs True bs off then do { fs \<leftarrow> ext2_error fs; Some (Bad, fs) }
        else if de_inode bs off \<noteq> 0 \<and> ext2_match retensive name bs off then Some (Found off, fs)
        else scan_block retensive name bs (off + de_rec_len bs off) fs
      else Some (Done off, fs))"
  by pat_completeness auto
termination
  by (relation "measure (\<lambda>(_, _, bs, off, fs). s_blocksize fs - off)")
    (auto simp: dir_entry_ok_def EXT2_DIR_REC_LEN_def EXT2_DIR_ROUND_def split: if_splits)

declare scan_block.simps [simp del]

definition NAMEI_RA_SIZE :: nat where "NAMEI_RA_SIZE = 8"

text \<open>The first read-ahead: the buffers of the first eight blocks of the directory.\<close>

fun fill_use :: "u32 \<Rightarrow> nat \<Rightarrow> nat \<Rightarrow> u32 option list \<Rightarrow> inode \<Rightarrow> (u32 option list \<times> inode) fsop" where
  "fill_use now 0 block bh_use dir fs = Some ((bh_use, dir), fs)"
| "fill_use now (Suc n) block bh_use dir fs =
     (if block * s_blocksize fs \<ge> unat (i_size dir) then Some ((bh_use, dir), fs)
      else do {
        (((bh, _), dir), fs) \<leftarrow> ext2_getblk now dir (int block) False 0 fs;
        fill_use now n (Suc block) (bh_use[block := bh]) dir fs
      })"

definition brelse_all :: "u32 option list \<Rightarrow> ext2_fs \<Rightarrow> ext2_fs" where
  "brelse_all bhs fs = fold brelse bhs fs"

text \<open>
  The search. A null pointer in \<open>bh_use\<close> is a panic; a block that cannot be read ends the search. Reading
  a block does not depend on when it is asked for, so \<open>bh_read\<close> and the calls of \<open>ll_rw_block\<close> are not
  modelled.
\<close>

partial_function (option) find_loop ::
    "u32 \<Rightarrow> bool \<Rightarrow> u8 list \<Rightarrow> inode \<Rightarrow> u32 option list \<Rightarrow> nat \<Rightarrow> nat \<Rightarrow> ext2_fs \<Rightarrow>
     ((((u32 \<times> nat) option \<times> u32 option list) \<times> inode) \<times> ext2_fs) option" where
  "find_loop now retensive name dir bh_use block offset fs =
     (if \<not> offset < unat (i_size dir) then Some (((None, bh_use), dir), fs)
      else case bh_use ! (block mod NAMEI_RA_SIZE) of
        None \<Rightarrow> None
      | Some bh \<Rightarrow> (case b_data fs bh of
          None \<Rightarrow> Some (((None, bh_use), dir), fs)
        | Some bs \<Rightarrow> Option.bind (scan_block retensive name bs 0 fs) (\<lambda>(r, fs). case r of
            Bad \<Rightarrow> Some (((None, bh_use), dir), fs)
          | Found off \<Rightarrow> Some (((Some (bh, off), bh_use), dir), fs)
          | Done off \<Rightarrow>
              let fs = brelse (Some bh) fs in
              Option.bind
                (if (block + NAMEI_RA_SIZE) * s_blocksize fs \<ge> unat (i_size dir) then Some ((None, dir), fs)
                 else map_option (\<lambda>(((bh, _), dir), fs). ((bh, dir), fs))
                        (ext2_getblk now dir (int (block + NAMEI_RA_SIZE)) False 0 fs))
                (\<lambda>((bh, dir), fs).
                   find_loop now retensive name dir (bh_use[block mod NAMEI_RA_SIZE := bh]) (Suc block) (offset + off) fs))))"

declare find_loop.simps [code]

definition ext2_find_entry ::
    "u32 \<Rightarrow> bool \<Rightarrow> inode \<Rightarrow> u8 list \<Rightarrow> ((u32 \<times> nat) option \<times> inode) fsop" where
  "ext2_find_entry now retensive dir name fs =
     (let name = take EXT2_NAME_LEN name in do {
        ((bh_use, dir), fs) \<leftarrow> fill_use now NAMEI_RA_SIZE 0 (replicate NAMEI_RA_SIZE None) dir fs;
        (((r, bh_use), dir), fs) \<leftarrow> find_loop now retensive name dir bh_use 0 0 fs;
        case r of
          Some (bh, off) \<Rightarrow> Some ((Some (bh, off), dir), brelse_all (List.filter (\<lambda>b. b \<noteq> Some bh) bh_use) fs)
        | None \<Rightarrow> Some ((None, dir), brelse_all bh_use fs)
      })"

subsection \<open>ext2_add_entry\<close>

fun put_bytes :: "nat \<Rightarrow> u8 list \<Rightarrow> u8 list \<Rightarrow> u8 list" where
  "put_bytes off [] bs = bs"
| "put_bytes off (x # xs) bs = put_bytes (Suc off) xs (put8 off x bs)"

definition has_room :: "u8 list \<Rightarrow> nat \<Rightarrow> nat \<Rightarrow> bool" where
  "has_room bs off rec_len \<longleftrightarrow> de_inode bs off = 0 \<and> de_rec_len bs off \<ge> rec_len \<or>
     de_rec_len bs off \<ge> EXT2_DIR_REC_LEN (de_name_len bs off) + rec_len"

text \<open>
  The new entry, without its inode: it takes over an unused entry, or the tail of one in use. The
  result is the block and the offset of the entry.
\<close>

definition place_entry :: "u8 list \<Rightarrow> u8 list \<Rightarrow> nat \<Rightarrow> u8 list \<times> nat" where
  "place_entry name bs off =
     (let (bs, off) =
        (if de_inode bs off \<noteq> 0 then
           let len = de_rec_len bs off; used = EXT2_DIR_REC_LEN (de_name_len bs off); off1 = off + used
           in (put16 (off + 4) (of_nat used) (put16 (off1 + 4) (of_nat (len - used)) bs), off1)
         else (bs, off))
      in (put_bytes (off + 8) name (put16 (off + 6) (of_nat (length name)) (put32 off 0 bs)), off))"

text \<open>
  At the end of a block: the next one, allocated and made one unused entry when the directory ends
  here. The result is an error or the buffer.
\<close>

definition next_dir_block :: "u32 \<Rightarrow> inode \<Rightarrow> u32 \<Rightarrow> nat \<Rightarrow> int \<Rightarrow> ext2_fs \<Rightarrow>
    (((u32 option \<times> int) \<times> inode) \<times> ext2_fs) option" where
  "next_dir_block now dir bh offset err fs = do {
     (((nb, err), dir), fs) \<leftarrow> ext2_bread now dir (int (offset div s_blocksize fs)) True err (brelse (Some bh) fs);
     case nb of
       None \<Rightarrow> Some (((None, err), dir), fs)
     | Some bh \<Rightarrow>
         if unat (i_size dir) \<le> offset then
           if i_size dir = 0 then Some (((None, - ENOENT), dir), fs)
           else do {
             bs \<leftarrow> b_data fs bh;
             let bs = put16 4 (of_nat (s_blocksize fs)) (put32 0 0 bs);
             let dir = dir\<lparr>i_size := of_nat (offset + s_blocksize fs), i_dirt := True\<rparr>;
             Some (((Some bh, err), dir), fs\<lparr>b_data := (b_data fs)(bh \<mapsto> bs)\<rparr>)
           }
         else Some (((Some bh, err), dir), fs)
   }"

type_synonym add_result = "((((u32 \<times> nat) option \<times> int) \<times> inode \<times> u32) \<times> ext2_fs) option"

partial_function (option) add_loop ::
    "u32 \<Rightarrow> bool \<Rightarrow> u8 list \<Rightarrow> inode \<Rightarrow> u32 \<Rightarrow> u32 \<Rightarrow> nat \<Rightarrow> nat \<Rightarrow> int \<Rightarrow> ext2_fs \<Rightarrow> add_result" where
  "add_loop now retensive name dir event bh off offset err fs =
     Option.bind (if off \<ge> s_blocksize fs then
          map_option (\<lambda>(((nb, err), dir), fs). ((nb, 0, err, dir), fs)) (next_dir_block now dir bh offset err fs)
        else Some ((Some bh, off, err, dir), fs))
      (\<lambda>((nb, off, err, dir), fs). case nb of
         None \<Rightarrow> Some (((None, err), (dir, event)), fs)
       | Some bh \<Rightarrow> Option.bind (b_data fs bh) (\<lambda>bs.
           Option.bind (ext2_check_dir_entry True bs off fs) (\<lambda>(ok, fs).
             if \<not> ok then Some (((None, - ENOENT), (dir, event)), brelse (Some bh) fs)
             else if de_inode bs off \<noteq> 0 \<and> ext2_match retensive name bs off
             then Some (((None, - EEXIST), (dir, event)), brelse (Some bh) fs)
             else if has_room bs off (EXT2_DIR_REC_LEN (length name)) then
               case place_entry name bs off of (bs, off) \<Rightarrow>
                 let fs = mark_buffer_dirty bh (fs\<lparr>b_data := (b_data fs)(bh \<mapsto> bs)\<rparr>);
                     dir = dir\<lparr>i_mtime := now, i_ctime := now, i_dirt := True, i_version := event + 1\<rparr>
                 in Some (((Some (bh, off), 0), (dir, event + 1)), fs)
             else add_loop now retensive name dir event bh
                    (off + de_rec_len bs off) (offset + de_rec_len bs off) err fs)))"

declare add_loop.simps [code]

definition ext2_add_entry :: "u32 \<Rightarrow> bool \<Rightarrow> inode \<Rightarrow> u8 list \<Rightarrow> u32 \<Rightarrow> ext2_fs \<Rightarrow> add_result" where
  "ext2_add_entry now retensive dir name event fs =
     (let name = take EXT2_NAME_LEN name in
      if name = [] then Some (((None, - EINVAL), (dir, event)), fs)
      else if i_size dir = 0 then Some (((None, - ENOENT), (dir, event)), fs)
      else do {
        (((bh, err), dir), fs) \<leftarrow> ext2_bread now dir 0 False (- EINVAL) fs;
        case bh of
          None \<Rightarrow> Some (((None, err), (dir, event)), fs)
        | Some bh \<Rightarrow> add_loop now retensive name dir event bh 0 0 (- ENOSPC) fs
      })"

subsection \<open>ext2_delete_entry\<close>

text \<open>
  The block without the entry: its length goes to the entry before it in the block. The directory
  pointer that is passed to the check is null.
\<close>

definition merge_entry :: "nat option \<Rightarrow> nat \<Rightarrow> u8 list \<Rightarrow> u8 list" where
  "merge_entry pde off bs =
     (let bs = (case pde of None \<Rightarrow> bs | Some p \<Rightarrow> put16 (p + 4) (get16 (p + 4) bs + get16 (off + 4) bs) bs)
      in put32 off 0 bs)"

function delete_scan :: "ext2_fs \<Rightarrow> u8 list \<Rightarrow> nat \<Rightarrow> nat option \<Rightarrow> nat \<Rightarrow> (int + u8 list) option" where
  "delete_scan fs bs target pde i =
     (if i < length bs then
        if \<not> header_in bs i then None
        else if \<not> dir_entry_ok fs False bs i then None
        else if i = target then Some (Inr (merge_entry pde i bs))
        else delete_scan fs bs target (Some i) (i + de_rec_len bs i)
      else Some (Inl (- ENOENT)))"
  by pat_completeness auto
termination
  by (relation "measure (\<lambda>(fs, bs, target, pde, i). length bs - i)")
    (auto simp: dir_entry_ok_def EXT2_DIR_REC_LEN_def EXT2_DIR_ROUND_def split: if_splits)

declare delete_scan.simps [simp del]

definition ext2_delete_entry :: "nat \<Rightarrow> u32 \<Rightarrow> int fsop" where
  "ext2_delete_entry target bh fs = do {
     bs \<leftarrow> b_data fs bh;
     r \<leftarrow> delete_scan fs bs target None 0;
     case r of
       Inl e \<Rightarrow> Some (e, fs)
     | Inr bs \<Rightarrow> Some (0, fs\<lparr>b_data := (b_data fs)(bh \<mapsto> bs)\<rparr>)
   }"

subsection \<open>empty_dir\<close>

text \<open>
  After a block that cannot be read, the pointer \<open>bh\<close> is null and the next turn of the loop reads
  through it.
\<close>

partial_function (option) empty_loop ::
    "u32 \<Rightarrow> inode \<Rightarrow> u32 option \<Rightarrow> nat \<Rightarrow> nat \<Rightarrow> ext2_fs \<Rightarrow> ((bool \<times> inode) \<times> ext2_fs) option" where
  "empty_loop now inode bh off offset fs =
     (if \<not> offset < unat (i_size inode) then Some ((True, inode), brelse bh fs)
      else case bh of
        None \<Rightarrow> None
      | Some b \<Rightarrow> Option.bind
          (if off \<ge> s_blocksize fs then
             map_option (\<lambda>(((nb, _), inode), fs). ((nb, 0, inode), fs))
               (ext2_bread now inode (int (offset div s_blocksize fs)) True 0 (brelse bh fs))
           else Some ((Some b, off, inode), fs))
          (\<lambda>((nb, off, inode), fs). case nb of
             None \<Rightarrow> empty_loop now inode None off (offset + s_blocksize fs) fs
           | Some b \<Rightarrow> Option.bind (b_data fs b) (\<lambda>bs. Option.bind (ext2_check_dir_entry True bs off fs) (\<lambda>(ok, fs).
               if \<not> ok then Some ((True, inode), brelse (Some b) fs)
               else if de_inode bs off \<noteq> 0 then Some ((False, inode), brelse (Some b) fs)
               else empty_loop now inode (Some b) (off + de_rec_len bs off) (offset + de_rec_len bs off) fs))))"

declare empty_loop.simps [code]

text \<open>The comparisons with \<open>"."\<close> and \<open>".."\<close> are comparisons of C strings.\<close>

definition starts_as :: "u8 list \<Rightarrow> nat \<Rightarrow> u8 list \<Rightarrow> bool" where
  "starts_as bs off s \<longleftrightarrow> List.map (\<lambda>k. rd8 bs (off + 8 + k)) [0..<length s + 1] = s @ [0]"

definition empty_dir :: "u32 \<Rightarrow> inode \<Rightarrow> (bool \<times> inode) fsop" where
  "empty_dir now inode fs =
     (if unat (i_size inode) < EXT2_DIR_REC_LEN 1 + EXT2_DIR_REC_LEN 2 then Some ((True, inode), fs)
      else do {
        (((bh, _), inode), fs) \<leftarrow> ext2_bread now inode 0 False 0 fs;
        case bh of
          None \<Rightarrow> Some ((True, inode), fs)
        | Some b \<Rightarrow> do {
            bs \<leftarrow> b_data fs b;
            let de1 = de_rec_len bs 0;
            if \<not> header_in bs de1 then None
            else if de_inode bs 0 \<noteq> i_ino inode \<or> de_inode bs de1 = 0 \<or>
                    \<not> starts_as bs 0 [46] \<or> \<not> starts_as bs de1 [46, 46]
            then Some ((True, inode), fs)
            else empty_loop now inode bh (de1 + de_rec_len bs de1) (de1 + de_rec_len bs de1) fs
          }
      })"

end
