(* ===== verification/Ext2_Options.thy ===== *)
theory Ext2_Options
  imports Ext2_Super
begin

text \<open>
  The mount options: \<open>parse_options\<close> of \<open>src/ext2/super.c\<close> and the parts of the C library it is written
  with, \<open>src/util/strtok.c\<close> and \<open>src/util/STRTOUL.C\<close>. A C string is the list of its characters before
  the terminating null character; the static pointer \<open>next\<close> of \<open>strtok\<close> is passed explicitly.
\<close>

subsection \<open>strtok\<close>

text \<open>The token that starts at or after \<open>p\<close> and what \<open>next\<close> points to afterwards; \<open>None\<close> is a null pointer.\<close>

definition strtok :: "string \<Rightarrow> string \<Rightarrow> (string \<times> string) option" where
  "strtok delims p =
     (let result = dropWhile (\<lambda>c. c \<in> set delims) p;
          token = takeWhile (\<lambda>c. c \<notin> set delims) result;
          rest = dropWhile (\<lambda>c. c \<notin> set delims) result
      in case rest of
           [] \<Rightarrow> if token = [] then None else Some (token, [])
         | c # next \<Rightarrow> Some (token, next))"

subsection \<open>strtoul\<close>

definition isspace :: "char \<Rightarrow> bool" where
  "isspace c \<longleftrightarrow> (9 \<le> (of_char c :: nat) \<and> (of_char c :: nat) \<le> 13) \<or> (of_char c :: nat) = 32"

definition digit_value :: "char \<Rightarrow> nat option" where
  "digit_value ch =
     (let c = (of_char ch :: nat) in
      if 48 \<le> c \<and> c \<le> 57 then Some (c - 48)
      else if 65 \<le> c \<and> c \<le> 90 then Some (c - 65 + 10)
      else if 97 \<le> c \<and> c \<le> 122 then Some (c - 97 + 10)
      else None)"

datatype number_state = no_number | number_ok | number_overflow

definition ULONG_MAX :: u32 where "ULONG_MAX = - 1"

text \<open>The loop over the digits; it returns the state, the number and the rest of the string.\<close>

fun strtoul_loop :: "nat \<Rightarrow> number_state \<Rightarrow> u32 \<Rightarrow> string \<Rightarrow> number_state \<times> u32 \<times> string" where
  "strtoul_loop radix state n [] = (state, n, [])"
| "strtoul_loop radix state n (ch # s) =
     (case digit_value ch of
        None \<Rightarrow> (state, n, ch # s)
      | Some c \<Rightarrow>
          if c \<ge> radix then (state, n, ch # s)
          else
            let max1 = ULONG_MAX div of_nat radix;
                max2 = ULONG_MAX - max1 * of_nat radix;
                state = (if n \<ge> max1 \<and> (n > max1 \<or> of_nat c > max2) then number_overflow else state)
            in if state \<noteq> number_overflow
               then strtoul_loop radix number_ok (n * of_nat radix + of_nat c) s
               else strtoul_loop radix state n s)"

definition strtoul :: "string \<Rightarrow> nat \<Rightarrow> u32 \<times> string" where
  "strtoul string radix =
     (let s = dropWhile isspace string;
          neg = (case s of [] \<Rightarrow> False | c # _ \<Rightarrow> c = CHR ''-'');
          s = (case s of [] \<Rightarrow> s | c # r \<Rightarrow> if c = CHR ''-'' \<or> c = CHR ''+'' then r else s);
          hex = ((radix = 0 \<or> radix = 16) \<and> (case s of c # d # _ \<Rightarrow> c = CHR ''0'' \<and> (d = CHR ''x'' \<or> d = CHR ''X'') | _ \<Rightarrow> False));
          radix = (if hex then 16 else radix);
          s = (if hex then drop 2 s else s);
          radix = (if radix = 0 then (case s of [] \<Rightarrow> 10 | c # _ \<Rightarrow> if c = CHR ''0'' then 8 else 10) else radix)
      in if 2 \<le> radix \<and> radix \<le> 36 then
           (case strtoul_loop radix no_number 0 s of
              (no_number, n, s) \<Rightarrow> (0, string)
            | (number_ok, n, s) \<Rightarrow> (if neg then - n else n, s)
            | (number_overflow, n, s) \<Rightarrow> (ULONG_MAX, s))
         else (0, s))"

subsection \<open>parse_options\<close>

definition set_opt :: "u32 \<Rightarrow> u32 \<Rightarrow> u32" where "set_opt opt o1 = o1 OR opt"
definition clear_opt :: "u32 \<Rightarrow> u32 \<Rightarrow> u32" where "clear_opt opt o1 = o1 AND NOT opt"

text \<open>What the pointers of \<open>parse_options\<close> point to.\<close>

record mount_opts =
  sb_block :: u32
  resuid :: u16
  resgid :: u16
  mount_options :: u32

definition change_opts :: "(u32 \<Rightarrow> u32) \<Rightarrow> mount_opts \<Rightarrow> mount_opts" where
  "change_opts f mo = mo\<lparr>mount_options := f (mount_options mo)\<rparr>"

text \<open>\<open>if ((value = strchr (this_char, '=')) != NULL) *value++ = 0\<close>\<close>

definition split_value :: "string \<Rightarrow> string \<times> string option" where
  "split_value s = (takeWhile (\<lambda>c. c \<noteq> CHR ''='') s,
     case dropWhile (\<lambda>c. c \<noteq> CHR ''='') s of [] \<Rightarrow> None | c # value \<Rightarrow> Some value)"

definition no_value :: "string option \<Rightarrow> bool" where
  "no_value value \<longleftrightarrow> value = None \<or> value = Some []"

text \<open>A number option: the argument is missing, is not a number to its end, or is stored.\<close>

definition number_option :: "string option \<Rightarrow> (u32 \<Rightarrow> mount_opts \<Rightarrow> mount_opts) \<Rightarrow> mount_opts \<Rightarrow> bool \<times> mount_opts" where
  "number_option value put mo =
     (if no_value value then (False, mo)
      else case strtoul (the value) 0 of (n, rest) \<Rightarrow> (rest = [], put n mo))"

definition check_option :: "string option \<Rightarrow> mount_opts \<Rightarrow> bool \<times> mount_opts" where
  "check_option value mo =
     (if no_value value then (True, change_opts (set_opt EXT2_MOUNT_CHECK_NORMAL) mo)
      else if the value = ''none''
      then (True, change_opts (clear_opt EXT2_MOUNT_CHECK_STRICT) (change_opts (clear_opt EXT2_MOUNT_CHECK_NORMAL) mo))
      else if the value \<noteq> ''normal'' then (True, change_opts (set_opt EXT2_MOUNT_CHECK_NORMAL) mo)
      else if the value \<noteq> ''strict''
      then (True, change_opts (set_opt EXT2_MOUNT_CHECK_STRICT) (change_opts (set_opt EXT2_MOUNT_CHECK_NORMAL) mo))
      else (False, mo))"

definition errors_option :: "string option \<Rightarrow> mount_opts \<Rightarrow> bool \<times> mount_opts" where
  "errors_option value mo =
     (let change = (\<lambda>a b c. change_opts (set_opt c) (change_opts (clear_opt b) (change_opts (clear_opt a) mo))) in
      if no_value value then (False, mo)
      else if the value = ''continue''
      then (True, change EXT2_MOUNT_ERRORS_RO EXT2_MOUNT_ERRORS_PANIC EXT2_MOUNT_ERRORS_CONT)
      else if the value = ''remount-ro''
      then (True, change EXT2_MOUNT_ERRORS_CONT EXT2_MOUNT_ERRORS_PANIC EXT2_MOUNT_ERRORS_RO)
      else if the value = ''panic''
      then (True, change EXT2_MOUNT_ERRORS_CONT EXT2_MOUNT_ERRORS_RO EXT2_MOUNT_ERRORS_PANIC)
      else (False, mo))"

text \<open>The body of the loop; \<open>False\<close> is \<open>return 0\<close>.\<close>

definition parse_option :: "string \<Rightarrow> mount_opts \<Rightarrow> bool \<times> mount_opts" where
  "parse_option token mo =
     (case split_value token of (this_char, value) \<Rightarrow>
      if this_char = ''bsddf'' then (True, change_opts (clear_opt EXT2_MOUNT_MINIX_DF) mo)
      else if this_char = ''check'' then check_option value mo
      else if this_char = ''debug'' then (True, change_opts (set_opt EXT2_MOUNT_DEBUG) mo)
      else if this_char = ''errors'' then errors_option value mo
      else if this_char = ''grpid'' \<or> this_char = ''bsdgroups'' then (True, change_opts (set_opt EXT2_MOUNT_GRPID) mo)
      else if this_char = ''minixdf'' then (True, change_opts (set_opt EXT2_MOUNT_MINIX_DF) mo)
      else if this_char = ''nocheck''
      then (True, change_opts (clear_opt EXT2_MOUNT_CHECK_STRICT) (change_opts (clear_opt EXT2_MOUNT_CHECK_NORMAL) mo))
      else if this_char = ''nogrpid'' \<or> this_char = ''sysvgroups''
      then (True, change_opts (clear_opt EXT2_MOUNT_GRPID) mo)
      else if this_char = ''resgid'' then number_option value (\<lambda>n mo. mo\<lparr>resgid := ucast n\<rparr>) mo
      else if this_char = ''resuid'' then number_option value (\<lambda>n mo. mo\<lparr>resuid := ucast n\<rparr>) mo
      else if this_char = ''sb'' then number_option value (\<lambda>n mo. mo\<lparr>sb_block := n\<rparr>) mo
      else (False, mo))"

lemma strtok_shorter: "strtok delims p = Some (token, next) \<Longrightarrow> length next < length p"
proof -
  assume s: "strtok delims p = Some (token, next)"
  define r where "r = dropWhile (\<lambda>c. c \<in> set delims) p"
  have r: "length r \<le> length p" unfolding r_def by (rule length_dropWhile_le)
  show ?thesis
  proof (cases "dropWhile (\<lambda>c. c \<notin> set delims) r")
    case Nil
    have c: "(if takeWhile (\<lambda>c. c \<notin> set delims) r = [] then None
        else Some (takeWhile (\<lambda>c. c \<notin> set delims) r, [])) = Some (token, next)"
      using s unfolding strtok_def Let_def r_def [symmetric] Nil list.case .
    then have "next = []" by (simp split: if_splits)
    moreover have "r \<noteq> []" using c by auto
    ultimately show ?thesis using r by (cases p) (simp_all add: r_def)
  next
    case (Cons c q)
    have "Some (takeWhile (\<lambda>c. c \<notin> set delims) r, q) = Some (token, next)"
      using s unfolding strtok_def Let_def r_def [symmetric] Cons list.case .
    then have "next = q" by simp
    moreover have "length (c # q) \<le> length r" unfolding Cons [symmetric] by (rule length_dropWhile_le)
    ultimately show ?thesis using r by simp
  qed
qed

function parse_loop :: "string \<Rightarrow> mount_opts \<Rightarrow> bool \<times> mount_opts" where
  "parse_loop next mo =
     (case strtok '','' next of
        None \<Rightarrow> (True, mo)
      | Some (this_char, next) \<Rightarrow>
          (case parse_option this_char mo of (good, mo) \<Rightarrow> if good then parse_loop next mo else (False, mo)))"
  by pat_completeness auto
termination by (relation "measure (\<lambda>(next, mo). length next)") (auto dest: strtok_shorter)

declare parse_loop.simps [simp del]

definition parse_options :: "string option \<Rightarrow> mount_opts \<Rightarrow> bool \<times> mount_opts" where
  "parse_options options mo = (case options of None \<Rightarrow> (True, mo) | Some options \<Rightarrow> parse_loop options mo)"

end
