(* ===== verification/Ext2_Mount.thy ===== *)
theory Ext2_Mount
  imports Ext2_Icache Ext2_Dir Ext2_Options
begin

text \<open>
  Mounting: the rest of \<open>src/ext2/super.c\<close> and \<open>do_remount_sb\<close> of \<open>src/fsd32/fs32_mount.c\<close>.

  The state is the super block in memory around the state of the driver. \<open>s_es\<close> is the super block as it
  was read; from then on those of its fields that the file system changes live in the file system
  (\<open>s_state\<close>, the free counts and so on, see \<open>attach\<close>), the others stay in \<open>s_es\<close>. \<open>dev_blksize\<close> is the
  size of the buffers that the cache has for the device. An access that cannot happen in the model
  without a trap of the processor (a division by zero) is \<open>None\<close>, like a panic.

  \<open>disk\<close> is what the device returns for a block of a size, and \<open>memory\<close> tells whether the kernel still has a
  number of bytes. Where the code returns a null pointer the result is \<open>Inl\<close> with the state left behind.
\<close>

subsection \<open>The super block on the disk\<close>

record ext2_super_block =
  es_inodes_count :: u32
  es_blocks_count :: u32
  es_r_blocks_count :: u32
  es_free_blocks_count :: u32
  es_free_inodes_count :: u32
  es_first_data_block :: u32
  es_log_block_size :: u32
  es_log_frag_size :: u32
  es_blocks_per_group :: u32
  es_frags_per_group :: u32
  es_inodes_per_group :: u32
  es_mtime :: u32
  es_wtime :: u32
  es_mnt_count :: u16
  es_max_mnt_count :: u16
  es_magic :: u16
  es_state :: u16
  es_errors :: u16
  es_lastcheck :: u32
  es_checkinterval :: u32
  es_rev_level :: u32
  es_def_resuid :: u16
  es_def_resgid :: u16
  es_first_ino :: u32
  es_inode_size :: u16
  es_feature_incompat :: u32
  es_feature_ro_compat :: u32

definition decode_super :: "nat \<Rightarrow> u8 list \<Rightarrow> ext2_super_block" where
  "decode_super o1 bs = \<lparr>es_inodes_count = get32 o1 bs, es_blocks_count = get32 (o1 + 4) bs,
     es_r_blocks_count = get32 (o1 + 8) bs, es_free_blocks_count = get32 (o1 + 12) bs,
     es_free_inodes_count = get32 (o1 + 16) bs, es_first_data_block = get32 (o1 + 20) bs,
     es_log_block_size = get32 (o1 + 24) bs, es_log_frag_size = get32 (o1 + 28) bs,
     es_blocks_per_group = get32 (o1 + 32) bs, es_frags_per_group = get32 (o1 + 36) bs,
     es_inodes_per_group = get32 (o1 + 40) bs, es_mtime = get32 (o1 + 44) bs, es_wtime = get32 (o1 + 48) bs,
     es_mnt_count = get16 (o1 + 52) bs, es_max_mnt_count = get16 (o1 + 54) bs, es_magic = get16 (o1 + 56) bs,
     es_state = get16 (o1 + 58) bs, es_errors = get16 (o1 + 60) bs, es_lastcheck = get32 (o1 + 64) bs,
     es_checkinterval = get32 (o1 + 68) bs, es_rev_level = get32 (o1 + 76) bs, es_def_resuid = get16 (o1 + 80) bs,
     es_def_resgid = get16 (o1 + 82) bs, es_first_ino = get32 (o1 + 84) bs, es_inode_size = get16 (o1 + 88) bs,
     es_feature_incompat = get32 (o1 + 96) bs, es_feature_ro_compat = get32 (o1 + 100) bs\<rparr>"

definition decode_desc :: "nat \<Rightarrow> u8 list \<Rightarrow> group_desc" where
  "decode_desc o1 bs = \<lparr>bg_block_bitmap = get32 o1 bs, bg_inode_bitmap = get32 (o1 + 4) bs,
     bg_inode_table = get32 (o1 + 8) bs, bg_free_blocks_count = get16 (o1 + 12) bs,
     bg_free_inodes_count = get16 (o1 + 14) bs, bg_used_dirs_count = get16 (o1 + 16) bs\<rparr>"

definition decode_descs :: "nat \<Rightarrow> u8 list \<Rightarrow> group_desc list" where
  "decode_descs n bs = List.map (\<lambda>i. decode_desc (32 * i) bs) [0..<n]"

subsection \<open>The super block in memory\<close>

record super =
  m_vfs :: vfs
  s_es :: ext2_super_block
  s_magic :: u16
  s_blocksize_bits :: u32
  s_frag_size :: u32
  s_frags_per_block :: u32
  s_frags_per_group :: u32
  s_inode_size :: u16
  s_first_ino :: u32
  s_resuid :: u16
  s_resgid :: u16
  s_db_per_group :: nat
  s_mounted :: iptr
  dev_blksize :: nat

record mount_env =
  m_env :: env
  disk :: "nat \<Rightarrow> u32 \<Rightarrow> u8 list option"
  memory :: "nat \<Rightarrow> bool"
  Errors_Panic :: bool
  auto_fsck :: bool

definition m_fs :: "super \<Rightarrow> ext2_fs" where
  "m_fs sb = v_fs (m_vfs sb)"

definition on_fs :: "(ext2_fs \<Rightarrow> ext2_fs) \<Rightarrow> super \<Rightarrow> super" where
  "on_fs f sb = sb\<lparr>m_vfs := (m_vfs sb)\<lparr>v_fs := f (v_fs (m_vfs sb))\<rparr>\<rparr>"

definition set_dev :: "u16 \<Rightarrow> super \<Rightarrow> super" where
  "set_dev dev sb = sb\<lparr>m_vfs := (m_vfs sb)\<lparr>s_dev := dev\<rparr>\<rparr>"

definition BLOCK_SIZE :: nat where "BLOCK_SIZE = 1024"
definition EXT2_SUPER_MAGIC :: u16 where "EXT2_SUPER_MAGIC = 0xEF53"
definition EXT2_GOOD_OLD_REV :: u32 where "EXT2_GOOD_OLD_REV = 0"
definition EXT2_CURRENT_REV :: u32 where "EXT2_CURRENT_REV = EXT2_GOOD_OLD_REV"
definition EXT2_GOOD_OLD_INODE_SIZE :: u16 where "EXT2_GOOD_OLD_INODE_SIZE = 128"
definition EXT2_GOOD_OLD_FIRST_INO :: u32 where "EXT2_GOOD_OLD_FIRST_INO = 11"
definition EXT2_MIN_BLOCK_SIZE :: u32 where "EXT2_MIN_BLOCK_SIZE = 1024"
definition EXT2_MIN_FRAG_SIZE :: u32 where "EXT2_MIN_FRAG_SIZE = 1024"
definition EXT2_FEATURE_INCOMPAT_SUPP :: u32 where "EXT2_FEATURE_INCOMPAT_SUPP = 0"
definition EXT2_FEATURE_RO_COMPAT_SUPP :: u32 where "EXT2_FEATURE_RO_COMPAT_SUPP = 1"
definition EXT2_VALID_FS :: u16 where "EXT2_VALID_FS = 1"
definition EXT2_DFL_MAX_MNT_COUNT :: u16 where "EXT2_DFL_MAX_MNT_COUNT = 20"
definition EXT2_DEF_RESUID :: u16 where "EXT2_DEF_RESUID = 0"
definition EXT2_DEF_RESGID :: u16 where "EXT2_DEF_RESGID = 0"

text \<open>\<open>s_es = es\<close>: the fields that the file system changes are those of \<open>es\<close>.\<close>

definition attach :: "ext2_super_block \<Rightarrow> super \<Rightarrow> super" where
  "attach es sb = (on_fs (\<lambda>fs. fs\<lparr>s_inodes_count := es_inodes_count es, s_blocks_count := es_blocks_count es,
     s_r_blocks_count := es_r_blocks_count es, s_free_blocks_count := es_free_blocks_count es,
     s_free_inodes_count := es_free_inodes_count es, s_first_data_block := es_first_data_block es,
     s_state := es_state es, s_errors := es_errors es\<rparr>) sb)\<lparr>s_es := es\<rparr>"

text \<open>
  \<open>set_blocksize\<close> of \<open>src/vfs/buffer.c\<close>, as the file system sees it: the dirty buffers are written, and the
  buffers of another size are taken out of the hash table, so that every block gets a new, unused buffer.
\<close>

definition set_blocksize :: "mount_env \<Rightarrow> nat \<Rightarrow> super \<Rightarrow> super option" where
  "set_blocksize menv bsz sb =
     (if bsz \<notin> {512, 1024, 2048, 4096} then None
      else if dev_blksize sb = bsz then Some (on_fs (\<lambda>fs. fs\<lparr>b_dirt := \<lambda>b. False\<rparr>) sb)
      else Some ((on_fs (\<lambda>fs. fs\<lparr>b_dirt := \<lambda>b. False, b_data := disk menv bsz, b_count := \<lambda>b. 0\<rparr>) sb)
             \<lparr>dev_blksize := bsz\<rparr>))"

subsection \<open>ext2_setup_super\<close>

definition setup_super :: "mount_env \<Rightarrow> super \<Rightarrow> super option" where
  "setup_super menv sb =
     (let sb = on_fs (\<lambda>fs. fs\<lparr>s_mount_opt :=
          (if Errors_Panic menv
           then set_opt EXT2_MOUNT_ERRORS_PANIC (clear_opt EXT2_MOUNT_ERRORS_RO (clear_opt EXT2_MOUNT_ERRORS_CONT (s_mount_opt fs)))
           else set_opt EXT2_MOUNT_ERRORS_CONT (clear_opt EXT2_MOUNT_ERRORS_RO (clear_opt EXT2_MOUNT_ERRORS_PANIC (s_mount_opt fs))))\<rparr>) sb;
          sb = (if es_rev_level (s_es sb) > EXT2_CURRENT_REV
                then on_fs (\<lambda>fs. fs\<lparr>s_flags := s_flags fs OR MS_RDONLY\<rparr>) sb else sb)
      in if s_flags (m_fs sb) AND MS_RDONLY = 0 then
           let sb = on_fs (\<lambda>fs. fs\<lparr>s_state := s_state fs AND NOT EXT2_VALID_FS\<rparr>) sb;
               es = s_es sb;
               es = (if es_max_mnt_count es = 0 then es\<lparr>es_max_mnt_count := EXT2_DFL_MAX_MNT_COUNT\<rparr> else es);
               es = (if auto_fsck menv then es\<lparr>es_mnt_count := EXT2_DFL_MAX_MNT_COUNT\<rparr>
                     else es\<lparr>es_mnt_count := es_mnt_count es + 1\<rparr>);
               es = es\<lparr>es_mtime := cur_time (m_env menv)\<rparr>;
               sb = on_fs (\<lambda>fs. (mark_buffer_dirty (s_sbh fs) fs)\<lparr>s_dirt := True\<rparr>) (sb\<lparr>s_es := es\<rparr>)
           in do {
             fs \<leftarrow> ext2_check_blocks_bitmap (m_fs sb);
             fs \<leftarrow> ext2_check_inodes_bitmap fs;
             Some (on_fs (\<lambda>_. fs) sb)
           }
         else Some sb)"

subsection \<open>ext2_read_super\<close>

text \<open>\<open>Inl\<close>: a null pointer was returned; \<open>Inr\<close>: the code goes on with a value.\<close>

type_synonym 'a mount_result = "(super + 'a \<times> super) option"

definition and_then :: "'a mount_result \<Rightarrow> ('a \<Rightarrow> super \<Rightarrow> 'b mount_result) \<Rightarrow> 'b mount_result" where
  "and_then r f = (case r of None \<Rightarrow> None | Some (Inl sb) \<Rightarrow> Some (Inl sb) | Some (Inr (x, sb)) \<Rightarrow> f x sb)"

text \<open>The error exits: \<open>s_dev = 0; unlock_super (sb); brelse (bh); return NULL\<close>\<close>

definition fail_mount :: "u32 option \<Rightarrow> super \<Rightarrow> 'a mount_result" where
  "fail_mount bh sb = Some (Inl (on_fs (\<lambda>fs. brelse bh (unlock_super fs)) (set_dev 0 sb)))"

definition bread_sb :: "u32 \<Rightarrow> super \<Rightarrow> u32 option \<times> super" where
  "bread_sb b sb = (case bread b (m_fs sb) of (bh, fs) \<Rightarrow> (bh, on_fs (\<lambda>_. fs) sb))"

text \<open>The features that keep the file system from being mounted.\<close>

definition bad_features :: "super \<Rightarrow> ext2_super_block \<Rightarrow> bool" where
  "bad_features sb es \<longleftrightarrow> es_rev_level es > EXT2_GOOD_OLD_REV \<and>
     (es_feature_incompat es AND NOT EXT2_FEATURE_INCOMPAT_SUPP \<noteq> 0 \<or>
      s_flags (m_fs sb) AND MS_RDONLY = 0 \<and> es_feature_ro_compat es AND NOT EXT2_FEATURE_RO_COMPAT_SUPP \<noteq> 0)"

text \<open>Up to the features: the options, and the super block in a buffer of 1024 bytes.\<close>

definition read_first :: "mount_env \<Rightarrow> string option \<Rightarrow> super \<Rightarrow> (u32 \<times> mount_opts) mount_result" where
  "read_first menv data sb =
     (let sb = on_fs (\<lambda>fs. fs\<lparr>s_mount_opt := set_opt EXT2_MOUNT_CHECK_STRICT (s_mount_opt fs)\<rparr>) sb in
      case parse_options data \<lparr>sb_block = 1, resuid = EXT2_DEF_RESUID, resgid = EXT2_DEF_RESGID,
             mount_options = s_mount_opt (m_fs sb)\<rparr> of
        (good, mo) \<Rightarrow>
          let sb = on_fs (\<lambda>fs. fs\<lparr>s_mount_opt := mount_options mo\<rparr>) sb in
          if \<not> good then Some (Inl (set_dev 0 sb))
          else do {
            sb \<leftarrow> set_blocksize menv BLOCK_SIZE (on_fs lock_super sb);
            case bread_sb (sb_block mo) sb of
              (None, sb) \<Rightarrow> fail_mount None sb
            | (Some bh, sb) \<Rightarrow> do {
                bs \<leftarrow> b_data (m_fs sb) bh;
                let es = decode_super 0 bs;
                let sb = (attach es sb)\<lparr>s_magic := es_magic es\<rparr>;
                if s_magic sb \<noteq> EXT2_SUPER_MAGIC \<or> bad_features sb es then fail_mount (Some bh) sb
                else Some (Inr ((bh, mo), sb))
              }
          })"

text \<open>
  The block size of the file system, and the super block in a buffer of that size. When it cannot be read,
  the super block stays locked. The result is its buffer and its logical block number.
\<close>

definition reread :: "mount_env \<Rightarrow> u32 \<Rightarrow> mount_opts \<Rightarrow> super \<Rightarrow> (u32 \<times> u32) mount_result" where
  "reread menv bh mo sb =
     (let es = s_es sb;
          bsize = shl32 EXT2_MIN_BLOCK_SIZE (unat (es_log_block_size es));
          sb = (on_fs (\<lambda>fs. fs\<lparr>s_blocksize := unat bsize\<rparr>) sb)\<lparr>s_blocksize_bits := es_log_block_size es + 10\<rparr>
      in if unat bsize \<noteq> BLOCK_SIZE \<and> (bsize = 1024 \<or> bsize = 2048 \<or> bsize = 4096) then do {
           sb \<leftarrow> set_blocksize menv (unat bsize) (on_fs (brelse (Some bh)) sb);
           let logic_sb_block = sb_block mo * of_nat BLOCK_SIZE div bsize;
           let offset = unat (sb_block mo * of_nat BLOCK_SIZE mod bsize);
           case bread_sb logic_sb_block sb of
             (None, sb) \<Rightarrow> Some (Inl sb)
           | (Some bh, sb) \<Rightarrow> do {
               bs \<leftarrow> b_data (m_fs sb) bh;
               let es = decode_super offset bs;
               let sb = attach es sb;
               if es_magic es \<noteq> EXT2_SUPER_MAGIC then fail_mount (Some bh) sb
               else Some (Inr ((bh, logic_sb_block), sb))
             }
         }
         else Some (Inr ((bh, 1), sb)))"

text \<open>The fields computed from the super block; a division by zero traps.\<close>

definition div_trap :: "u32 \<Rightarrow> u32 \<Rightarrow> u32 option" where
  "div_trap a b = (if b = 0 then None else Some (a div b))"

definition inode_sizes :: "u32 \<Rightarrow> super \<Rightarrow> unit mount_result" where
  "inode_sizes bh sb =
     (let es = s_es sb in
      if es_rev_level es = EXT2_GOOD_OLD_REV
      then Some (Inr ((), sb\<lparr>s_inode_size := EXT2_GOOD_OLD_INODE_SIZE, s_first_ino := EXT2_GOOD_OLD_FIRST_INO\<rparr>))
      else
        let sb = sb\<lparr>s_inode_size := es_inode_size es, s_first_ino := es_first_ino es\<rparr> in
        if s_inode_size sb \<noteq> EXT2_GOOD_OLD_INODE_SIZE then fail_mount (Some bh) sb else Some (Inr ((), sb)))"

definition open_rename_lock :: "super \<Rightarrow> super" where
  "open_rename_lock sb = sb\<lparr>m_vfs := (m_vfs sb)\<lparr>s_rename_lock := False\<rparr>\<rparr>"

definition geometry :: "u32 \<Rightarrow> mount_opts \<Rightarrow> super \<Rightarrow> super option" where
  "geometry bh mo sb =
     (let es = s_es sb;
          bsize = (of_nat (s_blocksize (m_fs sb)) :: u32);
          frag = shl32 EXT2_MIN_FRAG_SIZE (unat (es_log_frag_size es));
          sb = sb\<lparr>s_frag_size := frag\<rparr>;
          sb = (if frag \<noteq> 0 then sb\<lparr>s_frags_per_block := bsize div frag\<rparr> else sb\<lparr>s_magic := 0\<rparr>);
          sb = sb\<lparr>s_frags_per_group := es_frags_per_group es\<rparr>;
          ipb = bsize div of_nat RAW_INODE_SIZE
      in do {
        itb \<leftarrow> div_trap (es_inodes_per_group es) ipb;
        Some ((open_rename_lock (on_fs (\<lambda>fs. fs\<lparr>s_blocks_per_group := unat (es_blocks_per_group es),
            s_inodes_per_group := unat (es_inodes_per_group es), s_inodes_per_block := unat ipb,
            s_itb_per_group := unat itb, s_desc_per_block := unat (bsize div 32), s_sbh := bh,
            s_mount_state := s_state fs\<rparr>) sb))
          \<lparr>s_resuid := (if resuid mo \<noteq> EXT2_DEF_RESUID then resuid mo else es_def_resuid es),
           s_resgid := (if resgid mo \<noteq> EXT2_DEF_RESGID then resgid mo else es_def_resgid es)\<rparr>)
      })"

definition unsupported :: "super \<Rightarrow> bool" where
  "unsupported sb \<longleftrightarrow> s_magic sb \<noteq> EXT2_SUPER_MAGIC \<or> s_blocksize (m_fs sb) \<noteq> dev_blksize sb \<or>
     s_blocksize (m_fs sb) \<noteq> unat (s_frag_size sb)"

text \<open>The group descriptors: \<open>load_desc logic n i\<close> reads the blocks that are left from the \<open>i\<close>-th one on.\<close>

definition release_descs :: "ext2_fs \<Rightarrow> ext2_fs" where
  "release_descs fs = (fold brelse (List.map (map_option fst) (s_group_desc fs)) fs)\<lparr>s_group_desc := []\<rparr>"

fun load_desc :: "u32 \<Rightarrow> u32 \<Rightarrow> nat \<Rightarrow> nat \<Rightarrow> super \<Rightarrow> unit mount_result" where
  "load_desc bh logic 0 i sb = Some (Inr ((), sb))"
| "load_desc bh logic (Suc n) i sb =
     (case bread_sb (logic + of_nat i + 1) sb of
        (None, sb) \<Rightarrow> fail_mount (Some bh) (on_fs release_descs sb)
      | (Some b, sb) \<Rightarrow> do {
          bs \<leftarrow> b_data (m_fs sb) b;
          load_desc bh logic n (Suc i)
            (on_fs (\<lambda>fs. fs\<lparr>s_group_desc := s_group_desc fs @ [Some (b, decode_descs (s_desc_per_block fs) bs)]\<rparr>) sb)
        })"

definition load_groups :: "mount_env \<Rightarrow> u32 \<Rightarrow> u32 \<Rightarrow> super \<Rightarrow> unit mount_result" where
  "load_groups menv bh logic sb =
     (let es = s_es sb; bpg = es_blocks_per_group es in do {
        groups \<leftarrow> div_trap (es_blocks_count es - es_first_data_block es + bpg - 1) bpg;
        let dpb = (of_nat (s_desc_per_block (m_fs sb)) :: u32);
        db_count \<leftarrow> div_trap (groups + dpb - 1) dpb;
        let sb = on_fs (\<lambda>fs. fs\<lparr>s_groups_count := unat groups\<rparr>) sb;
        if \<not> memory menv (unat db_count * 4) then fail_mount (Some bh) sb
        else and_then (load_desc bh logic (unat db_count) 0 (on_fs (\<lambda>fs. fs\<lparr>s_group_desc := []\<rparr>) sb)) (\<lambda>_ sb. do {
          (good, fs) \<leftarrow> ext2_check_descriptors (m_fs sb);
          let sb = on_fs (\<lambda>_. fs) sb;
          if \<not> good then fail_mount (Some bh) (on_fs release_descs sb)
          else Some (Inr ((), sb\<lparr>s_db_per_group := unat db_count\<rparr>))
        })
      })"

definition cleared_cache :: bitmap_cache where
  "cleared_cache = \<lparr>bm_number = replicate EXT2_MAX_GROUP_LOADED 0, bm_bitmap = replicate EXT2_MAX_GROUP_LOADED None,
     bm_loaded = 0\<rparr>"

text \<open>Everything before the root directory.\<close>

definition load_super :: "mount_env \<Rightarrow> string option \<Rightarrow> super \<Rightarrow> u32 mount_result" where
  "load_super menv data sb =
     and_then (read_first menv data sb) (\<lambda>(bh, mo) sb.
     and_then (reread menv bh mo sb) (\<lambda>(bh, logic) sb.
     and_then (inode_sizes bh sb) (\<lambda>_ sb. do {
       sb \<leftarrow> geometry bh mo sb;
       if unsupported sb then fail_mount (Some bh) sb
       else and_then (load_groups menv bh logic sb) (\<lambda>_ sb.
         Some (Inr (bh, on_fs (\<lambda>fs. unlock_super (fs\<lparr>inode_cache := cleared_cache, block_cache := cleared_cache\<rparr>)) sb)))
     })))"

text \<open>\<open>True\<close> when the super block is returned, \<open>False\<close> for a null pointer.\<close>

definition ext2_read_super :: "mount_env \<Rightarrow> string option \<Rightarrow> super \<Rightarrow> (bool \<times> super) option" where
  "ext2_read_super menv data sb = do {
     r \<leftarrow> load_super menv data sb;
     case r of
       Inl sb \<Rightarrow> Some (False, sb)
     | Inr (bh, sb1) \<Rightarrow> do {
         let sb1 = set_dev (s_dev (m_vfs sb)) sb1;
         (root, st) \<leftarrow> iget (m_env menv) EXT2_ROOT_INO (m_vfs sb1);
         let sb1 = sb1\<lparr>m_vfs := st, s_mounted := root\<rparr>;
         if root = INull
         then Some (False, on_fs (\<lambda>fs. brelse (Some bh) (release_descs fs)) (set_dev 0 sb1))
         else do { sb1 \<leftarrow> setup_super menv sb1; Some (True, sb1) }
       }
   }"

subsection \<open>Writing, remounting and unmounting\<close>

definition commit_super :: "mount_env \<Rightarrow> super \<Rightarrow> super" where
  "commit_super menv sb =
     on_fs (\<lambda>fs. (mark_buffer_dirty (s_sbh fs) fs)\<lparr>s_dirt := False\<rparr>)
       (sb\<lparr>s_es := (s_es sb)\<lparr>es_wtime := cur_time (m_env menv)\<rparr>\<rparr>)"

definition ext2_write_super :: "mount_env \<Rightarrow> super \<Rightarrow> super" where
  "ext2_write_super menv sb =
     (let sb = (if s_flags (m_fs sb) AND MS_RDONLY = 0 then
                  let sb = (if s_state (m_fs sb) AND EXT2_VALID_FS \<noteq> 0
                            then (on_fs (\<lambda>fs. fs\<lparr>s_state := s_state fs AND NOT EXT2_VALID_FS\<rparr>) sb)
                              \<lparr>s_es := (s_es sb)\<lparr>es_mtime := cur_time (m_env menv)\<rparr>\<rparr>
                            else sb)
                  in commit_super menv sb
                else sb)
      in on_fs (\<lambda>fs. fs\<lparr>s_dirt := False\<rparr>) sb)"

text \<open>
  \<open>stack\<close> is what the local variables \<open>new_mount_opt\<close> and \<open>tmp\<close> of \<open>ext2_remount\<close> happen to hold: they are not
  initialised before \<open>parse_options\<close> changes them.
\<close>

definition ext2_remount :: "mount_env \<Rightarrow> u32 \<Rightarrow> u32 \<Rightarrow> u32 \<Rightarrow> string option \<Rightarrow> super \<Rightarrow> (int \<times> super) option" where
  "ext2_remount menv stack_opt stack_tmp flags data sb =
     (let sb = on_fs (\<lambda>fs. fs\<lparr>s_mount_opt := set_opt EXT2_MOUNT_CHECK_NORMAL (s_mount_opt fs)\<rparr>) sb in
      case parse_options data \<lparr>sb_block = stack_tmp, resuid = s_resuid sb, resgid = s_resgid sb, mount_options = stack_opt\<rparr> of
        (False, mo) \<Rightarrow> Some (- EINVAL, sb)
      | (True, mo) \<Rightarrow>
          let sb = (on_fs (\<lambda>fs. fs\<lparr>s_mount_opt := mount_options mo\<rparr>) sb)\<lparr>s_resuid := resuid mo, s_resgid := resgid mo\<rparr>;
              fs = m_fs sb
          in if flags AND MS_RDONLY = s_flags fs AND MS_RDONLY then Some (0, sb)
             else if flags AND MS_RDONLY \<noteq> 0 then
               if s_state fs AND EXT2_VALID_FS \<noteq> 0 \<or> s_mount_state fs AND EXT2_VALID_FS = 0 then Some (0, sb)
               else
                 let sb = (on_fs (\<lambda>fs. (mark_buffer_dirty (s_sbh fs) (fs\<lparr>s_state := s_mount_state fs\<rparr>))\<lparr>s_dirt := True\<rparr>) sb)
                       \<lparr>s_es := (s_es sb)\<lparr>es_mtime := cur_time (m_env menv)\<rparr>\<rparr>
                 in Some (0, commit_super menv sb)
             else do {
               sb \<leftarrow> setup_super menv (on_fs (\<lambda>fs. fs\<lparr>s_mount_state := s_state fs,
                       s_flags := s_flags fs AND NOT MS_RDONLY\<rparr>) sb);
               Some (0, sb)
             })"

definition do_remount_sb :: "mount_env \<Rightarrow> u32 \<Rightarrow> u32 \<Rightarrow> u32 \<Rightarrow> string option \<Rightarrow> super \<Rightarrow> (int \<times> super) option" where
  "do_remount_sb menv stack_opt stack_tmp flags data sb = do {
     (retval, sb) \<leftarrow> ext2_remount menv stack_opt stack_tmp flags data sb;
     if retval \<noteq> 0 then Some (retval, sb)
     else Some (0, on_fs (\<lambda>fs. fs\<lparr>s_flags := (s_flags fs AND NOT MS_RDONLY) OR (flags AND MS_RDONLY)\<rparr>) sb)
   }"

definition ext2_put_super :: "super \<Rightarrow> super" where
  "ext2_put_super sb =
     (let sb = on_fs lock_super sb;
          sb = (if s_flags (m_fs sb) AND MS_RDONLY = 0
                then on_fs (\<lambda>fs. mark_buffer_dirty (s_sbh fs) (fs\<lparr>s_state := s_mount_state fs\<rparr>)) sb else sb);
          sb = on_fs release_descs sb;
          sb = on_fs (\<lambda>fs. fold brelse (bm_bitmap (inode_cache fs)) fs) sb;
          sb = on_fs (\<lambda>fs. fold brelse (bm_bitmap (block_cache fs)) fs) sb
      in on_fs (\<lambda>fs. unlock_super (brelse (Some (s_sbh fs)) fs)) sb)"

end
