(* ===== verification/Ext2_Dir_Props.thy ===== *)
theory Ext2_Dir_Props
  imports Ext2_Dir Ext2_Example
begin

text \<open>
  The theorems about directory blocks. A block that \<open>ext2_check_dir_entry\<close> accepts entry by entry is a
  chain of entries (\<open>dir_block\<close>), and what it means is the list of its entries in use (\<open>live\<close>): the
  search, the insertion and the deletion are proved against operations on that list.
\<close>

section \<open>Reading bytes that did not change\<close>

definition agree :: "u8 list \<Rightarrow> u8 list \<Rightarrow> nat \<Rightarrow> nat \<Rightarrow> bool" where
  "agree bs bs' a b \<longleftrightarrow> length bs' = length bs \<and> (\<forall>i. a \<le> i \<longrightarrow> i < b \<longrightarrow> rd8 bs' i = rd8 bs i)"

lemma agree_mono: "agree bs bs' a b \<Longrightarrow> a \<le> a' \<Longrightarrow> b' \<le> b \<Longrightarrow> agree bs bs' a' b'"
  by (simp add: agree_def)

lemma get16_agree: "agree bs bs' a b \<Longrightarrow> a \<le> j \<Longrightarrow> j + 2 \<le> b \<Longrightarrow> get16 j bs' = get16 j bs"
  by (simp add: agree_def get16_def)

lemma get32_agree: "agree bs bs' a b \<Longrightarrow> a \<le> j \<Longrightarrow> j + 4 \<le> b \<Longrightarrow> get32 j bs' = get32 j bs"
  by (simp add: agree_def get32_def)

lemma rd8_put_bytes:
  "off + length xs \<le> length bs \<Longrightarrow>
     rd8 (put_bytes off xs bs) j = (if off \<le> j \<and> j < off + length xs then xs ! (j - off) else rd8 bs j)"
proof (induction off xs bs rule: put_bytes.induct)
  case (2 off x xs bs)
  then have "rd8 (put_bytes (Suc off) xs (put8 off x bs)) j =
      (if Suc off \<le> j \<and> j < Suc off + length xs then xs ! (j - Suc off) else rd8 (put8 off x bs) j)" by simp
  also have "\<dots> = (if off \<le> j \<and> j < off + length (x # xs) then (x # xs) ! (j - off) else rd8 bs j)"
  proof (cases "j \<le> off")
    case True
    then show ?thesis using 2(2) by (auto simp: rd8_put8)
  next
    case False
    then have "j - off = Suc (j - Suc off)" by simp
    then show ?thesis using 2(2) False by (simp add: rd8_put8)
  qed
  finally show ?case by simp
qed auto

lemma length_put_bytes [simp]: "length (put_bytes off xs bs) = length bs"
  by (induction off xs bs rule: put_bytes.induct) simp_all

section \<open>Chains of entries\<close>

text \<open>The entries \<open>offs\<close> fill the bytes from \<open>a\<close> to \<open>b\<close>.\<close>

fun seg :: "ext2_fs \<Rightarrow> u8 list \<Rightarrow> nat \<Rightarrow> nat list \<Rightarrow> nat \<Rightarrow> bool" where
  "seg fs bs a [] b \<longleftrightarrow> a = b"
| "seg fs bs a (x # xs) b \<longleftrightarrow> x = a \<and> dir_entry_ok fs True bs a \<and> seg fs bs (a + de_rec_len bs a) xs b"

definition dir_block :: "ext2_fs \<Rightarrow> u8 list \<Rightarrow> nat list \<Rightarrow> bool" where
  "dir_block fs bs offs \<longleftrightarrow> length bs = s_blocksize fs \<and> s_blocksize fs < 2 ^ 16 \<and> seg fs bs 0 offs (s_blocksize fs)"

text \<open>The entries in use: name and inode.\<close>

definition live :: "u8 list \<Rightarrow> nat list \<Rightarrow> (u8 list \<times> u32) list" where
  "live bs offs = List.map (\<lambda>x. (de_name bs x, de_inode bs x)) (List.filter (\<lambda>x. de_inode bs x \<noteq> 0) offs)"

lemma dir_entry_okD:
  assumes "dir_entry_ok fs True bs x"
  shows "12 \<le> de_rec_len bs x" and "de_rec_len bs x mod 4 = 0" and "EXT2_DIR_REC_LEN (de_name_len bs x) \<le> de_rec_len bs x"
    and "x + de_rec_len bs x \<le> s_blocksize fs" and "de_inode bs x \<le> s_inodes_count fs"
    and "de_name_len bs x + 8 \<le> de_rec_len bs x"
  using assms by (simp_all add: dir_entry_ok_def EXT2_DIR_REC_LEN_def EXT2_DIR_ROUND_def not_less split: if_splits)

lemma dir_entry_okI:
  "12 \<le> de_rec_len bs x \<Longrightarrow> de_rec_len bs x mod 4 = 0 \<Longrightarrow> EXT2_DIR_REC_LEN (de_name_len bs x) \<le> de_rec_len bs x \<Longrightarrow>
     x + de_rec_len bs x \<le> s_blocksize fs \<Longrightarrow> de_inode bs x \<le> s_inodes_count fs \<Longrightarrow> dir_entry_ok fs True bs x"
  by (simp add: dir_entry_ok_def EXT2_DIR_REC_LEN_def EXT2_DIR_ROUND_def not_less)

lemma rec_len_facts: "12 \<le> EXT2_DIR_REC_LEN (Suc n)" "EXT2_DIR_REC_LEN n mod 4 = 0" "n + 8 \<le> EXT2_DIR_REC_LEN n"
  by (simp_all add: EXT2_DIR_REC_LEN_def EXT2_DIR_ROUND_def)

lemma header_in_block:
  "dir_entry_ok fs True bs x \<Longrightarrow> length bs = s_blocksize fs \<Longrightarrow> header_in bs x"
  using dir_entry_okD(1,4) [of fs bs x] by (simp add: header_in_def)

lemma seg_append: "seg fs bs a (xs @ ys) b \<longleftrightarrow> (\<exists>m. seg fs bs a xs m \<and> seg fs bs m ys b)"
  by (induction xs arbitrary: a) auto

lemma seg_bounds:
  "seg fs bs a offs b \<Longrightarrow> a \<le> b \<and> (\<forall>x \<in> set offs. a \<le> x \<and> x + de_rec_len bs x \<le> b \<and> dir_entry_ok fs True bs x)"
proof (induction offs arbitrary: a)
  case (Cons x xs)
  then have x: "x = a" "dir_entry_ok fs True bs a" and "seg fs bs (a + de_rec_len bs a) xs b" by simp_all
  from Cons.IH [OF this(3)] show ?case using x by auto
qed simp

text \<open>An entry is determined by its own bytes.\<close>

lemma entry_agree:
  assumes "agree bs bs' x (x + 8 + de_name_len bs x)" and "dir_entry_ok fs True bs x"
  shows "de_inode bs' x = de_inode bs x" and "de_rec_len bs' x = de_rec_len bs x" and "de_name_len bs' x = de_name_len bs x"
    and "de_name bs' x = de_name bs x" and "dir_entry_ok fs True bs' x"
proof -
  note d = dir_entry_okD [OF assms(2)]
  show i: "de_inode bs' x = de_inode bs x" unfolding de_inode_def by (rule get32_agree [OF assms(1)]) (use d(1) in simp_all)
  show r: "de_rec_len bs' x = de_rec_len bs x"
    unfolding de_rec_len_def by (subst get16_agree [OF assms(1)]) (use d(1) in simp_all)
  show n: "de_name_len bs' x = de_name_len bs x"
    unfolding de_name_len_def by (subst get16_agree [OF assms(1)]) (use d(1) in simp_all)
  show "de_name bs' x = de_name bs x" unfolding de_name_def n using assms(1) d(6) by (simp add: agree_def)
  show "dir_entry_ok fs True bs' x" using assms(2) unfolding dir_entry_ok_def i r n .
qed

lemma seg_agree:
  assumes "seg fs bs a offs b" and "agree bs bs' a b"
  shows "seg fs bs' a offs b" and "live bs' offs = live bs offs"
proof -
  have "seg fs bs' a offs b \<and> live bs' offs = live bs offs"
    using assms
  proof (induction offs arbitrary: a)
    case (Cons x xs)
    then have x: "x = a" "dir_entry_ok fs True bs a" and s: "seg fs bs (a + de_rec_len bs a) xs b" by simp_all
    have le: "a + de_rec_len bs a \<le> b" using seg_bounds [OF s] by simp
    have "a + 8 + de_name_len bs a \<le> b" using le dir_entry_okD(6) [OF x(2)] by simp
    note e = entry_agree [OF agree_mono [OF Cons.prems(2) order_refl this] x(2)]
    have "agree bs bs' (a + de_rec_len bs a) b" by (rule agree_mono [OF Cons.prems(2)]) simp_all
    from Cons.IH [OF s this] show ?case using x e by (simp add: live_def)
  qed (simp add: live_def)
  then show "seg fs bs' a offs b" and "live bs' offs = live bs offs" by simp_all
qed

lemma live_Nil [simp]: "live bs [] = []"
  by (simp add: live_def)

lemma live_append: "live bs (xs @ ys) = live bs xs @ live bs ys"
  by (simp add: live_def)

lemma live_Cons: "live bs (x # xs) = (if de_inode bs x \<noteq> 0 then [(de_name bs x, de_inode bs x)] else []) @ live bs xs"
  by (simp add: live_def)

lemma dir_block_split:
  assumes "dir_block fs bs (xs @ x # ys)"
  shows "length bs = s_blocksize fs" and "s_blocksize fs < 2 ^ 16" and "seg fs bs 0 xs x" and "dir_entry_ok fs True bs x"
    and "seg fs bs (x + de_rec_len bs x) ys (s_blocksize fs)" and "x + de_rec_len bs x \<le> s_blocksize fs"
  using assms seg_bounds by (auto simp: dir_block_def seg_append)

section \<open>The search\<close>

lemma scan_block_find:
  assumes "length bs = s_blocksize fs" and "seg fs bs a offs (s_blocksize fs)"
  shows "scan_block retensive name bs a fs =
    (case List.find (\<lambda>x. de_inode bs x \<noteq> 0 \<and> ext2_match retensive name bs x) offs of
       Some x \<Rightarrow> Some (Found x, fs) | None \<Rightarrow> Some (Done (s_blocksize fs), fs))"
  using assms(2)
proof (induction offs arbitrary: a)
  case Nil
  then show ?case by (simp add: scan_block.simps [of retensive name bs "s_blocksize fs" fs])
next
  case (Cons x xs)
  then have x: "x = a" "dir_entry_ok fs True bs a" and s: "seg fs bs (a + de_rec_len bs a) xs (s_blocksize fs)" by simp_all
  have lt: "a < s_blocksize fs" using dir_entry_okD(1,4) [OF x(2)] by simp
  show ?case
    using x lt header_in_block [OF x(2) assms(1)] Cons.IH [OF s] by (simp add: scan_block.simps [of retensive name bs a fs])
qed

lemma scan_lookup:
  assumes "dir_block fs bs offs" and "name \<noteq> []" and "length name \<le> EXT2_NAME_LEN"
  shows "\<exists>r. scan_block False name bs 0 fs = Some (r, fs) \<and>
    (case map_of (live bs offs) name of
       None \<Rightarrow> r = Done (s_blocksize fs)
     | Some ino \<Rightarrow> \<exists>x \<in> set offs. r = Found x \<and> de_name bs x = name \<and> de_inode bs x = ino \<and> ino \<noteq> 0)"
proof -
  have m: "ext2_match False name bs x \<longleftrightarrow> de_name bs x = name" if "de_inode bs x \<noteq> 0" for x
    using assms(2,3) that by (auto simp: ext2_match_def name_eq_def de_name_def)
  have f: "(\<lambda>x. de_inode bs x \<noteq> 0 \<and> ext2_match False name bs x) = (\<lambda>x. de_inode bs x \<noteq> 0 \<and> de_name bs x = name)"
    using m by auto
  have sc: "scan_block False name bs 0 fs = (case List.find (\<lambda>x. de_inode bs x \<noteq> 0 \<and> de_name bs x = name) offs of
       Some x \<Rightarrow> Some (Found x, fs) | None \<Rightarrow> Some (Done (s_blocksize fs), fs))"
    using scan_block_find [of bs fs 0 offs False name] assms(1) unfolding f by (simp add: dir_block_def)
  have l: "map_of (live bs offs) name = map_option (de_inode bs) (List.find (\<lambda>x. de_inode bs x \<noteq> 0 \<and> de_name bs x = name) offs)"
    by (induction offs) (auto simp: live_def)
  show ?thesis
  proof (cases "List.find (\<lambda>x. de_inode bs x \<noteq> 0 \<and> de_name bs x = name) offs")
    case None
    then show ?thesis using sc l by simp
  next
    case (Some x)
    then have "x \<in> set offs" "de_inode bs x \<noteq> 0" "de_name bs x = name"
      by (auto simp: find_Some_iff in_set_conv_nth)
    then show ?thesis using sc l Some by auto
  qed
qed

text \<open>In a well formed block, the search is the lookup in the list of the entries in use: it finds the
  first entry with the name, or runs to the end of the block when there is none, and changes nothing.\<close>

theorem scan_block_lookup:
  assumes "dir_block fs bs offs" and "name \<noteq> []" and "length name \<le> EXT2_NAME_LEN"
  shows "\<exists>r. scan_block False name bs 0 fs = Some (r, fs) \<and>
    (case map_of (live bs offs) name of
       None \<Rightarrow> r = Done (s_blocksize fs)
     | Some ino \<Rightarrow> \<exists>x \<in> set offs. r = Found x \<and> de_name bs x = name \<and> de_inode bs x = ino \<and> ino \<noteq> 0)"
  by (rule scan_lookup [OF assms])

section \<open>Deleting an entry\<close>

text \<open>The entry \<open>x\<close> with its inode cleared.\<close>

lemma clear_inode_entry:
  assumes "x + de_rec_len bs x \<le> length bs" and "12 \<le> de_rec_len bs x"
  shows "de_inode (put32 x v bs) x = v" and "de_rec_len (put32 x v bs) x = de_rec_len bs x"
    and "de_name_len (put32 x v bs) x = de_name_len bs x" and "de_name (put32 x v bs) x = de_name bs x"
    and "\<And>a b. b \<le> x \<or> x + 4 \<le> a \<Longrightarrow> agree bs (put32 x v bs) a b"
  using assms
  by (auto simp: de_inode_def de_rec_len_def de_name_len_def de_name_def buf_simps rd8_put_other agree_def)

lemma dir_block_put_inode:
  assumes b: "dir_block fs bs (xs @ x # ys)" and v: "v \<le> s_inodes_count fs"
  shows "dir_block fs (put32 x v bs) (xs @ x # ys)"
    and "live (put32 x v bs) (xs @ x # ys) = live bs xs @ (if v \<noteq> 0 then [(de_name bs x, v)] else []) @ live bs ys"
proof -
  note s = dir_block_split [OF b]
  note d = dir_entry_okD [OF s(4)]
  have "x + de_rec_len bs x \<le> length bs" using s(1,6) by simp
  note c = clear_inode_entry [OF this d(1), where v = v]
  have len: "length (put32 x v bs) = length bs" by simp
  note left = seg_agree [OF s(3) c(5), OF disjI1 [OF order_refl]]
  have "x + 4 \<le> x + de_rec_len bs x" using d(1) by simp
  note right = seg_agree [OF s(5) c(5), OF disjI2 [OF this]]
  have ok: "dir_entry_ok fs True (put32 x v bs) x"
    by (rule dir_entry_okI) (use c d v in simp_all)
  show "dir_block fs (put32 x v bs) (xs @ x # ys)"
    using s left(1) right(1) ok c(2) by (auto simp: dir_block_def seg_append)
  show "live (put32 x v bs) (xs @ x # ys) = live bs xs @ (if v \<noteq> 0 then [(de_name bs x, v)] else []) @ live bs ys"
    using left(2) right(2) c(1,4) by (simp add: live_append live_Cons)
qed

text \<open>The entry \<open>p\<close> that takes over the room of the entry \<open>x\<close> behind it.\<close>

lemma dir_block_merge:
  assumes b: "dir_block fs bs (xs @ p # x # ys)"
  defines "bs' \<equiv> put16 (p + 4) (get16 (p + 4) bs + get16 (x + 4) bs) bs"
  shows "dir_block fs bs' (xs @ p # ys)" and "live bs' (xs @ p # ys) = live bs (xs @ [p]) @ live bs ys"
proof -
  have b2: "dir_block fs bs ((xs @ [p]) @ x # ys)" using b by simp
  note s = dir_block_split [OF b] and t = dir_block_split [OF b2]
  note d = dir_entry_okD [OF s(4)] and e = dir_entry_okD [OF t(4)]
  have xp: "x = p + de_rec_len bs p" using s(5) by simp
  have plen: "p + 4 + 2 \<le> length bs" using d(1,4) s(1) by simp
  have sum: "de_rec_len bs p + de_rec_len bs x < 2 ^ 16" using e(4) s(2) xp by simp
  have unat16: "unat (u + w) = unat u + unat w" if "unat u + unat w < 2 ^ 16" for u w :: u16
    using that by (simp add: unat_word_ariths)
  have r: "de_rec_len bs' p = de_rec_len bs p + de_rec_len bs x"
    using plen sum by (simp add: de_rec_len_def bs'_def buf_simps unat16)
  have far: "agree bs bs' a c" if "c \<le> p + 4 \<or> p + 6 \<le> a" for a c
    using plen that by (auto simp: agree_def bs'_def rd8_put_other)
  have i: "de_inode bs' p = de_inode bs p" and n: "de_name_len bs' p = de_name_len bs p"
    using plen by (simp_all add: de_inode_def de_name_len_def bs'_def buf_simps)
  have nm: "de_name bs' p = de_name bs p"
    using plen by (simp add: de_name_def n) (simp add: bs'_def rd8_put_other)
  have ok: "dir_entry_ok fs True bs' p"
    by (rule dir_entry_okI) (use r i n d e xp in auto)
  note left = seg_agree [OF s(3) far, OF disjI1 [OF le_add1]]
  have "p + 6 \<le> x + de_rec_len bs x" using d(1) xp by simp
  note right = seg_agree [OF t(5) far, OF disjI2 [OF this]]
  have nxt: "p + de_rec_len bs' p = x + de_rec_len bs x" using r xp by simp
  have len: "length bs' = length bs" by (simp add: bs'_def)
  show "dir_block fs bs' (xs @ p # ys)"
  proof -
    have "seg fs bs' (p + de_rec_len bs' p) ys (s_blocksize fs)" unfolding nxt by (rule right(1))
    then show ?thesis using s(1,2) left(1) ok len unfolding dir_block_def seg_append seg.simps by auto
  qed
  show "live bs' (xs @ p # ys) = live bs (xs @ [p]) @ live bs ys"
    using left(2) right(2) i nm by (simp add: live_append live_Cons)
qed

lemma merge_next:
  assumes b: "dir_block fs bs (xs @ p # x # ys)"
  shows "p + de_rec_len (put16 (p + 4) (get16 (p + 4) bs + get16 (x + 4) bs) bs) p = x + de_rec_len bs x"
proof -
  have b2: "dir_block fs bs ((xs @ [p]) @ x # ys)" using b by simp
  note s = dir_block_split [OF b] and t = dir_block_split [OF b2]
  have xp: "x = p + de_rec_len bs p" using s(5) by simp
  have "p + 4 + 2 \<le> length bs" using dir_entry_okD(1,4) [OF s(4)] s(1) by simp
  moreover have "unat (get16 (p + 4) bs) + unat (get16 (x + 4) bs) < 2 ^ 16"
    using dir_entry_okD(4) [OF t(4)] s(2) xp by (simp add: de_rec_len_def)
  ultimately show ?thesis using xp by (simp add: de_rec_len_def buf_simps unat_word_ariths)
qed

text \<open>Bytes of an entry behind its name do not matter.\<close>

lemma dir_block_dead:
  assumes b: "dir_block fs bs (xs @ p # ys)" and lo: "p + 8 + de_name_len bs p \<le> lo" and hi: "hi \<le> p + de_rec_len bs p"
    and far: "\<And>a c. c \<le> lo \<or> hi \<le> a \<Longrightarrow> agree bs bs' a c"
  shows "dir_block fs bs' (xs @ p # ys)" and "live bs' (xs @ p # ys) = live bs (xs @ p # ys)"
proof -
  note s = dir_block_split [OF b]
  have "p \<le> lo" using lo by simp
  note left = seg_agree [OF s(3) far, OF disjI1 [OF this]]
  note right = seg_agree [OF s(5) far, OF disjI2 [OF hi]]
  note e = entry_agree [OF far s(4), OF disjI1 [OF lo]]
  have "length bs' = length bs" using far [of 0 0] by (simp add: agree_def)
  then show "dir_block fs bs' (xs @ p # ys)"
    using s left(1) right(1) e by (auto simp: dir_block_def seg_append)
  show "live bs' (xs @ p # ys) = live bs (xs @ p # ys)"
    using left(2) right(2) e by (simp add: live_append live_Cons)
qed

lemma delete_scan_from:
  assumes "length bs = s_blocksize fs" and "seg fs bs a (xs @ x # ys) (s_blocksize fs)"
  shows "delete_scan fs bs x pde a = Some (Inr (merge_entry (if xs = [] then pde else Some (last xs)) x bs))"
  using assms(2)
proof (induction xs arbitrary: a pde)
  case Nil
  then have x: "x = a" "dir_entry_ok fs True bs a" by simp_all
  have "a < length bs" using dir_entry_okD(1,4) [OF x(2)] assms(1) by simp
  moreover have "dir_entry_ok fs False bs a" using x(2) by (auto simp: dir_entry_ok_def split: if_splits)
  ultimately show ?case
    using x header_in_block [OF x(2) assms(1)] by (simp add: delete_scan.simps [of fs bs a pde a])
next
  case (Cons z zs)
  then have z: "z = a" "dir_entry_ok fs True bs a" and s: "seg fs bs (a + de_rec_len bs a) (zs @ x # ys) (s_blocksize fs)" by simp_all
  have "a < length bs" using dir_entry_okD(1,4) [OF z(2)] assms(1) by simp
  moreover have "dir_entry_ok fs False bs a" using z(2) by (auto simp: dir_entry_ok_def split: if_splits)
  moreover have "a \<noteq> x" using seg_bounds [OF s] dir_entry_okD(1) [OF z(2)] by auto
  ultimately show ?case
    using z header_in_block [OF z(2) assms(1)] Cons.IH [OF s, of "Some a"] by (simp add: delete_scan.simps [of fs bs x pde a])
qed

lemma delete_entry_effect:
  assumes b: "dir_block fs bs (xs @ x # ys)"
  shows "\<exists>bs' offs'. delete_scan fs bs x None 0 = Some (Inr bs') \<and> dir_block fs bs' offs' \<and> live bs' offs' = live bs xs @ live bs ys"
proof (cases xs rule: rev_cases)
  case Nil
  have "delete_scan fs bs x None 0 = Some (Inr (put32 x 0 bs))"
    using delete_scan_from [of bs fs 0 xs x ys None] b Nil by (simp add: dir_block_def merge_entry_def)
  then show ?thesis using dir_block_put_inode [OF b, of 0] by (intro exI [where x = "put32 x 0 bs"] exI) auto
next
  case (snoc zs p)
  let ?bs1 = "put16 (p + 4) (get16 (p + 4) bs + get16 (x + 4) bs) bs"
  have d: "delete_scan fs bs x None 0 = Some (Inr (put32 x 0 ?bs1))"
    using delete_scan_from [of bs fs 0 xs x ys None] b snoc by (simp add: dir_block_def merge_entry_def)
  have b': "dir_block fs bs (zs @ p # x # ys)" using b snoc by simp
  note m = dir_block_merge [OF b']
  note s = dir_block_split [OF b] and t = dir_block_split [OF b'] and u = dir_block_split [OF m(1)]
  note dx = dir_entry_okD [OF s(4)] and dp = dir_entry_okD [OF t(4)]
  have xp: "x = p + de_rec_len bs p" using t(5) by simp
  have "de_name_len ?bs1 p = de_name_len bs p"
    using dp(1,4) s(1) by (simp add: de_name_len_def buf_simps)
  then have lo: "p + 8 + de_name_len ?bs1 p \<le> x" using xp dp(6) by simp
  have nxt: "p + de_rec_len ?bs1 p = x + de_rec_len bs x"
    using u(5) t(5) merge_next [OF b'] by simp
  then have hi: "x + 4 \<le> p + de_rec_len ?bs1 p" using dx(1) by simp
  have far: "agree ?bs1 (put32 x 0 ?bs1) a c" if "c \<le> x \<or> x + 4 \<le> a" for a c
    using that dx(1,4) s(1) by (auto simp: agree_def rd8_put_other)
  note k = dir_block_dead [OF m(1) lo hi far]
  have "live bs (zs @ [p]) = live bs xs" using snoc by simp
  then show ?thesis
    using d k m(2) by (intro exI [where x = "put32 x 0 ?bs1"] exI [where x = "zs @ p # ys"]) simp
qed

lemma delete_scan_absent:
  assumes "length bs = s_blocksize fs" and "seg fs bs a offs (s_blocksize fs)" and "x \<notin> set offs"
  shows "delete_scan fs bs x pde a = Some (Inl (- ENOENT))"
  using assms(2,3)
proof (induction offs arbitrary: a pde)
  case Nil
  then show ?case using assms(1) by (simp add: delete_scan.simps [of fs bs x pde "s_blocksize fs"])
next
  case (Cons z zs)
  then have z: "z = a" "dir_entry_ok fs True bs a" "a \<noteq> x" and s: "seg fs bs (a + de_rec_len bs a) zs (s_blocksize fs)" by auto
  have "a < length bs" using dir_entry_okD(1,4) [OF z(2)] assms(1) by simp
  moreover have "dir_entry_ok fs False bs a" using z(2) by (auto simp: dir_entry_ok_def split: if_splits)
  ultimately show ?case
    using z header_in_block [OF z(2) assms(1)] Cons.IH [OF s] Cons.prems(2) by (simp add: delete_scan.simps [of fs bs x pde a])
qed

text \<open>C15. Deleting an entry of a well formed block keeps the block well formed and takes exactly that
  entry out of the list of entries in use; an offset at which no entry starts is refused with
  \<open>ENOENT\<close> and nothing changes.\<close>

theorem delete_entry_removes:
  assumes "dir_block fs bs offs" and "b_data fs bh = Some bs"
  shows "if x \<in> set offs
    then \<exists>xs ys bs' offs'. offs = xs @ x # ys \<and> ext2_delete_entry x bh fs = Some (0, fs\<lparr>b_data := (b_data fs)(bh \<mapsto> bs')\<rparr>) \<and>
      dir_block fs bs' offs' \<and> live bs' offs' = live bs xs @ live bs ys
    else ext2_delete_entry x bh fs = Some (- ENOENT, fs)"
proof (cases "x \<in> set offs")
  case True
  then obtain xs ys where o: "offs = xs @ x # ys" by (meson split_list)
  obtain bs' offs' where "delete_scan fs bs x None 0 = Some (Inr bs')" "dir_block fs bs' offs'" "live bs' offs' = live bs xs @ live bs ys"
    using delete_entry_effect assms(1) unfolding o by blast
  moreover from this have "ext2_delete_entry x bh fs = Some (0, fs\<lparr>b_data := (b_data fs)(bh \<mapsto> bs')\<rparr>)"
    using assms(2) by (simp add: ext2_delete_entry_def)
  ultimately show ?thesis unfolding if_P [OF True] using o by blast
next
  case False
  then show ?thesis
    using delete_scan_absent [of bs fs 0 offs x None] assms by (simp add: ext2_delete_entry_def dir_block_def)
qed

section \<open>Adding an entry\<close>

definition fill_entry :: "u8 list \<Rightarrow> u8 list \<Rightarrow> nat \<Rightarrow> u8 list" where
  "fill_entry name bs x = put_bytes (x + 8) name (put16 (x + 6) (of_nat (length name)) (put32 x 0 bs))"

lemma fill_entry:
  assumes "x + 8 + length name \<le> length bs" and "length name \<le> EXT2_NAME_LEN"
  shows "length (fill_entry name bs x) = length bs"
    and "de_inode (fill_entry name bs x) x = 0" and "de_rec_len (fill_entry name bs x) x = de_rec_len bs x"
    and "de_name_len (fill_entry name bs x) x = length name" and "de_name (fill_entry name bs x) x = name"
    and "\<And>a c. c \<le> x \<or> x + 8 + length name \<le> a \<Longrightarrow> agree bs (fill_entry name bs x) a c"
proof -
  let ?b = "put16 (x + 6) (of_nat (length name)) (put32 x 0 bs)"
  show len: "length (fill_entry name bs x) = length bs" by (simp add: fill_entry_def)
  have low: "agree ?b (fill_entry name bs x) a c" if "c \<le> x + 8" for a c
    using that assms(1) by (auto simp: agree_def fill_entry_def rd8_put_bytes)
  show "de_inode (fill_entry name bs x) x = 0"
    unfolding de_inode_def by (subst get32_agree [OF low, of "x + 4" x]) (use assms(1) in \<open>simp_all add: buf_simps\<close>)
  show "de_rec_len (fill_entry name bs x) x = de_rec_len bs x"
    unfolding de_rec_len_def by (subst get16_agree [OF low, of "x + 6" x]) (use assms(1) in \<open>simp_all add: buf_simps\<close>)
  have "unat (of_nat (length name) :: u16) = length name"
    using assms(2) by (simp add: EXT2_NAME_LEN_def unat_of_nat)
  then show n: "de_name_len (fill_entry name bs x) x = length name"
    unfolding de_name_len_def by (subst get16_agree [OF low, of "x + 8" x]) (use assms(1) in \<open>simp_all add: buf_simps\<close>)
  show "de_name (fill_entry name bs x) x = name"
    unfolding de_name_def n by (rule nth_equalityI) (use assms(1) in \<open>simp_all add: fill_entry_def rd8_put_bytes\<close>)
  show "agree bs (fill_entry name bs x) a c" if "c \<le> x \<or> x + 8 + length name \<le> a" for a c
    using that assms(1) len by (auto simp: agree_def fill_entry_def rd8_put_bytes rd8_put_other)
qed

lemma place_entry_effect:
  assumes b: "dir_block fs bs (xs @ x # ys)" and room: "has_room bs x (EXT2_DIR_REC_LEN (length name))"
    and name: "name \<noteq> []" "length name \<le> EXT2_NAME_LEN" and used_named: "de_inode bs x \<noteq> 0 \<Longrightarrow> de_name bs x \<noteq> []"
  shows "\<exists>bs' z zs ws. place_entry name bs x = (bs', z) \<and> dir_block fs bs' (zs @ z # ws) \<and> de_inode bs' z = 0 \<and>
    de_name bs' z = name \<and> live bs' zs @ live bs' ws = live bs (xs @ x # ys)"
proof -
  note s = dir_block_split [OF b]
  note d = dir_entry_okD [OF s(4)]
  obtain n where n: "length name = Suc n" using name(1) by (cases name) auto
  define need where "need = EXT2_DIR_REC_LEN (length name)"
  have need: "12 \<le> need" "need mod 4 = 0" "length name + 8 \<le> need"
    using rec_len_facts [of n] rec_len_facts(2,3) [of "length name"] unfolding need_def n by simp_all
  show ?thesis
  proof (cases "de_inode bs x = 0")
    case True
    have le: "need \<le> de_rec_len bs x" using room need by (auto simp: has_room_def need_def [symmetric])
    have fit: "x + 8 + length name \<le> length bs" using le need(3) s(1,6) by simp
    note f = fill_entry [OF fit name(2)]
    let ?bs = "fill_entry name bs x"
    have pl: "place_entry name bs x = (?bs, x)" using True by (simp add: place_entry_def fill_entry_def)
    note left = seg_agree [OF s(3) f(6), OF disjI1 [OF order_refl]]
    have "x + 8 + length name \<le> x + de_rec_len bs x" using le need(3) by simp
    note right = seg_agree [OF s(5) f(6), OF disjI2 [OF this]]
    have ok: "dir_entry_ok fs True ?bs x"
      by (rule dir_entry_okI) (use f d le in \<open>simp_all add: need_def\<close>)
    have "dir_block fs ?bs (xs @ x # ys)"
      using s left(1) right(1) ok f(1,3) by (auto simp: dir_block_def seg_append)
    moreover have "live ?bs xs @ live ?bs ys = live bs (xs @ x # ys)"
      using left(2) right(2) True by (simp add: live_append live_Cons)
    ultimately show ?thesis using pl f(2,5) by blast
  next
    case False
    define used where "used = EXT2_DIR_REC_LEN (de_name_len bs x)"
    define z where "z = x + used"
    define rest where "rest = de_rec_len bs x - used"
    have le: "used + need \<le> de_rec_len bs x"
      using room False by (auto simp: has_room_def need_def [symmetric] used_def)
    have us: "used mod 4 = 0" "de_name_len bs x + 8 \<le> used"
      unfolding used_def by (rule rec_len_facts)+
    have "de_name_len bs x \<noteq> 0" using used_named [OF False] by (simp add: de_name_def)
    then have u12: "12 \<le> used" using rec_len_facts(1) [of "de_name_len bs x - 1"] by (simp add: used_def)
    have small: "de_rec_len bs x < 2 ^ 16" "used < 2 ^ 16" "rest < 2 ^ 16" using d(4) s(2) le by (simp_all add: rest_def)
    have inb: "z + rest \<le> length bs" "need \<le> rest" using d(4) le s(1) by (simp_all add: z_def rest_def)
    have rm: "rest mod 4 = 0" using d(2) us(1) le unfolding rest_def by presburger
    define bs1 where "bs1 = put16 (x + 4) (of_nat used) (put16 (z + 4) (of_nat rest) bs)"
    have len1: "length bs1 = length bs" by (simp add: bs1_def)
    have zx: "x + 12 \<le> z" using u12 by (simp add: z_def)
    have far: "agree bs bs1 a c" if "c \<le> x \<or> x + 6 \<le> a \<and> c \<le> z \<or> z + 6 \<le> a" for a c
      using that zx inb need by (auto simp: agree_def bs1_def rd8_put_other)
    have e: "de_inode bs1 x = de_inode bs x" "de_rec_len bs1 x = used" "de_name_len bs1 x = de_name_len bs x"
      "de_rec_len bs1 z = rest"
      using zx inb need small by (simp_all add: de_inode_def de_rec_len_def de_name_len_def bs1_def buf_simps unat_of_nat)
    have nm: "de_name bs1 x = de_name bs x"
      unfolding de_name_def e using zx inb need us(2) by (auto simp: bs1_def z_def rd8_put_other)
    have ok: "dir_entry_ok fs True bs1 x"
      by (rule dir_entry_okI) (use e u12 us(1) d(5) inb s(1) zx in \<open>auto simp: used_def [symmetric] z_def\<close>)
    have fit: "z + 8 + length name \<le> length bs1" using inb need len1 by simp
    note f = fill_entry [OF fit name(2)]
    let ?bs = "fill_entry name bs1 z"
    have pl: "place_entry name bs x = (?bs, z)"
      using False by (simp add: place_entry_def Let_def used_def [symmetric] z_def [symmetric] rest_def [symmetric]
          bs1_def [symmetric] fill_entry_def)
    have frame: "agree bs ?bs a c" if "c \<le> x \<or> z + rest \<le> a" for a c
    proof -
      have 1: "agree bs bs1 a c" by (rule far) (use that zx inb need in auto)
      have 2: "agree bs1 ?bs a c" by (rule f(6)) (use that zx inb need in auto)
      show ?thesis using 1 2 by (simp add: agree_def)
    qed
    note left = seg_agree [OF s(3) frame, OF disjI1 [OF order_refl]]
    have zr: "z + rest = x + de_rec_len bs x" using le by (simp add: z_def rest_def)
    note right = seg_agree [OF s(5) [folded zr] frame, OF disjI2 [OF order_refl]]
    have ax: "agree bs1 ?bs x (x + 8 + de_name_len bs1 x)"
      by (rule f(6)) (use e(3) us(2) in \<open>simp add: z_def\<close>)
    note ex = entry_agree [OF ax ok]
    have okz: "dir_entry_ok fs True ?bs z"
      by (rule dir_entry_okI)
        (use f e(4) inb need s(1) rm in \<open>simp_all add: need_def [symmetric]\<close>)
    have "x + de_rec_len ?bs x = z" "z + de_rec_len ?bs z = z + rest" using ex(2) e(2,4) f(3) by (simp_all add: z_def)
    then have "dir_block fs ?bs ((xs @ [x]) @ z # ys)"
      using s(1,2) left(1) right(1) ex(5) okz f(1) len1 by (auto simp: dir_block_def seg_append)
    moreover have "live ?bs (xs @ [x]) @ live ?bs ys = live bs (xs @ x # ys)"
      using left(2) right(2) ex(1,4) e(1) nm by (simp add: live_append live_Cons)
    ultimately show ?thesis using pl f(2,5) by blast
  qed
qed

lemma insert_entry:
  assumes b: "dir_block fs bs offs" and x: "x \<in> set offs" and room: "has_room bs x (EXT2_DIR_REC_LEN (length name))"
    and name: "name \<noteq> []" "length name \<le> EXT2_NAME_LEN" and named: "[] \<notin> fst ` set (live bs offs)"
    and v: "v \<noteq> 0" "v \<le> s_inodes_count fs"
  shows "\<exists>bs' z offs' l1 l2. place_entry name bs x = (bs', z) \<and> dir_block fs bs' offs' \<and> live bs' offs' = live bs offs \<and>
    live bs offs = l1 @ l2 \<and> dir_block fs (put32 z v bs') offs' \<and> live (put32 z v bs') offs' = l1 @ (name, v) # l2"
proof -
  obtain xs ys where o: "offs = xs @ x # ys" using x by (meson split_list)
  have "de_name bs x \<noteq> []" if "de_inode bs x \<noteq> 0" using that x named by (force simp: live_def)
  then obtain bs' z zs ws where p: "place_entry name bs x = (bs', z)" "dir_block fs bs' (zs @ z # ws)" "de_inode bs' z = 0"
      "de_name bs' z = name" "live bs' zs @ live bs' ws = live bs (xs @ x # ys)"
    using place_entry_effect [OF b [unfolded o] room name] by blast
  note q = dir_block_put_inode [OF p(2) v(2)]
  have "live bs' (zs @ z # ws) = live bs offs" using p(3,5) o by (simp add: live_append live_Cons)
  moreover have "live bs offs = live bs' zs @ live bs' ws" using p(5) o by simp
  moreover have "live (put32 z v bs') (zs @ z # ws) = live bs' zs @ (name, v) # live bs' ws" using q(2) v(1) p(4) by simp
  ultimately show ?thesis using p(1,2) q(1) by blast
qed

text \<open>Placing an entry in a well formed block that has room for it keeps the block well formed and, as
  long as the entry has no inode, the list of entries in use; setting the inode then inserts exactly
  that entry. (An entry in use with an empty name would be cut to less than the minimal length.)\<close>

theorem place_entry_inserts:
  assumes "dir_block fs bs offs" and "x \<in> set offs" and "has_room bs x (EXT2_DIR_REC_LEN (length name))"
    and "name \<noteq> []" and "length name \<le> EXT2_NAME_LEN" and "[] \<notin> fst ` set (live bs offs)"
    and "v \<noteq> 0" and "v \<le> s_inodes_count fs"
  shows "\<exists>bs' z offs' l1 l2. place_entry name bs x = (bs', z) \<and> dir_block fs bs' offs' \<and> live bs' offs' = live bs offs \<and>
    live bs offs = l1 @ l2 \<and> dir_block fs (put32 z v bs') offs' \<and> live (put32 z v bs') offs' = l1 @ (name, v) # l2"
  by (rule insert_entry [OF assms])

lemma split_unique:
  "xs @ (n, v) # ys = l1 @ (n, v) # l2 \<Longrightarrow> n \<notin> fst ` set l1 \<Longrightarrow> n \<notin> fst ` set l2 \<Longrightarrow> xs = l1 \<and> ys = l2"
proof (induction l1 arbitrary: xs)
  case Nil
  then show ?case by (cases xs) (auto simp: image_iff)
next
  case (Cons a l1)
  then show ?case by (cases xs) auto
qed

text \<open>C14. An entry with a new name, added to a well formed block, is found by the search with its inode;
  deleting the entry found gives back the list of entries in use from before the insertion.\<close>

theorem add_find_delete:
  assumes b: "dir_block fs bs offs" and "x \<in> set offs" and "has_room bs x (EXT2_DIR_REC_LEN (length name))"
    and name: "name \<noteq> []" "length name \<le> EXT2_NAME_LEN" and "[] \<notin> fst ` set (live bs offs)"
    and v: "v \<noteq> 0" "v \<le> s_inodes_count fs" and new: "name \<notin> fst ` set (live bs offs)"
  shows "\<exists>bs1 z y bs2 offs2. place_entry name bs x = (bs1, z) \<and>
    scan_block False name (put32 z v bs1) 0 fs = Some (Found y, fs) \<and> de_inode (put32 z v bs1) y = v \<and>
    delete_scan fs (put32 z v bs1) y None 0 = Some (Inr bs2) \<and> dir_block fs bs2 offs2 \<and> live bs2 offs2 = live bs offs"
proof -
  obtain bs1 z offs1 l1 l2 where p: "place_entry name bs x = (bs1, z)" and l: "live bs offs = l1 @ l2"
    and b1: "dir_block fs (put32 z v bs1) offs1" and l1: "live (put32 z v bs1) offs1 = l1 @ (name, v) # l2"
    using insert_entry [OF assms(1-3) name assms(6) v] by blast
  have n1: "name \<notin> fst ` set l1" "name \<notin> fst ` set l2" using new l by auto
  then have "map_of (live (put32 z v bs1) offs1) name = Some v"
    unfolding l1 using map_of_eq_None_iff [of l1 name] by (simp add: map_add_def)
  then obtain y where y: "scan_block False name (put32 z v bs1) 0 fs = Some (Found y, fs)" "y \<in> set offs1"
      "de_name (put32 z v bs1) y = name" "de_inode (put32 z v bs1) y = v"
    using scan_lookup [OF b1 name] by auto
  obtain xs ys where o: "offs1 = xs @ y # ys" using y(2) by (meson split_list)
  obtain bs2 offs2 where d: "delete_scan fs (put32 z v bs1) y None 0 = Some (Inr bs2)" "dir_block fs bs2 offs2"
      "live bs2 offs2 = live (put32 z v bs1) xs @ live (put32 z v bs1) ys"
    using delete_entry_effect b1 unfolding o by blast
  have "live (put32 z v bs1) xs @ (name, v) # live (put32 z v bs1) ys = l1 @ (name, v) # l2"
    using l1 v(1) y(3,4) unfolding o by (simp add: live_append live_Cons)
  then have "live bs2 offs2 = live bs offs" using split_unique [OF _ n1] d(3) l by metis
  then show ?thesis using p y(1,4) d(1,2) by blast
qed

section \<open>Witnesses\<close>

text \<open>The block of a directory with the entries \<open>a\<close>, inode 12, and \<open>bc\<close>, inode 13.\<close>

definition example_dir :: "u8 list" where
  "example_dir = [12, 0, 0, 0, 12, 0, 1, 0, 97, 0, 0, 0, 13, 0, 0, 0, 116, 0, 2, 0, 98, 99] @ replicate 106 0"

lemma example_dir_entries:
  "length example_dir = 128" "de_inode example_dir 0 = 12" "de_rec_len example_dir 0 = 12" "de_name_len example_dir 0 = 1"
  "de_inode example_dir 12 = 13" "de_rec_len example_dir 12 = 116" "de_name_len example_dir 12 = 2"
  "de_name example_dir 0 = [97]" "de_name example_dir 12 = [98, 99]"
  by (simp_all add: example_dir_def de_inode_def de_rec_len_def de_name_len_def de_name_def get32_def get16_def rd8_def
      upt_rec)

lemma example_dir_block:
  assumes "s_blocksize fs = 128" and "13 \<le> s_inodes_count fs"
  shows "dir_block fs example_dir [0, 12]"
proof -
  have "(12 :: u32) \<le> 13" by simp
  then have "12 \<le> s_inodes_count fs" using assms(2) by (rule order_trans)
  then show ?thesis
    using assms by (simp add: dir_block_def dir_entry_ok_def example_dir_entries EXT2_DIR_REC_LEN_def EXT2_DIR_ROUND_def not_less)
qed

lemma example_fs_dir: "s_blocksize example_fs = 128" "13 \<le> s_inodes_count example_fs"
  by (simp_all add: example_fs_def)

lemma example_dir_live: "live example_dir [0, 12] = [([97], 12), ([98, 99], 13)]"
  by (simp add: live_def example_dir_entries)

theorem scan_block_lookup_witness:
  "\<exists>x. scan_block False [98, 99] example_dir 0 example_fs = Some (Found x, example_fs) \<and> de_inode example_dir x = 13"
proof -
  have "map_of (live example_dir [0, 12]) [98, 99] = Some 13" by (simp add: example_dir_live)
  then show ?thesis
    using scan_block_lookup [OF example_dir_block [OF example_fs_dir], of "[98, 99]"] by (auto simp: EXT2_NAME_LEN_def)
qed

theorem delete_entry_removes_witness:
  "\<exists>bs' offs'. ext2_delete_entry 12 50 (example_fs\<lparr>b_data := (b_data example_fs)(50 \<mapsto> example_dir)\<rparr>) =
      Some (0, example_fs\<lparr>b_data := (b_data example_fs)(50 \<mapsto> bs')\<rparr>) \<and> live bs' offs' = [([97], 12)]"
proof -
  let ?fs = "example_fs\<lparr>b_data := (b_data example_fs)(50 \<mapsto> example_dir)\<rparr>"
  have b: "dir_block ?fs example_dir [0, 12]" by (rule example_dir_block) (simp_all add: example_fs_def)
  have d: "b_data ?fs 50 = Some example_dir" by simp
  have i: "12 \<in> set [0, 12 :: nat]" by simp
  obtain xs ys bs' offs' where o: "[0, 12] = xs @ 12 # ys" "ext2_delete_entry 12 50 ?fs = Some (0, ?fs\<lparr>b_data := (b_data ?fs)(50 \<mapsto> bs')\<rparr>)"
      "live bs' offs' = live example_dir xs @ live example_dir ys"
    using delete_entry_removes [OF b d, of 12] unfolding if_P [OF i] by blast
  have "xs = [0] \<and> ys = []" using o(1) by (auto simp: Cons_eq_append_conv)
  then have "live bs' offs' = live example_dir [0]" using o(3) by simp
  also have "\<dots> = [([97], 12)]" by code_simp
  finally show ?thesis using o(2) by auto
qed

lemma example_dir_room: "has_room example_dir 12 (EXT2_DIR_REC_LEN (length [100 :: u8]))"
  by (simp add: has_room_def example_dir_entries EXT2_DIR_REC_LEN_def EXT2_DIR_ROUND_def)

theorem place_entry_inserts_witness:
  "\<exists>bs' z offs'. place_entry [100] example_dir 12 = (bs', z) \<and> dir_block example_fs (put32 z 14 bs') offs' \<and>
     ([100], 14) \<in> set (live (put32 z 14 bs') offs')"
proof -
  have c: "12 \<in> set [0, 12 :: nat]" "[100 :: u8] \<noteq> []" "length [100 :: u8] \<le> EXT2_NAME_LEN"
    "[] \<notin> fst ` set (live example_dir [0, 12])" "(14 :: u32) \<noteq> 0" "14 \<le> s_inodes_count example_fs"
    by (simp_all add: EXT2_NAME_LEN_def example_dir_live example_fs_def)
  show ?thesis
    using place_entry_inserts [OF example_dir_block [OF example_fs_dir] c(1) example_dir_room c(2-6)] by fastforce
qed

theorem add_find_delete_witness:
  "\<exists>bs1 z y. place_entry [100] example_dir 12 = (bs1, z) \<and>
     scan_block False [100] (put32 z 14 bs1) 0 example_fs = Some (Found y, example_fs) \<and> de_inode (put32 z 14 bs1) y = 14"
proof -
  have c: "12 \<in> set [0, 12 :: nat]" "[100 :: u8] \<noteq> []" "length [100 :: u8] \<le> EXT2_NAME_LEN"
    "[] \<notin> fst ` set (live example_dir [0, 12])" "(14 :: u32) \<noteq> 0" "14 \<le> s_inodes_count example_fs"
    "[100] \<notin> fst ` set (live example_dir [0, 12])"
    by (simp_all add: EXT2_NAME_LEN_def example_dir_live example_fs_def)
  show ?thesis
    using add_find_delete [OF example_dir_block [OF example_fs_dir] c(1) example_dir_room c(2-7)] by blast
qed

end
