(* ===== verification/Ext2_Find_Props.thy ===== *)
theory Ext2_Find_Props
  imports Ext2_Dir_Props Ext2_Bmap_Props
begin

text \<open>
  The search of a whole directory, with its window of eight read-ahead buffers, against the lookup in
  the list of the entries of all blocks, direct and indirect. A block is given by its number, its bytes
  and the offsets of its entries.
\<close>

type_synonym dblock = "u32 \<times> u8 list \<times> nat list"

definition dir_file :: "ext2_fs \<Rightarrow> inode \<Rightarrow> dblock list \<Rightarrow> bool" where
  "dir_file fs dir bks \<longleftrightarrow> i_ino dir \<noteq> INODE_DASD \<and> unat (i_size dir) = length bks * s_blocksize fs \<and>
     blocks_wf fs \<and> length bks \<le> max_blocks fs \<and> distinct (List.map fst bks) \<and>
     (\<forall>k < length bks. file_block fs dir k = fst (bks ! k)) \<and>
     (\<forall>(b, bs, offs) \<in> set bks. b \<noteq> 0 \<and> b_data fs b = Some bs \<and> dir_block fs bs offs)"

definition with_refs :: "ext2_fs \<Rightarrow> (u32 \<Rightarrow> nat) \<Rightarrow> ext2_fs" where
  "with_refs fs c = fs\<lparr>b_count := c\<rparr>"

lemma file_block_hinted: "hinted d d' \<Longrightarrow> file_block fs d' n = file_block fs d n"
  by (simp add: file_block_def hinted_simps Let_def)

lemma dir_file_hinted: "hinted d d' \<Longrightarrow> dir_file fs d' bks = dir_file fs d bks"
  by (simp add: dir_file_def hinted_simps file_block_hinted)

lemma with_refs_simps [simp]:
  "s_blocksize (with_refs fs c) = s_blocksize fs" "b_data (with_refs fs c) = b_data fs"
  "s_inodes_count (with_refs fs c) = s_inodes_count fs" "b_count (with_refs fs c) = c"
  by (simp_all add: with_refs_def)

lemma with_refs_same: "with_refs fs (b_count fs) = fs"
  by (simp add: with_refs_def)

lemma with_refs_twice: "with_refs (with_refs fs c) d = with_refs fs d"
  by (simp add: with_refs_def)

lemma getblk_refs: "getblk b (with_refs fs c) = (Some b, with_refs fs (c(b := Suc (c b))))"
  by (simp add: getblk_def with_refs_def)

lemma brelse_refs: "brelse (Some b) (with_refs fs c) = with_refs fs (c(b := c b - 1))"
  by (cases fs) (auto simp: brelse_def with_refs_def fun_eq_iff)

lemma dir_block_refs: "dir_block (with_refs fs c) bs offs = dir_block fs bs offs"
proof -
  have "seg (with_refs fs c) bs a offs e = seg fs bs a offs e" for a e
    by (induction offs arbitrary: a) (simp_all add: dir_entry_ok_def)
  then show ?thesis by (simp add: dir_block_def)
qed

section \<open>Reading a block of the directory\<close>

lemma blocks_refs:
  "ind (with_refs fs c) = ind fs" "max_blocks (with_refs fs c) = max_blocks fs"
  "file_block (with_refs fs c) = file_block fs" "blocks_wf (with_refs fs c) = blocks_wf fs"
proof -
  show i: "ind (with_refs fs c) = ind fs" by (simp add: ind_def fun_eq_iff)
  show "max_blocks (with_refs fs c) = max_blocks fs" "blocks_wf (with_refs fs c) = blocks_wf fs"
    by (simp_all add: max_blocks_def EXT2_ADDR_PER_BLOCK_def blocks_wf_def)
  show "file_block (with_refs fs c) = file_block fs" by (simp add: file_block_def i EXT2_ADDR_PER_BLOCK_def fun_eq_iff Let_def)
qed

lemma dir_getblk:
  assumes "dir_file fs dir bks" and "k < length bks"
  shows "\<exists>e dir'. hinted dir dir' \<and> ext2_getblk now dir (int k) False err (with_refs fs c) =
    Some (((Some (fst (bks ! k)), e), dir'), with_refs fs (c(fst (bks ! k) := Suc (c (fst (bks ! k))))))"
proof -
  have "bks ! k \<in> set bks" using assms(2) by simp
  then have b0: "fst (bks ! k) \<noteq> 0" using assms(1) by (auto simp: dir_file_def)
  have "blocks_wf (with_refs fs c)" "k < max_blocks (with_refs fs c)" "i_ino dir \<noteq> INODE_DASD"
    and f: "file_block (with_refs fs c) dir k = fst (bks ! k)"
    using assms by (auto simp: dir_file_def blocks_refs)
  from ext2_getblk_eq [OF this(1-3), of now err] obtain e dir' where "hinted dir dir'"
      "ext2_getblk now dir (int k) False err (with_refs fs c) = Some (((got (fst (bks ! k)), e), dir'), held (fst (bks ! k)) (with_refs fs c))"
    unfolding f by (elim exE conjE) (rule that)
  moreover have "got (fst (bks ! k)) = Some (fst (bks ! k))" "held (fst (bks ! k)) (with_refs fs c) =
      with_refs fs (c(fst (bks ! k) := Suc (c (fst (bks ! k)))))"
    using b0 by (simp_all add: got_def held_def) (simp add: with_refs_def)
  ultimately show ?thesis by auto
qed

section \<open>The window\<close>

lemma count_list_update:
  "i < length xs \<Longrightarrow> count_list (xs[i := v]) x + (if xs ! i = x then 1 else 0) = count_list xs x + (if v = x then 1 else 0)"
proof (induction xs arbitrary: i)
  case (Cons a xs)
  show ?case
  proof (cases i)
    case (Suc m)
    then show ?thesis using Cons.IH [of m] Cons.prems by (auto split: if_splits)
  qed auto
qed simp

lemma count_list_one:
  assumes "i < length xs" and "xs ! i = x" and "\<And>j. j < length xs \<Longrightarrow> xs ! j = x \<Longrightarrow> j = i"
  shows "count_list xs x = 1"
proof -
  have "{j. j < length xs \<and> xs ! j = x} = {i}" using assms by blast
  then have "card {j. j < length xs \<and> x = xs ! j} = 1" by (simp add: eq_commute [of x])
  then show ?thesis by (simp add: count_list_eq_length_filter length_filter_conv_card)
qed

lemma brelse_all_refs:
  "brelse_all bhs (with_refs fs (\<lambda>b. c b + count_list bhs (Some b))) = with_refs fs c"
proof (induction bhs)
  case (Cons bh bhs)
  show ?case
  proof (cases bh)
    case None
    then show ?thesis using Cons.IH by (simp add: brelse_all_def brelse_def)
  next
    case (Some b)
    have "(\<lambda>x. c x + count_list (Some b # bhs) (Some x))(b := c b + count_list (Some b # bhs) (Some b) - 1) =
        (\<lambda>x. c x + count_list bhs (Some x))" by auto
    then have "brelse (Some b) (with_refs fs (\<lambda>x. c x + count_list (Some b # bhs) (Some x))) =
        with_refs fs (\<lambda>x. c x + count_list bhs (Some x))" by (simp only: brelse_refs)
    then show ?thesis using Some Cons.IH by (simp add: brelse_all_def)
  qed
qed (simp add: brelse_all_def)

text \<open>The window at block \<open>k\<close>: the slots hold the blocks from \<open>k\<close> on, as far as the directory goes.\<close>

definition window :: "dblock list \<Rightarrow> nat \<Rightarrow> u32 option list \<Rightarrow> bool" where
  "window bks k use \<longleftrightarrow> length use = NAMEI_RA_SIZE \<and>
     (\<forall>j. k \<le> j \<and> j < k + NAMEI_RA_SIZE \<longrightarrow>
        use ! (j mod NAMEI_RA_SIZE) = (if j < length bks then Some (fst (bks ! j)) else None))"

lemma slot_block: "m < NAMEI_RA_SIZE \<Longrightarrow> \<exists>j. k \<le> j \<and> j < k + NAMEI_RA_SIZE \<and> j mod NAMEI_RA_SIZE = m"
proof -
  assume m: "m < NAMEI_RA_SIZE"
  define q where "q = k div NAMEI_RA_SIZE"
  have k: "k = NAMEI_RA_SIZE * q + k mod NAMEI_RA_SIZE" by (simp add: q_def)
  have r: "k mod NAMEI_RA_SIZE < NAMEI_RA_SIZE" by (simp add: NAMEI_RA_SIZE_def)
  define j where "j = (if k mod NAMEI_RA_SIZE \<le> m then NAMEI_RA_SIZE * q + m else NAMEI_RA_SIZE * (q + 1) + m)"
  have "j mod NAMEI_RA_SIZE = m"
  proof (cases "k mod NAMEI_RA_SIZE \<le> m")
    case False
    then have "j = m + (q + 1) * NAMEI_RA_SIZE" by (simp add: j_def algebra_simps)
    then show ?thesis using m by (simp only: mod_mult_self1 mod_less)
  qed (use m in \<open>simp add: j_def\<close>)
  moreover have "k \<le> j \<and> j < k + NAMEI_RA_SIZE"
  proof (cases "k mod NAMEI_RA_SIZE \<le> m")
    case True
    then have "j = NAMEI_RA_SIZE * q + m" by (simp add: j_def)
    then show ?thesis using m k r True by linarith
  next
    case False
    then have "j = NAMEI_RA_SIZE * q + NAMEI_RA_SIZE + m" by (simp add: j_def algebra_simps)
    then show ?thesis using m k r False by linarith
  qed
  ultimately show ?thesis by blast
qed

lemma mod_window_inj:
  "k \<le> i \<Longrightarrow> i < k + NAMEI_RA_SIZE \<Longrightarrow> k \<le> j \<Longrightarrow> j < k + NAMEI_RA_SIZE \<Longrightarrow> i mod NAMEI_RA_SIZE = j mod NAMEI_RA_SIZE \<Longrightarrow> i = j"
proof -
  assume a: "k \<le> i" "i < k + NAMEI_RA_SIZE" "k \<le> j" "j < k + NAMEI_RA_SIZE" and m: "i mod NAMEI_RA_SIZE = j mod NAMEI_RA_SIZE"
  have e: "i = 8 * (i div 8) + j mod 8" "j = 8 * (j div 8) + j mod 8"
    using m mult_div_mod_eq [of 8 i] mult_div_mod_eq [of 8 j] by (simp_all add: NAMEI_RA_SIZE_def)
  show "i = j"
  proof (rule ccontr)
    assume "i \<noteq> j"
    then consider "i div 8 < j div 8" | "j div 8 < i div 8" using e by fastforce
    then show False using a e unfolding NAMEI_RA_SIZE_def by cases linarith+
  qed
qed

lemma window_step:
  assumes "window bks k use"
  shows "window bks (Suc k) (use[k mod NAMEI_RA_SIZE := (if k + NAMEI_RA_SIZE < length bks then Some (fst (bks ! (k + NAMEI_RA_SIZE))) else None)])"
proof -
  have l: "length use = NAMEI_RA_SIZE" using assms by (simp add: window_def)
  have z: "0 < NAMEI_RA_SIZE" by (simp add: NAMEI_RA_SIZE_def)
  have "use[k mod NAMEI_RA_SIZE := v] ! (j mod NAMEI_RA_SIZE) = (if j = k + NAMEI_RA_SIZE then v else use ! (j mod NAMEI_RA_SIZE))"
    if "Suc k \<le> j" "j < Suc k + NAMEI_RA_SIZE" for j v
  proof (cases "j = k + NAMEI_RA_SIZE")
    case True
    then show ?thesis using l z by simp
  next
    case False
    then have "j mod NAMEI_RA_SIZE \<noteq> k mod NAMEI_RA_SIZE" using mod_window_inj [of k k j] that z by auto
    then show ?thesis using False by simp
  qed
  then show ?thesis using assms by (auto simp: window_def)
qed

lemma window_end:
  assumes "window bks k use" and "length bks \<le> k"
  shows "use = replicate NAMEI_RA_SIZE None"
proof (rule nth_equalityI)
  show "length use = length (replicate NAMEI_RA_SIZE None)" using assms(1) by (simp add: window_def)
  fix m assume "m < length use"
  then have m: "m < NAMEI_RA_SIZE" using assms(1) by (simp add: window_def)
  obtain j where "k \<le> j" "j < k + NAMEI_RA_SIZE" "j mod NAMEI_RA_SIZE = m" using slot_block [OF m, of k] by blast
  then show "use ! m = replicate NAMEI_RA_SIZE None ! m" using assms m by (auto simp: window_def)
qed

lemma window_once:
  assumes "window bks k use" and "distinct (List.map fst bks)" and "k < length bks"
  shows "count_list use (Some (fst (bks ! k))) = 1"
proof (rule count_list_one)
  have z: "0 < NAMEI_RA_SIZE" by (simp add: NAMEI_RA_SIZE_def)
  show "k mod NAMEI_RA_SIZE < length use" "use ! (k mod NAMEI_RA_SIZE) = Some (fst (bks ! k))"
    using assms z by (auto simp: window_def)
  fix m assume m: "m < length use" "use ! m = Some (fst (bks ! k))"
  then have "m < NAMEI_RA_SIZE" using assms(1) by (simp add: window_def)
  then obtain j where j: "k \<le> j" "j < k + NAMEI_RA_SIZE" "j mod NAMEI_RA_SIZE = m" using slot_block [of m k] by blast
  then have "use ! m = (if j < length bks then Some (fst (bks ! j)) else None)" using assms(1) by (auto simp: window_def)
  then have "j < length bks" "fst (bks ! j) = fst (bks ! k)" using m by (auto split: if_splits)
  then have "j = k" using assms(2,3) nth_eq_iff_index_eq [of "List.map fst bks" j k] by simp
  then show "m = k mod NAMEI_RA_SIZE" using j by simp
qed

section \<open>The first read-ahead\<close>

definition holding :: "ext2_fs \<Rightarrow> (u32 \<Rightarrow> nat) \<Rightarrow> u32 option list \<Rightarrow> ext2_fs" where
  "holding fs c use = with_refs fs (\<lambda>b. c b + count_list use (Some b))"

lemma holding_getblk:
  assumes "i < length use" and "use ! i = None"
  shows "(\<lambda>x. c x + count_list use (Some x))(b := Suc (c b + count_list use (Some b))) =
    (\<lambda>x. c x + count_list (use[i := Some b]) (Some x))"
proof
  fix x
  show "((\<lambda>x. c x + count_list use (Some x))(b := Suc (c b + count_list use (Some b)))) x = c x + count_list (use[i := Some b]) (Some x)"
    using count_list_update [OF assms(1), of "Some b" "Some x"] assms(2) by auto
qed

lemma holding_brelse:
  assumes "i < length use" and "use ! i = Some b"
  shows "brelse (Some b) (holding fs c use) = holding fs c (use[i := None])"
proof -
  have "(\<lambda>x. c x + count_list use (Some x))(b := c b + count_list use (Some b) - 1) = (\<lambda>x. c x + count_list (use[i := None]) (Some x))"
  proof
    fix x
    show "((\<lambda>x. c x + count_list use (Some x))(b := c b + count_list use (Some b) - 1)) x = c x + count_list (use[i := None]) (Some x)"
      using count_list_update [OF assms(1), of None "Some x"] assms(2) by auto
  qed
  then show ?thesis by (simp only: holding_def brelse_refs)
qed

lemma holding_blocksize [simp]: "s_blocksize (holding fs c use) = s_blocksize fs" "b_data (holding fs c use) = b_data fs"
  by (simp_all add: holding_def)

lemma dir_getblk_holding:
  assumes "dir_file fs dir bks" and "k < length bks" and "i < length use" and "use ! i = None"
  shows "\<exists>e dir'. hinted dir dir' \<and> ext2_getblk now dir (int k) False err (holding fs c use) =
    Some (((Some (fst (bks ! k)), e), dir'), holding fs c (use[i := Some (fst (bks ! k))]))"
  using dir_getblk [OF assms(1,2), of now err "\<lambda>b. c b + count_list use (Some b)"] holding_getblk [OF assms(3,4), of c "fst (bks ! k)"]
  by (simp only: holding_def)

lemma dir_size:
  assumes "dir_file fs dir bks"
  shows "k * s_blocksize fs \<ge> unat (i_size dir) \<longleftrightarrow> length bks \<le> k"
proof -
  have "0 < s_blocksize fs" using assms by (auto simp: dir_file_def blocks_wf_def)
  then show ?thesis using assms by (auto simp: dir_file_def)
qed

lemma fill_use_window:
  assumes "dir_file fs dir bks" and "k + n = NAMEI_RA_SIZE" and "length use = NAMEI_RA_SIZE"
    and "\<And>j. j < NAMEI_RA_SIZE \<Longrightarrow> use ! j = (if j < k \<and> j < length bks then Some (fst (bks ! j)) else None)"
  shows "\<exists>use' dir'. hinted dir dir' \<and> window bks 0 use' \<and>
    fill_use now n k use dir (holding fs c use) = Some ((use', dir'), holding fs c use')"
  using assms
proof (induction n arbitrary: k use dir)
  case 0
  then have "window bks 0 use" by (simp add: window_def)
  then show ?case using hinted_refl by auto
next
  case (Suc n)
  have k: "k < NAMEI_RA_SIZE" using Suc.prems(2) by simp
  show ?case
  proof (cases "length bks \<le> k")
    case True
    then have "window bks 0 use" using Suc.prems(3,4) by (auto simp: window_def)
    moreover have "fill_use now (Suc n) k use dir (holding fs c use) = Some ((use, dir), holding fs c use)"
      using True dir_size [OF Suc.prems(1), of k] by simp
    ultimately show ?thesis using hinted_refl by blast
  next
    case False
    then have lt: "k < length bks" by simp
    have no: "use ! k = None" "k < length use" using Suc.prems(3,4) k by simp_all
    obtain e1 d1 where d1: "hinted dir d1" "ext2_getblk now dir (int k) False 0 (holding fs c use) =
        Some (((Some (fst (bks ! k)), e1), d1), holding fs c (use[k := Some (fst (bks ! k))]))"
      using dir_getblk_holding [OF Suc.prems(1) lt no(2,1)] by blast
    have df: "dir_file fs d1 bks" using dir_file_hinted [OF d1(1)] Suc.prems(1) by simp
    obtain use' d2 where d2: "hinted d1 d2" "window bks 0 use'"
        "fill_use now n (Suc k) (use[k := Some (fst (bks ! k))]) d1 (holding fs c (use[k := Some (fst (bks ! k))])) = Some ((use', d2), holding fs c use')"
    proof -
      have "(use[k := Some (fst (bks ! k))]) ! j = (if j < Suc k \<and> j < length bks then Some (fst (bks ! j)) else None)"
        if "j < NAMEI_RA_SIZE" for j
        using Suc.prems(3,4) that lt no(2) by (auto simp: nth_list_update less_Suc_eq)
      moreover have "Suc k + n = NAMEI_RA_SIZE" "length (use[k := Some (fst (bks ! k))]) = NAMEI_RA_SIZE"
        using Suc.prems(2,3) by simp_all
      ultimately have "\<exists>use' dir'. hinted d1 dir' \<and> window bks 0 use' \<and>
          fill_use now n (Suc k) (use[k := Some (fst (bks ! k))]) d1 (holding fs c (use[k := Some (fst (bks ! k))])) =
          Some ((use', dir'), holding fs c use')"
        using Suc.IH [OF df] by blast
      then show thesis by (elim exE conjE) (rule that)
    qed
    have "\<not> unat (i_size dir) \<le> k * s_blocksize fs" using dir_size [OF Suc.prems(1), of k] lt by simp
    then have "fill_use now (Suc n) k use dir (holding fs c use) = Some ((use', d2), holding fs c use')"
      using d1(2) d2(3) by simp
    then show ?thesis using hinted_trans [OF d1(1) d2(1)] d2(2) by blast
  qed
qed

section \<open>The search\<close>

definition hit :: "bool \<Rightarrow> u8 list \<Rightarrow> u8 list \<Rightarrow> nat list \<Rightarrow> nat option" where
  "hit retensive name bs offs = List.find (\<lambda>x. de_inode bs x \<noteq> 0 \<and> ext2_match retensive name bs x) offs"

text \<open>The reference: the first entry that matches, block by block.\<close>

fun first_hit :: "bool \<Rightarrow> u8 list \<Rightarrow> dblock list \<Rightarrow> (u32 \<times> nat) option" where
  "first_hit retensive name [] = None"
| "first_hit retensive name ((b, bs, offs) # rest) =
     (case hit retensive name bs offs of Some x \<Rightarrow> Some (b, x) | None \<Rightarrow> first_hit retensive name rest)"

lemma scan_hit:
  assumes "dir_block fs bs offs"
  shows "scan_block retensive name bs 0 (holding fs c use) =
    (case hit retensive name bs offs of
       Some x \<Rightarrow> Some (Found x, holding fs c use) | None \<Rightarrow> Some (Done (s_blocksize fs), holding fs c use))"
  using scan_block_find [of bs "holding fs c use" 0 offs retensive name] dir_block_refs [of fs _ bs offs] assms
  by (simp add: hit_def dir_block_def holding_def split: option.splits)

lemma find_loop_window:
  assumes "dir_file fs dir bks" and "window bks k use" and "k \<le> length bks"
  shows "\<exists>use' dir'. hinted dir dir' \<and>
    find_loop now retensive name dir use k (k * s_blocksize fs) (holding fs c use) =
      Some (((first_hit retensive name (drop k bks), use'), dir'), holding fs c use') \<and>
    (case first_hit retensive name (drop k bks) of
       None \<Rightarrow> True | Some (b, x) \<Rightarrow> count_list use' (Some b) = 1)"
  using assms
proof (induction "length bks - k" arbitrary: k use dir)
  case 0
  then have k: "length bks = k" by simp
  have "find_loop now retensive name dir use k (k * s_blocksize fs) (holding fs c use) = Some (((None, use), dir), holding fs c use)"
    using dir_size [OF "0.prems"(1), of k] k by (subst find_loop.simps) simp
  then show ?case using k hinted_refl by auto
next
  case (Suc n)
  have lt: "k < length bks" using Suc.hyps(2) by simp
  obtain b bs offs where bk: "bks ! k = (b, bs, offs)" by (cases "bks ! k") auto
  then have mem: "(b, bs, offs) \<in> set bks" using lt nth_mem by metis
  have b: "b_data fs b = Some bs" "dir_block fs bs offs" using Suc.prems(1) mem by (auto simp: dir_file_def)
  have l: "length use = NAMEI_RA_SIZE" using Suc.prems(2) by (simp add: window_def)
  have z: "k mod NAMEI_RA_SIZE < length use" by (simp add: l NAMEI_RA_SIZE_def)
  have sl: "use ! (k mod NAMEI_RA_SIZE) = Some b" using Suc.prems(2) lt bk by (auto simp: window_def NAMEI_RA_SIZE_def)
  have dr: "drop k bks = (b, bs, offs) # drop (Suc k) bks" using lt bk by (metis Cons_nth_drop_Suc)
  have sz: "k * s_blocksize fs < unat (i_size dir)" using dir_size [OF Suc.prems(1), of k] lt by simp
  have unfold: "find_loop now retensive name dir use k (k * s_blocksize fs) (holding fs c use) =
    (case hit retensive name bs offs of
       Some x \<Rightarrow> Some (((Some (b, x), use), dir), holding fs c use)
     | None \<Rightarrow>
         let fs1 = holding fs c (use[k mod NAMEI_RA_SIZE := None]) in
         Option.bind
           (if (k + NAMEI_RA_SIZE) * s_blocksize fs \<ge> unat (i_size dir) then Some ((None, dir), fs1)
            else map_option (\<lambda>(((bh, _), dir), fs). ((bh, dir), fs)) (ext2_getblk now dir (int (k + NAMEI_RA_SIZE)) False 0 fs1))
           (\<lambda>((bh, dir), fs1). find_loop now retensive name dir (use[k mod NAMEI_RA_SIZE := bh]) (Suc k)
              (k * s_blocksize fs + s_blocksize fs) fs1))"
    using sz sl b scan_hit [OF b(2), of retensive name c use] holding_brelse [OF z sl, of fs c]
    by (subst find_loop.simps) (simp add: Let_def split: option.splits)
  show ?case
  proof (cases "hit retensive name bs offs")
    case (Some x)
    have "count_list use (Some b) = 1"
      using window_once [OF Suc.prems(2) _ lt] Suc.prems(1) bk by (simp add: dir_file_def)
    then show ?thesis using unfold Some dr hinted_refl by auto
  next
    case None
    define v where "v = (if k + NAMEI_RA_SIZE < length bks then Some (fst (bks ! (k + NAMEI_RA_SIZE))) else None)"
    have w: "window bks (Suc k) (use[k mod NAMEI_RA_SIZE := v])" using window_step [OF Suc.prems(2)] by (simp add: v_def)
    have "\<exists>d1. hinted dir d1 \<and>
        (if (k + NAMEI_RA_SIZE) * s_blocksize fs \<ge> unat (i_size dir) then Some ((None, dir), holding fs c (use[k mod NAMEI_RA_SIZE := None]))
         else map_option (\<lambda>(((bh, _), dir), fs). ((bh, dir), fs))
           (ext2_getblk now dir (int (k + NAMEI_RA_SIZE)) False 0 (holding fs c (use[k mod NAMEI_RA_SIZE := None])))) =
        Some ((v, d1), holding fs c (use[k mod NAMEI_RA_SIZE := v]))"
    proof (cases "length bks \<le> k + NAMEI_RA_SIZE")
      case True
      then show ?thesis
        using dir_size [OF Suc.prems(1), of "k + NAMEI_RA_SIZE"] hinted_refl by (intro exI [where x = dir]) (simp add: v_def)
    next
      case False
      then have "\<not> (k + NAMEI_RA_SIZE) * s_blocksize fs \<ge> unat (i_size dir)"
        using dir_size [OF Suc.prems(1), of "k + NAMEI_RA_SIZE"] by simp
      moreover obtain e1 d1 where "hinted dir d1" "ext2_getblk now dir (int (k + NAMEI_RA_SIZE)) False 0 (holding fs c (use[k mod NAMEI_RA_SIZE := None])) =
          Some (((v, e1), d1), holding fs c (use[k mod NAMEI_RA_SIZE := v]))"
        using dir_getblk_holding [OF Suc.prems(1), of "k + NAMEI_RA_SIZE" "k mod NAMEI_RA_SIZE" "use[k mod NAMEI_RA_SIZE := None]" now 0 c] False z
        by (auto simp: v_def)
      ultimately show ?thesis by (intro exI [where x = d1]) simp
    qed
    then obtain d1 where d1: "hinted dir d1" and step:
      "(if (k + NAMEI_RA_SIZE) * s_blocksize fs \<ge> unat (i_size dir) then Some ((None, dir), holding fs c (use[k mod NAMEI_RA_SIZE := None]))
         else map_option (\<lambda>(((bh, _), dir), fs). ((bh, dir), fs))
           (ext2_getblk now dir (int (k + NAMEI_RA_SIZE)) False 0 (holding fs c (use[k mod NAMEI_RA_SIZE := None])))) =
        Some ((v, d1), holding fs c (use[k mod NAMEI_RA_SIZE := v]))" by (elim exE conjE)
    have df: "dir_file fs d1 bks" using dir_file_hinted [OF d1] Suc.prems(1) by simp
    have "Suc k * s_blocksize fs = k * s_blocksize fs + s_blocksize fs" by simp
    then have eq: "find_loop now retensive name dir use k (k * s_blocksize fs) (holding fs c use) =
      find_loop now retensive name d1 (use[k mod NAMEI_RA_SIZE := v]) (Suc k) (Suc k * s_blocksize fs) (holding fs c (use[k mod NAMEI_RA_SIZE := v]))"
      unfolding unfold None option.case Let_def step by (simp add: add.commute)
    have fh: "first_hit retensive name (drop k bks) = first_hit retensive name (drop (Suc k) bks)"
      unfolding dr using None by simp
    have n: "n = length bks - Suc k" "Suc k \<le> length bks" using Suc.hyps(2) by simp_all
    obtain use' d2 where "hinted d1 d2" "find_loop now retensive name d1 (use[k mod NAMEI_RA_SIZE := v]) (Suc k) (Suc k * s_blocksize fs)
          (holding fs c (use[k mod NAMEI_RA_SIZE := v])) = Some (((first_hit retensive name (drop (Suc k) bks), use'), d2), holding fs c use')"
        "case first_hit retensive name (drop (Suc k) bks) of None \<Rightarrow> True | Some (b, x) \<Rightarrow> count_list use' (Some b) = 1"
      using Suc.hyps(1) [OF n(1) df w n(2)] by (elim exE conjE) (rule that)
    then have "hinted dir d2 \<and> find_loop now retensive name dir use k (k * s_blocksize fs) (holding fs c use) =
        Some (((first_hit retensive name (drop k bks), use'), d2), holding fs c use') \<and>
        (case first_hit retensive name (drop k bks) of None \<Rightarrow> True | Some (b, x) \<Rightarrow> count_list use' (Some b) = 1)"
      unfolding eq fh using hinted_trans [OF d1] by simp
    then show ?thesis by blast
  qed
qed

text \<open>The whole search: the window is released again, but for the buffer of the entry found.\<close>

lemma find_first_hit:
  assumes "dir_file fs dir bks" and "length name \<le> EXT2_NAME_LEN"
  shows "\<exists>dir'. hinted dir dir' \<and>
    ext2_find_entry now retensive dir name (with_refs fs c) = Some ((first_hit retensive name bks, dir'),
      case first_hit retensive name bks of None \<Rightarrow> with_refs fs c | Some (b, x) \<Rightarrow> with_refs fs (c(b := Suc (c b))))"
proof -
  define use0 :: "u32 option list" where "use0 = replicate NAMEI_RA_SIZE None"
  have h0: "with_refs fs c = holding fs c use0" by (simp add: holding_def use0_def)
  have l0: "0 + NAMEI_RA_SIZE = NAMEI_RA_SIZE" "length use0 = NAMEI_RA_SIZE" by (simp_all add: use0_def)
  obtain use1 d1 where d1: "hinted dir d1" "window bks 0 use1"
      "fill_use now NAMEI_RA_SIZE 0 use0 dir (holding fs c use0) = Some ((use1, d1), holding fs c use1)"
  proof -
    have "\<exists>use' dir'. hinted dir dir' \<and> window bks 0 use' \<and>
        fill_use now NAMEI_RA_SIZE 0 use0 dir (holding fs c use0) = Some ((use', dir'), holding fs c use')"
      by (rule fill_use_window [OF assms(1) l0]) (simp add: use0_def)
    then show thesis by (elim exE conjE) (rule that)
  qed
  have df: "dir_file fs d1 bks" using dir_file_hinted [OF d1(1)] assms(1) by simp
  obtain use2 d2 where d2: "hinted d1 d2"
      "find_loop now retensive name d1 use1 0 (0 * s_blocksize fs) (holding fs c use1) =
        Some (((first_hit retensive name (drop 0 bks), use2), d2), holding fs c use2)"
      "case first_hit retensive name (drop 0 bks) of None \<Rightarrow> True | Some (b, x) \<Rightarrow> count_list use2 (Some b) = 1"
    using find_loop_window [OF df d1(2) le0, of now retensive name c] by (elim exE conjE) (rule that)
  have n: "take EXT2_NAME_LEN name = name" using assms(2) by simp
  have e: "ext2_find_entry now retensive dir name (with_refs fs c) =
      (case first_hit retensive name bks of
         Some (bh, off) \<Rightarrow> Some ((Some (bh, off), d2), brelse_all (List.filter (\<lambda>b. b \<noteq> Some bh) use2) (holding fs c use2))
       | None \<Rightarrow> Some ((None, d2), brelse_all use2 (holding fs c use2)))"
    using d1(3) d2(2) n by (simp add: ext2_find_entry_def Let_def h0 use0_def [symmetric] split: option.splits)
  have "ext2_find_entry now retensive dir name (with_refs fs c) = Some ((first_hit retensive name bks, d2),
      case first_hit retensive name bks of None \<Rightarrow> with_refs fs c | Some (b, x) \<Rightarrow> with_refs fs (c(b := Suc (c b))))"
  proof (cases "first_hit retensive name bks")
    case None
    then show ?thesis using e brelse_all_refs [of use2 fs c] by (simp add: holding_def)
  next
    case (Some r)
    obtain b x where r: "r = (b, x)" by (cases r)
    have one: "count_list use2 (Some b) = 1" using d2(3) Some r by simp
    have "count_list (List.filter (\<lambda>z. z \<noteq> Some b) use2) (Some y) = (if y = b then 0 else count_list use2 (Some y))" for y
      by (induction use2) auto
    then have "(\<lambda>y. c y + count_list use2 (Some y)) =
        (\<lambda>y. (c(b := Suc (c b))) y + count_list (List.filter (\<lambda>z. z \<noteq> Some b) use2) (Some y))"
      using one by (auto simp: fun_eq_iff)
    then have "brelse_all (List.filter (\<lambda>z. z \<noteq> Some b) use2) (holding fs c use2) = with_refs fs (c(b := Suc (c b)))"
      using brelse_all_refs [of "List.filter (\<lambda>z. z \<noteq> Some b) use2" fs "c(b := Suc (c b))"] by (simp add: holding_def)
    then show ?thesis using e Some r by simp
  qed
  then show ?thesis using hinted_trans [OF d1(1) d2(1)] by blast
qed

section \<open>The search as a lookup by name\<close>

definition dir_entries :: "dblock list \<Rightarrow> (u8 list \<times> u32) list" where
  "dir_entries bks = List.concat (List.map (\<lambda>(b, bs, offs). live bs offs) bks)"

lemma hit_lookup:
  assumes "name \<noteq> []" and "length name \<le> EXT2_NAME_LEN"
  shows "map_of (live bs offs) name = map_option (de_inode bs) (hit False name bs offs)"
    and "hit False name bs offs = Some x \<Longrightarrow> x \<in> set offs \<and> de_name bs x = name \<and> de_inode bs x \<noteq> 0"
proof -
  have m: "de_inode bs x \<noteq> 0 \<and> ext2_match False name bs x \<longleftrightarrow> de_inode bs x \<noteq> 0 \<and> de_name bs x = name" for x
    using assms by (auto simp: ext2_match_def name_eq_def de_name_def)
  show "map_of (live bs offs) name = map_option (de_inode bs) (hit False name bs offs)"
    unfolding hit_def m by (induction offs) (auto simp: live_def)
  show "hit False name bs offs = Some x \<Longrightarrow> x \<in> set offs \<and> de_name bs x = name \<and> de_inode bs x \<noteq> 0"
    unfolding hit_def m by (auto simp: find_Some_iff in_set_conv_nth)
qed

lemma first_hit_lookup:
  assumes "name \<noteq> []" and "length name \<le> EXT2_NAME_LEN"
  shows "case first_hit False name bks of
      None \<Rightarrow> map_of (dir_entries bks) name = None
    | Some (b, x) \<Rightarrow> \<exists>bs offs. (b, bs, offs) \<in> set bks \<and> x \<in> set offs \<and> de_name bs x = name \<and> de_inode bs x \<noteq> 0 \<and>
        map_of (dir_entries bks) name = Some (de_inode bs x)"
proof (induction bks)
  case (Cons bk bks)
  obtain b bs offs where bk: "bk = (b, bs, offs)" by (cases bk) auto
  note h = hit_lookup [OF assms, where bs = bs and offs = offs]
  show ?case
  proof (cases "hit False name bs offs")
    case None
    then have "map_of (dir_entries (bk # bks)) name = map_of (dir_entries bks) name"
      using h(1) by (simp add: bk dir_entries_def map_add_def)
    then show ?thesis using Cons.IH None by (auto simp: bk split: option.splits)
  next
    case (Some x)
    then have "map_of (dir_entries (bk # bks)) name = Some (de_inode bs x)"
      using h(1) by (simp add: bk dir_entries_def map_add_def)
    then show ?thesis using Some h(2) by (auto simp: bk)
  qed
qed (simp add: dir_entries_def)

text \<open>C23. The search of a directory, of direct and indirect blocks, with its rotating window of read-ahead
  buffers, is the lookup of the name in the list of all entries in use: it returns an entry with the
  name and the inode that the lookup gives, or nothing if there is none, and afterwards exactly one
  reference is held, to the buffer of the entry.\<close>

theorem find_entry_is_lookup:
  assumes "dir_file fs dir bks" and "name \<noteq> []" and "length name \<le> EXT2_NAME_LEN"
  shows "\<exists>r dir'. hinted dir dir' \<and>
    ext2_find_entry now False dir name fs = Some ((r, dir'),
      case r of None \<Rightarrow> fs | Some (b, x) \<Rightarrow> fs\<lparr>b_count := (b_count fs)(b := Suc (b_count fs b))\<rparr>) \<and>
    (case r of
       None \<Rightarrow> map_of (dir_entries bks) name = None
     | Some (b, x) \<Rightarrow> \<exists>bs offs. (b, bs, offs) \<in> set bks \<and> x \<in> set offs \<and> de_name bs x = name \<and> de_inode bs x \<noteq> 0 \<and>
         map_of (dir_entries bks) name = Some (de_inode bs x))"
proof -
  obtain dir' where h: "hinted dir dir'" and f: "ext2_find_entry now False dir name (with_refs fs (b_count fs)) =
      Some ((first_hit False name bks, dir'), case first_hit False name bks of
        None \<Rightarrow> with_refs fs (b_count fs) | Some (b, x) \<Rightarrow> with_refs fs ((b_count fs)(b := Suc (b_count fs b))))"
    using find_first_hit [OF assms(1,3), of now False "b_count fs"] by (elim exE conjE) (rule that)
  have "ext2_find_entry now False dir name fs = Some ((first_hit False name bks, dir'),
      case first_hit False name bks of None \<Rightarrow> fs | Some (b, x) \<Rightarrow> fs\<lparr>b_count := (b_count fs)(b := Suc (b_count fs b))\<rparr>)"
    using f unfolding with_refs_same unfolding with_refs_def .
  then show ?thesis using h first_hit_lookup [OF assms(2,3), of bks] by blast
qed

end
