(* ===== verification/Ext2_Icache_Props.thy ===== *)
theory Ext2_Icache_Props
  imports Ext2_Icache
begin

text \<open>
  What the table of inodes is: a list of all inodes, in the order of the ring, and a list for each
  hash chain (\<open>table_inv\<close>); and what the operations do to these lists.
\<close>

section \<open>The lists behind the links\<close>

definition ring_part :: "vfs \<Rightarrow> iptr list \<Rightarrow> bool" where
  "ring_part st xs \<longleftrightarrow> ring (i_next st) (i_prev st) xs \<and> first_inode st = hd xs \<and> INull \<notin> set xs"

definition hash_key :: "vfs \<Rightarrow> iptr \<Rightarrow> nat" where
  "hash_key st p = hashfn (i_dev st p) (i_ino (v_inode st p))"

definition chain_part :: "vfs \<Rightarrow> iptr list \<Rightarrow> (nat \<Rightarrow> iptr list) \<Rightarrow> bool" where
  "chain_part st xs hs \<longleftrightarrow>
     (\<forall>h < NR_IHASH. dchain INull (i_hash_next st) (i_hash_prev st) INull (hash_table st h) (hs h) \<and>
        distinct (hs h) \<and> set (hs h) \<subseteq> set xs \<and> (\<forall>p \<in> set (hs h). hash_key st p = h)) \<and>
     (\<forall>p \<in> set xs. (\<forall>h < NR_IHASH. p \<notin> set (hs h)) \<longrightarrow> i_hash_next st p = INull \<and> i_hash_prev st p = INull)"

definition drop_from :: "iptr \<Rightarrow> (nat \<Rightarrow> iptr list) \<Rightarrow> nat \<Rightarrow> iptr list" where
  "drop_from p hs = (\<lambda>h. removeAll p (hs h))"

lemma hash_key_bound: "hash_key st p < NR_IHASH"
  by (simp add: hash_key_def hashfn_def NR_IHASH_def)

lemma ring_part_cong:
  "i_next st' = i_next st \<Longrightarrow> i_prev st' = i_prev st \<Longrightarrow> first_inode st' = first_inode st \<Longrightarrow> ring_part st' xs = ring_part st xs"
  by (simp add: ring_part_def)

lemma chain_part_cong:
  assumes c: "chain_part st xs hs"
    and links: "i_hash_next st' = i_hash_next st" "i_hash_prev st' = i_hash_prev st" "hash_table st' = hash_table st"
    and keys: "\<And>h p. h < NR_IHASH \<Longrightarrow> p \<in> set (hs h) \<Longrightarrow> hash_key st' p = hash_key st p"
  shows "chain_part st' xs hs"
proof -
  have "hash_key st' p = h" if "h < NR_IHASH" "p \<in> set (hs h)" for h p
    using c that keys [OF that] unfolding chain_part_def by simp
  then show ?thesis using c unfolding chain_part_def links by blast
qed

lemma chain_part_set: "set ys = set xs \<Longrightarrow> chain_part st ys hs = chain_part st xs hs"
  by (simp add: chain_part_def)

lemma split_ptr:
  assumes "distinct xs" and "p \<in> set xs"
  obtains us vs where "xs = us @ p # vs" and "removeAll p xs = us @ vs"
proof -
  obtain us vs where s: "xs = us @ p # vs" using assms(2) by (meson split_list)
  have "removeAll p us = us" "removeAll p vs = vs" using assms(1) s by (auto simp: removeAll_id)
  then show ?thesis using s that by simp
qed

lemma insert_free_effect:
  assumes r: "ring_part st xs" and p: "p \<notin> set xs" "p \<noteq> INull"
  shows "\<exists>n q. insert_inode_free p st = Some (st\<lparr>i_next := n, i_prev := q, first_inode := p\<rparr>) \<and> ring n q (p # xs)"
proof -
  obtain h ys where x: "xs = h # ys" using r by (auto simp: ring_part_def ring_def neq_Nil_conv)
  have R: "ring (i_next st) (i_prev st) (h # ys)" and f: "first_inode st = h" and nn: "h \<noteq> INull" "INull \<notin> set ys"
    using r x by (auto simp: ring_part_def)
  have ph: "p \<noteq> h" using p x by simp
  have "i_prev st h \<in> set xs" using ring_closed [OF R] x by simp
  then have pv: "i_prev st h \<noteq> INull" "i_prev st h \<noteq> p" using nn p x by auto
  let ?n = "(i_next st)(p := h, i_prev st h := p)" and ?q = "(i_prev st)(p := i_prev st h, h := p)"
  have "ring ?n ?q (h # ys @ [p])" by (rule ring_link_last [OF R]) (use p x in simp)
  then have "ring ?n ?q (p # xs)" using ring_turn [of ?n ?q "h # ys" p "[]"] x by simp
  moreover have "insert_inode_free p st = Some (st\<lparr>i_next := ?n, i_prev := ?q, first_inode := p\<rparr>)"
    using f nn ph pv by (simp add: insert_inode_free_def Let_def)
  ultimately show ?thesis by blast
qed

lemma remove_free_effect:
  assumes r: "ring_part st xs" and p: "p \<in> set xs" and more: "xs \<noteq> [p]"
  shows "\<exists>n q f. remove_inode_free p st = st\<lparr>i_next := n, i_prev := q, first_inode := f\<rparr> \<and>
    ring_part (st\<lparr>i_next := n, i_prev := q, first_inode := f\<rparr>) (removeAll p xs)"
proof -
  have R: "ring (i_next st) (i_prev st) xs" and nn: "INull \<notin> set xs" and fs: "first_inode st = hd xs" using r by (simp_all add: ring_part_def)
  have d: "distinct xs" using R by (simp add: ring_def)
  obtain us vs where x: "xs = us @ p # vs" "removeAll p xs = us @ vs" using split_ptr [OF d p] .
  have ne: "us @ vs \<noteq> []" using more x by auto
  obtain h zs ws where t: "ring (i_next st) (i_prev st) (h # zs @ p # ws)" "us @ vs = h # zs @ ws \<or> us = [] \<and> vs = h # zs \<and> ws = []"
  proof (cases us)
    case Nil
    then obtain v vs' where "vs = v # vs'" using ne by (cases vs) auto
    then show ?thesis using that [of v vs' "[]"] R x Nil ring_rotate [of "i_next st" "i_prev st" p vs] by simp
  next
    case (Cons h zs)
    then show ?thesis using that [of h zs vs] R x by simp
  qed
  have eq: "us @ vs = h # zs @ ws" using t(2) by auto
  have "p \<notin> set (us @ vs)" using d x by simp
  then have pn: "p \<notin> set (h # zs @ ws)" unfolding eq .
  let ?x = "i_next st p" and ?y = "i_prev st p"
  have o: "?x \<noteq> p" "?y \<noteq> p" using ring_next_other [OF t(1)] by simp_all
  have c: "?x \<in> set xs" "?y \<in> set xs" using ring_closed [OF R p] by simp_all
  then have nl: "?x \<noteq> INull" "?y \<noteq> INull" using nn by auto
  let ?n = "(i_next st)(?y := ?x, p := INull)" and ?q = "(i_prev st)(?x := ?y, p := INull)"
  let ?f = "if first_inode st = p then ?x else first_inode st"
  have "ring ((i_next st)(?y := ?x)) ((i_prev st)(?x := ?y)) (h # zs @ ws)" by (rule ring_unlink [OF t(1)])
  moreover have "ring ?n ?q (h # zs @ ws) = ring ((i_next st)(?y := ?x)) ((i_prev st)(?x := ?y)) (h # zs @ ws)"
    by (rule ring_frame) (use pn in auto)
  ultimately have "ring ?n ?q (removeAll p xs)" using x eq by simp
  moreover have "?f = hd (removeAll p xs)"
  proof (cases us)
    case Nil
    then obtain v vs' where "vs = v # vs'" using ne by (cases vs) auto
    then have "?x = v" using R x Nil by (simp add: ring_def)
    then show ?thesis using fs x Nil \<open>vs = v # vs'\<close> by simp
  next
    case (Cons h' zs')
    then have "h' \<noteq> p" using d x by auto
    then show ?thesis using fs x Cons by simp
  qed
  moreover have "INull \<notin> set (removeAll p xs)" using nn by simp
  moreover have "remove_inode_free p st = st\<lparr>i_next := ?n, i_prev := ?q, first_inode := ?f\<rparr>"
    using o nl by (simp add: remove_inode_free_def Let_def fun_upd_twist)
  ultimately show ?thesis unfolding ring_part_def by (intro exI [of _ ?n] exI [of _ ?q] exI [of _ ?f]) simp
qed

lemma remove_inode_hash_effect:
  assumes c: "chain_part st xs hs" and p: "p \<in> set xs" "p \<noteq> INull"
  shows "\<exists>t n q. remove_inode_hash p st = st\<lparr>hash_table := t, i_hash_next := n, i_hash_prev := q\<rparr> \<and>
    chain_part (st\<lparr>hash_table := t, i_hash_next := n, i_hash_prev := q\<rparr>) xs (drop_from p hs) \<and> n p = INull \<and> q p = INull"
proof -
  define k where "k = hash_key st p"
  have kb: "k < NR_IHASH" by (simp add: k_def hash_key_bound)
  have ch: "dchain INull (i_hash_next st) (i_hash_prev st) INull (hash_table st h) (hs h)" "distinct (hs h)" "set (hs h) \<subseteq> set xs"
    "\<And>r. r \<in> set (hs h) \<Longrightarrow> hash_key st r = h" if "h < NR_IHASH" for h using c that by (auto simp: chain_part_def)
  show ?thesis
  proof (cases "p \<in> set (hs k)")
    case False
    then have out: "\<forall>h < NR_IHASH. p \<notin> set (hs h)" using ch(4) k_def by blast
    then have nl: "i_hash_next st p = INull" "i_hash_prev st p = INull" using c p by (auto simp: chain_part_def)
    have "hash_table st k \<noteq> p" using dchain_first [OF ch(1) [OF kb]] False p(2) by (cases "hs k") auto
    then have "remove_inode_hash p st = st\<lparr>hash_table := hash_table st, i_hash_next := i_hash_next st, i_hash_prev := i_hash_prev st\<rparr>"
      using nl by (simp add: remove_inode_hash_def Let_def k_def hash_key_def fun_upd_idem)
    moreover have "chain_part st xs (drop_from p hs)"
      using c out by (auto simp: chain_part_def drop_from_def removeAll_id)
    ultimately show ?thesis using nl by (intro exI [of _ "hash_table st"] exI [of _ "i_hash_next st"] exI [of _ "i_hash_prev st"]) simp
  next
    case True
    obtain us vs where x: "hs k = us @ p # vs" "removeAll p (hs k) = us @ vs" using split_ptr [OF ch(2) [OF kb] True] .
    let ?x = "i_hash_next st p" and ?y = "i_hash_prev st p"
    have ck: "dchain INull (i_hash_next st) (i_hash_prev st) INull (hash_table st k) (us @ p # vs)" and dk: "distinct (us @ p # vs)"
      using ch(1,2) [OF kb] x by simp_all
    define n where "n = (if ?y \<noteq> INull then (i_hash_next st)(?y := ?x) else i_hash_next st)(p := INull)"
    define q where "q = (if ?x \<noteq> INull then (i_hash_prev st)(?x := ?y) else i_hash_prev st)(p := INull)"
    define t where "t = (if hash_table st k = p then (hash_table st)(k := ?x) else hash_table st)"
    have "dchain INull (i_hash_next st) (i_hash_prev st) p ?x vs" using ck by (simp add: dchain_append)
    from dchain_first [OF this] have nx: "?x = (if vs = [] then INull else hd vs)" .
    then have xin: "?x \<in> insert INull (set vs)" by auto
    have yin: "?y \<in> insert INull (set us)"
    proof (cases us rule: rev_cases)
      case (snoc zs l)
      then show ?thesis using ck by (simp add: dchain_append)
    qed (use ck in simp)
    have xp: "?x \<noteq> p" "?y \<noteq> p" using xin yin dk p(2) by auto
    have rm: "remove_inode_hash p st = st\<lparr>hash_table := t, i_hash_next := n, i_hash_prev := q\<rparr>"
      using xp by (simp add: remove_inode_hash_def Let_def k_def [unfolded hash_key_def, symmetric] n_def q_def t_def)
    have tk: "t k = (if hash_table st k = p then ?x else hash_table st k)" by (simp add: t_def)
    have "dchain INull n q INull (t k) (us @ vs) \<longleftrightarrow>
        dchain INull (if ?y \<noteq> INull then (i_hash_next st)(?y := ?x) else i_hash_next st)
          (if ?x \<noteq> INull then (i_hash_prev st)(?x := ?y) else i_hash_prev st) INull (t k) (us @ vs)"
      by (rule dchain_frame) (use dk in \<open>auto simp: n_def q_def\<close>)
    then have "dchain INull n q INull (t k) (us @ vs)"
      using dchain_unlink [OF ck dk] unfolding tk by blast
    then have rk: "dchain INull n q INull (t k) (removeAll p (hs k))" using x by simp
    have ro: "dchain INull n q INull (t h) (removeAll p (hs h))" if h: "h < NR_IHASH" "h \<noteq> k" for h
    proof -
      have dis: "set (hs h) \<inter> set (hs k) = {}" using ch(4) h kb by blast
      then have "removeAll p (hs h) = hs h" using True by (metis IntI empty_iff removeAll_id)
      moreover have "dchain INull n q INull (t h) (hs h) \<longleftrightarrow> dchain INull (i_hash_next st) (i_hash_prev st) INull (t h) (hs h)"
        by (rule dchain_frame) (use dis xin yin x True dchain_not_null [OF ch(1) [OF h(1)]] in \<open>auto simp: n_def q_def\<close>)
      ultimately show ?thesis using ch(1) [OF h(1)] h(2) by (simp add: t_def)
    qed
    have nul: "n r = INull \<and> q r = INull" if r: "r \<in> set xs" "\<forall>h < NR_IHASH. r \<notin> set (removeAll p (hs h))" for r
    proof (cases "r = p")
      case False
      then have out: "\<forall>h < NR_IHASH. r \<notin> set (hs h)" using r(2) by auto
      then have "r \<noteq> ?x \<or> ?x = INull" "r \<noteq> ?y \<or> ?y = INull" using xin yin x kb by auto
      then show ?thesis using c r(1) out False by (auto simp: chain_part_def n_def q_def)
    qed (simp add: n_def q_def)
    have "chain_part (st\<lparr>hash_table := t, i_hash_next := n, i_hash_prev := q\<rparr>) xs (drop_from p hs)"
      unfolding chain_part_def drop_from_def
    proof (intro conjI allI impI ballI)
      fix h assume h: "h < NR_IHASH"
      show "dchain INull (i_hash_next (st\<lparr>hash_table := t, i_hash_next := n, i_hash_prev := q\<rparr>))
          (i_hash_prev (st\<lparr>hash_table := t, i_hash_next := n, i_hash_prev := q\<rparr>)) INull
          (hash_table (st\<lparr>hash_table := t, i_hash_next := n, i_hash_prev := q\<rparr>) h) (removeAll p (hs h))"
        using rk ro [OF h] by (cases "h = k") simp_all
      show "distinct (removeAll p (hs h))" using ch(2) [OF h] by (simp add: distinct_removeAll)
      show "set (removeAll p (hs h)) \<subseteq> set xs" using ch(3) [OF h] by auto
      show "hash_key (st\<lparr>hash_table := t, i_hash_next := n, i_hash_prev := q\<rparr>) r = h" if "r \<in> set (removeAll p (hs h))" for r
        using ch(4) [OF h] that by (simp add: hash_key_def)
    next
      fix r assume "r \<in> set xs" "\<forall>h < NR_IHASH. r \<notin> set (removeAll p (hs h))"
      note nr = nul [OF this]
      show "i_hash_next (st\<lparr>hash_table := t, i_hash_next := n, i_hash_prev := q\<rparr>) r = INull" using nr by simp
      show "i_hash_prev (st\<lparr>hash_table := t, i_hash_next := n, i_hash_prev := q\<rparr>) r = INull" using nr by simp
    qed
    then show ?thesis using rm by (intro exI [of _ t] exI [of _ n] exI [of _ q]) (simp add: n_def q_def)
  qed
qed

section \<open>clear_inode\<close>

lemma ring_part_zero:
  assumes "ring_part st xs" and "p \<notin> set xs"
  shows "ring_part (zero_at p st) xs"
proof -
  have "ring (i_next (zero_at p st)) (i_prev (zero_at p st)) xs \<longleftrightarrow> ring (i_next st) (i_prev st) xs"
    by (rule ring_frame) (use assms(2) in \<open>auto simp: zero_at_def\<close>)
  then show ?thesis using assms(1) by (simp add: ring_part_def zero_at_def)
qed

lemma refill_ring:
  assumes r: "ring_part st xs" and p: "p \<in> set xs"
    and keep: "\<And>st. i_next (f st) = i_next st" "\<And>st. i_prev (f st) = i_prev st" "\<And>st. first_inode (f st) = first_inode st"
    and shift: "\<And>st n q h. f (st\<lparr>i_next := n, i_prev := q, first_inode := h\<rparr>) = (f st)\<lparr>i_next := n, i_prev := q, first_inode := h\<rparr>"
  shows "\<exists>n q. insert_inode_free p (zero_at p (f (remove_inode_free p st))) =
      Some ((zero_at p (f st))\<lparr>i_next := n, i_prev := q, first_inode := p\<rparr>) \<and> ring n q (p # removeAll p xs)"
proof (cases "xs = [p]")
  case True
  then have l: "i_next st p = p" "i_prev st p = p" "first_inode st = p" "p \<noteq> INull"
    using r by (auto simp: ring_part_def ring_def)
  have rm: "remove_inode_free p st = st\<lparr>i_next := (i_next st)(p := INull), i_prev := (i_prev st)(p := INull), first_inode := p\<rparr>"
    using l by (simp add: remove_inode_free_def Let_def fun_upd_idem)
  have "insert_inode_free p (zero_at p (f (remove_inode_free p st))) =
      Some ((zero_at p (f st))\<lparr>i_next := (i_next st)(p := p), i_prev := (i_prev st)(p := p), first_inode := p\<rparr>)"
    unfolding rm shift using l keep by (simp add: insert_inode_free_def Let_def zero_at_def)
  moreover have "ring ((i_next st)(p := p)) ((i_prev st)(p := p)) (p # removeAll p xs)" using True by (simp add: ring_def)
  ultimately show ?thesis by blast
next
  case False
  obtain n q h where rm: "remove_inode_free p st = st\<lparr>i_next := n, i_prev := q, first_inode := h\<rparr>"
      and rp: "ring_part (st\<lparr>i_next := n, i_prev := q, first_inode := h\<rparr>) (removeAll p xs)"
    using remove_free_effect [OF r p False] by blast
  have pn: "p \<noteq> INull" using r p by (auto simp: ring_part_def)
  let ?st = "zero_at p (f (st\<lparr>i_next := n, i_prev := q, first_inode := h\<rparr>))"
  have "ring_part ?st (removeAll p xs)"
    by (rule ring_part_zero) (use rp keep in \<open>simp_all add: ring_part_cong [of "f (st\<lparr>i_next := n, i_prev := q, first_inode := h\<rparr>)" "st\<lparr>i_next := n, i_prev := q, first_inode := h\<rparr>"]\<close>)
  then obtain n' q' where "insert_inode_free p ?st = Some (?st\<lparr>i_next := n', i_prev := q', first_inode := p\<rparr>)"
      and ring: "ring n' q' (p # removeAll p xs)"
    using insert_free_effect [of ?st "removeAll p xs" p] pn by auto
  moreover have "?st\<lparr>i_next := n', i_prev := q', first_inode := p\<rparr> = (zero_at p (f st))\<lparr>i_next := n', i_prev := q', first_inode := p\<rparr>"
    unfolding shift by (simp add: zero_at_def)
  ultimately show ?thesis unfolding rm by auto
qed

definition count_free :: "iptr \<Rightarrow> vfs \<Rightarrow> vfs" where
  "count_free p st = (if i_count (v_inode st p) \<noteq> 0 then st\<lparr>nr_free_inodes := nr_free_inodes st + 1\<rparr> else st)"

lemma count_free_simps:
  "i_next (count_free p st) = i_next st" "i_prev (count_free p st) = i_prev st" "first_inode (count_free p st) = first_inode st"
  "count_free p (st\<lparr>i_next := n, i_prev := q, first_inode := h\<rparr>) = (count_free p st)\<lparr>i_next := n, i_prev := q, first_inode := h\<rparr>"
  by (simp_all add: count_free_def)

lemma clear_inode_effect:
  assumes r: "ring_part st xs" and c: "chain_part st xs hs" and p: "p \<in> set xs"
  shows "\<exists>n q t hn hq. clear_inode p st = Some ((zero_at p (count_free p st))\<lparr>i_next := n, i_prev := q, first_inode := p,
      hash_table := t, i_hash_next := hn, i_hash_prev := hq\<rparr>) \<and> ring n q (p # removeAll p xs) \<and>
    chain_part ((zero_at p (count_free p st))\<lparr>i_next := n, i_prev := q, first_inode := p,
      hash_table := t, i_hash_next := hn, i_hash_prev := hq\<rparr>) (p # removeAll p xs) (drop_from p hs)"
proof -
  let ?st1 = "wait_on_inode p st"
  have pn: "p \<noteq> INull" using r p by (auto simp: ring_part_def)
  have c1: "chain_part ?st1 xs hs" by (rule chain_part_cong [OF c]) (simp_all add: wait_on_inode_def hash_key_def)
  obtain t n q where h: "remove_inode_hash p ?st1 = ?st1\<lparr>hash_table := t, i_hash_next := n, i_hash_prev := q\<rparr>"
      and ch: "chain_part (?st1\<lparr>hash_table := t, i_hash_next := n, i_hash_prev := q\<rparr>) xs (drop_from p hs)"
      and nul: "n p = INull" "q p = INull"
    using remove_inode_hash_effect [OF c1 p pn] by blast
  let ?st2 = "?st1\<lparr>hash_table := t, i_hash_next := n, i_hash_prev := q\<rparr>"
  have r2: "ring_part ?st2 xs" using r by (simp add: ring_part_def wait_on_inode_def)
  have f: "clear_inode p st = insert_inode_free p (zero_at p (count_free p (remove_inode_free p ?st2)))"
    unfolding clear_inode_def Let_def h count_free_def ..
  obtain n' q' where g: "insert_inode_free p (zero_at p (count_free p (remove_inode_free p ?st2))) =
      Some ((zero_at p (count_free p ?st2))\<lparr>i_next := n', i_prev := q', first_inode := p\<rparr>)" "ring n' q' (p # removeAll p xs)"
    using refill_ring [OF r2 p, of "count_free p", OF count_free_simps] by blast
  let ?st' = "(zero_at p (count_free p st))\<lparr>i_next := n', i_prev := q', first_inode := p, hash_table := t, i_hash_next := n, i_hash_prev := q\<rparr>"
  have eq: "(zero_at p (count_free p ?st2))\<lparr>i_next := n', i_prev := q', first_inode := p\<rparr> = ?st'"
    using nul by (simp add: zero_at_def count_free_def wait_on_inode_def fun_upd_idem)
  have "chain_part ?st' xs (drop_from p hs)"
    by (rule chain_part_cong [OF ch]) (auto simp: hash_key_def drop_from_def zero_at_def count_free_def wait_on_inode_def)
  moreover have "set (p # removeAll p xs) = set xs" using p by auto
  ultimately have "chain_part ?st' (p # removeAll p xs) (drop_from p hs)" using chain_part_set by blast
  then show ?thesis using f g eq by (intro exI [of _ n'] exI [of _ q'] exI [of _ t] exI [of _ n] exI [of _ q]) simp
qed

section \<open>The whole table, and walks along the ring\<close>

definition table_inv :: "vfs \<Rightarrow> iptr list \<Rightarrow> (nat \<Rightarrow> iptr list) \<Rightarrow> bool" where
  "table_inv st xs hs \<longleftrightarrow> ring_part st xs \<and> chain_part st xs hs \<and> nr_inodes st = int (length xs)"

lemma table_invD:
  assumes "table_inv st xs hs"
  shows "ring_part st xs" and "chain_part st xs hs" and "nr_inodes st = int (length xs)" and "xs \<noteq> []" and "distinct xs"
    and "INull \<notin> set xs" and "first_inode st = hd xs" and "nat (nr_inodes st) = length xs"
  using assms by (auto simp: table_inv_def ring_part_def ring_def)

lemma ring_part_step:
  assumes "ring_part st (pre @ x # y # rest)"
  shows "i_next st x = y"
proof -
  have "ring (i_next st) (i_prev st) (x # (y # rest) @ pre)" using assms ring_turn [of "i_next st" "i_prev st" pre x "y # rest"] by (simp add: ring_part_def)
  then show ?thesis by (simp add: ring_def)
qed

lemma may_umount_walk:
  "ring_part st (pre @ x # rest) \<Longrightarrow> may_umount dev root (Suc (length rest)) x st =
     Some (\<forall>p \<in> set (x # rest). i_dev st p = dev \<longrightarrow> i_count (v_inode st p) = 0 \<or> p = root \<and> i_count (v_inode st p) = 1)"
proof (induction rest arbitrary: pre x)
  case Nil
  then have "x \<noteq> INull" by (auto simp: ring_part_def)
  then show ?case by auto
next
  case (Cons y rest)
  have "x \<noteq> INull" using Cons.prems by (auto simp: ring_part_def)
  moreover have "i_next st x = y" by (rule ring_part_step [OF Cons.prems])
  moreover have "ring_part st ((pre @ [x]) @ y # rest)" using Cons.prems by simp
  note Cons.IH [OF this]
  ultimately show ?case by (simp del: length_Cons may_umount.simps add: may_umount.simps(2)) auto
qed

text \<open>A device may be unmounted exactly if none of its inodes is in use, but for one use of the root.\<close>

theorem fs_may_umount_iff:
  assumes "table_inv st xs hs"
  shows "fs_may_umount dev root st = Some (\<forall>p \<in> set xs. i_dev st p = dev \<longrightarrow>
    i_count (v_inode st p) = 0 \<or> p = root \<and> i_count (v_inode st p) = 1)"
proof -
  note t = table_invD [OF assms]
  obtain x rest where x: "xs = x # rest" using t(4) by (cases xs) auto
  then show ?thesis using may_umount_walk [of st "[]" x rest dev root] t(1,7,8) by (simp add: fs_may_umount_def)
qed

section \<open>invalidate_inodes\<close>

definition same_inode :: "vfs \<Rightarrow> vfs \<Rightarrow> iptr \<Rightarrow> bool" where
  "same_inode st st' p \<longleftrightarrow> v_inode st' p = v_inode st p \<and> i_dev st' p = i_dev st p \<and> i_sb st' p = i_sb st p \<and> i_lock st' p = i_lock st p"

definition is_cleared :: "vfs \<Rightarrow> iptr \<Rightarrow> bool" where
  "is_cleared st p \<longleftrightarrow> v_inode st p = zero_inode \<and> i_dev st p = 0 \<and> \<not> i_sb st p \<and> \<not> i_lock st p"

lemma clear_inode_table:
  assumes inv: "table_inv st xs hs" and p: "p \<in> set xs"
  shows "\<exists>st'. clear_inode p st = Some st' \<and> table_inv st' (p # removeAll p xs) (drop_from p hs) \<and> is_cleared st' p \<and>
    (\<forall>r. r \<noteq> p \<longrightarrow> same_inode st st' r) \<and> v_fs st' = v_fs st \<and> event st' = event st \<and> nr_inodes st' = nr_inodes st \<and>
    free_pages st' = free_pages st \<and> inodes_per_page st' = inodes_per_page st \<and> s_dev st' = s_dev st"
proof -
  note t = table_invD [OF inv]
  obtain n q tb hn hq st' where st': "st' = (zero_at p (count_free p st))\<lparr>i_next := n, i_prev := q, first_inode := p,
      hash_table := tb, i_hash_next := hn, i_hash_prev := hq\<rparr>" and c: "clear_inode p st = Some st'"
    and r: "ring n q (p # removeAll p xs)" and ch: "chain_part st' (p # removeAll p xs) (drop_from p hs)"
    using clear_inode_effect [OF t(1,2) p] by blast
  have "ring_part st' (p # removeAll p xs)" using r t(6) p by (auto simp: ring_part_def st')
  moreover have "length (p # removeAll p xs) = length xs"
    using p t(5) by (simp add: distinct_remove1_removeAll [symmetric] length_remove1) (cases xs; simp)
  moreover have "nr_inodes st' = nr_inodes st" by (simp add: st' zero_at_def count_free_def)
  ultimately have "table_inv st' (p # removeAll p xs) (drop_from p hs)" using ch t(3) by (simp add: table_inv_def)
  then show ?thesis using c by (simp add: st' is_cleared_def same_inode_def zero_at_def count_free_def)
qed

lemma invalidate_walk:
  assumes "table_inv st (pre @ suf) hs" and "suf \<noteq> [] \<Longrightarrow> x = hd suf"
  shows "\<exists>st' xs' hs'. invalidate hard dev (length suf) x st = Some st' \<and> table_inv st' xs' hs' \<and> set xs' = set (pre @ suf) \<and>
    (\<forall>p \<in> set suf. if i_dev st p = dev \<and> (hard \<or> \<not> is_busy p st) then is_cleared st' p else same_inode st st' p) \<and>
    (\<forall>p. p \<notin> set suf \<longrightarrow> same_inode st st' p)"
  using assms
proof (induction suf arbitrary: st pre hs x)
  case Nil
  then show ?case by (auto simp: same_inode_def)
next
  case (Cons y suf)
  have x: "x = y" using Cons.prems(2) by simp
  note t = table_invD [OF Cons.prems(1)]
  have nn: "y \<noteq> INull" using t(6) by auto
  define nx where "nx = i_next st y"
  have nx: "nx = hd suf" if "suf \<noteq> []" using ring_part_step [of st pre y "hd suf" "tl suf"] t(1) that by (simp add: nx_def)
  define hit where "hit \<longleftrightarrow> i_dev st y = dev \<and> (hard \<or> \<not> is_busy y st)"
  show ?case
  proof (cases hit)
    case False
    have st: "invalidate hard dev (length (y # suf)) x st = invalidate hard dev (length suf) nx st"
      using False nn x by (auto simp: hit_def nx_def Let_def)
    have "table_inv st ((pre @ [y]) @ suf) hs" using Cons.prems(1) by simp
    from Cons.IH [OF this nx] obtain st' xs' hs' where e: "invalidate hard dev (length suf) nx st = Some st'"
        "table_inv st' xs' hs'" "set xs' = set ((pre @ [y]) @ suf)"
        "\<forall>p \<in> set suf. if i_dev st p = dev \<and> (hard \<or> \<not> is_busy p st) then is_cleared st' p else same_inode st st' p"
        "\<forall>p. p \<notin> set suf \<longrightarrow> same_inode st st' p" by blast
    have "y \<notin> set suf" using t(5) by simp
    then have "if i_dev st y = dev \<and> (hard \<or> \<not> is_busy y st) then is_cleared st' y else same_inode st st' y"
      using e(5) False by (auto simp: hit_def)
    then show ?thesis using e st by (intro exI [of _ st'] exI [of _ xs'] exI [of _ hs']) auto
  next
    case True
    obtain st1 where c: "clear_inode y st = Some st1" "table_inv st1 (y # removeAll y (pre @ y # suf)) (drop_from y hs)"
        "is_cleared st1 y" "\<forall>r. r \<noteq> y \<longrightarrow> same_inode st st1 r"
      using clear_inode_table [OF Cons.prems(1), of y] by auto
    have st: "invalidate hard dev (length (y # suf)) x st = invalidate hard dev (length suf) nx st1"
      using True nn x c(1) by (auto simp: hit_def nx_def Let_def)
    have yn: "y \<notin> set pre" "y \<notin> set suf" using t(5) by auto
    then have "table_inv st1 ((y # pre) @ suf) (drop_from y hs)" using c(2) by (simp add: removeAll_id)
    from Cons.IH [OF this nx] obtain st' xs' hs' where e: "invalidate hard dev (length suf) nx st1 = Some st'"
        "table_inv st' xs' hs'" "set xs' = set ((y # pre) @ suf)"
        "\<forall>p \<in> set suf. if i_dev st1 p = dev \<and> (hard \<or> \<not> is_busy p st1) then is_cleared st' p else same_inode st1 st' p"
        "\<forall>p. p \<notin> set suf \<longrightarrow> same_inode st1 st' p" by blast
    have "is_cleared st' y" using c(3) e(5) yn(2) by (simp add: is_cleared_def same_inode_def)
    moreover have "if i_dev st p = dev \<and> (hard \<or> \<not> is_busy p st) then is_cleared st' p else same_inode st st' p" if "p \<in> set suf" for p
    proof -
      have "p \<noteq> y" using that yn(2) by auto
      then have "same_inode st st1 p" using c(4) by simp
      then show ?thesis using e(4) that by (auto simp: same_inode_def is_busy_def)
    qed
    moreover have "same_inode st st' p" if "p \<notin> set (y # suf)" for p
      using that e(5) c(4) by (simp add: same_inode_def)
    ultimately show ?thesis using e(1-3) st True by (intro exI [of _ st'] exI [of _ xs'] exI [of _ hs']) (auto simp: hit_def)
  qed
qed

text \<open>C20. \<open>invalidate_inodes\<close> clears exactly the inodes of the device that are not busy and
  \<open>hard_invalidate_inodes\<close> all inodes of the device; the others stay as they are, and the table stays
  well formed, although every clearing moves the inode to the front of the ring that is walked.\<close>

theorem invalidate_exact:
  assumes "table_inv st xs hs"
  shows "\<exists>st' xs' hs'. (if hard then hard_invalidate_inodes dev st else invalidate_inodes dev st) = Some st' \<and>
    table_inv st' xs' hs' \<and> set xs' = set xs \<and>
    (\<forall>p \<in> set xs. if i_dev st p = dev \<and> (hard \<or> \<not> is_busy p st) then is_cleared st' p else same_inode st st' p)"
proof -
  note t = table_invD [OF assms]
  have "(if hard then hard_invalidate_inodes dev st else invalidate_inodes dev st) = invalidate hard dev (length xs) (hd xs) st"
    using t(7,8) by (simp add: hard_invalidate_inodes_def invalidate_inodes_def)
  moreover have "table_inv st ([] @ xs) hs" using assms by simp
  note invalidate_walk [OF this refl, of hard dev]
  ultimately show ?thesis by (simp only: append_Nil) blast
qed

end
