(* ===== verification/Ext2_Iget_Props.thy ===== *)
theory Ext2_Iget_Props
  imports Ext2_Icache_Props
begin

text \<open>
  Getting an inode: the search for an empty one (\<open>get_empty_inode\<close>), and \<open>iget\<close>, which must give one and
  the same object for one inode number, and never an object that is in use for another.
\<close>

section \<open>Operations that keep the lists\<close>

text \<open>
  From \<open>st\<close> to \<open>st'\<close> inodes may have been added, unused ones may have been written; inodes in use have
  not changed.
\<close>

definition kept :: "vfs \<Rightarrow> vfs \<Rightarrow> iptr \<Rightarrow> bool" where
  "kept st st' p \<longleftrightarrow> i_dev st' p = i_dev st p \<and> i_sb st' p = i_sb st p \<and> i_ino (v_inode st' p) = i_ino (v_inode st p) \<and>
     i_count (v_inode st' p) = i_count (v_inode st p) \<and>
     (i_count (v_inode st p) \<noteq> 0 \<longrightarrow> v_inode st' p = v_inode st p \<and> i_lock st' p = i_lock st p)"

definition pages_ok :: "vfs \<Rightarrow> iptr list \<Rightarrow> bool" where
  "pages_ok st xs \<longleftrightarrow> 0 < inodes_per_page st \<and>
     distinct (concat (List.map (\<lambda>b. page_inodes b st) (free_pages st))) \<and>
     set (concat (List.map (\<lambda>b. page_inodes b st) (free_pages st))) \<inter> set xs = {}"

definition grown :: "vfs \<Rightarrow> iptr list \<Rightarrow> (nat \<Rightarrow> iptr list) \<Rightarrow> vfs \<Rightarrow> iptr list \<Rightarrow> bool" where
  "grown st xs hs st' xs' \<longleftrightarrow> table_inv st' xs' hs \<and> pages_ok st' xs' \<and> set xs \<subseteq> set xs' \<and> (\<forall>p \<in> set xs. kept st st' p) \<and>
     s_dev st' = s_dev st \<and> hash_table st' = hash_table st"

lemma grown_refl: "table_inv st xs hs \<Longrightarrow> pages_ok st xs \<Longrightarrow> grown st xs hs st xs"
  by (simp add: grown_def kept_def)

lemma grown_trans: "grown st xs hs st1 xs1 \<Longrightarrow> grown st1 xs1 hs st2 xs2 \<Longrightarrow> grown st xs hs st2 xs2"
  unfolding grown_def kept_def by (metis subset_iff)

lemma table_inv_cong:
  assumes "table_inv st xs hs" and "i_next st' = i_next st" "i_prev st' = i_prev st" "first_inode st' = first_inode st"
    "i_hash_next st' = i_hash_next st" "i_hash_prev st' = i_hash_prev st" "hash_table st' = hash_table st" "nr_inodes st' = nr_inodes st"
    and "\<And>p. p \<in> set xs \<Longrightarrow> hash_key st' p = hash_key st p"
  shows "table_inv st' xs hs"
proof -
  have "\<And>h p. h < NR_IHASH \<Longrightarrow> p \<in> set (hs h) \<Longrightarrow> hash_key st' p = hash_key st p"
    using assms(1,9) unfolding table_inv_def chain_part_def by (meson subsetD)
  then have "chain_part st' xs hs"
    using chain_part_cong [of st xs hs st'] assms unfolding table_inv_def by blast
  then show ?thesis using assms(1) ring_part_cong [of st' st xs] assms(2-4,8) by (simp add: table_inv_def)
qed

text \<open>A change of one unused inode that keeps its number.\<close>

lemma grown_change:
  assumes inv: "table_inv st xs hs" "pages_ok st xs" and p: "i_count (v_inode st p) = 0"
    and i: "i_ino i = i_ino (v_inode st p)" "i_count i = i_count (v_inode st p)"
  shows "grown st xs hs (st\<lparr>v_inode := (v_inode st)(p := i), i_lock := (i_lock st)(p := l), v_fs := fs\<rparr>) xs"
proof -
  let ?st = "st\<lparr>v_inode := (v_inode st)(p := i), i_lock := (i_lock st)(p := l), v_fs := fs\<rparr>"
  have "table_inv ?st xs hs" by (rule table_inv_cong [OF inv(1)]) (simp_all add: hash_key_def i)
  moreover have "pages_ok ?st xs" using inv(2) by (simp add: pages_ok_def page_inodes_def)
  ultimately show ?thesis using p i by (simp add: grown_def kept_def)
qed

lemma write_inode_value:
  assumes "ext2_write_inode inode fs = Some (inode', fs')"
  shows "inode' = inode \<or> inode' = inode\<lparr>i_dirt := False\<rparr>"
  using assms unfolding ext2_write_inode_def ext2_update_inode_def
  by (auto simp: Let_def split: if_splits bind_splits option.splits prod.splits)

lemma write_inode_grown:
  assumes inv: "table_inv st xs hs" "pages_ok st xs" and p: "i_count (v_inode st p) = 0" and w: "write_inode p st = Some st'"
  shows "grown st xs hs st' xs"
proof -
  have "\<exists>i l fs. st' = st\<lparr>v_inode := (v_inode st)(p := i), i_lock := (i_lock st)(p := l), v_fs := fs\<rparr> \<and>
      i_ino i = i_ino (v_inode st p) \<and> i_count i = i_count (v_inode st p)"
  proof (cases "i_ino (v_inode st p) = INODE_DASD \<or> \<not> i_dirt (v_inode st p)")
    case True
    then have "st' = st" using w by (cases "i_ino (v_inode st p) = INODE_DASD") (simp_all add: write_inode_def)
    then show ?thesis by (intro exI [of _ "v_inode st p"] exI [of _ "i_lock st p"] exI [of _ "v_fs st"]) simp
  next
    case False
    show ?thesis
    proof (cases "i_sb st p")
      case False
      then have "st' = set_inode p ((v_inode st p)\<lparr>i_dirt := False\<rparr>) (wait_on_inode p st)"
        using w \<open>\<not> (i_ino (v_inode st p) = INODE_DASD \<or> \<not> i_dirt (v_inode st p))\<close>
        by (simp add: write_inode_def wait_on_inode_def)
      also have "\<dots> = st\<lparr>v_inode := (v_inode st)(p := (v_inode st p)\<lparr>i_dirt := False\<rparr>), i_lock := (i_lock st)(p := False), v_fs := v_fs st\<rparr>"
        by (cases st) (simp add: set_inode_def wait_on_inode_def)
      finally have "st' = st\<lparr>v_inode := (v_inode st)(p := (v_inode st p)\<lparr>i_dirt := False\<rparr>), i_lock := (i_lock st)(p := False), v_fs := v_fs st\<rparr>" .
      then show ?thesis
        by (intro exI [of _ "(v_inode st p)\<lparr>i_dirt := False\<rparr>"] exI [of _ False] exI [of _ "v_fs st"]) simp
    next
      case True
      then obtain i fs where e: "ext2_write_inode (v_inode st p) (v_fs st) = Some (i, fs)"
          and st': "st' = st\<lparr>v_inode := (v_inode st)(p := i), i_lock := (i_lock st)(p := False), v_fs := fs\<rparr>"
        using w False by (auto simp: write_inode_def wait_on_inode_def set_inode_def do_fs_def unlock_inode_def split: bind_splits)
      have "i_ino i = i_ino (v_inode st p) \<and> i_count i = i_count (v_inode st p)" using write_inode_value [OF e] by auto
      then show ?thesis using st' by blast
    qed
  qed
  then show ?thesis using grown_change [OF inv p] by blast
qed

section \<open>grow_inodes\<close>

lemma chain_part_frame:
  assumes c: "chain_part st xs hs" and t: "hash_table st' = hash_table st"
    and f: "\<And>p. p \<in> set xs \<Longrightarrow> i_hash_next st' p = i_hash_next st p \<and> i_hash_prev st' p = i_hash_prev st p \<and> hash_key st' p = hash_key st p"
  shows "chain_part st' xs hs"
proof -
  have "dchain INull (i_hash_next st') (i_hash_prev st') INull (hash_table st' h) (hs h) \<and> (\<forall>p \<in> set (hs h). hash_key st' p = h)"
    if h: "h < NR_IHASH" for h
  proof -
    have s: "set (hs h) \<subseteq> set xs" "\<forall>p \<in> set (hs h). hash_key st p = h"
      "dchain INull (i_hash_next st) (i_hash_prev st) INull (hash_table st h) (hs h)"
      using c h by (simp_all add: chain_part_def)
    have "dchain INull (i_hash_next st') (i_hash_prev st') INull (hash_table st h) (hs h) \<longleftrightarrow>
        dchain INull (i_hash_next st) (i_hash_prev st) INull (hash_table st h) (hs h)"
      by (rule dchain_frame) (use f s(1) in blast)+
    moreover have "\<forall>p \<in> set (hs h). hash_key st' p = h" using f s(1,2) by (metis subsetD)
    ultimately show ?thesis using s(3) t by simp
  qed
  then show ?thesis using c f unfolding chain_part_def by simp
qed

lemma zero_at_simps:
  "r \<noteq> p \<Longrightarrow> same_inode st (zero_at p st') r = same_inode st st' r"
  "i_hash_next (zero_at p st') r = (if r = p then INull else i_hash_next st' r)"
  "i_hash_prev (zero_at p st') r = (if r = p then INull else i_hash_prev st' r)"
  "hash_table (zero_at p st') = hash_table st'" "nr_inodes (zero_at p st') = nr_inodes st'"
  "free_pages (zero_at p st') = free_pages st'" "inodes_per_page (zero_at p st') = inodes_per_page st'"
  "s_dev (zero_at p st') = s_dev st'"
  by (simp_all add: zero_at_def same_inode_def)

lemma zero_page:
  assumes "ring_part st xs" and "chain_part st xs hs" and "set ps \<inter> set xs = {}"
  shows "ring_part (fold zero_at ps st) xs \<and> chain_part (fold zero_at ps st) xs hs \<and>
    (\<forall>r. r \<notin> set ps \<longrightarrow> same_inode st (fold zero_at ps st) r) \<and>
    (\<forall>r \<in> set ps. i_hash_next (fold zero_at ps st) r = INull \<and> i_hash_prev (fold zero_at ps st) r = INull) \<and>
    hash_table (fold zero_at ps st) = hash_table st \<and> nr_inodes (fold zero_at ps st) = nr_inodes st \<and>
    free_pages (fold zero_at ps st) = free_pages st \<and> inodes_per_page (fold zero_at ps st) = inodes_per_page st \<and>
    s_dev (fold zero_at ps st) = s_dev st"
  using assms
proof (induction ps rule: rev_induct)
  case (snoc p ps)
  let ?st = "fold zero_at ps st"
  have ih: "ring_part ?st xs" "chain_part ?st xs hs" "\<forall>r. r \<notin> set ps \<longrightarrow> same_inode st ?st r"
    "\<forall>r \<in> set ps. i_hash_next ?st r = INull \<and> i_hash_prev ?st r = INull"
    "hash_table ?st = hash_table st" "nr_inodes ?st = nr_inodes st" "free_pages ?st = free_pages st"
    "inodes_per_page ?st = inodes_per_page st" "s_dev ?st = s_dev st"
    using snoc by auto
  have px: "p \<notin> set xs" using snoc.prems(3) by auto
  have "chain_part (zero_at p ?st) xs hs"
    by (rule chain_part_frame [OF ih(2)]) (use px in \<open>auto simp: zero_at_def hash_key_def\<close>)
  moreover have "ring_part (zero_at p ?st) xs" by (rule ring_part_zero [OF ih(1) px])
  moreover have "fold zero_at (ps @ [p]) st = zero_at p ?st" by simp
  moreover have "\<forall>r. r \<notin> set (ps @ [p]) \<longrightarrow> same_inode st (zero_at p ?st) r" using ih(3) by (simp add: zero_at_simps(1))
  moreover have "\<forall>r \<in> set (ps @ [p]). i_hash_next (zero_at p ?st) r = INull \<and> i_hash_prev (zero_at p ?st) r = INull"
    using ih(4) by (simp add: zero_at_simps(2,3))
  ultimately show ?case using ih(5-9) by (simp only: zero_at_simps(4-8))
qed (simp add: same_inode_def)

lemma insert_new_effect:
  "ring_part st xs \<Longrightarrow> distinct ps \<Longrightarrow> set ps \<inter> set xs = {} \<Longrightarrow> INull \<notin> set ps \<Longrightarrow>
     \<exists>n q f. insert_new ps st = Some (st\<lparr>i_next := n, i_prev := q, first_inode := f\<rparr>) \<and>
       ring_part (st\<lparr>i_next := n, i_prev := q, first_inode := f\<rparr>) (rev ps @ xs)"
proof (induction ps arbitrary: st xs)
  case Nil
  have "st\<lparr>i_next := i_next st, i_prev := i_prev st, first_inode := first_inode st\<rparr> = st" by (cases st) simp
  then show ?case
    using Nil(1) by (intro exI [of _ "i_next st"] exI [of _ "i_prev st"] exI [of _ "first_inode st"]) (simp only: insert_new.simps rev.simps append_Nil simp_thms)
next
  case (Cons p ps)
  obtain n q where i: "insert_inode_free p st = Some (st\<lparr>i_next := n, i_prev := q, first_inode := p\<rparr>)" and r: "ring n q (p # xs)"
    using insert_free_effect [OF Cons.prems(1), of p] Cons.prems(3,4) by auto
  have nn: "INull \<notin> set (p # xs)" using Cons.prems(1,4) by (simp add: ring_part_def)
  then have rp: "ring_part (st\<lparr>i_next := n, i_prev := q, first_inode := p\<rparr>) (p # xs)" using r by (simp add: ring_part_def)
  have "n p \<in> set (p # xs)" "q p \<in> set (p # xs)" using ring_closed [OF r, of p] by simp_all
  then have "n p \<noteq> INull" "q p \<noteq> INull" "p \<noteq> INull" using nn by auto
  moreover have "\<exists>n' q' f. insert_new ps (st\<lparr>i_next := n, i_prev := q, first_inode := p\<rparr>) =
      Some ((st\<lparr>i_next := n, i_prev := q, first_inode := p\<rparr>)\<lparr>i_next := n', i_prev := q', first_inode := f\<rparr>) \<and>
      ring_part ((st\<lparr>i_next := n, i_prev := q, first_inode := p\<rparr>)\<lparr>i_next := n', i_prev := q', first_inode := f\<rparr>) (rev ps @ p # xs)"
    by (rule Cons.IH [OF rp]) (use Cons.prems in auto)
  ultimately show ?case using i by simp
qed

lemma grow_inodes_grown:
  assumes inv: "table_inv st xs hs" and pages: "pages_ok st xs" and g: "grow_inodes st = Some st'"
  shows "\<exists>xs'. grown st xs hs st' xs'"
proof (cases "free_pages st")
  case Nil
  then show ?thesis using g grown_refl [OF inv pages] by (auto simp: grow_inodes_def)
next
  case (Cons base bs)
  note t = table_invD [OF inv]
  let ?st1 = "st\<lparr>free_pages := bs\<rparr>"
  define ps where "ps = page_inodes base st"
  define st2 where "st2 = fold zero_at ps ?st1"
  have ps: "set ps \<inter> set xs = {}" "distinct ps" "INull \<notin> set ps" "length ps = inodes_per_page st"
    using pages Cons by (auto simp: pages_ok_def ps_def page_inodes_def distinct_map)
  have "ring_part ?st1 xs" "chain_part ?st1 xs hs"
    using t(1) by (simp add: ring_part_def) (rule chain_part_cong [OF t(2)]; simp add: hash_key_def)
  from zero_page [OF this ps(1)] have z: "ring_part st2 xs" "chain_part st2 xs hs" "\<forall>r. r \<notin> set ps \<longrightarrow> same_inode st st2 r"
    "\<forall>r \<in> set ps. i_hash_next st2 r = INull \<and> i_hash_prev st2 r = INull" "hash_table st2 = hash_table st"
    "nr_inodes st2 = nr_inodes st" "free_pages st2 = bs" "inodes_per_page st2 = inodes_per_page st" "s_dev st2 = s_dev st"
    by (simp_all add: st2_def same_inode_def)
  let ?k = "int (inodes_per_page st)"
  define st3 where "st3 = st2\<lparr>nr_inodes := nr_inodes st2 + ?k, nr_free_inodes := nr_free_inodes st2 + ?k\<rparr>"
  have r3: "ring_part st3 xs" using z(1) by (simp add: ring_part_def st3_def)
  have f3: "first_inode st3 \<in> set xs" using r3 hd_in_set [OF t(4)] by (simp add: ring_part_def)
  then have f3n: "first_inode st3 \<noteq> INull" using t(6) by auto
  then have f2n: "first_inode st2 \<noteq> INull" by (simp add: st3_def)
  have cl: "i_next st3 (first_inode st3) \<noteq> INull" "i_prev st3 (first_inode st3) \<noteq> INull"
    using ring_closed [of "i_next st3" "i_prev st3" xs "first_inode st3"] r3 f3 t(6) by (auto simp: ring_part_def)
  have "page_inodes base ?st1 = ps" by (simp add: ps_def page_inodes_def)
  then have "grow_inodes st = insert_new ps st3"
    using Cons f3n f2n cl z(8)
    by (simp add: grow_inodes_def Let_def first_of_page_def st2_def [symmetric] st3_def [symmetric])
  moreover obtain n q f where i: "insert_new ps st3 = Some (st3\<lparr>i_next := n, i_prev := q, first_inode := f\<rparr>)"
      and rp: "ring_part (st3\<lparr>i_next := n, i_prev := q, first_inode := f\<rparr>) (rev ps @ xs)"
    using insert_new_effect [OF r3 ps(2,1,3)] by blast
  ultimately have st': "st' = st3\<lparr>i_next := n, i_prev := q, first_inode := f\<rparr>" using g by simp
  have "chain_part st' (rev ps @ xs) hs"
  proof -
    have "chain_part st' xs hs" by (rule chain_part_cong [OF z(2)]) (simp_all add: st' st3_def hash_key_def)
    moreover have "i_hash_next st' r = INull \<and> i_hash_prev st' r = INull" if "r \<in> set ps" for r
      using z(4) that by (simp add: st' st3_def)
    ultimately show ?thesis unfolding chain_part_def by auto
  qed
  then have ti: "table_inv st' (rev ps @ xs) hs"
    using rp t(3) z(6) ps(4) unfolding table_inv_def st' [symmetric] by (simp add: st' st3_def)
  have pi: "page_inodes b st' = page_inodes b st" for b using z(8) by (simp add: page_inodes_def st' st3_def)
  have "free_pages st' = bs" using z(7) by (simp add: st' st3_def)
  then have "pages_ok st' (rev ps @ xs)"
    using pages Cons z(8) unfolding pages_ok_def pi by (auto simp: st' st3_def ps_def)
  moreover have "kept st st' r" if "r \<in> set xs" for r
  proof -
    have "same_inode st st2 r" using z(3) ps(1) that by blast
    then show ?thesis by (simp add: kept_def same_inode_def st' st3_def)
  qed
  moreover have "s_dev st' = s_dev st" "hash_table st' = hash_table st" using z(5,9) by (simp_all add: st' st3_def)
  ultimately show ?thesis using ti unfolding grown_def by (intro exI [of _ "rev ps @ xs"]) auto
qed

section \<open>get_empty_inode\<close>

lemma scan_free_result:
  assumes "ring_part st xs"
  shows "x \<in> set xs \<Longrightarrow> scan_free n x best st = Some b \<Longrightarrow> b = best \<or> b \<in> set xs \<and> i_count (v_inode st b) = 0"
proof (induction n arbitrary: x best)
  case (Suc n)
  have nx: "i_next st x \<in> set xs" using ring_closed [of "i_next st" "i_prev st" xs x] assms Suc.prems by (simp add: ring_part_def)
  have xn: "x \<noteq> INull" using Suc.prems(2) by (cases "x = INull") simp_all
  show ?case
  proof (cases "i_count (v_inode st x) = 0")
    case True
    show ?thesis
    proof (cases "\<not> i_dirt (v_inode st x) \<and> \<not> i_lock st x")
      case True
      then have "b = x" using Suc.prems(2) xn \<open>i_count (v_inode st x) = 0\<close> by (simp add: Let_def)
      then show ?thesis using \<open>i_count (v_inode st x) = 0\<close> Suc.prems(1) by simp
    next
      case False
      then have "scan_free n (i_next st x) (if best = INull then x else best) st = Some b"
        using Suc.prems(2) xn True by (simp only: scan_free.simps Let_def if_True if_False simp_thms)
      from Suc.IH [OF nx this] show ?thesis using True Suc.prems(1) by (cases "best = INull") auto
    qed
  next
    case False
    then have "scan_free n (i_next st x) best st = Some b" using Suc.prems(2) xn by (simp only: scan_free.simps if_False)
    from Suc.IH [OF nx this] show ?thesis .
  qed
qed simp

lemma grown_wait:
  assumes inv: "table_inv st xs hs" "pages_ok st xs" and p: "i_count (v_inode st p) = 0"
  shows "grown st xs hs (wait_on_inode p st) xs"
proof -
  have "wait_on_inode p st = st\<lparr>v_inode := (v_inode st)(p := v_inode st p), i_lock := (i_lock st)(p := False), v_fs := v_fs st\<rparr>"
    by (cases st) (simp add: wait_on_inode_def)
  then show ?thesis using grown_change [OF inv p refl refl, where l = False and fs = "v_fs st"] by simp
qed

definition empty_found :: "(nat \<Rightarrow> iptr list) \<Rightarrow> vfs \<Rightarrow> iptr \<times> vfs \<Rightarrow> bool" where
  "empty_found hs st r \<longleftrightarrow> (\<forall>xs. table_inv st xs hs \<longrightarrow> pages_ok st xs \<longrightarrow>
     (\<exists>xs'. grown st xs hs (snd r) xs' \<and> fst r \<in> set xs' \<and> i_count (v_inode (snd r) (fst r)) = 0))"

lemma empty_found_later:
  assumes "grown st xs hs st1 xs1" and "empty_found hs st1 r"
  shows "\<exists>xs'. grown st xs hs (snd r) xs' \<and> fst r \<in> set xs' \<and> i_count (v_inode (snd r) (fst r)) = 0"
proof -
  have "table_inv st1 xs1 hs" "pages_ok st1 xs1" using assms(1) by (simp_all add: grown_def)
  then show ?thesis using assms grown_trans unfolding empty_found_def by blast
qed

lemma five_ways:
  assumes "(if a then x else if b then None else if c then y else if d then z else if e then u else v) = Some r"
    and "x = Some r \<Longrightarrow> P" and "\<not> b \<Longrightarrow> y = Some r \<Longrightarrow> P" and "\<not> b \<Longrightarrow> z = Some r \<Longrightarrow> P"
    and "u = Some r \<Longrightarrow> P" and "\<not> b \<Longrightarrow> v = Some r \<Longrightarrow> P"
  shows P
  using assms by (cases a; cases b; cases c; cases d; cases e) simp_all

lemma empty_repeat_found:
  assumes "empty_repeat st = Some r"
  shows "empty_found hs st r"
proof (rule empty_repeat.raw_induct [OF _ assms])
  fix er st r
  assume IH: "\<And>st r. er st = Some r \<Longrightarrow> empty_found hs st r"
    and body: "Option.bind (scan_free (nat (nr_inodes st)) (first_inode st) INull st) (\<lambda>best.
       if (best = INull \<or> i_dirt (v_inode st best) \<or> i_lock st best) \<and> nr_inodes st < NR_INODE
       then Option.bind (grow_inodes st) er
       else if best = INull then None
       else if i_lock st best then er (wait_on_inode best st)
       else if i_dirt (v_inode st best) then Option.bind (write_inode best st) er
       else if i_count (v_inode st best) \<noteq> 0 then er st
       else Some (best, st)) = Some r"
  show "empty_found hs st r"
    unfolding empty_found_def
  proof (intro allI impI)
    fix xs assume inv: "table_inv st xs hs" "pages_ok st xs"
    note t = table_invD [OF inv(1)]
    obtain best where sc: "scan_free (nat (nr_inodes st)) (first_inode st) INull st = Some best"
      using body by (cases "scan_free (nat (nr_inodes st)) (first_inode st) INull st") simp_all
    have "first_inode st \<in> set xs" using t(4,7) by simp
    then have b: "best = INull \<or> best \<in> set xs \<and> i_count (v_inode st best) = 0"
      using scan_free_result [OF t(1)] sc by blast
    consider (grow) "Option.bind (grow_inodes st) er = Some r"
      | (wait) "best \<noteq> INull" "er (wait_on_inode best st) = Some r"
      | (written) "best \<noteq> INull" "Option.bind (write_inode best st) er = Some r"
      | (again) "er st = Some r" | (found) "best \<noteq> INull" "Some (best, st) = Some r"
      using body unfolding sc bind.bind_lunit by (rule five_ways)
    then show "\<exists>xs'. grown st xs hs (snd r) xs' \<and> fst r \<in> set xs' \<and> i_count (v_inode (snd r) (fst r)) = 0"
    proof cases
      case grow
      then obtain st1 where g: "grow_inodes st = Some st1" "er st1 = Some r" by (cases "grow_inodes st") simp_all
      then obtain xs1 where "grown st xs hs st1 xs1" using grow_inodes_grown [OF inv] by blast
      then show ?thesis using empty_found_later IH [OF g(2)] by blast
    next
      case wait
      then have "grown st xs hs (wait_on_inode best st) xs" using grown_wait [OF inv] b by blast
      then show ?thesis using empty_found_later IH [OF wait(2)] by blast
    next
      case written
      then obtain st1 where g: "write_inode best st = Some st1" "er st1 = Some r" by (cases "write_inode best st") simp_all
      then have "grown st xs hs st1 xs" using written(1) write_inode_grown [OF inv] b by blast
      then show ?thesis using empty_found_later IH [OF g(2)] by blast
    next
      case again
      then show ?thesis using empty_found_later [OF grown_refl [OF inv]] IH by blast
    next
      case found
      then show ?thesis using grown_refl [OF inv] b by (intro exI [of _ xs]) auto
    qed
  qed
qed

lemma get_empty_result:
  assumes inv: "table_inv st xs hs" "pages_ok st xs" and g: "get_empty_inode st = Some (p, st')"
  shows "\<exists>xs'. p \<in> set xs' \<and> table_inv st' xs' (drop_from p hs) \<and> pages_ok st' xs' \<and> set xs \<subseteq> set xs' \<and> s_dev st' = s_dev st \<and>
    (p \<in> set xs \<longrightarrow> i_count (v_inode st p) = 0) \<and> (\<forall>r \<in> set xs. r \<noteq> p \<longrightarrow> kept st st' r) \<and>
    v_inode st' p = zero_inode\<lparr>i_count := 1, i_nlink := 1, i_version := event st'\<rparr> \<and> i_dev st' p = 0 \<and> \<not> i_sb st' p \<and> \<not> i_lock st' p"
proof -
  obtain st1 where s1: "(if nr_inodes st < NR_INODE \<and> nr_free_inodes st < nr_inodes st div 4 then grow_inodes st else Some st) = Some st1"
    using g unfolding get_empty_inode_def
    by (cases "if nr_inodes st < NR_INODE \<and> nr_free_inodes st < nr_inodes st div 4 then grow_inodes st else Some st") simp_all
  have "\<exists>xs1. grown st xs hs st1 xs1"
  proof (cases "nr_inodes st < NR_INODE \<and> nr_free_inodes st < nr_inodes st div 4")
    case True
    then show ?thesis using s1 grow_inodes_grown [OF inv] by simp
  next
    case False
    then have "st1 = st" using s1 by (simp only: if_False option.inject)
    then show ?thesis using grown_refl [OF inv] by blast
  qed
  then obtain xs1 where x1: "grown st xs hs st1 xs1" ..
  obtain b st2 where s2: "empty_repeat st1 = Some (b, st2)"
    using g unfolding get_empty_inode_def s1 bind.bind_lunit by (cases "empty_repeat st1") auto
  obtain xs2 where x2: "grown st xs hs st2 xs2" "b \<in> set xs2" "i_count (v_inode st2 b) = 0"
    using empty_found_later [OF x1 empty_repeat_found [OF s2]] by auto
  have i2: "table_inv st2 xs2 hs" and p2: "pages_ok st2 xs2" and sub: "set xs \<subseteq> set xs2" and k: "\<forall>r \<in> set xs. kept st st2 r"
    and d2: "s_dev st2 = s_dev st" using x2(1) by (simp_all add: grown_def)
  obtain st3 where c: "clear_inode b st2 = Some st3" and i3: "table_inv st3 (b # removeAll b xs2) (drop_from b hs)"
    and cl: "is_cleared st3 b" and o: "\<forall>r. r \<noteq> b \<longrightarrow> same_inode st2 st3 r" and pg: "free_pages st3 = free_pages st2"
    "inodes_per_page st3 = inodes_per_page st2" and d3: "s_dev st3 = s_dev st2"
    using clear_inode_table [OF i2 x2(2)] by blast
  define st4 where "st4 = (set_inode b ((v_inode st3 b)\<lparr>i_count := 1, i_nlink := 1, i_version := event st3 + 1\<rparr>) st3)
    \<lparr>event := event (set_inode b ((v_inode st3 b)\<lparr>i_count := 1, i_nlink := 1, i_version := event st3 + 1\<rparr>) st3) + 1,
      nr_free_inodes := nr_free_inodes (set_inode b ((v_inode st3 b)\<lparr>i_count := 1, i_nlink := 1, i_version := event st3 + 1\<rparr>) st3) - 1\<rparr>"
  have r: "p = b" "st' = (if nr_free_inodes st4 < 0 then st4\<lparr>nr_free_inodes := 0\<rparr> else st4)"
    using g unfolding get_empty_inode_def s1 bind.bind_lunit s2 prod.case c Let_def st4_def [symmetric] by simp_all
  have f: "v_inode st' = (v_inode st3)(b := (v_inode st3 b)\<lparr>i_count := 1, i_nlink := 1, i_version := event st3 + 1\<rparr>)"
    "i_dev st' = i_dev st3" "i_sb st' = i_sb st3" "i_lock st' = i_lock st3" "event st' = event st3 + 1" "s_dev st' = s_dev st3"
    "i_next st' = i_next st3" "i_prev st' = i_prev st3" "first_inode st' = first_inode st3" "i_hash_next st' = i_hash_next st3"
    "i_hash_prev st' = i_hash_prev st3" "hash_table st' = hash_table st3" "nr_inodes st' = nr_inodes st3"
    "free_pages st' = free_pages st3" "inodes_per_page st' = inodes_per_page st3"
    unfolding r(2) by (simp_all add: st4_def set_inode_def)
  let ?xs = "b # removeAll b xs2"
  have "table_inv st' ?xs (drop_from b hs)"
    by (rule table_inv_cong [OF i3 f(7-13)]) (simp add: hash_key_def f)
  moreover have "pages_ok st' ?xs"
    using p2 x2(2) pg f(14,15) by (auto simp: pages_ok_def page_inodes_def)
  moreover have "set xs \<subseteq> set ?xs" using sub by auto
  moreover have "kept st st' r" if "r \<in> set xs" "r \<noteq> b" for r
  proof -
    have "kept st st2 r" "same_inode st2 st3 r" using that k o by simp_all
    then show ?thesis using f that(2) by (simp add: kept_def same_inode_def)
  qed
  moreover have "i_count (v_inode st b) = 0" if "b \<in> set xs" using that k x2(3) by (simp add: kept_def)
  moreover have "v_inode st' b = zero_inode\<lparr>i_count := 1, i_nlink := 1, i_version := event st'\<rparr>" "i_dev st' b = 0" "\<not> i_sb st' b" "\<not> i_lock st' b"
    using cl f by (simp_all add: is_cleared_def)
  ultimately show ?thesis using f(6) d2 d3 r(1) by (intro exI [of _ ?xs]) simp
qed

text \<open>\<open>get_empty_inode\<close> never takes an inode that is in use: the inode it returns was unused or is new,
  is cleared and has left its hash chain, every inode in use is as before, and the table stays well formed.\<close>

theorem get_empty_unused:
  assumes "table_inv st xs hs" and "pages_ok st xs" and "get_empty_inode st = Some (p, st')"
  shows "\<exists>xs'. p \<in> set xs' \<and> table_inv st' xs' (drop_from p hs) \<and> set xs \<subseteq> set xs' \<and> (p \<in> set xs \<longrightarrow> i_count (v_inode st p) = 0) \<and>
    (\<forall>r \<in> set xs. i_count (v_inode st r) \<noteq> 0 \<longrightarrow> same_inode st st' r) \<and>
    v_inode st' p = zero_inode\<lparr>i_count := 1, i_nlink := 1, i_version := event st'\<rparr> \<and> i_dev st' p = 0"
proof -
  obtain xs' where e: "p \<in> set xs'" "table_inv st' xs' (drop_from p hs)" "set xs \<subseteq> set xs'"
    "p \<in> set xs \<longrightarrow> i_count (v_inode st p) = 0" "\<forall>r \<in> set xs. r \<noteq> p \<longrightarrow> kept st st' r"
    "v_inode st' p = zero_inode\<lparr>i_count := 1, i_nlink := 1, i_version := event st'\<rparr>" "i_dev st' p = 0"
    using get_empty_result [OF assms] by blast
  have "same_inode st st' r" if "r \<in> set xs" "i_count (v_inode st r) \<noteq> 0" for r
    using that e(4,5) by (auto simp: kept_def same_inode_def)
  then show ?thesis using e by blast
qed

section \<open>iget\<close>

definition match :: "vfs \<Rightarrow> u32 \<Rightarrow> iptr \<Rightarrow> bool" where
  "match st nr p \<longleftrightarrow> i_dev st p = s_dev st \<and> i_ino (v_inode st p) = nr"

lemma hash_find_chain:
  "dchain INull (i_hash_next st) (i_hash_prev st) b f ys \<Longrightarrow>
     hash_find (s_dev st) nr f st = Some (case List.find (match st nr) ys of None \<Rightarrow> INull | Some p \<Rightarrow> p)"
proof (induction ys arbitrary: b f)
  case Nil
  then show ?case by (simp add: hash_find.simps)
next
  case (Cons y ys)
  then have "f = y" "y \<noteq> INull" "dchain INull (i_hash_next st) (i_hash_prev st) y (i_hash_next st y) ys" by simp_all
  then show ?case using Cons.IH by (simp add: hash_find.simps [of _ _ y] match_def)
qed

lemma hash_find_table:
  assumes "table_inv st xs hs"
  shows "hash_find (s_dev st) nr (hash_table st (hashfn (s_dev st) nr)) st =
    Some (case List.find (match st nr) (hs (hashfn (s_dev st) nr)) of None \<Rightarrow> INull | Some p \<Rightarrow> p)"
proof -
  have "hashfn (s_dev st) nr < NR_IHASH" by (simp add: hashfn_def NR_IHASH_def)
  then have "dchain INull (i_hash_next st) (i_hash_prev st) INull (hash_table st (hashfn (s_dev st) nr)) (hs (hashfn (s_dev st) nr))"
    using assms by (simp add: table_inv_def chain_part_def)
  then show ?thesis by (rule hash_find_chain)
qed

lemma find_matched:
  assumes inv: "table_inv st xs hs" and f: "List.find (match st nr) (hs (hashfn (s_dev st) nr)) = Some p"
  shows "p \<in> set xs" and "p \<noteq> INull" and "match st nr p"
proof -
  have "hashfn (s_dev st) nr < NR_IHASH" by (simp add: hashfn_def NR_IHASH_def)
  moreover have "p \<in> set (hs (hashfn (s_dev st) nr))" "match st nr p"
    using f by (auto simp: find_Some_iff in_set_conv_nth)
  ultimately show "p \<in> set xs" "match st nr p" using inv by (auto simp: table_inv_def chain_part_def)
  then show "p \<noteq> INull" using table_invD(6) [OF inv] by auto
qed

text \<open>\<open>iget\<close> of an inode that is on its chain:\<close>

lemma iget_found:
  assumes "table_inv st xs hs" and "List.find (match st nr) (hs (hashfn (s_dev st) nr)) = Some p"
  shows "iget env nr st = Some (p, found_it p st)"
  using hash_find_table [OF assms(1), of nr] find_matched(2) [OF assms] assms(2) by (simp add: iget_def Let_def)

lemma put_last_effect:
  assumes r: "ring_part st xs" and p: "p \<in> set xs" and e: "put_last_free p st = Some st'"
  shows "\<exists>n q f xs'. st' = st\<lparr>i_next := n, i_prev := q, first_inode := f\<rparr> \<and> ring_part st' xs' \<and> set xs' = set xs \<and> length xs' = length xs"
proof (cases "xs = [p]")
  case True
  then have "i_next st p = p" "i_prev st p = p" "first_inode st = p" "p \<noteq> INull"
    using r by (auto simp: ring_part_def ring_def)
  then have "put_last_free p st = None" by (simp add: put_last_free_def remove_inode_free_def Let_def)
  then show ?thesis using e by simp
next
  case False
  obtain n q f where rm: "remove_inode_free p st = st\<lparr>i_next := n, i_prev := q, first_inode := f\<rparr>"
      and rp: "ring_part (st\<lparr>i_next := n, i_prev := q, first_inode := f\<rparr>) (removeAll p xs)"
    using remove_free_effect [OF r p False] by blast
  have R: "ring n q (removeAll p xs)" and f: "f = hd (removeAll p xs)" and nn: "INull \<notin> set (removeAll p xs)"
    using rp by (simp_all add: ring_part_def)
  obtain h ys where hy: "removeAll p xs = h # ys" using R by (auto simp: ring_def neq_Nil_conv)
  have pn: "p \<noteq> INull" using r p by (auto simp: ring_part_def)
  have ph: "p \<notin> set (h # ys)" unfolding hy [symmetric] by simp
  then have phh: "p \<noteq> h" by simp
  have "q h \<in> set (h # ys)" using ring_closed [OF R, of h] hy by simp
  then have qh: "q h \<noteq> INull" "q h \<noteq> p" using nn ph hy by auto
  have hn: "h \<noteq> INull" using nn hy by auto
  let ?n = "n(p := h, q h := p)" and ?q = "q(p := q h, h := p)"
  have "ring ?n ?q (h # ys @ [p])" by (rule ring_link_last) (use R hy ph in simp_all)
  moreover have "put_last_free p st = Some (st\<lparr>i_next := ?n, i_prev := ?q, first_inode := h\<rparr>)"
    using f hy qh hn phh by (simp add: put_last_free_def rm Let_def fun_upd_twist)
  moreover have "set (h # ys @ [p]) = set xs"
  proof -
    have "set (removeAll p xs) = set xs - {p}" by simp
    then show ?thesis using p hy by auto
  qed
  moreover have "length (h # ys @ [p]) = length xs"
  proof -
    have "distinct xs" using r by (simp add: ring_part_def ring_def)
    then have "length (removeAll p xs) = length xs - 1" using p by (simp add: distinct_remove1_removeAll [symmetric] length_remove1)
    then show ?thesis using hy p by (cases xs) auto
  qed
  moreover have "INull \<notin> set (h # ys @ [p])" using nn hy pn by auto
  ultimately have "st' = st\<lparr>i_next := ?n, i_prev := ?q, first_inode := h\<rparr> \<and> ring_part st' (h # ys @ [p]) \<and>
      set (h # ys @ [p]) = set xs \<and> length (h # ys @ [p]) = length xs"
    using e by (simp add: ring_part_def)
  then show ?thesis by blast
qed

lemma insert_hash_effect:
  assumes c: "chain_part st xs hs" and p: "p \<in> set xs" "p \<noteq> INull" and out: "\<And>h. h < NR_IHASH \<Longrightarrow> p \<notin> set (hs h)"
  shows "\<exists>t n q. insert_inode_hash p st = st\<lparr>hash_table := t, i_hash_next := n, i_hash_prev := q\<rparr> \<and>
    chain_part (insert_inode_hash p st) xs (hs(hash_key st p := p # hs (hash_key st p)))"
proof -
  define k where "k = hash_key st p"
  have kb: "k < NR_IHASH" by (simp add: k_def hash_key_bound)
  have ch: "dchain INull (i_hash_next st) (i_hash_prev st) INull (hash_table st h) (hs h)" "distinct (hs h)" "set (hs h) \<subseteq> set xs"
    "\<And>r. r \<in> set (hs h) \<Longrightarrow> hash_key st r = h" if "h < NR_IHASH" for h using c that by (auto simp: chain_part_def)
  let ?f = "hash_table st k"
  define n where "n = (i_hash_next st)(p := ?f)"
  define q where "q = (if ?f \<noteq> INull then ((i_hash_prev st)(p := INull))(?f := p) else (i_hash_prev st)(p := INull))"
  define t where "t = (hash_table st)(k := p)"
  have fin: "?f \<in> insert INull (set (hs k))" using dchain_first [OF ch(1) [OF kb]] by auto
  have eq: "insert_inode_hash p st = st\<lparr>hash_table := t, i_hash_next := n, i_hash_prev := q\<rparr>"
    by (simp add: insert_inode_hash_def Let_def k_def [unfolded hash_key_def, symmetric] n_def q_def t_def)
  let ?st = "st\<lparr>hash_table := t, i_hash_next := n, i_hash_prev := q\<rparr>"
  have key: "hash_key ?st r = hash_key st r" for r by (simp add: hash_key_def)
  have new: "dchain INull n q INull (t k) (p # hs k)"
    using dchain_link [OF ch(1,2) [OF kb] out [OF kb] p(2)] by (simp add: t_def n_def q_def)
  have old: "dchain INull n q INull (t h) (hs h)" if h: "h < NR_IHASH" "h \<noteq> k" for h
  proof -
    have "set (hs h) \<inter> set (hs k) = {}" using ch(4) h kb by blast
    then have fo: "?f \<notin> set (hs h)" using fin dchain_not_null [OF ch(1) [OF h(1)]] by auto
    have "dchain INull n q INull (hash_table st h) (hs h) \<longleftrightarrow> dchain INull (i_hash_next st) (i_hash_prev st) INull (hash_table st h) (hs h)"
      by (rule dchain_frame) (use out [OF h(1)] fo in \<open>auto simp: n_def q_def\<close>)
    then show ?thesis using ch(1) [OF h(1)] h(2) by (simp add: t_def)
  qed
  have "chain_part ?st xs (hs(k := p # hs k))"
    unfolding chain_part_def
  proof (intro conjI allI impI ballI)
    fix h assume h: "h < NR_IHASH"
    show "dchain INull (i_hash_next ?st) (i_hash_prev ?st) INull (hash_table ?st h) ((hs(k := p # hs k)) h)"
      using new old [OF h] by (cases "h = k") simp_all
    show "distinct ((hs(k := p # hs k)) h)" using ch(2) [OF h] out [OF h] by (cases "h = k") simp_all
    show "set ((hs(k := p # hs k)) h) \<subseteq> set xs" using ch(3) [OF h] p(1) by (cases "h = k") simp_all
    show "hash_key ?st r = h" if "r \<in> set ((hs(k := p # hs k)) h)" for r
      using that ch(4) [OF h] by (cases "h = k") (auto simp: key k_def)
  next
    fix r assume r: "r \<in> set xs" "\<forall>h < NR_IHASH. r \<notin> set ((hs(k := p # hs k)) h)"
    have rk: "r \<noteq> p" "r \<notin> set (hs k)" using r(2) kb by auto
    have "\<forall>h < NR_IHASH. r \<notin> set (hs h)" using r(2) rk(2) by (metis fun_upd_other)
    then have "i_hash_next st r = INull" "i_hash_prev st r = INull" using c r(1) by (simp_all add: chain_part_def)
    moreover have "?f = INull \<or> r \<noteq> ?f" using fin rk(2) by auto
    ultimately show "i_hash_next ?st r = INull" "i_hash_prev ?st r = INull" using rk(1) by (auto simp: n_def q_def)
  qed
  then show ?thesis unfolding k_def [symmetric] eq by blast
qed

text \<open>Operations on the object \<open>p\<close> that leave the table and all other objects alone.\<close>

definition only_at :: "iptr \<Rightarrow> vfs \<Rightarrow> vfs \<Rightarrow> bool" where
  "only_at p st st' \<longleftrightarrow> i_next st' = i_next st \<and> i_prev st' = i_prev st \<and> first_inode st' = first_inode st \<and>
     i_hash_next st' = i_hash_next st \<and> i_hash_prev st' = i_hash_prev st \<and> hash_table st' = hash_table st \<and>
     nr_inodes st' = nr_inodes st \<and> s_dev st' = s_dev st \<and> i_dev st' = i_dev st \<and>
     i_ino (v_inode st' p) = i_ino (v_inode st p) \<and> (\<forall>r. r \<noteq> p \<longrightarrow> same_inode st st' r)"

lemma only_at_table:
  assumes o: "only_at p st st'" and inv: "table_inv st xs hs"
  shows "table_inv st' xs hs" and "match st' nr = match st nr"
proof -
  have ino: "i_ino (v_inode st' r) = i_ino (v_inode st r)" and dev: "i_dev st' r = i_dev st r" for r
    using o by (cases "r = p"; simp add: only_at_def same_inode_def)+
  show "table_inv st' xs hs"
    by (rule table_inv_cong [OF inv]) (use o ino dev in \<open>simp_all add: only_at_def hash_key_def\<close>)
  have "s_dev st' = s_dev st" using o by (simp add: only_at_def)
  then show "match st' nr = match st nr" using ino dev by (simp add: fun_eq_iff match_def)
qed

lemma found_it_only: "only_at p st (found_it p st)"
  by (simp add: only_at_def found_it_def Let_def set_inode_def wait_on_inode_def same_inode_def)

lemma read_inode_value:
  assumes "ext2_read_inode ev inode fs = Some ((i', ev'), fs')"
  shows "i_ino i' = i_ino inode"
proof -
  have s: "i_ino (select_ops i) = i_ino i" for i by (simp add: select_ops_def Let_def)
  have d: "i_ino (decode_inode off bs i) = i_ino i" "i_ino (decode_blocks off bs i) = i_ino i" for off bs i
    by (simp_all add: decode_inode_def decode_blocks_def)
  show ?thesis
    using assms unfolding ext2_read_inode_def Let_def
    by (auto simp: s d split: if_splits bind_splits option.splits prod.splits)
qed

lemma read_inode_only:
  assumes r: "read_inode p st = Some st'"
  shows "only_at p st st'"
proof (cases "i_ino (v_inode st p) = INODE_DASD")
  case True
  then show ?thesis using r by (auto simp: read_inode_def Let_def only_at_def set_inode_def same_inode_def)
next
  case False
  have l: "v_inode (lock_inode p st) = v_inode st" "v_fs (lock_inode p st) = v_fs st" "event (lock_inode p st) = event st"
    "i_sb (lock_inode p st) = i_sb st" by (simp_all add: lock_inode_def wait_on_inode_def)
  show ?thesis
  proof (cases "i_sb st p")
    case True
    then obtain i ev fs where e: "ext2_read_inode (event st) (v_inode st p) (v_fs st) = Some ((i, ev), fs)"
        and st': "st' = unlock_inode p (set_inode p i ((lock_inode p st)\<lparr>v_fs := fs, event := ev\<rparr>))"
      using r False by (auto simp: read_inode_def Let_def l split: bind_splits)
    show ?thesis
      using read_inode_value [OF e]
      by (simp add: st' only_at_def unlock_inode_def set_inode_def lock_inode_def wait_on_inode_def same_inode_def)
  next
    case False
    then have "st' = unlock_inode p (lock_inode p st)"
      using r \<open>i_ino (v_inode st p) \<noteq> INODE_DASD\<close> by (simp add: read_inode_def Let_def l)
    then show ?thesis by (simp add: only_at_def unlock_inode_def lock_inode_def wait_on_inode_def same_inode_def)
  qed
qed

lemma fill_empty_effect:
  assumes inv: "table_inv st xs hs" and p: "p \<in> set xs" and out: "\<And>h. h < NR_IHASH \<Longrightarrow> p \<notin> set (hs h)"
    and f: "fill_empty nr p st = Some st'"
  shows "\<exists>xs' hs'. table_inv st' xs' hs' \<and> set xs' = set xs \<and> match st' nr p \<and> (\<forall>r. r \<noteq> p \<longrightarrow> same_inode st st' r) \<and>
    List.find (match st' nr) (hs' (hashfn (s_dev st') nr)) = Some p"
proof -
  define st1 where "st1 = set_inode p ((v_inode st p)\<lparr>i_ino := nr, i_flags := ucast (s_flags (v_fs st))\<rparr>)
    (st\<lparr>i_sb := (i_sb st)(p := True), i_dev := (i_dev st)(p := s_dev st)\<rparr>)"
  have fe: "fill_empty nr p st = Option.bind (put_last_free p st1) (\<lambda>st. read_inode p (insert_inode_hash p st))"
    by (simp add: fill_empty_def Let_def st1_def set_inode_def)
  obtain st2 where s2: "put_last_free p st1 = Some st2" and s3: "read_inode p (insert_inode_hash p st2) = Some st'"
    using f unfolding fe by (cases "put_last_free p st1") simp_all
  note t = table_invD [OF inv]
  have pn: "p \<noteq> INull" using p t(6) by auto
  have k1: "hash_key st1 r = hash_key st r" if "r \<noteq> p" for r using that by (simp add: hash_key_def st1_def set_inode_def)
  have r1: "ring_part st1 xs" using t(1) by (simp add: ring_part_def st1_def set_inode_def)
  have c1: "chain_part st1 xs hs"
  proof (rule chain_part_cong [OF t(2)])
    show "hash_key st1 r = hash_key st r" if "h < NR_IHASH" "r \<in> set (hs h)" for h r
    proof -
      have "r \<noteq> p" using out [OF that(1)] that(2) by auto
      then show ?thesis by (rule k1)
    qed
  qed (simp_all add: st1_def set_inode_def)
  obtain n q g xs' where st2: "st2 = st1\<lparr>i_next := n, i_prev := q, first_inode := g\<rparr>"
      and r2: "ring_part st2 xs'" and x: "set xs' = set xs" "length xs' = length xs"
    using put_last_effect [OF r1 p s2] by blast
  have key2: "hash_key st2 r = hash_key st1 r" for r by (simp add: st2 hash_key_def)
  have "chain_part st2 xs hs" by (rule chain_part_cong [OF c1]) (simp_all add: st2 hash_key_def)
  then have c2: "chain_part st2 xs' hs" using chain_part_set [OF x(1)] by simp
  have kp: "hash_key st2 p = hashfn (s_dev st) nr" by (simp add: key2) (simp add: hash_key_def st1_def set_inode_def)
  define k where "k = hashfn (s_dev st) nr"
  define hs' where "hs' = hs(k := p # hs k)"
  obtain tb hn hq where ins: "insert_inode_hash p st2 = st2\<lparr>hash_table := tb, i_hash_next := hn, i_hash_prev := hq\<rparr>"
      and c3: "chain_part (insert_inode_hash p st2) xs' hs'"
    using insert_hash_effect [OF c2 _ pn out] p x(1) unfolding kp k_def [symmetric] hs'_def by auto
  let ?st3 = "insert_inode_hash p st2"
  have fld: "v_inode ?st3 = v_inode st1" "i_dev ?st3 = i_dev st1" "i_sb ?st3 = i_sb st1" "i_lock ?st3 = i_lock st1"
    "nr_inodes ?st3 = nr_inodes st1" "s_dev ?st3 = s_dev st1" unfolding ins by (simp_all add: st2)
  have "ring_part ?st3 xs'" using r2 unfolding ins by (simp add: ring_part_def)
  moreover have "nr_inodes ?st3 = int (length xs')" using t(3) x(2) fld(5) by (simp add: st1_def set_inode_def)
  ultimately have i3: "table_inv ?st3 xs' hs'" using c3 by (simp add: table_inv_def)
  note o = read_inode_only [OF s3]
  note e = only_at_table [OF o i3]
  have m3: "match ?st3 nr p" using fld by (simp add: match_def st1_def set_inode_def)
  have sd: "s_dev st' = s_dev st" using o fld(6) by (simp add: only_at_def st1_def set_inode_def)
  have "same_inode st st' r" if "r \<noteq> p" for r
  proof -
    have "same_inode ?st3 st' r" using o that by (simp add: only_at_def)
    then show ?thesis using fld that by (simp add: same_inode_def st1_def set_inode_def)
  qed
  moreover have "match st' nr p" using m3 e(2) by simp
  moreover have "List.find (match st' nr) (hs' (hashfn (s_dev st') nr)) = Some p"
    using m3 e(2) by (simp add: sd k_def [symmetric] hs'_def)
  ultimately show ?thesis using e(1) x(1) by blast
qed

lemma iget_missing:
  assumes inv: "table_inv st xs hs" and pages: "pages_ok st xs"
    and None: "List.find (match st nr) (hs (hashfn (s_dev st) nr)) = None" and g: "iget env nr st = Some (p, st')"
  shows "\<exists>st1 xs1. get_empty_inode st = Some (p, st1) \<and> fill_empty nr p st1 = Some st' \<and> p \<in> set xs1 \<and> table_inv st1 xs1 (drop_from p hs) \<and> set xs \<subseteq> set xs1 \<and>
    s_dev st1 = s_dev st \<and> (p \<in> set xs \<longrightarrow> i_count (v_inode st p) = 0) \<and> (\<forall>r \<in> set xs. r \<noteq> p \<longrightarrow> kept st st1 r)"
proof -
  have h1: "hash_find (s_dev st) nr (hash_table st (hashfn (s_dev st) nr)) st = Some INull"
    using hash_find_table [OF inv, of nr] None by simp
  obtain b st1 where e: "get_empty_inode st = Some (b, st1)"
    using g unfolding iget_def Let_def h1 bind.bind_lunit by (cases "get_empty_inode st") auto
  obtain xs1 where x1: "b \<in> set xs1" "table_inv st1 xs1 (drop_from b hs)" "set xs \<subseteq> set xs1" "s_dev st1 = s_dev st"
    "b \<in> set xs \<longrightarrow> i_count (v_inode st b) = 0" "\<forall>r \<in> set xs. r \<noteq> b \<longrightarrow> kept st st1 r"
    using get_empty_result [OF inv pages e] by blast
  have bn: "b \<noteq> INull" using x1(1) table_invD(6) [OF x1(2)] by auto
  define k where "k = hashfn (s_dev st) nr"
  have kb: "k < NR_IHASH" by (simp add: k_def hashfn_def NR_IHASH_def)
  have "\<not> match st1 nr r" if "r \<in> set (drop_from b hs k)" for r
  proof -
    have r: "r \<in> set (hs k)" "r \<noteq> b" using that by (simp_all add: drop_from_def)
    then have "r \<in> set xs" using inv kb unfolding table_inv_def chain_part_def by blast
    then have "kept st st1 r" using x1(6) r(2) by blast
    moreover have "\<not> match st nr r" using None r(1) unfolding k_def [symmetric] by (simp add: find_None_iff)
    ultimately show ?thesis using x1(4) by (simp add: match_def kept_def)
  qed
  then have "List.find (match st1 nr) (drop_from b hs k) = None" by (simp add: find_None_iff)
  then have h2: "hash_find (s_dev st1) nr (hash_table st1 k) st1 = Some INull"
    using hash_find_table [OF x1(2), of nr] x1(4) by (simp add: k_def)
  have "fill_empty nr b st1 = Some st' \<and> p = b"
    using g h2 unfolding iget_def Let_def h1 bind.bind_lunit e prod.case k_def
    by (cases "fill_empty nr b st1") (simp_all add: bn)
  then show ?thesis using x1 e by blast
qed

text \<open>C18. \<open>iget\<close> gives an inode with the device and the number asked for; no other inode in use changes, the
  table stays well formed, and asking again gives the same object with one more use: there is one object
  for an inode number.\<close>

theorem iget_unique:
  assumes inv: "table_inv st xs hs" and pages: "pages_ok st xs" and g: "iget env nr st = Some (p, st')"
  shows "\<exists>xs' hs'. table_inv st' xs' hs' \<and> set xs \<subseteq> set xs' \<and> p \<in> set xs' \<and> i_dev st' p = s_dev st' \<and> i_ino (v_inode st' p) = nr \<and>
    (\<forall>r \<in> set xs. r \<noteq> p \<longrightarrow> i_count (v_inode st r) \<noteq> 0 \<longrightarrow> same_inode st st' r) \<and>
    iget env nr st' = Some (p, found_it p st')"
proof (cases "List.find (match st nr) (hs (hashfn (s_dev st) nr))")
  case (Some q)
  then have r: "p = q" "st' = found_it p st" using iget_found [OF inv Some] g by auto
  note e = only_at_table [OF found_it_only inv, of p]
  have sd: "s_dev (found_it p st) = s_dev st" using found_it_only [of p st] by (simp add: only_at_def)
  have f: "List.find (match st' nr) (hs (hashfn (s_dev st') nr)) = Some p" using Some r e(2) sd by simp
  have i: "table_inv st' xs hs" using e(1) r by simp
  have "same_inode st st' s" if "s \<noteq> p" for s using found_it_only [of p st] that r(2) by (simp add: only_at_def)
  then show ?thesis
    using i find_matched [OF i f] iget_found [OF i f] unfolding match_def by (intro exI [of _ xs] exI [of _ hs]) blast
next
  case None
  obtain b st1 xs1 where pb: "p = b" and f: "fill_empty nr b st1 = Some st'"
    and x1: "b \<in> set xs1" "table_inv st1 xs1 (drop_from b hs)" "set xs \<subseteq> set xs1" "s_dev st1 = s_dev st"
    "b \<in> set xs \<longrightarrow> i_count (v_inode st b) = 0" "\<forall>r \<in> set xs. r \<noteq> b \<longrightarrow> kept st st1 r"
    using iget_missing [OF inv pages None g] by blast
  have out: "b \<notin> set (drop_from b hs h)" for h by (simp add: drop_from_def)
  obtain xs' hs' where i: "table_inv st' xs' hs'" and xs': "set xs' = set xs1" and m: "match st' nr b"
      and o: "\<forall>r. r \<noteq> b \<longrightarrow> same_inode st1 st' r" and fd: "List.find (match st' nr) (hs' (hashfn (s_dev st') nr)) = Some b"
    using fill_empty_effect [OF x1(2,1) out f] by blast
  have "same_inode st st' r" if "r \<in> set xs" "r \<noteq> b" "i_count (v_inode st r) \<noteq> 0" for r
  proof -
    have "kept st st1 r" "same_inode st1 st' r" using x1(6) o that by simp_all
    then show ?thesis using that(3) by (simp add: kept_def same_inode_def)
  qed
  then show ?thesis
    using i iget_found [OF i fd] m x1(1,3) xs' unfolding pb match_def by (intro exI [of _ xs'] exI [of _ hs']) blast
qed

text \<open>C19. \<open>iget\<close> of an inode in use followed by \<open>iput\<close> gives back the state from before, but for a lock that
  was waited for.\<close>

theorem iget_iput:
  assumes inv: "table_inv st xs hs" and pages: "pages_ok st xs" and g: "iget env nr st = Some (p, st')"
    and p: "p \<in> set xs" and c: "i_count (v_inode st p) \<noteq> 0" "i_count (v_inode st p) \<noteq> - 1"
  shows "iput env p st' = Some (wait_on_inode p st)"
proof -
  have st': "st' = found_it p st"
  proof (cases "List.find (match st nr) (hs (hashfn (s_dev st) nr))")
    case (Some q)
    then show ?thesis using iget_found [OF inv Some] g by auto
  next
    case None
    then show ?thesis using iget_missing [OF inv pages None g] p c(1) by blast
  qed
  have nn: "p \<noteq> INull" using p table_invD(6) [OF inv] by auto
  have c1: "i_count (v_inode st p) + 1 \<noteq> 0" using c(2) unfolding eq_neg_iff_add_eq_0 .
  have c2: "i_count (v_inode st p) + 1 > 1"
  proof -
    have "unat (i_count (v_inode st p) + 1) = unat (i_count (v_inode st p)) + 1" using c1 unatSuc [of "i_count (v_inode st p)"] by (simp add: add.commute)
    moreover have "unat (i_count (v_inode st p)) > 0" using c(1) by (simp add: unat_gt_0)
    ultimately show ?thesis by (simp add: word_less_nat_alt)
  qed
  have v: "v_inode (wait_on_inode p st') p = (v_inode st p)\<lparr>i_count := i_count (v_inode st p) + 1\<rparr>"
    using c(1) by (simp add: st' found_it_def wait_on_inode_def set_inode_def)
  have "iput env p st' = Some (set_inode p ((v_inode st p)\<lparr>i_count := i_count (v_inode st p)\<rparr>) (wait_on_inode p st'))"
    using nn c1 c2 v by (simp add: iput_def iput_repeat.simps Let_def)
  also have "set_inode p ((v_inode st p)\<lparr>i_count := i_count (v_inode st p)\<rparr>) (wait_on_inode p st') = wait_on_inode p st"
    using c(1) by (cases st) (simp add: st' found_it_def wait_on_inode_def set_inode_def)
  finally show ?thesis .
qed

end
