(* ===== verification/Ext2_Mount_Refs.thy ===== *)
theory Ext2_Mount_Refs
  imports Ext2_Mount Ext2_Find_Props Ext2_Iget_Props
begin

text \<open>
  The buffers that a mounted file system holds: the super block, the blocks of group descriptors and the
  loaded bitmaps, each with one reference (\<open>refs\<close>). The operations that a mount is made of keep this, and
  the geometry; they may only note an error in the states of the file system (\<open>settled\<close>).
\<close>

definition pinned :: "ext2_fs \<Rightarrow> u32 option list" where
  "pinned fs = Some (s_sbh fs) # List.map (map_option fst) (s_group_desc fs) @ bm_bitmap (inode_cache fs) @
     bm_bitmap (block_cache fs)"

definition refs :: "ext2_fs \<Rightarrow> bool" where
  "refs fs \<longleftrightarrow> (\<forall>x. b_count fs x = count_list (pinned fs) (Some x))"

text \<open>A cache has eight slots; those that are not loaded yet are empty.\<close>

definition slots_ok :: "nat \<Rightarrow> bitmap_cache \<Rightarrow> bool" where
  "slots_ok n c \<longleftrightarrow> length (bm_number c) = 8 \<and> length (bm_bitmap c) = 8 \<and> bm_loaded c \<le> 8 \<and>
     (8 < n \<longrightarrow> (\<forall>i. bm_loaded c \<le> i \<and> i < 8 \<longrightarrow> bm_bitmap c ! i = None))"

definition caches_ok :: "ext2_fs \<Rightarrow> bool" where
  "caches_ok fs \<longleftrightarrow> slots_ok (s_groups_count fs) (inode_cache fs) \<and> slots_ok (s_groups_count fs) (block_cache fs) \<and> refs fs"

definition settled :: "ext2_fs \<Rightarrow> ext2_fs \<Rightarrow> bool" where
  "settled fs fs' \<longleftrightarrow> layout fs' = layout fs \<and> s_group_desc fs' = s_group_desc fs \<and> s_sbh fs' = s_sbh fs \<and>
     s_state fs' AND NOT EXT2_ERROR_FS = s_state fs AND NOT EXT2_ERROR_FS \<and>
     s_mount_state fs' AND NOT EXT2_ERROR_FS = s_mount_state fs AND NOT EXT2_ERROR_FS \<and>
     (s_flags fs' AND MS_RDONLY = 0 \<longrightarrow> s_flags fs AND MS_RDONLY = 0) \<and> s_lock fs' = s_lock fs \<and>
     (caches_ok fs \<longrightarrow> caches_ok fs')"

lemma settled_refl: "settled fs fs"
  by (simp add: settled_def)

lemma settled_trans: "settled fs fs1 \<Longrightarrow> settled fs1 fs2 \<Longrightarrow> settled fs fs2"
  by (simp add: settled_def)

lemma settled_count:
  assumes "settled fs fs'"
  shows "s_groups_count fs' = s_groups_count fs" and "s_desc_per_block fs' = s_desc_per_block fs"
  using assms layoutD [of fs' fs] by (simp_all add: settled_def)

text \<open>An operation that leaves alone the geometry, the caches and the counts.\<close>

lemma settled_same:
  assumes "layout fs' = layout fs" "s_group_desc fs' = s_group_desc fs" "s_sbh fs' = s_sbh fs"
    "s_state fs' = s_state fs" "s_mount_state fs' = s_mount_state fs" "s_flags fs' = s_flags fs" "s_lock fs' = s_lock fs"
    "inode_cache fs' = inode_cache fs" "block_cache fs' = block_cache fs" "b_count fs' = b_count fs"
  shows "settled fs fs'"
  using assms layoutD [OF assms(1)] by (simp add: settled_def caches_ok_def refs_def pinned_def)

lemma or_error: "(w OR EXT2_ERROR_FS) AND NOT EXT2_ERROR_FS = w AND NOT EXT2_ERROR_FS"
  by (simp add: bit.conj_disj_distrib2)

lemma or_rdonly: "(w OR MS_RDONLY) AND MS_RDONLY \<noteq> 0"
  by (simp add: bit.conj_disj_distrib2 MS_RDONLY_def)

lemma caches_ok_cong:
  assumes "s_groups_count fs' = s_groups_count fs" "s_group_desc fs' = s_group_desc fs" "s_sbh fs' = s_sbh fs"
    "inode_cache fs' = inode_cache fs" "block_cache fs' = block_cache fs" "b_count fs' = b_count fs"
  shows "caches_ok fs' = caches_ok fs"
  by (simp add: caches_ok_def refs_def pinned_def assms)

lemma error_fields:
  assumes "ext2_error fs = Some fs'"
  shows "b_count fs' = b_count fs" and "s_sbh fs' = s_sbh fs"
    and "s_state fs' AND NOT EXT2_ERROR_FS = s_state fs AND NOT EXT2_ERROR_FS"
    and "s_mount_state fs' AND NOT EXT2_ERROR_FS = s_mount_state fs AND NOT EXT2_ERROR_FS"
    and "s_flags fs' AND MS_RDONLY = 0 \<longrightarrow> s_flags fs AND MS_RDONLY = 0"
proof -
  define fs1 where "fs1 = (if s_flags fs AND MS_RDONLY = 0 then
      (mark_buffer_dirty (s_sbh fs) (fs\<lparr>s_mount_state := s_mount_state fs OR EXT2_ERROR_FS,
         s_state := s_state fs OR EXT2_ERROR_FS\<rparr>))\<lparr>s_dirt := True\<rparr> else fs)"
  have f: "b_count fs1 = b_count fs" "s_sbh fs1 = s_sbh fs" "s_state fs1 AND NOT EXT2_ERROR_FS = s_state fs AND NOT EXT2_ERROR_FS"
    "s_mount_state fs1 AND NOT EXT2_ERROR_FS = s_mount_state fs AND NOT EXT2_ERROR_FS" "s_flags fs1 = s_flags fs"
    by (simp_all add: fs1_def mark_buffer_dirty_def or_error)
  have "fs' = fs1 \<or> fs' = fs1\<lparr>s_flags := s_flags fs1 OR MS_RDONLY\<rparr>"
    using assms unfolding ext2_error_def Let_def fs1_def [symmetric] by (metis option.inject option.distinct(1))
  then show "b_count fs' = b_count fs" and "s_sbh fs' = s_sbh fs"
    and "s_state fs' AND NOT EXT2_ERROR_FS = s_state fs AND NOT EXT2_ERROR_FS"
    and "s_mount_state fs' AND NOT EXT2_ERROR_FS = s_mount_state fs AND NOT EXT2_ERROR_FS"
    and "s_flags fs' AND MS_RDONLY = 0 \<longrightarrow> s_flags fs AND MS_RDONLY = 0"
    using f or_rdonly by auto
qed

lemma error_settled:
  assumes e: "ext2_error fs = Some fs'"
  shows "settled fs fs'"
proof -
  note f = ext2_error_frame [OF e] error_fields [OF e]
  have v: "layout fs' = layout fs" "s_group_desc fs' = s_group_desc fs" using f(1) by (simp_all add: same_views_def)
  have "caches_ok fs' = caches_ok fs"
    using layoutD [OF v(1)] v f(2,4,5,6) by (intro caches_ok_cong) simp_all
  then show ?thesis unfolding settled_def using v f(3,6,7,8,9) by simp
qed

lemma report_settled: "report oks fs = Some fs' \<Longrightarrow> settled fs fs'"
proof (induction oks fs rule: report.induct)
  case (2 good oks fs)
  show ?case
  proof (cases good)
    case True
    then show ?thesis using 2 by simp
  next
    case False
    then obtain fs1 where "ext2_error fs = Some fs1" "report oks fs1 = Some fs'"
      using "2.prems" by (cases "ext2_error fs") auto
    then show ?thesis using "2.IH"(2) [OF False] error_settled settled_trans by blast
  qed
qed (simp add: settled_refl)

subsection \<open>Loading a bitmap\<close>

text \<open>Going from the slots \<open>xs\<close> to the slots \<open>ys\<close>, the counts follow.\<close>

definition moved :: "(u32 \<Rightarrow> nat) \<Rightarrow> u32 option list \<Rightarrow> (u32 \<Rightarrow> nat) \<Rightarrow> u32 option list \<Rightarrow> bool" where
  "moved n xs m ys \<longleftrightarrow> ((\<forall>x. count_list xs (Some x) \<le> n x) \<longrightarrow>
     (\<forall>x. m x + count_list xs (Some x) = n x + count_list ys (Some x)))"

lemma count_shift:
  assumes "j < length xs"
  shows "count_list ((shift_down j xs)[0 := y]) (Some x) + (if xs ! j = Some x then 1 else 0) =
    count_list xs (Some x) + (if y = Some x then 1 else 0)"
proof -
  have "xs = take j xs @ (xs ! j) # drop (Suc j) xs" using assms by (simp add: id_take_nth_drop)
  then have "count_list xs (Some x) = count_list (take j xs) (Some x) + count_list ((xs ! j) # drop (Suc j) xs) (Some x)"
    by (metis count_list_append)
  then show ?thesis using assms by (simp add: shift_down_list count_list_append)
qed

lemma bread_count:
  assumes "bread b fs = (Some bh, fs')"
  shows "bh = b" and "fs' = fs\<lparr>b_count := (b_count fs)(b := Suc (b_count fs b))\<rparr>"
  using assms by (auto simp: bread_def getblk_def split: if_splits)

lemma slots_fill:
  "slots_ok n c \<Longrightarrow> n \<le> 8 \<Longrightarrow> slots_ok n (c\<lparr>bm_number := (bm_number c)[nr := g], bm_bitmap := (bm_bitmap c)[nr := bo]\<rparr>)"
  by (simp add: slots_ok_def)

lemma slots_promote:
  assumes "slots_ok n c" and "i < bm_loaded c"
  shows "slots_ok n (promote_slot i c)" and "count_list (bm_bitmap (promote_slot i c)) (Some x) = count_list (bm_bitmap c) (Some x)"
proof -
  have i: "i < 8" "length (bm_bitmap c) = 8" using assms by (auto simp: slots_ok_def)
  have b: "bm_bitmap (promote_slot i c) = (shift_down i (bm_bitmap c))[0 := bm_bitmap c ! i]"
    and r: "bm_loaded (promote_slot i c) = bm_loaded c" "length (bm_number (promote_slot i c)) = length (bm_number c)"
    by (simp_all add: promote_slot_def Let_def)
  show "count_list (bm_bitmap (promote_slot i c)) (Some x) = count_list (bm_bitmap c) (Some x)"
    using count_shift [of i "bm_bitmap c" "bm_bitmap c ! i" x] i unfolding b by simp
  have "(shift_down i (bm_bitmap c))[0 := y] ! k = bm_bitmap c ! k" if "i < k" "k < 8" for k y
    using that i shift_down_nth [of i "bm_bitmap c" k] by simp
  then show "slots_ok n (promote_slot i c)" using assms unfolding slots_ok_def b r by auto
qed

text \<open>The cache after \<open>make_room\<close>, with slot 0 filled.\<close>

lemma slots_room:
  assumes ok: "slots_ok n c" and n: "8 < n" and m: "make_room c fs = (c1, fs1)"
  shows "slots_ok n (c1\<lparr>bm_number := (bm_number c1)[0 := g], bm_bitmap := (bm_bitmap c1)[0 := Some b]\<rparr>)"
    and "\<exists>k. fs1 = fs\<lparr>b_count := k\<rparr> \<and> moved (b_count fs) (bm_bitmap c) (k(b := Suc (k b))) ((bm_bitmap c1)[0 := Some b])"
proof -
  have l: "length (bm_bitmap c) = 8" "length (bm_number c) = 8" "bm_loaded c \<le> 8"
    and e: "\<And>i. bm_loaded c \<le> i \<Longrightarrow> i < 8 \<Longrightarrow> bm_bitmap c ! i = None" using ok n by (auto simp: slots_ok_def)
  show "slots_ok n (c1\<lparr>bm_number := (bm_number c1)[0 := g], bm_bitmap := (bm_bitmap c1)[0 := Some b]\<rparr>)" (is ?a)
    and "\<exists>k. fs1 = fs\<lparr>b_count := k\<rparr> \<and> moved (b_count fs) (bm_bitmap c) (k(b := Suc (k b))) ((bm_bitmap c1)[0 := Some b])" (is ?b)
  proof (atomize (full), cases "bm_loaded c < 8")
    case True
    then have c1: "c1 = shift_cache (bm_loaded c) (c\<lparr>bm_loaded := Suc (bm_loaded c)\<rparr>)" "fs1 = fs"
      using m by (simp_all add: make_room_def EXT2_MAX_GROUP_LOADED_def Let_def)
    have "(shift_down (bm_loaded c) (bm_bitmap c))[0 := Some b] ! k = None" if "Suc (bm_loaded c) \<le> k" "k < 8" for k
      using that l e [of k] shift_down_nth [of "bm_loaded c" "bm_bitmap c" k] by simp
    then have ?a using l True unfolding slots_ok_def c1 by simp
    moreover have "moved (b_count fs) (bm_bitmap c) ((b_count fs)(b := Suc (b_count fs b))) ((bm_bitmap c1)[0 := Some b])"
      using count_shift [of "bm_loaded c" "bm_bitmap c" "Some b"] True l e [of "bm_loaded c"] by (simp add: moved_def c1)
    then have ?b using c1(2) by (intro exI [of _ "b_count fs"]) simp
    ultimately show "?a \<and> ?b" by blast
  next
    case False
    then have l8: "bm_loaded c = 8" using l(3) by simp
    have c1: "c1 = shift_cache 7 c" "fs1 = brelse (bm_bitmap c ! 7) fs"
      using m l8 by (simp_all add: make_room_def EXT2_MAX_GROUP_LOADED_def Let_def)
    have a: ?a using l l8 unfolding slots_ok_def c1 by auto
    show "?a \<and> ?b"
    proof (cases "bm_bitmap c ! 7")
      case None
      then have "fs1 = fs" unfolding c1 by (simp add: brelse_def)
      moreover have "moved (b_count fs) (bm_bitmap c) ((b_count fs)(b := Suc (b_count fs b))) ((bm_bitmap c1)[0 := Some b])"
        using count_shift [of 7 "bm_bitmap c" "Some b"] l None by (simp add: moved_def c1)
      ultimately show ?thesis using a by (intro conjI exI [of _ "b_count fs"]) simp_all
    next
      case (Some d)
      let ?k = "(b_count fs)(d := b_count fs d - 1)"
      have k: "fs1 = fs\<lparr>b_count := ?k\<rparr>" unfolding c1 Some by (auto simp: brelse_def fun_upd_idem)
      have pos: "0 < count_list (bm_bitmap c) (Some d)"
        using Some l nth_mem [of 7 "bm_bitmap c"] count_list_0_iff [of "bm_bitmap c" "Some d"] by fastforce
      have "moved (b_count fs) (bm_bitmap c) (?k(b := Suc (?k b))) ((bm_bitmap c1)[0 := Some b])"
        unfolding moved_def
      proof (intro impI allI)
        fix x assume le: "\<forall>x. count_list (bm_bitmap c) (Some x) \<le> b_count fs x"
        have "0 < b_count fs d" using le pos by (metis less_le_trans)
        then show "(?k(b := Suc (?k b))) x + count_list (bm_bitmap c) (Some x) =
            b_count fs x + count_list ((bm_bitmap c1)[0 := Some b]) (Some x)"
          using count_shift [of 7 "bm_bitmap c" "Some b" x] l Some unfolding c1 shift_cache_simps by (auto split: if_splits)
      qed
      then show ?thesis using a k by blast
    qed
  qed
qed

lemma moved_part:
  assumes r: "\<And>x. (m :: u32 \<Rightarrow> nat) x = count_list (A @ xs @ B) (Some x)" and mv: "moved m xs n ys"
  shows "n x = count_list (A @ ys @ B) (Some x)"
proof -
  have "count_list xs (Some y) \<le> m y" for y unfolding r by (simp add: count_list_append)
  then have "n x + count_list xs (Some x) = m x + count_list ys (Some x)" using mv by (simp add: moved_def)
  then show ?thesis unfolding r by (simp add: count_list_append)
qed

lemma settled_block:
  assumes s: "slots_ok (s_groups_count fs) (block_cache fs) \<Longrightarrow> slots_ok (s_groups_count fs) c \<and>
      moved (b_count fs) (bm_bitmap (block_cache fs)) n (bm_bitmap c)"
  shows "settled fs (fs\<lparr>b_count := n, block_cache := c\<rparr>)"
proof -
  have "caches_ok (fs\<lparr>b_count := n, block_cache := c\<rparr>)" if ok: "caches_ok fs"
  proof -
    have c: "slots_ok (s_groups_count fs) c" and m: "moved (b_count fs) (bm_bitmap (block_cache fs)) n (bm_bitmap c)"
      using s ok by (simp_all add: caches_ok_def)
    let ?A = "Some (s_sbh fs) # List.map (map_option fst) (s_group_desc fs) @ bm_bitmap (inode_cache fs)"
    have "b_count fs x = count_list (?A @ bm_bitmap (block_cache fs) @ []) (Some x)" for x
      using ok by (simp add: caches_ok_def refs_def pinned_def)
    then have "n x = count_list (?A @ bm_bitmap c @ []) (Some x)" for x by (rule moved_part [OF _ m])
    then show ?thesis using ok c by (simp add: caches_ok_def refs_def pinned_def)
  qed
  then show ?thesis by (simp add: settled_def layout_def)
qed

lemma settled_inode:
  assumes s: "slots_ok (s_groups_count fs) (inode_cache fs) \<Longrightarrow> slots_ok (s_groups_count fs) c \<and>
      moved (b_count fs) (bm_bitmap (inode_cache fs)) n (bm_bitmap c)"
  shows "settled fs (fs\<lparr>b_count := n, inode_cache := c\<rparr>)"
proof -
  have "caches_ok (fs\<lparr>b_count := n, inode_cache := c\<rparr>)" if ok: "caches_ok fs"
  proof -
    have c: "slots_ok (s_groups_count fs) c" and m: "moved (b_count fs) (bm_bitmap (inode_cache fs)) n (bm_bitmap c)"
      using s ok by (simp_all add: caches_ok_def)
    let ?A = "Some (s_sbh fs) # List.map (map_option fst) (s_group_desc fs)" and ?B = "bm_bitmap (block_cache fs)"
    have "b_count fs x = count_list (?A @ bm_bitmap (inode_cache fs) @ ?B) (Some x)" for x
      using ok by (simp add: caches_ok_def refs_def pinned_def)
    then have "n x = count_list (?A @ bm_bitmap c @ ?B) (Some x)" for x by (rule moved_part [OF _ m])
    then show ?thesis using ok c by (simp add: caches_ok_def refs_def pinned_def)
  qed
  then show ?thesis by (simp add: settled_def layout_def)
qed

lemma moved_same: "(\<And>x. count_list ys (Some x) = count_list xs (Some x)) \<Longrightarrow> moved n xs n ys"
  by (simp add: moved_def)

lemma moved_fill:
  assumes "g < length xs" and "xs ! g = None"
  shows "moved n xs (n(b := Suc (n b))) (xs[g := Some b])"
proof -
  have "count_list (xs[g := Some b]) (Some x) = count_list xs (Some x) + (if b = x then 1 else 0)" for x
    using count_list_update [OF assms(1), of "Some b" "Some x"] assms(2) by simp
  then show ?thesis by (simp add: moved_def)
qed

lemma read_block_bitmap_form:
  assumes "read_block_bitmap g nr fs = Some fs'"
  obtains b where "fs' = fs\<lparr>b_count := (b_count fs)(b := Suc (b_count fs b)), block_cache := (block_cache fs)
      \<lparr>bm_number := (bm_number (block_cache fs))[nr := g], bm_bitmap := (bm_bitmap (block_cache fs))[nr := Some b]\<rparr>\<rparr>"
proof -
  obtain p where p: "get_group_desc fs g = Some p" using assms by (cases "get_group_desc fs g") (simp_all add: read_block_bitmap_def)
  obtain bh fs1 where b: "bread (bg_block_bitmap (gd_at fs p)) fs = (Some bh, fs1)"
    using assms p by (cases "bread (bg_block_bitmap (gd_at fs p)) fs") (auto simp: read_block_bitmap_def split: option.splits)
  show thesis using assms that [of bh] unfolding read_block_bitmap_def p by (simp add: b bread_count [OF b] Let_def)
qed

lemma read_inode_bitmap_form:
  assumes "read_inode_bitmap g nr fs = Some fs'"
  obtains b where "fs' = fs\<lparr>b_count := (b_count fs)(b := Suc (b_count fs b)), inode_cache := (inode_cache fs)
      \<lparr>bm_number := (bm_number (inode_cache fs))[nr := g], bm_bitmap := (bm_bitmap (inode_cache fs))[nr := Some b]\<rparr>\<rparr>"
proof -
  obtain p where p: "get_group_desc fs g = Some p" using assms by (cases "get_group_desc fs g") (simp_all add: read_inode_bitmap_def)
  obtain bh fs1 where b: "bread (bg_inode_bitmap (gd_at fs p)) fs = (Some bh, fs1)"
    using assms p by (cases "bread (bg_inode_bitmap (gd_at fs p)) fs") (auto simp: read_inode_bitmap_def split: option.splits)
  show thesis using assms that [of bh] unfolding read_inode_bitmap_def p by (simp add: b bread_count [OF b] Let_def)
qed

lemma load_ways:
  assumes "(if C then None else if D then (if E then (if F then None else Some (g, fs)) else Option.bind r1 (\<lambda>fs. Some (g, fs)))
      else if H then Some (0, fs2) else Option.bind r2 (\<lambda>fs. Some (0, fs))) = Some (nr, fs')"
  shows "fs' = fs \<or> (\<not> C \<and> D \<and> \<not> E \<and> r1 = Some fs') \<or> (H \<and> fs' = fs2) \<or> (\<not> D \<and> r2 = Some fs')"
  using assms by (cases C; cases D; cases E; cases F; cases H; cases r1; cases r2) simp_all

lemma load_block_ways:
  assumes l: "load_block_bitmap g fs = Some (nr, fs')"
  obtains (same) "fs' = fs"
    | (small) "s_groups_count fs \<le> 8" "g < s_groups_count fs" "bm_bitmap (block_cache fs) ! g = None" "read_block_bitmap g g fs = Some fs'"
    | (hit) i where "i < bm_loaded (block_cache fs)" "fs' = fs\<lparr>block_cache := promote_slot i (block_cache fs)\<rparr>"
    | (miss) c1 fs1 where "8 < s_groups_count fs" "make_room (block_cache fs) fs = (c1, fs1)"
        "read_block_bitmap g 0 (fs1\<lparr>block_cache := c1\<rparr>) = Some fs'"
proof -
  let ?c = "block_cache fs"
  obtain c1 fs1 where mr: "make_room ?c fs = (c1, fs1)" by (cases "make_room ?c fs")
  have "fs' = fs \<or> load__block_bitmap g fs = Some (nr, fs')"
    using l unfolding load_block_bitmap_def Let_def by (simp split: if_splits)
  then have "fs' = fs \<or> (\<not> g \<ge> s_groups_count fs \<and> s_groups_count fs \<le> 8 \<and> \<not> bm_bitmap ?c ! g \<noteq> None \<and> read_block_bitmap g g fs = Some fs') \<or>
      (find_slot ?c g 0 < bm_loaded ?c \<and> bm_number ?c ! find_slot ?c g 0 = g) \<and> fs' = fs\<lparr>block_cache := promote_slot (find_slot ?c g 0) ?c\<rparr> \<or>
      \<not> s_groups_count fs \<le> 8 \<and> read_block_bitmap g 0 (fs1\<lparr>block_cache := c1\<rparr>) = Some fs'"
    (is ?ways)
  proof (elim disjE)
    assume "load__block_bitmap g fs = Some (nr, fs')"
    then show ?ways unfolding load__block_bitmap_def EXT2_MAX_GROUP_LOADED_def Let_def mr prod.case by (rule load_ways)
  qed (rule disjI1)
  then show thesis using same small hit miss mr by (metis not_le)
qed

lemma load_block_settled:
  assumes l: "load_block_bitmap g fs = Some (nr, fs')"
  shows "settled fs fs'"
proof -
  let ?c = "block_cache fs"
  from l show ?thesis
  proof (cases rule: load_block_ways)
    case same
    then show ?thesis by (simp add: settled_refl)
  next
    case small
    obtain b where fs': "fs' = fs\<lparr>b_count := (b_count fs)(b := Suc (b_count fs b)), block_cache := ?c
      \<lparr>bm_number := (bm_number ?c)[g := g], bm_bitmap := (bm_bitmap ?c)[g := Some b]\<rparr>\<rparr>"
      by (rule read_block_bitmap_form [OF small(4)])
    show ?thesis unfolding fs'
      using slots_fill [OF _ small(1), where c = ?c and nr = g and g = g and bo = "Some b"]
        moved_fill [where g = g and xs = "bm_bitmap ?c" and n = "b_count fs" and b = b] small(1-3)
      by (intro settled_block) (auto simp: slots_ok_def)
  next
    case (hit i)
    have "settled fs (fs\<lparr>b_count := b_count fs, block_cache := promote_slot i ?c\<rparr>)"
      using slots_promote [OF _ hit(1)] by (intro settled_block conjI moved_same) blast+
    then show ?thesis using hit(2) by simp
  next
    case (miss c1 fs1)
    obtain b where fs': "fs' = fs1\<lparr>block_cache := c1\<rparr>\<lparr>b_count := (b_count (fs1\<lparr>block_cache := c1\<rparr>))(b := Suc (b_count (fs1\<lparr>block_cache := c1\<rparr>) b)),
      block_cache := (block_cache (fs1\<lparr>block_cache := c1\<rparr>))
      \<lparr>bm_number := (bm_number (block_cache (fs1\<lparr>block_cache := c1\<rparr>)))[0 := g], bm_bitmap := (bm_bitmap (block_cache (fs1\<lparr>block_cache := c1\<rparr>)))[0 := Some b]\<rparr>\<rparr>"
      by (rule read_block_bitmap_form [OF miss(3)])
    obtain k where k: "fs1 = fs\<lparr>b_count := k\<rparr>"
      using make_room_count [where P = "bm_loaded ?c < 8" and fs = fs and bo = "bm_bitmap ?c ! 7"] miss(2)
      unfolding make_room_eq by auto
    have fs'': "fs' = fs\<lparr>b_count := k(b := Suc (k b)), block_cache := c1\<lparr>bm_number := (bm_number c1)[0 := g], bm_bitmap := (bm_bitmap c1)[0 := Some b]\<rparr>\<rparr>"
      unfolding fs' k by simp
    show ?thesis unfolding fs''
    proof (rule settled_block)
      assume ok: "slots_ok (s_groups_count fs) ?c"
      obtain k' where "fs1 = fs\<lparr>b_count := k'\<rparr>" and m: "moved (b_count fs) (bm_bitmap ?c) (k'(b := Suc (k' b))) ((bm_bitmap c1)[0 := Some b])"
        using slots_room(2) [OF ok miss(1,2), of b] by blast
      then have "b_count (fs\<lparr>b_count := k'\<rparr>) = b_count (fs\<lparr>b_count := k\<rparr>)" using k by simp
      then have "k' = k" by simp
      then show "slots_ok (s_groups_count fs) (c1\<lparr>bm_number := (bm_number c1)[0 := g], bm_bitmap := (bm_bitmap c1)[0 := Some b]\<rparr>) \<and>
        moved (b_count fs) (bm_bitmap ?c) (k(b := Suc (k b))) (bm_bitmap (c1\<lparr>bm_number := (bm_number c1)[0 := g], bm_bitmap := (bm_bitmap c1)[0 := Some b]\<rparr>))"
        using m slots_room(1) [OF ok miss(1,2)] by simp
    qed
  qed
qed

lemma load_inode_settled:
  assumes l: "load_inode_bitmap g fs = Some (nr, fs')"
  shows "settled fs fs'"
proof -
  let ?c = "inode_cache fs"
  consider (same) "fs' = fs"
    | (small) "s_groups_count fs \<le> 8" "g < s_groups_count fs" "bm_bitmap ?c ! g = None" "read_inode_bitmap g g fs = Some fs'"
    | (hit) i where "i < bm_loaded ?c" "fs' = fs\<lparr>inode_cache := promote_slot i ?c\<rparr>"
    | (miss) c1 fs1 where "8 < s_groups_count fs" "make_room ?c fs = (c1, fs1)" "read_inode_bitmap g 0 (fs1\<lparr>inode_cache := c1\<rparr>) = Some fs'"
  proof -
    obtain c1 fs1 where mr: "make_room ?c fs = (c1, fs1)" by (cases "make_room ?c fs")
    have "fs' = fs \<or> (\<not> g \<ge> s_groups_count fs \<and> s_groups_count fs \<le> 8 \<and> \<not> bm_bitmap ?c ! g \<noteq> None \<and> read_inode_bitmap g g fs = Some fs') \<or>
        (find_slot ?c g 0 < bm_loaded ?c \<and> bm_number ?c ! find_slot ?c g 0 = g) \<and> fs' = fs\<lparr>inode_cache := promote_slot (find_slot ?c g 0) ?c\<rparr> \<or>
        \<not> s_groups_count fs \<le> 8 \<and> read_inode_bitmap g 0 (fs1\<lparr>inode_cache := c1\<rparr>) = Some fs'"
      (is ?ways)
    proof (cases "bm_loaded ?c > 0 \<and> bm_number ?c ! 0 = g")
      case True
      then show ?ways using l unfolding load_inode_bitmap_def Let_def by (simp split: if_splits)
    next
      case False
      show ?ways using l unfolding load_inode_bitmap_def EXT2_MAX_GROUP_LOADED_def Let_def mr prod.case if_not_P [OF False] by (rule load_ways)
    qed
    then show thesis using same small hit miss mr by (metis not_le)
  qed
  then show ?thesis
  proof cases
    case same
    then show ?thesis by (simp add: settled_refl)
  next
    case small
    obtain b where fs': "fs' = fs\<lparr>b_count := (b_count fs)(b := Suc (b_count fs b)), inode_cache := ?c
      \<lparr>bm_number := (bm_number ?c)[g := g], bm_bitmap := (bm_bitmap ?c)[g := Some b]\<rparr>\<rparr>"
      by (rule read_inode_bitmap_form [OF small(4)])
    show ?thesis unfolding fs'
      using slots_fill [OF _ small(1), where c = ?c and nr = g and g = g and bo = "Some b"]
        moved_fill [where g = g and xs = "bm_bitmap ?c" and n = "b_count fs" and b = b] small(1-3)
      by (intro settled_inode) (auto simp: slots_ok_def)
  next
    case hit
    have "settled fs (fs\<lparr>b_count := b_count fs, inode_cache := promote_slot i ?c\<rparr>)"
      using slots_promote [OF _ hit(1)] by (intro settled_inode conjI moved_same) blast+
    then show ?thesis using hit(2) by simp
  next
    case miss
    obtain b where fs': "fs' = fs1\<lparr>inode_cache := c1\<rparr>\<lparr>b_count := (b_count (fs1\<lparr>inode_cache := c1\<rparr>))(b := Suc (b_count (fs1\<lparr>inode_cache := c1\<rparr>) b)),
      inode_cache := (inode_cache (fs1\<lparr>inode_cache := c1\<rparr>))
      \<lparr>bm_number := (bm_number (inode_cache (fs1\<lparr>inode_cache := c1\<rparr>)))[0 := g], bm_bitmap := (bm_bitmap (inode_cache (fs1\<lparr>inode_cache := c1\<rparr>)))[0 := Some b]\<rparr>\<rparr>"
      by (rule read_inode_bitmap_form [OF miss(3)])
    obtain k where k: "fs1 = fs\<lparr>b_count := k\<rparr>"
      using make_room_count [where P = "bm_loaded ?c < 8" and fs = fs and bo = "bm_bitmap ?c ! 7"] miss(2)
      unfolding make_room_eq by auto
    have fs'': "fs' = fs\<lparr>b_count := k(b := Suc (k b)), inode_cache := c1\<lparr>bm_number := (bm_number c1)[0 := g], bm_bitmap := (bm_bitmap c1)[0 := Some b]\<rparr>\<rparr>"
      unfolding fs' k by simp
    show ?thesis unfolding fs''
    proof (rule settled_inode)
      assume ok: "slots_ok (s_groups_count fs) ?c"
      obtain k' where "fs1 = fs\<lparr>b_count := k'\<rparr>" and m: "moved (b_count fs) (bm_bitmap ?c) (k'(b := Suc (k' b))) ((bm_bitmap c1)[0 := Some b])"
        using slots_room(2) [OF ok miss(1,2), of b] by blast
      then have "b_count (fs\<lparr>b_count := k'\<rparr>) = b_count (fs\<lparr>b_count := k\<rparr>)" using k by simp
      then have "k' = k" by simp
      then show "slots_ok (s_groups_count fs) (c1\<lparr>bm_number := (bm_number c1)[0 := g], bm_bitmap := (bm_bitmap c1)[0 := Some b]\<rparr>) \<and>
        moved (b_count fs) (bm_bitmap ?c) (k(b := Suc (k b))) (bm_bitmap (c1\<lparr>bm_number := (bm_number c1)[0 := g], bm_bitmap := (bm_bitmap c1)[0 := Some b]\<rparr>))"
        using m slots_room(1) [OF ok miss(1,2)] by simp
    qed
  qed
qed

subsection \<open>The checks of the bitmaps\<close>

lemma group_bitmap_settled: "group_bitmap g fs = Some (bh, fs') \<Longrightarrow> settled fs fs'"
  unfolding group_bitmap_def by (auto split: bind_splits dest: load_block_settled)

lemma group_inode_bitmap_settled: "group_inode_bitmap g fs = Some (bh, fs') \<Longrightarrow> settled fs fs'"
  unfolding group_inode_bitmap_def by (auto split: bind_splits dest: load_inode_settled)

lemma check_groups_settled:
  assumes "check_groups n i c fs = Some (c', fs')"
  shows "settled fs fs'"
  using assms
proof (induction n arbitrary: i c fs)
  case (Suc n)
  obtain p where p: "get_group_desc fs i = Some p" using Suc.prems by (cases "get_group_desc fs i") simp_all
  obtain bh fs1 where g: "group_bitmap i fs = Some (bh, fs1)" using Suc.prems p by (cases "group_bitmap i fs") auto
  obtain bs where b: "b_data fs1 bh = Some bs" using Suc.prems p g by (cases "b_data fs1 bh") simp_all
  obtain fs2 where r: "report (blocks_bitmap_tests fs1 (gd_at fs1 p) bs (ext2_count_free (Some bs) (s_blocksize fs1))) fs1 = Some fs2"
    and c: "check_groups n (Suc i) (c + ext2_count_free (Some bs) (s_blocksize fs1)) fs2 = Some (c', fs')"
    using Suc.prems unfolding check_groups.simps p g bind.bind_lunit prod.case b Let_def
    by (cases "report (blocks_bitmap_tests fs1 (gd_at fs1 p) bs (ext2_count_free (Some bs) (s_blocksize fs1))) fs1") simp_all
  show ?case using group_bitmap_settled [OF g] report_settled [OF r] Suc.IH [OF c] settled_trans by blast
qed (simp add: settled_refl)

lemma check_inode_groups_settled:
  assumes "check_inode_groups n i c fs = Some (c', fs')"
  shows "settled fs fs'"
  using assms
proof (induction n arbitrary: i c fs)
  case (Suc n)
  obtain p where p: "get_group_desc fs i = Some p" using Suc.prems by (cases "get_group_desc fs i") simp_all
  obtain bh fs1 where g: "group_inode_bitmap i fs = Some (bh, fs1)" using Suc.prems p by (cases "group_inode_bitmap i fs") auto
  obtain bs where b: "b_data fs1 bh = Some bs" using Suc.prems p g by (cases "b_data fs1 bh") simp_all
  define x where "x = ext2_count_free (Some bs) (s_inodes_per_group fs1 div 8)"
  obtain fs2 where r: "report [unat (bg_free_inodes_count (gd_at fs1 p)) = x] fs1 = Some fs2"
    and c: "check_inode_groups n (Suc i) (c + x) fs2 = Some (c', fs')"
    using Suc.prems unfolding check_inode_groups.simps p g bind.bind_lunit prod.case b Let_def x_def
    by (cases "report [unat (bg_free_inodes_count (gd_at fs1 p)) = ext2_count_free (Some bs) (s_inodes_per_group fs1 div 8)] fs1") (simp_all del: report.simps)
  show ?case using group_inode_bitmap_settled [OF g] report_settled [OF r] Suc.IH [OF c] settled_trans by blast
qed (simp add: settled_refl)

text \<open>Between locking and unlocking.\<close>

lemma settled_locked:
  assumes "settled (lock_super fs) fs1" and "\<not> s_lock fs"
  shows "settled fs (unlock_super fs1)"
proof -
  have c: "caches_ok (lock_super fs) = caches_ok fs" "caches_ok (unlock_super fs1) = caches_ok fs1"
    by (rule caches_ok_cong; simp add: lock_super_def unlock_super_def)+
  have l: "layout (lock_super fs) = layout fs" "layout (unlock_super fs1) = layout fs1"
    by (simp_all add: lock_super_def unlock_super_def layout_def)
  have f: "s_group_desc (lock_super fs) = s_group_desc fs" "s_sbh (lock_super fs) = s_sbh fs" "s_state (lock_super fs) = s_state fs"
    "s_mount_state (lock_super fs) = s_mount_state fs" "s_flags (lock_super fs) = s_flags fs"
    "s_group_desc (unlock_super fs1) = s_group_desc fs1" "s_sbh (unlock_super fs1) = s_sbh fs1" "s_state (unlock_super fs1) = s_state fs1"
    "s_mount_state (unlock_super fs1) = s_mount_state fs1" "s_flags (unlock_super fs1) = s_flags fs1" "s_lock (unlock_super fs1) = False"
    by (simp_all add: lock_super_def unlock_super_def)
  show ?thesis using assms unfolding settled_def c l f by simp
qed

lemma check_blocks_settled:
  assumes "ext2_check_blocks_bitmap fs = Some fs'" and "\<not> s_lock fs"
  shows "settled fs fs'"
proof -
  obtain c fs1 where g: "check_groups (s_groups_count (lock_super fs)) 0 0 (lock_super fs) = Some (c, fs1)"
    using assms(1) by (cases "check_groups (s_groups_count (lock_super fs)) 0 0 (lock_super fs)")
      (auto simp: ext2_check_blocks_bitmap_def)
  obtain fs2 where r: "report [unat (s_free_blocks_count fs1) = c] fs1 = Some fs2" "fs' = unlock_super fs2"
    using assms(1) unfolding ext2_check_blocks_bitmap_def Let_def g bind.bind_lunit prod.case
    by (cases "report [unat (s_free_blocks_count fs1) = c] fs1") (simp_all del: report.simps)
  show ?thesis unfolding r(2)
    using settled_trans [OF check_groups_settled [OF g] report_settled [OF r(1)]] assms(2) by (rule settled_locked)
qed

lemma check_inodes_settled:
  assumes "ext2_check_inodes_bitmap fs = Some fs'" and "\<not> s_lock fs"
  shows "settled fs fs'"
proof -
  obtain c fs1 where g: "check_inode_groups (s_groups_count (lock_super fs)) 0 0 (lock_super fs) = Some (c, fs1)"
    using assms(1) by (cases "check_inode_groups (s_groups_count (lock_super fs)) 0 0 (lock_super fs)")
      (auto simp: ext2_check_inodes_bitmap_def)
  obtain fs2 where r: "report [unat (s_free_inodes_count fs1) = c] fs1 = Some fs2" "fs' = unlock_super fs2"
    using assms(1) unfolding ext2_check_inodes_bitmap_def Let_def g bind.bind_lunit prod.case
    by (cases "report [unat (s_free_inodes_count fs1) = c] fs1") (simp_all del: report.simps)
  show ?thesis unfolding r(2)
    using settled_trans [OF check_inode_groups_settled [OF g] report_settled [OF r(1)]] assms(2) by (rule settled_locked)
qed

subsection \<open>Reading and writing an inode\<close>

lemma brelse_fields:
  "s_groups_count (brelse bo fs) = s_groups_count fs" "layout (brelse bo fs) = layout fs" "s_group_desc (brelse bo fs) = s_group_desc fs"
  "s_sbh (brelse bo fs) = s_sbh fs" "s_state (brelse bo fs) = s_state fs" "s_mount_state (brelse bo fs) = s_mount_state fs"
  "s_flags (brelse bo fs) = s_flags fs" "s_lock (brelse bo fs) = s_lock fs" "inode_cache (brelse bo fs) = inode_cache fs"
  "block_cache (brelse bo fs) = block_cache fs"
  using brelse_count [of bo fs] by (auto simp: layout_def)

text \<open>A buffer that is taken and given back.\<close>

lemma taken_and_released:
  assumes "fs1 = fs\<lparr>b_count := (b_count fs)(b := Suc (b_count fs b)), b_data := d, b_dirt := e\<rparr>"
  shows "settled fs (brelse (Some b) fs1)"
proof -
  have "brelse (Some b) fs1 = fs\<lparr>b_data := d, b_dirt := e\<rparr>" unfolding assms by (cases fs) (simp add: brelse_def)
  moreover have "settled fs (fs\<lparr>b_data := d, b_dirt := e\<rparr>)" by (rule settled_same) (simp_all add: layout_def)
  ultimately show ?thesis by simp
qed

lemma fs_write_inode_settled:
  assumes w: "ext2_write_inode inode fs = Some (inode', fs')"
  shows "settled fs fs'"
proof -
  obtain bh i fs1 where u: "ext2_update_inode inode fs = Some ((bh, i), fs1)" and fs': "fs' = brelse bh fs1"
    using w by (cases "ext2_update_inode inode fs") (auto simp: ext2_write_inode_def)
  show ?thesis
  proof (cases "(i_ino inode \<noteq> EXT2_ROOT_INO \<and> i_ino inode < EXT2_FIRST_INO) \<or> i_ino inode > s_inodes_count fs")
    case True
    obtain fs2 where "ext2_error fs = Some fs2" "bh = None" "fs1 = fs2"
      using u unfolding ext2_update_inode_def Let_def if_P [OF True] by (cases "ext2_error fs") simp_all
    then show ?thesis using error_settled fs' by (simp add: brelse_def)
  next
    case False
    note u = u [unfolded ext2_update_inode_def Let_def if_not_P [OF False]]
    obtain p where p: "get_group_desc fs (inode_group fs (i_ino inode)) = Some p"
      using u by (cases "get_group_desc fs (inode_group fs (i_ino inode))") simp_all
    obtain b fs2 where b: "bread (inode_block fs (i_ino inode) (gd_at fs p)) fs = (Some b, fs2)"
      using u unfolding p bind.bind_lunit
      by (cases "bread (inode_block fs (i_ino inode) (gd_at fs p)) fs", cases "fst (bread (inode_block fs (i_ino inode) (gd_at fs p)) fs)") auto
    obtain bs where bs: "b_data fs2 b = Some bs" using u unfolding p bind.bind_lunit b by (cases "b_data fs2 b") simp_all
    have "bh = Some b" "\<exists>d e. fs1 = fs2\<lparr>b_data := d, b_dirt := e\<rparr>"
      using u unfolding p bind.bind_lunit b prod.case option.case bs mark_buffer_dirty_def by (auto split: if_splits)
    then show ?thesis unfolding fs' bread_count [OF b] by (auto intro: taken_and_released)
  qed
qed

lemma fs_read_inode_settled:
  assumes r: "ext2_read_inode ev inode fs = Some (x, fs')"
  shows "settled fs fs'"
proof (cases "(i_ino inode \<noteq> EXT2_ROOT_INO \<and> i_ino inode \<noteq> EXT2_ACL_IDX_INO \<and> i_ino inode \<noteq> EXT2_ACL_DATA_INO \<and>
    i_ino inode < EXT2_FIRST_INO) \<or> i_ino inode > s_inodes_count fs")
  case True
  show ?thesis using r unfolding ext2_read_inode_def Let_def if_P [OF True] by (cases "ext2_error fs") (auto dest: error_settled)
next
  case False
  note r = r [unfolded ext2_read_inode_def Let_def if_not_P [OF False]]
  obtain p where p: "get_group_desc fs (inode_group fs (i_ino inode)) = Some p"
    using r by (cases "get_group_desc fs (inode_group fs (i_ino inode))") simp_all
  obtain b fs2 where b: "bread (inode_block fs (i_ino inode) (gd_at fs p)) fs = (Some b, fs2)"
    using r unfolding p bind.bind_lunit
    by (cases "bread (inode_block fs (i_ino inode) (gd_at fs p)) fs", cases "fst (bread (inode_block fs (i_ino inode) (gd_at fs p)) fs)") auto
  obtain bs where bs: "b_data fs2 b = Some bs" using r unfolding p bind.bind_lunit b by (cases "b_data fs2 b") simp_all
  obtain fs3 where fs': "fs' = brelse (Some b) fs3" and e: "fs3 = fs2 \<or> ext2_error fs2 = Some fs3"
    using r unfolding p bind.bind_lunit b prod.case option.case bs by (auto split: if_splits bind_splits)
  have s2: "settled fs (brelse (Some b) fs2)" unfolding bread_count [OF b]
    by (rule taken_and_released [where d = "b_data fs" and e = "b_dirt fs"]) simp
  show ?thesis
  proof (cases "fs3 = fs2")
    case True
    then show ?thesis using s2 fs' by simp
  next
    case False
    then have e: "ext2_error fs2 = Some fs3" using e by simp
    have "settled (brelse (Some b) fs2) (brelse (Some b) fs3)"
    proof -
      have l: "layout fs3 = layout fs2" "s_group_desc fs3 = s_group_desc fs2"
        using ext2_error_frame(1) [OF e] by (simp_all add: same_views_def)
      have "b_count (brelse (Some b) fs3) = b_count (brelse (Some b) fs2)" using error_fields(1) [OF e] by (simp add: brelse_def)
      then have "caches_ok (brelse (Some b) fs3) = caches_ok (brelse (Some b) fs2)"
        using l layoutD(6) [OF l(1)] ext2_error_frame(2,4) [OF e] error_fields(2) [OF e]
        by (intro caches_ok_cong) (simp_all add: brelse_fields)
      then show ?thesis using error_settled [OF e] unfolding settled_def brelse_fields by simp
    qed
    then show ?thesis using settled_trans [OF s2] fs' by simp
  qed
qed

subsection \<open>Getting an inode\<close>

lemma write_inode_settled:
  assumes w: "write_inode p st = Some st'"
  shows "settled (v_fs st) (v_fs st')"
proof (cases "i_ino (v_inode st p) = INODE_DASD \<or> \<not> i_dirt (v_inode st p) \<or> \<not> i_sb st p")
  case True
  then have "v_fs st' = v_fs st"
    using w by (auto simp: write_inode_def Let_def wait_on_inode_def set_inode_def split: if_splits)
  then show ?thesis by (simp add: settled_refl)
next
  case False
  let ?st = "(wait_on_inode p st)\<lparr>i_lock := (i_lock (wait_on_inode p st))(p := True)\<rparr>"
  have "Option.bind (do_fs ext2_write_inode p ?st) (\<lambda>st. Some (unlock_inode p st)) = Some st'"
    using w False by (simp add: write_inode_def Let_def wait_on_inode_def)
  then obtain i fs where "ext2_write_inode (v_inode ?st p) (v_fs ?st) = Some (i, fs)" "v_fs st' = fs"
    unfolding do_fs_def by (cases "ext2_write_inode (v_inode ?st p) (v_fs ?st)") (auto simp: unlock_inode_def set_inode_def)
  then show ?thesis using fs_write_inode_settled by (simp add: wait_on_inode_def)
qed

lemma insert_new_fs: "insert_new ps st = Some st' \<Longrightarrow> v_fs st' = v_fs st"
proof (induction ps arbitrary: st)
  case (Cons p ps)
  obtain st1 where i: "insert_inode_free p st = Some st1" using Cons.prems by (cases "insert_inode_free p st") simp_all
  have f: "v_fs st1 = v_fs st" using i unfolding insert_inode_free_def Let_def by (auto split: if_splits)
  have "insert_new ps st1 = Some st'" using Cons.prems unfolding insert_new.simps i bind.bind_lunit by (simp split: if_splits)
  then show ?case using Cons.IH f by simp
qed simp

lemma zero_at_fs: "v_fs (fold zero_at ps st) = v_fs st"
  by (induction ps arbitrary: st) (simp_all add: zero_at_def)

lemma grow_inodes_fs:
  assumes "grow_inodes st = Some st'"
  shows "v_fs st' = v_fs st"
proof (cases "free_pages st")
  case Nil
  then show ?thesis using assms by (simp add: grow_inodes_def)
next
  case (Cons b pages)
  define st1 where "st1 = (fold zero_at (page_inodes b (st\<lparr>free_pages := pages\<rparr>)) (st\<lparr>free_pages := pages\<rparr>))"
  define st2 where "st2 = st1\<lparr>nr_inodes := nr_inodes st1 + int (inodes_per_page st1), nr_free_inodes := nr_free_inodes st1 + int (inodes_per_page st1)\<rparr>"
  obtain ps st3 where p: "first_of_page (page_inodes b (st\<lparr>free_pages := pages\<rparr>)) st2 = (ps, st3)"
    by (cases "first_of_page (page_inodes b (st\<lparr>free_pages := pages\<rparr>)) st2")
  have "grow_inodes st = (case first_of_page (page_inodes b (st\<lparr>free_pages := pages\<rparr>)) st2 of (ps, st) \<Rightarrow>
      if first_inode st = INull \<or> i_prev st (first_inode st) = INull \<or> i_next st (first_inode st) = INull
      then None else insert_new ps st)"
    by (simp add: grow_inodes_def Cons Let_def flip: st1_def st2_def)
  then have i: "insert_new ps st3 = Some st'" using assms unfolding p prod.case by (simp split: if_splits)
  have "v_fs st1 = v_fs st" unfolding st1_def zero_at_fs by simp
  moreover have "v_fs st3 = v_fs st2" using p unfolding first_of_page_def by (auto split: if_splits)
  ultimately show ?thesis using insert_new_fs [OF i] by (simp add: st2_def)
qed

lemma list_steps_fs [simp]:
  "v_fs (remove_inode_hash p st) = v_fs st" "v_fs (remove_inode_free p st) = v_fs st" "v_fs (wait_on_inode p st) = v_fs st"
  "v_fs (zero_at p st) = v_fs st"
  by (simp_all add: remove_inode_hash_def remove_inode_free_def wait_on_inode_def zero_at_def Let_def)

lemma insert_inode_free_fs: "insert_inode_free p st = Some st' \<Longrightarrow> v_fs st' = v_fs st"
  unfolding insert_inode_free_def Let_def by (auto split: if_splits)

lemma clear_inode_fs:
  assumes "clear_inode p st = Some st'"
  shows "v_fs st' = v_fs st"
proof -
  define st1 where "st1 = remove_inode_free p (remove_inode_hash p (wait_on_inode p st))"
  define st2 where "st2 = (if i_count (v_inode st1 p) \<noteq> 0 then st1\<lparr>nr_free_inodes := nr_free_inodes st1 + 1\<rparr> else st1)"
  have "insert_inode_free p (zero_at p st2) = Some st'" using assms unfolding clear_inode_def Let_def st1_def st2_def .
  from insert_inode_free_fs [OF this] show ?thesis by (simp add: st2_def st1_def)
qed

definition fs_settled :: "vfs \<Rightarrow> iptr \<times> vfs \<Rightarrow> bool" where
  "fs_settled st r \<longleftrightarrow> settled (v_fs st) (v_fs (snd r))"

lemma empty_repeat_settled:
  assumes "empty_repeat st = Some r"
  shows "fs_settled st r"
proof (rule empty_repeat.raw_induct [OF _ assms])
  fix er st r
  assume IH: "\<And>st r. er st = Some r \<Longrightarrow> fs_settled st r"
    and body: "Option.bind (scan_free (nat (nr_inodes st)) (first_inode st) INull st) (\<lambda>best.
       if (best = INull \<or> i_dirt (v_inode st best) \<or> i_lock st best) \<and> nr_inodes st < NR_INODE
       then Option.bind (grow_inodes st) er
       else if best = INull then None
       else if i_lock st best then er (wait_on_inode best st)
       else if i_dirt (v_inode st best) then Option.bind (write_inode best st) er
       else if i_count (v_inode st best) \<noteq> 0 then er st
       else Some (best, st)) = Some r"
  obtain best where sc: "scan_free (nat (nr_inodes st)) (first_inode st) INull st = Some best"
    using body by (cases "scan_free (nat (nr_inodes st)) (first_inode st) INull st") simp_all
  note body = body [unfolded sc bind.bind_lunit]
  show "fs_settled st r"
  proof (rule five_ways [OF body])
    assume "Option.bind (grow_inodes st) er = Some r"
    then obtain st1 where g: "grow_inodes st = Some st1" "er st1 = Some r" by (cases "grow_inodes st") simp_all
    then show ?thesis using IH [OF g(2)] grow_inodes_fs [OF g(1)] by (simp add: fs_settled_def)
  next
    assume e: "er (wait_on_inode best st) = Some r"
    show ?thesis using IH [OF e] by (simp add: fs_settled_def wait_on_inode_def)
  next
    assume "Option.bind (write_inode best st) er = Some r"
    then obtain st1 where g: "write_inode best st = Some st1" "er st1 = Some r" by (cases "write_inode best st") simp_all
    then show ?thesis using IH [OF g(2)] write_inode_settled [OF g(1)] settled_trans by (auto simp: fs_settled_def)
  next
    assume e: "er st = Some r"
    show ?thesis by (rule IH [OF e])
  next
    assume "Some (best, st) = Some r"
    then show ?thesis by (auto simp: fs_settled_def settled_refl)
  qed
qed

lemma get_empty_settled:
  assumes g: "get_empty_inode st = Some (p, st')"
  shows "settled (v_fs st) (v_fs st')"
proof -
  obtain st1 where s1: "(if nr_inodes st < NR_INODE \<and> nr_free_inodes st < nr_inodes st div 4 then grow_inodes st else Some st) = Some st1"
    using g unfolding get_empty_inode_def
    by (cases "if nr_inodes st < NR_INODE \<and> nr_free_inodes st < nr_inodes st div 4 then grow_inodes st else Some st") simp_all
  have f1: "v_fs st1 = v_fs st" using s1 grow_inodes_fs by (auto split: if_splits)
  obtain q st2 where e: "empty_repeat st1 = Some (q, st2)"
    using g unfolding get_empty_inode_def s1 bind.bind_lunit by (cases "empty_repeat st1") auto
  obtain st3 where c: "clear_inode q st2 = Some st3"
    using g unfolding get_empty_inode_def s1 bind.bind_lunit e prod.case by (cases "clear_inode q st2") simp_all
  have "v_fs st' = v_fs st3"
    using g unfolding get_empty_inode_def s1 bind.bind_lunit e prod.case c Let_def by (auto simp: set_inode_def split: if_splits)
  then show ?thesis using empty_repeat_settled [OF e] clear_inode_fs [OF c] f1 by (simp add: fs_settled_def)
qed

lemma read_inode_settled:
  assumes r: "read_inode p st = Some st'"
  shows "settled (v_fs st) (v_fs st')"
proof (cases "i_ino (v_inode st p) = INODE_DASD")
  case True
  then show ?thesis using r by (auto simp: read_inode_def Let_def set_inode_def settled_refl)
next
  case False
  let ?st = "lock_inode p st"
  have f: "v_fs ?st = v_fs st" "i_sb ?st p = i_sb st p" by (simp_all add: lock_inode_def wait_on_inode_def)
  show ?thesis
  proof (cases "i_sb st p")
    case True
    obtain i ev fs where e: "ext2_read_inode (event ?st) (v_inode ?st p) (v_fs ?st) = Some ((i, ev), fs)"
      using r True \<open>i_ino (v_inode st p) \<noteq> INODE_DASD\<close> f
      by (cases "ext2_read_inode (event ?st) (v_inode ?st p) (v_fs ?st)") (auto simp: read_inode_def Let_def)
    have "v_fs st' = fs" using r True \<open>i_ino (v_inode st p) \<noteq> INODE_DASD\<close> f e
      by (auto simp: read_inode_def Let_def unlock_inode_def set_inode_def)
    then show ?thesis using fs_read_inode_settled [OF e] f by simp
  next
    case False
    then have "v_fs st' = v_fs ?st" using r \<open>i_ino (v_inode st p) \<noteq> INODE_DASD\<close> f
      by (auto simp: read_inode_def Let_def unlock_inode_def)
    then show ?thesis using f by (simp add: settled_refl)
  qed
qed

lemma fill_empty_settled:
  assumes f: "fill_empty nr p st = Some st'"
  shows "settled (v_fs st) (v_fs st')"
proof -
  define st1 where "st1 = set_inode p ((v_inode (st\<lparr>i_sb := (i_sb st)(p := True), i_dev := (i_dev st)(p := s_dev st)\<rparr>) p)
    \<lparr>i_ino := nr, i_flags := ucast (s_flags (v_fs st))\<rparr>) (st\<lparr>i_sb := (i_sb st)(p := True), i_dev := (i_dev st)(p := s_dev st)\<rparr>)"
  obtain st2 where s2: "put_last_free p st1 = Some st2" and r: "read_inode p (insert_inode_hash p st2) = Some st'"
    using f unfolding fill_empty_def Let_def st1_def by (auto split: bind_splits)
  have "v_fs st2 = v_fs st1" using s2 unfolding put_last_free_def Let_def
    by (auto simp: remove_inode_free_def Let_def split: if_splits)
  moreover have "v_fs (insert_inode_hash p st2) = v_fs st2" by (simp add: insert_inode_hash_def Let_def)
  moreover have "v_fs st1 = v_fs st" by (simp add: st1_def set_inode_def)
  ultimately show ?thesis using read_inode_settled [OF r] by simp
qed

lemma iget_settled:
  assumes inv: "table_inv st xs hs" "pages_ok st xs" and g: "iget env nr st = Some (p, st')"
  shows "settled (v_fs st) (v_fs st') \<and> p \<noteq> INull"
proof (cases "List.find (match st nr) (hs (hashfn (s_dev st) nr))")
  case (Some q)
  then have "p = q" "st' = found_it p st" using iget_found [OF inv(1) Some] g by auto
  moreover have "q \<noteq> INull"
  proof -
    have "q \<in> set (hs (hashfn (s_dev st) nr))" using Some by (auto simp: find_Some_iff)
    moreover have "hashfn (s_dev st) nr < NR_IHASH" by (simp add: hashfn_def NR_IHASH_def)
    ultimately have "q \<in> set xs" using inv(1) unfolding table_inv_def chain_part_def by blast
    then show ?thesis using table_invD(6) [OF inv(1)] by auto
  qed
  ultimately show ?thesis by (simp add: found_it_def wait_on_inode_def set_inode_def Let_def settled_refl)
next
  case None
  obtain st2 xs2 where f: "get_empty_inode st = Some (p, st2)" "fill_empty nr p st2 = Some st'" "p \<in> set xs2"
      "table_inv st2 xs2 (drop_from p hs)"
    using iget_missing [OF inv None g] by blast
  have "p \<noteq> INull" using f(3) table_invD(6) [OF f(4)] by auto
  then show ?thesis using get_empty_settled [OF f(1)] fill_empty_settled [OF f(2)] settled_trans by blast
qed

end
