(* ===== verification/Ext2_Truncate_Props.thy ===== *)
theory Ext2_Truncate_Props
  imports Ext2_Truncate Ext2_Bmap_Props Ext2_Mount_Refs
begin

text \<open>
  What truncation frees: exactly the direct blocks past the new size whose buffers no one else uses, in the
  file and in the bitmaps alike.
\<close>

section \<open>Freeing blocks of files\<close>

text \<open>
  A block that a file may have: in the data zone, not in the system zone of any group, and not the first block
  of a group, which is its copy of the super block.
\<close>

definition data_block :: "ext2_fs \<Rightarrow> u32 \<Rightarrow> bool" where
  "data_block fs b \<longleftrightarrow> s_first_data_block fs \<le> b \<and> b < s_blocks_count fs \<and> bit_of fs b \<noteq> 0 \<and>
     (\<forall>g < s_groups_count fs. \<not> in_system_zone fs (desc_of fs g) b)"

definition no_bitmap :: "ext2_fs \<Rightarrow> u32 \<Rightarrow> bool" where
  "no_bitmap fs c \<longleftrightarrow> (\<forall>g < s_groups_count fs. c \<noteq> bmap_no fs g)"

lemma data_no_bitmap: "data_block fs b \<Longrightarrow> no_bitmap fs b"
  by (auto simp: data_block_def no_bitmap_def in_system_zone_def)

subsection \<open>The references\<close>

lemma brelse_other: "bh \<noteq> Some c \<Longrightarrow> b_count (brelse bh fs) c = b_count fs c"
  by (auto simp: brelse_def split: option.splits)

lemma read_block_bitmap_count:
  assumes "read_block_bitmap g nr fs = Some fs'" and wf: "gd_wf fs" and g: "g < s_groups_count fs" and c: "c \<noteq> bmap_no fs g"
  shows "b_count fs' c = b_count fs c"
proof -
  have p: "get_group_desc fs g = Some (gdp fs g)" by (rule get_group_desc_wf [OF wf g])
  obtain bh fs1 where b: "bread (bmap_no fs g) fs = (Some bh, fs1)"
    using assms(1) p by (cases "bread (bmap_no fs g) fs") (auto simp: read_block_bitmap_def split: option.splits)
  then show ?thesis using assms(1) c unfolding read_block_bitmap_def p by (simp add: bread_count [OF b] Let_def) auto
qed

text \<open>Loading a bitmap takes and gives back references of bitmaps only.\<close>

lemma load_block_count:
  assumes ok: "balloc_ok fs" and g: "g < s_groups_count fs" and l: "load_block_bitmap g fs = Some (nr, fs')" and c: "no_bitmap fs c"
  shows "b_count fs' c = b_count fs c"
  using l
proof (cases rule: load_block_ways)
  case same
  then show ?thesis by simp
next
  case small
  show ?thesis by (rule read_block_bitmap_count [OF small(4) balloc_okD(3) [OF ok] g]) (use c g in \<open>simp add: no_bitmap_def\<close>)
next
  case (hit i)
  then show ?thesis by simp
next
  case (miss c1 fs1)
  have w: "cache_wf (s_groups_count fs) (bmap_no fs) (block_cache fs)" using balloc_okD(2) [OF ok] by (simp add: blk.ready_def)
  have fs1: "fs1 = (if bm_loaded (block_cache fs) < 8 then fs else brelse (bm_bitmap (block_cache fs) ! 7) fs)"
    using miss(2) unfolding make_room_eq by simp
  have r: "b_count fs1 c = b_count fs c"
  proof (cases "bm_loaded (block_cache fs) < 8")
    case False
    have "bm_bitmap (block_cache fs) ! 7 \<noteq> Some c"
    proof
      assume s: "bm_bitmap (block_cache fs) ! 7 = Some c"
      have n: "\<not> s_groups_count fs \<le> 8" using miss(1) by simp
      have l8: "bm_loaded (block_cache fs) = 8" "length (bm_bitmap (block_cache fs)) = 8" "length (bm_number (block_cache fs)) = 8"
        using w False n by (auto simp: cache_wf_def)
      have "list_all2 (\<lambda>g b. g < s_groups_count fs \<and> b = Some (bmap_no fs g)) (mru (block_cache fs)) (bm_bitmap (block_cache fs))"
        using w n l8 by (simp add: cache_wf_def)
      then have "mru (block_cache fs) ! 7 < s_groups_count fs \<and> bm_bitmap (block_cache fs) ! 7 = Some (bmap_no fs (mru (block_cache fs) ! 7))"
        using l8 by (simp add: list_all2_conv_all_nth)
      then show False using s c unfolding no_bitmap_def by (metis option.inject)
    qed
    then show ?thesis using False by (simp add: fs1 brelse_other)
  qed (simp add: fs1)
  obtain m where m: "fs1 = fs\<lparr>b_count := m\<rparr>" using make_room_count [of "bm_loaded (block_cache fs) < 8" fs] unfolding fs1 by blast
  have d: "desc_of (fs1\<lparr>block_cache := c1\<rparr>) h = desc_of fs h" for h by (rule desc_of_cong) (simp_all add: m)
  have wf: "gd_wf (fs1\<lparr>block_cache := c1\<rparr>)" using balloc_okD(3) [OF ok] by (simp add: m gd_wf_def)
  have "b_count fs' c = b_count (fs1\<lparr>block_cache := c1\<rparr>) c"
    by (rule read_block_bitmap_count [OF miss(3) wf]) (use g c d [of g] in \<open>auto simp: m no_bitmap_def\<close>)
  then show ?thesis using r by simp
qed

lemma clear_bits_count: "clear_bits n nr bh p fs = Some fs' \<Longrightarrow> b_count fs' = b_count fs"
proof (induction n nr bh p fs rule: clear_bits.induct)
  case (2 n nr bh p fs)
  then show ?case by (auto simp: bind_eq_Some_conv Let_def gd_upd_def split: if_splits)
qed simp

lemma free_blocks_count:
  assumes ok: "balloc_ok fs" and r: "ext2_free_blocks block count fs = Some fs'" and z: "\<not> (block < s_first_data_block fs \<or> block + count > s_blocks_count fs)"
    and g: "group_of fs block < s_groups_count fs" and c: "no_bitmap fs c"
  shows "b_count fs' c = b_count fs c"
proof -
  let ?fs = "lock_super fs"
  have s: "s_first_data_block ?fs = s_first_data_block fs" "s_blocks_count ?fs = s_blocks_count fs" "s_groups_count ?fs = s_groups_count fs"
    "group_of ?fs block = group_of fs block" "b_count ?fs = b_count fs" "desc_of ?fs h = desc_of fs h" for h
    by (simp_all add: lock_super_def group_of_def gd_at_def gdp_def)
  obtain bh fs1 where gb: "group_bitmap (group_of fs block) ?fs = Some (bh, fs1)"
    using r z unfolding ext2_free_blocks_def Let_def s by (cases "group_bitmap (group_of fs block) ?fs") (auto split: if_splits)
  then obtain nr where l: "load_block_bitmap (group_of fs block) ?fs = Some (nr, fs1)"
    by (auto simp: group_bitmap_def bind_eq_Some_conv)
  have "b_count fs1 c = b_count ?fs c"
    by (rule load_block_count [OF lock_ok(1) [OF ok] _ l]) (use g c in \<open>simp_all add: s no_bitmap_def\<close>)
  moreover have "b_count fs' = b_count fs1"
  proof -
    note r = r [unfolded ext2_free_blocks_def Let_def s if_not_P [OF z]]
    obtain p where p: "get_group_desc fs1 (group_of fs block) = Some p"
      using r gb by (cases "get_group_desc fs1 (group_of fs block)") (auto split: if_splits)
    let ?cl = "clear_bits (unat count) (bit_of (lock_super fs) block) bh p fs1"
    obtain fs2 where c: "?cl = Some fs2" using r gb p by (cases ?cl) (auto split: if_splits)
    define fs3 where "fs3 = mark_buffer_dirty bh (mark_buffer_dirty (s_sbh (mark_buffer_dirty (gd_bh fs2 p) fs2)) (mark_buffer_dirty (gd_bh fs2 p) fs2))"
    have "fs' = unlock_super ((if s_flags fs3 AND MS_SYNCHRONOUS \<noteq> 0 then ll_rw_block_write bh fs3 else fs3)\<lparr>s_dirt := True\<rparr>)"
      using r gb p c unfolding fs3_def by (simp split: if_splits)
    then have "b_count fs' = b_count fs2" by (simp add: fs3_def unlock_super_def mark_buffer_dirty_def ll_rw_block_write_def)
    then show ?thesis using clear_bits_count [OF c] by simp
  qed
  ultimately show ?thesis by (simp add: s)
qed


subsection \<open>Freeing a run\<close>

text \<open>\<open>frees fs S W fs'\<close>: from \<open>fs\<close> to \<open>fs'\<close>, the blocks of \<open>S\<close> are freed and those of \<open>W\<close> overwritten; nothing
  else happens to the blocks and references of files.\<close>

definition frees :: "ext2_fs \<Rightarrow> u32 set \<Rightarrow> u32 set \<Rightarrow> ext2_fs \<Rightarrow> bool" where
  "frees fs S W fs' \<longleftrightarrow> layout fs' = layout fs \<and> balloc_ok fs' \<and> counts_ok fs' \<and>
     (\<forall>h. \<exists>n. desc_of fs' h = (desc_of fs h)\<lparr>bg_free_blocks_count := n\<rparr>) \<and>
     (\<forall>h < s_groups_count fs. \<forall>k < s_blocks_per_group fs. used fs' h k = (used fs h k \<and> block_no fs h k \<notin> S)) \<and>
     (\<forall>c. no_bitmap fs c \<longrightarrow> b_count fs' c = b_count fs c) \<and>
     (\<forall>c. no_bitmap fs c \<longrightarrow> c \<notin> W \<longrightarrow> b_data fs' c = b_data fs c) \<and>
     (\<forall>c \<in> W. \<exists>x. b_data fs' c = Some (replicate (s_blocksize fs) x))"

lemma freesD:
  assumes "frees fs S W fs'"
  shows "layout fs' = layout fs" and "balloc_ok fs'" and "counts_ok fs'"
    and "\<And>h. \<exists>n. desc_of fs' h = (desc_of fs h)\<lparr>bg_free_blocks_count := n\<rparr>"
    and "\<And>h k. h < s_groups_count fs \<Longrightarrow> k < s_blocks_per_group fs \<Longrightarrow> used fs' h k = (used fs h k \<and> block_no fs h k \<notin> S)"
    and "\<And>c. no_bitmap fs c \<Longrightarrow> b_count fs' c = b_count fs c"
    and "\<And>c. no_bitmap fs c \<Longrightarrow> c \<notin> W \<Longrightarrow> b_data fs' c = b_data fs c"
    and "\<And>c. c \<in> W \<Longrightarrow> \<exists>x. b_data fs' c = Some (replicate (s_blocksize fs) x)"
  using assms unfolding frees_def by blast+

lemma frees_refl: "balloc_ok fs \<Longrightarrow> counts_ok fs \<Longrightarrow> frees fs {} {} fs"
proof -
  assume "balloc_ok fs" "counts_ok fs"
  moreover have "\<exists>n. desc_of fs h = (desc_of fs h)\<lparr>bg_free_blocks_count := n\<rparr>" for h
    by (rule exI [where x = "bg_free_blocks_count (desc_of fs h)"]) simp
  ultimately show ?thesis by (simp add: frees_def)
qed

lemma frees_frame:
  assumes f: "frees fs S W fs'"
  shows "no_bitmap fs' = no_bitmap fs" and "data_block fs' = data_block fs" and "block_no fs' = block_no fs"
proof -
  note lay = layoutD [OF freesD(1) [OF f]]
  have d: "bg_block_bitmap (desc_of fs' h) = bg_block_bitmap (desc_of fs h)" "bg_inode_bitmap (desc_of fs' h) = bg_inode_bitmap (desc_of fs h)"
    "bg_inode_table (desc_of fs' h) = bg_inode_table (desc_of fs h)" for h
    using freesD(4) [OF f, of h] by auto
  show "no_bitmap fs' = no_bitmap fs" by (simp add: no_bitmap_def fun_eq_iff d lay)
  show "data_block fs' = data_block fs" by (simp add: data_block_def fun_eq_iff in_system_zone_def d lay bit_of_def)
  show "block_no fs' = block_no fs" by (simp add: fun_eq_iff layout_block_no [OF freesD(1) [OF f]])
qed

lemma frees_trans:
  assumes f: "frees fs S W fs1" and g: "frees fs1 T V fs2" and w: "\<forall>c \<in> W. no_bitmap fs c"
  shows "frees fs (S \<union> T) (W \<union> V) fs2"
proof -
  note lay = layoutD [OF freesD(1) [OF f]] and fr = frees_frame [OF f]
  have "\<exists>n. desc_of fs2 h = (desc_of fs h)\<lparr>bg_free_blocks_count := n\<rparr>" for h
    using freesD(4) [OF f, of h] freesD(4) [OF g, of h] by auto
  moreover have "used fs2 h k = (used fs h k \<and> block_no fs h k \<notin> S \<union> T)" if "h < s_groups_count fs" "k < s_blocks_per_group fs" for h k
    using freesD(5) [OF f that] freesD(5) [OF g, of h k] that by (simp add: lay fr(3))
  moreover have "\<exists>x. b_data fs2 c = Some (replicate (s_blocksize fs) x)" if "c \<in> W \<union> V" for c
  proof (cases "c \<in> V")
    case True
    then show ?thesis using freesD(8) [OF g] lay(1) by simp
  next
    case False
    then have "c \<in> W" using that by simp
    then show ?thesis using freesD(7) [OF g, of c] freesD(8) [OF f, of c] w False fr(1) by auto
  qed
  ultimately show ?thesis
    using freesD(1,2,3) [OF g] freesD(1) [OF f] freesD(6,7) [OF f] freesD(6,7) [OF g] unfolding frees_def fr(1) by auto
qed

text \<open>A run of blocks of files in one group.\<close>

definition good_run :: "ext2_fs \<Rightarrow> nat \<Rightarrow> nat \<Rightarrow> nat \<Rightarrow> bool" where
  "good_run fs g j n \<longleftrightarrow> g < s_groups_count fs \<and> j + n \<le> s_blocks_per_group fs \<and> 0 < n \<and>
     (\<forall>k. j \<le> k \<and> k < j + n \<longrightarrow> data_block fs (block_no fs g k))"

definition run_blocks :: "ext2_fs \<Rightarrow> nat \<Rightarrow> nat \<Rightarrow> nat \<Rightarrow> u32 set" where
  "run_blocks fs g j n = block_no fs g ` {j..<j + n}"

lemma clear_bits_total:
  assumes "b_data fs bh = Some bs" and "nr + n \<le> 8 * length bs"
  shows "\<exists>fs'. clear_bits n nr bh p fs = Some fs'"
  using assms
proof (induction n arbitrary: nr bs fs)
  case (Suc n)
  have "nr div 8 < length bs" using Suc.prems(2) by (simp add: less_mult_imp_div_less mult.commute)
  then have c: "clear_bit nr bs = Some (test_bit nr bs, poke_bit False nr bs)" by (simp add: clear_bit_def)
  define fs1 where "fs1 = fs\<lparr>b_data := (b_data fs)(bh \<mapsto> poke_bit False nr bs)\<rparr>"
  define fs2 where "fs2 = (if \<not> test_bit nr bs then fs1
     else (gd_upd p (\<lambda>gd. gd\<lparr>bg_free_blocks_count := bg_free_blocks_count gd + 1\<rparr>) fs1)\<lparr>s_free_blocks_count := s_free_blocks_count fs1 + 1\<rparr>)"
  have "b_data fs2 bh = Some (poke_bit False nr bs)" by (simp add: fs2_def fs1_def gd_upd_def)
  moreover have "Suc nr + n \<le> 8 * length (poke_bit False nr bs)" using Suc.prems(2) by simp
  ultimately have "\<exists>fs'. clear_bits n (Suc nr) bh p fs2 = Some fs'" by (rule Suc.IH)
  then show ?case using Suc.prems(1) c by (cases "test_bit nr bs") (simp_all add: Let_def fs2_def fs1_def)
qed simp

lemma run_bounds:
  assumes geom: "geom fs" and run: "good_run fs g j n" and i: "i < n"
  shows "unat (block_no fs g (j + i)) = unat (block_no fs g j) + i" and "block_no fs g (j + i) = block_no fs g j + of_nat i"
    and "s_first_data_block fs \<le> block_no fs g j" and "unat (block_no fs g j) + n \<le> unat (s_blocks_count fs)"
proof -
  have b: "g < s_groups_count fs" "j + n \<le> s_blocks_per_group fs" using run by (simp_all add: good_run_def)
  have u: "unat (block_no fs g (j + k)) = j + k + g * s_blocks_per_group fs + unat (s_first_data_block fs)" if "k < n" for k
    using unat_block_no(1) [OF geom b(1), of "j + k"] b(2) that by simp
  show "unat (block_no fs g (j + i)) = unat (block_no fs g j) + i" using u [OF i] u [of 0] i by simp
  show "block_no fs g (j + i) = block_no fs g j + of_nat i" by (simp add: block_no_def)
  show "s_first_data_block fs \<le> block_no fs g j" using u [of 0] i by (simp add: word_le_nat_alt)
  have "data_block fs (block_no fs g (j + (n - 1)))" using run i by (simp add: good_run_def)
  then have "unat (block_no fs g (j + (n - 1))) < unat (s_blocks_count fs)" by (simp add: data_block_def word_less_nat_alt)
  then show "unat (block_no fs g j) + n \<le> unat (s_blocks_count fs)" using u [of "n - 1"] u [of 0] i by simp
qed

lemma in_range_run:
  assumes geom: "geom fs" and run: "good_run fs g j n" and r: "in_range x (block_no fs g j) (of_nat n)"
  shows "x \<in> run_blocks fs g j n"
proof -
  let ?b = "block_no fs g j"
  have n: "0 < n" using run by (simp add: good_run_def)
  note b = run_bounds [OF geom run n]
  have "unat (s_blocks_count fs) < 2 ^ 32" by (rule less_le_trans [OF unsigned_less]) simp
  then have "unat ?b + (n - 1) < 2 ^ 32" using b(4) n by linarith
  then have u: "unat (?b + of_nat (n - 1)) = unat ?b + (n - 1)" by (intro unat_add_of_nat) simp
  have e: "?b + of_nat n - 1 = ?b + of_nat (n - 1)" using n by (simp add: of_nat_diff)
  have x: "unat ?b \<le> unat x" "unat x \<le> unat ?b + (n - 1)" using r unfolding in_range_def e word_le_nat_alt u by blast+
  define i where "i = unat x - unat ?b"
  have i: "i < n" "unat x = unat ?b + i" using x n by (auto simp: i_def)
  have "unat (block_no fs g (j + i)) = unat x" using run_bounds(1) [OF geom run i(1)] i(2) by simp
  then have "x = block_no fs g (j + i)" by (simp add: word_unat_eq_iff)
  then show ?thesis using i(1) by (simp add: run_blocks_def)
qed

lemma free_run_total:
  assumes ok: "balloc_ok fs" and run: "good_run fs g j n"
  shows "ext2_free_blocks (block_no fs g j) (of_nat n) fs \<noteq> None"
    and "\<not> (block_no fs g j < s_first_data_block fs \<or> block_no fs g j + of_nat n > s_blocks_count fs)"
    and "unat (of_nat n :: u32) = n" and "unat (block_no fs g j) + n < 2 ^ 32"
    and "group_of fs (block_no fs g j) = g" and "bit_of fs (block_no fs g j) = j"
proof -
  let ?fs = "lock_super fs" and ?b = "block_no fs g j"
  note geom = balloc_okD(1) [OF ok]
  have r: "g < s_groups_count fs" "j + n \<le> s_blocks_per_group fs" "0 < n" using run by (simp_all add: good_run_def)
  note bd = run_bounds [OF geom run r(3)]
  have j: "j < s_blocks_per_group fs" using r by simp
  have p16: "s_blocks_per_group fs < 2 ^ 16" using geom by (simp add: geom_def)
  note ok0 = lock_ok(1) [OF ok] and v0 = lock_views(1) [of fs]
  have lay0: "layout ?fs = layout fs" using v0 by (simp add: same_views_def)
  show gb: "group_of fs ?b = g" "bit_of fs ?b = j" using group_bit_of_block_no [OF geom r(1) j] by simp_all
  have e0: "group_of ?fs ?b = g" "bit_of ?fs ?b = j"
    using gb by (simp_all add: group_of_def bit_of_def layoutD [OF lay0])
  show un: "unat (of_nat n :: u32) = n" using r p16 by (intro unat_of_nat_u32) simp
  have "unat (s_blocks_count fs) < 2 ^ 32" by (rule less_le_trans [OF unsigned_less]) simp
  then show nw: "unat ?b + n < 2 ^ 32" using bd(4) by linarith
  then have ub: "unat (?b + of_nat n) = unat ?b + n" by (simp add: unat_add_of_nat)
  show nrej: "\<not> (?b < s_first_data_block fs \<or> ?b + of_nat n > s_blocks_count fs)"
    using bd(3,4) ub by (simp add: word_less_nat_alt word_le_nat_alt not_less)
  have one: "unat (of_nat j + of_nat n :: u32) = j + n"
  proof -
    have "unat (of_nat (j + n) :: u32) = j + n" using r(2) p16 by (intro unat_of_nat_u32) simp
    then show ?thesis by simp
  qed
  have le: "\<not> s_blocks_per_group fs < j + n" using r(2) by simp
  have g: "g < s_groups_count ?fs" using r(1) by (simp add: layoutD [OF lay0])
  obtain fs1 where gb1: "group_bitmap g ?fs = Some (bmap_no ?fs g, fs1)" "same_views ?fs fs1" "balloc_ok fs1"
    using group_bitmap_ok [OF ok0 g] by blast
  have v: "same_views fs fs1" by (rule same_views_trans [OF v0 gb1(2)])
  have lay: "layout fs1 = layout fs" using v by (simp add: same_views_def)
  have g1: "g < s_groups_count fs1" using r(1) layoutD [OF lay] by simp
  have p: "get_group_desc fs1 g = Some (gdp fs1 g)" by (rule get_group_desc_wf [OF balloc_okD(3) [OF gb1(3)] g1])
  let ?gd = "desc_of fs1 g"
  have zone: "\<not> in_system_zone fs (desc_of fs g) x" if "x \<in> run_blocks fs g j n" for x
    using that run r(1) by (auto simp: run_blocks_def good_run_def data_block_def)
  have first: "?b \<in> run_blocks fs g j n" using r(3) by (simp add: run_blocks_def)
  have "block_no fs g (j + (n - 1)) \<in> run_blocks fs g j n" using r(3) by (simp add: run_blocks_def)
  moreover have "block_no fs g (j + (n - 1)) = ?b + of_nat n - 1" using r(3) by (simp add: block_no_def of_nat_diff)
  ultimately have last: "?b + of_nat n - 1 \<in> run_blocks fs g j n" by simp
  have ns: "\<not> (test_opt fs1 EXT2_MOUNT_CHECK_STRICT \<and> (in_range (bg_block_bitmap ?gd) ?b (of_nat n) \<or>
      in_range (bg_inode_bitmap ?gd) ?b (of_nat n) \<or> in_range ?b (bg_inode_table ?gd) (of_nat (s_itb_per_group fs1)) \<or>
      in_range (?b + of_nat n - 1) (bg_inode_table ?gd) (of_nat (s_itb_per_group fs1))))"
    using zone [OF first] zone [OF last] zone [OF in_range_run [OF geom run]]
    unfolding in_system_zone_def same_views_desc [OF v] layoutD [OF lay] by blast
  obtain bs where bs: "b_data fs1 (bmap_no ?fs g) = Some bs"
    using balloc_okD(4) [OF gb1(3) g1] same_views_desc [OF gb1(2), of g] by auto
  have "j + n \<le> 8 * length bs"
    using balloc_okD(5) [OF gb1(3) g1] bs same_views_desc [OF gb1(2), of g] r(2) layoutD [OF lay] by simp
  then obtain fs2 where c: "clear_bits (unat (of_nat n :: u32)) j (bmap_no ?fs g) (gdp fs1 g) fs1 = Some fs2"
    using clear_bits_total [OF bs] unfolding un by blast
  show "ext2_free_blocks ?b (of_nat n) fs \<noteq> None"
    unfolding ext2_free_blocks_def Let_def e0 layoutD [OF lay0] if_not_P [OF nrej] one if_not_P [OF le]
      gb1(1) p bind.bind_lunit prod.case if_not_P [OF ns] c
    by simp
qed

lemma free_run:
  assumes ok: "balloc_ok fs" "counts_ok fs" and run: "good_run fs g j n"
  shows "\<exists>fs'. ext2_free_blocks (block_no fs g j) (of_nat n) fs = Some fs' \<and> frees fs (run_blocks fs g j n) {} fs'"
proof -
  let ?b = "block_no fs g j"
  note geom = balloc_okD(1) [OF ok(1)]
  note tot = free_run_total [OF ok(1) run]
  have r: "g < s_groups_count fs" "j + n \<le> s_blocks_per_group fs" "0 < n" using run by (simp_all add: good_run_def)
  obtain fs' where f: "ext2_free_blocks ?b (of_nat n) fs = Some fs'" using tot(1) by blast
  have nw: "unat ?b + unat (of_nat n :: u32) < 2 ^ 32" using tot(3,4) by simp
  have fr: "free_rel fs g j n fs'"
  proof (cases rule: free_blocks_cases [OF ok(1) f nw])
    case 1
    then show ?thesis using tot(2) by simp
  next
    case 2
    then show ?thesis by (simp add: tot(3,5,6))
  qed
  have nb: "bmap_no fs h \<noteq> block_no fs g k" "block_no fs g k < s_blocks_count fs" if "h < s_groups_count fs" "j \<le> k" "k < j + n" for h k
    using run that data_no_bitmap [of fs "block_no fs g k"] by (auto simp: good_run_def no_bitmap_def data_block_def)
  have ok': "balloc_ok fs'" by (rule free_rel_ok [OF ok(1) fr r(2) r(1)]) (use nb r(1) in blast)+
  have cn: "counts_ok fs'" by (rule free_rel_counts [OF geom ok(2) fr r(2) r(1)])
  have "\<exists>m. desc_of fs' h = (desc_of fs h)\<lparr>bg_free_blocks_count := m\<rparr>" for h
  proof (cases "h = g")
    case True
    then show ?thesis using free_relD(4) [OF fr, of h] by (auto simp: give_free_def)
  next
    case False
    then show ?thesis using free_relD(4) [OF fr, of h] by (intro exI [where x = "bg_free_blocks_count (desc_of fs h)"]) simp
  qed
  moreover have "used fs' h k = (used fs h k \<and> block_no fs h k \<notin> run_blocks fs g j n)"
    if h: "h < s_groups_count fs" and k: "k < s_blocks_per_group fs" for h k
  proof -
    have "block_no fs h k \<in> run_blocks fs g j n \<longleftrightarrow> h = g \<and> j \<le> k \<and> k < j + n"
    proof
      assume "block_no fs h k \<in> run_blocks fs g j n"
      then obtain x where x: "j \<le> x" "x < j + n" "block_no fs h k = block_no fs g x" by (auto simp: run_blocks_def)
      then have "h = g \<and> k = x" using block_no_inj [OF geom h k r(1) _ x(3)] r(2) by simp
      then show "h = g \<and> j \<le> k \<and> k < j + n" using x by simp
    qed (simp add: run_blocks_def)
    then show ?thesis using free_relD(6) [OF fr h] by simp
  qed
  moreover have "b_count fs' c = b_count fs c" if "no_bitmap fs c" for c
    by (rule free_blocks_count [OF ok(1) f tot(2) _ that]) (simp add: tot(5) r(1))
  moreover have "b_data fs' c = b_data fs c" if "no_bitmap fs c" for c
    using free_relD(8) [OF fr, of c] that r(1) by (auto simp: no_bitmap_def)
  ultimately show ?thesis using f ok' cn free_relD(1) [OF fr] by (auto simp: frees_def)
qed


section \<open>The run that truncation collects\<close>

definition pending :: "ext2_fs \<Rightarrow> run \<Rightarrow> u32 set \<Rightarrow> bool" where
  "pending fs run P \<longleftrightarrow> snd run = 0 \<and> P = {} \<or>
     (\<exists>g j n. run = (block_no fs g j, of_nat n) \<and> good_run fs g j n \<and> P = run_blocks fs g j n)"

lemma pending_frees:
  assumes "frees fs S W fs'"
  shows "pending fs' = pending fs"
proof -
  note fr = frees_frame [OF assms] and lay = layoutD [OF freesD(1) [OF assms]]
  have "good_run fs' = good_run fs" "run_blocks fs' = run_blocks fs"
    by (simp_all add: good_run_def run_blocks_def fun_eq_iff fr lay)
  then show ?thesis by (simp add: pending_def fun_eq_iff fr(3))
qed

lemma good_run_one:
  assumes "geom fs" and "data_block fs b"
  shows "good_run fs (group_of fs b) (bit_of fs b) 1" and "block_no fs (group_of fs b) (bit_of fs b) = b"
    and "run_blocks fs (group_of fs b) (bit_of fs b) 1 = {b}"
proof -
  note z = zone_block [OF assms(1), of b]
  show b: "block_no fs (group_of fs b) (bit_of fs b) = b" using z assms(2) by (simp add: data_block_def)
  have "data_block fs (block_no fs (group_of fs b) k)" if "bit_of fs b \<le> k \<and> k < bit_of fs b + 1" for k
  proof -
    have "k = bit_of fs b" using that by simp
    then show ?thesis using b assms(2) by simp
  qed
  moreover have "group_of fs b < s_groups_count fs" "bit_of fs b + 1 \<le> s_blocks_per_group fs"
    using z(1,2) assms(2) by (simp_all add: data_block_def Suc_le_eq)
  ultimately show "good_run fs (group_of fs b) (bit_of fs b) 1" unfolding good_run_def by blast
  show "run_blocks fs (group_of fs b) (bit_of fs b) 1 = {b}" using b by (simp add: run_blocks_def)
qed

text \<open>The block after a run is in the same group, for it is not the first one of a group.\<close>

lemma good_run_Suc:
  assumes geom: "geom fs" and run: "good_run fs g j n" and d: "data_block fs (block_no fs g j + of_nat n)"
  shows "good_run fs g j (Suc n)" and "run_blocks fs g j (Suc n) = insert (block_no fs g j + of_nat n) (run_blocks fs g j n)"
proof -
  let ?b = "block_no fs g j" and ?t = "block_no fs g j + of_nat n"
  have r: "g < s_groups_count fs" "j + n \<le> s_blocks_per_group fs" "0 < n" using run by (simp_all add: good_run_def)
  have t: "?t = block_no fs g (j + n)" by (simp add: block_no_def)
  have "j + n \<noteq> s_blocks_per_group fs"
  proof
    assume e: "j + n = s_blocks_per_group fs"
    have b: "unat ?b = j + g * s_blocks_per_group fs + unat (s_first_data_block fs)"
      using unat_block_no(1) [OF geom r(1), of j] r by simp
    have "unat (s_blocks_count fs) < 2 ^ 32" by (rule less_le_trans [OF unsigned_less]) simp
    then have "unat ?b + n < 2 ^ 32" using run_bounds(4) [OF geom run r(3)] by linarith
    then have ut: "unat ?t = unat ?b + n" by (simp add: unat_add_of_nat)
    have "s_first_data_block fs \<le> ?t" using d by (simp add: data_block_def)
    then have "unat (?t - s_first_data_block fs) = unat ?t - unat (s_first_data_block fs)" by (simp add: unat_sub)
    also have "\<dots> = s_blocks_per_group fs * Suc g" using ut b e by (simp add: algebra_simps)
    finally have "bit_of fs ?t = 0" by (simp add: bit_of_def)
    then show False using d by (simp add: data_block_def)
  qed
  then have "j + Suc n \<le> s_blocks_per_group fs" using r(2) by simp
  moreover have "data_block fs (block_no fs g k)" if "j \<le> k" "k < j + Suc n" for k
    using that run d t by (cases "k = j + n") (auto simp: good_run_def)
  ultimately show "good_run fs g j (Suc n)" using r(1) by (simp add: good_run_def)
  show "run_blocks fs g j (Suc n) = insert ?t (run_blocks fs g j n)"
    unfolding run_blocks_def t by (simp add: atLeastLessThanSuc)
qed

lemma pending_none:
  assumes ok: "balloc_ok fs" and p: "pending fs run P" and z: "snd run = 0"
  shows "P = {}"
proof (rule ccontr)
  assume "P \<noteq> {}"
  then obtain g j n where r: "run = (block_no fs g j, of_nat n)" "good_run fs g j n" using p by (auto simp: pending_def)
  have "unat (of_nat n :: u32) = n" by (rule free_run_total(3) [OF ok r(2)])
  then show False using r z by (simp add: good_run_def)
qed

lemma add_run_frees:
  assumes ok: "balloc_ok fs" "counts_ok fs" and p: "pending fs run P" and d: "data_block fs tmp"
  shows "\<exists>run' fs' S P'. add_run tmp run fs = Some (run', fs') \<and> frees fs S {} fs' \<and> pending fs' run' P' \<and> S \<union> P' = insert tmp P"
proof -
  note geom = balloc_okD(1) [OF ok(1)]
  note one = good_run_one [OF geom d]
  have p1: "pending fs (tmp, 1) {tmp}" unfolding pending_def using one by (metis of_nat_1)
  show ?thesis
  proof (cases "snd run = 0")
    case True
    then have "P = {}" by (rule pending_none [OF ok(1) p])
    moreover have "add_run tmp run fs = Some ((tmp, 1), fs)" using True by (cases run) (simp add: add_run_def)
    ultimately show ?thesis using frees_refl [OF ok] p1 by auto
  next
    case False
    then obtain g j n where r: "run = (block_no fs g j, of_nat n)" "good_run fs g j n" "P = run_blocks fs g j n"
      using p by (auto simp: pending_def)
    have c: "(of_nat n :: u32) \<noteq> 0" using False r(1) by simp
    show ?thesis
    proof (cases "block_no fs g j = tmp - of_nat n")
      case True
      then have t: "tmp = block_no fs g j + of_nat n" by (simp add: algebra_simps)
      have "add_run tmp run fs = Some ((block_no fs g j, of_nat (Suc n)), fs)"
        using c True unfolding r(1) add_run_def by (simp add: add.commute)
      moreover have "pending fs (block_no fs g j, of_nat (Suc n)) (insert tmp P)"
        using good_run_Suc [OF geom r(2) d [unfolded t]] unfolding pending_def r(3) t by blast
      ultimately show ?thesis using frees_refl [OF ok] by (metis Un_empty_left)
    next
      case False
      obtain fs' where f: "ext2_free_blocks (block_no fs g j) (of_nat n) fs = Some fs'" "frees fs P {} fs'"
        using free_run [OF ok r(2)] r(3) by blast
      have "add_run tmp run fs = Some ((tmp, 1), fs')" using c False f(1) unfolding r(1) add_run_def by simp
      moreover have "pending fs' (tmp, 1) {tmp}" using p1 pending_frees [OF f(2)] by simp
      ultimately show ?thesis using f(2) by (metis Un_insert_right sup_bot.right_neutral)
    qed
  qed
qed

lemma flush_run_frees:
  assumes ok: "balloc_ok fs" "counts_ok fs" and p: "pending fs run P"
  shows "\<exists>fs'. flush_run run fs = Some fs' \<and> frees fs P {} fs'"
proof (cases "snd run = 0")
  case True
  then have "P = {}" by (rule pending_none [OF ok(1) p])
  then show ?thesis using True frees_refl [OF ok] by (cases run) (simp add: flush_run_def)
next
  case False
  then obtain g j n where r: "run = (block_no fs g j, of_nat n)" "good_run fs g j n" "P = run_blocks fs g j n"
    using p by (auto simp: pending_def)
  then show ?thesis using False free_run [OF ok r(2)] by (simp add: flush_run_def word_neq_0_conv)
qed


section \<open>One block of the file\<close>

abbreviation secure :: "inode \<Rightarrow> bool" where
  "secure inode \<equiv> e_flags inode AND EXT2_SECRM_FL \<noteq> 0"

lemma getblk_busy:
  assumes "trunc_getblk inode tmp fs = (bh, fs1)"
  shows "in_use bh fs1 \<longleftrightarrow> b_count fs tmp \<noteq> 0" and "b_count fs tmp \<noteq> 0 \<Longrightarrow> brelse bh fs1 = fs"
  using assms by (auto simp: trunc_getblk_def get_hash_table_def getblk_def in_use_def brelse_def split: if_splits)

text \<open>Overwriting a block that is no bitmap.\<close>

lemma overwrite_frees:
  assumes ok: "balloc_ok fs" "counts_ok fs" and c: "no_bitmap fs c" and n: "length bs = s_blocksize fs" "bs = replicate (length bs) x"
  shows "frees fs {} {c} (fs\<lparr>b_data := (b_data fs)(c \<mapsto> bs), b_dirt := D\<rparr>)"
proof -
  define fs' where "fs' = fs\<lparr>b_data := (b_data fs)(c \<mapsto> bs), b_dirt := D\<rparr>"
  have lay: "layout fs' = layout fs" by (simp add: fs'_def layout_def)
  have d: "desc_of fs' h = desc_of fs h" for h unfolding fs'_def by (rule desc_of_cong) simp_all
  have b: "b_data fs' (bmap_no fs h) = b_data fs (bmap_no fs h)" if "h < s_groups_count fs" for h
    using c that by (auto simp: fs'_def no_bitmap_def)
  have u: "used fs' h = used fs h" if "h < s_groups_count fs" for h
    by (simp add: fun_eq_iff used_def d b [OF that])
  have "gd_wf fs'" using balloc_okD(3) [OF ok(1)] by (simp add: fs'_def gd_wf_def)
  moreover have "cache_wf (s_groups_count fs') (bmap_no fs') (block_cache fs')"
    using balloc_okD(2) [OF ok(1)] unfolding blk.ready_def d by (simp add: fs'_def)
  ultimately have "blk.ready fs'" using balloc_okD(4) [OF ok(1)] b by (simp add: blk.ready_def d layoutD [OF lay])
  moreover have "\<exists>h < s_groups_count fs. \<exists>k < s_blocks_per_group fs. bmap_no fs g = block_no fs h k \<and> used fs' h k"
    if g: "g < s_groups_count fs" for g
  proof -
    obtain h k where "h < s_groups_count fs" "k < s_blocks_per_group fs" "bmap_no fs g = block_no fs h k" "used fs h k"
      using ok(1) g unfolding balloc_ok_def by blast
    then show ?thesis using u by metis
  qed
  ultimately have "balloc_ok fs'"
    using balloc_okD(1,5,6,7) [OF ok(1)] b u layout_geom [OF lay] unfolding balloc_ok_def d layoutD [OF lay] layout_block_no [OF lay] by simp
  moreover have "counts_ok fs'"
    using ok(2) u unfolding counts_ok_def d layoutD [OF lay] by (simp add: fs'_def)
  moreover have "\<exists>m. desc_of fs' h = (desc_of fs h)\<lparr>bg_free_blocks_count := m\<rparr>" for h
    unfolding d by (rule exI [where x = "bg_free_blocks_count (desc_of fs h)"]) simp
  moreover have "\<exists>y. b_data fs' c = Some (replicate (s_blocksize fs) y)" using n by (auto simp: fs'_def)
  ultimately have "frees fs {} {c} fs'" using lay u by (simp add: frees_def) (simp add: fs'_def)
  then show ?thesis by (simp add: fs'_def)
qed

lemma clear_block_frees:
  fixes sd sd1 :: u32
  assumes ok: "balloc_ok fs" "counts_ok fs" and d: "data_block fs tmp" and free: "b_count fs tmp = 0"
    and g: "trunc_getblk inode tmp fs = (bh, fs1)" and e: "e_flags inode1 = e_flags inode" and s: "secure_delete inode1 bh sd fs1 = (sd1, fs2)"
  shows "frees fs {} (if secure inode then {tmp} else {}) (brelse bh fs2)"
proof (cases "secure inode")
  case False
  then have "bh = None" "fs1 = fs" using g free by (simp_all add: trunc_getblk_def get_hash_table_def)
  then have "fs2 = fs" using s by (simp add: secure_delete_def)
  then show ?thesis using False \<open>bh = None\<close> frees_refl [OF ok] by (simp add: brelse_def)
next
  case True
  then have b: "bh = Some tmp" "fs1 = fs\<lparr>b_count := (b_count fs)(tmp := Suc 0)\<rparr>" using g free by (simp_all add: trunc_getblk_def getblk_def)
  define x where "x = (ucast sd1 :: u8)"
  have "fs2 = mark_buffer_dirty tmp (fs1\<lparr>b_data := (b_data fs1)(tmp \<mapsto> replicate (s_blocksize fs1) x)\<rparr>)"
    using s True e b(1) by (auto simp: secure_delete_def Let_def x_def)
  then have "brelse bh fs2 = fs\<lparr>b_data := (b_data fs)(tmp \<mapsto> replicate (s_blocksize fs) x), b_dirt := (b_dirt fs)(tmp := True)\<rparr>"
    using free b by (simp add: brelse_def mark_buffer_dirty_def fun_upd_idem)
  then show ?thesis using True overwrite_frees [OF ok data_no_bitmap [OF d], of "replicate (s_blocksize fs) x" x] by simp
qed

section \<open>The loop\<close>

text \<open>The entries of the inode that truncation clears, out of the \<open>n\<close> from \<open>i\<close> on.\<close>

definition idle :: "ext2_fs \<Rightarrow> inode \<Rightarrow> nat \<Rightarrow> nat \<Rightarrow> nat set" where
  "idle fs inode i n = {k. i \<le> k \<and> k < i + n \<and> i_data inode ! k \<noteq> 0 \<and> b_count fs (i_data inode ! k) = 0}"

definition busy :: "ext2_fs \<Rightarrow> inode \<Rightarrow> nat \<Rightarrow> nat \<Rightarrow> bool" where
  "busy fs inode i n \<longleftrightarrow> (\<exists>k. i \<le> k \<and> k < i + n \<and> i_data inode ! k \<noteq> 0 \<and> b_count fs (i_data inode ! k) \<noteq> 0)"

lemma idle_Suc:
  "idle fs inode i (Suc n) = (if i_data inode ! i \<noteq> 0 \<and> b_count fs (i_data inode ! i) = 0 then {i} else {}) \<union> idle fs inode (Suc i) n"
  by (auto simp: idle_def le_less Suc_le_eq)

lemma busy_Suc:
  "busy fs inode i (Suc n) \<longleftrightarrow> i_data inode ! i \<noteq> 0 \<and> b_count fs (i_data inode ! i) \<noteq> 0 \<or> busy fs inode (Suc i) n"
proof -
  have "i \<le> k \<and> k < i + Suc n \<longleftrightarrow> k = i \<or> Suc i \<le> k \<and> k < Suc i + n" for k by arith
  then show ?thesis unfolding busy_def by (metis (no_types, lifting))
qed

lemma idle_finite: "finite (idle fs inode i n)"
  by (rule finite_subset [of _ "{..<i + n}"]) (auto simp: idle_def)

lemma idle_cong:
  assumes "\<And>k. i \<le> k \<Longrightarrow> k < i + n \<Longrightarrow> i_data inode1 ! k = i_data inode ! k"
    and "\<And>k. i \<le> k \<Longrightarrow> k < i + n \<Longrightarrow> i_data inode ! k \<noteq> 0 \<Longrightarrow> b_count fs1 (i_data inode ! k) = b_count fs (i_data inode ! k)"
  shows "idle fs1 inode1 i n = idle fs inode i n" and "busy fs1 inode1 i n = busy fs inode i n"
  using assms by (auto simp: idle_def busy_def)

definition cut_entries :: "nat set \<Rightarrow> u32 list \<Rightarrow> u32 list" where
  "cut_entries K d = List.map (\<lambda>k. if k \<in> K then 0 else d ! k) [0..<length d]"

lemma cut_entries_simps:
  "length (cut_entries K d) = length d" "cut_entries {} d = d"
  "k < length d \<Longrightarrow> cut_entries K d ! k = (if k \<in> K then 0 else d ! k)"
  "i < length d \<Longrightarrow> cut_entries K (d[i := 0]) = cut_entries (insert i K) d"
  by (simp_all add: cut_entries_def map_nth)

definition cut_inode :: "u32 \<Rightarrow> nat set \<Rightarrow> inode \<Rightarrow> inode" where
  "cut_inode blocks K inode = inode\<lparr>i_data := cut_entries K (i_data inode),
     i_blocks := i_blocks inode - of_nat (card K) * blocks, i_dirt := i_dirt inode \<or> K \<noteq> {}\<rparr>"

lemma cut_inode_empty: "cut_inode blocks {} inode = inode"
  by (simp add: cut_inode_def cut_entries_simps)

lemma cut_inode_insert:
  assumes "i < length (i_data inode)" and "i \<notin> K" and "finite K"
    and "inode1 = inode\<lparr>i_data := (i_data inode)[i := 0], i_blocks := i_blocks inode - blocks, i_dirt := True\<rparr>"
  shows "cut_inode blocks K inode1 = cut_inode blocks (insert i K) inode"
  using assms by (simp add: cut_inode_def cut_entries_simps algebra_simps)

abbreviation idle_blocks :: "ext2_fs \<Rightarrow> inode \<Rightarrow> nat \<Rightarrow> nat \<Rightarrow> u32 set" where
  "idle_blocks fs inode i n \<equiv> (!) (i_data inode) ` idle fs inode i n"

lemma trunc_direct_loop_frees:
  fixes sd :: u32
  assumes "balloc_ok fs" and "counts_ok fs" and "pending fs run P" and "i + n \<le> length (i_data inode)"
    and "\<And>k. i \<le> k \<Longrightarrow> k < i + n \<Longrightarrow> i_data inode ! k \<noteq> 0 \<Longrightarrow> data_block fs (i_data inode ! k)"
  shows "\<exists>run' sd' fs' S P'. trunc_direct_loop blocks n i retry run inode sd fs =
      Some (((retry \<or> busy fs inode i n, run'), (cut_inode blocks (idle fs inode i n) inode, sd')), fs') \<and>
    frees fs S (if secure inode then idle_blocks fs inode i n else {}) fs' \<and> pending fs' run' P' \<and>
    S \<union> P' = P \<union> idle_blocks fs inode i n"
  using assms
proof (induction n arbitrary: i retry run P inode sd fs)
  case 0
  have "idle fs inode i 0 = {}" "\<not> busy fs inode i 0" by (auto simp: idle_def busy_def)
  then show ?case using frees_refl [OF "0.prems"(1,2)] "0.prems"(3) by (auto simp: cut_inode_empty)
next
  case (Suc n)
  note ok = Suc.prems(1,2)
  define tmp where "tmp = i_data inode ! i"
  have len: "i < length (i_data inode)" "Suc i + n \<le> length (i_data inode)" using Suc.prems(4) by simp_all
  have db: "data_block fs (i_data inode ! k)" if "Suc i \<le> k" "k < Suc i + n" "i_data inode ! k \<noteq> 0" for k
    using Suc.prems(5) that by simp
  consider (hole) "tmp = 0" | (used) "tmp \<noteq> 0" "b_count fs tmp \<noteq> 0" | (free) "tmp \<noteq> 0" "b_count fs tmp = 0" by blast
  then show ?case
  proof cases
    case hole
    then have "trunc_direct_loop blocks (Suc n) i retry run inode sd fs = trunc_direct_loop blocks n (Suc i) retry run inode sd fs"
      by (simp add: tmp_def)
    moreover have "idle fs inode i (Suc n) = idle fs inode (Suc i) n" "busy fs inode i (Suc n) = busy fs inode (Suc i) n"
      using hole by (simp_all add: idle_Suc busy_Suc tmp_def)
    ultimately show ?thesis using Suc.IH [OF Suc.prems(1,2,3) len(2) db, of retry sd]
      by (simp only: simp_thms not_False_eq_True)
  next
    case used
    obtain bh fs1 where g: "trunc_getblk inode tmp fs = (bh, fs1)" by (cases "trunc_getblk inode tmp fs")
    note b = getblk_busy [OF g]
    have "trunc_direct_loop blocks (Suc n) i retry run inode sd fs = trunc_direct_loop blocks n (Suc i) True run inode sd fs"
      using used g b by (simp add: tmp_def Let_def)
    moreover have "idle fs inode i (Suc n) = idle fs inode (Suc i) n" "busy fs inode i (Suc n)"
      using used by (simp_all add: idle_Suc busy_Suc tmp_def)
    ultimately show ?thesis using Suc.IH [OF Suc.prems(1,2,3) len(2) db, of True sd]
      by (simp only: simp_thms not_False_eq_True)
  next
    case free
    obtain bh fs1 where g: "trunc_getblk inode tmp fs = (bh, fs1)" by (cases "trunc_getblk inode tmp fs")
    have nb: "\<not> in_use bh fs1" using getblk_busy(1) [OF g] free(2) by simp
    define inode1 where "inode1 = inode\<lparr>i_data := (i_data inode)[i := 0], i_blocks := i_blocks inode - blocks, i_dirt := True\<rparr>"
    obtain sd1 fs2 where s: "secure_delete inode1 bh sd fs1 = (sd1, fs2)" by (cases "secure_delete inode1 bh sd fs1")
    have d: "data_block fs tmp" using Suc.prems(5) [of i] free(1) by (simp add: tmp_def)
    have sec: "e_flags inode1 = e_flags inode" by (simp add: inode1_def)
    define W0 where "W0 = (if secure inode then {tmp} else {})"
    have f0: "frees fs {} W0 (brelse bh fs2)" unfolding W0_def by (rule clear_block_frees [OF ok d free(2) g sec s])
    note fr0 = frees_frame [OF f0]
    obtain run1 fs3 S1 P1 where a: "add_run tmp run (brelse bh fs2) = Some (run1, fs3)" "frees (brelse bh fs2) S1 {} fs3"
        "pending fs3 run1 P1" "S1 \<union> P1 = insert tmp P"
      using add_run_frees [OF freesD(2,3) [OF f0], of run P tmp] Suc.prems(3) d fr0(2) pending_frees [OF f0] by auto
    have w0: "\<forall>c \<in> W0. no_bitmap fs c" using data_no_bitmap [OF d] by (simp add: W0_def)
    have f1: "frees fs S1 W0 fs3" using frees_trans [OF f0 a(2) w0] by simp
    note fr1 = frees_frame [OF f1]
    have keep: "i_data inode1 ! k = i_data inode ! k" if "Suc i \<le> k" for k using that by (simp add: inode1_def)
    have id: "idle fs3 inode1 (Suc i) n = idle fs inode (Suc i) n" "busy fs3 inode1 (Suc i) n = busy fs inode (Suc i) n"
      using idle_cong [OF keep freesD(6) [OF f1 data_no_bitmap [OF db]], of "Suc i" n] by simp_all
    have len1: "Suc i + n \<le> length (i_data inode1)" using len(2) by (simp add: inode1_def)
    have db1: "data_block fs3 (i_data inode1 ! k)" if "Suc i \<le> k" "k < Suc i + n" "i_data inode1 ! k \<noteq> 0" for k
      using db [of k] that keep [of k] fr1(2) by simp
    obtain run' sd' fs' S P' where r: "trunc_direct_loop blocks n (Suc i) retry run1 inode1 sd1 fs3 =
          Some (((retry \<or> busy fs inode (Suc i) n, run'), (cut_inode blocks (idle fs inode (Suc i) n) inode1, sd')), fs')"
        "frees fs3 S (if secure inode then idle_blocks fs3 inode1 (Suc i) n else {}) fs'" "pending fs' run' P'"
        "S \<union> P' = P1 \<union> idle_blocks fs3 inode1 (Suc i) n"
      using Suc.IH [OF freesD(2,3) [OF f1] a(3) len1 db1, of retry sd1] unfolding id sec by blast
    have ib: "idle_blocks fs3 inode1 (Suc i) n = idle_blocks fs inode (Suc i) n"
      unfolding id by (rule image_cong [OF refl]) (simp add: idle_def keep)
    have K: "idle fs inode i (Suc n) = insert i (idle fs inode (Suc i) n)" "busy fs inode i (Suc n) = busy fs inode (Suc i) n"
      using free by (simp_all add: idle_Suc busy_Suc tmp_def)
    have Ib: "idle_blocks fs inode i (Suc n) = insert tmp (idle_blocks fs inode (Suc i) n)" unfolding K by (simp add: tmp_def)
    have "cut_inode blocks (idle fs inode (Suc i) n) inode1 = cut_inode blocks (idle fs inode i (Suc n)) inode"
      unfolding K by (rule cut_inode_insert [OF len(1) _ idle_finite inode1_def]) (simp add: idle_def)
    moreover have "trunc_direct_loop blocks (Suc n) i retry run inode sd fs = trunc_direct_loop blocks n (Suc i) retry run1 inode1 sd1 fs3"
      using free(1) nb by (simp add: Let_def tmp_def [symmetric] g inode1_def [symmetric] s a(1))
    ultimately have l: "trunc_direct_loop blocks (Suc n) i retry run inode sd fs =
        Some (((retry \<or> busy fs inode i (Suc n), run'), (cut_inode blocks (idle fs inode i (Suc n)) inode, sd')), fs')"
      using r(1) K(2) by simp
    have W: "W0 \<union> (if secure inode then idle_blocks fs3 inode1 (Suc i) n else {}) =
        (if secure inode then idle_blocks fs inode i (Suc n) else {})"
      unfolding W0_def ib Ib by simp
    have f: "frees fs (S1 \<union> S) (if secure inode then idle_blocks fs inode i (Suc n) else {}) fs'"
      using frees_trans [OF f1 r(2) w0] unfolding W .
    have "(S1 \<union> S) \<union> P' = P \<union> idle_blocks fs inode i (Suc n)" using a(4) r(4) unfolding ib Ib by auto
    then show ?thesis using l f r(3) by blast
  qed
qed

text \<open>C13. On consistent bitmaps, for a file whose direct blocks past the new size are blocks that a file may
  have, \<open>trunc_direct\<close> returns. Let \<open>K\<close> be the entries past the new size with a block whose buffer no one
  holds. The entries of \<open>K\<close>, and no others, are cleared in the inode, and \<open>i_blocks\<close> goes down by their sectors;
  their blocks, and no others, are freed in the block bitmaps, whichever runs they were freed in, and the free
  counts stay right. A block that someone holds keeps its entry and its bit, and the caller is told to retry. All
  references to buffers of files are as before, and so are their contents, but for the freed blocks of a file that
  is deleted securely, which are overwritten with one byte.\<close>

theorem trunc_direct_frees:
  assumes "balloc_ok fs" and "counts_ok fs" and "length (i_data inode) = EXT2_N_BLOCKS"
    and "\<And>k. DIRECT_BLOCK fs inode \<le> k \<Longrightarrow> k < EXT2_NDIR_BLOCKS \<Longrightarrow> i_data inode ! k \<noteq> 0 \<Longrightarrow> data_block fs (i_data inode ! k)"
    and "K = {k. DIRECT_BLOCK fs inode \<le> k \<and> k < EXT2_NDIR_BLOCKS \<and> i_data inode ! k \<noteq> 0 \<and> b_count fs (i_data inode ! k) = 0}"
  shows "\<exists>retry seed' fs'. trunc_direct inode sd fs = Some ((retry, (inode\<lparr>
        i_data := List.map (\<lambda>k. if k \<in> K then 0 else i_data inode ! k) [0..<EXT2_N_BLOCKS],
        i_blocks := i_blocks inode - of_nat (card K) * of_nat (s_blocksize fs div 512), i_dirt := i_dirt inode \<or> K \<noteq> {}\<rparr>, seed')), fs') \<and>
    retry = (\<exists>k. DIRECT_BLOCK fs inode \<le> k \<and> k < EXT2_NDIR_BLOCKS \<and> i_data inode ! k \<noteq> 0 \<and> b_count fs (i_data inode ! k) \<noteq> 0) \<and>
    balloc_ok fs' \<and> counts_ok fs' \<and>
    (\<forall>h < s_groups_count fs. \<forall>k < s_blocks_per_group fs. used fs' h k = (used fs h k \<and> block_no fs h k \<notin> (!) (i_data inode) ` K)) \<and>
    (\<forall>c. no_bitmap fs c \<longrightarrow> b_count fs' c = b_count fs c) \<and>
    (\<forall>c. no_bitmap fs c \<longrightarrow> \<not> (secure inode \<and> c \<in> (!) (i_data inode) ` K) \<longrightarrow> b_data fs' c = b_data fs c) \<and>
    (\<forall>c. secure inode \<and> c \<in> (!) (i_data inode) ` K \<longrightarrow> (\<exists>x. b_data fs' c = Some (replicate (s_blocksize fs) x)))"
proof -
  let ?d = "DIRECT_BLOCK fs inode" and ?n = "EXT2_NDIR_BLOCKS - DIRECT_BLOCK fs inode"
  have K: "idle fs inode ?d ?n = K" unfolding assms(5) idle_def by (rule Collect_cong) auto
  have B: "busy fs inode ?d ?n \<longleftrightarrow>
      (\<exists>k. ?d \<le> k \<and> k < EXT2_NDIR_BLOCKS \<and> i_data inode ! k \<noteq> 0 \<and> b_count fs (i_data inode ! k) \<noteq> 0)"
    unfolding busy_def by (rule ex_cong) auto
  have run: "pending fs (0, 0) {}" by (simp add: pending_def)
  have len: "?d + ?n \<le> length (i_data inode) \<or> ?n = 0" unfolding assms(3) by (auto simp: EXT2_NDIR_BLOCKS_def EXT2_N_BLOCKS_def)
  have db: "data_block fs (i_data inode ! k)" if "?d \<le> k" "k < ?d + ?n" "i_data inode ! k \<noteq> 0" for k
    by (rule assms(4)) (use that in auto)
  let ?W = "if secure inode then (!) (i_data inode) ` K else {}"
  have "\<exists>run' sd' fs' S P'. trunc_direct_loop (sectors fs) ?n ?d False (0, 0) inode sd fs =
      Some (((busy fs inode ?d ?n, run'), (cut_inode (sectors fs) K inode, sd')), fs') \<and>
    frees fs S ?W fs' \<and> pending fs' run' P' \<and> S \<union> P' = (!) (i_data inode) ` K"
  proof (cases "?n = 0")
    case True
    then have "K = {}" "\<not> busy fs inode ?d ?n" unfolding K [symmetric] by (auto simp: idle_def busy_def)
    then show ?thesis using True run frees_refl [OF assms(1,2)] by (auto simp: cut_inode_empty)
  next
    case False
    then have "?d + ?n \<le> length (i_data inode)" using len by simp
    from trunc_direct_loop_frees [OF assms(1,2) run this db, of "sectors fs" False sd]
    show ?thesis unfolding K by simp
  qed
  then obtain run' sd' fs1 S P where l: "trunc_direct_loop (sectors fs) ?n ?d False (0, 0) inode sd fs =
      Some (((busy fs inode ?d ?n, run'), (cut_inode (sectors fs) K inode, sd')), fs1)"
    and f: "frees fs S ?W fs1" and p: "pending fs1 run' P" and SP: "S \<union> P = (!) (i_data inode) ` K" by blast
  obtain fs' where fl: "flush_run run' fs1 = Some fs'" and g: "frees fs1 P {} fs'"
    using flush_run_frees [OF freesD(2,3) [OF f] p] by blast
  have w: "\<forall>c \<in> ?W. no_bitmap fs c" using data_no_bitmap [OF assms(4)] by (auto simp: assms(5))
  have fr: "frees fs ((!) (i_data inode) ` K) ?W fs'" using frees_trans [OF f g w] SP by simp
  have t: "trunc_direct inode sd fs = Some ((busy fs inode ?d ?n, (cut_inode (sectors fs) K inode, sd')), fs')"
    unfolding trunc_direct_def Let_def l by (simp add: fl)
  have c: "cut_inode (sectors fs) K inode = inode\<lparr>
        i_data := List.map (\<lambda>k. if k \<in> K then 0 else i_data inode ! k) [0..<EXT2_N_BLOCKS],
        i_blocks := i_blocks inode - of_nat (card K) * of_nat (s_blocksize fs div 512), i_dirt := i_dirt inode \<or> K \<noteq> {}\<rparr>"
    unfolding cut_inode_def cut_entries_def sectors_def assms(3) ..
  show ?thesis
    by (intro exI conjI, rule t [unfolded c], rule B)
      (use freesD [OF fr] in \<open>simp_all split: if_splits\<close>)
qed

text \<open>A file with three blocks, cut to one: block 41 is in use elsewhere, block 42 is freed.\<close>

definition cut_fs :: ext2_fs where
  "cut_fs = example_fs\<lparr>b_data := example_data(3 \<mapsto> [0xFF, 0xFF, 0xFF, 0xFF, 0x8F, 0x03, 0, 0] @ replicate 120 0xFF),
     s_group_desc := [Some (2, [(example_desc 1 22)\<lparr>bg_free_blocks_count := 25\<rparr>, example_desc 65 32])],
     s_free_blocks_count := 53, b_count := (\<lambda>b. if b = 41 then 1 else 0)\<rparr>"

lemma cut_counts: "counts_ok cut_fs" by code_simp

lemma cut_sizes: "s_groups_count cut_fs = 2" "s_blocks_per_group cut_fs = 64"
  "s_first_data_block cut_fs = 1" "s_blocks_count cut_fs = 129" "block_no cut_fs = block_no example_fs"
  by (simp_all add: cut_fs_def example_fs_def block_no_def fun_eq_iff)

lemma cut_desc_of: "g < 2 \<Longrightarrow> desc_of cut_fs g = (desc_of example_fs g)\<lparr>bg_free_blocks_count := if g = 0 then 25 else 28\<rparr>"
  by (auto simp: cut_fs_def gd_at_def gdp_def example_fs_def example_desc_def less_2_cases_iff)

lemma cut_bitmap:
  "g < 2 \<Longrightarrow> b_data cut_fs (bmap_no cut_fs g) =
     Some (if g = 0 then [0xFF, 0xFF, 0xFF, 0xFF, 0x8F, 0x03, 0, 0] @ replicate 120 0xFF
           else [0xFF, 0xFF, 0xFF, 0xFF, 0x0F, 0, 0, 0] @ replicate 120 0xFF)"
proof -
  assume g: "g < 2"
  then have "bmap_no cut_fs g = (if g = 0 then 3 else 67)"
    by (auto simp: cut_desc_of example_desc_of example_desc_def less_2_cases_iff)
  moreover have "b_data cut_fs = example_data(3 \<mapsto> [0xFF, 0xFF, 0xFF, 0xFF, 0x8F, 0x03, 0, 0] @ replicate 120 0xFF)"
    by (simp add: cut_fs_def)
  ultimately show ?thesis by (simp add: example_data_def)
qed

lemma cut_used:
  assumes g: "g < 2" and k: "k < 64" and u: "used example_fs g k"
  shows "used cut_fs g k"
proof -
  let ?a = "[0xFF, 0xFF, 0xFF, 0xFF, 0x8F, 0x03, 0, 0] @ replicate 120 0xFF :: u8 list"
  let ?b = "[0xFF, 0xFF, 0xFF, 0xFF, 0x0F, 0, 0, 0] @ replicate 120 0xFF :: u8 list"
  have "\<forall>k \<in> set [0..<64]. test_bit k ?b \<longrightarrow> test_bit k ?a" by code_simp
  moreover have "test_bit k ?b" using u unfolding used_def example_bitmap [OF g] option.sel .
  ultimately have "test_bit k (if g = 0 then ?a else ?b)" using k by simp
  then show ?thesis unfolding used_def cut_bitmap [OF g] option.sel .
qed

lemma cut_ok: "balloc_ok cut_fs"
  unfolding balloc_ok_def blk.ready_def cut_sizes
proof (intro conjI allI impI)
  show "geom cut_fs" by (simp add: geom_def cut_fs_def example_fs_def)
  show "gd_wf cut_fs" by (simp add: gd_wf_def cut_fs_def example_fs_def)
  show "cache_wf 2 (bmap_no cut_fs) (block_cache cut_fs)"
    by (simp add: cache_wf_def cut_fs_def example_fs_def empty_cache_def)
next
  fix g :: nat
  assume g: "g < 2"
  have b: "bmap_no cut_fs h = bmap_no example_fs h" if "h < 2" for h using that by (simp add: cut_desc_of)
  have gx: "g < s_groups_count example_fs" using g by (simp add: example_sizes)
  show "b_data cut_fs (bmap_no cut_fs g) \<noteq> None" and "64 \<le> 8 * length (the (b_data cut_fs (bmap_no cut_fs g)))"
    by (simp_all add: cut_bitmap [OF g])
  obtain h k where "h < 2" "k < 64" "bmap_no example_fs g = block_no example_fs h k" "used example_fs h k"
    using example_ok gx unfolding balloc_ok_def example_sizes by blast
  then show "\<exists>h < 2. \<exists>k < 64. bmap_no cut_fs g = block_no example_fs h k \<and> used cut_fs h k"
    using cut_used [of h k] b [OF g] by auto
  show "g = h" if "h < 2" "bmap_no cut_fs g = bmap_no cut_fs h" for h
    using balloc_okD(6) [OF example_ok gx, of h] that b g by (simp add: example_sizes)
  show "used cut_fs g k" if k: "k < 64" and p: "129 \<le> block_no example_fs g k" for k
    using balloc_okD(7) [OF example_ok gx, of k] cut_used [OF g k] that by (simp add: example_sizes) (simp add: example_fs_def)
qed

lemma cut_data: "data_block cut_fs b" if "b \<in> {41, 42}"
proof -
  have "data_block cut_fs 41" "data_block cut_fs 42" by code_simp+
  then show ?thesis using that by blast
qed

theorem trunc_direct_frees_witness:
  "\<exists>inode' sd' fs'. trunc_direct (example_inode\<lparr>i_size := 100\<rparr>) 152 cut_fs = Some ((True, (inode', sd')), fs') \<and>
     i_data inode' = [40, 41, 0, 0, 0, 0, 0, 0, 0, 0, 0, 0, 0, 0, 0] \<and>
     used cut_fs 0 41 \<and> \<not> used fs' 0 41 \<and> used fs' 0 40 \<and> used fs' 0 39 \<and> b_count fs' 41 = 1"
proof -
  let ?i = "example_inode\<lparr>i_size := 100\<rparr>"
  let ?K = "{k. DIRECT_BLOCK cut_fs ?i \<le> k \<and> k < EXT2_NDIR_BLOCKS \<and> i_data ?i ! k \<noteq> 0 \<and> b_count cut_fs (i_data ?i ! k) = 0}"
  have d: "DIRECT_BLOCK cut_fs ?i = 1" by code_simp
  have dat: "i_data ?i = [40, 41, 42, 0, 0, 0, 0, 0, 0, 0, 0, 0, 0, 0, 0]" by (simp add: example_inode_def)
  have cnt: "b_count cut_fs b = (if b = 41 then 1 else 0)" for b by (simp add: cut_fs_def)
  have cases: "k = 0 \<or> k = 1 \<or> k = 2 \<or> i_data ?i ! k = 0" if "k < EXT2_NDIR_BLOCKS" for k
  proof -
    have "\<forall>k \<in> set [0..<12]. k = 0 \<or> k = 1 \<or> k = 2 \<or> i_data ?i ! k = 0" by code_simp
    then show ?thesis using that by (simp add: EXT2_NDIR_BLOCKS_def)
  qed
  have K: "?K = {2}"
  proof (rule set_eqI)
    show "k \<in> ?K \<longleftrightarrow> k \<in> {2}" for k using cases [of k] by (auto simp: d cnt dat EXT2_NDIR_BLOCKS_def)
  qed
  have db: "data_block cut_fs (i_data ?i ! k)" if "DIRECT_BLOCK cut_fs ?i \<le> k" "k < EXT2_NDIR_BLOCKS" "i_data ?i ! k \<noteq> 0" for k
    using cases [OF that(2)] that(1,3) cut_data by (auto simp: d dat)
  have l: "length (i_data ?i) = EXT2_N_BLOCKS" by (simp add: dat EXT2_N_BLOCKS_def)
  obtain retry sd' fs' inode' where t: "trunc_direct ?i 152 cut_fs = Some ((retry, (inode', sd')), fs')"
    and i: "i_data inode' = List.map (\<lambda>k. if k \<in> {2} then 0 else i_data ?i ! k) [0..<EXT2_N_BLOCKS]"
    and r: "retry = (\<exists>k. DIRECT_BLOCK cut_fs ?i \<le> k \<and> k < EXT2_NDIR_BLOCKS \<and> i_data ?i ! k \<noteq> 0 \<and> b_count cut_fs (i_data ?i ! k) \<noteq> 0)"
    and u: "\<forall>h < s_groups_count cut_fs. \<forall>k < s_blocks_per_group cut_fs.
      used fs' h k = (used cut_fs h k \<and> block_no cut_fs h k \<notin> (!) (i_data ?i) ` {2})"
    and c: "\<forall>c. no_bitmap cut_fs c \<longrightarrow> b_count fs' c = b_count cut_fs c"
    using trunc_direct_frees [OF cut_ok cut_counts l db refl, of 152] unfolding K by auto
  have "retry" unfolding r by (rule exI [where x = 1]) (simp add: d dat cnt EXT2_NDIR_BLOCKS_def)
  moreover have "i_data inode' = [40, 41, 0, 0, 0, 0, 0, 0, 0, 0, 0, 0, 0, 0, 0]" unfolding i dat by code_simp
  moreover have w: "used cut_fs 0 39" "used cut_fs 0 40" "used cut_fs 0 41" by code_simp+
  moreover have "block_no cut_fs 0 39 = 40" "block_no cut_fs 0 40 = 41" "block_no cut_fs 0 41 = 42" by code_simp+
  then have "\<not> used fs' 0 41 \<and> used fs' 0 40 \<and> used fs' 0 39" using u w by (simp add: cut_sizes(1,2) dat)
  moreover have "b_count fs' 41 = 1" using c data_no_bitmap [OF cut_data, of 41] by (simp add: cnt)
  ultimately show ?thesis using t by auto
qed

end
