(* ===== verification/Ext2_Dcache_Props.thy ===== *)
theory Ext2_Dcache_Props
  imports Ext2_Dcache
begin

text \<open>
  What the directory cache is: two LRU lists and the lists of the hash queues (\<open>dview\<close>), of which the
  links are a representation (\<open>dcache_inv\<close>). Every operation is proved against its effect on the lists.
\<close>

section \<open>The abstract cache\<close>

record dview =
  queues :: "nat \<Rightarrow> nat list"
  lru :: "level \<Rightarrow> nat list"

definition qring :: "dcache \<Rightarrow> nat \<Rightarrow> nat list \<Rightarrow> bool" where
  "qring dc q xs \<longleftrightarrow> (if xs = [] then h_next dc (Queue q) = Queue q
     else ring (h_next dc) (h_prev dc) (Queue q # List.map Entry xs))"

definition the_name :: "dcache \<Rightarrow> nat \<Rightarrow> u8 list" where
  "the_name dc e = take (unat (d_name_len dc e)) (d_name dc e)"

definition key_hash :: "dcache \<Rightarrow> nat \<Rightarrow> nat" where
  "key_hash dc e = hash_fn (d_dev dc e) (d_dir dc e) (namehash (the_name dc e))"

definition entries :: "level \<Rightarrow> nat set" where
  "entries l = (case l of Level1 \<Rightarrow> {0..<DCACHE_SIZE} | Level2 \<Rightarrow> {DCACHE_SIZE..<2 * DCACHE_SIZE})"

definition lru_inv :: "dcache \<Rightarrow> (level \<Rightarrow> nat list) \<Rightarrow> bool" where
  "lru_inv dc ls \<longleftrightarrow> (\<forall>l. ring (next_lru dc) (prev_lru dc) (ls l) \<and> set (ls l) = entries l \<and>
     level_head dc l = hd (ls l) \<and> (\<forall>e \<in> entries l. lru_head dc e = l))"

text \<open>The links of all queues, without the data.\<close>

definition links_inv :: "dcache \<Rightarrow> (nat \<Rightarrow> nat list) \<Rightarrow> bool" where
  "links_inv dc qs \<longleftrightarrow> (\<forall>q < DCACHE_HASH_QUEUES. qring dc q (qs q)) \<and>
     (\<forall>q < DCACHE_HASH_QUEUES. \<forall>r < DCACHE_HASH_QUEUES. q \<noteq> r \<longrightarrow> set (qs q) \<inter> set (qs r) = {}) \<and>
     (\<forall>e. (\<forall>q < DCACHE_HASH_QUEUES. e \<notin> set (qs q)) \<longrightarrow> e < 2 * DCACHE_SIZE \<longrightarrow> h_next dc (Entry e) = Null)"

definition hash_inv :: "dcache \<Rightarrow> (nat \<Rightarrow> nat list) \<Rightarrow> bool" where
  "hash_inv dc qs \<longleftrightarrow> links_inv dc qs \<and>
     (\<forall>q < DCACHE_HASH_QUEUES. \<forall>e \<in> set (qs q). e < 2 * DCACHE_SIZE \<and> key_hash dc e = q) \<and>
     (\<forall>e < 2 * DCACHE_SIZE. length (d_name dc e) = DCACHE_NAME_LEN)"

definition dcache_inv :: "dcache \<Rightarrow> dview \<Rightarrow> bool" where
  "dcache_inv dc v \<longleftrightarrow> hash_inv dc (queues v) \<and> lru_inv dc (lru v)"

text \<open>Moving an entry to the end of its LRU list, and to the front of the queue \<open>q\<close>.\<close>

definition touch :: "nat \<Rightarrow> nat list \<Rightarrow> nat list" where
  "touch e xs = removeAll e xs @ [e]"

definition requeue :: "nat \<Rightarrow> nat \<Rightarrow> (nat \<Rightarrow> nat list) \<Rightarrow> nat \<Rightarrow> nat list" where
  "requeue e q qs = (\<lambda>i. if i = q then e # removeAll e (qs i) else removeAll e (qs i))"

lemma requeue_upd: "requeue e q qs = (\<lambda>q. removeAll e (qs q))(q := e # removeAll e (qs q))"
  by (auto simp: requeue_def fun_eq_iff)

section \<open>The LRU lists\<close>

lemma entries_disjoint: "l \<noteq> l' \<Longrightarrow> entries l \<inter> entries l' = {}"
  by (cases l; cases l') (auto simp: entries_def)

lemma split_at:
  assumes "distinct xs" and "e \<in> set xs"
  obtains us vs where "xs = us @ e # vs" and "removeAll e xs = us @ vs"
proof -
  obtain us vs where s: "xs = us @ e # vs" using assms(2) by (meson split_list)
  have "removeAll e us = us" "removeAll e vs = vs" using assms(1) s by (auto simp: removeAll_id)
  then show ?thesis using s that by simp
qed

lemma lru_ring: "lru_inv dc ls \<Longrightarrow> ring (next_lru dc) (prev_lru dc) (ls l) \<and> distinct (ls l) \<and> ls l \<noteq> []"
  by (simp add: lru_inv_def ring_def)

text \<open>A change of the links of one level that leaves its ring a ring, with another order.\<close>

lemma lru_inv_change:
  assumes inv: "lru_inv dc ls" and r: "ring n p xs" and s: "set xs = entries l"
    and frame: "\<And>x. x \<notin> entries l \<Longrightarrow> n x = next_lru dc x \<and> p x = prev_lru dc x"
    and dc': "next_lru dc' = n" "prev_lru dc' = p" "level_head dc' = (level_head dc)(l := hd xs)" "lru_head dc' = lru_head dc"
  shows "lru_inv dc' (ls(l := xs))"
proof -
  have "ring n p (ls k)" if "k \<noteq> l" for k
  proof -
    have "x \<notin> entries l" if "x \<in> set (ls k)" for x
      using inv that entries_disjoint [OF \<open>k \<noteq> l\<close>] by (auto simp: lru_inv_def)
    then have "ring n p (ls k) \<longleftrightarrow> ring (next_lru dc) (prev_lru dc) (ls k)"
      by (intro ring_frame) (use frame in blast)+
    then show ?thesis using inv by (simp add: lru_inv_def)
  qed
  then show ?thesis using inv r s dc' by (simp add: lru_inv_def)
qed

lemma recycle_lru:
  assumes inv: "lru_inv dc ls"
  shows "lru_inv (dc\<lparr>level_head := (level_head dc)(l := next_lru dc (hd (ls l)))\<rparr>) (ls(l := touch (hd (ls l)) (ls l)))"
proof -
  obtain h xs where l: "ls l = h # xs" using lru_ring [OF inv] by (metis list.exhaust)
  have r: "ring (next_lru dc) (prev_lru dc) (h # xs)" using lru_ring [OF inv, of l] l by simp
  have t: "touch h (h # xs) = xs @ [h]" using r by (simp add: touch_def ring_def)
  have n: "next_lru dc h = hd (xs @ [h])" using r dseg_first unfolding ring_Cons by metis
  have "set (ls l) = entries l" using inv by (simp add: lru_inv_def)
  then have s: "set (xs @ [h]) = entries l" by (simp add: l)
  show ?thesis unfolding l list.sel t
    by (rule lru_inv_change [OF inv ring_rotate [OF r] s]) (simp_all add: n)
qed

lemma update_lru_effect:
  assumes inv: "lru_inv dc ls" and e: "e \<in> entries l"
  shows "lru_inv (update_lru e dc) (ls(l := touch e (ls l)))"
proof -
  obtain h xs where l: "ls l = h # xs" using lru_ring [OF inv] by (metis list.exhaust)
  have r: "ring (next_lru dc) (prev_lru dc) (h # xs)" using lru_ring [OF inv, of l] l by simp
  have s: "set (h # xs) = entries l" and head: "level_head dc l = h" and le: "lru_head dc e = l"
    using inv l e unfolding lru_inv_def by (metis, metis list.sel(1), blast)
  show ?thesis
  proof (cases "e = h")
    case True
    then show ?thesis using recycle_lru [OF inv, of l] le head l by (simp add: update_lru_def)
  next
    case False
    then have "e \<in> set xs" using e s by auto
    then obtain us vs where x: "xs = us @ e # vs" "removeAll e xs = us @ vs"
      using split_at r unfolding ring_def by (metis distinct.simps(2))
    let ?n1 = "(next_lru dc)(prev_lru dc e := next_lru dc e)" and ?p1 = "(prev_lru dc)(next_lru dc e := prev_lru dc e)"
    let ?n2 = "?n1(e := h, ?p1 h := e)" and ?p2 = "?p1(e := ?p1 h, h := e)"
    have r1: "ring ?n1 ?p1 (h # us @ vs)" by (rule ring_unlink) (use r x in simp)
    have eh: "e \<notin> set (h # us @ vs)" using r x False by (auto simp: ring_def)
    have r2: "ring ?n2 ?p2 (h # (us @ vs) @ [e])" by (rule ring_link_last [OF r1 eh])
    have t: "touch e (ls l) = h # (us @ vs) @ [e]" using x l False by (simp add: touch_def)
    have c: "next_lru dc e \<in> entries l" "prev_lru dc e \<in> entries l" "?p1 h \<in> entries l" "h \<in> entries l"
      using ring_closed [OF r] e s by auto
    have ne: "next_lru dc e \<noteq> e" "prev_lru dc e \<noteq> e" using ring_next_other [of _ _ h us e vs] r x by auto
    have ph: "?p1 h \<noteq> e" using ring_closed [OF r1] eh by (metis list.set_intros(1))
    have nx: "next_lru (update_lru e dc) = ?n2" and pv: "prev_lru (update_lru e dc) = ?p2"
      using False head le ne ph by (auto simp: update_lru_def add_lru_def remove_lru_def fun_eq_iff)
    show ?thesis unfolding t
    proof (rule lru_inv_change [OF inv r2])
      show "set (h # (us @ vs) @ [e]) = entries l" using s x by auto
      show "?n2 x = next_lru dc x \<and> ?p2 x = prev_lru dc x" if "x \<notin> entries l" for x
      proof -
        have "x \<noteq> e" "x \<noteq> h" "x \<noteq> next_lru dc e" "x \<noteq> prev_lru dc e" "x \<noteq> ?p1 h" using that c e by metis+
        then show ?thesis by (simp del: fun_upd_apply add: fun_upd_other)
      qed
      show "level_head (update_lru e dc) = (level_head dc)(l := hd (h # (us @ vs) @ [e]))"
        using False head le by (simp add: update_lru_def add_lru_def remove_lru_def fun_upd_idem)
    qed (use nx pv in \<open>simp_all add: update_lru_def add_lru_def remove_lru_def\<close>)
  qed
qed

section \<open>The hash queues\<close>

lemma qring_other:
  assumes "qring dc r xs" and "\<And>x. x \<in> insert (Queue r) (Entry ` set xs) \<Longrightarrow> h_next dc' x = h_next dc x \<and> h_prev dc' x = h_prev dc x"
  shows "qring dc' r xs"
proof (cases "xs = []")
  case False
  have "ring (h_next dc') (h_prev dc') (Queue r # List.map Entry xs) \<longleftrightarrow> ring (h_next dc) (h_prev dc) (Queue r # List.map Entry xs)"
    by (rule ring_frame) (use assms(2) in auto)
  then show ?thesis using assms(1) False by (simp add: qring_def)
qed (use assms in \<open>simp add: qring_def\<close>)

lemma qring_distinct: "qring dc q xs \<Longrightarrow> distinct xs"
  by (auto simp: qring_def ring_def distinct_map split: if_splits)

text \<open>Only the links may differ.\<close>

definition same_data :: "dcache \<Rightarrow> dcache \<Rightarrow> bool" where
  "same_data dc dc' \<longleftrightarrow> (\<exists>n p. dc' = dc\<lparr>h_next := n, h_prev := p\<rparr>)"

lemma remove_hash_effect:
  assumes inv: "links_inv dc qs" and e: "e < 2 * DCACHE_SIZE"
  shows "\<exists>dc'. remove_hash e dc = Some dc' \<and> same_data dc dc' \<and> links_inv dc' (\<lambda>q. removeAll e (qs q))"
proof (cases "\<exists>q < DCACHE_HASH_QUEUES. e \<in> set (qs q)")
  case False
  then have "h_next dc (Entry e) = Null" using inv e by (auto simp: links_inv_def)
  moreover have "links_inv dc (\<lambda>q. removeAll e (qs q))"
    using inv False by (auto simp: links_inv_def removeAll_id)
  moreover have "same_data dc dc"
    unfolding same_data_def by (intro exI [where x = "h_next dc"] exI [where x = "h_prev dc"]) simp
  ultimately show ?thesis by (simp add: remove_hash_def)
next
  case True
  then obtain q where q: "q < DCACHE_HASH_QUEUES" "e \<in> set (qs q)" by blast
  have qr: "qring dc q (qs q)" using inv q by (simp add: links_inv_def)
  obtain us vs where x: "qs q = us @ e # vs" "removeAll e (qs q) = us @ vs"
    using split_at [OF qring_distinct [OF qr] q(2)] by blast
  have r: "ring (h_next dc) (h_prev dc) (Queue q # List.map Entry us @ Entry e # List.map Entry vs)"
    using qr x by (simp add: qring_def)
  define nx where "nx = h_next dc (Entry e)"
  define pv where "pv = h_prev dc (Entry e)"
  have ne: "nx \<noteq> Entry e" "pv \<noteq> Entry e" using ring_next_other [OF r] by (simp_all add: nx_def pv_def)
  have c: "nx \<in> insert (Queue q) (Entry ` set (qs q))" "pv \<in> insert (Queue q) (Entry ` set (qs q))"
    using ring_closed [OF r, of "Entry e"] x by (auto simp: nx_def pv_def)
  then have nn: "nx \<noteq> Null" "pv \<noteq> Null" by auto
  define n where "n = (h_next dc)(pv := nx, Entry e := Null)"
  define p where "p = (h_prev dc)(nx := pv)"
  let ?dc = "dc\<lparr>h_next := n, h_prev := p\<rparr>"
  have rm: "remove_hash e dc = Some ?dc"
    using ne nn by (simp add: remove_hash_def n_def p_def nx_def [symmetric] pv_def [symmetric])
  have "ring ((h_next dc)(pv := nx)) p (Queue q # List.map Entry us @ List.map Entry vs)"
    unfolding p_def nx_def pv_def by (rule ring_unlink [OF r])
  moreover have "ring n p (Queue q # List.map Entry us @ List.map Entry vs) \<longleftrightarrow>
      ring ((h_next dc)(pv := nx)) p (Queue q # List.map Entry us @ List.map Entry vs)"
    by (rule ring_frame) (use r in \<open>auto simp: n_def ring_def\<close>)
  ultimately have rq: "ring n p (Queue q # List.map Entry (us @ vs))" by simp
  have "qring ?dc k (removeAll e (qs k))" if k: "k < DCACHE_HASH_QUEUES" for k
  proof (cases "k = q")
    case True
    then show ?thesis using rq x(2) by (auto simp: qring_def ring_def)
  next
    case False
    then have d: "set (qs q) \<inter> set (qs k) = {}" using inv q(1) k by (simp add: links_inv_def)
    then have "e \<notin> set (qs k)" using q(2) by blast
    then have "removeAll e (qs k) = qs k" by (simp add: removeAll_id)
    moreover have "qring ?dc k (qs k)"
      by (rule qring_other [of dc]) (use inv k c q(2) d False in \<open>auto simp: links_inv_def n_def p_def\<close>)
    ultimately show ?thesis by simp
  qed
  moreover have "h_next ?dc (Entry i) = Null" if "\<forall>q < DCACHE_HASH_QUEUES. i \<notin> set (removeAll e (qs q))" "i < 2 * DCACHE_SIZE" for i
  proof (cases "i = e")
    case False
    then have out: "\<forall>q < DCACHE_HASH_QUEUES. i \<notin> set (qs q)" using that(1) by auto
    then have "Entry i \<noteq> pv" using c(2) q(1) by auto
    then show ?thesis using inv out that(2) False by (simp add: links_inv_def n_def)
  qed (simp add: n_def)
  moreover have "set (removeAll e (qs k)) \<inter> set (removeAll e (qs r)) = {}"
    if "k < DCACHE_HASH_QUEUES" "r < DCACHE_HASH_QUEUES" "k \<noteq> r" for k r
  proof -
    have "set (qs k) \<inter> set (qs r) = {}" using inv that by (simp add: links_inv_def)
    then show ?thesis by auto
  qed
  ultimately have "links_inv ?dc (\<lambda>q. removeAll e (qs q))"
    unfolding links_inv_def by blast
  then show ?thesis using rm unfolding same_data_def by blast
qed

lemma add_hash_effect:
  assumes inv: "links_inv dc qs" and q: "q < DCACHE_HASH_QUEUES" and e: "\<And>r. r < DCACHE_HASH_QUEUES \<Longrightarrow> e \<notin> set (qs r)"
  shows "\<exists>dc'. add_hash e q dc = Some dc' \<and> same_data dc dc' \<and> links_inv dc' (qs(q := e # qs q))"
proof -
  have qr: "qring dc q (qs q)" using inv q by (simp add: links_inv_def)
  define nx where "nx = h_next dc (Queue q)"
  define n where "n = (h_next dc)(Entry e := nx, Queue q := Entry e)"
  define p where "p = (h_prev dc)(Entry e := Queue q, nx := Entry e)"
  let ?dc = "dc\<lparr>h_next := n, h_prev := p\<rparr>"
  have c: "nx \<in> insert (Queue q) (Entry ` set (qs q))"
    using qr ring_closed [of "h_next dc" "h_prev dc" "Queue q # List.map Entry (qs q)" "Queue q"]
    by (auto simp: qring_def nx_def split: if_splits)
  have ad: "add_hash e q dc = Some ?dc"
    using c by (auto simp: add_hash_def Let_def n_def p_def nx_def [symmetric])
  have rq: "ring n p (Queue q # Entry e # List.map Entry (qs q))"
  proof (cases "qs q = []")
    case True
    then show ?thesis using qr by (simp add: qring_def nx_def n_def p_def ring_def)
  next
    case False
    then have "ring (h_next dc) (h_prev dc) (Queue q # List.map Entry (qs q))" using qr by (simp add: qring_def)
    from ring_link_first [OF this, of "Entry e"] show ?thesis using e [OF q] by (auto simp: n_def p_def nx_def)
  qed
  have "qring ?dc k ((qs(q := e # qs q)) k)" if k: "k < DCACHE_HASH_QUEUES" for k
  proof (cases "k = q")
    case True
    then show ?thesis using rq by (simp add: qring_def)
  next
    case False
    then have d: "set (qs q) \<inter> set (qs k) = {}" using inv q k by (simp add: links_inv_def)
    have "qring ?dc k (qs k)"
      by (rule qring_other [of dc]) (use inv k c e [OF k] d False in \<open>auto simp: links_inv_def n_def p_def\<close>)
    then show ?thesis using False by simp
  qed
  moreover have "h_next ?dc (Entry i) = Null"
    if "\<forall>k < DCACHE_HASH_QUEUES. i \<notin> set ((qs(q := e # qs q)) k)" "i < 2 * DCACHE_SIZE" for i
  proof -
    have "i \<noteq> e" and "\<forall>k < DCACHE_HASH_QUEUES. i \<notin> set (qs k)" using that(1) q by (auto split: if_splits)
    then show ?thesis using inv that(2) by (simp add: links_inv_def n_def)
  qed
  moreover have "set ((qs(q := e # qs q)) k) \<inter> set ((qs(q := e # qs q)) r) = {}"
    if "k < DCACHE_HASH_QUEUES" "r < DCACHE_HASH_QUEUES" "k \<noteq> r" for k r
  proof -
    have "set (qs k) \<inter> set (qs r) = {}" using inv that by (simp add: links_inv_def)
    then show ?thesis using e that by auto
  qed
  ultimately have "links_inv ?dc (qs(q := e # qs q))"
    unfolding links_inv_def by blast
  then show ?thesis using ad unfolding same_data_def by blast
qed

text \<open>What an entry holds.\<close>

definition dentry :: "dcache \<Rightarrow> nat \<Rightarrow> u32 \<times> u32 \<times> u32 \<times> u32 \<times> u8 \<times> u8 list" where
  "dentry dc e = (d_dev dc e, d_dir dc e, d_version dc e, d_ino dc e, d_name_len dc e, d_name dc e)"

lemma dentry_same:
  assumes "dentry dc' e = dentry dc e"
  shows "key_hash dc' e = key_hash dc e" and "d_name dc' e = d_name dc e" and "d_ino dc' e = d_ino dc e"
    and "entry_is dev dir version name e dc' = entry_is dev dir version name e dc"
  using assms by (simp_all add: dentry_def key_hash_def the_name_def entry_is_def)

lemma same_data_simps:
  "same_data dc dc' \<Longrightarrow> dentry dc' = dentry dc"
  "same_data dc dc' \<Longrightarrow> lru_inv dc' ls = lru_inv dc ls"
  "same_data dc dc' \<Longrightarrow> lru_head dc' = lru_head dc"
  "same_data dc dc' \<Longrightarrow> level_head dc' = level_head dc"
  by (auto simp: same_data_def dentry_def lru_inv_def fun_eq_iff)

lemma links_inv_cong: "h_next dc' = h_next dc \<Longrightarrow> h_prev dc' = h_prev dc \<Longrightarrow> links_inv dc' qs = links_inv dc qs"
  by (simp add: links_inv_def qring_def)

lemma hash_inv_cong:
  assumes "h_next dc' = h_next dc" and "h_prev dc' = h_prev dc" and "\<And>e. key_hash dc' e = key_hash dc e" and "d_name dc' = d_name dc"
  shows "hash_inv dc' qs = hash_inv dc qs"
  using assms by (simp add: hash_inv_def links_inv_cong [OF assms(1,2)])

lemma lru_inv_cong:
  "next_lru dc' = next_lru dc \<Longrightarrow> prev_lru dc' = prev_lru dc \<Longrightarrow> level_head dc' = level_head dc \<Longrightarrow> lru_head dc' = lru_head dc \<Longrightarrow>
     lru_inv dc' ls = lru_inv dc ls"
  by (simp add: lru_inv_def)

text \<open>An entry is taken from its queue, filled anew and put at the front of the queue \<open>q\<close>.\<close>

lemma requeue_effect:
  assumes inv: "hash_inv dc qs" and e: "e < 2 * DCACHE_SIZE" and q: "q < DCACHE_HASH_QUEUES"
    and links: "h_next (fill dc) = h_next dc" "h_prev (fill dc) = h_prev dc"
    and comm: "\<And>n p. fill (dc\<lparr>h_next := n, h_prev := p\<rparr>) = (fill dc)\<lparr>h_next := n, h_prev := p\<rparr>"
    and others: "\<And>i. i \<noteq> e \<Longrightarrow> dentry (fill dc) i = dentry dc i"
    and new: "key_hash (fill dc) e = q" "length (d_name (fill dc) e) = DCACHE_NAME_LEN"
  shows "\<exists>dc'. Option.bind (remove_hash e dc) (\<lambda>dc. add_hash e q (fill dc)) = Some dc' \<and> same_data (fill dc) dc' \<and>
    hash_inv dc' (requeue e q qs)"
proof -
  have "links_inv dc qs" using inv by (simp add: hash_inv_def)
  then obtain n p where r: "remove_hash e dc = Some (dc\<lparr>h_next := n, h_prev := p\<rparr>)"
      and l: "links_inv (dc\<lparr>h_next := n, h_prev := p\<rparr>) (\<lambda>q. removeAll e (qs q))"
    using remove_hash_effect [OF _ e] unfolding same_data_def by blast
  let ?dc1 = "(fill dc)\<lparr>h_next := n, h_prev := p\<rparr>"
  have "links_inv ?dc1 (\<lambda>q. removeAll e (qs q))" using l by (subst links_inv_cong [of _ "dc\<lparr>h_next := n, h_prev := p\<rparr>"]) simp_all
  then obtain dc' where a: "add_hash e q ?dc1 = Some dc'" "same_data ?dc1 dc'" "links_inv dc' (requeue e q qs)"
    using add_hash_effect [OF _ q, of ?dc1 "\<lambda>q. removeAll e (qs q)" e] unfolding requeue_upd by auto
  have sd: "same_data (fill dc) dc'" using a(2) by (auto simp: same_data_def)
  then have d: "dentry dc' i = dentry (fill dc) i" for i by (simp add: same_data_simps)
  have "key_hash dc' i = k \<and> i < 2 * DCACHE_SIZE" if "k < DCACHE_HASH_QUEUES" "i \<in> set (requeue e q qs k)" for i k
  proof (cases "i = e")
    case True
    then show ?thesis using that new(1) e dentry_same(1) [OF d, of e] by (auto simp: requeue_def split: if_splits)
  next
    case False
    then have "i \<in> set (qs k)" using that by (auto simp: requeue_def split: if_splits)
    then show ?thesis
      using inv that(1) dentry_same(1) [OF d, of i] dentry_same(1) [OF others [OF False]] by (simp add: hash_inv_def)
  qed
  moreover have "length (d_name dc' i) = DCACHE_NAME_LEN" if "i < 2 * DCACHE_SIZE" for i
    using that inv new(2) dentry_same(2) [OF d, of i] dentry_same(2) [OF others, of i] by (cases "i = e") (simp_all add: hash_inv_def)
  ultimately have "hash_inv dc' (requeue e q qs)" using a(3) by (simp add: hash_inv_def)
  then show ?thesis using r a(1) sd by (simp add: comm)
qed

section \<open>The search of a queue\<close>

lemma find_from_ring:
  assumes "dseg (h_next dc) (h_prev dc) a (List.map Entry xs) (Queue q)"
  shows "find_from dev dir version name q (h_next dc a) dc = Some (List.find (\<lambda>e. entry_is dev dir version name e dc) xs)"
  using assms
proof (induction xs arbitrary: a)
  case Nil
  then show ?case by (simp add: find_from.simps)
next
  case (Cons x xs)
  then have "h_next dc a = Entry x" "dseg (h_next dc) (h_prev dc) (Entry x) (List.map Entry xs) (Queue q)" by simp_all
  then show ?case using Cons.IH [of "Entry x"] by (simp add: find_from.simps [of _ _ _ _ _ "Entry x"])
qed

lemma dc_find_entry_list:
  assumes "qring dc q xs"
  shows "dc_find_entry dev dir version name q dc = Some (List.find (\<lambda>e. entry_is dev dir version name e dc) xs)"
proof (cases "xs = []")
  case True
  then show ?thesis using assms by (simp add: qring_def dc_find_entry_def find_from.simps)
next
  case False
  then have "dseg (h_next dc) (h_prev dc) (Queue q) (List.map Entry xs) (Queue q)" using assms by (simp add: qring_def ring_def)
  then show ?thesis by (simp add: dc_find_entry_def find_from_ring)
qed

section \<open>Lookup and insertion\<close>

definition level_of :: "nat \<Rightarrow> level" where
  "level_of e = (if e < DCACHE_SIZE then Level1 else Level2)"

text \<open>The two things that happen to the lists: an entry is used, or the oldest one is given to a queue.\<close>

definition spec_use :: "nat \<Rightarrow> dview \<Rightarrow> dview" where
  "spec_use e v = v\<lparr>lru := (lru v)(level_of e := touch e (lru v (level_of e)))\<rparr>"

definition spec_recycle :: "level \<Rightarrow> nat \<Rightarrow> dview \<Rightarrow> dview" where
  "spec_recycle l q v =
     (let e = hd (lru v l) in \<lparr>queues = requeue e q (queues v), lru = (lru v)(l := touch e (lru v l))\<rparr>)"

lemma entries_level: "e < 2 * DCACHE_SIZE \<Longrightarrow> e \<in> entries (level_of e)"
  by (auto simp: level_of_def entries_def)

lemma entries_bound: "e \<in> entries l \<Longrightarrow> e < 2 * DCACHE_SIZE \<and> level_of e = l"
  by (cases l) (auto simp: entries_def level_of_def DCACHE_SIZE_def)

lemma lru_hd:
  assumes "lru_inv dc ls"
  shows "hd (ls l) \<in> entries l" and "level_head dc l = hd (ls l)" and "e \<in> entries l \<Longrightarrow> lru_head dc e = l"
  using assms lru_ring [OF assms, of l] hd_in_set [of "ls l"] by (simp_all add: lru_inv_def)

lemma hash_fn_bound: "hash_fn dev dir nh < DCACHE_HASH_QUEUES"
  by (simp add: hash_fn_def DCACHE_HASH_QUEUES_def)

lemma entry_is_hash: "entry_is dev dir version name e dc \<Longrightarrow> key_hash dc e = hash_fn dev dir (namehash name)"
  by (simp add: entry_is_def key_hash_def the_name_def split: if_splits)

lemma use_effect:
  assumes inv: "dcache_inv dc v" and e: "e < 2 * DCACHE_SIZE"
  shows "dcache_inv (update_lru e dc) (spec_use e v)" and "dentry (update_lru e dc) = dentry dc"
proof -
  have "h_next (update_lru e dc) = h_next dc" "h_prev (update_lru e dc) = h_prev dc" "d_name (update_lru e dc) = d_name dc"
    by (simp_all add: update_lru_def add_lru_def remove_lru_def)
  moreover show d: "dentry (update_lru e dc) = dentry dc"
    by (simp add: fun_eq_iff dentry_def update_lru_def add_lru_def remove_lru_def)
  ultimately have "hash_inv (update_lru e dc) (queues v)"
    using inv dentry_same(1) [OF fun_cong [OF d]] by (subst hash_inv_cong [of _ dc]) (simp_all add: dcache_inv_def)
  moreover have "lru_inv (update_lru e dc) ((lru v)(level_of e := touch e (lru v (level_of e))))"
    using update_lru_effect [OF _ entries_level [OF e]] inv by (simp add: dcache_inv_def)
  ultimately show "dcache_inv (update_lru e dc) (spec_use e v)" by (simp add: dcache_inv_def spec_use_def)
qed

lemma recycle_effect:
  assumes inv: "dcache_inv dc v" and q: "q < DCACHE_HASH_QUEUES" and h: "h = hd (lru v l)"
    and links: "\<And>dc. h_next (fill dc) = h_next dc" "\<And>dc. h_prev (fill dc) = h_prev dc"
    and lru: "\<And>dc. lru_inv (fill dc) = lru_inv dc"
    and comm: "\<And>dc n p. fill (dc\<lparr>h_next := n, h_prev := p\<rparr>) = (fill dc)\<lparr>h_next := n, h_prev := p\<rparr>"
    and others: "\<And>dc i. i \<noteq> h \<Longrightarrow> dentry (fill dc) i = dentry dc i"
    and new: "\<And>dc'. dentry dc' = dentry dc \<Longrightarrow> key_hash (fill dc') h = q \<and> length (d_name (fill dc') h) = DCACHE_NAME_LEN"
  shows "\<exists>dc'. Option.bind (remove_hash h (dc\<lparr>level_head := (level_head dc)(l := next_lru dc h)\<rparr>)) (\<lambda>dc. add_hash h q (fill dc)) = Some dc' \<and>
    dcache_inv dc' (spec_recycle l q v) \<and> dentry dc' = dentry (fill (dc\<lparr>level_head := (level_head dc)(l := next_lru dc h)\<rparr>))"
proof -
  let ?dc = "dc\<lparr>level_head := (level_head dc)(l := next_lru dc h)\<rparr>"
  have li: "lru_inv dc (lru v)" and hi: "hash_inv dc (queues v)" using inv by (simp_all add: dcache_inv_def)
  have he: "h < 2 * DCACHE_SIZE" using lru_hd(1) [OF li, of l] entries_bound h by blast
  have de: "dentry ?dc = dentry dc" by (simp add: dentry_def fun_eq_iff)
  have "hash_inv ?dc (queues v)"
    using hi dentry_same(1) [OF fun_cong [OF de]] by (subst hash_inv_cong [of _ dc]) simp_all
  then obtain dc' where r: "Option.bind (remove_hash h ?dc) (\<lambda>dc. add_hash h q (fill dc)) = Some dc'"
      "same_data (fill ?dc) dc'" "hash_inv dc' (requeue h q (queues v))"
    using requeue_effect [OF _ he q links comm others] new [OF de] by blast
  have "lru_inv ?dc ((lru v)(l := touch h (lru v l)))" using recycle_lru [OF li, of l] h by simp
  then have "lru_inv dc' ((lru v)(l := touch h (lru v l)))" using same_data_simps(2) [OF r(2)] lru by simp
  then have "dcache_inv dc' (spec_recycle l q v)"
    using r(3) h by (simp add: dcache_inv_def spec_recycle_def Let_def)
  then show ?thesis using r(1) same_data_simps(1) [OF r(2)] by blast
qed

definition find_in :: "dcache \<Rightarrow> dview \<Rightarrow> u32 \<Rightarrow> u32 \<Rightarrow> u32 \<Rightarrow> u8 list \<Rightarrow> nat option" where
  "find_in dc v dev dir version name =
     List.find (\<lambda>e. entry_is dev dir version name e dc) (queues v (hash_fn dev dir (namehash name)))"

lemma find_in_entry:
  assumes "dcache_inv dc v"
  shows "dc_find_entry dev dir version name (hash_fn dev dir (namehash name)) dc = Some (find_in dc v dev dir version name)"
  unfolding find_in_def by (rule dc_find_entry_list) (use assms hash_fn_bound in \<open>simp add: dcache_inv_def hash_inv_def links_inv_def\<close>)

lemma find_in_SomeD:
  assumes "dcache_inv dc v" and "find_in dc v dev dir version name = Some e"
  shows "entry_is dev dir version name e dc" and "e < 2 * DCACHE_SIZE" and "e \<in> set (queues v (hash_fn dev dir (namehash name)))"
proof -
  show i: "entry_is dev dir version name e dc" "e \<in> set (queues v (hash_fn dev dir (namehash name)))"
    using assms(2) by (auto simp: find_in_def find_Some_iff in_set_conv_nth)
  then show "e < 2 * DCACHE_SIZE" using assms(1) hash_fn_bound [of dev dir "namehash name"] by (auto simp: dcache_inv_def hash_inv_def)
qed

lemma lookup_effect:
  assumes inv: "dcache_inv dc v" and len: "length name \<le> DCACHE_NAME_LEN"
    and q_def: "q = hash_fn dev dir (namehash name)"
  shows "case find_in dc v dev dir version name of
      None \<Rightarrow> dcache_lookup dev dir version name dc = Some (None, dc)
    | Some e \<Rightarrow> \<exists>dc'. dcache_lookup dev dir version name dc = Some (Some (d_ino dc e), dc') \<and>
        (if e \<in> entries Level2 then dcache_inv dc' (spec_use e v) \<and> dentry dc' = dentry dc
         else dcache_inv dc' (spec_recycle Level2 q v) \<and> dentry dc' = (dentry dc)(hd (lru v Level2) := dentry dc e))"
proof (cases "find_in dc v dev dir version name")
  case None
  then show ?thesis using find_in_entry [OF inv] len by (simp add: dcache_lookup_def)
next
  case (Some e)
  note f = find_in_SomeD [OF inv Some]
  have li: "lru_inv dc (lru v)" and hi: "hash_inv dc (queues v)" using inv by (simp_all add: dcache_inv_def)
  have qb: "q < DCACHE_HASH_QUEUES" by (simp add: q_def hash_fn_bound)
  have look: "dcache_lookup dev dir version name dc = map_option (\<lambda>dc'. (Some (d_ino dc e), dc')) (move_to_level2 e q dc)"
    using find_in_entry [OF inv, of dev dir version name] Some len
    by (simp add: dcache_lookup_def q_def [symmetric] Let_def) (cases "move_to_level2 e q dc"; simp)
  show ?thesis
  proof (cases "e \<in> entries Level2")
    case True
    then have "move_to_level2 e q dc = Some (update_lru e dc)"
      using lru_hd(3) [OF li] by (simp add: move_to_level2_def)
    then show ?thesis using use_effect [OF inv f(2)] True Some look by simp
  next
    case False
    then have e1: "e \<in> entries Level1" using entries_level [OF f(2)] by (cases "level_of e") simp_all
    define h where "h = hd (lru v Level2)"
    have he: "h \<in> entries Level2" using lru_hd(1) [OF li] by (simp add: h_def)
    then have ne: "h \<noteq> e" using False by blast
    have hl: "level_head dc Level2 = h" using lru_hd(2) [OF li] by (simp add: h_def)
    have mv: "move_to_level2 e q dc = Option.bind (remove_hash h (dc\<lparr>level_head := (level_head dc)(Level2 := next_lru dc h)\<rparr>))
        (\<lambda>dc. add_hash h q (COPYDATA e h dc))"
      using lru_hd(3) [OF li e1] hl by (simp add: move_to_level2_def Let_def)
    have kh: "key_hash dc e = q" using entry_is_hash [OF f(1)] by (simp add: q_def)
    have new: "key_hash (COPYDATA e h dc') h = q \<and> length (d_name (COPYDATA e h dc') h) = DCACHE_NAME_LEN"
      if "dentry dc' = dentry dc" for dc'
    proof -
      have "dentry (COPYDATA e h dc') h = dentry dc' e" by (simp add: dentry_def COPYDATA_def)
      then have "dentry (COPYDATA e h dc') h = dentry dc e" using that by (simp add: fun_eq_iff)
      then have "key_hash (COPYDATA e h dc') h = key_hash dc e" "d_name (COPYDATA e h dc') h = d_name dc e"
        by (simp_all add: dentry_def key_hash_def the_name_def)
      then show ?thesis using kh hi f(2) by (simp add: hash_inv_def)
    qed
    have "\<exists>dc'. move_to_level2 e q dc = Some dc' \<and> dcache_inv dc' (spec_recycle Level2 q v) \<and>
        dentry dc' = dentry (COPYDATA e h (dc\<lparr>level_head := (level_head dc)(Level2 := next_lru dc h)\<rparr>))"
      unfolding mv
      by (rule recycle_effect [OF inv qb h_def])
        (use new in \<open>simp_all add: COPYDATA_def lru_inv_cong dentry_def fun_eq_iff lru_inv_def\<close>)
    moreover have "dentry (COPYDATA e h (dc\<lparr>level_head := (level_head dc)(Level2 := next_lru dc h)\<rparr>)) = (dentry dc)(h := dentry dc e)"
      by (simp add: fun_eq_iff dentry_def COPYDATA_def)
    ultimately show ?thesis using False Some look unfolding h_def [symmetric] by auto
  qed
qed

lemma add_effect:
  assumes inv: "dcache_inv dc v" and len: "length name \<le> DCACHE_NAME_LEN"
    and q_def: "q = hash_fn dev dir (namehash name)"
  shows "\<exists>dc'. dcache_add dev dir version name ino dc = Some dc' \<and> (case find_in dc v dev dir version name of
      Some e \<Rightarrow> dcache_inv dc' (spec_use e v) \<and> dentry dc' = dentry (dc\<lparr>d_ino := (d_ino dc)(e := ino)\<rparr>)
    | None \<Rightarrow> dcache_inv dc' (spec_recycle Level1 q v) \<and>
        dentry dc' = dentry (fill_dentry dev dir version name ino (hd (lru v Level1)) dc))"
proof (cases "find_in dc v dev dir version name")
  case (Some e)
  note f = find_in_SomeD [OF inv Some]
  let ?dc = "dc\<lparr>d_ino := (d_ino dc)(e := ino)\<rparr>"
  have "key_hash ?dc i = key_hash dc i" for i by (simp add: key_hash_def the_name_def)
  then have "hash_inv ?dc (queues v)" "lru_inv ?dc (lru v)"
    using inv by (simp_all add: dcache_inv_def hash_inv_cong [of ?dc dc] lru_inv_cong [of ?dc dc])
  then have "dcache_inv ?dc v" by (simp add: dcache_inv_def)
  from use_effect [OF this f(2)] show ?thesis
    using find_in_entry [OF inv, of dev dir version name] Some len by (simp add: dcache_add_def)
next
  case None
  have li: "lru_inv dc (lru v)" and hi: "hash_inv dc (queues v)" using inv by (simp_all add: dcache_inv_def)
  have qb: "q < DCACHE_HASH_QUEUES" by (simp add: q_def hash_fn_bound)
  define h where "h = hd (lru v Level1)"
  have hl: "level_head dc Level1 = h" using lru_hd(2) [OF li] by (simp add: h_def)
  have hb: "h < 2 * DCACHE_SIZE" using lru_hd(1) [OF li, of Level1] entries_bound unfolding h_def by blast
  let ?fill = "fill_dentry dev dir version name ino h"
  let ?dc1 = "dc\<lparr>level_head := (level_head dc)(Level1 := next_lru dc h)\<rparr>"
  have ad: "dcache_add dev dir version name ino dc = Option.bind (remove_hash h ?dc1) (\<lambda>dc. add_hash h q (?fill dc))"
    using find_in_entry [OF inv, of dev dir version name] None len hl by (simp add: dcache_add_def q_def [symmetric] Let_def)
  have l8: "unat (of_nat (length name) :: u8) = length name"
    using len by (simp add: DCACHE_NAME_LEN_def unat_of_nat)
  have new: "key_hash (?fill dc') h = q \<and> length (d_name (?fill dc') h) = DCACHE_NAME_LEN" if "dentry dc' = dentry dc" for dc'
  proof -
    have "d_name dc' h = d_name dc h" using dentry_same(2) [OF fun_cong [OF that]] .
    then show ?thesis using hi hb len by (simp add: key_hash_def the_name_def fill_dentry_def l8 q_def hash_inv_def)
  qed
  have "\<exists>dc'. dcache_add dev dir version name ino dc = Some dc' \<and> dcache_inv dc' (spec_recycle Level1 q v) \<and>
      dentry dc' = dentry (?fill ?dc1)"
    unfolding ad
    by (rule recycle_effect [OF inv qb h_def])
      (use new in \<open>simp_all add: fill_dentry_def lru_inv_cong dentry_def fun_eq_iff lru_inv_def\<close>)
  moreover have "dentry (?fill ?dc1) = dentry (?fill dc)"
    by (simp add: fun_eq_iff dentry_def fill_dentry_def)
  ultimately show ?thesis using None unfolding h_def by auto
qed

section \<open>The properties\<close>

text \<open>C16. On the lists, \<open>dcache_add\<close> is: if the queue of the name has an entry for it, that entry gets the
  inode number and moves to the end of its LRU list; otherwise the oldest entry of level 1 is filled
  with the name and moves to the front of the queue. The operation never goes through a null pointer.\<close>

theorem dcache_add_refines:
  assumes "dcache_inv dc v" and "length name \<le> DCACHE_NAME_LEN"
  shows "\<exists>dc'. dcache_add dev dir version name ino dc = Some dc' \<and> (case find_in dc v dev dir version name of
      Some e \<Rightarrow> dcache_inv dc' (spec_use e v) \<and> dentry dc' = dentry (dc\<lparr>d_ino := (d_ino dc)(e := ino)\<rparr>)
    | None \<Rightarrow> dcache_inv dc' (spec_recycle Level1 (hash_fn dev dir (namehash name)) v) \<and>
        dentry dc' = dentry (fill_dentry dev dir version name ino (hd (lru v Level1)) dc))"
  by (rule add_effect [OF assms refl])

text \<open>C17. On the lists, \<open>dcache_lookup\<close> is: no entry in the queue, no answer and no change; otherwise the
  answer is the inode number of the first entry for the name, and that entry moves to the end of the
  list of level 2, or, from level 1, is copied over the oldest entry of level 2, which moves to the
  front of the queue.\<close>

theorem dcache_lookup_refines:
  assumes "dcache_inv dc v" and "length name \<le> DCACHE_NAME_LEN"
  shows "case find_in dc v dev dir version name of
      None \<Rightarrow> dcache_lookup dev dir version name dc = Some (None, dc)
    | Some e \<Rightarrow> \<exists>dc'. dcache_lookup dev dir version name dc = Some (Some (d_ino dc e), dc') \<and>
        (if e \<in> entries Level2 then dcache_inv dc' (spec_use e v) \<and> dentry dc' = dentry dc
         else dcache_inv dc' (spec_recycle Level2 (hash_fn dev dir (namehash name)) v) \<and>
           dentry dc' = (dentry dc)(hd (lru v Level2) := dentry dc e))"
  by (rule lookup_effect [OF assms refl])

lemma add_find_in:
  assumes inv: "dcache_inv dc v" and len: "length name \<le> DCACHE_NAME_LEN"
  shows "\<exists>dc' v' e. dcache_add dev dir version name ino dc = Some dc' \<and> dcache_inv dc' v' \<and>
    find_in dc' v' dev dir version name = Some e \<and> d_ino dc' e = ino \<and>
    (find_in dc v dev dir version name = None \<longrightarrow> e \<in> entries Level1)"
proof -
  obtain dc' where a: "dcache_add dev dir version name ino dc = Some dc'"
    and c: "case find_in dc v dev dir version name of
      Some e \<Rightarrow> dcache_inv dc' (spec_use e v) \<and> dentry dc' = dentry (dc\<lparr>d_ino := (d_ino dc)(e := ino)\<rparr>)
    | None \<Rightarrow> dcache_inv dc' (spec_recycle Level1 (hash_fn dev dir (namehash name)) v) \<and>
        dentry dc' = dentry (fill_dentry dev dir version name ino (hd (lru v Level1)) dc)"
    using add_effect [OF inv len refl] by blast
  show ?thesis
  proof (cases "find_in dc v dev dir version name")
    case (Some e)
    then have i: "dcache_inv dc' (spec_use e v)" and d: "dentry dc' = dentry (dc\<lparr>d_ino := (d_ino dc)(e := ino)\<rparr>)" using c by simp_all
    have "entry_is dev dir version name i dc' = entry_is dev dir version name i dc" for i
      using dentry_same(4) [OF fun_cong [OF d]] by (simp add: entry_is_def)
    then have "find_in dc' (spec_use e v) dev dir version name = Some e" using Some by (simp add: find_in_def spec_use_def)
    moreover have "d_ino dc' e = ino" using dentry_same(3) [OF fun_cong [OF d], of e] by simp
    ultimately show ?thesis using a i Some by auto
  next
    case None
    define h where "h = hd (lru v Level1)"
    have i: "dcache_inv dc' (spec_recycle Level1 (hash_fn dev dir (namehash name)) v)"
      and d: "dentry dc' = dentry (fill_dentry dev dir version name ino h dc)" using c None by (simp_all add: h_def)
    have "unat (of_nat (length name) :: u8) = length name" using len by (simp add: DCACHE_NAME_LEN_def unat_of_nat)
    then have "entry_is dev dir version name h (fill_dentry dev dir version name ino h dc)"
      by (simp add: entry_is_def fill_dentry_def)
    then have "entry_is dev dir version name h dc'" using dentry_same(4) [OF fun_cong [OF d]] by blast
    then have "find_in dc' (spec_recycle Level1 (hash_fn dev dir (namehash name)) v) dev dir version name = Some h"
      by (simp add: find_in_def spec_recycle_def requeue_def Let_def h_def)
    moreover have "d_ino dc' h = ino" using dentry_same(3) [OF fun_cong [OF d], of h] by (simp add: fill_dentry_def)
    moreover have "h \<in> entries Level1" using inv lru_hd(1) [of dc "lru v" Level1] by (simp add: dcache_inv_def h_def)
    ultimately show ?thesis using a i by blast
  qed
qed

text \<open>A name that was added is found, with the inode number it was added with.\<close>

theorem dcache_add_then_lookup:
  assumes "dcache_inv dc v" and "length name \<le> DCACHE_NAME_LEN"
  shows "\<exists>dc' dc'' v''. dcache_add dev dir version name ino dc = Some dc' \<and>
    dcache_lookup dev dir version name dc' = Some (Some ino, dc'') \<and> dcache_inv dc'' v''"
proof -
  obtain dc' v' e where a: "dcache_add dev dir version name ino dc = Some dc'" "dcache_inv dc' v'"
      "find_in dc' v' dev dir version name = Some e" "d_ino dc' e = ino"
    using add_find_in [OF assms] by blast
  then show ?thesis
    using lookup_effect [OF a(2) assms(2) refl, of dev dir version] by (auto split: if_splits)
qed

lemma entry_is_dentry:
  "dentry dc' i = dentry dc j \<Longrightarrow> entry_is dev dir version name i dc' = entry_is dev dir version name j dc"
  by (simp add: dentry_def entry_is_def)

lemma find_removeAll:
  "List.find P xs = Some e \<Longrightarrow> h \<noteq> e \<Longrightarrow> (\<And>i. i \<noteq> h \<Longrightarrow> P' i = P i) \<Longrightarrow> List.find P' (removeAll h xs) = Some e"
  by (induction xs) (auto split: if_splits)

text \<open>A hit on level 1 leaves its entry in the queue, behind the copy on level 2. A later change of the
  inode number for the same version of the directory reaches only the copy; when the copy is taken out
  of the queue, to be reused, the search finds the old number again.\<close>

theorem dcache_stale_level1:
  assumes inv: "dcache_inv dc v" and len: "length name \<le> DCACHE_NAME_LEN"
    and hit: "find_in dc v dev dir version name = Some e" "e \<in> entries Level1"
  shows "\<exists>dc1 dc2 dc3 copy. dcache_lookup dev dir version name dc = Some (Some (d_ino dc e), dc1) \<and>
    dcache_add dev dir version name ino dc1 = Some dc2 \<and> copy \<in> entries Level2 \<and> d_ino dc2 copy = ino \<and>
    remove_hash copy dc2 = Some dc3 \<and>
    dc_find_entry dev dir version name (hash_fn dev dir (namehash name)) dc3 = Some (Some e) \<and> d_ino dc3 e = d_ino dc e"
proof -
  define q where "q = hash_fn dev dir (namehash name)"
  define h where "h = hd (lru v Level2)"
  have li: "lru_inv dc (lru v)" using inv by (simp add: dcache_inv_def)
  have h2: "h \<in> entries Level2" using lru_hd(1) [OF li] by (simp add: h_def)
  then have hb: "h < 2 * DCACHE_SIZE" using entries_bound by blast
  have e2: "e \<notin> entries Level2" using hit(2) entries_disjoint [of Level1 Level2] by blast
  then have ne: "h \<noteq> e" using h2 by blast
  obtain dc1 where l: "dcache_lookup dev dir version name dc = Some (Some (d_ino dc e), dc1)"
      and i1: "dcache_inv dc1 (spec_recycle Level2 q v)" and d1: "dentry dc1 = (dentry dc)(h := dentry dc e)"
    using lookup_effect [OF inv len q_def, of version] unfolding hit(1) option.case if_not_P [OF e2] h_def [symmetric]
    by (elim exE conjE) (rule that)
  have same1: "entry_is dev dir version name i dc1 = entry_is dev dir version name (if i = h then e else i) dc" for i
    by (rule entry_is_dentry) (simp add: d1)
  have q1: "queues (spec_recycle Level2 q v) q = h # removeAll h (queues v q)"
    by (simp add: spec_recycle_def requeue_def h_def Let_def)
  have "entry_is dev dir version name e dc" using find_in_SomeD(1) [OF inv hit(1)] .
  then have f1: "find_in dc1 (spec_recycle Level2 q v) dev dir version name = Some h"
    using same1 [of h] q1 by (simp add: find_in_def q_def [symmetric])
  obtain dc2 where a: "dcache_add dev dir version name ino dc1 = Some dc2"
      and i2: "dcache_inv dc2 (spec_use h (spec_recycle Level2 q v))"
      and d2: "dentry dc2 = dentry (dc1\<lparr>d_ino := (d_ino dc1)(h := ino)\<rparr>)"
    using add_effect [OF i1 len refl, of dev dir version ino] unfolding f1 option.case by (elim exE conjE) (rule that)
  have same2: "entry_is dev dir version name i dc2 = entry_is dev dir version name i dc1" for i
    using dentry_same(4) [OF fun_cong [OF d2]] by (simp add: entry_is_def)
  have "links_inv dc2 (queues (spec_use h (spec_recycle Level2 q v)))" using i2 by (simp add: dcache_inv_def hash_inv_def)
  then obtain dc3 where r: "remove_hash h dc2 = Some dc3" "same_data dc2 dc3"
      "links_inv dc3 (\<lambda>k. removeAll h (queues (spec_use h (spec_recycle Level2 q v)) k))"
    using remove_hash_effect [OF _ hb] by blast
  have same3: "entry_is dev dir version name i dc3 = entry_is dev dir version name i dc2" for i
    using dentry_same(4) [OF fun_cong [OF same_data_simps(1) [OF r(2)]]] by blast
  have "queues (spec_use h (spec_recycle Level2 q v)) q = h # removeAll h (queues v q)" using q1 by (simp add: spec_use_def)
  then have "qring dc3 q (removeAll h (queues v q))"
    using r(3) hash_fn_bound [of dev dir "namehash name"] by (auto simp: links_inv_def q_def [symmetric])
  then have "dc_find_entry dev dir version name q dc3 = Some (List.find (\<lambda>i. entry_is dev dir version name i dc3) (removeAll h (queues v q)))"
    by (rule dc_find_entry_list)
  also have "List.find (\<lambda>i. entry_is dev dir version name i dc3) (removeAll h (queues v q)) = Some e"
    by (rule find_removeAll [of "\<lambda>i. entry_is dev dir version name i dc"])
      (use hit(1) ne same1 same2 same3 in \<open>simp_all add: find_in_def q_def\<close>)
  finally have f: "dc_find_entry dev dir version name q dc3 = Some (Some e)" .
  have "d_ino dc3 e = d_ino dc2 e" using dentry_same(3) [OF fun_cong [OF same_data_simps(1) [OF r(2)]]] .
  also have "\<dots> = d_ino dc1 e" using dentry_same(3) [OF fun_cong [OF d2], of e] ne by simp
  also have "\<dots> = d_ino dc e" using fun_cong [OF d1, of e] ne by (simp add: dentry_def)
  finally have o: "d_ino dc3 e = d_ino dc e" .
  have "d_ino dc2 h = ino" using dentry_same(3) [OF fun_cong [OF d2], of h] by simp
  then show ?thesis using l a h2 r(1) f o unfolding q_def by blast
qed

section \<open>The cache after its initialisation\<close>

lemma link_level_fields:
  "next_lru (link_level l n p dc) = (\<lambda>x. if p \<le> x \<and> x < p + n then x + 1 else next_lru dc x)"
  "prev_lru (link_level l n p dc) = (\<lambda>x. if p < x \<and> x \<le> p + n then x - 1 else prev_lru dc x)"
  "lru_head (link_level l n p dc) = (\<lambda>x. if p \<le> x \<and> x < p + n then l else lru_head dc x)"
  by (induction l n p dc rule: link_level.induct) (auto simp: fun_eq_iff)

lemma link_level_rest:
  "h_next (link_level l n p dc) = h_next dc" "h_prev (link_level l n p dc) = h_prev dc"
  "level_head (link_level l n p dc) = level_head dc" "d_name (link_level l n p dc) = d_name dc"
  by (induction l n p dc rule: link_level.induct) simp_all

lemma init_queues_rest:
  "next_lru (init_queues n i dc) = next_lru dc" "prev_lru (init_queues n i dc) = prev_lru dc"
  "lru_head (init_queues n i dc) = lru_head dc" "level_head (init_queues n i dc) = level_head dc"
  "d_name (init_queues n i dc) = d_name dc" "h_next (init_queues n i dc) (Entry e) = h_next dc (Entry e)"
  by (induction n i dc rule: init_queues.induct) simp_all

lemma init_queues_next:
  "h_next (init_queues n i dc) (Queue q) = (if i \<le> q \<and> q < i + n then Queue q else h_next dc (Queue q))"
  by (induction n i dc rule: init_queues.induct) auto

lemma dseg_upt:
  assumes "\<And>x. a \<le> x \<Longrightarrow> x < a + k \<Longrightarrow> n x = x + 1 \<and> p (x + 1) = x" and "n (a + k) = b" and "p b = a + k"
  shows "dseg n p a [a + 1..<a + k + 1] b"
  using assms
proof (induction k arbitrary: a)
  case (Suc k)
  have "dseg n p (a + 1) [a + 1 + 1..<a + 1 + k + 1] b" by (rule Suc.IH) (use Suc.prems in auto)
  moreover have "[a + 1..<a + Suc k + 1] = (a + 1) # [a + 1 + 1..<a + 1 + k + 1]" by (simp add: upt_conv_Cons)
  ultimately show ?case using Suc.prems(1) [of a] by simp
qed simp

lemma ring_upt:
  assumes "\<And>x. a \<le> x \<Longrightarrow> x < a + k \<Longrightarrow> n x = x + 1 \<and> p (x + 1) = x" and "n (a + k) = a" and "p a = a + k"
  shows "ring n p [a..<a + k + 1]"
proof -
  have "[a..<a + k + 1] = a # [a + 1..<a + k + 1]" by (simp add: upt_conv_Cons)
  then show ?thesis using dseg_upt [OF assms] by (simp add: ring_Cons)
qed

definition empty_view :: dview where
  "empty_view = \<lparr>queues = \<lambda>_. [], lru = \<lambda>l. case l of Level1 \<Rightarrow> [0..<DCACHE_SIZE] | Level2 \<Rightarrow> [DCACHE_SIZE..<2 * DCACHE_SIZE]\<rparr>"

lemma init_inv: "dcache_inv (name_cache_init zero_dcache) empty_view"
proof -
  let ?dc = "name_cache_init zero_dcache"
  have q: "h_next ?dc (Queue q) = Queue q" if "q < DCACHE_HASH_QUEUES" for q
    using that by (simp add: name_cache_init_def init_queues_next)
  have "h_next ?dc (Entry e) = Null" "d_name ?dc e = replicate DCACHE_NAME_LEN 0" for e
    by (simp_all add: name_cache_init_def init_queues_rest init_level_def Let_def link_level_rest zero_dcache_def)
  then have "hash_inv ?dc (queues empty_view)"
    using q by (simp add: hash_inv_def links_inv_def qring_def empty_view_def)
  moreover have "lru_inv ?dc (lru empty_view)"
    unfolding lru_inv_def
  proof
    fix l
    obtain k where k: "DCACHE_SIZE = k + 1" by (simp add: DCACHE_SIZE_def)
    have e1: "[0..<DCACHE_SIZE] = [0..<0 + k + 1]" and e2: "[DCACHE_SIZE..<2 * DCACHE_SIZE] = [k + 1..<(k + 1) + k + 1]"
      unfolding k by (simp_all only: add_0 mult_2 add.assoc)
    have "level_head ?dc Level1 = 0" "level_head ?dc Level2 = DCACHE_SIZE"
      by (simp_all add: name_cache_init_def init_queues_rest init_level_def Let_def link_level_rest)
    moreover have "lru_head ?dc x = Level1" if "x < DCACHE_SIZE" for x
      using that by (simp add: name_cache_init_def init_queues_rest init_level_def Let_def link_level_fields k)
    moreover have "lru_head ?dc x = Level2" if "DCACHE_SIZE \<le> x" "x < 2 * DCACHE_SIZE" for x
      using that by (simp add: name_cache_init_def init_queues_rest init_level_def Let_def link_level_fields k)
    moreover have "ring (next_lru ?dc) (prev_lru ?dc) [0..<DCACHE_SIZE]"
      unfolding e1 by (rule ring_upt) (auto simp: name_cache_init_def init_queues_rest init_level_def Let_def link_level_fields k)
    moreover have "ring (next_lru ?dc) (prev_lru ?dc) [DCACHE_SIZE..<2 * DCACHE_SIZE]"
      unfolding e2 by (rule ring_upt) (auto simp: name_cache_init_def init_queues_rest init_level_def Let_def link_level_fields k)
    ultimately show "ring (next_lru ?dc) (prev_lru ?dc) (lru empty_view l) \<and> set (lru empty_view l) = entries l \<and>
        level_head ?dc l = hd (lru empty_view l) \<and> (\<forall>e \<in> entries l. lru_head ?dc e = l)"
      using k by (cases l) (simp_all add: empty_view_def entries_def del: upt_Suc)
  qed
  ultimately show ?thesis by (simp add: dcache_inv_def)
qed

text \<open>\<open>name_cache_init\<close> makes the zeroed arrays a cache with empty queues and both LRU lists in the order
  of the arrays, although it never sets the \<open>prev\<close> link of a queue: the first insertion does.\<close>

theorem name_cache_init_empty: "dcache_inv (name_cache_init zero_dcache) empty_view"
  by (rule init_inv)

section \<open>Witnesses\<close>

lemma find_in_empty: "find_in dc empty_view dev dir version name = None"
  by (simp add: find_in_def empty_view_def)

theorem dcache_add_refines_witness:
  "\<exists>dc'. dcache_add 1 2 7 [97] 12 (name_cache_init zero_dcache) = Some dc' \<and>
     dcache_inv dc' (spec_recycle Level1 (hash_fn 1 2 (namehash [97])) empty_view)"
  using dcache_add_refines [OF init_inv, of "[97]" 1 2 7 12] find_in_empty by (auto simp: DCACHE_NAME_LEN_def)

theorem dcache_lookup_refines_witness:
  "dcache_lookup 1 2 7 [97] (name_cache_init zero_dcache) = Some (None, name_cache_init zero_dcache)"
  using dcache_lookup_refines [OF init_inv, of "[97]" 1 2 7] find_in_empty by (auto simp: DCACHE_NAME_LEN_def)

theorem dcache_add_then_lookup_witness:
  "\<exists>dc' dc''. dcache_add 1 2 7 [97] 12 (name_cache_init zero_dcache) = Some dc' \<and>
     dcache_lookup 1 2 7 [97] dc' = Some (Some 12, dc'')"
proof -
  have "length [97 :: u8] \<le> DCACHE_NAME_LEN" by (simp add: DCACHE_NAME_LEN_def)
  from dcache_add_then_lookup [OF init_inv this] show ?thesis by blast
qed

theorem dcache_stale_level1_witness:
  "\<exists>dc dc1 dc2 dc3 copy e. dcache_add 1 2 7 [97] 12 (name_cache_init zero_dcache) = Some dc \<and>
     dcache_lookup 1 2 7 [97] dc = Some (Some 12, dc1) \<and> dcache_add 1 2 7 [97] 13 dc1 = Some dc2 \<and>
     remove_hash copy dc2 = Some dc3 \<and>
     dc_find_entry 1 2 7 [97] (hash_fn 1 2 (namehash [97])) dc3 = Some (Some e) \<and> d_ino dc3 e = 12"
proof -
  have len: "length [97 :: u8] \<le> DCACHE_NAME_LEN" by (simp add: DCACHE_NAME_LEN_def)
  obtain dc v e where a: "dcache_add 1 2 7 [97] 12 (name_cache_init zero_dcache) = Some dc" "dcache_inv dc v"
      "find_in dc v 1 2 7 [97] = Some e" "d_ino dc e = 12" "e \<in> entries Level1"
    using add_find_in [OF init_inv len, of 1 2 7 12] unfolding find_in_empty by auto
  from dcache_stale_level1 [OF a(2) len a(3,5), of 13] show ?thesis using a(1,4) by (simp only:) blast
qed

end
