(* ===== verification/Ext2_Icache_Example.thy ===== *)
theory Ext2_Icache_Example
  imports Ext2_Iget_Props Ext2_Example
begin

text \<open>
  An example table, on which the witnesses apply the theorems on the inode table: the root directory
  with one use, and two free inodes. The driver may get one more page, of four inodes.
\<close>

definition example_vfs :: vfs where
  "example_vfs = \<lparr>v_fs = example_fs, v_dc = zero_dcache, event = 0, seed = 1,
     v_inode = (\<lambda>p. if p = Ino 0 then zero_inode\<lparr>i_ino := 2, i_mode := 0x41ED, i_nlink := 2, i_count := 1, i_size := 128\<rparr> else zero_inode),
     i_dev = (\<lambda>p. if p = Ino 0 then 5 else 0), i_sb = (\<lambda>p. p = Ino 0), i_lock = (\<lambda>_. False),
     i_next = (\<lambda>p. if p = Ino 0 then Ino 1 else if p = Ino 1 then Ino 2 else if p = Ino 2 then Ino 0 else INull),
     i_prev = (\<lambda>p. if p = Ino 0 then Ino 2 else if p = Ino 1 then Ino 0 else if p = Ino 2 then Ino 1 else INull),
     i_hash_next = (\<lambda>_. INull), i_hash_prev = (\<lambda>_. INull), first_inode = Ino 0,
     hash_table = (\<lambda>h. if h = 7 then Ino 0 else INull), nr_inodes = 3, nr_free_inodes = 2, free_pages = [10],
     inodes_per_page = 4, s_dev = 5, sector_size = 512, nb_sectors = 1000,
     s_rename_lock = False\<rparr>"

definition example_ring :: "iptr list" where
  "example_ring = [Ino 0, Ino 1, Ino 2]"

definition example_chains :: "nat \<Rightarrow> iptr list" where
  "example_chains h = (if h = 7 then [Ino 0] else [])"

lemma example_key: "hashfn 5 2 = 7"
  by (simp add: hashfn_def NR_IHASH_def)

lemma example_table: "table_inv example_vfs example_ring example_chains"
proof -
  have "ring_part example_vfs example_ring" by (simp add: ring_part_def ring_def example_vfs_def example_ring_def)
  moreover have "chain_part example_vfs example_ring example_chains"
    by (simp add: chain_part_def example_chains_def example_ring_def hash_key_def)
      (simp add: example_vfs_def example_key NR_IHASH_def)
  moreover have "nr_inodes example_vfs = int (length example_ring)" by (simp add: example_vfs_def example_ring_def)
  ultimately show ?thesis by (simp add: table_inv_def)
qed

lemma example_pages: "pages_ok example_vfs example_ring"
  by (simp add: pages_ok_def page_inodes_def example_vfs_def example_ring_def upt_rec)

lemma example_root: "List.find (match example_vfs 2) (example_chains (hashfn (s_dev example_vfs) 2)) = Some (Ino 0)"
  by (simp add: match_def example_vfs_def example_key example_chains_def)

lemma example_iget_root: "iget env 2 example_vfs = Some (Ino 0, found_it (Ino 0) example_vfs)"
  by (rule iget_found [OF example_table example_root])

theorem fs_may_umount_iff_witness: "fs_may_umount 5 (Ino 0) example_vfs = Some True"
  using fs_may_umount_iff [OF example_table, of 5 "Ino 0"] by (simp add: example_ring_def example_vfs_def)

theorem invalidate_exact_witness:
  "\<exists>st'. hard_invalidate_inodes 5 example_vfs = Some st' \<and> is_cleared st' (Ino 0)"
  using invalidate_exact [OF example_table, of True 5] by (auto simp: example_ring_def example_vfs_def)

lemma example_empty: "\<exists>p st'. get_empty_inode example_vfs = Some (p, st')"
proof -
  have "scan_free (Suc (Suc (Suc 0))) (Ino 0) INull example_vfs = Some (Ino 1)"
    by (simp add: example_vfs_def zero_inode_def)
  then have sc: "scan_free (nat (nr_inodes example_vfs)) (first_inode example_vfs) INull example_vfs = Some (Ino 1)"
    by (simp add: example_vfs_def numeral_3_eq_3)
  have "empty_repeat example_vfs = Some (Ino 1, example_vfs)"
    using sc by (subst empty_repeat.simps) (simp add: example_vfs_def zero_inode_def)
  moreover obtain st1 where "clear_inode (Ino 1) example_vfs = Some st1"
    using clear_inode_table [OF example_table, of "Ino 1"] by (auto simp: example_ring_def)
  moreover have "\<not> nr_free_inodes example_vfs < nr_inodes example_vfs div 4" by (simp add: example_vfs_def)
  ultimately show ?thesis by (simp add: get_empty_inode_def Let_def)
qed

theorem get_empty_unused_witness:
  "\<exists>p st'. get_empty_inode example_vfs = Some (p, st') \<and> i_count (v_inode st' p) = 1 \<and> same_inode example_vfs st' (Ino 0)"
proof -
  obtain p st' where g: "get_empty_inode example_vfs = Some (p, st')" using example_empty by blast
  have "Ino 0 \<in> set example_ring" "i_count (v_inode example_vfs (Ino 0)) \<noteq> 0" by (simp_all add: example_ring_def example_vfs_def)
  then show ?thesis using get_empty_unused [OF example_table example_pages g] g by auto
qed

theorem iget_unique_witness:
  "\<forall>env. \<exists>st'. iget env 2 example_vfs = Some (Ino 0, st') \<and> iget env 2 st' = Some (Ino 0, found_it (Ino 0) st')"
  proof
  fix env
  show "\<exists>st'. iget env 2 example_vfs = Some (Ino 0, st') \<and> iget env 2 st' = Some (Ino 0, found_it (Ino 0) st')"
    using iget_unique [OF example_table example_pages example_iget_root] example_iget_root by blast
qed

theorem iget_iput_witness:
  "\<forall>env. \<exists>st'. iget env 2 example_vfs = Some (Ino 0, st') \<and> iput env (Ino 0) st' = Some (wait_on_inode (Ino 0) example_vfs)"
proof
  fix env
  have "Ino 0 \<in> set example_ring" "i_count (v_inode example_vfs (Ino 0)) \<noteq> 0" "i_count (v_inode example_vfs (Ino 0)) \<noteq> - 1"
    by (simp_all add: example_ring_def example_vfs_def)
  from iget_iput [OF example_table example_pages example_iget_root this]
  show "\<exists>st'. iget env 2 example_vfs = Some (Ino 0, st') \<and> iput env (Ino 0) st' = Some (wait_on_inode (Ino 0) example_vfs)"
    using example_iget_root by blast
qed

end
