(* ===== verification/Ext2_Namei.thy ===== *)
theory Ext2_Namei
  imports Ext2_Icache Ext2_Dir
begin

text \<open>
  The operations on names, \<open>src/ext2/namei.c\<close> (its OS/2 code): \<open>ext2_lookup\<close>, \<open>ext2_create\<close>,
  \<open>ext2_mknod\<close>, \<open>ext2_mkdir\<close>, \<open>ext2_rmdir\<close>, \<open>ext2_unlink\<close>, \<open>ext2_link\<close>, \<open>subdir\<close>, \<open>do_ext2_rename\<close>
  and \<open>ext2_rename\<close>, on the state of the whole driver.

  The directory functions of one inode run on the inode that the pointer names (\<open>_at\<close>). A \<open>struct
  ext2_dir_entry *\<close> is the buffer it points into and the offset there. Results are 0 or a negative
  error number; \<open>*result\<close> is a second result. A pointer that is read through is not null and has a
  super block, or the result is \<open>None\<close>; so is that of an operation that retries for ever. A \<open>mode\<close> is
  its low 16 bits: the rest of the \<open>int\<close> is never looked at. Nothing runs between two statements
  except where the code yields, so \<open>i_sem\<close> is always free and is left out.
\<close>

definition EPERM :: int where "EPERM = 1"
definition EACCES :: int where "EACCES = 13"
definition EBUSY :: int where "EBUSY = 16"
definition ENOTDIR :: int where "ENOTDIR = 20"
definition EISDIR :: int where "EISDIR = 21"
definition EMLINK :: int where "EMLINK = 31"
definition ENOTEMPTY :: int where "ENOTEMPTY = 39"

definition EXT2_LINK_MAX :: u16 where "EXT2_LINK_MAX = 32000"
definition S_IFDIR :: u16 where "S_IFDIR = 0x4000"
definition S_IRWXUGO :: u16 where "S_IRWXUGO = 0x01FF"

type_synonym de_ptr = "u32 \<times> nat"

subsection \<open>Steps on the whole state\<close>

definition upd_inode :: "iptr \<Rightarrow> (inode \<Rightarrow> inode) \<Rightarrow> vfs \<Rightarrow> vfs" where
  "upd_inode p f st = set_inode p (f (v_inode st p)) st"

definition brelse_at :: "u32 option \<Rightarrow> vfs \<Rightarrow> vfs" where
  "brelse_at bh st = st\<lparr>v_fs := brelse bh (v_fs st)\<rparr>"

definition find_entry_at :: "env \<Rightarrow> iptr \<Rightarrow> u8 list \<Rightarrow> de_ptr option vop" where
  "find_entry_at env p name st =
     (if p = INull then Some (None, st)
      else if \<not> i_sb st p then None
      else do {
        ((r, dir), fs) \<leftarrow> ext2_find_entry (cur_time env) (retensive env) (v_inode st p) name (v_fs st);
        Some (r, set_inode p dir (st\<lparr>v_fs := fs\<rparr>))
      })"

definition add_entry_at :: "env \<Rightarrow> iptr \<Rightarrow> u8 list \<Rightarrow> (de_ptr option \<times> int) vop" where
  "add_entry_at env p name st =
     (if p = INull then Some ((None, - EINVAL), st)
      else if \<not> i_sb st p then None
      else do {
        (((r, err), (dir, ev)), fs) \<leftarrow>
          ext2_add_entry (cur_time env) (retensive env) (v_inode st p) name (event st) (v_fs st);
        Some ((r, err), set_inode p dir (st\<lparr>v_fs := fs, event := ev\<rparr>))
      })"

definition delete_entry_at :: "de_ptr \<Rightarrow> int vop" where
  "delete_entry_at de st = do {
     (r, fs) \<leftarrow> ext2_delete_entry (snd de) (fst de) (v_fs st);
     Some (r, st\<lparr>v_fs := fs\<rparr>)
   }"

definition empty_dir_at :: "env \<Rightarrow> iptr \<Rightarrow> bool vop" where
  "empty_dir_at env p st =
     (if \<not> i_sb st p then None
      else do {
        ((r, inode), fs) \<leftarrow> empty_dir (cur_time env) (v_inode st p) (v_fs st);
        Some (r, set_inode p inode (st\<lparr>v_fs := fs\<rparr>))
      })"

definition bread_at :: "env \<Rightarrow> iptr \<Rightarrow> int \<Rightarrow> bool \<Rightarrow> int \<Rightarrow> (u32 option \<times> int) vop" where
  "bread_at env p block create err st =
     (if \<not> i_sb st p then None
      else do {
        ((r, inode), fs) \<leftarrow> ext2_bread (cur_time env) (v_inode st p) block create err (v_fs st);
        Some (r, set_inode p inode (st\<lparr>v_fs := fs\<rparr>))
      })"

definition iget_at :: "env \<Rightarrow> iptr \<Rightarrow> u32 \<Rightarrow> iptr vop" where
  "iget_at env dir nr st = (if \<not> i_sb st dir then None else iget env nr st)"

text \<open>\<open>dcache_add\<close> and \<open>dcache_lookup\<close> identify the directory by its device, its number and its version.\<close>

definition dcache_add_at :: "iptr \<Rightarrow> u8 list \<Rightarrow> u32 \<Rightarrow> vfs \<Rightarrow> vfs option" where
  "dcache_add_at dir name ino st = do {
     dc \<leftarrow> dcache_add (ucast (i_dev st dir)) (i_ino (v_inode st dir)) (i_version (v_inode st dir)) name ino (v_dc st);
     Some (st\<lparr>v_dc := dc\<rparr>)
   }"

definition dcache_lookup_at :: "iptr \<Rightarrow> u8 list \<Rightarrow> u32 option vop" where
  "dcache_lookup_at dir name st = do {
     (r, dc) \<leftarrow> dcache_lookup (ucast (i_dev st dir)) (i_ino (v_inode st dir)) (i_version (v_inode st dir)) name (v_dc st);
     Some (r, st\<lparr>v_dc := dc\<rparr>)
   }"

text \<open>\<open>dir->i_version = ++event\<close>\<close>

definition new_version :: "iptr \<Rightarrow> vfs \<Rightarrow> vfs" where
  "new_version p st =
     (let ev = event st + 1 in upd_inode p (\<lambda>i. i\<lparr>i_version := ev\<rparr>) (st\<lparr>event := ev\<rparr>))"

text \<open>\<open>mark_buffer_dirty (bh, 1)\<close>, and the block written at once when the directory is synchronous.\<close>

definition dirty_block :: "iptr \<Rightarrow> u32 \<Rightarrow> vfs \<Rightarrow> vfs" where
  "dirty_block dir bh st =
     (let fs = mark_buffer_dirty bh (v_fs st)
      in st\<lparr>v_fs := (if IS_SYNC (v_inode st dir) then ll_rw_block_write bh fs else fs)\<rparr>)"

definition read_buffer :: "u32 \<Rightarrow> vfs \<Rightarrow> u8 list option" where
  "read_buffer bh st = b_data (v_fs st) bh"

definition write_buffer :: "u32 \<Rightarrow> u8 list \<Rightarrow> vfs \<Rightarrow> vfs" where
  "write_buffer bh bs st = st\<lparr>v_fs := (v_fs st)\<lparr>b_data := (b_data (v_fs st))(bh \<mapsto> bs)\<rparr>\<rparr>"

text \<open>The entry \<open>de\<close> that \<open>ext2_add_entry\<close> made gets its inode, from \<open>de->inode = \<dots>\<close> to the write.\<close>

definition enter_inode :: "iptr \<Rightarrow> de_ptr \<Rightarrow> u32 \<Rightarrow> vfs \<Rightarrow> vfs option" where
  "enter_inode dir de ino st = (case de of (bh, off) \<Rightarrow> do {
     bs \<leftarrow> read_buffer bh st;
     let bs = put32 off ino bs;
     let st = new_version dir (write_buffer bh bs st);
     st \<leftarrow> dcache_add_at dir (de_name bs off) (de_inode bs off) st;
     Some (dirty_block dir bh st)
   })"

subsection \<open>ext2_lookup\<close>

text \<open>The inode of the entry, and \<open>dir\<close> is released.\<close>

definition lookup_inode :: "env \<Rightarrow> iptr \<Rightarrow> u32 \<Rightarrow> (int \<times> iptr) vop" where
  "lookup_inode env dir ino st = do {
     (p, st) \<leftarrow> iget_at env dir ino st;
     st \<leftarrow> iput env dir st;
     Some ((if p = INull then - EACCES else 0, p), st)
   }"

definition ext2_lookup :: "env \<Rightarrow> iptr \<Rightarrow> u8 list \<Rightarrow> (int \<times> iptr) vop" where
  "ext2_lookup env dir name st =
     (if dir = INull then Some ((- ENOENT, INull), st)
      else if \<not> S_ISDIR (i_mode (v_inode st dir)) then do {
        st \<leftarrow> iput env dir st;
        Some ((- ENOENT, INull), st)
      }
      else do {
        (r, st) \<leftarrow> dcache_lookup_at dir name st;
        case r of
          Some ino \<Rightarrow>
            if ino = 0 then do {
              st \<leftarrow> iput env dir st;
              Some ((- ENOENT, INull), st)
            }
            else lookup_inode env dir ino st
        | None \<Rightarrow> do {
            let version = i_version (v_inode st dir);
            (r, st) \<leftarrow> find_entry_at env dir name st;
            case r of
              None \<Rightarrow> do {
                st \<leftarrow> (if version = i_version (v_inode st dir) then dcache_add_at dir name 0 st else Some st);
                st \<leftarrow> iput env dir st;
                Some ((- ENOENT, INull), st)
              }
            | Some (bh, off) \<Rightarrow> do {
                bs \<leftarrow> read_buffer bh st;
                let ino = de_inode bs off;
                st \<leftarrow> dcache_add_at dir name ino st;
                lookup_inode env dir ino (brelse_at (Some bh) st)
              }
          }
      })"

subsection \<open>ext2_create and ext2_mknod\<close>

text \<open>\<open>inode->i_nlink--; inode->i_dirt = 1\<close>, which gives the new inode up\<close>

definition drop_link :: "inode \<Rightarrow> inode" where
  "drop_link i = i\<lparr>i_nlink := i_nlink i - 1, i_dirt := True\<rparr>"

definition ext2_create :: "env \<Rightarrow> iptr \<Rightarrow> u8 list \<Rightarrow> u16 \<Rightarrow> (int \<times> iptr) vop" where
  "ext2_create env dir name mode st =
     (if dir = INull then Some ((- ENOENT, INull), st)
      else do {
        (p, st) \<leftarrow> new_inode env dir mode st;
        if p = INull then do {
          st \<leftarrow> iput env dir st;
          Some ((- ENOSPC, INull), st)
        }
        else do {
          let st = upd_inode p (\<lambda>i. i\<lparr>i_op := File_ops, i_mode := mode, i_dirt := True\<rparr>) st;
          ((de, err), st) \<leftarrow> add_entry_at env dir name st;
          case de of
            None \<Rightarrow> do {
              st \<leftarrow> iput env p (upd_inode p drop_link st);
              st \<leftarrow> iput env dir st;
              Some ((err, INull), st)
            }
          | Some de \<Rightarrow> do {
              st \<leftarrow> enter_inode dir de (i_ino (v_inode st p)) st;
              st \<leftarrow> iput env dir (brelse_at (Some (fst de)) st);
              Some ((0, p), st)
            }
        }
      })"

definition mknod_inode :: "u16 \<Rightarrow> u16 \<Rightarrow> inode \<Rightarrow> inode \<Rightarrow> inode" where
  "mknod_inode mode rdev dir i =
     (let i = i\<lparr>i_mode := mode, i_op := No_ops\<rparr>;
          i = (if S_ISREG (i_mode i) then i\<lparr>i_op := File_ops\<rparr>
               else if S_ISDIR (i_mode i) then
                 let i = i\<lparr>i_op := Dir_ops\<rparr>
                 in if i_mode dir AND S_ISGID \<noteq> 0 then i\<lparr>i_mode := i_mode i OR S_ISGID\<rparr> else i
               else i);
          i = (if S_ISBLK mode \<or> S_ISCHR mode then i\<lparr>i_rdev := rdev\<rparr> else i)
      in i\<lparr>i_dirt := True\<rparr>)"

definition ext2_mknod :: "env \<Rightarrow> iptr \<Rightarrow> u8 list \<Rightarrow> u16 \<Rightarrow> u16 \<Rightarrow> int vop" where
  "ext2_mknod env dir name mode rdev st =
     (if dir = INull then Some (- ENOENT, st)
      else do {
        (r, st) \<leftarrow> find_entry_at env dir name st;
        case r of
          Some (bh, _) \<Rightarrow> do {
            st \<leftarrow> iput env dir (brelse_at (Some bh) st);
            Some (- EEXIST, st)
          }
        | None \<Rightarrow> do {
            (p, st) \<leftarrow> new_inode env dir mode st;
            if p = INull then do {
              st \<leftarrow> iput env dir st;
              Some (- ENOSPC, st)
            }
            else do {
              let st = upd_inode p (mknod_inode mode rdev (v_inode st dir)) st;
              ((de, err), st) \<leftarrow> add_entry_at env dir name st;
              case de of
                None \<Rightarrow> do {
                  st \<leftarrow> iput env p (upd_inode p drop_link st);
                  st \<leftarrow> iput env dir st;
                  Some (err, st)
                }
              | Some de \<Rightarrow> do {
                  st \<leftarrow> enter_inode dir de (i_ino (v_inode st p)) st;
                  st \<leftarrow> iput env dir (brelse_at (Some (fst de)) st);
                  st \<leftarrow> iput env p st;
                  Some (0, st)
                }
            }
          }
      })"

subsection \<open>ext2_mkdir\<close>

text \<open>The first block of a new directory: the entries \<open>.\<close> and \<open>..\<close>, with \<open>strcpy\<close> of the names.\<close>

definition dot_entries :: "nat \<Rightarrow> u32 \<Rightarrow> u32 \<Rightarrow> u8 list \<Rightarrow> u8 list" where
  "dot_entries blocksize ino parent bs =
     (let bs = put32 0 ino bs;
          bs = put16 6 1 bs;
          bs = put16 4 (of_nat (EXT2_DIR_REC_LEN (de_name_len bs 0))) bs;
          bs = put_bytes 8 [46, 0] bs;
          de = de_rec_len bs 0;
          bs = put32 de parent bs;
          bs = put16 (de + 4) (of_nat (blocksize - EXT2_DIR_REC_LEN 1)) bs;
          bs = put16 (de + 6) 2 bs
      in put_bytes (de + 8) [46, 46, 0] bs)"

definition mkdir_inode :: "u16 \<Rightarrow> u16 \<Rightarrow> inode \<Rightarrow> inode \<Rightarrow> inode" where
  "mkdir_inode um mode dir i =
     (let i = i\<lparr>i_mode := S_IFDIR OR (mode AND S_IRWXUGO AND NOT um)\<rparr>;
          i = (if i_mode dir AND S_ISGID \<noteq> 0 then i\<lparr>i_mode := i_mode i OR S_ISGID\<rparr> else i)
      in i\<lparr>i_dirt := True\<rparr>)"

text \<open>From the new inode \<open>p\<close> on.\<close>

definition mkdir_with :: "env \<Rightarrow> iptr \<Rightarrow> u8 list \<Rightarrow> u16 \<Rightarrow> iptr \<Rightarrow> int vop" where
  "mkdir_with env dir name mode p st = do {
     let bs = s_blocksize (v_fs st);
     let st = upd_inode p (\<lambda>i. i\<lparr>i_op := Dir_ops, i_size := of_nat bs\<rparr>) st;
     ((dir_block, err), st) \<leftarrow> bread_at env p 0 True 0 st;
     case dir_block of
       None \<Rightarrow> do {
         st \<leftarrow> iput env dir st;
         st \<leftarrow> iput env p (upd_inode p drop_link st);
         Some (err, st)
       }
     | Some db \<Rightarrow> do {
         let st = upd_inode p (\<lambda>i. i\<lparr>i_blocks := of_nat (bs div 512)\<rparr>) st;
         data \<leftarrow> read_buffer db st;
         let st = write_buffer db (dot_entries bs (i_ino (v_inode st p)) (i_ino (v_inode st dir)) data) st;
         let st = upd_inode p (\<lambda>i. i\<lparr>i_nlink := 2\<rparr>) st;
         let st = brelse_at (Some db) (st\<lparr>v_fs := mark_buffer_dirty db (v_fs st)\<rparr>);
         let st = upd_inode p (mkdir_inode (umask env) mode (v_inode st dir)) st;
         ((de, err), st) \<leftarrow> add_entry_at env dir name st;
         case de of
           None \<Rightarrow> do {
             st \<leftarrow> iput env dir st;
             st \<leftarrow> iput env p (upd_inode p (\<lambda>i. i\<lparr>i_nlink := 0, i_dirt := True\<rparr>) st);
             Some (err, st)
           }
         | Some de \<Rightarrow> do {
             st \<leftarrow> enter_inode dir de (i_ino (v_inode st p)) st;
             let st = upd_inode dir (\<lambda>i. i\<lparr>i_nlink := i_nlink i + 1, i_dirt := True\<rparr>) st;
             st \<leftarrow> iput env dir st;
             st \<leftarrow> iput env p st;
             Some (0, brelse_at (Some (fst de)) st)
           }
       }
   }"

definition ext2_mkdir :: "env \<Rightarrow> iptr \<Rightarrow> u8 list \<Rightarrow> u16 \<Rightarrow> int vop" where
  "ext2_mkdir env dir name mode st =
     (if dir = INull then Some (- ENOENT, st)
      else do {
        (r, st) \<leftarrow> find_entry_at env dir name st;
        case r of
          Some (bh, _) \<Rightarrow> do {
            st \<leftarrow> iput env dir (brelse_at (Some bh) st);
            Some (- EEXIST, st)
          }
        | None \<Rightarrow>
            if i_nlink (v_inode st dir) \<ge> EXT2_LINK_MAX then do {
              st \<leftarrow> iput env dir st;
              Some (- EMLINK, st)
            }
            else do {
              (p, st) \<leftarrow> new_inode env dir S_IFDIR st;
              if p = INull then do {
                st \<leftarrow> iput env dir st;
                Some (- ENOSPC, st)
              }
              else mkdir_with env dir name mode p st
            }
      })"

subsection \<open>ext2_rmdir\<close>

definition end_rmdir :: "env \<Rightarrow> int \<Rightarrow> iptr \<Rightarrow> iptr \<Rightarrow> u32 option \<Rightarrow> int vop" where
  "end_rmdir env retval dir inode bh st = do {
     st \<leftarrow> iput env dir st;
     st \<leftarrow> iput env inode st;
     Some (retval, brelse_at bh st)
   }"

text \<open>The part under \<open>i_sem\<close>. A busy directory is made empty, so that nothing is added to it.\<close>

definition rmdir_entry :: "env \<Rightarrow> iptr \<Rightarrow> iptr \<Rightarrow> de_ptr \<Rightarrow> int vop" where
  "rmdir_entry env dir inode de st = do {
     (empty, st) \<leftarrow> empty_dir_at env inode st;
     if \<not> empty then Some (- ENOTEMPTY, st)
     else do {
       bs \<leftarrow> read_buffer (fst de) st;
       if de_inode bs (snd de) \<noteq> i_ino (v_inode st inode) then Some (- ENOENT, st)
       else do {
         let st = (if i_count (v_inode st inode) > 1 then upd_inode inode (\<lambda>i. i\<lparr>i_size := 0\<rparr>) st else st);
         (retval, st) \<leftarrow> delete_entry_at de st;
         Some (retval, new_version dir st)
       }
     }
   }"

definition rmdir_found :: "env \<Rightarrow> iptr \<Rightarrow> iptr \<Rightarrow> de_ptr \<Rightarrow> int vop" where
  "rmdir_found env dir inode de st =
     (let bh = Some (fst de) in
      if inode = dir then end_rmdir env (- EPERM) dir inode bh st
      else if \<not> S_ISDIR (i_mode (v_inode st inode)) then end_rmdir env (- ENOTDIR) dir inode bh st
      else do {
        (retval, st) \<leftarrow> rmdir_entry env dir inode de st;
        if retval \<noteq> 0 then end_rmdir env retval dir inode bh st
        else
          let st = new_version inode (dirty_block dir (fst de) st);
              st = upd_inode inode (\<lambda>i. i\<lparr>i_nlink := 0, i_dirt := True\<rparr>) st;
              st = upd_inode dir (\<lambda>i. i\<lparr>i_nlink := i_nlink i - 1\<rparr>) st;
              st = upd_inode dir (\<lambda>i. i\<lparr>i_mtime := cur_time env, i_ctime := cur_time env\<rparr>) st;
              st = upd_inode inode (\<lambda>i. i\<lparr>i_ctime := cur_time env\<rparr>) st;
              st = upd_inode dir (\<lambda>i. i\<lparr>i_dirt := True\<rparr>) st
          in end_rmdir env 0 dir inode bh st
      })"

definition yield_at :: "env \<Rightarrow> vfs \<Rightarrow> vfs" where
  "yield_at env st = st\<lparr>v_fs := yields env (v_fs st)\<rparr>"

text \<open>From \<open>repeat\<close> on; it starts again when the entry changed while the inode was read.\<close>

partial_function (option) ext2_rmdir :: "env \<Rightarrow> iptr \<Rightarrow> u8 list \<Rightarrow> vfs \<Rightarrow> (int \<times> vfs) option" where
  "ext2_rmdir env dir name st =
     (if dir = INull then Some (- ENOENT, st)
      else Option.bind (find_entry_at env dir name st) (\<lambda>(r, st). case r of
        None \<Rightarrow> end_rmdir env (- ENOENT) dir INull None st
      | Some de \<Rightarrow> Option.bind (read_buffer (fst de) st) (\<lambda>bs.
          Option.bind (iget_at env dir (de_inode bs (snd de)) st) (\<lambda>(inode, st).
            if inode = INull then end_rmdir env (- EPERM) dir inode (Some (fst de)) st
            else if i_dev st inode \<noteq> i_dev st dir then end_rmdir env (- EPERM) dir inode (Some (fst de)) st
            else Option.bind (read_buffer (fst de) st) (\<lambda>bs.
              if de_inode bs (snd de) \<noteq> i_ino (v_inode st inode)
              then Option.bind (iput env inode st) (\<lambda>st.
                     ext2_rmdir env dir name (yield_at env (brelse_at (Some (fst de)) st)))
              else rmdir_found env dir inode de st)))))"

declare ext2_rmdir.simps [code]

subsection \<open>ext2_unlink\<close>

definition end_unlink :: "env \<Rightarrow> int \<Rightarrow> iptr \<Rightarrow> iptr \<Rightarrow> u32 option \<Rightarrow> int vop" where
  "end_unlink env retval dir inode bh st = do {
     st \<leftarrow> iput env inode (brelse_at bh st);
     st \<leftarrow> iput env dir st;
     Some (retval, st)
   }"

definition unlink_found :: "env \<Rightarrow> iptr \<Rightarrow> iptr \<Rightarrow> de_ptr \<Rightarrow> int vop" where
  "unlink_found env dir inode de st =
     (let bh = Some (fst de);
          st = (if i_nlink (v_inode st inode) = 0 then upd_inode inode (\<lambda>i. i\<lparr>i_nlink := 1\<rparr>) st else st)
      in do {
        (retval, st) \<leftarrow> delete_entry_at de st;
        if retval \<noteq> 0 then end_unlink env retval dir inode bh st
        else
          let st = dirty_block dir (fst de) (new_version dir st);
              st = upd_inode dir (\<lambda>i. i\<lparr>i_mtime := cur_time env, i_ctime := cur_time env, i_dirt := True\<rparr>) st;
              st = upd_inode inode drop_link st;
              st = upd_inode inode (\<lambda>i. i\<lparr>i_ctime := i_ctime (v_inode st dir)\<rparr>) st
          in end_unlink env 0 dir inode bh st
      })"

partial_function (option) ext2_unlink :: "env \<Rightarrow> iptr \<Rightarrow> u8 list \<Rightarrow> vfs \<Rightarrow> (int \<times> vfs) option" where
  "ext2_unlink env dir name st =
     (if dir = INull then Some (- ENOENT, st)
      else Option.bind (find_entry_at env dir name st) (\<lambda>(r, st). case r of
        None \<Rightarrow> end_unlink env (- ENOENT) dir INull None st
      | Some de \<Rightarrow> Option.bind (read_buffer (fst de) st) (\<lambda>bs.
          Option.bind (iget_at env dir (de_inode bs (snd de)) st) (\<lambda>(inode, st).
            if inode = INull then end_unlink env (- ENOENT) dir inode (Some (fst de)) st
            else if S_ISDIR (i_mode (v_inode st inode)) then end_unlink env (- EPERM) dir inode (Some (fst de)) st
            else if IS_APPEND (v_inode st inode) \<or> IS_IMMUTABLE (v_inode st inode)
            then end_unlink env (- EPERM) dir inode (Some (fst de)) st
            else Option.bind (read_buffer (fst de) st) (\<lambda>bs.
              if de_inode bs (snd de) \<noteq> i_ino (v_inode st inode)
              then Option.bind (iput env inode st) (\<lambda>st.
                     ext2_unlink env dir name (yield_at env (brelse_at (Some (fst de)) st)))
              else unlink_found env dir inode de st)))))"

declare ext2_unlink.simps [code]

subsection \<open>ext2_link\<close>

definition ext2_link :: "env \<Rightarrow> iptr \<Rightarrow> iptr \<Rightarrow> u8 list \<Rightarrow> int vop" where
  "ext2_link env oldinode dir name st =
     (let give_up = (\<lambda>err st. do {
            st \<leftarrow> iput env oldinode st;
            st \<leftarrow> iput env dir st;
            Some (err, st)
          });
          old = v_inode st oldinode
      in if oldinode = INull then None
      else if S_ISDIR (i_mode old) then give_up (- EPERM) st
      else if IS_APPEND old \<or> IS_IMMUTABLE old then give_up (- EPERM) st
      else if i_nlink old \<ge> EXT2_LINK_MAX then give_up (- EMLINK) st
      else do {
        (r, st) \<leftarrow> find_entry_at env dir name st;
        case r of
          Some (bh, _) \<Rightarrow> do {
            st \<leftarrow> iput env dir (brelse_at (Some bh) st);
            st \<leftarrow> iput env oldinode st;
            Some (- EEXIST, st)
          }
        | None \<Rightarrow> do {
            ((de, err), st) \<leftarrow> add_entry_at env dir name st;
            case de of
              None \<Rightarrow> do {
                st \<leftarrow> iput env dir st;
                st \<leftarrow> iput env oldinode st;
                Some (err, st)
              }
            | Some de \<Rightarrow> do {
                st \<leftarrow> enter_inode dir de (i_ino (v_inode st oldinode)) st;
                st \<leftarrow> iput env dir (brelse_at (Some (fst de)) st);
                let st = upd_inode oldinode
                  (\<lambda>i. i\<lparr>i_nlink := i_nlink i + 1, i_ctime := cur_time env, i_dirt := True\<rparr>) st;
                st \<leftarrow> iput env oldinode st;
                Some (0, st)
              }
          }
      })"

subsection \<open>subdir\<close>

text \<open>
  The walk up from a directory by the names \<open>..\<close>; each \<open>ext2_lookup\<close> releases the directory that it
  searches and gets the next one. A walk on a loop of directories never ends.
\<close>

partial_function (option) subdir_loop :: "env \<Rightarrow> iptr \<Rightarrow> iptr \<Rightarrow> vfs \<Rightarrow> ((bool \<times> iptr) \<times> vfs) option" where
  "subdir_loop env new old st =
     (if new = old then Some ((True, new), st)
      else if i_dev st new \<noteq> i_dev st old then Some ((False, new), st)
      else
        let ino = i_ino (v_inode st new) in
        Option.bind (ext2_lookup env new [46, 46] st) (\<lambda>((err, new), st).
          if err \<noteq> 0 then Some ((False, new), st)
          else if i_ino (v_inode st new) = ino then Some ((False, new), st)
          else subdir_loop env new old st))"

declare subdir_loop.simps [code]

definition subdir :: "env \<Rightarrow> iptr \<Rightarrow> iptr \<Rightarrow> bool vop" where
  "subdir env new old st = (if new = INull then None else do {
     let st = upd_inode new (\<lambda>i. i\<lparr>i_count := i_count i + 1\<rparr>) st;
     ((result, new), st) \<leftarrow> subdir_loop env new old st;
     st \<leftarrow> iput env new st;
     Some (result, st)
   })"

subsection \<open>do_ext2_rename\<close>

text \<open>\<open>PARENT_INO\<close>: the inode of the second entry of a directory.\<close>

definition PARENT_INO :: "u8 list \<Rightarrow> u32 option" where
  "PARENT_INO bs = (if header_in bs (de_rec_len bs 0) then Some (de_inode bs (de_rec_len bs 0)) else None)"

text \<open>The local pointers of the function that both its ways out release.\<close>

record rename_vars =
  r_old_inode :: iptr
  r_new_inode :: iptr
  r_old_de :: "de_ptr option"
  r_new_bh :: "u32 option"
  r_new_de :: "de_ptr option"
  r_dir_bh :: "u32 option"

definition end_rename :: "env \<Rightarrow> iptr \<Rightarrow> iptr \<Rightarrow> rename_vars \<Rightarrow> int \<Rightarrow> int vop" where
  "end_rename env old_dir new_dir v retval st = do {
     let st = brelse_at (r_new_bh v) (brelse_at (map_option fst (r_old_de v)) (brelse_at (r_dir_bh v) st));
     st \<leftarrow> iput env (r_old_inode v) st;
     st \<leftarrow> iput env (r_new_inode v) st;
     st \<leftarrow> iput env old_dir st;
     st \<leftarrow> iput env new_dir st;
     Some (retval, st)
   }"

text \<open>\<open>try_again\<close>, up to the new start; an error of \<open>ext2_delete_entry\<close> is ignored.\<close>

definition try_again :: "env \<Rightarrow> iptr \<Rightarrow> rename_vars \<Rightarrow> vfs \<Rightarrow> vfs option" where
  "try_again env new_dir v st = do {
     st \<leftarrow> (case (r_new_bh v, r_new_de v) of
              (Some _, Some de) \<Rightarrow> do {
                (_, st) \<leftarrow> delete_entry_at de st;
                Some (new_version new_dir st)
              }
            | _ \<Rightarrow> Some st);
     let st = brelse_at (r_dir_bh v) (brelse_at (r_new_bh v) (brelse_at (map_option fst (r_old_de v)) st));
     st \<leftarrow> iput env (r_old_inode v) st;
     st \<leftarrow> iput env (r_new_inode v) st;
     Some (yield_at env st)
   }"

text \<open>A step gives the return value to end with, or goes on: \<open>Inl\<close> and \<open>Inr\<close>.\<close>

text \<open>The target, when it is a directory.\<close>

definition check_new_dir :: "env \<Rightarrow> iptr \<Rightarrow> rename_vars \<Rightarrow> (int + unit) vop" where
  "check_new_dir env new_dir v st =
     (if r_new_inode v \<noteq> INull \<and> S_ISDIR (i_mode (v_inode st (r_new_inode v))) then
        if \<not> S_ISDIR (i_mode (v_inode st (r_old_inode v))) then Some (Inl (- EISDIR), st)
        else do {
          (below, st) \<leftarrow> subdir env new_dir (r_old_inode v) st;
          if below then Some (Inl (- EINVAL), st)
          else do {
            (empty, st) \<leftarrow> empty_dir_at env (r_new_inode v) st;
            if \<not> empty then Some (Inl (- ENOTEMPTY), st)
            else if i_count (v_inode st (r_new_inode v)) > 1 then Some (Inl (- EBUSY), st)
            else Some (Inr (), st)
          }
        }
      else Some (Inr (), st))"

text \<open>
  The source, when it is a directory; its first block is in \<open>dir_bh\<close> afterwards, also on the ways out
  that come after the block was read.
\<close>

definition check_old_dir :: "env \<Rightarrow> iptr \<Rightarrow> iptr \<Rightarrow> rename_vars \<Rightarrow> ((int + unit) \<times> rename_vars) vop" where
  "check_old_dir env old_dir new_dir v st =
     (if S_ISDIR (i_mode (v_inode st (r_old_inode v))) then
        if r_new_inode v \<noteq> INull \<and> \<not> S_ISDIR (i_mode (v_inode st (r_new_inode v))) then Some ((Inl (- ENOTDIR), v), st)
        else do {
          (below, st) \<leftarrow> subdir env new_dir (r_old_inode v) st;
          if below then Some ((Inl (- EINVAL), v), st)
          else do {
            ((bh, retval), st) \<leftarrow> bread_at env (r_old_inode v) 0 False (- EINVAL) st;
            case bh of
              None \<Rightarrow> Some ((Inl retval, v), st)
            | Some b \<Rightarrow> do {
                let v = v\<lparr>r_dir_bh := Some b\<rparr>;
                bs \<leftarrow> read_buffer b st;
                parent \<leftarrow> PARENT_INO bs;
                if parent \<noteq> i_ino (v_inode st old_dir) then Some ((Inl retval, v), st)
                else if r_new_inode v = INull \<and> i_nlink (v_inode st new_dir) \<ge> EXT2_LINK_MAX
                then Some ((Inl (- EMLINK), v), st)
                else Some ((Inr (), v), st)
              }
          }
        }
      else Some ((Inr (), v), st))"

text \<open>After the old entry is deleted: link counts, times and the entry \<open>..\<close> of a moved directory.\<close>

definition rename_links :: "env \<Rightarrow> iptr \<Rightarrow> iptr \<Rightarrow> rename_vars \<Rightarrow> vfs \<Rightarrow> vfs option" where
  "rename_links env old_dir new_dir v st =
     (let st = new_version old_dir st;
          st = (if r_new_inode v \<noteq> INull
                then upd_inode (r_new_inode v) (\<lambda>i. (drop_link i)\<lparr>i_ctime := cur_time env\<rparr>) st else st);
          st = upd_inode old_dir (\<lambda>i. i\<lparr>i_mtime := cur_time env, i_ctime := cur_time env, i_dirt := True\<rparr>) st
      in case r_dir_bh v of
        None \<Rightarrow> Some st
      | Some b \<Rightarrow> do {
          bs \<leftarrow> read_buffer b st;
          _ \<leftarrow> PARENT_INO bs;
          let st = write_buffer b (put32 (de_rec_len bs 0) (i_ino (v_inode st new_dir)) bs) st;
          st \<leftarrow> dcache_add_at (r_old_inode v) [46, 46] (i_ino (v_inode st new_dir)) st;
          let st = st\<lparr>v_fs := mark_buffer_dirty b (v_fs st)\<rparr>;
          let st = upd_inode old_dir drop_link st;
          Some (if r_new_inode v \<noteq> INull then upd_inode (r_new_inode v) drop_link st
                else upd_inode new_dir (\<lambda>i. i\<lparr>i_nlink := i_nlink i + 1, i_dirt := True\<rparr>) st)
        })"

datatype rename_step = Retry rename_vars | Return rename_vars int

text \<open>The last part, from the entry for the new name on.\<close>

definition rename_commit :: "env \<Rightarrow> iptr \<Rightarrow> iptr \<Rightarrow> rename_vars \<Rightarrow> de_ptr \<Rightarrow> de_ptr \<Rightarrow> rename_step vop" where
  "rename_commit env old_dir new_dir v old_de new_de st = do {
     let st = new_version new_dir st;
     nbs \<leftarrow> read_buffer (fst new_de) st;
     obs \<leftarrow> read_buffer (fst old_de) st;
     let n = de_inode nbs (snd new_de);
     let ino = i_ino (v_inode st (r_old_inode v));
     if r_new_inode v \<noteq> INull \<and> n \<noteq> i_ino (v_inode st (r_new_inode v)) then Some (Retry v, st)
     else if n \<noteq> 0 \<and> r_new_inode v = INull then Some (Retry v, st)
     else if de_inode obs (snd old_de) \<noteq> ino then Some (Retry v, st)
     else do {
       let nbs = put32 (snd new_de) ino nbs;
       st \<leftarrow> dcache_add_at new_dir (de_name nbs (snd new_de)) (de_inode nbs (snd new_de))
               (write_buffer (fst new_de) nbs st);
       (retval, st) \<leftarrow> delete_entry_at old_de st;
       if retval = - ENOENT then Some (Retry v, st)
       else if retval \<noteq> 0 then Some (Return v retval, st)
       else do {
         st \<leftarrow> rename_links env old_dir new_dir v st;
         Some (Return v 0, dirty_block new_dir (fst new_de) (dirty_block old_dir (fst old_de) st))
       }
     }
   }"

text \<open>The entry of the new name and its inode; the buffer is not kept when there is no inode for it.\<close>

definition rename_target :: "env \<Rightarrow> iptr \<Rightarrow> u8 list \<Rightarrow> rename_vars \<Rightarrow> rename_vars vop" where
  "rename_target env new_dir new_name v st = do {
     (r, st) \<leftarrow> find_entry_at env new_dir new_name st;
     case r of
       None \<Rightarrow> Some (v, st)
     | Some de \<Rightarrow> do {
         bs \<leftarrow> read_buffer (fst de) st;
         (p, st) \<leftarrow> iget_at env new_dir (de_inode bs (snd de)) st;
         let v = v\<lparr>r_new_de := Some de, r_new_inode := p\<rparr>;
         Some (if p = INull then (v, brelse_at (Some (fst de)) st) else (v\<lparr>r_new_bh := Some (fst de)\<rparr>, st))
       }
   }"

text \<open>After the checks: the new name gets an entry unless it has one.\<close>

definition rename_enter ::
    "env \<Rightarrow> iptr \<Rightarrow> iptr \<Rightarrow> u8 list \<Rightarrow> rename_vars \<Rightarrow> de_ptr \<Rightarrow> rename_step vop" where
  "rename_enter env old_dir new_dir new_name v old_de st =
     (case (r_new_bh v, r_new_de v) of
        (Some _, Some new_de) \<Rightarrow> rename_commit env old_dir new_dir v old_de new_de st
      | _ \<Rightarrow> do {
          ((de, retval), st) \<leftarrow> add_entry_at env new_dir new_name st;
          case de of
            None \<Rightarrow> Some (Return (v\<lparr>r_new_de := None\<rparr>) retval, st)
          | Some new_de \<Rightarrow>
              rename_commit env old_dir new_dir (v\<lparr>r_new_de := Some new_de, r_new_bh := Some (fst new_de)\<rparr>) old_de new_de st
        })"

text \<open>One turn, from \<open>start_up\<close> on.\<close>

definition rename_checked ::
    "env \<Rightarrow> iptr \<Rightarrow> iptr \<Rightarrow> u8 list \<Rightarrow> rename_vars \<Rightarrow> de_ptr \<Rightarrow> rename_step vop" where
  "rename_checked env old_dir new_dir new_name v old_de st = do {
     (r, st) \<leftarrow> check_new_dir env new_dir v st;
     case r of
       Inl e \<Rightarrow> Some (Return v e, st)
     | Inr _ \<Rightarrow> do {
         ((r, v), st) \<leftarrow> check_old_dir env old_dir new_dir v st;
         case r of
           Inl e \<Rightarrow> Some (Return v e, st)
         | Inr _ \<Rightarrow> rename_enter env old_dir new_dir new_name v old_de st
       }
   }"

definition start_vars :: rename_vars where
  "start_vars = \<lparr>r_old_inode = INull, r_new_inode = INull, r_old_de = None, r_new_bh = None, r_new_de = None,
     r_dir_bh = None\<rparr>"

definition rename_once ::
    "env \<Rightarrow> iptr \<Rightarrow> u8 list \<Rightarrow> iptr \<Rightarrow> u8 list \<Rightarrow> rename_step vop" where
  "rename_once env old_dir old_name new_dir new_name st = do {
     (r, st) \<leftarrow> find_entry_at env old_dir old_name st;
     case r of
       None \<Rightarrow> Some (Return start_vars (- ENOENT), st)
     | Some old_de \<Rightarrow> do {
         bs \<leftarrow> read_buffer (fst old_de) st;
         (p, st) \<leftarrow> iget_at env old_dir (de_inode bs (snd old_de)) st;
         let v = start_vars\<lparr>r_old_de := Some old_de, r_old_inode := p\<rparr>;
         if p = INull then Some (Return v (- ENOENT), st)
         else if IS_APPEND (v_inode st p) \<or> IS_IMMUTABLE (v_inode st p) then Some (Return v (- EPERM), st)
         else do {
           (v, st) \<leftarrow> rename_target env new_dir new_name v st;
           if r_new_inode v = r_old_inode v then Some (Return v 0, st)
           else rename_checked env old_dir new_dir new_name v old_de st
         }
       }
   }"

partial_function (option) do_ext2_rename ::
    "env \<Rightarrow> iptr \<Rightarrow> u8 list \<Rightarrow> iptr \<Rightarrow> u8 list \<Rightarrow> vfs \<Rightarrow> (int \<times> vfs) option" where
  "do_ext2_rename env old_dir old_name new_dir new_name st =
     Option.bind (rename_once env old_dir old_name new_dir new_name st) (\<lambda>(r, st). case r of
       Return v retval \<Rightarrow> end_rename env old_dir new_dir v retval st
     | Retry v \<Rightarrow> Option.bind (try_again env new_dir v st) (\<lambda>st.
         do_ext2_rename env old_dir old_name new_dir new_name st))"

declare do_ext2_rename.simps [code]

subsection \<open>ext2_rename\<close>

text \<open>A rename that finds the lock set sleeps; nobody else runs, so nobody would wake it.\<close>

definition ext2_rename :: "env \<Rightarrow> iptr \<Rightarrow> u8 list \<Rightarrow> iptr \<Rightarrow> u8 list \<Rightarrow> int vop" where
  "ext2_rename env old_dir old_name new_dir new_name st =
     (if old_dir = INull \<or> \<not> i_sb st old_dir then None
      else if s_rename_lock st then None
      else do {
        (result, st) \<leftarrow> do_ext2_rename env old_dir old_name new_dir new_name (st\<lparr>s_rename_lock := True\<rparr>);
        if \<not> i_sb st old_dir then None else Some (result, st\<lparr>s_rename_lock := False\<rparr>)
      })"

end
