(* ===== verification/Ext2_Namei_Props.thy ===== *)
theory Ext2_Namei_Props
  imports Ext2_Namei Ext2_Find_Props Ext2_Iget_Props Ext2_Dcache_Props
begin

text \<open>
  The theorems on the operations on names. They are about a directory of well formed blocks
  (\<open>dir_file\<close>) whose inode and the inode it leads to are in the table and stay in use; the bytes of
  the blocks change as the theorems on directory blocks say.
\<close>

section \<open>Steps that leave the table alone\<close>

definition same_table :: "vfs \<Rightarrow> vfs \<Rightarrow> bool" where
  "same_table st st' \<longleftrightarrow> i_next st' = i_next st \<and> i_prev st' = i_prev st \<and> first_inode st' = first_inode st \<and>
     i_hash_next st' = i_hash_next st \<and> i_hash_prev st' = i_hash_prev st \<and> hash_table st' = hash_table st \<and>
     nr_inodes st' = nr_inodes st \<and> s_dev st' = s_dev st \<and> i_dev st' = i_dev st \<and> i_sb st' = i_sb st \<and>
     (\<forall>p. i_ino (v_inode st' p) = i_ino (v_inode st p))"

lemma same_table_trans: "same_table st st1 \<Longrightarrow> same_table st1 st2 \<Longrightarrow> same_table st st2"
  by (simp add: same_table_def)

lemma same_table_inv:
  assumes "same_table st st'" and "table_inv st xs hs"
  shows "table_inv st' xs hs"
  by (rule table_inv_cong [OF assms(2)]) (use assms(1) in \<open>simp_all add: same_table_def hash_key_def\<close>)

lemma same_table_iget:
  assumes "same_table st st'" and "table_inv st xs hs" and "List.find (match st nr) (hs (hashfn (s_dev st) nr)) = Some q"
  shows "iget env nr st' = Some (q, found_it q st')"
proof (rule iget_found [OF same_table_inv [OF assms(1,2)]])
  have "match st' nr = match st nr" using assms(1) by (simp add: same_table_def match_def fun_eq_iff)
  then show "List.find (match st' nr) (hs (hashfn (s_dev st') nr)) = Some q"
    using assms(1,3) by (simp add: same_table_def)
qed

lemma found_it_table: "same_table st (found_it q st)"
  by (simp add: same_table_def found_it_def Let_def set_inode_def wait_on_inode_def)

text \<open>\<open>iput\<close> of an inode that somebody else uses too.\<close>

definition drop_use :: "iptr \<Rightarrow> vfs \<Rightarrow> vfs" where
  "drop_use p st = upd_inode p (\<lambda>i. i\<lparr>i_count := i_count i - 1\<rparr>) (wait_on_inode p st)"

lemma iput_shared:
  assumes "p \<noteq> INull" and "1 < i_count (v_inode st p)"
  shows "iput env p st = Some (drop_use p st)"
proof -
  have "i_count (v_inode st p) \<noteq> 0" using assms(2) by auto
  then show ?thesis
    using assms by (simp add: iput_def iput_repeat.simps [of env p] Let_def drop_use_def upd_inode_def wait_on_inode_def)
qed

lemma v_inode_upd: "v_inode (upd_inode p f st) = (v_inode st)(p := f (v_inode st p))"
  by (simp add: upd_inode_def set_inode_def)

lemma v_inode_set: "v_inode (set_inode p i st) = (v_inode st)(p := i)"
  by (simp add: set_inode_def)

lemma v_inode_drop: "v_inode (drop_use p st) = (v_inode st)(p := (v_inode st p)\<lparr>i_count := i_count (v_inode st p) - 1\<rparr>)"
  by (simp add: drop_use_def v_inode_upd wait_on_inode_def)

lemma v_inode_found: "v_inode (found_it p st) = (v_inode st)(p := (v_inode st p)\<lparr>i_count := i_count (v_inode st p) + 1\<rparr>)"
  by (simp add: found_it_def Let_def set_inode_def wait_on_inode_def)

lemma v_fs_steps [simp]:
  "v_fs (upd_inode p f st) = v_fs st" "v_fs (set_inode p i st) = v_fs st" "v_fs (drop_use p st) = v_fs st"
  "v_fs (found_it p st) = v_fs st" "v_fs (new_version p st) = v_fs st" "v_fs (brelse_at bh st) = brelse bh (v_fs st)"
  by (simp_all add: upd_inode_def set_inode_def drop_use_def wait_on_inode_def found_it_def Let_def new_version_def brelse_at_def)

lemma brelse_at_None: "brelse_at None st = st"
  by (simp add: brelse_at_def brelse_def)

lemma v_inode_steps [simp]:
  "v_inode (brelse_at bh st) = v_inode st" "v_inode (dirty_block p b st) = v_inode st"
  "v_inode (new_version p st) = (v_inode st)(p := (v_inode st p)\<lparr>i_version := event st + 1\<rparr>)"
  by (simp_all add: brelse_at_def dirty_block_def Let_def new_version_def v_inode_upd)

lemma v_dc_steps [simp]:
  "v_dc (upd_inode p f st) = v_dc st" "v_dc (set_inode p i st) = v_dc st" "v_dc (drop_use p st) = v_dc st"
  "v_dc (found_it p st) = v_dc st" "v_dc (brelse_at bh st) = v_dc st"
  by (simp_all add: upd_inode_def set_inode_def drop_use_def wait_on_inode_def found_it_def Let_def brelse_at_def)

lemma event_steps [simp]:
  "event (upd_inode p f st) = event st" "event (set_inode p i st) = event st" "event (drop_use p st) = event st"
  "event (found_it p st) = event st" "event (brelse_at bh st) = event st"
  by (simp_all add: upd_inode_def set_inode_def drop_use_def wait_on_inode_def found_it_def Let_def brelse_at_def)

lemma more_uses:
  fixes c :: u16
  assumes "c \<noteq> 0" and "c \<noteq> - 1"
  shows "1 < c + 1"
proof -
  have "c + 1 \<noteq> 0" using assms(2) unfolding eq_neg_iff_add_eq_0 .
  then have "unat (c + 1) = unat c + 1" using unatSuc [of c] by (simp add: add.commute)
  moreover have "unat c > 0" using assms(1) by (simp add: unat_gt_0)
  ultimately show ?thesis by (simp add: word_less_nat_alt)
qed

section \<open>Finding a name\<close>

lemma find_at:
  assumes "p \<noteq> INull" and "i_sb st p" and "dir_file (v_fs st) (v_inode st p) bks" and "length name \<le> EXT2_NAME_LEN"
  shows "\<exists>dir'. hinted (v_inode st p) dir' \<and>
    find_entry_at env p name st = Some (first_hit (retensive env) name bks,
      set_inode p dir' (st\<lparr>v_fs := (case first_hit (retensive env) name bks of None \<Rightarrow> v_fs st
        | Some (b, x) \<Rightarrow> with_refs (v_fs st) ((b_count (v_fs st))(b := Suc (b_count (v_fs st) b))))\<rparr>))"
proof -
  obtain dir' where "hinted (v_inode st p) dir'" "ext2_find_entry (cur_time env) (retensive env) (v_inode st p) name (v_fs st) =
      Some ((first_hit (retensive env) name bks, dir'), case first_hit (retensive env) name bks of
        None \<Rightarrow> v_fs st | Some (b, x) \<Rightarrow> with_refs (v_fs st) ((b_count (v_fs st))(b := Suc (b_count (v_fs st) b))))"
    using find_first_hit [OF assms(3,4), of "cur_time env" "retensive env" "b_count (v_fs st)"] unfolding with_refs_same
    by (elim exE conjE) (rule that)
  then show ?thesis using assms(1,2) unfolding find_entry_at_def by (intro exI [where x = dir']) simp
qed

text \<open>The state after a name was found and its inode, which is in the table, was got.\<close>

definition reached :: "iptr \<Rightarrow> inode \<Rightarrow> u32 \<Rightarrow> iptr \<Rightarrow> vfs \<Rightarrow> vfs" where
  "reached p dir' b q st = found_it q (set_inode p dir'
     (st\<lparr>v_fs := with_refs (v_fs st) ((b_count (v_fs st))(b := Suc (b_count (v_fs st) b)))\<rparr>))"

lemma reached_simps [simp]:
  "v_fs (reached p dir' b q st) = with_refs (v_fs st) ((b_count (v_fs st))(b := Suc (b_count (v_fs st) b)))"
  "event (reached p dir' b q st) = event st" "v_dc (reached p dir' b q st) = v_dc st"
  by (simp_all add: reached_def)

lemma v_inode_reached:
  "p \<noteq> q \<Longrightarrow> v_inode (reached p dir' b q st) = (v_inode st)(p := dir', q := (v_inode st q)\<lparr>i_count := i_count (v_inode st q) + 1\<rparr>)"
  by (simp add: reached_def v_inode_found v_inode_set)

text \<open>What the theorems assume of a directory in use, a name in it and the inode of the name.\<close>

definition named :: "vfs \<Rightarrow> iptr list \<Rightarrow> (nat \<Rightarrow> iptr list) \<Rightarrow> iptr \<Rightarrow> dblock list \<Rightarrow> u8 list \<Rightarrow> iptr \<Rightarrow> bool" where
  "named st xs hs p bks name q \<longleftrightarrow> table_inv st xs hs \<and> p \<in> set xs \<and> i_sb st p \<and> 1 < i_count (v_inode st p) \<and>
     dir_file (v_fs st) (v_inode st p) bks \<and> name \<noteq> [] \<and> length name \<le> EXT2_NAME_LEN \<and>
     (\<exists>ino. map_of (dir_entries bks) name = Some ino \<and> List.find (match st ino) (hs (hashfn (s_dev st) ino)) = Some q) \<and>
     q \<noteq> p \<and> i_count (v_inode st q) \<noteq> 0 \<and> i_count (v_inode st q) \<noteq> - 1"

lemma named_entry:
  assumes "named st xs hs p bks name q" and "\<not> retensive env"
  shows "\<exists>b x bs offs dir'. first_hit False name bks = Some (b, x) \<and> (b, bs, offs) \<in> set bks \<and> x \<in> set offs \<and>
    de_name bs x = name \<and> de_inode bs x = i_ino (v_inode st q) \<and> b_data (v_fs st) b = Some bs \<and> dir_block (v_fs st) bs offs \<and>
    p \<noteq> INull \<and> q \<noteq> INull \<and> hinted (v_inode st p) dir' \<and>
    find_entry_at env p name st = Some (Some (b, x),
      set_inode p dir' (st\<lparr>v_fs := with_refs (v_fs st) ((b_count (v_fs st))(b := Suc (b_count (v_fs st) b)))\<rparr>)) \<and>
    iget env (de_inode bs x) (set_inode p dir' (st\<lparr>v_fs := with_refs (v_fs st) ((b_count (v_fs st))(b := Suc (b_count (v_fs st) b)))\<rparr>)) =
      Some (q, reached p dir' b q st)"
proof -
  note n = assms(1) [unfolded named_def]
  obtain ino where ino: "map_of (dir_entries bks) name = Some ino" "List.find (match st ino) (hs (hashfn (s_dev st) ino)) = Some q"
    using n by (elim conjE exE)
  have nn: "name \<noteq> []" "length name \<le> EXT2_NAME_LEN" and df: "dir_file (v_fs st) (v_inode st p) bks"
    and inv: "table_inv st xs hs" and sb: "i_sb st p" using n by blast+
  have p0: "p \<noteq> INull" using n table_invD(6) [OF inv] by blast
  note m = find_matched [OF inv ino(2)]
  obtain b x where fh: "first_hit False name bks = Some (b, x)"
    using first_hit_lookup [OF nn, of bks] ino(1) by (cases "first_hit False name bks") auto
  then obtain bs offs where e: "(b, bs, offs) \<in> set bks" "x \<in> set offs" "de_name bs x = name" "de_inode bs x = ino"
    using first_hit_lookup [OF nn, of bks] ino(1) by auto
  have d: "b_data (v_fs st) b = Some bs" "dir_block (v_fs st) bs offs" using df e(1) unfolding dir_file_def by blast+
  obtain dir' where f: "hinted (v_inode st p) dir'" "find_entry_at env p name st = Some (Some (b, x),
      set_inode p dir' (st\<lparr>v_fs := with_refs (v_fs st) ((b_count (v_fs st))(b := Suc (b_count (v_fs st) b)))\<rparr>))"
    using find_at [OF p0 sb df nn(2), of env] assms(2) fh by auto
  define s1 where "s1 = set_inode p dir' (st\<lparr>v_fs := with_refs (v_fs st) ((b_count (v_fs st))(b := Suc (b_count (v_fs st) b)))\<rparr>)"
  have t: "same_table st s1" using f(1) by (simp add: same_table_def s1_def set_inode_def hinted_simps)
  have "i_ino (v_inode st q) = ino" using m(3) by (simp add: match_def)
  moreover have "iget env ino s1 = Some (q, found_it q s1)" by (rule same_table_iget [OF t inv ino(2)])
  ultimately have "first_hit False name bks = Some (b, x) \<and> (b, bs, offs) \<in> set bks \<and> x \<in> set offs \<and>
    de_name bs x = name \<and> de_inode bs x = i_ino (v_inode st q) \<and> b_data (v_fs st) b = Some bs \<and> dir_block (v_fs st) bs offs \<and>
    p \<noteq> INull \<and> q \<noteq> INull \<and> hinted (v_inode st p) dir' \<and> find_entry_at env p name st = Some (Some (b, x), s1) \<and>
    iget env (de_inode bs x) s1 = Some (q, reached p dir' b q st)"
    using fh e d p0 m(2) f s1_def unfolding reached_def s1_def [symmetric] by simp
  then show ?thesis unfolding s1_def by blast
qed

section \<open>ext2_unlink\<close>

lemma unlink_reaches:
  assumes "named st xs hs p bks name q" and "\<not> retensive env"
  shows "\<exists>b x bs offs dir'. (b, bs, offs) \<in> set bks \<and> x \<in> set offs \<and>
    de_name bs x = name \<and> de_inode bs x = i_ino (v_inode st q) \<and> b_data (v_fs st) b = Some bs \<and> dir_block (v_fs st) bs offs \<and>
    p \<noteq> INull \<and> q \<noteq> INull \<and> hinted (v_inode st p) dir' \<and>
    ext2_unlink env p name st =
      (if S_ISDIR (i_mode (v_inode st q)) \<or> IS_APPEND (v_inode st q) \<or> IS_IMMUTABLE (v_inode st q)
       then end_unlink env (- EPERM) p q (Some b) (reached p dir' b q st)
       else unlink_found env p q (b, x) (reached p dir' b q st))"
proof -
  obtain b x bs offs dir' where e: "(b, bs, offs) \<in> set bks" "x \<in> set offs" "de_name bs x = name"
      "de_inode bs x = i_ino (v_inode st q)" "b_data (v_fs st) b = Some bs" "dir_block (v_fs st) bs offs" "p \<noteq> INull" "q \<noteq> INull"
      "hinted (v_inode st p) dir'"
    and f: "find_entry_at env p name st = Some (Some (b, x),
      set_inode p dir' (st\<lparr>v_fs := with_refs (v_fs st) ((b_count (v_fs st))(b := Suc (b_count (v_fs st) b)))\<rparr>))"
    and g: "iget env (de_inode bs x) (set_inode p dir' (st\<lparr>v_fs := with_refs (v_fs st) ((b_count (v_fs st))(b := Suc (b_count (v_fs st) b)))\<rparr>)) =
      Some (q, reached p dir' b q st)"
    using named_entry [OF assms] by (elim exE conjE) (rule that)
  have pq: "p \<noteq> q" and sb: "i_sb st p" using assms(1) by (auto simp: named_def)
  define s1 where "s1 = set_inode p dir' (st\<lparr>v_fs := with_refs (v_fs st) ((b_count (v_fs st))(b := Suc (b_count (v_fs st) b)))\<rparr>)"
  have r1: "read_buffer b s1 = Some bs" and sb1: "i_sb s1 p" using e(5) sb by (simp_all add: read_buffer_def s1_def set_inode_def)
  have r2: "read_buffer b (reached p dir' b q st) = Some bs" using e(5) by (simp add: read_buffer_def)
  have vq: "v_inode (reached p dir' b q st) q = (v_inode st q)\<lparr>i_count := i_count (v_inode st q) + 1\<rparr>" using v_inode_reached [OF pq] by simp
  have "ext2_unlink env p name st =
      (if S_ISDIR (i_mode (v_inode st q)) \<or> IS_APPEND (v_inode st q) \<or> IS_IMMUTABLE (v_inode st q)
       then end_unlink env (- EPERM) p q (Some b) (reached p dir' b q st)
       else unlink_found env p q (b, x) (reached p dir' b q st))"
    using e(4,7,8) f [folded s1_def] g [folded s1_def] r1 r2 sb1 vq
    by (subst ext2_unlink.simps) (simp add: iget_at_def IS_APPEND_def IS_IMMUTABLE_def)
  then show ?thesis using e by blast
qed

text \<open>The two pointers are released; both inodes have more uses.\<close>

lemma release_two:
  assumes "p \<noteq> INull" "q \<noteq> INull" "p \<noteq> q" and "1 < i_count (v_inode st q)" "1 < i_count (v_inode st p)"
  shows "end_unlink env r p q bh st = Some (r, drop_use p (drop_use q (brelse_at bh st)))"
  using assms iput_shared [of q "brelse_at bh st" env] iput_shared [of p "drop_use q (brelse_at bh st)" env]
  by (simp add: end_unlink_def v_inode_drop)

lemma brelse_reached: "brelse (Some b) (with_refs fs (c(b := Suc (c b)))) = with_refs fs c"
  by (simp add: brelse_refs)

text \<open>\<open>ext2_unlink\<close> refuses to remove the name of a directory, and of a file that is append-only or
  immutable: the result is \<open>-EPERM\<close>, and the disk buffers with their reference counts, the name cache,
  the event counter and all inodes are as before, but for the use of the directory that the call gives
  up and the allocation hints in it.\<close>

theorem unlink_refused:
  assumes n: "named st xs hs p bks name q" and r: "\<not> retensive env"
    and t: "S_ISDIR (i_mode (v_inode st q)) \<or> IS_APPEND (v_inode st q) \<or> IS_IMMUTABLE (v_inode st q)"
  shows "\<exists>st' dir'. ext2_unlink env p name st = Some (- EPERM, st') \<and> v_fs st' = v_fs st \<and> v_dc st' = v_dc st \<and>
    event st' = event st \<and> hinted (v_inode st p) dir' \<and>
    v_inode st' = (v_inode st)(p := dir'\<lparr>i_count := i_count (v_inode st p) - 1\<rparr>)"
proof -
  obtain b dir' where e: "p \<noteq> INull" "q \<noteq> INull" "hinted (v_inode st p) dir'"
      "ext2_unlink env p name st = end_unlink env (- EPERM) p q (Some b) (reached p dir' b q st)"
    using unlink_reaches [OF n r] unfolding if_P [OF t] by (elim exE conjE) (rule that)
  have pq: "p \<noteq> q" and c: "1 < i_count (v_inode st p)" "i_count (v_inode st q) \<noteq> 0" "i_count (v_inode st q) \<noteq> - 1"
    using n by (auto simp: named_def)
  note vg = v_inode_reached [OF pq]
  have "1 < i_count (v_inode (reached p dir' b q st) q)" "1 < i_count (v_inode (reached p dir' b q st) p)"
    using more_uses [OF c(2,3)] c(1) pq e(3) by (simp_all add: vg hinted_simps)
  note s = release_two [OF e(1,2) pq this, of env "- EPERM" "Some b"]
  define st' where "st' = drop_use p (drop_use q (brelse_at (Some b) (reached p dir' b q st)))"
  have "v_fs st' = v_fs st" by (simp add: st'_def brelse_reached with_refs_same del: fun_upd_apply)
  moreover have "v_dc st' = v_dc st" "event st' = event st" by (simp_all add: st'_def)
  moreover have "v_inode st' = (v_inode st)(p := dir'\<lparr>i_count := i_count (v_inode st p) - 1\<rparr>)"
    using pq e(3) by (auto simp: st'_def v_inode_drop vg fun_eq_iff hinted_simps)
  moreover have "ext2_unlink env p name st = Some (- EPERM, st')" using e(4) s unfolding st'_def by (simp only:)
  ultimately show ?thesis using e(3) by blast
qed

text \<open>C21. \<open>ext2_unlink\<close> of a file that somebody else has open takes exactly the entry that the search finds
  out of its block, which stays well formed; every other buffer and all reference counts are as before.
  The file loses one link (a file that has none is taken to have one) and none of its uses, and the
  directory gets a new version, so that no entry of the name cache for it is valid any more.\<close>

theorem unlink_open_file:
  assumes n: "named st xs hs p bks name q" and r: "\<not> retensive env"
    and t: "\<not> S_ISDIR (i_mode (v_inode st q))" "\<not> IS_APPEND (v_inode st q)" "\<not> IS_IMMUTABLE (v_inode st q)"
  shows "\<exists>st' b bs us x vs bs' offs'. ext2_unlink env p name st = Some (0, st') \<and>
    (b, bs, us @ x # vs) \<in> set bks \<and> de_name bs x = name \<and> de_inode bs x = i_ino (v_inode st q) \<and>
    b_data (v_fs st') = (b_data (v_fs st))(b \<mapsto> bs') \<and> dir_block (v_fs st') bs' offs' \<and>
    live bs' offs' = live bs us @ live bs vs \<and> b_count (v_fs st') = b_count (v_fs st) \<and>
    i_nlink (v_inode st' q) = (if i_nlink (v_inode st q) = 0 then 0 else i_nlink (v_inode st q) - 1) \<and>
    i_dirt (v_inode st' q) \<and> i_count (v_inode st' q) = i_count (v_inode st q) \<and>
    i_version (v_inode st' p) = event st + 1 \<and> event st' = event st + 1 \<and> i_dirt (v_inode st' p) \<and>
    (\<forall>s. s \<noteq> p \<and> s \<noteq> q \<longrightarrow> v_inode st' s = v_inode st s)"
proof -
  have np: "\<not> (S_ISDIR (i_mode (v_inode st q)) \<or> IS_APPEND (v_inode st q) \<or> IS_IMMUTABLE (v_inode st q))" using t by simp
  obtain b x bs offs dir' where e: "(b, bs, offs) \<in> set bks" "x \<in> set offs" "de_name bs x = name"
      "de_inode bs x = i_ino (v_inode st q)" "b_data (v_fs st) b = Some bs" "dir_block (v_fs st) bs offs" "p \<noteq> INull" "q \<noteq> INull"
      "hinted (v_inode st p) dir'"
    and u: "ext2_unlink env p name st = unlink_found env p q (b, x) (reached p dir' b q st)"
    using unlink_reaches [OF n r] unfolding if_not_P [OF np] by (elim exE conjE) (rule that)
  obtain us vs where o: "offs = us @ x # vs" using e(2) by (meson split_list)
  have pq: "p \<noteq> q" and c: "1 < i_count (v_inode st p)" "i_count (v_inode st q) \<noteq> 0" "i_count (v_inode st q) \<noteq> - 1"
    using n by (auto simp: named_def)
  note vg = v_inode_reached [OF pq]
  define g where "g = reached p dir' b q st"
  define s1 where "s1 = (if i_nlink (v_inode g q) = 0 then upd_inode q (\<lambda>i. i\<lparr>i_nlink := 1\<rparr>) g else g)"
  have f1: "v_fs s1 = with_refs (v_fs st) ((b_count (v_fs st))(b := Suc (b_count (v_fs st) b)))" by (simp add: s1_def g_def)
  have "dir_block (v_fs s1) bs (us @ x # vs)" using e(6) unfolding f1 o dir_block_refs .
  then obtain bs' offs' where d: "delete_scan (v_fs s1) bs x None 0 = Some (Inr bs')" "dir_block (v_fs s1) bs' offs'"
      "live bs' offs' = live bs us @ live bs vs" using delete_entry_effect by blast
  define s2 where "s2 = s1\<lparr>v_fs := (v_fs s1)\<lparr>b_data := (b_data (v_fs s1))(b \<mapsto> bs')\<rparr>\<rparr>"
  have de: "delete_entry_at (b, x) s1 = Some (0, s2)"
    using d(1) e(5) f1 by (simp add: delete_entry_at_def ext2_delete_entry_def s2_def)
  define s3 where "s3 = dirty_block p b (new_version p s2)"
  define s4 where "s4 = upd_inode p (\<lambda>i. i\<lparr>i_mtime := cur_time env, i_ctime := cur_time env, i_dirt := True\<rparr>) s3"
  define s5 where "s5 = upd_inode q drop_link s4"
  define s6 where "s6 = upd_inode q (\<lambda>i. i\<lparr>i_ctime := i_ctime (v_inode s5 p)\<rparr>) s5"
  have un: "ext2_unlink env p name st = end_unlink env 0 p q (Some b) s6"
    unfolding u g_def [symmetric] unlink_found_def Let_def fst_conv s1_def [symmetric] de
    by (simp add: s3_def s4_def s5_def s6_def)
  have v1: "v_inode s1 = (v_inode st)(p := dir', q := (v_inode st q)\<lparr>i_count := i_count (v_inode st q) + 1,
      i_nlink := (if i_nlink (v_inode st q) = 0 then 1 else i_nlink (v_inode st q))\<rparr>)"
    by (simp add: s1_def g_def vg v_inode_upd)
  have v2: "v_inode s2 = v_inode s1" "event s2 = event st" by (simp_all add: s2_def s1_def g_def)
  have v6: "v_inode s6 = (v_inode st)(p := dir'\<lparr>i_version := event st + 1, i_mtime := cur_time env, i_ctime := cur_time env, i_dirt := True\<rparr>,
      q := (v_inode st q)\<lparr>i_count := i_count (v_inode st q) + 1,
        i_nlink := (if i_nlink (v_inode st q) = 0 then 1 else i_nlink (v_inode st q)) - 1, i_dirt := True, i_ctime := cur_time env\<rparr>)"
    using pq by (simp add: s6_def s5_def s4_def s3_def v_inode_upd v2 v1 drop_link_def fun_eq_iff)
  have "1 < i_count (v_inode s6 q)" "1 < i_count (v_inode s6 p)"
    using more_uses [OF c(2,3)] c(1) pq e(9) by (simp_all add: v6 hinted_simps)
  note fin = release_two [OF e(7,8) pq this, of env 0 "Some b"]
  define st' where "st' = drop_use p (drop_use q (brelse_at (Some b) s6))"
  have "v_fs s6 = v_fs s3" by (simp add: s6_def s5_def s4_def)
  moreover have "b_data (v_fs s3) = (b_data (v_fs st))(b \<mapsto> bs')" "b_count (v_fs s3) = (b_count (v_fs st))(b := Suc (b_count (v_fs st) b))"
      "s_blocksize (v_fs s3) = s_blocksize (v_fs s1)" "s_inodes_count (v_fs s3) = s_inodes_count (v_fs s1)"
    by (simp_all add: s3_def dirty_block_def Let_def s2_def f1 mark_buffer_dirty_def ll_rw_block_write_def)
  ultimately have fs: "b_data (v_fs st') = (b_data (v_fs st))(b \<mapsto> bs')" "b_count (v_fs st') = b_count (v_fs st)"
      "s_blocksize (v_fs st') = s_blocksize (v_fs s1)" "s_inodes_count (v_fs st') = s_inodes_count (v_fs s1)"
    by (auto simp: st'_def brelse_def)
  have "seg (v_fs st') bs' a offs' z = seg (v_fs s1) bs' a offs' z" for a z
    by (induction offs' arbitrary: a) (simp_all add: dir_entry_ok_def fs(3,4))
  then have db: "dir_block (v_fs st') bs' offs'" using d(2) by (simp add: dir_block_def fs(3))
  have ev: "event s6 = event st + 1"
    by (simp add: s6_def s5_def s4_def s3_def dirty_block_def Let_def new_version_def v2)
  have v: "v_inode st' = (v_inode s6)(q := (v_inode s6 q)\<lparr>i_count := i_count (v_inode s6 q) - 1\<rparr>,
      p := (v_inode s6 p)\<lparr>i_count := i_count (v_inode s6 p) - 1\<rparr>)"
    using pq by (simp add: st'_def v_inode_drop)
  have "ext2_unlink env p name st = Some (0, st')" using un fin unfolding st'_def [symmetric] by simp
  moreover have "i_nlink (v_inode st' q) = (if i_nlink (v_inode st q) = 0 then 0 else i_nlink (v_inode st q) - 1)"
    "i_dirt (v_inode st' q)" "i_count (v_inode st' q) = i_count (v_inode st q)" "i_version (v_inode st' p) = event st + 1"
    "i_dirt (v_inode st' p)"
    using pq by (simp_all add: v v6)
  moreover have "event st' = event st + 1" using ev by (simp add: st'_def)
  moreover have "\<forall>s. s \<noteq> p \<and> s \<noteq> q \<longrightarrow> v_inode st' s = v_inode st s" by (simp add: v v6)
  ultimately show ?thesis using e(1,3,4) fs(1,2) db d(3) unfolding o by blast
qed

section \<open>ext2_rename\<close>

lemma dir_file_refs: "dir_file (with_refs fs c) dir bks = dir_file fs dir bks"
  by (simp add: dir_file_def dir_block_refs blocks_refs)

lemma reached_table:
  assumes "hinted (v_inode st p) dir'"
  shows "same_table st (reached p dir' b q st)"
  using assms by (simp add: same_table_def reached_def found_it_def Let_def set_inode_def wait_on_inode_def hinted_simps)

lemma named_reached:
  assumes n: "named st xs hs p2 bks name q" and h: "hinted (v_inode st p1) d1" and pq: "p1 \<noteq> q" and c: "i_count (v_inode st q) + 1 \<noteq> - 1"
  shows "named (reached p1 d1 b q st) xs hs p2 bks name q"
proof -
  note t = reached_table [OF h, of b q]
  have pq2: "p2 \<noteq> q" and c0: "i_count (v_inode st q) \<noteq> - 1" using n by (auto simp: named_def)
  have c1: "i_count (v_inode st q) + 1 \<noteq> 0" using c0 unfolding eq_neg_iff_add_eq_0 .
  have m: "match (reached p1 d1 b q st) ino = match st ino" for ino
    using t by (simp add: same_table_def match_def fun_eq_iff)
  have vp: "v_inode (reached p1 d1 b q st) p2 = (if p2 = p1 then d1 else v_inode st p2)" using pq pq2 by (simp add: v_inode_reached)
  have "hinted (v_inode st p2) (v_inode (reached p1 d1 b q st) p2)" using vp h hinted_refl by simp
  then have "dir_file (v_fs (reached p1 d1 b q st)) (v_inode (reached p1 d1 b q st) p2) bks"
      "1 < i_count (v_inode (reached p1 d1 b q st) p2)"
    using n dir_file_hinted [of "v_inode st p2" "v_inode (reached p1 d1 b q st) p2" "v_fs st" bks]
    by (simp_all add: named_def dir_file_refs hinted_simps)
  moreover have "i_sb (reached p1 d1 b q st) p2" "s_dev (reached p1 d1 b q st) = s_dev st" using n t by (simp_all add: named_def same_table_def)
  moreover have "table_inv (reached p1 d1 b q st) xs hs" using same_table_inv [OF t] n by (simp add: named_def)
  ultimately show ?thesis using n c c1 pq by (simp add: named_def m v_inode_reached)
qed

lemma rename_once_same:
  assumes n1: "named st xs hs p1 bks1 name1 q" and n2: "named st xs hs p2 bks2 name2 q" and r: "\<not> retensive env"
    and c: "i_count (v_inode st q) + 1 \<noteq> - 1" and t: "\<not> IS_APPEND (v_inode st q)" "\<not> IS_IMMUTABLE (v_inode st q)"
  shows "\<exists>b1 b2 d1 d2 st1 v. hinted (v_inode st p1) d1 \<and> st1 = reached p1 d1 b1 q st \<and> hinted (v_inode st1 p2) d2 \<and>
    rename_once env p1 name1 p2 name2 st = Some (Return v 0, reached p2 d2 b2 q st1) \<and>
    r_old_inode v = q \<and> r_new_inode v = q \<and> map_option fst (r_old_de v) = Some b1 \<and> r_new_bh v = Some b2 \<and> r_dir_bh v = None"
proof -
  obtain b1 x1 bs1 d1 where h1: "hinted (v_inode st p1) d1" and bd1: "b_data (v_fs st) b1 = Some bs1" and z: "p1 \<noteq> INull" "q \<noteq> INull"
    and f1: "find_entry_at env p1 name1 st = Some (Some (b1, x1),
      set_inode p1 d1 (st\<lparr>v_fs := with_refs (v_fs st) ((b_count (v_fs st))(b1 := Suc (b_count (v_fs st) b1)))\<rparr>))"
    and g1: "iget env (de_inode bs1 x1) (set_inode p1 d1 (st\<lparr>v_fs := with_refs (v_fs st) ((b_count (v_fs st))(b1 := Suc (b_count (v_fs st) b1)))\<rparr>)) =
      Some (q, reached p1 d1 b1 q st)"
    using named_entry [OF n1 r] by (elim exE conjE) (rule that)
  have pq: "p1 \<noteq> q" "p2 \<noteq> q" and sb1: "i_sb st p1" using n1 n2 by (auto simp: named_def)
  define st1 where "st1 = reached p1 d1 b1 q st"
  have n: "named st1 xs hs p2 bks2 name2 q" using named_reached [OF n2 h1 pq(1) c] by (simp add: st1_def)
  have sb2: "i_sb st1 p2" using n by (simp add: named_def)
  obtain b2 x2 bs2 d2 where h2: "hinted (v_inode st1 p2) d2" and bd2: "b_data (v_fs st1) b2 = Some bs2"
    and f2: "find_entry_at env p2 name2 st1 = Some (Some (b2, x2),
      set_inode p2 d2 (st1\<lparr>v_fs := with_refs (v_fs st1) ((b_count (v_fs st1))(b2 := Suc (b_count (v_fs st1) b2)))\<rparr>))"
    and g2: "iget env (de_inode bs2 x2) (set_inode p2 d2 (st1\<lparr>v_fs := with_refs (v_fs st1) ((b_count (v_fs st1))(b2 := Suc (b_count (v_fs st1) b2)))\<rparr>)) =
      Some (q, reached p2 d2 b2 q st1)"
    using named_entry [OF n r] by (elim exE conjE) (rule that)
  define s1 where "s1 = set_inode p1 d1 (st\<lparr>v_fs := with_refs (v_fs st) ((b_count (v_fs st))(b1 := Suc (b_count (v_fs st) b1)))\<rparr>)"
  define s2 where "s2 = set_inode p2 d2 (st1\<lparr>v_fs := with_refs (v_fs st1) ((b_count (v_fs st1))(b2 := Suc (b_count (v_fs st1) b2)))\<rparr>)"
  have rb1: "read_buffer b1 s1 = Some bs1" "i_sb s1 p1" using bd1 sb1 by (simp_all add: read_buffer_def s1_def set_inode_def)
  have rb2: "read_buffer b2 s2 = Some bs2" "i_sb s2 p2" using bd2 sb2 by (simp_all add: read_buffer_def s2_def set_inode_def)
  define v1 where "v1 = start_vars\<lparr>r_old_de := Some (b1, x1), r_old_inode := q\<rparr>"
  define v where "v = v1\<lparr>r_new_de := Some (b2, x2), r_new_inode := q, r_new_bh := Some b2\<rparr>"
  have "rename_target env p2 name2 v1 st1 = Some (v, reached p2 d2 b2 q st1)"
    using f2 [folded s2_def] g2 [folded s2_def] rb2 z(2) by (simp add: rename_target_def iget_at_def v_def)
  moreover have "v_inode st1 q = (v_inode st q)\<lparr>i_count := i_count (v_inode st q) + 1\<rparr>" using pq by (simp add: st1_def v_inode_reached)
  ultimately have "rename_once env p1 name1 p2 name2 st = Some (Return v 0, reached p2 d2 b2 q st1)"
    using f1 [folded s1_def] g1 [folded s1_def st1_def] rb1 z(2) t
    by (simp add: rename_once_def iget_at_def v1_def [symmetric] IS_APPEND_def IS_IMMUTABLE_def v_def) (simp add: v1_def)
  moreover have "r_old_inode v = q" "r_new_inode v = q" "map_option fst (r_old_de v) = Some b1" "r_new_bh v = Some b2" "r_dir_bh v = None"
    by (simp_all add: v_def v1_def start_vars_def)
  ultimately show ?thesis using h1 h2 st1_def by blast
qed

lemma hinted_uses: "hinted i i' \<Longrightarrow> hinted (i\<lparr>i_count := c\<rparr>) (i'\<lparr>i_count := c\<rparr>)"
proof -
  assume "hinted i i'"
  then obtain x y where "i' = i\<lparr>e_next_alloc_block := x, e_next_alloc_goal := y\<rparr>" unfolding hinted_def by blast
  then have "i'\<lparr>i_count := c\<rparr> = (i\<lparr>i_count := c\<rparr>)\<lparr>e_next_alloc_block := x, e_next_alloc_goal := y\<rparr>" by simp
  then show ?thesis using hintedI by metis
qed

lemma drop_use_table: "same_table st (drop_use p st)"
  by (simp add: same_table_def drop_use_def upd_inode_def set_inode_def wait_on_inode_def)

lemma brelse_at_table: "same_table st (brelse_at bh st)"
  by (simp add: same_table_def brelse_at_def)

lemma same_inode_back:
  assumes "p1 \<noteq> q" "p2 \<noteq> q" and "hinted (v_inode st p1) d1" and "hinted (v_inode (reached p1 d1 b1 q st) p2) d2"
    and "p1 \<noteq> INull" "p2 \<noteq> INull" "q \<noteq> INull"
    and "1 < i_count (v_inode st q) + 1" "1 < i_count (v_inode st q) + 1 + 1"
    and "1 < i_count (v_inode st p1)" "1 < i_count (v_inode st p2)" "p1 = p2 \<longrightarrow> 1 < i_count (v_inode st p1) - 1"
    and "r_old_inode v = q" "r_new_inode v = q" "map_option fst (r_old_de v) = Some b1" "r_new_bh v = Some b2" "r_dir_bh v = None"
  shows "\<exists>st'. end_rename env p1 p2 v 0 (reached p2 d2 b2 q (reached p1 d1 b1 q st)) = Some (0, st') \<and>
    v_fs st' = v_fs st \<and> v_dc st' = v_dc st \<and> event st' = event st \<and> same_table st st' \<and>
    (\<forall>s. s \<noteq> p1 \<and> s \<noteq> p2 \<longrightarrow> v_inode st' s = v_inode st s) \<and>
    (\<forall>s. s = p1 \<or> s = p2 \<longrightarrow> hinted ((v_inode st s)\<lparr>i_count := i_count (v_inode st s) - (if p1 = p2 then 2 else 1)\<rparr>) (v_inode st' s))"
proof -
  define a where "a = reached p2 d2 b2 q (reached p1 d1 b1 q st)"
  define a1 where "a1 = brelse_at (Some b2) (brelse_at (Some b1) a)"
  have va: "v_inode a1 q = (v_inode st q)\<lparr>i_count := i_count (v_inode st q) + 1 + 1\<rparr>"
    using assms(1,2) by (simp add: a1_def a_def v_inode_reached)
  have vp: "i_count (v_inode a1 p1) = i_count (v_inode st p1)" "i_count (v_inode a1 p2) = i_count (v_inode st p2)"
    using assms(1-4) by (auto simp: a1_def a_def v_inode_reached hinted_simps)
  define a2 where "a2 = drop_use q a1"
  define a3 where "a3 = drop_use q a2"
  define a4 where "a4 = drop_use p1 a3"
  define st' where "st' = drop_use p2 a4"
  have "1 < i_count (v_inode a1 q)" using va assms(9) by simp
  then have i1: "iput env q a1 = Some a2" using assms(7) iput_shared unfolding a2_def by blast
  have "i_count (v_inode a2 q) = i_count (v_inode st q) + 1" by (simp add: a2_def v_inode_drop va)
  then have "1 < i_count (v_inode a2 q)" using assms(8) by simp
  then have i2: "iput env q a2 = Some a3" using assms(7) iput_shared unfolding a3_def by blast
  have "i_count (v_inode a3 p1) = i_count (v_inode st p1)" using assms(1) by (simp add: a3_def a2_def v_inode_drop vp)
  then have "1 < i_count (v_inode a3 p1)" using assms(10) by simp
  then have i3: "iput env p1 a3 = Some a4" using assms(5) iput_shared unfolding a4_def by blast
  have "i_count (v_inode a4 p2) = (if p1 = p2 then i_count (v_inode st p1) - 1 else i_count (v_inode st p2))"
    using assms(2) by (simp add: a4_def a3_def a2_def v_inode_drop vp)
  then have "1 < i_count (v_inode a4 p2)" using assms(11,12) by simp
  then have i4: "iput env p2 a4 = Some st'" using assms(6) iput_shared unfolding st'_def by blast
  have "brelse_at (r_new_bh v) (brelse_at (map_option fst (r_old_de v)) (brelse_at (r_dir_bh v) a)) = a1"
    unfolding assms(15-17) brelse_at_None a1_def ..
  then have "end_rename env p1 p2 v 0 a = Some (0, st')"
    unfolding end_rename_def Let_def assms(13,14) by (simp add: i1 i2 i3 i4)
  moreover have "v_fs st' = v_fs st"
  proof -
    define c where "c = b_count (v_fs st)"
    have "v_fs a = with_refs (v_fs st) ((c(b1 := Suc (c b1)))(b2 := Suc ((c(b1 := Suc (c b1))) b2)))"
      by (simp add: a_def c_def with_refs_twice del: fun_upd_apply)
    moreover have "v_fs st' = brelse (Some b2) (brelse (Some b1) (v_fs a))"
      by (simp add: st'_def a4_def a3_def a2_def a1_def)
    ultimately have "v_fs st' = with_refs (v_fs st) c" by (simp add: brelse_refs)
    then show ?thesis by (simp add: c_def with_refs_same)
  qed
  moreover have "v_dc st' = v_dc st" "event st' = event st"
    by (simp_all add: st'_def a4_def a3_def a2_def a1_def a_def)
  moreover have "same_table st st'"
  proof -
    have "same_table st a" unfolding a_def by (rule same_table_trans [OF reached_table [OF assms(3)] reached_table [OF assms(4)]])
    then show ?thesis
      unfolding st'_def a4_def a3_def a2_def a1_def
      by (intro same_table_trans [OF _ drop_use_table] same_table_trans [OF _ brelse_at_table])
  qed
  moreover have "hinted ((v_inode st s)\<lparr>i_count := i_count (v_inode st s) - (if p1 = p2 then 2 else 1)\<rparr>) (v_inode st' s)"
    if s: "s = p1 \<or> s = p2" for s
  proof -
    have q: "s \<noteq> q" using s assms(1,2) by blast
    have h: "hinted (v_inode st s) (v_inode a s)"
    proof (cases "s = p2")
      case True
      then have "v_inode a s = d2" using assms(2) by (simp add: a_def v_inode_reached)
      moreover have "v_inode (reached p1 d1 b1 q st) p2 = (if p1 = p2 then d1 else v_inode st p2)"
        using assms(1,2) by (simp add: v_inode_reached)
      then have "hinted (v_inode st p2) (v_inode (reached p1 d1 b1 q st) p2)"
        using assms(3) hinted_refl by (cases "p1 = p2") simp_all
      ultimately show ?thesis using hinted_trans [OF _ assms(4)] True by simp
    next
      case False
      then have "s = p1" "v_inode a s = d1" using s assms(1,2) by (auto simp: a_def v_inode_reached)
      then show ?thesis using assms(3) by simp
    qed
    have "v_inode st' s = (v_inode a s)\<lparr>i_count := i_count (v_inode st s) - (if p1 = p2 then 2 else 1)\<rparr>"
    proof -
      define i where "i = v_inode a s"
      have c: "i_count i = i_count (v_inode st s)" using hinted_simps(4) [OF h] by (simp add: i_def)
      have "v_inode a3 s = i" using q by (simp add: a3_def a2_def a1_def v_inode_drop i_def)
      then have i4: "v_inode a4 s = (if s = p1 then i\<lparr>i_count := i_count i - 1\<rparr> else i)" by (auto simp: a4_def v_inode_drop)
      have i5: "v_inode st' s = (if s = p2 then (v_inode a4 s)\<lparr>i_count := i_count (v_inode a4 s) - 1\<rparr> else v_inode a4 s)"
        by (auto simp: st'_def v_inode_drop)
      have "v_inode st' s = i\<lparr>i_count := i_count i - (if p1 = p2 then 2 else 1)\<rparr>"
        unfolding i5 i4 using s by (cases "p1 = p2"; cases "s = p1") simp_all
      then have "v_inode st' s = i\<lparr>i_count := i_count (v_inode st s) - (if p1 = p2 then 2 else 1)\<rparr>" unfolding c .
      then show ?thesis unfolding i_def .
    qed
    then show ?thesis using hinted_uses [OF h] by simp
  qed
  moreover have "\<forall>s. s \<noteq> p1 \<and> s \<noteq> p2 \<longrightarrow> v_inode st' s = v_inode st s"
    using assms(1,2) by (auto simp: st'_def a4_def a3_def a2_def a1_def a_def v_inode_drop v_inode_reached)
  ultimately show ?thesis unfolding a_def by blast
qed

text \<open>C22. Renaming a file to a name that already leads to the same inode does nothing but give back the uses of
  the directories that the caller hands over: the result is 0; both names, all buffers with their reference
  counts, the name cache, the event number, the inode table with its chains, and the inode of the file and every
  other one with their use counts stay as they were; of each directory the use count is one less, or two less
  when both are the same, and nothing else but its two allocation hints may have changed; and the rename lock is
  free again.\<close>

theorem rename_same_inode:
  assumes n1: "named st xs hs p1 bks1 name1 q" and n2: "named st xs hs p2 bks2 name2 q" and r: "\<not> retensive env"
    and c: "i_count (v_inode st q) + 1 \<noteq> - 1" "p1 = p2 \<longrightarrow> 1 < i_count (v_inode st p1) - 1"
    and t: "\<not> IS_APPEND (v_inode st q)" "\<not> IS_IMMUTABLE (v_inode st q)" and l: "\<not> s_rename_lock st"
  shows "\<exists>st'. ext2_rename env p1 name1 p2 name2 st = Some (0, st') \<and> v_fs st' = v_fs st \<and> v_dc st' = v_dc st \<and>
    event st' = event st \<and> \<not> s_rename_lock st' \<and> same_table st st' \<and>
    (\<forall>s. s \<noteq> p1 \<and> s \<noteq> p2 \<longrightarrow> v_inode st' s = v_inode st s) \<and>
    (\<forall>s. s = p1 \<or> s = p2 \<longrightarrow> hinted ((v_inode st s)\<lparr>i_count := i_count (v_inode st s) - (if p1 = p2 then 2 else 1)\<rparr>) (v_inode st' s))"
proof -
  define s0 where "s0 = st\<lparr>s_rename_lock := True\<rparr>"
  have same: "v_inode s0 = v_inode st" "v_fs s0 = v_fs st" "i_sb s0 = i_sb st" "v_dc s0 = v_dc st" "event s0 = event st"
    by (simp_all add: s0_def)
  have t0: "same_table st s0" by (simp add: same_table_def s0_def)
  have m: "match s0 ino = match st ino" for ino by (simp add: match_def fun_eq_iff s0_def)
  have k: "named s0 xs hs p1 bks1 name1 q" "named s0 xs hs p2 bks2 name2 q"
    using n1 n2 same_table_inv [OF t0] by (simp_all add: named_def same m) (simp_all add: s0_def)
  have c0: "i_count (v_inode s0 q) + 1 \<noteq> - 1" and tt: "\<not> IS_APPEND (v_inode s0 q)" "\<not> IS_IMMUTABLE (v_inode s0 q)"
    using c t by (simp_all add: same)
  obtain b1 b2 d1 d2 st1 v where o: "hinted (v_inode s0 p1) d1" "st1 = reached p1 d1 b1 q s0" "hinted (v_inode st1 p2) d2"
      "rename_once env p1 name1 p2 name2 s0 = Some (Return v 0, reached p2 d2 b2 q st1)"
      "r_old_inode v = q" "r_new_inode v = q" "map_option fst (r_old_de v) = Some b1" "r_new_bh v = Some b2" "r_dir_bh v = None"
    using rename_once_same [OF k r c0 tt] by (elim exE conjE) (rule that)
  have pq: "p1 \<noteq> q" "p2 \<noteq> q" "1 < i_count (v_inode s0 p1)" "1 < i_count (v_inode s0 p2)" "i_sb st p1"
      "i_count (v_inode s0 q) \<noteq> 0" "i_count (v_inode s0 q) \<noteq> - 1"
    using k n1 by (auto simp: named_def)
  have nulls: "p1 \<noteq> INull" "p2 \<noteq> INull" "q \<noteq> INull" using named_entry [OF k(1) r] named_entry [OF k(2) r] by blast+
  have c1: "i_count (v_inode s0 q) + 1 \<noteq> 0" using pq(7) unfolding eq_neg_iff_add_eq_0 .
  have c2: "p1 = p2 \<longrightarrow> 1 < i_count (v_inode s0 p1) - 1" using c(2) by (simp add: same)
  obtain st' where e: "end_rename env p1 p2 v 0 (reached p2 d2 b2 q st1) = Some (0, st')" "v_fs st' = v_fs s0" "v_dc st' = v_dc s0"
      "event st' = event s0" "same_table s0 st'" "\<forall>s. s \<noteq> p1 \<and> s \<noteq> p2 \<longrightarrow> v_inode st' s = v_inode s0 s"
      "\<forall>s. s = p1 \<or> s = p2 \<longrightarrow> hinted ((v_inode s0 s)\<lparr>i_count := i_count (v_inode s0 s) - (if p1 = p2 then 2 else 1)\<rparr>) (v_inode st' s)"
    using same_inode_back [OF pq(1,2) o(1) o(3) [unfolded o(2)] nulls more_uses [OF pq(6,7)] more_uses [OF c1 c0] pq(3,4) c2 o(5-9), of env]
    unfolding o(2) [symmetric] by (elim exE conjE) (rule that)
  have "do_ext2_rename env p1 name1 p2 name2 s0 = Some (0, st')"
    by (subst do_ext2_rename.simps) (simp add: o(4) e(1))
  moreover have sb: "i_sb st' = i_sb st" using e(5) by (simp add: same_table_def same)
  ultimately have "ext2_rename env p1 name1 p2 name2 st = Some (0, st'\<lparr>s_rename_lock := False\<rparr>)"
    using nulls(1) pq(5) l sb by (simp add: ext2_rename_def s0_def [symmetric] same)
  moreover have "same_table st (st'\<lparr>s_rename_lock := False\<rparr>)"
    using same_table_trans [OF t0 e(5)] by (simp add: same_table_def)
  ultimately show ?thesis
    using e(2-4,6,7) unfolding same by (intro exI [where x = "st'\<lparr>s_rename_lock := False\<rparr>"] conjI) simp_all
qed

section \<open>ext2_lookup\<close>

lemma dcache_add_lookup:
  assumes "dcache_inv dc v" and "length name \<le> DCACHE_NAME_LEN"
  shows "\<exists>dc' dc''. dcache_add dev dir version name ino dc = Some dc' \<and> dcache_lookup dev dir version name dc' = Some (Some ino, dc'')"
proof -
  obtain dc' v' e where a: "dcache_add dev dir version name ino dc = Some dc'" "dcache_inv dc' v'"
      "find_in dc' v' dev dir version name = Some e" "d_ino dc' e = ino"
    using add_find_in [OF assms] by blast
  then show ?thesis using lookup_effect [OF a(2) assms(2) refl, of dev dir version] by (auto split: if_splits)
qed

lemma dcache_miss:
  assumes "dcache_inv dc v" and "length name \<le> DCACHE_NAME_LEN" and "find_in dc v dev dir version name = None"
  shows "dcache_lookup dev dir version name dc = Some (None, dc)"
  using lookup_effect [OF assms(1,2) refl, of dev dir version] assms(3) by simp

text \<open>A lookup that the cache answers:\<close>

lemma lookup_hit:
  assumes "p \<noteq> INull" "q \<noteq> INull" "p \<noteq> q" and "S_ISDIR (i_mode (v_inode st p))" "i_sb st p" "1 < i_count (v_inode st p)"
    and "dcache_lookup (ucast (i_dev st p)) (i_ino (v_inode st p)) (i_version (v_inode st p)) name (v_dc st) = Some (Some ino, dc)"
    and "ino \<noteq> 0" and "iget env ino (st\<lparr>v_dc := dc\<rparr>) = Some (q, found_it q (st\<lparr>v_dc := dc\<rparr>))"
  shows "ext2_lookup env p name st = Some ((0, q), drop_use p (found_it q (st\<lparr>v_dc := dc\<rparr>)))"
proof -
  have "1 < i_count (v_inode (found_it q (st\<lparr>v_dc := dc\<rparr>)) p)" using assms(3,6) by (simp add: v_inode_found)
  then have "iput env p (found_it q (st\<lparr>v_dc := dc\<rparr>)) = Some (drop_use p (found_it q (st\<lparr>v_dc := dc\<rparr>)))" by (rule iput_shared [OF assms(1)])
  then show ?thesis
    using assms(1,2,4,5,7,8,9) by (simp add: ext2_lookup_def dcache_lookup_at_def lookup_inode_def iget_at_def)
qed

text \<open>A lookup that reads the directory gives the inode of the name and enters the name into the name
  cache; the next lookup of the name gives the same inode object from the cache, and does not look at
  the disk at all: it works in the same way on any other contents of the file system.\<close>

theorem lookup_then_cached:
  assumes n: "named st xs hs p bks name q" and r: "\<not> retensive env" and d: "S_ISDIR (i_mode (v_inode st p))"
    and c: "1 < i_count (v_inode st p) - 1"
    and dc: "dcache_inv (v_dc st) v" "length name \<le> DCACHE_NAME_LEN"
    and miss: "find_in (v_dc st) v (ucast (i_dev st p)) (i_ino (v_inode st p)) (i_version (v_inode st p)) name = None"
  shows "\<exists>st1. ext2_lookup env p name st = Some ((0, q), st1) \<and> v_fs st1 = v_fs st \<and>
    i_count (v_inode st1 q) = i_count (v_inode st q) + 1 \<and> i_count (v_inode st1 p) = i_count (v_inode st p) - 1 \<and>
    (\<forall>fs. \<exists>st2. ext2_lookup env p name (st1\<lparr>v_fs := fs\<rparr>) = Some ((0, q), st2) \<and> v_fs st2 = fs)"
proof -
  obtain b x bs dir' where fh: "first_hit False name bks = Some (b, x)" and ino: "de_inode bs x = i_ino (v_inode st q)"
    and bd: "b_data (v_fs st) b = Some bs" and mem: "\<exists>offs. (b, bs, offs) \<in> set bks" and z: "p \<noteq> INull" "q \<noteq> INull"
    and h: "hinted (v_inode st p) dir'"
    and f: "find_entry_at env p name st = Some (Some (b, x),
      set_inode p dir' (st\<lparr>v_fs := with_refs (v_fs st) ((b_count (v_fs st))(b := Suc (b_count (v_fs st) b)))\<rparr>))"
    using named_entry [OF n r] by (elim exE conjE) (rule that, assumption+, blast, assumption+)
  have nn: "name \<noteq> []" "length name \<le> EXT2_NAME_LEN" and inv: "table_inv st xs hs" and pq: "p \<noteq> q" and sb: "i_sb st p"
    and cp: "1 < i_count (v_inode st p)" using n by (auto simp: named_def)
  obtain i where i: "map_of (dir_entries bks) name = Some i" "List.find (match st i) (hs (hashfn (s_dev st) i)) = Some q"
    using n unfolding named_def by (elim conjE exE)
  have iq: "i_ino (v_inode st q) = i" using find_matched(3) [OF inv i(2)] by (simp add: match_def)
  have i0: "i \<noteq> 0" using first_hit_lookup [OF nn, of bks] fh i(1) by auto
  obtain dc1 dc2 where a: "dcache_add (ucast (i_dev st p)) (i_ino (v_inode st p)) (i_version (v_inode st p)) name i (v_dc st) = Some dc1"
      "dcache_lookup (ucast (i_dev st p)) (i_ino (v_inode st p)) (i_version (v_inode st p)) name dc1 = Some (Some i, dc2)"
    using dcache_add_lookup [OF dc] by blast
  note ms = dcache_miss [OF dc miss]
  define s1 where "s1 = set_inode p dir' (st\<lparr>v_fs := with_refs (v_fs st) ((b_count (v_fs st))(b := Suc (b_count (v_fs st) b)))\<rparr>)"
  define s2 where "s2 = s1\<lparr>v_dc := dc1\<rparr>"
  define s3 where "s3 = brelse_at (Some b) s2"
  define st1 where "st1 = drop_use p (found_it q s3)"
  have v1: "v_inode s1 = (v_inode st)(p := dir')" by (simp add: s1_def v_inode_set)
  have s1f: "i_dev s1 = i_dev st" "i_sb s1 = i_sb st" "v_dc s1 = v_dc st" "read_buffer b s1 = Some bs"
    using bd by (simp_all add: s1_def set_inode_def read_buffer_def)
  have add: "dcache_add_at p name i s1 = Some s2"
    using a(1) h by (simp add: dcache_add_at_def s1f v1 hinted_simps s2_def)
  have s3f: "v_inode s3 = (v_inode st)(p := dir')" "v_fs s3 = v_fs st" "v_dc s3 = dc1" "i_dev s3 = i_dev st" "i_sb s3 = i_sb st"
    by (simp_all add: s3_def s2_def v1 s1f brelse_at_def) (simp add: s1_def brelse_reached with_refs_same del: fun_upd_apply)
  have t3: "same_table st s3"
    using h by (simp add: same_table_def s3_def s2_def s1_def brelse_at_def set_inode_def hinted_simps)
  have g3: "iget env i s3 = Some (q, found_it q s3)" by (rule same_table_iget [OF t3 inv i(2)])
  have "1 < i_count (v_inode (found_it q s3) p)" using pq cp h by (simp add: v_inode_found s3f hinted_simps)
  then have p3: "iput env p (found_it q s3) = Some st1" unfolding st1_def by (rule iput_shared [OF z(1)])
  have "lookup_inode env p i s3 = Some ((0, q), st1)" using g3 p3 z(2) sb by (simp add: lookup_inode_def iget_at_def s3f)
  then have l1: "ext2_lookup env p name st = Some ((0, q), st1)"
    using z d ms f [folded s1_def] s1f(4) add ino iq by (simp add: ext2_lookup_def dcache_lookup_at_def s3_def)
  have vs: "v_inode st1 = (v_inode st)(q := (v_inode st q)\<lparr>i_count := i_count (v_inode st q) + 1\<rparr>,
      p := dir'\<lparr>i_count := i_count (v_inode st p) - 1\<rparr>)"
    using pq h by (simp add: st1_def v_inode_drop v_inode_found s3f hinted_simps fun_upd_twist)
  have t1: "same_table st st1"
    using t3 by (simp add: same_table_def st1_def drop_use_def upd_inode_def set_inode_def wait_on_inode_def found_it_def Let_def)
  have "\<exists>st2. ext2_lookup env p name (st1\<lparr>v_fs := fs\<rparr>) = Some ((0, q), st2) \<and> v_fs st2 = fs" for fs
  proof -
    define t where "t = st1\<lparr>v_fs := fs\<rparr>"
    have vt: "v_inode t = v_inode st1" "i_dev t = i_dev st" "i_sb t = i_sb st" "v_dc t = dc1"
      using t1 s3f(3) by (simp_all add: t_def same_table_def) (simp add: st1_def)
    have tt: "same_table st (t\<lparr>v_dc := dc2\<rparr>)" using t1 by (simp add: same_table_def t_def)
    have "dcache_lookup (ucast (i_dev t p)) (i_ino (v_inode t p)) (i_version (v_inode t p)) name (v_dc t) = Some (Some i, dc2)"
      using a(2) pq h by (simp add: vt vs hinted_simps)
    moreover have "S_ISDIR (i_mode (v_inode t p))" "i_sb t p" "1 < i_count (v_inode t p)"
      using d sb c pq h by (simp_all add: vt vs hinted_simps)
    moreover have "iget env i (t\<lparr>v_dc := dc2\<rparr>) = Some (q, found_it q (t\<lparr>v_dc := dc2\<rparr>))"
      by (rule same_table_iget [OF tt inv i(2)])
    ultimately have "ext2_lookup env p name t = Some ((0, q), drop_use p (found_it q (t\<lparr>v_dc := dc2\<rparr>)))"
      using lookup_hit [OF z pq] i0 by blast
    then show ?thesis unfolding t_def by (intro exI conjI) (assumption, simp)
  qed
  moreover have "v_fs st1 = v_fs st" by (simp add: st1_def s3f)
  moreover have "i_count (v_inode st1 q) = i_count (v_inode st q) + 1" "i_count (v_inode st1 p) = i_count (v_inode st p) - 1"
    using pq by (simp_all add: vs)
  ultimately show ?thesis using l1 by blast
qed

end
