(* ===== verification/Ext2_Namei_Example.thy ===== *)
theory Ext2_Namei_Example
  imports Ext2_Namei_Props
begin

text \<open>
  An example state, on which the witnesses apply the theorems on names: the root directory, in use by
  four, with a block of the entries \<open>a\<close> (inode 12, an open file) and \<open>bc\<close> (inode 13, a directory in
  use), and the same with both names for inode 12.
\<close>

definition example_links :: "u8 list" where
  "example_links = put32 12 12 example_dir"

definition example_names :: "u8 list \<Rightarrow> vfs" where
  "example_names bs = \<lparr>v_fs = example_fs\<lparr>b_data := (b_data example_fs)(50 \<mapsto> bs)\<rparr>, v_dc = name_cache_init zero_dcache,
     event = 8, seed = 1,
     v_inode = (\<lambda>p. if p = Ino 0 then zero_inode\<lparr>i_ino := 2, i_mode := 0x41ED, i_nlink := 3, i_count := 4, i_size := 128,
         i_data := 50 # replicate 14 0, i_version := 7\<rparr>
       else if p = Ino 1 then zero_inode\<lparr>i_ino := 12, i_mode := 0x81A4, i_nlink := 1, i_count := 2\<rparr>
       else zero_inode\<lparr>i_ino := 13, i_mode := 0x41ED, i_nlink := 2, i_count := 1\<rparr>),
     i_dev = (\<lambda>_. 5), i_sb = (\<lambda>_. True), i_lock = (\<lambda>_. False),
     i_next = (\<lambda>p. if p = Ino 0 then Ino 1 else if p = Ino 1 then Ino 2 else if p = Ino 2 then Ino 0 else INull),
     i_prev = (\<lambda>p. if p = Ino 0 then Ino 2 else if p = Ino 1 then Ino 0 else if p = Ino 2 then Ino 1 else INull),
     i_hash_next = (\<lambda>_. INull), i_hash_prev = (\<lambda>_. INull), first_inode = Ino 0,
     hash_table = (\<lambda>h. if h = 7 then Ino 0 else if h = 9 then Ino 1 else if h = 8 then Ino 2 else INull),
     nr_inodes = 3, nr_free_inodes = 0, free_pages = [], inodes_per_page = 4, s_dev = 5, sector_size = 512,
     nb_sectors = 1000, s_rename_lock = False\<rparr>"

definition names_ring :: "iptr list" where
  "names_ring = [Ino 0, Ino 1, Ino 2]"

definition names_chains :: "nat \<Rightarrow> iptr list" where
  "names_chains h = (if h = 7 then [Ino 0] else if h = 9 then [Ino 1] else if h = 8 then [Ino 2] else [])"

definition example_env :: env where
  "example_env = \<lparr>cur_time = 100, yields = \<lambda>fs. fs, retensive = False, umask = 7\<rparr>"

lemma names_keys: "hashfn 5 2 = 7" "hashfn 5 12 = 9" "hashfn 5 13 = 8"
  by (simp_all add: hashfn_def NR_IHASH_def)

lemma names_fields:
  "i_count (v_inode (example_names bs) (Ino 0)) = 4" "i_count (v_inode (example_names bs) (Ino 1)) = 2"
  "i_count (v_inode (example_names bs) (Ino 2)) = 1" "i_ino (v_inode (example_names bs) (Ino 1)) = 12"
  "i_mode (v_inode (example_names bs) (Ino 0)) = 0x41ED" "i_mode (v_inode (example_names bs) (Ino 1)) = 0x81A4"
  "i_mode (v_inode (example_names bs) (Ino 2)) = 0x41ED" "i_flags (v_inode (example_names bs) (Ino 1)) = 0"
  "event (example_names bs) = 8" "v_dc (example_names bs) = name_cache_init zero_dcache" "\<not> s_rename_lock (example_names bs)"
  "i_nlink (v_inode (example_names bs) (Ino 1)) = 1"
  by (simp_all add: example_names_def zero_inode_def)

lemma names_table: "table_inv (example_names bs) names_ring names_chains"
proof -
  have "ring_part (example_names bs) names_ring" by (simp add: ring_part_def ring_def example_names_def names_ring_def)
  moreover have "chain_part (example_names bs) names_ring names_chains"
    by (simp add: chain_part_def names_chains_def names_ring_def hash_key_def)
      (simp add: example_names_def names_keys NR_IHASH_def)
  moreover have "nr_inodes (example_names bs) = int (length names_ring)" by (simp add: example_names_def names_ring_def)
  ultimately show ?thesis by (simp add: table_inv_def)
qed

lemma names_dir:
  assumes "\<And>fs. s_blocksize fs = 128 \<Longrightarrow> 13 \<le> s_inodes_count fs \<Longrightarrow> dir_block fs bs [0, 12]"
  shows "dir_file (v_fs (example_names bs)) (v_inode (example_names bs) (Ino 0)) [(50, bs, [0, 12])]"
proof -
  have "dir_block (v_fs (example_names bs)) bs [0, 12]" by (rule assms) (simp_all add: example_names_def example_fs_def)
  moreover have "length (b_list) = 128" if "b_data (v_fs (example_names bs)) b = Some b_list" for b b_list
    using that calculation by (auto simp: example_names_def example_fs_def example_data_def dir_block_def split: if_splits)
  moreover have "s_blocksize (v_fs (example_names bs)) = 4 * 2 ^ 5" by (simp add: example_names_def example_fs_def)
  ultimately show ?thesis
    by (simp add: dir_file_def blocks_wf_def max_blocks_def Let_def file_block_def)
      (auto simp: example_names_def INODE_DASD_def intro: exI [of _ 5])
qed

lemma links_block:
  assumes "s_blocksize fs = 128" and "13 \<le> s_inodes_count fs"
  shows "dir_block fs example_links [0, 12]"
proof -
  have "(12 :: u32) \<le> 13" by simp
  then have "12 \<le> s_inodes_count fs" using assms(2) by (rule order_trans)
  moreover have "dir_block fs example_dir ([0] @ 12 # [])" using example_dir_block [OF assms] by simp
  ultimately show ?thesis using dir_block_put_inode(1) [of fs example_dir "[0]" 12 "[]" 12] by (simp add: example_links_def)
qed

lemma links_live: "live example_links [0, 12] = [([97], 12), ([98, 99], 12)]"
  by code_simp

lemma names_match:
  "List.find (match (example_names bs) 12) (names_chains (hashfn (s_dev (example_names bs)) 12)) = Some (Ino 1)"
  "List.find (match (example_names bs) 13) (names_chains (hashfn (s_dev (example_names bs)) 13)) = Some (Ino 2)"
  by (simp_all add: match_def example_names_def names_keys names_chains_def)

lemma names_facts:
  "Ino 0 \<in> set names_ring" "i_sb (example_names bs) (Ino 0)" "1 < i_count (v_inode (example_names bs) (Ino 0))"
  "length [97 :: u8] \<le> EXT2_NAME_LEN" "length [98, 99 :: u8] \<le> EXT2_NAME_LEN"
  by (simp_all add: names_ring_def names_fields EXT2_NAME_LEN_def) (simp add: example_names_def)

lemma dir_named:
  "named (example_names example_dir) names_ring names_chains (Ino 0) [(50, example_dir, [0, 12])] [97] (Ino 1)"
  "named (example_names example_dir) names_ring names_chains (Ino 0) [(50, example_dir, [0, 12])] [98, 99] (Ino 2)"
  using names_table names_facts names_dir [OF example_dir_block] names_match
  by (simp_all add: named_def dir_entries_def example_dir_live names_fields del: One_nat_def)

lemma links_named:
  "named (example_names example_links) names_ring names_chains (Ino 0) [(50, example_links, [0, 12])] [97] (Ino 1)"
  "named (example_names example_links) names_ring names_chains (Ino 0) [(50, example_links, [0, 12])] [98, 99] (Ino 1)"
  using names_table names_facts names_dir [OF links_block] names_match
  by (simp_all add: named_def dir_entries_def links_live names_fields del: One_nat_def)

lemma example_env_case: "\<not> retensive example_env"
  by (simp add: example_env_def)

theorem find_entry_is_lookup_witness:
  "\<exists>x dir' fs'. ext2_find_entry 100 False (v_inode (example_names example_dir) (Ino 0)) [98, 99] (v_fs (example_names example_dir)) =
     Some ((Some (50, x), dir'), fs') \<and> de_inode example_dir x = 13"
proof -
  have "map_of (dir_entries [(50, example_dir, [0, 12])]) [98, 99] = Some 13" by (simp add: dir_entries_def example_dir_live)
  then show ?thesis
    using find_entry_is_lookup [OF names_dir [OF example_dir_block], of "[98, 99]" 100] names_facts(5)
    by (auto split: option.splits)
qed

theorem unlink_refused_witness:
  "\<exists>st'. ext2_unlink example_env (Ino 0) [98, 99] (example_names example_dir) = Some (- EPERM, st') \<and>
     v_fs st' = v_fs (example_names example_dir)"
proof -
  have "S_ISDIR (i_mode (v_inode (example_names example_dir) (Ino 2)))" by (simp add: names_fields S_ISDIR_def)
  then show ?thesis using unlink_refused [OF dir_named(2) example_env_case] by blast
qed

theorem unlink_open_file_witness:
  "\<exists>st'. ext2_unlink example_env (Ino 0) [97] (example_names example_dir) = Some (0, st') \<and>
     i_nlink (v_inode st' (Ino 1)) = 0 \<and> i_version (v_inode st' (Ino 0)) = 9"
proof -
  have t: "\<not> S_ISDIR (i_mode (v_inode (example_names example_dir) (Ino 1)))" "\<not> IS_APPEND (v_inode (example_names example_dir) (Ino 1))"
    "\<not> IS_IMMUTABLE (v_inode (example_names example_dir) (Ino 1))"
    by (simp_all add: names_fields S_ISDIR_def IS_APPEND_def IS_IMMUTABLE_def del: One_nat_def)
  show ?thesis
    using unlink_open_file [OF dir_named(1) example_env_case t] unfolding names_fields by (elim exE conjE) (intro exI conjI, assumption, simp_all)
qed

theorem rename_same_inode_witness:
  "\<exists>st'. ext2_rename example_env (Ino 0) [97] (Ino 0) [98, 99] (example_names example_links) = Some (0, st') \<and>
     v_fs st' = v_fs (example_names example_links) \<and> v_inode st' (Ino 1) = v_inode (example_names example_links) (Ino 1) \<and>
     i_count (v_inode st' (Ino 0)) = i_count (v_inode (example_names example_links) (Ino 0)) - 2"
proof -
  have t: "i_count (v_inode (example_names example_links) (Ino 1)) + 1 \<noteq> - 1"
    "Ino 0 = Ino 0 \<longrightarrow> 1 < i_count (v_inode (example_names example_links) (Ino 0)) - 1"
    "\<not> IS_APPEND (v_inode (example_names example_links) (Ino 1))"
    "\<not> IS_IMMUTABLE (v_inode (example_names example_links) (Ino 1))"
    by (simp_all add: names_fields IS_APPEND_def IS_IMMUTABLE_def del: One_nat_def)
  obtain st' where r: "ext2_rename example_env (Ino 0) [97] (Ino 0) [98, 99] (example_names example_links) = Some (0, st')"
      "v_fs st' = v_fs (example_names example_links)" "v_inode st' (Ino 1) = v_inode (example_names example_links) (Ino 1)"
      "hinted ((v_inode (example_names example_links) (Ino 0))\<lparr>i_count := i_count (v_inode (example_names example_links) (Ino 0)) - 2\<rparr>)
         (v_inode st' (Ino 0))"
    using rename_same_inode [OF links_named example_env_case t names_fields(11)] by auto
  have "i_count (v_inode st' (Ino 0)) = i_count (v_inode (example_names example_links) (Ino 0)) - 2"
    using hinted_simps(4) [OF r(4)] by simp
  then show ?thesis using r(1-3) by blast
qed

theorem lookup_then_cached_witness:
  "\<exists>st1. ext2_lookup example_env (Ino 0) [97] (example_names example_dir) = Some ((0, Ino 1), st1) \<and>
     (\<forall>fs. \<exists>st2. ext2_lookup example_env (Ino 0) [97] (st1\<lparr>v_fs := fs\<rparr>) = Some ((0, Ino 1), st2))"
proof -
  have d: "S_ISDIR (i_mode (v_inode (example_names example_dir) (Ino 0)))" "1 < i_count (v_inode (example_names example_dir) (Ino 0)) - 1"
    and i: "dcache_inv (v_dc (example_names example_dir)) empty_view" and l: "length [97 :: u8] \<le> DCACHE_NAME_LEN"
    using init_inv by (simp_all add: names_fields S_ISDIR_def DCACHE_NAME_LEN_def)
  show ?thesis using lookup_then_cached [OF dir_named(1) example_env_case d i l find_in_empty] by blast
qed

end
