(* ===== verification/Ext2_File.thy ===== *)
theory Ext2_File
  imports Ext2_Truncate Ext2_Dir
begin

text \<open>
  Reading and writing files: \<open>src/ext2/file.c\<close>, with \<open>VFS_read\<close> and \<open>VFS_write\<close> of
  \<open>src/vfs/read_write.c\<close> and \<open>map_err\<close> of \<open>src/misc/maperr.c\<close>.

  The buffers a read has requested and not yet copied, the slots of \<open>buflist\<close> from \<open>bhe\<close> up to
  \<open>bhb\<close>, are a queue of at most \<open>NBUF\<close> block numbers in the file with their buffers. Whether a buffer
  is already up to date when it is requested and whether it is still locked when the read gets to it
  depends on the cache and on the disk: it is an argument (\<open>io\<close>), which answers for each block of the
  file. The user's buffer is a list of bytes. \<open>loff_t\<close> and \<open>off_t\<close> have 32 bits here, so a position is
  a word, read with \<open>sint\<close> where the code compares it as signed. Nothing else runs between two
  statements, so \<open>i_sem\<close> is left out. The inode pointer is not null.
\<close>

record open_file =
  f_pos :: u32
  f_reada :: bool
  f_version :: u32
  f_flags :: u16

definition NBUF :: nat where "NBUF = 32"
definition O_APPEND :: u16 where "O_APPEND = 0x0400"
definition O_SYNC :: u16 where "O_SYNC = 0x1000"

text \<open>\<open>read_ahead[0]\<close>, in sectors\<close>

definition READ_AHEAD :: nat where "READ_AHEAD = 8"

definition IS_RDONLY :: "ext2_fs \<Rightarrow> bool" where
  "IS_RDONLY fs \<longleftrightarrow> s_flags fs AND MS_RDONLY \<noteq> 0"

subsection \<open>ext2_file_read\<close>

record io =
  ready :: "int \<Rightarrow> bool"
  locked :: "int \<Rightarrow> bool"

type_synonym queue = "(int \<times> u32 option) list"

text \<open>The inner loop that requests blocks, until one is up to date or all slots are taken.\<close>

fun request ::
    "io \<Rightarrow> u32 \<Rightarrow> nat \<Rightarrow> int \<Rightarrow> queue \<Rightarrow> bool \<Rightarrow> inode \<Rightarrow> ext2_fs \<Rightarrow> (((nat \<times> int \<times> queue) \<times> inode) \<times> ext2_fs) option" where
  "request io now 0 block q uptodate inode fs = Some (((0, block, q), inode), fs)"
| "request io now (Suc blocks) block q uptodate inode fs = do {
     (((bh, _), inode), fs) \<leftarrow> ext2_getblk now inode block False 0 fs;
     let uptodate = (case bh of None \<Rightarrow> uptodate | Some b \<Rightarrow> uptodate \<and> ready io block \<and> b_data fs b \<noteq> None);
     let q = q @ [(block, bh)];
     if uptodate then Some (((blocks, block + 1, q), inode), fs)
     else if length q = NBUF then Some (((blocks, block + 1, q), inode), fs)
     else request io now blocks (block + 1) q uptodate inode fs
   }"

text \<open>How far the read is: \<open>left\<close>, \<open>offset\<close>, \<open>filp->f_pos\<close> and the bytes copied, \<open>read\<close> of them.\<close>

record progress =
  r_left :: nat
  r_offset :: nat
  r_pos :: u32
  r_out :: "u8 list"

text \<open>The bytes of a block: a hole reads as zeros, a block that could not be read is \<open>None\<close>.\<close>

definition block_bytes :: "ext2_fs \<Rightarrow> u32 option \<Rightarrow> u8 list option" where
  "block_bytes fs bh = (case bh of None \<Rightarrow> Some (replicate (s_blocksize fs) 0) | Some b \<Rightarrow> b_data fs b)"

definition copy_block :: "nat \<Rightarrow> u8 list \<Rightarrow> progress \<Rightarrow> progress" where
  "copy_block bs data pr =
     (let chars = (if r_left pr < bs - r_offset pr then r_left pr else bs - r_offset pr)
      in pr\<lparr>r_left := r_left pr - chars, r_offset := 0, r_pos := r_pos pr + of_nat chars,
            r_out := r_out pr @ take chars (drop (r_offset pr) data)\<rparr>)"

text \<open>The loop that copies from the buffers that have arrived.\<close>

fun finish :: "io \<Rightarrow> queue \<Rightarrow> progress \<Rightarrow> ext2_fs \<Rightarrow> ((queue \<times> progress) \<times> ext2_fs) option" where
  "finish io [] pr fs = None"
| "finish io ((block, bh) # q) pr fs =
     (case block_bytes fs bh of
        None \<Rightarrow> Some ((q, pr\<lparr>r_left := 0\<rparr>), brelse bh fs)
      | Some data \<Rightarrow>
          let pr = copy_block (s_blocksize fs) data pr; fs = brelse bh fs in
          if r_left pr > 0 \<and> (case q of [] \<Rightarrow> False | (next, nbh) # _ \<Rightarrow> nbh = None \<or> \<not> locked io next)
          then finish io q pr fs
          else Some ((q, pr), fs))"

partial_function (option) read_rounds ::
    "io \<Rightarrow> u32 \<Rightarrow> nat \<Rightarrow> int \<Rightarrow> queue \<Rightarrow> progress \<Rightarrow> inode \<Rightarrow> ext2_fs \<Rightarrow> (((queue \<times> progress) \<times> inode) \<times> ext2_fs) option" where
  "read_rounds io now blocks block q pr inode fs =
     Option.bind (request io now blocks block q True inode fs) (\<lambda>(((blocks, block, q), inode), fs).
       Option.bind (finish io q pr fs) (\<lambda>((q, pr), fs).
         if r_left pr > 0 then read_rounds io now blocks block q pr inode fs else Some (((q, pr), inode), fs)))"

declare read_rounds.simps [code]

text \<open>How many bytes are left to read, as the signed \<open>int\<close> of the source.\<close>

definition bytes_left :: "inode \<Rightarrow> open_file \<Rightarrow> int \<Rightarrow> int" where
  "bytes_left inode filp count =
     (let l = (if f_pos filp > i_size inode then 0 else sint (i_size inode - f_pos filp))
      in if l > count then count else l)"

text \<open>How many blocks to request: those of the bytes, or more when the file is read sequentially.\<close>

definition blocks_wanted :: "ext2_fs \<Rightarrow> inode \<Rightarrow> open_file \<Rightarrow> nat \<Rightarrow> nat \<Rightarrow> int \<Rightarrow> nat" where
  "blocks_wanted fs inode filp n off block =
     (let bs = s_blocksize fs;
          size = unat (i_size inode + of_nat bs - 1) div bs;
          blocks = unat (of_nat n + of_nat off + of_nat bs - 1 :: u32) div bs
      in if f_reada filp then
           let ahead = READ_AHEAD div (bs div 512); blocks = (if blocks < ahead then ahead else blocks)
           in if unat (of_int (block + int blocks) :: u32) > size then unat (of_nat size - of_int block :: u32) else blocks
         else blocks)"

definition brelse_queue :: "queue \<Rightarrow> ext2_fs \<Rightarrow> ext2_fs" where
  "brelse_queue q fs = fold brelse (List.map snd q) fs"

definition ext2_file_read ::
    "io \<Rightarrow> u32 \<Rightarrow> inode \<Rightarrow> open_file \<Rightarrow> int \<Rightarrow> ext2_fs \<Rightarrow> (((int \<times> u8 list) \<times> inode \<times> open_file) \<times> ext2_fs) option" where
  "ext2_file_read io now inode filp count fs =
     (if \<not> S_ISREG (i_mode inode) then Some (((- EINVAL, []), (inode, filp)), fs)
      else
        let n = bytes_left inode filp count in
        if n \<le> 0 then Some (((0, []), (inode, filp)), fs)
        else
          let bs = s_blocksize fs;
              block = sint (f_pos filp) div int bs;
              off = unat (f_pos filp AND (of_nat bs - 1));
              pr = \<lparr>r_left = nat n, r_offset = off, r_pos = f_pos filp, r_out = []\<rparr>
          in do {
            (((q, pr), inode), fs) \<leftarrow> read_rounds io now (blocks_wanted fs inode filp (nat n) off block) block [] pr inode fs;
            let fs = brelse_queue q fs;
            let filp = filp\<lparr>f_pos := r_pos pr\<rparr>;
            if r_out pr = [] then Some (((- EIO, []), (inode, filp)), fs)
            else
              let inode = (if \<not> IS_RDONLY fs then inode\<lparr>i_atime := now, i_dirt := True\<rparr> else inode)
              in Some (((int (length (r_out pr)), r_out pr), (inode, filp\<lparr>f_reada := True\<rparr>)), fs)
          })"

subsection \<open>ext2_file_write\<close>

definition two_gb :: int where "two_gb = 2147483647"

text \<open>The state of the loop: position, bytes written or an error, the buffers of a synchronous write.\<close>

record write_state =
  w_pos :: u32
  w_written :: nat
  w_error :: "int option"
  w_list :: "u32 list"
  w_failed :: bool

text \<open>An error is the result only when nothing was written.\<close>

definition set_error :: "int \<Rightarrow> write_state \<Rightarrow> write_state" where
  "set_error e w = (if w_written w = 0 then w\<lparr>w_error := Some e\<rparr> else w)"

text \<open>The buffers of the list are written and released; a buffer that is not up to date then has failed.\<close>

definition flush_list :: "write_state \<Rightarrow> ext2_fs \<Rightarrow> write_state \<times> ext2_fs" where
  "flush_list w fs =
     (let fs = fold ll_rw_block_write (w_list w) fs;
          failed = (\<exists>b \<in> set (w_list w). b_data fs b = None)
      in (w\<lparr>w_list := [], w_failed := w_failed w \<or> failed\<rparr>, fold (\<lambda>b. brelse (Some b)) (w_list w) fs))"

text \<open>\<open>memcpy (p, buf, c)\<close> into the buffer at \<open>off\<close>; a buffer that is not up to date is overwritten as a whole.\<close>

definition overwrite :: "u8 list option \<Rightarrow> nat \<Rightarrow> u8 list \<Rightarrow> u8 list" where
  "overwrite old off data = (case old of
     None \<Rightarrow> data
   | Some bs \<Rightarrow> take off bs @ data @ drop (off + length data) bs)"

text \<open>The rest of the user's data is \<open>buf\<close>, so \<open>count - written\<close> is its length.\<close>

partial_function (option) write_loop ::
    "u32 \<Rightarrow> bool \<Rightarrow> u8 list \<Rightarrow> write_state \<Rightarrow> inode \<Rightarrow> ext2_fs \<Rightarrow> ((write_state \<times> inode) \<times> ext2_fs) option" where
  "write_loop now sync buf w inode fs =
     (if buf = [] then Some ((w, inode), fs)
      else if sint (w_pos w) > two_gb then Some ((set_error (- EFBIG) w, inode), fs)
      else
        let bs = s_blocksize fs; off = unat (w_pos w) mod bs in
        Option.bind (ext2_getblk now inode (int (unat (w_pos w) div bs)) True 0 fs) (\<lambda>(((bh, err), inode), fs).
          case bh of
            None \<Rightarrow> Some ((set_error err w, inode), fs)
          | Some b \<Rightarrow>
              let c = (if bs - off > length buf then length buf else bs - off) in
              if c \<noteq> bs \<and> b_data fs b = None then Some ((set_error (- EIO) w, inode), brelse bh fs)
              else
                let fs = mark_buffer_dirty b (fs\<lparr>b_data := (b_data fs)(b \<mapsto> overwrite (b_data fs b) off (take c buf))\<rparr>);
                    w = w\<lparr>w_pos := w_pos w + of_nat c, w_written := w_written w + c\<rparr>;
                    (w, fs) = (if sync then (w\<lparr>w_list := w_list w @ [b]\<rparr>, fs) else (w, brelse bh fs));
                    (w, fs) = (if length (w_list w) = NBUF then flush_list w fs else (w, fs))
                in if w_failed w then Some ((w, inode), fs) else write_loop now sync (drop c buf) w inode fs))"

declare write_loop.simps [code]

definition ext2_file_write ::
    "u32 \<Rightarrow> inode \<Rightarrow> open_file \<Rightarrow> u8 list \<Rightarrow> ext2_fs \<Rightarrow> ((int \<times> inode \<times> open_file) \<times> ext2_fs) option" where
  "ext2_file_write now inode filp buf fs =
     (if s_flags fs AND MS_RDONLY \<noteq> 0 then Some ((- ENOSPC, (inode, filp)), fs)
      else if \<not> S_ISREG (i_mode inode) then Some ((- EINVAL, (inode, filp)), fs)
      else
        let pos = (if f_flags filp AND O_APPEND \<noteq> 0 then i_size inode else f_pos filp);
            sync = (f_flags filp AND O_SYNC \<noteq> 0);
            inode = (if sync then inode\<lparr>e_osync := e_osync inode + 1\<rparr> else inode)
        in do {
          ((w, inode), fs) \<leftarrow> write_loop now sync buf
             \<lparr>w_pos = pos, w_written = 0, w_error = None, w_list = [], w_failed = False\<rparr> inode fs;
          let (w, fs) = (if w_list w \<noteq> [] then flush_list w fs else (w, fs));
          let inode = (if sint (w_pos w) > sint (i_size inode) then inode\<lparr>i_size := w_pos w\<rparr> else inode);
          let inode = (if sync then inode\<lparr>e_osync := e_osync inode - 1\<rparr> else inode);
          let inode = inode\<lparr>i_mtime := now, i_ctime := now, i_dirt := True\<rparr>;
          Some (((case w_error w of None \<Rightarrow> int (w_written w) | Some e \<Rightarrow> e), (inode, filp\<lparr>f_pos := w_pos w\<rparr>)), fs)
        })"

definition ext2_release_file :: "inode \<Rightarrow> inode fsop" where
  "ext2_release_file inode fs = ext2_discard_prealloc inode fs"

subsection \<open>map_err\<close>

text \<open>The OS/2 error codes by name; an error that the table does not map is passed on as it is.\<close>

datatype os2_err = NO_ERROR | ERROR_ACCESS_DENIED | ERROR_FILE_NOT_FOUND | ERROR_INVALID_PROCID | ERROR_INTERRUPT
  | ERROR_READ_FAULT | ERROR_BAD_EXE_FORMAT | ERROR_INVALID_HANDLE | ERROR_NO_CHILD_PROCESS | ERROR_NOT_ENOUGH_MEMORY
  | ERROR_INVALID_ADDRESS | ERROR_DEVICE_IN_USE | ERROR_FILE_EXISTS | ERROR_BAD_UNIT | ERROR_PATH_NOT_FOUND
  | ERROR_DIRECTORY | ERROR_INVALID_PARAMETER | ERROR_NO_MORE_FILES | ERROR_SEEK | ERROR_DISK_FULL
  | ERROR_SEEK_ON_DEVICE | ERROR_WRITE_PROTECT | ERROR_BROKEN_PIPE | ERROR_FILENAME_EXCED_RANGE
  | ERROR_NOT_SUPPORTED | ERROR_DIR_NOT_EMPTY | ERROR_CIRCULARITY_REQUESTED | ERROR_HANDLE_EOF | Linux_error int

definition Linux_to_OS2_err :: "os2_err option list" where
  "Linux_to_OS2_err =
     [Some NO_ERROR, Some ERROR_ACCESS_DENIED, Some ERROR_FILE_NOT_FOUND, Some ERROR_INVALID_PROCID,
      Some ERROR_INTERRUPT, Some ERROR_READ_FAULT, None, None, Some ERROR_BAD_EXE_FORMAT, Some ERROR_INVALID_HANDLE,
      Some ERROR_NO_CHILD_PROCESS, None, Some ERROR_NOT_ENOUGH_MEMORY, Some ERROR_ACCESS_DENIED,
      Some ERROR_INVALID_ADDRESS, None, Some ERROR_DEVICE_IN_USE, Some ERROR_FILE_EXISTS, None, Some ERROR_BAD_UNIT,
      Some ERROR_PATH_NOT_FOUND, Some ERROR_DIRECTORY, Some ERROR_INVALID_PARAMETER, Some ERROR_NO_MORE_FILES,
      Some ERROR_NO_MORE_FILES, None, None, Some ERROR_SEEK, Some ERROR_DISK_FULL, Some ERROR_SEEK_ON_DEVICE,
      Some ERROR_WRITE_PROTECT, None, Some ERROR_BROKEN_PIPE, None, None, None, Some ERROR_FILENAME_EXCED_RANGE, None,
      Some ERROR_NOT_SUPPORTED, Some ERROR_DIR_NOT_EMPTY, Some ERROR_CIRCULARITY_REQUESTED, None]"

definition map_err :: "int \<Rightarrow> os2_err" where
  "map_err err =
     (let err = (if err < 0 then - err else err) in
      if nat err \<ge> length Linux_to_OS2_err then Linux_error err
      else case Linux_to_OS2_err ! nat err of
        None \<Rightarrow> Linux_error err
      | Some mapped \<Rightarrow> mapped)"

subsection \<open>VFS_read and VFS_write\<close>

text \<open>The result is the OS/2 error and \<open>*pLen\<close>; a length is passed on as a signed \<open>int\<close>.\<close>

definition VFS_read ::
    "io \<Rightarrow> u32 \<Rightarrow> inode \<Rightarrow> open_file \<Rightarrow> u32 \<Rightarrow> ext2_fs \<Rightarrow> (((os2_err \<times> u32 \<times> u8 list) \<times> inode \<times> open_file) \<times> ext2_fs) option" where
  "VFS_read io now inode filp len fs = do {
     (((r, data), i), fs) \<leftarrow> ext2_file_read io now inode filp (sint len) fs;
     Some ((if r \<ge> 0 then (NO_ERROR, (of_int r, data)) else (map_err r, (0, data)), i), fs)
   }"

definition VFS_write ::
    "u32 \<Rightarrow> inode \<Rightarrow> open_file \<Rightarrow> u8 list \<Rightarrow> ext2_fs \<Rightarrow> (((os2_err \<times> u32) \<times> inode \<times> open_file) \<times> ext2_fs) option" where
  "VFS_write now inode filp buf fs = do {
     ((written, i), fs) \<leftarrow> ext2_file_write now inode filp buf fs;
     Some ((if written < 0 then (map_err written, 0) else (NO_ERROR, of_int written), i), fs)
   }"

end
