(* ===== verification/Ext2_File_Props.thy ===== *)
theory Ext2_File_Props
  imports Ext2_File Ext2_Find_Props
begin

text \<open>
  The theorems on reading and writing files. A file is the function from positions to bytes
  (\<open>file_byte\<close>) that the block map gives, with zeros in the holes; a read returns a piece of it
  whatever blocks are in the cache, locked or read ahead, and a write replaces a piece of it.
\<close>

definition file_byte :: "ext2_fs \<Rightarrow> inode \<Rightarrow> nat \<Rightarrow> u8" where
  "file_byte fs inode i =
     (let b = file_block fs inode (i div s_blocksize fs)
      in if b = 0 then 0 else rd8 (the (b_data fs b)) (i mod s_blocksize fs))"

definition readable :: "ext2_fs \<Rightarrow> inode \<Rightarrow> nat \<Rightarrow> bool" where
  "readable fs inode n \<longleftrightarrow> (\<forall>k < n. file_block fs inode k \<noteq> 0 \<longrightarrow> b_data fs (file_block fs inode k) \<noteq> None)"

section \<open>Requesting blocks\<close>

definition blk :: "ext2_fs \<Rightarrow> inode \<Rightarrow> nat \<Rightarrow> u32 option" where
  "blk fs inode k = got (file_block fs inode k)"

definition queue_of :: "ext2_fs \<Rightarrow> inode \<Rightarrow> nat \<Rightarrow> nat \<Rightarrow> queue" where
  "queue_of fs inode k0 k1 = List.map (\<lambda>k. (int k, blk fs inode k)) [k0..<k1]"

definition with_queue :: "ext2_fs \<Rightarrow> (u32 \<Rightarrow> nat) \<Rightarrow> queue \<Rightarrow> ext2_fs" where
  "with_queue fs c q = holding fs c (List.map snd q)"

lemma with_queue_simps [simp]:
  "s_blocksize (with_queue fs c q) = s_blocksize fs" "b_data (with_queue fs c q) = b_data fs"
  by (simp_all add: with_queue_def)

lemma with_queue_append: "held v (with_queue fs c q) = with_queue fs c (q @ [(k, got v)])"
proof (cases "v = 0")
  case True
  then show ?thesis by (simp add: held_def got_def with_queue_def holding_def)
next
  case False
  define d where "d = (\<lambda>b. c b + count_list (List.map snd q) (Some b))"
  have "with_queue fs c (q @ [(k, got v)]) = with_refs fs (d(v := Suc (d v)))"
    using False by (simp add: with_queue_def holding_def got_def d_def fun_upd_def) (simp add: with_refs_def fun_eq_iff)
  moreover have "with_queue fs c q = with_refs fs d" by (simp add: with_queue_def holding_def d_def)
  ultimately show ?thesis using False by (simp add: held_def) (simp add: with_refs_def)
qed

lemma with_queue_brelse: "brelse bh (with_queue fs c ((k, bh) # q)) = with_queue fs c q"
proof (cases bh)
  case None
  then show ?thesis by (simp add: brelse_def with_queue_def holding_def)
next
  case (Some b)
  then have "with_queue fs c ((k, bh) # q) = with_refs fs (\<lambda>x. c x + count_list (Some b # List.map snd q) (Some x))"
    by (simp add: with_queue_def holding_def)
  moreover have "(\<lambda>x. c x + count_list (Some b # List.map snd q) (Some x))(b := c b + count_list (Some b # List.map snd q) (Some b) - 1) =
      (\<lambda>x. c x + count_list (List.map snd q) (Some x))" by auto
  ultimately show ?thesis using Some by (simp only: brelse_refs) (simp add: with_queue_def holding_def)
qed

lemma with_queue_release: "brelse_queue q (with_queue fs c q) = with_refs fs c"
  using brelse_all_refs [of "List.map snd q" fs c] by (simp add: brelse_queue_def brelse_all_def with_queue_def holding_def)

lemma queue_of_append: "k0 \<le> k \<Longrightarrow> queue_of fs inode k0 k @ [(int k, blk fs inode k)] = queue_of fs inode k0 (Suc k)"
  by (simp add: queue_of_def)

lemma queue_of_Cons: "k0 < k1 \<Longrightarrow> queue_of fs inode k0 k1 = (int k0, blk fs inode k0) # queue_of fs inode (Suc k0) k1"
  by (simp add: queue_of_def upt_conv_Cons)

lemma getblk_queue:
  assumes "blocks_wf fs" and "k < max_blocks fs" and "i_ino i0 \<noteq> INODE_DASD" and "hinted i0 i" and "k0 \<le> k"
  shows "\<exists>e i'. hinted i0 i' \<and> ext2_getblk now i (int k) False err (with_queue fs c (queue_of fs i0 k0 k)) =
    Some (((blk fs i0 k, e), i'), with_queue fs c (queue_of fs i0 k0 (Suc k)))"
proof -
  obtain d where d: "with_queue fs c (queue_of fs i0 k0 k) = with_refs fs d" by (simp add: with_queue_def holding_def)
  have f: "file_block (with_refs fs d) i k = file_block fs i0 k" using file_block_hinted [OF assms(4)] by (simp add: blocks_refs)
  have "blocks_wf (with_refs fs d)" "k < max_blocks (with_refs fs d)" "i_ino i \<noteq> INODE_DASD"
    using assms by (simp_all add: blocks_refs hinted_simps)
  from ext2_getblk_eq [OF this, of now err] obtain e i' where g: "hinted i i'" "ext2_getblk now i (int k) False err (with_refs fs d) =
      Some (((got (file_block fs i0 k), e), i'), held (file_block fs i0 k) (with_refs fs d))"
    unfolding f by (elim exE conjE) (rule that)
  have "held (file_block fs i0 k) (with_refs fs d) = with_queue fs c (queue_of fs i0 k0 (Suc k))"
    using with_queue_append [of "file_block fs i0 k" fs c "queue_of fs i0 k0 k" "int k"] queue_of_append [OF assms(5), of fs i0]
    by (simp add: blk_def d)
  then show ?thesis using g hinted_trans [OF assms(4) g(1)] by (auto simp: d blk_def)
qed

lemma request_queue:
  assumes "blocks_wf fs" and "B \<le> max_blocks fs" and "i_ino i0 \<noteq> INODE_DASD" and "hinted i0 i"
    and "k0 \<le> k" and "k + n = B"
  shows "\<exists>k' i'. hinted i0 i' \<and> k \<le> k' \<and> k' \<le> B \<and> (0 < n \<longrightarrow> k < k') \<and>
    request io now n (int k) (queue_of fs i0 k0 k) u i (with_queue fs c (queue_of fs i0 k0 k)) =
      Some (((B - k', int k', queue_of fs i0 k0 k'), i'), with_queue fs c (queue_of fs i0 k0 k'))"
  using assms(4-6)
proof (induction n arbitrary: k u i)
  case 0
  then show ?case by auto
next
  case (Suc n)
  have lt: "k < max_blocks fs" using Suc.prems(3) assms(2) by simp
  obtain e i1 where g: "hinted i0 i1" "ext2_getblk now i (int k) False 0 (with_queue fs c (queue_of fs i0 k0 k)) =
      Some (((blk fs i0 k, e), i1), with_queue fs c (queue_of fs i0 k0 (Suc k)))"
    using getblk_queue [OF assms(1) lt assms(3) Suc.prems(1,2), of now 0 c] by (elim exE conjE) (rule that)
  define u1 where "u1 = (case blk fs i0 k of None \<Rightarrow> u | Some b \<Rightarrow> u \<and> ready io (int k) \<and> b_data (with_queue fs c (queue_of fs i0 k0 (Suc k))) b \<noteq> None)"
  have step: "request io now (Suc n) (int k) (queue_of fs i0 k0 k) u i (with_queue fs c (queue_of fs i0 k0 k)) =
    (if u1 then Some (((n, int k + 1, queue_of fs i0 k0 (Suc k)), i1), with_queue fs c (queue_of fs i0 k0 (Suc k)))
     else if length (queue_of fs i0 k0 (Suc k)) = NBUF
     then Some (((n, int k + 1, queue_of fs i0 k0 (Suc k)), i1), with_queue fs c (queue_of fs i0 k0 (Suc k)))
     else request io now n (int k + 1) (queue_of fs i0 k0 (Suc k)) False i1 (with_queue fs c (queue_of fs i0 k0 (Suc k))))"
    using g(2) queue_of_append [OF Suc.prems(2), of fs i0] by (cases u1) (simp_all add: Let_def u1_def [symmetric])
  have n: "n = B - Suc k" "k < B" using Suc.prems(3) by simp_all
  have i1: "int k + 1 = int (Suc k)" by simp
  show ?case
  proof (cases "u1 \<or> length (queue_of fs i0 k0 (Suc k)) = NBUF")
    case True
    then have "request io now (Suc n) (int k) (queue_of fs i0 k0 k) u i (with_queue fs c (queue_of fs i0 k0 k)) =
      Some (((B - Suc k, int (Suc k), queue_of fs i0 k0 (Suc k)), i1), with_queue fs c (queue_of fs i0 k0 (Suc k)))"
      unfolding step using n by auto
    then show ?thesis using g(1) n(2) by (intro exI [where x = "Suc k"] exI [where x = i1]) simp
  next
    case False
    then have eq: "request io now (Suc n) (int k) (queue_of fs i0 k0 k) u i (with_queue fs c (queue_of fs i0 k0 k)) =
      request io now n (int (Suc k)) (queue_of fs i0 k0 (Suc k)) False i1 (with_queue fs c (queue_of fs i0 k0 (Suc k)))"
      unfolding step i1 [symmetric] by simp
    have "k0 \<le> Suc k" "Suc k + n = B" using Suc.prems by simp_all
    from Suc.IH [OF g(1) this, of False] show ?thesis unfolding eq by (elim exE conjE) (intro exI conjI, assumption+, simp_all)
  qed
qed

section \<open>Copying blocks\<close>

text \<open>The state of the read at position \<open>p\<close>, when the read starts at \<open>p0\<close> and ends at \<open>e\<close>.\<close>

definition at :: "ext2_fs \<Rightarrow> inode \<Rightarrow> nat \<Rightarrow> nat \<Rightarrow> nat \<Rightarrow> progress" where
  "at fs inode p0 e p = \<lparr>r_left = e - p, r_offset = p mod s_blocksize fs, r_pos = of_nat p,
     r_out = List.map (file_byte fs inode) [p0..<p]\<rparr>"

definition stopped :: "ext2_fs \<Rightarrow> inode \<Rightarrow> nat \<Rightarrow> nat \<Rightarrow> nat \<Rightarrow> progress" where
  "stopped fs inode p0 e p = (at fs inode p0 e p)\<lparr>r_offset := 0\<rparr>"

definition stop_at :: "ext2_fs \<Rightarrow> nat \<Rightarrow> nat \<Rightarrow> nat" where
  "stop_at fs e k = min e (k * s_blocksize fs)"

lemma block_bounds:
  fixes p bs :: nat
  assumes "0 < bs"
  shows "p div bs * bs \<le> p" "p < Suc (p div bs) * bs" "p - p div bs * bs = p mod bs" "Suc (p div bs) * bs - p = bs - p mod bs"
proof -
  have d: "p = p div bs * bs + p mod bs" by simp
  have m: "p mod bs < bs" using assms by simp
  show "p div bs * bs \<le> p" by simp
  have s: "Suc (p div bs) * bs = p div bs * bs + bs" by simp
  show "p < Suc (p div bs) * bs" unfolding s using d m by linarith
  show "p - p div bs * bs = p mod bs" by (metis d add_diff_cancel_left')
  show "Suc (p div bs) * bs - p = bs - p mod bs" using d by (metis diff_diff_left minus_mult_div_eq_mod mult_Suc mult.commute diff_add_inverse2 add.commute diff_cancel2)
qed

lemma copy_at:
  assumes bs: "0 < s_blocksize fs" and p: "p0 \<le> p" "p < e" and k: "k = p div s_blocksize fs"
    and d: "length data = s_blocksize fs" "\<And>j. j < s_blocksize fs \<Longrightarrow> data ! j = file_byte fs inode (k * s_blocksize fs + j)"
  shows "copy_block (s_blocksize fs) data (at fs inode p0 e p) = stopped fs inode p0 e (stop_at fs e (Suc k))"
proof -
  define b where "b = s_blocksize fs"
  define p' where "p' = stop_at fs e (Suc k)"
  define chars where "chars = (if e - p < b - p mod b then e - p else b - p mod b)"
  note bb = block_bounds [of b p, folded k [folded b_def]]
  have b0: "0 < b" using bs by (simp add: b_def)
  have lt: "p < Suc k * b" using bb(2) [OF b0] .
  have room: "Suc k * b - p = b - p mod b" using bb(4) [OF b0] .
  have c: "p + chars = p'"
    using p(2) lt room by (auto simp: chars_def p'_def stop_at_def b_def [symmetric] min_def)
  have cl: "p mod b + chars \<le> b" using b0 by (auto simp: chars_def intro: less_imp_le)
  have "take chars (drop (p mod b) data) = List.map (file_byte fs inode) [p..<p']"
  proof (rule nth_equalityI)
    show "length (take chars (drop (p mod b) data)) = length (List.map (file_byte fs inode) [p..<p'])"
      using d(1) cl c by (simp add: b_def [symmetric])
    fix j assume "j < length (take chars (drop (p mod b) data))"
    then have j: "j < chars" by simp
    have "p mod b + j < b" using j cl by simp
    then have "data ! (p mod b + j) = file_byte fs inode (k * b + (p mod b + j))" using d(2) by (simp add: b_def)
    also have "k * b + (p mod b + j) = p + j" using bb(1,3) [OF b0] by simp
    finally show "take chars (drop (p mod b) data) ! j = List.map (file_byte fs inode) [p..<p'] ! j"
      using j c d(1) cl by (simp add: b_def [symmetric])
  qed
  then have o: "List.map (file_byte fs inode) [p0..<p] @ take chars (drop (p mod b) data) = List.map (file_byte fs inode) [p0..<p']"
    using upt_add_eq_append [OF p(1), of chars] c by simp
  have l: "e - p - chars = e - p'" using c by simp
  have w: "(of_nat p :: u32) + of_nat chars = of_nat p'" unfolding c [symmetric] by simp
  have ch: "(if r_left (at fs inode p0 e p) < b - r_offset (at fs inode p0 e p) then r_left (at fs inode p0 e p)
      else b - r_offset (at fs inode p0 e p)) = chars" by (simp add: at_def chars_def b_def)
  show ?thesis
    unfolding copy_block_def b_def [symmetric] Let_def ch p'_def [symmetric]
    by (simp add: at_def stopped_def b_def [symmetric] o l w del: diff_diff_left)
qed

lemma bytes_of_block:
  assumes "blocks_wf fs" and "readable fs inode n" and "k < n"
  shows "\<exists>data. block_bytes (with_queue fs c q) (blk fs inode k) = Some data \<and> length data = s_blocksize fs \<and>
    (\<forall>j < s_blocksize fs. data ! j = file_byte fs inode (k * s_blocksize fs + j))"
proof (cases "file_block fs inode k = 0")
  case True
  then show ?thesis by (auto simp: block_bytes_def blk_def got_def file_byte_def Let_def)
next
  case False
  then obtain data where d: "b_data fs (file_block fs inode k) = Some data" using assms(2,3) by (auto simp: readable_def)
  then have "length data = s_blocksize fs" using assms(1) by (auto simp: blocks_wf_def)
  then show ?thesis using d False by (auto simp: block_bytes_def blk_def got_def file_byte_def Let_def rd8_def)
qed

lemma finish_queue:
  assumes wf: "blocks_wf fs" and rd: "readable fs inode n" and e: "e \<le> n * s_blocksize fs"
    and "p0 \<le> p" "p < e" "k = p div s_blocksize fs" "k < k1"
  shows "\<exists>k'. k < k' \<and> k' \<le> k1 \<and>
    finish io (queue_of fs inode k k1) (at fs inode p0 e p) (with_queue fs c (queue_of fs inode k k1)) =
      Some ((queue_of fs inode k' k1, stopped fs inode p0 e (stop_at fs e k')), with_queue fs c (queue_of fs inode k' k1))"
  using assms(4-7)
proof (induction "k1 - k" arbitrary: k p)
  case 0
  then show ?case by simp
next
  case (Suc m)
  have bs: "0 < s_blocksize fs" using wf by (auto simp: blocks_wf_def)
  have "k * s_blocksize fs \<le> p" using block_bounds(1) [OF bs, of p] Suc.prems(3) by simp
  then have "k * s_blocksize fs < n * s_blocksize fs" using Suc.prems(2) e by linarith
  then have kn: "k < n" by simp
  obtain data where data: "block_bytes (with_queue fs c (queue_of fs inode k k1)) (blk fs inode k) = Some data"
      "length data = s_blocksize fs" "\<And>j. j < s_blocksize fs \<Longrightarrow> data ! j = file_byte fs inode (k * s_blocksize fs + j)"
    using bytes_of_block [OF wf rd kn, of c "queue_of fs inode k k1"] by blast
  note q = queue_of_Cons [OF Suc.prems(4), of fs inode]
  note cp = copy_at [OF bs Suc.prems(1-3) data(2,3)]
  define p' where "p' = stop_at fs e (Suc k)"
  define q' where "q' = queue_of fs inode (Suc k) k1"
  have st: "finish io (queue_of fs inode k k1) (at fs inode p0 e p) (with_queue fs c (queue_of fs inode k k1)) =
    (if e - p' > 0 \<and> (case q' of [] \<Rightarrow> False | (next, nbh) # _ \<Rightarrow> nbh = None \<or> \<not> locked io next)
     then finish io q' (stopped fs inode p0 e p') (with_queue fs c q') else Some ((q', stopped fs inode p0 e p'), with_queue fs c q'))"
  proof -
    have l: "r_left (stopped fs inode p0 e p') = e - p'" by (simp add: stopped_def at_def)
    have b: "brelse (blk fs inode k) (with_queue fs c ((int k, blk fs inode k) # q')) = with_queue fs c q'" by (rule with_queue_brelse)
    show ?thesis
      using data(1) unfolding q q'_def [symmetric] p'_def [symmetric]
      by (simp only: finish.simps option.case Let_def with_queue_simps cp p'_def [symmetric] l b)
  qed
  show ?case
  proof (cases "e - p' > 0 \<and> (case q' of [] \<Rightarrow> False | (next, nbh) # _ \<Rightarrow> nbh = None \<or> \<not> locked io next)")
    case False
    then have "finish io (queue_of fs inode k k1) (at fs inode p0 e p) (with_queue fs c (queue_of fs inode k k1)) =
        Some ((q', stopped fs inode p0 e p'), with_queue fs c q')" using st by (simp only: if_False)
    then show ?thesis using Suc.prems(4) unfolding q'_def p'_def by (intro exI [where x = "Suc k"]) simp
  next
    case True
    have "q' \<noteq> []" using True by (cases q') auto
    then have lt: "Suc k < k1" by (simp add: q'_def queue_of_def)
    have p'e: "p' = Suc k * s_blocksize fs" "p' < e" using True by (auto simp: p'_def stop_at_def min_def split: if_splits)
    have "stopped fs inode p0 e p' = at fs inode p0 e p'" using p'e by (simp add: stopped_def at_def)
    then have eq: "finish io (queue_of fs inode k k1) (at fs inode p0 e p) (with_queue fs c (queue_of fs inode k k1)) =
        finish io q' (at fs inode p0 e p') (with_queue fs c q')" unfolding st if_P [OF True] by (simp only:)
    have "p \<le> p'" using block_bounds(2) [OF bs, of p] Suc.prems(3) p'e(1) by simp
    then have "p0 \<le> p'" using Suc.prems(1) by simp
    moreover have "Suc k = p' div s_blocksize fs" using bs by (simp add: p'e(1) del: mult_Suc)
    moreover have "m = k1 - Suc k" using Suc.hyps(2) by simp
    ultimately obtain k' where "Suc k < k'" "k' \<le> k1" "finish io q' (at fs inode p0 e p') (with_queue fs c q') =
        Some ((queue_of fs inode k' k1, stopped fs inode p0 e (stop_at fs e k')), with_queue fs c (queue_of fs inode k' k1))"
      using Suc.hyps(1) [of "Suc k" p'] p'e(2) lt unfolding q'_def by blast
    then show ?thesis unfolding eq by (intro exI [where x = k']) simp
  qed
qed

section \<open>The rounds\<close>

lemma rounds_read:
  assumes wf: "blocks_wf fs" and rd: "readable fs i0 n" and e: "e \<le> n * s_blocksize fs" and ino: "i_ino i0 \<noteq> INODE_DASD"
    and B: "B \<le> max_blocks fs" "e \<le> B * s_blocksize fs"
    and "p0 \<le> p" "p < e" "k0 = p div s_blocksize fs" "k0 \<le> k" "k \<le> B" "hinted i0 i"
  shows "\<exists>q i'. hinted i0 i' \<and>
    read_rounds io now (B - k) (int k) (queue_of fs i0 k0 k) (at fs i0 p0 e p) i (with_queue fs c (queue_of fs i0 k0 k)) =
      Some (((q, stopped fs i0 p0 e e), i'), with_queue fs c q)"
  using assms(7-12)
proof (induction "e - p" arbitrary: p k0 k i rule: less_induct)
  case less
  have bs: "0 < s_blocksize fs" using wf by (auto simp: blocks_wf_def)
  have "k0 * s_blocksize fs \<le> p" using block_bounds(1) [OF bs, of p] less.prems(3) by simp
  then have "k0 * s_blocksize fs < B * s_blocksize fs" using less.prems(2) B(2) by linarith
  then have k0B: "k0 < B" by simp
  have kn: "k + (B - k) = B" using less.prems(5) by simp
  obtain k1 i1 where rq: "hinted i0 i1" "k \<le> k1" "k1 \<le> B" "0 < B - k \<longrightarrow> k < k1"
      "request io now (B - k) (int k) (queue_of fs i0 k0 k) True i (with_queue fs c (queue_of fs i0 k0 k)) =
        Some (((B - k1, int k1, queue_of fs i0 k0 k1), i1), with_queue fs c (queue_of fs i0 k0 k1))"
    using request_queue [OF wf B(1) ino less.prems(6,4) kn, of io now True c] by (elim exE conjE) (rule that)
  have k1: "k0 < k1" using rq(2,4) less.prems(4) k0B by (cases "k = B") auto
  obtain k2 where fin: "k0 < k2" "k2 \<le> k1"
      "finish io (queue_of fs i0 k0 k1) (at fs i0 p0 e p) (with_queue fs c (queue_of fs i0 k0 k1)) =
        Some ((queue_of fs i0 k2 k1, stopped fs i0 p0 e (stop_at fs e k2)), with_queue fs c (queue_of fs i0 k2 k1))"
    using finish_queue [OF wf rd e less.prems(1-3) k1, of io c] by (elim exE conjE) (rule that)
  have step: "read_rounds io now (B - k) (int k) (queue_of fs i0 k0 k) (at fs i0 p0 e p) i (with_queue fs c (queue_of fs i0 k0 k)) =
    (if e - stop_at fs e k2 > 0
     then read_rounds io now (B - k1) (int k1) (queue_of fs i0 k2 k1) (stopped fs i0 p0 e (stop_at fs e k2)) i1 (with_queue fs c (queue_of fs i0 k2 k1))
     else Some (((queue_of fs i0 k2 k1, stopped fs i0 p0 e (stop_at fs e k2)), i1), with_queue fs c (queue_of fs i0 k2 k1)))"
    using rq(5) fin(3) by (subst read_rounds.simps) (simp add: stopped_def at_def)
  show ?case
  proof (cases "e - stop_at fs e k2 > 0")
    case False
    moreover have "stop_at fs e k2 \<le> e" by (simp add: stop_at_def)
    ultimately have "stop_at fs e k2 = e" by simp
    then show ?thesis unfolding step using rq(1) by auto
  next
    case True
    then have s: "stop_at fs e k2 = k2 * s_blocksize fs" "stop_at fs e k2 < e" by (auto simp: stop_at_def min_def split: if_splits)
    have "Suc k0 * s_blocksize fs \<le> k2 * s_blocksize fs" using fin(1) by (intro mult_le_mono1) simp
    then have lt: "p < stop_at fs e k2" using block_bounds(2) [OF bs, of p] less.prems(3) s(1) by simp
    have at: "stopped fs i0 p0 e (stop_at fs e k2) = at fs i0 p0 e (stop_at fs e k2)" using s(1) by (simp add: stopped_def at_def)
    have d: "e - stop_at fs e k2 < e - p" using lt s(2) by simp
    have p0: "p0 \<le> stop_at fs e k2" using lt less.prems(1) by simp
    have kd: "k2 = stop_at fs e k2 div s_blocksize fs" using bs by (simp add: s(1))
    show ?thesis
      unfolding step if_P [OF True] at by (rule less.hyps [OF d p0 s(2) kd fin(2) rq(3,1)])
  qed
qed

section \<open>ext2_file_read\<close>

lemma mask_blocksize:
  assumes "blocks_wf fs" and "s_blocksize fs < 2 ^ 32"
  shows "unat (x AND (of_nat (s_blocksize fs) - 1) :: u32) = unat x mod s_blocksize fs"
proof -
  obtain k where k: "s_blocksize fs = 2 ^ (k + 2)" using assms(1) by (auto simp: blocks_wf_def power_add)
  have "x AND (of_nat (s_blocksize fs) - 1) = take_bit (k + 2) x"
    by (simp add: k take_bit_eq_mask mask_eq_exp_minus_1)
  moreover have "unat (take_bit (k + 2) x) = unat x mod 2 ^ (k + 2)"
    by (simp only: take_bit_eq_mod [symmetric] unsigned_take_bit_eq)
  ultimately show ?thesis unfolding k by simp
qed

lemma sint_small:
  fixes x :: u32
  assumes "unat x < 2 ^ 31"
  shows "sint x = int (unat x)"
proof -
  have "int (unat x) < int (2 ^ 31)" using assms by (simp only: of_nat_less_iff)
  then have "uint x < 2 ^ 31" by simp
  then have "signed_take_bit 31 (uint x) = uint x" by (intro signed_take_bit_int_eq_self) (use uint_ge_0 [of x] in linarith, simp)
  then show ?thesis by (simp add: sint_uint)
qed

text \<open>The file is not so large that positions, rounded up to a block, leave the signed range.\<close>

definition file_ok :: "ext2_fs \<Rightarrow> inode \<Rightarrow> bool" where
  "file_ok fs inode \<longleftrightarrow> S_ISREG (i_mode inode) \<and> i_ino inode \<noteq> INODE_DASD \<and> blocks_wf fs \<and>
     unat (i_size inode) + s_blocksize fs \<le> 2 ^ 31 \<and> unat (i_size inode) \<le> max_blocks fs * s_blocksize fs \<and>
     readable fs inode (Suc ((unat (i_size inode) - 1) div s_blocksize fs))"

lemma unat_sum:
  fixes a b c :: nat
  assumes "0 < c" and "a + b + c \<le> 2 ^ 32"
  shows "unat (of_nat a + of_nat b + of_nat c - 1 :: u32) = a + b + c - 1"
proof -
  have "(of_nat a + of_nat b + of_nat c - 1 :: u32) = of_nat (a + b + c - 1)" using assms(1) by (simp add: of_nat_diff)
  moreover have "a + b + c - 1 < 2 ^ 32" using assms by linarith
  ultimately show ?thesis by (simp only: unat_of_nat) simp
qed

lemma round_up:
  fixes x bs :: nat
  assumes "0 < bs" and "0 < x"
  shows "(x + bs - 1) div bs = Suc ((x - 1) div bs)" "x \<le> Suc ((x - 1) div bs) * bs"
proof -
  have e: "x + bs - 1 = (x - 1) + bs" using assms by simp
  show "(x + bs - 1) div bs = Suc ((x - 1) div bs)" unfolding e using assms(1) by (simp only: div_add_self2)
  have "x - 1 < Suc ((x - 1) div bs) * bs" by (rule block_bounds(2) [OF assms(1)])
  then show "x \<le> Suc ((x - 1) div bs) * bs" using assms(2) by linarith
qed

text \<open>The blocks to request reach the end of the read and do not go behind the end of the file.\<close>

lemma blocks_wanted_range:
  assumes ok: "file_ok fs inode" and p: "unat (f_pos filp) < unat (i_size inode)" and n: "0 < n" "unat (f_pos filp) + n \<le> unat (i_size inode)"
  shows "\<exists>B. blocks_wanted fs inode filp n (unat (f_pos filp) mod s_blocksize fs) (int (unat (f_pos filp) div s_blocksize fs)) =
      B - unat (f_pos filp) div s_blocksize fs \<and> unat (f_pos filp) div s_blocksize fs \<le> B \<and>
    B \<le> max_blocks fs \<and> unat (f_pos filp) + n \<le> B * s_blocksize fs"
proof -
  define bs where "bs = s_blocksize fs"
  define s where "s = unat (i_size inode)"
  define p where "p = unat (f_pos filp)"
  define k where "k = p div bs"
  define S where "S = Suc ((s - 1) div bs)"
  define N where "N = Suc ((n + p mod bs - 1) div bs)"
  have b0: "0 < bs" using ok by (auto simp: file_ok_def blocks_wf_def bs_def)
  have lim: "s + bs \<le> 2 ^ 31" "s \<le> max_blocks fs * bs" using ok by (simp_all add: file_ok_def s_def bs_def)
  have ps: "p < s" "p + n \<le> s" using assms(2,4) by (simp_all add: p_def s_def)
  have pm: "p = k * bs + p mod bs" by (simp add: k_def)
  have mb: "p mod bs < bs" using b0 by simp
  have size: "unat (i_size inode + of_nat bs - 1) div bs = S"
    using unat_sum [OF b0, of s 0] lim(1) round_up(1) [OF b0, of s] ps by (simp add: s_def S_def)
  have need: "unat (of_nat n + of_nat (p mod bs) + of_nat bs - 1 :: u32) div bs = N"
    using unat_sum [OF b0, of n "p mod bs"] lim(1) ps mb round_up(1) [OF b0, of "n + p mod bs"] n(1) pm
    by (simp add: N_def)
  have SM: "S \<le> max_blocks fs"
  proof -
    have "s - 1 < max_blocks fs * bs" using lim(2) ps by linarith
    then show ?thesis unfolding S_def using b0 by (simp add: div_less_iff_less_mult Suc_le_eq)
  qed
  have sS: "s \<le> S * bs" unfolding S_def using round_up(2) [OF b0, of s] ps by simp
  have end_N: "p + n \<le> (k + N) * bs"
    using round_up(2) [OF b0, of "n + p mod bs"] n(1) pm unfolding N_def [symmetric] by (simp add: algebra_simps)
  have NS: "k + N \<le> S"
  proof -
    have e: "p + n - 1 = (n + p mod bs - 1) + k * bs" using pm n(1) by simp
    have "k + N = Suc ((p + n - 1) div bs)" unfolding e using b0 by (simp add: N_def)
    also have "\<dots> \<le> S" unfolding S_def using ps by (intro Suc_le_mono [THEN iffD2] div_le_mono) simp
    finally show ?thesis .
  qed
  define A where "A = READ_AHEAD div (bs div 512)"
  define M where "M = (if N < A then A else N)"
  have S31: "S < 2 ^ 31"
  proof -
    have "(s - 1) div bs \<le> s - 1" by (rule div_le_dividend)
    then have "S \<le> s" using ps(1) unfolding S_def by linarith
    then show ?thesis using lim(1) b0 by linarith
  qed
  have A8: "A \<le> 8" by (simp add: A_def READ_AHEAD_def)
  have kS: "k < S" using NS by (simp add: N_def)
  have w: "unat (of_int (int k + int M) :: u32) = k + M"
  proof -
    have "M \<le> N + 8" using A8 by (simp add: M_def)
    then have "k + M \<le> S + 8" using NS by linarith
    also have "\<dots> < 2 ^ 32" using S31 by simp
    finally have "k + M < 2 ^ 32" .
    moreover have "(of_int (int k + int M) :: u32) = of_nat (k + M)" by simp
    ultimately show ?thesis by (simp only: unat_of_nat take_bit_eq_mod) simp
  qed
  have d: "unat (of_nat S - of_int (int k) :: u32) = S - k"
  proof -
    have "(of_nat S - of_int (int k) :: u32) = of_nat (S - k)" using kS by (simp add: of_nat_diff)
    then show ?thesis using S31 by (simp add: unat_of_nat take_bit_eq_mod)
  qed
  have "blocks_wanted fs inode filp n (p mod bs) (int k) =
      (if f_reada filp then if k + M > S then S - k else M else N)"
    unfolding blocks_wanted_def Let_def bs_def [symmetric] size need A_def [symmetric] M_def [symmetric] w d ..
  moreover have "p + n \<le> S * bs" using sS ps by linarith
  moreover have "p + n \<le> (k + M) * bs" using end_N by (auto simp: M_def algebra_simps intro: order_trans)
  ultimately show ?thesis
    unfolding bs_def [symmetric] p_def [symmetric] k_def [symmetric]
    using SM NS kS end_N
    by (intro exI [where x = "if f_reada filp then if k + M > S then S else k + M else k + N"]) auto
qed

lemma file_read_bytes:
  assumes ok: "file_ok fs inode" and p: "f_pos filp < i_size inode" and count: "0 < count"
  shows "\<exists>n inode'. n = min (unat (i_size inode) - unat (f_pos filp)) (nat count) \<and> 0 < n \<and> hinted inode inode' \<and>
    ext2_file_read io now inode filp count fs =
      Some (((int n, List.map (file_byte fs inode) [unat (f_pos filp)..<unat (f_pos filp) + n]),
        (if IS_RDONLY fs then inode' else inode'\<lparr>i_atime := now, i_dirt := True\<rparr>,
         filp\<lparr>f_pos := f_pos filp + of_nat n, f_reada := True\<rparr>)), fs)"
proof -
  define bs where "bs = s_blocksize fs"
  define s where "s = unat (i_size inode)"
  define p0 where "p0 = unat (f_pos filp)"
  define n where "n = min (s - p0) (nat count)"
  define k where "k = p0 div bs"
  have ps: "p0 < s" using p by (simp add: p0_def s_def word_less_nat_alt)
  have n: "0 < n" "p0 + n \<le> s" using ps count by (auto simp: n_def)
  have lim: "s + bs \<le> 2 ^ 31" and wf: "blocks_wf fs" and ino: "i_ino inode \<noteq> INODE_DASD" and reg: "S_ISREG (i_mode inode)"
    and rd: "readable fs inode (Suc ((s - 1) div bs))" using ok by (simp_all add: file_ok_def s_def bs_def)
  have b0: "0 < bs" using wf by (auto simp: blocks_wf_def bs_def)
  have left: "bytes_left inode filp count = int n"
  proof -
    have "unat (i_size inode - f_pos filp) = s - p0" using p by (simp add: unat_sub s_def p0_def less_imp_le)
    then have "sint (i_size inode - f_pos filp) = int (s - p0)" using lim b0 by (simp add: sint_small)
    moreover have "\<not> f_pos filp > i_size inode" using p by (simp add: not_less less_imp_le)
    ultimately have "bytes_left inode filp count = (if int (s - p0) > count then count else int (s - p0))"
      by (simp add: bytes_left_def Let_def)
    then show ?thesis using count by (auto simp: n_def min_def)
  qed
  have p31: "p0 < 2 ^ 31" using ps lim by linarith
  have sp: "sint (f_pos filp) = int p0" unfolding p0_def by (rule sint_small [OF p31 [unfolded p0_def]])
  have blk: "sint (f_pos filp) div int bs = int k" unfolding sp k_def by (simp add: zdiv_int)
  have off: "unat (f_pos filp AND (of_nat bs - 1)) = p0 mod bs"
    using mask_blocksize [OF wf, of "f_pos filp"] lim by (simp add: bs_def p0_def)
  obtain B where B: "blocks_wanted fs inode filp n (p0 mod bs) (int k) = B - k" "k \<le> B" "B \<le> max_blocks fs" "p0 + n \<le> B * bs"
    using blocks_wanted_range [OF ok ps [unfolded p0_def s_def] n(1) n(2) [unfolded p0_def s_def], folded p0_def bs_def, folded k_def]
    by (elim exE conjE) (rule that)
  have e: "p0 + n \<le> Suc ((s - 1) div bs) * bs" using n(2) round_up(2) [OF b0, of s] ps by simp
  have q0: "queue_of fs inode k k = []" by (simp add: queue_of_def)
  have f0: "with_queue fs (b_count fs) [] = fs" by (simp add: with_queue_def holding_def with_refs_same)
  have a0: "at fs inode p0 (p0 + n) p0 = \<lparr>r_left = n, r_offset = p0 mod bs, r_pos = f_pos filp, r_out = []\<rparr>"
    by (simp add: at_def bs_def p0_def)
  obtain q i' where r: "hinted inode i'"
      "read_rounds io now (B - k) (int k) [] \<lparr>r_left = n, r_offset = p0 mod bs, r_pos = f_pos filp, r_out = []\<rparr> inode fs =
        Some (((q, stopped fs inode p0 (p0 + n) (p0 + n)), i'), with_queue fs (b_count fs) q)"
    using rounds_read [OF wf rd [unfolded bs_def] e [unfolded bs_def] ino B(3) B(4) [unfolded bs_def] order_refl _ k_def [unfolded bs_def] order_refl B(2) hinted_refl, of io now "b_count fs"] n(1)
    unfolding q0 f0 a0 by auto
  have rel: "brelse_queue q (with_queue fs (b_count fs) q) = fs" by (simp add: with_queue_release with_refs_same)
  define pr where "pr = stopped fs inode p0 (p0 + n) (p0 + n)"
  have pr: "r_pos pr = f_pos filp + of_nat n" "r_out pr = List.map (file_byte fs inode) [p0..<p0 + n]"
    by (simp_all add: pr_def stopped_def at_def p0_def)
  have ne: "r_out pr \<noteq> []" "length (r_out pr) = n" using n(1) by (simp_all add: pr(2))
  have pos: "\<not> int n \<le> 0" using n(1) by simp
  have "ext2_file_read io now inode filp count fs =
      Some (((int n, r_out pr), (if IS_RDONLY fs then i' else i'\<lparr>i_atime := now, i_dirt := True\<rparr>,
         filp\<lparr>f_pos := f_pos filp + of_nat n, f_reada := True\<rparr>)), fs)"
    unfolding ext2_file_read_def Let_def left if_not_P [OF pos] bs_def [symmetric] blk off nat_int B(1) r(2) bind.bind_lunit prod.case
      rel pr_def [symmetric] pr(1) if_not_P [OF ne(1)] ne(2)
    using reg by (simp only: not_not if_False) (simp split: if_splits)
  then show ?thesis
    using r(1) n(1) unfolding pr(2) by (intro exI [where x = n] exI [where x = i']) (simp add: n_def s_def p0_def)
qed

text \<open>C25. A read returns the bytes of the file from the position on, up to the count and the end of the
  file, with zeros in the holes: whichever blocks are in the cache when they are requested, whichever
  are still locked when the read gets to them, and however many are read ahead. The position moves by
  the bytes read, and every buffer that was requested is released again.\<close>

theorem file_read_returns:
  assumes ok: "file_ok fs inode" and p: "f_pos filp < i_size inode" and count: "0 < count"
  shows "\<exists>n inode'. n = min (unat (i_size inode) - unat (f_pos filp)) (nat count) \<and> 0 < n \<and> hinted inode inode' \<and>
    ext2_file_read io now inode filp count fs =
      Some (((int n, List.map (file_byte fs inode) [unat (f_pos filp)..<unat (f_pos filp) + n]),
        (if IS_RDONLY fs then inode' else inode'\<lparr>i_atime := now, i_dirt := True\<rparr>,
         filp\<lparr>f_pos := f_pos filp + of_nat n, f_reada := True\<rparr>)), fs)"
  by (rule file_read_bytes [OF assms])

end
