(* ===== verification/Ext2_Write_Props.thy ===== *)
theory Ext2_Write_Props
  imports Ext2_File_Props
begin

text \<open>
  Writing over blocks that a file already has: what \<open>ext2_file_write\<close> does to the bytes of a file whose
  direct blocks are allocated, and that a read gives back what was written.
\<close>

section \<open>The bytes of the direct blocks\<close>

definition direct_byte :: "ext2_fs \<Rightarrow> inode \<Rightarrow> nat \<Rightarrow> u8" where
  "direct_byte fs inode i = rd8 (the (b_data fs (i_data inode ! (i div s_blocksize fs)))) (i mod s_blocksize fs)"

text \<open>The first \<open>n\<close> blocks are direct, allocated, readable and all different.\<close>

definition direct_file :: "ext2_fs \<Rightarrow> inode \<Rightarrow> nat \<Rightarrow> bool" where
  "direct_file fs inode n \<longleftrightarrow> blocks_wf fs \<and> i_ino inode \<noteq> INODE_DASD \<and> n \<le> EXT2_NDIR_BLOCKS \<and> n \<le> length (i_data inode) \<and>
     distinct (take n (i_data inode)) \<and>
     (\<forall>k < n. i_data inode ! k \<noteq> 0 \<and> b_data fs (i_data inode ! k) \<noteq> None)"

lemma direct_block:
  assumes "direct_file fs inode n" and "k < n"
  shows "\<exists>bs. b_data fs (i_data inode ! k) = Some bs \<and> length bs = s_blocksize fs"
  using assms by (auto simp: direct_file_def blocks_wf_def)

lemma direct_distinct:
  assumes "direct_file fs inode n" and "j < n" and "k < n" and "i_data inode ! j = i_data inode ! k"
  shows "j = k"
  using assms nth_eq_iff_index_eq [of "take n (i_data inode)" j k] by (simp add: direct_file_def)

lemma direct_file_block:
  assumes "direct_file fs inode n" and "k < n"
  shows "file_block fs inode k = i_data inode ! k"
  using assms by (simp add: direct_file_def file_block_def EXT2_NDIR_BLOCKS_def Let_def)

lemma direct_file_byte:
  assumes "direct_file fs inode n" and "i < n * s_blocksize fs"
  shows "file_byte fs inode i = direct_byte fs inode i"
proof -
  have "i div s_blocksize fs < n" using assms(2) by (simp add: less_mult_imp_div_less)
  then show ?thesis
    using assms(1) direct_file_block [OF assms(1)] by (simp add: file_byte_def direct_byte_def Let_def direct_file_def)
qed

section \<open>What is written so far\<close>

definition written :: "ext2_fs \<Rightarrow> inode \<Rightarrow> nat \<Rightarrow> nat \<Rightarrow> u8 list \<Rightarrow> nat \<Rightarrow> ext2_fs \<Rightarrow> bool" where
  "written fs inode n p0 data p fs' \<longleftrightarrow> s_blocksize fs' = s_blocksize fs \<and> direct_file fs' inode n \<and>
     (\<forall>b. b \<notin> set (take n (i_data inode)) \<longrightarrow> b_data fs' b = b_data fs b) \<and>
     (\<forall>i < n * s_blocksize fs. direct_byte fs' inode i = (if p0 \<le> i \<and> i < p then data ! (i - p0) else direct_byte fs inode i))"

lemma direct_file_cong:
  "b_data fs2 = b_data fs1 \<Longrightarrow> s_blocksize fs2 = s_blocksize fs1 \<Longrightarrow> direct_file fs2 inode n = direct_file fs1 inode n"
  by (simp add: direct_file_def blocks_wf_def)

lemma written_cong:
  assumes "written fs inode n p0 data p fs1" and "b_data fs2 = b_data fs1" and "s_blocksize fs2 = s_blocksize fs1"
  shows "written fs inode n p0 data p fs2"
proof -
  have "direct_byte fs2 inode i = direct_byte fs1 inode i" for i by (simp add: direct_byte_def assms(2,3))
  then show ?thesis using assms direct_file_cong [OF assms(2,3), of inode n] by (simp add: written_def)
qed

lemma nth_overwrite:
  assumes "off + length d \<le> length bs" and "j < length bs"
  shows "(take off bs @ d @ drop (off + length d) bs) ! j = (if off \<le> j \<and> j < off + length d then d ! (j - off) else bs ! j)"
  using assms by (auto simp: nth_append min_def)

lemma written_step:
  assumes w: "written fs inode n p0 data p fs1" and bs: "bs = s_blocksize fs" and k: "k = p div bs" "k < n" and p: "p0 \<le> p"
    and c: "c = min (bs - p mod bs) (length data - (p - p0))" "p - p0 \<le> length data"
    and old: "b_data fs1 (i_data inode ! k) = Some old"
    and fs2: "b_data fs2 = (b_data fs1)(i_data inode ! k \<mapsto> overwrite (Some old) (p mod bs) (take c (drop (p - p0) data)))"
      "s_blocksize fs2 = s_blocksize fs1"
  shows "written fs inode n p0 data (p + c) fs2"
proof -
  define d where "d = take c (drop (p - p0) data)"
  define new where "new = overwrite (Some old) (p mod bs) d"
  have df: "direct_file fs1 inode n" and s1: "s_blocksize fs1 = bs" using w by (simp_all add: written_def bs)
  have b0: "0 < bs" using df by (auto simp: direct_file_def blocks_wf_def s1)
  have lo: "length old = bs" using direct_block [OF df k(2)] old by (simp add: s1)
  have ld: "length d = c" using c by (simp add: d_def)
  have mb: "p mod bs < bs" using b0 by simp
  have fit: "p mod bs + length d \<le> length old" using c(1) mb by (simp add: ld lo)
  have ln: "length new = bs" using fit lo by (simp add: new_def overwrite_def)
  have dt: "b_data fs2 = (b_data fs1)(i_data inode ! k \<mapsto> new)" using fs2(1) by (simp add: new_def d_def)
  have "direct_file fs2 inode n"
    using df ln fs2(2) s1 by (auto simp: direct_file_def dt blocks_wf_def)
  moreover have "b_data fs2 b = b_data fs b" if "b \<notin> set (take n (i_data inode))" for b
  proof -
    have "k < length (i_data inode)" using df k(2) by (simp add: direct_file_def)
    then have "i_data inode ! k \<in> set (take n (i_data inode))" using k(2) by (auto simp: in_set_conv_nth)
    then show ?thesis using w that by (auto simp: written_def dt)
  qed
  moreover have "direct_byte fs2 inode i = (if p0 \<le> i \<and> i < p + c then data ! (i - p0) else direct_byte fs inode i)"
    if i: "i < n * bs" for i
  proof (cases "i div bs = k")
    case False
    have j: "i div bs < n" using i by (simp add: less_mult_imp_div_less)
    have "i_data inode ! (i div bs) \<noteq> i_data inode ! k" using direct_distinct [OF df j k(2)] False by blast
    then have "direct_byte fs2 inode i = direct_byte fs1 inode i" by (simp add: direct_byte_def dt fs2(2) s1)
    moreover have "(p0 \<le> i \<and> i < p + c) = (p0 \<le> i \<and> i < p)"
    proof (cases "i < p")
      case False
      have "k < i div bs" using \<open>i div bs \<noteq> k\<close> div_le_mono [of p i bs] False by (simp add: k(1))
      then have "Suc k * bs \<le> i" using b0 by (metis Suc_leI less_eq_div_iff_mult_less_eq)
      moreover have "p + c \<le> Suc k * bs"
      proof -
        have "c \<le> bs - p mod bs" using c(1) by simp
        moreover have "Suc k * bs - p = bs - p mod bs" "p < Suc k * bs"
          using block_bounds(4) [OF b0, of p] block_bounds(2) [OF b0, of p] unfolding k(1) by blast+
        ultimately show ?thesis by linarith
      qed
      ultimately show ?thesis using False by simp
    qed simp
    ultimately show ?thesis using w i by (simp add: written_def bs)
  next
    case True
    have j: "i mod bs < length old" using b0 lo by simp
    have db: "direct_byte fs2 inode i = new ! (i mod bs)"
      using True ln j lo by (simp add: direct_byte_def dt fs2(2) s1 rd8_def)
    have d1: "direct_byte fs1 inode i = old ! (i mod bs)"
      using True j lo old by (simp add: direct_byte_def s1 rd8_def)
    have eqs: "i = k * bs + i mod bs" "p = k * bs + p mod bs" using True k(1) by (metis div_mult_mod_eq)+
    have nn: "new ! (i mod bs) = (if p mod bs \<le> i mod bs \<and> i mod bs < p mod bs + c then d ! (i mod bs - p mod bs) else old ! (i mod bs))"
      using nth_overwrite [OF fit j] by (simp add: new_def overwrite_def ld)
    have rng: "(p mod bs \<le> i mod bs \<and> i mod bs < p mod bs + c) = (p \<le> i \<and> i < p + c)" using eqs by linarith
    show ?thesis
    proof (cases "p \<le> i \<and> i < p + c")
      case True
      have ij: "i mod bs - p mod bs = i - p" using eqs by linarith
      have ic: "i - p < c" and ip: "p - p0 + (i - p) = i - p0" using True p by linarith+
      have "new ! (i mod bs) = d ! (i - p)" unfolding nn rng if_P [OF True] ij ..
      also have "\<dots> = drop (p - p0) data ! (i - p)" unfolding d_def by (rule nth_take [OF ic])
      also have "\<dots> = data ! (i - p0)" unfolding ip [symmetric] by (rule nth_drop [OF c(2)])
      finally have "direct_byte fs2 inode i = data ! (i - p0)" unfolding db .
      moreover have "p0 \<le> i \<and> i < p + c" using True p by linarith
      ultimately show ?thesis by (simp only: if_True simp_thms)
    next
      case False
      have "new ! (i mod bs) = old ! (i mod bs)" unfolding nn rng if_not_P [OF False] ..
      then have "direct_byte fs2 inode i = direct_byte fs1 inode i" using db d1 by simp
      moreover have "(p0 \<le> i \<and> i < p + c) = (p0 \<le> i \<and> i < p)" using False by auto
      ultimately show ?thesis using w i by (simp add: written_def bs)
    qed
  qed
  ultimately show ?thesis using w fs2(2) s1 by (simp add: written_def bs)
qed

section \<open>The loop\<close>

lemma getblk_direct:
  assumes "i_ino inode \<noteq> INODE_DASD" and "k < EXT2_NDIR_BLOCKS" and "i_data inode ! k \<noteq> 0"
  shows "\<exists>e i'. hinted inode i' \<and>
    ext2_getblk now inode (int k) create err fs = Some (((Some (i_data inode ! k), e), i'), snd (getblk (i_data inode ! k) fs))"
proof -
  define i' where "i' = (if (of_int (int k) :: u32) = e_next_alloc_block inode + 1
    then inode\<lparr>e_next_alloc_block := e_next_alloc_block inode + 1, e_next_alloc_goal := e_next_alloc_goal inode + 1\<rparr> else inode)"
  have h: "hinted inode i'"
    unfolding i'_def by (cases "(of_int (int k) :: u32) = e_next_alloc_block inode + 1") (simp_all add: hintedI hinted_refl)
  have d: "i_data i' ! k = i_data inode ! k" using h by (simp add: hinted_simps)
  have "inode_getblk now i' k create (int k) (- ENOSPC) fs = Some (((Some (i_data inode ! k), - ENOSPC), i'), snd (getblk (i_data inode ! k) fs))"
    using assms(3) d by (subst inode_getblk.simps) (simp add: getblk_def Let_def)
  moreover have "int k < int EXT2_NDIR_BLOCKS" using assms(2) by simp
  moreover have "\<not> int EXT2_NDIR_BLOCKS + int (EXT2_ADDR_PER_BLOCK fs) + int (EXT2_ADDR_PER_BLOCK fs) * int (EXT2_ADDR_PER_BLOCK fs)
      + int (EXT2_ADDR_PER_BLOCK fs) * int (EXT2_ADDR_PER_BLOCK fs) * int (EXT2_ADDR_PER_BLOCK fs) < int k"
    using assms(2) by (simp add: not_less flip: of_nat_add of_nat_mult)
  ultimately have "ext2_getblk now inode (int k) create err fs = Some (((Some (i_data inode ! k), - ENOSPC), i'), snd (getblk (i_data inode ! k) fs))"
    using assms(1) unfolding ext2_getblk_def Let_def i'_def [symmetric] by simp
  then show ?thesis using h by blast
qed

text \<open>The buffers that a synchronous write still holds have one more reference each.\<close>

definition holds :: "ext2_fs \<Rightarrow> ext2_fs \<Rightarrow> u32 list \<Rightarrow> bool" where
  "holds fs fs' bs \<longleftrightarrow> b_count fs' = (\<lambda>b. b_count fs b + count_list bs b)"

lemma fold_write_frame: "b_data (fold ll_rw_block_write bs fs) = b_data fs" "b_count (fold ll_rw_block_write bs fs) = b_count fs"
  "s_blocksize (fold ll_rw_block_write bs fs) = s_blocksize fs"
  by (induction bs arbitrary: fs) (simp_all add: ll_rw_block_write_def)

lemma brelse_frame: "b_data (brelse bo fs) = b_data fs" "s_blocksize (brelse bo fs) = s_blocksize fs"
  by (auto simp: brelse_def split: option.splits)

lemma fold_brelse_frame:
  "b_data (fold (\<lambda>b. brelse (Some b)) bs fs) = b_data fs" "s_blocksize (fold (\<lambda>b. brelse (Some b)) bs fs) = s_blocksize fs"
  by (induction bs arbitrary: fs) (simp_all add: brelse_frame)

lemma holds_release: "holds fs fs' bs \<Longrightarrow> holds fs (fold (\<lambda>b. brelse (Some b)) bs fs') []"
proof (induction bs arbitrary: fs')
  case (Cons b bs)
  have "holds fs (brelse (Some b) fs') bs" using Cons.prems by (auto simp: holds_def brelse_def fun_eq_iff)
  then show ?case using Cons.IH by simp
qed simp

lemma flush_held:
  assumes "holds fs fs1 (w_list w)" and "\<And>b. b \<in> set (w_list w) \<Longrightarrow> b_data fs1 b \<noteq> None"
  shows "\<exists>fs2. flush_list w fs1 = (w\<lparr>w_list := []\<rparr>, fs2) \<and> b_data fs2 = b_data fs1 \<and> s_blocksize fs2 = s_blocksize fs1 \<and> holds fs fs2 []"
proof -
  have "holds fs (fold ll_rw_block_write (w_list w) fs1) (w_list w)" using assms(1) by (simp add: holds_def fold_write_frame)
  note r = holds_release [OF this]
  have nf: "\<not> (\<exists>b \<in> set (w_list w). b_data fs1 b = None)" using assms(2) by blast
  have "flush_list w fs1 = (w\<lparr>w_list := []\<rparr>, fold (\<lambda>b. brelse (Some b)) (w_list w) (fold ll_rw_block_write (w_list w) fs1))"
    using nf by (cases w) (auto simp: flush_list_def Let_def fold_write_frame)
  then show ?thesis using r by (simp add: fold_brelse_frame fold_write_frame)
qed

lemma write_loop_direct:
  assumes bs: "bs = s_blocksize fs" and p0: "p0 + length data \<le> n * bs" "p0 + length data < 2 ^ 31"
    and "p0 \<le> p" "p \<le> p0 + length data" "written fs i0 n p0 data p fs1" "hinted i0 i"
    and "holds fs fs1 (w_list w)" "set (w_list w) \<subseteq> set (take n (i_data i0))" "length (w_list w) < NBUF"
    and "w_pos w = of_nat p" "w_written w = p - p0" "w_error w = None" "\<not> w_failed w" "\<not> sync \<longrightarrow> w_list w = []"
  shows "\<exists>w' i' fs2. write_loop now sync (drop (p - p0) data) w i fs1 = Some ((w', i'), fs2) \<and>
    written fs i0 n p0 data (p0 + length data) fs2 \<and> hinted i0 i' \<and>
    holds fs fs2 (w_list w') \<and> set (w_list w') \<subseteq> set (take n (i_data i0)) \<and>
    w_pos w' = of_nat (p0 + length data) \<and> w_written w' = length data \<and> w_error w' = None \<and> \<not> w_failed w'"
  using assms(4-)
proof (induction "p0 + length data - p" arbitrary: p fs1 i w rule: less_induct)
  case less
  note P = less.prems
  show ?case
  proof (cases "p = p0 + length data")
    case True
    then have "write_loop now sync (drop (p - p0) data) w i fs1 = Some ((w, i), fs1)" by (subst write_loop.simps) simp
    then show ?thesis using P True by (intro exI [where x = w] exI [where x = i] exI [where x = fs1]) simp
  next
    case False
    then have lt: "p < p0 + length data" using P(2) by simp
    have df: "direct_file fs1 i0 n" and s1: "s_blocksize fs1 = bs" using P(3) by (simp_all add: written_def bs)
    have b0: "0 < bs" using df by (auto simp: direct_file_def blocks_wf_def s1)
    define k where "k = p div bs"
    have kn: "k < n"
    proof -
      have "p < n * bs" using lt p0(1) by linarith
      then show ?thesis by (simp add: k_def less_mult_imp_div_less)
    qed
    define b where "b = i_data i0 ! k"
    obtain old where old: "b_data fs1 b = Some old" "length old = bs"
      using direct_block [OF df kn] by (auto simp: b_def s1)
    have bin: "b \<in> set (take n (i_data i0))"
    proof -
      have "k < length (i_data i0)" using df kn by (simp add: direct_file_def)
      then show ?thesis using kn by (auto simp: b_def in_set_conv_nth)
    qed
    have u: "unat (w_pos w) = p"
    proof -
      have "p < 2 ^ 32" using lt p0(2) by simp
      then show ?thesis using P(8) by (simp only: unat_of_nat) simp
    qed
    have sp: "\<not> sint (w_pos w) > two_gb" using lt p0(2) by (subst sint_small) (simp_all add: u two_gb_def)
    have ih: "i_data i = i_data i0" "i_ino i \<noteq> INODE_DASD" using P(4) df by (simp_all add: hinted_simps direct_file_def)
    have "k < EXT2_NDIR_BLOCKS" "i_data i ! k \<noteq> 0" using df kn by (simp_all add: direct_file_def ih)
    from getblk_direct [OF ih(2) this, of now True 0 fs1] obtain e i1 where
      g: "hinted i i1" "ext2_getblk now i (int k) True 0 fs1 = Some (((Some b, e), i1), snd (getblk b fs1))"
      unfolding ih b_def [symmetric] by (elim exE conjE) (rule that)
    define rest where "rest = drop (p - p0) data"
    define c where "c = min (bs - p mod bs) (length data - (p - p0))"
    have lr: "length rest = length data - (p - p0)" by (simp add: rest_def)
    have cc: "(if bs - p mod bs > length rest then length rest else bs - p mod bs) = c" by (simp add: c_def lr min_def)
    have mb: "p mod bs < bs" using b0 by simp
    have c0: "0 < c" using mb lt P(1) by (simp add: c_def)
    define fs2 where "fs2 = mark_buffer_dirty b ((snd (getblk b fs1))\<lparr>b_data := (b_data fs1)(b \<mapsto> overwrite (Some old) (p mod bs) (take c rest))\<rparr>)"
    have fs2: "b_data fs2 = (b_data fs1)(b \<mapsto> overwrite (Some old) (p mod bs) (take c rest))" "s_blocksize fs2 = s_blocksize fs1"
      "b_count fs2 = (b_count fs1)(b := Suc (b_count fs1 b))"
      by (simp_all add: fs2_def mark_buffer_dirty_def getblk_def)
    have wr: "written fs i0 n p0 data (p + c) fs2"
      by (rule written_step [OF P(3) bs k_def kn P(1) c_def _ old(1) [unfolded b_def] fs2(1,2) [unfolded b_def rest_def]]) (use lt in simp)
    define w1 where "w1 = w\<lparr>w_pos := w_pos w + of_nat c, w_written := w_written w + c\<rparr>"
    define w2 where "w2 = (if sync then w1\<lparr>w_list := w_list w1 @ [b]\<rparr> else w1)"
    define fs3 where "fs3 = (if sync then fs2 else brelse (Some b) fs2)"
    have h3: "holds fs fs3 (w_list w2)"
    proof (cases sync)
      case True
      then show ?thesis using P(5) by (auto simp: holds_def fs3_def w2_def w1_def fs2(3) fun_eq_iff)
    next
      case False
      then show ?thesis using P(5) by (auto simp: holds_def fs3_def w2_def w1_def fs2(3) brelse_def fun_eq_iff)
    qed
    have d3: "b_data fs3 = b_data fs2" "s_blocksize fs3 = s_blocksize fs2" by (simp_all add: fs3_def brelse_frame)
    have wr3: "written fs i0 n p0 data (p + c) fs3" by (rule written_cong [OF wr d3])
    have l2: "set (w_list w2) \<subseteq> set (take n (i_data i0))" "length (w_list w2) \<le> NBUF"
      using P(6,7) bin by (auto simp: w2_def w1_def)
    have w2f: "w_pos w2 = of_nat (p + c)" "w_written w2 = p + c - p0" "w_error w2 = None" "\<not> w_failed w2" "\<not> sync \<longrightarrow> w_list w2 = []"
      using P(1,8-12) by (simp_all add: w2_def w1_def)
    have some3: "b_data fs3 x \<noteq> None" if "x \<in> set (w_list w2)" for x
    proof -
      have "x \<in> set (take n (i_data i0))" using l2(1) that by blast
      then obtain j where "j < n" "x = i_data i0 ! j" by (auto simp: in_set_conv_nth)
      then show ?thesis using wr3 by (simp add: written_def direct_file_def)
    qed
    obtain fs4 where fl: "flush_list w2 fs3 = (w2\<lparr>w_list := []\<rparr>, fs4)" "b_data fs4 = b_data fs3" "s_blocksize fs4 = s_blocksize fs3" "holds fs fs4 []"
      using flush_held [OF h3 some3] by blast
    define w3 where "w3 = (if length (w_list w2) = NBUF then w2\<lparr>w_list := []\<rparr> else w2)"
    define fs5 where "fs5 = (if length (w_list w2) = NBUF then fs4 else fs3)"
    have step: "write_loop now sync rest w i fs1 = write_loop now sync (drop c rest) w3 i1 fs5"
    proof -
      have "p - p0 < length data" using lt P(1) by linarith
      then have ne: "rest \<noteq> []" by (simp add: rest_def)
      have gd: "b_data (snd (getblk b fs1)) = b_data fs1" by (simp add: getblk_def)
      have pair: "(if sync then (w1\<lparr>w_list := w_list w1 @ [b]\<rparr>, fs2) else (w1, brelse (Some b) fs2)) = (w2, fs3)" by (simp add: w2_def fs3_def)
      have fin: "(if length (w_list w2) = NBUF then flush_list w2 fs3 else (w2, fs3)) = (w3, fs5)" by (simp add: w3_def fs5_def fl(1))
      have nf: "\<not> w_failed w3" using w2f(4) by (simp add: w3_def)
      show ?thesis
        by (subst write_loop.simps)
          (simp only: if_not_P [OF ne] if_not_P [OF sp] Let_def u s1 k_def [symmetric] g(2) Option.bind.bind_lunit prod.case option.case
            cc gd old(1) option.distinct simp_thms if_False fs2_def [symmetric] w1_def [symmetric] pair fin nf)
    qed
    have wr5: "written fs i0 n p0 data (p + c) fs5" using wr3 written_cong [OF wr3 fl(2,3)] by (simp add: fs5_def)
    have h5: "holds fs fs5 (w_list w3)" using h3 fl(4) by (simp add: fs5_def w3_def)
    have l3: "set (w_list w3) \<subseteq> set (take n (i_data i0))" "length (w_list w3) < NBUF"
      using l2 by (auto simp: w3_def NBUF_def)
    have w3f: "w_pos w3 = of_nat (p + c)" "w_written w3 = p + c - p0" "w_error w3 = None" "\<not> w_failed w3" "\<not> sync \<longrightarrow> w_list w3 = []"
      using w2f by (simp_all add: w3_def)
    have dr: "drop c rest = drop (p + c - p0) data" using P(1) by (simp add: rest_def add.commute)
    have "p0 + length data - (p + c) < p0 + length data - p" "p0 \<le> p + c" "p + c \<le> p0 + length data"
      using c0 lt P(1) by (simp_all add: c_def)
    from less.hyps [OF this wr5 hinted_trans [OF P(4) g(1)] h5 l3 w3f] show ?thesis
      using step dr by (simp add: rest_def)
  qed
qed

section \<open>ext2_file_write\<close>

lemma direct_file_inode:
  "i_data i' = i_data i \<Longrightarrow> i_ino i' = i_ino i \<Longrightarrow> direct_file fs i' n = direct_file fs i n"
  by (simp add: direct_file_def)

lemma direct_byte_inode: "i_data i' = i_data i \<Longrightarrow> direct_byte fs i' k = direct_byte fs i k"
  by (simp add: direct_byte_def)

lemma written_inode:
  assumes "i_data i' = i_data i" and "i_ino i' = i_ino i"
  shows "written fs i' n p0 data p fs' = written fs i n p0 data p fs'"
  by (simp add: written_def direct_file_inode [OF assms] direct_byte_inode [OF assms(1)] assms(1))

lemma written_start:
  assumes "direct_file fs inode n"
  shows "written fs inode n p0 data p0 fs"
proof -
  have "\<not> (p0 \<le> i \<and> i < p0)" for i :: nat by simp
  then show ?thesis using assms by (simp only: written_def if_False simp_thms)
qed

text \<open>Where a write begins.\<close>

definition write_pos :: "inode \<Rightarrow> open_file \<Rightarrow> nat" where
  "write_pos inode filp = unat (if f_flags filp AND O_APPEND \<noteq> 0 then i_size inode else f_pos filp)"

lemma file_write_direct:
  assumes ro: "s_flags fs AND MS_RDONLY = 0" and reg: "S_ISREG (i_mode inode)" and df: "direct_file fs inode n"
    and p0: "p0 = write_pos inode filp" "p0 + length buf \<le> n * s_blocksize fs" "p0 + length buf < 2 ^ 31"
    and sz: "unat (i_size inode) < 2 ^ 31"
  shows "\<exists>inode' fs'. ext2_file_write now inode filp buf fs =
      Some ((int (length buf), (inode', filp\<lparr>f_pos := of_nat (p0 + length buf)\<rparr>)), fs') \<and>
    written fs inode n p0 buf (p0 + length buf) fs' \<and> b_count fs' = b_count fs \<and>
    (i_data inode' = i_data inode \<and> i_ino inode' = i_ino inode \<and> i_mode inode' = i_mode inode) \<and>
    i_size inode' = of_nat (max (unat (i_size inode)) (p0 + length buf)) \<and>
    (i_mtime inode' = now \<and> i_ctime inode' = now \<and> i_dirt inode')"
proof -
  define sync where "sync = (f_flags filp AND O_SYNC \<noteq> 0)"
  define i0 where "i0 = (if sync then inode\<lparr>e_osync := e_osync inode + 1\<rparr> else inode)"
  define w0 :: write_state where "w0 = \<lparr>w_pos = of_nat p0, w_written = 0, w_error = None, w_list = [], w_failed = False\<rparr>"
  have i0: "i_data i0 = i_data inode" "i_ino i0 = i_ino inode" "i_mode i0 = i_mode inode" "i_size i0 = i_size inode"
    by (simp_all add: i0_def)
  have pos: "(if f_flags filp AND O_APPEND \<noteq> 0 then i_size inode else f_pos filp) = of_nat p0"
    by (simp add: p0(1) write_pos_def)
  have st: "written fs i0 n p0 buf p0 fs" using written_start [OF df] by (simp add: written_inode [OF i0(1,2)])
  obtain w i fs1 where l:
    "write_loop now sync buf w0 i0 fs = Some ((w, i), fs1)"
    "written fs i0 n p0 buf (p0 + length buf) fs1" "hinted i0 i"
    "holds fs fs1 (w_list w)" "set (w_list w) \<subseteq> set (take n (i_data i0))"
    "w_pos w = of_nat (p0 + length buf)" "w_written w = length buf" "w_error w = None"
    using write_loop_direct [OF refl p0(2,3) order_refl _ st hinted_refl, where w = w0 and now = now and sync = sync]
    by (simp add: w0_def holds_def NBUF_def) blast
  have some: "b_data fs1 x \<noteq> None" if "x \<in> set (w_list w)" for x
  proof -
    have "x \<in> set (take n (i_data i0))" using l(5) that by blast
    then obtain j where "j < n" "x = i_data i0 ! j" by (auto simp: in_set_conv_nth)
    then show ?thesis using l(2) by (simp add: written_def direct_file_def)
  qed
  obtain fs2 where fl: "flush_list w fs1 = (w\<lparr>w_list := []\<rparr>, fs2)" "b_data fs2 = b_data fs1" "s_blocksize fs2 = s_blocksize fs1" "holds fs fs2 []"
    using flush_held [OF l(4) some] by blast
  define w2 where "w2 = (if w_list w \<noteq> [] then w\<lparr>w_list := []\<rparr> else w)"
  define fs3 where "fs3 = (if w_list w \<noteq> [] then fs2 else fs1)"
  have pair: "(if w_list w \<noteq> [] then flush_list w fs1 else (w, fs1)) = (w2, fs3)" by (simp add: w2_def fs3_def fl(1))
  have w2: "w_pos w2 = of_nat (p0 + length buf)" "w_written w2 = length buf" "w_error w2 = None"
    using l(6-8) by (simp_all add: w2_def)
  have wr: "written fs inode n p0 buf (p0 + length buf) fs3"
    using l(2) written_cong [OF l(2) fl(2,3)] unfolding written_inode [OF i0(1,2)] by (simp add: fs3_def)
  have "holds fs fs3 []" using l(4) fl(4) by (cases "w_list w") (simp_all add: fs3_def)
  then have cnt: "b_count fs3 = b_count fs" by (simp add: holds_def)
  define i1 where "i1 = (if sint (w_pos w2) > sint (i_size i) then i\<lparr>i_size := w_pos w2\<rparr> else i)"
  define i2 where "i2 = (if sync then i1\<lparr>e_osync := e_osync i1 - 1\<rparr> else i1)"
  define i3 where "i3 = i2\<lparr>i_mtime := now, i_ctime := now, i_dirt := True\<rparr>"
  have ns: "unat (w_pos w2) = p0 + length buf"
  proof -
    have "p0 + length buf < 2 ^ 32" using p0(3) by simp
    then show ?thesis unfolding w2(1) by (simp only: unat_of_nat take_bit_eq_mod) simp
  qed
  have cmp: "(sint (w_pos w2) > sint (i_size i)) = (p0 + length buf > unat (i_size inode))"
  proof -
    have "i_size i = i_size inode" using hinted_simps(2) [OF l(3)] by (simp add: i0)
    then have "sint (i_size i) = int (unat (i_size inode))" using sint_small [OF sz] by (simp only:)
    moreover have "sint (w_pos w2) = int (p0 + length buf)" using sint_small [of "w_pos w2"] p0(3) by (simp only: ns)
    ultimately show ?thesis by (simp only: of_nat_less_iff)
  qed
  have "i_size i1 = of_nat (max (unat (i_size inode)) (p0 + length buf))"
  proof (cases "p0 + length buf > unat (i_size inode)")
    case True
    then have "max (unat (i_size inode)) (p0 + length buf) = p0 + length buf" by simp
    moreover have "i_size i1 = w_pos w2" unfolding i1_def if_P [OF cmp [THEN iffD2, OF True]] by simp
    ultimately show ?thesis by (simp only: w2(1))
  next
    case False
    then have m: "max (unat (i_size inode)) (p0 + length buf) = unat (i_size inode)" by simp
    have "i_size i1 = i_size inode"
      using hinted_simps(2) [OF l(3)] unfolding i1_def cmp if_not_P [OF False] by (simp add: i0)
    then show ?thesis unfolding m by simp
  qed
  then have size: "i_size i3 = of_nat (max (unat (i_size inode)) (p0 + length buf))" by (simp add: i3_def i2_def)
  have same: "i_data i3 = i_data inode" "i_ino i3 = i_ino inode" "i_mode i3 = i_mode inode"
    using hinted_simps [OF l(3)] by (simp_all add: i3_def i2_def i1_def i0)
  have "ext2_file_write now inode filp buf fs = Some ((int (length buf), (i3, filp\<lparr>f_pos := of_nat (p0 + length buf)\<rparr>)), fs3)"
  proof -
    have nro: "\<not> s_flags fs AND MS_RDONLY \<noteq> 0" and nreg: "\<not> \<not> S_ISREG (i_mode inode)" using ro reg by simp_all
    show ?thesis
      unfolding ext2_file_write_def if_not_P [OF nro] if_not_P [OF nreg] Let_def pos sync_def [symmetric] i0_def [symmetric]
        w0_def [symmetric] l(1) Option.bind.bind_lunit prod.case pair i1_def [symmetric] i2_def [symmetric] i3_def [symmetric]
      unfolding w2 option.case ..
  qed
  moreover have "i_mtime i3 = now" "i_ctime i3 = now" "i_dirt i3" by (simp_all add: i3_def)
  ultimately show ?thesis using wr cnt same size by (intro exI [where x = i3] exI [where x = fs3] conjI)
qed

lemma written_bytes:
  assumes "written fs inode n p0 data p fs'" and "direct_file fs inode n" and "i_data i' = i_data inode" "i_ino i' = i_ino inode"
    and "i < n * s_blocksize fs"
  shows "file_byte fs' i' i = (if p0 \<le> i \<and> i < p then data ! (i - p0) else file_byte fs inode i)"
proof -
  have "direct_file fs' i' n" "s_blocksize fs' = s_blocksize fs"
    using assms(1) direct_file_inode [OF assms(3,4)] by (simp_all add: written_def)
  then have "file_byte fs' i' i = direct_byte fs' inode i"
    using direct_file_byte [of fs' i' n i] assms(5) direct_byte_inode [OF assms(3)] by simp
  then show ?thesis using assms(1,5) direct_file_byte [OF assms(2,5)] by (simp add: written_def)
qed

text \<open>A write over blocks that the file has puts the bytes of the buffer at the position of the file, or
  at its end when it is open for appending, and changes no other byte of the file and no other block of
  the disk. It returns the number of bytes, moves the position behind them, makes the file as long as
  that when it was shorter, and keeps no buffer, also when it is synchronous and the blocks are written in
  groups of \<open>NBUF\<close>.\<close>

theorem file_write_bytes:
  assumes "s_flags fs AND MS_RDONLY = 0" and "S_ISREG (i_mode inode)" and "direct_file fs inode n"
    and "write_pos inode filp + length buf \<le> n * s_blocksize fs" "write_pos inode filp + length buf < 2 ^ 31"
    and "unat (i_size inode) < 2 ^ 31"
  shows "\<exists>inode' fs'. ext2_file_write now inode filp buf fs =
      Some ((int (length buf), (inode', filp\<lparr>f_pos := of_nat (write_pos inode filp + length buf)\<rparr>)), fs') \<and>
    (\<forall>i < n * s_blocksize fs. file_byte fs' inode' i =
       (if write_pos inode filp \<le> i \<and> i < write_pos inode filp + length buf then buf ! (i - write_pos inode filp) else file_byte fs inode i)) \<and>
    (\<forall>b. b \<notin> set (take n (i_data inode)) \<longrightarrow> b_data fs' b = b_data fs b) \<and> b_count fs' = b_count fs \<and>
    i_data inode' = i_data inode \<and> i_size inode' = of_nat (max (unat (i_size inode)) (write_pos inode filp + length buf)) \<and>
    i_mtime inode' = now \<and> i_ctime inode' = now \<and> i_dirt inode'"
proof -
  from file_write_direct [OF assms(1-3) refl assms(4-6), of now] obtain inode' fs' where w:
    "ext2_file_write now inode filp buf fs =
      Some ((int (length buf), (inode', filp\<lparr>f_pos := of_nat (write_pos inode filp + length buf)\<rparr>)), fs')"
    "written fs inode n (write_pos inode filp) buf (write_pos inode filp + length buf) fs'" "b_count fs' = b_count fs"
    "i_data inode' = i_data inode" "i_ino inode' = i_ino inode" "i_mode inode' = i_mode inode"
    "i_size inode' = of_nat (max (unat (i_size inode)) (write_pos inode filp + length buf))"
    "i_mtime inode' = now" "i_ctime inode' = now" "i_dirt inode'"
    by (elim exE conjE) (rule that)
  have "\<forall>b. b \<notin> set (take n (i_data inode)) \<longrightarrow> b_data fs' b = b_data fs b" using w(2) by (simp add: written_def)
  with w written_bytes [OF w(2) assms(3) w(4,5)] show ?thesis
    by (intro exI [where x = inode'] exI [where x = fs'] conjI allI impI) blast+
qed

lemma written_file_ok:
  assumes w: "written fs inode n p0 buf p fs'" and i: "i_data i' = i_data inode" "i_ino i' = i_ino inode" "S_ISREG (i_mode i')"
    and s: "0 < unat (i_size i')" "unat (i_size i') \<le> n * s_blocksize fs" "n * s_blocksize fs + s_blocksize fs \<le> 2 ^ 31"
  shows "file_ok fs' i'"
proof -
  have df: "direct_file fs' i' n" and bs: "s_blocksize fs' = s_blocksize fs"
    using w direct_file_inode [OF i(1,2)] by (simp_all add: written_def)
  have wf: "blocks_wf fs'" and ino: "i_ino i' \<noteq> INODE_DASD" and n: "n \<le> EXT2_NDIR_BLOCKS" using df by (simp_all add: direct_file_def)
  have "n * s_blocksize fs \<le> max_blocks fs' * s_blocksize fs"
    by (rule mult_le_mono1) (use n in \<open>simp add: max_blocks_def Let_def EXT2_NDIR_BLOCKS_def\<close>)
  then have m: "unat (i_size i') \<le> max_blocks fs' * s_blocksize fs" using s(2) by linarith
  have "unat (i_size i') - 1 < n * s_blocksize fs" using s(1,2) by linarith
  then have kn: "(unat (i_size i') - 1) div s_blocksize fs < n" by (simp add: less_mult_imp_div_less)
  have rd: "readable fs' i' (Suc ((unat (i_size i') - 1) div s_blocksize fs))"
    unfolding readable_def
  proof (intro allI impI)
    fix k assume "k < Suc ((unat (i_size i') - 1) div s_blocksize fs)"
    then have "k < n" using kn by linarith
    then show "b_data fs' (file_block fs' i' k) \<noteq> None"
      using df direct_file_block [OF df \<open>k < n\<close>] by (simp add: direct_file_def)
  qed
  have "unat (i_size i') + s_blocksize fs \<le> 2 ^ 31" using s(2,3) by linarith
  with i(3) ino wf m rd show ?thesis by (simp only: file_ok_def bs simp_thms)
qed

text \<open>C24. Reading back what was written: a read of as many bytes from where the write began returns the
  buffer that was written, whatever is cached or locked meanwhile.\<close>

theorem write_then_read:
  assumes "s_flags fs AND MS_RDONLY = 0" and reg: "S_ISREG (i_mode inode)" and df: "direct_file fs inode n"
    and fit: "write_pos inode filp + length buf \<le> n * s_blocksize fs" and lim: "n * s_blocksize fs + s_blocksize fs \<le> 2 ^ 31"
    and sz: "unat (i_size inode) \<le> n * s_blocksize fs" and ne: "buf \<noteq> []"
    and rp: "f_pos filp' = of_nat (write_pos inode filp)"
  shows "\<exists>inode' fs' res. ext2_file_write now inode filp buf fs =
      Some ((int (length buf), (inode', filp\<lparr>f_pos := of_nat (write_pos inode filp + length buf)\<rparr>)), fs') \<and>
    ext2_file_read io now' inode' filp' (int (length buf)) fs' = Some (((int (length buf), buf), res), fs')"
proof -
  define p where "p = write_pos inode filp"
  have b0: "0 < s_blocksize fs" using df by (auto simp: direct_file_def blocks_wf_def)
  have l1: "p + length buf < 2 ^ 31" "unat (i_size inode) < 2 ^ 31" using fit lim sz b0 unfolding p_def by linarith+
  from file_write_direct [OF assms(1-3) refl fit l1(1) [unfolded p_def] l1(2), of now] obtain inode' fs' where w:
    "ext2_file_write now inode filp buf fs = Some ((int (length buf), (inode', filp\<lparr>f_pos := of_nat (p + length buf)\<rparr>)), fs')"
    "written fs inode n p buf (p + length buf) fs'"
    "i_data inode' = i_data inode" "i_ino inode' = i_ino inode" "i_mode inode' = i_mode inode"
    "i_size inode' = of_nat (max (unat (i_size inode)) (p + length buf))"
    unfolding p_def [symmetric] by (elim exE conjE) (rule that)
  define s where "s = max (unat (i_size inode)) (p + length buf)"
  have s: "unat (i_size inode') = s"
  proof -
    have "s < 2 ^ 32" using l1 by (simp add: s_def)
    then show ?thesis unfolding w(6) s_def [symmetric] by (simp only: unat_of_nat take_bit_eq_mod) simp
  qed
  have up: "unat (f_pos filp') = p" by (simp add: rp p_def write_pos_def)
  have lb: "0 < length buf" using ne by simp
  have sb: "p + length buf \<le> s" "s \<le> n * s_blocksize fs" using fit sz by (simp_all add: s_def p_def)
  have s0: "0 < s" using sb(1) lb by linarith
  have ok: "file_ok fs' inode'"
    by (rule written_file_ok [OF w(2,3,4) _ _ _ lim]) (use reg w(5) s sb s0 in simp_all)
  have lt: "f_pos filp' < inode.i_size inode'" using sb(1) lb unfolding word_less_nat_alt up s by linarith
  have ln: "min (unat (i_size inode') - unat (f_pos filp')) (nat (int (length buf))) = length buf"
    using sb(1) by (simp add: s up)
  have out: "List.map (file_byte fs' inode') [p..<p + length buf] = buf"
  proof (rule nth_equalityI)
    fix j assume "j < length (List.map (file_byte fs' inode') [p..<p + length buf])"
    then have j: "j < length buf" by simp
    then have "p + j < n * s_blocksize fs" using sb by linarith
    then show "List.map (file_byte fs' inode') [p..<p + length buf] ! j = buf ! j"
      using j written_bytes [OF w(2) df w(3,4)] by simp
  qed simp
  have c0: "0 < int (length buf)" using lb by simp
  from file_read_bytes [OF ok lt c0, of io now'] obtain k inode'' where k: "k = length buf" and
    r: "ext2_file_read io now' inode' filp' (int (length buf)) fs' =
      Some (((int k, List.map (file_byte fs' inode') [unat (f_pos filp')..<unat (f_pos filp') + k]),
        (if IS_RDONLY fs' then inode'' else inode''\<lparr>i_atime := now', i_dirt := True\<rparr>,
         filp'\<lparr>f_pos := f_pos filp' + of_nat k, f_reada := True\<rparr>)), fs')"
    unfolding ln by (elim exE conjE) (rule that)
  note r = r [unfolded k up out]
  with w(1) r show ?thesis unfolding p_def [symmetric] by (intro exI conjI)
qed

section \<open>Examples\<close>

definition example_file :: inode where
  "example_file = example_inode\<lparr>i_size := 300\<rparr>"

definition example_open :: open_file where
  "example_open = \<lparr>f_pos = 126, f_reada = False, f_version = 0, f_flags = O_SYNC\<rparr>"

text \<open>Nothing is in the cache, and every buffer is still locked.\<close>

definition example_io :: io where
  "example_io = \<lparr>ready = (\<lambda>_. False), locked = (\<lambda>_. True)\<rparr>"

lemma example_file_wf: "blocks_wf example_fs"
proof -
  have "length bs = 128" if "b_data example_fs b = Some bs" for b bs
    using that by (auto simp: example_fs_def example_data_def split: if_splits)
  moreover have "s_blocksize example_fs = 4 * 2 ^ 5" by (simp add: example_fs_def)
  ultimately show ?thesis unfolding blocks_wf_def by fastforce
qed

lemma example_file_direct: "direct_file example_fs example_file 3"
proof -
  have "i_data example_file ! k \<noteq> 0 \<and> b_data example_fs (i_data example_file ! k) \<noteq> None" if "k < 3" for k
  proof -
    have "k = 0 \<or> k = 1 \<or> k = 2" using that by linarith
    then show ?thesis by (elim disjE) (simp_all add: example_file_def example_inode_def example_fs_def example_data_def)
  qed
  then show ?thesis
    using example_file_wf
    by (simp add: direct_file_def example_file_def example_inode_def INODE_DASD_def EXT2_NDIR_BLOCKS_def numeral_3_eq_3)
qed

lemma example_write:
  "s_flags example_fs AND MS_RDONLY = 0" "S_ISREG (i_mode example_file)" "write_pos example_file example_open = 126"
  "s_blocksize example_fs = 128" "unat (i_size example_file) = 300" "f_pos example_open = 126"
  by (simp_all add: example_fs_def MS_RDONLY_def S_ISREG_def example_file_def example_inode_def write_pos_def example_open_def
      O_SYNC_def O_APPEND_def)

theorem file_read_returns_witness:
  "\<exists>bytes res. ext2_file_read example_io 9 example_file example_open 1000 example_fs = Some (((174, bytes), res), example_fs) \<and>
     length bytes = 174"
proof -
  have ok: "file_ok example_fs example_file"
    by (rule written_file_ok [OF written_start [OF example_file_direct, of 0 "[]"] refl refl]) (simp_all add: example_write)
  have lt: "f_pos example_open < i_size example_file" by (simp add: word_less_nat_alt example_write)
  show ?thesis using file_read_returns [OF ok lt, of 1000 example_io 9] by (auto simp: example_write)
qed

theorem file_write_bytes_witness:
  "\<exists>inode' fs' res. ext2_file_write 9 example_file example_open [1, 2, 3, 4] example_fs = Some ((4, res), fs') \<and>
     file_byte fs' inode' 127 = 2 \<and> file_byte fs' inode' 128 = 3 \<and> i_size inode' = 300 \<and> b_count fs' = b_count example_fs"
proof -
  from file_write_bytes [OF example_write(1,2) example_file_direct, of example_open "[1, 2, 3, 4]" 9] obtain inode' fs' where w:
    "ext2_file_write 9 example_file example_open [1, 2, 3, 4] example_fs = Some ((4, (inode', example_open\<lparr>f_pos := 130\<rparr>)), fs')"
    "\<forall>i < 384. file_byte fs' inode' i = (if 126 \<le> i \<and> i < 130 then [1, 2, 3, 4] ! (i - 126) else file_byte example_fs example_file i)"
    "i_size inode' = 300" "b_count fs' = b_count example_fs"
    by (auto simp: example_write)
  have "file_byte fs' inode' 127 = 2" "file_byte fs' inode' 128 = 3" using w(2) by simp_all
  with w(1,3,4) show ?thesis by (intro exI conjI)
qed

theorem write_then_read_witness:
  "\<exists>inode' fs' res res'. ext2_file_write 9 example_file example_open [1, 2, 3, 4] example_fs = Some ((4, (inode', res)), fs') \<and>
     ext2_file_read example_io 10 inode' example_open 4 fs' = Some (((4, [1, 2, 3, 4]), res'), fs')"
proof -
  from write_then_read [OF example_write(1,2) example_file_direct, of example_open "[1, 2, 3, 4]" example_open 9 example_io 10]
  show ?thesis by (auto simp: example_write)
qed

end
