(* ===== verification/Ext2_Filetab.thy ===== *)
theory Ext2_Filetab
  imports Ext2_Namei Ext2_File
begin

text \<open>
  The table of open files, \<open>src/vfs/file_table.c\<close>, and its use by \<open>_open_by_inode\<close> and \<open>vfs_close\<close> of
  \<open>src/misc/files.c\<close>.

  Every \<open>struct file\<close> is on one of four rings: free, used, used by a device that is gone, or used by the
  swapper. A pointer to a file is null, a number, or the \<open>token\<close> that \<open>invalidate_files\<close> and
  \<open>release_files\<close> keep on their stack. The driver is compiled with \<open>FS_FILE_SANITY_CHECKS\<close>: a panic is
  \<open>None\<close>, as is reading through a null pointer. \<open>file_pages\<close> are the pages that \<open>DevHlp32_VMAlloc\<close> will
  still return, each given by the number of its first file, and \<open>files_per_page\<close> is
  \<open>4096 / sizeof (struct file)\<close>. The operations run with interrupts disabled, so one at a time. There is
  one mounted file system, which is the \<open>sb\<close> of the arguments; \<open>f_op\<close> is given by the inode operations
  whose \<open>default_file_ops\<close> it is.
\<close>

datatype fptr = FNull | File nat | Token
datatype flist = Free_files | Used_files | Dead_files | Page_files

record filetab =
  f_vfs :: vfs
  f_open :: "fptr \<Rightarrow> open_file"
  f_mode :: "fptr \<Rightarrow> u16"
  f_count :: "fptr \<Rightarrow> u16"
  f_inode :: "fptr \<Rightarrow> iptr"
  f_op :: "fptr \<Rightarrow> inode_ops"
  f_magic :: "fptr \<Rightarrow> bool"
  f_list :: "fptr \<Rightarrow> flist option"
  f_next :: "fptr \<Rightarrow> fptr"
  f_prev :: "fptr \<Rightarrow> fptr"
  list_head :: "flist \<Rightarrow> fptr"
  list_count :: "flist \<Rightarrow> int"
  nr_files :: int
  file_pages :: "nat list"
  files_per_page :: nat

subsection \<open>The rings\<close>

definition remove_from_list :: "fptr \<Rightarrow> flist \<Rightarrow> filetab \<Rightarrow> filetab option" where
  "remove_from_list f l st =
     (if f = FNull \<or> \<not> f_magic st f then None
      else if list_head st l = FNull \<or> list_count st l = 0 then None
      else if f_prev st f = FNull \<or> f_next st f = FNull then None
      else if f_list st f \<noteq> Some l then None
      else
        let st = st\<lparr>f_next := (f_next st)(f_prev st f := f_next st f)\<rparr>;
            st = st\<lparr>f_prev := (f_prev st)(f_next st f := f_prev st f)\<rparr>;
            st = (if list_head st l = f then st\<lparr>list_head := (list_head st)(l := f_next st f)\<rparr> else st);
            st = (if list_head st l = f then st\<lparr>list_head := (list_head st)(l := FNull)\<rparr> else st)
        in Some (st\<lparr>f_next := (f_next st)(f := FNull), f_prev := (f_prev st)(f := FNull),
             f_list := (f_list st)(f := None), list_count := (list_count st)(l := list_count st l - 1)\<rparr>))"

definition put_last_in_list :: "fptr \<Rightarrow> flist \<Rightarrow> filetab \<Rightarrow> filetab option" where
  "put_last_in_list f l st =
     (if f = FNull \<or> \<not> f_magic st f then None
      else if f_prev st f \<noteq> FNull \<or> f_next st f \<noteq> FNull then None
      else if f_list st f \<noteq> None then None
      else
        let st = (if list_head st l = FNull
                  then st\<lparr>list_head := (list_head st)(l := f), f_prev := (f_prev st)(f := f)\<rparr> else st);
            st = st\<lparr>f_next := (f_next st)(f := list_head st l)\<rparr>;
            st = st\<lparr>f_prev := (f_prev st)(f := f_prev st (list_head st l))\<rparr> in
        if f_prev st (list_head st l) = FNull then None
        else
          let st = st\<lparr>f_next := (f_next st)(f_prev st (list_head st l) := f)\<rparr>;
              st = st\<lparr>f_prev := (f_prev st)(list_head st l := f)\<rparr>
          in Some (st\<lparr>f_list := (f_list st)(f := Some l), list_count := (list_count st)(l := list_count st l + 1)\<rparr>))"

definition zero_open :: open_file where
  "zero_open = \<lparr>f_pos = 0, f_reada = False, f_version = 0, f_flags = 0\<rparr>"

text \<open>\<open>memset (f, 0, sizeof (struct file)); f->f_magic = FILE_MAGIC\<close>\<close>

definition clear_file :: "fptr \<Rightarrow> filetab \<Rightarrow> filetab" where
  "clear_file f st = st\<lparr>f_open := (f_open st)(f := zero_open), f_mode := (f_mode st)(f := 0), f_count := (f_count st)(f := 0),
     f_inode := (f_inode st)(f := INull), f_op := (f_op st)(f := No_ops), f_magic := (f_magic st)(f := True),
     f_list := (f_list st)(f := None), f_next := (f_next st)(f := FNull), f_prev := (f_prev st)(f := FNull)\<rparr>"

subsection \<open>put_filp and get_empty_filp\<close>

definition put_filp :: "fptr \<Rightarrow> filetab \<Rightarrow> filetab option" where
  "put_filp f st = do {
     st \<leftarrow> (if f_list st f = Some Used_files then remove_from_list f Used_files st
            else if f_list st f = Some Dead_files then remove_from_list f Dead_files st
            else if f_list st f = Some Page_files then remove_from_list f Page_files st
            else None);
     put_last_in_list f Free_files (clear_file f st)
   }"

text \<open>The loop of \<open>grow_files\<close> over the files left on the page.\<close>

fun put_new :: "fptr list \<Rightarrow> filetab \<Rightarrow> filetab option" where
  "put_new [] st = Some st"
| "put_new (f # fs) st = do { st \<leftarrow> put_last_in_list f Free_files (clear_file f st); put_new fs st }"

definition first_file :: "fptr \<Rightarrow> filetab \<Rightarrow> filetab" where
  "first_file f st =
     (let st = clear_file f st
      in st\<lparr>f_next := (f_next st)(f := f), f_prev := (f_prev st)(f := f), f_list := (f_list st)(f := Some Free_files),
           list_head := (list_head st)(Free_files := f), list_count := (list_count st)(Free_files := list_count st Free_files + 1)\<rparr>)"

definition grow_files :: "filetab \<Rightarrow> (bool \<times> filetab) option" where
  "grow_files st = (case file_pages st of
     [] \<Rightarrow> Some (False, st)
   | page # pages \<Rightarrow>
       let i = files_per_page st;
           fs = List.map File [page..<page + i];
           st = st\<lparr>file_pages := pages, nr_files := nr_files st + int i\<rparr>
       in if list_head st Free_files = FNull
          then map_option (\<lambda>st. (True, st)) (put_new (tl fs) (first_file (hd fs) st))
          else map_option (\<lambda>st. (True, st)) (put_new fs st))"

definition use_file :: "fptr \<Rightarrow> filetab \<Rightarrow> filetab option" where
  "use_file f st = do {
     st \<leftarrow> remove_from_list f Free_files st;
     let st = clear_file f st;
     let ev = event (f_vfs st) + 1;
     let st = st\<lparr>f_vfs := (f_vfs st)\<lparr>event := ev\<rparr>, f_count := (f_count st)(f := 1),
                f_open := (f_open st)(f := zero_open\<lparr>f_version := ev\<rparr>)\<rparr>;
     put_last_in_list f Used_files st
   }"

partial_function (option) get_empty_filp :: "filetab \<Rightarrow> (fptr \<times> filetab) option" where
  "get_empty_filp st =
     (let f = list_head st Free_files in
      if f \<noteq> FNull then map_option (\<lambda>st. (f, st)) (use_file f st)
      else Option.bind (grow_files st) (\<lambda>(grown, st).
        if grown then get_empty_filp st else Some (FNull, st)))"

declare get_empty_filp.simps [code]

definition set_swapper_filp :: "fptr \<Rightarrow> filetab \<Rightarrow> filetab option" where
  "set_swapper_filp f st = do { st \<leftarrow> remove_from_list f Used_files st; put_last_in_list f Page_files st }"

subsection \<open>invalidate_files and release_files\<close>

text \<open>One file of the device in \<open>invalidate_files\<close>.\<close>

definition kill_file :: "env \<Rightarrow> bool \<Rightarrow> fptr \<Rightarrow> filetab \<Rightarrow> filetab option" where
  "kill_file env iput_allowed f st = do {
     st \<leftarrow> (if iput_allowed then map_option (\<lambda>v. st\<lparr>f_vfs := v\<rparr>) (iput env (f_inode st f) (f_vfs st)) else Some st);
     st \<leftarrow> remove_from_list f Used_files st;
     put_last_in_list f Dead_files (clear_file f st)
   }"

definition turn_list :: "fptr \<Rightarrow> flist \<Rightarrow> filetab \<Rightarrow> filetab option" where
  "turn_list f l st = do { st \<leftarrow> remove_from_list f l st; put_last_in_list f l st }"

text \<open>One file of the device in \<open>release_files\<close>; only the operations of regular files have \<open>release\<close>.\<close>

definition release_file :: "fptr \<Rightarrow> filetab \<Rightarrow> filetab option" where
  "release_file f st =
     (if f_op st f = File_ops
      then map_option (\<lambda>v. st\<lparr>f_vfs := v\<rparr>) (do_fs ext2_release_file (f_inode st f) (f_vfs st))
      else Some st)"

text \<open>The inner loops, which turn the ring until the token is its head, and count the files of the device.\<close>

partial_function (option) invalidate_pass :: "env \<Rightarrow> bool \<Rightarrow> nat \<Rightarrow> filetab \<Rightarrow> (nat \<times> filetab) option" where
  "invalidate_pass env iput_allowed found st =
     (let f = list_head st Used_files in
      if f = FNull \<or> f = Token then Some (found, st)
      else if f_inode st f = INull then None
      else if i_sb (f_vfs st) (f_inode st f)
      then Option.bind (kill_file env iput_allowed f st) (\<lambda>st. invalidate_pass env iput_allowed (Suc found) st)
      else Option.bind (turn_list f Used_files st) (\<lambda>st. invalidate_pass env iput_allowed found st))"

declare invalidate_pass.simps [code]

partial_function (option) release_pass :: "flist \<Rightarrow> nat \<Rightarrow> filetab \<Rightarrow> (nat \<times> filetab) option" where
  "release_pass l found st =
     (let f = list_head st l in
      if f = FNull \<or> f = Token then Some (found, st)
      else if f_inode st f = INull then None
      else Option.bind (if i_sb (f_vfs st) (f_inode st f) then map_option (\<lambda>st. (Suc found, st)) (release_file f st)
                        else Some (found, st))
        (\<lambda>(found, st). Option.bind (turn_list f l st) (\<lambda>st. release_pass l found st)))"

declare release_pass.simps [code]

text \<open>The outer loops run until a pass has found nothing.\<close>

partial_function (option) invalidate_passes :: "env \<Rightarrow> bool \<Rightarrow> filetab \<Rightarrow> filetab option" where
  "invalidate_passes env iput_allowed st =
     Option.bind (invalidate_pass env iput_allowed 0 st) (\<lambda>(found, st).
       if found \<noteq> 0 then invalidate_passes env iput_allowed st else Some st)"

declare invalidate_passes.simps [code]

partial_function (option) release_passes :: "flist \<Rightarrow> filetab \<Rightarrow> filetab option" where
  "release_passes l st =
     Option.bind (release_pass l 0 st) (\<lambda>(found, st).
       if found \<noteq> 0 then release_passes l st else Some st)"

declare release_passes.simps [code]

definition invalidate_files :: "env \<Rightarrow> bool \<Rightarrow> filetab \<Rightarrow> filetab option" where
  "invalidate_files env iput_allowed st = do {
     st \<leftarrow> put_last_in_list Token Used_files (clear_file Token st);
     st \<leftarrow> invalidate_passes env iput_allowed st;
     remove_from_list Token Used_files st
   }"

definition release_files :: "filetab \<Rightarrow> filetab option" where
  "release_files st = do {
     st \<leftarrow> put_last_in_list Token Used_files (clear_file Token st);
     st \<leftarrow> release_passes Used_files st;
     st \<leftarrow> remove_from_list Token Used_files st;
     st \<leftarrow> put_last_in_list Token Page_files st;
     release_passes Page_files st
   }"

subsection \<open>_open_by_inode and vfs_close\<close>

text \<open>\<open>root\<close> is \<open>s_mounted\<close>.\<close>

definition open_by_inode :: "env \<Rightarrow> iptr \<Rightarrow> u32 \<Rightarrow> u16 \<Rightarrow> filetab \<Rightarrow> (fptr \<times> filetab) option" where
  "open_by_inode env root ino_no openmode st = do {
     (f, st) \<leftarrow> get_empty_filp st;
     if f = FNull then Some (FNull, st)
     else do {
       (p, v) \<leftarrow> (if ino_no = i_ino (v_inode (f_vfs st) root)
                  then Some (root, upd_inode root (\<lambda>i. i\<lparr>i_count := i_count i + 1\<rparr>) (f_vfs st))
                  else iget env ino_no (f_vfs st));
       let st = st\<lparr>f_vfs := v, f_inode := (f_inode st)(f := p)\<rparr>;
       if p = INull then do { st \<leftarrow> put_filp f st; Some (FNull, st) }
       else
         let st = st\<lparr>f_open := (f_open st)(f := (f_open st f)\<lparr>f_pos := 0\<rparr>), f_mode := (f_mode st)(f := openmode)\<rparr>;
             ops = i_op (v_inode (f_vfs st) p);
             st = (if ops \<noteq> No_ops then st\<lparr>f_op := (f_op st)(f := ops)\<rparr> else st)
         in Some (f, st)
     }
   }"

definition vfs_close :: "env \<Rightarrow> fptr \<Rightarrow> filetab \<Rightarrow> filetab option" where
  "vfs_close env f st = do {
     st \<leftarrow> (if f_inode st f \<noteq> INull
            then map_option (\<lambda>v. st\<lparr>f_vfs := v\<rparr>) (iput env (f_inode st f) (f_vfs st)) else Some st);
     put_filp f st
   }"

end
