(* ===== verification/Ext2_Filetab_Props.thy ===== *)
theory Ext2_Filetab_Props
  imports Ext2_Filetab Ext2_Ring
begin

text \<open>
  The table of open files against its four lists: the interface of the lists, its instance on the rings of
  the code, and on it what the operations of the table do.
\<close>

section \<open>The interface of the lists\<close>

text \<open>\<open>lists s Q\<close>: in the state \<open>s\<close>, the list \<open>l\<close> is \<open>Q l\<close>. \<open>loose x s\<close>: \<open>x\<close> is on no list, and may be put on one.
  \<open>same\<close> relates states that differ in the links only.\<close>

locale file_lists =
  fixes rem :: "'f \<Rightarrow> 'l \<Rightarrow> 's \<Rightarrow> 's option" and put :: "'f \<Rightarrow> 'l \<Rightarrow> 's \<Rightarrow> 's option"
    and lists :: "'s \<Rightarrow> ('l \<Rightarrow> 'f list) \<Rightarrow> bool" and loose :: "'f \<Rightarrow> 's \<Rightarrow> bool" and same :: "'s \<Rightarrow> 's \<Rightarrow> bool"
  assumes rem: "lists s Q \<Longrightarrow> x \<in> set (Q l) \<Longrightarrow>
      \<exists>s'. rem x l s = Some s' \<and> lists s' (Q(l := remove1 x (Q l))) \<and> loose x s' \<and> same s s'"
    and put: "lists s Q \<Longrightarrow> loose x s \<Longrightarrow> \<exists>s'. put x l s = Some s' \<and> lists s' (Q(l := Q l @ [x])) \<and> same s s'"
    and same_trans: "same s s' \<Longrightarrow> same s' s'' \<Longrightarrow> same s s''"
begin

lemma move:
  assumes "lists s Q" and "x \<in> set (Q l)"
  shows "\<exists>s'. Option.bind (rem x l s) (put x m) = Some s' \<and>
    lists s' ((Q(l := remove1 x (Q l)))(m := (Q(l := remove1 x (Q l))) m @ [x])) \<and> same s s'"
proof -
  from rem [OF assms] obtain s1 where r: "rem x l s = Some s1" "lists s1 (Q(l := remove1 x (Q l)))" "loose x s1" "same s s1"
    by (elim exE conjE) (rule that)
  from put [OF r(2,3), of m] obtain s2 where p: "put x m s1 = Some s2"
    "lists s2 ((Q(l := remove1 x (Q l)))(m := (Q(l := remove1 x (Q l))) m @ [x]))" "same s1 s2"
    by (elim exE conjE) (rule that)
  show ?thesis using r(1) p same_trans [OF r(4) p(3)] by (intro exI [where x = s2]) simp
qed

lemma turn:
  assumes "lists s Q" and "Q l = x # xs"
  shows "\<exists>s'. Option.bind (rem x l s) (put x l) = Some s' \<and> lists s' (Q(l := xs @ [x])) \<and> same s s'"
  using move [OF assms(1), of x l l] assms(2) by simp

end

section \<open>The rings of the code\<close>

lemma ring_remove:
  assumes r: "ring n p xs" and x: "x \<in> set xs" and ne: "remove1 x xs \<noteq> []"
  shows "ring (n(p x := n x)) (p(n x := p x)) (remove1 x xs)" and "(if hd xs = x then n x else hd xs) = hd (remove1 x xs)"
proof -
  have d: "distinct xs" using r by (simp add: ring_def)
  obtain us vs where xs: "xs = us @ x # vs" using x by (meson split_list)
  have "x \<notin> set us" using d xs by simp
  then have rem: "remove1 x xs = us @ vs" using xs by (simp add: remove1_append)
  show "ring (n(p x := n x)) (p(n x := p x)) (remove1 x xs)"
  proof (cases us)
    case Nil
    then obtain v ws where vs: "vs = v # ws" using ne rem by (cases vs) simp_all
    have "ring n p (v # ws @ x # [])" using r ring_turn [of n p "[x]" v ws] by (simp add: xs Nil vs)
    from ring_unlink [OF this] show ?thesis using rem Nil vs by simp
  next
    case (Cons u ws)
    have "ring n p (u # ws @ x # vs)" using r xs Cons by simp
    from ring_unlink [OF this] show ?thesis using rem Cons by simp
  qed
  show "(if hd xs = x then n x else hd xs) = hd (remove1 x xs)"
  proof (cases us)
    case Nil
    then obtain v ws where vs: "vs = v # ws" using ne rem by (cases vs) simp_all
    have "n x = v" using r ring_next [of n p x v ws] by (simp add: xs Nil vs)
    then show ?thesis using rem Nil vs xs by simp
  next
    case (Cons u ws)
    then show ?thesis using rem xs \<open>x \<notin> set us\<close> by auto
  qed
qed

definition queue :: "filetab \<Rightarrow> flist \<Rightarrow> fptr list \<Rightarrow> bool" where
  "queue st l xs \<longleftrightarrow> list_head st l = (if xs = [] then FNull else hd xs) \<and> list_count st l = int (length xs) \<and>
     (xs \<noteq> [] \<longrightarrow> ring (f_next st) (f_prev st) xs)"

definition queues :: "filetab \<Rightarrow> (flist \<Rightarrow> fptr list) \<Rightarrow> bool" where
  "queues st Q \<longleftrightarrow> (\<forall>l. queue st l (Q l)) \<and> (\<forall>x l. f_list st x = Some l \<longleftrightarrow> x \<in> set (Q l)) \<and>
     (\<forall>x l. x \<in> set (Q l) \<longrightarrow> x \<noteq> FNull \<and> f_magic st x)"

definition loose :: "fptr \<Rightarrow> filetab \<Rightarrow> bool" where
  "loose x st \<longleftrightarrow> x \<noteq> FNull \<and> f_magic st x \<and> f_list st x = None \<and> f_next st x = FNull \<and> f_prev st x = FNull"

definition same_files :: "filetab \<Rightarrow> filetab \<Rightarrow> bool" where
  "same_files st st' \<longleftrightarrow> (\<exists>n p fl h c. st' = st\<lparr>f_next := n, f_prev := p, f_list := fl, list_head := h, list_count := c\<rparr>)"

lemma same_files_refl: "same_files st st"
  unfolding same_files_def by (intro exI [where x = "f_next st"] exI [where x = "f_prev st"] exI [where x = "f_list st"]
      exI [where x = "list_head st"] exI [where x = "list_count st"]) simp

lemma same_filesI: "same_files st (st\<lparr>f_next := n, f_prev := p, f_list := fl, list_head := h, list_count := c\<rparr>)"
  unfolding same_files_def by (intro exI) (rule refl)

lemma same_files_trans: "same_files st st' \<Longrightarrow> same_files st' st'' \<Longrightarrow> same_files st st''"
  unfolding same_files_def by (elim exE) (intro exI, simp)

lemma same_files_simps:
  "same_files st st' \<Longrightarrow> f_vfs st' = f_vfs st" "same_files st st' \<Longrightarrow> f_open st' = f_open st"
  "same_files st st' \<Longrightarrow> f_mode st' = f_mode st" "same_files st st' \<Longrightarrow> f_count st' = f_count st"
  "same_files st st' \<Longrightarrow> f_inode st' = f_inode st" "same_files st st' \<Longrightarrow> f_op st' = f_op st"
  "same_files st st' \<Longrightarrow> f_magic st' = f_magic st" "same_files st st' \<Longrightarrow> nr_files st' = nr_files st"
  "same_files st st' \<Longrightarrow> file_pages st' = file_pages st" "same_files st st' \<Longrightarrow> files_per_page st' = files_per_page st"
  by (auto simp: same_files_def)

lemma queues_disjoint: "queues st Q \<Longrightarrow> x \<in> set (Q l) \<Longrightarrow> x \<in> set (Q m) \<Longrightarrow> l = m"
  unfolding queues_def by (metis option.inject)

lemma queues_distinct: "queues st Q \<Longrightarrow> distinct (Q l)"
  unfolding queues_def queue_def ring_def by (metis distinct.simps(1))

lemma loose_not_in: "queues st Q \<Longrightarrow> loose x st \<Longrightarrow> x \<notin> set (Q l)"
  unfolding queues_def loose_def by (metis option.distinct(1))

lemma set_head: "st\<lparr>list_head := (list_head st)(l := list_head st l)\<rparr> = st"
  by simp

text \<open>Taking a file from its list.\<close>

lemma remove_step:
  assumes q: "queues st Q" and x: "x \<in> set (Q l)"
  shows "\<exists>st'. remove_from_list x l st = Some st' \<and> queues st' (Q(l := remove1 x (Q l))) \<and> loose x st' \<and> same_files st st'"
proof -
  define n where "n = f_next st"
  define p where "p = f_prev st"
  define n' where "n' = (n(p x := n x))(x := FNull)"
  define p' where "p' = (p(n x := p x))(x := FNull)"
  define h where "h = (if remove1 x (Q l) = [] then FNull else hd (remove1 x (Q l)))"
  define st' where "st' = st\<lparr>f_next := n', f_prev := p', f_list := (f_list st)(x := None),
    list_head := (list_head st)(l := h), list_count := (list_count st)(l := list_count st l - 1)\<rparr>"
  have ql: "queue st k (Q k)" for k using q by (simp add: queues_def)
  have ne: "Q l \<noteq> []" using x by auto
  have r: "ring n p (Q l)" and hd: "list_head st l = hd (Q l)" and c: "list_count st l = int (length (Q l))"
    using ql [of l] ne by (simp_all add: queue_def n_def p_def)
  have d: "distinct (Q l)" using r by (simp add: ring_def)
  have nx: "n x \<in> set (Q l)" "p x \<in> set (Q l)" using ring_closed [OF r x] by blast+
  have nn: "y \<noteq> FNull \<and> f_magic st y" if "y \<in> set (Q k)" for y k using q that by (auto simp: queues_def)
  have fl: "f_list st y = Some k \<longleftrightarrow> y \<in> set (Q k)" for y k using q by (auto simp: queues_def)
  have len: "list_count st l \<noteq> 0" using c ne by simp
  have hdn: "list_head st l \<noteq> FNull" using hd ne nn [of "hd (Q l)" l] by simp
  have heads: "(if (if hd (Q l) = x then n x else hd (Q l)) = x then FNull else (if hd (Q l) = x then n x else hd (Q l))) = h"
  proof (cases "remove1 x (Q l) = []")
    case True
    then have "Q l = [x]" using ne x d by (cases "Q l") (auto split: if_splits)
    then have "n x = x" using r by (simp add: ring_def)
    then show ?thesis using \<open>Q l = [x]\<close> by (simp add: h_def)
  next
    case False
    have "hd (remove1 x (Q l)) \<noteq> x" 
    proof -
      have "x \<notin> set (remove1 x (Q l))" using d by simp
      then show ?thesis using hd_in_set [OF False] by metis
    qed
    then show ?thesis using ring_remove(2) [OF r x False] False by (simp add: h_def)
  qed
  have "remove_from_list x l st = Some st'"
  proof -
    define st1 where "st1 = st\<lparr>f_next := n(p x := n x), f_prev := p(n x := p x)\<rparr>"
    have l1: "list_head st1 l = hd (Q l)" "f_next st1 x = n x" by (simp_all add: st1_def hd)
    define st2 where "st2 = st1\<lparr>list_head := (list_head st1)(l := if hd (Q l) = x then n x else hd (Q l))\<rparr>"
    have s2: "(if list_head st1 l = x then st1\<lparr>list_head := (list_head st1)(l := f_next st1 x)\<rparr> else st1) = st2"
      unfolding st2_def l1 using set_head [of st1 l] l1(1) by (cases "hd (Q l) = x") simp_all
    have l2: "list_head st2 l = (if hd (Q l) = x then n x else hd (Q l))" "f_next st2 x = n x" by (simp_all add: st2_def l1)
    have s3: "(if list_head st2 l = x then st2\<lparr>list_head := (list_head st2)(l := FNull)\<rparr> else st2) = st2\<lparr>list_head := (list_head st2)(l := h)\<rparr>"
      using heads set_head [of st2 l] unfolding l2 by (cases "(if hd (Q l) = x then n x else hd (Q l)) = x") (simp_all only: if_True if_False simp_thms)
    have "remove_from_list x l st = (let st3 = st2\<lparr>list_head := (list_head st2)(l := h)\<rparr>
        in Some (st3\<lparr>f_next := (f_next st3)(x := FNull), f_prev := (f_prev st3)(x := FNull),
             f_list := (f_list st3)(x := None), list_count := (list_count st3)(l := list_count st3 l - 1)\<rparr>))"
    proof -
      define st0 where "st0 = st\<lparr>f_next := (f_next st)(f_prev st x := f_next st x)\<rparr>"
      have e1: "st0\<lparr>f_prev := (f_prev st0)(f_next st0 x := f_prev st0 x)\<rparr> = st1"
        by (simp add: st0_def st1_def n_def p_def)
      have g: "\<not> (x = FNull \<or> \<not> f_magic st x)" "\<not> (list_head st l = FNull \<or> list_count st l = 0)"
        "\<not> (f_prev st x = FNull \<or> f_next st x = FNull)" "\<not> f_list st x \<noteq> Some l"
        using nn [OF x] nn [OF nx(1)] nn [OF nx(2)] hdn len fl x by (simp_all add: n_def p_def)
      show ?thesis
        unfolding remove_from_list_def if_not_P [OF g(1)] if_not_P [OF g(2)] if_not_P [OF g(3)] if_not_P [OF g(4)]
          Let_def st0_def [symmetric] e1 s2 s3 ..
    qed
    also have "\<dots> = Some st'"
      unfolding Let_def st'_def n'_def p'_def st2_def st1_def by simp
    finally show ?thesis .
  qed
  moreover have "queues st' (Q(l := remove1 x (Q l)))"
  proof -
    have mem: "y \<in> set ((Q(l := remove1 x (Q l))) k) \<longleftrightarrow> y \<in> set (Q k) \<and> y \<noteq> x" for y k
      using d queues_disjoint [OF q x, of k] by (cases "k = l") auto
    have "queue st' k ((Q(l := remove1 x (Q l))) k)" for k
    proof (cases "k = l")
      case True
      have "ring n' p' (remove1 x (Q l))" if "remove1 x (Q l) \<noteq> []"
      proof -
        have "x \<notin> set (remove1 x (Q l))" using d by simp
        then have "ring n' p' (remove1 x (Q l)) \<longleftrightarrow> ring (n(p x := n x)) (p(n x := p x)) (remove1 x (Q l))"
          by (intro ring_frame) (auto simp: n'_def p'_def)
        then show ?thesis using ring_remove(1) [OF r x that] by blast
      qed
      moreover have "int (length (remove1 x (Q l))) = list_count st l - 1" using x ne c by (simp add: length_remove1 of_nat_diff Suc_le_eq)
      ultimately show ?thesis using True by (simp add: queue_def st'_def h_def)
    next
      case False
      have "x \<notin> set (Q k)" "p x \<notin> set (Q k)" "n x \<notin> set (Q k)"
        using queues_disjoint [OF q] x nx False by blast+
      then have "ring n' p' (Q k) \<longleftrightarrow> ring n p (Q k)" by (intro ring_frame) (auto simp: n'_def p'_def)
      then show ?thesis using ql [of k] False by (simp add: queue_def st'_def n_def p_def)
    qed
    moreover have "f_list st' y = Some k \<longleftrightarrow> y \<in> set ((Q(l := remove1 x (Q l))) k)" for y k
      unfolding mem by (simp add: st'_def fl)
    moreover have "y \<noteq> FNull \<and> f_magic st' y" if "y \<in> set ((Q(l := remove1 x (Q l))) k)" for y k
      using that nn unfolding mem by (auto simp: st'_def)
    ultimately show ?thesis unfolding queues_def by blast
  qed
  moreover have "loose x st'" using nn [OF x] by (simp add: loose_def st'_def n'_def p'_def)
  moreover have "same_files st st'" unfolding st'_def by (rule same_filesI)
  ultimately show ?thesis by blast
qed

text \<open>Putting a loose file at the end of a list.\<close>

lemma put_step:
  assumes q: "queues st Q" and x: "loose x st"
  shows "\<exists>st'. put_last_in_list x l st = Some st' \<and> queues st' (Q(l := Q l @ [x])) \<and> same_files st st'"
proof -
  define n where "n = f_next st"
  define p where "p = f_prev st"
  define h where "h = hd (Q l @ [x])"
  define p0 where "p0 = (if Q l = [] then p(x := x) else p)"
  define n' where "n' = n(x := h, p0 h := x)"
  define p' where "p' = p0(x := p0 h, h := x)"
  define st' where "st' = st\<lparr>f_next := n', f_prev := p', f_list := (f_list st)(x := Some l),
    list_head := (list_head st)(l := h), list_count := (list_count st)(l := list_count st l + 1)\<rparr>"
  have ql: "queue st k (Q k)" for k using q by (simp add: queues_def)
  have nin: "x \<notin> set (Q k)" for k by (rule loose_not_in [OF q x])
  have nn: "y \<noteq> FNull \<and> f_magic st y" if "y \<in> set (Q k)" for y k using q that by (auto simp: queues_def)
  have fl: "f_list st y = Some k \<longleftrightarrow> y \<in> set (Q k)" for y k using q by (auto simp: queues_def)
  have xs: "x \<noteq> FNull" "f_magic st x" "f_list st x = None" "n x = FNull" "p x = FNull" using x by (simp_all add: loose_def n_def p_def)
  have rg: "Q l \<noteq> [] \<Longrightarrow> ring n p (Q l)" and hd: "list_head st l = (if Q l = [] then FNull else hd (Q l))"
    and c: "list_count st l = int (length (Q l))" using ql [of l] by (simp_all add: queue_def n_def p_def)
  have closed: "Q l \<noteq> [] \<Longrightarrow> p h \<in> set (Q l) \<and> h \<in> set (Q l)"
    using ring_closed [OF rg, of "hd (Q l)"] by (simp add: h_def)
  have ph: "p0 h \<noteq> FNull" "p' h = x"
    using closed nn xs(1) by (auto simp: p0_def p'_def h_def split: if_splits)
  have at_h: "p0 h = (if Q l = [] then x else p h)" "h = (if Q l = [] then x else hd (Q l))" by (simp_all add: p0_def h_def)
  have "put_last_in_list x l st = Some st'"
  proof (cases "Q l = []")
    case True
    then have "h = x" "p0 = p(x := x)" by (simp_all add: h_def p0_def)
    then show ?thesis using True xs hd unfolding st'_def n'_def p'_def
      by (cases st) (simp add: put_last_in_list_def Let_def n_def p_def fun_upd_twist)
  next
    case False
    have hx: "h \<noteq> x" "h \<noteq> FNull" using closed [OF False] nin [of l] nn by blast+
    have hh: "list_head st l = h" using False hd by (simp add: h_def)
    have phn: "p h \<noteq> FNull" using closed [OF False] nn by blast
    show ?thesis using False xs hh hx phn unfolding st'_def n'_def p'_def p0_def
      by (cases st) (auto simp: put_last_in_list_def Let_def n_def p_def fun_eq_iff)
  qed
  moreover have "queues st' (Q(l := Q l @ [x]))"
  proof -
    have "queue st' k ((Q(l := Q l @ [x])) k)" for k
    proof (cases "k = l")
      case True
      have "ring n' p' (Q l @ [x])"
      proof (cases "Q l")
        case Nil
        then show ?thesis by (simp add: ring_def n'_def p'_def h_def p0_def)
      next
        case (Cons y ys)
        have "ring n p (y # ys)" "x \<notin> set (y # ys)" using rg nin [of l] Cons by auto
        from ring_link_last [OF this] show ?thesis using Cons by (simp add: n'_def p'_def h_def p0_def)
      qed
      then show ?thesis using True c by (simp add: queue_def st'_def h_def hd_append)
    next
      case False
      have "ring n' p' (Q k) \<longleftrightarrow> ring n p (Q k)"
      proof (cases "Q l = []")
        case True
        then show ?thesis using nin [of k] by (intro ring_frame) (auto simp: n'_def p'_def h_def p0_def)
      next
        case F: False
        have "p h \<notin> set (Q k)" "h \<notin> set (Q k)" using closed [OF F] queues_disjoint [OF q, of _ k l] False by blast+
        then show ?thesis using nin [of k] F by (intro ring_frame) (auto simp: n'_def p'_def p0_def)
      qed
      then show ?thesis using ql [of k] False by (simp add: queue_def st'_def n_def p_def)
    qed
    moreover have "f_list st' y = Some k \<longleftrightarrow> y \<in> set ((Q(l := Q l @ [x])) k)" for y k
      using fl [of y k] nin by (auto simp: st'_def)
    moreover have "y \<noteq> FNull \<and> f_magic st' y" if "y \<in> set ((Q(l := Q l @ [x])) k)" for y k
      using that nn xs by (auto simp: st'_def split: if_splits)
    ultimately show ?thesis unfolding queues_def by blast
  qed
  moreover have "same_files st st'" unfolding st'_def by (rule same_filesI)
  ultimately show ?thesis by blast
qed

interpretation ft: file_lists remove_from_list put_last_in_list queues loose same_files
  by unfold_locales (rule remove_step put_step same_files_trans; assumption)+

section \<open>What an operation leaves alone\<close>

definition file_fields :: "filetab \<Rightarrow> fptr \<Rightarrow> open_file \<times> u16 \<times> u16 \<times> iptr \<times> inode_ops \<times> bool" where
  "file_fields st x = (f_open st x, f_mode st x, f_count st x, f_inode st x, f_op st x, f_magic st x)"

definition keeps :: "fptr set \<Rightarrow> filetab \<Rightarrow> filetab \<Rightarrow> bool" where
  "keeps A st st' \<longleftrightarrow> file_pages st' = file_pages st \<and> files_per_page st' = files_per_page st \<and>
     (\<forall>x. x \<notin> A \<longrightarrow> file_fields st' x = file_fields st x)"

lemma keepsD:
  assumes "keeps A st st'" and "x \<notin> A"
  shows "f_inode st' x = f_inode st x" and "f_open st' x = f_open st x" and "f_op st' x = f_op st x" and "f_count st' x = f_count st x"
  using assms by (simp_all add: keeps_def file_fields_def)

lemma keeps_refl: "keeps A st st"
  by (simp add: keeps_def)

lemma keeps_trans: "keeps A st st' \<Longrightarrow> keeps B st' st'' \<Longrightarrow> A \<subseteq> C \<Longrightarrow> B \<subseteq> C \<Longrightarrow> keeps C st st''"
  by (simp add: keeps_def subset_iff) metis

lemma keeps_mono: "keeps A st st' \<Longrightarrow> A \<subseteq> C \<Longrightarrow> keeps C st st'"
  using keeps_trans keeps_refl by blast

lemma keeps_same: "same_files st st' \<Longrightarrow> keeps A st st'"
  by (simp add: keeps_def file_fields_def same_files_simps)

lemma keeps_clear: "keeps {f} st (clear_file f st)"
  by (simp add: keeps_def file_fields_def clear_file_def)

lemma keeps_vfs: "keeps A st (st\<lparr>f_vfs := v\<rparr>)"
  by (simp add: keeps_def file_fields_def)

lemma queues_vfs: "queues (st\<lparr>f_vfs := v\<rparr>) Q = queues st Q"
  by (simp add: queues_def queue_def)

lemma loose_vfs: "loose x (st\<lparr>f_vfs := v\<rparr>) = loose x st"
  by (simp add: loose_def)

lemma clear_outside:
  assumes q: "queues st Q" and f: "f \<noteq> FNull" "\<And>l. f \<notin> set (Q l)"
  shows "queues (clear_file f st) Q" and "loose f (clear_file f st)"
proof -
  have "queue (clear_file f st) l (Q l)" for l
  proof -
    have "ring (f_next (clear_file f st)) (f_prev (clear_file f st)) (Q l) \<longleftrightarrow> ring (f_next st) (f_prev st) (Q l)"
      using f(2) [of l] by (intro ring_frame) (auto simp: clear_file_def)
    then show ?thesis using q by (simp add: queues_def queue_def) (simp add: clear_file_def)
  qed
  then show "queues (clear_file f st) Q" using q f(2) by (auto simp: queues_def clear_file_def)
  show "loose f (clear_file f st)" using f(1) by (simp add: loose_def clear_file_def)
qed

lemma loose_clear:
  assumes "queues st Q" and "loose f st"
  shows "queues (clear_file f st) Q" and "loose f (clear_file f st)"
  using clear_outside [OF assms(1), of f] loose_not_in [OF assms] assms(2) by (simp_all add: loose_def)

text \<open>A file is moved to another list, cleared on the way.\<close>

lemma move_cleared:
  assumes q: "queues st Q" and x: "x \<in> set (Q l)" and m: "m \<noteq> l"
  shows "\<exists>st1 st'. remove_from_list x l st = Some st1 \<and> put_last_in_list x m (clear_file x st1) = Some st' \<and>
    queues st' (Q(l := remove1 x (Q l), m := Q m @ [x])) \<and> keeps {x} st st' \<and> f_vfs st' = f_vfs st \<and> f_inode st' x = INull \<and>
    f_open st' x = zero_open"
proof -
  from remove_step [OF q x] obtain st1 where r: "remove_from_list x l st = Some st1" "queues st1 (Q(l := remove1 x (Q l)))"
      "loose x st1" "same_files st st1" by (elim exE conjE) (rule that)
  note c = loose_clear [OF r(2,3)]
  from put_step [OF c, of m] obtain st' where p: "put_last_in_list x m (clear_file x st1) = Some st'"
      "queues st' (Q(l := remove1 x (Q l), m := Q m @ [x]))" "same_files (clear_file x st1) st'"
    using m by auto
  have "keeps {x} st st'"
    by (rule keeps_trans [OF keeps_trans [OF keeps_same [OF r(4)] keeps_clear [of x]] keeps_same [OF p(3)]]) blast+
  moreover have "f_vfs st' = f_vfs st" using same_files_simps(1) [OF p(3)] same_files_simps(1) [OF r(4)] by (simp add: clear_file_def)
  moreover have "f_inode st' x = INull" "f_open st' x = zero_open"
    using same_files_simps(2,5) [OF p(3)] by (simp_all add: clear_file_def)
  ultimately show ?thesis using r(1) p(1,2) by (intro exI conjI)
qed

section \<open>put_filp and set_swapper_filp\<close>

lemma put_filp_listed:
  assumes q: "queues st Q" and x: "x \<in> set (Q l)" and l: "l \<noteq> Free_files"
  shows "\<exists>st'. put_filp x st = Some st' \<and> queues st' (Q(l := remove1 x (Q l), Free_files := Q Free_files @ [x])) \<and>
    keeps {x} st st' \<and> f_vfs st' = f_vfs st \<and> f_inode st' x = INull"
proof -
  from move_cleared [OF q x l [symmetric]] obtain st1 st' where s: "remove_from_list x l st = Some st1"
      "put_last_in_list x Free_files (clear_file x st1) = Some st'"
      "queues st' (Q(l := remove1 x (Q l), Free_files := Q Free_files @ [x]))" "keeps {x} st st'" "f_vfs st' = f_vfs st" "f_inode st' x = INull"
    by (elim exE conjE) (rule that)
  have fl: "f_list st x = Some l" using q x by (simp add: queues_def)
  have "(if f_list st x = Some Used_files then remove_from_list x Used_files st
     else if f_list st x = Some Dead_files then remove_from_list x Dead_files st
     else if f_list st x = Some Page_files then remove_from_list x Page_files st else None) = Some st1"
    using s(1) l unfolding fl by (cases l) simp_all
  then have "put_filp x st = Some st'" unfolding put_filp_def by (simp add: s(2))
  then show ?thesis using s(3-6) by (intro exI conjI)
qed

lemma put_filp_None:
  assumes "queues st Q" and "\<And>l. l \<noteq> Free_files \<Longrightarrow> x \<notin> set (Q l)"
  shows "put_filp x st = None"
proof -
  have "f_list st x \<noteq> Some l" if "l \<noteq> Free_files" for l using assms that by (simp add: queues_def)
  then show ?thesis by (simp add: put_filp_def)
qed

section \<open>get_empty_filp\<close>

text \<open>The pages that are still to come hold no file that is on a list, and no file twice.\<close>

definition new_files :: "nat \<Rightarrow> nat \<Rightarrow> fptr list" where
  "new_files n pg = List.map File [pg..<pg + n]"

definition files_ok :: "filetab \<Rightarrow> (flist \<Rightarrow> fptr list) \<Rightarrow> bool" where
  "files_ok st Q \<longleftrightarrow> 0 < files_per_page st \<and>
     distinct (concat (List.map (new_files (files_per_page st)) (file_pages st))) \<and>
     (\<forall>l. set (Q l) \<inter> set (concat (List.map (new_files (files_per_page st)) (file_pages st))) = {})"

lemma files_ok_cong:
  assumes "files_ok st Q" and "keeps A st st'" and "\<And>l. set (Q' l) \<subseteq> (\<Union>l. set (Q l)) \<union> {Token}"
  shows "files_ok st' Q'"
proof -
  have "Token \<notin> set (new_files n pg)" for n pg by (auto simp: new_files_def)
  then have "Token \<notin> set (concat (List.map (new_files (files_per_page st)) (file_pages st)))" by simp
  moreover have "file_pages st' = file_pages st" "files_per_page st' = files_per_page st" using assms(2) by (simp_all add: keeps_def)
  ultimately show ?thesis using assms(1,3) unfolding files_ok_def by (simp only: simp_thms) blast
qed

lemma put_new_step:
  assumes "queues st Q" and "\<And>l. set (Q l) \<inter> set fs = {}" and "distinct fs" "FNull \<notin> set fs"
  shows "\<exists>st'. put_new fs st = Some st' \<and> queues st' (Q(Free_files := Q Free_files @ fs)) \<and> keeps (set fs) st st' \<and> f_vfs st' = f_vfs st"
  using assms
proof (induction fs arbitrary: st Q)
  case Nil
  then show ?case by (simp add: keeps_refl)
next
  case (Cons f fs)
  have "f \<noteq> FNull" "f \<notin> set (Q l)" for l using Cons.prems by auto
  note c = clear_outside [OF Cons.prems(1) this]
  from put_step [OF c, of Free_files] obtain st1 where p: "put_last_in_list f Free_files (clear_file f st) = Some st1"
      "queues st1 (Q(Free_files := Q Free_files @ [f]))" "same_files (clear_file f st) st1" by (elim exE conjE) (rule that)
  have i: "set ((Q(Free_files := Q Free_files @ [f])) l) \<inter> set fs = {}" for l using Cons.prems(2) [of l] Cons.prems(3) by auto
  have e: "(Q(Free_files := Q Free_files @ [f]))(Free_files := (Q(Free_files := Q Free_files @ [f])) Free_files @ fs) =
      Q(Free_files := Q Free_files @ f # fs)" by simp
  have d: "distinct fs" "FNull \<notin> set fs" using Cons.prems(3,4) by simp_all
  have "\<exists>st'. put_new fs st1 = Some st' \<and> queues st' (Q(Free_files := Q Free_files @ f # fs)) \<and>
      keeps (set fs) st1 st' \<and> f_vfs st' = f_vfs st1"
    using Cons.IH [OF p(2) i d] unfolding e .
  then obtain st2 where r: "put_new fs st1 = Some st2"
      "queues st2 (Q(Free_files := Q Free_files @ f # fs))" "keeps (set fs) st1 st2" "f_vfs st2 = f_vfs st1" by (elim exE conjE) (rule that)
  have "keeps (set (f # fs)) st st2"
    by (rule keeps_trans [OF keeps_trans [OF keeps_clear [of f st] keeps_same [OF p(3), of "{f}"]] r(3)]) auto
  moreover have "f_vfs st2 = f_vfs st" using r(4) same_files_simps(1) [OF p(3)] by (simp add: clear_file_def)
  moreover have "put_new (f # fs) st = Some st2" using p(1) r(1) by simp
  ultimately show ?case using r(2) by (intro exI conjI)
qed

lemma first_file_step:
  assumes q: "queues st Q" and e: "Q Free_files = []" and f: "f \<noteq> FNull" "\<And>l. f \<notin> set (Q l)"
  shows "queues (first_file f st) (Q(Free_files := [f]))" and "keeps {f} st (first_file f st)" and "f_vfs (first_file f st) = f_vfs st"
proof -
  note c = clear_outside [OF q f]
  have cnt: "list_count st Free_files = 0" using q e by (simp add: queues_def queue_def)
  have "queue (first_file f st) l ((Q(Free_files := [f])) l)" for l
  proof (cases "l = Free_files")
    case True
    then show ?thesis using cnt by (simp add: queue_def first_file_def clear_file_def ring_def Let_def)
  next
    case False
    have "ring (f_next (first_file f st)) (f_prev (first_file f st)) (Q l) \<longleftrightarrow> ring (f_next st) (f_prev st) (Q l)"
      using f(2) [of l] by (intro ring_frame) (auto simp: first_file_def clear_file_def Let_def)
    then show ?thesis using q False by (simp add: queues_def queue_def) (simp add: first_file_def clear_file_def Let_def)
  qed
  moreover have "f_list (first_file f st) y = Some l \<longleftrightarrow> y \<in> set ((Q(Free_files := [f])) l)" for y l
    using q f(2) [of l] e by (auto simp: queues_def first_file_def clear_file_def Let_def)
  moreover have "y \<noteq> FNull \<and> f_magic (first_file f st) y" if "y \<in> set ((Q(Free_files := [f])) l)" for y l
    using that q f(1) by (auto simp: queues_def first_file_def clear_file_def Let_def split: if_splits)
  ultimately show "queues (first_file f st) (Q(Free_files := [f]))" unfolding queues_def by blast
  show "keeps {f} st (first_file f st)" "f_vfs (first_file f st) = f_vfs st"
    by (simp_all add: keeps_def file_fields_def first_file_def clear_file_def Let_def)
qed

lemma queues_pages: "queues (st\<lparr>file_pages := pages, nr_files := k\<rparr>) Q = queues st Q"
  by (simp add: queues_def queue_def)

lemma grow_files_step:
  assumes q: "queues st Q" and ok: "files_ok st Q" and e: "Q Free_files = []" and pg: "file_pages st = pg # pages"
  shows "\<exists>st' fs. grow_files st = Some (True, st') \<and> fs = new_files (files_per_page st) pg \<and> fs \<noteq> [] \<and>
    queues st' (Q(Free_files := fs)) \<and> files_ok st' (Q(Free_files := fs)) \<and> (\<forall>l. set (Q l) \<inter> set fs = {}) \<and> Token \<notin> set fs \<and>
    (\<forall>x. x \<notin> set fs \<longrightarrow> file_fields st' x = file_fields st x) \<and> f_vfs st' = f_vfs st"
proof -
  define n where "n = files_per_page st"
  define fs where "fs = new_files n pg"
  define rest where "rest = concat (List.map (new_files n) pages)"
  define st0 where "st0 = st\<lparr>file_pages := pages, nr_files := nr_files st + int n\<rparr>"
  have n0: "0 < n" and all: "distinct (fs @ rest)" "\<And>l. set (Q l) \<inter> set (fs @ rest) = {}"
    using ok by (simp_all add: files_ok_def pg n_def fs_def rest_def)
  have fsne: "fs = hd fs # tl fs" using n0 by (simp add: fs_def new_files_def)
  have nn: "FNull \<notin> set fs" "Token \<notin> set fs" by (auto simp: fs_def new_files_def)
  have q0: "queues st0 Q" using q by (simp add: st0_def queues_pages)
  have hd: "hd fs \<noteq> FNull" "hd fs \<notin> set (Q l)" for l using nn(1) all(2) [of l] fsne by (metis list.set_intros(1), metis IntI UnCI empty_iff list.set_intros(1) set_append)
  note ff = first_file_step [OF q0 e hd]
  have dt: "distinct (tl fs)" "hd fs \<notin> set (tl fs)" using all(1) fsne by (metis distinct.simps(2) distinct_append)+
  have i: "set ((Q(Free_files := [hd fs])) l) \<inter> set (tl fs) = {}" for l
    using all(2) [of l] dt(2) fsne by (cases "l = Free_files") (simp, metis (no_types, lifting) IntI UnCI disjoint_iff fun_upd_other list.set_intros(2) set_append)
  have "FNull \<notin> set (tl fs)" using nn(1) fsne by (metis list.set_intros(2))
  note pn = put_new_step [OF ff(1) i dt(1) this]
  have "(Q(Free_files := [hd fs]))(Free_files := (Q(Free_files := [hd fs])) Free_files @ tl fs) = Q(Free_files := hd fs # tl fs)"
    by simp
  from pn [unfolded this] obtain st' where p: "put_new (tl fs) (first_file (hd fs) st0) = Some st'"
    "queues st' (Q(Free_files := hd fs # tl fs))" "keeps (set (tl fs)) (first_file (hd fs) st0) st'" "f_vfs st' = f_vfs (first_file (hd fs) st0)"
    by (elim exE conjE) (rule that)
  have "list_head st Free_files = FNull" using q e by (simp add: queues_def queue_def)
  then have g: "grow_files st = Some (True, st')"
    using p(1) by (simp add: grow_files_def pg Let_def n_def fs_def st0_def new_files_def)
  have k: "keeps (set fs) st0 st'"
    by (rule keeps_trans [OF ff(2) p(3)]) (use fsne in \<open>metis list.set_intros insert_subset empty_subsetI subsetI\<close>)+
  then have fields: "\<forall>x. x \<notin> set fs \<longrightarrow> file_fields st' x = file_fields st x" by (simp add: keeps_def st0_def file_fields_def)
  have "file_pages st' = pages" "files_per_page st' = n" using k by (simp_all add: keeps_def st0_def n_def)
  moreover have "set ((Q(Free_files := fs)) l) \<inter> set rest = {}" for l using all(1) all(2) [of l] by (cases "l = Free_files") auto
  ultimately have po: "files_ok st' (Q(Free_files := fs))" using n0 all(1) by (simp add: files_ok_def rest_def [symmetric])
  have "f_vfs st' = f_vfs st" using p(4) ff(3) by (simp add: st0_def)
  moreover have "\<forall>l. set (Q l) \<inter> set fs = {}" using all(2) by auto
  moreover have "fs \<noteq> []" using fsne by (metis list.distinct(1))
  ultimately show ?thesis
    using g po fields nn(2) p(2) fsne by (intro exI [where x = st'] exI [where x = fs]) (simp add: fs_def n_def)
qed

text \<open>What \<open>use_file\<close> makes of a free file.\<close>

lemma use_file_step:
  assumes q: "queues st Q" and f: "Q Free_files = f # fs"
  shows "\<exists>st'. use_file f st = Some st' \<and> queues st' (Q(Free_files := fs, Used_files := Q Used_files @ [f])) \<and> keeps {f} st st' \<and>
    f_vfs st' = (f_vfs st)\<lparr>event := event (f_vfs st) + 1\<rparr> \<and> f_inode st' f = INull \<and> f_count st' f = 1 \<and>
    f_open st' f = zero_open\<lparr>f_version := event (f_vfs st) + 1\<rparr>"
proof -
  have x: "f \<in> set (Q Free_files)" using f by simp
  from remove_step [OF q x] obtain st1 where r: "remove_from_list f Free_files st = Some st1"
      "queues st1 (Q(Free_files := remove1 f (Q Free_files)))" "loose f st1" "same_files st st1" by (elim exE conjE) (rule that)
  note c = loose_clear [OF r(2,3)]
  define st2 where "st2 = (clear_file f st1)\<lparr>f_vfs := (f_vfs (clear_file f st1))\<lparr>event := event (f_vfs (clear_file f st1)) + 1\<rparr>,
      f_count := (f_count (clear_file f st1))(f := 1),
      f_open := (f_open (clear_file f st1))(f := zero_open\<lparr>f_version := event (f_vfs (clear_file f st1)) + 1\<rparr>)\<rparr>"
  have q2: "queues st2 (Q(Free_files := fs))" and l2: "loose f st2"
    using c f by (simp_all add: st2_def queues_def queue_def loose_def)
  from put_step [OF q2 l2, of Used_files] obtain st' where p: "put_last_in_list f Used_files st2 = Some st'"
      "queues st' (Q(Free_files := fs, Used_files := Q Used_files @ [f]))" "same_files st2 st'" by auto
  have v1: "f_vfs (clear_file f st1) = f_vfs st" using same_files_simps(1) [OF r(4)] by (simp add: clear_file_def)
  have "use_file f st = Some st'" using r(1) p(1) unfolding use_file_def st2_def by (simp add: Let_def)
  moreover have "keeps {f} st st'"
  proof -
    have "keeps {f} (clear_file f st1) st2" by (simp add: keeps_def file_fields_def st2_def)
    from keeps_trans [OF keeps_trans [OF keeps_same [OF r(4)] keeps_clear] this] have "keeps {f} st st2" by blast
    from keeps_trans [OF this keeps_same [OF p(3)]] show ?thesis by blast
  qed
  moreover have "f_vfs st' = (f_vfs st)\<lparr>event := event (f_vfs st) + 1\<rparr>" "f_inode st' f = INull" "f_count st' f = 1"
      "f_open st' f = zero_open\<lparr>f_version := event (f_vfs st) + 1\<rparr>"
    using same_files_simps(1,2,4,5) [OF p(3)] v1 by (simp_all add: st2_def) (simp add: clear_file_def)
  ultimately show ?thesis using p(2) by (intro exI conjI)
qed

lemma get_empty_step:
  assumes q: "queues st Q" and ok: "files_ok st Q"
  shows "get_empty_filp st = Some (FNull, st) \<and> Q Free_files = [] \<and> file_pages st = [] \<or>
    (\<exists>f st' rest. get_empty_filp st = Some (f, st') \<and> f \<noteq> FNull \<and> (\<forall>l. l \<noteq> Free_files \<longrightarrow> f \<notin> set (Q l)) \<and>
      queues st' (Q(Free_files := rest, Used_files := Q Used_files @ [f])) \<and>
      files_ok st' (Q(Free_files := rest, Used_files := Q Used_files @ [f])) \<and>
      (Token \<notin> set (Q Free_files) \<longrightarrow> Token \<notin> set (f # rest)) \<and>
      (\<forall>x l. x \<in> set (Q l) \<and> l \<noteq> Free_files \<longrightarrow> file_fields st' x = file_fields st x) \<and>
      f_vfs st' = (f_vfs st)\<lparr>event := event (f_vfs st) + 1\<rparr> \<and> f_inode st' f = INull \<and> f_count st' f = 1 \<and>
      f_open st' f = zero_open\<lparr>f_version := event (f_vfs st) + 1\<rparr>)"
proof -
  have use: "\<exists>st'. get_empty_filp st1 = Some (f, st') \<and> f \<noteq> FNull \<and> (\<forall>l. l \<noteq> Free_files \<longrightarrow> f \<notin> set (Q1 l)) \<and>
      queues st' (Q1(Free_files := rest, Used_files := Q1 Used_files @ [f])) \<and>
      files_ok st' (Q1(Free_files := rest, Used_files := Q1 Used_files @ [f])) \<and> keeps {f} st1 st' \<and>
      f_vfs st' = (f_vfs st1)\<lparr>event := event (f_vfs st1) + 1\<rparr> \<and> f_inode st' f = INull \<and> f_count st' f = 1 \<and>
      f_open st' f = zero_open\<lparr>f_version := event (f_vfs st1) + 1\<rparr>"
    if a: "queues st1 Q1" "files_ok st1 Q1" "Q1 Free_files = f # rest" for st1 Q1 f rest
  proof -
    from use_file_step [OF a(1,3)] obtain st' where u: "use_file f st1 = Some st'"
        "queues st' (Q1(Free_files := rest, Used_files := Q1 Used_files @ [f]))" "keeps {f} st1 st'"
        "f_vfs st' = (f_vfs st1)\<lparr>event := event (f_vfs st1) + 1\<rparr>" "f_inode st' f = INull" "f_count st' f = 1"
        "f_open st' f = zero_open\<lparr>f_version := event (f_vfs st1) + 1\<rparr>" by (elim exE conjE) (rule that)
    have h: "list_head st1 Free_files = f" using a(1,3) by (simp add: queues_def queue_def)
    have fin: "f \<in> set (Q1 Free_files)" using a(3) by simp
    then have nn: "f \<noteq> FNull" using a(1) by (auto simp: queues_def)
    have "get_empty_filp st1 = Some (f, st')" using u(1) nn by (subst get_empty_filp.simps) (simp add: h)
    moreover have "\<forall>l. l \<noteq> Free_files \<longrightarrow> f \<notin> set (Q1 l)" using queues_disjoint [OF a(1) fin] by blast
    moreover have "files_ok st' (Q1(Free_files := rest, Used_files := Q1 Used_files @ [f]))"
    proof (rule files_ok_cong [OF a(2) u(3)])
      fix l
      have "set ((Q1(Free_files := rest, Used_files := Q1 Used_files @ [f])) l) \<subseteq> set (Q1 l) \<union> set (Q1 Free_files)"
        using a(3) by (cases l) auto
      then show "set ((Q1(Free_files := rest, Used_files := Q1 Used_files @ [f])) l) \<subseteq> (\<Union>l. set (Q1 l)) \<union> {Token}"
        by blast
    qed
    ultimately show ?thesis using nn u(2-7) by (intro exI conjI)
  qed
  show ?thesis
  proof (cases "Q Free_files")
    case (Cons f rest)
    from use [OF q ok Cons] obtain st' where u: "get_empty_filp st = Some (f, st')" "f \<noteq> FNull" "\<forall>l. l \<noteq> Free_files \<longrightarrow> f \<notin> set (Q l)"
      "queues st' (Q(Free_files := rest, Used_files := Q Used_files @ [f]))"
      "files_ok st' (Q(Free_files := rest, Used_files := Q Used_files @ [f]))" "keeps {f} st st'"
      "f_vfs st' = (f_vfs st)\<lparr>event := event (f_vfs st) + 1\<rparr>" "f_inode st' f = INull" "f_count st' f = 1"
      "f_open st' f = zero_open\<lparr>f_version := event (f_vfs st) + 1\<rparr>" by (elim exE conjE) (rule that)
    have "\<forall>x l. x \<in> set (Q l) \<and> l \<noteq> Free_files \<longrightarrow> file_fields st' x = file_fields st x"
    proof (intro allI impI)
      fix x l assume "x \<in> set (Q l) \<and> l \<noteq> Free_files"
      then have "x \<noteq> f" using u(3) by blast
      then show "file_fields st' x = file_fields st x" using u(6) by (simp add: keeps_def)
    qed
    moreover have "Token \<notin> set (Q Free_files) \<longrightarrow> Token \<notin> set (f # rest)" using Cons by simp
    ultimately show ?thesis using u(1-5,7-10) by (intro disjI2 exI conjI)
  next
    case Nil
    have h: "list_head st Free_files = FNull" using q Nil by (simp add: queues_def queue_def)
    show ?thesis
    proof (cases "file_pages st")
      case N: Nil
      have "get_empty_filp st = Some (FNull, st)" by (subst get_empty_filp.simps) (simp add: h grow_files_def N)
      then show ?thesis using Nil N by blast
    next
      case (Cons pg pages)
      from grow_files_step [OF q ok Nil Cons] obtain st1 fs where g: "grow_files st = Some (True, st1)" "fs \<noteq> []"
        "queues st1 (Q(Free_files := fs))" "files_ok st1 (Q(Free_files := fs))" "\<forall>l. set (Q l) \<inter> set fs = {}" "Token \<notin> set fs"
        "\<forall>x. x \<notin> set fs \<longrightarrow> file_fields st1 x = file_fields st x" "f_vfs st1 = f_vfs st" by (elim exE conjE) (rule that)
      then obtain f rest where fs: "fs = f # rest" by (cases fs) simp_all
      have a: "(Q(Free_files := fs)) Free_files = f # rest" using fs by simp
      have e: "(Q(Free_files := fs))(Free_files := rest, Used_files := (Q(Free_files := fs)) Used_files @ [f]) =
          Q(Free_files := rest, Used_files := Q Used_files @ [f])" by simp
      from use [OF g(3,4) a, unfolded e g(8)] obtain st' where u: "get_empty_filp st1 = Some (f, st')" "f \<noteq> FNull"
        "\<forall>l. l \<noteq> Free_files \<longrightarrow> f \<notin> set ((Q(Free_files := fs)) l)"
        "queues st' (Q(Free_files := rest, Used_files := Q Used_files @ [f]))"
        "files_ok st' (Q(Free_files := rest, Used_files := Q Used_files @ [f]))" "keeps {f} st1 st'"
        "f_vfs st' = (f_vfs st)\<lparr>event := event (f_vfs st) + 1\<rparr>" "f_inode st' f = INull" "f_count st' f = 1"
        "f_open st' f = zero_open\<lparr>f_version := event (f_vfs st) + 1\<rparr>"
        by (elim exE conjE) (rule that)
      have "get_empty_filp st = Some (f, st')" using u(1) by (subst get_empty_filp.simps) (simp add: h g(1))
      moreover have "\<forall>l. l \<noteq> Free_files \<longrightarrow> f \<notin> set (Q l)" using g(5) fs by auto
      moreover have "\<forall>x l. x \<in> set (Q l) \<and> l \<noteq> Free_files \<longrightarrow> file_fields st' x = file_fields st x"
      proof (intro allI impI)
        fix x l assume "x \<in> set (Q l) \<and> l \<noteq> Free_files"
        then have x: "x \<notin> set fs" using g(5) by blast
        then have "x \<noteq> f" using fs by auto
        then show "file_fields st' x = file_fields st x" using u(6) g(7) x by (simp add: keeps_def)
      qed
      moreover have "Token \<notin> set (f # rest)" using g(6) fs by simp
      ultimately show ?thesis using u(2,4,5,7-10) by (intro disjI2 exI conjI impI)
    qed
  qed
qed

end
