(* ===== verification/Ext2_Filetab_Thms.thy ===== *)
theory Ext2_Filetab_Thms
  imports Ext2_Filetab_Props
begin

text \<open>
  What the operations on the table of open files promise: \<open>invalidate_files\<close> and \<open>release_files\<close> against
  one pass over the list of the used files, \<open>get_empty_filp\<close>, and the table as a whole.
\<close>

section \<open>One pass over the used files\<close>

text \<open>The files kept, the files given up and the rest of the state, when \<open>invalidate_files\<close> goes through \<open>xs\<close>.\<close>

fun invalidate_list ::
    "env \<Rightarrow> bool \<Rightarrow> (fptr \<Rightarrow> iptr) \<Rightarrow> fptr list \<Rightarrow> vfs \<Rightarrow> (fptr list \<times> fptr list \<times> vfs) option" where
  "invalidate_list env ok ino [] v = Some ([], [], v)"
| "invalidate_list env ok ino (x # xs) v =
     (if ino x = INull then None
      else if i_sb v (ino x) then
        Option.bind (if ok then iput env (ino x) v else Some v) (\<lambda>v.
          map_option (\<lambda>(kept, dead, v). (kept, x # dead, v)) (invalidate_list env ok ino xs v))
      else map_option (\<lambda>(kept, dead, v). (x # kept, dead, v)) (invalidate_list env ok ino xs v))"

lemma invalidate_list_sets:
  "invalidate_list env ok ino xs v = Some (kept, dead, v') \<Longrightarrow> set kept \<union> set dead = set xs"
proof (induction xs arbitrary: v kept dead v')
  case (Cons x xs)
  show ?case
  proof (cases "i_sb v (ino x)")
    case True
    then obtain w d where "invalidate_list env ok ino xs w = Some (kept, d, v')" "dead = x # d"
      using Cons.prems by (auto split: if_splits elim!: bind_eq_Some_conv [THEN iffD1, elim_format])
    then show ?thesis using Cons.IH by fastforce
  next
    case False
    then obtain k where "invalidate_list env ok ino xs v = Some (k, dead, v')" "kept = x # k"
      using Cons.prems by (auto split: if_splits)
    then show ?thesis using Cons.IH by fastforce
  qed
qed simp

lemma invalidate_list_cong:
  "(\<And>x. x \<in> set xs \<Longrightarrow> ino' x = ino x) \<Longrightarrow> invalidate_list env ok ino' xs v = invalidate_list env ok ino xs v"
proof (induction xs arbitrary: v)
  case (Cons x xs)
  have "ino' x = ino x" "\<And>v. invalidate_list env ok ino' xs v = invalidate_list env ok ino xs v"
    using Cons.prems Cons.IH by auto
  then show ?case by (simp only: invalidate_list.simps)
qed simp

lemma kill_file_step:
  assumes q: "queues st Q" and x: "x \<in> set (Q Used_files)"
  shows "kill_file env ok x st = None \<and> (if ok then iput env (f_inode st x) (f_vfs st) else Some (f_vfs st)) = None \<or>
    (\<exists>v st'. (if ok then iput env (f_inode st x) (f_vfs st) else Some (f_vfs st)) = Some v \<and> kill_file env ok x st = Some st' \<and>
      queues st' (Q(Used_files := remove1 x (Q Used_files), Dead_files := Q Dead_files @ [x])) \<and> keeps {x} st st' \<and> f_vfs st' = v \<and>
      f_inode st' x = INull)"
proof (cases "if ok then iput env (f_inode st x) (f_vfs st) else Some (f_vfs st)")
  case None
  then have "kill_file env ok x st = None" unfolding kill_file_def by (cases ok) simp_all
  with None show ?thesis by blast
next
  case (Some v)
  have q1: "queues (st\<lparr>f_vfs := v\<rparr>) Q" using q by (simp only: queues_vfs)
  from move_cleared [OF q1 x, of Dead_files] obtain st1 st' where m: "remove_from_list x Used_files (st\<lparr>f_vfs := v\<rparr>) = Some st1"
      "put_last_in_list x Dead_files (clear_file x st1) = Some st'"
      "queues st' (Q(Used_files := remove1 x (Q Used_files), Dead_files := Q Dead_files @ [x]))"
      "keeps {x} (st\<lparr>f_vfs := v\<rparr>) st'" "f_vfs st' = v" "f_inode st' x = INull" by auto
  have e: "(if ok then map_option (\<lambda>v. st\<lparr>f_vfs := v\<rparr>) (iput env (f_inode st x) (f_vfs st)) else Some st) = Some (st\<lparr>f_vfs := v\<rparr>)"
    using Some by (cases ok) auto
  have "kill_file env ok x st = Some st'" unfolding kill_file_def e by (simp add: m(1,2))
  moreover have "keeps {x} st st'" by (rule keeps_trans [OF keeps_vfs m(4)]) blast+
  ultimately show ?thesis using Some m(3,5,6) by blast
qed

lemma invalidate_pass_list:
  assumes "queues st Q" and "Q Used_files = xs @ Token # ks" and "Token \<notin> set xs" "FNull \<notin> set xs"
  shows "case invalidate_list env ok (f_inode st) xs (f_vfs st) of
      None \<Rightarrow> invalidate_pass env ok n st = None
    | Some (kept, dead, v) \<Rightarrow> \<exists>st'. invalidate_pass env ok n st = Some (n + length dead, st') \<and>
        queues st' (Q(Used_files := Token # ks @ kept, Dead_files := Q Dead_files @ dead)) \<and>
        f_vfs st' = v \<and> keeps (set dead) st st' \<and> (\<forall>x \<in> set dead. f_inode st' x = INull)"
  using assms
proof (induction xs arbitrary: st Q ks n)
  case Nil
  have h: "list_head st Used_files = Token" using Nil.prems(1,2) by (simp add: queues_def queue_def)
  have "invalidate_pass env ok n st = Some (n, st)" by (subst invalidate_pass.simps) (simp add: h)
  moreover have "Q(Used_files := Token # ks, Dead_files := Q Dead_files) = Q" using Nil.prems(2) by auto
  ultimately show ?case using Nil.prems(1) by (simp add: keeps_refl)
next
  case (Cons x xs)
  have h: "list_head st Used_files = x" using Cons.prems(1,2) by (simp add: queues_def queue_def)
  have x: "x \<noteq> FNull" "x \<noteq> Token" "Token \<notin> set xs" "FNull \<notin> set xs" using Cons.prems(3,4) by auto
  have xin: "x \<in> set (Q Used_files)" using Cons.prems(2) by simp
  have d: "distinct (x # xs @ Token # ks)" using queues_distinct [OF Cons.prems(1), of Used_files] Cons.prems(2) by simp
  show ?case
  proof (cases "f_inode st x = INull")
    case True
    then have "invalidate_pass env ok n st = None" using x by (subst invalidate_pass.simps) (simp add: h)
    then show ?thesis using True by simp
  next
    case ino: False
    show ?thesis
    proof (cases "i_sb (f_vfs st) (f_inode st x)")
      case False
      from ft.turn [OF Cons.prems(1), of Used_files x "xs @ Token # ks"] Cons.prems(2) obtain st1 where t:
          "turn_list x Used_files st = Some st1" "queues st1 (Q(Used_files := xs @ Token # ks @ [x]))" "same_files st st1"
        by (auto simp: turn_list_def)
      have u: "(Q(Used_files := xs @ Token # ks @ [x])) Used_files = xs @ Token # (ks @ [x])" by simp
      have s: "f_inode st1 = f_inode st" "f_vfs st1 = f_vfs st" using same_files_simps [OF t(3)] by simp_all
      have r: "invalidate_pass env ok n st = invalidate_pass env ok n st1"
        using x ino False by (subst invalidate_pass.simps) (simp add: h t(1))
      note ih = Cons.IH [OF t(2) u x(3,4), of n, unfolded s]
      show ?thesis
      proof (cases "invalidate_list env ok (f_inode st) xs (f_vfs st)")
        case None
        then show ?thesis using ih ino False r by simp
      next
        case (Some a)
        obtain kept dead v where a: "a = (kept, dead, v)" by (cases a)
        have e: "(Q(Used_files := xs @ Token # ks @ [x]))(Used_files := Token # (ks @ [x]) @ kept,
            Dead_files := (Q(Used_files := xs @ Token # ks @ [x])) Dead_files @ dead) =
            Q(Used_files := Token # ks @ x # kept, Dead_files := Q Dead_files @ dead)" by simp
        from ih [unfolded Some a option.case prod.case e] obtain st' where st': "invalidate_pass env ok n st1 = Some (n + length dead, st')"
          "queues st' (Q(Used_files := Token # ks @ x # kept, Dead_files := Q Dead_files @ dead))"
          "f_vfs st' = v" "keeps (set dead) st1 st'" "\<forall>x \<in> set dead. f_inode st' x = INull" by (elim exE conjE) (rule that)
        have "keeps (set dead) st st'" by (rule keeps_trans [OF keeps_same [OF t(3)] st'(4)]) auto
        moreover have il: "invalidate_list env ok (f_inode st) (x # xs) (f_vfs st) = Some (x # kept, dead, v)"
          using ino False Some a by simp
        ultimately show ?thesis unfolding il option.case prod.case using st'(1-3,5) unfolding r [symmetric] by (intro exI conjI)
      qed
    next
      case True
      have rem: "remove1 x (Q Used_files) = xs @ Token # ks" using Cons.prems(2) by simp
      show ?thesis
      proof (cases "if ok then iput env (f_inode st x) (f_vfs st) else Some (f_vfs st)")
        case None
        then have k: "kill_file env ok x st = None" using kill_file_step [OF Cons.prems(1) xin, of env ok] by auto
        then have "invalidate_pass env ok n st = None" using x ino True by (subst invalidate_pass.simps) (simp add: h)
        moreover have "invalidate_list env ok (f_inode st) (x # xs) (f_vfs st) = None"
          using ino True None by (simp only: invalidate_list.simps if_True if_False simp_thms Option.bind.simps)
        ultimately show ?thesis by simp
      next
        case (Some w)
        then obtain st1 where k: "kill_file env ok x st = Some st1"
            "queues st1 (Q(Used_files := xs @ Token # ks, Dead_files := Q Dead_files @ [x]))" "keeps {x} st st1" "f_vfs st1 = w"
            "f_inode st1 x = INull"
          using kill_file_step [OF Cons.prems(1) xin, of env ok] unfolding rem by auto
        have u: "(Q(Used_files := xs @ Token # ks, Dead_files := Q Dead_files @ [x])) Used_files = xs @ Token # ks" by simp
        have r: "invalidate_pass env ok n st = invalidate_pass env ok (Suc n) st1"
          using x ino True by (subst invalidate_pass.simps) (simp add: h k(1))
        have li: "invalidate_list env ok (f_inode st1) xs w = invalidate_list env ok (f_inode st) xs w"
          by (rule invalidate_list_cong, rule keepsD(1) [OF k(3)]) (use d in auto)
        note ih = Cons.IH [OF k(2) u x(3,4), of "Suc n", unfolded k(4) li]
        have l: "invalidate_list env ok (f_inode st) (x # xs) (f_vfs st) =
            map_option (\<lambda>(kept, dead, v). (kept, x # dead, v)) (invalidate_list env ok (f_inode st) xs w)"
          using ino True Some by (simp only: invalidate_list.simps if_True if_False simp_thms Option.bind.simps)
        show ?thesis
        proof (cases "invalidate_list env ok (f_inode st) xs w")
          case None
          then show ?thesis using ih l r by simp
        next
          case (Some a)
          obtain kept dead v where a: "a = (kept, dead, v)" by (cases a)
          have e: "(Q(Used_files := xs @ Token # ks, Dead_files := Q Dead_files @ [x]))(Used_files := Token # ks @ kept,
              Dead_files := (Q(Used_files := xs @ Token # ks, Dead_files := Q Dead_files @ [x])) Dead_files @ dead) =
              Q(Used_files := Token # ks @ kept, Dead_files := Q Dead_files @ x # dead)" by simp
          from ih [unfolded Some a option.case prod.case e] obtain st' where st':
            "invalidate_pass env ok (Suc n) st1 = Some (Suc n + length dead, st')"
            "queues st' (Q(Used_files := Token # ks @ kept, Dead_files := Q Dead_files @ x # dead))"
            "f_vfs st' = v" "keeps (set dead) st1 st'" "\<forall>x \<in> set dead. f_inode st' x = INull" by (elim exE conjE) (rule that)
          have "x \<notin> set dead" using invalidate_list_sets [OF Some [unfolded a]] d by auto
          then have "f_inode st' x = INull" using keepsD(1) [OF st'(4)] k(5) by simp
          then have "\<forall>y \<in> set (x # dead). f_inode st' y = INull" using st'(5) by simp
          moreover have "keeps (set (x # dead)) st st'" by (rule keeps_trans [OF k(3) st'(4)]) auto
          moreover have n: "n + length (x # dead) = Suc n + length dead" by simp
          moreover have il: "invalidate_list env ok (f_inode st) (x # xs) (f_vfs st) = Some (kept, x # dead, v)"
            using l Some a by simp
          ultimately show ?thesis unfolding il option.case prod.case n using st'(1-3) unfolding r [symmetric] by (intro exI conjI)
        qed
      qed
    qed
  qed
qed

lemma token_loose:
  assumes "queues st Q" and "\<And>l. Token \<notin> set (Q l)"
  shows "\<exists>st'. put_last_in_list Token l (clear_file Token st) = Some st' \<and> queues st' (Q(l := Q l @ [Token])) \<and>
    keeps {Token} st st' \<and> f_vfs st' = f_vfs st"
proof -
  note c = clear_outside [OF assms(1) _ assms(2), simplified]
  from put_step [OF c, of l] obtain st' where p: "put_last_in_list Token l (clear_file Token st) = Some st'"
    "queues st' (Q(l := Q l @ [Token]))" "same_files (clear_file Token st) st'" by (elim exE conjE) (rule that)
  have "keeps {Token} st st'" by (rule keeps_trans [OF keeps_clear keeps_same [OF p(3)]]) blast+
  moreover have "f_vfs st' = f_vfs st" using same_files_simps(1) [OF p(3)] by (simp add: clear_file_def)
  ultimately show ?thesis using p(1,2) by (intro exI conjI)
qed

lemma invalidate_files_list:
  assumes q: "queues st Q" and t: "\<And>l. Token \<notin> set (Q l)"
  shows "case invalidate_list env ok (f_inode st) (Q Used_files) (f_vfs st) of
      None \<Rightarrow> invalidate_files env ok st = None
    | Some (kept, dead, v) \<Rightarrow> \<exists>st'. invalidate_files env ok st = Some st' \<and>
        queues st' (Q(Used_files := kept, Dead_files := Q Dead_files @ dead)) \<and>
        f_vfs st' = v \<and> keeps (insert Token (set dead)) st st' \<and> (\<forall>x \<in> set dead. f_inode st' x = INull)"
proof -
  from token_loose [OF q t, of Used_files] obtain st1 where p: "put_last_in_list Token Used_files (clear_file Token st) = Some st1"
    "queues st1 (Q(Used_files := Q Used_files @ [Token]))" "keeps {Token} st st1" "f_vfs st1 = f_vfs st" by (elim exE conjE) (rule that)
  have u: "(Q(Used_files := Q Used_files @ [Token])) Used_files = Q Used_files @ Token # []" by simp
  have nn: "FNull \<notin> set (Q Used_files)" using q by (auto simp: queues_def)
  have li: "invalidate_list env ok (f_inode st1) (Q Used_files) (f_vfs st1) = invalidate_list env ok (f_inode st) (Q Used_files) (f_vfs st)"
    unfolding p(4) by (rule invalidate_list_cong) (use keepsD(1) [OF p(3)] t [of Used_files] in \<open>metis singletonD\<close>)
  note pass = invalidate_pass_list [OF p(2) u t nn, of env ok 0, unfolded li]
  show ?thesis
  proof (cases "invalidate_list env ok (f_inode st) (Q Used_files) (f_vfs st)")
    case None
    have "invalidate_pass env ok 0 st1 = None" using pass by (simp only: None option.case)
    then have "invalidate_passes env ok st1 = None" by (subst invalidate_passes.simps) simp
    then show ?thesis unfolding None by (simp add: invalidate_files_def p(1))
  next
    case (Some a)
    obtain kept dead v where a: "a = (kept, dead, v)" by (cases a)
    have e: "(Q(Used_files := Q Used_files @ [Token]))(Used_files := Token # [] @ kept,
        Dead_files := (Q(Used_files := Q Used_files @ [Token])) Dead_files @ dead) =
      Q(Used_files := Token # kept, Dead_files := Q Dead_files @ dead)" by simp
    from pass [unfolded Some a option.case prod.case e] obtain st2 where s: "invalidate_pass env ok 0 st1 = Some (0 + length dead, st2)"
      "queues st2 (Q(Used_files := Token # kept, Dead_files := Q Dead_files @ dead))" "f_vfs st2 = v" "keeps (set dead) st1 st2"
      "\<forall>x \<in> set dead. f_inode st2 x = INull" by (elim exE conjE) (rule that)
    have h: "list_head st2 Used_files = Token" using s(2) by (simp add: queues_def queue_def)
    have "invalidate_pass env ok 0 st2 = Some (0, st2)" by (subst invalidate_pass.simps) (simp add: h)
    then have "invalidate_passes env ok st2 = Some st2" by (subst invalidate_passes.simps) simp
    then have ps: "invalidate_passes env ok st1 = Some st2" using s(1) by (subst invalidate_passes.simps) (simp split: if_splits)
    have tin: "Token \<in> set ((Q(Used_files := Token # kept, Dead_files := Q Dead_files @ dead)) Used_files)" by simp
    have e2: "(Q(Used_files := Token # kept, Dead_files := Q Dead_files @ dead))(Used_files :=
        remove1 Token ((Q(Used_files := Token # kept, Dead_files := Q Dead_files @ dead)) Used_files)) =
        Q(Used_files := kept, Dead_files := Q Dead_files @ dead)" by auto
    from remove_step [OF s(2) tin, unfolded e2] obtain st3 where r: "remove_from_list Token Used_files st2 = Some st3"
      "queues st3 (Q(Used_files := kept, Dead_files := Q Dead_files @ dead))" "same_files st2 st3" by (elim exE conjE) (rule that)
    have "invalidate_files env ok st = Some st3" by (simp add: invalidate_files_def p(1) ps r(1))
    moreover have "keeps (insert Token (set dead)) st st3"
      by (rule keeps_trans [OF keeps_trans [OF p(3) s(4), of "insert Token (set dead)"] keeps_same [OF r(3), of "{}"]]) blast+
    moreover have "f_vfs st3 = v" "\<forall>x \<in> set dead. f_inode st3 x = INull"
      using s(3,5) same_files_simps(1,5) [OF r(3)] by simp_all
    ultimately show ?thesis unfolding Some a option.case prod.case using r(2) by (intro exI conjI)
  qed
qed

section \<open>release_files\<close>

text \<open>The number of files of the device among \<open>xs\<close>, and the state when those of regular files have been released.\<close>

fun release_list :: "(fptr \<Rightarrow> iptr) \<Rightarrow> (fptr \<Rightarrow> inode_ops) \<Rightarrow> fptr list \<Rightarrow> vfs \<Rightarrow> (nat \<times> vfs) option" where
  "release_list ino ops [] v = Some (0, v)"
| "release_list ino ops (x # xs) v =
     (if ino x = INull then None
      else if i_sb v (ino x) then
        Option.bind (if ops x = File_ops then do_fs ext2_release_file (ino x) v else Some v) (\<lambda>v.
          map_option (\<lambda>(n, v). (Suc n, v)) (release_list ino ops xs v))
      else release_list ino ops xs v)"

lemma release_list_cong:
  "(\<And>x. x \<in> set xs \<Longrightarrow> ino' x = ino x \<and> ops' x = ops x) \<Longrightarrow> release_list ino' ops' xs v = release_list ino ops xs v"
proof (induction xs arbitrary: v)
  case (Cons x xs)
  have "ino' x = ino x" "ops' x = ops x" "\<And>v. release_list ino' ops' xs v = release_list ino ops xs v"
    using Cons.prems Cons.IH by auto
  then show ?case by (simp only: release_list.simps)
qed simp

lemma release_file_eq:
  "release_file x st = map_option (\<lambda>v. st\<lparr>f_vfs := v\<rparr>) (if f_op st x = File_ops then do_fs ext2_release_file (f_inode st x) (f_vfs st) else Some (f_vfs st))"
  by (simp add: release_file_def)

lemma same_files_vfs:
  assumes "same_files (st\<lparr>f_vfs := v\<rparr>) st1"
  shows "same_files (st\<lparr>f_vfs := w\<rparr>) (st1\<lparr>f_vfs := w\<rparr>)"
proof -
  from assms obtain n p fl h c where e: "st1 = st\<lparr>f_vfs := v, f_next := n, f_prev := p, f_list := fl, list_head := h, list_count := c\<rparr>"
    unfolding same_files_def by blast
  have "st1\<lparr>f_vfs := w\<rparr> = (st\<lparr>f_vfs := w\<rparr>)\<lparr>f_next := n, f_prev := p, f_list := fl, list_head := h, list_count := c\<rparr>"
    unfolding e by (cases st) simp
  then show ?thesis using same_filesI by metis
qed

lemma release_pass_list:
  assumes "queues st Q" and "Q l = xs @ Token # ks" and "Token \<notin> set xs" "FNull \<notin> set xs"
  shows "case release_list (f_inode st) (f_op st) xs (f_vfs st) of
      None \<Rightarrow> release_pass l n st = None
    | Some (m, v) \<Rightarrow> \<exists>st'. release_pass l n st = Some (n + m, st') \<and> queues st' (Q(l := Token # ks @ xs)) \<and>
        same_files (st\<lparr>f_vfs := v\<rparr>) st'"
  using assms
proof (induction xs arbitrary: st Q ks n)
  case Nil
  have h: "list_head st l = Token" using Nil.prems(1,2) by (simp add: queues_def queue_def)
  have "release_pass l n st = Some (n, st)" by (subst release_pass.simps) (simp add: h)
  moreover have "Q(l := Token # ks) = Q" using Nil.prems(2) by auto
  ultimately show ?case using Nil.prems(1) by (simp add: same_files_refl)
next
  case (Cons x xs)
  have h: "list_head st l = x" using Cons.prems(1,2) by (simp add: queues_def queue_def)
  have x: "x \<noteq> FNull" "x \<noteq> Token" "Token \<notin> set xs" "FNull \<notin> set xs" using Cons.prems(3,4) by auto
  show ?case
  proof (cases "f_inode st x = INull")
    case True
    then have "release_pass l n st = None" using x by (subst release_pass.simps) (simp add: h)
    then show ?thesis using True by simp
  next
    case ino: False
    define r where "r = (if i_sb (f_vfs st) (f_inode st x) then
        if f_op st x = File_ops then do_fs ext2_release_file (f_inode st x) (f_vfs st) else Some (f_vfs st) else Some (f_vfs st))"
    define k where "k = (if i_sb (f_vfs st) (f_inode st x) then Suc 0 else 0)"
    have rl: "release_list (f_inode st) (f_op st) (x # xs) (f_vfs st) =
        Option.bind r (\<lambda>v. map_option (\<lambda>(m, v). (k + m, v)) (release_list (f_inode st) (f_op st) xs v))"
      using ino by (simp add: r_def k_def option.map_ident split_def)
    have rp: "release_pass l n st = Option.bind r (\<lambda>v. Option.bind (turn_list x l (st\<lparr>f_vfs := v\<rparr>)) (release_pass l (n + k)))"
    proof (cases "i_sb (f_vfs st) (f_inode st x)")
      case True
      then show ?thesis using x ino by (subst release_pass.simps) (simp add: h r_def k_def release_file_def Let_def bind_map_option o_def)
    next
      case False
      then show ?thesis using x ino by (subst release_pass.simps) (simp add: h r_def k_def)
    qed
    show ?thesis
    proof (cases r)
      case None
      then show ?thesis unfolding rl rp by simp
    next
      case (Some v)
      have q1: "queues (st\<lparr>f_vfs := v\<rparr>) Q" using Cons.prems(1) by (simp only: queues_vfs)
      from ft.turn [OF q1, of l x "xs @ Token # ks"] Cons.prems(2) obtain st1 where t:
          "turn_list x l (st\<lparr>f_vfs := v\<rparr>) = Some st1" "queues st1 (Q(l := xs @ Token # ks @ [x]))" "same_files (st\<lparr>f_vfs := v\<rparr>) st1"
        by (auto simp: turn_list_def)
      have u: "(Q(l := xs @ Token # ks @ [x])) l = xs @ Token # (ks @ [x])" by simp
      have s: "f_inode st1 = f_inode st" "f_vfs st1 = v" "f_op st1 = f_op st" using same_files_simps [OF t(3)] by simp_all
      have rp1: "release_pass l n st = release_pass l (n + k) st1" unfolding rp Some by (simp add: t(1))
      note ih = Cons.IH [OF t(2) u x(3,4), of "n + k", unfolded s]
      show ?thesis
      proof (cases "release_list (f_inode st) (f_op st) xs v")
        case None
        then show ?thesis using ih rp1 unfolding rl Some by simp
      next
        case S: (Some a)
        obtain m w where a: "a = (m, w)" by (cases a)
        have e: "(Q(l := xs @ Token # ks @ [x]))(l := Token # (ks @ [x]) @ xs) = Q(l := Token # ks @ x # xs)" by simp
        from ih [unfolded S a option.case prod.case e] obtain st' where st': "release_pass l (n + k) st1 = Some (n + k + m, st')"
          "queues st' (Q(l := Token # ks @ x # xs))" "same_files (st1\<lparr>f_vfs := w\<rparr>) st'" by (elim exE conjE) (rule that)
        have "same_files (st\<lparr>f_vfs := w\<rparr>) (st1\<lparr>f_vfs := w\<rparr>)"
          by (rule same_files_vfs [OF t(3)])
        then have "same_files (st\<lparr>f_vfs := w\<rparr>) st'" using st'(3) same_files_trans by blast
        moreover have il: "release_list (f_inode st) (f_op st) (x # xs) (f_vfs st) = Some (k + m, w)" unfolding rl Some by (simp add: S a)
        moreover have n: "n + (k + m) = n + k + m" by simp
        ultimately show ?thesis unfolding il option.case prod.case n using st'(1,2) unfolding rp1 [symmetric] by (intro exI conjI)
      qed
    qed
  qed
qed

lemma release_passes_list:
  assumes "queues st Q" and "Q l = xs @ [Token]" and "Token \<notin> set xs" "FNull \<notin> set xs"
  shows "case release_list (f_inode st) (f_op st) xs (f_vfs st) of
      None \<Rightarrow> release_passes l st = None
    | Some (m, v) \<Rightarrow> \<exists>st'. release_passes l st = Some st' \<and> queues st' (Q(l := Token # xs)) \<and> same_files (st\<lparr>f_vfs := v\<rparr>) st'"
proof -
  note pass = release_pass_list [OF assms, of 0]
  show ?thesis
  proof (cases "release_list (f_inode st) (f_op st) xs (f_vfs st)")
    case None
    then have "release_pass l 0 st = None" using pass by simp
    then have "release_passes l st = None" by (subst release_passes.simps) simp
    then show ?thesis using None by simp
  next
    case (Some a)
    obtain m v where a: "a = (m, v)" by (cases a)
    from pass [unfolded Some a option.case prod.case] obtain st1 where s: "release_pass l 0 st = Some (0 + m, st1)"
      "queues st1 (Q(l := Token # [] @ xs))" "same_files (st\<lparr>f_vfs := v\<rparr>) st1" by (elim exE conjE) (rule that)
    have h: "list_head st1 l = Token" using s(2) by (simp add: queues_def queue_def)
    have "release_pass l 0 st1 = Some (0, st1)" by (subst release_pass.simps) (simp add: h)
    then have "release_passes l st1 = Some st1" by (subst release_passes.simps) simp
    then have "release_passes l st = Some st1" using s(1) by (subst release_passes.simps) (simp split: if_splits)
    then show ?thesis unfolding Some a option.case prod.case using s(2,3) by (intro exI conjI) simp_all
  qed
qed

text \<open>\<open>release_files\<close> releases each used file and then each swapper file of the device once and keeps the
  order of both lists, but it leaves the \<open>token\<close>, which is on its stack, at the head of the list of the
  swapper's files when it returns.\<close>

lemma release_leaves_token:
  assumes q: "queues st Q" and t: "\<And>l. Token \<notin> set (Q l)"
  shows "case Option.bind (release_list (f_inode st) (f_op st) (Q Used_files) (f_vfs st))
        (\<lambda>(_, v). release_list (f_inode st) (f_op st) (Q Page_files) v) of
      None \<Rightarrow> release_files st = None
    | Some (_, v) \<Rightarrow> \<exists>st'. release_files st = Some st' \<and> f_vfs st' = v \<and> queues st' (Q(Page_files := Token # Q Page_files)) \<and>
        list_head st' Page_files = Token"
proof -
  from token_loose [OF q t, of Used_files] obtain st1 where p: "put_last_in_list Token Used_files (clear_file Token st) = Some st1"
    "queues st1 (Q(Used_files := Q Used_files @ [Token]))" "keeps {Token} st st1" "f_vfs st1 = f_vfs st" by (elim exE conjE) (rule that)
  have u: "(Q(Used_files := Q Used_files @ [Token])) Used_files = Q Used_files @ [Token]" by simp
  have nn: "FNull \<notin> set (Q l)" for l using q by (auto simp: queues_def)
  have cong: "release_list (f_inode st2) (f_op st2) (Q l) w = release_list (f_inode st) (f_op st) (Q l) w"
    if "keeps {Token} st st2" for st2 l w
  proof (rule release_list_cong)
    fix x assume "x \<in> set (Q l)"
    then have "x \<notin> {Token}" using t [of l] by blast
    then show "f_inode st2 x = f_inode st x \<and> f_op st2 x = f_op st x" using keepsD [OF that] by blast
  qed
  note pass = release_passes_list [OF p(2) u t nn, unfolded cong [OF p(3)] p(4)]
  show ?thesis
  proof (cases "release_list (f_inode st) (f_op st) (Q Used_files) (f_vfs st)")
    case None
    then have "release_passes Used_files st1 = None" using pass by simp
    then show ?thesis using None by (simp add: release_files_def p(1))
  next
    case (Some a)
    obtain m v where a: "a = (m, v)" by (cases a)
    have e: "(Q(Used_files := Q Used_files @ [Token]))(Used_files := Token # Q Used_files) = Q(Used_files := Token # Q Used_files)" by simp
    from pass [unfolded Some a option.case prod.case e] obtain st2 where s: "release_passes Used_files st1 = Some st2"
      "queues st2 (Q(Used_files := Token # Q Used_files))" "same_files (st1\<lparr>f_vfs := v\<rparr>) st2" by (elim exE conjE) (rule that)
    have tin: "Token \<in> set ((Q(Used_files := Token # Q Used_files)) Used_files)" by simp
    have e2: "(Q(Used_files := Token # Q Used_files))(Used_files := remove1 Token ((Q(Used_files := Token # Q Used_files)) Used_files)) = Q"
      by auto
    from remove_step [OF s(2) tin, unfolded e2] obtain st3 where r: "remove_from_list Token Used_files st2 = Some st3"
      "queues st3 Q" "loose Token st3" "same_files st2 st3" by (elim exE conjE) (rule that)
    from put_step [OF r(2,3), of Page_files] obtain st4 where g: "put_last_in_list Token Page_files st3 = Some st4"
      "queues st4 (Q(Page_files := Q Page_files @ [Token]))" "same_files st3 st4" by (elim exE conjE) (rule that)
    have k4: "keeps {Token} st st4"
      by (rule keeps_trans [OF keeps_trans [OF keeps_trans [OF p(3) keeps_vfs [of "{Token}" st1 v], of "{Token}"]
            keeps_same [OF same_files_trans [OF s(3) r(4)], of "{Token}"], of "{Token}"] keeps_same [OF g(3), of "{Token}"]]) blast+
    have v4: "f_vfs st4 = v" using same_files_simps(1) [OF g(3)] same_files_simps(1) [OF r(4)] same_files_simps(1) [OF s(3)] by simp
    have u4: "(Q(Page_files := Q Page_files @ [Token])) Page_files = Q Page_files @ [Token]" by simp
    note pass2 = release_passes_list [OF g(2) u4 t nn, unfolded cong [OF k4] v4]
    have rf: "release_files st = release_passes Page_files st4" by (simp add: release_files_def p(1) s(1) r(1) g(1))
    show ?thesis
    proof (cases "release_list (f_inode st) (f_op st) (Q Page_files) v")
      case None
      then show ?thesis using pass2 rf Some a by simp
    next
      case S: (Some b)
      obtain m' w where b: "b = (m', w)" by (cases b)
      have e4: "(Q(Page_files := Q Page_files @ [Token]))(Page_files := Token # Q Page_files) = Q(Page_files := Token # Q Page_files)" by simp
      from pass2 [unfolded S b option.case prod.case e4] obtain st5 where f: "release_passes Page_files st4 = Some st5"
        "queues st5 (Q(Page_files := Token # Q Page_files))" "same_files (st4\<lparr>f_vfs := w\<rparr>) st5" by (elim exE conjE) (rule that)
      have "list_head st5 Page_files = Token" using f(2) by (simp add: queues_def queue_def)
      moreover have "f_vfs st5 = w" using same_files_simps(1) [OF f(3)] by simp
      ultimately show ?thesis using f(1,2) rf Some a S b by simp
    qed
  qed
qed

section \<open>The table as a whole\<close>

text \<open>C26. Going through the used files, \<open>invalidate_files\<close> looks at each of them once, gives the inode of each
  file of the device back when it may, and moves these files, cleared, to the end of the list of dead files; the
  others stay in use, in their order. When giving back an inode fails, so does the whole.\<close>

theorem invalidate_files_refines:
  assumes "queues st Q" and "\<And>l. Token \<notin> set (Q l)"
  shows "case invalidate_list env iput_allowed (f_inode st) (Q Used_files) (f_vfs st) of
      None \<Rightarrow> invalidate_files env iput_allowed st = None
    | Some (kept, dead, v) \<Rightarrow> \<exists>st'. invalidate_files env iput_allowed st = Some st' \<and>
        queues st' (Q(Used_files := kept, Dead_files := Q Dead_files @ dead)) \<and> f_vfs st' = v \<and>
        (\<forall>x. x \<notin> set dead \<and> x \<noteq> Token \<longrightarrow> file_fields st' x = file_fields st x) \<and> (\<forall>x \<in> set dead. f_inode st' x = INull)"
proof (cases "invalidate_list env iput_allowed (f_inode st) (Q Used_files) (f_vfs st)")
  case None
  then show ?thesis using invalidate_files_list [OF assms, of env iput_allowed] by simp
next
  case (Some a)
  obtain kept dead v where a: "a = (kept, dead, v)" by (cases a)
  from invalidate_files_list [OF assms, of env iput_allowed, unfolded Some a option.case prod.case] obtain st' where s:
    "invalidate_files env iput_allowed st = Some st'" "queues st' (Q(Used_files := kept, Dead_files := Q Dead_files @ dead))"
    "f_vfs st' = v" "keeps (insert Token (set dead)) st st'" "\<forall>x \<in> set dead. f_inode st' x = INull" by (elim exE conjE) (rule that)
  have "\<forall>x. x \<notin> set dead \<and> x \<noteq> Token \<longrightarrow> file_fields st' x = file_fields st x" using s(4) by (simp add: keeps_def)
  then show ?thesis unfolding Some a option.case prod.case using s(1-3,5) by (intro exI conjI)
qed

text \<open>The table is well formed: four rings without the token, and pages that bring new files.\<close>

definition filetab_wf :: "filetab \<Rightarrow> bool" where
  "filetab_wf st \<longleftrightarrow> (\<exists>Q. queues st Q \<and> files_ok st Q \<and> (\<forall>l. Token \<notin> set (Q l)))"

text \<open>\<open>get_empty_filp\<close> takes a file that is on no list but the free one, from a new page when none is left,
  clears it, gives it a new version and one use, and puts it at the end of the used files; no file in use changes.
  It returns null only when there is no free file and no memory for a page.\<close>

theorem get_empty_filp_unused:
  assumes "queues st Q" and "files_ok st Q"
  shows "get_empty_filp st = Some (FNull, st) \<and> Q Free_files = [] \<and> file_pages st = [] \<or>
    (\<exists>f st' rest. get_empty_filp st = Some (f, st') \<and> f \<noteq> FNull \<and> f \<notin> set (Q Used_files) \<union> set (Q Dead_files) \<union> set (Q Page_files) \<and>
      queues st' (Q(Free_files := rest, Used_files := Q Used_files @ [f])) \<and>
      (\<forall>x \<in> set (Q Used_files) \<union> set (Q Dead_files) \<union> set (Q Page_files). file_fields st' x = file_fields st x) \<and>
      event (f_vfs st') = event (f_vfs st) + 1 \<and> f_version (f_open st' f) = event (f_vfs st) + 1 \<and>
      f_pos (f_open st' f) = 0 \<and> f_inode st' f = INull \<and> f_count st' f = 1)"
  using get_empty_step [OF assms]
proof (elim disjE exE conjE)
  fix f st' rest
  assume a: "get_empty_filp st = Some (f, st')" "f \<noteq> FNull" "\<forall>l. l \<noteq> Free_files \<longrightarrow> f \<notin> set (Q l)"
    "queues st' (Q(Free_files := rest, Used_files := Q Used_files @ [f]))"
    "\<forall>x l. x \<in> set (Q l) \<and> l \<noteq> Free_files \<longrightarrow> file_fields st' x = file_fields st x"
    "f_vfs st' = (f_vfs st)\<lparr>event := event (f_vfs st) + 1\<rparr>" "f_inode st' f = INull" "f_count st' f = 1"
    "f_open st' f = zero_open\<lparr>f_version := event (f_vfs st) + 1\<rparr>"
  have "f \<notin> set (Q Used_files) \<union> set (Q Dead_files) \<union> set (Q Page_files)" using a(3) by simp
  moreover have "\<forall>x \<in> set (Q Used_files) \<union> set (Q Dead_files) \<union> set (Q Page_files). file_fields st' x = file_fields st x"
    using a(5) by (metis Un_iff flist.distinct(1) flist.distinct(3) flist.distinct(5))
  moreover have "event (f_vfs st') = event (f_vfs st) + 1" "f_version (f_open st' f) = event (f_vfs st) + 1" "f_pos (f_open st' f) = 0"
    using a(6,9) by (simp_all add: zero_open_def)
  ultimately show ?thesis using a(1,2,4,7,8) by (intro disjI2 exI conjI)
qed blast

lemma moved_wf:
  assumes "queues st Q" "files_ok st Q" "\<forall>l. Token \<notin> set (Q l)" and "queues st' Q'" "keeps A st st'"
    and "\<And>l. set (Q' l) \<subseteq> (\<Union>l. set (Q l))"
  shows "filetab_wf st'"
proof -
  have "files_ok st' Q'" by (rule files_ok_cong [OF assms(2,5)]) (use assms(6) in blast)
  moreover have "\<forall>l. Token \<notin> set (Q' l)" using assms(3,6) by blast
  ultimately show ?thesis using assms(4) unfolding filetab_wf_def by blast
qed

lemma put_filp_wf:
  assumes "filetab_wf st" and "put_filp f st = Some st'"
  shows "filetab_wf st'"
proof -
  from assms(1) obtain Q where q: "queues st Q" "files_ok st Q" "\<forall>l. Token \<notin> set (Q l)" unfolding filetab_wf_def by blast
  obtain l where l: "l \<noteq> Free_files" "f \<in> set (Q l)" using put_filp_None [OF q(1)] assms(2) by (metis option.distinct(1))
  from put_filp_listed [OF q(1) l(2,1)] assms(2) have s: "queues st' (Q(l := remove1 f (Q l), Free_files := Q Free_files @ [f]))" "keeps {f} st st'"
    by auto
  show ?thesis
  proof (rule moved_wf [OF q s])
    fix k
    have "set ((Q(l := remove1 f (Q l), Free_files := Q Free_files @ [f])) k) \<subseteq> set (Q k) \<union> set (Q l)"
      using l(2) set_remove1_subset [of f "Q l"] by (cases "k = Free_files"; cases "k = l") auto
    then show "set ((Q(l := remove1 f (Q l), Free_files := Q Free_files @ [f])) k) \<subseteq> (\<Union>l. set (Q l))" by blast
  qed
qed

lemma set_swapper_wf:
  assumes "filetab_wf st" and "set_swapper_filp f st = Some st'"
  shows "filetab_wf st'"
proof -
  from assms(1) obtain Q where q: "queues st Q" "files_ok st Q" "\<forall>l. Token \<notin> set (Q l)" unfolding filetab_wf_def by blast
  have "f_list st f = Some Used_files" using assms(2) by (simp add: set_swapper_filp_def remove_from_list_def split: if_splits)
  then have f: "f \<in> set (Q Used_files)" using q(1) by (simp add: queues_def)
  from ft.move [OF q(1) f, of Page_files] assms(2) have s: "queues st' (Q(Used_files := remove1 f (Q Used_files), Page_files := Q Page_files @ [f]))"
    "same_files st st'" by (auto simp: set_swapper_filp_def)
  show ?thesis
  proof (rule moved_wf [OF q s(1) keeps_same [OF s(2), of "{}"]])
    fix k
    have "set ((Q(Used_files := remove1 f (Q Used_files), Page_files := Q Page_files @ [f])) k) \<subseteq> set (Q k) \<union> set (Q Used_files)"
      using f set_remove1_subset [of f "Q Used_files"] by (cases k) auto
    then show "set ((Q(Used_files := remove1 f (Q Used_files), Page_files := Q Page_files @ [f])) k) \<subseteq> (\<Union>l. set (Q l))" by blast
  qed
qed

lemma get_empty_wf:
  assumes "filetab_wf st" and "get_empty_filp st = Some (f, st')"
  shows "filetab_wf st'"
proof -
  from assms(1) obtain Q where q: "queues st Q" "files_ok st Q" "\<forall>l. Token \<notin> set (Q l)" unfolding filetab_wf_def by blast
  from get_empty_step [OF q(1,2)] show ?thesis
  proof (elim disjE exE conjE)
    assume "get_empty_filp st = Some (FNull, st)"
    then show ?thesis using assms by simp
  next
    fix g st'' rest
    assume a: "get_empty_filp st = Some (g, st'')" "queues st'' (Q(Free_files := rest, Used_files := Q Used_files @ [g]))"
      "files_ok st'' (Q(Free_files := rest, Used_files := Q Used_files @ [g]))" "Token \<notin> set (Q Free_files) \<longrightarrow> Token \<notin> set (g # rest)"
    have "Token \<notin> set ((Q(Free_files := rest, Used_files := Q Used_files @ [g])) l)" for l using a(4) q(3) by (cases l) auto
    then show ?thesis using a(1-3) assms(2) unfolding filetab_wf_def by auto
  qed
qed

lemma invalidate_wf:
  assumes "filetab_wf st" and "invalidate_files env ok st = Some st'"
  shows "filetab_wf st'"
proof -
  from assms(1) obtain Q where q: "queues st Q" "files_ok st Q" "\<forall>l. Token \<notin> set (Q l)" unfolding filetab_wf_def by blast
  note inv = invalidate_files_list [OF q(1), of env ok, OF q(3) [rule_format]]
  then obtain kept dead v where l: "invalidate_list env ok (f_inode st) (Q Used_files) (f_vfs st) = Some (kept, dead, v)"
    using assms(2) by (cases "invalidate_list env ok (f_inode st) (Q Used_files) (f_vfs st)") auto
  have s: "queues st' (Q(Used_files := kept, Dead_files := Q Dead_files @ dead))" "keeps (insert Token (set dead)) st st'"
    using inv assms(2) unfolding l by auto
  show ?thesis
  proof (rule moved_wf [OF q s])
    fix k
    have "set ((Q(Used_files := kept, Dead_files := Q Dead_files @ dead)) k) \<subseteq> set (Q k) \<union> set (Q Used_files)"
      using invalidate_list_sets [OF l] by (cases k) auto
    then show "set ((Q(Used_files := kept, Dead_files := Q Dead_files @ dead)) k) \<subseteq> (\<Union>l. set (Q l))" by blast
  qed
qed

lemma filetab_wf_cong:
  assumes "filetab_wf st" and "f_list st' = f_list st" "f_next st' = f_next st" "f_prev st' = f_prev st" "f_magic st' = f_magic st"
    "list_head st' = list_head st" "list_count st' = list_count st" "file_pages st' = file_pages st" "files_per_page st' = files_per_page st"
  shows "filetab_wf st'"
  using assms(1) by (simp add: filetab_wf_def queues_def queue_def files_ok_def assms(2-))

lemma vfs_close_wf:
  assumes wf: "filetab_wf st" and c: "vfs_close env f st = Some st'"
  shows "filetab_wf st'"
proof -
  obtain v where "put_filp f (st\<lparr>f_vfs := v\<rparr>) = Some st'"
  proof (cases "f_inode st f = INull")
    case True
    then have "put_filp f (st\<lparr>f_vfs := f_vfs st\<rparr>) = Some st'" using c by (simp add: vfs_close_def)
    then show thesis by (rule that)
  next
    case False
    then obtain w where "put_filp f (st\<lparr>f_vfs := w\<rparr>) = Some st'" using c by (auto simp: vfs_close_def bind_eq_Some_conv)
    then show thesis by (rule that)
  qed
  moreover have "filetab_wf (st\<lparr>f_vfs := v\<rparr>)" by (rule filetab_wf_cong [OF wf]) simp_all
  ultimately show "filetab_wf st'" by (rule put_filp_wf [rotated])
qed

lemma open_wf:
  assumes wf: "filetab_wf st" and o: "open_by_inode env root ino_no mode st = Some (f, st')"
  shows "filetab_wf st'"
proof -
  obtain g st1 where g: "get_empty_filp st = Some (g, st1)" using o by (auto simp: open_by_inode_def bind_eq_Some_conv)
  have w1: "filetab_wf st1" by (rule get_empty_wf [OF wf g])
  show "filetab_wf st'"
  proof (cases "g = FNull")
    case True
    then show ?thesis using o g w1 by (simp add: open_by_inode_def)
  next
    case False
    define r where "r = (if ino_no = i_ino (v_inode (f_vfs st1) root)
                then Some (root, upd_inode root (\<lambda>i. i\<lparr>i_count := i_count i + 1\<rparr>) (f_vfs st1))
                else iget env ino_no (f_vfs st1))"
    obtain p v where pv: "r = Some (p, v)" using o g False by (auto simp: open_by_inode_def r_def bind_eq_Some_conv)
    define st2 where "st2 = st1\<lparr>f_vfs := v, f_inode := (f_inode st1)(g := p)\<rparr>"
    have w2: "filetab_wf st2" unfolding st2_def by (rule filetab_wf_cong [OF w1]) simp_all
    show ?thesis
    proof (cases "p = INull")
      case True
      then obtain st3 where "put_filp g st2 = Some st3" "st' = st3"
        using o g False pv by (auto simp: open_by_inode_def r_def [symmetric] st2_def bind_eq_Some_conv)
      then show ?thesis using put_filp_wf [OF w2] by blast
    next
      case p: False
      then show ?thesis
        using o g False pv by (auto simp: open_by_inode_def r_def [symmetric] Let_def intro!: filetab_wf_cong [OF w1] split: if_splits)
    qed
  qed
qed

subsection \<open>Each operation exactly\<close>

lemma put_filp_exact:
  assumes q: "queues st Q" "files_ok st Q" and t: "\<forall>l. Token \<notin> set (Q l)"
  shows "if \<exists>l. l \<noteq> Free_files \<and> f \<in> set (Q l)
    then \<exists>l st'. l \<noteq> Free_files \<and> f \<in> set (Q l) \<and> put_filp f st = Some st' \<and> filetab_wf st' \<and>
      queues st' (Q(l := remove1 f (Q l), Free_files := Q Free_files @ [f])) \<and> f_vfs st' = f_vfs st \<and> f_inode st' f = INull \<and>
      (\<forall>x. x \<noteq> f \<longrightarrow> file_fields st' x = file_fields st x)
    else put_filp f st = None"
proof (cases "\<exists>l. l \<noteq> Free_files \<and> f \<in> set (Q l)")
  case True
  then obtain l where l: "l \<noteq> Free_files" "f \<in> set (Q l)" by blast
  obtain st' where s: "put_filp f st = Some st'" "queues st' (Q(l := remove1 f (Q l), Free_files := Q Free_files @ [f]))"
    "keeps {f} st st'" "f_vfs st' = f_vfs st" "f_inode st' f = INull"
    using put_filp_listed [OF q(1) l(2,1)] by (elim exE conjE) (rule that)
  have "filetab_wf st" using q t unfolding filetab_wf_def by blast
  then have "filetab_wf st'" using put_filp_wf s(1) by blast
  moreover have "\<forall>x. x \<noteq> f \<longrightarrow> file_fields st' x = file_fields st x" using s(3) by (simp add: keeps_def)
  ultimately show ?thesis unfolding if_P [OF True] using l s(1,2,4,5) by (intro exI conjI)
next
  case False
  then show ?thesis using put_filp_None [OF q(1), of f] by (simp only: if_False) blast
qed

lemma set_swapper_exact:
  assumes q: "queues st Q" "files_ok st Q" and t: "\<forall>l. Token \<notin> set (Q l)"
  shows "if f \<in> set (Q Used_files)
    then \<exists>st'. set_swapper_filp f st = Some st' \<and> filetab_wf st' \<and>
      queues st' (Q(Used_files := remove1 f (Q Used_files), Page_files := Q Page_files @ [f])) \<and>
      (\<forall>x. file_fields st' x = file_fields st x)
    else set_swapper_filp f st = None"
proof (cases "f \<in> set (Q Used_files)")
  case True
  from ft.move [OF q(1) True, of Page_files] obtain st' where s: "set_swapper_filp f st = Some st'"
    "queues st' (Q(Used_files := remove1 f (Q Used_files), Page_files := Q Page_files @ [f]))" "same_files st st'"
    by (auto simp: set_swapper_filp_def)
  have "filetab_wf st" using q t unfolding filetab_wf_def by blast
  then have "filetab_wf st'" using set_swapper_wf s(1) by blast
  moreover have "\<forall>x. file_fields st' x = file_fields st x" using same_files_simps [OF s(3)] by (simp add: file_fields_def)
  ultimately show ?thesis using True s(1,2) by simp
next
  case False
  then have "f_list st f \<noteq> Some Used_files" using q(1) by (simp add: queues_def)
  then show ?thesis using False by (simp add: set_swapper_filp_def remove_from_list_def)
qed

text \<open>What happens to the inode of a file that is closed.\<close>

definition give_back :: "env \<Rightarrow> fptr \<Rightarrow> filetab \<Rightarrow> vfs option" where
  "give_back env f st = (if f_inode st f \<noteq> INull then iput env (f_inode st f) (f_vfs st) else Some (f_vfs st))"

lemma vfs_close_eq: "vfs_close env f st = Option.bind (give_back env f st) (\<lambda>v. put_filp f (st\<lparr>f_vfs := v\<rparr>))"
  by (cases "iput env (f_inode st f) (f_vfs st)") (simp_all add: vfs_close_def give_back_def)

lemma vfs_close_exact:
  assumes q: "queues st Q" "files_ok st Q" and t: "\<forall>l. Token \<notin> set (Q l)"
  shows "if (\<exists>l. l \<noteq> Free_files \<and> f \<in> set (Q l)) \<and> give_back env f st \<noteq> None
    then \<exists>l st'. l \<noteq> Free_files \<and> f \<in> set (Q l) \<and> vfs_close env f st = Some st' \<and> filetab_wf st' \<and>
      queues st' (Q(l := remove1 f (Q l), Free_files := Q Free_files @ [f])) \<and> Some (f_vfs st') = give_back env f st \<and>
      f_inode st' f = INull \<and> (\<forall>x. x \<noteq> f \<longrightarrow> file_fields st' x = file_fields st x)
    else vfs_close env f st = None"
proof (cases "give_back env f st")
  case None
  then show ?thesis by (simp add: vfs_close_eq)
next
  case (Some v)
  let ?st = "st\<lparr>f_vfs := v\<rparr>"
  have q': "queues ?st Q" "files_ok ?st Q" using q by (simp_all add: queues_vfs files_ok_def)
  have c: "vfs_close env f st = put_filp f ?st" unfolding vfs_close_eq Some by simp
  have e: "file_fields ?st x = file_fields st x" for x by (simp add: file_fields_def)
  have v: "f_vfs ?st = v" by simp
  show ?thesis
    using put_filp_exact [OF q' t, of f] unfolding c Some e v
    by (simp only: option.distinct simp_thms option.inject)
qed

lemma open_exact:
  assumes q: "queues st Q" "files_ok st Q" and t: "\<forall>l. Token \<notin> set (Q l)"
  shows "(iget env ino_no ((f_vfs st)\<lparr>event := event (f_vfs st) + 1\<rparr>) \<noteq> None \<longrightarrow> open_by_inode env root ino_no mode st \<noteq> None) \<and>
    (\<forall>f st'. open_by_inode env root ino_no mode st = Some (f, st') \<longrightarrow> filetab_wf st' \<and>
       (\<exists>rest. queues st' (Q(Free_files := rest, Used_files := Q Used_files @ (if f = FNull then [] else [f])))))"
proof -
  have wf: "filetab_wf st" using q t unfolding filetab_wf_def by blast
  let ?r = "open_by_inode env root ino_no mode st"
  let ?Q = "\<lambda>f rest. Q(Free_files := rest, Used_files := Q Used_files @ (if f = FNull then [] else [f]))"
  have fin: "(iget env ino_no ((f_vfs st)\<lparr>event := event (f_vfs st) + 1\<rparr>) \<noteq> None \<longrightarrow> ?r \<noteq> None) \<and>
      (\<forall>f st'. ?r = Some (f, st') \<longrightarrow> (\<exists>rest. queues st' (?Q f rest)))"
    if o: "?r = Some (f0, st0)" and q0: "queues st0 (?Q f0 rest0)" for f0 st0 rest0
  proof (intro conjI impI allI)
    show "?r \<noteq> None" unfolding o by simp
    fix f st'
    assume "?r = Some (f, st')"
    then have "f0 = f" "st0 = st'" unfolding o by simp_all
    then show "\<exists>rest. queues st' (?Q f rest)" using q0 by blast
  qed
  have "(iget env ino_no ((f_vfs st)\<lparr>event := event (f_vfs st) + 1\<rparr>) \<noteq> None \<longrightarrow> open_by_inode env root ino_no mode st \<noteq> None) \<and>
    (\<forall>f st'. open_by_inode env root ino_no mode st = Some (f, st') \<longrightarrow>
       (\<exists>rest. queues st' (Q(Free_files := rest, Used_files := Q Used_files @ (if f = FNull then [] else [f])))))"
    using get_empty_step [OF q]
  proof (elim disjE exE conjE)
    assume "get_empty_filp st = Some (FNull, st)"
    then have o: "open_by_inode env root ino_no mode st = Some (FNull, st)" by (simp add: open_by_inode_def)
    have e: "?Q FNull (Q Free_files) = Q" by simp
    show ?thesis by (rule fin [OF o, of "Q Free_files"]) (unfold e, rule q(1))
  next
    fix g st1 rest
    assume g: "get_empty_filp st = Some (g, st1)" "g \<noteq> FNull" "\<forall>l. l \<noteq> Free_files \<longrightarrow> g \<notin> set (Q l)"
      and q1: "queues st1 (Q(Free_files := rest, Used_files := Q Used_files @ [g]))"
      and v1: "f_vfs st1 = (f_vfs st)\<lparr>event := event (f_vfs st) + 1\<rparr>"
    define r where "r = (if ino_no = i_ino (v_inode (f_vfs st1) root)
                then Some (root, upd_inode root (\<lambda>i. i\<lparr>i_count := i_count i + 1\<rparr>) (f_vfs st1))
                else iget env ino_no (f_vfs st1))"
    show ?thesis
    proof (cases r)
      case None
      then have "open_by_inode env root ino_no mode st = None" using g(1,2) by (simp add: open_by_inode_def r_def [symmetric])
      moreover have "iget env ino_no (f_vfs st1) = None" using None by (simp add: r_def split: if_splits)
      ultimately show ?thesis unfolding v1 by simp
    next
      case (Some pv)
      obtain p v where pv: "r = Some (p, v)" using Some by (cases pv) simp
      define st2 where "st2 = st1\<lparr>f_vfs := v, f_inode := (f_inode st1)(g := p)\<rparr>"
      have q2: "queues st2 (Q(Free_files := rest, Used_files := Q Used_files @ [g]))"
        using q1 by (simp add: st2_def queues_def queue_def)
      show ?thesis
      proof (cases "p = INull")
        case True
        define Q1 where "Q1 = Q(Free_files := rest, Used_files := Q Used_files @ [g])"
        have u: "Q1 Used_files = Q Used_files @ [g]" "Q1 Free_files = rest" by (simp_all add: Q1_def)
        have gu: "g \<in> set (Q1 Used_files)" unfolding u by simp
        obtain st3 where s: "put_filp g st2 = Some st3"
          "queues st3 (Q1(Used_files := remove1 g (Q1 Used_files), Free_files := Q1 Free_files @ [g]))"
          using put_filp_listed [OF q2 [folded Q1_def] gu] by blast
        have "remove1 g (Q Used_files @ [g]) = Q Used_files" using g(3) by (simp add: remove1_append)
        then have e: "Q1(Used_files := remove1 g (Q1 Used_files), Free_files := Q1 Free_files @ [g]) = ?Q FNull (rest @ [g])"
          unfolding u by (auto simp: Q1_def)
        have "open_by_inode env root ino_no mode st = Some (FNull, st3)"
          using g(1,2) pv True s(1) by (simp add: open_by_inode_def r_def [symmetric] st2_def)
        then show ?thesis by (rule fin [OF _ s(2) [unfolded e]])
      next
        case False
        have "\<exists>st3. open_by_inode env root ino_no mode st = Some (g, st3) \<and>
          queues st3 (Q(Free_files := rest, Used_files := Q Used_files @ [g]))"
          using g(1,2) pv False q2 by (auto simp: open_by_inode_def r_def [symmetric] st2_def Let_def queues_def queue_def)
        then obtain st3 where o: "open_by_inode env root ino_no mode st = Some (g, st3)"
          "queues st3 (Q(Free_files := rest, Used_files := Q Used_files @ [g]))" by (elim exE conjE) (rule that)
        have e: "?Q g rest = Q(Free_files := rest, Used_files := Q Used_files @ [g])" using g(2) by simp
        show ?thesis by (rule fin [OF o(1), of rest]) (unfold e, rule o(2))
      qed
    qed
  qed
  then show ?thesis using open_wf [OF wf] by blast
qed

lemma get_empty_exact:
  assumes q: "queues st Q" "files_ok st Q" and t: "\<forall>l. Token \<notin> set (Q l)"
  shows "\<exists>f st'. get_empty_filp st = Some (f, st') \<and> filetab_wf st' \<and>
    (if Q Free_files = [] \<and> file_pages st = [] then f = FNull \<and> st' = st
     else f \<noteq> FNull \<and> f \<notin> set (Q Used_files) \<union> set (Q Dead_files) \<union> set (Q Page_files) \<and>
       (\<exists>rest. queues st' (Q(Free_files := rest, Used_files := Q Used_files @ [f]))) \<and>
       (\<forall>x \<in> set (Q Used_files) \<union> set (Q Dead_files) \<union> set (Q Page_files). file_fields st' x = file_fields st x))"
proof -
  have wf: "filetab_wf st" using q t unfolding filetab_wf_def by blast
  show ?thesis
  proof (cases "Q Free_files = [] \<and> file_pages st = []")
    case True
    then have "list_head st Free_files = FNull" using q(1) by (simp add: queues_def queue_def)
    then have "get_empty_filp st = Some (FNull, st)" using True by (subst get_empty_filp.simps) (simp add: grow_files_def)
    then show ?thesis unfolding if_P [OF True] using wf by blast
  next
    case False
    from get_empty_step [OF q] False obtain f st' rest where g: "get_empty_filp st = Some (f, st')" "f \<noteq> FNull"
      "\<forall>l. l \<noteq> Free_files \<longrightarrow> f \<notin> set (Q l)" "queues st' (Q(Free_files := rest, Used_files := Q Used_files @ [f]))"
      "\<forall>x l. x \<in> set (Q l) \<and> l \<noteq> Free_files \<longrightarrow> file_fields st' x = file_fields st x" by (elim disjE exE conjE) (blast, rule that)
    have "f \<notin> set (Q Used_files) \<union> set (Q Dead_files) \<union> set (Q Page_files)" using g(3) by simp
    moreover have "\<forall>x \<in> set (Q Used_files) \<union> set (Q Dead_files) \<union> set (Q Page_files). file_fields st' x = file_fields st x"
      using g(5) by (metis Un_iff flist.distinct(1) flist.distinct(3) flist.distinct(5))
    ultimately show ?thesis unfolding if_not_P [OF False] using get_empty_wf [OF wf g(1)] g(1,2,4) by blast
  qed
qed

lemma invalidate_files_exact:
  assumes q: "queues st Q" "files_ok st Q" and t: "\<forall>l. Token \<notin> set (Q l)"
  shows "case invalidate_list env ok (f_inode st) (Q Used_files) (f_vfs st) of
      None \<Rightarrow> invalidate_files env ok st = None
    | Some (kept, dead, v) \<Rightarrow> \<exists>st'. invalidate_files env ok st = Some st' \<and> filetab_wf st' \<and>
        queues st' (Q(Used_files := kept, Dead_files := Q Dead_files @ dead)) \<and> f_vfs st' = v"
proof -
  have wf: "filetab_wf st" using q t unfolding filetab_wf_def by blast
  show ?thesis
    using invalidate_files_list [OF q(1) t [rule_format], of env ok] invalidate_wf [OF wf, of env ok]
    by (auto split: option.splits)
qed

lemma token_not_wf:
  assumes "queues st (Q(l := Token # xs))"
  shows "\<not> filetab_wf st"
proof
  assume "filetab_wf st"
  then obtain Q' where "queues st Q'" "Token \<notin> set (Q' l)" unfolding filetab_wf_def by blast
  then have "f_list st Token \<noteq> Some l" by (simp add: queues_def)
  then show False using assms by (simp add: queues_def)
qed

lemma release_exact:
  assumes q: "queues st Q" "files_ok st Q" and t: "\<forall>l. Token \<notin> set (Q l)"
  shows "case Option.bind (release_list (f_inode st) (f_op st) (Q Used_files) (f_vfs st))
        (\<lambda>(_, v). release_list (f_inode st) (f_op st) (Q Page_files) v) of
      None \<Rightarrow> release_files st = None
    | Some (_, v) \<Rightarrow> \<exists>st'. release_files st = Some st' \<and> f_vfs st' = v \<and> queues st' (Q(Page_files := Token # Q Page_files)) \<and>
        list_head st' Page_files = Token \<and> \<not> filetab_wf st'"
  using release_leaves_token [OF q(1) t [rule_format]] token_not_wf [of _ Q Page_files "Q Page_files"]
  by (auto split: option.splits)


end
