(* ===== verification/Ext2_Filetab_Example.thy ===== *)
theory Ext2_Filetab_Example
  imports Ext2_Filetab_Thms Ext2_Icache_Example
begin

text \<open>Concrete tables of open files, on which the theorems on the table hold.\<close>

text \<open>A table without files whose pages hold two files each, and one where file 1 is open on the root.\<close>

definition example_tab :: filetab where
  "example_tab = \<lparr>f_vfs = example_vfs, f_open = (\<lambda>_. zero_open), f_mode = (\<lambda>_. 0), f_count = (\<lambda>_. 0), f_inode = (\<lambda>_. INull),
     f_op = (\<lambda>_. No_ops), f_magic = (\<lambda>_. False), f_list = (\<lambda>_. None), f_next = (\<lambda>_. FNull), f_prev = (\<lambda>_. FNull),
     list_head = (\<lambda>_. FNull), list_count = (\<lambda>_. 0), nr_files = 0, file_pages = [0, 2], files_per_page = 2\<rparr>"

definition example_open_tab :: filetab where
  "example_open_tab = example_tab\<lparr>f_inode := (\<lambda>_. INull)(File 7 := Ino 0), f_magic := (\<lambda>f. f = File 7),
     f_list := (\<lambda>_. None)(File 7 := Some Used_files), f_next := (\<lambda>_. FNull)(File 7 := File 7), f_prev := (\<lambda>_. FNull)(File 7 := File 7),
     list_head := (\<lambda>_. FNull)(Used_files := File 7), list_count := (\<lambda>_. 0)(Used_files := 1)\<rparr>"

lemma example_tab_queues: "queues example_tab (\<lambda>_. [])" "files_ok example_tab (\<lambda>_. [])"
  by (auto simp: queues_def queue_def example_tab_def files_ok_def new_files_def upt_rec)

lemma example_open_queues: "queues example_open_tab ((\<lambda>_. [])(Used_files := [File 7]))"
  by (auto simp: queues_def queue_def example_open_tab_def example_tab_def ring_def)

lemma example_open_sb: "i_sb (f_vfs example_open_tab) (Ino 0)" "f_inode example_open_tab (File 7) = Ino 0"
  by (simp_all add: example_open_tab_def example_tab_def example_vfs_def)

lemma example_open_token: "Token \<notin> set (((\<lambda>_. [])(Used_files := [File 7])) l)"
  by simp

theorem get_empty_filp_unused_witness:
  "\<exists>f st'. get_empty_filp example_tab = Some (f, st') \<and> f \<noteq> FNull \<and> f_version (f_open st' f) = 1 \<and> f_count st' f = 1"
proof -
  have p: "file_pages example_tab \<noteq> []" "event (f_vfs example_tab) = 0" by (simp_all add: example_tab_def example_vfs_def)
  show ?thesis using get_empty_filp_unused [OF example_tab_queues] p by auto
qed

theorem invalidate_files_refines_witness:
  "\<forall>env. \<exists>st'. invalidate_files env False example_open_tab = Some st' \<and>
     queues st' ((\<lambda>_. [])(Used_files := [], Dead_files := [File 7])) \<and> f_inode st' (File 7) = INull"
proof
  fix env
  from invalidate_files_refines [OF example_open_queues example_open_token, of env False]
  show "\<exists>st'. invalidate_files env False example_open_tab = Some st' \<and>
     queues st' ((\<lambda>_. [])(Used_files := [], Dead_files := [File 7])) \<and> f_inode st' (File 7) = INull"
    by (auto simp: example_open_sb)
qed

theorem release_leaves_token_witness:
  "\<exists>st'. release_files example_open_tab = Some st' \<and> list_head st' Page_files = Token"
proof -
  have "f_op example_open_tab (File 7) \<noteq> File_ops" by (simp add: example_open_tab_def example_tab_def)
  with release_leaves_token [OF example_open_queues example_open_token] show ?thesis
    by (auto simp: example_open_sb)
qed


end
