(* ===== verification/Ext2_Readdir.thy ===== *)
theory Ext2_Readdir
  imports Ext2_Namei Ext2_File
begin

text \<open>
  Listing a directory: \<open>ext2_readdir\<close> of \<open>src/ext2/dir.c\<close> and \<open>VFS_readdir\<close> of \<open>src/vfs/read_write.c\<close>.

  The caller's buffer is the list of the entries stored so far; an entry (\<open>struct dirent\<close>) keeps its name
  as bytes, without the final zero. \<open>stored\<close> and \<open>count\<close> are signed. Nothing else runs while an entry is
  copied, so the version of the directory does not change between the two tests of it and the jump back to
  \<open>revalidate\<close> is never taken. The read-ahead takes the buffers and gives them back; whether they are read
  meanwhile does not show. \<open>f_pos\<close> and \<open>i_size\<close> are signed 32-bit values.
\<close>

definition EBADF :: int where "EBADF = 9"

record dirent =
  d_ino :: u32
  d_off :: int
  d_reclen :: nat
  d_name :: "u8 list"

text \<open>The offset of \<open>d_name\<close> in \<open>struct dirent\<close>\<close>

definition NAME_OFFSET :: nat where "NAME_OFFSET = 10"

definition ROUND_UP :: "nat \<Rightarrow> nat" where "ROUND_UP x = (x + 3) div 4 * 4"

definition dlen :: "u8 list \<Rightarrow> nat \<Rightarrow> nat" where
  "dlen bs off = ROUND_UP (NAME_OFFSET + de_name_len bs off + 1)"

definition getblk_at :: "env \<Rightarrow> iptr \<Rightarrow> int \<Rightarrow> u32 option vop" where
  "getblk_at env p block st = do {
     (((bh, _), inode), fs) \<leftarrow> ext2_getblk (cur_time env) (v_inode st p) block False 0 (v_fs st);
     Some (bh, set_inode p inode (st\<lparr>v_fs := fs\<rparr>))
   }"

text \<open>The read-ahead of the blocks behind \<open>blk\<close>.\<close>

fun dir_read_ahead :: "env \<Rightarrow> iptr \<Rightarrow> nat \<Rightarrow> int \<Rightarrow> vfs \<Rightarrow> vfs option" where
  "dir_read_ahead env p 0 blk st = Some st"
| "dir_read_ahead env p (Suc i) blk st = do {
     (bh, st) \<leftarrow> getblk_at env p (blk + 1) st;
     dir_read_ahead env p i (blk + 1) (brelse_at bh st)
   }"

text \<open>The walk to the first entry that does not begin before \<open>offset\<close>.\<close>

function find_offset :: "nat \<Rightarrow> u8 list \<Rightarrow> nat \<Rightarrow> nat \<Rightarrow> nat option" where
  "find_offset bsize bs offset i =
     (if i < bsize \<and> i < offset then
        if \<not> header_in bs i then None
        else if de_rec_len bs i < EXT2_DIR_REC_LEN 1 then Some i
        else find_offset bsize bs offset (i + de_rec_len bs i)
      else Some i)"
  by pat_completeness auto
termination
  by (relation "measure (\<lambda>(bsize, bs, offset, i). offset - i)") (auto simp: EXT2_DIR_REC_LEN_def EXT2_DIR_ROUND_def)

declare find_offset.simps [simp del]

text \<open>\<open>filp->f_pos = (filp->f_pos & ~(sb->s_blocksize - 1)) | offset\<close>\<close>

definition revalidate :: "iptr \<Rightarrow> u8 list \<Rightarrow> nat \<Rightarrow> open_file \<Rightarrow> vfs \<Rightarrow> (nat \<times> open_file) option" where
  "revalidate p bs offset filp st =
     (if f_version filp \<noteq> i_version (v_inode st p) then do {
        i \<leftarrow> find_offset (s_blocksize (v_fs st)) bs offset 0;
        Some (i, filp\<lparr>f_pos := (f_pos filp AND NOT (of_nat (s_blocksize (v_fs st)) - 1)) OR of_nat i,
                     f_version := i_version (v_inode st p)\<rparr>)
      } else Some (offset, filp))"

text \<open>
  The entries of one block, whose buffer is \<open>bh\<close> and whose bytes are \<open>bs\<close>. The result tells whether a bad
  entry ends the call.
\<close>

record readdir_state =
  rd_count :: int
  rd_out :: "dirent list"
  rd_filp :: open_file

definition stored :: "readdir_state \<Rightarrow> int" where
  "stored r = sum_list (List.map d_off (rd_out r))"

function read_entries :: "nat \<Rightarrow> iptr \<Rightarrow> u32 \<Rightarrow> u8 list \<Rightarrow> nat \<Rightarrow> readdir_state \<Rightarrow> (bool \<times> readdir_state) vop" where
  "read_entries bsize p bh bs offset r st =
     (if \<not> (rd_count r > 0 \<and> sint (f_pos (rd_filp r)) < sint (i_size (v_inode st p)) \<and> offset < bsize)
      then Some ((False, r), st)
      else if \<not> header_in bs offset then None
      else if \<not> dir_entry_ok (v_fs st) True bs offset then do {
        fs \<leftarrow> ext2_error (v_fs st);
        let filp = rd_filp r;
        let pos = (f_pos filp AND (of_nat bsize - 1)) + of_nat bsize;
        Some ((True, r\<lparr>rd_filp := filp\<lparr>f_pos := pos\<rparr>\<rparr>), brelse_at (Some bh) (st\<lparr>v_fs := fs\<rparr>))
      }
      else
        let next = (\<lambda>r st. read_entries bsize p bh bs (offset + de_rec_len bs offset)
              (r\<lparr>rd_filp := (rd_filp r)\<lparr>f_pos := f_pos (rd_filp r) + of_nat (de_rec_len bs offset)\<rparr>\<rparr>) st)
        in if de_inode bs offset = 0 then next r st
        else
          let d = int (dlen bs offset);
              count = (if rd_count r = 1 \<and> stored r = 0 then d else rd_count r)
          in if count < d then Some ((False, r\<lparr>rd_count := 0\<rparr>), st)
          else do {
            let e = \<lparr>d_ino = de_inode bs offset, d_off = d, d_reclen = de_name_len bs offset, d_name = de_name bs offset\<rparr>;
            st \<leftarrow> dcache_add_at p (de_name bs offset) (de_inode bs offset) st;
            next (r\<lparr>rd_count := count - d, rd_out := rd_out r @ [e]\<rparr>) st
          })"
  by pat_completeness auto
termination
  by (relation "measure (\<lambda>(bsize, p, bh, bs, offset, r, st). bsize - offset)")
    (auto simp: dir_entry_ok_def EXT2_DIR_REC_LEN_def EXT2_DIR_ROUND_def split: if_splits)

declare read_entries.simps [simp del]

text \<open>
  The loop over the blocks. After a block that cannot be read, \<open>offset\<close> keeps its value while the position
  goes to the next block. A buffer that is not null is up to date.
\<close>

partial_function (option) readdir_loop :: "env \<Rightarrow> iptr \<Rightarrow> nat \<Rightarrow> readdir_state \<Rightarrow> vfs \<Rightarrow> ((bool \<times> readdir_state) \<times> vfs) option" where
  "readdir_loop env p offset r st =
     (let bsize = s_blocksize (v_fs st); filp = rd_filp r in
      if \<not> (rd_count r > 0 \<and> stored r = 0 \<and> sint (f_pos filp) < sint (i_size (v_inode st p))) then Some ((False, r), st)
      else
        let blk = sint (f_pos filp) div int bsize in
        Option.bind (bread_at env p blk False 0 st) (\<lambda>((bh, _), st).
          case bh of
            None \<Rightarrow> readdir_loop env p offset (r\<lparr>rd_filp := filp\<lparr>f_pos := f_pos filp + of_nat (bsize - offset)\<rparr>\<rparr>) st
          | Some b \<Rightarrow>
              Option.bind (if offset = 0 then dir_read_ahead env p (16 div (bsize div 512)) blk st else Some st) (\<lambda>st.
                Option.bind (b_data (v_fs st) b) (\<lambda>bs.
                  Option.bind (revalidate p bs offset filp st) (\<lambda>(offset, filp).
                    Option.bind (read_entries bsize p b bs offset (r\<lparr>rd_filp := filp\<rparr>) st) (\<lambda>((bad, r), st).
                      if bad then Some ((True, r), st)
                      else readdir_loop env p 0 r (brelse_at bh st)))))))"

declare readdir_loop.simps [code]

definition ext2_readdir :: "env \<Rightarrow> iptr \<Rightarrow> open_file \<Rightarrow> int \<Rightarrow> ((int \<times> dirent list) \<times> open_file) vop" where
  "ext2_readdir env p filp count st =
     (if p = INull \<or> \<not> S_ISDIR (i_mode (v_inode st p)) then Some (((- EBADF, []), filp), st)
      else if \<not> i_sb st p then None
      else
        let offset = unat (f_pos filp AND (of_nat (s_blocksize (v_fs st)) - 1)) in do {
          ((bad, r), st) \<leftarrow> readdir_loop env p offset \<lparr>rd_count = count, rd_out = [], rd_filp = filp\<rparr> st;
          let st = (if \<not> bad \<and> \<not> IS_RDONLY (v_fs st)
                    then upd_inode p (\<lambda>i. i\<lparr>i_atime := cur_time env, i_dirt := True\<rparr>) st else st);
          Some (((stored r, rd_out r), rd_filp r), st)
        })"

definition VFS_readdir :: "env \<Rightarrow> iptr \<Rightarrow> open_file \<Rightarrow> ((os2_err \<times> dirent list) \<times> open_file) vop" where
  "VFS_readdir env p filp st =
     (if \<not> S_ISDIR (i_mode (v_inode st p)) then Some (((ERROR_ACCESS_DENIED, []), filp), st)
      else do {
        (((r, out), filp), st) \<leftarrow> ext2_readdir env p filp 1 st;
        Some (((if r > 0 then NO_ERROR else ERROR_HANDLE_EOF, out), filp), st)
      })"

end
