(* ===== verification/Ext2_Readdir_Props.thy ===== *)
theory Ext2_Readdir_Props
  imports Ext2_Readdir Ext2_Find_Props Ext2_File_Props Ext2_Dcache_Props
begin

text \<open>
  Listing a directory: a call of \<open>VFS_readdir\<close> returns the next entry in use, so repeated calls list the
  entries of the directory in order, the ones that the search of a name looks through.
\<close>

section \<open>The steps on the state\<close>

text \<open>What a call changes: the allocation hints of the directory and the name cache.\<close>

definition touched :: "iptr \<Rightarrow> vfs \<Rightarrow> vfs \<Rightarrow> bool" where
  "touched p st st' \<longleftrightarrow> v_fs st' = v_fs st \<and> i_sb st' = i_sb st \<and> hinted (v_inode st p) (v_inode st' p) \<and>
     (\<forall>q. q \<noteq> p \<longrightarrow> v_inode st' q = v_inode st q)"

lemma touched_refl: "touched p st st"
  by (simp add: touched_def hinted_refl)

lemma touched_trans: "touched p st st1 \<Longrightarrow> touched p st1 st2 \<Longrightarrow> touched p st st2"
  unfolding touched_def using hinted_trans by (elim conjE) (intro conjI, simp_all)

lemma brelse_got_held: "brelse (got v) (held v fs) = fs"
proof (cases "v = 0")
  case False
  have "held v fs = with_refs fs ((b_count fs)(v := Suc (b_count fs v)))" using False by (simp add: held_def with_refs_def)
  then show ?thesis using False by (simp add: got_def brelse_refs with_refs_same)
qed (simp add: got_def held_def brelse_def)

lemma read_ahead_frame:
  assumes "blocks_wf (v_fs st)" and "i_ino (v_inode st p) \<noteq> INODE_DASD" and "bn + n < max_blocks (v_fs st)"
  shows "\<exists>st'. dir_read_ahead env p n (int bn) st = Some st' \<and> touched p st st' \<and> v_dc st' = v_dc st"
  using assms
proof (induction n arbitrary: bn st)
  case 0
  then show ?case by (simp add: touched_refl)
next
  case (Suc n)
  define v where "v = file_block (v_fs st) (v_inode st p) (bn + 1)"
  have "bn + 1 < max_blocks (v_fs st)" using Suc.prems(3) by simp
  from ext2_getblk_eq [OF Suc.prems(1) this Suc.prems(2), of "cur_time env" 0] obtain e i' where g: "hinted (v_inode st p) i'"
      "ext2_getblk (cur_time env) (v_inode st p) (int bn + 1) False 0 (v_fs st) = Some (((got v, e), i'), held v (v_fs st))"
    by (auto simp: v_def add.commute)
  define st1 where "st1 = brelse_at (got v) (set_inode p i' (st\<lparr>v_fs := held v (v_fs st)\<rparr>))"
  have f1: "v_fs st1 = v_fs st" "v_inode st1 = (v_inode st)(p := i')" "i_sb st1 = i_sb st" "v_dc st1 = v_dc st"
    by (simp_all add: st1_def brelse_at_def set_inode_def brelse_got_held)
  have t1: "touched p st st1" using g(1) by (simp add: touched_def f1)
  have "dir_read_ahead env p (Suc n) (int bn) st = dir_read_ahead env p n (int (bn + 1)) st1"
    using g(2) by (simp add: getblk_at_def st1_def add.commute)
  moreover have "\<exists>st'. dir_read_ahead env p n (int (bn + 1)) st1 = Some st' \<and> touched p st1 st' \<and> v_dc st' = v_dc st1"
    by (rule Suc.IH) (use Suc.prems g(1) in \<open>simp_all add: f1 hinted_simps\<close>)
  ultimately show ?case using touched_trans [OF t1] f1(4) by auto
qed

lemma dcache_add_ok:
  assumes "dcache_inv dc v"
  shows "\<exists>dc' v'. dcache_add dev dir version name ino dc = Some dc' \<and> dcache_inv dc' v'"
proof (cases "length name \<le> DCACHE_NAME_LEN")
  case True
  then show ?thesis using add_effect [OF assms True refl, of dev dir version ino] by (auto split: option.splits)
next
  case False
  then show ?thesis using assms by (auto simp: dcache_add_def)
qed

section \<open>The entries of a block\<close>

definition dirent_of :: "u8 list \<Rightarrow> nat \<Rightarrow> dirent" where
  "dirent_of bs x = \<lparr>d_ino = de_inode bs x, d_off = int (dlen bs x), d_reclen = de_name_len bs x, d_name = de_name bs x\<rparr>"

lemma dlen_pos: "0 < dlen bs x"
  by (simp add: dlen_def ROUND_UP_def NAME_OFFSET_def)

lemma unat_add_small:
  fixes x :: u32
  assumes "unat x + n < 2 ^ 32"
  shows "unat (x + of_nat n) = unat x + n"
proof -
  have "n < 2 ^ 32" using assms by linarith
  then have "unat (of_nat n :: u32) = n" by (simp only: unat_of_nat take_bit_eq_mod) simp
  then show ?thesis using assms by (simp add: unat_word_ariths(1))
qed

lemma read_entries_step:
  assumes "length bs = bsize" "bsize = s_blocksize (v_fs st)" and "seg (v_fs st) bs off os bsize"
    and "unat (f_pos (rd_filp r)) = base + off" "base + bsize \<le> unat (i_size (v_inode st p))" "unat (i_size (v_inode st p)) < 2 ^ 31"
    and "rd_count r = 1" "rd_out r = []" and "dcache_inv (v_dc st) v"
  shows "if live bs os = []
    then read_entries bsize p bh bs off r st = Some ((False, r\<lparr>rd_filp := (rd_filp r)\<lparr>f_pos := of_nat (base + bsize)\<rparr>\<rparr>), st)
    else \<exists>pre x post dc v'. os = pre @ x # post \<and> live bs pre = [] \<and> de_inode bs x \<noteq> 0 \<and> dcache_inv dc v' \<and>
      read_entries bsize p bh bs off r st = Some ((False, r\<lparr>rd_count := 0, rd_out := [dirent_of bs x],
        rd_filp := (rd_filp r)\<lparr>f_pos := of_nat (base + x + de_rec_len bs x)\<rparr>\<rparr>), st\<lparr>v_dc := dc\<rparr>)"
  using assms
proof (induction os arbitrary: off r)
  case Nil
  then have "off = bsize" by simp
  moreover have "f_pos (rd_filp r) = of_nat (base + bsize)"
  proof -
    have "f_pos (rd_filp r) = of_nat (unat (f_pos (rd_filp r)))" by simp
    then show ?thesis unfolding Nil.prems(4) \<open>off = bsize\<close> .
  qed
  ultimately show ?case by (simp add: read_entries.simps [of bsize p bh bs bsize r st])
next
  case (Cons x xs)
  note P = Cons.prems
  have x: "x = off" "dir_entry_ok (v_fs st) True bs off" and s: "seg (v_fs st) bs (off + de_rec_len bs off) xs bsize" using P(3) by simp_all
  have rec: "12 \<le> de_rec_len bs off" "off + de_rec_len bs off \<le> bsize" using dir_entry_okD(1,4) [OF x(2)] P(2) by simp_all
  have lt: "off < bsize" using rec by linarith
  have hd: "header_in bs off" by (rule header_in_block [OF x(2)]) (use P(1,2) in simp)
  have "unat (f_pos (rd_filp r)) < 2 ^ 31" using P(4-6) lt by linarith
  then have lts: "sint (f_pos (rd_filp r)) < sint (i_size (v_inode st p))"
    using P(4-6) lt by (simp only: sint_small of_nat_less_iff)
  have go: "\<not> \<not> (rd_count r > 0 \<and> sint (f_pos (rd_filp r)) < sint (i_size (v_inode st p)) \<and> off < bsize)"
    using P(7) lts lt by simp
  define r' where "r' = r\<lparr>rd_filp := (rd_filp r)\<lparr>f_pos := f_pos (rd_filp r) + of_nat (de_rec_len bs off)\<rparr>\<rparr>"
  have pos: "unat (f_pos (rd_filp r')) = base + (off + de_rec_len bs off)"
  proof -
    have "unat (f_pos (rd_filp r)) + de_rec_len bs off < 2 ^ 32" using P(4-6) rec by simp
    then show ?thesis using P(4) by (simp add: r'_def unat_add_small)
  qed
  have posw: "f_pos (rd_filp r) + of_nat (de_rec_len bs off) = of_nat (base + off + de_rec_len bs off)"
  proof -
    have "f_pos (rd_filp r) = of_nat (base + off)" unfolding P(4) [symmetric] by simp
    then show ?thesis by simp
  qed
  show ?case
  proof (cases "de_inode bs off = 0")
    case True
    have step: "read_entries bsize p bh bs off r st = read_entries bsize p bh bs (off + de_rec_len bs off) r' st"
      unfolding read_entries.simps [of bsize p bh bs off r st] if_not_P [OF go] using True hd x(2) by (simp add: r'_def)
    have rf: "rd_count r' = 1" "rd_out r' = []" using P(7,8) by (simp_all add: r'_def)
    note ih = Cons.IH [OF P(1,2) s pos P(5,6) rf P(9)]
    have lv: "live bs (x # xs) = live bs xs" using True x(1) by (simp add: live_Cons)
    show ?thesis
    proof (cases "live bs xs = []")
      case T: True
      show ?thesis using ih unfolding lv step if_P [OF T] by (simp add: r'_def)
    next
      case F: False
      from ih [unfolded if_not_P [OF F]] obtain pre y post dc v' where i: "xs = pre @ y # post" "live bs pre = []" "de_inode bs y \<noteq> 0"
        "dcache_inv dc v'" "read_entries bsize p bh bs (off + de_rec_len bs off) r' st = Some ((False, r'\<lparr>rd_count := 0, rd_out := [dirent_of bs y],
          rd_filp := (rd_filp r')\<lparr>f_pos := of_nat (base + y + de_rec_len bs y)\<rparr>\<rparr>), st\<lparr>v_dc := dc\<rparr>)" by (elim exE conjE) (rule that)
      have "x # xs = (x # pre) @ y # post" "live bs (x # pre) = []" using i(1,2) True x(1) by (simp_all add: live_Cons)
      moreover have "read_entries bsize p bh bs off r st = Some ((False, r\<lparr>rd_count := 0, rd_out := [dirent_of bs y],
          rd_filp := (rd_filp r)\<lparr>f_pos := of_nat (base + y + de_rec_len bs y)\<rparr>\<rparr>), st\<lparr>v_dc := dc\<rparr>)"
        unfolding step i(5) by (simp add: r'_def)
      ultimately show ?thesis unfolding lv if_not_P [OF F] using i(3,4) by (intro exI conjI)
    qed
  next
    case False
    obtain dc v' where a: "dcache_add (ucast (i_dev st p)) (i_ino (v_inode st p)) (i_version (v_inode st p)) (de_name bs off)
        (de_inode bs off) (v_dc st) = Some dc" "dcache_inv dc v'" using dcache_add_ok [OF P(9)] by blast
    have add: "dcache_add_at p (de_name bs off) (de_inode bs off) st = Some (st\<lparr>v_dc := dc\<rparr>)" by (simp add: dcache_add_at_def a(1))
    have st0: "stored r = 0" using P(8) by (simp add: stored_def)
    define r2 where "r2 = r\<lparr>rd_count := 0, rd_out := [dirent_of bs off],
        rd_filp := (rd_filp r)\<lparr>f_pos := f_pos (rd_filp r) + of_nat (de_rec_len bs off)\<rparr>\<rparr>"
    have stop: "read_entries bsize p bh bs (off + de_rec_len bs off) r2 (st\<lparr>v_dc := dc\<rparr>) = Some ((False, r2), st\<lparr>v_dc := dc\<rparr>)"
    proof -
      have "\<not> rd_count r2 > 0" by (simp add: r2_def)
      then show ?thesis by (subst read_entries.simps) simp
    qed
    have "read_entries bsize p bh bs off r st = Some ((False, r2), st\<lparr>v_dc := dc\<rparr>)"
      unfolding read_entries.simps [of bsize p bh bs off r st] if_not_P [OF go]
      using False hd x(2) P(7,8) st0 add stop by (simp add: Let_def r2_def dirent_of_def)
    then have "read_entries bsize p bh bs off r st = Some ((False, r\<lparr>rd_count := 0, rd_out := [dirent_of bs off],
        rd_filp := (rd_filp r)\<lparr>f_pos := of_nat (base + off + de_rec_len bs off)\<rparr>\<rparr>), st\<lparr>v_dc := dc\<rparr>)"
      unfolding r2_def posw .
    moreover have "live bs (x # xs) \<noteq> []" using False x(1) by (simp add: live_Cons)
    ultimately show ?thesis using False a(2) x(1)
      by (simp only: if_False) (intro exI [where x = "[]"] exI [where x = off] exI [where x = xs] exI [where x = dc] exI [where x = v'], simp)
  qed
qed

section \<open>The position\<close>

lemma find_offset_seg:
  assumes "length bs = bsize" "bsize = s_blocksize fs" and "seg fs bs i pre off" "off \<le> bsize"
  shows "find_offset bsize bs off i = Some off"
  using assms(3)
proof (induction pre arbitrary: i)
  case Nil
  then show ?case by (simp add: find_offset.simps [of bsize bs off off])
next
  case (Cons x xs)
  then have x: "x = i" "dir_entry_ok fs True bs i" and s: "seg fs bs (i + de_rec_len bs i) xs off" by simp_all
  have rec: "12 \<le> de_rec_len bs i" "i + de_rec_len bs i \<le> off" using dir_entry_okD(1) [OF x(2)] seg_bounds [OF s] by simp_all
  have "header_in bs i" by (rule header_in_block [OF x(2)]) (use assms in simp)
  moreover have "i < off" "i < bsize" using rec assms(4) by linarith+
  moreover have "\<not> de_rec_len bs i < EXT2_DIR_REC_LEN 1" using rec(1) by (simp add: EXT2_DIR_REC_LEN_def EXT2_DIR_ROUND_def)
  ultimately show ?case using Cons.IH [OF s] by (simp add: find_offset.simps [of bsize bs off i])
qed

lemma position_bits:
  fixes x :: u32
  assumes "blocks_wf fs" and "s_blocksize fs < 2 ^ 32" and "unat x mod s_blocksize fs = off"
  shows "(x AND NOT (of_nat (s_blocksize fs) - 1)) OR of_nat off = x"
proof -
  define m :: u32 where "m = of_nat (s_blocksize fs) - 1"
  have u: "unat (x AND m) = off" using mask_blocksize [OF assms(1,2), of x] assms(3) by (simp add: m_def)
  have "x AND m = of_nat (unat (x AND m))" by simp
  then have "of_nat off = x AND m" unfolding u by (rule sym)
  moreover have "(x AND NOT m) OR (x AND m) = x" by (rule bit_eqI) (auto simp: bit_simps)
  ultimately show ?thesis by (simp add: m_def)
qed

text \<open>The entries in use from the position \<open>pos\<close> on, when an entry begins there or the directory ends.\<close>

definition at_entry :: "ext2_fs \<Rightarrow> dblock list \<Rightarrow> nat \<Rightarrow> (u8 list \<times> u32) list \<Rightarrow> bool" where
  "at_entry fs bks pos es \<longleftrightarrow> pos = length bks * s_blocksize fs \<and> es = [] \<or>
     (\<exists>k off pre os. k < length bks \<and> off < s_blocksize fs \<and> pos = k * s_blocksize fs + off \<and>
       snd (snd (bks ! k)) = pre @ os \<and> seg fs (fst (snd (bks ! k))) 0 pre off \<and>
       seg fs (fst (snd (bks ! k))) off os (s_blocksize fs) \<and>
       es = live (fst (snd (bks ! k))) os @ dir_entries (drop (Suc k) bks))"

lemma dir_file_nth:
  assumes "dir_file fs dir bks" and "k < length bks"
  shows "fst (bks ! k) \<noteq> 0" "b_data fs (fst (bks ! k)) = Some (fst (snd (bks ! k)))" "dir_block fs (fst (snd (bks ! k))) (snd (snd (bks ! k)))"
proof -
  have "bks ! k \<in> set bks" using assms(2) by simp
  then show "fst (bks ! k) \<noteq> 0" "b_data fs (fst (bks ! k)) = Some (fst (snd (bks ! k)))" "dir_block fs (fst (snd (bks ! k))) (snd (snd (bks ! k)))"
    using assms(1) by (auto simp: dir_file_def)
qed

lemma at_block:
  assumes "dir_file fs dir bks" and "k \<le> length bks"
  shows "at_entry fs bks (k * s_blocksize fs) (dir_entries (drop k bks))"
proof (cases "k < length bks")
  case True
  note d = dir_file_nth [OF assms(1) True]
  have b0: "0 < s_blocksize fs" using assms(1) by (auto simp: dir_file_def blocks_wf_def)
  have "drop k bks = bks ! k # drop (Suc k) bks" using True by (simp add: Cons_nth_drop_Suc)
  then have "dir_entries (drop k bks) = live (fst (snd (bks ! k))) (snd (snd (bks ! k))) @ dir_entries (drop (Suc k) bks)"
    by (simp add: dir_entries_def split_def)
  then show ?thesis unfolding at_entry_def
    using True b0 d(3) by (intro disjI2 exI [where x = k] exI [where x = 0] exI [where x = "[]"] exI [where x = "snd (snd (bks ! k))"])
      (simp add: dir_block_def)
next
  case False
  then show ?thesis using assms(2) by (simp add: at_entry_def dir_entries_def)
qed

lemma at_after:
  assumes df: "dir_file fs dir bks" and k: "k < length bks" and offs: "snd (snd (bks ! k)) = pre @ x # post"
  shows "at_entry fs bks (k * s_blocksize fs + x + de_rec_len (fst (snd (bks ! k))) x)
    (live (fst (snd (bks ! k))) post @ dir_entries (drop (Suc k) bks))"
proof -
  define bs where "bs = fst (snd (bks ! k))"
  have db: "dir_block fs bs (pre @ x # post)" using dir_file_nth(3) [OF df k] offs by (simp add: bs_def)
  note sp = dir_block_split [OF db]
  have sx: "seg fs bs 0 (pre @ [x]) (x + de_rec_len bs x)" using sp(3,4) by (simp add: seg_append)
  show ?thesis
  proof (cases "x + de_rec_len bs x < s_blocksize fs")
    case True
    then show ?thesis unfolding at_entry_def bs_def [symmetric]
      using k offs sx sp(5) by (intro disjI2 exI [where x = k] exI [where x = "x + de_rec_len bs x"] exI [where x = "pre @ [x]"] exI [where x = post])
        (simp add: bs_def)
  next
    case False
    then have e: "x + de_rec_len bs x = s_blocksize fs" using sp(6) by simp
    have "post = []"
    proof (rule ccontr)
      assume "post \<noteq> []"
      then obtain y ys where "post = y # ys" by (cases post) auto
      then have "dir_entry_ok fs True bs (s_blocksize fs)" using sp(5) e by simp
      then show False using dir_entry_okD(1,4) by fastforce
    qed
    moreover have "at_entry fs bks (Suc k * s_blocksize fs) (dir_entries (drop (Suc k) bks))" by (rule at_block [OF df]) (use k in simp)
    moreover have "k * s_blocksize fs + x + de_rec_len bs x = Suc k * s_blocksize fs" using e by (simp add: add.assoc)
    ultimately show ?thesis unfolding bs_def [symmetric] by (simp only: live_Nil append_Nil)
  qed
qed

section \<open>The loop over the blocks\<close>

definition listing :: "iptr \<Rightarrow> dblock list \<Rightarrow> vfs \<Rightarrow> bool" where
  "listing p bks st \<longleftrightarrow> p \<noteq> INull \<and> S_ISDIR (i_mode (v_inode st p)) \<and> i_sb st p \<and> dir_file (v_fs st) (v_inode st p) bks \<and>
     s_blocksize (v_fs st) < 2 ^ 16 \<and>
     length bks * s_blocksize (v_fs st) + s_blocksize (v_fs st) < 2 ^ 31 \<and> length bks + 16 \<le> max_blocks (v_fs st) \<and> (\<exists>v. dcache_inv (v_dc st) v)"

lemma touched_listing:
  assumes "listing p bks st" and "touched p st st'" and "dcache_inv (v_dc st') v"
  shows "listing p bks st'"
proof -
  have h: "hinted (v_inode st p) (v_inode st' p)" and s: "v_fs st' = v_fs st" "i_sb st' = i_sb st" using assms(2) by (simp_all add: touched_def)
  show ?thesis using assms(1,3) by (auto simp: listing_def s dir_file_hinted [OF h] hinted_simps [OF h])
qed

lemma bread_block:
  assumes l: "listing p bks st" and k: "k < length bks"
  shows "\<exists>e st'. bread_at env p (int k) False 0 st = Some ((Some (fst (bks ! k)), e), st') \<and>
    touched p (st\<lparr>v_fs := with_refs (v_fs st) ((b_count (v_fs st))(fst (bks ! k) := Suc (b_count (v_fs st) (fst (bks ! k)))))\<rparr>) st' \<and>
    v_dc st' = v_dc st"
proof -
  have df: "dir_file (v_fs st) (v_inode st p) bks" and sb: "i_sb st p" using l by (simp_all add: listing_def)
  note d = dir_file_nth [OF df k]
  from dir_getblk [OF df k, of "cur_time env" 0 "b_count (v_fs st)", unfolded with_refs_same] obtain e i' where g: "hinted (v_inode st p) i'"
    "ext2_getblk (cur_time env) (v_inode st p) (int k) False 0 (v_fs st) =
      Some (((Some (fst (bks ! k)), e), i'), with_refs (v_fs st) ((b_count (v_fs st))(fst (bks ! k) := Suc (b_count (v_fs st) (fst (bks ! k))))))"
    by (elim exE conjE) (rule that)
  show ?thesis using sb d(2) g
    by (simp add: bread_at_def ext2_bread_def) (simp add: touched_def set_inode_def)
qed

lemma seg_refs: "seg (with_refs fs c) bs a os e = seg fs bs a os e"
  by (induction os arbitrary: a) (simp_all add: dir_entry_ok_def)

lemma revalidate_same:
  assumes l: "listing p bks st" and t: "s_blocksize (v_fs st2) = s_blocksize (v_fs st)" "i_version (v_inode st2 p) = i_version (v_inode st p)"
    and k: "k < length bks" and off: "off < s_blocksize (v_fs st)" and pos: "f_pos filp = of_nat (k * s_blocksize (v_fs st) + off)"
    and seg: "seg (v_fs st) (fst (snd (bks ! k))) 0 pre off"
  shows "revalidate p (fst (snd (bks ! k))) off filp st2 = Some (off, filp\<lparr>f_version := i_version (v_inode st p)\<rparr>)"
proof (cases "f_version filp = i_version (v_inode st p)")
  case True
  then show ?thesis by (simp add: revalidate_def t)
next
  case False
  define bsize where "bsize = s_blocksize (v_fs st)"
  have df: "dir_file (v_fs st) (v_inode st p) bks" and b16: "bsize < 2 ^ 16" and lim: "length bks * bsize + bsize < 2 ^ 31"
    using l by (simp_all add: listing_def bsize_def)
  have wf: "blocks_wf (v_fs st)" using df by (simp add: dir_file_def)
  have len: "length (fst (snd (bks ! k))) = bsize" using dir_file_nth(3) [OF df k] by (simp add: dir_block_def bsize_def)
  have fo: "find_offset bsize (fst (snd (bks ! k))) off 0 = Some off"
    by (rule find_offset_seg [OF len bsize_def seg]) (use off in \<open>simp add: bsize_def\<close>)
  have "k * bsize + off < 2 ^ 31"
  proof -
    have "Suc k * bsize \<le> length bks * bsize" by (rule mult_le_mono1) (use k in simp)
    moreover have "k * bsize + off < Suc k * bsize" using off by (simp add: bsize_def)
    ultimately show ?thesis using lim by linarith
  qed
  then have "k * bsize + off < 2 ^ 32" by simp
  then have "unat (f_pos filp) = k * bsize + off" unfolding pos bsize_def [symmetric] by (simp only: unat_of_nat take_bit_eq_mod) simp
  then have "unat (f_pos filp) mod s_blocksize (v_fs st) = off" using off by (simp add: bsize_def)
  from position_bits [OF wf _ this] have pb: "(f_pos filp AND NOT (of_nat bsize - 1)) OR of_nat off = f_pos filp"
    using b16 by (simp add: bsize_def)
  show ?thesis using False fo pb by (simp add: revalidate_def t bsize_def)
qed

lemma readdir_step:
  assumes l: "listing p bks st" and k: "k < length bks" and off: "off < s_blocksize (v_fs st)"
    and pos: "f_pos (rd_filp r) = of_nat (k * s_blocksize (v_fs st) + off)"
    and seg: "seg (v_fs st) (fst (snd (bks ! k))) 0 pre off" "seg (v_fs st) (fst (snd (bks ! k))) off os (s_blocksize (v_fs st))"
    and r: "rd_count r = 1" "rd_out r = []"
  shows "\<exists>st2 v. dcache_inv (v_dc st2) v \<and> touched p st st2 \<and>
    (if live (fst (snd (bks ! k))) os = []
     then readdir_loop env p off r st = readdir_loop env p 0
       (r\<lparr>rd_filp := (rd_filp r)\<lparr>f_version := i_version (v_inode st p), f_pos := of_nat (Suc k * s_blocksize (v_fs st))\<rparr>\<rparr>) st2
     else \<exists>us x post. os = us @ x # post \<and> live (fst (snd (bks ! k))) us = [] \<and> de_inode (fst (snd (bks ! k))) x \<noteq> 0 \<and>
       readdir_loop env p off r st = Some ((False, r\<lparr>rd_count := 0, rd_out := [dirent_of (fst (snd (bks ! k))) x],
         rd_filp := (rd_filp r)\<lparr>f_version := i_version (v_inode st p), f_pos := of_nat (k * s_blocksize (v_fs st) + x + de_rec_len (fst (snd (bks ! k))) x)\<rparr>\<rparr>), st2))"
proof -
  define bsize where "bsize = s_blocksize (v_fs st)"
  define b where "b = fst (bks ! k)"
  define bs where "bs = fst (snd (bks ! k))"
  define c where "c = (b_count (v_fs st))(b := Suc (b_count (v_fs st) b))"
  define filp1 where "filp1 = (rd_filp r)\<lparr>f_version := i_version (v_inode st p)\<rparr>"
  have df: "dir_file (v_fs st) (v_inode st p) bks" and b16: "bsize < 2 ^ 16" and lim: "length bks * bsize + bsize < 2 ^ 31"
    and mx: "length bks + 16 \<le> max_blocks (v_fs st)" and sb: "i_sb st p" and dc: "\<exists>v. dcache_inv (v_dc st) v"
    using l by (simp_all add: listing_def bsize_def)
  have wf: "blocks_wf (v_fs st)" and ino: "i_ino (v_inode st p) \<noteq> INODE_DASD" and size: "unat (i_size (v_inode st p)) = length bks * bsize"
    using df by (simp_all add: dir_file_def bsize_def)
  note d = dir_file_nth [OF df k, folded b_def bs_def]
  have b0: "0 < bsize" using off by (simp add: bsize_def)
  have le: "k * bsize + bsize \<le> length bks * bsize"
  proof -
    have "Suc k * bsize \<le> length bks * bsize" by (rule mult_le_mono1) (use k in simp)
    then show ?thesis by simp
  qed
  have p31: "k * bsize + off < 2 ^ 31" using le lim off unfolding bsize_def by linarith
  then have "k * bsize + off < 2 ^ 32" by simp
  then have up: "unat (f_pos (rd_filp r)) = k * bsize + off" unfolding pos bsize_def [symmetric] by (simp only: unat_of_nat take_bit_eq_mod) simp
  have sp: "sint (f_pos (rd_filp r)) = int (k * bsize + off)" using p31 by (subst sint_small) (simp_all only: up)
  have s31: "unat (i_size (v_inode st p)) < 2 ^ 31" using lim by (simp only: size)
  have "k * bsize + off < length bks * bsize" using le off by (simp add: bsize_def)
  then have go: "\<not> \<not> (rd_count r > 0 \<and> stored r = 0 \<and> sint (f_pos (rd_filp r)) < sint (i_size (v_inode st p)))"
    unfolding sp using s31 r by (subst sint_small) (simp_all add: size stored_def flip: of_nat_mult of_nat_add)
  have bl: "sint (f_pos (rd_filp r)) div int bsize = int k"
    unfolding sp zdiv_int [symmetric] using off by (simp add: bsize_def)
  from bread_block [OF l k, of env, folded b_def, folded c_def] obtain e st1 where br:
    "bread_at env p (int k) False 0 st = Some ((Some b, e), st1)" "touched p (st\<lparr>v_fs := with_refs (v_fs st) c\<rparr>) st1" "v_dc st1 = v_dc st"
    by (elim exE conjE) (rule that)
  have f1: "v_fs st1 = with_refs (v_fs st) c" "hinted (v_inode st p) (v_inode st1 p)" using br(2) by (simp_all add: touched_def)
  obtain st2 where ra: "(if off = 0 then dir_read_ahead env p (16 div (bsize div 512)) (int k) st1 else Some st1) = Some st2"
    "touched p st1 st2" "v_dc st2 = v_dc st1"
  proof (cases "off = 0")
    case True
    have "16 div (bsize div 512) \<le> (16 :: nat)" by (rule div_le_dividend)
    then have "k + 16 div (bsize div 512) < max_blocks (v_fs st1)" using k mx unfolding f1 blocks_refs by linarith
    from read_ahead_frame [OF _ _ this, of p env] wf ino obtain st2 where
      "dir_read_ahead env p (16 div (bsize div 512)) (int k) st1 = Some st2" "touched p st1 st2" "v_dc st2 = v_dc st1"
      by (auto simp: f1 blocks_refs hinted_simps [OF f1(2)])
    then show ?thesis using that True by simp
  next
    case False
    then show ?thesis using that [of st1] touched_refl by simp
  qed
  have t2: "touched p (st\<lparr>v_fs := with_refs (v_fs st) c\<rparr>) st2" by (rule touched_trans [OF br(2) ra(2)])
  have f2: "v_fs st2 = with_refs (v_fs st) c" "hinted (v_inode st p) (v_inode st2 p)" "v_dc st2 = v_dc st"
    using t2 ra(3) br(3) by (simp_all add: touched_def)
  note h2 = hinted_simps [OF f2(2)]
  have rv: "revalidate p bs off (rd_filp r) st2 = Some (off, filp1)"
    unfolding bs_def filp1_def by (rule revalidate_same [OF l _ _ k off pos seg(1)]) (simp_all add: f2 h2)
  have data: "b_data (v_fs st2) b = Some bs" using d(2) by (simp add: f2)
  have loop: "readdir_loop env p off r st = Option.bind (read_entries bsize p b bs off (r\<lparr>rd_filp := filp1\<rparr>) st2) (\<lambda>((bad, r), st).
      if bad then Some ((True, r), st) else readdir_loop env p 0 r (brelse_at (Some b) st))"
    unfolding readdir_loop.simps [of env p off r st] Let_def bsize_def [symmetric] if_not_P [OF go] bl br(1)
    using ra(1) data rv by (simp only: Option.bind.bind_lunit prod.case option.case)
  obtain v where v: "dcache_inv (v_dc st2) v" using dc by (auto simp: f2)
  have len: "length bs = bsize" using d(3) by (simp add: dir_block_def bsize_def)
  have p: "bsize = s_blocksize (v_fs st2)" "seg (v_fs st2) bs off os bsize"
    using seg(2) by (simp_all add: f2 seg_refs bs_def bsize_def)
  have q: "unat (f_pos (rd_filp (r\<lparr>rd_filp := filp1\<rparr>))) = k * bsize + off" "k * bsize + bsize \<le> unat (i_size (v_inode st2 p))"
    "unat (i_size (v_inode st2 p)) < 2 ^ 31" "rd_count (r\<lparr>rd_filp := filp1\<rparr>) = 1" "rd_out (r\<lparr>rd_filp := filp1\<rparr>) = []"
    using up le size r s31 unfolding h2 by (simp_all add: filp1_def)
  have u: "rd_filp (r\<lparr>rd_filp := filp1\<rparr>) = filp1" "\<And>X. r\<lparr>rd_filp := filp1, rd_filp := X\<rparr> = r\<lparr>rd_filp := X\<rparr>"
    "\<And>c out X. r\<lparr>rd_filp := filp1, rd_count := c, rd_out := out, rd_filp := X\<rparr> = r\<lparr>rd_count := c, rd_out := out, rd_filp := X\<rparr>"
    by simp_all
  note re = read_entries_step [OF len p q v, of b, unfolded u]
  have rel: "touched p st (brelse_at (Some b) (st2\<lparr>v_dc := dc'\<rparr>))" for dc'
  proof -
    have "brelse (Some b) (with_refs (v_fs st) c) = v_fs st" by (simp add: brelse_refs c_def with_refs_same)
    then show ?thesis using t2 by (simp add: touched_def brelse_at_def)
  qed
  show ?thesis
  proof (cases "live bs os = []")
    case True
    have "readdir_loop env p off r st = readdir_loop env p 0
       (r\<lparr>rd_filp := (rd_filp r)\<lparr>f_version := i_version (v_inode st p), f_pos := of_nat (Suc k * bsize)\<rparr>\<rparr>) (brelse_at (Some b) st2)"
      unfolding loop using re True by (simp add: filp1_def add.commute)
    moreover have "touched p st (brelse_at (Some b) st2)" using rel [of "v_dc st2"] by simp
    moreover have "dcache_inv (v_dc (brelse_at (Some b) st2)) v" using v by (simp add: brelse_at_def)
    ultimately show ?thesis unfolding bsize_def [symmetric] bs_def [symmetric] if_P [OF True] by (intro exI conjI)
  next
    case False
    from re [unfolded if_not_P [OF False]] obtain us x post dc' v' where i: "os = us @ x # post" "live bs us = []" "de_inode bs x \<noteq> 0"
      "dcache_inv dc' v'" "read_entries bsize p b bs off (r\<lparr>rd_filp := filp1\<rparr>) st2 = Some ((False, r\<lparr>rd_count := 0, rd_out := [dirent_of bs x],
        rd_filp := filp1\<lparr>f_pos := of_nat (k * bsize + x + de_rec_len bs x)\<rparr>\<rparr>), st2\<lparr>v_dc := dc'\<rparr>)" by (elim exE conjE) (rule that)
    define r3 where "r3 = r\<lparr>rd_count := 0, rd_out := [dirent_of bs x],
      rd_filp := (rd_filp r)\<lparr>f_version := i_version (v_inode st p), f_pos := of_nat (k * bsize + x + de_rec_len bs x)\<rparr>\<rparr>"
    have "\<not> rd_count r3 > 0" by (simp add: r3_def)
    then have stop: "readdir_loop env p 0 r3 st3 = Some ((False, r3), st3)" for st3 by (subst readdir_loop.simps) (simp add: Let_def)
    have "r\<lparr>rd_count := 0, rd_out := [dirent_of bs x], rd_filp := filp1\<lparr>f_pos := of_nat (k * bsize + x + de_rec_len bs x)\<rparr>\<rparr> = r3"
      by (simp add: r3_def filp1_def)
    then have "readdir_loop env p off r st = Some ((False, r3), brelse_at (Some b) (st2\<lparr>v_dc := dc'\<rparr>))"
      unfolding loop i(5) by (simp add: stop)
    moreover have "dcache_inv (v_dc (brelse_at (Some b) (st2\<lparr>v_dc := dc'\<rparr>))) v'" using i(4) by (simp add: brelse_at_def)
    ultimately show ?thesis unfolding bsize_def [symmetric] bs_def [symmetric] if_not_P [OF False] using rel [of dc'] i(1-3)
      unfolding r3_def by (intro exI conjI)
  qed
qed

lemma readdir_from:
  assumes "listing p bks st" and "at_entry (v_fs st) bks pos es" and "f_pos (rd_filp r) = of_nat pos" "rd_count r = 1" "rd_out r = []"
    and "off = pos mod s_blocksize (v_fs st)"
  shows "\<exists>st2 v r' pos'. dcache_inv (v_dc st2) v \<and> touched p st st2 \<and> readdir_loop env p off r st = Some ((False, r'), st2) \<and>
    List.map (\<lambda>e. (d_name e, d_ino e)) (rd_out r') = take 1 es \<and> f_pos (rd_filp r') = of_nat pos' \<and> at_entry (v_fs st) bks pos' (tl es) \<and>
    (es \<noteq> [] \<longrightarrow> stored r' > 0) \<and> (es = [] \<longrightarrow> stored r' = 0)"
  using assms
proof (induction "length bks * s_blocksize (v_fs st) - pos" arbitrary: pos off r st rule: less_induct)
  case less
  note P = less.prems
  define bsize where "bsize = s_blocksize (v_fs st)"
  have df: "dir_file (v_fs st) (v_inode st p) bks" and b16: "bsize < 2 ^ 16" and lim: "length bks * bsize + bsize < 2 ^ 31"
    and dc: "\<exists>v. dcache_inv (v_dc st) v" using P(1) by (simp_all add: listing_def bsize_def)
  have size: "unat (i_size (v_inode st p)) = length bks * bsize" using df by (simp add: dir_file_def bsize_def)
  show ?case
  proof (cases "pos = length bks * bsize \<and> es = []")
    case True
    have "pos < 2 ^ 31" using True lim by linarith
    then have "pos < 2 ^ 32" by simp
    then have up: "unat (f_pos (rd_filp r)) = pos" unfolding P(3) by (simp only: unat_of_nat take_bit_eq_mod) simp
    have "f_pos (rd_filp r) = i_size (v_inode st p)" using up size True by (metis word_unat_eq_iff)
    then have "readdir_loop env p off r st = Some ((False, r), st)" by (subst readdir_loop.simps) (simp add: Let_def)
    moreover have "stored r = 0" using P(5) by (simp add: stored_def)
    moreover obtain v where "dcache_inv (v_dc st) v" using dc by blast
    ultimately show ?thesis using True P(2,3,5) touched_refl
      by (intro exI [where x = st] exI [where x = v] exI [where x = r] exI [where x = pos]) simp
  next
    case False
    then obtain k o1 pre os where a: "k < length bks" "o1 < bsize" "pos = k * bsize + o1" "snd (snd (bks ! k)) = pre @ os"
       "seg (v_fs st) (fst (snd (bks ! k))) 0 pre o1" "seg (v_fs st) (fst (snd (bks ! k))) o1 os bsize"
       "es = live (fst (snd (bks ! k))) os @ dir_entries (drop (Suc k) bks)"
      using P(2) unfolding at_entry_def bsize_def [symmetric] by blast
    define bs where "bs = fst (snd (bks ! k))"
    have o1: "off = o1" using P(6) a(2,3) by (simp add: bsize_def [symmetric])
    from readdir_step [OF P(1) a(1) _ _ a(5) _ P(4,5), of os env] a(2,6) P(3) obtain st2 v where s: "dcache_inv (v_dc st2) v" "touched p st st2"
      "if live bs os = [] then readdir_loop env p o1 r st = readdir_loop env p 0
         (r\<lparr>rd_filp := (rd_filp r)\<lparr>f_version := i_version (v_inode st p), f_pos := of_nat (Suc k * bsize)\<rparr>\<rparr>) st2
       else \<exists>us x post. os = us @ x # post \<and> live bs us = [] \<and> de_inode bs x \<noteq> 0 \<and>
         readdir_loop env p o1 r st = Some ((False, r\<lparr>rd_count := 0, rd_out := [dirent_of bs x],
         rd_filp := (rd_filp r)\<lparr>f_version := i_version (v_inode st p), f_pos := of_nat (k * bsize + x + de_rec_len bs x)\<rparr>\<rparr>), st2)"
      unfolding a(3) bsize_def [symmetric] bs_def [symmetric] by (elim exE conjE meta_impE) simp_all
    show ?thesis
    proof (cases "live bs os = []")
      case True
      define r2 where "r2 = r\<lparr>rd_filp := (rd_filp r)\<lparr>f_version := i_version (v_inode st p), f_pos := of_nat (Suc k * bsize)\<rparr>\<rparr>"
      have lp: "readdir_loop env p off r st = readdir_loop env p 0 r2 st2" using s(3) True o1 by (simp add: r2_def)
      have l2: "listing p bks st2" by (rule touched_listing [OF P(1) s(2,1)])
      have fs2: "v_fs st2 = v_fs st" using s(2) by (simp add: touched_def)
      have es: "es = dir_entries (drop (Suc k) bks)" using a(7) True by (simp add: bs_def)
      have at2: "at_entry (v_fs st2) bks (Suc k * bsize) es" unfolding es fs2 bsize_def by (rule at_block [OF df]) (use a(1) in simp)
      have "Suc k * bsize \<le> length bks * bsize" by (rule mult_le_mono1) (use a(1) in simp)
      then have dec: "length bks * s_blocksize (v_fs st2) - Suc k * bsize < length bks * s_blocksize (v_fs st) - pos"
        using a(2,3) by (simp add: fs2 bsize_def [symmetric])
      have r2: "f_pos (rd_filp r2) = of_nat (Suc k * bsize)" "rd_count r2 = 1" "rd_out r2 = []" using P(4,5) by (simp_all add: r2_def)
      have m0: "0 = Suc k * bsize mod s_blocksize (v_fs st2)" by (simp add: fs2 bsize_def [symmetric])
      from less.hyps [OF dec l2 at2 r2 m0, unfolded fs2] obtain st3 w r' pos' where i: "dcache_inv (v_dc st3) w" "touched p st2 st3"
        "readdir_loop env p 0 r2 st2 = Some ((False, r'), st3)"
        "List.map (\<lambda>e. (d_name e, d_ino e)) (rd_out r') = take 1 es" "f_pos (rd_filp r') = of_nat pos'" "at_entry (v_fs st) bks pos' (tl es)"
        "es \<noteq> [] \<longrightarrow> stored r' > 0" "es = [] \<longrightarrow> stored r' = 0" by (elim exE conjE) (rule that)
      show ?thesis unfolding lp using i touched_trans [OF s(2) i(2)] by (intro exI conjI)
    next
      case F: False
      from s(3) [unfolded if_not_P [OF F]] obtain us x post where i: "os = us @ x # post" "live bs us = []" "de_inode bs x \<noteq> 0"
        "readdir_loop env p o1 r st = Some ((False, r\<lparr>rd_count := 0, rd_out := [dirent_of bs x],
         rd_filp := (rd_filp r)\<lparr>f_version := i_version (v_inode st p), f_pos := of_nat (k * bsize + x + de_rec_len bs x)\<rparr>\<rparr>), st2)"
        by (elim exE conjE) (rule that)
      define r' where "r' = r\<lparr>rd_count := 0, rd_out := [dirent_of bs x],
         rd_filp := (rd_filp r)\<lparr>f_version := i_version (v_inode st p), f_pos := of_nat (k * bsize + x + de_rec_len bs x)\<rparr>\<rparr>"
      have es: "es = (de_name bs x, de_inode bs x) # live bs post @ dir_entries (drop (Suc k) bks)"
        using a(7) i(1-3) by (simp add: bs_def [symmetric] live_append live_Cons)
      have "snd (snd (bks ! k)) = (pre @ us) @ x # post" using a(4) i(1) by simp
      from at_after [OF df a(1) this] have at: "at_entry (v_fs st) bks (k * bsize + x + de_rec_len bs x) (tl es)"
        by (simp add: es bs_def [symmetric] bsize_def [symmetric])
      have "List.map (\<lambda>e. (d_name e, d_ino e)) (rd_out r') = take 1 es" by (simp add: r'_def dirent_of_def es)
      moreover have "stored r' > 0" using dlen_pos [of bs x] by (simp add: r'_def stored_def dirent_of_def)
      moreover have "es \<noteq> []" by (simp add: es)
      moreover have "f_pos (rd_filp r') = of_nat (k * bsize + x + de_rec_len bs x)" by (simp add: r'_def)
      ultimately show ?thesis using s(1,2) at i(4) [folded r'_def] o1
        by (intro exI [where x = st2] exI [where x = v] exI [where x = r'] exI [where x = "k * bsize + x + de_rec_len bs x"] conjI) simp_all
    qed
  qed
qed

section \<open>VFS_readdir\<close>

lemma dir_file_cong:
  assumes "i_ino d' = i_ino d" "i_size d' = i_size d" "i_data d' = i_data d"
  shows "dir_file fs d' bks = dir_file fs d bks"
proof -
  have "file_block fs d' k = file_block fs d k" for k by (simp only: file_block_def assms(3))
  then show ?thesis by (simp add: dir_file_def assms(1,2))
qed

lemma listing_atime:
  assumes "listing p bks st"
  shows "listing p bks (upd_inode p (\<lambda>i. i\<lparr>i_atime := t, i_dirt := True\<rparr>) st)"
proof -
  have "dir_file (v_fs st) ((v_inode st p)\<lparr>i_atime := t, i_dirt := True\<rparr>) bks = dir_file (v_fs st) (v_inode st p) bks"
    by (rule dir_file_cong) simp_all
  then show ?thesis using assms by (simp add: listing_def upd_inode_def set_inode_def)
qed

lemma VFS_readdir_step:
  assumes l: "listing p bks st" and at: "at_entry (v_fs st) bks pos es" and f: "f_pos filp = of_nat pos"
  shows "\<exists>out filp' st' pos'. VFS_readdir env p filp st = Some (((if es = [] then ERROR_HANDLE_EOF else NO_ERROR, out), filp'), st') \<and>
    List.map (\<lambda>e. (d_name e, d_ino e)) out = take 1 es \<and> f_pos filp' = of_nat pos' \<and> at_entry (v_fs st') bks pos' (tl es) \<and>
    listing p bks st' \<and> v_fs st' = v_fs st"
proof -
  define bsize where "bsize = s_blocksize (v_fs st)"
  have df: "dir_file (v_fs st) (v_inode st p) bks" and b16: "bsize < 2 ^ 16" and lim: "length bks * bsize + bsize < 2 ^ 31"
    and nn: "p \<noteq> INull" "S_ISDIR (i_mode (v_inode st p))" "i_sb st p" using l by (simp_all add: listing_def bsize_def)
  have wf: "blocks_wf (v_fs st)" using df by (simp add: dir_file_def)
  have "pos \<le> length bks * bsize"
  proof -
    have "k * bsize + off \<le> length bks * bsize" if "k < length bks" "off < bsize" for k off
    proof -
      have "Suc k * bsize \<le> length bks * bsize" by (rule mult_le_mono1) (use that(1) in simp)
      then show ?thesis using that(2) by simp
    qed
    then show ?thesis using at unfolding at_entry_def bsize_def [symmetric] by auto
  qed
  then have "pos < 2 ^ 32" using lim by simp
  then have "unat (f_pos filp) = pos" unfolding f by (simp only: unat_of_nat take_bit_eq_mod) simp
  then have off: "unat (f_pos filp AND (of_nat (s_blocksize (v_fs st)) - 1)) = pos mod s_blocksize (v_fs st)"
    using mask_blocksize [OF wf, of "f_pos filp"] b16 by (simp add: bsize_def)
  define r where "r = \<lparr>rd_count = 1, rd_out = [], rd_filp = filp\<rparr>"
  have r: "f_pos (rd_filp r) = of_nat pos" "rd_count r = 1" "rd_out r = []" by (simp_all add: r_def f)
  from readdir_from [OF l at r refl, of env] obtain st2 v r' pos' where s: "dcache_inv (v_dc st2) v" "touched p st st2"
    "readdir_loop env p (pos mod s_blocksize (v_fs st)) r st = Some ((False, r'), st2)"
    "List.map (\<lambda>e. (d_name e, d_ino e)) (rd_out r') = take 1 es" "f_pos (rd_filp r') = of_nat pos'" "at_entry (v_fs st) bks pos' (tl es)"
    "es \<noteq> [] \<longrightarrow> stored r' > 0" "es = [] \<longrightarrow> stored r' = 0" by (elim exE conjE) (rule that)
  define st' where "st' = (if \<not> IS_RDONLY (v_fs st2) then upd_inode p (\<lambda>i. i\<lparr>i_atime := cur_time env, i_dirt := True\<rparr>) st2 else st2)"
  have fs: "v_fs st' = v_fs st" using s(2) by (simp add: st'_def touched_def upd_inode_def set_inode_def)
  have l2: "listing p bks st2" by (rule touched_listing [OF l s(2,1)])
  have l': "listing p bks st'" using l2 listing_atime [OF l2] by (simp add: st'_def)
  have "ext2_readdir env p filp 1 st = Some (((stored r', rd_out r'), rd_filp r'), st')"
    using nn s(3) by (simp add: ext2_readdir_def off r_def [symmetric] st'_def Let_def)
  then have "VFS_readdir env p filp st = Some (((if es = [] then ERROR_HANDLE_EOF else NO_ERROR, rd_out r'), rd_filp r'), st')"
    using nn(2) s(7,8) by (simp add: VFS_readdir_def)
  then show ?thesis using s(4-6) l' fs
    by (intro exI [where x = "rd_out r'"] exI [where x = "rd_filp r'"] exI [where x = st'] exI [where x = pos']) simp
qed

text \<open>Calls of \<open>VFS_readdir\<close>, \<open>n\<close> at most, until one does not succeed.\<close>

fun list_dir :: "env \<Rightarrow> iptr \<Rightarrow> nat \<Rightarrow> open_file \<Rightarrow> vfs \<Rightarrow> (dirent list \<times> open_file \<times> vfs) option" where
  "list_dir env p 0 filp st = Some ([], filp, st)"
| "list_dir env p (Suc n) filp st =
     Option.bind (VFS_readdir env p filp st) (\<lambda>(((e, out), filp), st).
       if e \<noteq> NO_ERROR then Some ([], filp, st)
       else map_option (\<lambda>(rest, filp, st). (out @ rest, filp, st)) (list_dir env p n filp st))"

lemma list_dir_from:
  assumes "listing p bks st" and "at_entry (v_fs st) bks pos es" and "f_pos filp = of_nat pos" and "length es < n"
  shows "\<exists>out filp' st'. list_dir env p n filp st = Some (out, filp', st') \<and> List.map (\<lambda>e. (d_name e, d_ino e)) out = es \<and> v_fs st' = v_fs st"
  using assms
proof (induction n arbitrary: es pos filp st)
  case (Suc n)
  from VFS_readdir_step [OF Suc.prems(1-3), of env] obtain out filp' st' pos' where s:
    "VFS_readdir env p filp st = Some (((if es = [] then ERROR_HANDLE_EOF else NO_ERROR, out), filp'), st')"
    "List.map (\<lambda>e. (d_name e, d_ino e)) out = take 1 es" "f_pos filp' = of_nat pos'" "at_entry (v_fs st') bks pos' (tl es)"
    "listing p bks st'" "v_fs st' = v_fs st" by (elim exE conjE) (rule that)
  show ?case
  proof (cases es)
    case Nil
    then have "list_dir env p (Suc n) filp st = Some ([], filp', st')" using s(1) by simp
    then show ?thesis using Nil s(6) by simp
  next
    case (Cons e rest)
    have "length (tl es) < n" using Suc.prems(4) Cons by simp
    from Suc.IH [OF s(5,4,3) this] obtain out2 filp2 st2 where i: "list_dir env p n filp' st' = Some (out2, filp2, st2)"
      "List.map (\<lambda>e. (d_name e, d_ino e)) out2 = tl es" "v_fs st2 = v_fs st'" by (elim exE conjE) (rule that)
    have "list_dir env p (Suc n) filp st = Some (out @ out2, filp2, st2)" using s(1) i(1) Cons by simp
    moreover have "List.map (\<lambda>e. (d_name e, d_ino e)) (out @ out2) = es" using s(2) i(2) Cons by simp
    moreover have "v_fs st2 = v_fs st" using i(3) s(6) by simp
    ultimately show ?thesis by (intro exI conjI)
  qed
qed simp

text \<open>C28. Calling \<open>VFS_readdir\<close> on a directory from its beginning, until it fails, gives the names and inode numbers
  of the entries in use of all its blocks, each once and in their order, the entries that the search for a
  name looks through: whichever blocks it reads ahead, whatever the version the file has at first, and with
  all buffers given back. The call after the last entry returns \<open>ERROR_HANDLE_EOF\<close>.\<close>

theorem readdir_lists_directory:
  assumes "listing p bks st" and "f_pos filp = 0" and "length (dir_entries bks) < n"
  shows "\<exists>out filp' st'. list_dir env p n filp st = Some (out, filp', st') \<and>
    List.map (\<lambda>e. (d_name e, d_ino e)) out = dir_entries bks \<and> v_fs st' = v_fs st"
proof -
  have "dir_file (v_fs st) (v_inode st p) bks" using assms(1) by (simp add: listing_def)
  from at_block [OF this, of 0] have "at_entry (v_fs st) bks 0 (dir_entries bks)" by simp
  from list_dir_from [OF assms(1) this _ assms(3)] show ?thesis using assms(2) by simp
qed

end
