(* ===== verification/Ext2_Readdir_Example.thy ===== *)
theory Ext2_Readdir_Example
  imports Ext2_Readdir_Props Ext2_Namei_Example
begin

text \<open>The example directory of the operations on names, listed.\<close>

lemma example_listing: "listing (Ino 0) [(50, example_dir, [0, 12])] (example_names example_dir)"
proof -
  have "dir_file (v_fs (example_names example_dir)) (v_inode (example_names example_dir) (Ino 0)) [(50, example_dir, [0, 12])]"
    by (rule names_dir [OF example_dir_block])
  moreover have bs: "s_blocksize (v_fs (example_names example_dir)) = 128" "i_sb (example_names example_dir) (Ino 0)"
    by (simp_all add: example_names_def example_fs_def)
  moreover have "\<exists>v. dcache_inv (v_dc (example_names example_dir)) v" using init_inv by (auto simp: names_fields)
  moreover have "S_ISDIR (i_mode (v_inode (example_names example_dir) (Ino 0)))" by (simp add: names_fields S_ISDIR_def)
  moreover have "1 + 16 \<le> max_blocks (v_fs (example_names example_dir))" by (simp add: max_blocks_def EXT2_ADDR_PER_BLOCK_def Let_def bs)
  ultimately show ?thesis by (simp add: listing_def)
qed

theorem readdir_lists_directory_witness:
  "\<forall>env. \<exists>out filp' st'. list_dir env (Ino 0) 3 \<lparr>f_pos = 0, f_reada = False, f_version = 1, f_flags = 0\<rparr> (example_names example_dir) =
      Some (out, filp', st') \<and> List.map (\<lambda>e. (d_name e, d_ino e)) out = [([97], 12), ([98, 99], 13)]"
proof
  fix env
  have e: "dir_entries [(50, example_dir, [0, 12])] = [([97], 12), ([98, 99], 13)]" by (simp add: dir_entries_def example_dir_live)
  show "\<exists>out filp' st'. list_dir env (Ino 0) 3 \<lparr>f_pos = 0, f_reada = False, f_version = 1, f_flags = 0\<rparr> (example_names example_dir) =
      Some (out, filp', st') \<and> List.map (\<lambda>e. (d_name e, d_ino e)) out = [([97], 12), ([98, 99], 13)]"
    using readdir_lists_directory [OF example_listing, of "\<lparr>f_pos = 0, f_reada = False, f_version = 1, f_flags = 0\<rparr>" 3 env] unfolding e
    by auto
qed

end
