(* ===== verification/Ext2_Options_Props.thy ===== *)
theory Ext2_Options_Props
  imports Ext2_Options
begin

text \<open>
  The theorems on the mount options: an option string means the list of its fields, applied from left to
  right up to the first one that is wrong; a number is read as its value, and a number that does not fit
  into 32 bits is noticed.
\<close>

subsection \<open>The fields of an option string\<close>

text \<open>The fields between commas, empty ones left out.\<close>

fun opt_fields :: "string \<Rightarrow> string list" where
  "opt_fields [] = [[]]"
| "opt_fields (c # s) = (if c = CHR '','' then [] # opt_fields s else (c # hd (opt_fields s)) # tl (opt_fields s))"

definition options_of :: "string \<Rightarrow> string list" where
  "options_of s = filter (\<lambda>f. f \<noteq> []) (opt_fields s)"

text \<open>The options applied in order, up to one that is refused.\<close>

fun apply_options :: "string list \<Rightarrow> mount_opts \<Rightarrow> bool \<times> mount_opts" where
  "apply_options [] mo = (True, mo)"
| "apply_options (t # ts) mo =
     (case parse_option t mo of (good, mo) \<Rightarrow> if good then apply_options ts mo else (False, mo))"

lemma opt_fields_not_Nil: "opt_fields s \<noteq> []"
  by (induction s) auto

lemma opt_fields_split:
  "opt_fields s = takeWhile (\<lambda>c. c \<noteq> CHR '','') s #
    (case dropWhile (\<lambda>c. c \<noteq> CHR '','') s of [] \<Rightarrow> [] | c # r \<Rightarrow> opt_fields r)"
  by (induction s) (auto simp: opt_fields_not_Nil)

lemma opt_fields_skip: "options_of (dropWhile (\<lambda>c. c = CHR '','') s) = options_of s"
  by (induction s) (auto simp: options_of_def)

lemma options_of_strtok:
  "options_of s = (case strtok '','' s of None \<Rightarrow> [] | Some (t, r) \<Rightarrow> t # options_of r)"
proof -
  define q where "q = dropWhile (\<lambda>c. c = CHR '','') s"
  have e: "options_of s = options_of q" unfolding q_def by (rule opt_fields_skip [symmetric])
  have st: "strtok '','' s = (case dropWhile (\<lambda>c. c \<noteq> CHR '','') q of
      [] \<Rightarrow> if takeWhile (\<lambda>c. c \<noteq> CHR '','') q = [] then None else Some (takeWhile (\<lambda>c. c \<noteq> CHR '','') q, [])
    | c # next \<Rightarrow> Some (takeWhile (\<lambda>c. c \<noteq> CHR '','') q, next))"
    by (simp add: strtok_def Let_def flip: q_def)
  show ?thesis
  proof (cases q)
    case Nil
    then show ?thesis unfolding e st by (simp add: options_of_def)
  next
    case (Cons c r)
    have "c \<noteq> CHR '',''" using hd_dropWhile [of "\<lambda>c. c = CHR '',''" s] Cons unfolding q_def by force
    then have ne: "takeWhile (\<lambda>c. c \<noteq> CHR '','') q \<noteq> []" using Cons by simp
    have f: "options_of q = takeWhile (\<lambda>c. c \<noteq> CHR '','') q #
        (case dropWhile (\<lambda>c. c \<noteq> CHR '','') q of [] \<Rightarrow> [] | c # r \<Rightarrow> options_of r)"
    proof (cases "dropWhile (\<lambda>c. c \<noteq> CHR '','') q")
      case Nil
      show ?thesis unfolding options_of_def opt_fields_split [of q] Nil list.case using ne by simp
    next
      case (Cons a r)
      show ?thesis unfolding options_of_def opt_fields_split [of q] Cons list.case using ne by simp
    qed
    show ?thesis
    proof (cases "dropWhile (\<lambda>c. c \<noteq> CHR '','') q")
      case Nil
      have o: "options_of [] = []" by (simp add: options_of_def)
      show ?thesis unfolding e f st Nil list.case if_not_P [OF ne] option.case prod.case o ..
    next
      case (Cons a r)
      show ?thesis unfolding e f st Cons list.case option.case prod.case ..
    qed
  qed
qed

lemma parse_loop_options: "parse_loop s mo = apply_options (options_of s) mo"
proof (induction s mo rule: parse_loop.induct)
  case (1 s mo)
  show ?case
  proof (cases "strtok '','' s")
    case None
    then show ?thesis by (simp add: parse_loop.simps [of s] options_of_strtok [of s])
  next
    case (Some tr)
    obtain t r where tr: "tr = (t, r)" by (cases tr)
    obtain good mo' where p: "parse_option t mo = (good, mo')" by (cases "parse_option t mo")
    have "good \<Longrightarrow> parse_loop r mo' = apply_options (options_of r) mo'"
      using 1 [OF Some tr [symmetric] p [symmetric]] by simp
    then show ?thesis using Some by (simp add: tr p parse_loop.simps [of s] options_of_strtok [of s])
  qed
qed

text \<open>C33. \<open>parse_options\<close> applies the options between the commas of its argument from left to right and
  stops at the first one that it refuses; empty opt_fields do not count.\<close>

theorem parse_options_in_order: "parse_options (Some s) mo = apply_options (options_of s) mo"
  unfolding parse_options_def option.case by (rule parse_loop_options)

subsection \<open>Numbers\<close>

text \<open>The value of a list of digits.\<close>

definition value_of :: "nat \<Rightarrow> nat list \<Rightarrow> nat" where
  "value_of radix ds = foldl (\<lambda>n d. n * radix + d) 0 ds"

definition digits :: "nat \<Rightarrow> string \<Rightarrow> nat list \<Rightarrow> bool" where
  "digits radix s ds \<longleftrightarrow> List.map digit_value s = List.map Some ds \<and> (\<forall>d \<in> set ds. d < radix)"

text \<open>No digit follows.\<close>

definition ends_number :: "nat \<Rightarrow> string \<Rightarrow> bool" where
  "ends_number radix s \<longleftrightarrow> (case s of [] \<Rightarrow> True | c # _ \<Rightarrow> (case digit_value c of None \<Rightarrow> True | Some d \<Rightarrow> radix \<le> d))"

lemma strtoul_loop_end: "ends_number radix s \<Longrightarrow> strtoul_loop radix state n s = (state, n, s)"
  by (cases s) (auto simp: ends_number_def split: option.splits)

lemma overflow_test:
  fixes n :: u32
  assumes r: "2 \<le> radix" "radix \<le> 36" and d: "d < radix"
  shows "(n \<ge> ULONG_MAX div of_nat radix \<and> (n > ULONG_MAX div of_nat radix \<or>
      of_nat d > ULONG_MAX - ULONG_MAX div of_nat radix * of_nat radix)) \<longleftrightarrow> unat n * radix + d \<ge> 2 ^ 32"
proof -
  have ur: "unat (of_nat radix :: u32) = radix" "unat (of_nat d :: u32) = d" using r d by (simp_all add: unat_of_nat_u32)
  define m where "m = (2 ^ 32 - 1 :: nat) div radix"
  have um: "unat (ULONG_MAX :: u32) = 2 ^ 32 - 1" by (simp add: ULONG_MAX_def unsigned_minus_1_eq_mask mask_eq_exp_minus_1)
  have m1: "unat (ULONG_MAX div of_nat radix :: u32) = m" by (simp add: unat_div um ur m_def)
  have ml: "m * radix \<le> 2 ^ 32 - 1" by (simp add: m_def)
  have "unat (ULONG_MAX div of_nat radix * of_nat radix :: u32) = m * radix"
    using ml by (subst unat_mult_lem [THEN iffD1]) (simp_all add: m1 ur)
  moreover have "ULONG_MAX div of_nat radix * of_nat radix \<le> (ULONG_MAX :: u32)"
    unfolding word_le_nat_alt um calculation by (rule ml)
  ultimately have m2: "unat (ULONG_MAX - ULONG_MAX div of_nat radix * of_nat radix :: u32) = 2 ^ 32 - 1 - m * radix"
    by (simp add: unat_sub um)
  have mod: "2 ^ 32 - 1 - m * radix < radix"
    using r mod_less_divisor [of radix "2 ^ 32 - 1 :: nat"] by (simp add: m_def minus_div_mult_eq_mod)
  have "(m \<le> unat n \<and> (m < unat n \<or> 2 ^ 32 - 1 - m * radix < d)) \<longleftrightarrow> unat n * radix + d \<ge> 2 ^ 32"
  proof (cases "unat n" m rule: linorder_cases)
    case less
    then have "(unat n + 1) * radix \<le> m * radix" by (intro mult_le_mono1) simp
    then show ?thesis using less d ml by (simp add: algebra_simps)
  next
    case equal
    then show ?thesis using ml by auto
  next
    case greater
    then have "(m + 1) * radix \<le> unat n * radix" by (intro mult_le_mono1) simp
    then have "2 ^ 32 \<le> unat n * radix + d" using mod by (simp add: algebra_simps)
    then show ?thesis using greater by simp
  qed
  then show ?thesis unfolding word_le_nat_alt word_less_nat_alt m1 m2 ur .
qed

lemma value_snoc: "foldl (\<lambda>n d. n * radix + d) a ds \<ge> (a :: nat)" if "0 < radix"
  using that
proof (induction ds arbitrary: a)
  case (Cons d ds)
  have "a \<le> a * radix + d" using that by (simp add: trans_le_add1)
  also have "\<dots> \<le> foldl (\<lambda>n d. n * radix + d) (a * radix + d) ds" by (rule Cons.IH [OF that])
  finally show ?case by simp
qed simp

lemma strtoul_overflowed:
  assumes "digits radix s ds" and "ends_number radix rest"
  shows "strtoul_loop radix number_overflow n (s @ rest) = (number_overflow, n, rest)"
  using assms
proof (induction s arbitrary: ds)
  case Nil
  then show ?case by (simp add: strtoul_loop_end)
next
  case (Cons c s)
  then obtain d ds' where "ds = d # ds'" "digit_value c = Some d" "d < radix" "digits radix s ds'"
    by (auto simp: digits_def Cons_eq_map_conv)
  then show ?case using Cons.IH [OF _ Cons.prems(2)] by (simp add: Let_def)
qed

lemma strtoul_loop_value:
  assumes r: "2 \<le> radix" "radix \<le> 36" and "digits radix s ds" and e: "ends_number radix rest" and "state \<noteq> number_overflow"
  shows "\<exists>m. strtoul_loop radix state n (s @ rest) =
    (if foldl (\<lambda>n d. n * radix + d) (unat n) ds \<ge> 2 ^ 32 then (number_overflow, m, rest)
     else (if s = [] then state else number_ok, of_nat (foldl (\<lambda>n d. n * radix + d) (unat n) ds), rest))"
  using assms(3,5)
proof (induction s arbitrary: ds state n)
  case Nil
  then have "ds = []" by (simp add: digits_def)
  moreover have "unat n < 2 ^ LENGTH(32)" by (rule unsigned_less)
  ultimately show ?case using e by (simp add: strtoul_loop_end)
next
  case (Cons c s)
  then obtain d ds' where d: "ds = d # ds'" "digit_value c = Some d" "d < radix" "digits radix s ds'"
    by (auto simp: digits_def Cons_eq_map_conv)
  note t = overflow_test [OF r d(3), of n]
  have step: "strtoul_loop radix state n ((c # s) @ rest) =
      (if unat n * radix + d \<ge> 2 ^ 32 then strtoul_loop radix number_overflow n (s @ rest)
       else strtoul_loop radix number_ok (n * of_nat radix + of_nat d) (s @ rest))"
    unfolding t [symmetric] using d(2,3) Cons.prems(2) by (auto simp: Let_def)
  show ?case
  proof (cases "unat n * radix + d \<ge> 2 ^ 32")
    case True
    moreover have "unat n * radix + d \<le> foldl (\<lambda>n d. n * radix + d) (unat n * radix + d) ds'"
      using r by (intro value_snoc) simp
    ultimately have "2 ^ 32 \<le> foldl (\<lambda>n d. n * radix + d) (unat n) ds" unfolding d(1) foldl.simps by linarith
    then show ?thesis unfolding step if_P [OF True] strtoul_overflowed [OF d(4) e] by auto
  next
    case False
    have u: "unat (n * of_nat radix + of_nat d) = unat n * radix + d"
    proof -
      have "n * of_nat radix + of_nat d = (of_nat (unat n * radix + d) :: u32)" by simp
      then show ?thesis using False by (simp only:) (rule unat_of_nat_u32, simp)
    qed
    obtain m where "strtoul_loop radix number_ok (n * of_nat radix + of_nat d) (s @ rest) =
      (if 2 ^ 32 \<le> foldl (\<lambda>n d. n * radix + d) (unat n * radix + d) ds' then (number_overflow, m, rest)
       else (if s = [] then number_ok else number_ok, of_nat (foldl (\<lambda>n d. n * radix + d) (unat n * radix + d) ds'), rest))"
      using Cons.IH [OF d(4), of number_ok "n * of_nat radix + of_nat d"] unfolding u by auto
    then show ?thesis unfolding step if_not_P [OF False] d(1) foldl.simps by auto
  qed
qed

lemma decimal_char:
  assumes "digit_value c = Some d" and "d < 10"
  shows "48 \<le> (of_char c :: nat)" and "(of_char c :: nat) \<le> 57"
  using assms by (auto simp: digit_value_def Let_def split: if_splits)

lemma decimal_no_sign:
  assumes "digit_value c = Some d" and "d < 10"
  shows "\<not> isspace c" and "c \<noteq> CHR ''-''" and "c \<noteq> CHR ''+''" and "c \<noteq> CHR ''x''" and "c \<noteq> CHR ''X''"
  using decimal_char [OF assms] by (auto simp: isspace_def)

text \<open>C34. A decimal number of any length is read as its value when that fits into 32 bits and as
  \<open>ULONG_MAX\<close> otherwise, and what follows it is left.\<close>

theorem strtoul_decimal:
  assumes d: "digits 10 s ds" and s: "s \<noteq> []" "hd s \<noteq> CHR ''0''" and e: "ends_number 10 rest"
  shows "strtoul (s @ rest) 0 = (if value_of 10 ds < 2 ^ 32 then of_nat (value_of 10 ds) else ULONG_MAX, rest)"
proof -
  obtain c s' where cs: "s = c # s'" using s(1) by (cases s) auto
  obtain d0 where c: "digit_value c = Some d0" "d0 < 10" using d unfolding cs digits_def by (auto simp: Cons_eq_map_conv)
  note n = decimal_no_sign [OF c]
  have c0: "c \<noteq> CHR ''0''" using s(2) cs by simp
  obtain m where l: "strtoul_loop 10 no_number 0 (s @ rest) =
    (if 2 ^ 32 \<le> value_of 10 ds then (number_overflow, m, rest) else (number_ok, of_nat (value_of 10 ds), rest))"
    using strtoul_loop_value [OF _ _ d e, of no_number 0] s(1)
    unfolding value_of_def unsigned_0 if_not_P [OF s(1)] by auto
  have "strtoul (s @ rest) 0 = (case strtoul_loop 10 no_number 0 (s @ rest) of
      (no_number, n, r) \<Rightarrow> (0, s @ rest) | (number_ok, n, r) \<Rightarrow> (n, r) | (number_overflow, n, r) \<Rightarrow> (ULONG_MAX, r))"
  proof -
    have w: "dropWhile isspace (s @ rest) = s @ rest" using n(1) by (simp add: cs)
    have x: "(case s @ rest of [] \<Rightarrow> s @ rest | a # r \<Rightarrow> if a = CHR ''-'' \<or> a = CHR ''+'' then r else s @ rest) = s @ rest"
      using n(2,3) by (simp add: cs)
    have h: "(case s @ rest of a # b # _ \<Rightarrow> a = CHR ''0'' \<and> (b = CHR ''x'' \<or> b = CHR ''X'') | _ \<Rightarrow> False) = False"
      using c0 by (simp add: cs split: list.split)
    have g: "(case s @ rest of [] \<Rightarrow> False | a # _ \<Rightarrow> a = CHR ''-'') = False" using n(2) by (simp add: cs)
    have i: "(case s @ rest of [] \<Rightarrow> 10 | a # _ \<Rightarrow> if a = CHR ''0'' then 8 else 10) = (10 :: nat)" using c0 by (simp add: cs)
    show ?thesis unfolding strtoul_def Let_def w x g h if_False by (simp add: i split: prod.split number_state.split)
  qed
  then show ?thesis unfolding l by (simp add: not_less)
qed

theorem strtoul_decimal_witness:
  "strtoul ''4294967295,'' 0 = (4294967295, '','') \<and> strtoul ''4294967296'' 0 = (ULONG_MAX, [])"
  using strtoul_decimal [of "''4294967295''" "[4, 2, 9, 4, 9, 6, 7, 2, 9, 5]" "'',''"]
    strtoul_decimal [of "''4294967296''" "[4, 2, 9, 4, 9, 6, 7, 2, 9, 6]" "[]"]
  by (simp add: digits_def ends_number_def digit_value_def value_of_def)

end
