(* ===== verification/Ext2_Mount_Props.thy ===== *)
theory Ext2_Mount_Props
  imports Ext2_Mount_Refs Ext2_Core_Props
begin

text \<open>
  The theorems on mounting: what a mounted file system is (\<open>mounted\<close>), what a mount that fails leaves
  behind, and that unmounting undoes it.
\<close>

section \<open>The steps of a mount\<close>

lemma m_fs_simps [simp]:
  "m_fs (on_fs f sb) = f (m_fs sb)" "m_fs (set_dev d sb) = m_fs sb" "m_fs (sb\<lparr>s_es := es\<rparr>) = m_fs sb"
  "m_fs (sb\<lparr>s_magic := mg\<rparr>) = m_fs sb" "m_fs (sb\<lparr>dev_blksize := n\<rparr>) = m_fs sb" "m_fs (sb\<lparr>s_blocksize_bits := w\<rparr>) = m_fs sb"
  "m_fs (sb\<lparr>s_frag_size := w\<rparr>) = m_fs sb" "m_fs (sb\<lparr>s_frags_per_block := w\<rparr>) = m_fs sb"
  "m_fs (sb\<lparr>s_frags_per_group := w\<rparr>) = m_fs sb" "m_fs (sb\<lparr>s_inode_size := h\<rparr>) = m_fs sb"
  "m_fs (sb\<lparr>s_first_ino := w\<rparr>) = m_fs sb" "m_fs (sb\<lparr>s_resuid := h\<rparr>) = m_fs sb" "m_fs (sb\<lparr>s_resgid := h\<rparr>) = m_fs sb"
  "m_fs (sb\<lparr>s_db_per_group := n\<rparr>) = m_fs sb" "m_fs (sb\<lparr>s_mounted := p\<rparr>) = m_fs sb"
  "m_fs (sb\<lparr>m_vfs := v\<rparr>) = v_fs v"
  by (simp_all add: m_fs_def on_fs_def set_dev_def)

lemma on_fs_on_fs: "on_fs g (on_fs f sb) = on_fs (\<lambda>fs. g (f fs)) sb"
  by (simp add: on_fs_def)

lemma on_fs_simps [simp]:
  "s_es (on_fs f sb) = s_es sb" "s_magic (on_fs f sb) = s_magic sb" "s_frag_size (on_fs f sb) = s_frag_size sb"
  "s_db_per_group (on_fs f sb) = s_db_per_group sb" "s_mounted (on_fs f sb) = s_mounted sb" "dev_blksize (on_fs f sb) = dev_blksize sb"
  "s_es (set_dev d sb) = s_es sb" "s_magic (set_dev d sb) = s_magic sb" "s_frag_size (set_dev d sb) = s_frag_size sb"
  "s_db_per_group (set_dev d sb) = s_db_per_group sb" "s_mounted (set_dev d sb) = s_mounted sb" "dev_blksize (set_dev d sb) = dev_blksize sb"
  "s_dev (m_vfs (on_fs f sb)) = s_dev (m_vfs sb)" "s_dev (m_vfs (set_dev d sb)) = d"
  by (simp_all add: on_fs_def set_dev_def)

text \<open>Only the file system in the driver has changed.\<close>

definition same_driver :: "super \<Rightarrow> super \<Rightarrow> bool" where
  "same_driver sb sb' \<longleftrightarrow> (\<exists>fs l. m_vfs sb' = (m_vfs sb)\<lparr>v_fs := fs, s_rename_lock := l\<rparr>)"

lemma same_driver_refl: "same_driver sb sb"
  unfolding same_driver_def by (intro exI [of _ "v_fs (m_vfs sb)"] exI [of _ "s_rename_lock (m_vfs sb)"]) simp

lemma same_driverI: "m_vfs sb' = (m_vfs sb)\<lparr>v_fs := fs, s_rename_lock := l\<rparr> \<Longrightarrow> same_driver sb sb'"
  unfolding same_driver_def by (intro exI)

lemma same_driver_trans:
  assumes "same_driver sb sb1" and "same_driver sb1 sb2"
  shows "same_driver sb sb2"
proof -
  obtain fs l where a: "m_vfs sb1 = (m_vfs sb)\<lparr>v_fs := fs, s_rename_lock := l\<rparr>" using assms(1) by (auto simp: same_driver_def)
  obtain gs k where b: "m_vfs sb2 = (m_vfs sb1)\<lparr>v_fs := gs, s_rename_lock := k\<rparr>" using assms(2) by (auto simp: same_driver_def)
  have "m_vfs sb2 = (m_vfs sb)\<lparr>v_fs := gs, s_rename_lock := k\<rparr>" unfolding b a by simp
  then show ?thesis by (rule same_driverI)
qed

lemma same_driver_on_fs: "same_driver sb sb1 \<Longrightarrow> same_driver sb (on_fs f sb1)"
  by (rule same_driver_trans, assumption,
      rule same_driverI [where fs = "f (v_fs (m_vfs sb1))" and l = "s_rename_lock (m_vfs sb1)"]) (simp add: on_fs_def)

lemma same_driver_open: "same_driver sb (open_rename_lock sb)"
  by (rule same_driverI [where fs = "v_fs (m_vfs sb)" and l = False]) (simp add: open_rename_lock_def)

lemma open_rename_lock_simps [simp]:
  "m_fs (open_rename_lock sb) = m_fs sb" "s_es (open_rename_lock sb) = s_es sb" "dev_blksize (open_rename_lock sb) = dev_blksize sb"
  by (simp_all add: open_rename_lock_def m_fs_def)

lemma same_driver_vfs: "m_vfs sb2 = m_vfs sb1 \<Longrightarrow> same_driver sb sb2 = same_driver sb sb1"
  by (simp add: same_driver_def)

lemma same_driver_dev: "same_driver sb sb' \<Longrightarrow> s_dev (m_vfs sb') = s_dev (m_vfs sb)"
  by (auto simp: same_driver_def)

text \<open>The buffers in use, and what the device returned.\<close>

definition uses :: "mount_env \<Rightarrow> u32 list \<Rightarrow> super \<Rightarrow> bool" where
  "uses menv bs sb \<longleftrightarrow> b_count (m_fs sb) = count_list bs \<and> b_data (m_fs sb) = disk menv (dev_blksize sb)"

definition given_up :: "super \<Rightarrow> bool" where
  "given_up sb \<longleftrightarrow> b_count (m_fs sb) = (\<lambda>b. 0) \<and> \<not> s_lock (m_fs sb) \<and> s_dev (m_vfs sb) = 0"

lemma brelse_one: "b_count fs = count_list (b # bs) \<Longrightarrow> brelse (Some b) fs = fs\<lparr>b_count := count_list bs\<rparr>"
  by (cases fs) (auto simp: brelse_def fun_eq_iff)

lemma brelse_None [simp]: "brelse None fs = fs"
  by (simp add: brelse_def)

lemma unlock_count: "b_count (unlock_super fs) = b_count fs"
  by (simp add: unlock_super_def)

lemma fail_mount_one:
  assumes "fail_mount (Some b) sb = Some (Inl sb')" and "b_count (m_fs sb) = count_list [b]"
  shows "given_up sb'"
proof -
  have sb': "sb' = on_fs (\<lambda>fs. brelse (Some b) (unlock_super fs)) (set_dev 0 sb)" using assms(1) by (simp add: fail_mount_def)
  have "brelse (Some b) (unlock_super (m_fs sb)) = (unlock_super (m_fs sb))\<lparr>b_count := count_list []\<rparr>"
    using assms(2) by (intro brelse_one) (simp add: unlock_count)
  then show ?thesis unfolding sb' given_up_def by (simp add: unlock_super_def fun_eq_iff)
qed

lemma fail_mount_none:
  assumes "fail_mount None sb = Some (Inl sb')" and "b_count (m_fs sb) = count_list []"
  shows "given_up sb'"
  using assms by (auto simp: fail_mount_def given_up_def unlock_super_def fun_eq_iff)

lemma fail_not_Inr [simp]: "fail_mount bh sb \<noteq> Some (Inr x)"
  by (simp add: fail_mount_def)

lemma bread_sb_Some:
  assumes "bread_sb b sb = (Some bh, sb')" and "uses menv bs sb"
  shows "bh = b" and "uses menv (b # bs) sb'" and "\<exists>d. disk menv (dev_blksize sb) b = Some d"
    and "sb' = on_fs (\<lambda>fs. fs\<lparr>b_count := count_list (b # bs)\<rparr>) sb"
proof -
  obtain fs where b: "bread b (m_fs sb) = (Some bh, fs)" and sb': "sb' = on_fs (\<lambda>_. fs) sb"
    using assms(1) by (cases "bread b (m_fs sb)") (simp add: bread_sb_def)
  have r: "bh = b" "fs = (m_fs sb)\<lparr>b_count := (b_count (m_fs sb))(b := Suc (b_count (m_fs sb) b))\<rparr>" using bread_count [OF b] by simp_all
  have c: "(b_count (m_fs sb))(b := Suc (b_count (m_fs sb) b)) = count_list (b # bs)" using assms(2) by (auto simp: uses_def fun_eq_iff)
  show "bh = b" by (rule r(1))
  show "uses menv (b # bs) sb'" using assms(2) unfolding sb' r(2) c by (simp add: uses_def)
  show "\<exists>d. disk menv (dev_blksize sb) b = Some d"
    using b assms(2) unfolding uses_def by (auto simp: bread_def getblk_def split: if_splits)
  show "sb' = on_fs (\<lambda>fs. fs\<lparr>b_count := count_list (b # bs)\<rparr>) sb" unfolding sb' r(2) c by (simp add: on_fs_def m_fs_def)
qed

lemma bread_sb_None:
  assumes "bread_sb b sb = (None, sb')"
  shows "sb' = sb" and "b_data (m_fs sb) b = None"
proof -
  obtain fs where b: "bread b (m_fs sb) = (None, fs)" and sb': "sb' = on_fs (\<lambda>_. fs) sb"
    using assms(1) by (cases "bread b (m_fs sb)") (simp add: bread_sb_def)
  have "fs = m_fs sb" using b by (cases "m_fs sb") (auto simp: bread_def getblk_def brelse_def split: if_splits)
  then show "sb' = sb" unfolding sb' by (simp add: on_fs_def m_fs_def)
  show "b_data (m_fs sb) b = None" using b by (auto simp: bread_def getblk_def split: if_splits)
qed

lemma set_blocksize_uses:
  assumes "set_blocksize menv n sb = Some sb'" and "uses menv bs sb" and "dev_blksize sb = n \<or> bs = []"
  shows "uses menv bs sb'" and "dev_blksize sb' = n" and "same_driver sb sb'" and "s_es sb' = s_es sb"
    and "s_magic sb' = s_magic sb" and "\<exists>d bd c. m_fs sb' = (m_fs sb)\<lparr>b_dirt := d, b_data := bd, b_count := c\<rparr>"
proof -
  have n: "\<not> n \<notin> {512, 1024, 2048, 4096}"
  proof
    assume c: "n \<notin> {512, 1024, 2048, 4096}"
    then show False using assms(1) unfolding set_blocksize_def if_P [OF c] by (rule_tac option.distinct(1) [THEN notE])
  qed
  note e1 = assms(1) [unfolded set_blocksize_def if_not_P [OF n]]
  have "uses menv bs sb' \<and> dev_blksize sb' = n \<and> same_driver sb sb' \<and> s_es sb' = s_es sb \<and> s_magic sb' = s_magic sb \<and>
      (\<exists>d bd c. m_fs sb' = (m_fs sb)\<lparr>b_dirt := d, b_data := bd, b_count := c\<rparr>)"
  proof (cases "dev_blksize sb = n")
    case True
    then have e: "sb' = on_fs (\<lambda>fs. fs\<lparr>b_dirt := \<lambda>b. False\<rparr>) sb" using e1 by simp
    have "m_fs sb' = (m_fs sb)\<lparr>b_dirt := \<lambda>b. False, b_data := b_data (m_fs sb), b_count := b_count (m_fs sb)\<rparr>"
      by (simp add: e)
    then have x: "\<exists>d bd c. m_fs sb' = (m_fs sb)\<lparr>b_dirt := d, b_data := bd, b_count := c\<rparr>" by blast
    show "uses menv bs sb' \<and> dev_blksize sb' = n \<and> same_driver sb sb' \<and> s_es sb' = s_es sb \<and> s_magic sb' = s_magic sb \<and>
      (\<exists>d bd c. m_fs sb' = (m_fs sb)\<lparr>b_dirt := d, b_data := bd, b_count := c\<rparr>)"
      by (intro conjI x) (use assms(2) True same_driver_on_fs [OF same_driver_refl, of sb] in \<open>simp_all add: e uses_def\<close>)
  next
    case False
    then have e: "sb' = (on_fs (\<lambda>fs. fs\<lparr>b_dirt := \<lambda>b. False, b_data := disk menv n, b_count := \<lambda>b. 0\<rparr>) sb)\<lparr>dev_blksize := n\<rparr>"
      using e1 by simp
    have dr: "same_driver sb sb'" unfolding e
      using same_driver_on_fs [OF same_driver_refl, of sb] by (simp add: same_driver_def)
    have "m_fs sb' = (m_fs sb)\<lparr>b_dirt := \<lambda>b. False, b_data := disk menv n, b_count := \<lambda>b. 0\<rparr>" by (simp add: e)
    then have x: "\<exists>d bd c. m_fs sb' = (m_fs sb)\<lparr>b_dirt := d, b_data := bd, b_count := c\<rparr>" by blast
    show "uses menv bs sb' \<and> dev_blksize sb' = n \<and> same_driver sb sb' \<and> s_es sb' = s_es sb \<and> s_magic sb' = s_magic sb \<and>
      (\<exists>d bd c. m_fs sb' = (m_fs sb)\<lparr>b_dirt := d, b_data := bd, b_count := c\<rparr>)"
      by (intro conjI x dr) (use assms(3) False in \<open>simp_all add: e uses_def fun_eq_iff\<close>)
  qed
  then show "uses menv bs sb'" "dev_blksize sb' = n" "same_driver sb sb'" "s_es sb' = s_es sb" "s_magic sb' = s_magic sb"
    "\<exists>d bd c. m_fs sb' = (m_fs sb)\<lparr>b_dirt := d, b_data := bd, b_count := c\<rparr>" by blast+
qed

text \<open>The fields that \<open>attach\<close> fills in.\<close>

definition attached :: "super \<Rightarrow> bool" where
  "attached sb \<longleftrightarrow> (let fs = m_fs sb; es = s_es sb in s_blocks_count fs = es_blocks_count es \<and>
     s_first_data_block fs = es_first_data_block es \<and> s_inodes_count fs = es_inodes_count es \<and> s_state fs = es_state es)"

lemma attach_simps [simp]:
  "s_es (attach es sb) = es" "dev_blksize (attach es sb) = dev_blksize sb" "s_magic (attach es sb) = s_magic sb"
  "b_count (m_fs (attach es sb)) = b_count (m_fs sb)" "b_data (m_fs (attach es sb)) = b_data (m_fs sb)"
  "s_lock (m_fs (attach es sb)) = s_lock (m_fs sb)" "m_vfs (attach es sb) = (m_vfs sb)\<lparr>v_fs := m_fs (attach es sb)\<rparr>"
  "s_blocksize (m_fs (attach es sb)) = s_blocksize (m_fs sb)"
  by (simp_all add: attach_def on_fs_def m_fs_def)

lemma attach_attached: "attached (attach es sb)"
  by (simp add: attached_def attach_def Let_def)

lemma attach_driver: "same_driver sb sb1 \<Longrightarrow> same_driver sb (attach es sb1)"
  by (rule same_driver_trans, assumption,
      rule same_driverI [where fs = "m_fs (attach es sb1)" and l = "s_rename_lock (m_vfs sb1)"]) simp

lemma uses_attach: "uses menv bs (attach es sb) = uses menv bs sb"
  by (simp add: uses_def)

lemma uses_on_fs: "b_count (f (m_fs sb)) = b_count (m_fs sb) \<Longrightarrow> b_data (f (m_fs sb)) = b_data (m_fs sb) \<Longrightarrow>
    uses menv bs (on_fs f sb) = uses menv bs sb"
  by (simp add: uses_def)

lemma read_first_Inl:
  assumes r: "read_first menv data sb = Some (Inl sb')" and u: "uses menv [] sb" and l: "\<not> s_lock (m_fs sb)"
  shows "given_up sb'"
proof -
  define sb1 where "sb1 = on_fs (\<lambda>fs. fs\<lparr>s_mount_opt := set_opt EXT2_MOUNT_CHECK_STRICT (s_mount_opt fs)\<rparr>) sb"
  obtain good mo where p: "parse_options data \<lparr>sb_block = 1, resuid = EXT2_DEF_RESUID, resgid = EXT2_DEF_RESGID,
      mount_options = s_mount_opt (m_fs sb1)\<rparr> = (good, mo)" by (cases "parse_options data \<lparr>sb_block = 1,
      resuid = EXT2_DEF_RESUID, resgid = EXT2_DEF_RESGID, mount_options = s_mount_opt (m_fs sb1)\<rparr>")
  define sb2 where "sb2 = on_fs (\<lambda>fs. fs\<lparr>s_mount_opt := mount_options mo\<rparr>) sb1"
  have u2: "uses menv [] sb2" "\<not> s_lock (m_fs sb2)" using u l by (simp_all add: sb2_def sb1_def uses_def)
  note r = r [unfolded read_first_def Let_def sb1_def [symmetric] p prod.case sb2_def [symmetric]]
  show ?thesis
  proof (cases good)
    case False
    then have "sb' = set_dev 0 sb2" using r by simp
    then show ?thesis using u2 by (simp add: given_up_def uses_def fun_eq_iff)
  next
    case True
    have u2': "uses menv [] (on_fs lock_super sb2)" using u2(1) by (simp add: uses_def lock_super_def)
    obtain sb3 where b: "set_blocksize menv BLOCK_SIZE (on_fs lock_super sb2) = Some sb3"
      using r True by (cases "set_blocksize menv BLOCK_SIZE (on_fs lock_super sb2)") simp_all
    have u3: "uses menv [] sb3" using set_blocksize_uses(1) [OF b u2'] by simp
    obtain bho sb4 where br: "bread_sb (sb_block mo) sb3 = (bho, sb4)" by (cases "bread_sb (sb_block mo) sb3")
    show ?thesis
    proof (cases bho)
      case None
      have e: "sb4 = sb3" using br bread_sb_None None by blast
      have "fail_mount None sb4 = (Some (Inl sb') :: (u32 \<times> mount_opts) mount_result)" using r True b br None by simp
      then show ?thesis by (rule fail_mount_none) (use u3 e in \<open>simp add: uses_def\<close>)
    next
      case (Some bh)
      note br = br [unfolded Some]
      note u4 = bread_sb_Some(2) [OF br u3]
      obtain bs where d: "b_data (m_fs sb4) bh = Some bs" using r True b br by (cases "b_data (m_fs sb4) bh") simp_all
      define sb5 where "sb5 = (attach (decode_super 0 bs) sb4)\<lparr>s_magic := es_magic (decode_super 0 bs)\<rparr>"
      have "fail_mount (Some bh) sb5 = (Some (Inl sb') :: (u32 \<times> mount_opts) mount_result)"
        using r True b br d by (simp add: sb5_def split: if_splits)
      then show ?thesis
        by (rule fail_mount_one) (use u4 bread_sb_Some(1) [OF br u3] in \<open>simp add: sb5_def uses_def\<close>)
    qed
  qed
qed

lemma read_first_Inr:
  assumes r: "read_first menv data sb = Some (Inr ((bh, mo), sb'))" and u: "uses menv [] sb"
  shows "uses menv [bh] sb'" and "dev_blksize sb' = BLOCK_SIZE" and "same_driver sb sb'" and "attached sb'"
    and "s_magic sb' = EXT2_SUPER_MAGIC" and "bh = sb_block mo" and "s_lock (m_fs sb')"
    and "\<exists>bs. disk menv BLOCK_SIZE bh = Some bs \<and> s_es sb' = decode_super 0 bs \<and> es_magic (s_es sb') = EXT2_SUPER_MAGIC"
proof -
  define sb1 where "sb1 = on_fs (\<lambda>fs. fs\<lparr>s_mount_opt := set_opt EXT2_MOUNT_CHECK_STRICT (s_mount_opt fs)\<rparr>) sb"
  obtain good mo' where p: "parse_options data \<lparr>sb_block = 1, resuid = EXT2_DEF_RESUID, resgid = EXT2_DEF_RESGID,
      mount_options = s_mount_opt (m_fs sb1)\<rparr> = (good, mo')" by (cases "parse_options data \<lparr>sb_block = 1,
      resuid = EXT2_DEF_RESUID, resgid = EXT2_DEF_RESGID, mount_options = s_mount_opt (m_fs sb1)\<rparr>")
  define sb2 where "sb2 = on_fs (\<lambda>fs. fs\<lparr>s_mount_opt := mount_options mo'\<rparr>) sb1"
  have u2: "uses menv [] (on_fs lock_super sb2)" using u by (simp add: sb2_def sb1_def uses_def lock_super_def)
  note r = r [unfolded read_first_def Let_def sb1_def [symmetric] p prod.case sb2_def [symmetric]]
  have good: good using r by (cases good) simp_all
  obtain sb3 where b: "set_blocksize menv BLOCK_SIZE (on_fs lock_super sb2) = Some sb3"
    using r good by (cases "set_blocksize menv BLOCK_SIZE (on_fs lock_super sb2)") simp_all
  note s3 = set_blocksize_uses [OF b u2, simplified]
  obtain bho sb4 where br: "bread_sb (sb_block mo') sb3 = (bho, sb4)" by (cases "bread_sb (sb_block mo') sb3")
  then obtain bh1 where bho: "bho = Some bh1" using r good b by (cases bho) auto
  note br = br [unfolded bho]
  note s4 = bread_sb_Some [OF br s3(1)]
  obtain bs where d: "b_data (m_fs sb4) bh1 = Some bs" using r good b br by (cases "b_data (m_fs sb4) bh1") simp_all
  define sb5 where "sb5 = (attach (decode_super 0 bs) sb4)\<lparr>s_magic := es_magic (decode_super 0 bs)\<rparr>"
  have t: "s_magic sb5 = EXT2_SUPER_MAGIC" "bh = bh1" "mo = mo'" "sb' = sb5"
    using r good b br d by (auto simp: sb5_def split: if_splits)
  show "uses menv [bh] sb'" using s4(1,2) unfolding t sb5_def by (simp add: uses_def)
  show "dev_blksize sb' = BLOCK_SIZE" using s3(2) unfolding t sb5_def s4(4) by simp
  have "same_driver sb sb1" "same_driver sb1 sb2" unfolding sb1_def sb2_def by (rule same_driver_on_fs [OF same_driver_refl])+
  moreover have "same_driver sb2 (on_fs lock_super sb2)" by (rule same_driver_on_fs [OF same_driver_refl])
  moreover have "same_driver (on_fs lock_super sb2) sb3" using s3(3) .
  moreover have "same_driver sb3 sb4" unfolding s4(4) by (rule same_driver_on_fs [OF same_driver_refl])
  moreover have "same_driver sb4 sb5" using attach_driver [OF same_driver_refl [of sb4], of "decode_super 0 bs"] by (simp add: sb5_def same_driver_def)
  ultimately show "same_driver sb sb'" unfolding t by (metis same_driver_trans)
  show "attached sb'" using attach_attached [of "decode_super 0 bs" sb4] unfolding t sb5_def by (simp add: attached_def)
  show "s_magic sb' = EXT2_SUPER_MAGIC" unfolding t(4) by (rule t(1))
  show "bh = sb_block mo" unfolding t(2,3) by (rule s4(1))
  obtain dd bd c where "m_fs sb3 = (m_fs (on_fs lock_super sb2))\<lparr>b_dirt := dd, b_data := bd, b_count := c\<rparr>" using s3(6) by auto
  then have "s_lock (m_fs sb3)" by (simp add: lock_super_def)
  then show "s_lock (m_fs sb')" unfolding t sb5_def s4(4) by simp
  have "disk menv BLOCK_SIZE bh1 = Some bs" using d s3(1,2) unfolding s4(4) by (simp add: uses_def)
  then show "\<exists>bs. disk menv BLOCK_SIZE bh = Some bs \<and> s_es sb' = decode_super 0 bs \<and> es_magic (s_es sb') = EXT2_SUPER_MAGIC"
    using t(1) unfolding t(2-4) by (simp add: sb5_def)
qed

text \<open>The one way to give up that leaves the super block locked.\<close>

definition stuck :: "mount_env \<Rightarrow> super \<Rightarrow> super \<Rightarrow> bool" where
  "stuck menv sb sb' \<longleftrightarrow> b_count (m_fs sb') = (\<lambda>b. 0) \<and> s_lock (m_fs sb') \<and> s_dev (m_vfs sb') = s_dev (m_vfs sb) \<and>
     s_blocksize (m_fs sb') \<in> {2048, 4096} \<and> (\<exists>b. disk menv (s_blocksize (m_fs sb')) b = None)"

lemma reread_cases:
  assumes r: "reread menv bh mo sb = Some res" and u: "uses menv [bh] sb" and d: "dev_blksize sb = BLOCK_SIZE"
    and a: "attached sb" and l: "s_lock (m_fs sb)"
  obtains (gone) sb' where "res = Inl sb'" and "given_up sb' \<or> stuck menv sb sb'"
  | (on) bh' logic sb' where "res = Inr ((bh', logic), sb')" and "uses menv [bh'] sb'" and "attached sb'" and "same_driver sb sb'"
    and "s_magic sb' = s_magic sb" and "dev_blksize sb' \<in> {1024, 2048, 4096}"
    and "s_es sb' = s_es sb \<and> bh' = bh \<and> dev_blksize sb' = BLOCK_SIZE \<or> (\<exists>bs o1. disk menv (dev_blksize sb') bh' = Some bs \<and>
      s_es sb' = decode_super o1 bs \<and> es_magic (s_es sb') = EXT2_SUPER_MAGIC)"
proof -
  define bsize where "bsize = shl32 EXT2_MIN_BLOCK_SIZE (unat (es_log_block_size (s_es sb)))"
  define sb1 where "sb1 = (on_fs (\<lambda>fs. fs\<lparr>s_blocksize := unat bsize\<rparr>) sb)\<lparr>s_blocksize_bits := es_log_block_size (s_es sb) + 10\<rparr>"
  have u1: "uses menv [bh] sb1" "attached sb1" "dev_blksize sb1 = BLOCK_SIZE" "s_magic sb1 = s_magic sb" "s_es sb1 = s_es sb"
      "s_lock (m_fs sb1)" "s_blocksize (m_fs sb1) = unat bsize"
    using u a d l by (simp_all add: sb1_def uses_def attached_def Let_def)
  have dr1: "same_driver sb sb1" using same_driver_on_fs [OF same_driver_refl, of sb] by (simp add: sb1_def same_driver_def)
  note r = r [unfolded reread_def Let_def bsize_def [symmetric] sb1_def [symmetric]]
  show thesis
  proof (cases "unat bsize \<noteq> BLOCK_SIZE \<and> (bsize = 1024 \<or> bsize = 2048 \<or> bsize = 4096)")
    case False
    have "res = Inr ((bh, 1), sb1)" using r unfolding if_not_P [OF False] by simp
    then show thesis by (rule on) (use u1 dr1 in \<open>simp_all add: BLOCK_SIZE_def\<close>)
  next
    case True
    have bz: "unat bsize \<in> {2048, 4096}" using True by (auto simp: BLOCK_SIZE_def)
    note r = r [unfolded if_P [OF True]]
    define sb2 where "sb2 = on_fs (brelse (Some bh)) sb1"
    have f2: "m_fs sb2 = (m_fs sb1)\<lparr>b_count := count_list []\<rparr>"
      using u1(1) by (simp add: sb2_def uses_def brelse_one del: count_list.simps)
    have u2: "uses menv [] sb2" using u1(1) f2 by (simp add: uses_def sb2_def)
    obtain sb3 where s: "set_blocksize menv (unat bsize) sb2 = Some sb3"
      using r by (cases "set_blocksize menv (unat bsize) sb2") (simp_all add: sb2_def)
    note s3 = set_blocksize_uses [OF s u2, simplified]
    obtain dd bd c where f3: "m_fs sb3 = (m_fs sb2)\<lparr>b_dirt := dd, b_data := bd, b_count := c\<rparr>" using s3(6) by auto
    have l3: "s_lock (m_fs sb3)" "s_blocksize (m_fs sb3) = unat bsize" using u1(6,7) f2 f3 by simp_all
    have dr3: "same_driver sb sb3" using dr1 same_driver_on_fs [OF same_driver_refl, of sb1] s3(3) same_driver_trans
      unfolding sb2_def by metis
    define logic where "logic = sb_block mo * of_nat BLOCK_SIZE div bsize"
    define o1 where "o1 = unat (sb_block mo * of_nat BLOCK_SIZE mod bsize)"
    obtain bho sb4 where br: "bread_sb logic sb3 = (bho, sb4)" by (cases "bread_sb logic sb3")
    have r4: "(case bho of None \<Rightarrow> Some (Inl sb4) | Some bh \<Rightarrow> Option.bind (b_data (m_fs sb4) bh) (\<lambda>bs.
        if es_magic (decode_super o1 bs) \<noteq> EXT2_SUPER_MAGIC then fail_mount (Some bh) (attach (decode_super o1 bs) sb4)
        else Some (Inr ((bh, logic), attach (decode_super o1 bs) sb4)))) = Some res"
      using r s br unfolding sb2_def [symmetric] logic_def [symmetric] o1_def [symmetric] by simp
    show thesis
    proof (cases bho)
      case None
      have e: "sb4 = sb3" "b_data (m_fs sb3) logic = None" using br bread_sb_None None by blast+
      have "stuck menv sb sb4" unfolding e(1) stuck_def
        using s3(1,2) l3 same_driver_dev [OF dr3] bz e(2) by (auto simp: uses_def fun_eq_iff)
      moreover have "res = Inl sb4" using r4 None by simp
      ultimately show thesis using gone by blast
    next
      case (Some bh1)
      note s4 = bread_sb_Some [OF br [unfolded Some] s3(1)]
      obtain bs where bs: "b_data (m_fs sb4) bh1 = Some bs" using r4 Some by (cases "b_data (m_fs sb4) bh1") simp_all
      define sb5 where "sb5 = attach (decode_super o1 bs) sb4"
      show thesis
      proof (cases "es_magic (decode_super o1 bs) \<noteq> EXT2_SUPER_MAGIC")
        case True
        then have f: "fail_mount (Some bh1) sb5 = Some res" using r4 Some bs by (simp add: sb5_def)
        then obtain sb' where "res = Inl sb'" by (auto simp: fail_mount_def)
        moreover have "given_up sb'"
          using f unfolding \<open>res = Inl sb'\<close> by (rule fail_mount_one) (use s4(1,2) in \<open>simp add: sb5_def uses_def\<close>)
        ultimately show thesis using gone by blast
      next
        case False
        have res: "res = Inr ((bh1, logic), sb5)" using r4 Some bs False by (simp add: sb5_def)
        have u5: "uses menv [bh1] sb5" using s4(1,2) unfolding sb5_def uses_attach by simp
        have dr: "same_driver sb sb5" unfolding sb5_def s4(4)
          by (rule attach_driver, rule same_driver_on_fs, rule dr3)
        have z: "dev_blksize sb5 = unat bsize" using s3(2) unfolding sb5_def s4(4) by simp
        have m: "s_magic sb5 = s_magic sb" using s3(5) u1(4) unfolding sb5_def s4(4) by (simp add: sb2_def)
        have di: "disk menv (dev_blksize sb5) bh1 = Some bs" using bs s3(1,2) z unfolding s4(4) by (simp add: uses_def)
        show thesis by (rule on [OF res u5 _ dr m]) (use z bz di False attach_attached in \<open>auto simp: sb5_def\<close>)
      qed
    qed
  qed
qed

lemma inode_sizes_cases:
  assumes r: "inode_sizes bh sb = Some res" and u: "uses menv [bh] sb" and a: "attached sb"
  obtains (gone) sb' where "res = Inl sb'" and "given_up sb'"
  | (on) sb' where "res = Inr ((), sb')" and "uses menv [bh] sb'" and "attached sb'" and "m_vfs sb' = m_vfs sb"
    and "s_magic sb' = s_magic sb" and "dev_blksize sb' = dev_blksize sb" and "s_es sb' = s_es sb"
proof (cases "es_rev_level (s_es sb) = EXT2_GOOD_OLD_REV")
  case True
  let ?sb = "sb\<lparr>s_inode_size := EXT2_GOOD_OLD_INODE_SIZE, s_first_ino := EXT2_GOOD_OLD_FIRST_INO\<rparr>"
  have "res = Inr ((), ?sb)" using r True by (simp add: inode_sizes_def)
  then show thesis by (rule on) (use u a in \<open>simp_all add: uses_def attached_def Let_def\<close>)
next
  case False
  define sb1 where "sb1 = sb\<lparr>s_inode_size := es_inode_size (s_es sb), s_first_ino := es_first_ino (s_es sb)\<rparr>"
  note r = r [unfolded inode_sizes_def Let_def if_not_P [OF False] sb1_def [symmetric]]
  show thesis
  proof (cases "s_inode_size sb1 \<noteq> EXT2_GOOD_OLD_INODE_SIZE")
    case True
    then have f: "fail_mount (Some bh) sb1 = Some res" using r by simp
    then obtain sb' where i: "res = Inl sb'" by (auto simp: fail_mount_def)
    have "given_up sb'" using f unfolding i by (rule fail_mount_one) (use u in \<open>simp add: sb1_def uses_def\<close>)
    then show thesis using gone i by blast
  next
    case False
    then have "res = Inr ((), sb1)" using r by simp
    then show thesis by (rule on) (use u a in \<open>simp_all add: sb1_def uses_def attached_def Let_def\<close>)
  qed
qed

text \<open>The computed fields.\<close>

definition measured :: "u32 \<Rightarrow> super \<Rightarrow> bool" where
  "measured bh sb \<longleftrightarrow> (let fs = m_fs sb; es = s_es sb in s_sbh fs = bh \<and>
     s_blocks_per_group fs = unat (es_blocks_per_group es) \<and> s_inodes_per_group fs = unat (es_inodes_per_group es) \<and>
     s_inodes_per_block fs = s_blocksize fs div RAW_INODE_SIZE \<and> s_desc_per_block fs = s_blocksize fs div 32 \<and>
     s_itb_per_group fs = s_inodes_per_group fs div s_inodes_per_block fs)"

lemma geometry_Some:
  assumes g: "geometry bh mo sb = Some sb'" and u: "uses menv [bh] sb" and a: "attached sb"
  shows "uses menv [bh] sb'" and "attached sb'" and "same_driver sb sb'" and "dev_blksize sb' = dev_blksize sb" and "s_es sb' = s_es sb"
    and "s_blocksize (m_fs sb') = s_blocksize (m_fs sb)" and "s_mount_state (m_fs sb') = es_state (s_es sb)"
    and "s_blocksize (m_fs sb) < 2 ^ 32 \<Longrightarrow> measured bh sb'"
proof -
  define frag where "frag = shl32 EXT2_MIN_FRAG_SIZE (unat (es_log_frag_size (s_es sb)))"
  define bsize where "bsize = (of_nat (s_blocksize (m_fs sb)) :: u32)"
  define sb1 where "sb1 = sb\<lparr>s_frag_size := frag\<rparr>"
  define sb2 where "sb2 = (if frag \<noteq> 0 then sb1\<lparr>s_frags_per_block := bsize div frag\<rparr> else sb1\<lparr>s_magic := 0\<rparr>)"
  define sb3 where "sb3 = sb2\<lparr>s_frags_per_group := es_frags_per_group (s_es sb)\<rparr>"
  define ipb where "ipb = bsize div of_nat RAW_INODE_SIZE"
  have s3: "m_vfs sb3 = m_vfs sb" "m_fs sb3 = m_fs sb" "s_es sb3 = s_es sb" "dev_blksize sb3 = dev_blksize sb"
    by (simp_all add: sb3_def sb2_def sb1_def)
  obtain itb where t: "div_trap (es_inodes_per_group (s_es sb)) ipb = Some itb"
    using g unfolding geometry_def Let_def frag_def [symmetric] bsize_def [symmetric] sb1_def [symmetric] sb2_def [symmetric]
      sb3_def [symmetric] ipb_def [symmetric] by (cases "div_trap (es_inodes_per_group (s_es sb)) ipb") simp_all
  have z: "ipb \<noteq> 0" "itb = es_inodes_per_group (s_es sb) div ipb" using t by (auto simp: div_trap_def split: if_splits)
  define sb4 where "sb4 = on_fs (\<lambda>fs. fs\<lparr>s_blocks_per_group := unat (es_blocks_per_group (s_es sb)),
      s_inodes_per_group := unat (es_inodes_per_group (s_es sb)), s_inodes_per_block := unat ipb,
      s_itb_per_group := unat itb, s_desc_per_block := unat (bsize div 32), s_sbh := bh, s_mount_state := s_state fs\<rparr>) sb3"
  have sb': "sb' = (open_rename_lock sb4)\<lparr>s_resuid := (if resuid mo \<noteq> EXT2_DEF_RESUID then resuid mo else es_def_resuid (s_es sb)),
      s_resgid := (if resgid mo \<noteq> EXT2_DEF_RESGID then resgid mo else es_def_resgid (s_es sb))\<rparr>"
    using g unfolding geometry_def Let_def frag_def [symmetric] bsize_def [symmetric] sb1_def [symmetric] sb2_def [symmetric]
      sb3_def [symmetric] ipb_def [symmetric] t bind.bind_lunit sb4_def [symmetric] option.inject by (rule sym)
  show "uses menv [bh] sb'" "attached sb'" using u a unfolding sb' sb4_def by (simp_all add: s3 uses_def attached_def Let_def)
  show "dev_blksize sb' = dev_blksize sb" "s_es sb' = s_es sb" "s_blocksize (m_fs sb') = s_blocksize (m_fs sb)"
    unfolding sb' sb4_def by (simp_all add: s3)
  show "s_mount_state (m_fs sb') = es_state (s_es sb)" using a unfolding sb' sb4_def by (simp add: s3 attached_def Let_def)
  have "same_driver sb sb3" using same_driver_refl [of sb] s3(1) by (simp add: same_driver_def)
  then have "same_driver sb sb4" unfolding sb4_def by (rule same_driver_on_fs)
  then have "same_driver sb (open_rename_lock sb4)" using same_driver_open same_driver_trans by blast
  then show "same_driver sb sb'" unfolding sb' by (simp add: same_driver_def)
  show "measured bh sb'" if w: "s_blocksize (m_fs sb) < 2 ^ 32"
  proof -
    have b: "unat bsize = s_blocksize (m_fs sb)" unfolding bsize_def using w by (rule unat_of_nat_u32)
    have d: "unat (bsize div 32) = s_blocksize (m_fs sb) div 32" by (simp add: unat_div b)
    have i: "unat ipb = s_blocksize (m_fs sb) div RAW_INODE_SIZE" by (simp add: ipb_def unat_div b RAW_INODE_SIZE_def)
    have it: "unat itb = unat (es_inodes_per_group (s_es sb)) div unat ipb" by (simp add: z unat_div)
    show ?thesis unfolding sb' sb4_def measured_def Let_def by (simp add: s3 d i it)
  qed
qed

subsection \<open>The group descriptors\<close>

lemma count_map_Some: "count_list (List.map Some bs) (Some b) = count_list bs b"
  by (induction bs) auto

lemma release_descs_uses:
  assumes "List.map (map_option fst) (s_group_desc fs) = List.map Some ds" and "b_count fs = count_list (ds @ rest)"
  shows "release_descs fs = fs\<lparr>b_count := count_list rest, s_group_desc := []\<rparr>"
proof -
  have "fs = with_refs fs (\<lambda>b. count_list rest b + count_list (List.map Some ds) (Some b))"
    using assms(2) by (cases fs) (simp add: with_refs_def fun_eq_iff count_list_append count_map_Some)
  then have "fold brelse (List.map Some ds) fs = with_refs fs (count_list rest)"
    using brelse_all_refs [of "List.map Some ds" fs "count_list rest"] unfolding brelse_all_def by simp
  then show ?thesis unfolding release_descs_def assms(1) by (simp add: with_refs_def)
qed

definition desc_entry :: "mount_env \<Rightarrow> nat \<Rightarrow> nat \<Rightarrow> u32 \<Rightarrow> (u32 \<times> group_desc list) option" where
  "desc_entry menv bsize dpb b = Some (b, decode_descs dpb (the (disk menv bsize b)))"

lemma desc_entries_fst: "List.map (map_option fst) (List.map (desc_entry menv n k) ds) = List.map Some ds"
  by (simp add: desc_entry_def)

lemma load_desc_cases:
  assumes "load_desc bh logic n i sb = Some res" and "uses menv (ds @ [bh]) sb"
    and "s_group_desc (m_fs sb) = List.map (desc_entry menv (dev_blksize sb) (s_desc_per_block (m_fs sb))) ds"
  obtains (gone) sb' where "res = Inl sb'" and "given_up sb'"
  | (on) bs sb' where "bs = List.map (\<lambda>k. logic + of_nat (i + k) + 1) [0..<n]" and "res = Inr ((), sb')"
    and "sb' = on_fs (\<lambda>fs. fs\<lparr>s_group_desc := List.map (desc_entry menv (dev_blksize sb) (s_desc_per_block (m_fs sb))) (ds @ bs),
        b_count := count_list (ds @ bs @ [bh])\<rparr>) sb"
    and "\<forall>b \<in> set bs. disk menv (dev_blksize sb) b \<noteq> None"
  using assms
proof (induction n arbitrary: i sb ds thesis)
  case 0
  let ?de = "desc_entry menv (dev_blksize sb) (s_desc_per_block (m_fs sb))"
  have "(m_fs sb)\<lparr>s_group_desc := s_group_desc (m_fs sb), b_count := b_count (m_fs sb)\<rparr> = m_fs sb" by simp
  then have "sb = on_fs (\<lambda>fs. fs\<lparr>s_group_desc := s_group_desc (m_fs sb), b_count := b_count (m_fs sb)\<rparr>) sb"
    by (simp add: on_fs_def m_fs_def)
  moreover have "s_group_desc (m_fs sb) = List.map ?de (ds @ [])" using "0.prems"(5) by simp
  moreover have "b_count (m_fs sb) = count_list (ds @ [] @ [bh])"
    using "0.prems"(4) unfolding uses_def by (simp only: append_Nil)
  ultimately have e: "sb = on_fs (\<lambda>fs. fs\<lparr>s_group_desc := List.map ?de (ds @ []), b_count := count_list (ds @ [] @ [bh])\<rparr>) sb"
    by metis
  have r: "res = Inr ((), sb)" using "0.prems"(3) by simp
  show ?case by (rule "0.prems"(2) [OF _ r e]) simp_all
next
  case (Suc n)
  let ?b = "logic + of_nat i + 1" and ?de = "desc_entry menv (dev_blksize sb) (s_desc_per_block (m_fs sb))"
  obtain bho sb1 where br: "bread_sb ?b sb = (bho, sb1)" by (cases "bread_sb ?b sb")
  show ?case
  proof (cases bho)
    case None
    have e: "sb1 = sb" using br bread_sb_None None by blast
    have f: "fail_mount (Some bh) (on_fs release_descs sb) = Some res" using Suc.prems(3) br None e by simp
    then obtain sb' where i: "res = Inl sb'" by (auto simp: fail_mount_def)
    have "release_descs (m_fs sb) = (m_fs sb)\<lparr>b_count := count_list [bh], s_group_desc := []\<rparr>"
      using Suc.prems(4) by (intro release_descs_uses) (simp_all only: Suc.prems(5) desc_entries_fst uses_def)
    then have "given_up sb'" by (intro fail_mount_one [OF f [unfolded i]]) (simp del: count_list.simps)
    then show ?thesis using Suc.prems(1) i by blast
  next
    case (Some b)
    note b = bread_sb_Some [OF br [unfolded Some] Suc.prems(4)]
    obtain d where d: "disk menv (dev_blksize sb) ?b = Some d" using b(3) by blast
    have d1: "b_data (m_fs sb1) b = Some d" using d b(1,4) Suc.prems(4) by (simp add: uses_def)
    define sb2 where "sb2 = on_fs (\<lambda>fs. fs\<lparr>s_group_desc := s_group_desc fs @ [Some (b, decode_descs (s_desc_per_block fs) d)]\<rparr>) sb1"
    have l: "load_desc bh logic n (Suc i) sb2 = Some res" using Suc.prems(3) br Some d1 by (simp add: sb2_def)
    have f2: "dev_blksize sb2 = dev_blksize sb" "s_desc_per_block (m_fs sb2) = s_desc_per_block (m_fs sb)"
      unfolding sb2_def b(4) by simp_all
    have c: "count_list (?b # ds @ [bh]) = count_list ((ds @ [?b]) @ [bh])" by (simp add: fun_eq_iff count_list_append)
    have "b_count (m_fs sb2) = b_count (m_fs sb1)" "b_data (m_fs sb2) = b_data (m_fs sb1)" "dev_blksize sb2 = dev_blksize sb1"
      by (simp_all add: sb2_def)
    then have u2: "uses menv ((ds @ [?b]) @ [bh]) sb2" using b(2) c unfolding uses_def b(1) by metis
    have g2: "s_group_desc (m_fs sb2) = List.map (desc_entry menv (dev_blksize sb2) (s_desc_per_block (m_fs sb2))) (ds @ [?b])"
      using Suc.prems(5) d b(1) unfolding f2 by (simp add: sb2_def b(4) desc_entry_def)
    show ?thesis
    proof (rule Suc.IH [OF _ _ l u2 g2])
      fix sb' assume "res = Inl sb'" "given_up sb'"
      then show ?thesis by (rule Suc.prems(1))
    next
      fix bs sb' assume h: "bs = List.map (\<lambda>k. logic + of_nat (Suc i + k) + 1) [0..<n]" "res = Inr ((), sb')"
        "sb' = on_fs (\<lambda>fs. fs\<lparr>s_group_desc := List.map (desc_entry menv (dev_blksize sb2) (s_desc_per_block (m_fs sb2))) ((ds @ [?b]) @ bs),
          b_count := count_list ((ds @ [?b]) @ bs @ [bh])\<rparr>) sb2"
        "\<forall>b \<in> set bs. disk menv (dev_blksize sb2) b \<noteq> None"
      have "?b # bs = List.map (\<lambda>k. logic + of_nat (i + k) + 1) [0..<Suc n]"
        unfolding h(1) by (simp add: upt_conv_Cons map_Suc_upt [symmetric] del: upt_Suc)
      moreover have "sb' = on_fs (\<lambda>fs. fs\<lparr>s_group_desc := List.map ?de (ds @ ?b # bs), b_count := count_list (ds @ (?b # bs) @ [bh])\<rparr>) sb"
        unfolding h(3) f2 sb2_def b(4) on_fs_on_fs by simp
      moreover have "\<forall>b \<in> set (?b # bs). disk menv (dev_blksize sb) b \<noteq> None" using h(4) d f2 by simp
      ultimately show ?thesis by (rule Suc.prems(2) [OF _ h(2)])
    qed
  qed
qed

text \<open>The groups of a file system, counted the way the code does it.\<close>

definition groups_of :: "ext2_super_block \<Rightarrow> u32" where
  "groups_of es = (es_blocks_count es - es_first_data_block es + es_blocks_per_group es - 1) div es_blocks_per_group es"

lemma desc_table_wf:
  assumes k: "0 < s_desc_per_block fs" and g: "s_group_desc fs = List.map (desc_entry menv n (s_desc_per_block fs)) ds"
    and l: "s_groups_count fs \<le> length ds * s_desc_per_block fs"
  shows "gd_wf fs"
proof -
  have "\<exists>b es. s_group_desc fs ! i = Some (b, es) \<and> length es = s_desc_per_block fs" if "i < length ds" for i
    using that by (simp add: g desc_entry_def decode_descs_def)
  then show ?thesis using k l by (simp add: gd_wf_def) (simp add: g)
qed

lemma check_desc_from_last:
  "check_desc_from fs (Suc n) i block = Some (True, fs') \<Longrightarrow> get_group_desc fs (i + n) \<noteq> None"
proof (induction n arbitrary: i block)
  case 0
  then show ?case by (cases "get_group_desc fs i") auto
next
  case (Suc n)
  obtain p where p: "get_group_desc fs i = Some p" using Suc.prems by (cases "get_group_desc fs i") auto
  have "check_desc_from fs (Suc n) (Suc i) (block + of_nat (s_blocks_per_group fs)) = Some (True, fs')"
    using Suc.prems unfolding check_desc_from.simps(2) [of fs "Suc n"] p bind.bind_lunit
    by (simp del: check_desc_from.simps add: bind_eq_Some_conv split: if_splits)
  then show ?case using Suc.IH by (metis add_Suc_shift)
qed

lemma check_desc_from_false: "check_desc_from fs n i block = Some (False, fs') \<Longrightarrow> ext2_error fs = Some fs'"
proof (induction n arbitrary: i block)
  case (Suc n)
  then obtain p where p: "get_group_desc fs i = Some p" by (cases "get_group_desc fs i") auto
  show ?case
  proof (cases "desc_in_group fs block (gd_at fs p)")
    case True
    then show ?thesis using Suc.IH Suc.prems p by simp
  next
    case False
    then show ?thesis using Suc.prems p by (auto simp: bind_eq_Some_conv)
  qed
qed simp

lemma checked_groups:
  assumes c: "ext2_check_descriptors fs = Some (True, fs')" and k: "0 < s_desc_per_block fs"
    and g: "s_group_desc fs = List.map (desc_entry menv n (s_desc_per_block fs)) ds"
  shows "fs' = fs" and "gd_wf fs" and "\<forall>g < s_groups_count fs. desc_in_group fs (block_no fs g 0) (desc_of fs g)"
proof -
  show "fs' = fs" "\<forall>g < s_groups_count fs. desc_in_group fs (block_no fs g 0) (desc_of fs g)"
    using check_desc_from_true [OF c [unfolded ext2_check_descriptors_def]] by (simp_all add: block_no_def add.commute)
  have "s_groups_count fs \<le> length ds * s_desc_per_block fs"
  proof (cases "s_groups_count fs")
    case (Suc m)
    have "get_group_desc fs m \<noteq> None"
      using check_desc_from_last [OF c [unfolded ext2_check_descriptors_def Suc]] by simp
    then have "m div s_desc_per_block fs < length (s_group_desc fs)"
      by (auto simp: get_group_desc_def Let_def split: if_splits)
    then have "m div s_desc_per_block fs < length ds" by (simp add: g)
    then have "m < length ds * s_desc_per_block fs" using k by (simp add: div_less_iff_less_mult)
    then show ?thesis by (simp add: Suc)
  qed simp
  then show "gd_wf fs" by (rule desc_table_wf [OF k g])
qed

lemma load_groups_cases:
  assumes r: "load_groups menv bh logic sb = Some res" and u: "uses menv [bh] sb" and k: "0 < s_desc_per_block (m_fs sb)"
  obtains (gone) sb' where "res = Inl sb'" and "given_up sb'"
  | (on) bs sb1 n where "res = Inr ((), sb1\<lparr>s_db_per_group := n\<rparr>)"
    and "sb1 = on_fs (\<lambda>fs. fs\<lparr>s_groups_count := unat (groups_of (s_es sb)),
        s_group_desc := List.map (desc_entry menv (dev_blksize sb) (s_desc_per_block (m_fs sb))) bs,
        b_count := count_list (bs @ [bh])\<rparr>) sb"
    and "gd_wf (m_fs sb1)" and "\<forall>g < s_groups_count (m_fs sb1). desc_in_group (m_fs sb1) (block_no (m_fs sb1) g 0) (desc_of (m_fs sb1) g)"
proof -
  define es where "es = s_es sb"
  define bpg where "bpg = es_blocks_per_group es"
  define dpb where "dpb = (of_nat (s_desc_per_block (m_fs sb)) :: u32)"
  note r = r [unfolded load_groups_def Let_def es_def [symmetric] bpg_def [symmetric] dpb_def [symmetric]]
  obtain groups where t: "div_trap (es_blocks_count es - es_first_data_block es + bpg - 1) bpg = Some groups"
    using r by (cases "div_trap (es_blocks_count es - es_first_data_block es + bpg - 1) bpg") simp_all
  obtain dbc where t2: "div_trap (groups + dpb - 1) dpb = Some dbc"
    using r t by (cases "div_trap (groups + dpb - 1) dpb") simp_all
  have gr: "groups = groups_of (s_es sb)" using t by (auto simp: div_trap_def groups_of_def bpg_def es_def split: if_splits)
  define sb1 where "sb1 = on_fs (\<lambda>fs. fs\<lparr>s_groups_count := unat groups\<rparr>) sb"
  define sb2 where "sb2 = on_fs (\<lambda>fs. fs\<lparr>s_group_desc := []\<rparr>) sb1"
  note r = r [unfolded t t2 bind.bind_lunit sb1_def [symmetric] sb2_def [symmetric]]
  have u2: "uses menv ([] @ [bh]) sb2" "uses menv [bh] sb1" using u by (simp_all add: sb1_def sb2_def uses_def)
  have g2: "s_group_desc (m_fs sb2) = List.map (desc_entry menv (dev_blksize sb2) (s_desc_per_block (m_fs sb2))) []" by (simp add: sb2_def)
  show thesis
  proof (cases "memory menv (unat dbc * 4)")
    case False
    then have f: "fail_mount (Some bh) sb1 = Some res" using r by simp
    then obtain sb' where i: "res = Inl sb'" by (auto simp: fail_mount_def)
    have "given_up sb'" by (rule fail_mount_one [OF f [unfolded i]]) (use u2(2) in \<open>simp add: uses_def\<close>)
    then show thesis using gone i by blast
  next
    case True
    obtain lres where l: "load_desc bh logic (unat dbc) 0 sb2 = Some lres"
      using r True by (cases "load_desc bh logic (unat dbc) 0 sb2") (simp_all add: and_then_def)
    note r = r [unfolded l]
    show thesis
    proof (rule load_desc_cases [OF l u2(1) g2])
      fix sb' assume h: "lres = Inl sb'" "given_up sb'"
      have "res = Inl sb'" using r True unfolding h(1) by (simp add: and_then_def)
      then show thesis using gone h(2) by blast
    next
      fix bs sb3
      let ?de = "desc_entry menv (dev_blksize sb2) (s_desc_per_block (m_fs sb2))"
      assume h: "lres = Inr ((), sb3)" and e: "sb3 = on_fs (\<lambda>fs. fs\<lparr>s_group_desc := List.map ?de ([] @ bs),
          b_count := count_list ([] @ bs @ [bh])\<rparr>) sb2"
      have f3: "s_group_desc (m_fs sb3) = List.map ?de bs" "b_count (m_fs sb3) = count_list (bs @ [bh])"
        "s_desc_per_block (m_fs sb3) = s_desc_per_block (m_fs sb2)" "s_desc_per_block (m_fs sb2) = s_desc_per_block (m_fs sb)"
        "dev_blksize sb2 = dev_blksize sb"
        unfolding e by (simp_all add: sb2_def sb1_def)
      obtain good fs where c: "ext2_check_descriptors (m_fs sb3) = Some (good, fs)"
        using r True unfolding h by (cases "ext2_check_descriptors (m_fs sb3)") (auto simp: and_then_def)
      define sb4 where "sb4 = on_fs (\<lambda>_. fs) sb3"
      have r4: "(if \<not> good then fail_mount (Some bh) (on_fs release_descs sb4)
          else Some (Inr ((), sb4\<lparr>s_db_per_group := unat dbc\<rparr>))) = Some res"
        using r True c unfolding h by (cases good) (simp_all add: and_then_def sb4_def)
      show thesis
      proof (cases good)
        case False
        then have f: "fail_mount (Some bh) (on_fs release_descs sb4) = Some res" using r4 by simp
        then obtain sb' where i: "res = Inl sb'" by (auto simp: fail_mount_def)
        have er: "ext2_error (m_fs sb3) = Some fs"
          using c False check_desc_from_false unfolding ext2_check_descriptors_def by auto
        have fr: "s_group_desc fs = List.map ?de bs" "b_count fs = count_list (bs @ [bh])"
          using error_settled [OF er] error_fields(1) [OF er] f3 by (simp_all add: settled_def)
        have "release_descs fs = fs\<lparr>b_count := count_list [bh], s_group_desc := []\<rparr>"
          using fr by (intro release_descs_uses) (simp_all only: desc_entries_fst)
        then have "given_up sb'" by (intro fail_mount_one [OF f [unfolded i]]) (simp add: sb4_def del: count_list.simps)
        then show thesis using gone i by blast
      next
        case True
        have k3: "0 < s_desc_per_block (m_fs sb3)" using k f3 by simp
        have g3: "s_group_desc (m_fs sb3) = List.map (desc_entry menv (dev_blksize sb2) (s_desc_per_block (m_fs sb3))) bs" using f3 by simp
        note ck = checked_groups [OF c [unfolded eqTrueI [OF True]] k3 g3]
        have s4: "sb4 = sb3" unfolding sb4_def ck(1) by (simp add: on_fs_def m_fs_def)
        have res: "res = Inr ((), sb3\<lparr>s_db_per_group := unat dbc\<rparr>)" using r4 True s4 by simp
        show thesis by (rule on [OF res _ ck(2,3)])
            (simp add: e sb2_def sb1_def on_fs_on_fs gr)
      qed
    qed
  qed
qed


subsection \<open>Before the root directory\<close>

text \<open>The groups hold their own bitmaps and tables, and the sizes are those of the super block read from the disk.\<close>

definition sized :: "mount_env \<Rightarrow> u32 \<Rightarrow> super \<Rightarrow> bool" where
  "sized menv bh sb \<longleftrightarrow> (let fs = m_fs sb; es = s_es sb in
     s_magic sb = EXT2_SUPER_MAGIC \<and> dev_blksize sb \<in> {1024, 2048, 4096} \<and> s_blocksize fs = dev_blksize sb \<and> measured bh sb \<and>
     s_blocks_count fs = es_blocks_count es \<and> s_first_data_block fs = es_first_data_block es \<and>
     s_inodes_count fs = es_inodes_count es \<and> s_groups_count fs = unat (groups_of es) \<and> gd_wf fs \<and>
     (\<forall>g < s_groups_count fs. desc_in_group fs (block_no fs g 0) (desc_of fs g)))"

definition loaded :: "mount_env \<Rightarrow> u32 \<Rightarrow> super \<Rightarrow> super \<Rightarrow> bool" where
  "loaded menv bh sb sb' \<longleftrightarrow> same_driver sb sb' \<and> sized menv bh sb' \<and> caches_ok (m_fs sb') \<and> \<not> s_lock (m_fs sb') \<and>
     s_state (m_fs sb') = es_state (s_es sb') \<and> s_mount_state (m_fs sb') = es_state (s_es sb') \<and>
     (\<exists>bs o1. disk menv (dev_blksize sb') bh = Some bs \<and> s_es sb' = decode_super o1 bs \<and> es_magic (s_es sb') = EXT2_SUPER_MAGIC)"

lemma count_pinned:
  assumes "s_sbh fs = bh" "s_group_desc fs = List.map (desc_entry menv n k) ds" "inode_cache fs = cleared_cache" "block_cache fs = cleared_cache"
  shows "count_list (pinned fs) (Some x) = count_list (ds @ [bh]) x"
proof -
  have "count_list (replicate 8 None) (Some x) = 0" by (simp add: eval_nat_numeral)
  then show ?thesis unfolding pinned_def assms cleared_cache_def desc_entries_fst
    by (simp add: count_list_append count_map_Some EXT2_MAX_GROUP_LOADED_def)
qed

lemma cleared_caches_ok:
  assumes "s_sbh fs = bh" "s_group_desc fs = List.map (desc_entry menv n k) ds" "inode_cache fs = cleared_cache" "block_cache fs = cleared_cache"
    and "b_count fs = count_list (ds @ [bh])"
  shows "caches_ok fs"
proof -
  have "slots_ok n cleared_cache" for n
    by (auto simp: slots_ok_def cleared_cache_def EXT2_MAX_GROUP_LOADED_def nth_Cons')
  then show ?thesis using count_pinned [OF assms(1-4)] assms(3,4,5) by (simp add: caches_ok_def refs_def)
qed

lemma load_super_cases:
  assumes r: "load_super menv data sb = Some res" and u: "uses menv [] sb" and l: "\<not> s_lock (m_fs sb)"
  obtains (gone) sb' where "res = Inl sb'" and "given_up sb' \<or> stuck menv sb sb'"
  | (on) bh sb' where "res = Inr (bh, sb')" and "loaded menv bh sb sb'"
proof -
  obtain res1 where r1: "read_first menv data sb = Some res1" using r by (cases "read_first menv data sb") (simp_all add: load_super_def and_then_def)
  show thesis
  proof (cases res1)
    case (Inl sb1)
    then have "res = Inl sb1" using r r1 by (simp add: load_super_def and_then_def)
    moreover have "given_up sb1" using r1 Inl u l by (intro read_first_Inl) simp_all
    ultimately show thesis using gone by blast
  next
    case (Inr x)
    obtain bh mo sb1 where x: "x = ((bh, mo), sb1)" by (metis surj_pair)
    note f1 = read_first_Inr [OF r1 [unfolded Inr x] u]
    obtain res2 where r2: "reread menv bh mo sb1 = Some res2"
      using r r1 Inr x by (cases "reread menv bh mo sb1") (simp_all add: load_super_def and_then_def)
    show thesis
    proof (rule reread_cases [OF r2 f1(1,2,4,7)])
      fix sb2 assume h: "res2 = Inl sb2" "given_up sb2 \<or> stuck menv sb1 sb2"
      have "res = Inl sb2" using r r1 Inr x r2 h by (simp add: load_super_def and_then_def)
      moreover have "given_up sb2 \<or> stuck menv sb sb2" using h(2) same_driver_dev [OF f1(3)] by (simp add: stuck_def)
      ultimately show thesis using gone by blast
    next
      fix bh2 logic sb2
      assume h: "res2 = Inr ((bh2, logic), sb2)" "uses menv [bh2] sb2" "attached sb2" "same_driver sb1 sb2"
        "s_magic sb2 = s_magic sb1" "dev_blksize sb2 \<in> {1024, 2048, 4096}"
        and es2: "s_es sb2 = s_es sb1 \<and> bh2 = bh \<and> dev_blksize sb2 = BLOCK_SIZE \<or>
          (\<exists>bs o1. disk menv (dev_blksize sb2) bh2 = Some bs \<and> s_es sb2 = decode_super o1 bs \<and> es_magic (s_es sb2) = EXT2_SUPER_MAGIC)"
      have rd: "\<exists>bs o1. disk menv (dev_blksize sb2) bh2 = Some bs \<and> s_es sb2 = decode_super o1 bs \<and> es_magic (s_es sb2) = EXT2_SUPER_MAGIC"
        using es2 f1(8) by metis
      have dr2: "same_driver sb sb2" by (rule same_driver_trans [OF f1(3) h(4)])
      obtain res3 where r3: "inode_sizes bh2 sb2 = Some res3"
        using r r1 Inr x r2 h(1) by (cases "inode_sizes bh2 sb2") (simp_all add: load_super_def and_then_def)
      show thesis
      proof (rule inode_sizes_cases [OF r3 h(2,3)])
        fix sb3 assume i: "res3 = Inl sb3" "given_up sb3"
        have "res = Inl sb3" using r r1 Inr x r2 h(1) r3 i by (simp add: load_super_def and_then_def)
        then show thesis using gone i(2) by blast
      next
        fix sb3
        assume i: "res3 = Inr ((), sb3)" "uses menv [bh2] sb3" "attached sb3" "m_vfs sb3 = m_vfs sb2"
          "s_magic sb3 = s_magic sb2" "dev_blksize sb3 = dev_blksize sb2" "s_es sb3 = s_es sb2"
        obtain sb4 where g: "geometry bh2 mo sb3 = Some sb4"
          using r r1 Inr x r2 h(1) r3 i(1) by (cases "geometry bh2 mo sb3") (simp_all add: load_super_def and_then_def)
        note g4 = geometry_Some [OF g i(2,3)]
        have dr4: "same_driver sb sb4" using same_driver_trans [OF dr2] g4(3) i(4) by (simp add: same_driver_def)
        have r4: "(if unsupported sb4 then fail_mount (Some bh2) sb4
            else and_then (load_groups menv bh2 logic sb4) (\<lambda>_ sb. Some (Inr (bh2, on_fs (\<lambda>fs. unlock_super
              (fs\<lparr>inode_cache := cleared_cache, block_cache := cleared_cache\<rparr>)) sb)))) = Some res"
          using r by (simp add: load_super_def and_then_def r1 Inr x r2 h(1) r3 i(1) g split del: if_split)
        show thesis
        proof (cases "unsupported sb4")
          case True
          then have f: "fail_mount (Some bh2) sb4 = Some res" using r4 by simp
          then obtain sb5 where e: "res = Inl sb5" by (auto simp: fail_mount_def)
          have "given_up sb5" by (rule fail_mount_one [OF f [unfolded e]]) (use g4(1) in \<open>simp add: uses_def\<close>)
          then show thesis using gone e by blast
        next
          case False
          then have sz: "s_magic sb4 = EXT2_SUPER_MAGIC" "s_blocksize (m_fs sb4) = dev_blksize sb4" by (simp_all add: unsupported_def)
          have bz: "dev_blksize sb4 \<in> {1024, 2048, 4096}" using h(6) g4(4) i(6) by simp
          have ms: "measured bh2 sb4" by (rule g4(8)) (use sz(2) g4(6) bz in auto)
          have k: "0 < s_desc_per_block (m_fs sb4)" using ms sz(2) bz unfolding measured_def Let_def by auto
          obtain res5 where r5: "load_groups menv bh2 logic sb4 = Some res5"
            using r4 False by (cases "load_groups menv bh2 logic sb4") (simp_all add: and_then_def)
          note r4 = r4 [unfolded if_not_P [OF False] r5 and_then_def option.case]
          show thesis
          proof (rule load_groups_cases [OF r5 g4(1) k])
            fix sb5 assume "res5 = Inl sb5" "given_up sb5"
            then show thesis using gone [of sb5] r4 by simp
          next
            fix bs sb5 n
            assume j: "res5 = Inr ((), sb5\<lparr>s_db_per_group := n\<rparr>)"
              and e5: "sb5 = on_fs (\<lambda>fs. fs\<lparr>s_groups_count := unat (groups_of (s_es sb4)),
                s_group_desc := List.map (desc_entry menv (dev_blksize sb4) (s_desc_per_block (m_fs sb4))) bs,
                b_count := count_list (bs @ [bh2])\<rparr>) sb4"
              and wf: "gd_wf (m_fs sb5)"
                "\<forall>g < s_groups_count (m_fs sb5). desc_in_group (m_fs sb5) (block_no (m_fs sb5) g 0) (desc_of (m_fs sb5) g)"
            define sb6 where "sb6 = on_fs (\<lambda>fs. unlock_super (fs\<lparr>inode_cache := cleared_cache, block_cache := cleared_cache\<rparr>))
              (sb5\<lparr>s_db_per_group := n\<rparr>)"
            have res: "res = Inr (bh2, sb6)" using r4 unfolding j sb6_def by simp
            have f6: "m_fs sb6 = (m_fs sb5)\<lparr>inode_cache := cleared_cache, block_cache := cleared_cache, s_lock := False\<rparr>"
              by (simp add: sb6_def unlock_super_def)
            have f5: "m_fs sb5 = (m_fs sb4)\<lparr>s_groups_count := unat (groups_of (s_es sb4)),
                s_group_desc := List.map (desc_entry menv (dev_blksize sb4) (s_desc_per_block (m_fs sb4))) bs,
                b_count := count_list (bs @ [bh2])\<rparr>" unfolding e5 by simp
            have q: "s_es sb6 = s_es sb4" "dev_blksize sb6 = dev_blksize sb4" "s_magic sb6 = s_magic sb4"
              unfolding sb6_def e5 by simp_all
            have dsc: "gd_at (m_fs sb6) = gd_at (m_fs sb5)" "gdp (m_fs sb6) = gdp (m_fs sb5)"
              by (simp_all add: f6 gd_at_def gdp_def fun_eq_iff)
            have "desc_in_group (m_fs sb6) = desc_in_group (m_fs sb5)" "block_no (m_fs sb6) = block_no (m_fs sb5)"
              "s_groups_count (m_fs sb6) = s_groups_count (m_fs sb5)" "gd_wf (m_fs sb6) = gd_wf (m_fs sb5)"
              by (simp_all add: f6 desc_in_group_def block_no_def gd_wf_def fun_eq_iff)
            then have gr: "gd_wf (m_fs sb6)"
                "\<forall>g < s_groups_count (m_fs sb6). desc_in_group (m_fs sb6) (block_no (m_fs sb6) g 0) (desc_of (m_fs sb6) g)"
              using wf dsc by simp_all
            have "measured bh2 sb6" using ms by (simp add: measured_def Let_def f6 f5 q)
            then have sized: "sized menv bh2 sb6"
              using gr sz bz g4(2) by (simp add: sized_def Let_def q) (simp add: attached_def Let_def f6 f5)
            have "s_sbh (m_fs sb6) = bh2" using ms by (simp add: measured_def Let_def f6 f5)
            moreover have "s_group_desc (m_fs sb6) = List.map (desc_entry menv (dev_blksize sb4) (s_desc_per_block (m_fs sb4))) bs"
              by (simp add: f6 f5)
            ultimately have "caches_ok (m_fs sb6)" by (rule cleared_caches_ok) (simp_all add: f6 f5)
            moreover have "same_driver sb sb6"
              using same_driver_on_fs [OF dr4] by (simp add: sb6_def e5 same_driver_def on_fs_def)
            moreover have "s_state (m_fs sb6) = es_state (s_es sb6)" "s_mount_state (m_fs sb6) = es_state (s_es sb6)"
              using g4(2,5,7) by (simp_all add: f6 f5 q attached_def Let_def)
            moreover have "\<exists>bs o1. disk menv (dev_blksize sb6) bh2 = Some bs \<and> s_es sb6 = decode_super o1 bs \<and> es_magic (s_es sb6) = EXT2_SUPER_MAGIC"
              using rd by (simp add: q g4(4,5) i(6,7))
            moreover have "\<not> s_lock (m_fs sb6)" by (simp add: f6)
            ultimately have "loaded menv bh2 sb sb6" using sized unfolding loaded_def by blast
            then show thesis by (rule on [OF res])
          qed
        qed
      qed
    qed
  qed
qed


section \<open>What a mount leaves behind\<close>

definition mounted :: "mount_env \<Rightarrow> super \<Rightarrow> bool" where
  "mounted menv sb \<longleftrightarrow> sized menv (s_sbh (m_fs sb)) sb \<and> caches_ok (m_fs sb) \<and> \<not> s_lock (m_fs sb) \<and> s_mounted sb \<noteq> INull \<and>
     (s_flags (m_fs sb) AND MS_RDONLY = 0 \<longrightarrow> s_state (m_fs sb) AND EXT2_VALID_FS = 0)"

text \<open>The super block fields that the sizes are computed from.\<close>

definition es_sizes :: "ext2_super_block \<Rightarrow> _" where
  "es_sizes es = (es_blocks_count es, es_first_data_block es, es_inodes_count es, es_blocks_per_group es, es_inodes_per_group es)"

lemma sized_cong:
  assumes l: "layout (m_fs sb') = layout ((m_fs sb)\<lparr>s_mount_opt := mo\<rparr>)"
    and d: "s_group_desc (m_fs sb') = s_group_desc (m_fs sb)" "s_sbh (m_fs sb') = s_sbh (m_fs sb)"
    and m: "s_magic sb' = s_magic sb" "dev_blksize sb' = dev_blksize sb" and e: "es_sizes (s_es sb') = es_sizes (s_es sb)"
  shows "sized menv bh sb' = sized menv bh sb"
proof -
  note f = layoutD [OF l, simplified]
  have es: "es_blocks_count (s_es sb') = es_blocks_count (s_es sb)" "es_first_data_block (s_es sb') = es_first_data_block (s_es sb)"
      "es_inodes_count (s_es sb') = es_inodes_count (s_es sb)" "es_blocks_per_group (s_es sb') = es_blocks_per_group (s_es sb)"
      "es_inodes_per_group (s_es sb') = es_inodes_per_group (s_es sb)" using e by (simp_all add: es_sizes_def)
  have "gd_wf (m_fs sb') = gd_wf (m_fs sb)" "desc_in_group (m_fs sb') = desc_in_group (m_fs sb)" "block_no (m_fs sb') = block_no (m_fs sb)"
    "gd_at (m_fs sb') = gd_at (m_fs sb)" "gdp (m_fs sb') = gdp (m_fs sb)"
    by (simp_all add: gd_wf_def desc_in_group_def block_no_def gd_at_def gdp_def fun_eq_iff f d)
  then show ?thesis unfolding sized_def Let_def measured_def groups_of_def m d(2) es f by simp
qed

lemma settled_sized: "settled (m_fs sb) fs' \<Longrightarrow> sized menv bh (on_fs (\<lambda>_. fs') sb) = sized menv bh sb"
  by (intro sized_cong [where mo = "s_mount_opt (m_fs sb)"]) (simp_all add: settled_def)

text \<open>What \<open>setup_super\<close> does before it looks at the bitmaps: the options, the flags and the state.\<close>

definition prepared :: "super \<Rightarrow> super \<Rightarrow> bool" where
  "prepared sb sb' \<longleftrightarrow> (\<exists>mo. layout (m_fs sb') = layout ((m_fs sb)\<lparr>s_mount_opt := mo\<rparr>)) \<and>
     s_group_desc (m_fs sb') = s_group_desc (m_fs sb) \<and> s_sbh (m_fs sb') = s_sbh (m_fs sb) \<and> s_magic sb' = s_magic sb \<and>
     dev_blksize sb' = dev_blksize sb \<and> es_sizes (s_es sb') = es_sizes (s_es sb) \<and> es_state (s_es sb') = es_state (s_es sb) \<and>
     s_mounted sb' = s_mounted sb \<and> s_lock (m_fs sb') = s_lock (m_fs sb) \<and> s_mount_state (m_fs sb') = s_mount_state (m_fs sb) \<and>
     caches_ok (m_fs sb') = caches_ok (m_fs sb)"

lemma prepared_trans: "prepared sb sb1 \<Longrightarrow> prepared sb1 sb2 \<Longrightarrow> prepared sb sb2"
  unfolding prepared_def layout_def by simp

lemma prepared_on_fs:
  assumes "layout (f (m_fs sb)) = layout ((m_fs sb)\<lparr>s_mount_opt := mo\<rparr>)" "s_group_desc (f (m_fs sb)) = s_group_desc (m_fs sb)"
    "s_sbh (f (m_fs sb)) = s_sbh (m_fs sb)" "s_lock (f (m_fs sb)) = s_lock (m_fs sb)"
    "s_mount_state (f (m_fs sb)) = s_mount_state (m_fs sb)" "inode_cache (f (m_fs sb)) = inode_cache (m_fs sb)"
    "block_cache (f (m_fs sb)) = block_cache (m_fs sb)" "b_count (f (m_fs sb)) = b_count (m_fs sb)"
    "es_sizes es = es_sizes (s_es sb)" "es_state es = es_state (s_es sb)"
  shows "prepared sb (on_fs f (sb\<lparr>s_es := es\<rparr>))"
proof -
  have "s_groups_count (f (m_fs sb)) = s_groups_count (m_fs sb)" using layoutD(6) [OF assms(1)] by simp
  then have "caches_ok (f (m_fs sb)) = caches_ok (m_fs sb)" using assms by (intro caches_ok_cong) simp_all
  then show ?thesis using assms unfolding prepared_def by (auto simp: on_fs_def m_fs_def)
qed


lemma valid_masked: "w AND NOT EXT2_ERROR_FS = w' AND NOT EXT2_ERROR_FS \<Longrightarrow> w AND EXT2_VALID_FS = w' AND EXT2_VALID_FS"
proof -
  have m: "w AND EXT2_VALID_FS = (w AND NOT EXT2_ERROR_FS) AND EXT2_VALID_FS" for w :: u16
  proof -
    have "NOT EXT2_ERROR_FS AND EXT2_VALID_FS = EXT2_VALID_FS" by (simp add: EXT2_ERROR_FS_def EXT2_VALID_FS_def)
    then show ?thesis by (simp add: and.assoc)
  qed
  assume "w AND NOT EXT2_ERROR_FS = w' AND NOT EXT2_ERROR_FS"
  then show ?thesis using m [of w] m [of w'] by simp
qed

lemma cleared_valid: "(w AND NOT EXT2_VALID_FS) AND EXT2_VALID_FS = (0 :: u16)"
  by (simp add: and.assoc)

lemma on_fs_self: "on_fs (\<lambda>_. m_fs sb) sb = sb"
  by (simp add: on_fs_def m_fs_def)

lemma setup_super_steps:
  assumes s: "setup_super menv sb = Some sb'" and l: "\<not> s_lock (m_fs sb)"
  obtains sb1 where "prepared sb sb1" and "settled (m_fs sb1) (m_fs sb')" and "sb' = on_fs (\<lambda>_. m_fs sb') sb1"
    and "s_flags (m_fs sb1) AND MS_RDONLY = 0 \<longrightarrow> s_state (m_fs sb1) AND EXT2_VALID_FS = 0"
    and "es_rev_level (s_es sb) \<le> EXT2_CURRENT_REV \<longrightarrow> s_flags (m_fs sb1) = s_flags (m_fs sb)"
proof -
  define sb1 where "sb1 = on_fs (\<lambda>fs. fs\<lparr>s_mount_opt := if Errors_Panic menv
    then set_opt EXT2_MOUNT_ERRORS_PANIC (clear_opt EXT2_MOUNT_ERRORS_RO (clear_opt EXT2_MOUNT_ERRORS_CONT (s_mount_opt fs)))
    else set_opt EXT2_MOUNT_ERRORS_CONT (clear_opt EXT2_MOUNT_ERRORS_RO (clear_opt EXT2_MOUNT_ERRORS_PANIC (s_mount_opt fs)))\<rparr>) sb"
  define sb2 where "sb2 = (if es_rev_level (s_es sb1) > EXT2_CURRENT_REV
    then on_fs (\<lambda>fs. fs\<lparr>s_flags := s_flags fs OR MS_RDONLY\<rparr>) sb1 else sb1)"
  note s = s [unfolded setup_super_def Let_def sb1_def [symmetric] sb2_def [symmetric]]
  have es: "sb\<lparr>s_es := s_es sb\<rparr> = sb" by simp
  have p1: "prepared sb sb1"
    unfolding sb1_def by (subst (2) es [symmetric], rule prepared_on_fs) (simp_all add: layout_def)
  have "prepared sb1 sb2"
  proof (cases "es_rev_level (s_es sb1) > EXT2_CURRENT_REV")
    case True
    have es: "sb1\<lparr>s_es := s_es sb1\<rparr> = sb1" by simp
    have "prepared sb1 (on_fs (\<lambda>fs. fs\<lparr>s_flags := s_flags fs OR MS_RDONLY\<rparr>) (sb1\<lparr>s_es := s_es sb1\<rparr>))"
      by (rule prepared_on_fs [where mo = "s_mount_opt (m_fs sb1)"]) (simp_all add: layout_def)
    then show ?thesis using True unfolding es sb2_def by simp
  next
    case False
    then show ?thesis by (simp add: sb2_def prepared_def) (auto simp: layout_def)
  qed
  then have p2: "prepared sb sb2" by (rule prepared_trans [OF p1])
  have fl: "es_rev_level (s_es sb) \<le> EXT2_CURRENT_REV \<longrightarrow> s_flags (m_fs sb2) = s_flags (m_fs sb)"
    by (auto simp: sb2_def sb1_def)
  show thesis
  proof (cases "s_flags (m_fs sb2) AND MS_RDONLY = 0")
    case False
    then have e: "sb' = sb2" using s by simp
    show thesis by (rule that [OF p2]) (use False e fl on_fs_self [of sb2] in \<open>simp_all add: settled_refl\<close>)
  next
    case True
    note s = s [unfolded if_P [OF True]]
    define sb3 where "sb3 = on_fs (\<lambda>fs. fs\<lparr>s_state := s_state fs AND NOT EXT2_VALID_FS\<rparr>) sb2"
    define es1 where "es1 = (if es_max_mnt_count (s_es sb3) = 0
      then s_es sb3\<lparr>es_max_mnt_count := EXT2_DFL_MAX_MNT_COUNT\<rparr> else s_es sb3)"
    define es2 where "es2 = (if auto_fsck menv then es1\<lparr>es_mnt_count := EXT2_DFL_MAX_MNT_COUNT\<rparr>
      else es1\<lparr>es_mnt_count := es_mnt_count es1 + 1\<rparr>)\<lparr>es_mtime := cur_time (m_env menv)\<rparr>"
    define mark where "mark = (\<lambda>fs. (mark_buffer_dirty (s_sbh fs) fs)\<lparr>s_dirt := True\<rparr>)"
    define sb4 where "sb4 = on_fs mark (sb3\<lparr>s_es := es2\<rparr>)"
    have s4: "Option.bind (ext2_check_blocks_bitmap (m_fs sb4)) (\<lambda>fs. Option.bind (ext2_check_inodes_bitmap fs)
        (\<lambda>fs. Some (on_fs (\<lambda>_. fs) sb4))) = Some sb'"
      using s unfolding sb3_def [symmetric] es1_def [symmetric] es2_def [symmetric] mark_def [symmetric] sb4_def [symmetric] .
    obtain fs1 fs2 where c: "ext2_check_blocks_bitmap (m_fs sb4) = Some fs1" "ext2_check_inodes_bitmap fs1 = Some fs2"
        "sb' = on_fs (\<lambda>_. fs2) sb4"
      using s4 by (auto simp: bind_eq_Some_conv)
    have es: "sb2\<lparr>s_es := s_es sb2\<rparr> = sb2" by simp
    have "prepared sb2 (on_fs (\<lambda>fs. fs\<lparr>s_state := s_state fs AND NOT EXT2_VALID_FS\<rparr>) (sb2\<lparr>s_es := s_es sb2\<rparr>))"
      by (rule prepared_on_fs [where mo = "s_mount_opt (m_fs sb2)"]) (simp_all add: layout_def)
    then have p3: "prepared sb2 sb3" unfolding es sb3_def .
    have "es_sizes es2 = es_sizes (s_es sb3)" "es_state es2 = es_state (s_es sb3)"
      by (simp_all add: es2_def es1_def es_sizes_def)
    then have "prepared sb3 sb4" unfolding sb4_def
      by (intro prepared_on_fs [where mo = "s_mount_opt (m_fs sb3)"])
        (simp_all add: mark_def mark_buffer_dirty_def layout_def)
    then have p4: "prepared sb sb4" using prepared_trans p2 p3 by blast
    have l4: "\<not> s_lock (m_fs sb4)" using p4 l by (simp add: prepared_def)
    note t1 = check_blocks_settled [OF c(1) l4]
    have "\<not> s_lock fs1" using t1 l4 by (simp add: settled_def)
    then have st: "settled (m_fs sb4) fs2" using settled_trans [OF t1 check_inodes_settled [OF c(2)]] by simp
    have f4: "s_flags (m_fs sb4) = s_flags (m_fs sb2)" by (simp add: sb4_def sb3_def mark_def mark_buffer_dirty_def)
    have v: "s_state (m_fs sb4) AND EXT2_VALID_FS = 0" by (simp add: sb4_def sb3_def mark_def mark_buffer_dirty_def cleared_valid)
    show thesis
      by (rule that [OF p4]) (use st v fl f4 True c(3) in \<open>simp_all add: on_fs_on_fs\<close>)
  qed
qed

lemma setup_super_valid:
  assumes s: "setup_super menv sb = Some sb'" and l: "\<not> s_lock (m_fs sb)"
    and r: "es_rev_level (s_es sb) \<le> EXT2_CURRENT_REV" "s_flags (m_fs sb) AND MS_RDONLY = 0"
  shows "s_state (m_fs sb') AND EXT2_VALID_FS = 0"
proof (rule setup_super_steps [OF s l])
  fix sb1
  assume t: "settled (m_fs sb1) (m_fs sb')"
    and v: "s_flags (m_fs sb1) AND MS_RDONLY = 0 \<longrightarrow> s_state (m_fs sb1) AND EXT2_VALID_FS = 0"
    and f: "es_rev_level (s_es sb) \<le> EXT2_CURRENT_REV \<longrightarrow> s_flags (m_fs sb1) = s_flags (m_fs sb)"
  have "s_state (m_fs sb') AND EXT2_VALID_FS = s_state (m_fs sb1) AND EXT2_VALID_FS"
    by (rule valid_masked) (use t in \<open>simp add: settled_def\<close>)
  then show ?thesis using v f r by simp
qed

lemma setup_super_newer:
  assumes "setup_super menv sb = Some sb'" and "EXT2_CURRENT_REV < es_rev_level (s_es sb)"
  shows "s_state (m_fs sb') = s_state (m_fs sb)"
  using assms or_rdonly by (auto simp: setup_super_def Let_def)

lemma setup_super_mounted:
  assumes s: "setup_super menv sb = Some sb'" and l: "\<not> s_lock (m_fs sb)" and c: "caches_ok (m_fs sb)"
    and z: "sized menv bh sb" and r: "s_mounted sb \<noteq> INull"
  shows "mounted menv sb'"
proof (rule setup_super_steps [OF s l])
  fix sb1
  assume p: "prepared sb sb1" and t: "settled (m_fs sb1) (m_fs sb')" and e: "sb' = on_fs (\<lambda>_. m_fs sb') sb1"
    and v: "s_flags (m_fs sb1) AND MS_RDONLY = 0 \<longrightarrow> s_state (m_fs sb1) AND EXT2_VALID_FS = 0"
  obtain mo where lay: "layout (m_fs sb1) = layout ((m_fs sb)\<lparr>s_mount_opt := mo\<rparr>)" using p unfolding prepared_def by blast
  have "sized menv bh sb1 = sized menv bh sb" by (rule sized_cong [OF lay]) (use p in \<open>simp_all add: prepared_def\<close>)
  moreover have "sized menv bh (on_fs (\<lambda>_. m_fs sb') sb1) = sized menv bh sb1" by (rule settled_sized [OF t])
  ultimately have z': "sized menv bh sb'" using z e by simp
  have "s_mounted sb' = s_mounted sb1" by (subst e, simp)
  then have es: "s_mounted sb' = s_mounted sb" using p by (simp add: prepared_def)
  have b: "s_sbh (m_fs sb') = bh" using z' by (simp add: sized_def measured_def Let_def)
  have "s_state (m_fs sb') AND EXT2_VALID_FS = s_state (m_fs sb1) AND EXT2_VALID_FS"
    by (rule valid_masked) (use t in \<open>simp add: settled_def\<close>)
  moreover have "caches_ok (m_fs sb')" "\<not> s_lock (m_fs sb')" using t p c l by (simp_all add: settled_def prepared_def)
  moreover have "s_flags (m_fs sb') AND MS_RDONLY = 0 \<longrightarrow> s_flags (m_fs sb1) AND MS_RDONLY = 0" using t by (simp add: settled_def)
  ultimately show ?thesis unfolding mounted_def b using z' v r es by simp
qed


text \<open>The table of inodes does not depend on the file system.\<close>

lemma table_inv_driver: "table_inv st xs hs \<Longrightarrow> table_inv (st\<lparr>v_fs := fs, s_rename_lock := k\<rparr>) xs hs"
  by (rule table_inv_cong) (simp_all add: hash_key_def)

lemma pages_ok_driver: "pages_ok st xs \<Longrightarrow> pages_ok (st\<lparr>v_fs := fs, s_rename_lock := k\<rparr>) xs"
  by (simp add: pages_ok_def page_inodes_def)

lemma table_inv_fs: "table_inv st xs hs \<Longrightarrow> table_inv (st\<lparr>v_fs := fs\<rparr>) xs hs"
  by (rule table_inv_cong) (simp_all add: hash_key_def)

lemma pages_ok_fs: "pages_ok st xs \<Longrightarrow> pages_ok (st\<lparr>v_fs := fs\<rparr>) xs"
  by (simp add: pages_ok_def page_inodes_def)

lemma read_super_steps:
  assumes r: "ext2_read_super menv data sb = Some (ok, sb')" and u: "uses menv [] sb" and l: "\<not> s_lock (m_fs sb)"
    and t: "table_inv (m_vfs sb) xs hs" "pages_ok (m_vfs sb) xs"
  obtains (gone) "\<not> ok" and "given_up sb' \<or> stuck menv sb sb'"
  | (on) bh sb1 sb2 root where "ok" and "loaded menv bh sb sb1" and "settled (m_fs sb1) (m_fs sb2)"
    and "s_es sb2 = s_es sb1" and "sized menv bh sb2" and "s_mounted sb2 = root" and "root \<noteq> INull" and "dev_blksize sb2 = dev_blksize sb1"
    and "setup_super menv sb2 = Some sb'"
proof -
  obtain res where ls: "load_super menv data sb = Some res" using r by (cases "load_super menv data sb") (simp_all add: ext2_read_super_def)
  show thesis
  proof (rule load_super_cases [OF ls u l])
    fix sb1 assume h: "res = Inl sb1" "given_up sb1 \<or> stuck menv sb sb1"
    then show thesis using r ls gone by (simp add: ext2_read_super_def)
  next
    fix bh sb1 assume h: "res = Inr (bh, sb1)" and ld: "loaded menv bh sb sb1"
    obtain fs k where fs: "m_vfs sb1 = (m_vfs sb)\<lparr>v_fs := fs, s_rename_lock := k\<rparr>" using ld by (auto simp: loaded_def same_driver_def)
    have dev: "set_dev (s_dev (m_vfs sb)) sb1 = sb1" by (simp add: set_dev_def fs)
    obtain root st where g: "iget (m_env menv) EXT2_ROOT_INO (m_vfs sb1) = Some (root, st)"
      using r ls h dev by (cases "iget (m_env menv) EXT2_ROOT_INO (m_vfs sb1)") (auto simp: ext2_read_super_def)
    have k: "settled (v_fs (m_vfs sb1)) (v_fs st)" "root \<noteq> INull"
      using iget_settled [OF table_inv_driver [OF t(1)] pages_ok_driver [OF t(2)] g [unfolded fs]] unfolding fs by blast+
    define sb2 where "sb2 = sb1\<lparr>m_vfs := st, s_mounted := root\<rparr>"
    have "Option.bind (setup_super menv sb2) (\<lambda>sb. Some (True, sb)) = Some (ok, sb')"
      using r ls h dev g k(2) by (simp add: ext2_read_super_def sb2_def)
    then have s: "ok" "setup_super menv sb2 = Some sb'" by (auto simp: bind_eq_Some_conv)
    have st: "settled (m_fs sb1) (m_fs sb2)" using k(1) by (simp add: sb2_def m_fs_def)
    have "sized menv bh (on_fs (\<lambda>_. m_fs sb2) sb1)" using ld settled_sized [OF st] by (simp add: loaded_def)
    then have "sized menv bh sb2" by (simp add: sb2_def sized_def Let_def measured_def m_fs_def on_fs_def)
    then show thesis using on [OF s(1) ld st _ _ _ k(2) _ s(2)] by (simp add: sb2_def)
  qed
qed

subsection \<open>The theorems\<close>

text \<open>C29. A mount that succeeds gives a file system that is fit for use: the magic number is right, the block
  size is 1024, 2048 or 4096 bytes and that of the buffers, the computed sizes are those of the super block on
  the disk, every group has a descriptor with its bitmaps and its inode table inside the group, the buffers in
  use are exactly the super block, the descriptors and the loaded bitmaps, the root directory is in memory, and
  when the file system can be written its state on the disk is no longer valid.\<close>

theorem ext2_read_super_mounts:
  assumes "uses menv [] sb" and "\<not> s_lock (m_fs sb)" and "table_inv (m_vfs sb) xs hs" and "pages_ok (m_vfs sb) xs"
    and r: "ext2_read_super menv data sb = Some (True, sb')"
  shows "mounted menv sb'"
proof (rule read_super_steps [OF r assms(1-4)])
  fix bh sb1 sb2 root
  assume l: "loaded menv bh sb sb1" and t: "settled (m_fs sb1) (m_fs sb2)" and e: "s_es sb2 = s_es sb1" and z: "sized menv bh sb2"
    and rt: "s_mounted sb2 = root" "root \<noteq> INull" and s: "setup_super menv sb2 = Some sb'"
  show "mounted menv sb'"
    by (rule setup_super_mounted [OF s _ _ z]) (use l t rt e in \<open>simp_all add: loaded_def settled_def\<close>)
qed simp

text \<open>C31. A mount that fails leaves no buffer in use and the super block unlocked, with no device; the one
  exception is a super block that cannot be read again with the block size of the file system, which leaves the
  super block locked and its device set.\<close>

theorem failed_mount_cleans_up:
  assumes "uses menv [] sb" and "\<not> s_lock (m_fs sb)" and "table_inv (m_vfs sb) xs hs" and "pages_ok (m_vfs sb) xs"
    and r: "ext2_read_super menv data sb = Some (False, sb')"
  shows "b_count (m_fs sb') = (\<lambda>b. 0) \<and>
    (\<not> s_lock (m_fs sb') \<and> s_dev (m_vfs sb') = 0 \<or>
     s_lock (m_fs sb') \<and> s_dev (m_vfs sb') = s_dev (m_vfs sb) \<and> s_blocksize (m_fs sb') \<in> {2048, 4096} \<and>
     (\<exists>b. disk menv (s_blocksize (m_fs sb')) b = None))"
  by (rule read_super_steps [OF r assms(1-4)]) (auto simp: given_up_def stuck_def)

lemma release_all:
  "b_count fs = (\<lambda>x. c x + count_list bhs (Some x)) \<Longrightarrow> fold brelse bhs fs = fs\<lparr>b_count := c\<rparr>"
proof -
  assume c: "b_count fs = (\<lambda>x. c x + count_list bhs (Some x))"
  have "fs = with_refs fs (\<lambda>x. c x + count_list bhs (Some x))" unfolding with_refs_def c [symmetric] by simp
  then show ?thesis using brelse_all_refs [of bhs fs c] unfolding brelse_all_def with_refs_def by simp
qed

lemma put_super_result:
  assumes c: "refs (m_fs sb)"
  shows "m_fs (ext2_put_super sb) =
    (let fs = m_fs sb; fs = (if s_flags fs AND MS_RDONLY = 0
       then fs\<lparr>s_state := s_mount_state fs, b_dirt := (b_dirt fs)(s_sbh fs := True)\<rparr> else fs)
     in fs\<lparr>s_lock := False, s_group_desc := [], b_count := \<lambda>x. 0\<rparr>)"
proof -
  define fs1 where "fs1 = (let fs = lock_super (m_fs sb) in if s_flags fs AND MS_RDONLY = 0
    then mark_buffer_dirty (s_sbh fs) (fs\<lparr>s_state := s_mount_state fs\<rparr>) else fs)"
  let ?ds = "List.map (map_option fst) (s_group_desc (m_fs sb))" and ?ic = "bm_bitmap (inode_cache (m_fs sb))"
    and ?bc = "bm_bitmap (block_cache (m_fs sb))" and ?b = "Some (s_sbh (m_fs sb))"
  have f: "b_count fs1 = b_count (m_fs sb)" "s_group_desc fs1 = s_group_desc (m_fs sb)" "inode_cache fs1 = inode_cache (m_fs sb)"
      "block_cache fs1 = block_cache (m_fs sb)" "s_sbh fs1 = s_sbh (m_fs sb)"
    by (simp_all add: fs1_def lock_super_def mark_buffer_dirty_def Let_def)
  have g: "inode_cache (fs1\<lparr>b_count := c, s_group_desc := []\<rparr>) = inode_cache (m_fs sb)"
      "block_cache (fs1\<lparr>b_count := c, s_group_desc := []\<rparr>) = block_cache (m_fs sb)"
      "s_sbh (fs1\<lparr>b_count := c, s_group_desc := []\<rparr>) = s_sbh (m_fs sb)" for c by (simp_all add: f)
  have r1: "fold brelse ?ds fs1 = fs1\<lparr>b_count := \<lambda>x. count_list (?ic @ ?bc @ [?b]) (Some x)\<rparr>"
    by (rule release_all) (use c in \<open>simp add: f fun_eq_iff refs_def pinned_def count_list_append\<close>)
  have r2: "fold brelse ?ic (fs1\<lparr>b_count := \<lambda>x. count_list (?ic @ ?bc @ [?b]) (Some x), s_group_desc := []\<rparr>) =
      fs1\<lparr>b_count := \<lambda>x. count_list (?bc @ [?b]) (Some x), s_group_desc := []\<rparr>"
    by (subst release_all [where c = "\<lambda>x. count_list (?bc @ [?b]) (Some x)"]) (simp_all add: fun_eq_iff count_list_append)
  have r3: "fold brelse ?bc (fs1\<lparr>b_count := \<lambda>x. count_list (?bc @ [?b]) (Some x), s_group_desc := []\<rparr>) =
      fs1\<lparr>b_count := \<lambda>x. count_list [?b] (Some x), s_group_desc := []\<rparr>"
    by (subst release_all [where c = "\<lambda>x. count_list [?b] (Some x)"]) (simp_all add: fun_eq_iff count_list_append)
  have r4: "brelse ?b (fs1\<lparr>b_count := \<lambda>x. count_list [?b] (Some x), s_group_desc := []\<rparr>) =
      fs1\<lparr>b_count := \<lambda>x. 0, s_group_desc := []\<rparr>"
    using release_all [of "fs1\<lparr>b_count := \<lambda>x. count_list [?b] (Some x), s_group_desc := []\<rparr>" "\<lambda>x. 0" "[?b]"] by simp
  have "m_fs (ext2_put_super sb) = unlock_super (fs1\<lparr>b_count := \<lambda>x. 0, s_group_desc := []\<rparr>)"
  proof -
    have "m_fs (if s_flags (m_fs (on_fs lock_super sb)) AND MS_RDONLY = 0
        then on_fs (\<lambda>fs. mark_buffer_dirty (s_sbh fs) (fs\<lparr>s_state := s_mount_state fs\<rparr>)) (on_fs lock_super sb)
        else on_fs lock_super sb) = fs1" by (simp add: fs1_def Let_def)
    then show ?thesis unfolding ext2_put_super_def Let_def m_fs_simps
      by (simp only: release_descs_def f g r1 r2 r3 r4)
  qed
  then show ?thesis by (simp add: fs1_def unlock_super_def lock_super_def mark_buffer_dirty_def Let_def)
qed

text \<open>C30. Mounting and unmounting again puts everything back: no buffer is in use, the super block is unlocked and
  the descriptors are gone; a file system that was mounted for writing is marked on the disk with the state it had
  there before, but for an error that was noted in between.\<close>

theorem mount_unmount_round_trip:
  assumes "uses menv [] sb" and "\<not> s_lock (m_fs sb)" and "table_inv (m_vfs sb) xs hs" and "pages_ok (m_vfs sb) xs"
    and r: "ext2_read_super menv data sb = Some (True, sb')"
  shows "let fs = m_fs (ext2_put_super sb') in
    b_count fs = (\<lambda>b. 0) \<and> \<not> s_lock fs \<and> s_group_desc fs = [] \<and>
    (s_flags (m_fs sb') AND MS_RDONLY = 0 \<longrightarrow> b_dirt fs (s_sbh (m_fs sb')) \<and>
      (\<exists>bs o1. disk menv (dev_blksize sb') (s_sbh (m_fs sb')) = Some bs \<and> get16 (o1 + 56) bs = EXT2_SUPER_MAGIC \<and>
        s_state fs AND NOT EXT2_ERROR_FS = get16 (o1 + 58) bs AND NOT EXT2_ERROR_FS))"
proof (rule read_super_steps [OF r assms(1-4)])
  fix bh sb1 sb2 root
  assume l: "loaded menv bh sb sb1" and t: "settled (m_fs sb1) (m_fs sb2)" and e: "s_es sb2 = s_es sb1" and z: "sized menv bh sb2"
    and rt: "s_mounted sb2 = root" "root \<noteq> INull" and d: "dev_blksize sb2 = dev_blksize sb1" and s: "setup_super menv sb2 = Some sb'"
  have m: "mounted menv sb'"
    by (rule setup_super_mounted [OF s _ _ z]) (use l t rt e in \<open>simp_all add: loaded_def settled_def\<close>)
  have ul: "\<not> s_lock (m_fs sb2)" using l t by (simp add: loaded_def settled_def)
  obtain sb3 where p: "prepared sb2 sb3" and t3: "settled (m_fs sb3) (m_fs sb')" and e3: "sb' = on_fs (\<lambda>_. m_fs sb') sb3"
    using setup_super_steps [OF s ul] by metis
  have e': "es_state (s_es sb') = es_state (s_es sb1)" "dev_blksize sb' = dev_blksize sb1" "s_sbh (m_fs sb') = bh"
    using p d e t3 z by ((subst e3)?, simp add: prepared_def settled_def sized_def measured_def Let_def)+
  obtain bs o1 where bs: "disk menv (dev_blksize sb1) bh = Some bs" "s_es sb1 = decode_super o1 bs" "get16 (o1 + 56) bs = EXT2_SUPER_MAGIC"
    using l by (auto simp: loaded_def decode_super_def)
  have "s_mount_state (m_fs sb') AND NOT EXT2_ERROR_FS = get16 (o1 + 58) bs AND NOT EXT2_ERROR_FS"
    using t3 p t l bs(2) by (simp add: settled_def prepared_def loaded_def decode_super_def)
  moreover have "disk menv (dev_blksize sb') (s_sbh (m_fs sb')) = Some bs" using bs(1) e'(2,3) by simp
  moreover have "refs (m_fs sb')" using m by (simp add: mounted_def caches_ok_def)
  ultimately show ?thesis using bs(3) unfolding put_super_result [OF \<open>refs (m_fs sb')\<close>] Let_def by auto
qed simp


text \<open>A change of fields that do not matter.\<close>

lemma mounted_cong:
  assumes "layout (m_fs sb') = layout ((m_fs sb)\<lparr>s_mount_opt := mo\<rparr>)" "s_group_desc (m_fs sb') = s_group_desc (m_fs sb)"
    "s_sbh (m_fs sb') = s_sbh (m_fs sb)" "s_lock (m_fs sb') = s_lock (m_fs sb)" "inode_cache (m_fs sb') = inode_cache (m_fs sb)"
    "block_cache (m_fs sb') = block_cache (m_fs sb)" "b_count (m_fs sb') = b_count (m_fs sb)"
    "s_magic sb' = s_magic sb" "dev_blksize sb' = dev_blksize sb" "es_sizes (s_es sb') = es_sizes (s_es sb)" "s_mounted sb' = s_mounted sb"
    and "s_flags (m_fs sb') AND MS_RDONLY = 0 \<longrightarrow> s_state (m_fs sb') AND EXT2_VALID_FS = 0" and m: "mounted menv sb"
  shows "mounted menv sb'"
proof -
  have "s_groups_count (m_fs sb') = s_groups_count (m_fs sb)" using layoutD(6) [OF assms(1)] by simp
  then have "caches_ok (m_fs sb') = caches_ok (m_fs sb)" using assms(2-7) by (intro caches_ok_cong) simp_all
  moreover have "sized menv bh sb' = sized menv bh sb" for bh by (rule sized_cong [OF assms(1-3,8-10)])
  ultimately show ?thesis using m assms(3,4,11,12) by (simp add: mounted_def)
qed

lemma rdonly_flags:
  "((w AND NOT MS_RDONLY) OR (f AND MS_RDONLY)) AND MS_RDONLY = f AND MS_RDONLY"
  by (simp add: bit.conj_disj_distrib2 and.assoc)

text \<open>What \<open>ext2_remount\<close> does before the flags are looked at.\<close>

definition new_options :: "u32 \<Rightarrow> u16 \<Rightarrow> u16 \<Rightarrow> super \<Rightarrow> super" where
  "new_options mo u g sb = (on_fs (\<lambda>fs. fs\<lparr>s_mount_opt := mo\<rparr>) sb)\<lparr>s_resuid := u, s_resgid := g\<rparr>"

lemma new_options_simps [simp]:
  "m_fs (new_options mo u g sb) = (m_fs sb)\<lparr>s_mount_opt := mo\<rparr>" "s_es (new_options mo u g sb) = s_es sb"
  "s_magic (new_options mo u g sb) = s_magic sb" "dev_blksize (new_options mo u g sb) = dev_blksize sb"
  "s_mounted (new_options mo u g sb) = s_mounted sb"
  by (simp_all add: new_options_def)

lemma remount_cases:
  assumes r: "ext2_remount menv so st flags data sb = Some (ret, sb')"
  obtains (invalid) w where "ret = - EINVAL" and "sb' = on_fs (\<lambda>fs. fs\<lparr>s_mount_opt := w\<rparr>) sb"
  | (options) mo u g where "ret = 0" and "sb' = new_options mo u g sb"
    and "flags AND MS_RDONLY = s_flags (m_fs sb) AND MS_RDONLY \<or> flags AND MS_RDONLY \<noteq> 0 \<and>
      (s_state (m_fs sb) AND EXT2_VALID_FS \<noteq> 0 \<or> s_mount_state (m_fs sb) AND EXT2_VALID_FS = 0)"
  | (read_only) mo u g es where "ret = 0" and "flags AND MS_RDONLY \<noteq> 0" and "s_flags (m_fs sb) AND MS_RDONLY = 0"
    and "es_sizes es = es_sizes (s_es sb)"
    and "sb' = on_fs (\<lambda>fs. fs\<lparr>s_state := s_mount_state fs, b_dirt := (b_dirt fs)(s_sbh fs := True), s_dirt := False\<rparr>)
      ((new_options mo u g sb)\<lparr>s_es := es\<rparr>)"
  | (writable) mo u g where "ret = 0" and "flags AND MS_RDONLY = 0" and "s_flags (m_fs sb) AND MS_RDONLY \<noteq> 0"
    and "setup_super menv (on_fs (\<lambda>fs. fs\<lparr>s_mount_state := s_state fs, s_flags := s_flags fs AND NOT MS_RDONLY\<rparr>)
      (new_options mo u g sb)) = Some sb'"
proof -
  define sb1 where "sb1 = on_fs (\<lambda>fs. fs\<lparr>s_mount_opt := set_opt EXT2_MOUNT_CHECK_NORMAL (s_mount_opt fs)\<rparr>) sb"
  obtain good mo where p: "parse_options data \<lparr>sb_block = st, resuid = s_resuid sb1, resgid = s_resgid sb1,
      mount_options = so\<rparr> = (good, mo)" by (cases "parse_options data \<lparr>sb_block = st, resuid = s_resuid sb1,
      resgid = s_resgid sb1, mount_options = so\<rparr>")
  define sb2 where "sb2 = (on_fs (\<lambda>fs. fs\<lparr>s_mount_opt := mount_options mo\<rparr>) sb1)\<lparr>s_resuid := resuid mo, s_resgid := resgid mo\<rparr>"
  have n: "sb2 = new_options (mount_options mo) (resuid mo) (resgid mo) sb"
    by (simp add: sb2_def sb1_def new_options_def on_fs_on_fs)
  note r = r [unfolded ext2_remount_def Let_def sb1_def [symmetric] p prod.case sb2_def [symmetric]]
  show thesis
  proof (cases good)
    case False
    then have "ret = - EINVAL" "sb' = sb1" using r by simp_all
    then show thesis using invalid unfolding sb1_def on_fs_def by blast
  next
    case True
    note r = r [unfolded eqTrueI [OF True] bool.case sb2_def [symmetric]]
    have f2: "s_flags (m_fs sb2) = s_flags (m_fs sb)" "s_state (m_fs sb2) = s_state (m_fs sb)"
      "s_mount_state (m_fs sb2) = s_mount_state (m_fs sb)" by (simp_all add: n)
    consider (same) "flags AND MS_RDONLY = s_flags (m_fs sb) AND MS_RDONLY"
      | (skip) "flags AND MS_RDONLY \<noteq> s_flags (m_fs sb) AND MS_RDONLY" "flags AND MS_RDONLY \<noteq> 0"
          "s_state (m_fs sb) AND EXT2_VALID_FS \<noteq> 0 \<or> s_mount_state (m_fs sb) AND EXT2_VALID_FS = 0"
      | (ro) "flags AND MS_RDONLY \<noteq> s_flags (m_fs sb) AND MS_RDONLY" "flags AND MS_RDONLY \<noteq> 0"
          "\<not> (s_state (m_fs sb) AND EXT2_VALID_FS \<noteq> 0 \<or> s_mount_state (m_fs sb) AND EXT2_VALID_FS = 0)"
      | (rw) "flags AND MS_RDONLY \<noteq> s_flags (m_fs sb) AND MS_RDONLY" "flags AND MS_RDONLY = 0" by blast
    then show thesis
    proof cases
      case same
      then have "ret = 0" "sb' = sb2" using r f2 by simp_all
      then show thesis using options [OF _ _ disjI1 [OF same]] n by blast
    next
      case skip
      then have "ret = 0" "sb' = sb2" using r f2 by simp_all
      then show thesis using options [OF _ _ disjI2] n skip by blast
    next
      case ro
      have "s_flags (m_fs sb) AND MS_RDONLY = 0 \<or> s_flags (m_fs sb) AND MS_RDONLY = 1"
        "flags AND MS_RDONLY = 0 \<or> flags AND MS_RDONLY = 1"
        by (simp_all add: MS_RDONLY_def and_one_eq mod2_eq_if)
      then have z: "s_flags (m_fs sb) AND MS_RDONLY = 0" using ro by metis
      have ret: "ret = 0" using r f2 ro by simp
      have sb': "sb' = commit_super menv ((on_fs (\<lambda>fs. (mark_buffer_dirty (s_sbh fs) (fs\<lparr>s_state := s_mount_state fs\<rparr>))\<lparr>s_dirt := True\<rparr>) sb2)
          \<lparr>s_es := (s_es (on_fs (\<lambda>fs. (mark_buffer_dirty (s_sbh fs) (fs\<lparr>s_state := s_mount_state fs\<rparr>))\<lparr>s_dirt := True\<rparr>) sb2))
            \<lparr>es_mtime := cur_time (m_env menv)\<rparr>\<rparr>)" using r f2 ro by simp
      show thesis
      proof (rule read_only [OF ret ro(2) z])
        show "es_sizes ((s_es sb)\<lparr>es_mtime := cur_time (m_env menv), es_wtime := cur_time (m_env menv)\<rparr>) = es_sizes (s_es sb)"
          by (simp add: es_sizes_def)
        show "sb' = on_fs (\<lambda>fs. fs\<lparr>s_state := s_mount_state fs, b_dirt := (b_dirt fs)(s_sbh fs := True), s_dirt := False\<rparr>)
            ((new_options (mount_options mo) (resuid mo) (resgid mo) sb)\<lparr>s_es := (s_es sb)\<lparr>es_mtime := cur_time (m_env menv),
              es_wtime := cur_time (m_env menv)\<rparr>\<rparr>)"
          unfolding sb' n commit_super_def by (simp add: on_fs_def mark_buffer_dirty_def new_options_def)
      qed
    next
      case rw
      have z: "s_flags (m_fs sb) AND MS_RDONLY \<noteq> 0" using rw by auto
      have "Option.bind (setup_super menv (on_fs (\<lambda>fs. fs\<lparr>s_mount_state := s_state fs,
          s_flags := s_flags fs AND NOT MS_RDONLY\<rparr>) sb2)) (\<lambda>sb. Some (0, sb)) = Some (ret, sb')"
        using r f2 rw by simp
      then have "ret = 0" "setup_super menv (on_fs (\<lambda>fs. fs\<lparr>s_mount_state := s_state fs,
          s_flags := s_flags fs AND NOT MS_RDONLY\<rparr>) sb2) = Some sb'" by (auto simp: bind_eq_Some_conv)
      then show thesis using writable rw(2) z unfolding n by blast
    qed
  qed
qed


lemma mounted_options:
  "mounted menv sb \<Longrightarrow> mounted menv (new_options mo u g sb)"
  by (rule mounted_cong [where mo = mo]) (simp_all add: mounted_def)

text \<open>C32. Remounting keeps a mounted file system fit for use and gives it the flag that was asked for. Going
  read only writes back the state that the file system had when it was mounted; going read and write takes the
  valid state away, provided the revision of the file system is not newer than the first. For a newer one
  the code makes the file system writable and leaves its state as it was.\<close>

theorem remount_keeps_mounted:
  assumes m: "mounted menv sb" and r: "do_remount_sb menv so st flags data sb = Some (ret, sb')"
  shows "(es_rev_level (s_es sb) \<le> EXT2_CURRENT_REV \<longrightarrow> mounted menv sb') \<and>
    (ret = 0 \<longrightarrow> s_flags (m_fs sb') AND MS_RDONLY = flags AND MS_RDONLY) \<and>
    (ret \<noteq> 0 \<longrightarrow> ret = - EINVAL \<and> s_flags (m_fs sb') = s_flags (m_fs sb)) \<and>
    (EXT2_CURRENT_REV < es_rev_level (s_es sb) \<and> flags AND MS_RDONLY = 0 \<longrightarrow> s_state (m_fs sb') = s_state (m_fs sb))"
proof -
  obtain ret1 sb1 where q: "ext2_remount menv so st flags data sb = Some (ret1, sb1)"
    using r by (cases "ext2_remount menv so st flags data sb") (auto simp: do_remount_sb_def)
  let ?set = "on_fs (\<lambda>fs. fs\<lparr>s_flags := (s_flags fs AND NOT MS_RDONLY) OR (flags AND MS_RDONLY)\<rparr>)"
  have e: "ret = ret1" "ret = 0 \<longrightarrow> sb' = ?set sb1" "ret \<noteq> 0 \<longrightarrow> sb' = sb1"
    using r q by (auto simp: do_remount_sb_def split: if_splits)
  have set: "mounted menv (?set sb2)" if "mounted menv sb2" "flags AND MS_RDONLY = 0 \<longrightarrow> s_state (m_fs sb2) AND EXT2_VALID_FS = 0" for sb2
    by (rule mounted_cong [OF _ _ _ _ _ _ _ _ _ _ _ _ that(1), where mo = "s_mount_opt (m_fs sb2)"])
      (use that(2) in \<open>simp_all add: layout_def rdonly_flags\<close>)
  have fl: "ret = 0 \<longrightarrow> s_flags (m_fs sb') AND MS_RDONLY = flags AND MS_RDONLY" using e(2) by (simp add: rdonly_flags)
  show ?thesis
  proof (rule remount_cases [OF q])
    fix w assume i: "ret1 = - EINVAL" "sb1 = on_fs (\<lambda>fs. fs\<lparr>s_mount_opt := w\<rparr>) sb"
    have "- EINVAL \<noteq> 0" by (simp add: EINVAL_def)
    moreover have "mounted menv sb1" unfolding i(2)
      by (rule mounted_cong [OF _ _ _ _ _ _ _ _ _ _ _ _ m, where mo = w]) (use m in \<open>simp_all add: mounted_def\<close>)
    ultimately show ?thesis using e i by simp
  next
    fix mo u g
    assume i: "ret1 = 0" "sb1 = new_options mo u g sb"
      and c: "flags AND MS_RDONLY = s_flags (m_fs sb) AND MS_RDONLY \<or> flags AND MS_RDONLY \<noteq> 0 \<and>
        (s_state (m_fs sb) AND EXT2_VALID_FS \<noteq> 0 \<or> s_mount_state (m_fs sb) AND EXT2_VALID_FS = 0)"
    have "flags AND MS_RDONLY = 0 \<longrightarrow> s_state (m_fs sb1) AND EXT2_VALID_FS = 0"
      using c m unfolding i(2) by (auto simp: mounted_def)
    then have "mounted menv (?set sb1)" using mounted_options [OF m] unfolding i(2) by (intro set) simp_all
    moreover have "s_state (m_fs sb1) = s_state (m_fs sb)" by (simp add: i(2))
    ultimately show ?thesis using e i(1) fl by simp
  next
    fix mo u g es
    assume i: "ret1 = 0" "flags AND MS_RDONLY \<noteq> 0" "es_sizes es = es_sizes (s_es sb)"
      and s1: "sb1 = on_fs (\<lambda>fs. fs\<lparr>s_state := s_mount_state fs, b_dirt := (b_dirt fs)(s_sbh fs := True), s_dirt := False\<rparr>)
        ((new_options mo u g sb)\<lparr>s_es := es\<rparr>)"
    have s': "sb' = ?set sb1" using e i(1) by simp
    have "mounted menv (?set sb1)"
      by (rule mounted_cong [OF _ _ _ _ _ _ _ _ _ _ _ _ m, where mo = mo])
        (use i in \<open>simp_all add: s1 layout_def rdonly_flags\<close>)
    then show ?thesis using e i(1,2) fl s' by simp
  next
    fix mo u g
    define sb2 where "sb2 = on_fs (\<lambda>fs. fs\<lparr>s_mount_state := s_state fs, s_flags := s_flags fs AND NOT MS_RDONLY\<rparr>) (new_options mo u g sb)"
    assume i: "ret1 = 0" "flags AND MS_RDONLY = 0"
      and s: "setup_super menv (on_fs (\<lambda>fs. fs\<lparr>s_mount_state := s_state fs, s_flags := s_flags fs AND NOT MS_RDONLY\<rparr>)
        (new_options mo u g sb)) = Some sb1"
    note s = s [folded sb2_def]
    have c: "caches_ok (m_fs sb2) = caches_ok (m_fs sb)" by (rule caches_ok_cong) (simp_all add: sb2_def)
    have z: "sized menv bh sb2 = sized menv bh sb" for bh
      by (rule sized_cong [where mo = mo]) (simp_all add: sb2_def layout_def)
    have l: "\<not> s_lock (m_fs sb2)" "s_mounted sb2 = s_mounted sb" "s_es sb2 = s_es sb" using m by (simp_all add: sb2_def mounted_def)
    have m1: "mounted menv sb1"
      by (rule setup_super_mounted [OF s l(1), where bh = "s_sbh (m_fs sb)"]) (use m c z l in \<open>simp_all add: mounted_def\<close>)
    have n: "s_state (m_fs sb1) = s_state (m_fs sb)" if "EXT2_CURRENT_REV < es_rev_level (s_es sb)"
      using setup_super_newer [OF s] that l(3) by (simp add: sb2_def)
    have "s_state (m_fs sb1) AND EXT2_VALID_FS = 0" if "es_rev_level (s_es sb) \<le> EXT2_CURRENT_REV"
      by (rule setup_super_valid [OF s l(1)]) (use that l in \<open>simp_all add: sb2_def and.assoc\<close>)
    then show ?thesis using set [OF m1] e i fl n by simp
  qed
qed

end
