(* ===== verification/Ext2_Mount_Example.thy ===== *)
theory Ext2_Mount_Example
  imports Ext2_Mount_Props Ext2_Icache_Example
begin

text \<open>
  A small file system on a disk, on which the witnesses apply the theorems on mounting: 64 blocks of 1024
  bytes in one group, with eight inodes. Block 1 holds the super block, block 2 the descriptor, block 3 and 4 the
  bitmaps, block 5 the inodes; the root directory is inode 2. Past the end of a list of bytes \<open>rd8\<close> reads
  zeros, so the zeros at the end of a block are left out.
\<close>

definition tail_ones :: "u8 list \<Rightarrow> u8 list" where
  "tail_ones bs = bs @ replicate (1024 - length bs) 0xFF"

definition raw_super :: "u8 list" where
  "raw_super = [8, 0, 0, 0, 65, 0, 0, 0, 2, 0, 0, 0, 58, 0, 0, 0, 6, 0, 0, 0, 1, 0, 0, 0, 0, 0, 0, 0, 0, 0, 0, 0,
     64, 0, 0, 0, 64, 0, 0, 0, 8, 0, 0, 0, 0, 0, 0, 0, 0, 0, 0, 0, 0, 0, 20, 0, 0x53, 0xEF, 1, 0, 1, 0, 0, 0]"

definition raw_desc :: "u8 list" where
  "raw_desc = [3, 0, 0, 0, 4, 0, 0, 0, 5, 0, 0, 0, 58, 0, 6, 0, 1, 0]"

definition raw_inodes :: "u8 list" where
  "raw_inodes = replicate 128 0 @ [0xED, 0x41, 0, 0, 0, 4, 0, 0] @ replicate 18 0 @ [2, 0]"

definition mount_disk :: "nat \<Rightarrow> u32 \<Rightarrow> u8 list option" where
  "mount_disk n b =
     (if b = 1 then Some raw_super else if b = 2 then Some raw_desc
      else if b = 3 then Some (tail_ones [0x3F, 0, 0, 0, 0, 0, 0, 0]) else if b = 4 then Some (tail_ones [3])
      else if b = 5 then Some raw_inodes else if b = 7 then None else Some [])"

definition mount_menv :: mount_env where
  "mount_menv = \<lparr>m_env = \<lparr>cur_time = 1000, yields = (\<lambda>fs. fs), retensive = False, umask = 18\<rparr>, disk = mount_disk, memory = (\<lambda>_. True),
     Errors_Panic = False, auto_fsck = False\<rparr>"

definition blank_fs :: ext2_fs where
  "blank_fs = example_fs\<lparr>s_group_desc := [], b_data := mount_disk 1024\<rparr>"

definition blank_sb :: super where
  "blank_sb = \<lparr>m_vfs = example_vfs\<lparr>v_fs := blank_fs\<rparr>, s_es = decode_super 0 [], s_magic = 0, s_blocksize_bits = 0, s_frag_size = 0,
     s_frags_per_block = 0, s_frags_per_group = 0, s_inode_size = 0, s_first_ino = 0, s_resuid = 0, s_resgid = 0,
     s_db_per_group = 0, s_mounted = INull, dev_blksize = 1024\<rparr>"

text \<open>The super block and the descriptor, as they are read.\<close>

definition example_super :: ext2_super_block where
  "example_super = \<lparr>es_inodes_count = 8, es_blocks_count = 65, es_r_blocks_count = 2, es_free_blocks_count = 58,
     es_free_inodes_count = 6, es_first_data_block = 1, es_log_block_size = 0, es_log_frag_size = 0, es_blocks_per_group = 64,
     es_frags_per_group = 64, es_inodes_per_group = 8, es_mtime = 0, es_wtime = 0, es_mnt_count = 0, es_max_mnt_count = 20,
     es_magic = 0xEF53, es_state = 1, es_errors = 1, es_lastcheck = 0, es_checkinterval = 0, es_rev_level = 0,
     es_def_resuid = 0, es_def_resgid = 0, es_first_ino = 0, es_inode_size = 0, es_feature_incompat = 0,
     es_feature_ro_compat = 0\<rparr>"

lemma read_example_super: "decode_super 0 raw_super = example_super"
  by code_simp

lemma read_example_desc:
  "decode_descs 32 raw_desc ! 0 = \<lparr>bg_block_bitmap = 3, bg_inode_bitmap = 4, bg_inode_table = 5,
     bg_free_blocks_count = 58, bg_free_inodes_count = 6, bg_used_dirs_count = 1\<rparr>"
  by (simp add: decode_descs_def) code_simp

lemma length_descs [simp]: "length (decode_descs n bs) = n" "(decode_descs n bs = []) = (n = 0)"
  by (simp_all add: decode_descs_def)

definition loaded_fs :: ext2_fs where
  "loaded_fs = \<lparr>s_blocksize = 1024, s_flags = 0, s_dirt = False, s_lock = False, s_inodes_count = 8, s_blocks_count = 65,
     s_r_blocks_count = 2, s_free_blocks_count = 58, s_free_inodes_count = 6, s_first_data_block = 1, s_state = 1, s_errors = 1,
     s_groups_count = 1, s_blocks_per_group = 64, s_inodes_per_group = 8, s_inodes_per_block = 8, s_itb_per_group = 1,
     s_desc_per_block = 32, s_mount_opt = set_opt EXT2_MOUNT_CHECK_STRICT EXT2_MOUNT_CHECK_STRICT, s_mount_state = 1, s_sbh = 1,
     s_group_desc = [Some (2, decode_descs 32 raw_desc)], block_cache = cleared_cache, inode_cache = cleared_cache,
     b_data = mount_disk 1024, b_dirt = (\<lambda>_. False), b_count = (\<lambda>_. 0)(1 := 1, 2 := 1), b_written = []\<rparr>"

definition loaded_sb :: super where
  "loaded_sb = \<lparr>m_vfs = example_vfs\<lparr>v_fs := loaded_fs\<rparr>, s_es = example_super, s_magic = EXT2_SUPER_MAGIC, s_blocksize_bits = 10,
     s_frag_size = 1024, s_frags_per_block = 1, s_frags_per_group = 64, s_inode_size = EXT2_GOOD_OLD_INODE_SIZE,
     s_first_ino = EXT2_GOOD_OLD_FIRST_INO, s_resuid = 0, s_resgid = 0, s_db_per_group = 1, s_mounted = INull, dev_blksize = 1024\<rparr>"

lemmas example_load = and_then_def read_first_def Let_def set_blocksize_def BLOCK_SIZE_def blank_sb_def blank_fs_def
  example_vfs_def example_fs_def bread_sb_def bread_def getblk_def m_fs_def on_fs_def lock_super_def unlock_super_def
  mount_menv_def mount_disk_def read_example_super attach_def EXT2_SUPER_MAGIC_def bad_features_def reread_def
  inode_sizes_def geometry_def open_rename_lock_def div_trap_def unsupported_def load_groups_def example_super_def MS_RDONLY_def
  EXT2_GOOD_OLD_REV_def EXT2_MIN_BLOCK_SIZE_def EXT2_MIN_FRAG_SIZE_def shl32_def RAW_INODE_SIZE_def

lemma parse_no_options: "parse_options None mo = (True, mo)"
  by (simp add: parse_options_def)

lemma load_example: "load_super mount_menv None blank_sb = Some (Inr (1, loaded_sb))"
  by (simp add: load_super_def example_load parse_no_options loaded_sb_def loaded_fs_def ext2_check_descriptors_def get_group_desc_def
    desc_in_group_def gd_at_def read_example_desc)


subsection \<open>The checks of the bitmaps\<close>

lemma count_free_tail: "ext2_count_free (Some (bs @ replicate m 0xFF)) (length bs + m) = ext2_count_free (Some bs) (length bs)"
proof (induction m)
  case 0
  then show ?case by simp
next
  case (Suc m)
  have r: "replicate (Suc m) (0xFF :: u8) = replicate m 0xFF @ [0xFF]" by (simp add: replicate_append_same)
  have "ext2_count_free (Some (bs @ replicate (Suc m) 0xFF)) (length bs + m) = ext2_count_free (Some (bs @ replicate m 0xFF)) (length bs + m)"
    unfolding ext2_count_free_def option.case r
    by (rule arg_cong [of _ _ sum_list], rule map_cong [OF refl]) (simp add: rd8_def nth_append)
  moreover have "rd8 (bs @ replicate (Suc m) 0xFF) (length bs + m) = 0xFF" unfolding r by (simp add: rd8_def nth_append)
  moreover have "count_free_byte (0xFF :: u8) = 0" by (simp add: count_free_byte_def nibblemap_def)
  ultimately show ?case using Suc by (simp add: ext2_count_free_def)
qed

lemma example_count: "ext2_count_free (Some (tail_ones [0x3F, 0, 0, 0, 0, 0, 0, 0])) 1024 = 58"
proof -
  define bs :: "u8 list" where "bs = [0x3F, 0, 0, 0, 0, 0, 0, 0]"
  have l: "length bs = 8" by (simp add: bs_def)
  have "ext2_count_free (Some bs) 8 = 58" unfolding bs_def by code_simp
  then show ?thesis using count_free_tail [of bs 1016] by (simp add: tail_ones_def l flip: bs_def)
qed

lemma example_count_inodes: "ext2_count_free (Some (tail_ones [3])) (Suc 0) = 6"
  by (simp add: ext2_count_free_def tail_ones_def rd8_def count_free_byte_def nibblemap_def)

definition set_up_fs :: ext2_fs where
  "set_up_fs = loaded_fs\<lparr>s_mount_opt := set_opt EXT2_MOUNT_ERRORS_CONT (clear_opt EXT2_MOUNT_ERRORS_RO (clear_opt EXT2_MOUNT_ERRORS_PANIC
     (s_mount_opt loaded_fs))), s_state := 0, b_dirt := (\<lambda>_. False)(1 := True), s_dirt := True\<rparr>"

lemma example_test: "test_bit k (tail_ones [0x3F, 0, 0, 0, 0, 0, 0, 0]) = bit (0x3F :: u8) k" if "k < 8"
  using that by (simp add: test_bit_def tail_ones_def rd8_def)

lemma check_blocks_example: "ext2_check_blocks_bitmap set_up_fs = Some (set_up_fs\<lparr>b_count := (b_count set_up_fs)(3 := 1),
    block_cache := cleared_cache\<lparr>bm_number := (replicate 8 0)[0 := 0], bm_bitmap := (replicate 8 None)[0 := Some 3]\<rparr>\<rparr>)"
  by (simp add: ext2_check_blocks_bitmap_def set_up_fs_def loaded_fs_def lock_super_def unlock_super_def get_group_desc_def Let_def
    group_bitmap_def load_block_bitmap_def load__block_bitmap_def read_block_bitmap_def gd_at_def read_example_desc
    bread_def getblk_def mount_disk_def example_count cleared_cache_def EXT2_MAX_GROUP_LOADED_def blocks_bitmap_tests_def
    example_test block_in_use_def bit_of_def)


lemma check_inodes_example: "ext2_check_inodes_bitmap (set_up_fs\<lparr>b_count := c, block_cache := bc\<rparr>) = Some (set_up_fs\<lparr>b_count := c(4 := Suc (c 4)),
    block_cache := bc, inode_cache := cleared_cache\<lparr>bm_number := (replicate 8 0)[0 := 0], bm_bitmap := (replicate 8 None)[0 := Some 4]\<rparr>\<rparr>)"
  by (simp add: ext2_check_inodes_bitmap_def set_up_fs_def loaded_fs_def lock_super_def unlock_super_def get_group_desc_def Let_def
    group_inode_bitmap_def load_inode_bitmap_def read_inode_bitmap_def gd_at_def read_example_desc
    bread_def getblk_def mount_disk_def example_count_inodes cleared_cache_def EXT2_MAX_GROUP_LOADED_def)

lemma same_match: "match (st\<lparr>v_fs := fs\<rparr>) = match st"
  by (simp add: match_def fun_eq_iff)

lemma example_iget: "iget env EXT2_ROOT_INO (example_vfs\<lparr>v_fs := fs\<rparr>) = Some (Ino 0, found_it (Ino 0) (example_vfs\<lparr>v_fs := fs\<rparr>))"
proof (rule iget_found [OF table_inv_fs [OF example_table]])
  show "List.find (match (example_vfs\<lparr>v_fs := fs\<rparr>) EXT2_ROOT_INO)
      (example_chains (hashfn (s_dev (example_vfs\<lparr>v_fs := fs\<rparr>)) EXT2_ROOT_INO)) = Some (Ino 0)"
    using example_root by (simp add: same_match EXT2_ROOT_INO_def)
qed

lemmas example_setup = mount_menv_def EXT2_CURRENT_REV_def EXT2_GOOD_OLD_REV_def example_super_def loaded_fs_def MS_RDONLY_def
  mark_buffer_dirty_def EXT2_VALID_FS_def EXT2_DFL_MAX_MNT_COUNT_def
  check_blocks_example [unfolded set_up_fs_def loaded_fs_def, simplified]
  check_inodes_example [unfolded set_up_fs_def loaded_fs_def, simplified]

lemma mount_example: "\<exists>sb'. ext2_read_super mount_menv None blank_sb = Some (True, sb') \<and> s_flags (m_fs sb') AND MS_RDONLY = 0 \<and>
    es_rev_level (s_es sb') = 0"
proof -
  define st where "st = found_it (Ino 0) (example_vfs\<lparr>v_fs := loaded_fs\<rparr>)"
  have st: "v_fs st = loaded_fs" by (simp add: st_def found_it_def wait_on_inode_def set_inode_def Let_def)
  define sb1 where "sb1 = loaded_sb\<lparr>m_vfs := st, s_mounted := Ino 0\<rparr>"
  have "m_fs sb1 = loaded_fs" "s_es sb1 = example_super" by (simp_all add: sb1_def loaded_sb_def m_fs_def st)
  then have "\<exists>sb'. setup_super mount_menv sb1 = Some sb' \<and> s_flags (m_fs sb') AND MS_RDONLY = 0 \<and> es_rev_level (s_es sb') = 0"
    by (simp add: setup_super_def Let_def example_setup)
  moreover have "ext2_read_super mount_menv None blank_sb = Option.bind (setup_super mount_menv sb1) (\<lambda>sb. Some (True, sb))"
  proof -
    have "set_dev (s_dev (m_vfs blank_sb)) loaded_sb = loaded_sb" "m_vfs loaded_sb = example_vfs\<lparr>v_fs := loaded_fs\<rparr>"
      by (simp_all add: set_dev_def loaded_sb_def blank_sb_def example_vfs_def)
    then show ?thesis by (simp add: ext2_read_super_def load_example example_iget sb1_def st_def)
  qed
  ultimately show ?thesis by auto
qed


section \<open>The witnesses\<close>

lemma example_blank: "uses mount_menv [] blank_sb" "\<not> s_lock (m_fs blank_sb)"
  "table_inv (m_vfs blank_sb) example_ring example_chains" "pages_ok (m_vfs blank_sb) example_ring"
  using table_inv_fs [OF example_table] pages_ok_fs [OF example_pages]
  by (simp_all add: uses_def m_fs_def blank_sb_def blank_fs_def mount_menv_def fun_eq_iff example_fs_def)

theorem ext2_read_super_mounts_witness: "\<exists>sb'. ext2_read_super mount_menv None blank_sb = Some (True, sb') \<and> mounted mount_menv sb'"
  using mount_example ext2_read_super_mounts [OF example_blank] by blast

theorem failed_mount_cleans_up_witness:
  "\<exists>sb'. ext2_read_super mount_menv (Some ''sb=7'') blank_sb = Some (False, sb') \<and> b_count (m_fs sb') = (\<lambda>b. 0)"
proof -
  have "map_option fst (ext2_read_super mount_menv (Some ''sb=7'') blank_sb) = Some False" by code_simp
  then obtain sb' where "ext2_read_super mount_menv (Some ''sb=7'') blank_sb = Some (False, sb')" by auto
  then show ?thesis using failed_mount_cleans_up [OF example_blank] by blast
qed

theorem mount_unmount_round_trip_witness:
  "\<exists>sb'. ext2_read_super mount_menv None blank_sb = Some (True, sb') \<and>
     b_count (m_fs (ext2_put_super sb')) = (\<lambda>b. 0) \<and> b_dirt (m_fs (ext2_put_super sb')) (s_sbh (m_fs sb'))"
proof -
  obtain sb' where r: "ext2_read_super mount_menv None blank_sb = Some (True, sb')" and w: "s_flags (m_fs sb') AND MS_RDONLY = 0"
    using mount_example by blast
  then show ?thesis using mount_unmount_round_trip [OF example_blank r] by (auto simp: Let_def)
qed

lemma example_mounted: "\<exists>sb. mounted mount_menv sb \<and> s_flags (m_fs sb) AND MS_RDONLY = 0 \<and> es_rev_level (s_es sb) = 0"
proof -
  obtain sb' where r: "ext2_read_super mount_menv None blank_sb = Some (True, sb')" and w: "s_flags (m_fs sb') AND MS_RDONLY = 0"
      and e: "es_rev_level (s_es sb') = 0"
    using mount_example by blast
  show ?thesis
  proof (rule read_super_steps [OF r example_blank])
    fix bh sb1 sb2 root
    assume l: "loaded mount_menv bh blank_sb sb1" and t: "settled (m_fs sb1) (m_fs sb2)" and z: "sized mount_menv bh sb2"
      and rt: "s_mounted sb2 = root" "root \<noteq> INull" and s: "setup_super mount_menv sb2 = Some sb'"
    have "mounted mount_menv sb'"
      by (rule setup_super_mounted [OF s _ _ z]) (use l t rt in \<open>simp_all add: loaded_def settled_def\<close>)
    then show ?thesis using w e by blast
  qed simp
qed

theorem remount_keeps_mounted_witness:
  "\<exists>sb sb'. mounted mount_menv sb \<and> do_remount_sb mount_menv 0 0 MS_RDONLY None sb = Some (0, sb') \<and> mounted mount_menv sb' \<and>
     s_flags (m_fs sb') AND MS_RDONLY = MS_RDONLY AND MS_RDONLY"
proof -
  obtain sb where m: "mounted mount_menv sb" "s_flags (m_fs sb) AND MS_RDONLY = 0" "es_rev_level (s_es sb) = 0"
    using example_mounted by blast
  have "\<exists>sb'. do_remount_sb mount_menv 0 0 MS_RDONLY None sb = Some (0, sb')"
    by (cases "s_state (m_fs sb) AND EXT2_VALID_FS = 0 \<longrightarrow> s_mount_state (m_fs sb) AND EXT2_VALID_FS = 0")
      (use m(2) in \<open>simp_all add: do_remount_sb_def ext2_remount_def parse_no_options Let_def MS_RDONLY_def\<close>)
  then obtain sb' where r: "do_remount_sb mount_menv 0 0 MS_RDONLY None sb = Some (0, sb')" by blast
  have "es_rev_level (s_es sb) \<le> EXT2_CURRENT_REV" using m(3) by simp
  then show ?thesis using m(1) r remount_keeps_mounted [OF m(1) r] by blast
qed

end
