(* ===== verification/Ext2_Path.thy ===== *)
theory Ext2_Path
  imports Ext2_Filetab
begin

text \<open>
  Names with directories in them, \<open>src/vfs/namei.c\<close> (its OS/2 code): \<open>lookup\<close>, \<open>follow_link\<close>, \<open>dir_namei\<close>,
  \<open>namei\<close> and the operations that take a whole path.

  A path is the list of its bytes up to the zero byte. \<open>root\<close> is \<open>s_mounted\<close>, the root directory of the file
  system. The operations of an inode are its \<open>i_op\<close>: only those of directories have \<open>lookup\<close>, \<open>link\<close>,
  \<open>unlink\<close>, \<open>mkdir\<close>, \<open>rmdir\<close> and \<open>rename\<close>, and none has \<open>follow_link\<close>. As in \<open>Ext2_Namei\<close> the semaphore
  \<open>i_sem\<close> is always free and left out. A null base directory is read through, so the result is \<open>None\<close>.
\<close>

definition EROFS :: int where "EROFS = 30"
definition EXDEV :: int where "EXDEV = 18"

definition take_use :: "iptr \<Rightarrow> vfs \<Rightarrow> vfs" where
  "take_use p st = upd_inode p (\<lambda>i. i\<lparr>i_count := i_count i + 1\<rparr>) st"

definition is_rdonly :: "vfs \<Rightarrow> iptr \<Rightarrow> bool" where
  "is_rdonly st p \<longleftrightarrow> i_sb st p \<and> s_flags (v_fs st) AND MS_RDONLY \<noteq> 0"

subsection \<open>lookup and follow_link\<close>

definition vfs_lookup :: "env \<Rightarrow> iptr \<Rightarrow> iptr \<Rightarrow> u8 list \<Rightarrow> (int \<times> iptr) vop" where
  "vfs_lookup env root dir name st =
     (if dir = INull then Some ((- ENOENT, INull), st)
      else if name = [0x2E, 0x2E] \<and> i_sb st dir \<and> dir = root then Some ((0, dir), st)
      else if i_op (v_inode st dir) \<noteq> Dir_ops then do {
        st \<leftarrow> iput env dir st;
        Some ((- ENOTDIR, INull), st)
      }
      else if name = [] then Some ((0, dir), st)
      else ext2_lookup env dir name st)"

definition follow_link :: "env \<Rightarrow> iptr \<Rightarrow> iptr \<Rightarrow> (int \<times> iptr) vop" where
  "follow_link env dir inode st =
     (if dir = INull \<or> inode = INull then do {
        st \<leftarrow> iput env dir st;
        st \<leftarrow> iput env inode st;
        Some ((- ENOENT, INull), st)
      }
      else do {
        st \<leftarrow> iput env dir st;
        Some ((0, inode), st)
      })"

subsection \<open>dir_namei\<close>

text \<open>The first part of a path, and what is after the separator, if there is one.\<close>

definition separator :: "u8 \<Rightarrow> bool" where
  "separator c \<longleftrightarrow> c = 0x2F \<or> c = 0x5C"

definition next_part :: "u8 list \<Rightarrow> u8 list \<times> u8 list option" where
  "next_part path =
     (takeWhile (\<lambda>c. \<not> separator c) path,
      case dropWhile (\<lambda>c. \<not> separator c) path of [] \<Rightarrow> None | c # rest \<Rightarrow> Some rest)"

lemma next_part_shorter: "next_part path = (name, Some rest) \<Longrightarrow> length rest < length path"
proof -
  assume a: "next_part path = (name, Some rest)"
  then obtain c where "dropWhile (\<lambda>c. \<not> separator c) path = c # rest"
    by (auto simp: next_part_def split: list.splits)
  moreover have "length (dropWhile (\<lambda>c. \<not> separator c) path) \<le> length path" by (rule length_dropWhile_le)
  ultimately show ?thesis by simp
qed

text \<open>The result is the error, the last part of the path and the directory that it is in.\<close>

function dir_namei :: "env \<Rightarrow> iptr \<Rightarrow> u8 list \<Rightarrow> iptr \<Rightarrow> (int \<times> u8 list \<times> iptr) vop" where
  "dir_namei env root path base st =
     (if base = INull then None
      else case next_part path of
        (thisname, None) \<Rightarrow>
          if i_op (v_inode st base) \<noteq> Dir_ops then do {
            st \<leftarrow> iput env base st;
            Some ((- ENOTDIR, [], INull), st)
          }
          else Some ((0, thisname, base), st)
      | (thisname, Some rest) \<Rightarrow> do {
          ((err, inode), st) \<leftarrow> vfs_lookup env root base thisname (take_use base st);
          if err \<noteq> 0 then do {
            st \<leftarrow> iput env base st;
            Some ((err, [], INull), st)
          }
          else do {
            ((err, base), st) \<leftarrow> follow_link env base inode st;
            if err \<noteq> 0 then Some ((err, [], INull), st)
            else dir_namei env root rest base st
          }
        })"
  by pat_completeness auto
termination
  by (relation "measure (\<lambda>(env, root, path, base, st). length path)") (auto dest: next_part_shorter [OF sym])

declare dir_namei.simps [simp del]

definition namei :: "env \<Rightarrow> iptr \<Rightarrow> iptr \<Rightarrow> u8 list \<Rightarrow> bool \<Rightarrow> (int \<times> iptr) vop" where
  "namei env root base pathname follow_links st =
     (if base = INull then None
      else do {
        ((err, basename, base), st) \<leftarrow> dir_namei env root pathname base (take_use base st);
        if err \<noteq> 0 then Some ((err, INull), st)
        else do {
          ((err, inode), st) \<leftarrow> vfs_lookup env root base basename (take_use base st);
          if err \<noteq> 0 then do {
            st \<leftarrow> iput env base st;
            Some ((err, INull), st)
          }
          else if follow_links then follow_link env base inode st
          else do {
            st \<leftarrow> iput env base st;
            Some ((0, inode), st)
          }
        }
      })"

subsection \<open>Operations on paths\<close>

definition do_link :: "env \<Rightarrow> iptr \<Rightarrow> iptr \<Rightarrow> u8 list \<Rightarrow> iptr \<Rightarrow> int vop" where
  "do_link env root oldinode newname base st =
     (if base = INull then None
      else do {
        ((err, basename, dir), st) \<leftarrow> dir_namei env root newname base (take_use base st);
        let give_up = (\<lambda>p q err st. do { st \<leftarrow> iput env p st; st \<leftarrow> iput env q st; Some (err, st) });
        if err \<noteq> 0 then do { st \<leftarrow> iput env oldinode st; Some (err, st) }
        else if basename = [] then give_up oldinode dir (- EPERM) st
        else if is_rdonly st dir then give_up oldinode dir (- EROFS) st
        else if i_dev st dir \<noteq> i_dev st oldinode then give_up dir oldinode (- EXDEV) st
        else if IS_APPEND (v_inode st oldinode) \<or> IS_IMMUTABLE (v_inode st oldinode) then give_up dir oldinode (- EPERM) st
        else if i_op (v_inode st dir) \<noteq> Dir_ops then give_up dir oldinode (- EPERM) st
        else do {
          (err, st) \<leftarrow> ext2_link env oldinode dir basename (take_use dir st);
          st \<leftarrow> iput env dir st;
          Some (err, st)
        }
      })"

text \<open>What \<open>do_unlink\<close>, \<open>do_rmdir\<close> and \<open>do_mkdir\<close> have in common: \<open>no_name\<close> is the error for an empty last part,
  and \<open>keep\<close> tells whether an append-only directory refuses.\<close>

definition on_path ::
    "env \<Rightarrow> iptr \<Rightarrow> iptr \<Rightarrow> u8 list \<Rightarrow> int \<Rightarrow> bool \<Rightarrow> (iptr \<Rightarrow> u8 list \<Rightarrow> int vop) \<Rightarrow> int vop" where
  "on_path env root base name no_name keep op st =
     (if base = INull then None
      else do {
        ((err, basename, dir), st) \<leftarrow> dir_namei env root name base (take_use base st);
        if err \<noteq> 0 then Some (err, st)
        else if basename = [] then do { st \<leftarrow> iput env dir st; Some (- no_name, st) }
        else if is_rdonly st dir then do { st \<leftarrow> iput env dir st; Some (- EROFS, st) }
        else if keep \<and> IS_APPEND (v_inode st dir) then do { st \<leftarrow> iput env dir st; Some (- EPERM, st) }
        else if i_op (v_inode st dir) \<noteq> Dir_ops then do { st \<leftarrow> iput env dir st; Some (- EPERM, st) }
        else op dir basename st
      })"

definition do_unlink :: "env \<Rightarrow> iptr \<Rightarrow> iptr \<Rightarrow> u8 list \<Rightarrow> int vop" where
  "do_unlink env root base name st = on_path env root base name EPERM True (ext2_unlink env) st"

definition do_rmdir :: "env \<Rightarrow> iptr \<Rightarrow> iptr \<Rightarrow> u8 list \<Rightarrow> int vop" where
  "do_rmdir env root base name st = on_path env root base name ENOENT True (ext2_rmdir env) st"

definition do_mkdir :: "env \<Rightarrow> iptr \<Rightarrow> iptr \<Rightarrow> u8 list \<Rightarrow> u16 \<Rightarrow> int vop" where
  "do_mkdir env root base pathname mode st =
     on_path env root base pathname ENOENT False (\<lambda>dir basename st. do {
       (err, st) \<leftarrow> ext2_mkdir env dir basename (mode AND S_IRWXUGO) (take_use dir st);
       st \<leftarrow> iput env dir st;
       Some (err, st)
     }) st"

definition sys_link :: "env \<Rightarrow> iptr \<Rightarrow> iptr \<Rightarrow> u8 list \<Rightarrow> u8 list \<Rightarrow> int vop" where
  "sys_link env root base oldname newname st = do {
     ((err, oldinode), st) \<leftarrow> namei env root base oldname True st;
     if err \<noteq> 0 then Some (err, st)
     else do_link env root oldinode newname base st
   }"

text \<open>\<open>""\<close>, \<open>"."\<close> and \<open>".."\<close>\<close>

definition no_rename :: "u8 list \<Rightarrow> bool" where
  "no_rename name \<longleftrightarrow> name = [] \<or> name = [0x2E] \<or> name = [0x2E, 0x2E]"

definition do_rename :: "env \<Rightarrow> iptr \<Rightarrow> iptr \<Rightarrow> iptr \<Rightarrow> u8 list \<Rightarrow> u8 list \<Rightarrow> int vop" where
  "do_rename env root srcbase dstbase oldname newname st = do {
     ((err, old_base, old_dir), st) \<leftarrow> dir_namei env root oldname srcbase st;
     if err \<noteq> 0 then Some (err, st)
     else if no_rename old_base then do { st \<leftarrow> iput env old_dir st; Some (- EPERM, st) }
     else do {
       ((err, new_base, new_dir), st) \<leftarrow> dir_namei env root newname dstbase st;
       let give_up = (\<lambda>err st. do { st \<leftarrow> iput env old_dir st; st \<leftarrow> iput env new_dir st; Some (err, st) });
       if err \<noteq> 0 then do { st \<leftarrow> iput env old_dir st; Some (err, st) }
       else if no_rename new_base then give_up (- EPERM) st
       else if i_dev st new_dir \<noteq> i_dev st old_dir then give_up (- EXDEV) st
       else if is_rdonly st new_dir \<or> is_rdonly st old_dir then give_up (- EROFS) st
       else if IS_APPEND (v_inode st old_dir) then give_up (- EPERM) st
       else if i_op (v_inode st old_dir) \<noteq> Dir_ops then give_up (- EPERM) st
       else do {
         (err, st) \<leftarrow> ext2_rename env old_dir old_base new_dir new_base (take_use new_dir st);
         st \<leftarrow> iput env new_dir st;
         Some (err, st)
       }
     }
   }"


subsection \<open>open_by_name\<close>

text \<open>Of \<open>src/misc/files.c\<close>; the result is null when the path or a free file is missing.\<close>

definition open_by_name :: "env \<Rightarrow> iptr \<Rightarrow> iptr \<Rightarrow> u8 list \<Rightarrow> u16 \<Rightarrow> filetab \<Rightarrow> (fptr \<times> filetab) option" where
  "open_by_name env root base pathname openmode st =
     (if base = INull then None
      else do {
        ((err, basename, dir), v) \<leftarrow> dir_namei env root pathname base (take_use base (f_vfs st));
        if err \<noteq> 0 then Some (FNull, st\<lparr>f_vfs := v\<rparr>)
        else do {
          ((err, inode), v) \<leftarrow> vfs_lookup env root dir basename (take_use dir v);
          if err \<noteq> 0 then do { v \<leftarrow> iput env dir v; Some (FNull, st\<lparr>f_vfs := v\<rparr>) }
          else do {
            ((err, inode), v) \<leftarrow> follow_link env dir inode v;
            if err \<noteq> 0 then Some (FNull, st\<lparr>f_vfs := v\<rparr>)
            else do {
              (f, st) \<leftarrow> get_empty_filp (st\<lparr>f_vfs := v\<rparr>);
              if f = FNull then do { v \<leftarrow> iput env inode (f_vfs st); Some (FNull, st\<lparr>f_vfs := v\<rparr>) }
              else
                let st = st\<lparr>f_inode := (f_inode st)(f := inode), f_open := (f_open st)(f := (f_open st f)\<lparr>f_pos := 0\<rparr>),
                           f_mode := (f_mode st)(f := openmode)\<rparr>;
                    ops = i_op (v_inode (f_vfs st) inode);
                    st = (if ops \<noteq> No_ops then st\<lparr>f_op := (f_op st)(f := ops)\<rparr> else st)
                in Some (f, st)
            }
          }
        }
      })"

subsection \<open>The entry points that take a path\<close>

definition skip_drive :: "u8 list \<Rightarrow> u8 list" where
  "skip_drive path = (case path of
     c # d # rest \<Rightarrow> if (0x41 \<le> c \<and> c \<le> 0x5A \<or> 0x61 \<le> c \<and> c \<le> 0x7A) \<and> d = 0x3A then rest else path
   | _ \<Rightarrow> path)"

definition CURDIREND_INVALID :: u16 where "CURDIREND_INVALID = 0xFFFF"

text \<open>
  Where a path starts: at the directory of the open file of the current directory, if there is one, or at
  the root of the volume. \<open>file\<close> is the inode of the file, if \<open>p_file\<close> is a file, and \<open>volume\<close> tells whether
  \<open>getvolume\<close> gives the super block of the file system.
\<close>

definition path_base :: "iptr \<Rightarrow> u16 \<Rightarrow> iptr option \<Rightarrow> bool \<Rightarrow> u8 list \<Rightarrow> (iptr \<times> u8 list) option" where
  "path_base root iCurDirEnd file volume path =
     (if iCurDirEnd \<noteq> CURDIREND_INVALID then (case file of
          None \<Rightarrow> None
        | Some base \<Rightarrow> if base \<noteq> INull then Some (base, drop (unat iCurDirEnd) path) else None)
      else if volume \<and> root \<noteq> INull then Some (root, skip_drive path)
      else None)"

definition fs32_delete ::
    "env \<Rightarrow> bool \<Rightarrow> iptr \<Rightarrow> u16 \<Rightarrow> iptr option \<Rightarrow> bool \<Rightarrow> u8 list \<Rightarrow> os2_err vop" where
  "fs32_delete env Read_Write root iCurDirEnd file volume pFile st =
     (if \<not> Read_Write then Some (ERROR_WRITE_PROTECT, st)
      else case path_base root iCurDirEnd file volume pFile of
        None \<Rightarrow> Some (ERROR_INVALID_PARAMETER, st)
      | Some (base, tmp) \<Rightarrow> do { (rc, st) \<leftarrow> do_unlink env root base tmp st; Some (map_err rc, st) })"

definition fs32_rmdir :: "env \<Rightarrow> bool \<Rightarrow> iptr \<Rightarrow> bool \<Rightarrow> u8 list \<Rightarrow> os2_err vop" where
  "fs32_rmdir env Read_Write root volume pName st =
     (if \<not> Read_Write then Some (ERROR_WRITE_PROTECT, st)
      else if volume then do { (rc, st) \<leftarrow> do_rmdir env root root (skip_drive pName) st; Some (map_err rc, st) }
      else Some (ERROR_INVALID_PARAMETER, st))"

definition fs32_mkdir :: "env \<Rightarrow> bool \<Rightarrow> iptr \<Rightarrow> bool \<Rightarrow> u8 list \<Rightarrow> os2_err vop" where
  "fs32_mkdir env Read_Write root volume pName st =
     (if \<not> Read_Write then Some (ERROR_WRITE_PROTECT, st)
      else if volume then do { (rc, st) \<leftarrow> do_mkdir env root root (skip_drive pName) S_IRWXUGO st; Some (map_err rc, st) }
      else Some (ERROR_INVALID_PARAMETER, st))"

definition fs32_move ::
    "env \<Rightarrow> bool \<Rightarrow> iptr \<Rightarrow> u16 \<Rightarrow> u16 \<Rightarrow> iptr option \<Rightarrow> bool \<Rightarrow> u8 list \<Rightarrow> u8 list \<Rightarrow> os2_err vop" where
  "fs32_move env Read_Write root iSrcCurDirEnd iDstCurDirEnd file volume pSrc pDst st =
     (if \<not> Read_Write then Some (ERROR_WRITE_PROTECT, st)
      else case (path_base root iSrcCurDirEnd file volume pSrc, path_base root iDstCurDirEnd file volume pDst) of
        (Some (srcbase, srcname), Some (dstbase, dstname)) \<Rightarrow> do {
          (rc, st) \<leftarrow> do_rename env root srcbase dstbase srcname dstname (take_use dstbase (take_use srcbase st));
          Some (map_err rc, st)
        }
      | _ \<Rightarrow> Some (ERROR_INVALID_PARAMETER, st))"

end
