(* ===== verification/Ext2_Path_Props.thy ===== *)
theory Ext2_Path_Props
  imports Ext2_Path Ext2_Namei_Props
begin

text \<open>
  The theorems on paths: a path that leads through directories to an inode, all of them in the table, is
  resolved to that inode, through the name cache or the disk, and the only use that is left is the one
  of the result.
\<close>

section \<open>The name cache tells the truth\<close>

type_synonym truth = "u32 \<Rightarrow> u32 \<Rightarrow> u32 \<Rightarrow> u8 list \<Rightarrow> u32 option"

definition tells :: "truth \<Rightarrow> dcache \<Rightarrow> bool" where
  "tells T dc \<longleftrightarrow> (\<exists>v. dcache_inv dc v) \<and>
     (\<forall>e dev dir version name ino. T dev dir version name = Some ino \<longrightarrow> length name \<le> DCACHE_NAME_LEN \<longrightarrow>
        entry_is dev dir version name e dc \<longrightarrow> d_ino dc e = ino)"

lemma tells_entry:
  "tells T dc \<Longrightarrow> T dev dir version name = Some ino \<Longrightarrow> length name \<le> DCACHE_NAME_LEN \<Longrightarrow>
     entry_is dev dir version name e dc \<Longrightarrow> d_ino dc e = ino"
  by (simp add: tells_def)

text \<open>Every entry of the new cache is one of the old one or tells a truth.\<close>

lemma tells_change:
  assumes t: "tells T dc" and inv: "dcache_inv dc' v"
    and d: "\<And>e. (\<exists>i. dentry dc' e = dentry dc i) \<or>
      (\<forall>dev dir version name ino. T dev dir version name = Some ino \<longrightarrow> length name \<le> DCACHE_NAME_LEN \<longrightarrow>
        entry_is dev dir version name e dc' \<longrightarrow> d_ino dc' e = ino)"
  shows "tells T dc'"
  unfolding tells_def
proof (intro conjI allI impI)
  show "\<exists>v. dcache_inv dc' v" using inv by blast
  fix e dev dir version name ino
  assume a: "T dev dir version name = Some ino" "length name \<le> DCACHE_NAME_LEN" "entry_is dev dir version name e dc'"
  show "d_ino dc' e = ino"
  proof (cases "\<exists>i. dentry dc' e = dentry dc i")
    case True
    then obtain i where i: "dentry dc' e = dentry dc i" by blast
    then have "entry_is dev dir version name i dc" using a(3) by (simp add: entry_is_dentry [OF i])
    then have "d_ino dc i = ino" by (rule tells_entry [OF t a(1,2)])
    then show ?thesis using i by (simp add: dentry_def)
  next
    case False
    then show ?thesis using d [of e] a by blast
  qed
qed

lemma tells_lookup:
  assumes t: "tells T dc" and T: "T dev dir version name = Some ino"
  shows "\<exists>r dc'. dcache_lookup dev dir version name dc = Some (r, dc') \<and> tells T dc' \<and> (r = None \<and> dc' = dc \<or> r = Some ino)"
proof (cases "length name \<le> DCACHE_NAME_LEN")
  case False
  then show ?thesis using t by (simp add: dcache_lookup_def)
next
  case True
  obtain v where v: "dcache_inv dc v" using t by (auto simp: tells_def)
  note l = lookup_effect [OF v True refl, of dev dir version]
  show ?thesis
  proof (cases "find_in dc v dev dir version name")
    case None
    then show ?thesis using l t by simp
  next
    case (Some e)
    have e: "d_ino dc e = ino" by (rule tells_entry [OF t T True find_in_SomeD(1) [OF v Some]])
    obtain dc' where dc': "dcache_lookup dev dir version name dc = Some (Some (d_ino dc e), dc')"
      and inv: "if e \<in> entries Level2 then dcache_inv dc' (spec_use e v) \<and> dentry dc' = dentry dc
        else dcache_inv dc' (spec_recycle Level2 (hash_fn dev dir (namehash name)) v) \<and>
          dentry dc' = (dentry dc)(hd (lru v Level2) := dentry dc e)" using l Some by auto
    obtain v' where v': "dcache_inv dc' v'" using inv by (auto split: if_splits)
    have "\<exists>i. dentry dc' k = dentry dc i" for k
      using inv by (cases "e \<in> entries Level2") auto
    then have "tells T dc'" by (intro tells_change [OF t v'] disjI1)
    then show ?thesis using dc' e by auto
  qed
qed

lemma tells_add:
  assumes t: "tells T dc" and T: "T dev dir version name = Some ino"
  shows "\<exists>dc'. dcache_add dev dir version name ino dc = Some dc' \<and> tells T dc'"
proof (cases "length name \<le> DCACHE_NAME_LEN")
  case False
  then show ?thesis using t by (simp add: dcache_add_def)
next
  case True
  obtain v where v: "dcache_inv dc v" using t by (auto simp: tells_def)
  obtain dc' where dc': "dcache_add dev dir version name ino dc = Some dc'" and a: "case find_in dc v dev dir version name of
      Some e \<Rightarrow> dcache_inv dc' (spec_use e v) \<and> dentry dc' = dentry (dc\<lparr>d_ino := (d_ino dc)(e := ino)\<rparr>)
    | None \<Rightarrow> dcache_inv dc' (spec_recycle Level1 (hash_fn dev dir (namehash name)) v) \<and>
        dentry dc' = dentry (fill_dentry dev dir version name ino (hd (lru v Level1)) dc)"
    using add_effect [OF v True refl, of dev dir version ino] by blast
  obtain v' where v': "dcache_inv dc' v'" using a by (cases "find_in dc v dev dir version name") auto
  have "tells T dc'"
  proof (rule tells_change [OF t v'])
    fix k
    show "(\<exists>i. dentry dc' k = dentry dc i) \<or> (\<forall>dev dir version name ino. T dev dir version name = Some ino \<longrightarrow>
        length name \<le> DCACHE_NAME_LEN \<longrightarrow> entry_is dev dir version name k dc' \<longrightarrow> d_ino dc' k = ino)"
    proof (cases "find_in dc v dev dir version name")
      case (Some e)
      have e: "d_ino dc e = ino" by (rule tells_entry [OF t T True find_in_SomeD(1) [OF v Some]])
      then have "(d_ino dc)(e := ino) = d_ino dc" by auto
      then show ?thesis using a Some by auto
    next
      case None
      define h where "h = hd (lru v Level1)"
      have d: "dentry dc' k = dentry (fill_dentry dev dir version name ino h dc) k" using a None by (simp add: h_def)
      show ?thesis
      proof (cases "k = h")
        case False
        then have "dentry dc' k = dentry dc k" using d by (simp add: dentry_def fill_dentry_def)
        then show ?thesis by blast
      next
        case True
        have len: "unat (of_nat (length name) :: u8) = length name"
          using \<open>length name \<le> DCACHE_NAME_LEN\<close> by (simp add: unat_of_nat DCACHE_NAME_LEN_def)
        have "d_ino dc' k = ino'" if q: "T dev' dir' version' name' = Some ino'" "entry_is dev' dir' version' name' k dc'"
          for dev' dir' version' name' ino'
        proof -
          have f: "d_dev dc' k = dev" "d_dir dc' k = dir" "d_version dc' k = version" "d_ino dc' k = ino"
            "d_name_len dc' k = of_nat (length name)" "d_name dc' k = name @ drop (length name) (d_name dc h)"
            using d True by (simp_all add: dentry_def fill_dentry_def)
          have "dev' = dev" "dir' = dir" "version' = version" "length name' = length name"
            "take (length name') (d_name dc' k) = name'"
            using q(2) unfolding entry_is_def f(1-3,5) len by (simp_all split: if_splits)
          moreover from this have "name' = name" unfolding f(6) by simp
          ultimately show ?thesis using q(1) T f(4) by simp
        qed
        then show ?thesis by blast
      qed
    qed
  qed
  then show ?thesis using dc' by blast
qed


section \<open>Releasing an inode that is not being removed\<close>

definition quiet :: "vfs \<Rightarrow> iptr \<Rightarrow> bool" where
  "quiet st p \<longleftrightarrow> i_sb st p \<and> i_ino (v_inode st p) \<noteq> INODE_DASD \<and> i_nlink (v_inode st p) \<noteq> 0 \<and> \<not> i_dirt (v_inode st p) \<and>
     e_prealloc_count (v_inode st p) = 0"

definition cnt :: "vfs \<Rightarrow> iptr \<Rightarrow> u16" where
  "cnt st p = i_count (v_inode st p)"

lemma iput_quiet:
  assumes "p \<noteq> INull" and c: "cnt st p \<noteq> 0" and q: "quiet st p"
  shows "\<exists>k. iput env p st = Some ((drop_use p st)\<lparr>nr_free_inodes := k\<rparr>)"
proof (cases "1 < cnt st p")
  case True
  then have "iput env p st = Some (drop_use p st)" using iput_shared [OF assms(1)] by (simp add: cnt_def)
  moreover have "drop_use p st = (drop_use p st)\<lparr>nr_free_inodes := nr_free_inodes (drop_use p st)\<rparr>" by simp
  ultimately show ?thesis by metis
next
  case False
  define s1 where "s1 = wait_on_inode p st"
  have v: "v_inode s1 = v_inode st" "i_sb s1 = i_sb st" by (simp_all add: s1_def wait_on_inode_def)
  have "put_inode env p s1 = Some (set_inode p (v_inode s1 p) (s1\<lparr>v_fs := v_fs s1, seed := seed s1\<rparr>))"
    using q by (simp add: put_inode_def ext2_put_inode_def ext2_discard_prealloc_def quiet_def v)
  then have "put_inode env p s1 = Some s1" by (simp add: set_inode_def)
  moreover have "i_count (v_inode s1 p) \<noteq> 0" "\<not> 1 < i_count (v_inode s1 p)" using c False by (simp_all add: cnt_def v)
  ultimately have "iput env p st = Some ((set_inode p ((v_inode s1 p)\<lparr>i_count := i_count (v_inode s1 p) - 1\<rparr>) s1)
      \<lparr>nr_free_inodes := nr_free_inodes s1 + 1\<rparr>)"
    using assms(1) q by (simp add: iput_def iput_repeat.simps [of env p s1] Let_def quiet_def v flip: s1_def)
  then show ?thesis by (auto simp: drop_use_def upd_inode_def s1_def)
qed

section \<open>Walking\<close>

text \<open>What a walk changes: the uses of the inodes, their hints for the allocation, the locks and the name cache.\<close>

definition walked :: "vfs \<Rightarrow> vfs \<Rightarrow> bool" where
  "walked st st' \<longleftrightarrow> same_table st st' \<and> v_fs st' = v_fs st \<and>
     (\<forall>p. \<exists>i. hinted (v_inode st p) i \<and> v_inode st' p = i\<lparr>i_count := cnt st' p\<rparr>)"

lemma walked_refl: "walked st st"
proof -
  have "\<exists>i. hinted (v_inode st p) i \<and> v_inode st p = i\<lparr>i_count := cnt st p\<rparr>" for p
    by (rule exI [where x = "v_inode st p"]) (simp add: hinted_refl cnt_def)
  then show ?thesis by (simp add: walked_def same_table_def)
qed

lemma hinted_count: "hinted (i\<lparr>i_count := c\<rparr>) i' \<Longrightarrow> \<exists>i1. hinted i i1 \<and> i'\<lparr>i_count := d\<rparr> = i1\<lparr>i_count := d\<rparr>"
  unfolding hinted_def by (elim exE) (rule_tac x = "i\<lparr>e_next_alloc_block := x, e_next_alloc_goal := y\<rparr>" in exI, auto)

lemma walked_trans:
  assumes a: "walked st st1" and b: "walked st1 st2"
  shows "walked st st2"
proof -
  have "\<exists>i. hinted (v_inode st p) i \<and> v_inode st2 p = i\<lparr>i_count := cnt st2 p\<rparr>" for p
  proof -
    obtain i where i: "hinted (v_inode st p) i" "v_inode st1 p = i\<lparr>i_count := cnt st1 p\<rparr>" using a unfolding walked_def by blast
    obtain j where j: "hinted (v_inode st1 p) j" "v_inode st2 p = j\<lparr>i_count := cnt st2 p\<rparr>" using b unfolding walked_def by blast
    obtain k where k: "hinted i k" "j\<lparr>i_count := cnt st2 p\<rparr> = k\<lparr>i_count := cnt st2 p\<rparr>" using hinted_count [OF j(1) [unfolded i(2)]] by blast
    show ?thesis using hinted_trans [OF i(1) k(1)] k(2) j(2) by auto
  qed
  then show ?thesis using a b same_table_trans [of st st1 st2] by (simp add: walked_def)
qed

text \<open>A step that leaves everything but counts, hints, locks and the name cache alone.\<close>

lemma walkedI:
  assumes "same_table st st'" and "v_fs st' = v_fs st"
    and "\<And>p. v_inode st' p = (v_inode st p)\<lparr>i_count := cnt st' p\<rparr>"
  shows "walked st st'"
  using assms hinted_refl unfolding walked_def by blast

lemma walked_fields:
  assumes "walked st st'"
  shows "i_ino (v_inode st' p) = i_ino (v_inode st p)" "i_mode (v_inode st' p) = i_mode (v_inode st p)"
    "i_op (v_inode st' p) = i_op (v_inode st p)" "i_version (v_inode st' p) = i_version (v_inode st p)"
    "i_nlink (v_inode st' p) = i_nlink (v_inode st p)" "i_dirt (v_inode st' p) = i_dirt (v_inode st p)"
    "e_prealloc_count (v_inode st' p) = e_prealloc_count (v_inode st p)" "i_flags (v_inode st' p) = i_flags (v_inode st p)"
    "i_sb st' = i_sb st" "i_dev st' = i_dev st" "s_dev st' = s_dev st" "v_fs st' = v_fs st"
proof -
  obtain i where "hinted (v_inode st p) i" "v_inode st' p = i\<lparr>i_count := cnt st' p\<rparr>" using assms unfolding walked_def by blast
  then show "i_ino (v_inode st' p) = i_ino (v_inode st p)" "i_mode (v_inode st' p) = i_mode (v_inode st p)"
    "i_op (v_inode st' p) = i_op (v_inode st p)" "i_version (v_inode st' p) = i_version (v_inode st p)"
    "i_nlink (v_inode st' p) = i_nlink (v_inode st p)" "i_dirt (v_inode st' p) = i_dirt (v_inode st p)"
    "e_prealloc_count (v_inode st' p) = e_prealloc_count (v_inode st p)" "i_flags (v_inode st' p) = i_flags (v_inode st p)"
    by (auto simp: hinted_def)
qed (use assms in \<open>simp_all add: walked_def same_table_def\<close>)

lemma walked_dir_file:
  assumes w: "walked st st'" and d: "dir_file (v_fs st) (v_inode st p) bks"
  shows "dir_file (v_fs st') (v_inode st' p) bks"
proof -
  obtain i where i: "hinted (v_inode st p) i" "v_inode st' p = i\<lparr>i_count := cnt st' p\<rparr>" using w unfolding walked_def by blast
  have "i_data (v_inode st' p) = i_data (v_inode st p)" using i by (simp add: hinted_simps)
  then have "file_block (v_fs st) (v_inode st' p) n = file_block (v_fs st) (v_inode st p) n" for n
    by (simp only: file_block_def)
  moreover have "i_size (v_inode st' p) = i_size (v_inode st p)" using i by (simp add: hinted_simps)
  ultimately show ?thesis using d walked_fields(1,12) [OF w] by (simp add: dir_file_def)
qed


definition directory :: "vfs \<Rightarrow> iptr list \<Rightarrow> iptr \<Rightarrow> bool" where
  "directory st xs p \<longleftrightarrow> p \<in> set xs \<and> quiet st p \<and> S_ISDIR (i_mode (v_inode st p)) \<and> i_op (v_inode st p) = Dir_ops"

text \<open>The name leads from the directory \<open>p\<close> to the inode \<open>q\<close>, on the disk and in the truth for the name cache.\<close>

definition leads :: "vfs \<Rightarrow> iptr list \<Rightarrow> (nat \<Rightarrow> iptr list) \<Rightarrow> truth \<Rightarrow> iptr \<Rightarrow> iptr \<Rightarrow> u8 list \<Rightarrow> iptr \<Rightarrow> bool" where
  "leads st xs hs T root p name q \<longleftrightarrow> directory st xs p \<and> name \<noteq> [] \<and> length name \<le> EXT2_NAME_LEN \<and>
     \<not> (name = [0x2E, 0x2E] \<and> p = root) \<and>
     (\<exists>bks ino. dir_file (v_fs st) (v_inode st p) bks \<and> map_of (dir_entries bks) name = Some ino \<and>
        List.find (match st ino) (hs (hashfn (s_dev st) ino)) = Some q \<and>
        T (ucast (i_dev st p)) (i_ino (v_inode st p)) (i_version (v_inode st p)) name = Some ino)"

lemma walked_directory:
  assumes w: "walked st st'" and d: "directory st xs p"
  shows "directory st' xs p"
  using d by (simp add: directory_def quiet_def walked_fields [OF w])

lemma walked_leads:
  assumes w: "walked st st'" and l: "leads st xs hs T root p name q"
  shows "leads st' xs hs T root p name q"
proof -
  obtain bks ino where b: "dir_file (v_fs st) (v_inode st p) bks" "map_of (dir_entries bks) name = Some ino"
      "List.find (match st ino) (hs (hashfn (s_dev st) ino)) = Some q"
      "T (ucast (i_dev st p)) (i_ino (v_inode st p)) (i_version (v_inode st p)) name = Some ino"
    using l unfolding leads_def by blast
  have "match st' = match st" by (simp add: match_def fun_eq_iff walked_fields [OF w])
  then have "List.find (match st' ino) (hs (hashfn (s_dev st') ino)) = Some q" using b(3) by (simp add: walked_fields [OF w])
  moreover have "T (ucast (i_dev st' p)) (i_ino (v_inode st' p)) (i_version (v_inode st' p)) name = Some ino"
    using b(4) by (simp add: walked_fields [OF w])
  ultimately show ?thesis
    using l walked_directory [OF w] walked_dir_file [OF w b(1)] b(2) unfolding leads_def by blast
qed

text \<open>One more and one less use of an inode.\<close>

definition bump :: "iptr \<Rightarrow> (iptr \<Rightarrow> u16) \<Rightarrow> iptr \<Rightarrow> u16" where
  "bump p c = c(p := c p + 1)"

definition unbump :: "iptr \<Rightarrow> (iptr \<Rightarrow> u16) \<Rightarrow> iptr \<Rightarrow> u16" where
  "unbump p c = c(p := c p - 1)"

text \<open>The end of a lookup: the inode is taken and the directory released.\<close>

lemma lookup_inode_walks:
  assumes w: "walked st s" and inv: "table_inv st xs hs" and f: "List.find (match st ino) (hs (hashfn (s_dev st) ino)) = Some q"
    and d: "directory st xs p" and c: "cnt s = cnt st" "bump q (cnt st) p \<noteq> 0" and t: "tells T (v_dc s)"
  shows "\<exists>st'. lookup_inode env p ino s = Some ((0, q), st') \<and> walked st st' \<and> tells T (v_dc st') \<and>
    cnt st' = unbump p (bump q (cnt st))"
proof -
  have z: "p \<noteq> INull" "q \<noteq> INull" using d find_matched(2) [OF inv f] table_invD(6) [OF inv] by (auto simp: directory_def)
  have tb: "same_table st s" using w by (simp add: walked_def)
  define s1 where "s1 = found_it q s"
  have g: "iget env ino s = Some (q, s1)" unfolding s1_def by (rule same_table_iget [OF tb inv f])
  have v1: "v_inode s1 = (v_inode s)(q := (v_inode s q)\<lparr>i_count := i_count (v_inode s q) + 1\<rparr>)" by (simp add: s1_def v_inode_found)
  have c1: "cnt s1 = bump q (cnt st)" using c(1) by (auto simp: cnt_def v1 bump_def fun_eq_iff)
  have "walked s s1"
  proof (rule walkedI)
    show "same_table s s1" unfolding s1_def by (rule found_it_table)
    show "v_inode s1 r = (v_inode s r)\<lparr>i_count := cnt s1 r\<rparr>" for r by (simp add: cnt_def v1)
  qed (simp add: s1_def)
  then have w1: "walked st s1" by (rule walked_trans [OF w])
  have q1: "quiet s1 p" using walked_directory [OF w1 d] by (simp add: directory_def)
  have "cnt s1 p \<noteq> 0" using c1 c(2) by simp
  then obtain k where ip: "iput env p s1 = Some ((drop_use p s1)\<lparr>nr_free_inodes := k\<rparr>)" using iput_quiet [OF z(1) _ q1] by blast
  define st' where "st' = (drop_use p s1)\<lparr>nr_free_inodes := k\<rparr>"
  have v2: "v_inode st' = (v_inode s1)(p := (v_inode s1 p)\<lparr>i_count := i_count (v_inode s1 p) - 1\<rparr>)" by (simp add: st'_def v_inode_drop)
  have "walked s1 st'"
  proof (rule walkedI)
    show "same_table s1 st'" by (simp add: same_table_def st'_def drop_use_def upd_inode_def set_inode_def wait_on_inode_def)
    show "v_inode st' r = (v_inode s1 r)\<lparr>i_count := cnt st' r\<rparr>" for r by (simp add: cnt_def v2)
  qed (simp add: st'_def)
  moreover have "cnt st' = unbump p (bump q (cnt st))"
  proof -
    have "cnt st' = unbump p (cnt s1)" by (auto simp: cnt_def unbump_def v2 fun_eq_iff)
    then show ?thesis by (simp add: c1)
  qed
  moreover have "tells T (v_dc st')" using t by (simp add: st'_def s1_def)
  moreover have "lookup_inode env p ino s = Some ((0, q), st')"
    using g ip z(2) d walked_fields(9) [OF w] by (simp add: lookup_inode_def iget_at_def st'_def directory_def quiet_def)
  ultimately show ?thesis using walked_trans [OF w1] by blast
qed

lemma lookup_leads:
  assumes l: "leads st xs hs T root p name q" and inv: "table_inv st xs hs" and t: "tells T (v_dc st)"
    and r: "\<not> retensive env" and c: "bump q (cnt st) p \<noteq> 0"
  shows "\<exists>st'. ext2_lookup env p name st = Some ((0, q), st') \<and> walked st st' \<and> tells T (v_dc st') \<and>
    cnt st' = unbump p (bump q (cnt st))"
proof -
  obtain bks ino where df: "dir_file (v_fs st) (v_inode st p) bks" and m: "map_of (dir_entries bks) name = Some ino"
      and f: "List.find (match st ino) (hs (hashfn (s_dev st) ino)) = Some q"
      and T: "T (ucast (i_dev st p)) (i_ino (v_inode st p)) (i_version (v_inode st p)) name = Some ino"
    using l unfolding leads_def by blast
  have d: "directory st xs p" and nn: "name \<noteq> []" "length name \<le> EXT2_NAME_LEN" using l by (simp_all add: leads_def)
  have z: "p \<noteq> INull" using d table_invD(6) [OF inv] by (auto simp: directory_def)
  have dd: "S_ISDIR (i_mode (v_inode st p))" "i_sb st p" using d by (simp_all add: directory_def quiet_def)
  obtain b x where fh: "first_hit False name bks = Some (b, x)"
    using first_hit_lookup [OF nn, of bks] m by (cases "first_hit False name bks") auto
  then obtain bs offs where e: "(b, bs, offs) \<in> set bks" "de_name bs x = name" "de_inode bs x = ino" "ino \<noteq> 0"
    using first_hit_lookup [OF nn, of bks] m by auto
  have bd: "b_data (v_fs st) b = Some bs" using df e(1) unfolding dir_file_def by blast
  obtain a dc where dl: "dcache_lookup (ucast (i_dev st p)) (i_ino (v_inode st p)) (i_version (v_inode st p)) name (v_dc st) = Some (a, dc)"
      and td: "tells T dc" and a: "a = None \<and> dc = v_dc st \<or> a = Some ino"
    using tells_lookup [OF t T] by blast
  show ?thesis
  proof (cases a)
    case (Some i)
    define s where "s = st\<lparr>v_dc := dc\<rparr>"
    have i: "i = ino" using a Some by simp
    have "walked st s"
      by (rule walkedI) (simp_all add: s_def same_table_def cnt_def)
    then obtain st' where st': "lookup_inode env p ino s = Some ((0, q), st')" "walked st st'" "tells T (v_dc st')"
        "cnt st' = unbump p (bump q (cnt st))"
      using lookup_inode_walks [OF _ inv f d _ c, of s T env] td by (auto simp: s_def cnt_def fun_eq_iff)
    have "ext2_lookup env p name st = Some ((0, q), st')"
      using z dd dl Some i e(4) st'(1) by (simp add: ext2_lookup_def dcache_lookup_at_def s_def)
    then show ?thesis using st' by blast
  next
    case None
    then have dc: "dc = v_dc st" using a by simp
    obtain dir' where h: "hinted (v_inode st p) dir'" and fe: "find_entry_at env p name st = Some (Some (b, x),
        set_inode p dir' (st\<lparr>v_fs := with_refs (v_fs st) ((b_count (v_fs st))(b := Suc (b_count (v_fs st) b)))\<rparr>))"
      using find_at [OF z dd(2) df nn(2), of env] r fh by auto
    define s1 where "s1 = set_inode p dir' (st\<lparr>v_fs := with_refs (v_fs st) ((b_count (v_fs st))(b := Suc (b_count (v_fs st) b)))\<rparr>)"
    have v1: "v_inode s1 = (v_inode st)(p := dir')" "i_dev s1 = i_dev st" "v_dc s1 = v_dc st" "read_buffer b s1 = Some bs"
      using bd by (simp_all add: s1_def set_inode_def read_buffer_def)
    obtain dc1 where da: "dcache_add (ucast (i_dev st p)) (i_ino (v_inode st p)) (i_version (v_inode st p)) name ino (v_dc st) = Some dc1"
        and t1: "tells T dc1" using tells_add [OF t T] by blast
    define s3 where "s3 = brelse_at (Some b) (s1\<lparr>v_dc := dc1\<rparr>)"
    have s3: "v_inode s3 = (v_inode st)(p := dir')" "v_fs s3 = v_fs st" "v_dc s3 = dc1"
      by (simp_all add: s3_def v1 brelse_at_def) (simp add: s1_def brelse_reached with_refs_same del: fun_upd_apply)
    have "same_table st s3"
      using h by (simp add: same_table_def s3_def s1_def brelse_at_def set_inode_def hinted_simps)
    moreover have "\<exists>i. hinted (v_inode st k) i \<and> v_inode s3 k = i\<lparr>i_count := cnt s3 k\<rparr>" for k
      using h by (intro exI [where x = "if k = p then dir' else v_inode st k"]) (simp add: cnt_def s3 hinted_refl)
    ultimately have "walked st s3" using s3(2) by (simp add: walked_def)
    moreover have "cnt s3 = cnt st" using h by (auto simp: cnt_def s3 fun_eq_iff hinted_simps)
    ultimately obtain st' where st': "lookup_inode env p ino s3 = Some ((0, q), st')" "walked st st'" "tells T (v_dc st')"
        "cnt st' = unbump p (bump q (cnt st))"
      using lookup_inode_walks [OF _ inv f d _ c, of s3 T env] t1 s3(3) by auto
    have "dcache_add_at p name ino s1 = Some (s1\<lparr>v_dc := dc1\<rparr>)"
      using da h by (simp add: dcache_add_at_def v1 hinted_simps)
    then have "ext2_lookup env p name st = Some ((0, q), st')"
      using z dd dl None dc fe [folded s1_def] v1(4) e(3) st'(1) by (simp add: ext2_lookup_def dcache_lookup_at_def s3_def)
    then show ?thesis using st' by blast
  qed
qed


section \<open>Paths\<close>

text \<open>The names of a path, which \<open>/\<close> or \<open>\\<close> separates: the last of them is the one after the last separator.\<close>

fun path_names :: "u8 list \<Rightarrow> u8 list list" where
  "path_names [] = [[]]"
| "path_names (c # path) = (if separator c then [] # path_names path
     else (c # hd (path_names path)) # tl (path_names path))"

lemma path_names_ne: "path_names path \<noteq> []"
  by (cases path) simp_all

lemma next_part_names:
  "path_names path = (case next_part path of (name, None) \<Rightarrow> [name] | (name, Some rest) \<Rightarrow> name # path_names rest)"
  by (induction path) (auto simp: next_part_def split: list.splits)

text \<open>A name leads on: the empty one and the parent of the root stay, the others are looked up.\<close>

definition step_to :: "vfs \<Rightarrow> iptr list \<Rightarrow> (nat \<Rightarrow> iptr list) \<Rightarrow> truth \<Rightarrow> iptr \<Rightarrow> iptr \<Rightarrow> u8 list \<Rightarrow> iptr \<Rightarrow> bool" where
  "step_to st xs hs T root p name q \<longleftrightarrow>
     (if name = [] \<or> name = [0x2E, 0x2E] \<and> p = root then directory st xs p \<and> q = p else leads st xs hs T root p name q)"

primrec path_to :: "vfs \<Rightarrow> iptr list \<Rightarrow> (nat \<Rightarrow> iptr list) \<Rightarrow> truth \<Rightarrow> iptr \<Rightarrow> iptr \<Rightarrow> u8 list list \<Rightarrow> iptr \<Rightarrow> bool" where
  "path_to st xs hs T root p [] q \<longleftrightarrow> q = p"
| "path_to st xs hs T root p (name # names) q \<longleftrightarrow>
     (\<exists>r. step_to st xs hs T root p name r \<and> path_to st xs hs T root r names q)"

lemma walked_step: "walked st st' \<Longrightarrow> step_to st xs hs T root p name q \<Longrightarrow> step_to st' xs hs T root p name q"
  by (simp add: step_to_def walked_directory walked_leads split: if_splits)

lemma walked_path: "walked st st' \<Longrightarrow> path_to st xs hs T root p names q \<Longrightarrow> path_to st' xs hs T root p names q"
proof (induction names arbitrary: p)
  case (Cons name names)
  then show ?case using walked_step [OF Cons.prems(1)] unfolding path_to.simps by blast
qed simp

lemma path_to_append:
  "path_to st xs hs T root p (names @ [name]) q \<longleftrightarrow>
     (\<exists>d. path_to st xs hs T root p names d \<and> step_to st xs hs T root d name q)"
  by (induction names arbitrary: p) auto

lemma step_to_directory: "step_to st xs hs T root p name q \<Longrightarrow> directory st xs p"
  by (simp add: step_to_def leads_def split: if_splits)

lemma unbump_bump [simp]: "unbump p (bump q (bump p c)) = bump q c" "unbump p (bump p c) = c"
  by (auto simp: bump_def unbump_def fun_eq_iff)

text \<open>The counts can take some more.\<close>

definition roomy :: "(iptr \<Rightarrow> u16) \<Rightarrow> bool" where
  "roomy c \<longleftrightarrow> (\<forall>p. c p < 65533)"

lemma unat_bump:
  assumes "unat (c p) < 65535"
  shows "unat (bump q c p) = unat (c p) + (if q = p then 1 else 0)"
  using assms by (simp add: bump_def unat_word_ariths)

lemma roomy_nz:
  assumes "roomy c"
  shows "bump q (bump p c) p \<noteq> 0" "bump r (bump q (bump p c)) p \<noteq> 0" "bump q (bump p (bump p c)) p \<noteq> 0"
proof -
  have "unat (c p) < 65533" using assms by (simp add: roomy_def word_less_nat_alt)
  then have "unat (bump q (bump p c) p) \<noteq> 0" "unat (bump r (bump q (bump p c)) p) \<noteq> 0"
      "unat (bump q (bump p (bump p c)) p) \<noteq> 0"
    by (simp_all add: unat_bump)
  then show "bump q (bump p c) p \<noteq> 0" "bump r (bump q (bump p c)) p \<noteq> 0" "bump q (bump p (bump p c)) p \<noteq> 0" by auto
qed

lemma take_use_walked: "walked st (take_use p st)"
  by (rule walkedI) (simp_all add: take_use_def upd_inode_def set_inode_def same_table_def cnt_def)

lemma cnt_take_use: "cnt (take_use p st) = bump p (cnt st)"
  by (auto simp: take_use_def upd_inode_def set_inode_def cnt_def bump_def fun_eq_iff)

lemma dc_take_use: "v_dc (take_use p st) = v_dc st"
  by (simp add: take_use_def upd_inode_def set_inode_def)

text \<open>The lookup of one name takes a use of the directory and gives one of what the name leads to.\<close>

lemma lookup_step:
  assumes s: "step_to st xs hs T root p name q" and inv: "table_inv st xs hs" and t: "tells T (v_dc st)"
    and r: "\<not> retensive env" and c: "bump q (cnt st) p \<noteq> 0"
  shows "\<exists>st'. vfs_lookup env root p name st = Some ((0, q), st') \<and> walked st st' \<and> tells T (v_dc st') \<and>
    cnt st' = unbump p (bump q (cnt st))"
proof -
  have d: "directory st xs p" by (rule step_to_directory [OF s])
  have z: "p \<noteq> INull" using d table_invD(6) [OF inv] by (auto simp: directory_def)
  have o: "i_op (v_inode st p) = Dir_ops" "i_sb st p" using d by (simp_all add: directory_def quiet_def)
  show ?thesis
  proof (cases "name = [] \<or> name = [0x2E, 0x2E] \<and> p = root")
    case True
    then have "q = p" using s by (simp add: step_to_def)
    then show ?thesis using True z o walked_refl t by (auto simp: vfs_lookup_def)
  next
    case False
    then have l: "leads st xs hs T root p name q" using s by (simp add: step_to_def)
    have "vfs_lookup env root p name st = ext2_lookup env p name st" using False z o by (auto simp: vfs_lookup_def)
    then show ?thesis using lookup_leads [OF l inv t r c] by simp
  qed
qed

text \<open>Releasing an inode on the way.\<close>

lemma iput_walked:
  assumes z: "p \<noteq> INull" and q: "quiet st p" and c: "cnt st p \<noteq> 0"
  shows "\<exists>st'. iput env p st = Some st' \<and> walked st st' \<and> v_dc st' = v_dc st \<and> cnt st' = unbump p (cnt st)"
proof -
  obtain k where k: "iput env p st = Some ((drop_use p st)\<lparr>nr_free_inodes := k\<rparr>)"
    using iput_quiet [OF z c q] by blast
  define st' where "st' = (drop_use p st)\<lparr>nr_free_inodes := k\<rparr>"
  have v: "v_inode st' = (v_inode st)(p := (v_inode st p)\<lparr>i_count := i_count (v_inode st p) - 1\<rparr>)" by (simp add: st'_def v_inode_drop)
  have "walked st st'"
  proof (rule walkedI)
    show "same_table st st'" by (simp add: same_table_def st'_def drop_use_def upd_inode_def set_inode_def wait_on_inode_def)
    show "v_inode st' r = (v_inode st r)\<lparr>i_count := cnt st' r\<rparr>" for r by (simp add: cnt_def v)
  qed (simp add: st'_def)
  moreover have "cnt st' = unbump p (cnt st)" by (auto simp: cnt_def unbump_def v fun_eq_iff)
  moreover have "v_dc st' = v_dc st" by (simp add: st'_def)
  ultimately show ?thesis using k st'_def by blast
qed

lemma directory_quiet:
  assumes "directory st xs p" and "table_inv st xs hs"
  shows "p \<noteq> INull" and "quiet st p"
  using assms table_invD(6) [OF assms(2)] by (auto simp: directory_def)

lemma walked_inv: "walked st st' \<Longrightarrow> table_inv st xs hs \<Longrightarrow> table_inv st' xs hs"
  by (rule same_table_inv) (simp_all add: walked_def)

text \<open>One turn of the loop of \<open>dir_namei\<close>, and the last step of \<open>namei\<close>: the use of the directory becomes one of the result.\<close>

lemma walk_turn:
  assumes s: "step_to st xs hs T root p name q" and inv: "table_inv st xs hs" and t: "tells T (v_dc st)"
    and r: "\<not> retensive env" and c: "cnt st = bump p c" and big: "roomy c" and qn: "q \<noteq> INull"
  shows "\<exists>st1 st2. vfs_lookup env root p name (take_use p st) = Some ((0, q), st1) \<and> iput env p st1 = Some st2 \<and>
    follow_link env p q st1 = Some ((0, q), st2) \<and>
    walked st st2 \<and> tells T (v_dc st2) \<and> cnt st2 = bump q c"
proof -
  let ?s = "take_use p st"
  note w0 = take_use_walked [of st p]
  have t0: "tells T (v_dc ?s)" using t by (simp add: dc_take_use)
  have c0: "cnt ?s = bump p (bump p c)" by (simp add: cnt_take_use c)
  have "bump q (cnt ?s) p \<noteq> 0" unfolding c0 by (rule roomy_nz(3) [OF big])
  then obtain st1 where l: "vfs_lookup env root p name ?s = Some ((0, q), st1)" "walked ?s st1" "tells T (v_dc st1)"
      "cnt st1 = unbump p (bump q (cnt ?s))"
    using lookup_step [OF walked_step [OF w0 s] walked_inv [OF w0 inv] t0 r] by blast
  note w1 = walked_trans [OF w0 l(2)]
  have c1: "cnt st1 = bump q (bump p c)" using l(4) by (simp add: c0)
  have d: "directory st1 xs p" by (rule walked_directory [OF w1 step_to_directory [OF s]])
  have "cnt st1 p \<noteq> 0" unfolding c1 by (rule roomy_nz(1) [OF big])
  then obtain st2 where i: "iput env p st1 = Some st2" "walked st1 st2" "v_dc st2 = v_dc st1" "cnt st2 = unbump p (cnt st1)"
    using iput_walked [OF directory_quiet [OF d walked_inv [OF w1 inv]]] by blast
  have "p \<noteq> INull" by (rule directory_quiet [OF d walked_inv [OF w1 inv]])
  then have "follow_link env p q st1 = Some ((0, q), st2)" using i(1) qn by (simp add: follow_link_def)
  moreover have "cnt st2 = bump q c" using i(4) c1 by simp
  ultimately show ?thesis using l(1,3) i(1,3) walked_trans [OF w1 i(2)] by auto
qed

lemma step_to_null:
  assumes inv: "table_inv st xs hs" and s: "step_to st xs hs T root p name q"
  shows "q \<noteq> INull"
proof -
  have "p \<noteq> INull" using step_to_directory [OF s] table_invD(6) [OF inv] by (auto simp: directory_def)
  moreover have "q \<noteq> INull" if f: "List.find (match st ino) (hs h) = Some q" "h = hashfn (s_dev st) ino" for ino h
    using find_matched(2) [OF inv f(1) [unfolded f(2)]] table_invD(6) [OF inv] by auto
  ultimately show ?thesis using s by (auto simp: step_to_def leads_def split: if_splits)
qed

text \<open>The walk of \<open>dir_namei\<close>.\<close>

lemma dir_namei_walks:
  assumes "path_to st xs hs T root p (butlast (path_names path)) d" and "directory st xs d" and "table_inv st xs hs"
    and "tells T (v_dc st)" and r: "\<not> retensive env" and "cnt st = bump p c" and big: "roomy c" and "directory st xs p"
  shows "\<exists>st'. dir_namei env root path p st = Some ((0, last (path_names path), d), st') \<and> walked st st' \<and>
    tells T (v_dc st') \<and> cnt st' = bump d c"
  using assms
proof (induction "length path" arbitrary: path p st rule: less_induct)
  case less
  note pt = less.prems(1) and d = less.prems(2) and inv = less.prems(3) and t = less.prems(4) and c = less.prems(6)
  have z: "p \<noteq> INull" using less.prems(8) table_invD(6) [OF inv] by (auto simp: directory_def)
  obtain name m where np: "next_part path = (name, m)" by (cases "next_part path")
  show ?case
  proof (cases m)
    case None
    then have n: "path_names path = [name]" using np by (simp add: next_part_names [of path])
    then have "d = p" using pt by simp
    moreover have "i_op (v_inode st p) = Dir_ops" using less.prems(8) by (simp add: directory_def)
    ultimately have "dir_namei env root path p st = Some ((0, last (path_names path), d), st)"
      using z np None n by (simp add: dir_namei.simps [of env root path])
    then show ?thesis using walked_refl t c \<open>d = p\<close> by blast
  next
    case (Some rest)
    then have n: "path_names path = name # path_names rest" using np by (simp add: next_part_names [of path])
    obtain q where q: "step_to st xs hs T root p name q" "path_to st xs hs T root q (butlast (path_names rest)) d"
      using pt by (auto simp: n path_names_ne)
    obtain st1 st2 where s: "vfs_lookup env root p name (take_use p st) = Some ((0, q), st1)"
        "follow_link env p q st1 = Some ((0, q), st2)" "walked st st2" "tells T (v_dc st2)" "cnt st2 = bump q c"
      using walk_turn [OF q(1) inv t r c big step_to_null [OF inv q(1)]] by blast
    note w = s(3)
    have "directory st2 xs q"
    proof (cases "butlast (path_names rest)")
      case Nil
      then show ?thesis using q(2) walked_directory [OF w d] by simp
    next
      case (Cons a b)
      then show ?thesis using q(2) walked_directory [OF w] by (auto dest: step_to_directory)
    qed
    then obtain st' where "dir_namei env root rest q st2 = Some ((0, last (path_names rest), d), st')" "walked st2 st'"
        "tells T (v_dc st')" "cnt st' = bump d c"
      using less.hyps [OF next_part_shorter [OF np [unfolded Some]] walked_path [OF w q(2)] walked_directory [OF w d]
          walked_inv [OF w inv] s(4) r s(5) big] by blast
    moreover from this(1) have "dir_namei env root path p st = Some ((0, last (path_names path), d), st')"
      using z np Some n s(1,2) by (simp add: dir_namei.simps [of env root path] path_names_ne)
    ultimately show ?thesis using walked_trans [OF w] by blast
  qed
qed

text \<open>The whole walk, of \<open>namei\<close> and of \<open>open_by_name\<close>.\<close>

lemma whole_walk:
  assumes p: "path_to st xs hs T root p (path_names path) q" and inv: "table_inv st xs hs"
    and t: "tells T (v_dc st)" and r: "\<not> retensive env" and big: "roomy (cnt st)"
  shows "\<exists>name d st1 st2 st'. dir_namei env root path p (take_use p st) = Some ((0, name, d), st1) \<and>
    vfs_lookup env root d name (take_use d st1) = Some ((0, q), st2) \<and> iput env d st2 = Some st' \<and>
    follow_link env d q st2 = Some ((0, q), st') \<and> p \<noteq> INull \<and> q \<noteq> INull \<and>
    walked st st' \<and> tells T (v_dc st') \<and> cnt st' = bump q (cnt st)"
proof -
  have n: "path_names path = butlast (path_names path) @ [last (path_names path)]" by (simp add: path_names_ne)
  obtain d where pd: "path_to st xs hs T root p (butlast (path_names path)) d"
      and s: "step_to st xs hs T root d (last (path_names path)) q"
    using p by (subst (asm) n) (auto simp: path_to_append)
  have dp: "directory st xs p"
    using p by (cases "path_names path") (auto simp: path_names_ne dest: step_to_directory)
  note dd = step_to_directory [OF s]
  let ?s = "take_use p st"
  note w0 = take_use_walked [of st p]
  have t0: "tells T (v_dc ?s)" using t by (simp add: dc_take_use)
  obtain st1 where d1: "dir_namei env root path p ?s = Some ((0, last (path_names path), d), st1)" "walked ?s st1"
      "tells T (v_dc st1)" "cnt st1 = bump d (cnt st)"
    using dir_namei_walks [OF walked_path [OF w0 pd] walked_directory [OF w0 dd] walked_inv [OF w0 inv] t0 r cnt_take_use big
        walked_directory [OF w0 dp]] by blast
  note w1 = walked_trans [OF w0 d1(2)]
  obtain st2 st3 where t2: "vfs_lookup env root d (last (path_names path)) (take_use d st1) = Some ((0, q), st2)"
      "iput env d st2 = Some st3" "follow_link env d q st2 = Some ((0, q), st3)" "walked st1 st3" "tells T (v_dc st3)"
      "cnt st3 = bump q (cnt st)"
    using walk_turn [OF walked_step [OF w1 s] walked_inv [OF w1 inv] d1(3) r d1(4) big step_to_null [OF inv s]] by blast
  show ?thesis
    using d1(1) t2 walked_trans [OF w1 t2(4)] directory_quiet(1) [OF dp inv] step_to_null [OF inv s] by blast
qed

lemma namei_walks:
  assumes "path_to st xs hs T root p (path_names path) q" and "table_inv st xs hs"
    and "tells T (v_dc st)" and "\<not> retensive env" and "roomy (cnt st)"
  shows "\<exists>st'. namei env root p path f st = Some ((0, q), st') \<and> walked st st' \<and> tells T (v_dc st') \<and> cnt st' = bump q (cnt st)"
  using whole_walk [OF assms]
proof (elim exE conjE)
  fix name d st1 st2 st'
  assume w: "dir_namei env root path p (take_use p st) = Some ((0, name, d), st1)"
    "vfs_lookup env root d name (take_use d st1) = Some ((0, q), st2)" "iput env d st2 = Some st'"
    "follow_link env d q st2 = Some ((0, q), st')" "p \<noteq> INull" "walked st st'" "tells T (v_dc st')" "cnt st' = bump q (cnt st)"
  then have "namei env root p path f st = Some ((0, q), st')" by (simp add: namei_def)
  then show ?thesis using w by blast
qed

end
