(* ===== verification/Ext2_Path_Thms.thy ===== *)
theory Ext2_Path_Thms
  imports Ext2_Path_Props Ext2_Filetab_Thms Ext2_Namei_Example
begin

text \<open>
  The properties of paths, with an example: the root directory of \<open>Ext2_Namei_Example\<close>, and the path
  \<open>/a\<close>, which leads to its open file.
\<close>

section \<open>Resolving\<close>

text \<open>C36. A path whose names lead, one directory after the other, to the inode \<open>q\<close> of the table is resolved by
  \<open>namei\<close> to \<open>q\<close>, whether the name cache or the disk answers. The file system is as it was, the name cache
  is still true, and of all the uses taken on the way only the one of the result is left.
\<close>

theorem namei_resolves:
  assumes "path_to st xs hs T root p (path_names path) q" and "table_inv st xs hs" and "tells T (v_dc st)"
    and "\<not> retensive env" and "roomy (cnt st)"
  shows "\<exists>st'. namei env root p path follow_links st = Some ((0, q), st') \<and> v_fs st' = v_fs st \<and> tells T (v_dc st') \<and>
    table_inv st' xs hs \<and> (\<forall>k. cnt st' k = cnt st k + (if k = q then 1 else 0))"
proof -
  obtain st' where n: "namei env root p path follow_links st = Some ((0, q), st')" "walked st st'" "tells T (v_dc st')"
      "cnt st' = bump q (cnt st)"
    using namei_walks [OF assms] by blast
  have "\<forall>k. cnt st' k = cnt st k + (if k = q then 1 else 0)" using n(4) by (simp add: bump_def)
  then show ?thesis using n(1,3) walked_fields(12) [OF n(2)] walked_inv [OF n(2) assms(2)] by blast
qed

section \<open>The operations\<close>

text \<open>The path leads to the directory \<open>d\<close>, and its last name is \<open>name\<close>.\<close>

definition in_dir :: "vfs \<Rightarrow> iptr list \<Rightarrow> (nat \<Rightarrow> iptr list) \<Rightarrow> truth \<Rightarrow> iptr \<Rightarrow> iptr \<Rightarrow> u8 list \<Rightarrow> iptr \<Rightarrow> u8 list \<Rightarrow> bool" where
  "in_dir st xs hs T root p path d name \<longleftrightarrow> path_to st xs hs T root p (butlast (path_names path)) d \<and>
     directory st xs p \<and> directory st xs d \<and> last (path_names path) = name \<and> table_inv st xs hs \<and> tells T (v_dc st)"

lemma in_dir_walks:
  assumes a: "in_dir st xs hs T root p path d name" and r: "\<not> retensive env" and big: "roomy c" and c: "cnt st = bump p c"
  shows "\<exists>st'. dir_namei env root path p st = Some ((0, name, d), st') \<and> walked st st' \<and> tells T (v_dc st') \<and> cnt st' = bump d c"
proof -
  note h = a [unfolded in_dir_def]
  show ?thesis using dir_namei_walks [of st xs hs T root p path d env c] h r big c by simp
qed

lemma walked_in_dir:
  assumes w: "walked st st'" and t: "tells T (v_dc st')" and a: "in_dir st xs hs T root p path d name"
  shows "in_dir st' xs hs T root p path d name"
  using a walked_path [OF w] walked_directory [OF w] walked_inv [OF w] t by (simp add: in_dir_def)

lemma use_in_dir: "in_dir st xs hs T root p path d name \<Longrightarrow> in_dir (take_use q st) xs hs T root p path d name"
  by (rule walked_in_dir [OF take_use_walked]) (simp_all add: in_dir_def dc_take_use)

lemma in_dir_null: "in_dir st xs hs T root p path d name \<Longrightarrow> p \<noteq> INull \<and> d \<noteq> INull"
  using table_invD(6) [of st xs hs] by (auto simp: in_dir_def directory_def)

lemma on_path_reaches:
  assumes a: "in_dir st xs hs T root p path d name" and r: "\<not> retensive env" and big: "roomy (cnt st)"
  shows "\<exists>st'. dir_namei env root path p (take_use p st) = Some ((0, name, d), st') \<and> walked st st' \<and> cnt st' = bump d (cnt st) \<and>
    in_dir st' xs hs T root p path d name"
proof -
  obtain st' where w: "dir_namei env root path p (take_use p st) = Some ((0, name, d), st')" "walked (take_use p st) st'"
      "tells T (v_dc st')" "cnt st' = bump d (cnt st)"
    using in_dir_walks [OF use_in_dir [OF a] r big cnt_take_use] by blast
  note w' = walked_trans [OF take_use_walked w(2)]
  show ?thesis using w w' walked_in_dir [OF w' w(3) a] by blast
qed

text \<open>C37. \<open>do_unlink\<close>, \<open>do_rmdir\<close> and \<open>do_mkdir\<close> on a path do what the operations of the file system do on the
  directory that the path leads to: the walk hands them that directory, with one more use, and the last
  name, in a state that differs from the first one in counts, allocation hints and the name cache only.
\<close>

theorem path_operations_refine:
  assumes "in_dir st xs hs T root p path d name" and "name \<noteq> []" and "\<not> retensive env" and "roomy (cnt st)"
    and "\<not> is_rdonly st d" and "\<not> IS_APPEND (v_inode st d)"
  shows "\<exists>st'. walked st st' \<and> (\<forall>k. cnt st' k = cnt st k + (if k = d then 1 else 0)) \<and>
    do_unlink env root p path st = ext2_unlink env d name st' \<and>
    do_rmdir env root p path st = ext2_rmdir env d name st' \<and>
    do_mkdir env root p path mode st = do {
      (err, st) \<leftarrow> ext2_mkdir env d name (mode AND S_IRWXUGO) (take_use d st');
      st \<leftarrow> iput env d st;
      Some (err, st) }"
proof -
  obtain st' where w: "dir_namei env root path p (take_use p st) = Some ((0, name, d), st')" "walked st st'"
      "cnt st' = bump d (cnt st)" "in_dir st' xs hs T root p path d name"
    using on_path_reaches [OF assms(1,3,4)] by blast
  have "\<not> is_rdonly st' d" "\<not> IS_APPEND (v_inode st' d)" "i_op (v_inode st' d) = Dir_ops"
    using assms(5,6) w(4) by (simp_all add: is_rdonly_def IS_APPEND_def in_dir_def directory_def walked_fields [OF w(2)])
  then have o: "on_path env root p path no_name keep op st = op d name st'" for no_name keep op
    using w(1) assms(2) in_dir_null [OF assms(1)] by (simp add: on_path_def)
  have "\<forall>k. cnt st' k = cnt st k + (if k = d then 1 else 0)" using w(3) by (simp add: bump_def)
  then show ?thesis using w(2) unfolding do_unlink_def do_rmdir_def do_mkdir_def o by blast
qed

text \<open>C38. On a file system that is mounted read only, \<open>do_unlink\<close>, \<open>do_rmdir\<close> and \<open>do_mkdir\<close> fail with \<open>EROFS\<close>;
  the file system is as it was and every use taken on the way is given back.
\<close>

theorem readonly_path_refused:
  assumes "in_dir st xs hs T root p path d name" and "name \<noteq> []" and "\<not> retensive env" and "roomy (cnt st)"
    and "is_rdonly st d"
  shows "\<exists>st'. v_fs st' = v_fs st \<and> cnt st' = cnt st \<and> do_unlink env root p path st = Some (- EROFS, st') \<and>
    do_rmdir env root p path st = Some (- EROFS, st') \<and> do_mkdir env root p path mode st = Some (- EROFS, st')"
proof -
  obtain st1 where w: "dir_namei env root path p (take_use p st) = Some ((0, name, d), st1)" "walked st st1"
      "cnt st1 = bump d (cnt st)" "in_dir st1 xs hs T root p path d name"
    using on_path_reaches [OF assms(1,3,4)] by blast
  have "unat (cnt st d) < 65533" using assms(4) by (simp add: roomy_def word_less_nat_alt)
  then have "unat (cnt st1 d) \<noteq> 0" unfolding w(3) by (simp add: unat_bump)
  then have "cnt st1 d \<noteq> 0" by auto
  then obtain st' where i: "iput env d st1 = Some st'" "walked st1 st'" "cnt st' = unbump d (cnt st1)"
    using iput_walked [of d st1 env] directory_quiet [of st1 xs d hs] w(4) unfolding in_dir_def by blast
  have "is_rdonly st1 d" using assms(5) by (simp add: is_rdonly_def walked_fields [OF w(2)])
  then have "on_path env root p path no_name keep op st = Some (- EROFS, st')" for no_name keep op
    using w(1) i(1) assms(2) in_dir_null [OF assms(1)] by (simp add: on_path_def)
  moreover have "cnt st' = cnt st" using i(3) w(3) by simp
  moreover have "v_fs st' = v_fs st" using walked_fields(12) [OF i(2)] walked_fields(12) [OF w(2)] by simp
  ultimately show ?thesis unfolding do_unlink_def do_rmdir_def do_mkdir_def by blast
qed


section \<open>Renaming\<close>

lemma bump_commute: "bump p (bump q c) = bump q (bump p c)"
  by (simp add: bump_def fun_eq_iff)

text \<open>C39. \<open>fs32_move\<close> takes a use of the base of each path, but a rename that fails on the old name releases the
  first one only. After \<open>fs32_move\<close> has refused to rename \<open>.\<close>, \<open>..\<close> or a path that ends in a separator, the
  base of the new path has one use too many, for which there is no pointer any more.
\<close>

theorem rename_keeps_target:
  assumes "path_base root e1 file volume pSrc = Some (p, old)" and "path_base root e2 file volume pDst = Some (t, new)"
    and "in_dir st xs hs T root p old d name" and "no_rename name" and "\<not> retensive env" and "roomy (bump t (cnt st))"
  shows "\<exists>st'. fs32_move env True root e1 e2 file volume pSrc pDst st = Some (ERROR_ACCESS_DENIED, st') \<and>
    v_fs st' = v_fs st \<and> (\<forall>k. cnt st' k = cnt st k + (if k = t then 1 else 0))"
proof -
  define s where "s = take_use t (take_use p st)"
  have w0: "walked st s" unfolding s_def by (rule walked_trans [OF take_use_walked take_use_walked])
  have a0: "in_dir s xs hs T root p old d name" unfolding s_def by (intro use_in_dir assms(3))
  have c0: "cnt s = bump p (bump t (cnt st))" by (simp add: s_def cnt_take_use bump_commute)
  obtain s1 where w: "dir_namei env root old p s = Some ((0, name, d), s1)" "walked s s1" "tells T (v_dc s1)"
      "cnt s1 = bump d (bump t (cnt st))"
    using in_dir_walks [OF a0 assms(5,6) c0] by blast
  have a1: "in_dir s1 xs hs T root p old d name" by (rule walked_in_dir [OF w(2,3) a0])
  have "unat (bump t (cnt st) d) < 65533" using assms(6) by (simp add: roomy_def word_less_nat_alt)
  then have "unat (cnt s1 d) \<noteq> 0" unfolding w(4) by (simp add: unat_bump)
  then have "cnt s1 d \<noteq> 0" by auto
  then obtain st' where i: "iput env d s1 = Some st'" "walked s1 st'" "cnt st' = unbump d (cnt s1)"
    using iput_walked [of d s1 env] directory_quiet [of s1 xs d hs] a1 unfolding in_dir_def by blast
  have "do_rename env root p t old new s = Some (- EPERM, st')" using w(1) i(1) assms(4) by (simp add: do_rename_def)
  moreover have "map_err (- EPERM) = ERROR_ACCESS_DENIED" by (simp add: map_err_def EPERM_def Linux_to_OS2_err_def)
  ultimately have "fs32_move env True root e1 e2 file volume pSrc pDst st = Some (ERROR_ACCESS_DENIED, st')"
    using assms(1,2) by (simp add: fs32_move_def s_def)
  moreover have "v_fs st' = v_fs st" using walked_fields(12) [OF i(2)] walked_fields(12) [OF w(2)] walked_fields(12) [OF w0] by simp
  moreover have "cnt st' = bump t (cnt st)" using i(3) w(4) by simp
  then have "\<forall>k. cnt st' k = cnt st k + (if k = t then 1 else 0)" by (simp add: bump_def)
  ultimately show ?thesis by blast
qed


section \<open>Opening\<close>

lemma walked_quiet: "walked st st' \<Longrightarrow> quiet st p \<Longrightarrow> quiet st' p"
  by (simp add: quiet_def walked_fields)

text \<open>C40. \<open>open_by_name\<close> of a path that leads to \<open>q\<close> gives a file that no one uses, at the start of \<open>q\<close>, with one
  more use of \<open>q\<close>, and \<open>vfs_close\<close> gives this use back; when there is no free file and no memory for one, it
  returns null and has kept no use. The file system is as it was all the time.
\<close>

theorem open_close_by_name:
  assumes "path_to (f_vfs st) xs hs T root p (path_names path) q" and "table_inv (f_vfs st) xs hs"
    and "tells T (v_dc (f_vfs st))" and "\<not> retensive env" and big: "roomy (cnt (f_vfs st))" and "quiet (f_vfs st) q"
    and "queues st Q" and "files_ok st Q"
  shows "\<exists>f st1. open_by_name env root p path mode st = Some (f, st1) \<and> v_fs (f_vfs st1) = v_fs (f_vfs st) \<and>
    (if f = FNull then Q Free_files = [] \<and> file_pages st = [] \<and> cnt (f_vfs st1) = cnt (f_vfs st)
     else (\<forall>l. l \<noteq> Free_files \<longrightarrow> f \<notin> set (Q l)) \<and> f_inode st1 f = q \<and> f_pos (f_open st1 f) = 0 \<and>
       (\<forall>k. cnt (f_vfs st1) k = cnt (f_vfs st) k + (if k = q then 1 else 0)) \<and>
       (\<exists>st2. vfs_close env f st1 = Some st2 \<and> cnt (f_vfs st2) = cnt (f_vfs st) \<and> v_fs (f_vfs st2) = v_fs (f_vfs st)))"
  using whole_walk [OF assms(1-5)]
proof (elim exE conjE)
  fix name d v1 v2 v
  assume w: "dir_namei env root path p (take_use p (f_vfs st)) = Some ((0, name, d), v1)"
    "vfs_lookup env root d name (take_use d v1) = Some ((0, q), v2)"
    "follow_link env d q v2 = Some ((0, q), v)" "p \<noteq> INull" "q \<noteq> INull" "walked (f_vfs st) v" "cnt v = bump q (cnt (f_vfs st))"
  define s where "s = st\<lparr>f_vfs := v\<rparr>"
  have s: "f_vfs s = v" "file_pages s = file_pages st" by (simp_all add: s_def)
  have qs: "queues s Q" "files_ok s Q" using assms(7,8) by (simp_all add: s_def queues_vfs files_ok_def)
  note o = open_by_name_def [of env root p path mode st]
  have fs: "v_fs v = v_fs (f_vfs st)" by (rule walked_fields(12) [OF w(6)])
  have qv: "quiet v q" by (rule walked_quiet [OF w(6) assms(6)])
  have "unat (cnt (f_vfs st) q) < 65533" using big by (simp add: roomy_def word_less_nat_alt)
  then have "unat (cnt v q) \<noteq> 0" unfolding w(7) by (simp add: unat_bump)
  then have nz: "cnt v q \<noteq> 0" by auto
  from get_empty_step [OF qs] show ?thesis
  proof (elim disjE exE conjE)
    assume a: "get_empty_filp s = Some (FNull, s)" "Q Free_files = []" "file_pages s = []"
    obtain v' where i: "iput env q v = Some v'" "walked v v'" "cnt v' = unbump q (cnt v)"
      using iput_walked [OF w(5) qv nz] by blast
    have "open_by_name env root p path mode st = Some (FNull, s\<lparr>f_vfs := v'\<rparr>)"
      using w(1-4) a(1) i(1) by (simp add: o s flip: s_def)
    moreover have "v_fs v' = v_fs (f_vfs st)" using walked_fields(12) [OF i(2)] fs by simp
    moreover have "cnt v' = cnt (f_vfs st)" using i(3) w(7) by simp
    ultimately show ?thesis using a(2,3) s(2) by (intro exI [where x = FNull] exI [where x = "s\<lparr>f_vfs := v'\<rparr>"]) simp
  next
    fix f s1 rest
    assume a: "get_empty_filp s = Some (f, s1)" "f \<noteq> FNull" "\<forall>l. l \<noteq> Free_files \<longrightarrow> f \<notin> set (Q l)"
      "queues s1 (Q(Free_files := rest, Used_files := Q Used_files @ [f]))" "f_vfs s1 = (f_vfs s)\<lparr>event := event (f_vfs s) + 1\<rparr>"
    define s2 where "s2 = s1\<lparr>f_inode := (f_inode s1)(f := q), f_open := (f_open s1)(f := (f_open s1 f)\<lparr>f_pos := 0\<rparr>),
      f_mode := (f_mode s1)(f := mode)\<rparr>"
    define st1 where "st1 = (if i_op (v_inode (f_vfs s2) q) \<noteq> No_ops then s2\<lparr>f_op := (f_op s2)(f := i_op (v_inode (f_vfs s2) q))\<rparr> else s2)"
    have op: "open_by_name env root p path mode st = Some (f, st1)"
      using w(1-4) a(1,2) by (simp add: o Let_def st1_def s2_def flip: s_def)
    have st1: "f_vfs st1 = v\<lparr>event := event v + 1\<rparr>" "f_inode st1 f = q" "f_pos (f_open st1 f) = 0"
      using a(5) by (simp_all add: st1_def s2_def s)
    have c1: "cnt (f_vfs st1) = bump q (cnt (f_vfs st))" using w(7) by (simp add: st1(1) cnt_def fun_eq_iff)
    have q1: "queues st1 (Q(Free_files := rest, Used_files := Q Used_files @ [f]))"
      using a(4) by (simp add: st1_def s2_def queues_def queue_def)
    have "quiet (f_vfs st1) q" "cnt (f_vfs st1) q \<noteq> 0" using qv nz by (simp_all add: st1(1) quiet_def cnt_def)
    then obtain v' where i: "iput env q (f_vfs st1) = Some v'" "walked (f_vfs st1) v'" "cnt v' = unbump q (cnt (f_vfs st1))"
      using iput_walked [OF w(5)] by blast
    have q2: "queues (st1\<lparr>f_vfs := v'\<rparr>) (Q(Free_files := rest, Used_files := Q Used_files @ [f]))" using q1 by (simp add: queues_vfs)
    have m: "f \<in> set ((Q(Free_files := rest, Used_files := Q Used_files @ [f])) Used_files)" by simp
    obtain st2 where p2: "put_filp f (st1\<lparr>f_vfs := v'\<rparr>) = Some st2" "f_vfs st2 = f_vfs (st1\<lparr>f_vfs := v'\<rparr>)"
      using put_filp_listed [OF q2 m] by auto
    have "vfs_close env f st1 = Some st2" using i(1) p2(1) w(5) st1(2) by (simp add: vfs_close_def)
    moreover have "cnt (f_vfs st2) = cnt (f_vfs st)" using i(3) by (simp add: p2(2) c1)
    moreover have "v_fs (f_vfs st2) = v_fs (f_vfs st)" using walked_fields(12) [OF i(2)] fs by (simp add: p2(2) st1(1))
    moreover have "\<forall>k. cnt (f_vfs st1) k = cnt (f_vfs st) k + (if k = q then 1 else 0)" unfolding c1 by (simp add: bump_def)
    moreover have "v_fs (f_vfs st1) = v_fs (f_vfs st)" using fs by (simp add: st1(1))
    ultimately show ?thesis using op a(2,3) st1(2,3) by (intro exI [where x = f] exI [where x = st1]) simp
  qed
qed

end
