(* ===== verification/Ext2_Path_Example.thy ===== *)
theory Ext2_Path_Example
  imports Ext2_Path_Thms Ext2_Filetab_Example
begin

text \<open>
  An example for the theorems on paths: the file system of \<open>Ext2_Namei_Example\<close>, mounted with the flags
  \<open>fl\<close>, the truth that its directory tells, and the path \<open>/a\<close>.
\<close>

definition example_paths :: "u32 \<Rightarrow> vfs" where
  "example_paths fl = (example_names example_dir)\<lparr>v_fs := (v_fs (example_names example_dir))\<lparr>s_flags := fl\<rparr>,
     v_inode := (v_inode (example_names example_dir))(Ino 0 := (v_inode (example_names example_dir) (Ino 0))\<lparr>i_op := Dir_ops\<rparr>)\<rparr>"

definition path_truth :: truth where
  "path_truth dev dir version name = (if dev = 5 \<and> dir = 2 \<and> version = 7 then map_of (live example_dir [0, 12]) name else None)"

definition path_a :: "u8 list" where
  "path_a = [0x2F, 97]"

lemma path_a_names: "path_names path_a = [[], [97]]"
  by (simp add: path_a_def separator_def)

lemma paths_fields:
  "i_sb (example_paths fl) k" "i_dev (example_paths fl) k = 5" "s_dev (example_paths fl) = 5"
  "i_ino (v_inode (example_paths fl) (Ino 0)) = 2" "i_version (v_inode (example_paths fl) (Ino 0)) = 7"
  "i_op (v_inode (example_paths fl) (Ino 0)) = Dir_ops" "i_mode (v_inode (example_paths fl) (Ino 0)) = 0x41ED"
  "i_nlink (v_inode (example_paths fl) (Ino 0)) = 3" "\<not> i_dirt (v_inode (example_paths fl) (Ino 0))"
  "e_prealloc_count (v_inode (example_paths fl) (Ino 0)) = 0" "i_flags (v_inode (example_paths fl) (Ino 0)) = 0"
  "s_flags (v_fs (example_paths fl)) = fl" "v_dc (example_paths fl) = name_cache_init zero_dcache"
  by (simp_all add: example_paths_def example_names_def zero_inode_def)

lemma paths_table: "table_inv (example_paths fl) names_ring names_chains"
proof (rule same_table_inv [OF _ names_table])
  show "same_table (example_names example_dir) (example_paths fl)" by (simp add: same_table_def example_paths_def)
qed

lemma paths_dir: "dir_file (v_fs (example_paths fl)) (v_inode (example_paths fl) (Ino 0)) [(50, example_dir, [0, 12])]"
proof -
  have d: "dir_file (v_fs (example_names example_dir)) (v_inode (example_names example_dir) (Ino 0)) [(50, example_dir, [0, 12])]"
    by (rule names_dir [OF example_dir_block])
  have "seg (fs\<lparr>s_flags := fl\<rparr>) bs a os e = seg fs bs a os e" for fs bs a os e
    by (induction os arbitrary: a) (simp_all add: dir_entry_ok_def)
  moreover have "ind (fs\<lparr>s_flags := fl\<rparr>) = ind fs" for fs by (simp add: ind_def fun_eq_iff)
  moreover have "EXT2_ADDR_PER_BLOCK (fs\<lparr>s_flags := fl\<rparr>) = EXT2_ADDR_PER_BLOCK fs" for fs by (simp add: EXT2_ADDR_PER_BLOCK_def)
  ultimately have "dir_file (fs\<lparr>s_flags := fl\<rparr>) (i\<lparr>i_op := Dir_ops\<rparr>) bks = dir_file fs i bks" for fs i bks
    by (simp add: dir_file_def blocks_wf_def max_blocks_def file_block_def dir_block_def Let_def)
  then show ?thesis using d by (simp add: example_paths_def)
qed

lemma paths_tell: "tells path_truth (v_dc (example_paths fl))"
proof -
  have "d_dev (link_level l n p dc) = d_dev dc" for l n p dc
    by (induction l n p dc rule: link_level.induct) simp_all
  moreover have "d_dev (init_queues n i dc) = d_dev dc" for n i dc
    by (induction n i dc rule: init_queues.induct) simp_all
  ultimately have "d_dev (name_cache_init zero_dcache) e = 0" for e
    by (simp add: name_cache_init_def init_level_def zero_dcache_def Let_def)
  moreover have "\<exists>v. dcache_inv (name_cache_init zero_dcache) v" using init_inv by blast
  ultimately show ?thesis by (simp add: tells_def paths_fields path_truth_def entry_is_def)
qed

lemma paths_root: "directory (example_paths fl) names_ring (Ino 0)"
  by (simp add: directory_def quiet_def paths_fields names_ring_def INODE_DASD_def S_ISDIR_def)

lemma paths_to:
  "path_to (example_paths fl) names_ring names_chains path_truth (Ino 0) (Ino 0) [[]] (Ino 0)"
  "path_to (example_paths fl) names_ring names_chains path_truth (Ino 0) (Ino 0) (path_names path_a) (Ino 1)"
proof -
  have s: "step_to (example_paths fl) names_ring names_chains path_truth (Ino 0) (Ino 0) [] (Ino 0)"
    by (simp add: step_to_def paths_root)
  have "match (example_paths fl) 12 = match (example_names example_dir) 12"
    by (simp add: match_def fun_eq_iff example_paths_def)
  then have m: "List.find (match (example_paths fl) 12) (names_chains (hashfn 5 12)) = Some (Ino 1)"
    using names_match(1) [of example_dir] by (simp add: example_names_def)
  have e: "map_of (live example_dir [0, 12]) [97] = Some 12" by (simp add: example_dir_live)
  have "leads (example_paths fl) names_ring names_chains path_truth (Ino 0) (Ino 0) [97] (Ino 1)"
    unfolding leads_def
  proof (intro conjI exI)
    show "map_of (dir_entries [(50, example_dir, [0, 12])]) [97] = Some 12" using e by (simp add: dir_entries_def)
  qed (use paths_root paths_dir m e in \<open>simp_all add: paths_fields path_truth_def EXT2_NAME_LEN_def\<close>)
  then have t: "step_to (example_paths fl) names_ring names_chains path_truth (Ino 0) (Ino 0) [97] (Ino 1)"
    by (simp add: step_to_def)
  show "path_to (example_paths fl) names_ring names_chains path_truth (Ino 0) (Ino 0) [[]] (Ino 0)" using s by simp
  show "path_to (example_paths fl) names_ring names_chains path_truth (Ino 0) (Ino 0) (path_names path_a) (Ino 1)"
    using s t unfolding path_a_names path_to.simps by blast
qed

lemma paths_roomy: "roomy (cnt (example_paths fl))"
  by (simp add: roomy_def cnt_def example_paths_def example_names_def zero_inode_def)

lemma paths_in_dir: "in_dir (example_paths fl) names_ring names_chains path_truth (Ino 0) (Ino 0) path_a (Ino 0) [97]"
  using paths_to(1) paths_root paths_table paths_tell by (simp add: in_dir_def path_a_names)

theorem namei_resolves_witness:
  "\<exists>st'. namei example_env (Ino 0) (Ino 0) path_a True (example_paths 0) = Some ((0, Ino 1), st') \<and>
     cnt st' (Ino 1) = cnt (example_paths 0) (Ino 1) + 1 \<and> cnt st' (Ino 0) = cnt (example_paths 0) (Ino 0)"
  using namei_resolves [OF paths_to(2) paths_table paths_tell example_env_case paths_roomy] by fastforce

theorem path_operations_refine_witness:
  "\<exists>st'. walked (example_paths 0) st' \<and>
     do_unlink example_env (Ino 0) (Ino 0) path_a (example_paths 0) = ext2_unlink example_env (Ino 0) [97] st'"
proof -
  have "\<not> is_rdonly (example_paths 0) (Ino 0)" "\<not> IS_APPEND (v_inode (example_paths 0) (Ino 0))"
    by (simp_all add: is_rdonly_def IS_APPEND_def paths_fields)
  then show ?thesis using path_operations_refine [OF paths_in_dir _ example_env_case paths_roomy] by blast
qed

theorem readonly_path_refused_witness:
  "\<exists>st'. do_unlink example_env (Ino 0) (Ino 0) path_a (example_paths MS_RDONLY) = Some (- EROFS, st') \<and>
     cnt st' = cnt (example_paths MS_RDONLY)"
proof -
  have "is_rdonly (example_paths MS_RDONLY) (Ino 0)" by (simp add: is_rdonly_def paths_fields MS_RDONLY_def)
  then show ?thesis using readonly_path_refused [OF paths_in_dir _ example_env_case paths_roomy] by blast
qed

text \<open>Renaming \<open>\\<close> to \<open>\a\<close>.\<close>

theorem rename_keeps_target_witness:
  "\<exists>st'. fs32_move example_env True (Ino 0) CURDIREND_INVALID CURDIREND_INVALID None True [0x5C] [0x5C, 97] (example_paths 0) =
     Some (ERROR_ACCESS_DENIED, st') \<and> cnt st' (Ino 0) = cnt (example_paths 0) (Ino 0) + 1"
proof -
  have b: "path_base (Ino 0) CURDIREND_INVALID None True [0x5C] = Some (Ino 0, [0x5C])"
    "path_base (Ino 0) CURDIREND_INVALID None True [0x5C, 97] = Some (Ino 0, [0x5C, 97])"
    by (simp_all add: path_base_def skip_drive_def)
  have d: "in_dir (example_paths 0) names_ring names_chains path_truth (Ino 0) (Ino 0) [0x5C] (Ino 0) []"
    using paths_to(1) paths_root paths_table paths_tell by (simp add: in_dir_def separator_def)
  have r: "roomy (bump (Ino 0) (cnt (example_paths 0)))"
    by (simp add: roomy_def bump_def cnt_def example_paths_def example_names_def zero_inode_def)
  show ?thesis using rename_keeps_target [OF b d _ example_env_case r] by (fastforce simp: no_rename_def)
qed


theorem open_close_by_name_witness:
  "\<exists>f st1. open_by_name example_env (Ino 0) (Ino 0) path_a 1 (example_tab\<lparr>f_vfs := example_paths 0\<rparr>) = Some (f, st1) \<and>
     f_inode st1 f = Ino 1 \<and> cnt (f_vfs st1) (Ino 1) = cnt (example_paths 0) (Ino 1) + 1"
proof -
  define st where "st = example_tab\<lparr>f_vfs := example_paths 0\<rparr>"
  have v: "f_vfs st = example_paths 0" "file_pages st \<noteq> []" by (simp_all add: st_def example_tab_def)
  have q: "queues st (\<lambda>_. [])" "files_ok st (\<lambda>_. [])"
    using example_tab_queues by (simp_all add: st_def queues_vfs files_ok_def)
  have "quiet (example_paths 0) (Ino 1)"
    by (simp add: quiet_def example_paths_def example_names_def zero_inode_def INODE_DASD_def)
  note r = open_close_by_name [of st, unfolded v(1), OF paths_to(2) paths_table paths_tell example_env_case paths_roomy this q]
  from r [of 1] obtain f st1 where o: "open_by_name example_env (Ino 0) (Ino 0) path_a 1 st = Some (f, st1)"
      and i: "f = FNull \<longrightarrow> file_pages st = []"
        "f \<noteq> FNull \<longrightarrow> f_inode st1 f = Ino 1 \<and> cnt (f_vfs st1) (Ino 1) = cnt (example_paths 0) (Ino 1) + 1"
    by (elim exE conjE) (rule that, assumption, simp_all split: if_splits)
  have "f \<noteq> FNull" using i(1) v(2) by auto
  then show ?thesis using o i(2) unfolding st_def by blast
qed

end
