(* ===== verification/Ext2_Fnmatch.thy ===== *)
theory Ext2_Fnmatch
  imports Ext2_Prelude
begin

text \<open>
  Wildcards: \<open>src/util/fnmatch.c\<close>, as it is compiled for the driver library.

  A string is the list of its bytes up to the zero byte, a pointer into it the rest of the list from there
  on, and what it points to is \<open>at0\<close>. Two pointers into one string are equal when the rests have the same
  length. Every loop and every recursion goes on with a shorter mask or with a shorter name.
\<close>

definition FNM_NOESCAPE :: u32 where "FNM_NOESCAPE = 16"
definition FNM_PATHNAME :: u32 where "FNM_PATHNAME = 32"
definition FNM_PERIOD :: u32 where "FNM_PERIOD = 64"
definition FNM_STYLE_MASK :: u32 where "FNM_STYLE_MASK = 15"
definition FNM_POSIX :: u32 where "FNM_POSIX = 0"
definition FNM_OS2 :: u32 where "FNM_OS2 = 1"
definition FNM_DOS :: u32 where "FNM_DOS = 2"
definition FNM_IGNORECASE :: u32 where "FNM_IGNORECASE = 128"
definition FNM_PATHPREFIX :: u32 where "FNM_PATHPREFIX = 256"

text \<open>\<open>_FNM_MATCH\<close>, \<open>FNM_NOMATCH\<close> and \<open>_FNM_ERR\<close>\<close>

datatype fnm = FNM_MATCH | FNM_NOMATCH | FNM_ERR

definition has_flag :: "u32 \<Rightarrow> u32 \<Rightarrow> bool" where
  "has_flag flags f \<longleftrightarrow> flags AND f \<noteq> 0"

definition at0 :: "u8 list \<Rightarrow> u8" where
  "at0 s = (case s of [] \<Rightarrow> 0 | c # _ \<Rightarrow> c)"

lemma at0_simps [simp]: "at0 [] = 0" "at0 (c # s) = c"
  by (simp_all add: at0_def)

definition nls_tolower :: "u8 \<Rightarrow> u8" where
  "nls_tolower c = (if 0x41 \<le> c \<and> c \<le> 0x5A then c + 0x61 - 0x41 else c)"

definition same_char :: "u32 \<Rightarrow> u8 \<Rightarrow> u8 \<Rightarrow> bool" where
  "same_char flags c d \<longleftrightarrow>
     (if has_flag flags FNM_IGNORECASE then nls_tolower c = nls_tolower d else c = d)"

definition comp_sep :: "u8 \<Rightarrow> bool" where
  "comp_sep c \<longleftrightarrow> c = 0x2F \<or> c = 0x5C"

definition comp_end :: "u8 \<Rightarrow> bool" where
  "comp_end c \<longleftrightarrow> c = 0 \<or> comp_sep c"

definition skip_comp_os2 :: "u8 list \<Rightarrow> u8 list" where
  "skip_comp_os2 src = tl (dropWhile (\<lambda>c. \<not> comp_end c) src)"

subsection \<open>OS/2 and DOS styles\<close>

text \<open>\<open>star_os2\<close> is the loop after an asterisk.\<close>

function match_comp_os2 :: "u32 \<Rightarrow> bool \<Rightarrow> u8 list \<Rightarrow> u8 list \<Rightarrow> fnm"
  and star_os2 :: "u32 \<Rightarrow> bool \<Rightarrow> u8 list \<Rightarrow> u8 list \<Rightarrow> fnm" where
  "match_comp_os2 flags has_dot pat name = (case pat of
     [] \<Rightarrow>
       if name = [] then FNM_MATCH
       else if has_flag flags FNM_PATHPREFIX \<and> comp_sep (at0 name) then FNM_MATCH
       else FNM_NOMATCH
   | c # pat \<Rightarrow>
       if comp_sep c then
         if comp_sep (at0 name) then FNM_MATCH
         else if has_flag flags FNM_PATHPREFIX \<and> pat = [] \<and> name = [] then FNM_MATCH
         else FNM_NOMATCH
       else if c = 0x3F then
         match_comp_os2 flags has_dot pat (if at0 name \<noteq> 0x2E \<and> \<not> comp_end (at0 name) then tl name else name)
       else if c = 0x2A then star_os2 flags has_dot (dropWhile (\<lambda>c. c = 0x2A) pat) name
       else if c = 0x2E then
         if at0 name = 0x2E then match_comp_os2 flags has_dot pat (tl name)
         else if has_dot \<or> \<not> comp_end (at0 name) then FNM_NOMATCH
         else match_comp_os2 flags has_dot pat name
       else if \<not> same_char flags c (at0 name) then FNM_NOMATCH
       else match_comp_os2 flags has_dot pat (tl name))"
| "star_os2 flags has_dot pat name =
     (let rc = match_comp_os2 flags has_dot pat name in
      if rc \<noteq> FNM_NOMATCH then rc
      else if comp_end (at0 name) then FNM_NOMATCH
      else if at0 name = 0x2E \<and> flags AND FNM_STYLE_MASK = FNM_DOS then FNM_NOMATCH
      else star_os2 flags has_dot pat (tl name))"
  by pat_completeness auto

termination
proof (relation "measures [case_sum (\<lambda>(_, _, m, _). length m) (\<lambda>(_, _, m, _). length m), case_sum (\<lambda>_. 0) (\<lambda>_. 1),
    case_sum (\<lambda>(_, _, _, n). length n) (\<lambda>(_, _, _, n). length n)]"; (simp add: less_Suc_eq_le length_dropWhile_le; fail)?)
  fix flags :: u32 and has_dot and pat name :: "u8 list" and x
  assume "\<not> comp_end (at0 name)"
  then have "name \<noteq> []" by (auto simp: comp_end_def)
  then show "(Inr (flags, has_dot, pat, tl name), Inr (flags, has_dot, pat, name)) \<in>
    measures [case_sum (\<lambda>(_, _, m, _). length m) (\<lambda>(_, _, m, _). length m), case_sum (\<lambda>_. 0) (\<lambda>_. 1),
      case_sum (\<lambda>(_, _, _, n). length n) (\<lambda>(_, _, _, n). length n)]" by simp
qed

declare match_comp_os2.simps [simp del] star_os2.simps [simp del]

definition match_comp :: "u8 list \<Rightarrow> u8 list \<Rightarrow> u32 \<Rightarrow> fnm" where
  "match_comp pat name flags =
     (if flags AND FNM_STYLE_MASK = FNM_OS2 \<or> flags AND FNM_STYLE_MASK = FNM_DOS then
        let s = dropWhile (\<lambda>c. \<not> comp_end c \<and> c \<noteq> 0x2E) name
        in match_comp_os2 flags (at0 s = 0x2E) pat name
      else FNM_ERR)"

subsection \<open>Unix style\<close>

text \<open>
  The loop over the items of a set, up to the closing bracket or the end of the string; \<open>first\<close> tells that
  no item has been read, \<open>ch\<close> is the character of the name.
\<close>

definition set_item :: "bool \<Rightarrow> u8 \<Rightarrow> u8 \<Rightarrow> u8 \<Rightarrow> bool" where
  "set_item invert ch c1 c2 \<longleftrightarrow> (if c1 \<le> ch \<and> ch \<le> c2 then \<not> invert else invert)"

function set_loop :: "u32 \<Rightarrow> bool \<Rightarrow> u8 \<Rightarrow> bool \<Rightarrow> u8 list \<Rightarrow> bool \<Rightarrow> u8 list \<times> bool" where
  "set_loop flags invert ch first pat matched = (case pat of
     [] \<Rightarrow> ([], matched)
   | c # rest \<Rightarrow>
       if c = 0x5D \<and> \<not> first then (pat, matched)
       else
         let escaped = \<not> has_flag flags FNM_NOESCAPE \<and> c = 0x5C in
         if escaped \<and> rest = [] then ([], matched)
         else
           let c1 = (if escaped then hd rest else c);
               pat = (if escaped then tl rest else rest) in
           if at0 pat = 0x2D \<and> at0 (tl pat) \<noteq> 0x5D then
             let pat = tl pat;
                 pat = (if \<not> has_flag flags FNM_NOESCAPE \<and> at0 pat = 0x5C then tl pat else pat) in
             if pat = [] then ([], matched)
             else set_loop flags invert ch False (tl pat) (matched \<or> set_item invert ch c1 (hd pat))
           else set_loop flags invert ch False pat (matched \<or> set_item invert ch c1 c1))"
  by pat_completeness auto
termination
  by (relation "measure (\<lambda>(_, _, _, _, pat, _). length pat)") auto

declare set_loop.simps [simp del]

lemma set_loop_shorter: "length (fst (set_loop flags invert ch first pat matched)) \<le> length pat"
proof (induction flags invert ch first pat matched rule: set_loop.induct)
  case (1 flags invert ch first pat matched)
  show ?case
  proof (cases pat)
    case Nil
    then show ?thesis by (simp add: set_loop.simps [of flags invert ch first "[]"])
  next
    case (Cons c rest)
    note IH = 1 [OF Cons]
    define esc where "esc = (\<not> has_flag flags FNM_NOESCAPE \<and> c = 0x5C)"
    define p where "p = (if esc then tl rest else rest)"
    define c1 where "c1 = (if esc then hd rest else c)"
    define q where "q = (if \<not> has_flag flags FNM_NOESCAPE \<and> at0 (tl p) = 0x5C then tl (tl p) else tl p)"
    have eq: "set_loop flags invert ch first (c # rest) matched =
        (if c = 0x5D \<and> \<not> first then (c # rest, matched) else if esc \<and> rest = [] then ([], matched)
         else if at0 p = 0x2D \<and> at0 (tl p) \<noteq> 0x5D then
           if q = [] then ([], matched) else set_loop flags invert ch False (tl q) (matched \<or> set_item invert ch c1 (hd q))
         else set_loop flags invert ch False p (matched \<or> set_item invert ch c1 c1))"
      by (subst set_loop.simps) (simp only: list.case Let_def esc_def p_def c1_def q_def)
    have l: "length p < length pat" "length (tl q) < length pat" by (auto simp: Cons p_def q_def)
    show ?thesis
    proof (cases "c = 0x5D \<and> \<not> first \<or> esc \<and> rest = []")
      case True
      then show ?thesis by (auto simp: Cons eq)
    next
      case False
      note IH1 = IH(1) [OF _ esc_def _ c1_def p_def] and IH2 = IH(2) [OF _ esc_def _ c1_def p_def]
      show ?thesis
      proof (cases "at0 p = 0x2D \<and> at0 (tl p) \<noteq> 0x5D")
        case t: True
        show ?thesis
        proof (cases "q = []")
          case True
          then show ?thesis using False t by (simp add: Cons eq)
        next
          case q: False
          have "length (fst (set_loop flags invert ch False (tl q) (matched \<or> set_item invert ch c1 (hd q)))) \<le> length (tl q)"
            by (rule IH1 [OF _ _ t refl q_def q]) (use False in simp_all)
          then show ?thesis using False t q l(2) by (auto simp: Cons eq)
        qed
      next
        case t: False
        have "length (fst (set_loop flags invert ch False p (matched \<or> set_item invert ch c1 c1))) \<le> length p"
          by (rule IH2 [OF _ _ t]) (use False in simp_all)
        then show ?thesis using False t l(1) by (auto simp: Cons eq)
      qed
    qed
  qed
qed

text \<open>\<open>start\<close> is \<open>comp\<close>, the start of the component of the name: a dot there.\<close>

definition leading_dot :: "u32 \<Rightarrow> u8 list \<Rightarrow> u8 list \<Rightarrow> bool" where
  "leading_dot flags name start \<longleftrightarrow> at0 name = 0x2E \<and> has_flag flags FNM_PERIOD \<and> length name = length start"

definition unix_sep :: "u32 \<Rightarrow> u8 list \<Rightarrow> bool" where
  "unix_sep flags name \<longleftrightarrow> has_flag flags FNM_PATHNAME \<and> at0 name = 0x2F"

function match_unix :: "u32 \<Rightarrow> u8 list \<Rightarrow> u8 list \<Rightarrow> u8 list \<Rightarrow> fnm"
  and star_unix :: "u32 \<Rightarrow> u8 list \<Rightarrow> u8 list \<Rightarrow> u8 list \<Rightarrow> fnm" where
  "match_unix flags pat name start = (case pat of
     [] \<Rightarrow>
       if name = [] then FNM_MATCH
       else if has_flag flags FNM_PATHPREFIX \<and> at0 name = 0x2F then FNM_MATCH
       else FNM_NOMATCH
   | c # pat \<Rightarrow>
       if c = 0x3F then
         if name = [] \<or> unix_sep flags name \<or> leading_dot flags name start then FNM_NOMATCH
         else match_unix flags pat (tl name) start
       else if c = 0x2A then
         if leading_dot flags name start then FNM_NOMATCH
         else star_unix flags (dropWhile (\<lambda>c. c = 0x2A) pat) name start
       else if c = 0x2F then
         if \<not> (at0 name = 0x2F \<or> has_flag flags FNM_PATHPREFIX \<and> name = [] \<and>
             (pat = [] \<or> \<not> has_flag flags FNM_NOESCAPE \<and> pat = [0x5C])) then FNM_NOMATCH
         else match_unix flags pat (tl name) (if has_flag flags FNM_PATHNAME then tl name else start)
       else if c = 0x5B then
         if name = [] \<or> unix_sep flags name \<or> leading_dot flags name start then FNM_NOMATCH
         else
           let invert = (at0 pat = 0x21 \<or> at0 pat = 0x5E) in
           (case set_loop flags invert (hd name) True (if invert then tl pat else pat) False of
             (rest, matched) \<Rightarrow>
               if rest = [] then
                 if at0 name \<noteq> 0x5B then FNM_NOMATCH
                 else match_unix flags pat (tl name) start
               else if \<not> matched then FNM_NOMATCH
               else match_unix flags (tl rest) (tl name) start)
       else if c = 0x5C then
         if has_flag flags FNM_NOESCAPE then
           if at0 name \<noteq> 0x5C then FNM_NOMATCH else match_unix flags pat (tl name) start
         else if at0 pat = 0x2A \<or> at0 pat = 0x3F then
           if at0 pat \<noteq> at0 name then FNM_NOMATCH else match_unix flags (tl pat) (tl name) start
         else match_unix flags pat name start
       else if \<not> same_char flags c (at0 name) then FNM_NOMATCH
       else match_unix flags pat (tl name) start)"
| "star_unix flags pat name start =
     (let rc = match_unix flags pat name start in
      if rc \<noteq> FNM_NOMATCH then rc
      else if name = [] then FNM_NOMATCH
      else if unix_sep flags name then FNM_NOMATCH
      else star_unix flags pat (tl name) start)"
  by pat_completeness auto

termination
proof (relation "measures [case_sum (\<lambda>(_, m, _, _). length m) (\<lambda>(_, m, _, _). length m), case_sum (\<lambda>_. 0) (\<lambda>_. 1),
    case_sum (\<lambda>(_, _, n, _). length n) (\<lambda>(_, _, n, _). length n)]"; (simp add: less_Suc_eq_le length_dropWhile_le; fail)?)
  fix flags :: u32 and pat name start rest :: "u8 list" and c :: u8 and pat' and invert matched
  assume p: "pat = c # pat'" and l: "(rest, matched) = set_loop flags invert (hd name) True (if invert then tl pat' else pat') False"
  have "length (fst (set_loop flags invert (hd name) True (if invert then tl pat' else pat') False)) \<le> length (if invert then tl pat' else pat')"
    by (rule set_loop_shorter)
  also have "\<dots> \<le> length pat'" by simp
  finally have "length rest \<le> length pat'" unfolding l [symmetric] by simp
  then have "length (tl rest) < length pat" using p by (cases rest) simp_all
  then show "(Inl (flags, tl rest, tl name, start), Inl (flags, pat, name, start)) \<in>
    measures [case_sum (\<lambda>(_, m, _, _). length m) (\<lambda>(_, m, _, _). length m), case_sum (\<lambda>_. 0) (\<lambda>_. 1),
      case_sum (\<lambda>(_, _, n, _). length n) (\<lambda>(_, _, n, _). length n)]" by simp
qed

declare match_unix.simps [simp del] star_unix.simps [simp del]

subsection \<open>fnmatch\<close>

text \<open>The drive letter of a path, and the path after it; \<open>isalpha\<close> knows the letters of ASCII only.\<close>

definition is_alpha :: "u8 \<Rightarrow> bool" where
  "is_alpha c \<longleftrightarrow> 0x41 \<le> c \<and> c \<le> 0x5A \<or> 0x61 \<le> c \<and> c \<le> 0x7A"

definition drive :: "u8 list \<Rightarrow> u8 option" where
  "drive s = (if is_alpha (at0 s) \<and> at0 (tl s) = 0x3A then Some (at0 s) else None)"

definition after_drive :: "u8 list \<Rightarrow> u8 list" where
  "after_drive s = (if drive s \<noteq> None then drop 2 s else s)"

definition same_drive :: "u32 \<Rightarrow> u8 list \<Rightarrow> u8 list \<Rightarrow> bool" where
  "same_drive flags pat name \<longleftrightarrow> drive pat = drive name \<or>
     (case (drive pat, drive name) of
        (Some m, Some n) \<Rightarrow> has_flag flags FNM_IGNORECASE \<and> nls_tolower m = nls_tolower n
      | _ \<Rightarrow> False)"

text \<open>The mask after \<open>n\<close> slashes, which may be escaped.\<close>

fun skip_slashes :: "nat \<Rightarrow> u8 list \<Rightarrow> u8 list option" where
  "skip_slashes 0 pat = Some pat"
| "skip_slashes (Suc n) pat =
     (if at0 pat = 0x2F then skip_slashes n (tl pat)
      else if at0 pat = 0x5C \<and> at0 (tl pat) = 0x2F then skip_slashes n (drop 2 pat)
      else None)"

lemma skip_comp_shorter:
  assumes "s \<noteq> []"
  shows "length (skip_comp_os2 s) < length s"
proof -
  have "length (skip_comp_os2 s) = length (dropWhile (\<lambda>c. \<not> comp_end c) s) - 1" by (simp add: skip_comp_os2_def)
  moreover have "length (dropWhile (\<lambda>c. \<not> comp_end c) s) \<le> length s" by (rule length_dropWhile_le)
  moreover have "0 < length s" using assms by simp
  ultimately show ?thesis by linarith
qed

lemma skip_comp_Nil [simp]: "skip_comp_os2 [] = []"
  by (simp add: skip_comp_os2_def)

function comp_loop :: "u32 \<Rightarrow> u8 list \<Rightarrow> u8 list \<Rightarrow> fnm" where
  "comp_loop flags pat name =
     (if pat = [] \<and> name = [] then FNM_MATCH
      else if pat = [] \<and> has_flag flags FNM_PATHPREFIX then FNM_MATCH
      else
        let rc = match_comp pat name flags in
        if rc \<noteq> FNM_MATCH then rc
        else comp_loop flags (skip_comp_os2 pat) (skip_comp_os2 name))"
  by pat_completeness auto
termination
proof (relation "measure (\<lambda>(_, pat, name). length pat + length name)")
  fix flags :: u32 and pat name :: "u8 list"
  assume "\<not> (pat = [] \<and> name = [])"
  then show "((flags, skip_comp_os2 pat, skip_comp_os2 name), (flags, pat, name)) \<in> measure (\<lambda>(_, pat, name). length pat + length name)"
    using skip_comp_shorter [of pat] skip_comp_shorter [of name] by (cases "pat = []"; cases "name = []") auto
qed simp

declare comp_loop.simps [simp del]

definition fnmatch :: "u8 list \<Rightarrow> u8 list \<Rightarrow> u32 \<Rightarrow> fnm" where
  "fnmatch pat name flags =
     (if \<not> same_drive flags pat name then FNM_NOMATCH
      else
        let pat = after_drive pat; name = after_drive name in
        if 0x3A \<in> set pat then FNM_ERR
        else if 0x3A \<in> set name then FNM_NOMATCH
        else if flags AND FNM_STYLE_MASK = FNM_OS2 \<or> flags AND FNM_STYLE_MASK = FNM_DOS then
          if comp_sep (at0 name) \<and> comp_sep (at0 (tl name)) then
            if \<not> (comp_sep (at0 pat) \<and> comp_sep (at0 (tl pat))) then FNM_NOMATCH
            else comp_loop flags (drop 2 pat) (drop 2 name)
          else comp_loop flags pat name
        else if flags AND FNM_STYLE_MASK = FNM_POSIX then
          if at0 name = 0x2F \<and> at0 (tl name) = 0x2F then
            (case skip_slashes 2 pat of
              None \<Rightarrow> FNM_NOMATCH
            | Some pat \<Rightarrow> match_unix flags pat (drop 2 name) (drop 2 name))
          else match_unix flags pat name name
        else comp_loop flags pat name)"

end
