(* ===== verification/Ext2_Fnmatch_Props.thy ===== *)
theory Ext2_Fnmatch_Props
  imports Ext2_Fnmatch
begin

text \<open>
  The theorems on wildcards: in the OS/2 and DOS styles the backtracking of the code decides a relation on
  masks and names that says what each character of a mask stands for; a name without wildcards matches
  itself; and an inverted set of the Unix style.
\<close>

section \<open>What a mask stands for\<close>

definition plain_char :: "u8 \<Rightarrow> bool" where
  "plain_char c \<longleftrightarrow> \<not> comp_sep c \<and> c \<noteq> 0x3F \<and> c \<noteq> 0x2A \<and> c \<noteq> 0x2E"

text \<open>
  \<open>wild flags has_dot m n\<close>: the mask \<open>m\<close> stands for the start of \<open>n\<close>, up to the end of the component. A question
  mark is a character other than a dot, or nothing at a dot and at the end; an asterisk is any characters, but
  in DOS style no dot; a dot is a dot, or nothing at the end of a component without dots.
\<close>

inductive wild :: "u32 \<Rightarrow> bool \<Rightarrow> u8 list \<Rightarrow> u8 list \<Rightarrow> bool" for flags has_dot where
  wild_end: "wild flags has_dot [] []"
| wild_prefix: "has_flag flags FNM_PATHPREFIX \<Longrightarrow> comp_sep d \<Longrightarrow> wild flags has_dot [] (d # n)"
| wild_sep: "comp_sep c \<Longrightarrow> comp_sep d \<Longrightarrow> wild flags has_dot (c # m) (d # n)"
| wild_last_sep: "has_flag flags FNM_PATHPREFIX \<Longrightarrow> comp_sep c \<Longrightarrow> wild flags has_dot [c] []"
| wild_any: "wild flags has_dot m n \<Longrightarrow> d \<noteq> 0x2E \<Longrightarrow> \<not> comp_end d \<Longrightarrow> wild flags has_dot (0x3F # m) (d # n)"
| wild_none: "wild flags has_dot m n \<Longrightarrow> at0 n = 0x2E \<or> comp_end (at0 n) \<Longrightarrow> wild flags has_dot (0x3F # m) n"
| wild_star_end: "wild flags has_dot m n \<Longrightarrow> wild flags has_dot (0x2A # m) n"
| wild_star: "wild flags has_dot (0x2A # m) n \<Longrightarrow> \<not> comp_end d \<Longrightarrow> d \<noteq> 0x2E \<or> flags AND FNM_STYLE_MASK \<noteq> FNM_DOS \<Longrightarrow>
    wild flags has_dot (0x2A # m) (d # n)"
| wild_dot: "wild flags has_dot m n \<Longrightarrow> wild flags has_dot (0x2E # m) (0x2E # n)"
| wild_no_dot: "wild flags has_dot m n \<Longrightarrow> \<not> has_dot \<Longrightarrow> comp_end (at0 n) \<Longrightarrow> wild flags has_dot (0x2E # m) n"
| wild_char: "wild flags has_dot m n \<Longrightarrow> plain_char c \<Longrightarrow> same_char flags c d \<Longrightarrow> wild flags has_dot (c # m) (d # n)"

inductive_simps wild_Nil: "wild flags has_dot [] n"
inductive_simps wild_Cons: "wild flags has_dot (c # m) n"

lemma chars_differ:
  "\<not> comp_sep 0x3F" "\<not> comp_sep 0x2A" "\<not> comp_sep 0x2E" "\<not> plain_char 0x3F" "\<not> plain_char 0x2A" "\<not> plain_char 0x2E"
  "\<not> comp_end 0x2E" "comp_end 0" "\<not> comp_sep 0"
  by (simp_all add: comp_sep_def plain_char_def comp_end_def)

lemma plain_not_sep: "plain_char c \<Longrightarrow> \<not> comp_sep c"
  by (simp add: plain_char_def)

text \<open>The relation, character by character.\<close>

lemma wild_star_iff:
  "wild flags has_dot (0x2A # m) n \<longleftrightarrow> wild flags has_dot m n \<or>
     (\<not> comp_end (at0 n) \<and> (at0 n \<noteq> 0x2E \<or> flags AND FNM_STYLE_MASK \<noteq> FNM_DOS) \<and> wild flags has_dot (0x2A # m) (tl n))"
  by (subst wild_Cons) (cases n; auto simp: chars_differ)

lemma wild_any_iff:
  "wild flags has_dot (0x3F # m) n \<longleftrightarrow> wild flags has_dot m (if at0 n \<noteq> 0x2E \<and> \<not> comp_end (at0 n) then tl n else n)"
  by (subst wild_Cons) (cases n; auto simp: chars_differ)

lemma wild_dot_iff:
  "wild flags has_dot (0x2E # m) n \<longleftrightarrow> (if at0 n = 0x2E then wild flags has_dot m (tl n)
     else \<not> has_dot \<and> comp_end (at0 n) \<and> wild flags has_dot m n)"
  by (subst wild_Cons) (cases n; auto simp: chars_differ)

lemma wild_sep_iff:
  "comp_sep c \<Longrightarrow> wild flags has_dot (c # m) n \<longleftrightarrow>
     comp_sep (at0 n) \<or> has_flag flags FNM_PATHPREFIX \<and> m = [] \<and> n = []"
  by (subst wild_Cons) (cases n; auto simp: chars_differ dest: plain_not_sep)

lemma same_char_0:
  assumes "c \<noteq> 0"
  shows "\<not> same_char flags c 0"
proof -
  have "nls_tolower 0 = 0" by (simp add: nls_tolower_def)
  moreover have "c + 0x61 - 0x41 \<noteq> 0" if "c \<le> 0x5A" using that by unat_arith auto
  then have "nls_tolower c \<noteq> 0" using assms by (auto simp: nls_tolower_def)
  ultimately show ?thesis using assms by (simp add: same_char_def)
qed

lemma wild_char_iff:
  assumes "plain_char c" and "c \<noteq> 0"
  shows "wild flags has_dot (c # m) n \<longleftrightarrow> same_char flags c (at0 n) \<and> wild flags has_dot m (tl n)"
  using assms by (subst wild_Cons) (cases n; auto simp: chars_differ same_char_0 dest: plain_not_sep)

lemma wild_Nil_iff: "wild flags has_dot [] n \<longleftrightarrow> n = [] \<or> has_flag flags FNM_PATHPREFIX \<and> comp_sep (at0 n)"
  by (subst wild_Nil) (cases n; auto simp: chars_differ)

lemma wild_two_stars: "wild flags has_dot (0x2A # 0x2A # m) n = wild flags has_dot (0x2A # m) n"
proof (induction n)
  case Nil
  then show ?case by (subst wild_star_iff) (simp add: chars_differ)
next
  case (Cons d n)
  then show ?case by (subst wild_star_iff) (use wild_star_iff [of flags has_dot m "d # n"] in auto)
qed

lemma wild_stars: "wild flags has_dot (0x2A # dropWhile (\<lambda>c. c = 0x2A) m) n = wild flags has_dot (0x2A # m) n"
  by (induction m) (auto simp: wild_two_stars)

text \<open>The code decides it.\<close>

lemma match_wild:
  "0 \<notin> set pat \<longrightarrow> match_comp_os2 flags has_dot pat name = (if wild flags has_dot pat name then FNM_MATCH else FNM_NOMATCH)"
  "0 \<notin> set pat \<longrightarrow> star_os2 flags has_dot pat name = (if wild flags has_dot (0x2A # pat) name then FNM_MATCH else FNM_NOMATCH)"
proof (induction flags has_dot pat name and flags has_dot pat name rule: match_comp_os2_star_os2.induct)
  case (1 flags has_dot pat name)
  show ?case
  proof (cases pat)
    case Nil
    then show ?thesis by (simp add: match_comp_os2.simps wild_Nil_iff)
  next
    case (Cons c m)
    note IH = 1 [OF Cons] and eq = match_comp_os2.simps [of flags has_dot "c # m" name, unfolded list.case]
    have "set (dropWhile (\<lambda>c. c = 0x2A) m) \<subseteq> set m" by (auto dest: set_dropWhileD)
    then have m: "0 \<notin> set pat \<Longrightarrow> 0 \<notin> set m \<and> 0 \<notin> set (dropWhile (\<lambda>c. c = 0x2A) m) \<and> c \<noteq> 0" by (auto simp: Cons)
    consider "comp_sep c" | "c = 0x3F" | "c = 0x2A" | "c = 0x2E" | "plain_char c" by (auto simp: plain_char_def)
    then show ?thesis
    proof cases
      case 1
      then show ?thesis unfolding Cons eq by (auto simp: wild_sep_iff)
    next
      case 2
      then show ?thesis using IH(1) m unfolding Cons eq by (simp add: wild_any_iff chars_differ)
    next
      case 3
      then show ?thesis using IH(2) m unfolding Cons eq by (simp add: wild_stars chars_differ)
    next
      case 4
      have e: "match_comp_os2 flags has_dot (c # m) name = (if at0 name = 0x2E then match_comp_os2 flags has_dot m (tl name)
          else if has_dot \<or> \<not> comp_end (at0 name) then FNM_NOMATCH else match_comp_os2 flags has_dot m name)"
        unfolding eq by (simp add: 4 chars_differ)
      have w: "wild flags has_dot (c # m) name = (if at0 name = 0x2E then wild flags has_dot m (tl name)
          else \<not> has_dot \<and> comp_end (at0 name) \<and> wild flags has_dot m name)"
        unfolding 4 by (rule wild_dot_iff)
      consider "at0 name = 0x2E" | "at0 name \<noteq> 0x2E" "has_dot \<or> \<not> comp_end (at0 name)"
        | "at0 name \<noteq> 0x2E" "\<not> (has_dot \<or> \<not> comp_end (at0 name))" by blast
      then show ?thesis
      proof cases
        case 1
        have "0 \<notin> set m \<longrightarrow> match_comp_os2 flags has_dot m (tl name) = (if wild flags has_dot m (tl name) then FNM_MATCH else FNM_NOMATCH)"
          by (rule IH(3)) (use 1 4 in \<open>simp_all add: chars_differ\<close>)
        then show ?thesis unfolding Cons e w if_P [OF 1] by simp
      next
        case 2
        then show ?thesis unfolding Cons e w by auto
      next
        case 3
        have "0 \<notin> set m \<longrightarrow> match_comp_os2 flags has_dot m name = (if wild flags has_dot m name then FNM_MATCH else FNM_NOMATCH)"
          by (rule IH(4)) (use 3 4 in \<open>simp_all add: chars_differ\<close>)
        then show ?thesis using 3 unfolding Cons e w by simp
      qed
    next
      case 5
      then have n: "\<not> comp_sep c" "c \<noteq> 0x3F" "c \<noteq> 0x2A" "c \<noteq> 0x2E" by (simp_all add: plain_char_def)
      have e: "match_comp_os2 flags has_dot (c # m) name = (if \<not> same_char flags c (at0 name) then FNM_NOMATCH
          else match_comp_os2 flags has_dot m (tl name))"
        unfolding eq by (simp add: n)
      show ?thesis
      proof (cases "same_char flags c (at0 name)")
        case True
        have "0 \<notin> set m \<longrightarrow> match_comp_os2 flags has_dot m (tl name) = (if wild flags has_dot m (tl name) then FNM_MATCH else FNM_NOMATCH)"
          by (rule IH(5)) (use n True in simp_all)
        then show ?thesis using True wild_char_iff [OF 5, of flags has_dot m name] unfolding Cons e by auto
      next
        case False
        then show ?thesis using wild_char_iff [OF 5, of flags has_dot m name] unfolding Cons e by auto
      qed
    qed
  qed
next
  case (2 flags has_dot pat name)
  show ?case
  proof
    assume z: "0 \<notin> set pat"
    let ?go = "\<not> comp_end (at0 name) \<and> (at0 name \<noteq> 0x2E \<or> flags AND FNM_STYLE_MASK \<noteq> FNM_DOS)"
    have m: "match_comp_os2 flags has_dot pat name = (if wild flags has_dot pat name then FNM_MATCH else FNM_NOMATCH)"
      using "2.IH"(1) z by blast
    have st: "star_os2 flags has_dot pat name = (if wild flags has_dot pat name then FNM_MATCH
        else if \<not> ?go then FNM_NOMATCH else star_os2 flags has_dot pat (tl name))"
    proof (cases "wild flags has_dot pat name")
      case False
      then show ?thesis by (subst star_os2.simps) (auto simp: m)
    qed (subst star_os2.simps, simp add: m)
    show "star_os2 flags has_dot pat name = (if wild flags has_dot (0x2A # pat) name then FNM_MATCH else FNM_NOMATCH)"
    proof (cases "\<not> wild flags has_dot pat name \<and> ?go")
      case True
      have "match_comp_os2 flags has_dot pat name = FNM_NOMATCH" using m True by simp
      then have "star_os2 flags has_dot pat (tl name) = (if wild flags has_dot (0x2A # pat) (tl name) then FNM_MATCH else FNM_NOMATCH)"
        using "2.IH"(2) z True by blast
      then show ?thesis unfolding st wild_star_iff [of flags has_dot pat name] using True by simp
    next
      case False
      then show ?thesis unfolding st wild_star_iff [of flags has_dot pat name] by auto
    qed
  qed
qed

section \<open>Names of directory entries\<close>

text \<open>A name of a directory entry as \<open>FindFirst\<close> compares it, or a mask for one: without separators and drives.\<close>

definition one_name :: "u8 list \<Rightarrow> bool" where
  "one_name s \<longleftrightarrow> (\<forall>c \<in> set s. \<not> comp_end c \<and> c \<noteq> 0x3A)"

lemma one_name_skip: "one_name s \<Longrightarrow> skip_comp_os2 s = []"
proof -
  assume "one_name s"
  then have "dropWhile (\<lambda>c. \<not> comp_end c) s = []" by (simp add: one_name_def dropWhile_eq_Nil_conv)
  then show ?thesis unfolding skip_comp_os2_def by (simp only: list.sel)
qed

lemma one_name_plain:
  assumes "one_name s"
  shows "0 \<notin> set s" and "0x3A \<notin> set s" and "\<not> comp_sep (at0 s)" and "drive s = None"
proof -
  show z: "0 \<notin> set s" "0x3A \<notin> set s" using assms chars_differ by (auto simp: one_name_def)
  show "\<not> comp_sep (at0 s)" using assms chars_differ by (cases s) (auto simp: one_name_def comp_end_def)
  have "at0 (tl s) \<noteq> 0x3A"
  proof (cases "tl s")
    case (Cons c t)
    then have "c \<in> set s" by (metis list.set_intros(1) list.set_sel(2) list.distinct(1) list.sel(2))
    then show ?thesis using z(2) Cons by auto
  qed simp
  then show "drive s = None" by (simp add: drive_def)
qed

lemma one_name_dot: "one_name s \<Longrightarrow> (at0 (dropWhile (\<lambda>c. \<not> comp_end c \<and> c \<noteq> 0x2E) s) = 0x2E) = (0x2E \<in> set s)"
  by (induction s) (auto simp: one_name_def)

abbreviation os2_style :: "u32 \<Rightarrow> bool" where
  "os2_style flags \<equiv> flags AND FNM_STYLE_MASK = FNM_OS2 \<or> flags AND FNM_STYLE_MASK = FNM_DOS"

lemma fnmatch_one:
  assumes f: "os2_style flags" "\<not> has_flag flags FNM_PATHPREFIX" and m: "one_name pat" and n: "one_name name"
  shows "fnmatch pat name flags = (if wild flags (0x2E \<in> set name) pat name then FNM_MATCH else FNM_NOMATCH)"
proof -
  note p = one_name_plain [OF m] and q = one_name_plain [OF n]
  have c: "match_comp pat name flags = (if wild flags (0x2E \<in> set name) pat name then FNM_MATCH else FNM_NOMATCH)"
    using f(1) match_wild(1) [of pat flags "0x2E \<in> set name" name] p(1) by (simp add: match_comp_def one_name_dot [OF n])
  have e: "comp_loop flags [] [] = FNM_MATCH" by (subst comp_loop.simps) simp
  have "comp_loop flags pat name = (if wild flags (0x2E \<in> set name) pat name then FNM_MATCH else FNM_NOMATCH)"
  proof (cases "pat = [] \<and> name = []")
    case True
    then show ?thesis using e by (simp add: wild_end)
  next
    case False
    then show ?thesis by (subst comp_loop.simps) (simp add: f(2) c Let_def one_name_skip [OF m] one_name_skip [OF n] e False)
  qed
  then show ?thesis using f(1) p q by (simp add: fnmatch_def same_drive_def after_drive_def Let_def)
qed

lemma wild_same:
  assumes "one_name s" and "0x2A \<notin> set s" and "0x3F \<notin> set s"
  shows "wild flags has_dot s s"
  using assms
proof (induction s)
  case (Cons c s)
  then have w: "wild flags has_dot s s" by (simp add: one_name_def)
  have "\<not> comp_sep c" using Cons.prems(1) by (simp add: one_name_def comp_end_def)
  then show ?case using w Cons.prems by (cases "c = 0x2E") (auto intro: wild.intros simp: plain_char_def same_char_def)
qed (rule wild_end)

lemma wild_star_any: "\<forall>c \<in> set n. \<not> comp_end c \<and> (c \<noteq> 0x2E \<or> flags AND FNM_STYLE_MASK \<noteq> FNM_DOS) \<Longrightarrow> wild flags has_dot m k \<Longrightarrow>
    wild flags has_dot (0x2A # m) (n @ k)"
  by (induction n) (auto intro: wild_star wild_star_end)

lemma wild_all_names:
  assumes n: "one_name n" and f: "flags AND FNM_STYLE_MASK \<noteq> FNM_DOS"
  shows "wild flags (0x2E \<in> set n) [0x2A, 0x2E, 0x2A] n"
proof -
  have any: "\<forall>c \<in> set k. \<not> comp_end c \<and> (c \<noteq> 0x2E \<or> flags AND FNM_STYLE_MASK \<noteq> FNM_DOS)" if "set k \<subseteq> set n" for k
    using n f that by (auto simp: one_name_def)
  show ?thesis
  proof (cases "0x2E \<in> set n")
    case True
    then obtain xs ys where s: "n = xs @ 0x2E # ys" by (meson split_list)
    have "wild flags (0x2E \<in> set n) [0x2A] (ys @ [])" by (rule wild_star_any [OF any wild_end]) (auto simp: s)
    then have "wild flags (0x2E \<in> set n) [0x2E, 0x2A] (0x2E # ys)" by (simp add: wild_dot)
    then show ?thesis unfolding s by (intro wild_star_any any) (auto simp: s)
  next
    case False
    have "wild flags (0x2E \<in> set n) [0x2E, 0x2A] []"
      by (rule wild_no_dot [OF wild_star_end [OF wild_end]]) (use False chars_differ in simp_all)
    then have "wild flags (0x2E \<in> set n) [0x2A, 0x2E, 0x2A] (n @ [])" by (intro wild_star_any any) simp_all
    then show ?thesis by simp
  qed
qed

text \<open>C35. In the styles of OS/2 and DOS, \<open>fnmatch\<close> returns for every mask and every name of a directory entry,
  never with an error, and decides whether the mask stands for the name as the relation \<open>wild\<close> says: the search
  that tries the rest of the mask at one place of the name after the other finds a match whenever there is one.
  So a name without wildcards matches itself, and in OS/2 style, which listing a directory uses, \<open>*.*\<close> matches every
  name, with or without a dot.\<close>

theorem fnmatch_decides:
  assumes "flags AND FNM_STYLE_MASK = FNM_OS2 \<or> flags AND FNM_STYLE_MASK = FNM_DOS" and "\<not> has_flag flags FNM_PATHPREFIX"
    and "one_name pat" and "one_name name"
  shows "fnmatch pat name flags = (if wild flags (0x2E \<in> set name) pat name then FNM_MATCH else FNM_NOMATCH) \<and>
    (0x2A \<notin> set name \<longrightarrow> 0x3F \<notin> set name \<longrightarrow> fnmatch name name flags = FNM_MATCH) \<and>
    (flags AND FNM_STYLE_MASK = FNM_OS2 \<longrightarrow> fnmatch [0x2A, 0x2E, 0x2A] name flags = FNM_MATCH)"
proof (intro conjI impI)
  show "fnmatch pat name flags = (if wild flags (0x2E \<in> set name) pat name then FNM_MATCH else FNM_NOMATCH)"
    by (rule fnmatch_one [OF assms])
next
  assume "0x2A \<notin> set name" "0x3F \<notin> set name"
  then show "fnmatch name name flags = FNM_MATCH"
    using fnmatch_one [OF assms(1,2,4,4)] wild_same [OF assms(4), of flags "0x2E \<in> set name"] by simp
next
  assume "flags AND FNM_STYLE_MASK = FNM_OS2"
  then have d: "flags AND FNM_STYLE_MASK \<noteq> FNM_DOS" by (simp add: FNM_OS2_def FNM_DOS_def)
  have "one_name [0x2A, 0x2E, 0x2A]" by (simp add: one_name_def comp_end_def comp_sep_def)
  from fnmatch_one [OF assms(1,2) this assms(4)] wild_all_names [OF assms(4) d]
  show "fnmatch [0x2A, 0x2E, 0x2A] name flags = FNM_MATCH" by simp
qed

text \<open>The mask \<open>*a?.t\<close> and the name \<open>banana.t\<close>: the asterisk has to go back twice.\<close>

theorem fnmatch_decides_witness:
  "wild FNM_OS2 True [0x2A, 0x61, 0x3F, 0x2E, 0x74] [0x62, 0x61, 0x6E, 0x61, 0x6E, 0x61, 0x2E, 0x74] \<and>
   fnmatch [0x2A, 0x2E, 0x2A] [0x62, 0x61] FNM_OS2 = FNM_MATCH \<and>
   \<not> wild FNM_OS2 True [0x61, 0x2A] [0x62, 0x2E]"
proof -
  have o: "one_name [0x2A, 0x61, 0x3F, 0x2E, 0x74]" "one_name [0x62, 0x61, 0x6E, 0x61, 0x6E, 0x61, 0x2E, 0x74]"
    "one_name [0x62, 0x61]" "one_name [0x61, 0x2A]" "one_name [0x62, 0x2E]" by (simp_all add: one_name_def comp_end_def comp_sep_def)
  have f: "FNM_OS2 AND FNM_STYLE_MASK = FNM_OS2" "\<not> has_flag FNM_OS2 FNM_PATHPREFIX" by code_simp+
  have r: "fnmatch [0x2A, 0x61, 0x3F, 0x2E, 0x74] [0x62, 0x61, 0x6E, 0x61, 0x6E, 0x61, 0x2E, 0x74] FNM_OS2 = FNM_MATCH"
    "fnmatch [0x61, 0x2A] [0x62, 0x2E] FNM_OS2 = FNM_NOMATCH" by code_simp+
  show ?thesis
    using fnmatch_decides [OF disjI1 [OF f(1)] f(2) o(1,2)] fnmatch_decides [OF disjI1 [OF f(1)] f(2) o(3,3)]
      fnmatch_decides [OF disjI1 [OF f(1)] f(2) o(4,5)] r f(1) by (simp split: if_splits)
qed

section \<open>An inverted set\<close>

text \<open>In the Unix style a set \<open>[!c1c2]\<close> of two characters lets every character through, the two of the set too:
  the item that the character is not like sets \<open>matched\<close>.\<close>

lemma inverted_set_matches_all:
  assumes "c1 \<noteq> c2" and "c1 \<notin> {0x2D, 0x5C, 0x5D}" and "c2 \<notin> {0x2D, 0x5C, 0x5D}" and "ch \<noteq> 0" and "ch \<noteq> 0x2E" and "ch \<noteq> 0x2F"
  shows "match_unix flags [0x5B, 0x21, c1, c2, 0x5D] [ch] [ch] = FNM_MATCH"
proof -
  have "set_loop flags True ch False [0x5D] m = ([0x5D], m)" for m by (subst set_loop.simps) simp
  then have "set_loop flags True ch False [c2, 0x5D] m = ([0x5D], m \<or> set_item True ch c2 c2)" for m
    using assms(3) by (subst set_loop.simps) simp
  then have "set_loop flags True ch True [c1, c2, 0x5D] False = ([0x5D], set_item True ch c1 c1 \<or> set_item True ch c2 c2)"
    using assms(2,3) by (subst set_loop.simps) simp
  moreover have "set_item True ch c1 c1 \<or> set_item True ch c2 c2" using assms(1) by (auto simp: set_item_def)
  moreover have "match_unix flags [] [] [ch] = FNM_MATCH" by (subst match_unix.simps) simp
  ultimately show ?thesis
    using assms(5,6) by (subst match_unix.simps) (simp add: unix_sep_def leading_dot_def)
qed

end
