(* ===== verification/Spec2Isabelle.thy ===== *)
theory Spec2Isabelle
  imports Ext2_Balloc_Props Ext2_Core_Props Ext2_Ialloc_Thms Ext2_Truncate_Props Ext2_Dir_Props Ext2_Dcache_Props Ext2_Icache_Example Ext2_Namei_Example Ext2_Write_Props Ext2_Filetab_Example Ext2_Readdir_Example Ext2_Options_Props Ext2_Mount_Example Ext2_Path_Example Ext2_Fnmatch_Props
begin

text \<open>
  A verification library for the ext2 file system driver of OS/2: a 32-bit installable file system
  whose file system code comes from Linux 1.2 (\<open>src/ext2\<close>) and stands on a port of the Linux VFS
  layer (\<open>src/vfs\<close>). OS/2 calls the entry points of \<open>src/fsd32\<close>, which call the VFS, which
  calls the file system through its operation tables; everything reads and writes blocks through
  the buffer cache.

  \<^bold>\<open>Machine and state.\<close> The driver is 32-bit x86 code, so \<open>int\<close> and \<open>long\<close> are 32 bits: the
  prelude names the words \<open>u8\<close>, \<open>u16\<close> and \<open>u32\<close>, signed values are read with \<open>sint\<close>, and
  arithmetic wraps as it does in C. A block is a list of bytes and its fields are read and written
  little endian. The state is passed explicitly, in three layers: the mounted file system (record
  \<open>ext2_fs\<close> of \<open>Ext2_Super\<close>: super block, group descriptors, bitmap caches, buffers with
  contents, dirty flags and reference counts); the driver (record \<open>vfs\<close> of \<open>Ext2_Icache\<close>: the
  file system, the table of inodes in memory with its links, the name cache); and the table of open
  files (record \<open>filetab\<close> of \<open>Ext2_Filetab\<close>), which has the driver as a field. A pointer is an
  index into a table of records, with a value of its own for null.

  \<^bold>\<open>Failures.\<close> An operation that can panic, read through a null pointer, read outside a buffer or
  never come back has the result \<open>None\<close>; loops that the code does not bound are
  \<open>partial_function (option)\<close>, so that \<open>None\<close> is also the value of a loop that does not end, and a
  theorem whose conclusion is \<open>= Some ...\<close> states that the code returns. Error numbers are values as
  in the code. Loops that the code bounds are structural or have a measure. Fuel is used nowhere.

  \<^bold>\<open>What is a parameter.\<close> The outcome of reading a block from the disk (a block can be readable or
  not), the clock, what other threads do while the code sleeps or yields, and the pages that the
  kernel hands out are arguments or fields (the records \<open>env\<close> of the components); the hypotheses
  on them are named in the theorems.

  \<^bold>\<open>The theories\<close>, in the order of the layers:
  \<^item> \<open>Ext2_Prelude\<close>, \<open>Ext2_Ring\<close>: words, lists, collections; doubly linked rings and chains over
    explicit links, shared by the name cache, the inode table, the buffer cache and the open files.
  \<^item> \<open>Ext2_Bitops\<close> (\<open>include/asm/bitops.h\<close>, \<open>src/vfs/bitops.asm\<close>, \<open>src/ext2/bitmap.c\<close>): bits of
    a buffer and the zero-bit searches, specified by the first zero bit from a position on.
  \<^item> \<open>Ext2_Super\<close> (\<open>src/ext2/super.c\<close>, the headers): super block, descriptors, error reporting, the
    check of the descriptors at mount.
  \<^item> \<open>Ext2_Bitmap_Cache\<close>: both caches of loaded bitmaps of \<open>balloc.c\<close> and \<open>ialloc.c\<close>. The locale
    \<open>bitmap_loader\<close> is what the allocators use of them, interpreted as \<open>blk\<close> and \<open>ino\<close>.
  \<^item> \<open>Ext2_Balloc\<close>, \<open>_Correct\<close>, \<open>_Props\<close> (\<open>src/ext2/balloc.c\<close>): allocating and freeing blocks.
    The specification is over views (which blocks are in use, the free counts); the theorems show
    that an allocated block was free and no block of the file system's own, that counts and bitmaps
    stay in agreement, that a free block is found when there is one, and that freeing undoes it.
  \<^item> \<open>Ext2_Core_Props\<close>: bit searches, the caches as least-recently-used lists, descriptor checks.
  \<^item> \<open>Ext2_Inode\<close>, \<open>_Props\<close> (\<open>src/ext2/inode.c\<close>): inodes in memory and on the disk, the round trip.
  \<^item> \<open>Ext2_Ialloc\<close>, \<open>_Props\<close>, \<open>_Thms\<close> (\<open>src/ext2/ialloc.c\<close>): allocating and freeing inodes.
  \<^item> \<open>Ext2_Bmap\<close>, \<open>_Props\<close>: the block map of a file with its three levels of indirection.
  \<^item> \<open>Ext2_Truncate\<close>, \<open>_Props\<close> (\<open>src/ext2/truncate.c\<close>): cutting a file. \<open>frees\<close> is the frame of freeing a set of
    blocks, whichever runs they are freed in; \<open>pending\<close> relates a collected run to its blocks.
  \<^item> \<open>Ext2_Dir\<close>, \<open>_Props\<close>, \<open>Ext2_Find_Props\<close> (\<open>src/ext2/dir.c\<close>, \<open>namei.c\<close>): directory blocks as
    lists of entries, and the search through a whole directory with its read-ahead window.
  \<^item> \<open>Ext2_Dcache\<close>, \<open>_Props\<close> (\<open>src/vfs/dcache.c\<close>): the name cache; it refines two lists.
  \<^item> \<open>Ext2_Icache\<close>, \<open>_Props\<close>, \<open>Ext2_Iget_Props\<close>, \<open>_Example\<close> (\<open>src/vfs/inode.c\<close>): the inode table,
    its invariant (one ring of all inodes, one chain for each hash value), \<open>iget\<close> and \<open>iput\<close>.
  \<^item> \<open>Ext2_Namei\<close>, \<open>_Props\<close>, \<open>_Example\<close> (\<open>src/ext2/namei.c\<close>): lookup, create, mkdir, rmdir, unlink,
    link, rename on the whole driver.
  \<^item> \<open>Ext2_File\<close>, \<open>_Props\<close>, \<open>Ext2_Write_Props\<close> (\<open>src/ext2/file.c\<close>, \<open>src/vfs/read_write.c\<close>,
    \<open>src/misc/maperr.c\<close>): reading and writing; a file is a function from positions to bytes.
  \<^item> \<open>Ext2_Filetab\<close>, \<open>_Props\<close>, \<open>_Thms\<close>, \<open>_Example\<close> (\<open>src/vfs/file_table.c\<close>, \<open>src/misc/files.c\<close>):
    the table of open files. The locale \<open>file_lists\<close> is the contract of its four lists, interpreted
    as \<open>ft\<close> on the rings of the code. What each operation does with the lists is one theorem, with the one
    operation that leaves the table ill formed, \<open>release_files\<close>.
  \<^item> \<open>Ext2_Readdir\<close>, \<open>_Props\<close>, \<open>_Example\<close> (\<open>src/ext2/dir.c\<close>): listing a directory.
  \<^item> \<open>Ext2_Example\<close>: the small file system on which the witnesses apply the theorems.
  \<^item> \<open>Ext2_Options\<close>, \<open>_Props\<close> (\<open>src/ext2/super.c\<close>, \<open>src/util\<close>): the mount options, with \<open>strtok\<close> and \<open>strtoul\<close>.
  \<^item> \<open>Ext2_Mount\<close>, \<open>_Refs\<close>, \<open>_Props\<close>, \<open>_Example\<close> (\<open>src/ext2/super.c\<close>, \<open>src/fsd32/fs32_mount.c\<close>): mounting,
    remounting and unmounting, on the super block in memory (record \<open>super\<close>, which has the driver as a
    field); \<open>settled\<close> is the frame of everything that a mount does to the file system, and \<open>mounted\<close> what it
    establishes.
  \<^item> \<open>Ext2_Path\<close>, \<open>_Props\<close>, \<open>_Thms\<close>, \<open>_Example\<close> (\<open>src/vfs/namei.c\<close>, \<open>open_by_name\<close> of \<open>src/misc/files.c\<close>, four
    entry points of \<open>src/fsd32\<close>): names with directories in them. \<open>tells\<close> says that the name cache holds no
    lie, \<open>walked\<close> is the frame of a walk (counts, allocation hints, the name cache), and \<open>path_to\<close> the
    relation between a path and the inode it leads to, which \<open>namei\<close> is shown to compute.
  \<^item> \<open>Ext2_Fnmatch\<close>, \<open>_Props\<close> (\<open>src/util/fnmatch.c\<close>): wildcards, with which the listing of a directory compares names.
    \<open>wild\<close> is the relation of masks and names that the backtracking search is shown to decide.

  \<^bold>\<open>Where the model is narrower than the code.\<close> An inode number, the average numbers of free inodes and blocks,
  and the size of a directory or a file are compared unsigned; the code compares some of them as signed numbers
  (\<open>ialloc.c\<close>, \<open>namei.c\<close>), which is the same below \<open>2 ^ 31\<close>. \<open>ext2_free_inode\<close> starts behind the tests for an
  inode without device or without super block, which are in \<open>frees_inode\<close> of \<open>Ext2_Icache\<close>. The super block and
  the group descriptors are kept decoded, as fields of the state; the bytes of their buffers are read at mount and
  are not kept in step with the fields. Writing a buffer that has contents does not fail. Nothing runs between two statements of a loop of truncation.

  \<^bold>\<open>Not modelled.\<close> The other entry points of \<open>src/fsd32\<close> and the thunks, device helpers and file system
  helpers around them (\<open>src/interface\<close>, \<open>src/devhlp32\<close>, \<open>src/fsh32\<close>) translate between OS/2
  structures and calls of the VFS and are mostly calls of the kernel; the request queue and the
  strategy routines (\<open>ll_rw_block.c\<close>, \<open>request_list.c\<close>, \<open>strategy2.asm\<close>) talk to the device, which
  appears as the outcome of reading a block; \<open>pageio.c\<close> is the interface to the swapper; the code
  that takes over the state of the boot-time mini file system converts 16-bit pointers. Logging,
  formatting and the ring-3 library have no state. The conversions of attributes, times and names in
  \<open>src/util\<close> belong to the entry points that are left out. Sleeping is modelled where the code checks again
  afterwards; true concurrency between processors is not, as the driver runs on one.
\<close>

end
